(* ===== verification/Prelude.thy ===== *)
theory Prelude
  imports Main "HOL-Library.Sublist"
begin

text \<open>
  Shared vocabulary of the development: Python's string operations as the modelled modules use
  them, on the alphabet U+0000 .. U+00FF (a \<open>string\<close> is read as the list of its code points, so
  Latin-1), results that may fail, and the generic list lemmas the components share.

  The character classes below are those of CPython on that alphabet: \<open>str.isspace\<close>,
  \<open>str.isdigit\<close> (which accepts the superscripts U+00B2, U+00B3 and U+00B9), the decimal digits
  that \<open>int\<close> accepts, and \<open>str.isalnum\<close>.
\<close>

named_theorems pystr_defs
named_theorems pystr_sets

subsection \<open>Results\<close>

text \<open>A computation that raises is \<open>Inl\<close> of the exception, one that returns is \<open>Inr\<close>.\<close>

fun bindR :: "'e + 'a \<Rightarrow> ('a \<Rightarrow> 'e + 'b) \<Rightarrow> 'e + 'b" where
  "bindR (Inl e) f = Inl e"
| "bindR (Inr x) f = f x"

lemma bindR_Inr_iff [simp]: "bindR r f = Inr y \<longleftrightarrow> (\<exists>x. r = Inr x \<and> f x = Inr y)"
  by (cases r) auto

lemma bindR_Inl_iff: "bindR r f = Inl e \<longleftrightarrow> r = Inl e \<or> (\<exists>x. r = Inr x \<and> f x = Inl e)"
  by (cases r) auto

fun mapR :: "('a \<Rightarrow> 'e + 'b) \<Rightarrow> 'a list \<Rightarrow> 'e + 'b list" where
  "mapR f [] = Inr []"
| "mapR f (x # xs) = bindR (f x) (\<lambda>y. bindR (mapR f xs) (\<lambda>ys. Inr (y # ys)))"

fun foldR :: "('a \<Rightarrow> 's \<Rightarrow> 'e + 's) \<Rightarrow> 'a list \<Rightarrow> 's \<Rightarrow> 'e + 's" where
  "foldR f [] s = Inr s"
| "foldR f (x # xs) s = bindR (f x s) (foldR f xs)"

lemma foldR_invariant:
  assumes "\<And>x s t. x \<in> set xs \<Longrightarrow> P s \<Longrightarrow> f x s = Inr t \<Longrightarrow> P t" and "foldR f xs s = Inr t" and "P s"
  shows "P t"
  using assms by (induction xs arbitrary: s) auto

lemma mapR_length: "mapR f xs = Inr ys \<Longrightarrow> length ys = length xs"
  by (induction xs arbitrary: ys) auto

subsection \<open>Character classes\<close>

definition code :: "char \<Rightarrow> nat" where
  "code c = of_char c"

definition in_range :: "nat \<Rightarrow> nat \<Rightarrow> char \<Rightarrow> bool" where
  "in_range lo hi c \<longleftrightarrow> lo \<le> code c \<and> code c \<le> hi"

definition is_lower_az :: "char \<Rightarrow> bool" where
  "is_lower_az c \<longleftrightarrow> in_range 97 122 c"

definition is_upper_az :: "char \<Rightarrow> bool" where
  "is_upper_az c \<longleftrightarrow> in_range 65 90 c"

definition is_dec :: "char \<Rightarrow> bool" where
  "is_dec c \<longleftrightarrow> in_range 48 57 c"

definition is_alpha_az :: "char \<Rightarrow> bool" where
  "is_alpha_az c \<longleftrightarrow> is_lower_az c \<or> is_upper_az c"

definition is_alnum_az :: "char \<Rightarrow> bool" where
  "is_alnum_az c \<longleftrightarrow> is_alpha_az c \<or> is_dec c"

definition is_hex_lower :: "char \<Rightarrow> bool" where
  "is_hex_lower c \<longleftrightarrow> is_dec c \<or> in_range 97 102 c"

definition is_hex :: "char \<Rightarrow> bool" where
  "is_hex c \<longleftrightarrow> is_hex_lower c \<or> in_range 65 70 c"

text \<open>\<open>str.isspace\<close>, which is also what \<open>\s\<close> matches and what \<open>str.strip\<close> removes.\<close>

definition is_space :: "char \<Rightarrow> bool" where
  "is_space c \<longleftrightarrow> in_range 9 13 c \<or> in_range 28 32 c \<or> code c = 133 \<or> code c = 160"

text \<open>\<open>str.isdigit\<close> of one character.\<close>

definition is_digit_py :: "char \<Rightarrow> bool" where
  "is_digit_py c \<longleftrightarrow> is_dec c \<or> code c = 178 \<or> code c = 179 \<or> code c = 185"

text \<open>\<open>str.isalnum\<close> of one character.\<close>

definition is_alnum_py :: "char \<Rightarrow> bool" where
  "is_alnum_py c \<longleftrightarrow> is_alnum_az c \<or> code c \<in> {170, 178, 179, 181, 185, 186, 188, 189, 190}
     \<or> (192 \<le> code c \<and> code c \<noteq> 215 \<and> code c \<noteq> 247)"

lemmas char_class_defs =
  in_range_def is_lower_az_def is_upper_az_def is_dec_def is_alpha_az_def is_alnum_az_def
  is_hex_lower_def is_hex_def is_space_def is_digit_py_def is_alnum_py_def

lemma code_eq_iff: "code c = code d \<longleftrightarrow> c = d"
  by (simp add: code_def)

lemma code_less_256: "code c < 256"
  by (simp add: code_def)

lemma is_alnum_az_code:
  "is_alnum_az c \<Longrightarrow> code c \<in> {48..57} \<union> {65..90} \<union> {97..122}"
  by (auto simp: char_class_defs)

subsection \<open>Case mapping\<close>

text \<open>
  \<open>str.lower\<close> and \<open>str.upper\<close>. The two characters whose upper case leaves the alphabet (U+00B5
  and U+00FF) stay as they are, and sharp s becomes two letters as in CPython.
\<close>

definition lower_char :: "char \<Rightarrow> char" where
  "lower_char c =
     (if is_upper_az c \<or> (192 \<le> code c \<and> code c \<le> 222 \<and> code c \<noteq> 215)
      then char_of (code c + 32) else c)"

definition upper_char :: "char \<Rightarrow> string" where
  "upper_char c =
     (if is_lower_az c \<or> (224 \<le> code c \<and> code c \<le> 254 \<and> code c \<noteq> 247)
      then [char_of (code c - 32)] else if code c = 223 then ''SS'' else [c])"

definition str_lower :: "string \<Rightarrow> string" where
  "str_lower s = map lower_char s"

definition str_upper :: "string \<Rightarrow> string" where
  "str_upper s = concat (map upper_char s)"

lemma str_lower_id: "(\<And>c. c \<in> set s \<Longrightarrow> lower_char c = c) \<Longrightarrow> str_lower s = s"
  by (simp add: str_lower_def map_idI)

subsection \<open>Searching and cutting\<close>

definition starts_with :: "string \<Rightarrow> string \<Rightarrow> bool" where
  "starts_with p s \<longleftrightarrow> take (length p) s = p"

definition ends_with :: "string \<Rightarrow> string \<Rightarrow> bool" where
  "ends_with p s \<longleftrightarrow> length p \<le> length s \<and> drop (length s - length p) s = p"

lemma starts_with_prefix: "starts_with p s \<longleftrightarrow> prefix p s"
  by (metis append_eq_conv_conj append_take_drop_id prefix_def starts_with_def)

text \<open>\<open>s.partition(c)\<close> for a one-character separator: head, whether it was found, tail.\<close>

definition partition_at :: "char \<Rightarrow> string \<Rightarrow> string \<times> bool \<times> string" where
  "partition_at c s = (takeWhile (\<lambda>x. x \<noteq> c) s, c \<in> set s, drop 1 (dropWhile (\<lambda>x. x \<noteq> c) s))"

text \<open>\<open>s.rsplit(c, 1)\<close> when the separator occurs: everything before the last one, and after it.\<close>

definition rpartition_at :: "char \<Rightarrow> string \<Rightarrow> string \<times> string" where
  "rpartition_at c s =
     (let r = rev s in
      (rev (drop 1 (dropWhile (\<lambda>x. x \<noteq> c) r)), rev (takeWhile (\<lambda>x. x \<noteq> c) r)))"

text \<open>\<open>s.split(c)\<close>: every occurrence cuts, empty pieces are kept.\<close>

fun split_on :: "char \<Rightarrow> string \<Rightarrow> string list" where
  "split_on c [] = [[]]"
| "split_on c (x # xs) =
     (if x = c then [] # split_on c xs
      else (case split_on c xs of [] \<Rightarrow> [[x]] | p # ps \<Rightarrow> (x # p) # ps))"

fun join_with :: "string \<Rightarrow> string list \<Rightarrow> string" where
  "join_with sep [] = []"
| "join_with sep [p] = p"
| "join_with sep (p # ps) = p @ sep @ join_with sep ps"

definition lstrip_by :: "(char \<Rightarrow> bool) \<Rightarrow> string \<Rightarrow> string" where
  "lstrip_by P s = dropWhile P s"

definition rstrip_by :: "(char \<Rightarrow> bool) \<Rightarrow> string \<Rightarrow> string" where
  "rstrip_by P s = rev (dropWhile P (rev s))"

definition strip_by :: "(char \<Rightarrow> bool) \<Rightarrow> string \<Rightarrow> string" where
  "strip_by P s = rstrip_by P (lstrip_by P s)"

text \<open>\<open>s.replace(old, new)\<close> for a one-character \<open>old\<close>.\<close>

definition replace_char :: "char \<Rightarrow> string \<Rightarrow> string \<Rightarrow> string" where
  "replace_char c new s = concat (map (\<lambda>x. if x = c then new else [x]) s)"

text \<open>\<open>s.split(None, 1)\<close>: the first word and what follows the blanks after it.\<close>

definition split_first_word :: "string \<Rightarrow> string list" where
  "split_first_word s =
     (let s1 = lstrip_by is_space s; w = takeWhile (\<lambda>c. \<not> is_space c) s1;
          r = lstrip_by is_space (dropWhile (\<lambda>c. \<not> is_space c) s1)
      in if w = [] then [] else if r = [] then [w] else [w, r])"

subsection \<open>Laws of the string operations\<close>

text \<open>\<open>s.split()\<close>.\<close>

definition split_ws :: "string \<Rightarrow> string list" where
  "split_ws s = filter (\<lambda>w. w \<noteq> []) (foldr (\<lambda>c ws. if is_space c then [] # ws else (c # hd ws) # tl ws) s [[]])"

text \<open>\<open>s.splitlines()\<close>, the current line first.\<close>

definition line_break :: "char \<Rightarrow> bool" where
  "line_break c \<longleftrightarrow> in_range 10 13 c \<or> in_range 28 30 c \<or> code c = 133"

fun splitlines :: "string \<Rightarrow> string \<Rightarrow> string list" where
  "splitlines cur [] = (if cur = [] then [] else [cur])"
| "splitlines cur (c # s) =
     (if c = CHR 0x0D \<and> s \<noteq> [] \<and> hd s = CHR 0x0A then cur # splitlines [] (tl s)
      else if line_break c then cur # splitlines [] s
      else splitlines (cur @ [c]) s)"

lemma split_on_not_Nil [simp]: "split_on c s \<noteq> []"
  by (induction s) (auto split: list.splits)

lemma split_on_no_sep: "p \<in> set (split_on c s) \<Longrightarrow> c \<notin> set p"
proof (induction s arbitrary: p)
  case Nil
  then show ?case by simp
next
  case (Cons x xs)
  then show ?case
    by (cases "split_on c xs") (auto split: if_splits)
qed

lemma split_on_id: "c \<notin> set s \<Longrightarrow> split_on c s = [s]"
  by (induction s) auto

lemma split_on_append:
  "c \<notin> set p \<Longrightarrow> split_on c (p @ c # s) = p # split_on c s"
  by (induction p) auto

lemma set_split_on: "p \<in> set (split_on c s) \<Longrightarrow> x \<in> set p \<Longrightarrow> x \<in> set s"
proof (induction s arbitrary: p)
  case Nil
  then show ?case by simp
next
  case (Cons y ys)
  show ?case
  proof (cases "y = c")
    case True
    with Cons show ?thesis by auto
  next
    case False
    obtain q qs where q: "split_on c ys = q # qs" by (cases "split_on c ys") auto
    with False Cons.prems have "p = y # q \<or> p \<in> set (split_on c ys)" by auto
    with Cons q show ?thesis by fastforce
  qed
qed

lemma join_split: "join_with [c] (split_on c s) = s"
proof (induction s)
  case Nil
  then show ?case by simp
next
  case (Cons x xs)
  then show ?case
    by (cases "split_on c xs" rule: list.exhaust; cases "tl (split_on c xs)")
       (auto split: list.splits)
qed

lemma split_join:
  assumes "ps \<noteq> []" and "\<forall>p \<in> set ps. c \<notin> set p"
  shows "split_on c (join_with [c] ps) = ps"
  using assms
proof (induction "[c]" ps rule: join_with.induct)
  case 1
  then show ?case by simp
next
  case (2 p)
  then show ?case by (simp add: split_on_id)
next
  case (3 p q qs)
  then show ?case by (simp add: split_on_append)
qed

lemma suffix_last_join: "ps \<noteq> [] \<Longrightarrow> suffix (last ps) (join_with sep ps)"
  by (induction sep ps rule: join_with.induct) (auto simp: suffix_def)

lemma partition_at_notin: "c \<notin> set s \<Longrightarrow> partition_at c s = (s, False, [])"
proof -
  assume a: "c \<notin> set s"
  then have t: "takeWhile (\<lambda>x. x \<noteq> c) s = s" and d: "dropWhile (\<lambda>x. x \<noteq> c) s = []"
    by (auto simp: takeWhile_eq_all_conv dropWhile_eq_Nil_conv)
  show ?thesis unfolding partition_at_def t d using a by simp
qed

lemma partition_at_append:
  "c \<notin> set p \<Longrightarrow> partition_at c (p @ c # s) = (p, True, s)"
  by (auto simp: partition_at_def takeWhile_append dropWhile_append takeWhile_eq_all_conv
                 dropWhile_eq_Nil_conv)

lemma partition_at_join:
  "partition_at c s = (h, True, t) \<Longrightarrow> s = h @ c # t"
proof -
  assume a: "partition_at c s = (h, True, t)"
  then have "c \<in> set s" by (simp add: partition_at_def)
  then obtain p r where "s = p @ c # r" "c \<notin> set p"
    by (meson split_list_first)
  with a partition_at_append [of c p r] show ?thesis by simp
qed

lemma rpartition_at_append:
  "c \<notin> set t \<Longrightarrow> rpartition_at c (h @ c # t) = (h, t)"
  by (simp add: rpartition_at_def Let_def takeWhile_append dropWhile_append
        takeWhile_eq_all_conv dropWhile_eq_Nil_conv)

lemma rpartition_at_join:
  assumes "c \<in> set s"
  shows "s = fst (rpartition_at c s) @ c # snd (rpartition_at c s)"
    and "c \<notin> set (snd (rpartition_at c s))"
proof -
  obtain h t where s: "s = h @ c # t" and c: "c \<notin> set t"
    using assms by (meson split_list_last)
  from rpartition_at_append [OF c, of h] s c
  show "s = fst (rpartition_at c s) @ c # snd (rpartition_at c s)"
    and "c \<notin> set (snd (rpartition_at c s))" by simp_all
qed

lemma rstrip_set: "c \<in> set (rstrip_by P s) \<Longrightarrow> c \<in> set s"
  by (auto simp: rstrip_by_def dest: set_dropWhileD)

lemma strip_set: "c \<in> set (strip_by P s) \<Longrightarrow> c \<in> set s"
  by (auto simp: strip_by_def lstrip_by_def dest!: rstrip_set set_dropWhileD)

lemma rstrip_prefix: "\<exists>t. s = rstrip_by P s @ t \<and> (\<forall>c \<in> set t. P c)"
proof -
  have "s = rev (takeWhile P (rev s) @ dropWhile P (rev s))" by simp
  then have "s = rstrip_by P s @ rev (takeWhile P (rev s))"
    unfolding rstrip_by_def by (simp only: rev_append)
  moreover have "\<forall>c \<in> set (rev (takeWhile P (rev s))). P c"
    by (auto dest: set_takeWhileD)
  ultimately show ?thesis by blast
qed

lemma strip_id: "s \<noteq> [] \<Longrightarrow> \<not> P (hd s) \<Longrightarrow> \<not> P (last s) \<Longrightarrow> strip_by P s = s"
proof -
  assume a: "s \<noteq> []" "\<not> P (hd s)" "\<not> P (last s)"
  then have "dropWhile P s = s" by (cases s) auto
  moreover have "dropWhile P (rev s) = rev s"
    using a by (cases s rule: rev_cases) auto
  ultimately show ?thesis by (simp add: strip_by_def lstrip_by_def rstrip_by_def)
qed

subsection \<open>Dictionaries in insertion order\<close>

text \<open>A Python dict as the list of its items: a new key goes to the end, an old one keeps its place.\<close>

fun dict_set :: "'k \<Rightarrow> 'v \<Rightarrow> ('k \<times> 'v) list \<Rightarrow> ('k \<times> 'v) list" where
  "dict_set k v [] = [(k, v)]"
| "dict_set k v ((a, b) # d) = (if a = k then (k, v) # d else (a, b) # dict_set k v d)"

definition dict_get :: "('k \<times> 'v) list \<Rightarrow> 'k \<Rightarrow> 'v option" where
  "dict_get d k = map_of d k"

definition dict_del :: "'k \<Rightarrow> ('k \<times> 'v) list \<Rightarrow> ('k \<times> 'v) list" where
  "dict_del k d = filter (\<lambda>(a, _). a \<noteq> k) d"

definition dict_update :: "('k \<times> 'v) list \<Rightarrow> ('k \<times> 'v) list \<Rightarrow> ('k \<times> 'v) list" where
  "dict_update new d = fold (\<lambda>(k, v) e. dict_set k v e) new d"

lemma dict_get_set [simp]: "dict_get (dict_set k v d) j = (if j = k then Some v else dict_get d j)"
  by (induction k v d rule: dict_set.induct) (auto simp: dict_get_def)

lemma dict_get_Nil [simp]: "dict_get [] k = None"
  by (simp add: dict_get_def)

lemma dict_get_del [simp]: "dict_get (dict_del k d) j = (if j = k then None else dict_get d j)"
  by (induction d) (auto simp: dict_get_def dict_del_def)

lemma dict_keys_set: "fst ` set (dict_set k v d) = insert k (fst ` set d)"
  by (induction k v d rule: dict_set.induct) auto

lemma dict_distinct_set: "distinct (map fst d) \<Longrightarrow> distinct (map fst (dict_set k v d))"
proof (induction k v d rule: dict_set.induct)
  case (2 k v a b d)
  have "a \<in> fst ` set (dict_set k v d) \<longleftrightarrow> a \<in> insert k (fst ` set d)" by (simp only: dict_keys_set)
  with 2 show ?case by auto
qed simp

lemma dict_set_new: "k \<notin> fst ` set d \<Longrightarrow> dict_set k v d = d @ [(k, v)]"
  by (induction k v d rule: dict_set.induct) auto

lemma dict_get_Some_in: "dict_get d k = Some v \<Longrightarrow> (k, v) \<in> set d"
  by (auto simp: dict_get_def dest: map_of_SomeD)

lemma dict_get_None_iff: "dict_get d k = None \<longleftrightarrow> k \<notin> fst ` set d"
  by (simp add: dict_get_def map_of_eq_None_iff)

subsection \<open>Decimal numbers\<close>

definition dec_val :: "char \<Rightarrow> nat" where
  "dec_val c = code c - 48"

fun dec_acc :: "nat \<Rightarrow> string \<Rightarrow> nat" where
  "dec_acc n [] = n"
| "dec_acc n (c # cs) = dec_acc (10 * n + dec_val c) cs"

text \<open>The value of a string of decimal digits, as \<open>int\<close> reads it.\<close>

definition dec_nat :: "string \<Rightarrow> nat" where
  "dec_nat s = dec_acc 0 s"

text \<open>
  \<open>int(s)\<close> with base 10: blanks around, an optional sign, decimal digits with single underscores
  between them. \<open>None\<close> is the \<open>ValueError\<close>.
\<close>

definition digit_groups :: "string \<Rightarrow> bool" where
  "digit_groups s \<longleftrightarrow> (\<forall>p \<in> set (split_on CHR ''_'' s). p \<noteq> [] \<and> list_all is_dec p)"

definition py_int :: "string \<Rightarrow> int option" where
  "py_int s =
     (let t = strip_by is_space s;
          neg = (t \<noteq> [] \<and> hd t = CHR ''-'');
          body = (if t \<noteq> [] \<and> (hd t = CHR ''-'' \<or> hd t = CHR ''+'') then tl t else t)
      in if digit_groups body
         then Some ((if neg then -1 else 1) * int (dec_nat (filter (\<lambda>c. c \<noteq> CHR ''_'') body)))
         else None)"

text \<open>\<open>str(n)\<close> of a natural number.\<close>

fun nat_str :: "nat \<Rightarrow> string" where
  "nat_str n = (if n < 10 then [char_of (48 + n)] else nat_str (n div 10) @ [char_of (48 + n mod 10)])"

declare nat_str.simps [simp del]

definition int_str :: "int \<Rightarrow> string" where
  "int_str i = (if i < 0 then ''-'' @ nat_str (nat (- i)) else nat_str (nat i))"

end
