(* ===== verification/Py_Regex.thy ===== *)
theory Py_Regex
  imports Prelude
begin

text \<open>
  Python's \<open>re\<close> for the patterns the modelled modules compile: character classes, concatenation,
  ordered alternation, greedy and lazy repetition, numbered groups, a backreference, lookahead and
  the end anchors. A match is a list of successes in the order the backtracking engine of CPython
  tries them, so the first element is the answer of \<open>match\<close>, and the first element that consumes
  everything is the answer of \<open>fullmatch\<close>. A repetition goes on only while its body consumes
  something, which is the engine's guard against empty iterations and the reason the matcher
  terminates.

  The language \<open>lang\<close> is the reference meaning of the patterns without anchors, backreferences and
  lookahead; \<open>fullmatch_iff_lang\<close> shows that the matcher accepts exactly that language, so the
  lemmas of the clients argue about strings and never about the backtracking.
\<close>

datatype rx =
    REps
  | RCls "char \<Rightarrow> bool"
  | RCat rx rx
  | RAlt rx rx
  | RStar rx
  | RLazy rx
  | RGrp nat rx
  | RBack nat
  | RLook rx
  | REnd
  | REol

type_synonym caps = "nat \<rightharpoonup> string"
type_synonym mstate = "caps \<times> string"

fun rx_size :: "rx \<Rightarrow> nat" where
  "rx_size (RCat a b) = Suc (rx_size a + rx_size b)"
| "rx_size (RAlt a b) = Suc (rx_size a + rx_size b)"
| "rx_size (RStar a) = Suc (rx_size a)"
| "rx_size (RLazy a) = Suc (rx_size a)"
| "rx_size (RGrp i a) = Suc (rx_size a)"
| "rx_size (RLook a) = Suc (rx_size a)"
| "rx_size _ = 0"

text \<open>The consumed part of an input, given what is left of it.\<close>

definition eaten :: "string \<Rightarrow> string \<Rightarrow> string" where
  "eaten s rest = take (length s - length rest) s"

function succs :: "rx \<Rightarrow> mstate \<Rightarrow> mstate list" where
  "succs REps (c, s) = [(c, s)]"
| "succs (RCls P) (c, s) = (case s of [] \<Rightarrow> [] | x # xs \<Rightarrow> if P x then [(c, xs)] else [])"
| "succs (RCat a b) (c, s) = concat (map (succs b) (succs a (c, s)))"
| "succs (RAlt a b) (c, s) = succs a (c, s) @ succs b (c, s)"
| "succs (RStar a) (c, s) =
     concat (map (\<lambda>st. if length (snd st) < length s then succs (RStar a) st else [])
       (succs a (c, s))) @ [(c, s)]"
| "succs (RLazy a) (c, s) =
     (c, s) # concat (map (\<lambda>st. if length (snd st) < length s then succs (RLazy a) st else [])
       (succs a (c, s)))"
| "succs (RGrp i a) (c, s) = map (\<lambda>(c', s'). (c'(i \<mapsto> eaten s s'), s')) (succs a (c, s))"
| "succs (RBack i) (c, s) =
     (case c i of None \<Rightarrow> [] | Some t \<Rightarrow>
        if starts_with t s then [(c, drop (length t) s)] else [])"
| "succs (RLook a) (c, s) = (case succs a (c, s) of [] \<Rightarrow> [] | (c', _) # _ \<Rightarrow> [(c', s)])"
| "succs REnd (c, s) = (if s = [] then [(c, s)] else [])"
| "succs REol (c, s) = (if s = [] \<or> s = [CHR 0x0A] then [(c, s)] else [])"
  by pat_completeness auto
termination
  by (relation "measures [\<lambda>(r, _). rx_size r, \<lambda>(_, st). length (snd st)]") auto

declare succs.simps [simp del]

subsection \<open>The surface syntax of the patterns\<close>

definition ROpt :: "rx \<Rightarrow> rx" where
  "ROpt r = RAlt r REps"

definition RPlus :: "rx \<Rightarrow> rx" where
  "RPlus r = RCat r (RStar r)"

definition RChr :: "char \<Rightarrow> rx" where
  "RChr c = RCls (\<lambda>x. x = c)"

primrec RStr :: "string \<Rightarrow> rx" where
  "RStr [] = REps"
| "RStr (c # cs) = RCat (RChr c) (RStr cs)"

text \<open>\<open>r{n}\<close>, and the greedy \<open>r{0,n}\<close>.\<close>

primrec RTimes :: "nat \<Rightarrow> rx \<Rightarrow> rx" where
  "RTimes 0 r = REps"
| "RTimes (Suc n) r = RCat r (RTimes n r)"

primrec RUpto :: "nat \<Rightarrow> rx \<Rightarrow> rx" where
  "RUpto 0 r = REps"
| "RUpto (Suc n) r = ROpt (RCat r (RUpto n r))"

definition RAny :: rx where
  "RAny = RCls (\<lambda>c. c \<noteq> CHR 0x0A)"

definition re_match :: "rx \<Rightarrow> string \<Rightarrow> mstate option" where
  "re_match r s = (case succs r (Map.empty, s) of [] \<Rightarrow> None | st # _ \<Rightarrow> Some st)"

definition re_fullmatch :: "rx \<Rightarrow> string \<Rightarrow> caps option" where
  "re_fullmatch r s =
     (case filter (\<lambda>st. snd st = []) (succs r (Map.empty, s)) of
        [] \<Rightarrow> None | st # _ \<Rightarrow> Some (fst st))"

text \<open>
  \<open>re.finditer\<close>: the matches from left to right, each search starting where the last match ended
  (one character further after an empty match).
\<close>

function re_finditer :: "rx \<Rightarrow> string \<Rightarrow> caps list" where
  "re_finditer r s =
     (case re_match r s of
        Some (c, rest) \<Rightarrow>
          c # (if length rest < length s then re_finditer r rest
               else (case s of [] \<Rightarrow> [] | x # xs \<Rightarrow> re_finditer r xs))
      | None \<Rightarrow> (case s of [] \<Rightarrow> [] | x # xs \<Rightarrow> re_finditer r xs))"
  by pat_completeness auto
termination
  by (relation "measure (\<lambda>(r, s). length s)") auto

declare re_finditer.simps [simp del]

subsection \<open>The language of a pattern\<close>

fun plain_rx :: "rx \<Rightarrow> bool" where
  "plain_rx (RCat a b) \<longleftrightarrow> plain_rx a \<and> plain_rx b"
| "plain_rx (RAlt a b) \<longleftrightarrow> plain_rx a \<and> plain_rx b"
| "plain_rx (RStar a) \<longleftrightarrow> plain_rx a"
| "plain_rx (RLazy a) \<longleftrightarrow> plain_rx a"
| "plain_rx (RGrp i a) \<longleftrightarrow> plain_rx a"
| "plain_rx REps \<longleftrightarrow> True"
| "plain_rx (RCls P) \<longleftrightarrow> True"
| "plain_rx _ \<longleftrightarrow> False"

fun groups :: "rx \<Rightarrow> nat set" where
  "groups (RCat a b) = groups a \<union> groups b"
| "groups (RAlt a b) = groups a \<union> groups b"
| "groups (RStar a) = groups a"
| "groups (RLazy a) = groups a"
| "groups (RLook a) = groups a"
| "groups (RGrp i a) = insert i (groups a)"
| "groups _ = {}"

inductive in_lang :: "rx \<Rightarrow> string \<Rightarrow> bool" where
  L_eps: "in_lang REps []"
| L_cls: "P x \<Longrightarrow> in_lang (RCls P) [x]"
| L_cat: "in_lang a u \<Longrightarrow> in_lang b v \<Longrightarrow> in_lang (RCat a b) (u @ v)"
| L_alt1: "in_lang a u \<Longrightarrow> in_lang (RAlt a b) u"
| L_alt2: "in_lang b u \<Longrightarrow> in_lang (RAlt a b) u"
| L_star0: "in_lang (RStar a) []"
| L_star1: "in_lang a u \<Longrightarrow> in_lang (RStar a) v \<Longrightarrow> in_lang (RStar a) (u @ v)"
| L_lazy0: "in_lang (RLazy a) []"
| L_lazy1: "in_lang a u \<Longrightarrow> in_lang (RLazy a) v \<Longrightarrow> in_lang (RLazy a) (u @ v)"
| L_grp: "in_lang a u \<Longrightarrow> in_lang (RGrp i a) u"

inductive_simps in_lang_simps:
  "in_lang REps u" "in_lang (RCls P) u" "in_lang (RCat a b) u" "in_lang (RAlt a b) u"
  "in_lang (RGrp i a) u"

inductive_cases in_lang_starE: "in_lang (RStar a) u"

lemma in_lang_opt: "in_lang (ROpt r) u \<longleftrightarrow> u = [] \<or> in_lang r u"
  by (auto simp: ROpt_def in_lang_simps)

lemma in_lang_chr: "in_lang (RChr c) u \<longleftrightarrow> u = [c]"
  by (auto simp: RChr_def in_lang_simps)

lemma in_lang_plus: "in_lang (RPlus r) w \<longleftrightarrow> (\<exists>u v. w = u @ v \<and> in_lang r u \<and> in_lang (RStar r) v)"
  by (auto simp: RPlus_def in_lang_simps)

lemma in_lang_star_append:
  assumes "in_lang (RStar r) u" and "in_lang (RStar r) v"
  shows "in_lang (RStar r) (u @ v)"
  using assms
proof (induction "RStar r" u rule: in_lang.induct)
  case L_star0
  then show ?case by simp
next
  case (L_star1 u w)
  then show ?case using in_lang.L_star1 [of r u "w @ v"] by simp
qed

lemma in_lang_cat_cls:
  "in_lang (RCat (RCls P) b) u \<longleftrightarrow> (\<exists>x v. u = x # v \<and> P x \<and> in_lang b v)"
proof -
  have "in_lang (RCat (RCls P) b) u \<longleftrightarrow> (\<exists>p v. u = p @ v \<and> (\<exists>x. p = [x] \<and> P x) \<and> in_lang b v)"
    by (simp only: in_lang_simps(3) in_lang_simps(2))
  then show ?thesis by (metis append_Cons append_Nil)
qed

lemma in_lang_star_cls: "in_lang (RStar (RCls P)) u \<longleftrightarrow> (\<forall>c \<in> set u. P c)"
proof
  assume "in_lang (RStar (RCls P)) u"
  then show "\<forall>c \<in> set u. P c"
    by (induction "RStar (RCls P)" u rule: in_lang.induct) (auto simp: in_lang_simps)
next
  show "\<forall>c \<in> set u. P c \<Longrightarrow> in_lang (RStar (RCls P)) u"
  proof (induction u)
    case Nil
    show ?case by (rule L_star0)
  next
    case (Cons x u)
    then show ?case using L_star1 [OF L_cls [of P x], of u] by simp
  qed
qed

lemma in_lang_plus_cls: "in_lang (RPlus (RCls P)) u \<longleftrightarrow> u \<noteq> [] \<and> (\<forall>c \<in> set u. P c)"
  by (cases u) (auto simp: RPlus_def in_lang_cat_cls in_lang_star_cls)

lemma in_lang_upto_cls:
  "in_lang (RUpto n (RCls P)) u \<longleftrightarrow> length u \<le> n \<and> (\<forall>c \<in> set u. P c)"
proof (induction n arbitrary: u)
  case 0
  show ?case by (auto simp: in_lang_simps)
next
  case (Suc n)
  show ?case
    by (cases u) (auto simp: in_lang_opt in_lang_cat_cls Suc.IH)
qed

lemma in_lang_times_cls:
  "in_lang (RTimes n (RCls P)) u \<longleftrightarrow> length u = n \<and> (\<forall>c \<in> set u. P c)"
proof (induction n arbitrary: u)
  case 0
  show ?case by (auto simp: in_lang_simps)
next
  case (Suc n)
  show ?case
    by (cases u) (auto simp: in_lang_cat_cls Suc.IH)
qed

subsection \<open>The matcher accepts the language\<close>

lemma succs_cat_iff:
  "st' \<in> set (succs (RCat a b) (c, s)) \<longleftrightarrow>
     (\<exists>c1 s1. (c1, s1) \<in> set (succs a (c, s)) \<and> st' \<in> set (succs b (c1, s1)))"
  by (force simp: succs.simps(3))

lemma succs_alt_iff:
  "st' \<in> set (succs (RAlt a b) (c, s)) \<longleftrightarrow>
     st' \<in> set (succs a (c, s)) \<or> st' \<in> set (succs b (c, s))"
  by (simp add: succs.simps(4))

lemma succs_star_iff:
  "st' \<in> set (succs (RStar a) (c, s)) \<longleftrightarrow> st' = (c, s) \<or>
     (\<exists>c1 s1. (c1, s1) \<in> set (succs a (c, s)) \<and> length s1 < length s
        \<and> st' \<in> set (succs (RStar a) (c1, s1)))"
  by (force simp: succs.simps(5) [of a c s])

lemma succs_lazy_iff:
  "st' \<in> set (succs (RLazy a) (c, s)) \<longleftrightarrow> st' = (c, s) \<or>
     (\<exists>c1 s1. (c1, s1) \<in> set (succs a (c, s)) \<and> length s1 < length s
        \<and> st' \<in> set (succs (RLazy a) (c1, s1)))"
  by (force simp: succs.simps(6) [of a c s])

lemma succs_grp_iff:
  "(c', s') \<in> set (succs (RGrp i a) (c, s)) \<longleftrightarrow>
     (\<exists>c1. (c1, s') \<in> set (succs a (c, s)) \<and> c' = c1(i \<mapsto> eaten s s'))"
  by (force simp: succs.simps(7))

text \<open>One induction for both repetitions: what every iteration keeps, the repetition keeps.\<close>

lemma succs_rep_rule:
  assumes "st \<in> set (succs r (c, s))" and "r = RStar a \<or> r = RLazy a"
    and base: "\<And>c s. Q (c, s) (c, s)"
    and step: "\<And>c s c1 s1 st. (c1, s1) \<in> set (succs a (c, s)) \<Longrightarrow> Q (c1, s1) st \<Longrightarrow> Q (c, s) st"
  shows "Q (c, s) st"
  using assms(1)
proof (induction "length s" arbitrary: c s rule: less_induct)
  case less
  have "st = (c, s) \<or> (\<exists>c1 s1. (c1, s1) \<in> set (succs a (c, s)) \<and> length s1 < length s
      \<and> st \<in> set (succs r (c1, s1)))"
    using less.prems assms(2) succs_star_iff [of st a c s] succs_lazy_iff [of st a c s] by blast
  then show ?case using less.hyps base step by blast
qed

lemma succs_suffix: "(c', s') \<in> set (succs r (c, s)) \<Longrightarrow> suffix s' s"
proof (induction r arbitrary: c s c' s')
  case (RCat a b)
  then show ?case by (meson succs_cat_iff suffix_order.trans)
next
  case (RAlt a b)
  then show ?case by (meson succs_alt_iff)
next
  case (RStar a)
  from RStar.prems have "suffix (snd (c', s')) (snd (c, s))"
    by (rule succs_rep_rule [where a = a and Q = "\<lambda>x y. suffix (snd y) (snd x)"])
       (auto dest: RStar.IH suffix_order.trans)
  then show ?case by simp
next
  case (RLazy a)
  from RLazy.prems have "suffix (snd (c', s')) (snd (c, s))"
    by (rule succs_rep_rule [where a = a and Q = "\<lambda>x y. suffix (snd y) (snd x)"])
       (auto dest: RLazy.IH suffix_order.trans)
  then show ?case by simp
next
  case (RGrp i a)
  then show ?case by (meson succs_grp_iff)
next
  case (RCls P)
  then show ?case by (auto simp: succs.simps suffix_Cons split: list.splits if_splits)
next
  case (RBack i)
  then show ?case by (auto simp: succs.simps suffix_drop split: option.splits if_splits)
qed (auto simp: succs.simps split: if_splits list.splits)

lemma succs_sound:
  "plain_rx r \<Longrightarrow> (c', s') \<in> set (succs r (c, s)) \<Longrightarrow> \<exists>u. s = u @ s' \<and> in_lang r u"
proof (induction r arbitrary: c s c' s')
  case REps
  then show ?case by (simp add: succs.simps L_eps)
next
  case (RCls P)
  then show ?case by (auto simp: succs.simps in_lang_simps split: list.splits if_splits)
next
  case (RCat a b)
  then obtain c1 s1 where "(c1, s1) \<in> set (succs a (c, s))" "(c', s') \<in> set (succs b (c1, s1))"
    by (auto simp: succs_cat_iff)
  with RCat obtain u v where "s = u @ s1" "in_lang a u" "s1 = v @ s'" "in_lang b v"
    by fastforce
  then show ?case by (auto intro!: L_cat exI [of _ "u @ v"])
next
  case (RAlt a b)
  then show ?case by (fastforce simp: succs_alt_iff in_lang_simps)
next
  case (RStar a)
  let ?Q = "\<lambda>x y. \<exists>u. snd x = u @ snd y \<and> in_lang (RStar a) u"
  have "?Q (c, s) (c', s')"
  proof (rule succs_rep_rule [where a = a and Q = ?Q, OF RStar.prems(2)])
    fix c s c1 s1 st
    assume "(c1, s1) \<in> set (succs a (c, s))" and "?Q (c1, s1) st"
    with RStar obtain u v where "s = u @ s1" "in_lang a u" "s1 = v @ snd st" "in_lang (RStar a) v"
      by fastforce
    then show "?Q (c, s) st" by (auto intro!: L_star1 exI [of _ "u @ v"])
  qed (auto intro: L_star0)
  then show ?case by simp
next
  case (RLazy a)
  let ?Q = "\<lambda>x y. \<exists>u. snd x = u @ snd y \<and> in_lang (RLazy a) u"
  have "?Q (c, s) (c', s')"
  proof (rule succs_rep_rule [where a = a and Q = ?Q, OF RLazy.prems(2)])
    fix c s c1 s1 st
    assume "(c1, s1) \<in> set (succs a (c, s))" and "?Q (c1, s1) st"
    with RLazy obtain u v where "s = u @ s1" "in_lang a u" "s1 = v @ snd st" "in_lang (RLazy a) v"
      by fastforce
    then show "?Q (c, s) st" by (auto intro!: L_lazy1 exI [of _ "u @ v"])
  qed (auto intro: L_lazy0)
  then show ?case by simp
next
  case (RGrp i a)
  then show ?case by (fastforce simp: succs_grp_iff in_lang_simps)
qed auto

lemma succs_star_cons:
  "(c1, v @ s') \<in> set (succs a (c, u @ v @ s')) \<Longrightarrow> u \<noteq> [] \<Longrightarrow>
     st \<in> set (succs (RStar a) (c1, v @ s')) \<Longrightarrow> st \<in> set (succs (RStar a) (c, u @ v @ s'))"
  by (subst succs_star_iff) force

lemma succs_lazy_cons:
  "(c1, v @ s') \<in> set (succs a (c, u @ v @ s')) \<Longrightarrow> u \<noteq> [] \<Longrightarrow>
     st \<in> set (succs (RLazy a) (c1, v @ s')) \<Longrightarrow> st \<in> set (succs (RLazy a) (c, u @ v @ s'))"
  by (subst succs_lazy_iff) force

lemma succs_complete: "in_lang r u \<Longrightarrow> \<exists>c'. (c', s') \<in> set (succs r (c, u @ s'))"
proof (induction r u arbitrary: c s' rule: in_lang.induct)
  case (L_cat a u b v)
  obtain c1 where "(c1, v @ s') \<in> set (succs a (c, u @ v @ s'))" using L_cat.IH(1) by blast
  moreover obtain c2 where "(c2, s') \<in> set (succs b (c1, v @ s'))" using L_cat.IH(2) by blast
  ultimately show ?case by (auto simp: succs_cat_iff)
next
  case (L_star1 a u v)
  obtain c1 where 1: "(c1, v @ s') \<in> set (succs a (c, u @ v @ s'))" using L_star1.IH(1) by blast
  obtain c2 where 2: "(c2, s') \<in> set (succs (RStar a) (c1, v @ s'))" using L_star1.IH(2) by blast
  show ?case using succs_star_cons [OF 1 _ 2] L_star1.IH(2) by (cases "u = []") auto
next
  case (L_lazy1 a u v)
  obtain c1 where 1: "(c1, v @ s') \<in> set (succs a (c, u @ v @ s'))" using L_lazy1.IH(1) by blast
  obtain c2 where 2: "(c2, s') \<in> set (succs (RLazy a) (c1, v @ s'))" using L_lazy1.IH(2) by blast
  show ?case using succs_lazy_cons [OF 1 _ 2] L_lazy1.IH(2) by (cases "u = []") auto
next
  case (L_grp a u i)
  then show ?case by (auto simp: succs_grp_iff)
next
  case (L_star0 a)
  have "(c, s') \<in> set (succs (RStar a) (c, s'))" by (subst succs_star_iff) simp
  then show ?case by auto
next
  case (L_lazy0 a)
  have "(c, s') \<in> set (succs (RLazy a) (c, s'))" by (subst succs_lazy_iff) simp
  then show ?case by auto
next
  case (L_alt1 a u b)
  then show ?case by (meson succs_alt_iff)
next
  case (L_alt2 b u a)
  then show ?case by (meson succs_alt_iff)
qed (simp_all add: succs.simps)

lemma succs_caps_frame:
  "(c', s') \<in> set (succs r (c, s)) \<Longrightarrow> j \<notin> groups r \<Longrightarrow> c' j = c j"
proof (induction r arbitrary: c s c' s')
  case (RCat a b)
  then show ?case by (auto simp: succs_cat_iff) metis
next
  case (RAlt a b)
  then show ?case by (auto simp: succs_alt_iff)
next
  case (RStar a)
  from RStar.prems(1) have "fst (c', s') j = fst (c, s) j"
    by (rule succs_rep_rule [where a = a and Q = "\<lambda>x y. fst y j = fst x j"])
       (use RStar in auto)
  then show ?case by simp
next
  case (RLazy a)
  from RLazy.prems(1) have "fst (c', s') j = fst (c, s) j"
    by (rule succs_rep_rule [where a = a and Q = "\<lambda>x y. fst y j = fst x j"])
       (use RLazy in auto)
  then show ?case by simp
next
  case (RGrp i a)
  then show ?case by (auto simp: succs_grp_iff)
next
  case (RLook a)
  have "\<exists>s1. (c', s1) \<in> set (succs a (c, s))"
    using RLook.prems(1) by (cases "succs a (c, s)") (auto simp: succs.simps)
  with RLook show ?case by auto
qed (auto simp: succs.simps split: list.splits if_splits option.splits)

text \<open>A pattern without groups: its successes are the splits of the input by its language.\<close>

lemma succs_groupfree:
  assumes "plain_rx r" and "groups r = {}"
  shows "(c', s') \<in> set (succs r (c, s)) \<longleftrightarrow> c' = c \<and> (\<exists>u. s = u @ s' \<and> in_lang r u)"
proof
  assume m: "(c', s') \<in> set (succs r (c, s))"
  then have "c' = c" using succs_caps_frame assms(2) by blast
  with m assms show "c' = c \<and> (\<exists>u. s = u @ s' \<and> in_lang r u)"
    using succs_sound by blast
next
  assume a: "c' = c \<and> (\<exists>u. s = u @ s' \<and> in_lang r u)"
  then obtain u c1 where "s = u @ s'" "(c1, s') \<in> set (succs r (c, s))"
    using succs_complete by blast
  with a show "(c', s') \<in> set (succs r (c, s))"
    using succs_caps_frame [of c1 s' r c s] assms(2) by (metis empty_iff ext)
qed

lemma eaten_append [simp]: "eaten (u @ s) s = u"
  by (simp add: eaten_def)

lemma eaten_Nil [simp]: "eaten u [] = u"
  by (simp add: eaten_def)

lemmas succs_iffs = succs_cat_iff succs_alt_iff succs_grp_iff

text \<open>\<open>fullmatch\<close> succeeds exactly on the language of the pattern.\<close>

theorem fullmatch_iff_lang:
  assumes "plain_rx r"
  shows "re_fullmatch r s \<noteq> None \<longleftrightarrow> in_lang r s"
proof -
  have "re_fullmatch r s \<noteq> None \<longleftrightarrow> filter (\<lambda>st. snd st = []) (succs r (Map.empty, s)) \<noteq> []"
    by (simp add: re_fullmatch_def split: list.splits)
  also have "\<dots> \<longleftrightarrow> (\<exists>st \<in> set (succs r (Map.empty, s)). snd st = [])"
    by (auto simp: filter_empty_conv)
  also have "\<dots> \<longleftrightarrow> in_lang r s"
  proof
    assume "\<exists>st \<in> set (succs r (Map.empty, s)). snd st = []"
    then obtain c where "(c, []) \<in> set (succs r (Map.empty, s))" by auto
    from succs_sound [OF assms this] show "in_lang r s" by simp
  next
    assume "in_lang r s"
    from succs_complete [OF this, of "[]" Map.empty]
    show "\<exists>st \<in> set (succs r (Map.empty, s)). snd st = []" by force
  qed
  finally show ?thesis .
qed

lemma fullmatch_SomeD:
  "re_fullmatch r s = Some c \<Longrightarrow> (c, []) \<in> set (succs r (Map.empty, s))"
proof -
  assume a: "re_fullmatch r s = Some c"
  show ?thesis
  proof (cases "filter (\<lambda>st. snd st = []) (succs r (Map.empty, s))")
    case Nil
    with a show ?thesis by (simp add: re_fullmatch_def)
  next
    case (Cons st sts)
    then have "st \<in> set (filter (\<lambda>st. snd st = []) (succs r (Map.empty, s)))" by simp
    then have "st \<in> set (succs r (Map.empty, s))" and "snd st = []" by simp_all
    moreover from a Cons have "c = fst st" by (simp add: re_fullmatch_def)
    ultimately show ?thesis using prod.collapse [of st] by simp
  qed
qed

subsection \<open>The characters a pattern can consume\<close>

fun rx_may :: "rx \<Rightarrow> char \<Rightarrow> bool" where
  "rx_may (RCls P) x \<longleftrightarrow> P x"
| "rx_may (RCat a b) x \<longleftrightarrow> rx_may a x \<or> rx_may b x"
| "rx_may (RAlt a b) x \<longleftrightarrow> rx_may a x \<or> rx_may b x"
| "rx_may (RStar a) x \<longleftrightarrow> rx_may a x"
| "rx_may (RLazy a) x \<longleftrightarrow> rx_may a x"
| "rx_may (RGrp i a) x \<longleftrightarrow> rx_may a x"
| "rx_may _ x \<longleftrightarrow> False"

lemma in_lang_may: "in_lang r u \<Longrightarrow> x \<in> set u \<Longrightarrow> rx_may r x"
  by (induction r u rule: in_lang.induct) auto

lemma rx_may_sugar [simp]:
  "rx_may (ROpt r) x \<longleftrightarrow> rx_may r x"
  "rx_may (RPlus r) x \<longleftrightarrow> rx_may r x"
  "rx_may (RChr c) x \<longleftrightarrow> x = c"
  by (auto simp: ROpt_def RPlus_def RChr_def)

lemma rx_may_RStr [simp]: "rx_may (RStr w) x \<longleftrightarrow> x \<in> set w"
  by (induction w) auto

lemma rx_may_RTimes: "rx_may (RTimes n r) x \<Longrightarrow> rx_may r x"
  by (induction n) auto

lemma rx_may_RUpto: "rx_may (RUpto n r) x \<Longrightarrow> rx_may r x"
  by (induction n) auto

lemma plain_sugar [simp]:
  "plain_rx (ROpt r) \<longleftrightarrow> plain_rx r" "plain_rx (RPlus r) \<longleftrightarrow> plain_rx r" "plain_rx (RChr c)"
  by (auto simp: ROpt_def RPlus_def RChr_def)

lemma plain_RStr [simp]: "plain_rx (RStr w)"
  by (induction w) auto

lemma plain_RTimes [simp]: "plain_rx r \<Longrightarrow> plain_rx (RTimes n r)"
  by (induction n) auto

lemma plain_RUpto [simp]: "plain_rx r \<Longrightarrow> plain_rx (RUpto n r)"
  by (induction n) auto

lemma groups_sugar [simp]:
  "groups (ROpt r) = groups r" "groups (RPlus r) = groups r" "groups (RChr c) = {}"
  by (auto simp: ROpt_def RPlus_def RChr_def)

lemma groups_RStr [simp]: "groups (RStr w) = {}"
  by (induction w) auto

lemma groups_RTimes: "groups r = {} \<Longrightarrow> groups (RTimes n r) = {}"
  by (induction n) auto

lemma groups_RUpto: "groups r = {} \<Longrightarrow> groups (RUpto n r) = {}"
  by (induction n) auto

lemma in_lang_RStr: "in_lang (RStr w) u \<longleftrightarrow> u = w"
  by (induction w arbitrary: u) (auto simp: in_lang_simps(1) RChr_def in_lang_cat_cls)

lemma in_lang_cat_chr: "in_lang (RCat (RChr c) b) u \<longleftrightarrow> (\<exists>v. u = c # v \<and> in_lang b v)"
  by (auto simp: RChr_def in_lang_cat_cls)

lemma succs_opt_iff:
  "st' \<in> set (succs (ROpt r) (c, s)) \<longleftrightarrow> st' \<in> set (succs r (c, s)) \<or> st' = (c, s)"
  by (auto simp: ROpt_def succs.simps)

lemma succs_cat_chr_iff:
  "st' \<in> set (succs (RCat (RChr x) b) (c, s)) \<longleftrightarrow> (\<exists>t. s = x # t \<and> st' \<in> set (succs b (c, t)))"
  by (cases s) (auto simp: succs.simps RChr_def)

lemma succs_cat_cls_iff:
  "st' \<in> set (succs (RCat (RCls P) b) (c, s)) \<longleftrightarrow>
     (\<exists>x t. s = x # t \<and> P x \<and> st' \<in> set (succs b (c, t)))"
  by (cases s) (auto simp: succs.simps)

subsection \<open>Separated lists\<close>

lemma join_with_map: "join_with [c] (v # ps) = v @ concat (map ((#) c) ps)"
  by (induction ps arbitrary: v) auto

lemma in_lang_star_sep:
  "in_lang (RStar (RCat (RChr c) A)) w \<Longrightarrow>
     \<exists>ps. w = concat (map ((#) c) ps) \<and> (\<forall>p \<in> set ps. in_lang A p)"
proof (induction "RStar (RCat (RChr c) A)" w rule: in_lang.induct)
  case L_star0
  show ?case by (rule exI [of _ "[]"]) simp
next
  case (L_star1 u v)
  then obtain p where p: "u = c # p" "in_lang A p" by (auto simp: in_lang_cat_chr)
  from L_star1 obtain ps where ps: "v = concat (map ((#) c) ps)" "\<forall>p \<in> set ps. in_lang A p"
    by blast
  from p ps show ?case by (intro exI [of _ "p # ps"]) simp
qed

lemma in_lang_star_sepI:
  "\<forall>p \<in> set ps. in_lang A p \<Longrightarrow> in_lang (RStar (RCat (RChr c) A)) (concat (map ((#) c) ps))"
proof (induction ps)
  case Nil
  show ?case by (simp add: L_star0)
next
  case (Cons p ps)
  then have "in_lang (RCat (RChr c) A) (c # p)" by (simp add: in_lang_cat_chr)
  from L_star1 [OF this] Cons show ?case by simp
qed

text \<open>\<open>A(?:cA)*\<close> accepts exactly the strings whose pieces between the \<open>c\<close>s are all in \<open>A\<close>.\<close>

lemma in_lang_sepby:
  assumes "\<And>v. in_lang A v \<Longrightarrow> c \<notin> set v"
  shows "in_lang (RCat A (RStar (RCat (RChr c) A))) u \<longleftrightarrow>
           (\<forall>p \<in> set (split_on c u). in_lang A p)"
proof
  assume "in_lang (RCat A (RStar (RCat (RChr c) A))) u"
  then obtain v w where vw: "u = v @ w" "in_lang A v" "in_lang (RStar (RCat (RChr c) A)) w"
    by (auto simp: in_lang_simps(3))
  then obtain ps where ps: "w = concat (map ((#) c) ps)" "\<forall>p \<in> set ps. in_lang A p"
    using in_lang_star_sep by blast
  have "u = join_with [c] (v # ps)" using vw ps by (simp only: join_with_map)
  moreover have "\<forall>p \<in> set (v # ps). c \<notin> set p" using vw ps assms by auto
  ultimately have "split_on c u = v # ps" using split_join [of "v # ps" c] by simp
  then show "\<forall>p \<in> set (split_on c u). in_lang A p" using vw ps by simp
next
  assume a: "\<forall>p \<in> set (split_on c u). in_lang A p"
  obtain v ps where vps: "split_on c u = v # ps" by (cases "split_on c u") auto
  then have "u = v @ concat (map ((#) c) ps)" using join_split [of c u] by (simp only: join_with_map)
  moreover have "in_lang A v" "in_lang (RStar (RCat (RChr c) A)) (concat (map ((#) c) ps))"
    using a vps in_lang_star_sepI by auto
  ultimately show "in_lang (RCat A (RStar (RCat (RChr c) A))) u"
    by (auto simp: in_lang_simps(3))
qed

end
