(* ===== verification/Py_Shlex.thy ===== *)
theory Py_Shlex
  imports Prelude
begin

text \<open>
  \<open>shlex\<close> of Python's standard library as the build code uses it: POSIX mode, \<open>whitespace_split\<close>,
  no comment characters. \<open>read_token\<close> is the class's character automaton, one equation per state:
  between words, inside a word, inside quotes, after a backslash. The \<open>ValueError\<close>s are values. The
  lemmas show that a token read consumes input, so splitting ends, and that words without special
  characters split and join back.
\<close>

datatype shlex_error = NoClosingQuotation | NoEscapedCharacter

datatype shlex_state = ShBlank | ShWord | ShQuote char | ShEscape "char option"

definition sh_white :: "char \<Rightarrow> bool" where
  "sh_white c \<longleftrightarrow> c \<in> {CHR '' '', CHR 0x09, CHR 0x0D, CHR 0x0A}"

definition sh_quote :: "char \<Rightarrow> bool" where
  "sh_quote c \<longleftrightarrow> c = CHR 0x27 \<or> c = CHR 0x22"

text \<open>
  \<open>read_token st quoted tok s\<close>: the state, whether a quote was seen in this token, the token so far
  and the input. The answer is the token, \<open>None\<close> at the end of the input, with what is left.
  \<open>ShEscape\<close> carries the quote the backslash stands in, if any.
\<close>

definition emit :: "bool \<Rightarrow> string \<Rightarrow> string option" where
  "emit quoted tok = (if tok = [] \<and> \<not> quoted then None else Some tok)"

fun read_token ::
  "shlex_state \<Rightarrow> bool \<Rightarrow> string \<Rightarrow> string \<Rightarrow> shlex_error + (string option \<times> string)" where
  "read_token ShBlank q tok [] = Inr (emit q tok, [])"
| "read_token ShBlank q tok (c # s) =
     (if sh_white c then (if tok \<noteq> [] \<or> q then Inr (Some tok, s) else read_token ShBlank q tok s)
      else if c = CHR 0x5C then read_token (ShEscape None) q tok s
      else if sh_quote c then read_token (ShQuote c) q tok s
      else read_token ShWord q [c] s)"
| "read_token (ShQuote d) q tok [] = Inl NoClosingQuotation"
| "read_token (ShQuote d) q tok (c # s) =
     (if c = d then read_token ShWord True tok s
      else if c = CHR 0x5C \<and> d = CHR 0x22 then read_token (ShEscape (Some d)) True tok s
      else read_token (ShQuote d) True (tok @ [c]) s)"
| "read_token (ShEscape e) q tok [] = Inl NoEscapedCharacter"
| "read_token (ShEscape e) q tok (c # s) =
     (case e of
        None \<Rightarrow> read_token ShWord q (tok @ [c]) s
      | Some d \<Rightarrow>
          (if c \<noteq> CHR 0x5C \<and> c \<noteq> d then read_token (ShQuote d) q (tok @ [CHR 0x5C, c]) s
           else read_token (ShQuote d) q (tok @ [c]) s))"
| "read_token ShWord q tok [] = Inr (emit q tok, [])"
| "read_token ShWord q tok (c # s) =
     (if sh_white c then (if tok \<noteq> [] \<or> q then Inr (Some tok, s) else read_token ShBlank q tok s)
      else if sh_quote c then read_token (ShQuote c) q tok s
      else if c = CHR 0x5C then read_token (ShEscape None) q tok s
      else read_token ShWord q (tok @ [c]) s)"

lemma read_token_shorter:
  "read_token st q tok s = Inr (t, rest) \<Longrightarrow> length rest \<le> length s"
  by (induction st q tok s rule: read_token.induct)
     (auto split: if_splits option.splits intro: le_SucI)

lemma read_token_consumes:
  "read_token ShBlank False [] s = Inr (Some t, rest) \<Longrightarrow> length rest < length s"
proof (cases s)
  case (Cons c s')
  assume r: "read_token ShBlank False [] s = Inr (Some t, rest)"
  have "\<exists>st q tok. read_token st q tok s' = Inr (Some t, rest)"
    using r Cons by (auto split: if_splits)
  then show ?thesis using read_token_shorter Cons by fastforce
qed (simp add: emit_def)

function shlex_tokens :: "string \<Rightarrow> shlex_error + string list" where
  "shlex_tokens s =
     (case read_token ShBlank False [] s of
        Inl e \<Rightarrow> Inl e
      | Inr (None, _) \<Rightarrow> Inr []
      | Inr (Some t, rest) \<Rightarrow> bindR (shlex_tokens rest) (\<lambda>ts. Inr (t # ts)))"
  by pat_completeness auto
termination
  by (relation "measure length") (auto dest: read_token_consumes)

declare shlex_tokens.simps [simp del]

definition shlex_split :: "string \<Rightarrow> shlex_error + string list" where
  "shlex_split s = shlex_tokens s"

subsection \<open>Plain words\<close>

definition plain_word :: "string \<Rightarrow> bool" where
  "plain_word w \<longleftrightarrow> w \<noteq> [] \<and> (\<forall>c \<in> set w. \<not> sh_white c \<and> \<not> sh_quote c \<and> c \<noteq> CHR 0x5C)"

lemma read_token_word:
  "\<forall>c \<in> set w. \<not> sh_white c \<and> \<not> sh_quote c \<and> c \<noteq> CHR 0x5C \<Longrightarrow>
     read_token ShWord q tok (w @ s) = read_token ShWord q (tok @ w) s"
  by (induction w arbitrary: tok) auto

lemma read_token_plain:
  assumes "plain_word w"
  shows "read_token ShBlank False [] w = Inr (Some w, [])"
    and "read_token ShBlank False [] (w @ CHR '' '' # s) = Inr (Some w, s)"
proof -
  from assms obtain c v where w: "w = c # v" by (auto simp: plain_word_def neq_Nil_conv)
  with assms have c: "\<not> sh_white c" "\<not> sh_quote c" "c \<noteq> CHR 0x5C"
    and v: "\<forall>c \<in> set v. \<not> sh_white c \<and> \<not> sh_quote c \<and> c \<noteq> CHR 0x5C"
    by (auto simp: plain_word_def)
  show "read_token ShBlank False [] w = Inr (Some w, [])"
    using read_token_word [OF v, of False "[c]" "[]"] c by (simp add: w emit_def)
  show "read_token ShBlank False [] (w @ CHR '' '' # s) = Inr (Some w, s)"
    using read_token_word [OF v, of False "[c]" "CHR '' '' # s"] c by (simp add: w sh_white_def)
qed

lemma shlex_split_join:
  "list_all plain_word ws \<Longrightarrow> shlex_split (join_with '' '' ws) = Inr ws"
proof (induction "'' ''" ws rule: join_with.induct)
  case 1
  show ?case by (simp add: shlex_split_def shlex_tokens.simps emit_def)
next
  case (2 p)
  then show ?case
    by (simp add: shlex_split_def shlex_tokens.simps [of p] shlex_tokens.simps [of "[]"]
        read_token_plain(1) emit_def)
next
  case (3 p r ps)
  then show ?case
    by (simp add: shlex_split_def shlex_tokens.simps [of "p @ CHR '' '' # join_with '' '' (r # ps)"]
        read_token_plain(2))
qed

end
