(* ===== verification/Py_Json.thy ===== *)
theory Py_Json
  imports Prelude
begin

text \<open>
  JSON documents as \<open>json.loads\<close> reads them: the values, and a recursive-descent reader of the text
  with the standard library's rules (blanks, strict strings, the non-finite constants it accepts, a
  later duplicate key winning). Numbers are kept as their text. A \<open>\u\<close> escape above U+00FF stands
  outside the alphabet of the development and reads as U+001A. \<open>None\<close> is \<open>JSONDecodeError\<close>.
  Recursion depth is not limited here; CPython raises \<open>RecursionError\<close> past its own limit.
\<close>

datatype json =
    JNull | JBool bool | JNum string | JStr string | JArr "json list" | JObj "(string \<times> json) list"

definition js_white :: "char \<Rightarrow> bool" where
  "js_white c \<longleftrightarrow> c \<in> {CHR '' '', CHR 0x09, CHR 0x0A, CHR 0x0D}"

definition js_skip :: "string \<Rightarrow> string" where
  "js_skip s = dropWhile js_white s"

definition js_hex :: "char \<Rightarrow> nat" where
  "js_hex c = (if is_dec c then code c - 48 else if in_range 97 102 c then code c - 87 else code c - 55)"

definition js_escape :: "char \<Rightarrow> char option" where
  "js_escape c =
     (if c = CHR 0x22 \<or> c = CHR 0x5C \<or> c = CHR ''/'' then Some c
      else if c = CHR ''b'' then Some CHR 0x08
      else if c = CHR ''f'' then Some CHR 0x0C
      else if c = CHR ''n'' then Some CHR 0x0A
      else if c = CHR ''r'' then Some CHR 0x0D
      else if c = CHR ''t'' then Some CHR 0x09 else None)"

definition js_unicode :: "string \<Rightarrow> char" where
  "js_unicode h =
     (let n = foldl (\<lambda>a c. 16 * a + js_hex c) 0 h in if n < 256 then char_of n else CHR 0x1A)"

text \<open>The body of a string, after its opening quote: what it says, and what follows the closing one.\<close>

fun js_string :: "string \<Rightarrow> (string \<times> string) option" where
  "js_string [] = None"
| "js_string (c # s) =
     (if c = CHR 0x22 then Some ([], s)
      else if code c < 32 then None
      else if c = CHR 0x5C then
        (case s of
           [] \<Rightarrow> None
         | e # s' \<Rightarrow>
             (if e = CHR ''u'' then
                (case s' of
                   a # b # c' # d # s'' \<Rightarrow>
                     (if list_all is_hex [a, b, c', d]
                      then map_option (\<lambda>(t, r). (js_unicode [a, b, c', d] # t, r)) (js_string s'')
                      else None)
                 | _ \<Rightarrow> None)
              else (case js_escape e of
                      None \<Rightarrow> None
                    | Some x \<Rightarrow> map_option (\<lambda>(t, r). (x # t, r)) (js_string s'))))
      else map_option (\<lambda>(t, r). (c # t, r)) (js_string s))"

text \<open>\<open>-?(0|[1-9][0-9]*)(\.[0-9]+)?([eE][-+]?[0-9]+)?\<close>, the longest one at the front.\<close>

definition js_digits :: "string \<Rightarrow> string \<times> string" where
  "js_digits s = (takeWhile is_dec s, dropWhile is_dec s)"

definition js_number :: "string \<Rightarrow> (string \<times> string) option" where
  "js_number s =
     (let (sg, s1) = (case s of c # t \<Rightarrow> if c = CHR ''-'' then ([c], t) else ([], s) | [] \<Rightarrow> ([], s));
          (ip, s2) = (case s1 of c # t \<Rightarrow> if c = CHR ''0'' then ([c], t) else js_digits s1 | [] \<Rightarrow> ([], s1))
      in if ip = [] then None
         else let (fp, s3) = (case s2 of
                   c # t \<Rightarrow> if c = CHR ''.'' \<and> fst (js_digits t) \<noteq> []
                            then (c # fst (js_digits t), snd (js_digits t)) else ([], s2)
                 | [] \<Rightarrow> ([], s2));
                (ep, s4) = (case s3 of
                   c # t \<Rightarrow> if c = CHR ''e'' \<or> c = CHR ''E'' then
                       (let (es, t1) = (case t of d # t' \<Rightarrow> if d = CHR ''-'' \<or> d = CHR ''+''
                                                          then ([d], t') else ([], t) | [] \<Rightarrow> ([], t))
                        in if fst (js_digits t1) \<noteq> []
                           then (c # es @ fst (js_digits t1), snd (js_digits t1)) else ([], s3))
                       else ([], s3)
                 | [] \<Rightarrow> ([], s3))
              in Some (sg @ ip @ fp @ ep, s4))"

definition js_word :: "string \<Rightarrow> (json \<times> string) option" where
  "js_word s =
     (if starts_with ''null'' s then Some (JNull, drop 4 s)
      else if starts_with ''true'' s then Some (JBool True, drop 4 s)
      else if starts_with ''false'' s then Some (JBool False, drop 5 s)
      else case js_number s of
          Some (t, r) \<Rightarrow> Some (JNum t, r)
        | None \<Rightarrow>
            if starts_with ''NaN'' s then Some (JNum ''NaN'', drop 3 s)
            else if starts_with ''Infinity'' s then Some (JNum ''Infinity'', drop 8 s)
            else if starts_with ''-Infinity'' s then Some (JNum ''-Infinity'', drop 9 s)
            else None)"

text \<open>
  The values. \<open>JMode\<close> says which loop of the reader is running: one value, the elements of an array
  read so far, the members of an object read so far. Each turn of a loop has to leave less input
  than it found, which the reader always does and which is tested so that it terminates.
\<close>

datatype jmode = JVal | JElems "json list" | JMembers "(string \<times> json) list"

function js_read :: "jmode \<Rightarrow> string \<Rightarrow> (json \<times> string) option" where
  "js_read JVal s =
     (case s of
        [] \<Rightarrow> None
      | c # t \<Rightarrow>
          (if c = CHR 0x22 then map_option (\<lambda>(x, r). (JStr x, r)) (js_string t)
           else if c = CHR ''['' then
             (let u = js_skip t in
              if u \<noteq> [] \<and> hd u = CHR '']'' then Some (JArr [], tl u)
              else if length u < length s then js_read (JElems []) u else None)
           else if c = CHR ''{'' then
             (let u = js_skip t in
              if u \<noteq> [] \<and> hd u = CHR ''}'' then Some (JObj [], tl u)
              else if length u < length s then js_read (JMembers []) u else None)
           else js_word s))"
| "js_read (JElems xs) s =
     (case js_read JVal s of
        None \<Rightarrow> None
      | Some (v, r) \<Rightarrow>
          (case js_skip r of
             [] \<Rightarrow> None
           | d # u \<Rightarrow>
               (if d = CHR '']'' then Some (JArr (xs @ [v]), u)
                else if d = CHR '','' \<and> length (js_skip u) < length s
                  then js_read (JElems (xs @ [v])) (js_skip u)
                else None)))"
| "js_read (JMembers ms) s =
     (case s of
        [] \<Rightarrow> None
      | c # t \<Rightarrow>
          (if c \<noteq> CHR 0x22 then None
           else case js_string t of
               None \<Rightarrow> None
             | Some (k, r) \<Rightarrow>
                 (case js_skip r of
                    [] \<Rightarrow> None
                  | d # u \<Rightarrow>
                      (if d \<noteq> CHR '':'' \<or> \<not> length (js_skip u) < length s then None
                       else case js_read JVal (js_skip u) of
                           None \<Rightarrow> None
                         | Some (v, r') \<Rightarrow>
                             (case js_skip r' of
                                [] \<Rightarrow> None
                              | e # w \<Rightarrow>
                                  (if e = CHR ''}'' then Some (JObj (dict_set k v ms), w)
                                   else if e = CHR '','' \<and> length (js_skip w) < length s
                                     then js_read (JMembers (dict_set k v ms)) (js_skip w)
                                   else None))))))"
  by pat_completeness auto
termination
  by (relation "measure (\<lambda>(m, s). 2 * length s + (if m = JVal then 0 else 1))") auto

declare js_read.simps [simp del]

definition json_loads :: "string \<Rightarrow> json option" where
  "json_loads s =
     (case js_read JVal (js_skip s) of
        None \<Rightarrow> None
      | Some (v, r) \<Rightarrow> if js_skip r = [] then Some v else None)"

definition json_str :: "json \<Rightarrow> string option" where
  "json_str j = (case j of JStr s \<Rightarrow> Some s | _ \<Rightarrow> None)"

definition json_strings :: "json list \<Rightarrow> string list option" where
  "json_strings js = those (map json_str js)"

subsection \<open>Printing a list of strings, and reading it back\<close>

text \<open>A string as \<open>json.dumps\<close> prints it when it needs no escapes.\<close>

definition js_plain :: "string \<Rightarrow> bool" where
  "js_plain w \<longleftrightarrow> (\<forall>c \<in> set w. 32 \<le> code c \<and> c \<noteq> CHR 0x22 \<and> c \<noteq> CHR 0x5C)"

definition js_print :: "string \<Rightarrow> string" where
  "js_print w = CHR 0x22 # w @ [CHR 0x22]"

lemma js_string_plain: "js_plain w \<Longrightarrow> js_string (w @ CHR 0x22 # s) = Some (w, s)"
  by (induction w) (auto simp: js_plain_def)

lemma js_read_string: "js_plain w \<Longrightarrow> js_read JVal (CHR 0x22 # w @ CHR 0x22 # s) = Some (JStr w, s)"
  by (simp add: js_read.simps(1) js_string_plain)

lemma js_skip_quote [simp]: "js_skip (CHR 0x22 # s) = CHR 0x22 # s"
  by (simp add: js_skip_def js_white_def)

lemma js_skip_other [simp]:
  "js_skip (CHR '','' # s) = CHR '','' # s" "js_skip (CHR '']'' # s) = CHR '']'' # s"
  "js_skip (CHR ''['' # s) = CHR ''['' # s" "js_skip (CHR '' '' # s) = js_skip s" "js_skip [] = []"
  by (simp_all add: js_skip_def js_white_def)

lemma js_read_elems:
  "list_all js_plain ws \<Longrightarrow> js_plain w \<Longrightarrow>
     js_read (JElems xs) (join_with '', '' (map js_print (w # ws)) @ CHR '']'' # r)
       = Some (JArr (xs @ map JStr (w # ws)), r)"
proof (induction ws arbitrary: xs w)
  case Nil
  then show ?case by (simp add: js_read.simps(2) js_print_def js_read_string)
next
  case (Cons v ws)
  define rest where "rest = join_with '', '' (map js_print (v # ws)) @ CHR '']'' # r"
  have "rest = CHR 0x22 # tl rest"
    unfolding rest_def by (cases ws) (simp_all add: js_print_def)
  then have skip: "js_skip rest = rest" using js_skip_quote by metis
  have whole: "join_with '', '' (map js_print (w # v # ws)) @ CHR '']'' # r
      = CHR 0x22 # w @ CHR 0x22 # CHR '','' # CHR '' '' # rest"
    by (simp add: rest_def js_print_def)
  have "js_read JVal (CHR 0x22 # w @ CHR 0x22 # CHR '','' # CHR '' '' # rest)
      = Some (JStr w, CHR '','' # CHR '' '' # rest)"
    using Cons.prems by (intro js_read_string) simp
  moreover have "js_read (JElems (xs @ [JStr w])) rest = Some (JArr ((xs @ [JStr w]) @ map JStr (v # ws)), r)"
    unfolding rest_def using Cons.prems by (intro Cons.IH) simp_all
  ultimately show ?case
    unfolding whole using skip
    by (simp add: js_read.simps(2) [of xs "CHR 0x22 # w @ CHR 0x22 # CHR '','' # CHR '' '' # rest"])
qed

lemma json_loads_strings:
  assumes "list_all js_plain ws"
  shows "json_loads (CHR ''['' # join_with '', '' (map js_print ws) @ '']'') = Some (JArr (map JStr ws))"
proof (cases ws)
  case Nil
  then show ?thesis by (simp add: json_loads_def js_read.simps(1))
next
  case (Cons w vs)
  define body where "body = join_with '', '' (map js_print (w # vs)) @ CHR '']'' # []"
  have q: "body = CHR 0x22 # tl body" unfolding body_def by (cases vs) (simp_all add: js_print_def)
  then have skip: "js_skip body = body" and hd: "hd body = CHR 0x22"
    using js_skip_quote list.sel(1) by (metis, metis)
  have "js_read (JElems []) body = Some (JArr ([] @ map JStr (w # vs)), [])"
    unfolding body_def using assms Cons by (intro js_read_elems) simp_all
  then have "js_read JVal (CHR ''['' # body) = Some (JArr (map JStr ws), [])"
    using skip hd q Cons by (simp add: js_read.simps(1) [of "CHR ''['' # body"])
  moreover have "CHR ''['' # join_with '', '' (map js_print ws) @ '']'' = CHR ''['' # body"
    by (simp add: body_def Cons)
  ultimately show ?thesis by (simp only: json_loads_def) simp
qed

end
