(* ===== verification/Dockerfile_Syntax.thy ===== *)
theory Dockerfile_Syntax
  imports Py_Regex Py_Shlex Py_Json
begin

text \<open>
  \<open>helpers/dockerfile.py\<close>: parser directives, continuation lines, comments, instruction records,
  flags, here-documents, the JSON exec form, and variable expansion. Lines that were not read yet are
  a list, next to the index the code keeps; an index past the end is the empty list. A syntax error is
  \<open>Inl\<close>, with the line it names.
\<close>

subsection \<open>Records\<close>

definition INSTRUCTIONS :: "string list" where
  "INSTRUCTIONS = [''ADD'', ''ARG'', ''CMD'', ''COPY'', ''ENTRYPOINT'', ''ENV'', ''EXPOSE'', ''FROM'',
     ''HEALTHCHECK'', ''LABEL'', ''MAINTAINER'', ''ONBUILD'', ''RUN'', ''SHELL'', ''STOPSIGNAL'',
     ''USER'', ''VOLUME'', ''WORKDIR'']"

definition HEREDOC_INSTRUCTIONS :: "string list" where
  "HEREDOC_INSTRUCTIONS = [''ADD'', ''COPY'', ''RUN'']"

definition DIRECTIVES :: "string list" where
  "DIRECTIVES = [''syntax'', ''escape'', ''check'']"

datatype syntax_error =
    UnknownInstruction nat | OnbuildWithoutInner nat | OnbuildBadInner nat
  | UnterminatedHeredoc string | UnterminatedBrace

record heredoc =
  hd_tag :: string
  hd_strip :: bool
  hd_body :: string

datatype ivalue = VText string | VArgv "string list" | VInner instr
and instr = Instr (i_name: string) (i_flags: "(string \<times> string) list") (i_value: ivalue)
  (i_exec: bool) (i_heredocs: "heredoc list") (i_lineno: nat) (i_raw: string)

subsection \<open>Lines\<close>

fun normalise_newlines :: "string \<Rightarrow> string" where
  "normalise_newlines [] = []"
| "normalise_newlines (c # s) =
     (if c = CHR 0x0D then
        (case s of d # s' \<Rightarrow> if d = CHR 0x0A then CHR 0x0A # normalise_newlines s'
                           else CHR 0x0A # normalise_newlines s
         | [] \<Rightarrow> [CHR 0x0A])
      else c # normalise_newlines s)"

definition lstrip :: "string \<Rightarrow> string" where
  "lstrip s = lstrip_by is_space s"

definition rstrip :: "string \<Rightarrow> string" where
  "rstrip s = rstrip_by is_space s"

definition strip :: "string \<Rightarrow> string" where
  "strip s = strip_by is_space s"

definition ident_start :: "char \<Rightarrow> bool" where
  "ident_start c \<longleftrightarrow> is_alpha_az c \<or> c = CHR ''_''"

definition ident_char :: "char \<Rightarrow> bool" where
  "ident_char c \<longleftrightarrow> is_alnum_az c \<or> c = CHR ''_''"

definition DIRECTIVE_RE :: rx where
  "DIRECTIVE_RE =
     RCat (RStar (RCls is_space)) (RCat (RGrp 1 (RCat (RCls ident_start) (RStar (RCls ident_char))))
       (RCat (RStar (RCls is_space)) (RCat (RChr CHR ''='') (RCat (RStar (RCls is_space))
         (RCat (RGrp 2 (RCat RAny (RLazy RAny))) (RCat (RStar (RCls is_space)) REol))))))"

definition cap_text :: "caps \<Rightarrow> nat \<Rightarrow> string" where
  "cap_text g i = (case g i of None \<Rightarrow> [] | Some t \<Rightarrow> t)"

text \<open>The directives, and how many leading lines they take.\<close>

fun parse_directives ::
  "(string \<times> string) list \<Rightarrow> nat \<Rightarrow> string list \<Rightarrow> (string \<times> string) list \<times> nat" where
  "parse_directives ds idx [] = (ds, idx)"
| "parse_directives ds idx (line # rest) =
     (let stripped = strip line in
      if stripped = [] then parse_directives ds (Suc idx) rest
      else if \<not> starts_with ''#'' stripped then (ds, idx)
      else case re_match DIRECTIVE_RE (drop 1 stripped) of
          None \<Rightarrow> (ds, idx)
        | Some (g, _) \<Rightarrow>
            (let key = str_lower (cap_text g 1) in
             if key \<notin> set DIRECTIVES \<or> dict_get ds key \<noteq> None then (ds, idx)
             else parse_directives (dict_set key (strip (cap_text g 2)) ds) (Suc idx) rest))"

definition trailing_count :: "char \<Rightarrow> string \<Rightarrow> nat" where
  "trailing_count e s = length (takeWhile (\<lambda>c. c = e) (rev s))"

definition ends_with_escape :: "char \<Rightarrow> string \<Rightarrow> bool" where
  "ends_with_escape e line \<longleftrightarrow> odd (trailing_count e (rstrip line))"

definition strip_trailing_escape :: "char \<Rightarrow> string \<Rightarrow> string" where
  "strip_trailing_escape e line =
     (let s = rstrip line in
      rstrip (if s \<noteq> [] \<and> last s = e then butlast s else s))"

definition skippable :: "string \<Rightarrow> bool" where
  "skippable line \<longleftrightarrow> lstrip line = [] \<or> starts_with ''#'' (lstrip line)"

text \<open>
  The continuation loop. \<open>gather e cur rest i\<close>: the segments of the logical line whose physical line
  \<open>i\<close> is \<open>cur\<close>, the unread lines from its last physical line on, and the index of that line.
\<close>

function gather :: "char \<Rightarrow> string \<Rightarrow> string list \<Rightarrow> nat \<Rightarrow> string list \<times> string list \<times> nat" where
  "gather e cur rest i =
     (if ends_with_escape e cur then
        (let seg = strip_trailing_escape e cur; rest1 = dropWhile skippable rest;
             i1 = i + 1 + length (takeWhile skippable rest)
         in case rest1 of
              [] \<Rightarrow> ([seg], [], i1)
            | nxt # rest2 \<Rightarrow>
                (let (segs, left, j) = gather e nxt rest2 i1 in (seg # segs, left, j)))
      else ([cur], cur # rest, i))"
  by pat_completeness auto

lemma dropWhile_Cons_length: "dropWhile P xs = y # ys \<Longrightarrow> length ys < length xs"
  using length_dropWhile_le [of P xs] by simp

termination gather
  by (relation "measure (\<lambda>(e, cur, rest, i). length rest)") (auto dest: dropWhile_Cons_length [OF sym])

declare gather.simps [simp del]

lemma gather_left: "gather e cur rest i = (segs, left, j) \<Longrightarrow> length left \<le> Suc (length rest)"
proof (induction e cur rest i arbitrary: segs left j rule: gather.induct)
  case (1 e cur rest i)
  show ?case
  proof (cases "ends_with_escape e cur")
    case False
    with "1.prems" show ?thesis by (auto simp: gather.simps)
  next
    case True
    note esc = this
    show ?thesis
    proof (cases "dropWhile skippable rest")
      case Nil
      with esc "1.prems" show ?thesis by (auto simp: gather.simps [of e cur] Let_def)
    next
      case (Cons nxt rest2)
      obtain segs' left' j' where
        g: "gather e nxt rest2 (i + 1 + length (takeWhile skippable rest)) = (segs', left', j')"
        by (cases "gather e nxt rest2 (i + 1 + length (takeWhile skippable rest))")
      from "1.IH" [OF esc refl refl refl Cons g] have "length left' \<le> Suc (length rest2)" .
      moreover have "left = left'" using "1.prems" esc Cons g by (simp add: gather.simps [of e cur] Let_def)
      ultimately show ?thesis using dropWhile_Cons_length [OF Cons] by simp
    qed
  qed
qed

subsection \<open>Flags, here-documents, exec form\<close>

text \<open>\<open>^\s*(\S+)\s*(.*)$\<close> on a line: the first word and the rest; \<open>None\<close> when there is no word.\<close>

definition first_word :: "string \<Rightarrow> (string \<times> string) option" where
  "first_word s =
     (let t = lstrip s; w = takeWhile (\<lambda>c. \<not> is_space c) t in
      if w = [] then None else Some (w, lstrip (dropWhile (\<lambda>c. \<not> is_space c) t)))"

text \<open>
  \<open>^\s*--([A-Za-z][A-Za-z0-9_-]*)(?:=(\S*))?(?=\s|$)\<close>: the key, the value text if there is an equals
  sign, what follows the equals sign, and what follows the match.
\<close>

definition flag_key_char :: "char \<Rightarrow> bool" where
  "flag_key_char c \<longleftrightarrow> is_alnum_az c \<or> c = CHR ''_'' \<or> c = CHR ''-''"

definition flag_match :: "string \<Rightarrow> (string \<times> (string \<times> string) option \<times> string) option" where
  "flag_match s =
     (let t = lstrip s; u = drop 2 t in
      if \<not> starts_with ''--'' t \<or> u = [] \<or> \<not> is_alpha_az (hd u) then None
      else let key = takeWhile flag_key_char u in
        case dropWhile flag_key_char u of
          [] \<Rightarrow> Some (key, None, [])
        | c # v \<Rightarrow>
            (if c = CHR ''='' then
               Some (key, Some (takeWhile (\<lambda>c. \<not> is_space c) v, v), dropWhile (\<lambda>c. \<not> is_space c) v)
             else if is_space c then Some (key, None, c # v) else None))"

fun quoted_len :: "char \<Rightarrow> string \<Rightarrow> nat" where
  "quoted_len q [] = 0"
| "quoted_len q (c # s) =
     (if c = q then 0
      else if q = CHR 0x22 \<and> c = CHR 0x5C then
        (case s of [] \<Rightarrow> 1 | _ # s' \<Rightarrow> 2 + quoted_len q s')
      else 1 + quoted_len q s)"

definition shlex_consumed_len :: "string \<Rightarrow> string \<Rightarrow> nat" where
  "shlex_consumed_len source token =
     (case source of
        [] \<Rightarrow> 0
      | q # s \<Rightarrow> if sh_quote q then 1 + quoted_len q s + 1 else length token)"

definition flag_step :: "string \<Rightarrow> ((string \<times> string) \<times> string) option" where
  "flag_step s =
     (case flag_match s of
        None \<Rightarrow> None
      | Some (key, None, rest) \<Rightarrow> Some ((key, []), rest)
      | Some (key, Some (val, after), rest) \<Rightarrow>
          (if val \<noteq> [] \<and> sh_quote (hd val) then
             (case read_token ShBlank False [] after of
                Inr (Some tok, _) \<Rightarrow> Some ((key, tok), drop (shlex_consumed_len after tok) after)
              | _ \<Rightarrow> Some ((key, val), rest))
           else Some ((key, val), rest)))"

lemma flag_match_shorter:
  assumes "flag_match s = Some (key, v, rest)"
  shows "length rest < length s \<and> (\<forall>val after. v = Some (val, after) \<longrightarrow> length after < length s)"
proof -
  have t: "length (lstrip s) \<le> length s" by (simp add: lstrip_def lstrip_by_def length_dropWhile_le)
  define r where "r = dropWhile flag_key_char (drop 2 (lstrip s))"
  have r: "length r \<le> length (lstrip s) - 2"
    using length_dropWhile_le [of flag_key_char "drop 2 (lstrip s)"] by (simp add: r_def)
  have two: "2 \<le> length (lstrip s)"
  proof -
    have "drop 2 (lstrip s) \<noteq> []" using assms by (auto simp: flag_match_def Let_def)
    then show ?thesis by simp
  qed
  have fm: "\<exists>k. (case r of [] \<Rightarrow> Some (k, None, [])
        | c # w \<Rightarrow>
            (if c = CHR ''='' then
               Some (k, Some (takeWhile (\<lambda>c. \<not> is_space c) w, w), dropWhile (\<lambda>c. \<not> is_space c) w)
             else if is_space c then Some (k, None, c # w) else None))
      = Some (key, v, rest)"
    using assms unfolding flag_match_def Let_def r_def [symmetric] by (auto split: if_splits)
  show ?thesis
  proof (cases r)
    case Nil
    with fm two t show ?thesis by auto
  next
    case (Cons c w)
    have "length (dropWhile (\<lambda>c. \<not> is_space c) w) \<le> length w" by (rule length_dropWhile_le)
    with Cons fm two t r show ?thesis by (auto split: if_splits)
  qed
qed

lemma flag_step_shorter: "flag_step s = Some (kv, rest) \<Longrightarrow> length rest < length s"
  using flag_match_shorter [of s]
  by (fastforce simp: flag_step_def split: option.splits prod.splits if_splits sum.splits)

function parse_flags ::
  "(string \<times> string) list \<Rightarrow> string \<Rightarrow> (string \<times> string) list \<times> string" where
  "parse_flags fs s =
     (case flag_step s of
        None \<Rightarrow> (fs, s)
      | Some ((k, v), rest) \<Rightarrow> parse_flags (dict_set k v fs) rest)"
  by pat_completeness auto
termination
  by (relation "measure (\<lambda>(fs, s). length s)") (auto dest: flag_step_shorter)

declare parse_flags.simps [simp del]

definition HEREDOC_RE :: rx where
  "HEREDOC_RE =
     RCat (RStr ''<<'') (RCat (RGrp 1 (ROpt (RChr CHR ''-'')))
       (RCat (RGrp 2 (ROpt (RCls sh_quote)))
         (RCat (RGrp 3 (RCat (RCls ident_start) (RStar (RCls ident_char)))) (RBack 2))))"

definition extract_heredoc_tags :: "string \<Rightarrow> (bool \<times> string) list" where
  "extract_heredoc_tags val =
     map (\<lambda>g. (cap_text g 1 \<noteq> [], cap_text g 3)) (re_finditer HEREDOC_RE val)"

definition strip_tabs :: "bool \<Rightarrow> string \<Rightarrow> string" where
  "strip_tabs b line = (if b then lstrip_by (\<lambda>c. c = CHR 0x09) line else line)"

definition closes_heredoc :: "bool \<Rightarrow> string \<Rightarrow> string \<Rightarrow> bool" where
  "closes_heredoc b tg line \<longleftrightarrow> strip_tabs b line = tg \<or> rstrip (strip_tabs b line) = tg"

text \<open>The body up to the closing line, with the lines and the index after it.\<close>

fun collect_heredoc_body ::
  "string \<Rightarrow> bool \<Rightarrow> string list \<Rightarrow> nat \<Rightarrow> string list \<Rightarrow> syntax_error + (string \<times> nat \<times> string list)" where
  "collect_heredoc_body tg b body i [] = Inl (UnterminatedHeredoc tg)"
| "collect_heredoc_body tg b body i (line # rest) =
     (if closes_heredoc b tg line
      then Inr (join_with [CHR 0x0A] body @ (if body \<noteq> [] then [CHR 0x0A] else []), Suc i, rest)
      else collect_heredoc_body tg b (body @ [strip_tabs b line]) (Suc i) rest)"

text \<open>
  The loop over the openers of one instruction. \<open>cur\<close> are the lines from index \<open>i\<close> on; each turn
  starts one line after \<open>i\<close>, as the code's call does.
\<close>

fun collect_heredocs ::
  "(bool \<times> string) list \<Rightarrow> nat \<Rightarrow> string list \<Rightarrow> syntax_error + (heredoc list \<times> nat \<times> string list)" where
  "collect_heredocs [] i cur = Inr ([], i, cur)"
| "collect_heredocs ((b, tg) # tags) i cur =
     bindR (collect_heredoc_body tg b [] (i + 1) (drop 1 cur)) (\<lambda>(body, i', cur').
       bindR (collect_heredocs tags i' cur') (\<lambda>(hs, j, left).
         Inr (\<lparr>hd_tag = tg, hd_strip = b, hd_body = body\<rparr> # hs, j, left)))"

lemma collect_heredoc_body_left:
  "collect_heredoc_body tg b body i ls = Inr (t, j, left) \<Longrightarrow> length left < length ls"
  by (induction tg b body i ls rule: collect_heredoc_body.induct) (auto split: if_splits)

lemma collect_heredocs_left:
  "collect_heredocs tags i cur = Inr (hs, j, left) \<Longrightarrow>
     length left \<le> length cur \<and> (tags \<noteq> [] \<longrightarrow> length left < length cur)"
proof (induction tags i cur arbitrary: hs j left rule: collect_heredocs.induct)
  case (2 b tg tags i cur)
  then obtain body i' cur' hs' where
    1: "collect_heredoc_body tg b [] (i + 1) (drop 1 cur) = Inr (body, i', cur')" and
    2: "collect_heredocs tags i' cur' = Inr (hs', j, left)" by auto
  from collect_heredoc_body_left [OF 1] have "length cur' < length cur" by simp
  moreover from "2.IH" [OF 2] have "length left \<le> length cur'" by simp
  ultimately show ?case by simp
qed simp

definition try_exec_form :: "string \<Rightarrow> string list option" where
  "try_exec_form val =
     (let s = strip val in
      if \<not> (starts_with ''['' s \<and> ends_with '']'' s) then None
      else case json_loads s of
          Some (JArr xs) \<Rightarrow> json_strings xs
        | _ \<Rightarrow> None)"

subsection \<open>Instructions\<close>

text \<open>The words of a logical line: the instruction, the inner one of an \<open>ONBUILD\<close>, and the rest.\<close>

definition instruction_words ::
  "nat \<Rightarrow> string \<Rightarrow> syntax_error + (bool \<times> string \<times> string) option" where
  "instruction_words lineno acc =
     (case first_word acc of
        None \<Rightarrow> Inr None
      | Some (w, rest) \<Rightarrow>
          (let name = str_upper w in
           if name \<notin> set INSTRUCTIONS then Inl (UnknownInstruction lineno)
           else if name = ''ONBUILD'' then
             (case first_word rest of
                None \<Rightarrow> Inl (OnbuildWithoutInner lineno)
              | Some (w', rest') \<Rightarrow>
                  (let inner = str_upper w' in
                   if inner \<notin> set INSTRUCTIONS \<or> inner = ''ONBUILD'' then Inl (OnbuildBadInner lineno)
                   else Inr (Some (True, inner, rest'))))
           else Inr (Some (False, name, rest))))"

definition make_instr ::
  "bool \<Rightarrow> string \<Rightarrow> (string \<times> string) list \<Rightarrow> string \<Rightarrow> heredoc list \<Rightarrow> nat \<Rightarrow> string \<Rightarrow> instr" where
  "make_instr onbuild name flags val hs lineno raw =
     (let inner = (case try_exec_form val of
            Some argv \<Rightarrow> Instr name flags (VArgv argv) True hs lineno raw
          | None \<Rightarrow> Instr name flags (VText val) False hs lineno raw)
      in if onbuild then Instr ''ONBUILD'' [] (VInner inner) False [] lineno raw else inner)"

text \<open>
  One logical line \<open>acc\<close>, whose last physical line has index \<open>j\<close> and heads \<open>cur\<close>: the record if
  there is one, the index to go on with and the lines from there.
\<close>

definition parse_logical ::
  "nat \<Rightarrow> string \<Rightarrow> string list \<Rightarrow> nat \<Rightarrow> syntax_error + (instr option \<times> nat \<times> string list)" where
  "parse_logical lineno acc cur j =
     (if acc = [] then Inr (None, Suc j, drop 1 cur)
      else bindR (instruction_words lineno acc) (\<lambda>w.
        case w of
          None \<Rightarrow> Inr (None, Suc j, drop 1 cur)
        | Some (onbuild, name, rest0) \<Rightarrow>
            (let (flags, rest) = parse_flags [] rest0; val = strip rest;
                 tags = (if name \<in> set HEREDOC_INSTRUCTIONS then extract_heredoc_tags val else [])
             in if tags = []
                then Inr (Some (make_instr onbuild name flags val [] lineno acc), Suc j, drop 1 cur)
                else bindR (collect_heredocs tags j cur) (\<lambda>(hs, k, left).
                  Inr (Some (make_instr onbuild name flags val hs lineno acc), k, left)))))"

lemma parse_logical_left:
  assumes "parse_logical n acc cur j = Inr (ins, k, left)" and "length cur \<le> Suc m"
  shows "length left \<le> m"
proof -
  have d: "length (drop 1 cur) \<le> m" using assms(2) by simp
  show ?thesis
  proof (cases "left = drop 1 cur")
    case True
    with d show ?thesis by simp
  next
    case False
    with assms(1) obtain w where w: "acc \<noteq> []" "instruction_words n acc = Inr (Some w)"
      by (auto simp: parse_logical_def split: if_splits option.splits)
    obtain ob name rest0 where ob: "w = (ob, name, rest0)" by (cases w)
    obtain flags rest where fr: "parse_flags [] rest0 = (flags, rest)" by force
    define tags where
      "tags = (if name \<in> set HEREDOC_INSTRUCTIONS then extract_heredoc_tags (strip rest) else [])"
    have "tags \<noteq> [] \<and> (\<exists>hs. collect_heredocs tags j cur = Inr (hs, k, left))"
      using assms(1) w ob fr False
      by (simp add: parse_logical_def tags_def [symmetric]) (auto simp: Let_def split: if_splits)
    with assms(2) show ?thesis using collect_heredocs_left by fastforce
  qed
qed

definition logical_text :: "string list \<Rightarrow> string" where
  "logical_text segs = strip (join_with '' '' (map strip segs))"

function parse_instructions :: "char \<Rightarrow> nat \<Rightarrow> string list \<Rightarrow> syntax_error + instr list" where
  "parse_instructions e i ls =
     (case ls of
        [] \<Rightarrow> Inr []
      | raw # rest \<Rightarrow>
          (if skippable raw then parse_instructions e (Suc i) rest
           else (let (segs, cur, j) = gather e raw rest i in
             case parse_logical (Suc i) (logical_text segs) cur j of
               Inl err \<Rightarrow> Inl err
             | Inr (ins, k, left) \<Rightarrow>
                 bindR (parse_instructions e k left) (\<lambda>is.
                   Inr (case ins of None \<Rightarrow> is | Some x \<Rightarrow> x # is)))))"
  by pat_completeness auto
termination
proof (relation "measure (\<lambda>(e, i, ls). length ls)", goal_cases)
  case (3 e i ls raw rest g segs y cur j r a left' k left)
  then show ?case
    using gather_left [of e raw rest i segs cur j]
      parse_logical_left [of "Suc i" "logical_text segs" cur j a k left "length rest"]
    by auto
qed auto

declare parse_instructions.simps [simp del]

definition escape_char :: "(string \<times> string) list \<Rightarrow> char \<times> (string \<times> string) list" where
  "escape_char ds =
     (case dict_get ds ''escape'' of
        None \<Rightarrow> (CHR 0x5C, ds)
      | Some v \<Rightarrow>
          (if v = [] \<or> v = [CHR 0x5C] then (CHR 0x5C, ds)
           else if v = ''`'' then (CHR ''`'', ds)
           else (CHR 0x5C, dict_del ''escape'' ds)))"

definition parse_dockerfile :: "string \<Rightarrow> syntax_error + ((string \<times> string) list \<times> instr list)" where
  "parse_dockerfile text =
     (let lines = split_on CHR 0x0A (normalise_newlines text);
          (ds0, start) = parse_directives [] 0 lines;
          (e, ds) = escape_char ds0
      in bindR (parse_instructions e start (drop start lines)) (\<lambda>is. Inr (ds, is)))"

subsection \<open>Variable expansion\<close>

type_synonym env = "string \<rightharpoonup> string"

definition lookup_or_empty :: "string \<Rightarrow> env \<Rightarrow> string" where
  "lookup_or_empty name env = (case env name of None \<Rightarrow> [] | Some v \<Rightarrow> v)"

definition BRACED_OP_RE :: rx where
  "BRACED_OP_RE =
     RCat (RGrp 1 (RCat (RCls ident_start) (RStar (RCls ident_char))))
       (RCat (RGrp 2 (RCat (ROpt (RChr CHR '':'')) (RCls (\<lambda>c. c \<in> {CHR ''-'', CHR ''+'', CHR ''?''}))))
         (RCat (RGrp 3 (RStar RAny)) REol))"

definition expand_braced :: "string \<Rightarrow> env \<Rightarrow> string" where
  "expand_braced inner env =
     (case re_match BRACED_OP_RE inner of
        None \<Rightarrow> lookup_or_empty inner env
      | Some (g, _) \<Rightarrow>
          (let name = cap_text g 1; op = cap_text g 2; arg = cap_text g 3; raw = env name in
           if op = '':-'' then (case raw of None \<Rightarrow> arg | Some v \<Rightarrow> if v = [] then arg else v)
           else if op = ''-'' then (case raw of None \<Rightarrow> arg | Some v \<Rightarrow> v)
           else if op = '':+'' then (case raw of None \<Rightarrow> [] | Some v \<Rightarrow> if v = [] then [] else arg)
           else if op = ''+'' then (case raw of None \<Rightarrow> [] | Some _ \<Rightarrow> arg)
           else lookup_or_empty name env))"

definition var_char :: "char \<Rightarrow> bool" where
  "var_char c \<longleftrightarrow> is_alnum_py c \<or> c = CHR ''_''"

function expand_vars :: "string \<Rightarrow> env \<Rightarrow> syntax_error + string" where
  "expand_vars text env =
     (case text of
        [] \<Rightarrow> Inr []
      | c # s \<Rightarrow>
          (if c = CHR 0x5C \<and> s \<noteq> [] then bindR (expand_vars (tl s) env) (\<lambda>t. Inr (hd s # t))
           else if c \<noteq> CHR ''$'' then bindR (expand_vars s env) (\<lambda>t. Inr (c # t))
           else if s \<noteq> [] \<and> hd s = CHR ''{'' then
             (let (inner, found, rest) = partition_at CHR ''}'' (tl s) in
              if \<not> found then Inl UnterminatedBrace
              else bindR (expand_vars (drop (length inner + 2) s) env)
                     (\<lambda>t. Inr (expand_braced inner env @ t)))
           else (let name = takeWhile var_char s in
             if name = [] then bindR (expand_vars s env) (\<lambda>t. Inr (CHR ''$'' # t))
             else bindR (expand_vars (drop (length name) s) env)
                    (\<lambda>t. Inr (lookup_or_empty name env @ t)))))"
  by pat_completeness auto
termination
  by (relation "measure (\<lambda>(t, _). length t)") (auto simp: neq_Nil_conv)

declare expand_vars.simps [simp del]

subsection \<open>Lines, indices and record shapes\<close>

lemma gather_index:
  "gather e cur rest i = (segs, left, j) \<Longrightarrow> j + length left = i + Suc (length rest) \<and> i \<le> j"
proof (induction e cur rest i arbitrary: segs left j rule: gather.induct)
  case (1 e cur rest i)
  show ?case
  proof (cases "ends_with_escape e cur")
    case False
    with "1.prems" show ?thesis by (auto simp: gather.simps)
  next
    case True
    note esc = this
    have len: "length rest = length (takeWhile skippable rest) + length (dropWhile skippable rest)"
      by (metis length_append takeWhile_dropWhile_id)
    show ?thesis
    proof (cases "dropWhile skippable rest")
      case Nil
      with esc "1.prems" len show ?thesis by (auto simp: gather.simps [of e cur] Let_def)
    next
      case (Cons nxt rest2)
      obtain segs' left' j' where
        g: "gather e nxt rest2 (i + 1 + length (takeWhile skippable rest)) = (segs', left', j')"
        by (cases "gather e nxt rest2 (i + 1 + length (takeWhile skippable rest))")
      have "left = left' \<and> j = j'" using "1.prems" esc Cons g by (simp add: gather.simps [of e cur] Let_def)
      with "1.IH" [OF esc refl refl refl Cons g] len Cons show ?thesis by simp
    qed
  qed
qed

lemma collect_heredoc_body_index:
  "collect_heredoc_body tg b body i ls = Inr (t, j, left) \<Longrightarrow> j + length left = i + length ls \<and> i < j"
  by (induction tg b body i ls rule: collect_heredoc_body.induct) (auto split: if_splits)

lemma collect_heredocs_index:
  "collect_heredocs tags i cur = Inr (hs, j, left) \<Longrightarrow> j + length left = i + length cur \<and> i \<le> j"
proof (induction tags i cur arbitrary: hs j left rule: collect_heredocs.induct)
  case (2 b tg tags i cur)
  then obtain body i' cur' hs' where
    1: "collect_heredoc_body tg b [] (i + 1) (drop 1 cur) = Inr (body, i', cur')" and
    2: "collect_heredocs tags i' cur' = Inr (hs', j, left)" by auto
  from 1 have "cur \<noteq> []" by auto
  with collect_heredoc_body_index [OF 1] "2.IH" [OF 2] show ?case by (cases cur) auto
qed simp

text \<open>What every record the parser makes looks like.\<close>

fun simple_record :: "instr \<Rightarrow> bool" where
  "simple_record (Instr n fs v ex hs l r) \<longleftrightarrow>
     n \<in> set INSTRUCTIONS \<and> n \<noteq> ''ONBUILD''
   \<and> (case v of VText t \<Rightarrow> \<not> ex | VArgv a \<Rightarrow> ex | VInner _ \<Rightarrow> False)
   \<and> (hs \<noteq> [] \<longrightarrow> n \<in> set HEREDOC_INSTRUCTIONS)"

fun wf_record :: "instr \<Rightarrow> bool" where
  "wf_record (Instr n fs v ex hs l r) \<longleftrightarrow>
     (if n = ''ONBUILD'' then (case v of VInner x \<Rightarrow> simple_record x \<and> i_lineno x = l | _ \<Rightarrow> False)
        \<and> fs = [] \<and> hs = [] \<and> \<not> ex
      else simple_record (Instr n fs v ex hs l r))"

lemma make_instr_wf:
  assumes "name \<in> set INSTRUCTIONS" and "name \<noteq> ''ONBUILD''"
    and "hs \<noteq> [] \<longrightarrow> name \<in> set HEREDOC_INSTRUCTIONS"
  shows "wf_record (make_instr ob name fs v hs l r) \<and> i_lineno (make_instr ob name fs v hs l r) = l"
  using assms by (auto simp: make_instr_def Let_def split: option.splits)

lemma instruction_words_known:
  "instruction_words l acc = Inr (Some (ob, name, rest)) \<Longrightarrow>
     name \<in> set INSTRUCTIONS \<and> name \<noteq> ''ONBUILD''"
  by (simp add: instruction_words_def Let_def split: option.splits prod.splits if_splits)

lemma parse_logical_facts:
  assumes "parse_logical l acc cur j = Inr (ins, k, left)"
  shows "j < k \<or> left = []" and "left = [] \<or> k + length left = j + length cur"
    and "\<And>x. ins = Some x \<Longrightarrow> wf_record x \<and> i_lineno x = l"
proof -
  have plain: "Suc j + length (drop 1 cur) = j + length cur \<or> drop 1 cur = []" by (cases cur) auto
  consider (none) "ins = None" "k = Suc j" "left = drop 1 cur"
    | (some) ob name rest0 flags rest hs where
        "instruction_words l acc = Inr (Some (ob, name, rest0))"
        "ins = Some (make_instr ob name flags (strip rest) hs l acc)"
        "hs = [] \<and> k = Suc j \<and> left = drop 1 cur \<or>
         name \<in> set HEREDOC_INSTRUCTIONS \<and> (\<exists>tags. tags \<noteq> [] \<and> collect_heredocs tags j cur = Inr (hs, k, left))"
  proof -
    assume a: "ins = None \<Longrightarrow> k = Suc j \<Longrightarrow> left = drop 1 cur \<Longrightarrow> thesis"
      and b: "\<And>ob name rest0 flags rest hs.
        instruction_words l acc = Inr (Some (ob, name, rest0)) \<Longrightarrow>
        ins = Some (make_instr ob name flags (strip rest) hs l acc) \<Longrightarrow>
        hs = [] \<and> k = Suc j \<and> left = drop 1 cur \<or>
         name \<in> set HEREDOC_INSTRUCTIONS \<and> (\<exists>tags. tags \<noteq> [] \<and> collect_heredocs tags j cur = Inr (hs, k, left)) \<Longrightarrow> thesis"
    show thesis
    proof (cases "acc = [] \<or> instruction_words l acc = Inr None")
      case True
      then have "(None, Suc j, drop 1 cur) = (ins, k, left)"
        using assms by (cases "acc = []") (simp_all add: parse_logical_def)
      then show thesis using a by simp
    next
      case False
      with assms obtain w where w: "acc \<noteq> []" "instruction_words l acc = Inr (Some w)"
        by (auto simp: parse_logical_def split: option.splits)
      obtain ob name rest0 where ob: "w = (ob, name, rest0)" by (cases w)
      obtain flags rest where fr: "parse_flags [] rest0 = (flags, rest)" by force
      define tags where
        "tags = (if name \<in> set HEREDOC_INSTRUCTIONS then extract_heredoc_tags (strip rest) else [])"
      have r: "(if tags = [] then Inr (Some (make_instr ob name flags (strip rest) [] l acc), Suc j, drop 1 cur)
                else bindR (collect_heredocs tags j cur) (\<lambda>(hs, k, left).
                  Inr (Some (make_instr ob name flags (strip rest) hs l acc), k, left)))
          = (Inr (ins, k, left) :: syntax_error + _)"
        using assms w ob fr by (simp add: parse_logical_def Let_def tags_def [symmetric] cong: if_cong split del: if_split)
      show thesis
      proof (cases "tags = []")
        case True
        with r show thesis using b [of ob name rest0 flags rest "[]"] w ob by simp
      next
        case False
        with r obtain hs where hs: "collect_heredocs tags j cur = Inr (hs, k, left)"
          "ins = Some (make_instr ob name flags (strip rest) hs l acc)" by auto
        moreover from False have "name \<in> set HEREDOC_INSTRUCTIONS" by (auto simp: tags_def split: if_splits)
        ultimately show thesis using b [of ob name rest0 flags rest hs] w ob False by blast
      qed
    qed
  qed
  note cs = this
  show "j < k \<or> left = []"
  proof (cases rule: cs)
    case (some ob name rest0 flags rest hs)
    then show ?thesis using collect_heredocs_index collect_heredocs_left by fastforce
  qed simp
  show "left = [] \<or> k + length left = j + length cur"
  proof (cases rule: cs)
    case none
    with plain show ?thesis by auto
  next
    case (some ob name rest0 flags rest hs)
    then show ?thesis using plain collect_heredocs_index by fastforce
  qed
  show "wf_record x \<and> i_lineno x = l" if "ins = Some x" for x
  proof (cases rule: cs)
    case none
    with that show ?thesis by simp
  next
    case (some ob name rest0 flags rest hs)
    then have "hs \<noteq> [] \<longrightarrow> name \<in> set HEREDOC_INSTRUCTIONS" by blast
    with instruction_words_known [OF some(1)] some(2) that show ?thesis
      using make_instr_wf [of name hs ob flags "strip rest" l acc] by simp
  qed
qed

lemma parse_instructions_shape:
  "parse_instructions e i ls = Inr is \<Longrightarrow>
     list_all wf_record is \<and> sorted_wrt (<) (map i_lineno is)
     \<and> (\<forall>x \<in> set is. i < i_lineno x \<and> i_lineno x \<le> i + length ls)"
proof (induction e i ls arbitrary: "is" rule: parse_instructions.induct)
  case (1 e i ls)
  show ?case
  proof (cases ls)
    case Nil
    with "1.prems" show ?thesis by (simp add: parse_instructions.simps)
  next
    case (Cons raw rest)
    note ls = this
    show ?thesis
    proof (cases "skippable raw")
      case True
      with "1.prems" ls have "parse_instructions e (Suc i) rest = Inr is"
        by (simp add: parse_instructions.simps [of e i])
      from "1.IH"(1) [OF ls True this] ls show ?thesis by fastforce
    next
      case False
      obtain segs cur j where g: "gather e raw rest i = (segs, cur, j)" by (cases "gather e raw rest i")
      from "1.prems" ls False g obtain ins k left is' where
        pl: "parse_logical (Suc i) (logical_text segs) cur j = Inr (ins, k, left)" and
        rec: "parse_instructions e k left = Inr is'" and
        eq: "is = (case ins of None \<Rightarrow> is' | Some x \<Rightarrow> x # is')"
        by (auto simp: parse_instructions.simps [of e i] split: sum.splits)
      from "1.IH"(2) [OF ls False g [symmetric] refl refl pl refl refl rec]
      have ih: "list_all wf_record is'" "sorted_wrt (<) (map i_lineno is')"
        "\<forall>x \<in> set is'. k < i_lineno x \<and> i_lineno x \<le> k + length left" by auto
      have none: "left = [] \<Longrightarrow> is' = []" using rec by (simp add: parse_instructions.simps)
      note pf = parse_logical_facts [OF pl] gather_index [OF g]
      have rng: "\<forall>x \<in> set is'. Suc i < i_lineno x \<and> i_lineno x \<le> i + length ls"
      proof (cases "left = []")
        case False
        with pf ls have "i < k" "k + length left = i + length ls" by auto
        with ih(3) show ?thesis by fastforce
      qed (simp add: none)
      show ?thesis
      proof (cases ins)
        case None
        with eq ih rng show ?thesis by fastforce
      next
        case (Some x)
        with pf(3) have "wf_record x" "i_lineno x = Suc i" by auto
        with Some eq ih rng ls show ?thesis by fastforce
      qed
    qed
  qed
qed

end
