(* ===== verification/Dockerfile_Props.thy ===== *)
theory Dockerfile_Props
  imports Dockerfile_Syntax
begin

text \<open>
  What the Dockerfile parser and the variable expansion promise: the shape and the order of the
  records, printing and reading back a file of simple instructions, continuation lines with comments
  between them, and the value of every expansion form on a small template language.
\<close>

subsection \<open>Record shapes\<close>

lemma parse_directives_index: "snd (parse_directives ds idx ls) \<le> idx + length ls"
proof (induction ds idx ls rule: parse_directives.induct)
  case (2 ds idx line rest)
  then show ?case by (auto simp: Let_def split: option.splits)
qed simp

text \<open>C37. Every record of a parsed file is well-formed (a known instruction; text or an argument list
  as its exec flag says; here-documents only on ADD, COPY and RUN; \<open>ONBUILD\<close> around exactly one simple
  record), and the records come in the order of the lines they start on, each line within the file.\<close>

theorem parsed_records_shape:
  assumes "parse_dockerfile text = Inr (ds, is)"
  shows "list_all wf_record is \<and> sorted_wrt (<) (map i_lineno is)
    \<and> list_all (\<lambda>x. 1 \<le> i_lineno x \<and> i_lineno x \<le> length (split_on CHR 0x0A (normalise_newlines text))) is"
proof -
  define ls where "ls = split_on CHR 0x0A (normalise_newlines text)"
  obtain ds0 start where d: "parse_directives [] 0 ls = (ds0, start)" by force
  have st: "start \<le> length ls" using parse_directives_index [of "[]" 0 ls] d by simp
  from assms d obtain e where "parse_instructions e start (drop start ls) = Inr is"
    by (auto simp: parse_dockerfile_def ls_def Let_def split: prod.splits)
  from parse_instructions_shape [OF this] st show ?thesis
    by (auto simp: list_all_iff ls_def)
qed

theorem parsed_records_shape_witness:
  "parse_dockerfile ''FROM a'' = Inr ([], [Instr ''FROM'' [] (VText ''a'') False [] 1 ''FROM a''])
    \<and> list_all wf_record [Instr ''FROM'' [] (VText ''a'') False [] 1 ''FROM a'']"
proof -
  have p: "parse_dockerfile ''FROM a'' = Inr ([], [Instr ''FROM'' [] (VText ''a'') False [] 1 ''FROM a''])"
    by code_simp
  from parsed_records_shape [OF p] p show ?thesis by blast
qed

subsection \<open>Printing instructions\<close>

datatype cmd = CText string | CArgv "string list"

fun show_cmd :: "cmd \<Rightarrow> string" where
  "show_cmd (CText v) = v"
| "show_cmd (CArgv ws) = CHR ''['' # join_with '', '' (map js_print ws) @ '']''"

definition show_flag :: "string \<times> string \<Rightarrow> string" where
  "show_flag kv = '' --'' @ fst kv @ ''='' @ snd kv"

definition show_line :: "string \<times> (string \<times> string) list \<times> cmd \<Rightarrow> string" where
  "show_line p = (case p of (n, fs, c) \<Rightarrow> n @ concat (map show_flag fs) @ '' '' @ show_cmd c)"

text \<open>Words and values that stand for themselves when printed.\<close>

definition plain_flag :: "string \<times> string \<Rightarrow> bool" where
  "plain_flag kv \<longleftrightarrow> fst kv \<noteq> [] \<and> is_alpha_az (hd (fst kv)) \<and> list_all flag_key_char (fst kv)
     \<and> list_all (\<lambda>c. \<not> is_space c) (snd kv) \<and> (snd kv \<noteq> [] \<longrightarrow> \<not> sh_quote (hd (snd kv)))"

fun plain_cmd :: "cmd \<Rightarrow> bool" where
  "plain_cmd (CText v) \<longleftrightarrow> v \<noteq> [] \<and> \<not> is_space (hd v) \<and> \<not> is_space (last v) \<and> last v \<noteq> CHR 0x5C
     \<and> hd v \<noteq> CHR ''['' \<and> \<not> starts_with ''--'' v \<and> list_all (\<lambda>c. c \<noteq> CHR 0x0A \<and> c \<noteq> CHR 0x0D) v"
| "plain_cmd (CArgv ws) \<longleftrightarrow> list_all js_plain ws"

definition plain_line :: "string \<times> (string \<times> string) list \<times> cmd \<Rightarrow> bool" where
  "plain_line p = (case p of (n, fs, c) \<Rightarrow>
     n \<in> set INSTRUCTIONS \<and> n \<noteq> ''ONBUILD'' \<and> distinct (map fst fs) \<and> list_all plain_flag fs \<and> plain_cmd c
     \<and> (n \<in> set HEREDOC_INSTRUCTIONS \<longrightarrow> CHR ''<'' \<notin> set (show_cmd c)))"

fun read_line :: "nat \<Rightarrow> string \<times> (string \<times> string) list \<times> cmd \<Rightarrow> instr" where
  "read_line i (n, fs, CText v) = Instr n fs (VText v) False [] i (show_line (n, fs, CText v))"
| "read_line i (n, fs, CArgv ws) = Instr n fs (VArgv ws) True [] i (show_line (n, fs, CArgv ws))"

lemma space_classes:
  "is_alpha_az c \<Longrightarrow> \<not> is_space c" "flag_key_char c \<Longrightarrow> \<not> is_space c"
  "is_space CHR '' ''" "\<not> is_space CHR ''-''" "\<not> is_space CHR ''=''" "\<not> is_space CHR 0x5C"
  "\<not> is_space CHR ''['' \<and> \<not> is_space CHR '']'' \<and> \<not> is_space CHR ''`''"
  "\<not> flag_key_char CHR ''=''" "is_space CHR 0x0A" "is_space CHR 0x0D"
  by (auto simp: flag_key_char_def char_class_defs is_space_def code_def)

lemma lstrip_space [simp]: "lstrip (CHR '' '' # s) = lstrip s"
  by (simp add: lstrip_def lstrip_by_def space_classes)

lemma lstrip_hd: "s \<noteq> [] \<Longrightarrow> \<not> is_space (hd s) \<Longrightarrow> lstrip s = s"
  by (cases s) (simp_all add: lstrip_def lstrip_by_def)

lemma lstrip_idem [simp]: "lstrip (lstrip s) = lstrip s"
  by (simp add: lstrip_def lstrip_by_def dropWhile_idem)

lemma strip_lstrip [simp]: "strip (lstrip s) = strip s"
  by (simp add: strip_def lstrip_def strip_by_def lstrip_by_def dropWhile_idem)

lemma strip_space [simp]: "strip (CHR '' '' # s) = strip s"
  by (metis strip_lstrip lstrip_space)

lemma flag_step_lstrip [simp]: "flag_step (lstrip s) = flag_step s"
  by (simp add: flag_step_def flag_match_def)

lemma takeWhile_stop: "list_all P u \<Longrightarrow> \<not> P c \<Longrightarrow> takeWhile P (u @ c # s) = u \<and> dropWhile P (u @ c # s) = c # s"
  by (induction u) auto

lemma flag_step_print:
  assumes "plain_flag (k, x)"
  shows "flag_step (show_flag (k, x) @ CHR '' '' # s) = Some ((k, x), CHR '' '' # s)"
proof -
  obtain a w where k: "k = a # w" "is_alpha_az a" using assms by (cases k) (auto simp: plain_flag_def)
  have l: "lstrip (show_flag (k, x) @ CHR '' '' # s) = ''--'' @ k @ CHR ''='' # x @ CHR '' '' # s"
    by (simp add: show_flag_def) (simp add: lstrip_def lstrip_by_def space_classes)
  have t: "takeWhile flag_key_char (k @ CHR ''='' # x @ CHR '' '' # s) = k"
    "dropWhile flag_key_char (k @ CHR ''='' # x @ CHR '' '' # s) = CHR ''='' # x @ CHR '' '' # s"
    using assms takeWhile_stop [of flag_key_char k "CHR ''=''" "x @ CHR '' '' # s"]
    by (auto simp: plain_flag_def space_classes)
  have v: "takeWhile (\<lambda>c. \<not> is_space c) (x @ CHR '' '' # s) = x"
    "dropWhile (\<lambda>c. \<not> is_space c) (x @ CHR '' '' # s) = CHR '' '' # s"
    using assms takeWhile_stop [of "\<lambda>c. \<not> is_space c" x "CHR '' ''" s]
    by (auto simp: plain_flag_def space_classes)
  have "flag_match (show_flag (k, x) @ CHR '' '' # s) = Some (k, Some (x, x @ CHR '' '' # s), CHR '' '' # s)"
    using k t v l by (simp add: flag_match_def starts_with_def)
  with assms show ?thesis by (auto simp: flag_step_def plain_flag_def)
qed

lemma flag_step_none: "\<not> starts_with ''--'' (lstrip s) \<Longrightarrow> flag_step s = None"
  by (simp add: flag_step_def flag_match_def Let_def)

lemma parse_flags_print:
  "list_all plain_flag fs \<Longrightarrow> distinct (map fst (acc @ fs)) \<Longrightarrow> \<not> starts_with ''--'' (lstrip v) \<Longrightarrow>
     parse_flags acc (concat (map show_flag fs) @ CHR '' '' # v) = (acc @ fs, CHR '' '' # v)"
proof (induction fs arbitrary: acc)
  case Nil
  then show ?case by (simp add: parse_flags.simps flag_step_none)
next
  case (Cons f fs)
  obtain k x where f: "f = (k, x)" by (cases f)
  have s: "\<exists>s. concat (map show_flag fs) @ CHR '' '' # v = CHR '' '' # s"
    by (cases fs) (auto simp: show_flag_def)
  then have "flag_step (show_flag (k, x) @ concat (map show_flag fs) @ CHR '' '' # v)
      = Some ((k, x), concat (map show_flag fs) @ CHR '' '' # v)"
    using flag_step_print [of k x] Cons.prems(1) f by auto
  moreover have "dict_set k x acc = acc @ [(k, x)]" using Cons.prems f by (intro dict_set_new) auto
  moreover have "parse_flags (acc @ [(k, x)]) (concat (map show_flag fs) @ CHR '' '' # v)
      = ((acc @ [(k, x)]) @ fs, CHR '' '' # v)"
    using Cons.prems f by (intro Cons.IH) auto
  ultimately show ?case
    using f by (simp add: parse_flags.simps [of acc "show_flag (k, x) @ concat (map show_flag fs) @ CHR '' '' # v"])
qed

lemma parse_flags_lstrip:
  "\<exists>r. parse_flags acc (lstrip s) = (fst (parse_flags acc s), r) \<and> strip r = strip (snd (parse_flags acc s))"
  by (rule exI [of _ "if flag_step s = None then lstrip s else snd (parse_flags acc s)"])
    (auto simp: parse_flags.simps [of acc "lstrip s"] parse_flags.simps [of acc s] split: option.split)

lemma no_heredoc_tags: "CHR ''<'' \<notin> set s \<Longrightarrow> extract_heredoc_tags s = []"
proof -
  have "re_finditer HEREDOC_RE s = []" if "CHR ''<'' \<notin> set s" for s
    using that
  proof (induction s)
    case (Cons c s)
    then have "c \<noteq> CHR ''<''" by auto
    with Cons show ?case
      by (simp add: re_finditer.simps [of _ "c # s"] re_match_def HEREDOC_RE_def RChr_def succs.simps)
  qed (simp add: re_finditer.simps re_match_def HEREDOC_RE_def RChr_def succs.simps)
  then show "CHR ''<'' \<notin> set s \<Longrightarrow> extract_heredoc_tags s = []" by (simp add: extract_heredoc_tags_def)
qed

lemma instruction_name_facts:
  assumes "n \<in> set INSTRUCTIONS"
  shows "n \<noteq> [] \<and> str_upper n = n \<and> list_all (\<lambda>c. is_upper_az c) n"
proof -
  have "list_all (\<lambda>n. n \<noteq> [] \<and> str_upper n = n \<and> list_all (\<lambda>c. is_upper_az c) n) INSTRUCTIONS"
    by code_simp
  with assms show ?thesis by (simp add: list_all_iff)
qed

lemma instruction_name_chars:
  assumes "n \<in> set INSTRUCTIONS" and "c \<in> set n"
  shows "\<not> is_space c \<and> c \<noteq> CHR ''#'' \<and> c \<noteq> CHR 0x0A \<and> c \<noteq> CHR 0x0D \<and> c \<noteq> CHR 0x5C"
proof -
  have "is_upper_az c" using instruction_name_facts [OF assms(1)] assms(2) by (simp add: list_all_iff)
  then show ?thesis by (auto simp: char_class_defs is_space_def code_def)
qed

lemma instruction_words_print:
  assumes "n \<in> set INSTRUCTIONS" and "n \<noteq> ''ONBUILD''"
  shows "instruction_words l (n @ CHR '' '' # s) = Inr (Some (False, n, lstrip s))"
proof -
  have n: "n \<noteq> []" "str_upper n = n" "list_all (\<lambda>c. \<not> is_space c) n"
    using instruction_name_facts [OF assms(1)] instruction_name_chars [OF assms(1)]
    by (auto simp: list_all_iff)
  then have "\<not> is_space (hd (n @ CHR '' '' # s))" by (cases n) auto
  then have "lstrip (n @ CHR '' '' # s) = n @ CHR '' '' # s" by (intro lstrip_hd) simp_all
  with n takeWhile_stop [of "\<lambda>c. \<not> is_space c" n "CHR '' ''" s]
  have "first_word (n @ CHR '' '' # s) = Some (n, lstrip s)"
    by (simp add: first_word_def space_classes)
  with n assms show ?thesis by (simp add: instruction_words_def)
qed

lemma try_exec_text: "v \<noteq> [] \<Longrightarrow> hd v \<noteq> CHR ''['' \<Longrightarrow> strip v = v \<Longrightarrow> try_exec_form v = None"
  by (cases v) (simp_all add: try_exec_form_def starts_with_def)

lemma json_strings_map [simp]: "json_strings (map JStr ws) = Some ws"
  by (induction ws) (simp_all add: json_strings_def json_str_def)

lemma show_cmd_ends:
  assumes "plain_cmd c"
  shows "show_cmd c \<noteq> [] \<and> \<not> is_space (hd (show_cmd c)) \<and> \<not> is_space (last (show_cmd c))
    \<and> last (show_cmd c) \<noteq> CHR 0x5C \<and> \<not> starts_with ''--'' (show_cmd c)"
  using assms by (cases c) (auto simp: space_classes starts_with_def)

lemma strip_ends: "v \<noteq> [] \<Longrightarrow> \<not> is_space (hd v) \<Longrightarrow> \<not> is_space (last v) \<Longrightarrow> strip v = v"
  by (simp add: strip_def strip_id)

lemma try_exec_argv:
  assumes "list_all js_plain ws"
  shows "try_exec_form (show_cmd (CArgv ws)) = Some ws"
proof -
  let ?v = "show_cmd (CArgv ws)"
  have "strip ?v = ?v" by (intro strip_ends) (simp_all add: space_classes)
  moreover have "starts_with ''['' ?v" "ends_with '']'' ?v"
    by (simp_all add: starts_with_def ends_with_def)
  moreover have "json_loads ?v = Some (JArr (map JStr ws))" using json_loads_strings [OF assms] by simp
  ultimately show ?thesis by (simp add: try_exec_form_def)
qed

lemma show_line_ends:
  assumes "plain_line p"
  shows "show_line p \<noteq> [] \<and> is_upper_az (hd (show_line p)) \<and> \<not> is_space (last (show_line p))
    \<and> last (show_line p) \<noteq> CHR 0x5C"
proof -
  obtain n fs c where p: "p = (n, fs, c)" by (cases p)
  with assms have n: "n \<in> set INSTRUCTIONS" and c: "plain_cmd c" by (simp_all add: plain_line_def)
  from instruction_name_facts [OF n] have "n \<noteq> [] \<and> is_upper_az (hd n)" by (cases n) auto
  with show_cmd_ends [OF c] show ?thesis by (simp add: p show_line_def)
qed

lemma parse_logical_print:
  assumes "plain_line p"
  shows "parse_logical l (show_line p) cur j = Inr (Some (read_line l p), Suc j, drop 1 cur)"
proof -
  obtain n fs c where p: "p = (n, fs, c)" by (cases p)
  with assms have n: "n \<in> set INSTRUCTIONS" "n \<noteq> ''ONBUILD''" and c: "plain_cmd c"
    and fs: "list_all plain_flag fs" "distinct (map fst fs)"
    and h: "n \<in> set HEREDOC_INSTRUCTIONS \<longrightarrow> CHR ''<'' \<notin> set (show_cmd c)"
    by (simp_all add: plain_line_def)
  note ce = show_cmd_ends [OF c]
  have sc: "strip (show_cmd c) = show_cmd c" using ce by (intro strip_ends) auto
  define body where "body = concat (map show_flag fs) @ CHR '' '' # show_cmd c"
  have "\<not> starts_with ''--'' (lstrip (show_cmd c))" using ce by (simp add: lstrip_hd)
  with fs have pf: "parse_flags [] body = (fs, CHR '' '' # show_cmd c)"
    using parse_flags_print [of fs "[]" "show_cmd c"] by (simp add: body_def)
  then obtain r where r: "parse_flags [] (lstrip body) = (fs, r)" "strip r = show_cmd c"
    using parse_flags_lstrip [of "[]" body] sc by auto
  obtain s where s: "body = CHR '' '' # s"
    unfolding body_def by (cases fs) (auto simp: show_flag_def)
  have line: "show_line p = n @ CHR '' '' # s" using s by (simp add: p show_line_def body_def)
  have "instruction_words l (show_line p) = Inr (Some (False, n, lstrip body))"
    unfolding line using instruction_words_print [OF n] s by simp
  moreover have "show_line p \<noteq> []" using line by simp
  moreover have "make_instr False n fs (show_cmd c) [] l (show_line p) = read_line l p"
  proof (cases c)
    case (CText v)
    with c have "v \<noteq> []" "hd v \<noteq> CHR ''[''" by auto
    with sc CText show ?thesis by (simp add: make_instr_def try_exec_text p)
  next
    case (CArgv ws)
    with c try_exec_argv [of ws] show ?thesis by (simp add: make_instr_def p)
  qed
  moreover have "(if n \<in> set HEREDOC_INSTRUCTIONS then extract_heredoc_tags (show_cmd c) else []) = []"
    using h by (simp add: no_heredoc_tags)
  ultimately show ?thesis using r by (simp add: parse_logical_def)
qed

lemma upper_facts: "is_upper_az c \<Longrightarrow> \<not> is_space c \<and> c \<noteq> CHR ''#''"
  by (auto simp: char_class_defs is_space_def code_def)

lemma rstrip_last: "s \<noteq> [] \<Longrightarrow> \<not> is_space (last s) \<Longrightarrow> rstrip s = s"
  by (cases s rule: rev_cases) (simp_all add: rstrip_def rstrip_by_def)

lemma no_escape_end: "s \<noteq> [] \<Longrightarrow> \<not> is_space (last s) \<Longrightarrow> last s \<noteq> e \<Longrightarrow> \<not> ends_with_escape e s"
  by (cases s rule: rev_cases) (simp_all add: ends_with_escape_def trailing_count_def rstrip_last)

lemma line_not_skippable:
  assumes "s \<noteq> []" and "is_upper_az (hd s)"
  shows "\<not> skippable s" and "strip s \<noteq> [] \<and> \<not> starts_with ''#'' (strip s)"
proof -
  have h: "\<not> is_space (hd s)" "hd s \<noteq> CHR ''#''" using upper_facts [OF assms(2)] by auto
  then have l: "lstrip s = s" using assms(1) by (intro lstrip_hd) auto
  obtain t u where s: "s = hd s # t" "t = u" using assms(1) by (cases s) auto
  from h l s show "\<not> skippable s"
    by (cases s) (auto simp: skippable_def starts_with_def)
  have "strip s = rstrip s" using l by (simp add: strip_def strip_by_def rstrip_def lstrip_def)
  moreover obtain w where w: "s = rstrip s @ w" "\<forall>c \<in> set w. is_space c"
    using rstrip_prefix [of s is_space] by (auto simp: rstrip_def)
  moreover have "rstrip s \<noteq> []" using w h assms(1) by (cases s) auto
  moreover have "hd (rstrip s) = hd s" using w(1) \<open>rstrip s \<noteq> []\<close> by (metis hd_append2)
  ultimately show "strip s \<noteq> [] \<and> \<not> starts_with ''#'' (strip s)"
    using h by (cases "rstrip s") (auto simp: starts_with_def)
qed

lemma parse_instructions_print:
  "list_all plain_line ps \<Longrightarrow>
     parse_instructions CHR 0x5C i (map show_line ps)
       = Inr (map2 read_line [Suc i..<Suc (i + length ps)] ps)"
proof (induction ps arbitrary: i)
  case Nil
  then show ?case by (simp add: parse_instructions.simps)
next
  case (Cons p ps)
  let ?l = "show_line p"
  note e = show_line_ends [of p]
  have g: "gather CHR 0x5C ?l (map show_line ps) i = ([?l], ?l # map show_line ps, i)"
    using e Cons.prems by (simp add: gather.simps no_escape_end)
  have "strip ?l = ?l" using e upper_facts Cons.prems by (intro strip_ends) auto
  then have lt: "logical_text [?l] = ?l" by (simp add: logical_text_def)
  have sk: "\<not> skippable ?l" using e Cons.prems by (intro line_not_skippable) auto
  have "parse_instructions CHR 0x5C i (?l # map show_line ps)
      = bindR (parse_instructions CHR 0x5C (Suc i) (map show_line ps)) (\<lambda>is. Inr (read_line (Suc i) p # is))"
    using g lt sk parse_logical_print [of p "Suc i" "?l # map show_line ps" i] Cons.prems
    by (simp add: parse_instructions.simps [of _ i])
  moreover have "[Suc i..<Suc (i + length (p # ps))] = Suc i # [Suc (Suc i)..<Suc (Suc i + length ps)]"
    by (simp add: upt_conv_Cons del: upt_Suc)
  ultimately show ?case using Cons.IH [of "Suc i"] Cons.prems by simp
qed

lemma normalise_plain: "CHR 0x0D \<notin> set s \<Longrightarrow> normalise_newlines s = s"
  by (induction s rule: normalise_newlines.induct) auto

lemma js_plain_newline: "js_plain w \<Longrightarrow> c \<in> set w \<Longrightarrow> c \<noteq> CHR 0x0A \<and> c \<noteq> CHR 0x0D"
proof -
  have "\<not> 32 \<le> code CHR 0x0A" "\<not> 32 \<le> code CHR 0x0D" by (simp_all add: code_def)
  then show "js_plain w \<Longrightarrow> c \<in> set w \<Longrightarrow> c \<noteq> CHR 0x0A \<and> c \<noteq> CHR 0x0D"
    unfolding js_plain_def by metis
qed

lemma set_join_with: "set (join_with sep ws) \<subseteq> set sep \<union> \<Union> (set ` set ws)"
  by (induction sep ws rule: join_with.induct) auto

lemma show_cmd_newline: "plain_cmd c \<Longrightarrow> x \<in> set (show_cmd c) \<Longrightarrow> x \<noteq> CHR 0x0A \<and> x \<noteq> CHR 0x0D"
proof (cases c)
  case (CArgv ws)
  assume "plain_cmd c" "x \<in> set (show_cmd c)"
  with CArgv set_join_with [of "'', ''" "map js_print ws"] show ?thesis
    by (fastforce simp: js_print_def list_all_iff dest: js_plain_newline)
qed (auto simp: list_all_iff)

lemma show_flag_newline:
  assumes "plain_flag f" and "x \<in> set (show_flag f)"
  shows "x \<noteq> CHR 0x0A \<and> x \<noteq> CHR 0x0D"
proof -
  from assms have "\<not> is_space x \<or> x = CHR '' ''"
    by (auto simp: plain_flag_def show_flag_def list_all_iff space_classes)
  with space_classes show ?thesis by auto
qed

lemma show_line_newline:
  assumes "plain_line p" and "x \<in> set (show_line p)"
  shows "x \<noteq> CHR 0x0A \<and> x \<noteq> CHR 0x0D"
proof -
  obtain n fs c where p: "p = (n, fs, c)" by (cases p)
  from assms(2) consider "x \<in> set n" | f where "f \<in> set fs" "x \<in> set (show_flag f)" | "x = CHR '' ''"
    | "x \<in> set (show_cmd c)" by (auto simp: p show_line_def)
  then show ?thesis
    using assms(1) show_cmd_newline [of c x] instruction_name_chars [of n x] show_flag_newline [of _ x]
    by cases (auto simp: p plain_line_def list_all_iff)
qed



subsection \<open>Continuation lines\<close>

lemma rstrip_escape: "\<not> is_space e \<Longrightarrow> rstrip (u @ [e]) = u @ [e]"
  by (simp add: rstrip_last)

lemma escape_end: "u \<noteq> [] \<Longrightarrow> last u \<noteq> e \<Longrightarrow> \<not> is_space e \<Longrightarrow> ends_with_escape e (u @ [e])"
  by (cases u rule: rev_cases) (simp_all add: ends_with_escape_def trailing_count_def rstrip_last)

lemma skippable_hash: "u \<noteq> [] \<Longrightarrow> \<not> is_space (hd u) \<Longrightarrow> hd u \<noteq> CHR ''#'' \<Longrightarrow> \<not> skippable (u @ w)"
  by (cases u) (simp_all add: skippable_def lstrip_hd starts_with_def)

lemma dropWhile_skips: "list_all P xs \<Longrightarrow> \<not> P v \<Longrightarrow> dropWhile P (xs @ [v]) = [v]"
  by (induction xs) auto

lemma strip_joined:
  assumes "u \<noteq> []" "\<not> is_space (hd u)" "v \<noteq> []" "\<not> is_space (last v)"
  shows "strip (u @ w @ v) = u @ w @ v"
  using assms by (intro strip_ends) auto

lemma collect_heredocs_last: "tags \<noteq> [] \<Longrightarrow> collect_heredocs tags j [x] = Inl (UnterminatedHeredoc (snd (hd tags)))"
  by (cases tags) auto

lemma parse_logical_last:
  "parse_logical l acc [x] j = map_sum id (\<lambda>(ins, k, left). (ins, Suc j, [])) (parse_logical l acc [y] i)"
  by (cases "instruction_words l acc")
    (auto simp: parse_logical_def collect_heredocs_last Let_def split: option.split prod.split)

text \<open>A line ended by the escape character, then any number of blank lines and comments, then the
  rest of the instruction, gives the result of the one line with a space in place of the break. Errors
  are included: a here-document opener in it fails both ways.\<close>

theorem continuation_joins_lines:
  assumes "e = CHR 0x5C \<or> e = CHR ''`''"
    and "u \<noteq> []" "\<not> is_space (hd u)" "hd u \<noteq> CHR ''#''" "\<not> is_space (last u)" "last u \<noteq> e"
    and "v \<noteq> []" "\<not> is_space (hd v)" "hd v \<noteq> CHR ''#''" "\<not> is_space (last v)" "last v \<noteq> e"
    and "list_all skippable skips"
  shows "parse_instructions e i ((u @ [e]) # skips @ [v]) = parse_instructions e i [u @ '' '' @ v]"
proof -
  have sp: "\<not> is_space e" using assms(1) space_classes by auto
  have us: "strip u = u" and vs: "strip v = v" using assms by (auto intro!: strip_ends)
  have seg: "strip_trailing_escape e (u @ [e]) = u"
    using assms sp by (simp add: strip_trailing_escape_def rstrip_escape rstrip_last)
  have g1: "\<exists>j. gather e (u @ [e]) (skips @ [v]) i = ([u, v], [v], j)"
    using assms sp seg skippable_hash [of v "[]"]
    by (simp add: gather.simps [of e "u @ [e]"] gather.simps [of e v] escape_end dropWhile_skips no_escape_end)
  have g2: "gather e (u @ '' '' @ v) [] i = ([u @ '' '' @ v], [u @ '' '' @ v], i)"
    using assms by (simp add: gather.simps no_escape_end)
  have lt: "logical_text [u, v] = u @ '' '' @ v" "logical_text [u @ '' '' @ v] = u @ '' '' @ v"
    using us vs strip_joined [of u v "'' ''"] assms by (simp_all add: logical_text_def)
  have "\<not> skippable (u @ [e])" "\<not> skippable (u @ '' '' @ v)"
    using skippable_hash [OF assms(2-4)] by simp_all
  note nsk = this
  obtain j where g: "gather e (u @ [e]) (skips @ [v]) i = ([u, v], [v], j)" using g1 by blast
  let ?l = "u @ '' '' @ v"
  define R where "R = parse_logical (Suc i) ?l [?l] i"
  have R1: "parse_logical (Suc i) ?l [v] j = map_sum id (\<lambda>(ins, k, left). (ins, Suc j, [])) R"
    and R2: "R = map_sum id (\<lambda>(ins, k, left). (ins, Suc i, [])) R"
    unfolding R_def by (rule parse_logical_last)+
  show ?thesis
  proof (cases R)
    case (Inl err)
    with R1 nsk g g2 lt show ?thesis
      by (simp add: parse_instructions.simps [of e i] R_def)
  next
    case (Inr p)
    with R2 obtain ins where p: "p = (ins, Suc i, [])" by (cases p) auto
    with Inr R1 nsk g g2 lt show ?thesis
      by (simp add: parse_instructions.simps [of e i] parse_instructions.simps [of e _ "[]"] R_def)
  qed
qed

theorem continuation_joins_lines_witness:
  "parse_instructions CHR 0x5C 0 ((''RUN a'' @ [CHR 0x5C]) # [''# note'', []] @ [''b''])
     = parse_instructions CHR 0x5C 0 [''RUN a'' @ '' '' @ ''b'']
   \<and> parse_instructions CHR 0x5C 0 [''RUN a b''] = Inr [Instr ''RUN'' [] (VText ''a b'') False [] 1 ''RUN a b'']"
proof -
  have "list_all skippable [''# note'', []]" by code_simp
  moreover have "parse_instructions CHR 0x5C 0 [''RUN a b''] = Inr [Instr ''RUN'' [] (VText ''a b'') False [] 1 ''RUN a b'']"
    by code_simp
  ultimately show ?thesis
    using continuation_joins_lines [of "CHR 0x5C" "''RUN a''" "''b''" "[''# note'', []]" 0]
    by (simp add: is_space_def in_range_def code_def)
qed

subsection \<open>Expansion of templates\<close>

text \<open>
  A reference meaning of the expansion: pieces of text, and what each stands for. Literal text is
  printed with a backslash before each dollar sign and backslash.
\<close>

datatype brace_op = OColonDash | ODash | OColonPlus | OPlus | OColonQuery | OQuery

datatype piece = PLit string | PVar string | PBrace string | POp string brace_op string

fun show_op :: "brace_op \<Rightarrow> string" where
  "show_op OColonDash = '':-''" | "show_op ODash = ''-''" | "show_op OColonPlus = '':+''"
| "show_op OPlus = ''+''" | "show_op OColonQuery = '':?''" | "show_op OQuery = ''?''"

definition escape_text :: "string \<Rightarrow> string" where
  "escape_text s = concat (map (\<lambda>c. if c = CHR ''$'' \<or> c = CHR 0x5C then [CHR 0x5C, c] else [c]) s)"

fun show_piece :: "piece \<Rightarrow> string" where
  "show_piece (PLit s) = escape_text s"
| "show_piece (PVar n) = CHR ''$'' # n"
| "show_piece (PBrace n) = ''${'' @ n @ ''}''"
| "show_piece (POp n oper arg) = ''${'' @ n @ show_op oper @ arg @ ''}''"

definition nonempty_value :: "string option \<Rightarrow> bool" where
  "nonempty_value v \<longleftrightarrow> v \<noteq> None \<and> v \<noteq> Some []"

fun piece_value :: "env \<Rightarrow> piece \<Rightarrow> string" where
  "piece_value env (PLit s) = s"
| "piece_value env (PVar n) = lookup_or_empty n env"
| "piece_value env (PBrace n) = lookup_or_empty n env"
| "piece_value env (POp n oper arg) =
     (let set_to = lookup_or_empty n env in
      case oper of
        OColonDash \<Rightarrow> if nonempty_value (env n) then set_to else arg
      | ODash \<Rightarrow> if env n \<noteq> None then set_to else arg
      | OColonPlus \<Rightarrow> if nonempty_value (env n) then arg else []
      | OPlus \<Rightarrow> if env n \<noteq> None then arg else []
      | _ \<Rightarrow> set_to)"

definition env_name :: "string \<Rightarrow> bool" where
  "env_name n \<longleftrightarrow> n \<noteq> [] \<and> ident_start (hd n) \<and> list_all ident_char n"

fun ok_pieces :: "piece list \<Rightarrow> bool" where
  "ok_pieces [] \<longleftrightarrow> True"
| "ok_pieces (PLit s # ps) \<longleftrightarrow> ok_pieces ps"
| "ok_pieces (PVar n # ps) \<longleftrightarrow> env_name n \<and> ok_pieces ps
     \<and> takeWhile var_char (concat (map show_piece ps)) = []"
| "ok_pieces (PBrace n # ps) \<longleftrightarrow> env_name n \<and> ok_pieces ps"
| "ok_pieces (POp n oper arg # ps) \<longleftrightarrow> env_name n \<and> ok_pieces ps
     \<and> list_all (\<lambda>c. c \<noteq> CHR ''}'' \<and> c \<noteq> CHR 0x0A) arg"

lemma expand_plain: "c \<noteq> CHR ''$'' \<Longrightarrow> c \<noteq> CHR 0x5C \<Longrightarrow>
   expand_vars (c # s) env = bindR (expand_vars s env) (\<lambda>t. Inr (c # t))"
  by (simp add: expand_vars.simps [of "c # s"])

lemma expand_escaped: "expand_vars (CHR 0x5C # c # s) env = bindR (expand_vars s env) (\<lambda>t. Inr (c # t))"
  by (simp add: expand_vars.simps [of "CHR 0x5C # c # s"])

lemma expand_literal:
  "expand_vars (escape_text s @ w) env = bindR (expand_vars w env) (\<lambda>t. Inr (s @ t))"
proof (induction s)
  case Nil
  then show ?case by (cases "expand_vars w env") (simp_all add: escape_text_def)
next
  case (Cons c s)
  then show ?case
    by (cases "expand_vars w env") (auto simp: escape_text_def expand_escaped expand_plain)
qed

lemma expand_name:
  assumes "n \<noteq> []" "list_all var_char n" "hd n \<noteq> CHR ''{''" "takeWhile var_char w = []"
  shows "expand_vars (CHR ''$'' # n @ w) env
    = bindR (expand_vars w env) (\<lambda>t. Inr (lookup_or_empty n env @ t))"
proof -
  have "takeWhile var_char (n @ w) = n"
    using assms(2,4) by (simp add: list_all_iff)
  with assms show ?thesis by (simp add: expand_vars.simps [of "CHR ''$'' # n @ w"])
qed

lemma expand_brace:
  assumes "CHR ''}'' \<notin> set b"
  shows "expand_vars (CHR ''$'' # CHR ''{'' # b @ CHR ''}'' # w) env
    = bindR (expand_vars w env) (\<lambda>t. Inr (expand_braced b env @ t))"
  using partition_at_append [OF assms, of w]
  by (simp add: expand_vars.simps [of "CHR ''$'' # CHR ''{'' # b @ CHR ''}'' # w"])

lemma env_name_facts:
  assumes "env_name n"
  shows "list_all var_char n" "hd n \<noteq> CHR ''{''" "CHR ''}'' \<notin> set n"
proof -
  have "ident_char c \<Longrightarrow> var_char c \<and> c \<noteq> CHR ''{'' \<and> c \<noteq> CHR ''}''" for c
    by (auto simp: ident_char_def var_char_def char_class_defs is_alnum_py_def code_def)
  then have *: "\<And>c. c \<in> set n \<Longrightarrow> var_char c \<and> c \<noteq> CHR ''{'' \<and> c \<noteq> CHR ''}''"
    using assms by (auto simp: env_name_def list_all_iff)
  have "n \<noteq> []" using assms by (simp add: env_name_def)
  with * [of "hd n"] * show "list_all var_char n" "hd n \<noteq> CHR ''{''" "CHR ''}'' \<notin> set n"
    by (auto simp: list_all_iff)
qed
lemma star_cls_head: "\<exists>rest. succs (RStar (RCls P)) (c, s) = (c, dropWhile P s) # rest"
proof (induction s)
  case (Cons x s)
  then show ?case by (cases "P x") (auto simp: succs.simps(2) succs.simps(5) [of _ c "x # s"])
qed (simp add: succs.simps)

lemma succs_cat_head:
  "succs a st = (c1, s1) # r1 \<Longrightarrow> succs b (c1, s1) = st2 # r2 \<Longrightarrow> \<exists>r. succs (RCat a b) st = st2 # r"
  by (cases st) (simp add: succs.simps(3))

lemma succs_cat_none:
  "(\<And>c1 s1. (c1, s1) \<in> set (succs a st) \<Longrightarrow> succs b (c1, s1) = []) \<Longrightarrow> succs (RCat a b) st = []"
  by (cases st) (auto simp: succs.simps(3))

lemma succs_grp_head:
  "succs a (c, s) = (c1, s1) # r1 \<Longrightarrow> \<exists>r. succs (RGrp i a) (c, s) = (c1(i \<mapsto> eaten s s1), s1) # r"
  by (simp add: succs.simps(7))

lemma re_match_head: "succs r (Map.empty, s) = st # rest \<Longrightarrow> re_match r s = Some st"
  by (simp add: re_match_def)

lemma name_head:
  assumes "env_name n" and "s = [] \<or> \<not> ident_char (hd s)"
  shows "\<exists>r. succs (RCat (RCls ident_start) (RStar (RCls ident_char))) (c, n @ s) = (c, s) # r"
proof -
  obtain x m where n: "n = x # m" "ident_start x" "list_all ident_char m"
    using assms(1) by (cases n) (auto simp: env_name_def)
  from n(3) assms(2) have "dropWhile ident_char (m @ s) = s"
    by (cases s) (auto simp: list_all_iff)
  with star_cls_head [of ident_char c "m @ s"] n(2) show ?thesis
    by (auto simp: n(1) succs.simps)
qed

lemma op_head:
  "\<exists>r. succs (RCat (ROpt (RChr CHR '':'')) (RCls (\<lambda>c. c \<in> {CHR ''-'', CHR ''+'', CHR ''?''}))) (c, show_op oper @ s)
     = (c, s) # r"
  by (cases oper) (simp_all add: succs.simps ROpt_def RChr_def)

lemma op_not_ident: "show_op oper \<noteq> [] \<and> \<not> ident_char (hd (show_op oper))"
  by (cases oper) (auto simp: ident_char_def char_class_defs code_def)

lemma eaten_self: "eaten (u @ s) s = u" for u by simp

lemma brace_op_match:
  assumes "env_name n" and "list_all (\<lambda>c. c \<noteq> CHR 0x0A) arg"
  shows "re_match BRACED_OP_RE (n @ show_op oper @ arg)
    = Some ([1 \<mapsto> n, 2 \<mapsto> show_op oper, 3 \<mapsto> arg], [])"
proof -
  let ?o = "show_op oper"
  obtain r1 where r1: "succs (RGrp 1 (RCat (RCls ident_start) (RStar (RCls ident_char)))) (Map.empty, n @ ?o @ arg)
      = ([1 \<mapsto> n], ?o @ arg) # r1"
  proof -
    have "\<not> ident_char (hd (?o @ arg))" using op_not_ident [of oper] by simp
    then obtain q where "succs (RCat (RCls ident_start) (RStar (RCls ident_char))) (Map.empty, n @ ?o @ arg)
        = (Map.empty, ?o @ arg) # q"
      using name_head [OF assms(1), of "?o @ arg" Map.empty] by blast
    from succs_grp_head [OF this, of 1] that show thesis by (elim exE) (simp only: eaten_self)
  qed
  obtain r2 where r2: "succs (RGrp 2 (RCat (ROpt (RChr CHR '':'')) (RCls (\<lambda>c. c \<in> {CHR ''-'', CHR ''+'', CHR ''?''}))))
      ([1 \<mapsto> n], ?o @ arg) = ([1 \<mapsto> n, 2 \<mapsto> ?o], arg) # r2"
  proof -
    obtain q where "succs (RCat (ROpt (RChr CHR '':'')) (RCls (\<lambda>c. c \<in> {CHR ''-'', CHR ''+'', CHR ''?''})))
        ([1 \<mapsto> n], ?o @ arg) = ([1 \<mapsto> n], arg) # q"
      using op_head [of "[1 \<mapsto> n]" oper arg] by blast
    from succs_grp_head [OF this, of 2] that show thesis by (elim exE) (simp only: eaten_self)
  qed
  have d: "dropWhile (\<lambda>c. c \<noteq> CHR 0x0A) arg = []" using assms(2) by (simp add: list_all_iff)
  obtain r3 where r3: "succs (RGrp 3 (RStar RAny)) ([1 \<mapsto> n, 2 \<mapsto> ?o], arg)
      = ([1 \<mapsto> n, 2 \<mapsto> ?o, 3 \<mapsto> arg], []) # r3"
  proof -
    obtain q where "succs (RStar RAny) ([1 \<mapsto> n, 2 \<mapsto> ?o], arg) = ([1 \<mapsto> n, 2 \<mapsto> ?o], []) # q"
      using star_cls_head [of "\<lambda>c. c \<noteq> CHR 0x0A" "[1 \<mapsto> n, 2 \<mapsto> ?o]" arg] d
      unfolding RAny_def by auto
    from succs_grp_head [OF this, of 3] that show thesis by (elim exE) (simp only: eaten_Nil)
  qed
  let ?st = "([1 \<mapsto> n, 2 \<mapsto> ?o, 3 \<mapsto> arg], [])"
  have e: "succs REol ?st = ?st # []" by (simp add: succs.simps)
  from succs_cat_head [OF r3 e] obtain r4 where r4: "succs (RCat (RGrp 3 (RStar RAny)) REol) ([1 \<mapsto> n, 2 \<mapsto> ?o], arg) = ?st # r4" ..
  from succs_cat_head [OF r2 r4] obtain r5 where r5: "succs (RCat (RGrp 2 (RCat (ROpt (RChr CHR '':''))
      (RCls (\<lambda>c. c \<in> {CHR ''-'', CHR ''+'', CHR ''?''})))) (RCat (RGrp 3 (RStar RAny)) REol)) ([1 \<mapsto> n], ?o @ arg)
      = ?st # r5" ..
  from succs_cat_head [OF r1 r5] show ?thesis
    unfolding BRACED_OP_RE_def by (elim exE) (rule re_match_head)
qed

lemma op_chars: "ident_char x \<Longrightarrow> x \<noteq> CHR '':'' \<and> x \<noteq> CHR ''-'' \<and> x \<noteq> CHR ''+'' \<and> x \<noteq> CHR ''?''"
  by (auto simp: ident_char_def char_class_defs code_def)

lemma brace_no_op:
  assumes "env_name n"
  shows "re_match BRACED_OP_RE n = None"
proof -
  have no: "succs (RCat (RGrp 2 (RCat (ROpt (RChr CHR '':'')) (RCls (\<lambda>c. c \<in> {CHR ''-'', CHR ''+'', CHR ''?''}))))
       (RCat (RGrp 3 (RStar RAny)) REol)) (c, s) = []" if "list_all ident_char s" for c s
  proof (cases s)
    case (Cons x t)
    with that op_chars [of x] show ?thesis by (auto simp: succs.simps ROpt_def RChr_def)
  qed (simp add: succs.simps ROpt_def RChr_def)
  have id: "list_all ident_char s1" if "(c1, s1) \<in> set (succs r (Map.empty, n))" for r c1 s1
    using succs_suffix [OF that] assms by (auto simp: env_name_def list_all_iff dest: set_mono_suffix)
  have "succs BRACED_OP_RE (Map.empty, n) = []"
    unfolding BRACED_OP_RE_def by (rule succs_cat_none, rule no, erule id)
  then show ?thesis by (simp add: re_match_def)
qed

lemma expand_braced_name: "env_name n \<Longrightarrow> expand_braced n env = lookup_or_empty n env"
  by (simp add: expand_braced_def brace_no_op)

lemma expand_braced_op:
  assumes "env_name n" and "list_all (\<lambda>c. c \<noteq> CHR 0x0A) arg"
  shows "expand_braced (n @ show_op oper @ arg) env = piece_value env (POp n oper arg)"
  unfolding expand_braced_def brace_op_match [OF assms]
  by (cases oper; cases "env n") (simp_all add: cap_text_def lookup_or_empty_def nonempty_value_def)

text \<open>Expanding a printed template gives the concatenated values of its pieces: quoted text stands
  for itself, \<open>$NAME\<close> and \<open>${NAME}\<close> for the variable, and the operator forms for the word or the
  variable as the operator says, with no error.\<close>

theorem expand_vars_template:
  "ok_pieces ps \<Longrightarrow> expand_vars (concat (map show_piece ps)) env = Inr (concat (map (piece_value env) ps))"
proof (induction ps rule: ok_pieces.induct)
  case 1
  then show ?case by (simp add: expand_vars.simps)
next
  case (2 s ps)
  then show ?case by (simp add: expand_literal)
next
  case (3 n ps)
  then have n: "env_name n" and "n \<noteq> []" by (simp_all add: env_name_def)
  with 3 show ?case
    using expand_name [of n "concat (map show_piece ps)" env] env_name_facts [OF n] by simp
next
  case (4 n ps)
  then have n: "env_name n" by simp
  with 4 show ?case
    using expand_brace [of n "concat (map show_piece ps)" env] env_name_facts [OF n]
    by (simp add: expand_braced_name)
next
  case (5 n oper arg ps)
  then have n: "env_name n" and a: "CHR ''}'' \<notin> set arg" "list_all (\<lambda>c. c \<noteq> CHR 0x0A) arg"
    by (auto simp: list_all_iff)
  have "CHR ''}'' \<notin> set (show_op oper)" by (cases oper) simp_all
  with a(1) env_name_facts [OF n] have "CHR ''}'' \<notin> set (n @ show_op oper @ arg)" by simp
  from expand_brace [OF this, of "concat (map show_piece ps)" env] 5 show ?case
    by (simp add: expand_braced_op [OF n a(2)])
qed

theorem expand_vars_template_witness:
  "expand_vars (concat (map show_piece [PLit ''a$'', POp ''X'' OColonDash ''d'', PVar ''Y'', PLit ''/'']))
     [''Y'' \<mapsto> ''v''] = Inr ''a$dv/''"
proof -
  let ?ps = "[PLit ''a$'', POp ''X'' OColonDash ''d'', PVar ''Y'', PLit ''/'']"
  have "ok_pieces ?ps" by code_simp
  from expand_vars_template [OF this, of "[''Y'' \<mapsto> ''v'']"] show ?thesis
    by (simp add: lookup_or_empty_def nonempty_value_def)
qed

subsection \<open>Several here-documents on one instruction\<close>

definition heredoc_text :: "string list \<Rightarrow> string" where
  "heredoc_text ls = concat (map (\<lambda>l. l @ [CHR 0x0A]) ls)"

lemma heredoc_text_join: "join_with [CHR 0x0A] ls @ (if ls \<noteq> [] then [CHR 0x0A] else []) = heredoc_text ls"
  by (induction "[CHR 0x0A]" ls rule: join_with.induct) (simp_all add: heredoc_text_def)

lemma collect_body:
  "list_all (\<lambda>l. \<not> closes_heredoc b tg l) ls \<Longrightarrow> closes_heredoc b tg close_line \<Longrightarrow>
     collect_heredoc_body tg b acc i (ls @ close_line # rest)
       = Inr (heredoc_text (acc @ map (strip_tabs b) ls), i + Suc (length ls), rest)"
proof (induction ls arbitrary: acc i)
  case Nil
  then show ?case using heredoc_text_join [of acc] by simp
qed simp

text \<open>With two here-documents on one instruction the first body is read whole, but the line right
  after the first closing tag is in no body: the second one starts a line too late, because the index
  the loop goes on with is already past that tag.\<close>

theorem second_heredoc_loses_line:
  assumes "list_all (\<lambda>l. \<not> closes_heredoc b1 t1 l) body1" and "closes_heredoc b1 t1 close1"
    and "list_all (\<lambda>l. \<not> closes_heredoc b2 t2 l) body2" and "closes_heredoc b2 t2 close2"
  shows "collect_heredocs [(b1, t1), (b2, t2)] i (opener # body1 @ close1 # lost # body2 @ close2 # rest)
    = Inr ([\<lparr>hd_tag = t1, hd_strip = b1, hd_body = heredoc_text (map (strip_tabs b1) body1)\<rparr>,
            \<lparr>hd_tag = t2, hd_strip = b2, hd_body = heredoc_text (map (strip_tabs b2) body2)\<rparr>],
           i + 4 + length body1 + length body2, rest)"
  using collect_body [OF assms(1,2), of "[]" "i + 1" "lost # body2 @ close2 # rest"]
    collect_body [OF assms(3,4), of "[]" "i + 3 + length body1" rest]
  by (simp add: ac_simps eval_nat_numeral)

theorem second_heredoc_loses_line_witness:
  "\<exists>p. collect_heredocs [(False, ''A''), (False, ''B'')] 0
      (''COPY <<A <<B /d'' # [''x''] @ ''A'' # ''y'' # [''z''] @ ''B'' # [])
    = Inr ([\<lparr>hd_tag = ''A'', hd_strip = False, hd_body = heredoc_text [''x'']\<rparr>,
            \<lparr>hd_tag = ''B'', hd_strip = False, hd_body = heredoc_text [''z'']\<rparr>], p)"
proof -
  have "list_all (\<lambda>l. \<not> closes_heredoc False ''A'' l) [''x'']" "closes_heredoc False ''A'' ''A''"
    "list_all (\<lambda>l. \<not> closes_heredoc False ''B'' l) [''z'']" "closes_heredoc False ''B'' ''B''"
    by code_simp+
  from second_heredoc_loses_line [OF this, of 0 "''COPY <<A <<B /d''" "''y''" "[]"]
  show ?thesis by (simp add: strip_tabs_def del: collect_heredocs.simps)
qed

end
