(* ===== verification/Image_Refs.thy ===== *)
theory Image_Refs
  imports Py_Regex
begin

text \<open>
  \<open>helpers/docker/refs.py\<close>: Docker's image-reference grammar, the normal form of a reference, and
  the total look-up functions over strings nothing validated. The patterns are the module's, one
  definition per Python constant; a refused reference is \<open>Inl\<close> of the reason, in the order the
  code tests them. The lemmas show that an accepted reference has the shape the grammar promises
  in every part, how the spellings of one image collapse, and where they do not.
\<close>

subsection \<open>The grammar\<close>

definition ALNUM :: rx where
  "ALNUM = RPlus (RCls (\<lambda>c. is_lower_az c \<or> is_dec c))"

definition SEPARATOR :: rx where
  "SEPARATOR =
     RAlt (RCls (\<lambda>c. c = CHR ''.'' \<or> c = CHR ''_''))
       (RAlt (RStr ''__'') (RPlus (RChr CHR ''-'')))"

definition PATH_COMPONENT :: rx where
  "PATH_COMPONENT = RCat ALNUM (RStar (RCat SEPARATOR ALNUM))"

definition REMOTE_NAME :: rx where
  "REMOTE_NAME = RCat PATH_COMPONENT (RStar (RCat (RChr CHR ''/'') PATH_COMPONENT))"

definition DOMAIN_COMPONENT :: rx where
  "DOMAIN_COMPONENT =
     RAlt (RCls is_alnum_az)
       (RCat (RCls is_alnum_az)
         (RCat (RStar (RCls (\<lambda>c. is_alnum_az c \<or> c = CHR ''-''))) (RCls is_alnum_az)))"

definition DOMAIN_NAME :: rx where
  "DOMAIN_NAME = RCat DOMAIN_COMPONENT (RStar (RCat (RChr CHR ''.'') DOMAIN_COMPONENT))"

definition IPV6_HOST :: rx where
  "IPV6_HOST =
     RCat (RChr CHR ''['') (RCat (RPlus (RCls (\<lambda>c. is_hex c \<or> c = CHR '':''))) (RChr CHR '']''))"

definition TAG :: rx where
  "TAG = RCat (RCls (\<lambda>c. is_alnum_az c \<or> c = CHR ''_''))
     (RUpto 127 (RCls (\<lambda>c. is_alnum_az c \<or> c = CHR ''_'' \<or> c = CHR ''.'' \<or> c = CHR ''-'')))"

definition ALGORITHM :: rx where
  "ALGORITHM =
     RCat (RCls is_alpha_az) (RCat (RStar (RCls is_alnum_az))
       (RStar (RCat (RCls (\<lambda>c. c \<in> {CHR ''-'', CHR ''_'', CHR ''+'', CHR ''.''}))
         (RCat (RCls is_alpha_az) (RStar (RCls is_alnum_az))))))"

definition DIGEST :: rx where
  "DIGEST = RCat ALGORITHM (RCat (RChr CHR '':'')
     (RCat (RTimes 32 (RCls is_hex)) (RStar (RCls is_hex))))"

definition DOMAIN_RE :: rx where
  "DOMAIN_RE = RCat (RAlt DOMAIN_NAME IPV6_HOST)
     (ROpt (RCat (RChr CHR '':'') (RGrp 1 (RPlus (RCls is_dec)))))"

definition REMAINDER_RE :: rx where
  "REMAINDER_RE = RCat (RGrp 1 REMOTE_NAME)
     (RCat (ROpt (RCat (RChr CHR '':'') (RGrp 2 TAG)))
           (ROpt (RCat (RChr CHR ''@'') (RGrp 3 DIGEST))))"

definition IDENTIFIER_RE :: rx where
  "IDENTIFIER_RE = RTimes 64 (RCls is_hex_lower)"

definition SHA256_RE :: rx where
  "SHA256_RE = RCat (RStr ''sha256:'') (RTimes 64 (RCls is_hex_lower))"

definition DEFAULT_DOMAIN :: string where
  "DEFAULT_DOMAIN = ''docker.io''"

definition HUB_ALIASES :: "string list" where
  "HUB_ALIASES = [''docker.io'', ''index.docker.io'']"

definition OFFICIAL_PREFIX :: string where
  "OFFICIAL_PREFIX = ''library/''"

definition NAME_MAX :: nat where
  "NAME_MAX = 255"

definition REFERENCE_MAX :: nat where
  "REFERENCE_MAX = 1024"

definition PORT_MAX :: nat where
  "PORT_MAX = 65535"

text \<open>The reasons \<open>InvalidReference\<close> is raised with, one per message.\<close>

datatype invalid_reference =
    RefEmpty | RefTooLong | RefIsImageId | RefNotLowercase | RefBadHost | RefPortRange
  | RefBadFormat | RefNameTooLong | RefAlgorithm string | RefBadSha256 | RefDigestNamed

record reference =
  registry :: string
  repo :: string
  tag :: string
  digest :: string

definition ref_name :: "reference \<Rightarrow> string" where
  "ref_name r = (if registry r \<noteq> [] then registry r @ ''/'' @ repo r else repo r)"

definition canonical :: "reference \<Rightarrow> string" where
  "canonical r = (if digest r \<noteq> [] then ref_name r @ ''@'' @ digest r
                  else ref_name r @ '':'' @ tag r)"

definition manifest_ref :: "reference \<Rightarrow> string" where
  "manifest_ref r = (if digest r \<noteq> [] then digest r else tag r)"

definition split_domain :: "string \<Rightarrow> string \<times> string" where
  "split_domain ref =
     (let (first, slash, rest) = partition_at CHR ''/'' ref;
          hub = (\<not> slash \<or> (\<not> (CHR ''.'' \<in> set first \<or> CHR '':'' \<in> set first)
                    \<and> first \<noteq> ''localhost'' \<and> str_lower first = first));
          dom0 = (if hub then [] else first);
          rem0 = (if hub then ref else rest);
          dom1 = (if dom0 \<in> set HUB_ALIASES then [] else dom0);
          rem1 = (if dom1 = [] \<and> CHR ''/'' \<notin> set rem0 then OFFICIAL_PREFIX @ rem0 else rem0)
      in (dom1, rem1))"

definition check_host :: "string \<Rightarrow> invalid_reference + unit" where
  "check_host hostn =
     (if hostn = [] then Inr ()
      else case re_fullmatch DOMAIN_RE hostn of
          None \<Rightarrow> Inl RefBadHost
        | Some g \<Rightarrow>
            (case g 1 of
               Some port \<Rightarrow> if PORT_MAX < dec_nat port then Inl RefPortRange else Inr ()
             | None \<Rightarrow> Inr ()))"

definition group_text :: "caps \<Rightarrow> nat \<Rightarrow> string" where
  "group_text g i = (case g i of None \<Rightarrow> [] | Some t \<Rightarrow> t)"

definition check_digest :: "string option \<Rightarrow> invalid_reference + unit" where
  "check_digest d =
     (case d of None \<Rightarrow> Inr ()
      | Some dg \<Rightarrow>
          if re_fullmatch SHA256_RE dg \<noteq> None then Inr ()
          else if fst (partition_at CHR '':'' dg) \<noteq> ''sha256''
            then Inl (RefAlgorithm (fst (partition_at CHR '':'' dg)))
          else Inl RefBadSha256)"

definition parse_remainder :: "string \<Rightarrow> string \<Rightarrow> invalid_reference + reference" where
  "parse_remainder hostn rem =
     (case re_fullmatch REMAINDER_RE rem of
        None \<Rightarrow> Inl RefBadFormat
      | Some g \<Rightarrow>
          if NAME_MAX < length ((if hostn \<noteq> [] then hostn else DEFAULT_DOMAIN) @ ''/'' @ group_text g 1)
          then Inl RefNameTooLong
          else bindR (check_digest (g 3)) (\<lambda>_.
            Inr \<lparr> registry = hostn, repo = group_text g 1,
                  tag = (if group_text g 2 \<noteq> [] then group_text g 2
                         else if g 3 \<noteq> None \<and> g 3 \<noteq> Some [] then [] else ''latest''),
                  digest = group_text g 3 \<rparr>))"

definition parse_reference :: "string \<Rightarrow> invalid_reference + reference" where
  "parse_reference ref =
     (if ref = [] then Inl RefEmpty
      else if REFERENCE_MAX < length ref then Inl RefTooLong
      else if re_fullmatch IDENTIFIER_RE ref \<noteq> None then Inl RefIsImageId
      else let (hostn, rem) = split_domain ref; name = fst (partition_at CHR '':'' rem) in
        if str_lower name \<noteq> name then Inl RefNotLowercase
        else bindR (check_host hostn) (\<lambda>_. parse_remainder hostn rem))"

definition parse_tag_reference :: "string \<Rightarrow> invalid_reference + reference" where
  "parse_tag_reference ref =
     bindR (parse_reference ref)
       (\<lambda>p. if digest p \<noteq> [] then Inl RefDigestNamed else Inr p)"

definition is_repository_path :: "string \<Rightarrow> bool" where
  "is_repository_path name \<longleftrightarrow> length name \<le> NAME_MAX \<and> re_fullmatch REMOTE_NAME name \<noteq> None"

subsection \<open>The total look-ups\<close>

definition split_loosely :: "string \<Rightarrow> string \<times> string \<times> string" where
  "split_loosely ref =
     (let (h, slash, t) = partition_at CHR ''/'' ref;
          host = (slash \<and> (CHR ''.'' \<in> set h \<or> CHR '':'' \<in> set h));
          reg0 = (if host then h else []);
          rem = (if host then t else ref);
          reg = (if reg0 \<in> set HUB_ALIASES then [] else reg0);
          (name, tg) = (if CHR '':'' \<in> set rem then rpartition_at CHR '':'' rem
                        else (rem, ''latest''));
          rp = (if reg = [] \<and> CHR ''/'' \<notin> set name then OFFICIAL_PREFIX @ name else name)
      in (reg, rp, tg))"

definition parse_image_ref :: "string \<Rightarrow> string \<times> string \<times> string" where
  "parse_image_ref ref =
     (case parse_reference ref of
        Inl _ \<Rightarrow> split_loosely ref
      | Inr p \<Rightarrow> (registry p, repo p, tag p))"

definition canonical_ref :: "string \<Rightarrow> string" where
  "canonical_ref ref =
     (case parse_reference ref of
        Inr p \<Rightarrow> canonical p
      | Inl _ \<Rightarrow> (let (rg, rp, tg) = split_loosely ref in
                   if rg \<noteq> [] then rg @ ''/'' @ rp @ '':'' @ tg else rp @ '':'' @ tg))"

definition with_explicit_tag :: "string \<Rightarrow> string" where
  "with_explicit_tag ref =
     (if CHR '':'' \<in> set (last (split_on CHR ''/'' ref)) then ref else ref @ '':latest'')"

definition derive_alias :: "string \<Rightarrow> string" where
  "derive_alias ref = (case parse_image_ref ref of (_, rp, _) \<Rightarrow> last (split_on CHR ''/'' rp))"

lemmas ref_grammar_defs =
  ALNUM_def SEPARATOR_def PATH_COMPONENT_def REMOTE_NAME_def DOMAIN_COMPONENT_def DOMAIN_NAME_def
  IPV6_HOST_def TAG_def ALGORITHM_def DIGEST_def DOMAIN_RE_def REMAINDER_RE_def
  IDENTIFIER_RE_def SHA256_RE_def

subsection \<open>What the patterns accept\<close>

lemma path_component_may:
  "in_lang PATH_COMPONENT u \<Longrightarrow> x \<in> set u \<Longrightarrow>
     is_lower_az x \<or> is_dec x \<or> x \<in> {CHR ''.'', CHR ''_'', CHR ''-''}"
  by (drule (1) in_lang_may) (auto simp: ref_grammar_defs)

lemma remote_name_may:
  "in_lang REMOTE_NAME u \<Longrightarrow> x \<in> set u \<Longrightarrow>
     is_lower_az x \<or> is_dec x \<or> x \<in> {CHR ''.'', CHR ''_'', CHR ''-'', CHR ''/''}"
  by (drule (1) in_lang_may) (auto simp: ref_grammar_defs)

lemma tag_may:
  "in_lang TAG u \<Longrightarrow> x \<in> set u \<Longrightarrow> is_alnum_az x \<or> x \<in> {CHR ''.'', CHR ''_'', CHR ''-''}"
  by (drule (1) in_lang_may) (auto simp: ref_grammar_defs dest: rx_may_RUpto)

lemma digest_may:
  "in_lang DIGEST u \<Longrightarrow> x \<in> set u \<Longrightarrow>
     is_alnum_az x \<or> is_hex x \<or> x \<in> {CHR ''.'', CHR ''_'', CHR ''-'', CHR ''+'', CHR '':''}"
  by (drule (1) in_lang_may) (auto simp: ref_grammar_defs is_alnum_az_def dest!: rx_may_RTimes)

lemma domain_may:
  "in_lang DOMAIN_RE u \<Longrightarrow> x \<in> set u \<Longrightarrow>
     is_alnum_az x \<or> is_hex x \<or> x \<in> {CHR ''.'', CHR ''-'', CHR ''['', CHR '']'', CHR '':''}"
  by (drule (1) in_lang_may) (auto simp: ref_grammar_defs is_alnum_az_def)

lemma path_component_ends:
  assumes "in_lang PATH_COMPONENT u"
  shows "u \<noteq> [] \<and> (is_lower_az (hd u) \<or> is_dec (hd u))"
proof -
  from assms obtain p q where "u = p @ q" "in_lang ALNUM p"
    by (auto simp: PATH_COMPONENT_def in_lang_simps(3))
  then show ?thesis by (auto simp: ALNUM_def in_lang_plus_cls hd_append)
qed

lemma remote_name_components:
  "in_lang REMOTE_NAME u \<longleftrightarrow> (\<forall>p \<in> set (split_on CHR ''/'' u). in_lang PATH_COMPONENT p)"
  unfolding REMOTE_NAME_def
  by (rule in_lang_sepby)
     (use path_component_may in \<open>fastforce simp: char_class_defs code_def\<close>)

lemma remote_name_nonempty: "in_lang REMOTE_NAME u \<Longrightarrow> u \<noteq> []"
  using path_component_ends by (fastforce simp: remote_name_components)

lemma plain_ref_patterns [simp]:
  "plain_rx REMOTE_NAME" "plain_rx TAG" "plain_rx DIGEST" "plain_rx DOMAIN_RE"
  "plain_rx REMAINDER_RE" "plain_rx IDENTIFIER_RE" "plain_rx SHA256_RE"
  by (simp_all add: ref_grammar_defs)

lemma groups_ref_patterns [simp]:
  "groups REMOTE_NAME = {}" "groups TAG = {}" "groups DIGEST = {}"
  by (simp_all add: ref_grammar_defs groups_RTimes groups_RUpto)

definition opt_part :: "char \<Rightarrow> string option \<Rightarrow> string" where
  "opt_part c t = (case t of None \<Rightarrow> [] | Some u \<Rightarrow> c # u)"

definition opt_ok :: "rx \<Rightarrow> string option \<Rightarrow> bool" where
  "opt_ok r t = (case t of None \<Rightarrow> True | Some u \<Rightarrow> in_lang r u)"

lemma remainder_groups:
  assumes "re_fullmatch REMAINDER_RE s = Some g"
  shows "\<exists>r. g 1 = Some r \<and> in_lang REMOTE_NAME r \<and> opt_ok TAG (g 2) \<and> opt_ok DIGEST (g 3)
     \<and> s = r @ opt_part CHR '':'' (g 2) @ opt_part CHR ''@'' (g 3)"
proof -
  from fullmatch_SomeD [OF assms]
  obtain r s1 c2 s2 where
    r: "in_lang REMOTE_NAME r" "s = r @ s1" and
    t: "(c2, s2) \<in> set (succs (ROpt (RCat (RChr CHR '':'') (RGrp 2 TAG))) ([1 \<mapsto> r], s1))" and
    d: "(g, []) \<in> set (succs (ROpt (RCat (RChr CHR ''@'') (RGrp 3 DIGEST))) (c2, s2))"
    unfolding REMAINDER_RE_def by (auto simp: succs_cat_iff succs_grp_iff succs_groupfree)
  from t have t': "c2 1 = Some r \<and> c2 3 = None \<and> opt_ok TAG (c2 2) \<and> s1 = opt_part CHR '':'' (c2 2) @ s2"
    by (auto simp: succs_opt_iff succs_cat_chr_iff succs_grp_iff succs_groupfree opt_part_def opt_ok_def)
  from d have "g 1 = c2 1 \<and> g 2 = c2 2 \<and> (opt_ok DIGEST (g 3) \<or> c2 3 \<noteq> None)
      \<and> (c2 3 = None \<longrightarrow> s2 = opt_part CHR ''@'' (g 3))"
    by (auto simp: succs_opt_iff succs_cat_chr_iff succs_grp_iff succs_groupfree opt_part_def opt_ok_def)
  with r t' show ?thesis by auto
qed

lemma remainder_parts_unique:
  assumes eq: "r @ opt_part CHR '':'' t @ opt_part CHR ''@'' d
             = r' @ opt_part CHR '':'' t' @ opt_part CHR ''@'' d'"
    and "\<forall>x \<in> set r. x \<noteq> CHR '':'' \<and> x \<noteq> CHR ''@''" and "\<forall>x \<in> set r'. x \<noteq> CHR '':'' \<and> x \<noteq> CHR ''@''"
    and t: "\<And>u. t = Some u \<Longrightarrow> CHR ''@'' \<notin> set u" "\<And>u. t' = Some u \<Longrightarrow> CHR ''@'' \<notin> set u"
  shows "r = r' \<and> t = t' \<and> d = d'"
proof -
  let ?P = "\<lambda>x. x \<noteq> CHR '':'' \<and> x \<noteq> CHR ''@''"
  have tw: "takeWhile ?P (q @ opt_part CHR '':'' u @ opt_part CHR ''@'' v) = q"
    if "\<forall>x \<in> set q. ?P x" for q u v
    using that by (auto simp: opt_part_def takeWhile_append takeWhile_eq_all_conv split: option.splits)
  have r: "r = r'" using tw [of r t d] tw [of r' t' d'] assms by simp
  with eq have rest: "opt_part CHR '':'' t @ opt_part CHR ''@'' d
      = opt_part CHR '':'' t' @ opt_part CHR ''@'' d'" by simp
  have tw2: "takeWhile (\<lambda>x. x \<noteq> CHR ''@'') (u @ opt_part CHR ''@'' v) = u"
    if "CHR ''@'' \<notin> set u" for u v
    using that by (auto simp: opt_part_def takeWhile_append takeWhile_eq_all_conv split: option.splits)
  have "t = t' \<and> d = d'"
  proof (cases t; cases t')
    fix u u' assume tt: "t = Some u" "t' = Some u'"
    with rest have e: "u @ opt_part CHR ''@'' d = u' @ opt_part CHR ''@'' d'"
      by (simp add: opt_part_def)
    then have "u = u'" using tw2 [of u d] tw2 [of u' d'] t tt by metis
    with e tt show ?thesis by (auto simp: opt_part_def split: option.splits)
  qed (use rest in \<open>auto simp: opt_part_def split: option.splits\<close>)
  with r show ?thesis by simp
qed

text \<open>An accepted reference: what the grammar promises of each part.\<close>

definition host_like :: "string \<Rightarrow> bool" where
  "host_like h \<longleftrightarrow> CHR ''.'' \<in> set h \<or> CHR '':'' \<in> set h \<or> h = ''localhost'' \<or> str_lower h \<noteq> h"

definition wf_reference :: "reference \<Rightarrow> bool" where
  "wf_reference r \<longleftrightarrow>
     (registry r = [] \<or> in_lang DOMAIN_RE (registry r) \<and> check_host (registry r) = Inr ()
        \<and> host_like (registry r)
        \<and> registry r \<notin> set HUB_ALIASES)
   \<and> in_lang REMOTE_NAME (repo r) \<and> (registry r = [] \<longrightarrow> CHR ''/'' \<in> set (repo r))
   \<and> (tag r = [] \<or> in_lang TAG (tag r)) \<and> (digest r = [] \<or> in_lang SHA256_RE (digest r))
   \<and> (tag r = [] \<longrightarrow> digest r \<noteq> [])
   \<and> length ((if registry r = [] then DEFAULT_DOMAIN else registry r) @ ''/'' @ repo r) \<le> NAME_MAX"

lemma split_domain_host:
  assumes "split_domain s = (d, rem)"
  shows "d = [] \<or> host_like d \<and> d \<notin> set HUB_ALIASES \<and> s = d @ CHR ''/'' # rem \<and> CHR ''/'' \<notin> set d"
    and "d = [] \<Longrightarrow> CHR ''/'' \<in> set rem"
proof -
  obtain h sl t where p: "partition_at CHR ''/'' s = (h, sl, t)" by (cases "partition_at CHR ''/'' s")
  have j: "sl \<Longrightarrow> s = h @ CHR ''/'' # t" using p partition_at_join [of "CHR ''/''" s h t] by auto
  have h: "CHR ''/'' \<notin> set h" using p by (auto simp: partition_at_def dest: set_takeWhileD)
  show "d = [] \<or> host_like d \<and> d \<notin> set HUB_ALIASES \<and> s = d @ CHR ''/'' # rem \<and> CHR ''/'' \<notin> set d"
    using assms p j h
    by (auto simp: split_domain_def Let_def host_like_def OFFICIAL_PREFIX_def split: if_splits)
  show "d = [] \<Longrightarrow> CHR ''/'' \<in> set rem"
    using assms p by (auto simp: split_domain_def Let_def OFFICIAL_PREFIX_def split: if_splits)
qed

lemma check_host_ok: "check_host h = Inr () \<Longrightarrow> h = [] \<or> in_lang DOMAIN_RE h"
  using fullmatch_iff_lang [of DOMAIN_RE h]
  by (auto simp: check_host_def split: if_splits option.splits)

lemma check_digest_ok: "check_digest d = Inr () \<Longrightarrow> opt_ok SHA256_RE d"
  using fullmatch_iff_lang [of SHA256_RE]
  by (auto simp: check_digest_def opt_ok_def split: if_splits option.splits)

lemma tag_nonempty: "in_lang TAG u \<Longrightarrow> u \<noteq> []"
  by (auto simp: TAG_def in_lang_cat_cls)

lemma sha256_nonempty: "in_lang SHA256_RE u \<Longrightarrow> u \<noteq> []"
  unfolding SHA256_RE_def in_lang_simps(3) in_lang_RStr by auto

lemma sha256_may: "in_lang SHA256_RE u \<Longrightarrow> x \<in> set u \<Longrightarrow> is_hex_lower x \<or> x \<in> set ''sha256:''"
  by (drule (1) in_lang_may) (auto simp: SHA256_RE_def dest!: rx_may_RTimes)

lemma tag_free:
  assumes "in_lang TAG u"
  shows "CHR ''/'' \<notin> set u" and "CHR '':'' \<notin> set u" and "CHR ''@'' \<notin> set u"
  using tag_may [OF assms, of "CHR ''/''"] tag_may [OF assms, of "CHR '':''"]
    tag_may [OF assms, of "CHR ''@''"]
  by (auto simp: char_class_defs code_def)

lemma remote_name_free:
  assumes "in_lang REMOTE_NAME u"
  shows "CHR '':'' \<notin> set u" and "CHR ''@'' \<notin> set u"
  using remote_name_may [OF assms, of "CHR '':''"] remote_name_may [OF assms, of "CHR ''@''"]
  by (auto simp: char_class_defs code_def)

lemma sha256_free:
  assumes "in_lang SHA256_RE u"
  shows "CHR ''/'' \<notin> set u" and "CHR ''@'' \<notin> set u" and "CHR '':'' \<in> set u"
proof -
  show "CHR ''/'' \<notin> set u" and "CHR ''@'' \<notin> set u"
    using sha256_may [OF assms, of "CHR ''/''"] sha256_may [OF assms, of "CHR ''@''"]
    by (auto simp: char_class_defs code_def)
  from assms obtain v where "u = ''sha256:'' @ v"
    unfolding SHA256_RE_def in_lang_simps(3) in_lang_RStr by auto
  then show "CHR '':'' \<in> set u" by simp
qed

lemma tag_latest: "in_lang TAG ''latest''"
  by (simp add: TAG_def in_lang_cat_cls in_lang_upto_cls char_class_defs code_def)

lemma parse_remainder_parts:
  assumes "parse_remainder h rem = Inr q"
  shows "\<exists>t d. rem = repo q @ opt_part CHR '':'' t @ opt_part CHR ''@'' d
     \<and> registry q = h \<and> in_lang REMOTE_NAME (repo q) \<and> opt_ok TAG t \<and> opt_ok SHA256_RE d
     \<and> digest q = (case d of None \<Rightarrow> [] | Some x \<Rightarrow> x)
     \<and> tag q = (case t of Some x \<Rightarrow> x | None \<Rightarrow> if d = None then ''latest'' else [])
     \<and> length ((if h = [] then DEFAULT_DOMAIN else h) @ ''/'' @ repo q) \<le> NAME_MAX"
proof -
  from assms obtain g where g: "re_fullmatch REMAINDER_RE rem = Some g"
    and c: "check_digest (g 3) = Inr ()"
    and q: "q = \<lparr>registry = h, repo = group_text g 1,
        tag = (if group_text g 2 \<noteq> [] then group_text g 2
               else if g 3 \<noteq> None \<and> g 3 \<noteq> Some [] then [] else ''latest''),
        digest = group_text g 3\<rparr>"
    and n: "length ((if h = [] then DEFAULT_DOMAIN else h) @ ''/'' @ group_text g 1) \<le> NAME_MAX"
    by (auto simp: parse_remainder_def split: option.splits if_splits)
  from remainder_groups [OF g] obtain r where
    r: "g 1 = Some r" "in_lang REMOTE_NAME r" "opt_ok TAG (g 2)"
       "rem = r @ opt_part CHR '':'' (g 2) @ opt_part CHR ''@'' (g 3)" by blast
  from check_digest_ok [OF c] r q n show ?thesis
    by (intro exI [of _ "g 2"] exI [of _ "g 3"])
       (auto simp: group_text_def opt_ok_def dest: tag_nonempty sha256_nonempty split: option.splits)
qed

lemma parse_reference_stages:
  assumes "parse_reference s = Inr q"
  shows "s \<noteq> [] \<and> length s \<le> REFERENCE_MAX
     \<and> (\<exists>h rem. split_domain s = (h, rem) \<and> check_host h = Inr () \<and> parse_remainder h rem = Inr q)"
  using assms
  by (auto simp: parse_reference_def Let_def split: if_splits prod.splits)

lemma parse_reference_wf:
  assumes "parse_reference s = Inr q"
  shows "wf_reference q"
proof -
  from parse_reference_stages [OF assms] obtain h rem where
    st: "split_domain s = (h, rem)" "check_host h = Inr ()" "parse_remainder h rem = Inr q" by blast
  from parse_remainder_parts [OF st(3)] obtain t d where
    p: "rem = repo q @ opt_part CHR '':'' t @ opt_part CHR ''@'' d" "registry q = h"
       "in_lang REMOTE_NAME (repo q)" "opt_ok TAG t" "opt_ok SHA256_RE d"
       "digest q = (case d of None \<Rightarrow> [] | Some x \<Rightarrow> x)"
       "tag q = (case t of Some x \<Rightarrow> x | None \<Rightarrow> if d = None then ''latest'' else [])"
       "length ((if h = [] then DEFAULT_DOMAIN else h) @ ''/'' @ repo q) \<le> NAME_MAX" by blast
  have "h = [] \<Longrightarrow> CHR ''/'' \<in> set (repo q)"
    using split_domain_host(2) [OF st(1)] p(1,4,5)
    by (auto simp: opt_part_def opt_ok_def tag_free sha256_free split: option.splits)
  moreover have "tag q = [] \<or> in_lang TAG (tag q)" "digest q = [] \<or> in_lang SHA256_RE (digest q)"
    "tag q = [] \<longrightarrow> digest q \<noteq> []"
    using p(4-7) tag_latest tag_nonempty sha256_nonempty
    by (auto simp: opt_ok_def split: option.splits if_splits)
  ultimately show ?thesis
    using p check_host_ok [OF st(2)] split_domain_host(1) [OF st(1)] st(2)
    by (auto simp: wf_reference_def)
qed

lemma reparse_parts:
  assumes q: "parse_remainder h rem = Inr q"
    and rem: "rem = r @ opt_part CHR '':'' t @ opt_part CHR ''@'' d"
    and r: "\<forall>x \<in> set r. x \<noteq> CHR '':'' \<and> x \<noteq> CHR ''@''"
    and t: "\<And>u. t = Some u \<Longrightarrow> CHR ''@'' \<notin> set u"
  shows "registry q = h \<and> repo q = r \<and> digest q = (case d of None \<Rightarrow> [] | Some x \<Rightarrow> x)
     \<and> tag q = (case t of Some x \<Rightarrow> x | None \<Rightarrow> if d = None then ''latest'' else [])
     \<and> (d = None \<or> digest q \<noteq> [])"
proof -
  from parse_remainder_parts [OF q] obtain t' d' where
    p: "rem = repo q @ opt_part CHR '':'' t' @ opt_part CHR ''@'' d'" "registry q = h"
       "in_lang REMOTE_NAME (repo q)" "opt_ok TAG t'" "opt_ok SHA256_RE d'"
       "digest q = (case d' of None \<Rightarrow> [] | Some x \<Rightarrow> x)"
       "tag q = (case t' of Some x \<Rightarrow> x | None \<Rightarrow> if d' = None then ''latest'' else [])" by blast
  have "r = repo q \<and> t = t' \<and> d = d'"
  proof (rule remainder_parts_unique)
    show "r @ opt_part CHR '':'' t @ opt_part CHR ''@'' d
        = repo q @ opt_part CHR '':'' t' @ opt_part CHR ''@'' d'" using rem p(1) by simp
    show "\<forall>x \<in> set (repo q). x \<noteq> CHR '':'' \<and> x \<noteq> CHR ''@''"
      using remote_name_free [OF p(3)] by blast
    show "\<And>u. t' = Some u \<Longrightarrow> CHR ''@'' \<notin> set u"
      using p(4) by (auto simp: opt_ok_def tag_free)
  qed (use r t in auto)
  with p sha256_nonempty show ?thesis by (auto simp: opt_ok_def split: option.splits)
qed

text \<open>The canonical spelling, cut at its first slash.\<close>

definition suffix_parts :: "reference \<Rightarrow> string option \<times> string option" where
  "suffix_parts p = (if digest p \<noteq> [] then (None, Some (digest p)) else (Some (tag p), None))"

lemma canonical_suffix:
  "canonical p = ref_name p @ opt_part CHR '':'' (fst (suffix_parts p))
     @ opt_part CHR ''@'' (snd (suffix_parts p))"
  by (simp add: canonical_def suffix_parts_def opt_part_def)

lemma canonical_cut:
  assumes "wf_reference p"
  shows "\<exists>h r. ref_name p = h @ CHR ''/'' # r \<and> CHR ''/'' \<notin> set h
     \<and> (registry p \<noteq> [] \<longrightarrow> h = registry p \<and> r = repo p)
     \<and> (registry p = [] \<longrightarrow> h = hd (split_on CHR ''/'' (repo p))
          \<and> (\<forall>x \<in> set h. x \<noteq> CHR '':'' \<and> x \<noteq> CHR ''@''))
     \<and> (\<forall>x \<in> set r. x \<noteq> CHR '':'' \<and> x \<noteq> CHR ''@'')"
proof (cases "registry p = []")
  case True
  with assms have s: "CHR ''/'' \<in> set (repo p)" and l: "in_lang REMOTE_NAME (repo p)"
    by (auto simp: wf_reference_def)
  from s obtain h r where hr: "repo p = h @ CHR ''/'' # r" "CHR ''/'' \<notin> set h"
    by (meson split_list_first)
  with True l show ?thesis
    using remote_name_free [OF l]
    by (intro exI [of _ h] exI [of _ r]) (auto simp: ref_name_def split_on_append)
next
  case False
  with assms have l: "in_lang REMOTE_NAME (repo p)" and d: "in_lang DOMAIN_RE (registry p)"
    by (auto simp: wf_reference_def)
  from d have "CHR ''/'' \<notin> set (registry p)"
    by (auto dest!: domain_may simp: char_class_defs code_def)
  with False show ?thesis
    using remote_name_free [OF l]
    by (intro exI [of _ "registry p"] exI [of _ "repo p"]) (auto simp: ref_name_def)
qed

lemma split_domain_cut:
  assumes "CHR ''/'' \<notin> set h" and "h \<notin> set HUB_ALIASES"
  shows "split_domain (h @ CHR ''/'' # t) = (if host_like h then (h, t) else ([], h @ CHR ''/'' # t))"
proof -
  have "host_like h \<Longrightarrow> h \<noteq> []" by (auto simp: host_like_def str_lower_def)
  with assms partition_at_append [OF assms(1), of t] show ?thesis
    by (auto simp: split_domain_def host_like_def HUB_ALIASES_def)
qed

lemma split_loosely_cut:
  assumes "CHR ''/'' \<notin> set h" and "h \<notin> set HUB_ALIASES" and c: "CHR '':'' \<in> set t"
  shows "(case split_loosely (h @ CHR ''/'' # t) of (rg, rp, tg) \<Rightarrow>
            if rg \<noteq> [] then rg @ ''/'' @ rp @ '':'' @ tg else rp @ '':'' @ tg) = h @ CHR ''/'' # t"
proof -
  obtain a b where ab: "rpartition_at CHR '':'' t = (a, b)" by force
  with rpartition_at_join [OF c] have t: "t = a @ CHR '':'' # b" and b: "CHR '':'' \<notin> set b" by auto
  have "rpartition_at CHR '':'' (h @ CHR ''/'' # t) = (h @ CHR ''/'' # a, b)"
    using rpartition_at_append [OF b, of "h @ CHR ''/'' # a"] t by simp
  moreover have "partition_at CHR ''/'' (h @ CHR ''/'' # t) = (h, True, t)"
    by (rule partition_at_append [OF assms(1)])
  ultimately show ?thesis
    using ab assms(2) c t
    by (auto simp: split_loosely_def Let_def split: prod.splits)
qed

lemma canonical_ref_idem:
  assumes wf: "wf_reference p"
    and hub: "registry p = [] \<Longrightarrow> hd (split_on CHR ''/'' (repo p)) \<notin> set HUB_ALIASES"
  shows "canonical_ref (canonical p) = canonical p"
proof -
  obtain t d where td: "suffix_parts p = (t, d)" by force
  let ?sfx = "opt_part CHR '':'' t @ opt_part CHR ''@'' d"
  have free: "\<And>u. t = Some u \<Longrightarrow> CHR ''@'' \<notin> set u"
    using td wf by (auto simp: suffix_parts_def wf_reference_def tag_free split: if_splits)
  have one: "(t = None) \<noteq> (d = None)" "\<And>u. t = Some u \<Longrightarrow> u \<noteq> []"
    using td wf by (auto simp: suffix_parts_def wf_reference_def split: if_splits)
  have colon: "CHR '':'' \<in> set ?sfx"
    using td wf by (auto simp: suffix_parts_def opt_part_def wf_reference_def sha256_free
        split: if_splits)
  obtain h r where hr: "ref_name p = h @ CHR ''/'' # r" "CHR ''/'' \<notin> set h"
      "registry p \<noteq> [] \<longrightarrow> h = registry p \<and> r = repo p"
      "registry p = [] \<longrightarrow> h = hd (split_on CHR ''/'' (repo p))
          \<and> (\<forall>x \<in> set h. x \<noteq> CHR '':'' \<and> x \<noteq> CHR ''@'')"
      "\<forall>x \<in> set r. x \<noteq> CHR '':'' \<and> x \<noteq> CHR ''@''" using canonical_cut [OF wf]
    by (elim exE conjE) (rule that, assumption+)
  have al: "h \<notin> set HUB_ALIASES"
  proof (cases "registry p = []")
    case True
    with hr(4) have "h = hd (split_on CHR ''/'' (repo p))" by blast
    with hub [OF True] show ?thesis by simp
  next
    case False
    with hr(3) have "h = registry p" by blast
    with False wf show ?thesis unfolding wf_reference_def by blast
  qed
  have C: "canonical p = h @ CHR ''/'' # r @ ?sfx" using hr(1) td by (simp add: canonical_suffix)
  show ?thesis
  proof (cases "parse_reference (canonical p)")
    case (Inl e)
    then show ?thesis using split_loosely_cut [OF hr(2) al, of "r @ ?sfx"] colon
      by (simp add: canonical_ref_def C)
  next
    case (Inr q)
    from parse_reference_stages [OF Inr] split_domain_cut [OF hr(2) al, of "r @ ?sfx"] C
    have q: "parse_remainder (if host_like h then h else [])
        ((if host_like h then r else h @ CHR ''/'' # r) @ ?sfx) = Inr q"
      by (auto split: if_splits)
    have hf: "\<not> host_like h \<Longrightarrow> \<forall>x \<in> set h. x \<noteq> CHR '':'' \<and> x \<noteq> CHR ''@''"
      using hr(3,4) wf by (auto simp: wf_reference_def)
    have "\<forall>x \<in> set (if host_like h then r else h @ CHR ''/'' # r). x \<noteq> CHR '':'' \<and> x \<noteq> CHR ''@''"
      using hr(5) hf by auto
    note parts = reparse_parts [OF q refl this free]
    have "canonical q = ref_name q @ ?sfx"
    proof (cases t)
      case None
      with one parts show ?thesis by (auto simp: canonical_def opt_part_def)
    next
      case (Some u)
      with one have "d = None" by auto
      with Some parts show ?thesis by (simp add: canonical_def opt_part_def)
    qed
    moreover have "ref_name q = h @ CHR ''/'' # r"
    proof (cases "host_like h")
      case True
      then have "h \<noteq> []" by (auto simp: host_like_def str_lower_def)
      with True parts show ?thesis by (simp add: ref_name_def)
    next
      case False
      with parts show ?thesis by (simp add: ref_name_def)
    qed
    ultimately have "canonical q = canonical p" using C by simp
    then show ?thesis using Inr by (simp add: canonical_ref_def)
  qed
qed

subsection \<open>Completeness: what the grammar promises is accepted\<close>

lemma hex_lower_hex: "is_hex_lower c \<Longrightarrow> is_hex c"
  by (simp add: is_hex_def)

lemma sha256_digest:
  assumes "in_lang SHA256_RE u"
  shows "in_lang DIGEST u"
proof -
  from assms obtain v where u: "u = ''sha256:'' @ v" and v: "length v = 64" "\<forall>c \<in> set v. is_hex_lower c"
    unfolding SHA256_RE_def in_lang_simps(3) in_lang_RStr in_lang_times_cls by auto
  have "in_lang (RStar (RCls is_alnum_az)) ''ha256''"
    by (simp add: in_lang_star_cls char_class_defs code_def)
  from L_cat [OF this L_star0] have "in_lang ALGORITHM ''sha256''"
    by (simp add: ALGORITHM_def in_lang_cat_cls char_class_defs code_def)
  moreover have "in_lang (RCat (RTimes 32 (RCls is_hex)) (RStar (RCls is_hex))) v"
  proof -
    have "in_lang (RTimes 32 (RCls is_hex)) (take 32 v)" "in_lang (RStar (RCls is_hex)) (drop 32 v)"
      using v by (auto simp: in_lang_times_cls in_lang_star_cls hex_lower_hex
          dest: in_set_takeD in_set_dropD)
    from L_cat [OF this] show ?thesis by simp
  qed
  ultimately show ?thesis
    unfolding DIGEST_def u in_lang_simps(3) [of ALGORITHM] in_lang_cat_chr
    by (intro exI [of _ "''sha256''"] exI [of _ "'':'' @ v"]) simp
qed

lemma in_lang_opt_part: "opt_ok r t \<Longrightarrow> in_lang (ROpt (RCat (RChr c) (RGrp i r))) (opt_part c t)"
  by (cases t) (auto simp: opt_ok_def opt_part_def in_lang_opt in_lang_cat_chr in_lang_simps(5))

lemma parse_remainder_complete:
  assumes r: "in_lang REMOTE_NAME r" and t: "opt_ok TAG t" and d: "opt_ok SHA256_RE d"
    and n: "length ((if h = [] then DEFAULT_DOMAIN else h) @ ''/'' @ r) \<le> NAME_MAX"
  shows "\<exists>q. parse_remainder h (r @ opt_part CHR '':'' t @ opt_part CHR ''@'' d) = Inr q"
proof -
  let ?s = "r @ opt_part CHR '':'' t @ opt_part CHR ''@'' d"
  have dd: "opt_ok DIGEST d" using d by (auto simp: opt_ok_def sha256_digest split: option.splits)
  have "in_lang REMAINDER_RE ?s"
    unfolding REMAINDER_RE_def
    by (intro L_cat L_grp r in_lang_opt_part t dd)
  then obtain g where g: "re_fullmatch REMAINDER_RE ?s = Some g"
    using fullmatch_iff_lang [of REMAINDER_RE ?s] by auto
  from remainder_groups [OF g] obtain r' where
    r': "g 1 = Some r'" "in_lang REMOTE_NAME r'" "opt_ok TAG (g 2)" "opt_ok DIGEST (g 3)"
       "?s = r' @ opt_part CHR '':'' (g 2) @ opt_part CHR ''@'' (g 3)" by blast
  have "r = r' \<and> t = g 2 \<and> d = g 3"
  proof (rule remainder_parts_unique [OF r'(5)])
    show "\<forall>x \<in> set r. x \<noteq> CHR '':'' \<and> x \<noteq> CHR ''@''" using remote_name_free [OF r] by blast
    show "\<forall>x \<in> set r'. x \<noteq> CHR '':'' \<and> x \<noteq> CHR ''@''" using remote_name_free [OF r'(2)] by blast
    show "\<And>u. t = Some u \<Longrightarrow> CHR ''@'' \<notin> set u" using t by (auto simp: opt_ok_def tag_free)
    show "\<And>u. g 2 = Some u \<Longrightarrow> CHR ''@'' \<notin> set u" using r'(3) by (auto simp: opt_ok_def tag_free)
  qed
  moreover from this d have "check_digest (g 3) = Inr ()"
    using fullmatch_iff_lang [of SHA256_RE]
    by (auto simp: check_digest_def opt_ok_def split: option.splits)
  ultimately show ?thesis using g r' n
    by (auto simp: parse_remainder_def group_text_def)
qed

lemma lower_char_id: "is_lower_az c \<or> code c < 65 \<or> (90 < code c \<and> code c < 128) \<Longrightarrow> lower_char c = c"
  by (auto simp: lower_char_def char_class_defs)

lemma remote_name_lower: "in_lang REMOTE_NAME u \<Longrightarrow> str_lower u = u"
proof (rule str_lower_id)
  fix c assume "in_lang REMOTE_NAME u" "c \<in> set u"
  from remote_name_may [OF this] show "lower_char c = c"
    by (intro lower_char_id) (auto simp: char_class_defs code_def)
qed

lemma sha256_lower: "in_lang SHA256_RE u \<Longrightarrow> str_lower u = u"
proof (rule str_lower_id)
  fix c assume "in_lang SHA256_RE u" "c \<in> set u"
  from sha256_may [OF this] show "lower_char c = c"
    by (intro lower_char_id) (auto simp: char_class_defs code_def)
qed

lemma not_identifier: "CHR ''/'' \<in> set s \<Longrightarrow> re_fullmatch IDENTIFIER_RE s = None"
proof -
  assume a: "CHR ''/'' \<in> set s"
  have "\<not> is_hex_lower CHR ''/''" by (simp add: char_class_defs code_def)
  with a have "\<not> in_lang IDENTIFIER_RE s" unfolding IDENTIFIER_RE_def in_lang_times_cls by blast
  then show ?thesis using fullmatch_iff_lang [of IDENTIFIER_RE s] by auto
qed

lemma tag_length: "in_lang TAG u \<Longrightarrow> length u \<le> 128"
  by (auto simp: TAG_def in_lang_cat_cls in_lang_upto_cls)

lemma sha256_length: "in_lang SHA256_RE u \<Longrightarrow> length u = 71"
  unfolding SHA256_RE_def in_lang_simps(3) in_lang_RStr in_lang_times_cls by auto

lemma str_lower_append: "str_lower (u @ v) = str_lower u @ str_lower v"
  by (simp add: str_lower_def)

lemma str_lower_fix: "str_lower s = s \<longleftrightarrow> (\<forall>c \<in> set s. lower_char c = c)"
  unfolding str_lower_def by (induction s) auto

lemma partition_head_lower:
  assumes r: "in_lang REMOTE_NAME r" and d: "opt_ok SHA256_RE d"
  shows "str_lower (fst (partition_at CHR '':'' (r @ opt_part CHR '':'' t @ opt_part CHR ''@'' d)))
       = fst (partition_at CHR '':'' (r @ opt_part CHR '':'' t @ opt_part CHR ''@'' d))"
proof (cases t)
  case (Some u)
  have "partition_at CHR '':'' (r @ CHR '':'' # u @ opt_part CHR ''@'' d) = (r, True, u @ opt_part CHR ''@'' d)"
    by (rule partition_at_append [OF remote_name_free(1) [OF r]])
  with Some show ?thesis by (simp add: opt_part_def remote_name_lower [OF r])
next
  case None
  let ?w = "r @ opt_part CHR ''@'' d"
  have "lower_char CHR ''@'' = CHR ''@''" by (simp add: lower_char_id code_def)
  then have "\<forall>c \<in> set (opt_part CHR ''@'' d). lower_char c = c"
    using d sha256_lower by (auto simp: opt_part_def opt_ok_def str_lower_fix split: option.splits)
  then have "\<forall>c \<in> set ?w. lower_char c = c"
    using remote_name_lower [OF r] by (auto simp: str_lower_fix)
  with None show ?thesis
    by (auto simp: partition_at_def str_lower_fix opt_part_def dest: set_takeWhileD)
qed

lemma suffix_parts_ok:
  assumes "wf_reference p" and "suffix_parts p = (t, d)"
  shows "opt_ok TAG t" and "opt_ok SHA256_RE d"
    and "length (opt_part CHR '':'' t @ opt_part CHR ''@'' d) \<le> 129"
  using assms
  by (auto simp: suffix_parts_def wf_reference_def opt_ok_def opt_part_def
      dest: tag_length sha256_length split: if_splits)

text \<open>The canonical spelling of a well-formed reference parses back to it, unpinned of its tag.\<close>

definition drop_pinned_tag :: "reference \<Rightarrow> reference" where
  "drop_pinned_tag p = (if digest p \<noteq> [] then p\<lparr>tag := []\<rparr> else p)"

lemma parse_canonical:
  assumes wf: "wf_reference p"
    and hub: "registry p = [] \<Longrightarrow> \<not> host_like (hd (split_on CHR ''/'' (repo p)))"
  shows "parse_reference (canonical p) = Inr (drop_pinned_tag p)"
proof -
  obtain t d where td: "suffix_parts p = (t, d)" by force
  let ?sfx = "opt_part CHR '':'' t @ opt_part CHR ''@'' d"
  note ok = suffix_parts_ok [OF wf td]
  obtain h r where hr: "ref_name p = h @ CHR ''/'' # r" "CHR ''/'' \<notin> set h"
      "registry p \<noteq> [] \<longrightarrow> h = registry p \<and> r = repo p"
      "registry p = [] \<longrightarrow> h = hd (split_on CHR ''/'' (repo p))
          \<and> (\<forall>x \<in> set h. x \<noteq> CHR '':'' \<and> x \<noteq> CHR ''@'')"
      using canonical_cut [OF wf] by (elim exE conjE) (rule that, assumption+)
  have C: "canonical p = h @ CHR ''/'' # r @ ?sfx" using hr(1) td by (simp add: canonical_suffix)
  have host: "host_like h \<longleftrightarrow> registry p \<noteq> []"
    using hr(3,4) hub wf by (cases "registry p = []") (simp_all add: wf_reference_def)
  have al: "h \<notin> set HUB_ALIASES"
  proof (cases "registry p = []")
    case True
    with host show ?thesis by (auto simp: host_like_def HUB_ALIASES_def)
  next
    case False
    with hr(3) wf show ?thesis by (simp add: wf_reference_def)
  qed
  have sd: "split_domain (canonical p) = (registry p, repo p @ ?sfx)"
    using split_domain_cut [OF hr(2) al, of "r @ ?sfx"] host hr(1,3) C
    by (cases "registry p = []") (simp_all add: ref_name_def)
  have r: "in_lang REMOTE_NAME (repo p)"
    and n: "length ((if registry p = [] then DEFAULT_DOMAIN else registry p) @ ''/'' @ repo p) \<le> NAME_MAX"
    and ch: "check_host (registry p) = Inr ()"
    using wf by (auto simp: wf_reference_def check_host_def)
  from parse_remainder_complete [OF r ok(1,2) n]
  obtain q where q: "parse_remainder (registry p) (repo p @ ?sfx) = Inr q" by blast
  have qp: "q = drop_pinned_tag p"
  proof -
    have "registry q = registry p \<and> repo q = repo p \<and> digest q = (case d of None \<Rightarrow> [] | Some x \<Rightarrow> x)
       \<and> tag q = (case t of Some x \<Rightarrow> x | None \<Rightarrow> if d = None then ''latest'' else [])"
    proof -
      have "\<forall>x \<in> set (repo p). x \<noteq> CHR '':'' \<and> x \<noteq> CHR ''@''" using remote_name_free [OF r] by blast
      moreover have "\<And>u. t = Some u \<Longrightarrow> CHR ''@'' \<notin> set u"
        using ok(1) by (auto simp: opt_ok_def tag_free)
      ultimately show ?thesis using reparse_parts [OF q refl] by blast
    qed
    with td show ?thesis
      by (auto simp: suffix_parts_def drop_pinned_tag_def intro!: reference.equality split: if_splits)
  qed
  have "length (canonical p) \<le> REFERENCE_MAX"
    using ok(3) n td by (auto simp: canonical_suffix ref_name_def NAME_MAX_def REFERENCE_MAX_def
        DEFAULT_DOMAIN_def split: if_splits)
  moreover have "canonical p \<noteq> []" and "re_fullmatch IDENTIFIER_RE (canonical p) = None"
    using C by (auto intro: not_identifier)
  ultimately show ?thesis
    using sd q qp ch partition_head_lower [OF r ok(2), of t]
    by (simp add: parse_reference_def)
qed

lemma split_domain_plain:
  assumes "CHR ''/'' \<notin> set s"
  shows "split_domain s = ([], OFFICIAL_PREFIX @ s)"
    and "split_domain (''docker.io/'' @ s) = ([], OFFICIAL_PREFIX @ s)"
    and "split_domain (''index.docker.io/'' @ s) = ([], OFFICIAL_PREFIX @ s)"
    and "split_domain (''library/'' @ s) = ([], OFFICIAL_PREFIX @ s)"
    and "split_domain (''docker.io/library/'' @ s) = ([], OFFICIAL_PREFIX @ s)"
  using assms partition_at_append [of "CHR ''/''" "''docker.io''"]
    partition_at_append [of "CHR ''/''" "''index.docker.io''" s]
    partition_at_append [of "CHR ''/''" "''library''" s] partition_at_notin [OF assms]
  by (simp_all add: split_domain_def HUB_ALIASES_def OFFICIAL_PREFIX_def str_lower_def
      lower_char_id code_def)

subsection \<open>Properties\<close>

text \<open>C21. What an accepted reference can hold: every component of the repository path is non-empty,
  neither \<open>.\<close> nor \<open>..\<close>, and starts with a lower-case letter or a digit; a reference without a tag
  is pinned; a pin is a sha256 of 64 lower-case hexadecimal digits; and no character of it can end
  or split the URL the registry is asked with.\<close>

theorem accepted_reference_is_clean:
  assumes "parse_reference s = Inr p"
  shows "(\<forall>q \<in> set (split_on CHR ''/'' (repo p)). q \<noteq> [] \<and> q \<noteq> ''.'' \<and> q \<noteq> ''..''
            \<and> (is_lower_az (hd q) \<or> is_dec (hd q)))
       \<and> (tag p = [] \<longrightarrow> digest p \<noteq> [])
       \<and> (digest p = [] \<or> (\<exists>h. digest p = ''sha256:'' @ h \<and> length h = 64 \<and> list_all is_hex_lower h))
       \<and> (\<forall>c \<in> set (canonical p). is_alnum_az c \<or> c \<in> set ''._-/:@[]'')"
proof (intro conjI)
  from parse_reference_wf [OF assms] have wf: "wf_reference p" .
  then have comps: "\<forall>q \<in> set (split_on CHR ''/'' (repo p)). in_lang PATH_COMPONENT q"
    by (simp add: wf_reference_def remote_name_components)
  have dot: "\<not> is_lower_az CHR ''.''" "\<not> is_dec CHR ''.''" by (simp_all add: char_class_defs code_def)
  show "\<forall>q \<in> set (split_on CHR ''/'' (repo p)). q \<noteq> [] \<and> q \<noteq> ''.'' \<and> q \<noteq> ''..''
       \<and> (is_lower_az (hd q) \<or> is_dec (hd q))"
    using comps path_component_ends dot by fastforce
  show "tag p = [] \<longrightarrow> digest p \<noteq> []" using wf by (simp add: wf_reference_def)
  show "digest p = [] \<or> (\<exists>h. digest p = ''sha256:'' @ h \<and> length h = 64 \<and> list_all is_hex_lower h)"
    using wf unfolding wf_reference_def SHA256_RE_def in_lang_simps(3) in_lang_RStr in_lang_times_cls
    by (auto simp: list_all_iff)
  have hex: "is_hex c \<Longrightarrow> is_alnum_az c" for c by (auto simp: char_class_defs)
  have hexl: "is_hex_lower c \<Longrightarrow> is_alnum_az c" for c by (auto simp: char_class_defs)
  have sha: "c \<in> set ''sha256:'' \<Longrightarrow> is_alnum_az c \<or> c = CHR '':''" for c
    by (auto simp: char_class_defs code_def)
  let ?ok = "\<lambda>c. is_alnum_az c \<or> c \<in> set ''._-/:@[]''"
  have r: "?ok c" if "c \<in> set (ref_name p)" for c
    using that wf remote_name_may [of "repo p" c] domain_may [of "registry p" c] hex
    by (auto simp: ref_name_def wf_reference_def is_alnum_az_def is_alpha_az_def split: if_splits)
  have t: "?ok c" if "c \<in> set (tag p)" for c
    using that wf tag_may [of "tag p" c] by (auto simp: wf_reference_def)
  have d: "?ok c" if "c \<in> set (digest p)" for c
    using that wf sha256_may [of "digest p" c] hexl sha [of c] by (auto simp: wf_reference_def)
  have "set (canonical p) \<subseteq> set (ref_name p) \<union> set (tag p) \<union> set (digest p) \<union> set '':@''"
    by (auto simp: canonical_def)
  moreover have "?ok c" if "c \<in> set '':@''" for c using that by auto
  ultimately show "\<forall>c \<in> set (canonical p). ?ok c" using r t d by blast
qed

theorem accepted_reference_is_clean_witness:
  "list_all (\<lambda>c. is_alnum_az c \<or> c \<in> set ''._-/:@[]'')
     (canonical \<lparr>registry = ''g.io'', repo = ''a'', tag = ''latest'', digest = []\<rparr>)"
proof -
  have p: "parse_reference ''g.io/a'' =
      Inr \<lparr>registry = ''g.io'', repo = ''a'', tag = ''latest'', digest = []\<rparr>" by code_simp
  from accepted_reference_is_clean [OF p] show ?thesis unfolding list_all_iff by blast
qed

text \<open>The canonical spelling of an accepted reference parses back to the reference (a pinned one
  without its tag), whenever the repository's first component does not look like a host; so the
  cache key determines the image.\<close>

theorem canonical_parses_back:
  assumes "parse_reference s = Inr p"
    and "registry p \<noteq> [] \<or> \<not> host_like (hd (split_on CHR ''/'' (repo p)))"
  shows "parse_reference (canonical p) = Inr (drop_pinned_tag p)"
  using parse_canonical [OF parse_reference_wf [OF assms(1)]] assms(2) by blast

theorem canonical_parses_back_witness:
  "parse_reference (canonical \<lparr>registry = ''g.io'', repo = ''a'', tag = ''latest'', digest = []\<rparr>)
     = Inr \<lparr>registry = ''g.io'', repo = ''a'', tag = ''latest'', digest = []\<rparr>"
proof -
  let ?p = "\<lparr>registry = ''g.io'', repo = ''a'', tag = ''latest'', digest = []\<rparr>"
  have p: "parse_reference ''g.io/a'' = Inr ?p" by code_simp
  have "registry ?p \<noteq> [] \<or> \<not> host_like (hd (split_on CHR ''/'' (repo ?p)))" by simp
  from canonical_parses_back [OF p this] show ?thesis by (simp add: drop_pinned_tag_def)
qed

text \<open>\<open>canonical_ref\<close> is a normal form: applied to its own answer it changes nothing, even where
  that answer is a string the grammar refuses or reads differently; the one exception is a Docker
  Hub path that begins with the name of Docker Hub itself.\<close>

theorem canonical_ref_is_normal_form:
  assumes "parse_reference s = Inr p"
    and "registry p \<noteq> [] \<or> hd (split_on CHR ''/'' (repo p)) \<notin> set HUB_ALIASES"
  shows "canonical_ref (canonical_ref s) = canonical_ref s"
  using canonical_ref_idem [OF parse_reference_wf [OF assms(1)]] assms
  by (auto simp: canonical_ref_def)

theorem canonical_ref_is_normal_form_witness:
  "canonical_ref (canonical_ref ''g.io/a'') = canonical_ref ''g.io/a''"
proof -
  have p: "parse_reference ''g.io/a'' =
      Inr \<lparr>registry = ''g.io'', repo = ''a'', tag = ''latest'', digest = []\<rparr>" by code_simp
  from canonical_ref_is_normal_form [OF p] show ?thesis by simp
qed

text \<open>The spellings of an official image are one reference: with or without \<open>library/\<close>, and
  with or without either name of Docker Hub in front, the same answer comes back, errors included.\<close>

theorem official_image_spellings:
  assumes "s \<noteq> []" and "CHR ''/'' \<notin> set s" and "length s + 18 \<le> REFERENCE_MAX"
    and "re_fullmatch IDENTIFIER_RE s = None"
  shows "parse_reference (''library/'' @ s) = parse_reference s
       \<and> parse_reference (''docker.io/'' @ s) = parse_reference s
       \<and> parse_reference (''index.docker.io/'' @ s) = parse_reference s
       \<and> parse_reference (''docker.io/library/'' @ s) = parse_reference s"
proof -
  have "re_fullmatch IDENTIFIER_RE (''library/'' @ s) = None"
    "re_fullmatch IDENTIFIER_RE (''docker.io/'' @ s) = None"
    "re_fullmatch IDENTIFIER_RE (''index.docker.io/'' @ s) = None"
    "re_fullmatch IDENTIFIER_RE (''docker.io/library/'' @ s) = None"
    by (simp_all add: not_identifier)
  then show ?thesis
    using assms split_domain_plain [OF assms(2)]
    by (simp add: parse_reference_def REFERENCE_MAX_def)
qed

theorem official_image_spellings_witness:
  "parse_reference (''docker.io/library/'' @ ''a:1'') = parse_reference ''a:1''"
proof -
  have "re_fullmatch IDENTIFIER_RE ''a:1'' = None" by code_simp
  then show ?thesis using official_image_spellings [of "''a:1''"] by (simp add: REFERENCE_MAX_def)
qed

text \<open>Two different images can share a canonical spelling, and so a cache key: a Docker Hub path
  whose first component looks like a host, and the image of that host.\<close>

theorem canonical_collision:
  "\<exists>p q. parse_reference ''docker.io/g.io/a'' = Inr p \<and> parse_reference ''g.io/a'' = Inr q
     \<and> registry p \<noteq> registry q \<and> canonical p = canonical q"
proof -
  have "parse_reference ''docker.io/g.io/a'' =
      Inr \<lparr>registry = [], repo = ''g.io/a'', tag = ''latest'', digest = []\<rparr>" by code_simp
  moreover have "parse_reference ''g.io/a'' =
      Inr \<lparr>registry = ''g.io'', repo = ''a'', tag = ''latest'', digest = []\<rparr>" by code_simp
  ultimately show ?thesis by (auto simp: canonical_def ref_name_def)
qed

end
