(* ===== verification/Names_Quoting.thy ===== *)
theory Names_Quoting
  imports Image_Refs
begin

text \<open>
  The small text rules every command goes through: the container-name rule of \<open>names.py\<close>, the
  environment rules of \<open>execenv.py\<close>, the shell quoting of \<open>commands/login/quoting.py\<close> and the
  terminal quoting \<open>quote_path\<close> of \<open>message.py\<close>. The lemmas give each rule its reading: a valid
  name is one safe path component, what \<open>dq\<close> prints reads back as the word it was given, and
  what \<open>quote_path\<close> prints holds no C0 control character and can be read back.
\<close>

subsection \<open>Container names\<close>

definition NAME_RE :: rx where
  "NAME_RE = RCat (RCls is_alnum_az)
     (RCat (RStar (RCls (\<lambda>c. is_alnum_az c \<or> c = CHR ''_'' \<or> c = CHR ''.'' \<or> c = CHR ''-''))) REnd)"

definition is_valid_name :: "string \<Rightarrow> bool" where
  "is_valid_name name \<longleftrightarrow> re_match NAME_RE name \<noteq> None"

datatype command_exit = InvalidName string string

definition require_valid_name :: "string \<Rightarrow> string \<Rightarrow> command_exit + unit" where
  "require_valid_name name kind =
     (if \<not> is_valid_name name then Inl (InvalidName kind name) else Inr ())"

lemma re_match_Some_iff: "re_match r s \<noteq> None \<longleftrightarrow> succs r (Map.empty, s) \<noteq> []"
  by (simp add: re_match_def split: list.splits)

lemma valid_name_iff:
  "is_valid_name n \<longleftrightarrow> n \<noteq> [] \<and> is_alnum_az (hd n)
     \<and> (\<forall>c \<in> set n. is_alnum_az c \<or> c = CHR ''_'' \<or> c = CHR ''.'' \<or> c = CHR ''-'')"
proof -
  let ?P = "\<lambda>c. is_alnum_az c \<or> c = CHR ''_'' \<or> c = CHR ''.'' \<or> c = CHR ''-''"
  have "is_valid_name n \<longleftrightarrow> (\<exists>c' s'. (c', s') \<in> set (succs NAME_RE (Map.empty, n)))"
    unfolding is_valid_name_def re_match_Some_iff by (cases "succs NAME_RE (Map.empty, n)") auto
  also have "\<dots> \<longleftrightarrow> (\<exists>x xs. n = x # xs \<and> is_alnum_az x \<and> in_lang (RStar (RCls ?P)) xs)"
    unfolding NAME_RE_def succs_cat_cls_iff
    by (auto simp: succs_cat_iff succs_groupfree succs.simps(10))
  also have "\<dots> \<longleftrightarrow> n \<noteq> [] \<and> is_alnum_az (hd n) \<and> (\<forall>c \<in> set n. ?P c)"
    by (cases n) (auto simp: in_lang_star_cls)
  finally show ?thesis .
qed

subsection \<open>What may reach an exec\<close>

definition HOST_EXEC_PREFIXES :: "string list" where
  "HOST_EXEC_PREFIXES = [''LD_'', ''PROOT_'']"

definition IDENTITY_ENV_KEYS :: "string list" where
  "IDENTITY_ENV_KEYS = [''PD_CONTAINER'', ''PD_IMAGE'', ''PD_IMAGE_ID'', ''container'']"

definition MAX_ENV_STRING_BYTES :: nat where
  "MAX_ENV_STRING_BYTES = 32 * 4096"

definition is_host_exec_var :: "string \<Rightarrow> bool" where
  "is_host_exec_var key \<longleftrightarrow> list_ex (\<lambda>p. starts_with p key) HOST_EXEC_PREFIXES"

text \<open>
  \<open>os.fsencode\<close> with the UTF-8 file-system encoding: one byte below U+0080, two above. The
  alphabet holds no surrogate, so the encoding does not fail on it.
\<close>

definition fs_len :: "string \<Rightarrow> nat" where
  "fs_len s = sum_list (map (\<lambda>c. if code c < 128 then 1 else 2) s)"

definition is_exportable :: "string \<Rightarrow> string \<Rightarrow> bool" where
  "is_exportable key val =
     (if CHR 0x00 \<in> set key \<or> CHR 0x00 \<in> set val then False
      else fs_len key + 1 + fs_len val < MAX_ENV_STRING_BYTES)"

subsection \<open>POSIX double quotes\<close>

definition is_safe_char :: "char \<Rightarrow> bool" where
  "is_safe_char c \<longleftrightarrow> is_alnum_az c \<or> c \<in> set ''_-+./:@=''"

definition dq :: "string \<Rightarrow> string" where
  "dq s =
     (if s \<noteq> [] \<and> list_all is_safe_char s then s
      else let escaped = replace_char CHR ''`'' [CHR 0x5C, CHR ''`'']
                 (replace_char CHR ''$'' [CHR 0x5C, CHR ''$'']
                   (replace_char CHR 0x22 [CHR 0x5C, CHR 0x22]
                     (replace_char CHR 0x5C [CHR 0x5C, CHR 0x5C] s)))
           in [CHR 0x22] @ escaped @ [CHR 0x22])"

text \<open>
  How a POSIX shell reads one word: inside double quotes a backslash quotes the dollar sign, the
  backquote, the double quote and itself, and is literal before anything else; an unquoted
  dollar sign or backquote would start an expansion. \<open>None\<close> is a word that is not one literal.
\<close>

fun sh_dquoted :: "string \<Rightarrow> string option" where
  "sh_dquoted [] = None"
| "sh_dquoted (c # s) =
     (if c = CHR 0x22 then (if s = [] then Some [] else None)
      else if c = CHR ''$'' \<or> c = CHR ''`'' then None
      else if c = CHR 0x5C then
        (case s of
           d # s' \<Rightarrow> (if d \<in> {CHR ''$'', CHR ''`'', CHR 0x22, CHR 0x5C}
                     then map_option (Cons d) (sh_dquoted s')
                     else map_option (Cons c) (sh_dquoted s))
         | [] \<Rightarrow> None)
      else map_option (Cons c) (sh_dquoted s))"

definition sh_word :: "string \<Rightarrow> string option" where
  "sh_word w = (case w of
      [] \<Rightarrow> None
    | c # s \<Rightarrow> if c = CHR 0x22 then sh_dquoted s
              else if list_all is_safe_char w then Some w else None)"

definition dq_char :: "char \<Rightarrow> string" where
  "dq_char c = (if c \<in> {CHR ''$'', CHR ''`'', CHR 0x22, CHR 0x5C} then [CHR 0x5C, c] else [c])"

lemma replace_char_append: "replace_char c n (u @ v) = replace_char c n u @ replace_char c n v"
  by (simp add: replace_char_def)

lemma replace_char_Cons:
  "replace_char c n (x # xs) = (if x = c then n else [x]) @ replace_char c n xs"
  by (simp add: replace_char_def)

lemma replace_char_Nil [simp]: "replace_char c n [] = []"
  by (simp add: replace_char_def)

lemma dq_escape_map:
  "replace_char CHR ''`'' [CHR 0x5C, CHR ''`'']
     (replace_char CHR ''$'' [CHR 0x5C, CHR ''$'']
       (replace_char CHR 0x22 [CHR 0x5C, CHR 0x22]
         (replace_char CHR 0x5C [CHR 0x5C, CHR 0x5C] s))) = concat (map dq_char s)"
  by (induction s) (simp_all add: replace_char_Cons replace_char_append dq_char_def)

lemma sh_dquoted_dq: "sh_dquoted (concat (map dq_char s) @ [CHR 0x22]) = Some s"
  by (induction s) (auto simp: dq_char_def)

subsection \<open>Terminal quoting\<close>

definition hex_digit :: "nat \<Rightarrow> char" where
  "hex_digit n = (if n < 10 then char_of (48 + n) else char_of (87 + n))"

definition quote_map :: "char \<Rightarrow> string option" where
  "quote_map c =
     (if c = CHR 0x5C then Some [CHR 0x5C, CHR 0x5C]
      else if c = CHR 0x0A then Some [CHR 0x5C, CHR ''n'']
      else if c = CHR 0x0D then Some [CHR 0x5C, CHR ''r'']
      else if c = CHR 0x09 then Some [CHR 0x5C, CHR ''t'']
      else if c = CHR 0x1B then Some [CHR 0x5C, CHR ''e''] else None)"

definition quote_one :: "char \<Rightarrow> string" where
  "quote_one c =
     (case quote_map c of
        Some e \<Rightarrow> e
      | None \<Rightarrow> if code c < 32 \<or> code c = 127
                then [CHR 0x5C, CHR ''x'', hex_digit (code c div 16), hex_digit (code c mod 16)]
                else [c])"

definition quote_path :: "string \<Rightarrow> string" where
  "quote_path text = concat (map quote_one text)"

definition hex_val :: "char \<Rightarrow> nat" where
  "hex_val c = (if is_dec c then code c - 48 else code c - 87)"

text \<open>The reader of \<open>quote_path\<close>'s escapes, to state that no two texts print alike.\<close>

fun unquote_path :: "string \<Rightarrow> string" where
  "unquote_path [] = []"
| "unquote_path (c # s) =
     (if c \<noteq> CHR 0x5C then c # unquote_path s
      else case s of
        [] \<Rightarrow> [c]
      | k # s' \<Rightarrow>
          (if k = CHR 0x5C then CHR 0x5C # unquote_path s'
           else if k = CHR ''n'' then CHR 0x0A # unquote_path s'
           else if k = CHR ''r'' then CHR 0x0D # unquote_path s'
           else if k = CHR ''t'' then CHR 0x09 # unquote_path s'
           else if k = CHR ''e'' then CHR 0x1B # unquote_path s'
           else case s' of
               a # b # s'' \<Rightarrow> char_of (16 * hex_val a + hex_val b) # unquote_path s''
             | _ \<Rightarrow> []))"

lemma hex_val_digit: "n < 16 \<Longrightarrow> hex_val (hex_digit n) = n"
  by (auto simp: hex_val_def hex_digit_def char_class_defs code_def)

lemma hex_digit_printable: "n < 16 \<Longrightarrow> 48 \<le> code (hex_digit n) \<and> code (hex_digit n) \<le> 102"
  by (auto simp: hex_digit_def code_def)

lemma unquote_one: "unquote_path (quote_one c @ s) = c # unquote_path s"
proof (cases "quote_map c")
  case (Some e)
  then show ?thesis by (auto simp: quote_one_def quote_map_def split: if_splits)
next
  case None
  then have "c \<noteq> CHR 0x5C" by (auto simp: quote_map_def)
  moreover have "char_of (16 * (code c div 16) + code c mod 16) = c"
    by (simp add: code_def)
  moreover have "code c div 16 < 16" using code_less_256 [of c] by simp
  ultimately show ?thesis using None by (simp add: quote_one_def hex_val_digit)
qed

lemma quote_one_printable: "x \<in> set (quote_one c) \<Longrightarrow> 32 \<le> code x \<and> code x \<noteq> 127"
proof -
  assume a: "x \<in> set (quote_one c)"
  have "code c div 16 < 16" using code_less_256 [of c] by simp
  with a show ?thesis
    using hex_digit_printable [of "code c div 16"] hex_digit_printable [of "code c mod 16"]
    by (auto simp: quote_one_def quote_map_def code_def split: if_splits option.splits)
qed

lemma valid_name_of_component:
  assumes "in_lang PATH_COMPONENT u"
  shows "is_valid_name u"
  using path_component_ends [OF assms] path_component_may [OF assms]
  by (auto simp: valid_name_iff is_alnum_az_def is_alpha_az_def)

subsection \<open>Properties\<close>

text \<open>A valid container name is one plain path component: it is not empty, it is neither
  \<open>.\<close> nor \<open>..\<close>, it starts with an ASCII letter or digit and holds no slash, no NUL, no blank and
  no newline; so joining it to the containers directory names an entry of that directory.\<close>

theorem valid_name_is_path_component:
  assumes "is_valid_name n"
  shows "n \<noteq> [] \<and> n \<noteq> ''.'' \<and> n \<noteq> ''..'' \<and> is_alnum_az (hd n)
     \<and> CHR ''/'' \<notin> set n \<and> CHR 0x00 \<notin> set n \<and> (\<forall>c \<in> set n. \<not> is_space c)"
proof -
  have a: "n \<noteq> []" "is_alnum_az (hd n)"
    "\<forall>c \<in> set n. is_alnum_az c \<or> c = CHR ''_'' \<or> c = CHR ''.'' \<or> c = CHR ''-''"
    using assms by (auto simp: valid_name_iff)
  have "\<not> is_alnum_az CHR ''/''" "\<not> is_alnum_az CHR 0x00" "\<not> is_alnum_az CHR ''.''"
    by (simp_all add: char_class_defs code_def)
  moreover have "\<not> is_space c" if "is_alnum_az c \<or> c = CHR ''_'' \<or> c = CHR ''.'' \<or> c = CHR ''-''" for c
    using that by (auto simp: char_class_defs code_def)
  ultimately have 1: "\<forall>c \<in> set n. \<not> is_space c" and 2: "hd n \<noteq> CHR ''.''"
    using a(2,3) by metis+
  have "CHR ''/'' \<notin> set n" "CHR 0x00 \<notin> set n"
    using a(3) by (auto simp: char_class_defs code_def)
  moreover from 2 have "n \<noteq> ''.''" "n \<noteq> ''..''" by auto
  ultimately show ?thesis using a(1,2) 1 by simp
qed

theorem valid_name_is_path_component_witness:
  "is_valid_name ''debian-12.1'' \<and> CHR ''/'' \<notin> set ''debian-12.1''"
proof -
  have v: "is_valid_name ''debian-12.1''" by code_simp
  from valid_name_is_path_component [OF v] v show ?thesis by blast
qed

text \<open>The local alias derived from an image reference the grammar accepts is a valid container
  name and the last part of the repository path, so \<open>install\<close> never refuses a name it derived.\<close>

theorem derived_alias_is_valid_name:
  assumes "parse_reference s = Inr p"
  shows "is_valid_name (derive_alias s) \<and> suffix (derive_alias s) (repo p)"
proof -
  from parse_reference_wf [OF assms] have "in_lang REMOTE_NAME (repo p)" by (simp add: wf_reference_def)
  then have "in_lang PATH_COMPONENT (last (split_on CHR ''/'' (repo p)))"
    by (simp add: remote_name_components)
  moreover have "suffix (last (split_on CHR ''/'' u)) u" for u
    using suffix_last_join [OF split_on_not_Nil, of "CHR ''/''" u "[CHR ''/'']"] by (simp add: join_split)
  ultimately show ?thesis
    using assms by (simp add: derive_alias_def parse_image_ref_def valid_name_of_component)
qed

theorem derived_alias_is_valid_name_witness:
  "is_valid_name (derive_alias ''g.io/a'')"
proof -
  have p: "parse_reference ''g.io/a'' =
      Inr \<lparr>registry = ''g.io'', repo = ''a'', tag = ''latest'', digest = []\<rparr>" by code_simp
  from derived_alias_is_valid_name [OF p] show ?thesis by blast
qed

text \<open>\<open>dq\<close> round-trips through the shell: whatever the string, the word printed for it reads
  back as that string, with no expansion started, whether it was quoted or left bare.\<close>

theorem dq_shell_roundtrip: "sh_word (dq s) = Some s"
proof (cases "s \<noteq> [] \<and> list_all is_safe_char s")
  case True
  then obtain c t where s: "s = c # t" by (cases s) auto
  with True have "c \<noteq> CHR 0x22" by (auto simp: is_safe_char_def char_class_defs code_def)
  with True s show ?thesis by (simp add: dq_def sh_word_def)
next
  case False
  then have "dq s = CHR 0x22 # concat (map dq_char s) @ [CHR 0x22]"
    unfolding dq_def dq_escape_map by auto
  then show ?thesis by (simp add: sh_word_def sh_dquoted_dq)
qed

text \<open>\<open>quote_path\<close> prints no C0 control character and no DEL, whatever the text, and its escapes
  read back to the text, so two different names never print alike.\<close>

theorem quote_path_printable_injective:
  "list_all (\<lambda>x. 32 \<le> code x \<and> code x \<noteq> 127) (quote_path s) \<and> unquote_path (quote_path s) = s"
proof
  show "list_all (\<lambda>x. 32 \<le> code x \<and> code x \<noteq> 127) (quote_path s)"
    using quote_one_printable by (auto simp: quote_path_def list_all_iff)
  show "unquote_path (quote_path s) = s"
    by (induction s) (simp_all add: quote_path_def unquote_one)
qed

end
