(* ===== verification/Fs_Model.thy ===== *)
theory Fs_Model
  imports Prelude "HOL-Library.List_Lexorder" "HOL-Library.Char_ord"
begin

text \<open>
  The file system the descriptor-based helpers of \<open>dirfd.py\<close> work on. A table maps paths (lists of
  components from the host's root) to nodes; a file node names an inode, so two paths can share one
  (hard links), and its bytes, mode and time stand in a second table. A directory descriptor is the
  path of the directory it was opened as. Times are in nanoseconds. Permission bits are recorded and not enforced; removing an
  entry of \<open>f_stuck\<close> fails with EPERM, the way an immutable or busy entry does.
\<close>

subsection \<open>State\<close>

type_synonym path = "string list"

record fdata =
  fd_bytes :: string
  fd_mode :: nat
  fd_mtime :: int

datatype node = NDir nat int | NFile nat | NLink string int | NSpecial

record fs =
  f_ents :: "(path \<times> node) list"
  f_data :: "nat \<Rightarrow> fdata"
  f_next :: nat
  f_stuck :: "path list"
  f_umask :: nat
  f_now :: int

datatype errno = ENOENT | ENOTDIR | ELOOP | EEXIST | EISDIR | ENOTEMPTY | EINVAL | EPERM | ESTALE | EXDEV

definition node_at :: "fs \<Rightarrow> path \<Rightarrow> node option" where
  "node_at s p = dict_get (f_ents s) p"

definition put_node :: "path \<Rightarrow> node \<Rightarrow> fs \<Rightarrow> fs" where
  "put_node p n s = s\<lparr>f_ents := dict_set p n (f_ents s)\<rparr>"

definition drop_node :: "path \<Rightarrow> fs \<Rightarrow> fs" where
  "drop_node p s = s\<lparr>f_ents := dict_del p (f_ents s)\<rparr>"

fun is_dir_node :: "node \<Rightarrow> bool" where
  "is_dir_node (NDir m t) \<longleftrightarrow> True"
| "is_dir_node _ \<longleftrightarrow> False"

fun is_link_node :: "node \<Rightarrow> bool" where
  "is_link_node (NLink t m) \<longleftrightarrow> True"
| "is_link_node _ \<longleftrightarrow> False"

fun is_file_node :: "node \<Rightarrow> bool" where
  "is_file_node (NFile i) \<longleftrightarrow> True"
| "is_file_node _ \<longleftrightarrow> False"

definition is_dir :: "fs \<Rightarrow> path \<Rightarrow> bool" where
  "is_dir s p \<longleftrightarrow> (case node_at s p of Some n \<Rightarrow> is_dir_node n | None \<Rightarrow> False)"

definition plain_name :: "string \<Rightarrow> bool" where
  "plain_name n \<longleftrightarrow> n \<noteq> [] \<and> n \<noteq> ''.'' \<and> n \<noteq> ''..'' \<and> CHR ''/'' \<notin> set n"

subsection \<open>The interface of the entry table\<close>

text \<open>
  What every operation below relies on: reading after a write and after a removal. \<open>beyond r s s'\<close>
  says that a step changed entries at or below \<open>r\<close> only; it is kept by both writes and by sequences
  of them, which is all the confinement proofs need.
\<close>

locale entry_table =
  fixes look :: "'t \<Rightarrow> path \<Rightarrow> 'n option"
    and put :: "path \<Rightarrow> 'n \<Rightarrow> 't \<Rightarrow> 't"
    and drop_at :: "path \<Rightarrow> 't \<Rightarrow> 't"
  assumes look_put: "look (put p n t) q = (if q = p then Some n else look t q)"
    and look_drop: "look (drop_at p t) q = (if q = p then None else look t q)"
begin

definition beyond :: "path \<Rightarrow> 't \<Rightarrow> 't \<Rightarrow> bool" where
  "beyond r t t' \<longleftrightarrow> (\<forall>q. \<not> prefix r q \<longrightarrow> look t' q = look t q)"

lemma beyond_refl: "beyond r t t"
  by (simp add: beyond_def)

lemma beyond_trans: "beyond r t u \<Longrightarrow> beyond r u v \<Longrightarrow> beyond r t v"
  by (simp add: beyond_def)

lemma beyond_put: "prefix r p \<Longrightarrow> beyond r t (put p n t)"
  by (auto simp: beyond_def look_put)

lemma beyond_drop: "prefix r p \<Longrightarrow> beyond r t (drop_at p t)"
  by (auto simp: beyond_def look_drop)

lemma beyond_mono: "prefix r r' \<Longrightarrow> beyond r' t u \<Longrightarrow> beyond r t u"
  by (auto simp: beyond_def dest: prefix_order.trans)

lemma beyond_look: "beyond r t u \<Longrightarrow> \<not> prefix r q \<Longrightarrow> look u q = look t q"
  by (simp add: beyond_def)

lemma put_same: "look (put p n t) p = Some n"
  by (simp add: look_put)

lemma put_other: "q \<noteq> p \<Longrightarrow> look (put p n t) q = look t q"
  by (simp add: look_put)

end

lemma node_put [simp]: "node_at (put_node p n s) q = (if q = p then Some n else node_at s q)"
  by (simp add: node_at_def put_node_def)

lemma node_drop [simp]: "node_at (drop_node p s) q = (if q = p then None else node_at s q)"
  by (simp add: node_at_def drop_node_def)

interpretation ft: entry_table node_at put_node drop_node
  by unfold_locales simp_all

lemma put_frame [simp]:
  "f_data (put_node p n s) = f_data s" "f_next (put_node p n s) = f_next s"
  "f_stuck (put_node p n s) = f_stuck s" "f_umask (put_node p n s) = f_umask s" "f_now (put_node p n s) = f_now s"
  by (simp_all add: put_node_def)

lemma drop_frame [simp]:
  "f_data (drop_node p s) = f_data s" "f_next (drop_node p s) = f_next s"
  "f_stuck (drop_node p s) = f_stuck s" "f_umask (drop_node p s) = f_umask s" "f_now (drop_node p s) = f_now s"
  by (simp_all add: drop_node_def)

lemma node_update [simp]:
  "node_at (s\<lparr>f_data := d\<rparr>) p = node_at s p" "node_at (s\<lparr>f_next := i\<rparr>) p = node_at s p"
  by (simp_all add: node_at_def)

subsection \<open>System calls relative to a descriptor\<close>

definition at :: "path \<Rightarrow> string \<Rightarrow> path" where
  "at d n = (if n = ''..'' then butlast d else if n = ''.'' then d else d @ [n])"

definition opendir_at :: "fs \<Rightarrow> path \<Rightarrow> string \<Rightarrow> errno + path" where
  "opendir_at s d n =
     (case node_at s (at d n) of
        None \<Rightarrow> Inl ENOENT
      | Some (NDir m t) \<Rightarrow> Inr (at d n)
      | Some (NLink t m) \<Rightarrow> Inl ELOOP
      | Some _ \<Rightarrow> Inl ENOTDIR)"

definition lstat_at :: "fs \<Rightarrow> path \<Rightarrow> string \<Rightarrow> errno + node" where
  "lstat_at s d n = (case node_at s (at d n) of None \<Rightarrow> Inl ENOENT | Some x \<Rightarrow> Inr x)"

definition exists_at :: "fs \<Rightarrow> path \<Rightarrow> string \<Rightarrow> bool" where
  "exists_at s d n \<longleftrightarrow> (case lstat_at s d n of Inl e \<Rightarrow> False | Inr x \<Rightarrow> True)"

definition readlink_at :: "fs \<Rightarrow> path \<Rightarrow> string \<Rightarrow> errno + string" where
  "readlink_at s d n =
     (case node_at s (at d n) of
        None \<Rightarrow> Inl ENOENT
      | Some (NLink t m) \<Rightarrow> Inr t
      | Some _ \<Rightarrow> Inl EINVAL)"

text \<open>The names in a directory, sorted as \<open>sorted()\<close> does.\<close>

definition listdir_at :: "fs \<Rightarrow> path \<Rightarrow> string list" where
  "listdir_at s d =
     sort (remdups (map last (filter (\<lambda>p. p \<noteq> [] \<and> butlast p = d) (map fst (f_ents s)))))"

definition mkdir_at :: "fs \<Rightarrow> path \<Rightarrow> string \<Rightarrow> nat \<Rightarrow> errno + fs" where
  "mkdir_at s d n m =
     (if node_at s (at d n) \<noteq> None then Inl EEXIST
      else if \<not> is_dir s d then Inl ENOENT
      else if \<not> plain_name n then Inl EINVAL
      else Inr (put_node (d @ [n]) (NDir (m - and m (f_umask s)) (f_now s)) s))"

definition unlink_at :: "fs \<Rightarrow> path \<Rightarrow> string \<Rightarrow> errno + fs" where
  "unlink_at s d n =
     (case node_at s (at d n) of
        None \<Rightarrow> Inl ENOENT
      | Some (NDir m t) \<Rightarrow> Inl EISDIR
      | Some _ \<Rightarrow> if at d n \<in> set (f_stuck s) then Inl EPERM else Inr (drop_node (at d n) s))"

definition rmdir_at :: "fs \<Rightarrow> path \<Rightarrow> string \<Rightarrow> errno + fs" where
  "rmdir_at s d n =
     (case node_at s (at d n) of
        None \<Rightarrow> Inl ENOENT
      | Some (NDir m t) \<Rightarrow>
          (if n = ''.'' \<or> n = ''..'' then Inl EINVAL
           else if listdir_at s (at d n) \<noteq> [] then Inl ENOTEMPTY
           else if at d n \<in> set (f_stuck s) then Inl EPERM
           else Inr (drop_node (at d n) s))
      | Some _ \<Rightarrow> Inl ENOTDIR)"

definition symlink_at :: "fs \<Rightarrow> string \<Rightarrow> path \<Rightarrow> string \<Rightarrow> errno + fs" where
  "symlink_at s target d n =
     (if node_at s (at d n) \<noteq> None then Inl EEXIST
      else if \<not> is_dir s d then Inl ENOENT
      else if \<not> plain_name n \<or> target = [] then Inl EINVAL
      else Inr (put_node (d @ [n]) (NLink target (f_now s)) s))"

text \<open>\<open>O_CREAT | O_EXCL\<close>: a fresh inode under a free name.\<close>

definition create_excl :: "fs \<Rightarrow> path \<Rightarrow> string \<Rightarrow> nat \<Rightarrow> errno + (nat \<times> fs)" where
  "create_excl s d n m =
     (if node_at s (at d n) \<noteq> None then Inl EEXIST
      else if \<not> is_dir s d then Inl ENOENT
      else if \<not> plain_name n then Inl EINVAL
      else Inr (f_next s,
        put_node (d @ [n]) (NFile (f_next s))
          (s\<lparr>f_data := (f_data s)(f_next s :=
               \<lparr>fd_bytes = [], fd_mode = m - and m (f_umask s), fd_mtime = f_now s\<rparr>),
             f_next := Suc (f_next s)\<rparr>)))"

definition write_inode :: "nat \<Rightarrow> fdata \<Rightarrow> fs \<Rightarrow> fs" where
  "write_inode i d s = s\<lparr>f_data := (f_data s)(i := d)\<rparr>"

lemma write_inode_frame [simp]:
  "node_at (write_inode i d s) p = node_at s p" "f_next (write_inode i d s) = f_next s"
  "f_stuck (write_inode i d s) = f_stuck s" "f_ents (write_inode i d s) = f_ents s"
  "f_data (write_inode i d s) j = (if j = i then d else f_data s j)"
  by (simp_all add: write_inode_def node_at_def)

text \<open>\<open>open_regular_at\<close> for reading: the inode of a regular file.\<close>

definition open_regular_at :: "fs \<Rightarrow> path \<Rightarrow> string \<Rightarrow> errno + nat" where
  "open_regular_at s d n =
     (case node_at s (at d n) of
        None \<Rightarrow> Inl ENOENT
      | Some (NFile i) \<Rightarrow> Inr i
      | Some (NLink t m) \<Rightarrow> Inl ELOOP
      | Some _ \<Rightarrow> Inl EINVAL)"

text \<open>\<open>open_new_at\<close>: what holds the name is unlinked and the create retried once.\<close>

definition open_new_at :: "fs \<Rightarrow> path \<Rightarrow> string \<Rightarrow> nat \<Rightarrow> errno + (nat \<times> fs)" where
  "open_new_at s d n m =
     (case create_excl s d n m of
        Inr x \<Rightarrow> Inr x
      | Inl e \<Rightarrow>
          (if e = EEXIST then bindR (unlink_at s d n) (\<lambda>s'. create_excl s' d n m) else Inl e))"

text \<open>\<open>utime\<close> on a name and \<open>chmod\<close> through a descriptor, neither following a link.\<close>

definition utime_at :: "fs \<Rightarrow> path \<Rightarrow> string \<Rightarrow> int \<Rightarrow> errno + fs" where
  "utime_at s d n t =
     (case node_at s (at d n) of
        None \<Rightarrow> Inl ENOENT
      | Some (NDir m u) \<Rightarrow> Inr (put_node (at d n) (NDir m t) s)
      | Some (NLink g u) \<Rightarrow> Inr (put_node (at d n) (NLink g t) s)
      | Some (NFile i) \<Rightarrow> Inr (write_inode i ((f_data s i)\<lparr>fd_mtime := t\<rparr>) s)
      | Some NSpecial \<Rightarrow> Inr s)"

definition chmod_at :: "fs \<Rightarrow> path \<Rightarrow> string \<Rightarrow> nat \<Rightarrow> bool \<Rightarrow> bool \<times> fs" where
  "chmod_at s d n m only_dir =
     (case node_at s (at d n) of
        None \<Rightarrow> (False, s)
      | Some (NDir m0 u) \<Rightarrow> (True, put_node (at d n) (NDir m u) s)
      | Some (NLink g u) \<Rightarrow> (False, s)
      | Some (NFile i) \<Rightarrow>
          (if only_dir then (False, s) else (True, write_inode i ((f_data s i)\<lparr>fd_mode := m\<rparr>) s))
      | Some NSpecial \<Rightarrow> (\<not> only_dir, s))"

definition chmod_dir_fd :: "fs \<Rightarrow> path \<Rightarrow> nat \<Rightarrow> fs" where
  "chmod_dir_fd s d m = (case node_at s d of Some (NDir m0 u) \<Rightarrow> put_node d (NDir m u) s | _ \<Rightarrow> s)"

definition make_writable :: "fs \<Rightarrow> path \<Rightarrow> fs" where
  "make_writable s d =
     (case node_at s d of Some (NDir m0 u) \<Rightarrow> chmod_dir_fd s d (or (m0 mod 4096) 448) | _ \<Rightarrow> s)"

subsection \<open>Descending\<close>

text \<open>\<open>descend_at\<close>: each level opened without following a link, made first when asked to.\<close>

definition open_level :: "bool \<Rightarrow> fs \<Rightarrow> path \<Rightarrow> string \<Rightarrow> (errno + path) \<times> fs" where
  "open_level create s d n =
     (case opendir_at s d n of
        Inr p \<Rightarrow> (Inr p, s)
      | Inl e \<Rightarrow>
          (if e = ENOENT \<and> create then
             (case mkdir_at s d n 511 of
                Inr s' \<Rightarrow> (opendir_at s' d n, s')
              | Inl e' \<Rightarrow> (if e' = EEXIST then (opendir_at s d n, s) else (Inl e', s)))
           else (Inl e, s)))"

fun descend_at :: "bool \<Rightarrow> fs \<Rightarrow> path \<Rightarrow> string list \<Rightarrow> (errno + path) \<times> fs" where
  "descend_at create s d [] = (if is_dir s d then Inr d else Inl ENOENT, s)"
| "descend_at create s d [n] = open_level create s d n"
| "descend_at create s d (n # ns) =
     (case open_level create s d n of
        (Inr p, s') \<Rightarrow> descend_at create s' p ns
      | (Inl e, s') \<Rightarrow> (Inl e, s'))"

definition descend_mode :: "bool \<Rightarrow> nat option \<Rightarrow> fs \<Rightarrow> path \<Rightarrow> string list \<Rightarrow> (errno + path) \<times> fs" where
  "descend_mode create mo s d ns =
     (case descend_at create s d ns of
        (Inr p, s') \<Rightarrow> (Inr p, case mo of None \<Rightarrow> s' | Some m \<Rightarrow> chmod_dir_fd s' p m)
      | r \<Rightarrow> r)"

definition makedirs_at :: "nat option \<Rightarrow> fs \<Rightarrow> path \<Rightarrow> string list \<Rightarrow> path option \<times> fs" where
  "makedirs_at mo s d ns =
     (case descend_mode True mo s d ns of
        (Inr p, s') \<Rightarrow> (Some (d @ ns), s')
      | (Inl e, s') \<Rightarrow> (None, s'))"

text \<open>The same walk from a path: the root opened by name, every failure an answer of \<open>None\<close>.\<close>

definition opendir_under :: "bool \<Rightarrow> nat option \<Rightarrow> fs \<Rightarrow> path \<Rightarrow> string list \<Rightarrow> path option \<times> fs" where
  "opendir_under create mo s r ns =
     (if \<not> is_dir s r then (None, s)
      else case descend_mode create mo s r ns of
          (Inr p, s') \<Rightarrow> (Some p, s')
        | (Inl e, s') \<Rightarrow> (None, s'))"

definition makedirs_under :: "nat option \<Rightarrow> fs \<Rightarrow> path \<Rightarrow> string list \<Rightarrow> path option \<times> fs" where
  "makedirs_under mo s r ns =
     (case opendir_under True mo s r ns of
        (Some p, s') \<Rightarrow> (Some (r @ ns), s')
      | (None, s') \<Rightarrow> (None, s'))"

text \<open>\<open>os.replace\<close> of a file within one directory: a directory in the way is an error, and two names of one
  inode stay as they are.\<close>

definition replace_entry :: "fs \<Rightarrow> path \<Rightarrow> string \<Rightarrow> string \<Rightarrow> errno + fs" where
  "replace_entry s d old new =
     (case node_at s (d @ [old]) of
        None \<Rightarrow> Inl ENOENT
      | Some x \<Rightarrow>
          (case node_at s (d @ [new]) of
             Some (NDir m t) \<Rightarrow> Inl EISDIR
           | y \<Rightarrow> if y = Some x \<and> is_file_node x then Inr s else Inr (put_node (d @ [new]) x (drop_node (d @ [old]) s))))"

definition unlink_quietly :: "fs \<Rightarrow> path \<Rightarrow> string \<Rightarrow> fs" where
  "unlink_quietly s d n = (case unlink_at s d n of Inr s' \<Rightarrow> s' | Inl e \<Rightarrow> s)"

end
