(* ===== verification/Build_Parsing.thy ===== *)
theory Build_Parsing
  imports Dockerfile_Syntax Names_Quoting Py_Shlex Py_Json Fs_Model
begin

text \<open>
  The operand parsers of the build engine: \<open>helpers/build_engine/parsing.py\<close> and \<open>constants.py\<close>.
  An exception is a value of \<open>fault\<close>: \<open>build\<close> catches a \<open>BuildError\<close> and an \<open>OSError\<close> and reports
  them; the other constructors are exceptions that leave the program as a traceback.
\<close>

datatype build_reason =
    BadArg nat | BadOperands string nat shlex_error | BadChmod string nat | BadKvList shlex_error
  | EmptyWorkdir nat | ShellNotExec nat | BadHealthcheck nat | OnbuildMalformed nat
  | BeforeFrom string nat | Unsupported string nat | BadTrigger string | BadFrom nat | NoFrom
  | TargetUndefined string | TargetNotBuilt string | BadBase string | PullFailed string
  | MalformedConfig string | RunFailed nat int | FewOperands string nat | BuildKitFlag string nat
  | SourceEscapes string | SourceMissing string | FetchFailed string | BadArchive string
  | NotADirectory string | CannotWrite string | MissingLayer string

datatype fault =
    BuildError build_reason | OSError errno | SyntaxFault syntax_error
  | TypeFault | ValueFault | RuntimeFault

definition reported :: "fault \<Rightarrow> bool" where
  "reported e \<longleftrightarrow> (case e of BuildError r \<Rightarrow> True | OSError n \<Rightarrow> True | _ \<Rightarrow> False)"

subsection \<open>Values as text\<close>

text \<open>\<open>repr\<close> of a string and of a list of strings, which is what \<open>str\<close> of an exec-form value prints.\<close>

definition repr_char :: "char \<Rightarrow> char \<Rightarrow> string" where
  "repr_char q c =
     (if c = q \<or> c = CHR 0x5C then [CHR 0x5C, c]
      else if c = CHR 0x09 then [CHR 0x5C, CHR ''t'']
      else if c = CHR 0x0A then [CHR 0x5C, CHR ''n'']
      else if c = CHR 0x0D then [CHR 0x5C, CHR ''r'']
      else if code c < 32 \<or> (127 \<le> code c \<and> code c \<le> 160) \<or> code c = 173
        then [CHR 0x5C, CHR ''x'', hex_digit (code c div 16), hex_digit (code c mod 16)]
      else [c])"

definition py_repr :: "string \<Rightarrow> string" where
  "py_repr s =
     (let q = (if CHR 0x27 \<in> set s \<and> CHR 0x22 \<notin> set s then CHR 0x22 else CHR 0x27)
      in q # concat (map (repr_char q) s) @ [q])"

definition py_repr_list :: "string list \<Rightarrow> string" where
  "py_repr_list xs = ''['' @ join_with '', '' (map py_repr xs) @ '']''"

text \<open>The inner record of an \<open>ONBUILD\<close> is never printed; its text here is a placeholder.\<close>

fun value_str :: "ivalue \<Rightarrow> string" where
  "value_str (VText t) = t"
| "value_str (VArgv xs) = py_repr_list xs"
| "value_str (VInner i) = ''{}''"

text \<open>\<open>" ".join(value)\<close> for an exec-form value.\<close>

fun value_joined :: "ivalue \<Rightarrow> string" where
  "value_joined (VArgv xs) = join_with '' '' xs"
| "value_joined v = value_str v"

subsection \<open>Operands\<close>

definition split_arg :: "ivalue \<Rightarrow> string \<times> string option" where
  "split_arg v =
     (let s = strip (value_joined v) in
      if s = [] then ([], None)
      else (case partition_at CHR ''='' s of
              (k, True, t) \<Rightarrow> (strip k, Some t)
            | (k, False, t) \<Rightarrow> (s, None)))"

definition split_operands :: "instr \<Rightarrow> fault + string list" where
  "split_operands i =
     (case shlex_split (value_str (i_value i)) of
        Inr ws \<Rightarrow> Inr ws
      | Inl e \<Rightarrow> Inl (BuildError (BadOperands (i_name i) (i_lineno i) e)))"

definition MAX_FILE_MODE :: nat where
  "MAX_FILE_MODE = 4095"

fun oct_val :: "nat \<Rightarrow> string \<Rightarrow> nat" where
  "oct_val n [] = n"
| "oct_val n (c # s) = oct_val (8 * n + (code c - 48)) s"

definition parse_chmod :: "string \<Rightarrow> instr \<Rightarrow> fault + nat" where
  "parse_chmod text i =
     (if text \<noteq> [] \<and> list_all (in_range 48 55) text \<and> oct_val 0 text \<le> MAX_FILE_MODE
      then Inr (oct_val 0 text)
      else Inl (BuildError (BadChmod text (i_lineno i))))"

definition kv_pair :: "string \<Rightarrow> (string \<times> string) option" where
  "kv_pair t = (case partition_at CHR ''='' t of (k, True, v) \<Rightarrow> Some (k, v) | _ \<Rightarrow> None)"

definition parse_kv_list :: "string \<Rightarrow> fault + (string \<times> string) list" where
  "parse_kv_list value =
     (let s = strip value in
      if CHR ''='' \<notin> set s then
        (case split_first_word s of
           [k, v] \<Rightarrow> Inr [(k, v)]
         | _ \<Rightarrow> Inr [(s, [])])
      else (case shlex_split s of
              Inl e \<Rightarrow> Inl (BuildError (BadKvList e))
            | Inr tokens \<Rightarrow> Inr (List.map_filter kv_pair tokens)))"

definition to_argv :: "instr \<Rightarrow> string list \<Rightarrow> string list" where
  "to_argv i default_shell =
     (case i_value i of
        VArgv xs \<Rightarrow> (if i_exec i then xs else default_shell @ [value_str (i_value i)])
      | v \<Rightarrow> default_shell @ [value_str v])"

definition looks_like_url :: "string \<Rightarrow> bool" where
  "looks_like_url s \<longleftrightarrow> starts_with ''http://'' s \<or> starts_with ''https://'' s"

definition TAR_HEADER_BYTES :: nat where
  "TAR_HEADER_BYTES = 265"

definition is_tar_header :: "string \<Rightarrow> bool" where
  "is_tar_header head \<longleftrightarrow> TAR_HEADER_BYTES \<le> length head \<and>
     (take 6 (drop 257 head) = ''ustar'' @ [CHR 0x00]
      \<or> take 8 (drop 257 head) = ''ustar  '' @ [CHR 0x00]
      \<or> take 3 head = [CHR 0x1F, CHR 0x8B, CHR 0x08]
      \<or> take 3 head = ''BZh''
      \<or> take 6 head = CHR 0xFD # ''7zXZ'' @ [CHR 0x00])"

subsection \<open>Constants\<close>

definition PREDEFINED_ARGS :: "string list" where
  "PREDEFINED_ARGS =
     [''TARGETPLATFORM'', ''TARGETOS'', ''TARGETARCH'', ''TARGETVARIANT'',
      ''BUILDPLATFORM'', ''BUILDOS'', ''BUILDARCH'', ''BUILDVARIANT'',
      ''HTTP_PROXY'', ''HTTPS_PROXY'', ''NO_PROXY'', ''FTP_PROXY'', ''ALL_PROXY'',
      ''http_proxy'', ''https_proxy'', ''no_proxy'', ''ftp_proxy'', ''all_proxy'']"

definition EXPANDS_VARS :: "string list" where
  "EXPANDS_VARS = [''ADD'', ''ARG'', ''ENV'', ''EXPOSE'', ''FROM'', ''LABEL'', ''STOPSIGNAL'',
     ''USER'', ''VOLUME'', ''WORKDIR'', ''COPY'']"

definition PROOT_REQUIRED_INSTRUCTIONS :: "string list" where
  "PROOT_REQUIRED_INSTRUCTIONS = [''RUN'']"

definition needs_proot :: "instr list \<Rightarrow> bool" where
  "needs_proot is \<longleftrightarrow> list_ex (\<lambda>i. i_name i \<in> set PROOT_REQUIRED_INSTRUCTIONS
     \<or> (i_name i = ''ONBUILD'' \<and>
        (case i_value i of VInner j \<Rightarrow> i_name j \<in> set PROOT_REQUIRED_INSTRUCTIONS | _ \<Rightarrow> False))) is"

subsection \<open>Quoted pairs read back\<close>

definition sh_escape :: "string \<Rightarrow> string" where
  "sh_escape v = concat (map (\<lambda>c. if c = CHR 0x22 \<or> c = CHR 0x5C then [CHR 0x5C, c] else [c]) v)"

definition print_pair :: "string \<times> string \<Rightarrow> string" where
  "print_pair kv = fst kv @ [CHR ''='', CHR 0x22] @ sh_escape (snd kv) @ [CHR 0x22]"

definition kv_key :: "string \<Rightarrow> bool" where
  "kv_key k \<longleftrightarrow> k \<noteq> [] \<and> list_all (\<lambda>c. \<not> is_space c \<and> \<not> sh_quote c \<and> c \<noteq> CHR 0x5C \<and> c \<noteq> CHR ''='') k"

lemma sh_white_space: "sh_white c \<Longrightarrow> is_space c"
  by (auto simp: sh_white_def is_space_def in_range_def code_def)

lemma read_token_escaped:
  "read_token (ShQuote CHR 0x22) q tok (sh_escape v @ CHR 0x22 # s) = read_token ShWord True (tok @ v) s"
proof (induction v arbitrary: q tok)
  case (Cons c v)
  show ?case
  proof (cases "c = CHR 0x22 \<or> c = CHR 0x5C")
    case True
    with Cons show ?thesis by (auto simp: sh_escape_def)
  next
    case False
    with Cons show ?thesis by (auto simp: sh_escape_def)
  qed
qed (simp add: sh_escape_def)

lemma read_token_pair:
  assumes "kv_key k"
  shows "read_token ShBlank False [] (print_pair (k, v)) = Inr (Some (k @ CHR ''='' # v), [])"
    and "read_token ShBlank False [] (print_pair (k, v) @ CHR '' '' # s) = Inr (Some (k @ CHR ''='' # v), s)"
proof -
  have k: "\<forall>c \<in> set (k @ [CHR ''='']). \<not> sh_white c \<and> \<not> sh_quote c \<and> c \<noteq> CHR 0x5C"
    using assms sh_white_space by (auto simp: kv_key_def list_all_iff sh_white_def sh_quote_def)
  then obtain c w where w: "k @ [CHR ''=''] = c # w" by (cases "k @ [CHR ''='']") auto
  with k have c: "\<not> sh_white c" "\<not> sh_quote c" "c \<noteq> CHR 0x5C"
    and cw: "\<forall>c \<in> set w. \<not> sh_white c \<and> \<not> sh_quote c \<and> c \<noteq> CHR 0x5C" by auto
  have t: "read_token ShBlank False [] (print_pair (k, v) @ s') = read_token ShWord True (k @ CHR ''='' # v) s'" for s'
  proof -
    have e: "print_pair (k, v) @ s' = c # w @ CHR 0x22 # sh_escape v @ CHR 0x22 # s'"
      using arg_cong [OF w, of "\<lambda>x. x @ CHR 0x22 # sh_escape v @ CHR 0x22 # s'"] by (simp add: print_pair_def)
    have "read_token ShBlank False [] (print_pair (k, v) @ s')
        = read_token ShWord False [c] (w @ CHR 0x22 # sh_escape v @ CHR 0x22 # s')"
      unfolding e using c by simp
    also have "\<dots> = read_token (ShQuote CHR 0x22) False (c # w) (sh_escape v @ CHR 0x22 # s')"
      using read_token_word [OF cw, of False "[c]" "CHR 0x22 # sh_escape v @ CHR 0x22 # s'"]
      by (simp add: sh_white_def sh_quote_def)
    also have "\<dots> = read_token ShWord True (k @ CHR ''='' # v) s'"
      using read_token_escaped [of False "c # w" v s'] by (simp add: w [symmetric])
    finally show ?thesis .
  qed
  show "read_token ShBlank False [] (print_pair (k, v)) = Inr (Some (k @ CHR ''='' # v), [])"
    using t [of "[]"] by (simp add: emit_def)
  show "read_token ShBlank False [] (print_pair (k, v) @ CHR '' '' # s) = Inr (Some (k @ CHR ''='' # v), s)"
    using t [of "CHR '' '' # s"] by (simp add: sh_white_def)
qed

lemma shlex_pairs:
  "list_all (\<lambda>kv. kv_key (fst kv)) kvs \<Longrightarrow>
     shlex_split (join_with '' '' (map print_pair kvs)) = Inr (map (\<lambda>kv. fst kv @ CHR ''='' # snd kv) kvs)"
proof (induction kvs rule: induct_list012)
  case 1
  show ?case by (simp add: shlex_split_def shlex_tokens.simps emit_def)
next
  case (2 kv)
  then have "kv_key (fst kv)" by simp
  from read_token_pair(1) [OF this, of "snd kv"]
  show ?case by (simp add: shlex_split_def shlex_tokens.simps [of "print_pair kv"] shlex_tokens.simps [of "[]"] emit_def)
next
  case (3 kv kv' kvs)
  then have k: "kv_key (fst kv)" by simp
  have "shlex_split (join_with '' '' (map print_pair (kv' # kvs)))
      = Inr (map (\<lambda>kv. fst kv @ CHR ''='' # snd kv) (kv' # kvs))" using 3 by simp
  with read_token_pair(2) [OF k, of "snd kv"] show ?case
    by (simp add: shlex_split_def shlex_tokens.simps [of "print_pair kv @ CHR '' '' # join_with '' '' (print_pair kv' # map print_pair kvs)"])
qed

lemma kv_pair_key: "kv_key k \<Longrightarrow> kv_pair (k @ CHR ''='' # v) = Some (k, v)"
proof -
  assume "kv_key k"
  then have "CHR ''='' \<notin> set k" by (auto simp: kv_key_def list_all_iff)
  then show ?thesis by (simp add: kv_pair_def partition_at_append)
qed

lemma joined_ends:
  assumes "kvs \<noteq> []" and "list_all (\<lambda>kv. kv_key (fst kv)) kvs"
  shows "join_with '' '' (map print_pair kvs) \<noteq> []"
    and "\<not> is_space (hd (join_with '' '' (map print_pair kvs)))"
    and "\<not> is_space (last (join_with '' '' (map print_pair kvs)))"
    and "CHR ''='' \<in> set (join_with '' '' (map print_pair kvs))"
proof -
  have "join_with '' '' (map print_pair kvs) \<noteq> []
    \<and> \<not> is_space (hd (join_with '' '' (map print_pair kvs)))
    \<and> \<not> is_space (last (join_with '' '' (map print_pair kvs)))
    \<and> CHR ''='' \<in> set (join_with '' '' (map print_pair kvs))"
    using assms
  proof (induction kvs rule: induct_list012)
    case (2 kv)
    then show ?case by (cases "fst kv") (auto simp: print_pair_def kv_key_def is_space_def in_range_def code_def)
  next
    case (3 kv kv' kvs)
    then show ?case by (cases "fst kv") (auto simp: print_pair_def kv_key_def)
  qed simp
  then show "join_with '' '' (map print_pair kvs) \<noteq> []"
    "\<not> is_space (hd (join_with '' '' (map print_pair kvs)))"
    "\<not> is_space (last (join_with '' '' (map print_pair kvs)))"
    "CHR ''='' \<in> set (join_with '' '' (map print_pair kvs))" by blast+
qed

text \<open>An ENV or LABEL line printed with every value in double quotes parses back to exactly its
  pairs, whatever the values hold: blanks, quotes, backslashes, equal signs.\<close>

theorem kv_list_roundtrip:
  assumes "kvs \<noteq> []" and "list_all (\<lambda>kv. kv_key (fst kv)) kvs"
  shows "parse_kv_list (join_with '' '' (map print_pair kvs)) = Inr kvs"
proof -
  have s: "strip (join_with '' '' (map print_pair kvs)) = join_with '' '' (map print_pair kvs)"
    unfolding strip_def by (rule strip_id) (use joined_ends [OF assms] in auto)
  have "List.map_filter kv_pair (map (\<lambda>kv. fst kv @ CHR ''='' # snd kv) kvs) = kvs"
    using assms(2) by (induction kvs) (auto simp: List.map_filter_simps kv_pair_key)
  with shlex_pairs [OF assms(2)] joined_ends(4) [OF assms] show ?thesis
    unfolding parse_kv_list_def s Let_def by simp
qed

theorem kv_list_roundtrip_witness:
  "parse_kv_list (join_with '' '' (map print_pair [(''A'', ''x y''), (''B'', [CHR 0x22, CHR 0x5C])]))
     = Inr [(''A'', ''x y''), (''B'', [CHR 0x22, CHR 0x5C])]"
proof -
  have "list_all (\<lambda>kv. kv_key (fst kv)) [(''A'', ''x y''), (''B'', [CHR 0x22, CHR 0x5C])]" by code_simp
  from kv_list_roundtrip [OF _ this] show ?thesis by simp
qed

subsection \<open>File modes\<close>

fun oct_str :: "nat \<Rightarrow> nat \<Rightarrow> string" where
  "oct_str 0 n = []"
| "oct_str (Suc k) n = oct_str k (n div 8) @ [char_of (48 + n mod 8)]"

lemma oct_val_append: "oct_val n (s @ [c]) = 8 * oct_val n s + (code c - 48)"
  by (induction n s rule: oct_val.induct) simp_all

lemma oct_digit: "d < 8 \<Longrightarrow> code (char_of (48 + d)) = 48 + d"
  by (simp add: code_def)

lemma oct_val_str: "n < 8 ^ k \<Longrightarrow> oct_val 0 (oct_str k n) = n"
proof (induction k arbitrary: n)
  case (Suc k)
  then have "n div 8 < 8 ^ k" by (simp add: less_mult_imp_div_less mult.commute)
  with Suc show ?case by (simp add: oct_val_append oct_digit)
qed simp

lemma oct_str_digits: "list_all (in_range 48 55) (oct_str k n)"
proof (induction k arbitrary: n)
  case (Suc k)
  have "n mod 8 < 8" by simp
  then have "in_range 48 55 (char_of (48 + n mod 8))" unfolding in_range_def by (simp only: oct_digit) simp
  with Suc show ?case by simp
qed simp

text \<open>parse_chmod answers modes between 0 and 07777 only, however long the digits are, and every
  such mode has a four-digit octal spelling it reads back.\<close>

theorem chmod_bounds:
  "(case parse_chmod text i of Inr m \<Rightarrow> m < 4096 | Inl e \<Rightarrow> e = BuildError (BadChmod text (i_lineno i)))
   \<and> (mode < 4096 \<longrightarrow> parse_chmod (oct_str 4 mode) i = Inr mode)"
proof
  show "case parse_chmod text i of Inr m \<Rightarrow> m < 4096 | Inl e \<Rightarrow> e = BuildError (BadChmod text (i_lineno i))"
  proof (cases "text \<noteq> [] \<and> list_all (in_range 48 55) text \<and> oct_val 0 text \<le> MAX_FILE_MODE")
    case True
    then have "oct_val 0 text < 4096" unfolding MAX_FILE_MODE_def by linarith
    then show ?thesis unfolding parse_chmod_def if_P [OF True] by simp
  next
    case False
    show ?thesis unfolding parse_chmod_def if_not_P [OF False] by simp
  qed
  have "oct_str (Suc 3) mode \<noteq> []" by (simp only: oct_str.simps) simp
  then have ne: "oct_str 4 mode \<noteq> []" by simp
  show "mode < 4096 \<longrightarrow> parse_chmod (oct_str 4 mode) i = Inr mode"
  proof
    assume m: "mode < 4096"
    then have "oct_val 0 (oct_str 4 mode) = mode" by (intro oct_val_str) simp
    with m oct_str_digits [of 4 mode] ne show "parse_chmod (oct_str 4 mode) i = Inr mode"
      by (simp only: parse_chmod_def MAX_FILE_MODE_def) simp
  qed
qed

theorem chmod_bounds_witness:
  "parse_chmod ''0755'' (Instr ''COPY'' [] (VText []) False [] 1 []) = Inr 493"
proof -
  have "oct_str 4 493 = ''0755''" by code_simp
  with chmod_bounds [of "[]" _ 493] show ?thesis by simp
qed

end
