(* ===== verification/Build_Config.thy ===== *)
theory Build_Config
  imports Build_Parsing
begin

text \<open>
  Adopting the config of a pulled base image: \<open>_adopt_image_config\<close> of
  \<open>helpers/build_engine/engine.py\<close>, over JSON objects as lists of their items. The lemmas show the
  shape every accepted config has, which is what the instruction handlers rely on.
\<close>

type_synonym jdict = "(string \<times> json) list"

text \<open>\<open>d.get(k)\<close>, with a JSON null counted as absent.\<close>

definition jget :: "jdict \<Rightarrow> string \<Rightarrow> json option" where
  "jget d k = (case dict_get d k of Some JNull \<Rightarrow> None | r \<Rightarrow> r)"

definition malformed :: "string \<Rightarrow> fault + 'a" where
  "malformed what = Inl (BuildError (MalformedConfig what))"

definition cfg_object :: "json \<Rightarrow> string \<Rightarrow> fault + jdict" where
  "cfg_object v what = (case v of JObj d \<Rightarrow> Inr d | _ \<Rightarrow> malformed what)"

fun is_jstr :: "json \<Rightarrow> bool" where
  "is_jstr (JStr s) \<longleftrightarrow> True"
| "is_jstr _ \<longleftrightarrow> False"

fun jstr :: "json \<Rightarrow> string" where
  "jstr (JStr s) = s"
| "jstr _ = []"

definition cfg_str_list :: "json \<Rightarrow> string \<Rightarrow> fault + json list" where
  "cfg_str_list v what =
     (case v of JArr xs \<Rightarrow> (if list_all is_jstr xs then Inr xs else malformed what) | _ \<Rightarrow> malformed what)"

text \<open>A field handled by \<open>f\<close>, or removed when it is absent or null.\<close>

definition on_field :: "string \<Rightarrow> (json \<Rightarrow> fault + json) \<Rightarrow> jdict \<Rightarrow> fault + jdict" where
  "on_field k f d =
     (case jget d k of
        None \<Rightarrow> Inr (dict_del k d)
      | Some v \<Rightarrow> bindR (f v) (\<lambda>w. Inr (dict_set k w d)))"

definition str_list_field :: "string \<Rightarrow> json \<Rightarrow> fault + json" where
  "str_list_field what v = bindR (cfg_str_list v what) (\<lambda>xs. Inr v)"

definition list_field :: "string \<Rightarrow> json \<Rightarrow> fault + json" where
  "list_field what v = (case v of JArr xs \<Rightarrow> Inr v | _ \<Rightarrow> malformed what)"

definition str_field :: "string \<Rightarrow> json \<Rightarrow> fault + json" where
  "str_field what v = (if is_jstr v then Inr v else malformed what)"

definition names_field :: "string \<Rightarrow> json \<Rightarrow> fault + json" where
  "names_field what v = bindR (cfg_object v what) (\<lambda>d. Inr (JObj (map (\<lambda>(k, _). (k, JObj [])) d)))"

definition labels_field :: "json \<Rightarrow> fault + json" where
  "labels_field v =
     bindR (cfg_object v ''config.Labels'') (\<lambda>d.
       if list_all (\<lambda>(k, x). x = JNull \<or> is_jstr x) d
       then Inr (JObj (map (\<lambda>(k, x). (k, if x = JNull then JStr [] else x)) d))
       else malformed ''config.Labels'')"

definition kept_env :: "string \<Rightarrow> bool" where
  "kept_env e \<longleftrightarrow>
     (case partition_at CHR ''='' e of
        (k, found, v) \<Rightarrow> \<not> (found \<and> (is_host_exec_var k \<or> \<not> is_exportable k v)))"

definition env_field :: "json \<Rightarrow> fault + json" where
  "env_field v = bindR (cfg_str_list v ''config.Env'') (\<lambda>xs. Inr (JArr (filter (\<lambda>x. kept_env (jstr x)) xs)))"

definition rootfs_field :: "json \<Rightarrow> fault + json" where
  "rootfs_field v =
     bindR (cfg_object v ''rootfs'') (\<lambda>d.
       bindR (on_field ''diff_ids'' (str_list_field ''rootfs.diff_ids'') d) (\<lambda>d'. Inr (JObj d')))"

definition adopt_config :: "jdict \<Rightarrow> fault + jdict" where
  "adopt_config d =
     bindR (on_field ''Cmd'' (str_list_field ''config.Cmd'') d) (\<lambda>d.
     bindR (on_field ''Entrypoint'' (str_list_field ''config.Entrypoint'') d) (\<lambda>d.
     bindR (on_field ''OnBuild'' (str_list_field ''config.OnBuild'') d) (\<lambda>d.
     bindR (on_field ''Shell'' (str_list_field ''config.Shell'') d) (\<lambda>d.
     bindR (on_field ''User'' (str_field ''config.User'') d) (\<lambda>d.
     bindR (on_field ''WorkingDir'' (str_field ''config.WorkingDir'') d) (\<lambda>d.
     bindR (on_field ''ExposedPorts'' (names_field ''config.ExposedPorts'') d) (\<lambda>d.
     bindR (on_field ''Volumes'' (names_field ''config.Volumes'') d) (\<lambda>d.
     bindR (on_field ''Labels'' labels_field d) (\<lambda>d.
     on_field ''Env'' env_field d)))))))))"

definition adopt_image_config :: "json \<Rightarrow> fault + jdict" where
  "adopt_image_config v =
     bindR (cfg_object v ''the document'') (\<lambda>doc.
     bindR (on_field ''history'' (list_field ''history'') doc) (\<lambda>doc.
     bindR (on_field ''rootfs'' rootfs_field doc) (\<lambda>doc.
     (case jget doc ''config'' of
        None \<Rightarrow> Inr (dict_set ''config'' (JObj []) doc)
      | Some c \<Rightarrow>
          bindR (cfg_object c ''config'') (\<lambda>d.
          bindR (adopt_config d) (\<lambda>d'. Inr (dict_set ''config'' (JObj d') doc)))))))"

subsection \<open>Shapes\<close>

definition field_is :: "string \<Rightarrow> (json \<Rightarrow> bool) \<Rightarrow> jdict \<Rightarrow> bool" where
  "field_is k P d \<longleftrightarrow> (case dict_get d k of None \<Rightarrow> True | Some v \<Rightarrow> P v)"

fun is_str_list :: "json \<Rightarrow> bool" where
  "is_str_list (JArr xs) \<longleftrightarrow> list_all is_jstr xs"
| "is_str_list _ \<longleftrightarrow> False"

fun is_jarr :: "json \<Rightarrow> bool" where
  "is_jarr (JArr xs) \<longleftrightarrow> True"
| "is_jarr _ \<longleftrightarrow> False"

fun is_name_map :: "json \<Rightarrow> bool" where
  "is_name_map (JObj d) \<longleftrightarrow> list_all (\<lambda>(k, v). v = JObj []) d"
| "is_name_map _ \<longleftrightarrow> False"

fun is_str_map :: "json \<Rightarrow> bool" where
  "is_str_map (JObj d) \<longleftrightarrow> list_all (\<lambda>(k, v). is_jstr v) d"
| "is_str_map _ \<longleftrightarrow> False"

definition oci_config :: "jdict \<Rightarrow> bool" where
  "oci_config d \<longleftrightarrow>
     list_all (\<lambda>k. field_is k is_str_list d) [''Cmd'', ''Entrypoint'', ''OnBuild'', ''Shell'', ''Env'']
     \<and> list_all (\<lambda>k. field_is k is_jstr d) [''User'', ''WorkingDir'']
     \<and> list_all (\<lambda>k. field_is k is_name_map d) [''ExposedPorts'', ''Volumes'']
     \<and> field_is ''Labels'' is_str_map d"

fun is_env_clean :: "json \<Rightarrow> bool" where
  "is_env_clean (JArr xs) \<longleftrightarrow> list_all (\<lambda>x. kept_env (jstr x)) xs"
| "is_env_clean _ \<longleftrightarrow> False"

fun is_config :: "json \<Rightarrow> bool" where
  "is_config (JObj d) \<longleftrightarrow> oci_config d"
| "is_config _ \<longleftrightarrow> False"

fun is_rootfs :: "json \<Rightarrow> bool" where
  "is_rootfs (JObj d) \<longleftrightarrow> field_is ''diff_ids'' is_str_list d"
| "is_rootfs _ \<longleftrightarrow> False"

definition oci_doc :: "jdict \<Rightarrow> bool" where
  "oci_doc doc \<longleftrightarrow> field_is ''history'' is_jarr doc \<and> field_is ''rootfs'' is_rootfs doc
     \<and> (\<exists>c. dict_get doc ''config'' = Some c \<and> is_config c)"

subsection \<open>What adoption leaves\<close>

lemma dict_set_same: "dict_get d k = Some v \<Longrightarrow> dict_set k v d = d"
  by (induction k v d rule: dict_set.induct) (auto simp: dict_get_def split: if_splits)

lemma dict_del_none: "dict_get d k = None \<Longrightarrow> dict_del k d = d"
  by (force simp: dict_get_None_iff dict_del_def filter_id_conv)

lemma field_is_set [simp]: "field_is j P (dict_set k v d) = (if j = k then P v else field_is j P d)"
  by (simp add: field_is_def)

lemma field_is_del [simp]: "field_is j P (dict_del k d) = (j = k \<or> field_is j P d)"
  by (auto simp: field_is_def)

lemma on_field_keeps: "on_field k f d = Inr e \<Longrightarrow> j \<noteq> k \<Longrightarrow> field_is j P e = field_is j P d"
  by (auto simp: on_field_def split: option.splits)

lemma on_field_keeps_get: "on_field k f d = Inr e \<Longrightarrow> j \<noteq> k \<Longrightarrow> dict_get e j = dict_get d j"
  by (auto simp: on_field_def split: option.splits)

lemma on_field_is: "on_field k f d = Inr e \<Longrightarrow> (\<And>v w. f v = Inr w \<Longrightarrow> P w) \<Longrightarrow> field_is k P e"
  by (auto simp: on_field_def split: option.splits)

lemma on_field_fix:
  assumes "field_is k P d" and "\<And>v. P v \<Longrightarrow> v \<noteq> JNull \<and> f v = Inr v"
  shows "on_field k f d = Inr d"
proof (cases "dict_get d k")
  case None
  then show ?thesis by (simp add: on_field_def jget_def dict_del_none)
next
  case (Some v)
  with assms have "v \<noteq> JNull" "f v = Inr v" by (simp_all add: field_is_def)
  with Some show ?thesis by (cases v) (simp_all add: on_field_def jget_def dict_set_same)
qed

lemma str_list_field_ok: "str_list_field what v = Inr w \<Longrightarrow> is_str_list w"
  by (cases v) (auto simp: str_list_field_def cfg_str_list_def malformed_def split: if_splits)

lemma str_list_field_fix: "is_str_list v \<Longrightarrow> v \<noteq> JNull \<and> str_list_field what v = Inr v"
  by (cases v) (auto simp: str_list_field_def cfg_str_list_def)

lemma list_field_ok: "list_field what v = Inr w \<Longrightarrow> is_jarr w"
  by (cases v) (auto simp: list_field_def malformed_def)

lemma list_field_fix: "is_jarr v \<Longrightarrow> v \<noteq> JNull \<and> list_field what v = Inr v"
  by (cases v) (auto simp: list_field_def)

lemma str_field_ok: "str_field what v = Inr w \<Longrightarrow> is_jstr w"
  by (auto simp: str_field_def malformed_def split: if_splits)

lemma str_field_fix: "is_jstr v \<Longrightarrow> v \<noteq> JNull \<and> str_field what v = Inr v"
  by (cases v) (auto simp: str_field_def)

lemma names_field_ok: "names_field what v = Inr w \<Longrightarrow> is_name_map w"
  by (cases v) (auto simp: names_field_def cfg_object_def malformed_def list_all_iff)

lemma names_field_fix: "is_name_map v \<Longrightarrow> v \<noteq> JNull \<and> names_field what v = Inr v"
  by (cases v) (auto simp: names_field_def cfg_object_def list_all_iff intro!: map_idI)

lemma labels_field_ok: "labels_field v = Inr w \<Longrightarrow> is_str_map w"
  by (cases v) (fastforce simp: labels_field_def cfg_object_def malformed_def list_all_iff split: if_splits)+

lemma labels_field_fix: "is_str_map v \<Longrightarrow> v \<noteq> JNull \<and> labels_field v = Inr v"
  by (cases v) (fastforce simp: labels_field_def cfg_object_def list_all_iff intro!: map_idI)+

definition is_clean_list :: "json \<Rightarrow> bool" where
  "is_clean_list v \<longleftrightarrow> is_str_list v \<and> is_env_clean v"

lemma env_field_ok: "env_field v = Inr w \<Longrightarrow> is_clean_list w"
  by (cases v) (auto simp: env_field_def cfg_str_list_def malformed_def is_clean_list_def list_all_iff split: if_splits)

lemma env_field_fix: "is_clean_list v \<Longrightarrow> v \<noteq> JNull \<and> env_field v = Inr v"
  by (cases v) (auto simp: env_field_def cfg_str_list_def is_clean_list_def list_all_iff filter_id_conv)

lemma rootfs_field_ok: "rootfs_field v = Inr w \<Longrightarrow> is_rootfs w"
  by (cases v) (auto simp: rootfs_field_def cfg_object_def malformed_def
      elim!: on_field_is dest: str_list_field_ok)

lemma rootfs_field_fix: "is_rootfs v \<Longrightarrow> v \<noteq> JNull \<and> rootfs_field v = Inr v"
proof (cases v)
  case (JObj d)
  assume "is_rootfs v"
  with JObj have "on_field ''diff_ids'' (str_list_field ''rootfs.diff_ids'') d = Inr d"
    by (intro on_field_fix [where P = is_str_list] str_list_field_fix) simp_all
  with JObj show ?thesis by (simp add: rootfs_field_def cfg_object_def)
qed simp_all

text \<open>What adoption promises of the config: the shape, and an \<open>Env\<close> that names nothing of the host side.\<close>

definition clean_config :: "jdict \<Rightarrow> bool" where
  "clean_config d \<longleftrightarrow> oci_config d \<and> field_is ''Env'' is_clean_list d"

definition clean_doc :: "jdict \<Rightarrow> bool" where
  "clean_doc doc \<longleftrightarrow> field_is ''history'' is_jarr doc \<and> field_is ''rootfs'' is_rootfs doc
     \<and> (case dict_get doc ''config'' of Some (JObj d) \<Rightarrow> clean_config d | _ \<Rightarrow> False)"

lemmas field_oks = str_list_field_ok str_field_ok names_field_ok labels_field_ok env_field_ok

lemma adopt_config_clean: "adopt_config d = Inr e \<Longrightarrow> clean_config e"
proof -
  assume "adopt_config d = Inr e"
  then obtain d1 d2 d3 d4 d5 d6 d7 d8 d9 where s:
    "on_field ''Cmd'' (str_list_field ''config.Cmd'') d = Inr d1"
    "on_field ''Entrypoint'' (str_list_field ''config.Entrypoint'') d1 = Inr d2"
    "on_field ''OnBuild'' (str_list_field ''config.OnBuild'') d2 = Inr d3"
    "on_field ''Shell'' (str_list_field ''config.Shell'') d3 = Inr d4"
    "on_field ''User'' (str_field ''config.User'') d4 = Inr d5"
    "on_field ''WorkingDir'' (str_field ''config.WorkingDir'') d5 = Inr d6"
    "on_field ''ExposedPorts'' (names_field ''config.ExposedPorts'') d6 = Inr d7"
    "on_field ''Volumes'' (names_field ''config.Volumes'') d7 = Inr d8"
    "on_field ''Labels'' labels_field d8 = Inr d9" "on_field ''Env'' env_field d9 = Inr e"
    by (auto simp: adopt_config_def)
  note fields = on_field_is [OF s(1), of is_str_list] on_field_is [OF s(2), of is_str_list]
    on_field_is [OF s(3), of is_str_list] on_field_is [OF s(4), of is_str_list]
    on_field_is [OF s(5), of is_jstr] on_field_is [OF s(6), of is_jstr]
    on_field_is [OF s(7), of is_name_map] on_field_is [OF s(8), of is_name_map]
    on_field_is [OF s(9), of is_str_map] on_field_is [OF s(10), of is_clean_list]
  have "field_is ''Env'' is_str_list e"
    using fields(10) [OF env_field_ok] by (auto simp: field_is_def is_clean_list_def split: option.splits)
  then show ?thesis
    using fields by (simp add: clean_config_def oci_config_def field_oks s [THEN on_field_keeps])
qed

lemma adopt_config_fix: "clean_config d \<Longrightarrow> adopt_config d = Inr d"
proof -
  assume c: "clean_config d"
  have "on_field ''Cmd'' (str_list_field ''config.Cmd'') d = Inr d"
    "on_field ''Entrypoint'' (str_list_field ''config.Entrypoint'') d = Inr d"
    "on_field ''OnBuild'' (str_list_field ''config.OnBuild'') d = Inr d"
    "on_field ''Shell'' (str_list_field ''config.Shell'') d = Inr d"
    using c by (auto simp: clean_config_def oci_config_def
        intro!: on_field_fix [where P = is_str_list] str_list_field_fix)
  moreover have "on_field ''User'' (str_field ''config.User'') d = Inr d"
    "on_field ''WorkingDir'' (str_field ''config.WorkingDir'') d = Inr d"
    using c by (auto simp: clean_config_def oci_config_def intro!: on_field_fix [where P = is_jstr] str_field_fix)
  moreover have "on_field ''ExposedPorts'' (names_field ''config.ExposedPorts'') d = Inr d"
    "on_field ''Volumes'' (names_field ''config.Volumes'') d = Inr d"
    using c by (auto simp: clean_config_def oci_config_def
        intro!: on_field_fix [where P = is_name_map] names_field_fix)
  moreover have "on_field ''Labels'' labels_field d = Inr d"
    using c by (auto simp: clean_config_def oci_config_def
        intro!: on_field_fix [where P = is_str_map] labels_field_fix)
  moreover have "on_field ''Env'' env_field d = Inr d"
    using c by (auto simp: clean_config_def intro!: on_field_fix [where P = is_clean_list] env_field_fix)
  ultimately show ?thesis by (simp add: adopt_config_def)
qed

lemma adopted_clean:
  assumes "adopt_image_config v = Inr doc"
  shows "clean_doc doc"
proof -
  from assms obtain d0 d1 d2 where s: "cfg_object v ''the document'' = Inr d0"
    "on_field ''history'' (list_field ''history'') d0 = Inr d1"
    "on_field ''rootfs'' rootfs_field d1 = Inr d2"
    and c: "(case jget d2 ''config'' of None \<Rightarrow> Inr (dict_set ''config'' (JObj []) d2)
        | Some c \<Rightarrow> bindR (cfg_object c ''config'') (\<lambda>d. bindR (adopt_config d) (\<lambda>d'. Inr (dict_set ''config'' (JObj d') d2))))
       = Inr doc" by (auto simp: adopt_image_config_def)
  have "field_is ''history'' is_jarr d1" by (rule on_field_is [OF s(2) list_field_ok])
  then have h: "field_is ''history'' is_jarr d2" by (simp add: on_field_keeps [OF s(3)])
  have r: "field_is ''rootfs'' is_rootfs d2" by (rule on_field_is [OF s(3) rootfs_field_ok])
  have "clean_config []" by (simp add: clean_config_def oci_config_def field_is_def)
  with c h r adopt_config_clean show "clean_doc doc"
    by (auto simp: clean_doc_def split: option.splits)
qed

text \<open>The documents adoption can answer are exactly the well-shaped ones with a clean Env: every
  field has the type the handlers read it as, no null stands in a field, no Env entry names a variable of
  the dynamic linker or of proot, and adopting such a document again changes nothing.\<close>

theorem adopted_documents:
  "(\<exists>v. adopt_image_config v = Inr doc) \<longleftrightarrow> clean_doc doc"
proof
  assume "\<exists>v. adopt_image_config v = Inr doc"
  then show "clean_doc doc" using adopted_clean by blast
next
  assume c: "clean_doc doc"
  then obtain d where d: "dict_get doc ''config'' = Some (JObj d)" "clean_config d"
    by (auto simp: clean_doc_def split: option.splits json.splits)
  have "on_field ''history'' (list_field ''history'') doc = Inr doc"
    using c by (intro on_field_fix [where P = is_jarr] list_field_fix) (simp add: clean_doc_def)
  moreover have "on_field ''rootfs'' rootfs_field doc = Inr doc"
    using c by (intro on_field_fix [where P = is_rootfs] rootfs_field_fix) (simp add: clean_doc_def)
  ultimately have "adopt_image_config (JObj doc) = Inr doc"
    using d adopt_config_fix [OF d(2)]
    by (simp add: adopt_image_config_def cfg_object_def jget_def dict_set_same)
  then show "\<exists>v. adopt_image_config v = Inr doc" ..
qed

end
