(* ===== verification/Posix_Path.thy ===== *)
theory Posix_Path
  imports Fs_Model
begin

text \<open>
  \<open>os.path.join\<close> and \<open>os.path.normpath\<close> of the POSIX path module, as the build engine uses them, and
  the facts about normalised absolute paths the handlers rest on.
\<close>

definition py_join :: "string \<Rightarrow> string \<Rightarrow> string" where
  "py_join a b =
     (if starts_with ''/'' b then b
      else if a = [] \<or> ends_with ''/'' a then a @ b
      else a @ ''/'' @ b)"

text \<open>The component stack of \<open>normpath\<close>; \<open>rooted\<close> is whether the path starts with a slash.\<close>

fun norm_parts :: "bool \<Rightarrow> string list \<Rightarrow> string list \<Rightarrow> string list" where
  "norm_parts rooted acc [] = acc"
| "norm_parts rooted acc (c # cs) =
     (if c = [] \<or> c = ''.'' then norm_parts rooted acc cs
      else if c \<noteq> ''..'' \<or> (\<not> rooted \<and> acc = []) \<or> (acc \<noteq> [] \<and> last acc = ''..'')
        then norm_parts rooted (acc @ [c]) cs
      else norm_parts rooted (butlast acc) cs)"

definition lead_slashes :: "string \<Rightarrow> string" where
  "lead_slashes p =
     (if \<not> starts_with ''/'' p then []
      else if starts_with ''//'' p \<and> \<not> starts_with ''///'' p then ''//'' else ''/'')"

definition py_normpath :: "string \<Rightarrow> string" where
  "py_normpath p =
     (if p = [] then ''.''
      else let r = lead_slashes p @ join_with ''/'' (norm_parts (starts_with ''/'' p) [] (split_on CHR ''/'' p))
           in if r = [] then ''.'' else r)"

lemma norm_parts_rooted:
  "list_all plain_name acc \<Longrightarrow> list_all (\<lambda>c. CHR ''/'' \<notin> set c) cs \<Longrightarrow> list_all plain_name (norm_parts True acc cs)"
proof (induction "True" acc cs rule: norm_parts.induct)
  case (2 acc c cs)
  have bl: "list_all plain_name (butlast acc)" using "2.prems"(1) by (auto simp: list_all_iff dest: in_set_butlastD)
  have l: "acc \<noteq> [] \<Longrightarrow> last acc \<noteq> ''..''" using "2.prems"(1) by (auto simp: list_all_iff plain_name_def)
  show ?case
  proof (cases "c = [] \<or> c = ''.'' \<or> c = ''..''")
    case True
    with 2 bl l show ?thesis by auto
  next
    case False
    with "2.prems" have "list_all plain_name (acc @ [c])" by (simp add: plain_name_def)
    with "2.hyps"(2) False "2.prems"(2) show ?thesis by simp
  qed
qed simp

text \<open>A normal absolute path: one or two slashes and plain components.\<close>

definition normal_abs :: "string \<Rightarrow> bool" where
  "normal_abs p \<longleftrightarrow> (\<exists>ps. list_all plain_name ps \<and> (p = ''/'' @ join_with ''/'' ps \<or> p = ''//'' @ join_with ''/'' ps))"

lemma normpath_abs: "starts_with ''/'' p \<Longrightarrow> normal_abs (py_normpath p)"
proof -
  assume s: "starts_with ''/'' p"
  let ?ps = "norm_parts True [] (split_on CHR ''/'' p)"
  have "list_all (\<lambda>c. CHR ''/'' \<notin> set c) (split_on CHR ''/'' p)"
    by (auto simp: list_all_iff dest: split_on_no_sep)
  then have "list_all plain_name ?ps" by (intro norm_parts_rooted) simp_all
  moreover have "py_normpath p = lead_slashes p @ join_with ''/'' ?ps" "lead_slashes p \<in> {''/'', ''//''}"
    using s by (auto simp: py_normpath_def lead_slashes_def Let_def starts_with_def)
  ultimately show ?thesis by (auto simp: normal_abs_def)
qed

lemma join_abs: "starts_with ''/'' a \<Longrightarrow> starts_with ''/'' (py_join a b)"
  by (auto simp: py_join_def starts_with_prefix)

text \<open>\<open>path.strip("/").split("/")\<close> of a normal absolute path gives its components, or one empty one.\<close>

definition path_parts :: "string \<Rightarrow> string list" where
  "path_parts p = split_on CHR ''/'' (strip_by (\<lambda>c. c = CHR ''/'') p)"

lemma join_plain_ends:
  assumes "list_all plain_name ps" and "ps \<noteq> []"
  shows "join_with ''/'' ps \<noteq> []" and "hd (join_with ''/'' ps) \<noteq> CHR ''/''" and "last (join_with ''/'' ps) \<noteq> CHR ''/''"
proof -
  have "join_with ''/'' ps \<noteq> [] \<and> hd (join_with ''/'' ps) \<noteq> CHR ''/'' \<and> last (join_with ''/'' ps) \<noteq> CHR ''/''"
    using assms
  proof (induction ps rule: induct_list012)
    case (2 p)
    then have "p \<noteq> []" "CHR ''/'' \<notin> set p" by (simp_all add: plain_name_def)
    then show ?case using hd_in_set last_in_set by (metis join_with.simps(2))
  next
    case (3 p q ps)
    then have "p \<noteq> []" "CHR ''/'' \<notin> set p" by (simp_all add: plain_name_def)
    then have "hd p \<noteq> CHR ''/''" "p \<noteq> []" using hd_in_set by metis+
    with 3 show ?case by simp
  qed simp
  then show "join_with ''/'' ps \<noteq> []" "hd (join_with ''/'' ps) \<noteq> CHR ''/''"
    "last (join_with ''/'' ps) \<noteq> CHR ''/''" by blast+
qed

lemma strip_slashes:
  assumes "list_all plain_name ps" and "list_all (\<lambda>c. c = CHR ''/'') sl"
  shows "strip_by (\<lambda>c. c = CHR ''/'') (sl @ join_with ''/'' ps) = join_with ''/'' ps"
proof (cases "ps = []")
  case True
  have "dropWhile (\<lambda>c. c = CHR ''/'') sl = []" using assms(2) by (induction sl) auto
  then have "strip_by (\<lambda>c. c = CHR ''/'') sl = []" unfolding strip_by_def lstrip_by_def by (simp only: rstrip_by_def) simp
  with True show ?thesis by simp
next
  case False
  have d: "dropWhile (\<lambda>c. c = CHR ''/'') (sl @ t) = dropWhile (\<lambda>c. c = CHR ''/'') t" for t
    using assms(2) by (induction sl) auto
  have "strip_by (\<lambda>c. c = CHR ''/'') (sl @ join_with ''/'' ps) = strip_by (\<lambda>c. c = CHR ''/'') (join_with ''/'' ps)"
    by (simp add: strip_by_def lstrip_by_def d)
  also have "\<dots> = join_with ''/'' ps" using join_plain_ends [OF assms(1) False] by (intro strip_id) simp_all
  finally show ?thesis .
qed

lemma path_parts_abs:
  assumes "normal_abs p"
  shows "path_parts p = [[]] \<or> list_all plain_name (path_parts p)"
proof -
  obtain ps where ps: "list_all plain_name ps" "p = ''/'' @ join_with ''/'' ps \<or> p = ''//'' @ join_with ''/'' ps"
    using assms by (auto simp: normal_abs_def)
  then have e: "strip_by (\<lambda>c. c = CHR ''/'') p = join_with ''/'' ps"
    using strip_slashes [OF ps(1), of "''/''"] strip_slashes [OF ps(1), of "''//''"] by auto
  show ?thesis
  proof (cases "ps = []")
    case True
    with e show ?thesis by (simp add: path_parts_def)
  next
    case False
    have "split_on CHR ''/'' (join_with ''/'' ps) = ps"
      using ps(1) False by (intro split_join) (auto simp: list_all_iff plain_name_def)
    with e ps(1) show ?thesis by (simp add: path_parts_def)
  qed
qed

end
