(* ===== verification/Fs_Steps.thy ===== *)
theory Fs_Steps
  imports Fs_Model
begin

text \<open>
  Well-formed file systems, and what one step may do. \<open>safe_step r s s'\<close>: nothing outside the
  directory \<open>r\<close> changes its entry, no byte of an inode that existed before changes, and a
  well-formed system stays one. Every system call relative to a descriptor at or below \<open>r\<close> is such
  a step, and sequences of them are.
\<close>

fun inode_ok :: "fs \<Rightarrow> node \<Rightarrow> bool" where
  "inode_ok s (NFile i) \<longleftrightarrow> i < f_next s"
| "inode_ok s _ \<longleftrightarrow> True"

lemma inode_ok_next: "f_next t = f_next s \<Longrightarrow> inode_ok t n = inode_ok s n"
  by (cases n) simp_all

definition wf_entry :: "fs \<Rightarrow> path \<times> node \<Rightarrow> bool" where
  "wf_entry s e \<longleftrightarrow>
     (if fst e = [] then is_dir_node (snd e) else plain_name (last (fst e)) \<and> is_dir s (butlast (fst e)))
     \<and> inode_ok s (snd e)"

definition wf_fs :: "fs \<Rightarrow> bool" where
  "wf_fs s \<longleftrightarrow> is_dir s [] \<and> distinct (map fst (f_ents s)) \<and> list_all (wf_entry s) (f_ents s)"

lemma node_at_iff:
  "distinct (map fst (f_ents s)) \<Longrightarrow> node_at s p = Some n \<longleftrightarrow> (p, n) \<in> set (f_ents s)"
  by (simp add: node_at_def dict_get_def)

lemma wf_fs_iff:
  "wf_fs s \<longleftrightarrow> is_dir s [] \<and> distinct (map fst (f_ents s))
     \<and> (\<forall>p n. node_at s p = Some n \<longrightarrow> wf_entry s (p, n))"
  by (auto simp: wf_fs_def list_all_iff node_at_iff)

lemma wf_fsI:
  assumes "is_dir s []" and "distinct (map fst (f_ents s))"
    and "\<And>p n. node_at s p = Some n \<Longrightarrow> wf_entry s (p, n)"
  shows "wf_fs s"
  using assms wf_fs_iff by blast

lemma wf_fsD:
  assumes "wf_fs s"
  shows "is_dir s []" and "distinct (map fst (f_ents s))"
    and "node_at s p = Some n \<Longrightarrow> wf_entry s (p, n)"
  using assms by (simp_all add: wf_fs_iff)

lemma wf_node:
  assumes "wf_fs s" and "node_at s (d @ [n]) = Some x"
  shows "plain_name n" and "is_dir s d" and "x = NFile i \<Longrightarrow> i < f_next s"
proof -
  from assms have "wf_entry s (d @ [n], x)" by (auto simp: wf_fs_iff)
  then show "plain_name n" "is_dir s d" "x = NFile i \<Longrightarrow> i < f_next s" by (auto simp: wf_entry_def)
qed

lemma wf_node_path: "wf_fs s \<Longrightarrow> node_at s p = Some x \<Longrightarrow> list_all plain_name p"
proof (induction p arbitrary: x rule: rev_induct)
  case (snoc n d)
  then have "plain_name n" "is_dir s d" using wf_node by blast+
  then obtain y where "node_at s d = Some y" by (auto simp: is_dir_def split: option.splits)
  with snoc \<open>plain_name n\<close> show ?case by simp
qed simp

lemma wf_prefix_dir:
  "wf_fs s \<Longrightarrow> node_at s (d @ n # q) \<noteq> None \<Longrightarrow> is_dir s d"
proof (induction q arbitrary: rule: rev_induct)
  case Nil
  then obtain x where "node_at s (d @ [n]) = Some x" by auto
  with Nil show ?case using wf_node by blast
next
  case (snoc m q)
  then obtain x where "node_at s ((d @ n # q) @ [m]) = Some x" by auto
  with snoc.prems have "is_dir s (d @ n # q)" using wf_node by blast
  then have "node_at s (d @ n # q) \<noteq> None" by (auto simp: is_dir_def split: option.splits)
  with snoc show ?case by blast
qed

lemma dict_keys_distinct_del: "distinct (map fst d) \<Longrightarrow> distinct (map fst (dict_del k d))"
  by (simp add: dict_del_def distinct_map_filter)

lemma is_dir_put [simp]: "is_dir (put_node p n s) q = (if q = p then is_dir_node n else is_dir s q)"
  by (simp add: is_dir_def)

lemma is_dir_drop [simp]: "is_dir (drop_node p s) q \<longleftrightarrow> q \<noteq> p \<and> is_dir s q"
  by (simp add: is_dir_def)

lemma distinct_put: "distinct (map fst (f_ents s)) \<Longrightarrow> distinct (map fst (f_ents (put_node p n s)))"
  by (simp add: put_node_def dict_distinct_set)

lemma distinct_drop: "distinct (map fst (f_ents s)) \<Longrightarrow> distinct (map fst (f_ents (drop_node p s)))"
  by (simp add: drop_node_def dict_keys_distinct_del)

lemma wf_put:
  assumes wf: "wf_fs s" and p: "p = [] \<or> plain_name (last p) \<and> is_dir s (butlast p)"
    and d: "is_dir s p \<Longrightarrow> is_dir_node n" and r: "p = [] \<Longrightarrow> is_dir_node n"
    and f: "\<And>i. n = NFile i \<Longrightarrow> i < f_next s"
  shows "wf_fs (put_node p n s)"
proof -
  have ino: "inode_ok (put_node p n s) x = inode_ok s x" for x by (rule inode_ok_next) simp
  have old: "wf_entry (put_node p n s) (q, x)" if "node_at s q = Some x" for q x
  proof -
    from wf that have e: "wf_entry s (q, x)" by (rule wf_fsD)
    have "is_dir s (butlast q) \<Longrightarrow> is_dir (put_node p n s) (butlast q)" using d by (cases "butlast q = p") auto
    with e ino show ?thesis by (simp add: wf_entry_def split: if_splits)
  qed
  have new: "wf_entry (put_node p n s) (p, n)"
  proof (cases "p = []")
    case False
    with p d have "plain_name (last p)" "is_dir (put_node p n s) (butlast p)" by auto
    moreover have "inode_ok s n" using f by (cases n) auto
    ultimately show ?thesis using False ino by (simp add: wf_entry_def)
  next
    case True
    moreover have "inode_ok s n" using f by (cases n) auto
    ultimately show ?thesis using r ino by (simp add: wf_entry_def)
  qed
  show ?thesis
  proof (rule wf_fsI)
    show "is_dir (put_node p n s) []" using r wf_fsD(1) [OF wf] by simp
    show "distinct (map fst (f_ents (put_node p n s)))" using wf_fsD(2) [OF wf] by (rule distinct_put)
    show "wf_entry (put_node p n s) (q, x)" if "node_at (put_node p n s) q = Some x" for q x
      using that old [of q x] new by (cases "q = p") simp_all
  qed
qed

lemma wf_drop:
  assumes "wf_fs s" and "p \<noteq> []" and "\<And>n. node_at s (p @ [n]) = None"
  shows "wf_fs (drop_node p s)"
proof -
  have "wf_entry (drop_node p s) (q, x)" if "node_at s q = Some x" "q \<noteq> p" for q x
  proof -
    have "q \<noteq> [] \<Longrightarrow> butlast q \<noteq> p"
      using that assms(3) [of "last q"] by (metis append_butlast_last_id option.distinct(1))
    moreover from assms(1) that(1) have "wf_entry s (q, x)" by (rule wf_fsD)
    moreover have "inode_ok (drop_node p s) x = inode_ok s x" by (rule inode_ok_next) simp
    ultimately show ?thesis by (simp add: wf_entry_def split: if_splits)
  qed
  note old = this
  show ?thesis
  proof (rule wf_fsI)
    show "is_dir (drop_node p s) []" using assms(2) wf_fsD(1) [OF assms(1)] by simp
    show "distinct (map fst (f_ents (drop_node p s)))" using wf_fsD(2) [OF assms(1)] by (rule distinct_drop)
    show "wf_entry (drop_node p s) (q, x)" if "node_at (drop_node p s) q = Some x" for q x
      using that old [of q x] by (cases "q = p") simp_all
  qed
qed

lemma wf_write [simp]: "wf_fs (write_inode i d s) = wf_fs s"
proof -
  have "inode_ok (write_inode i d s) n = inode_ok s n" for n by (rule inode_ok_next) simp
  then show ?thesis by (simp add: wf_fs_def wf_entry_def is_dir_def cong: list.pred_cong)
qed

subsection \<open>Listing\<close>

lemma listdir_iff:
  assumes "wf_fs s"
  shows "n \<in> set (listdir_at s d) \<longleftrightarrow> node_at s (d @ [n]) \<noteq> None"
proof
  assume "n \<in> set (listdir_at s d)"
  then obtain p x where "(p, x) \<in> set (f_ents s)" "p \<noteq> []" "butlast p = d" "last p = n"
    by (auto simp: listdir_at_def)
  then show "node_at s (d @ [n]) \<noteq> None"
    using assms by (metis append_butlast_last_id node_at_iff option.distinct(1) wf_fs_iff)
next
  assume "node_at s (d @ [n]) \<noteq> None"
  then obtain x where "(d @ [n], x) \<in> set (f_ents s)" using assms by (auto simp: node_at_iff wf_fs_iff)
  then show "n \<in> set (listdir_at s d)" by (force simp: listdir_at_def)
qed

lemma listdir_sorted: "sorted (listdir_at s d)" "distinct (listdir_at s d)"
  by (simp_all add: listdir_at_def)

subsection \<open>Steps\<close>

definition keeps_bytes :: "fs \<Rightarrow> fs \<Rightarrow> bool" where
  "keeps_bytes s s' \<longleftrightarrow> f_next s \<le> f_next s' \<and> f_stuck s' = f_stuck s
     \<and> (\<forall>i < f_next s. fd_bytes (f_data s' i) = fd_bytes (f_data s i))"

definition safe_step :: "path \<Rightarrow> fs \<Rightarrow> fs \<Rightarrow> bool" where
  "safe_step r s s' \<longleftrightarrow> ft.beyond r s s' \<and> keeps_bytes s s' \<and> (wf_fs s \<longrightarrow> wf_fs s')"

lemma keeps_bytes_trans: "keeps_bytes s t \<Longrightarrow> keeps_bytes t u \<Longrightarrow> keeps_bytes s u"
  by (auto simp: keeps_bytes_def)

lemma safe_refl [simp]: "safe_step r s s"
  by (simp add: safe_step_def keeps_bytes_def ft.beyond_refl)

lemma safe_trans: "safe_step r s t \<Longrightarrow> safe_step r t u \<Longrightarrow> safe_step r s u"
  unfolding safe_step_def using ft.beyond_trans keeps_bytes_trans by blast

lemma safe_mono: "prefix r r' \<Longrightarrow> safe_step r' s t \<Longrightarrow> safe_step r s t"
  unfolding safe_step_def using ft.beyond_mono by blast

lemma safe_wf: "safe_step r s t \<Longrightarrow> wf_fs s \<Longrightarrow> wf_fs t"
  by (simp add: safe_step_def)

lemma safe_put:
  "prefix r p \<Longrightarrow> (wf_fs s \<Longrightarrow> wf_fs (put_node p n s)) \<Longrightarrow> safe_step r s (put_node p n s)"
  by (simp add: safe_step_def ft.beyond_put keeps_bytes_def)

lemma safe_drop:
  "prefix r p \<Longrightarrow> (wf_fs s \<Longrightarrow> wf_fs (drop_node p s)) \<Longrightarrow> safe_step r s (drop_node p s)"
  by (simp add: safe_step_def ft.beyond_drop keeps_bytes_def)

lemma safe_write:
  "fd_bytes d = fd_bytes (f_data s i) \<or> f_next s \<le> i \<Longrightarrow> safe_step r s (write_inode i d s)"
  by (auto simp: safe_step_def ft.beyond_def keeps_bytes_def)

lemma at_plain: "plain_name n \<Longrightarrow> at d n = d @ [n]"
  by (simp add: at_def plain_name_def)

lemma plain_at_name: "wf_fs s \<Longrightarrow> node_at s (at d n) \<noteq> None \<Longrightarrow> plain_name n \<or> n = ''.'' \<or> n = ''..''"
  using wf_node by (fastforce simp: at_def split: if_splits)

named_theorems safe_steps

lemma safe_mkdir [safe_steps]: "mkdir_at s d n m = Inr t \<Longrightarrow> prefix r d \<Longrightarrow> safe_step r s t"
  by (auto simp: mkdir_at_def at_plain is_dir_def split: if_splits intro!: safe_put wf_put)

lemma safe_symlink [safe_steps]: "symlink_at s g d n = Inr t \<Longrightarrow> prefix r d \<Longrightarrow> safe_step r s t"
  by (auto simp: symlink_at_def at_plain is_dir_def split: if_splits intro!: safe_put wf_put)

lemma no_below_file:
  "wf_fs s \<Longrightarrow> \<not> is_dir s p \<Longrightarrow> node_at s (p @ [n]) = None"
  using wf_node(2) by (cases "node_at s (p @ [n])") blast+

lemma safe_unlink [safe_steps]:
  "unlink_at s d n = Inr t \<Longrightarrow> plain_name n \<Longrightarrow> prefix r d \<Longrightarrow> safe_step r s t"
  by (auto simp: unlink_at_def at_plain is_dir_def split: option.splits node.splits if_splits
      intro!: safe_drop wf_drop no_below_file)

lemma safe_rmdir [safe_steps]:
  "rmdir_at s d n = Inr t \<Longrightarrow> plain_name n \<Longrightarrow> prefix r d \<Longrightarrow> safe_step r s t"
proof -
  assume a: "rmdir_at s d n = Inr t" "plain_name n" "prefix r d"
  then have t: "t = drop_node (d @ [n]) s" and e: "listdir_at s (d @ [n]) = []"
    by (auto simp: rmdir_at_def at_plain split: option.splits node.splits if_splits)
  have "wf_fs s \<Longrightarrow> node_at s ((d @ [n]) @ [k]) = None" for k
    using listdir_iff [of s k "d @ [n]"] e by simp
  then show ?thesis unfolding t using a(3) by (intro safe_drop wf_drop) auto
qed

lemma wf_alloc:
  assumes "wf_fs s"
  shows "wf_fs (s\<lparr>f_data := f, f_next := Suc (f_next s)\<rparr>)"
proof -
  have "inode_ok s n \<Longrightarrow> inode_ok (s\<lparr>f_data := f, f_next := Suc (f_next s)\<rparr>) n" for n
    by (cases n) simp_all
  with assms show ?thesis
    by (auto simp: wf_fs_def wf_entry_def is_dir_def node_at_def list_all_iff)
qed

lemma safe_create [safe_steps]:
  assumes "create_excl s d n m = Inr (i, t)" and "prefix r d"
  shows "safe_step r s t" and "i = f_next s" and "f_next t = Suc (f_next s)"
    and "node_at t (d @ [n]) = Some (NFile i)"
proof -
  let ?u = "s\<lparr>f_data := (f_data s)(f_next s := \<lparr>fd_bytes = [], fd_mode = m - and m (f_umask s), fd_mtime = f_now s\<rparr>),
    f_next := Suc (f_next s)\<rparr>"
  from assms have t: "t = put_node (d @ [n]) (NFile (f_next s)) ?u" and i: "i = f_next s"
    and d: "is_dir s d" "plain_name n" "node_at s (d @ [n]) = None"
    by (auto simp: create_excl_def at_plain split: if_splits)
  have "safe_step r s ?u" by (simp add: safe_step_def keeps_bytes_def ft.beyond_def wf_alloc node_at_def)
  moreover have "safe_step r ?u t"
    unfolding t using assms(2) d by (intro safe_put wf_put) (auto simp: is_dir_def node_at_def)
  ultimately show "safe_step r s t" by (rule safe_trans)
  show "i = f_next s" by (fact i)
  show "f_next t = Suc (f_next s)" "node_at t (d @ [n]) = Some (NFile i)" by (simp_all add: t i)
qed

lemma safe_open_new [safe_steps]:
  assumes "open_new_at s d n m = Inr (i, t)" and "plain_name n" and "prefix r d"
  shows "safe_step r s t" and "f_next s \<le> i" and "node_at t (d @ [n]) = Some (NFile i)"
proof -
  consider (fresh) "create_excl s d n m = Inr (i, t)"
    | (again) u where "unlink_at s d n = Inr u" "create_excl u d n m = Inr (i, t)"
    using assms(1) by (auto simp: open_new_at_def split: sum.splits if_splits)
  then have "safe_step r s t \<and> f_next s \<le> i \<and> node_at t (d @ [n]) = Some (NFile i)"
  proof cases
    case fresh
    then show ?thesis using safe_create [OF fresh assms(3)] by simp
  next
    case again
    have u: "safe_step r s u" using safe_unlink [OF again(1) assms(2,3)] .
    then have "f_next s \<le> f_next u" by (simp add: safe_step_def keeps_bytes_def)
    with safe_create [OF again(2) assms(3)] u show ?thesis by (auto intro: safe_trans)
  qed
  then show "safe_step r s t" and "f_next s \<le> i" and "node_at t (d @ [n]) = Some (NFile i)" by auto
qed

lemma safe_utime [safe_steps]:
  assumes "utime_at s d n tm = Inr t" and "plain_name n" and "prefix r d"
  shows "safe_step r s t"
proof -
  have w: "wf_fs (put_node (d @ [n]) y s)" if "wf_fs s" "node_at s (d @ [n]) = Some x"
    "is_dir_node x = is_dir_node y" "\<not> is_file_node y" for x y
    using that wf_node [OF that(1,2)] by (intro wf_put) (auto simp: is_dir_def)
  show ?thesis
    using assms by (auto simp: utime_at_def at_plain split: option.splits node.splits
        intro!: safe_put safe_write w)
qed

lemma safe_chmod [safe_steps]:
  assumes "chmod_at s d n m b = (ok, t)" and "plain_name n" and "prefix r d"
  shows "safe_step r s t"
proof -
  have w: "wf_fs (put_node (d @ [n]) (NDir m u) s)" if "wf_fs s" "node_at s (d @ [n]) = Some (NDir m0 u)" for m0 u
    using that wf_node [OF that] by (intro wf_put) auto
  show ?thesis
    using assms by (auto simp: chmod_at_def at_plain split: option.splits node.splits if_splits
        intro!: safe_put safe_write w)
qed

lemma safe_chmod_dir [safe_steps]: "prefix r d \<Longrightarrow> safe_step r s (chmod_dir_fd s d m)"
proof -
  assume r: "prefix r d"
  have "wf_fs s \<Longrightarrow> node_at s d = Some (NDir m0 u) \<Longrightarrow> wf_fs (put_node d (NDir m u) s)" for m0 u
    using wf_node [of s "butlast d" "last d" "NDir m0 u"] by (intro wf_put) (cases "d = []", auto)+
  with r show "safe_step r s (chmod_dir_fd s d m)"
    by (auto simp: chmod_dir_fd_def split: option.splits node.splits intro!: safe_put)
qed

lemma safe_make_writable [safe_steps]: "prefix r d \<Longrightarrow> safe_step r s (make_writable s d)"
  by (auto simp: make_writable_def split: option.splits node.splits intro: safe_chmod_dir)

lemma safe_unlink_quietly [safe_steps]: "plain_name n \<Longrightarrow> prefix r d \<Longrightarrow> safe_step r s (unlink_quietly s d n)"
  by (auto simp: unlink_quietly_def split: sum.splits intro: safe_unlink)

lemma safe_replace [safe_steps]:
  assumes "replace_entry s d old new = Inr t" and "plain_name old" "plain_name new" and "prefix r d"
    and "\<not> is_dir s (d @ [old])"
  shows "safe_step r s t"
proof -
  obtain x where x: "node_at s (d @ [old]) = Some x" "\<not> is_dir_node x" "\<not> is_dir s (d @ [new])"
    and t: "t = s \<or> t = put_node (d @ [new]) x (drop_node (d @ [old]) s)"
    using assms(1,5) by (auto simp: replace_entry_def is_dir_def split: option.splits node.splits if_splits)
  let ?u = "drop_node (d @ [old]) s"
  have u: "safe_step r s ?u" using assms(4,5) by (intro safe_drop wf_drop no_below_file) auto
  have "wf_fs (put_node (d @ [new]) x ?u)" if "wf_fs ?u" "wf_fs s"
    using that x assms(3) wf_node [OF that(2) x(1)] by (intro wf_put) auto
  then have "safe_step r s (put_node (d @ [new]) x ?u)"
    using u safe_put [of r "d @ [new]" ?u x] assms(4) unfolding safe_step_def
    by (auto simp: ft.beyond_def keeps_bytes_def)
  with t show ?thesis by auto
qed

lemma open_level_safe:
  assumes "open_level c s d n = (res, t)" and "plain_name n" and "prefix r d"
  shows "safe_step r s t \<and> (\<forall>p. res = Inr p \<longrightarrow> p = d @ [n] \<and> is_dir t p)"
  using assms
  by (auto simp: open_level_def opendir_at_def at_plain is_dir_def
      split: sum.splits if_splits option.splits node.splits intro: safe_mkdir)

lemma descend_safe:
  "descend_at c s d ns = (res, t) \<Longrightarrow> list_all plain_name ns \<Longrightarrow> prefix r d \<Longrightarrow>
     safe_step r s t \<and> (\<forall>p. res = Inr p \<longrightarrow> p = d @ ns \<and> is_dir t p)"
proof (induction c s d ns arbitrary: res t rule: descend_at.induct)
  case (2 c s d n)
  then show ?case using open_level_safe [of c s d n res t r] by simp
next
  case (3 c s d n m ns)
  obtain o1 u where l: "open_level c s d n = (o1, u)" by (cases "open_level c s d n")
  note ol = open_level_safe [OF l]
  show ?case
  proof (cases o1)
    case (Inl e)
    with "3.prems"(1) l have "res = Inl e" "t = u" by auto
    with "3.prems"(2,3) ol [of r] show ?thesis by simp
  next
    case (Inr p)
    from 3 ol [of r] Inr have p: "safe_step r s u" "p = d @ [n]" by auto
    from 3 l Inr have "descend_at c u p (m # ns) = (res, t)" by simp
    with 3 l Inr p have "safe_step r u t \<and> (\<forall>q. res = Inr q \<longrightarrow> q = p @ m # ns \<and> is_dir t q)"
      by (intro "3.IH") (auto simp: prefix_def)
    with p show ?thesis by (auto intro: safe_trans)
  qed
qed auto

lemma descend_existing:
  "wf_fs s \<Longrightarrow> is_dir s (d @ p) \<Longrightarrow> is_dir s d \<Longrightarrow> list_all plain_name p \<Longrightarrow> descend_at c s d p = (Inr (d @ p), s)"
proof (induction c s d p rule: descend_at.induct)
  case (2 c s d n)
  then show ?case
    by (auto simp: open_level_def opendir_at_def at_plain is_dir_def split: option.splits node.splits)
next
  case (3 c s d n m ns)
  have "is_dir s (d @ [n])"
  proof -
    have "node_at s ((d @ [n]) @ m # ns) \<noteq> None"
      using "3.prems"(2) by (auto simp: is_dir_def split: option.splits)
    then show ?thesis by (rule wf_prefix_dir [OF "3.prems"(1)])
  qed
  with 3 show ?case
    by (auto simp: open_level_def opendir_at_def at_plain is_dir_def split: option.splits node.splits)
qed simp

lemma makedirs_safe:
  assumes "makedirs_at mo s d ns = (res, t)" and "list_all plain_name ns" and "prefix r d"
  shows "safe_step r s t"
proof -
  obtain o1 u where l: "descend_at True s d ns = (o1, u)" by (cases "descend_at True s d ns")
  have u: "safe_step r s u" "\<And>p. o1 = Inr p \<Longrightarrow> prefix r p"
    using descend_safe [OF l assms(2,3)] assms(3) by auto
  show ?thesis
  proof (cases o1)
    case (Inl e)
    with l u assms show ?thesis by (simp add: makedirs_at_def descend_mode_def)
  next
    case (Inr p)
    with u(2) have "safe_step r u (chmod_dir_fd u p m)" for m by (simp add: safe_chmod_dir)
    with Inr l u(1) assms show ?thesis
      by (auto simp: makedirs_at_def descend_mode_def split: option.splits intro: safe_trans)
  qed
qed

subsection \<open>A small file system, for examples\<close>

definition sample_fs :: "(path \<times> node) list \<Rightarrow> fs" where
  "sample_fs es = \<lparr>f_ents = es, f_data = (\<lambda>i. \<lparr>fd_bytes = [], fd_mode = 420, fd_mtime = 0\<rparr>), f_next = 10,
     f_stuck = [], f_umask = 18, f_now = 0\<rparr>"

end
