(* ===== verification/Tree_Removal.thy ===== *)
theory Tree_Removal
  imports Fs_Steps
begin

text \<open>
  \<open>rmtree_at\<close> of \<open>dirfd.py\<close>: removing an entry and everything below it. The code walks with an
  explicit stack; here every level is one call, and the first argument bounds the depth. One more
  than the longest path in the table is always enough. With \<open>lenient\<close> (an \<open>on_error\<close> callback) a
  failing entry is reported and stepped over, without it the failure is raised.
\<close>

definition fail_remove :: "bool \<Rightarrow> errno \<Rightarrow> fs \<Rightarrow> (errno + bool) \<times> fs" where
  "fail_remove lenient e s = (if lenient then Inr False else Inl e, s)"

text \<open>\<open>_unlink_at\<close>: with \<open>force\<close> a refused removal makes the directory writable and tries again.\<close>

definition unlink_force :: "bool \<Rightarrow> fs \<Rightarrow> path \<Rightarrow> string \<Rightarrow> bool \<Rightarrow> errno + fs" where
  "unlink_force dir s d n force =
     (let rm = (\<lambda>t. if dir then rmdir_at t d n else unlink_at t d n) in
      case rm s of
        Inr t \<Rightarrow> Inr t
      | Inl e \<Rightarrow> (if e = EPERM \<and> force then rm (make_writable s d) else Inl e))"

text \<open>The state after a refused removal: the retry has made the directory writable.\<close>

definition after_refusal :: "errno \<Rightarrow> fs \<Rightarrow> path \<Rightarrow> bool \<Rightarrow> fs" where
  "after_refusal e s d force = (if e = EPERM \<and> force then make_writable s d else s)"

definition unlink_reporting :: "bool \<Rightarrow> bool \<Rightarrow> fs \<Rightarrow> path \<Rightarrow> string \<Rightarrow> (errno + bool) \<times> fs" where
  "unlink_reporting force lenient s d n =
     (case unlink_force False s d n force of
        Inr t \<Rightarrow> (Inr True, t)
      | Inl e \<Rightarrow>
          (if e = ENOENT then (Inr True, s)
           else fail_remove lenient e (after_refusal e s d force)))"

fun remove_each :: "(fs \<Rightarrow> string \<Rightarrow> (errno + bool) \<times> fs) \<Rightarrow> fs \<Rightarrow> string list \<Rightarrow> (errno + bool) \<times> fs" where
  "remove_each f s [] = (Inr True, s)"
| "remove_each f s (n # ns) =
     (case f s n of
        (Inl e, t) \<Rightarrow> (Inl e, t)
      | (Inr ok, t) \<Rightarrow>
          (case remove_each f t ns of
             (Inl e, u) \<Rightarrow> (Inl e, u)
           | (Inr ok', u) \<Rightarrow> (Inr (ok \<and> ok'), u)))"

primrec remove_entry :: "nat \<Rightarrow> bool \<Rightarrow> bool \<Rightarrow> path \<Rightarrow> fs \<Rightarrow> string \<Rightarrow> (errno + bool) \<times> fs" where
  "remove_entry 0 force lenient d s n = (Inl ESTALE, s)"
| "remove_entry (Suc k) force lenient d s n =
     (case lstat_at s d n of
        Inl e \<Rightarrow> (if e = ENOENT then (Inr True, s) else fail_remove lenient e s)
      | Inr x \<Rightarrow>
          (if \<not> is_dir_node x then unlink_reporting force lenient s d n
           else case opendir_at s d n of
               Inl e \<Rightarrow> fail_remove lenient e s
             | Inr p \<Rightarrow>
                 (case remove_each (remove_entry k force lenient p) s (listdir_at s p) of
                    (Inl e, t) \<Rightarrow> (Inl e, t)
                  | (Inr ok, t) \<Rightarrow>
                      (if \<not> ok then (Inr False, t)
                       else case unlink_force True t d n force of
                           Inr u \<Rightarrow> (Inr True, u)
                         | Inl e \<Rightarrow> fail_remove lenient e (after_refusal e t d force)))))"

definition max_depth :: "fs \<Rightarrow> nat" where
  "max_depth s = foldr (\<lambda>e m. max (length (fst e)) m) (f_ents s) 0"

definition rmtree_at :: "bool \<Rightarrow> bool \<Rightarrow> fs \<Rightarrow> path \<Rightarrow> string \<Rightarrow> (errno + bool) \<times> fs" where
  "rmtree_at force lenient s d n = remove_entry (Suc (max_depth s)) force lenient d s n"

text \<open>\<open>remove_tree\<close>: the parent by name, then the walk with everything reported and nothing raised.\<close>

definition remove_tree :: "fs \<Rightarrow> path \<Rightarrow> bool \<times> fs" where
  "remove_tree s p =
     (if p = [] then (False, s)
      else if \<not> is_dir s (butlast p) then (node_at s (butlast p) = None, s)
      else (case rmtree_at True True s (butlast p) (last p) of
              (Inr ok, t) \<Rightarrow> (ok, t)
            | (Inl e, t) \<Rightarrow> (False, t)))"

subsection \<open>Confinement\<close>

lemma safe_unlink_force:
  "unlink_force b s d n f = Inr t \<Longrightarrow> plain_name n \<Longrightarrow> prefix r d \<Longrightarrow> safe_step r s t"
  by (auto simp: unlink_force_def Let_def split: sum.splits if_splits
      intro: safe_unlink safe_rmdir safe_trans [OF safe_make_writable])

lemma safe_after_refusal: "prefix r d \<Longrightarrow> safe_step r s (after_refusal e s d f)"
  by (simp add: after_refusal_def safe_make_writable)

lemma safe_unlink_reporting:
  "unlink_reporting f l s d n = (res, t) \<Longrightarrow> plain_name n \<Longrightarrow> prefix r d \<Longrightarrow> safe_step r s t"
  by (auto simp: unlink_reporting_def fail_remove_def split: sum.splits if_splits
      intro: safe_unlink_force safe_after_refusal)

lemma safe_remove_each:
  assumes "\<And>s n res t. n \<in> set ns \<Longrightarrow> wf_fs s \<Longrightarrow> f s n = (res, t) \<Longrightarrow> safe_step r s t"
    and "remove_each f s ns = (res, t)" and "wf_fs s"
  shows "safe_step r s t"
  using assms
proof (induction ns arbitrary: s res t)
  case (Cons n ns)
  obtain o1 u where f: "f s n = (o1, u)" by (cases "f s n")
  then have su: "safe_step r s u" using Cons.prems(1) [OF _ Cons.prems(3) f] by simp
  show ?case
  proof (cases o1)
    case (Inl e)
    with f su Cons.prems(2) show ?thesis by simp
  next
    case (Inr ok)
    obtain o2 v where g: "remove_each f u ns = (o2, v)" by (cases "remove_each f u ns")
    have "safe_step r u v"
      using Cons.IH [OF _ g] Cons.prems(1) safe_wf [OF su Cons.prems(3)] by (meson list.set_intros(2))
    with Inr f g su Cons.prems(2) show ?thesis by (auto split: sum.splits intro: safe_trans)
  qed
qed simp

lemma listdir_plain: "wf_fs s \<Longrightarrow> n \<in> set (listdir_at s d) \<Longrightarrow> plain_name n"
  using listdir_iff wf_node(1) by blast

lemma remove_entry_safe:
  "remove_entry k f l d s n = (res, t) \<Longrightarrow> wf_fs s \<Longrightarrow> plain_name n \<Longrightarrow> prefix r d \<Longrightarrow> safe_step r s t"
proof (induction k arbitrary: d s n res t)
  case (Suc k)
  show ?case
  proof (cases "lstat_at s d n")
    case (Inl e)
    with Suc.prems show ?thesis by (auto simp: fail_remove_def split: if_splits)
  next
    case (Inr x)
    show ?thesis
    proof (cases "is_dir_node x")
      case False
      with Inr Suc.prems show ?thesis using safe_unlink_reporting by auto
    next
      case True
      with Inr Suc.prems(3) have p: "opendir_at s d n = Inr (d @ [n])"
        by (cases x) (auto simp: lstat_at_def opendir_at_def at_plain split: option.splits)
      let ?f = "remove_entry k f l (d @ [n])"
      obtain o1 u where e: "remove_each ?f s (listdir_at s (d @ [n])) = (o1, u)" by fastforce
      have pr: "prefix r (d @ [n])" using Suc.prems(4) by simp
      have su: "safe_step r s u"
        using Suc.IH [OF _ _ _ pr] listdir_plain [OF Suc.prems(2)] Suc.prems(2) e
        by (intro safe_remove_each [of "listdir_at s (d @ [n])" ?f r s o1 u]) blast+
      show ?thesis
        using Suc.prems Inr True p e su
        by (auto simp: fail_remove_def split: sum.splits if_splits
            intro: safe_trans [OF su] safe_unlink_force safe_after_refusal)
    qed
  qed
qed simp

lemma rmtree_safe:
  "rmtree_at f l s d n = (res, t) \<Longrightarrow> wf_fs s \<Longrightarrow> plain_name n \<Longrightarrow> prefix r d \<Longrightarrow> safe_step r s t"
  unfolding rmtree_at_def by (rule remove_entry_safe)

subsection \<open>What is removed\<close>

text \<open>\<open>s'\<close> is \<open>s\<close> without the entries at or below the paths of \<open>ps\<close>.\<close>

definition removed :: "path set \<Rightarrow> fs \<Rightarrow> fs \<Rightarrow> bool" where
  "removed ps s s' \<longleftrightarrow> f_stuck s' = f_stuck s
     \<and> (\<forall>q. node_at s' q = (if \<exists>p \<in> ps. prefix p q then None else node_at s q))"

lemma max_depth_bound: "node_at s p = Some n \<Longrightarrow> length p \<le> max_depth s"
proof -
  have "(p, n) \<in> set es \<Longrightarrow> length p \<le> foldr (\<lambda>e m. max (length (fst e)) m) es 0" for es
    by (induction es) auto
  moreover assume "node_at s p = Some n"
  ultimately show ?thesis by (auto simp: max_depth_def node_at_def dest: dict_get_Some_in)
qed

lemma below_none:
  assumes "wf_fs s" and "\<not> is_dir s p" and "node_at s p = None" and "prefix p q"
  shows "node_at s q = None"
proof (cases "q = p")
  case False
  then obtain n z where "q = p @ n # z" using assms(4) by (metis append_Nil2 list.exhaust prefixE)
  with wf_prefix_dir [of s p n z] assms(1,2) show ?thesis by (cases "node_at s q") auto
qed (use assms in simp)

lemma drop_removed:
  assumes "wf_fs (drop_node p s)" and "p \<noteq> []"
  shows "removed {p} s (drop_node p s)"
proof -
  have "node_at s q = None" if "prefix p q" "q \<noteq> p" for q
    using below_none [OF assms(1), of p q] that by simp
  then show ?thesis by (auto simp: removed_def)
qed

lemma unlink_removed:
  assumes "wf_fs s" and "node_at s (d @ [n]) = Some x" and "\<not> is_dir_node x" and "plain_name n"
    and "d @ [n] \<notin> set (f_stuck s)"
  shows "unlink_at s d n = Inr (drop_node (d @ [n]) s)" "removed {d @ [n]} s (drop_node (d @ [n]) s)"
proof -
  show *: "unlink_at s d n = Inr (drop_node (d @ [n]) s)"
    using assms by (cases x) (simp_all add: unlink_at_def at_plain)
  show "removed {d @ [n]} s (drop_node (d @ [n]) s)"
    using safe_unlink [OF * assms(4), of d] assms(1) by (intro drop_removed) (auto dest: safe_wf)
qed

lemma removed_trans: "removed ps s t \<Longrightarrow> removed qs t u \<Longrightarrow> removed (ps \<union> qs) s u"
  by (auto simp: removed_def)

lemma removed_stuck: "removed ps s t \<Longrightarrow> f_stuck t = f_stuck s"
  by (simp add: removed_def)

lemma remove_each_complete:
  assumes "\<And>n s. n \<in> set ns \<Longrightarrow> P s \<Longrightarrow> \<exists>t. f s n = (Inr True, t) \<and> P t \<and> removed {p @ [n]} s t"
    and "P s"
  shows "\<exists>t. remove_each f s ns = (Inr True, t) \<and> P t \<and> removed ((\<lambda>n. p @ [n]) ` set ns) s t"
  using assms
proof (induction ns arbitrary: s)
  case Nil
  then show ?case by (simp add: removed_def)
next
  case (Cons n ns)
  from Cons.prems obtain t where t: "f s n = (Inr True, t)" "P t" "removed {p @ [n]} s t"
    by (meson list.set_intros(1))
  have "\<exists>u. remove_each f t ns = (Inr True, u) \<and> P u \<and> removed ((\<lambda>n. p @ [n]) ` set ns) t u"
    using Cons.prems(1) by (intro Cons.IH t(2)) simp
  with t show ?case using removed_trans [OF t(3)] by fastforce
qed

definition free_below :: "path \<Rightarrow> fs \<Rightarrow> bool" where
  "free_below p s \<longleftrightarrow> list_all (\<lambda>q. \<not> prefix p q) (f_stuck s)"

lemma remove_entry_complete:
  "wf_fs s \<Longrightarrow> plain_name n \<Longrightarrow> free_below (d @ [n]) s \<Longrightarrow>
     \<forall>q. node_at s (d @ n # q) \<noteq> None \<longrightarrow> length q < k \<Longrightarrow> 0 < k \<Longrightarrow>
     \<exists>t. remove_entry k f l d s n = (Inr True, t) \<and> wf_fs t \<and> removed {d @ [n]} s t"
proof (induction k arbitrary: d s n)
  case (Suc k)
  let ?p = "d @ [n]"
  note free = Suc.prems(3)
  have ns: "?p \<notin> set (f_stuck s)" using free by (auto simp: free_below_def list_all_iff)
  show ?case
  proof (cases "node_at s ?p")
    case None
    then have "removed {?p} s s"
      using below_none [OF Suc.prems(1), of ?p] by (auto simp: removed_def is_dir_def)
    with None Suc.prems show ?thesis by (simp add: lstat_at_def at_plain)
  next
    case (Some x)
    show ?thesis
    proof (cases "is_dir_node x")
      case False
      note u = unlink_removed [OF Suc.prems(1) Some False Suc.prems(2) ns]
      have "wf_fs (drop_node ?p s)"
        using safe_unlink [OF u(1) Suc.prems(2), of d] Suc.prems(1) by (simp add: safe_step_def)
      with u Some False Suc.prems(2) show ?thesis
        by (simp add: lstat_at_def at_plain unlink_reporting_def unlink_force_def)
    next
      case True
      let ?P = "\<lambda>t. wf_fs t \<and> free_below ?p t \<and> (\<forall>q. node_at t (d @ n # q) \<noteq> None \<longrightarrow> length q < Suc k)"
      have k: "0 < k" if "m \<in> set (listdir_at s ?p)" for m
      proof -
        have "node_at s (d @ n # [m]) \<noteq> None" using that listdir_iff [OF Suc.prems(1), of m ?p] by simp
        with Suc.prems(4) have "length [m] < Suc k" by blast
        then show ?thesis by simp
      qed
      have "\<exists>t. remove_each (remove_entry k f l ?p) s (listdir_at s ?p) = (Inr True, t) \<and> ?P t
          \<and> removed ((\<lambda>m. ?p @ [m]) ` set (listdir_at s ?p)) s t"
      proof (rule remove_each_complete)
        fix m t
        assume m: "m \<in> set (listdir_at s ?p)" and t: "?P t"
        have "\<exists>u. remove_entry k f l ?p t m = (Inr True, u) \<and> wf_fs u \<and> removed {?p @ [m]} t u"
        proof (rule Suc.IH)
          show "wf_fs t" using t by simp
          show "plain_name m" using listdir_plain [OF Suc.prems(1) m] .
          show "free_below (?p @ [m]) t"
          proof -
            have "prefix ?p q" if "prefix (?p @ [m]) q" for q using that by (rule append_prefixD)
            with t show ?thesis unfolding free_below_def list_all_iff by blast
          qed
          show "\<forall>q. node_at t (?p @ m # q) \<noteq> None \<longrightarrow> length q < k" using t by fastforce
          show "0 < k" by (rule k [OF m])
        qed
        then obtain u where u: "remove_entry k f l ?p t m = (Inr True, u)" "wf_fs u" "removed {?p @ [m]} t u"
          by blast
        with t have "?P u" by (auto simp: removed_def free_below_def)
        with u show "\<exists>u. remove_entry k f l ?p t m = (Inr True, u) \<and> ?P u \<and> removed {?p @ [m]} t u" by blast
      qed (use Suc.prems in simp)
      then obtain t where t: "remove_each (remove_entry k f l ?p) s (listdir_at s ?p) = (Inr True, t)"
        "wf_fs t" "removed ((\<lambda>m. ?p @ [m]) ` set (listdir_at s ?p)) s t" by blast
      have below: "node_at t (?p @ m # q) = None" for m q
      proof -
        have "m \<in> set (listdir_at s ?p) \<or> node_at s (?p @ m # q) = None"
        proof (cases "node_at s (?p @ [m]) = None")
          case True
          then have "\<not> is_dir s (?p @ [m])" by (simp add: is_dir_def)
          with below_none [OF Suc.prems(1) this True, of "?p @ m # q"] show ?thesis by (simp add: prefix_def)
        next
          case False
          then show ?thesis using listdir_iff [OF Suc.prems(1)] by blast
        qed
        with t(3) show ?thesis by (auto simp: removed_def)
      qed
      have tp: "node_at t ?p = Some x"
        using t(3) Some by (auto simp: removed_def)
      have empty: "listdir_at t ?p = []"
        using listdir_iff [OF t(2), of _ ?p] below [of _ "[]"] by (cases "listdir_at t ?p") auto
      have "rmdir_at t d n = Inr (drop_node ?p t)"
        using tp True empty ns removed_stuck [OF t(3)] Suc.prems(2)
        by (cases x) (auto simp: rmdir_at_def at_plain plain_name_def)
      moreover have w: "wf_fs (drop_node ?p t)"
        using safe_rmdir [OF calculation Suc.prems(2), of d] t(2) by (simp add: safe_step_def)
      moreover have "removed {?p} s (drop_node ?p t)"
      proof -
        have "node_at (drop_node ?p t) q = node_at s q" if "\<not> prefix ?p q" for q
        proof -
          have "\<not> prefix (?p @ [m]) q" for m using that append_prefixD [of ?p "[m]" q] by blast
          then have "node_at t q = node_at s q" using t(3) by (simp add: removed_def)
          with that show ?thesis by auto
        qed
        moreover have "node_at (drop_node ?p t) q = None" if pr: "prefix ?p q" for q
        proof -
          obtain z where z: "q = ?p @ z" using pr by (rule prefixE)
          with below show ?thesis by (cases z) auto
        qed
        ultimately show ?thesis using removed_stuck [OF t(3)] by (simp add: removed_def)
      qed
      ultimately show ?thesis
        using Some True t(1) Suc.prems(2)
        by (cases x) (simp_all add: lstat_at_def opendir_at_def at_plain unlink_force_def)
    qed
  qed
qed simp

lemma rmtree_complete:
  assumes "wf_fs s" and "plain_name n" and "free_below (d @ [n]) s"
  shows "\<exists>t. rmtree_at f l s d n = (Inr True, t) \<and> wf_fs t \<and> removed {d @ [n]} s t"
proof -
  have "length q < Suc (max_depth s)" if "node_at s (d @ n # q) \<noteq> None" for q
    using that max_depth_bound [of s "d @ n # q"] by auto
  with assms show ?thesis unfolding rmtree_at_def by (intro remove_entry_complete) auto
qed

text \<open>remove_tree removes the whole tree, whatever its modes, and nothing else, when no entry
  below the path is protected against removal (immutable): it answers True, every entry at or below
  the path is gone, and every other entry is untouched.\<close>

theorem remove_tree_complete:
  assumes "wf_fs s" and "p \<noteq> []" and "plain_name (last p)" and "is_dir s (butlast p)" and "free_below p s"
  shows "\<exists>t. remove_tree s p = (True, t) \<and> wf_fs t
    \<and> (\<forall>q. node_at t q = (if prefix p q then None else node_at s q))"
proof -
  have p: "butlast p @ [last p] = p" using assms(2) by simp
  with assms obtain t where t: "rmtree_at True True s (butlast p) (last p) = (Inr True, t)" "wf_fs t" "removed {p} s t"
    using rmtree_complete [of s "last p" "butlast p" True True] by auto
  with assms(2,4) show ?thesis by (simp add: remove_tree_def removed_def)
qed

theorem remove_tree_complete_witness:
  "case remove_tree (sample_fs [([], NDir 493 0), ([''r''], NDir 0 0), ([''r'', ''a''], NFile 1), ([''k''], NFile 2)]) [''r''] of
     (ok, t) \<Rightarrow> ok \<and> node_at t [''r'', ''a''] = None \<and> node_at t [''k''] = Some (NFile 2)"
proof -
  let ?s = "sample_fs [([], NDir 493 0), ([''r''], NDir 0 0), ([''r'', ''a''], NFile 1), ([''k''], NFile 2)]"
  have "wf_fs ?s" "plain_name (last [''r''])" "is_dir ?s (butlast [''r''])" "free_below [''r''] ?s"
    "node_at ?s [''k''] = Some (NFile 2)" by code_simp+
  with remove_tree_complete [of ?s "[''r'']"] show ?thesis by auto
qed

end
