(* ===== verification/Rootfs_Files.thy ===== *)
theory Rootfs_Files
  imports Tree_Removal
begin

text \<open>
  \<open>helpers/rootfs.py\<close>: the files the program writes into a rootfs after it was unpacked, every one of
  them through a descriptor on \<open>etc\<close>. The identity of the invoking user is an argument.
\<close>

definition open_etc :: "fs \<Rightarrow> path \<Rightarrow> path option" where
  "open_etc s r = (case opendir_at s r ''etc'' of Inr d \<Rightarrow> Some d | Inl e \<Rightarrow> None)"

definition with_etc :: "(fs \<Rightarrow> path \<Rightarrow> fs) \<Rightarrow> fs \<Rightarrow> path \<Rightarrow> fs" where
  "with_etc f s r =
     (if \<not> is_dir s r then s else case open_etc s r of None \<Rightarrow> s | Some d \<Rightarrow> f s d)"

definition replace_at :: "string \<Rightarrow> string \<Rightarrow> fs \<Rightarrow> path \<Rightarrow> fs" where
  "replace_at name content s d =
     (let s1 = unlink_quietly s d name in
      case open_new_at s1 d name 420 of
        Inl e \<Rightarrow> s1
      | Inr (i, s2) \<Rightarrow> write_inode i ((f_data s2 i)\<lparr>fd_bytes := content\<rparr>) s2)"

definition ID_FILE_MODE :: nat where
  "ID_FILE_MODE = 420"

definition append_at :: "bool \<Rightarrow> string \<Rightarrow> string \<Rightarrow> fs \<Rightarrow> path \<Rightarrow> bool \<times> fs" where
  "append_at create name line s d =
     (let grow = (\<lambda>i t. write_inode i ((f_data t i)\<lparr>fd_bytes := fd_bytes (f_data t i) @ line\<rparr>) t) in
      case open_regular_at s d name of
        Inr i \<Rightarrow> (True, grow i s)
      | Inl e \<Rightarrow>
          (if e = ENOENT \<and> create then
             (case create_excl s d name ID_FILE_MODE of
                Inl e' \<Rightarrow> (False, s)
              | Inr (i, t) \<Rightarrow> (True, grow i t))
           else (False, s)))"

definition chmod_id_at :: "string \<Rightarrow> fs \<Rightarrow> path \<Rightarrow> fs" where
  "chmod_id_at name s d =
     (case open_regular_at s d name of
        Inl e \<Rightarrow> s
      | Inr i \<Rightarrow> write_inode i ((f_data s i)\<lparr>fd_mode := ID_FILE_MODE\<rparr>) s)"

definition RESOLV_CONF :: string where
  "RESOLV_CONF = ''nameserver 8.8.8.8'' @ [CHR 0x0A] @ ''nameserver 8.8.4.4'' @ [CHR 0x0A]"

definition HOSTS :: string where
  "HOSTS = concat (map (\<lambda>l. l @ [CHR 0x0A])
     [''# IPv4.'', ''127.0.0.1   localhost.localdomain localhost'', [], ''# IPv6.'',
      ''::1         localhost.localdomain localhost ip6-localhost ip6-loopback'',
      ''fe00::0     ip6-localnet'', ''ff00::0     ip6-mcastprefix'', ''ff02::1     ip6-allnodes'',
      ''ff02::2     ip6-allrouters'', ''ff02::3     ip6-allhosts''])"

definition write_resolv_conf :: "fs \<Rightarrow> path \<Rightarrow> fs" where
  "write_resolv_conf s r = with_etc (replace_at ''resolv.conf'' RESOLV_CONF) s r"

definition write_hosts :: "fs \<Rightarrow> path \<Rightarrow> fs" where
  "write_hosts s r = with_etc (replace_at ''hosts'' HOSTS) s r"

text \<open>
  \<open>register_android_ids_at\<close>: \<open>user\<close> is the name \<open>getpwuid\<close> answers, if it does, \<open>gids\<close> the primary and
  the supplementary groups in order and \<open>group_name\<close> what \<open>getgrgid\<close> answers.
\<close>

record host_ids =
  hi_uid :: nat
  hi_gid :: nat
  hi_user :: "string option"
  hi_groups :: "nat list"
  hi_group_name :: "nat \<Rightarrow> string option"

definition NL :: string where
  "NL = [CHR 0x0A]"

fun dedupe :: "nat list \<Rightarrow> nat list \<Rightarrow> nat list" where
  "dedupe seen [] = []"
| "dedupe seen (g # gs) = (if g \<in> set seen then dedupe seen gs else g # dedupe (g # seen) gs)"

definition register_group :: "host_ids \<Rightarrow> string \<Rightarrow> path \<Rightarrow> fs \<Rightarrow> nat \<Rightarrow> fs" where
  "register_group h user d s g =
     (case hi_group_name h g of
        None \<Rightarrow> s
      | Some gname \<Rightarrow>
          (let s1 = snd (append_at True ''group''
                 (''aid_'' @ gname @ '':x:'' @ nat_str g @ '':root,aid_'' @ user @ NL) s d)
           in snd (append_at False ''gshadow'' (''aid_'' @ gname @ '':*::root,aid_'' @ user @ NL) s1 d)))"

definition register_android_ids_at :: "host_ids \<Rightarrow> fs \<Rightarrow> path \<Rightarrow> fs" where
  "register_android_ids_at h s d =
     (let s1 = foldl (\<lambda>t n. chmod_id_at n t d) s [''passwd'', ''shadow'', ''group'', ''gshadow''] in
      case hi_user h of
        None \<Rightarrow> s1
      | Some user \<Rightarrow>
          (case append_at True ''passwd''
                 (''aid_'' @ user @ '':x:'' @ nat_str (hi_uid h) @ '':'' @ nat_str (hi_gid h)
                   @ '':Termux:/:/sbin/nologin'' @ NL) s1 d of
             (False, s2) \<Rightarrow> s2
           | (True, s2) \<Rightarrow>
               (let s3 = snd (append_at True ''shadow'' (''aid_'' @ user @ '':*:18446:0:99999:7:::'' @ NL) s2 d)
                in foldl (register_group h user d) s3 (dedupe [] (hi_gid h # hi_groups h)))))"

subsection \<open>What the writes can reach\<close>

lemma safe_replace_at: "plain_name name \<Longrightarrow> prefix r d \<Longrightarrow> safe_step r s (replace_at name content s d)"
proof -
  assume n: "plain_name name" and d: "prefix r d"
  let ?s1 = "unlink_quietly s d name"
  have s1: "safe_step r s ?s1" using n d by (rule safe_unlink_quietly)
  show ?thesis
  proof (cases "open_new_at ?s1 d name 420")
    case (Inr x)
    obtain i t where x: "x = (i, t)" by (cases x)
    note o = safe_open_new [OF Inr [unfolded x] n d]
    have "keeps_bytes ?s1 (write_inode i ((f_data t i)\<lparr>fd_bytes := content\<rparr>) t)"
      using o(1,2) by (auto simp: safe_step_def keeps_bytes_def)
    then have "safe_step r ?s1 (write_inode i ((f_data t i)\<lparr>fd_bytes := content\<rparr>) t)"
      using o(1) by (simp add: safe_step_def ft.beyond_def)
    with s1 Inr x show ?thesis by (simp add: replace_at_def Let_def safe_trans)
  qed (use s1 in \<open>simp add: replace_at_def Let_def\<close>)
qed

lemma safe_with_etc:
  assumes "\<And>s. safe_step r s (f s (r @ [''etc'']))"
  shows "safe_step r s (with_etc f s r)"
proof -
  have "plain_name ''etc''" by (simp add: plain_name_def)
  with assms show ?thesis
    by (auto simp: with_etc_def open_etc_def opendir_at_def at_plain split: option.splits sum.splits node.splits)
qed



end
