(* ===== verification/Path_Resolve.thy ===== *)
theory Path_Resolve
  imports Tree_Removal
begin

text \<open>
  The two walks that stay inside a rootfs: \<open>safe_resolve_parts\<close> of \<open>tar_extract.py\<close>, which answers
  with components to be walked again, and \<open>_resolve\<close> of \<open>guestfile.py\<close>, which holds a descriptor at
  every level. Symbolic links are read as the guest reads them: an absolute target starts at the
  rootfs and \<open>..\<close> stops there. The rootfs is the path \<open>r\<close> of its descriptor.
\<close>

subsection \<open>\<open>safe_resolve_parts\<close>\<close>

definition LINK_BUDGET :: nat where
  "LINK_BUDGET = 40"

text \<open>
  The loop: what is left of the link budget, the components resolved so far, the ones to come. The
  lstat of a joined path is a look at that path; \<open>resolve_no_links\<close> below shows that no component
  on the way to it is a link, so the kernel would not go anywhere else either.
\<close>

function resolve_parts :: "fs \<Rightarrow> path \<Rightarrow> nat \<Rightarrow> string list \<Rightarrow> string list \<Rightarrow> string list option" where
  "resolve_parts s r b res [] = Some res"
| "resolve_parts s r b res (c # pending) =
     (if c = [] \<or> c = ''.'' then resolve_parts s r b res pending
      else if c = ''..'' then resolve_parts s r b (butlast res) pending
      else case node_at s (r @ res @ [c]) of
          None \<Rightarrow> resolve_parts s r b (res @ [c]) pending
        | Some (NLink target t) \<Rightarrow>
            (case b of
               0 \<Rightarrow> None
             | Suc b' \<Rightarrow>
                 resolve_parts s r b' (if starts_with ''/'' target then [] else res)
                   (split_on CHR ''/'' target @ pending))
        | Some _ \<Rightarrow> resolve_parts s r b (res @ [c]) pending)"
  by pat_completeness auto
termination
  by (relation "measures [\<lambda>(s, r, b, res, pending). b, \<lambda>(s, r, b, res, pending). length pending]") auto

definition safe_resolve_parts :: "fs \<Rightarrow> path \<Rightarrow> string list \<Rightarrow> string list option" where
  "safe_resolve_parts s r parts = resolve_parts s r LINK_BUDGET [] parts"

definition safe_resolve :: "fs \<Rightarrow> path \<Rightarrow> string list \<Rightarrow> path option" where
  "safe_resolve s r parts = map_option (\<lambda>q. r @ q) (safe_resolve_parts s r parts)"

definition no_slash :: "string \<Rightarrow> bool" where
  "no_slash n \<longleftrightarrow> CHR ''/'' \<notin> set n"

lemma split_no_slash: "list_all no_slash (split_on CHR ''/'' t)"
  using split_on_no_sep by (auto simp: list_all_iff no_slash_def)

lemma resolve_parts_plain:
  "resolve_parts s r b res pending = Some q \<Longrightarrow> list_all plain_name res \<Longrightarrow> list_all no_slash pending \<Longrightarrow>
     list_all plain_name q"
proof (induction s r b res pending rule: resolve_parts.induct)
  case (2 s r b res c pending)
  have bl: "list_all plain_name (butlast res)" using "2.prems"(2) by (auto simp: list_all_iff dest: in_set_butlastD)
  consider "c = [] \<or> c = ''.''" | "c \<noteq> []" "c \<noteq> ''.''" "c = ''..''"
    | "c \<noteq> []" "c \<noteq> ''.''" "c \<noteq> ''..''" by blast
  then show ?case
  proof cases
    case 3
    then have p: "plain_name c" using "2.prems"(3) by (simp add: plain_name_def no_slash_def)
    show ?thesis
    proof (cases "node_at s (r @ res @ [c])")
      case None
      with 3 p 2 show ?thesis by simp
    next
      case (Some x)
      show ?thesis
      proof (cases x)
        case (NLink g t)
        with 3 Some "2.prems"(1) obtain b' where b: "b = Suc b'" by (cases b) auto
        let ?res = "if starts_with ''/'' g then [] else res"
        have "resolve_parts s r b' ?res (split_on CHR ''/'' g @ pending) = Some q"
          using "2.prems"(1) 3 Some NLink b by simp
        moreover have "list_all plain_name ?res" "list_all no_slash (split_on CHR ''/'' g @ pending)"
          using "2.prems" split_no_slash by auto
        ultimately show ?thesis using "2.IH"(6) [OF _ 3(3) Some NLink b] 3 by blast
      qed (use 3 p 2 Some in auto)
    qed
  qed (use 2 bl in auto)
qed simp

text \<open>No component on the way to the answer is a link.\<close>

definition no_links :: "fs \<Rightarrow> path \<Rightarrow> string list \<Rightarrow> bool" where
  "no_links s r q \<longleftrightarrow>
     (\<forall>i < Suc (length q). \<forall>x. node_at s (r @ take i q) = Some x \<longrightarrow> \<not> is_link_node x)"

lemma no_links_snoc:
  "no_links s r q \<Longrightarrow> (\<And>x. node_at s (r @ q @ [c]) = Some x \<Longrightarrow> \<not> is_link_node x) \<Longrightarrow> no_links s r (q @ [c])"
  by (auto simp: no_links_def less_Suc_eq)

lemma no_links_butlast: "no_links s r q \<Longrightarrow> no_links s r (butlast q)"
  by (auto simp: no_links_def butlast_conv_take min_def) (metis less_Suc_eq_le le_trans diff_le_self)

lemma resolve_no_links:
  "resolve_parts s r b res pending = Some q \<Longrightarrow> no_links s r [] \<Longrightarrow> no_links s r res \<Longrightarrow> no_links s r q"
proof (induction s r b res pending rule: resolve_parts.induct)
  case (2 s r b res c pending)
  show ?case
  proof (cases "c = [] \<or> c = ''.'' \<or> c = ''..''")
    case True
    with 2 no_links_butlast show ?thesis by (auto split: if_splits)
  next
    case False
    show ?thesis
    proof (cases "node_at s (r @ res @ [c])")
      case None
      with 2 False no_links_snoc [of s r res c] show ?thesis by simp
    next
      case (Some x)
      show ?thesis
      proof (cases "is_link_node x")
        case True
        then obtain g t where x: "x = NLink g t" by (cases x) auto
        with Some False 2 show ?thesis by (cases b) (auto split: if_splits)
      next
        case nl: False
        have step: "resolve_parts s r b (res @ [c]) pending = Some q"
          using "2.prems"(1) Some False nl by (cases x) auto
        have "no_links s r (res @ [c])" using "2.prems" Some nl by (intro no_links_snoc) auto
        with step 2 Some False nl show ?thesis by (cases x) auto
      qed
    qed
  qed
qed simp

lemma open_level_no_loop:
  assumes "open_level c s d n = (res, t)" and "plain_name n"
    and "\<And>x. node_at s (d @ [n]) = Some x \<Longrightarrow> \<not> is_link_node x"
  shows "res \<noteq> Inl ELOOP" and "node_at t q = Some x \<Longrightarrow> is_link_node x \<Longrightarrow> node_at s q = Some x"
  using assms
  by (auto simp: open_level_def opendir_at_def at_plain mkdir_at_def
      split: sum.splits if_splits option.splits node.splits)

lemma descend_no_loop:
  "descend_at c s d q = (res, t) \<Longrightarrow> list_all plain_name q \<Longrightarrow>
     \<forall>i < Suc (length q). \<forall>x. node_at s (d @ take i q) = Some x \<longrightarrow> \<not> is_link_node x \<Longrightarrow> res \<noteq> Inl ELOOP"
proof (induction c s d q arbitrary: res t rule: descend_at.induct)
  case (2 c s d n)
  then have "\<And>x. node_at s (d @ [n]) = Some x \<Longrightarrow> \<not> is_link_node x" by (auto dest: spec [of _ 1])
  with 2 open_level_no_loop(1) [of c s d n res t] show ?case by auto
next
  case (3 c s d n m ns)
  obtain o1 u where l: "open_level c s d n = (o1, u)" by (cases "open_level c s d n")
  have n: "plain_name n" and nl: "\<And>x. node_at s (d @ [n]) = Some x \<Longrightarrow> \<not> is_link_node x"
    using "3.prems"(2,3) by (auto dest: spec [of _ 1])
  note op = open_level_no_loop [OF l n nl]
  show ?case
  proof (cases o1)
    case (Inl e)
    with l "3.prems"(1) op(1) show ?thesis by auto
  next
    case (Inr p)
    then have p: "p = d @ [n]" using open_level_safe [OF l n, of d] by simp
    have "\<not> is_link_node x" if "i < Suc (length (m # ns))" "node_at u (p @ take i (m # ns)) = Some x" for i x
    proof
      assume "is_link_node x"
      with op(2) that(2) have "node_at s (d @ take (Suc i) (n # m # ns)) = Some x" by (simp add: p)
      with "3.prems"(3) that(1) \<open>is_link_node x\<close> show False by fastforce
    qed
    moreover have "descend_at c u p (m # ns) = (res, t)" using "3.prems"(1) l Inr by simp
    ultimately show ?thesis using l Inr "3.prems"(2) by (intro "3.IH") auto
  qed
qed (auto split: if_splits)

subsection \<open>\<open>guestfile._resolve\<close>\<close>

definition MAX_SYMLINK_HOPS :: nat where
  "MAX_SYMLINK_HOPS = 40"

definition MAX_PATH_COMPONENTS :: nat where
  "MAX_PATH_COMPONENTS = 4096"

text \<open>
  The walk. \<open>trail\<close> are the names of the levels between the rootfs and the current descriptor; the
  identity check on the way up compares the level \<open>..\<close> opens with the one the walk came down from.
  \<open>l2s levels name target\<close> is \<open>_l2s_parts\<close>, the components of the file a hard-link stand-in of proot
  really names.
\<close>

type_synonym l2s_rule = "string list \<Rightarrow> string \<Rightarrow> string \<Rightarrow> string list option"

function guest_walk ::
  "fs \<Rightarrow> path \<Rightarrow> l2s_rule \<Rightarrow> string list \<Rightarrow> string list \<Rightarrow> nat \<Rightarrow> nat \<Rightarrow> (string list \<times> string \<times> node) option" where
  "guest_walk s r l2s trail [] hops steps = None"
| "guest_walk s r l2s trail (part # pending) hops steps =
     (if MAX_PATH_COMPONENTS < Suc steps then None
      else if part = [] \<or> part = ''.'' then guest_walk s r l2s trail pending hops (Suc steps)
      else if part = ''..'' then
        (if trail = [] then guest_walk s r l2s trail pending hops (Suc steps)
         else case opendir_at s (r @ trail) ''..'' of
             Inl e \<Rightarrow> None
           | Inr up \<Rightarrow>
               (if up \<noteq> r @ butlast trail then None
                else guest_walk s r l2s (butlast trail) pending hops (Suc steps)))
      else case lstat_at s (r @ trail) part of
          Inl e \<Rightarrow> None
        | Inr st \<Rightarrow>
            (if is_link_node st then
               (if MAX_SYMLINK_HOPS < Suc hops then None
                else case readlink_at s (r @ trail) part of
                    Inl e \<Rightarrow> None
                  | Inr target \<Rightarrow>
                      (case l2s trail part target of
                         None \<Rightarrow>
                           (if starts_with ''/'' target
                            then guest_walk s r l2s [] (split_on CHR ''/'' target @ pending) (Suc hops) (Suc steps)
                            else guest_walk s r l2s trail (split_on CHR ''/'' target @ pending) (Suc hops) (Suc steps))
                       | Some backing \<Rightarrow> guest_walk s r l2s [] (backing @ pending) (Suc hops) (Suc steps)))
             else if is_dir_node st then
               (case opendir_at s (r @ trail) part of
                  Inl e \<Rightarrow> None
                | Inr p \<Rightarrow> guest_walk s r l2s (trail @ [part]) pending hops (Suc steps))
             else if list_ex (\<lambda>p. p \<noteq> [] \<and> p \<noteq> ''.'') pending then None
             else Some (trail, part, st)))"
  by pat_completeness auto
termination
  by (relation "measure (\<lambda>(s, r, l2s, trail, pending, hops, steps). MAX_PATH_COMPONENTS - steps)") auto

declare guest_walk.simps(2) [simp del]

definition guest_resolve :: "fs \<Rightarrow> path \<Rightarrow> l2s_rule \<Rightarrow> string \<Rightarrow> (string list \<times> string \<times> node) option" where
  "guest_resolve s r l2s guest_path =
     (if \<not> is_dir s r then None else guest_walk s r l2s [] (split_on CHR ''/'' guest_path) 0 0)"

definition open_guest_fd :: "fs \<Rightarrow> path \<Rightarrow> l2s_rule \<Rightarrow> string \<Rightarrow> nat option" where
  "open_guest_fd s r l2s guest_path =
     (case guest_resolve s r l2s guest_path of
        None \<Rightarrow> None
      | Some (levels, name, st) \<Rightarrow>
          (if \<not> is_file_node st then None
           else case open_regular_at s (r @ levels) name of Inl e \<Rightarrow> None | Inr i \<Rightarrow> Some i))"

definition guest_file_exists :: "fs \<Rightarrow> path \<Rightarrow> l2s_rule \<Rightarrow> string \<Rightarrow> bool" where
  "guest_file_exists s r l2s guest_path \<longleftrightarrow>
     (case guest_resolve s r l2s guest_path of
        None \<Rightarrow> False
      | Some (levels, name, st) \<Rightarrow> is_file_node st)"

text \<open>The capped reads: \<open>cap\<close> is \<open>MAX_ID_FILE_BYTES\<close>, 1 MiB.\<close>

definition MAX_ID_FILE_BYTES :: nat where
  "MAX_ID_FILE_BYTES = 1048576"

definition upto_last_newline :: "string \<Rightarrow> string" where
  "upto_last_newline t = rev (dropWhile (\<lambda>c. c \<noteq> CHR 0x0A) (rev t))"

definition read_capped :: "nat \<Rightarrow> string \<Rightarrow> string" where
  "read_capped cap content =
     (let data = take (cap + 1) content in
      if length data \<le> cap then data else upto_last_newline (take cap data))"

definition read_guest_file :: "fs \<Rightarrow> path \<Rightarrow> l2s_rule \<Rightarrow> string \<Rightarrow> string option" where
  "read_guest_file s r l2s guest_path =
     (case open_guest_fd s r l2s guest_path of
        None \<Rightarrow> None
      | Some i \<Rightarrow> Some (read_capped MAX_ID_FILE_BYTES (fd_bytes (f_data s i))))"

definition read_guest_bytes :: "fs \<Rightarrow> path \<Rightarrow> l2s_rule \<Rightarrow> string \<Rightarrow> nat \<Rightarrow> string option" where
  "read_guest_bytes s r l2s guest_path len =
     (case open_guest_fd s r l2s guest_path of
        None \<Rightarrow> None
      | Some i \<Rightarrow> Some (take len (fd_bytes (f_data s i))))"

definition no_l2s :: l2s_rule where
  "no_l2s trail name target = None"

lemma resolve_skip:
  "list_all (\<lambda>p. p = [] \<or> p = ''.'') pending \<Longrightarrow> resolve_parts s r b res pending = Some res"
  by (induction pending) auto

lemma guest_walk_agrees:
  "guest_walk s r l2s trail pending hops steps = Some (levels, name, st) \<Longrightarrow> l2s = no_l2s \<Longrightarrow> hops \<le> 40 \<Longrightarrow>
     resolve_parts s r (40 - hops) trail pending = Some (levels @ [name])
     \<and> node_at s (r @ levels @ [name]) = Some st \<and> \<not> is_link_node st \<and> \<not> is_dir_node st"
proof (induction s r l2s trail pending hops steps rule: guest_walk.induct)
  case (2 s r l2s trail part pending hops steps)
  note eq = "2.prems"(1) [unfolded guest_walk.simps(2) [of s r l2s trail part pending hops steps]]
  consider (skip) "part = [] \<or> part = ''.''" | (up) "part = ''..''"
    | (name) "part \<noteq> []" "part \<noteq> ''.''" "part \<noteq> ''..''" by blast
  then show ?case
  proof cases
    case skip
    with eq 2 show ?thesis by (auto split: if_splits)
  next
    case up
    show ?thesis
    proof (cases "trail = []")
      case True
      with eq up 2 show ?thesis by (auto split: if_splits)
    next
      case False
      have lim: "\<not> MAX_PATH_COMPONENTS < Suc steps" using eq by (auto split: if_splits)
      from eq up False lim have o: "opendir_at s (r @ trail) ''..'' = Inr (r @ butlast trail)"
        by (auto split: if_splits sum.splits)
      with eq up False lim have w: "guest_walk s r l2s (butlast trail) pending hops (Suc steps) = Some (levels, name, st)"
        by simp
      have "resolve_parts s r (40 - hops) (butlast trail) pending = Some (levels @ [name])
          \<and> node_at s (r @ levels @ [name]) = Some st \<and> \<not> is_link_node st \<and> \<not> is_dir_node st"
        using "2.IH"(3) [OF lim _ up False o _ w] up "2.prems"(2,3) by simp
      with up show ?thesis by simp
    qed
  next
    case name
    have at: "at (r @ trail) part = r @ trail @ [part]" using name by (simp add: at_def)
    from eq name obtain x where x: "node_at s (r @ trail @ [part]) = Some x" "lstat_at s (r @ trail) part = Inr x"
      by (auto simp: lstat_at_def at split: if_splits option.splits)
    have lim: "\<not> MAX_PATH_COMPONENTS < Suc steps" using eq by (auto split: if_splits)
    show ?thesis
    proof (cases x)
      case (NLink g t)
      have h: "\<not> MAX_SYMLINK_HOPS < Suc hops" using eq name x NLink lim by (auto split: if_splits)
      then have b: "40 - hops = Suc (40 - Suc hops)" by (simp add: MAX_SYMLINK_HOPS_def)
      have rl: "readlink_at s (r @ trail) part = Inr g" using x NLink by (simp add: readlink_at_def at)
      have no: "l2s trail part g = None" using "2.prems"(2) by (simp add: no_l2s_def)
      let ?tr = "if starts_with ''/'' g then [] else trail"
      have w: "guest_walk s r l2s ?tr (split_on CHR ''/'' g @ pending) (Suc hops) (Suc steps) = Some (levels, name, st)"
        using eq name x NLink h rl no lim by (simp split: if_splits)
      have lnk: "is_link_node x" and le: "Suc hops \<le> 40" using NLink h by (simp_all add: MAX_SYMLINK_HOPS_def)
      have "resolve_parts s r (40 - Suc hops) ?tr (split_on CHR ''/'' g @ pending) = Some (levels @ [name])
          \<and> node_at s (r @ levels @ [name]) = Some st \<and> \<not> is_link_node st \<and> \<not> is_dir_node st"
      proof (cases "starts_with ''/'' g")
        case True
        with w have "guest_walk s r l2s [] (split_on CHR ''/'' g @ pending) (Suc hops) (Suc steps) = Some (levels, name, st)"
          by simp
        from "2.IH"(4) [OF lim _ name(3) x(2) lnk h rl no True this "2.prems"(2) le] name True show ?thesis by simp
      next
        case False
        with w have "guest_walk s r l2s trail (split_on CHR ''/'' g @ pending) (Suc hops) (Suc steps) = Some (levels, name, st)"
          by simp
        from "2.IH"(5) [OF lim _ name(3) x(2) lnk h rl no False this "2.prems"(2) le] name False show ?thesis by simp
      qed
      with x NLink name b show ?thesis by simp
    next
      case (NDir m t)
      have o: "opendir_at s (r @ trail) part = Inr (r @ trail @ [part])" using x NDir by (simp add: opendir_at_def at)
      with eq name x NDir lim
      have w: "guest_walk s r l2s (trail @ [part]) pending hops (Suc steps) = Some (levels, name, st)"
        by simp
      have "resolve_parts s r (40 - hops) (trail @ [part]) pending = Some (levels @ [name])
          \<and> node_at s (r @ levels @ [name]) = Some st \<and> \<not> is_link_node st \<and> \<not> is_dir_node st"
        using "2.IH"(7) [OF lim _ name(3) x(2) _ _ o w] name NDir "2.prems"(2,3) by simp
      with x NDir name show ?thesis by simp
    next
      case (NFile i)
      with eq name x lim have *: "levels = trail" "part = name" "st = x"
        and p: "\<not> list_ex (\<lambda>p. p \<noteq> [] \<and> p \<noteq> ''.'') pending" by (auto split: if_splits)
      have "list_all (\<lambda>p. p = [] \<or> p = ''.'') pending" using p by (induction pending) auto
      from resolve_skip [OF this] show ?thesis using NFile name x * by simp
    next
      case NSpecial
      with eq name x lim have *: "levels = trail" "part = name" "st = x"
        and p: "\<not> list_ex (\<lambda>p. p \<noteq> [] \<and> p \<noteq> ''.'') pending" by (auto split: if_splits)
      have "list_all (\<lambda>p. p = [] \<or> p = ''.'') pending" using p by (induction pending) auto
      from resolve_skip [OF this] show ?thesis using NSpecial name x * by simp
    qed
  qed
qed simp

subsection \<open>The resolved answers\<close>

text \<open>C17. Whatever links an archive planted, the path safe_resolve_parts answers has only plain
  components and no symbolic link on the way, so opening it level by level without following links never
  stops at a link.\<close>

theorem resolved_path_has_no_links:
  assumes "safe_resolve_parts s r parts = Some q" and "list_all no_slash parts"
    and "case node_at s r of None \<Rightarrow> True | Some x \<Rightarrow> \<not> is_link_node x"
  shows "list_all plain_name q \<and> (\<forall>i < Suc (length q). \<forall>x. node_at s (r @ take i q) = Some x \<longrightarrow> \<not> is_link_node x)
    \<and> fst (descend_at c s r q) \<noteq> Inl ELOOP"
proof -
  have e: "resolve_parts s r LINK_BUDGET [] parts = Some q" using assms(1) by (simp add: safe_resolve_parts_def)
  have pl: "list_all plain_name q" using resolve_parts_plain [OF e _ assms(2)] by simp
  have "no_links s r []" using assms(3) by (auto simp: no_links_def split: option.splits)
  with resolve_no_links [OF e] have nl: "no_links s r q" by simp
  then have "\<forall>i < Suc (length q). \<forall>x. node_at s (r @ take i q) = Some x \<longrightarrow> \<not> is_link_node x" by (simp add: no_links_def)
  moreover obtain res t where d: "descend_at c s r q = (res, t)" by (cases "descend_at c s r q")
  ultimately show ?thesis using descend_no_loop [OF d pl] pl by simp
qed

theorem resolved_path_has_no_links_witness:
  "fst (descend_at True (sample_fs [([], NDir 493 0), ([''r''], NDir 493 0), ([''r'', ''a''], NLink ''/../../h'' 0)])
     [''r''] [''h'', ''x'']) \<noteq> Inl ELOOP"
proof -
  let ?s = "sample_fs [([], NDir 493 0), ([''r''], NDir 493 0), ([''r'', ''a''], NLink ''/../../h'' 0)]"
  have "safe_resolve_parts ?s [''r''] [''a'', ''x''] = Some [''h'', ''x'']" "list_all no_slash [''a'', ''x'']"
    "case node_at ?s [''r''] of None \<Rightarrow> True | Some x \<Rightarrow> \<not> is_link_node x" by code_simp+
  from resolved_path_has_no_links [OF this] show ?thesis by simp
qed

text \<open>C18. The two resolvers agree: a guest file the descriptor walk of guestfile.py opens (no hard-link
  stand-in on the way) is the regular file at the path the extractor's resolver answers for the same name,
  inside the rootfs.\<close>

theorem guest_open_agrees:
  assumes "open_guest_fd s r no_l2s name = Some i"
  shows "\<exists>q. safe_resolve_parts s r (split_on CHR ''/'' name) = Some q \<and> node_at s (r @ q) = Some (NFile i)"
proof -
  from assms obtain levels n st where w: "guest_walk s r no_l2s [] (split_on CHR ''/'' name) 0 0 = Some (levels, n, st)"
    "open_regular_at s (r @ levels) n = Inr i"
    by (auto simp: open_guest_fd_def guest_resolve_def split: option.splits if_splits sum.splits)
  from guest_walk_agrees [OF w(1)] have a: "resolve_parts s r 40 [] (split_on CHR ''/'' name) = Some (levels @ [n])"
    "node_at s (r @ levels @ [n]) = Some st" "\<not> is_link_node st" by simp_all
  have "list_all plain_name (levels @ [n])"
    using resolve_parts_plain [OF a(1)] split_no_slash [of name] by simp
  with w(2) a(2,3) have "st = NFile i"
    by (auto simp: open_regular_at_def at_plain split: node.splits option.splits)
  with a show ?thesis by (auto simp: safe_resolve_parts_def LINK_BUDGET_def)
qed

theorem guest_open_agrees_witness:
  "case safe_resolve_parts (sample_fs [([], NDir 493 0), ([''r''], NDir 493 0), ([''r'', ''etc''], NDir 493 0),
      ([''r'', ''etc'', ''os''], NLink ''../p'' 0), ([''r'', ''p''], NFile 3)]) [''r''] (split_on CHR ''/'' ''/etc/os'') of
     None \<Rightarrow> False | Some q \<Rightarrow> q = [''p'']"
proof -
  let ?s = "sample_fs [([], NDir 493 0), ([''r''], NDir 493 0), ([''r'', ''etc''], NDir 493 0),
      ([''r'', ''etc'', ''os''], NLink ''../p'' 0), ([''r'', ''p''], NFile 3)]"
  have "open_guest_fd ?s [''r''] no_l2s ''/etc/os'' = Some 3" by code_simp
  from guest_open_agrees [OF this] obtain q where "safe_resolve_parts ?s [''r''] (split_on CHR ''/'' ''/etc/os'') = Some q" by blast
  moreover have "safe_resolve_parts ?s [''r''] (split_on CHR ''/'' ''/etc/os'') = Some [''p'']" by code_simp
  ultimately show ?thesis by simp
qed

end
