(* ===== verification/Tar_Extract.thy ===== *)
theory Tar_Extract
  imports Path_Resolve
begin

text \<open>
  \<open>helpers/tar_extract.py\<close>: writing the members of an archive under a pinned rootfs, with OCI
  whiteouts, deferred hard links and deferred directory times. The archive is the list of its
  members, as \<open>tarfile\<close> yields them; the rootfs is the path of its descriptor. \<open>Inl\<close> is the OSError
  that ends the extraction.
\<close>

datatype member_kind = TReg string | TDir | TSym string | TLnk string | TDevice | TOther

record member =
  tm_name :: string
  tm_kind :: member_kind
  tm_mode :: nat
  tm_mtime :: int

text \<open>What the loop carries: the tree, the key of the cached parent descriptor, the two queues.\<close>

record xstate =
  x_fs :: fs
  x_cache :: "string list option"
  x_links :: "(string list \<times> string list) list"
  x_dirs :: "(string list \<times> int) list"

definition S_IMODE :: "nat \<Rightarrow> nat" where
  "S_IMODE m = m mod 4096"

definition parents_get :: "path \<Rightarrow> bool \<Rightarrow> xstate \<Rightarrow> string list \<Rightarrow> (errno + path) \<times> xstate" where
  "parents_get r create x parts =
     (if x_cache x = Some parts then (Inr (r @ parts), x)
      else case descend_at create (x_fs x) r parts of
          (Inr p, s) \<Rightarrow> (Inr p, x\<lparr>x_fs := s, x_cache := Some parts\<rparr>)
        | (Inl e, s) \<Rightarrow> (Inl e, x\<lparr>x_fs := s, x_cache := None\<rparr>))"

subsection \<open>Entries\<close>

definition OPAQUE :: string where
  "OPAQUE = ''.wh..wh..opq''"

definition WH_PREFIX :: string where
  "WH_PREFIX = ''.wh.''"

definition is_whiteout :: "string \<Rightarrow> bool" where
  "is_whiteout n \<longleftrightarrow> n = OPAQUE \<or> starts_with WH_PREFIX n"

fun clear_entries :: "fs \<Rightarrow> path \<Rightarrow> string list \<Rightarrow> (errno + unit) \<times> fs" where
  "clear_entries s d [] = (Inr (), s)"
| "clear_entries s d (n # ns) =
     (case rmtree_at True False s d n of
        (Inl e, t) \<Rightarrow> (Inl e, t)
      | (Inr ok, t) \<Rightarrow> clear_entries t d ns)"

definition apply_whiteout :: "fs \<Rightarrow> path \<Rightarrow> string \<Rightarrow> (errno + unit) \<times> fs" where
  "apply_whiteout s d n =
     (if n = OPAQUE then clear_entries s d (listdir_at s d)
      else if starts_with WH_PREFIX n then
        (let target = drop 4 n in
         if target \<noteq> [] \<and> target \<noteq> ''.'' \<and> target \<noteq> ''..'' then clear_entries s d [target]
         else (Inr (), s))
      else (Inr (), s))"

definition quiet :: "errno + fs \<Rightarrow> fs \<Rightarrow> fs" where
  "quiet res s = (case res of Inr t \<Rightarrow> t | Inl e \<Rightarrow> s)"

text \<open>A directory member: a link under the name goes first, a directory already there is kept.\<close>

definition drop_link :: "fs \<Rightarrow> path \<Rightarrow> string \<Rightarrow> fs" where
  "drop_link s d n =
     (case lstat_at s d n of
        Inr x \<Rightarrow> (if is_link_node x then unlink_quietly s d n else s)
      | Inl e \<Rightarrow> s)"

definition write_dir :: "fs \<Rightarrow> path \<Rightarrow> string \<Rightarrow> nat \<Rightarrow> (errno + unit) \<times> fs" where
  "write_dir s d n m =
     (let s1 = drop_link s d n in
      case mkdir_at s1 d n 511 of
        Inr s2 \<Rightarrow> (Inr (), snd (chmod_at s2 d n (or (S_IMODE m) 448) False))
      | Inl e \<Rightarrow>
          (if e = EEXIST \<and> (case lstat_at s1 d n of Inr x \<Rightarrow> is_dir_node x | Inl e' \<Rightarrow> False)
           then (Inr (), snd (chmod_at s1 d n (or (S_IMODE m) 448) False))
           else (Inl e, s1)))"

definition write_symlink :: "fs \<Rightarrow> path \<Rightarrow> string \<Rightarrow> string \<Rightarrow> int \<Rightarrow> (errno + unit) \<times> fs" where
  "write_symlink s d n target mtime =
     (case (if exists_at s d n then rmtree_at True False s d n else (Inr True, s)) of
        (Inl e, t) \<Rightarrow> (Inl e, t)
      | (Inr ok, t) \<Rightarrow>
          (case symlink_at t target d n of
             Inl e \<Rightarrow> (Inr (), t)
           | Inr u \<Rightarrow> (Inr (), quiet (utime_at u d n mtime) u)))"

definition write_regular :: "fs \<Rightarrow> path \<Rightarrow> string \<Rightarrow> string \<Rightarrow> nat \<Rightarrow> int \<Rightarrow> (errno + unit) \<times> fs" where
  "write_regular s d n bytes m mtime =
     (case open_new_at s d n (S_IMODE m) of
        Inl e \<Rightarrow> (Inl e, s)
      | Inr (i, t) \<Rightarrow>
          (let u = write_inode i \<lparr>fd_bytes = bytes, fd_mode = S_IMODE m, fd_mtime = fd_mtime (f_data t i)\<rparr> t
           in (Inr (), quiet (utime_at u d n mtime) u)))"

text \<open>The components of a name below \<open>strip\<close> leading ones; \<open>None\<close> when the entry is dropped.\<close>

definition name_parts :: "nat \<Rightarrow> string \<Rightarrow> string list option" where
  "name_parts strip n =
     (let parts = split_on CHR ''/'' (rstrip_by (\<lambda>c. c = CHR ''/'') (lstrip_by (\<lambda>c. c = CHR ''/'') n)) in
      if length parts \<le> strip then None
      else let rel = drop strip parts in
        if list_ex (\<lambda>p. p = ''..'' \<or> p = []) rel then None else Some rel)"

definition defer_hardlink :: "nat \<Rightarrow> string \<Rightarrow> string list \<Rightarrow> xstate \<Rightarrow> xstate" where
  "defer_hardlink strip linkname rel x =
     (case name_parts strip linkname of
        None \<Rightarrow> x
      | Some lrel \<Rightarrow> x\<lparr>x_links := x_links x @ [(rel, lrel)]\<rparr>)"

definition with_fs :: "xstate \<Rightarrow> (errno + unit) \<times> fs \<Rightarrow> (errno + unit) \<times> xstate" where
  "with_fs x p = (fst p, x\<lparr>x_fs := snd p\<rparr>)"

definition write_member ::
  "nat \<Rightarrow> member \<Rightarrow> string list \<Rightarrow> string list \<Rightarrow> path \<Rightarrow> xstate \<Rightarrow> (errno + unit) \<times> xstate" where
  "write_member strip m rel parent d x =
     (let n = last rel in
      case tm_kind m of
        TDir \<Rightarrow>
          (case with_fs x (write_dir (x_fs x) d n (tm_mode m)) of
             (Inr u, y) \<Rightarrow> (Inr (), y\<lparr>x_dirs := x_dirs y @ [(parent @ [n], tm_mtime m)]\<rparr>)
           | (Inl e, y) \<Rightarrow> (Inl e, y))
      | TSym target \<Rightarrow> with_fs x (write_symlink (x_fs x) d n target (tm_mtime m))
      | TLnk linkname \<Rightarrow> (Inr (), defer_hardlink strip linkname rel x)
      | TReg bytes \<Rightarrow> with_fs x (write_regular (x_fs x) d n bytes (tm_mode m) (tm_mtime m))
      | _ \<Rightarrow> (Inr (), x))"

definition process_member :: "path \<Rightarrow> nat \<Rightarrow> bool \<Rightarrow> xstate \<Rightarrow> member \<Rightarrow> (errno + unit) \<times> xstate" where
  "process_member r strip whiteouts x m =
     (if tm_kind m = TDevice then (Inr (), x)
      else case name_parts strip (tm_name m) of
          None \<Rightarrow> (Inr (), x)
        | Some rel \<Rightarrow>
            (if last rel = ''.'' then (Inr (), x)
             else case safe_resolve_parts (x_fs x) r (butlast rel) of
                 None \<Rightarrow> (Inr (), x)
               | Some parent \<Rightarrow>
                   (if whiteouts \<and> is_whiteout (last rel) then
                      (case parents_get r False x parent of
                         (Inl e, y) \<Rightarrow> (Inr (), y)
                       | (Inr d, y) \<Rightarrow> with_fs y (apply_whiteout (x_fs y) d (last rel)))
                    else
                      (case parents_get r True x parent of
                         (Inl e, y) \<Rightarrow> (Inl e, y)
                       | (Inr d, y) \<Rightarrow> write_member strip m rel parent d y))))"

fun process_members :: "path \<Rightarrow> nat \<Rightarrow> bool \<Rightarrow> xstate \<Rightarrow> member list \<Rightarrow> (errno + unit) \<times> xstate" where
  "process_members r strip wh x [] = (Inr (), x)"
| "process_members r strip wh x (m # ms) =
     (case process_member r strip wh x m of
        (Inl e, y) \<Rightarrow> (Inl e, y)
      | (Inr u, y) \<Rightarrow> process_members r strip wh y ms)"

subsection \<open>After the last member\<close>

definition copy_file_new :: "fs \<Rightarrow> path \<Rightarrow> string \<Rightarrow> path \<Rightarrow> string \<Rightarrow> fs" where
  "copy_file_new s sd sn dd dn =
     (case open_regular_at s sd sn of
        Inl e \<Rightarrow> s
      | Inr i \<Rightarrow>
          (case open_new_at s dd dn (S_IMODE (fd_mode (f_data s i))) of
             Inl e \<Rightarrow> s
           | Inr (j, t) \<Rightarrow>
               write_inode j ((f_data s i)\<lparr>fd_mode := S_IMODE (fd_mode (f_data s i))\<rparr>) t))"

definition copy_hardlink :: "path \<Rightarrow> xstate \<Rightarrow> string list \<times> string list \<Rightarrow> xstate" where
  "copy_hardlink r x link =
     (case (safe_resolve_parts (x_fs x) r (snd link), safe_resolve_parts (x_fs x) r (fst link)) of
        (Some src, Some dest) \<Rightarrow>
          (if src = [] \<or> dest = [] then x
           else case fst (descend_at False (x_fs x) r (butlast src)) of
               Inl e \<Rightarrow> x
             | Inr sd \<Rightarrow>
                 (case lstat_at (x_fs x) sd (last src) of
                    Inl e \<Rightarrow> x
                  | Inr st \<Rightarrow>
                      (if \<not> is_file_node st then x
                       else case parents_get r True x (butlast dest) of
                           (Inl e, y) \<Rightarrow> y
                         | (Inr dd, y) \<Rightarrow>
                             y\<lparr>x_fs := copy_file_new (unlink_quietly (x_fs y) dd (last dest))
                                 sd (last src) dd (last dest)\<rparr>)))
      | _ \<Rightarrow> x)"

definition stamp_dir :: "path \<Rightarrow> xstate \<Rightarrow> string list \<times> int \<Rightarrow> xstate" where
  "stamp_dir r x entry =
     (case parents_get r False x (butlast (fst entry)) of
        (Inl e, y) \<Rightarrow> y
      | (Inr d, y) \<Rightarrow> y\<lparr>x_fs := quiet (utime_at (x_fs y) d (last (fst entry)) (snd entry)) (x_fs y)\<rparr>)"

definition extract_stream :: "path \<Rightarrow> nat \<Rightarrow> bool \<Rightarrow> fs \<Rightarrow> member list \<Rightarrow> (errno + unit) \<times> fs" where
  "extract_stream r strip wh s ms =
     (case process_members r strip wh \<lparr>x_fs = s, x_cache = None, x_links = [], x_dirs = []\<rparr> ms of
        (Inl e, x) \<Rightarrow> (Inl e, x_fs x)
      | (Inr u, x) \<Rightarrow>
          (let y = foldl (copy_hardlink r) x (x_links x);
               z = foldl (stamp_dir r) y (rev (x_dirs x))
           in (Inr (), x_fs z)))"

text \<open>
  \<open>extract_tar_fd_to_rootfs\<close> with an expected hash, and \<open>apply_layer\<close>: the blob is hashed as it is
  read and the total compared at the end. \<open>hash\<close> is SHA-256 and \<open>members\<close> the tar reader.
\<close>

datatype apply_error = AOs errno | ADigest

definition apply_layer ::
  "(string \<Rightarrow> string) \<Rightarrow> (string \<Rightarrow> member list) \<Rightarrow> string \<Rightarrow> string \<Rightarrow> path \<Rightarrow> fs \<Rightarrow> (apply_error + unit) \<times> fs" where
  "apply_layer hash members blob expected r s =
     (case extract_stream r 0 True s (members blob) of
        (Inl e, t) \<Rightarrow> (Inl (AOs e), t)
      | (Inr u, t) \<Rightarrow>
          (if expected \<noteq> [] \<and> hash blob \<noteq> expected then (Inl ADigest, t) else (Inr (), t)))"

subsection \<open>Confinement\<close>

lemma clear_entries_safe:
  "clear_entries s d ns = (res, t) \<Longrightarrow> wf_fs s \<Longrightarrow> list_all plain_name ns \<Longrightarrow> prefix r d \<Longrightarrow> safe_step r s t"
proof (induction ns arbitrary: s)
  case (Cons n ns)
  obtain o1 u where u: "rmtree_at True False s d n = (o1, u)" by (cases "rmtree_at True False s d n")
  have su: "safe_step r s u" using rmtree_safe [OF u] Cons.prems by simp
  show ?case
  proof (cases o1)
    case (Inr ok)
    with u Cons su safe_wf [OF su] have "safe_step r u t" by simp
    with su show ?thesis by (rule safe_trans)
  qed (use u su Cons in simp)
qed simp

lemma apply_whiteout_safe:
  assumes "apply_whiteout s d n = (res, t)" and "wf_fs s" and "no_slash n" and "prefix r d"
  shows "safe_step r s t"
proof -
  have l: "list_all plain_name (listdir_at s d)" using listdir_plain [OF assms(2)] by (simp add: list_all_iff)
  have "no_slash (drop 4 n)" using assms(3) by (auto simp: no_slash_def dest: in_set_dropD)
  then have "list_all plain_name [drop 4 n]" if "drop 4 n \<noteq> []" "drop 4 n \<noteq> ''.''" "drop 4 n \<noteq> ''..''"
    using that by (simp add: plain_name_def no_slash_def)
  with l assms show ?thesis
    by (auto simp: apply_whiteout_def Let_def simp del: clear_entries.simps split: if_splits
        intro: clear_entries_safe)
qed

lemma safe_quiet_utime:
  "plain_name n \<Longrightarrow> prefix r d \<Longrightarrow> safe_step r s (quiet (utime_at s d n t) s)"
  by (auto simp: quiet_def split: sum.splits intro: safe_utime)

lemma drop_link_safe: "plain_name n \<Longrightarrow> prefix r d \<Longrightarrow> safe_step r s (drop_link s d n)"
  by (auto simp: drop_link_def split: sum.splits intro: safe_unlink_quietly)

lemma write_dir_safe:
  assumes "write_dir s d n m = (res, t)" and "plain_name n" and "prefix r d"
  shows "safe_step r s t"
proof -
  define s1 where "s1 = drop_link s d n"
  have 1: "safe_step r s s1" unfolding s1_def using assms(2,3) by (rule drop_link_safe)
  have ch: "safe_step r u (snd (chmod_at u d n k b))" for u k b
    using safe_chmod [of u d n k b _ _ r] assms(2,3) by (metis prod.collapse)
  show ?thesis
  proof (cases "mkdir_at s1 d n 511")
    case (Inr s2)
    with assms have "t = snd (chmod_at s2 d n (or (S_IMODE m) 448) False)" by (simp add: write_dir_def s1_def)
    with ch safe_mkdir [OF Inr assms(3)] 1 show ?thesis using safe_trans by blast
  next
    case (Inl e)
    with assms have "t = s1 \<or> t = snd (chmod_at s1 d n (or (S_IMODE m) 448) False)"
      by (auto simp: write_dir_def s1_def [symmetric] Let_def split: if_splits)
    with ch 1 show ?thesis using safe_trans by blast
  qed
qed

lemma write_symlink_safe:
  assumes "write_symlink s d n target mt = (res, t)" and "wf_fs s" and "plain_name n" and "prefix r d"
  shows "safe_step r s t"
proof -
  obtain o1 u where u: "(if exists_at s d n then rmtree_at True False s d n else (Inr True, s)) = (o1, u)"
    by fastforce
  have su: "safe_step r s u"
    using u rmtree_safe [of True False s d n o1 u r] assms by (auto split: if_splits)
  show ?thesis
    using assms u su
    by (auto simp: write_symlink_def split: sum.splits
        intro: safe_trans [OF su] safe_trans [OF safe_symlink safe_quiet_utime])
qed

lemma write_regular_safe:
  assumes "write_regular s d n bytes m mt = (res, t)" and "plain_name n" and "prefix r d"
  shows "safe_step r s t"
proof (cases "open_new_at s d n (S_IMODE m)")
  case (Inr p)
  obtain i u where p: "p = (i, u)" by (cases p)
  note op = safe_open_new [OF Inr [unfolded p] assms(2,3)]
  let ?w = "write_inode i \<lparr>fd_bytes = bytes, fd_mode = S_IMODE m, fd_mtime = fd_mtime (f_data u i)\<rparr> u"
  have w: "safe_step r s ?w"
    using op(1,2) by (auto simp: safe_step_def ft.beyond_def keeps_bytes_def)
  have "t = quiet (utime_at ?w d n mt) ?w" using assms(1) Inr p by (simp add: write_regular_def Let_def)
  with w assms(2,3) show ?thesis using safe_trans safe_quiet_utime by blast
qed (use assms in \<open>simp add: write_regular_def\<close>)

text \<open>What the loop keeps: a well-formed tree reached by safe steps, and plain component lists.\<close>

definition x_safe :: "path \<Rightarrow> fs \<Rightarrow> xstate \<Rightarrow> bool" where
  "x_safe r s x \<longleftrightarrow> wf_fs (x_fs x) \<and> safe_step r s (x_fs x)
     \<and> (case x_cache x of None \<Rightarrow> True | Some k \<Rightarrow> list_all plain_name k)
     \<and> list_all (\<lambda>(d, l). list_all no_slash d \<and> list_all no_slash l) (x_links x)
     \<and> list_all (\<lambda>(d, t). d \<noteq> [] \<and> list_all plain_name d) (x_dirs x)"

lemma parents_get_safe:
  assumes "parents_get r c x parts = (res, y)" and "x_safe r s x" and "list_all plain_name parts"
  shows "x_safe r s y" and "res = Inr d \<Longrightarrow> d = r @ parts"
proof -
  obtain o1 t where t: "descend_at c (x_fs x) r parts = (o1, t)" by (cases "descend_at c (x_fs x) r parts")
  note ds = descend_safe [OF t assms(3), of r, simplified]
  have "wf_fs t" "safe_step r s t"
    using assms(2) ds by (auto simp: x_safe_def intro: safe_wf safe_trans)
  then show "x_safe r s y"
    using assms t by (auto simp: parents_get_def x_safe_def split: if_splits sum.splits)
  show "res = Inr d \<Longrightarrow> d = r @ parts"
    using assms(1) t ds by (auto simp: parents_get_def split: if_splits sum.splits)
qed

lemma with_fs_safe:
  "with_fs x p = (res, y) \<Longrightarrow> x_safe r s x \<Longrightarrow> safe_step r (x_fs x) (snd p) \<Longrightarrow> x_safe r s y"
  by (auto simp: with_fs_def x_safe_def dest: safe_wf intro: safe_trans)

lemma name_parts_facts:
  assumes "name_parts strip n = Some rel"
  shows "rel \<noteq> []" and "list_all no_slash rel" and "[] \<notin> set rel" and "''..'' \<notin> set rel"
proof -
  let ?ps = "split_on CHR ''/'' (rstrip_by (\<lambda>c. c = CHR ''/'') (lstrip_by (\<lambda>c. c = CHR ''/'') n))"
  from assms have rel: "rel = drop strip ?ps" "strip < length ?ps"
    and bad: "\<not> list_ex (\<lambda>p. p = ''..'' \<or> p = []) rel"
    by (auto simp: name_parts_def Let_def split: if_splits)
  show "rel \<noteq> []" using rel by simp
  show "list_all no_slash rel"
    using split_no_slash [of "rstrip_by (\<lambda>c. c = CHR ''/'') (lstrip_by (\<lambda>c. c = CHR ''/'') n)"]
    by (auto simp: rel list_all_iff dest: in_set_dropD)
  show "[] \<notin> set rel" "''..'' \<notin> set rel" using bad by (auto simp: list_ex_iff)
qed

lemma write_member_safe:
  assumes w: "write_member strip m rel parent d x = (res, y)" and x: "x_safe r s x" and d: "d = r @ parent"
    and p: "list_all plain_name parent" and n: "plain_name (last rel)" and rel: "list_all no_slash rel"
  shows "x_safe r s y"
proof -
  have pr: "prefix r d" using d by simp
  have wf: "wf_fs (x_fs x)" using x by (simp add: x_safe_def)
  show ?thesis
  proof (cases "tm_kind m")
    case TDir
    obtain o1 t where wd: "write_dir (x_fs x) d (last rel) (tm_mode m) = (o1, t)"
      by (cases "write_dir (x_fs x) d (last rel) (tm_mode m)")
    have "x_safe r s (x\<lparr>x_fs := t\<rparr>)"
      using with_fs_safe [of x "(o1, t)" o1 _ r s] write_dir_safe [OF wd n pr] x by (simp add: with_fs_def)
    with TDir w wd p n show ?thesis
      by (auto simp: write_member_def with_fs_def x_safe_def Let_def split: sum.splits)
  next
    case (TSym g)
    with w n x pr wf show ?thesis
      by (simp add: write_member_def) (metis prod.collapse with_fs_safe write_symlink_safe)
  next
    case (TReg b)
    with w n x pr wf show ?thesis
      by (simp add: write_member_def) (metis prod.collapse with_fs_safe write_regular_safe)
  next
    case (TLnk l)
    have "list_all no_slash lrel" if "name_parts strip l = Some lrel" for lrel
      using name_parts_facts [OF that] by simp
    with TLnk w x rel show ?thesis
      by (auto simp: write_member_def defer_hardlink_def x_safe_def split: option.splits)
  qed (use w x in \<open>simp_all add: write_member_def\<close>)
qed

lemma process_member_safe:
  assumes "process_member r strip wh x m = (res, y)" and "x_safe r s x"
  shows "x_safe r s y"
proof (cases "name_parts strip (tm_name m)")
  case (Some rel)
  note np = name_parts_facts [OF Some]
  show ?thesis
  proof (cases "tm_kind m = TDevice \<or> last rel = ''.'' \<or> safe_resolve_parts (x_fs x) r (butlast rel) = None")
    case True
    with assms Some show ?thesis by (auto simp: process_member_def split: if_splits)
  next
    case False
    then obtain parent where par: "safe_resolve_parts (x_fs x) r (butlast rel) = Some parent" by auto
    have lr: "last rel \<in> set rel" using np(1) by simp
    have bl: "list_all no_slash (butlast rel)" using np(2) by (auto simp: list_all_iff dest: in_set_butlastD)
    have pp: "list_all plain_name parent"
      using resolve_parts_plain [OF par [unfolded safe_resolve_parts_def] _ bl] by simp
    have ns: "no_slash (last rel)" using np(2) lr by (simp add: list_all_iff)
    have "last rel \<noteq> []" "last rel \<noteq> ''..''" using np(3,4) lr by metis+
    with ns False have n: "plain_name (last rel)" by (simp add: plain_name_def no_slash_def)
    show ?thesis
    proof (cases "wh \<and> is_whiteout (last rel)")
      case True
      obtain o1 z where g: "parents_get r False x parent = (o1, z)" by (cases "parents_get r False x parent")
      note gs = parents_get_safe [OF g assms(2) pp]
      show ?thesis
      proof (cases o1)
        case (Inl e)
        with assms Some False par True g gs show ?thesis by (simp add: process_member_def)
      next
        case (Inr d)
        have "safe_step r (x_fs z) (snd (apply_whiteout (x_fs z) d (last rel)))"
          using apply_whiteout_safe [of "x_fs z" d "last rel" _ _ r] gs Inr ns
          by (metis prefixI prod.collapse x_safe_def)
        moreover have "with_fs z (apply_whiteout (x_fs z) d (last rel)) = (res, y)"
          using assms(1) Some False par True g Inr by (simp add: process_member_def)
        ultimately show ?thesis using with_fs_safe gs(1) by blast
      qed
    next
      case nw: False
      obtain o1 z where g: "parents_get r True x parent = (o1, z)" by (cases "parents_get r True x parent")
      note gs = parents_get_safe [OF g assms(2) pp]
      show ?thesis
      proof (cases o1)
        case (Inl e)
        with assms Some False par nw g gs show ?thesis by (auto simp: process_member_def)
      next
        case (Inr d)
        with assms Some False par nw g have "write_member strip m rel parent d z = (res, y)"
          by (auto simp: process_member_def)
        from write_member_safe [OF this gs(1) gs(2) [OF Inr] pp n np(2)] show ?thesis .
      qed
    qed
  qed
qed (use assms in \<open>auto simp: process_member_def split: if_splits\<close>)

lemma process_members_safe:
  "process_members r strip wh x ms = (res, y) \<Longrightarrow> x_safe r s x \<Longrightarrow> x_safe r s y"
proof (induction ms arbitrary: x)
  case (Cons m ms)
  obtain o1 z where z: "process_member r strip wh x m = (o1, z)" by (cases "process_member r strip wh x m")
  with process_member_safe Cons show ?case by (cases o1) auto
qed simp

lemma copy_file_new_safe:
  assumes "plain_name dn" and "prefix r dd"
  shows "safe_step r s (copy_file_new s sd sn dd dn)"
proof (cases "open_regular_at s sd sn")
  case (Inr i)
  show ?thesis
  proof (cases "open_new_at s dd dn (S_IMODE (fd_mode (f_data s i)))")
    case (Inr p)
    obtain j t where p: "p = (j, t)" by (cases p)
    note op = safe_open_new [OF Inr [unfolded p] assms]
    have "safe_step r s (write_inode j d t)" for d
      using op(1,2) by (auto simp: safe_step_def ft.beyond_def keeps_bytes_def)
    with Inr \<open>open_regular_at s sd sn = Inr i\<close> p show ?thesis by (simp add: copy_file_new_def)
  qed (use Inr in \<open>simp add: copy_file_new_def\<close>)
qed (simp add: copy_file_new_def)

lemma x_safe_fs:
  "x_safe r s x \<Longrightarrow> safe_step r (x_fs x) t \<Longrightarrow> x_safe r s (x\<lparr>x_fs := t\<rparr>)"
  by (auto simp: x_safe_def dest: safe_wf intro: safe_trans)

lemma safe_resolve_plain: "safe_resolve_parts s r ps = Some q \<Longrightarrow> list_all no_slash ps \<Longrightarrow> list_all plain_name q"
  unfolding safe_resolve_parts_def by (erule resolve_parts_plain) simp_all

lemma plain_ends:
  "list_all plain_name q \<Longrightarrow> q \<noteq> [] \<Longrightarrow> list_all plain_name (butlast q) \<and> plain_name (last q)"
  by (auto simp: list_all_iff dest: in_set_butlastD)

lemma copy_hardlink_safe:
  assumes "x_safe r s x" and "list_all no_slash (fst link)" and "list_all no_slash (snd link)"
  shows "x_safe r s (copy_hardlink r x link)"
proof (cases "copy_hardlink r x link = x")
  case False
  then obtain src dest where sd: "safe_resolve_parts (x_fs x) r (snd link) = Some src"
    "safe_resolve_parts (x_fs x) r (fst link) = Some dest" "src \<noteq> []" "dest \<noteq> []"
    by (auto simp: copy_hardlink_def split: option.splits if_splits)
  have d: "list_all plain_name (butlast dest) \<and> plain_name (last dest)"
    using safe_resolve_plain [OF sd(2) assms(2)] sd(4) by (rule plain_ends)
  obtain o1 y where g: "parents_get r True x (butlast dest) = (o1, y)" by (cases "parents_get r True x (butlast dest)")
  note gs = parents_get_safe [OF g assms(1) conjunct1 [OF d]]
  have step: "safe_step r (x_fs y) (copy_file_new (unlink_quietly (x_fs y) p (last dest)) a b p (last dest))"
    if "o1 = Inr p" for a b p
    using gs(2) [OF that] d by (intro safe_trans [OF safe_unlink_quietly copy_file_new_safe]) auto
  show ?thesis
    using sd g gs step False
    by (auto simp: copy_hardlink_def split: sum.splits if_splits intro: x_safe_fs)
qed (use assms in simp)

lemma stamp_dir_safe:
  assumes "x_safe r s x" and "fst e \<noteq> []" and "list_all plain_name (fst e)"
  shows "x_safe r s (stamp_dir r x e)"
proof -
  obtain o1 y where g: "parents_get r False x (butlast (fst e)) = (o1, y)"
    by (cases "parents_get r False x (butlast (fst e))")
  note p = plain_ends [OF assms(3,2)]
  note gs = parents_get_safe [OF g assms(1) conjunct1 [OF p]]
  have "safe_step r (x_fs y) (quiet (utime_at (x_fs y) d (last (fst e)) t) (x_fs y))" if "o1 = Inr d" for d t
    using gs(2) [OF that] p by (intro safe_quiet_utime) auto
  with g gs(1) show ?thesis by (auto simp: stamp_dir_def split: sum.splits intro: x_safe_fs)
qed

lemma x_safe_queues: "x_safe r s y \<Longrightarrow> list_all (\<lambda>(d, l). list_all no_slash d \<and> list_all no_slash l) (x_links y)
   \<and> list_all (\<lambda>(d, t). d \<noteq> [] \<and> list_all plain_name d) (x_dirs y)"
  by (simp add: x_safe_def)

lemma foldl_links_safe:
  "x_safe r s x \<Longrightarrow> list_all (\<lambda>(d, l). list_all no_slash d \<and> list_all no_slash l) ls \<Longrightarrow>
     x_safe r s (foldl (copy_hardlink r) x ls)"
  by (induction ls arbitrary: x) (auto simp: copy_hardlink_safe)

lemma foldl_dirs_safe:
  "x_safe r s x \<Longrightarrow> list_all (\<lambda>(d, t). d \<noteq> [] \<and> list_all plain_name d) es \<Longrightarrow>
     x_safe r s (foldl (stamp_dir r) x es)"
  by (induction es arbitrary: x) (auto simp: stamp_dir_safe)

lemma extract_stream_safe:
  assumes "extract_stream r strip wh s ms = (res, t)" and "wf_fs s"
  shows "wf_fs t \<and> safe_step r s t"
proof -
  let ?x0 = "\<lparr>x_fs = s, x_cache = None, x_links = [], x_dirs = []\<rparr>"
  have 0: "x_safe r s ?x0" using assms(2) by (simp add: x_safe_def)
  obtain o1 x where p: "process_members r strip wh ?x0 ms = (o1, x)"
    by (cases "process_members r strip wh ?x0 ms")
  have x: "x_safe r s x" using process_members_safe [OF p 0] .
  show ?thesis
  proof (cases o1)
    case (Inl e)
    with assms p x show ?thesis by (simp add: extract_stream_def x_safe_def)
  next
    case (Inr u)
    have "x_safe r s (foldl (stamp_dir r) (foldl (copy_hardlink r) x (x_links x)) (rev (x_dirs x)))"
      using x_safe_queues [OF x] by (intro foldl_dirs_safe foldl_links_safe x) auto
    with assms p Inr show ?thesis by (simp add: extract_stream_def x_safe_def Let_def)
  qed
qed

text \<open>C1. Extracting any archive, with or without whiteouts, complete or stopped by an error, leaves
  the file system well-formed, changes no entry outside the rootfs, and changes no byte of any file that
  existed before: replaced files get fresh inodes, so even a hard link planted in the rootfs cannot carry
  a write out of it.\<close>

theorem extraction_confined:
  assumes "wf_fs s" and "extract_stream r strip wh s ms = (res, t)"
  shows "wf_fs t \<and> ft.beyond r s t \<and> keeps_bytes s t"
  using extract_stream_safe [OF assms(2,1)] by (simp add: safe_step_def)


theorem extraction_confined_witness:
  "case extract_stream [''r''] 0 True
      (sample_fs [([], NDir 493 0), ([''r''], NDir 493 0), ([''h''], NDir 493 0), ([''h'', ''k''], NFile 1)])
      [\<lparr>tm_name = ''e'', tm_kind = TSym ''/h'', tm_mode = 511, tm_mtime = 0\<rparr>,
       \<lparr>tm_name = ''e/k'', tm_kind = TReg ''x'', tm_mode = 420, tm_mtime = 0\<rparr>]
   of (res, t) \<Rightarrow> node_at t [''h'', ''k''] = Some (NFile 1)"
proof -
  let ?s = "sample_fs [([], NDir 493 0), ([''r''], NDir 493 0), ([''h''], NDir 493 0), ([''h'', ''k''], NFile 1)]"
  have "wf_fs ?s" by code_simp
  moreover have "node_at ?s [''h'', ''k''] = Some (NFile 1)" by code_simp
  ultimately show ?thesis
    using extraction_confined [of ?s "[''r'']" 0 True] ft.beyond_look [of "[''r'']" ?s _ "[''h'', ''k'']"]
    by (auto split: prod.splits)
qed

end
