(* ===== verification/Layer_Diff.thy ===== *)
theory Layer_Diff
  imports Tar_Extract "HOL-Library.Word"
begin

text \<open>
  \<open>helpers/layer_diff.py\<close>: fingerprinting a rootfs, the difference of two fingerprints, and the
  members of the layer that carries it, whiteouts last. \<open>gzip\<close>, the hashes and the tar writer are
  outside the model: a layer is the list of its members.
\<close>

subsection \<open>Fingerprints\<close>

definition crc_bit :: "32 word \<Rightarrow> 32 word" where
  "crc_bit c = (if bit c 0 then xor (drop_bit 1 c) 0xEDB88320 else drop_bit 1 c)"

definition crc_byte :: "32 word \<Rightarrow> char \<Rightarrow> 32 word" where
  "crc_byte c b = (crc_bit ^^ 8) (xor c (of_nat (code b)))"

definition crc32 :: "string \<Rightarrow> 32 word" where
  "crc32 bytes = xor 0xFFFFFFFF (foldl crc_byte 0xFFFFFFFF bytes)"

datatype fingerprint = FpDir nat | FpLink string | FpFile nat int nat "32 word"

definition file_crc32 :: "fs \<Rightarrow> path \<Rightarrow> string \<Rightarrow> 32 word" where
  "file_crc32 s d n =
     (case open_regular_at s d n of Inl e \<Rightarrow> 0xFFFFFFFF | Inr i \<Rightarrow> crc32 (fd_bytes (f_data s i)))"

text \<open>The walk of \<open>snapshot\<close>; the code's explicit stack is one call per level here, with a depth bound.\<close>

primrec snap_dir :: "nat \<Rightarrow> fs \<Rightarrow> path \<Rightarrow> string \<Rightarrow> (string \<times> fingerprint) list" where
  "snap_dir 0 s d rel_prefix = []"
| "snap_dir (Suc k) s d rel_prefix =
     concat (map (\<lambda>name.
       let rel = rel_prefix @ name in
       case lstat_at s d name of
         Inl e \<Rightarrow> []
       | Inr (NLink t m) \<Rightarrow> [(rel, FpLink t)]
       | Inr (NDir m t) \<Rightarrow>
           (if rel_prefix = [] \<and> name = ''.l2s'' then []
            else (rel, FpDir (S_IMODE m)) # snap_dir k s (d @ [name]) (rel @ ''/''))
       | Inr (NFile i) \<Rightarrow>
           [(rel, FpFile (length (fd_bytes (f_data s i))) (fd_mtime (f_data s i))
              (S_IMODE (fd_mode (f_data s i))) (file_crc32 s d name))]
       | Inr NSpecial \<Rightarrow> [])
     (listdir_at s d))"

definition snapshot :: "fs \<Rightarrow> path \<Rightarrow> (string \<times> fingerprint) list" where
  "snapshot s r = snap_dir (Suc (max_depth s)) s r []"

type_synonym snap = "(string \<times> fingerprint) list"

definition diff_snapshots :: "snap \<Rightarrow> snap \<Rightarrow> string list \<times> string list \<times> string list" where
  "diff_snapshots before after =
     (sort (map fst (filter (\<lambda>(k, v). dict_get before k = None) after)),
      sort (map fst (filter (\<lambda>(k, v). dict_get before k \<noteq> None \<and> dict_get before k \<noteq> Some v) after)),
      sort (map fst (filter (\<lambda>(k, v). dict_get after k = None) before)))"

subsection \<open>The layer\<close>

definition whiteout_name :: "string \<Rightarrow> string" where
  "whiteout_name rel =
     (let (parent, base) = rpartition_at CHR ''/'' rel in
      if parent \<noteq> [] then parent @ ''/'' @ WH_PREFIX @ base else WH_PREFIX @ base)"

definition opaque_name :: "string \<Rightarrow> string" where
  "opaque_name d = (if d \<noteq> [] then d @ ''/'' @ OPAQUE else OPAQUE)"

definition whiteout_paths :: "string list \<Rightarrow> string list \<Rightarrow> string list" where
  "whiteout_paths deleted opaque = map whiteout_name (sort (remdups deleted)) @ map opaque_name (sort opaque)"

definition whole_seconds :: "int \<Rightarrow> int" where
  "whole_seconds t = (if 0 \<le> t then t div 1000000000 else - ((- t) div 1000000000)) * 1000000000"

text \<open>
  \<open>_ParentFds.open\<close>: the parent walked level by level. \<open>l2s rel target\<close> stands for proot's hard-link
  stand-ins: \<open>None\<close> for an ordinary link, otherwise the inode of the backing file if it can be read.
\<close>

fun open_parent :: "fs \<Rightarrow> path \<Rightarrow> string list \<Rightarrow> path option" where
  "open_parent s d [] = Some d"
| "open_parent s d (c # cs) =
     (case opendir_at s d c of Inl e \<Rightarrow> None | Inr p \<Rightarrow> open_parent s p cs)"

definition parent_parts :: "string \<Rightarrow> string list" where
  "parent_parts rel = (if rel = [] then [] else split_on CHR ''/'' rel)"

definition add_entry :: "(string \<Rightarrow> string \<Rightarrow> nat option option) \<Rightarrow> fs \<Rightarrow> path \<Rightarrow> string \<Rightarrow> member list" where
  "add_entry l2s s r rel =
     (let (parent, name) = rpartition_at CHR ''/'' rel in
      case open_parent s r (parent_parts parent) of
        None \<Rightarrow> []
      | Some d \<Rightarrow>
          (case lstat_at s d name of
             Inl e \<Rightarrow> []
           | Inr (NLink target t) \<Rightarrow>
               (case l2s rel target of
                  Some (Some i) \<Rightarrow>
                    [\<lparr>tm_name = rel, tm_kind = TReg (fd_bytes (f_data s i)),
                      tm_mode = S_IMODE (fd_mode (f_data s i)),
                      tm_mtime = whole_seconds (fd_mtime (f_data s i))\<rparr>]
                | Some None \<Rightarrow> []
                | None \<Rightarrow>
                    [\<lparr>tm_name = rel, tm_kind = TSym target, tm_mode = 511, tm_mtime = whole_seconds t\<rparr>])
           | Inr (NDir m t) \<Rightarrow>
               [\<lparr>tm_name = rel, tm_kind = TDir, tm_mode = S_IMODE m, tm_mtime = whole_seconds t\<rparr>]
           | Inr (NFile i) \<Rightarrow>
               [\<lparr>tm_name = rel, tm_kind = TReg (fd_bytes (f_data s i)),
                 tm_mode = S_IMODE (fd_mode (f_data s i)),
                 tm_mtime = whole_seconds (fd_mtime (f_data s i))\<rparr>]
           | Inr NSpecial \<Rightarrow> []))"

definition add_whiteout :: "string \<Rightarrow> member" where
  "add_whiteout arcname = \<lparr>tm_name = arcname, tm_kind = TReg [], tm_mode = 420, tm_mtime = 0\<rparr>"

definition write_layer_tar ::
  "(string \<Rightarrow> string \<Rightarrow> nat option option) \<Rightarrow> fs \<Rightarrow> path \<Rightarrow> string list \<Rightarrow> string list \<Rightarrow> string list \<Rightarrow> member list" where
  "write_layer_tar l2s s r paths deleted opaque =
     concat (map (add_entry l2s s r) (sort paths)) @ map add_whiteout (whiteout_paths deleted opaque)"

text \<open>What a RUN step packs: the two snapshots, their difference, and the members.\<close>

definition run_layer :: "(string \<Rightarrow> string \<Rightarrow> nat option option) \<Rightarrow> fs \<Rightarrow> fs \<Rightarrow> path \<Rightarrow> member list" where
  "run_layer l2s before after r =
     (let (added, modified, deleted) = diff_snapshots (snapshot before r) (snapshot after r)
      in write_layer_tar l2s after r (added @ modified) deleted [])"

subsection \<open>File maps\<close>

definition layer_path_parts :: "string \<Rightarrow> string list option" where
  "layer_path_parts arcname =
     (let parts = filter (\<lambda>p. p \<noteq> [] \<and> p \<noteq> ''.'') (split_on CHR ''/'' arcname) in
      if parts = [] \<or> ''..'' \<in> set parts then None else Some parts)"

datatype map_entry =
    MDir nat int int int
  | MSym string nat int int int
  | MFile path "string list" nat int int

text \<open>
  The entries carry mode, uid, gid and (for directories and links) a time; a file entry names the root
  of the tree its bytes come from and the components below it. Owners are not part of a member here.
\<close>

definition open_source :: "fs \<Rightarrow> path \<Rightarrow> string list \<Rightarrow> errno + nat" where
  "open_source s root rel =
     (if rel = [] then Inl EINVAL
      else bindR (fst (descend_at False s root (butlast rel))) (\<lambda>d. open_regular_at s d (last rel)))"

definition file_map_member :: "fs \<Rightarrow> string \<Rightarrow> map_entry \<Rightarrow> member list" where
  "file_map_member s arcname e =
     (case e of
        MSym target mode uid gid mtime \<Rightarrow>
          [\<lparr>tm_name = arcname, tm_kind = TSym target, tm_mode = mode, tm_mtime = mtime\<rparr>]
      | MDir mode uid gid mtime \<Rightarrow>
          [\<lparr>tm_name = arcname, tm_kind = TDir, tm_mode = mode, tm_mtime = mtime\<rparr>]
      | MFile root rel mode uid gid \<Rightarrow>
          (case open_source s root rel of
             Inl err \<Rightarrow> []
           | Inr i \<Rightarrow>
               [\<lparr>tm_name = arcname, tm_kind = TReg (fd_bytes (f_data s i)), tm_mode = mode,
                 tm_mtime = whole_seconds (fd_mtime (f_data s i))\<rparr>]))"

fun parent_members :: "string list \<Rightarrow> string list \<Rightarrow> member list \<times> string list" where
  "parent_members seen [] = ([], seen)"
| "parent_members seen (a # as) =
     (let dirs = (case layer_path_parts a of
                    None \<Rightarrow> []
                  | Some parts \<Rightarrow> map (\<lambda>k. join_with ''/'' (take k parts)) [1..<length parts]);
          new = filter (\<lambda>d. d \<notin> set seen) dirs;
          (ms, seen') = parent_members (new @ seen) as
      in (map (\<lambda>d. \<lparr>tm_name = d, tm_kind = TDir, tm_mode = 493, tm_mtime = 0\<rparr>) new @ ms, seen'))"

definition write_files_layer :: "fs \<Rightarrow> (string \<times> map_entry) list \<Rightarrow> member list" where
  "write_files_layer s fmap =
     (let items = sort_key fst fmap in
      fst (parent_members [] (map fst items))
      @ concat (map (\<lambda>(a, e). if layer_path_parts a = None then [] else file_map_member s a e) items))"

end
