(* ===== verification/Build_Stage.thy ===== *)
theory Build_Stage
  imports Build_Config Posix_Path Rootfs_Files Layer_Diff
begin

text \<open>
  The state of a build (\<open>stage.py\<close> and the fields of \<open>BuildEngine\<close>) and what the engine asks of its
  surroundings. The current stage is always the one appended last, so it is the last of \<open>e_stages\<close>;
  \<open>e_names\<close> maps a stage's name, and its index as text, to its position. Directory descriptors are
  paths. The disk, the layer cache and the build-cache index are part of the engine's state.
\<close>

record layer =
  ly_digest :: string
  ly_size :: int
  ly_diff :: string

record stage =
  s_index :: nat
  s_name :: "string option"
  s_root :: path
  s_doc :: jdict
  s_layers :: "layer list"
  s_parent :: string
  s_env :: "(string \<times> string) list"
  s_args :: "(string \<times> string) list"
  s_declared :: "string list"
  s_workdir :: string
  s_user :: string
  s_shell :: "string list"
  s_base_ref :: string
  s_base_id :: string

definition new_stage :: "nat \<Rightarrow> string option \<Rightarrow> path \<Rightarrow> stage" where
  "new_stage i name root =
     \<lparr>s_index = i, s_name = name, s_root = root, s_doc = [(''config'', JObj [])], s_layers = [],
      s_parent = [], s_env = [], s_args = [], s_declared = [], s_workdir = ''/'', s_user = [],
      s_shell = [''/bin/sh'', ''-c''], s_base_ref = [], s_base_id = []\<rparr>"

text \<open>An entry of the build-cache index.\<close>

record cache_entry =
  ce_digest :: string
  ce_diff :: string
  ce_size :: int

record engine =
  e_fs :: fs
  e_blobs :: "(string \<times> member list) list"
  e_index :: "(string \<times> cache_entry) list"
  e_stages :: "stage list"
  e_names :: "(string \<times> nat) list"
  e_global :: "(string \<times> string) list"
  e_declared_global :: "string list"
  e_stop :: bool
  e_firing :: bool
  e_tmp :: path
  e_context :: path
  e_user_args :: "(string \<times> string) list"
  e_target :: string
  e_no_cache :: bool
  e_target_arch :: string
  e_host_arch :: string
  e_ignore :: "string list"

text \<open>
  The surroundings: the environment of the process, the registry client (which unpacks the image under
  the path it is given), the packer with its hashes, proot, SHA-256, the tar reader, the network, the
  clock and the host identity. A pulled image is its config document, the layers of its manifest and
  the config digest; a \<open>RuntimeError\<close> of the client is \<open>None\<close>.
\<close>

record base_image =
  b_config :: json
  b_layers :: "jdict list"
  b_id :: string

record proot_run =
  pr_argv :: "string list"
  pr_env :: "(string \<times> string) list"
  pr_root :: path

record host =
  h_environ :: "(string \<times> string) list"
  h_termux :: bool
  h_pull :: "string \<Rightarrow> path \<Rightarrow> fs \<Rightarrow> base_image option \<times> fs"
  h_pack :: "member list \<Rightarrow> layer"
  h_proot :: "proot_run \<Rightarrow> fs \<Rightarrow> int \<times> fs"
  h_hash :: "string \<Rightarrow> string"
  h_members :: "string \<Rightarrow> bool \<times> member list"
  h_fetch :: "string \<Rightarrow> string option"
  h_rand :: "nat \<Rightarrow> string"
  h_now :: int
  h_l2s :: l2s_rule
  h_l2s_file :: "string \<Rightarrow> string \<Rightarrow> nat option option"

definition environ :: "host \<Rightarrow> string \<Rightarrow> string" where
  "environ h k = (case dict_get (h_environ h) k of None \<Rightarrow> [] | Some v \<Rightarrow> v)"

definition current :: "engine \<Rightarrow> stage option" where
  "current e = (if e_stages e = [] then None else Some (last (e_stages e)))"

text \<open>Handlers run with a current stage and update it in place.\<close>

definition the_stage :: "engine \<Rightarrow> stage" where
  "the_stage e = last (e_stages e)"

definition upd_stage :: "(stage \<Rightarrow> stage) \<Rightarrow> engine \<Rightarrow> engine" where
  "upd_stage f e = e\<lparr>e_stages := butlast (e_stages e) @ [f (the_stage e)]\<rparr>"

lemma upd_stage_simps [simp]:
  "the_stage (upd_stage f e) = f (the_stage e)" "butlast (e_stages (upd_stage f e)) = butlast (e_stages e)"
  "e_fs (upd_stage f e) = e_fs e" "e_stages (upd_stage f e) \<noteq> []"
  by (simp_all add: upd_stage_def the_stage_def)

lemma upd_stage_frame [simp]:
  "e_blobs (upd_stage f e) = e_blobs e" "e_index (upd_stage f e) = e_index e" "e_names (upd_stage f e) = e_names e"
  "e_global (upd_stage f e) = e_global e" "e_firing (upd_stage f e) = e_firing e" "e_tmp (upd_stage f e) = e_tmp e"
  "e_stop (upd_stage f e) = e_stop e" "e_target (upd_stage f e) = e_target e"
  "e_declared_global (upd_stage f e) = e_declared_global e"
  by (simp_all add: upd_stage_def)

lemma the_stage_fields [simp]:
  "the_stage (e\<lparr>e_fs := s\<rparr>) = the_stage e" "the_stage (e\<lparr>e_blobs := b\<rparr>) = the_stage e"
  "the_stage (e\<lparr>e_index := i\<rparr>) = the_stage e" "the_stage (e\<lparr>e_firing := f\<rparr>) = the_stage e"
  by (simp_all add: the_stage_def)

subsection \<open>Reading and writing the config document\<close>

text \<open>\<open>image_config.setdefault("config", {})\<close>: the object, or a type error when it is not one.\<close>

definition stage_cfg :: "stage \<Rightarrow> fault + jdict" where
  "stage_cfg s =
     (case dict_get (s_doc s) ''config'' of
        None \<Rightarrow> Inr [] | Some (JObj d) \<Rightarrow> Inr d | Some v \<Rightarrow> Inl TypeFault)"

definition set_cfg :: "jdict \<Rightarrow> stage \<Rightarrow> stage" where
  "set_cfg d s = s\<lparr>s_doc := dict_set ''config'' (JObj d) (s_doc s)\<rparr>"

definition put_cfg :: "engine \<Rightarrow> string \<Rightarrow> json \<Rightarrow> fault + engine" where
  "put_cfg e k v = bindR (stage_cfg (the_stage e)) (\<lambda>d. Inr (upd_stage (set_cfg (dict_set k v d)) e))"

text \<open>Truth of a JSON value, \<open>list(v or [])\<close> and \<open>dict(v or {})\<close>.\<close>

definition num_truthy :: "string \<Rightarrow> bool" where
  "num_truthy t \<longleftrightarrow> list_ex (\<lambda>c. in_range 49 57 c \<or> c = CHR ''N'' \<or> c = CHR ''I'')
     (takeWhile (\<lambda>c. c \<noteq> CHR ''e'' \<and> c \<noteq> CHR ''E'') t)"

fun truthy :: "json \<Rightarrow> bool" where
  "truthy JNull \<longleftrightarrow> False"
| "truthy (JBool b) \<longleftrightarrow> b"
| "truthy (JNum t) \<longleftrightarrow> num_truthy t"
| "truthy (JStr s) \<longleftrightarrow> s \<noteq> []"
| "truthy (JArr xs) \<longleftrightarrow> xs \<noteq> []"
| "truthy (JObj d) \<longleftrightarrow> d \<noteq> []"

definition cfg_or :: "jdict \<Rightarrow> string \<Rightarrow> json option" where
  "cfg_or d k = (case dict_get d k of Some v \<Rightarrow> if truthy v then Some v else None | None \<Rightarrow> None)"

definition iter_json :: "json option \<Rightarrow> fault + json list" where
  "iter_json v =
     (case v of
        None \<Rightarrow> Inr []
      | Some (JArr xs) \<Rightarrow> Inr xs
      | Some (JStr s) \<Rightarrow> Inr (map (\<lambda>c. JStr [c]) s)
      | Some (JObj d) \<Rightarrow> Inr (map (\<lambda>(k, _). JStr k) d)
      | Some _ \<Rightarrow> Inl TypeFault)"

text \<open>
  One item of a list given to \<open>dict\<close>: a pair. A key that is a number or a constant, which \<open>dict\<close> takes and
  JSON prints as text, counts as a type error here.
\<close>

definition json_pair :: "json \<Rightarrow> fault + (string \<times> json)" where
  "json_pair v =
     bindR (iter_json (Some v)) (\<lambda>xs.
       case xs of
         [JStr k, x] \<Rightarrow> Inr (k, x)
       | [k, x] \<Rightarrow> Inl TypeFault
       | _ \<Rightarrow> Inl ValueFault)"

definition dict_json :: "json option \<Rightarrow> fault + jdict" where
  "dict_json v =
     (case v of
        None \<Rightarrow> Inr []
      | Some (JObj d) \<Rightarrow> Inr d
      | Some x \<Rightarrow> bindR (iter_json (Some x)) (\<lambda>xs. bindR (mapR json_pair xs) (\<lambda>ps. Inr (dict_update ps []))))"

end
