(* ===== verification/Build_Handlers.thy ===== *)
theory Build_Handlers
  imports Build_Stage
begin

text \<open>
  The instruction handlers of \<open>helpers/build_engine/handlers.py\<close> (all but RUN, COPY and ADD) and the
  user lookup of \<open>users.py\<close>. A handler answers the engine it leaves, or the exception it raises.
\<close>

subsection \<open>Users\<close>

definition line_id :: "string \<Rightarrow> int \<Rightarrow> string \<Rightarrow> int option" where
  "line_id name dflt line =
     (let parts = split_on CHR '':'' line in
      if hd parts = name \<and> 2 < length parts
      then Some (case py_int (parts ! 2) of Some i \<Rightarrow> i | None \<Rightarrow> dflt)
      else None)"

fun first_id :: "string \<Rightarrow> int \<Rightarrow> string list \<Rightarrow> int" where
  "first_id name dflt [] = dflt"
| "first_id name dflt (l # ls) =
     (case line_id name dflt l of Some i \<Rightarrow> i | None \<Rightarrow> first_id name dflt ls)"

definition resolve_id :: "l2s_rule \<Rightarrow> fs \<Rightarrow> path \<Rightarrow> string \<Rightarrow> bool \<Rightarrow> int \<Rightarrow> fault + int" where
  "resolve_id l2s s root name is_group dflt =
     (if name = [] then Inr dflt
      else if list_all is_digit_py name then
        (case py_int name of Some i \<Rightarrow> Inr i | None \<Rightarrow> Inl ValueFault)
      else (case read_guest_file s root l2s (if is_group then ''/etc/group'' else ''/etc/passwd'') of
              None \<Rightarrow> Inr dflt
            | Some data \<Rightarrow> Inr (first_id name dflt (splitlines [] data))))"

definition user_group :: "string \<Rightarrow> string \<times> string" where
  "user_group spec = (case partition_at CHR '':'' spec of (u, found, g) \<Rightarrow> (u, if found then g else []))"

definition resolve_chown :: "l2s_rule \<Rightarrow> fs \<Rightarrow> path \<Rightarrow> string \<Rightarrow> fault + int \<times> int" where
  "resolve_chown l2s s root chown =
     (let (user, group) = user_group chown in
      bindR (resolve_id l2s s root user False 0) (\<lambda>uid.
      bindR (if group \<noteq> [] then resolve_id l2s s root group True uid else Inr uid) (\<lambda>gid. Inr (uid, gid))))"

definition resolve_user_for_proot :: "l2s_rule \<Rightarrow> fs \<Rightarrow> path \<Rightarrow> string \<Rightarrow> fault + int \<times> int" where
  "resolve_user_for_proot l2s s root spec =
     (if spec = [] then Inr (0, 0) else resolve_chown l2s s root (strip spec))"

subsection \<open>Metadata instructions\<close>

definition do_arg :: "host \<Rightarrow> engine \<Rightarrow> instr \<Rightarrow> fault + engine" where
  "do_arg h e i =
     (let (key, dflt) = split_arg (i_value i) in
      if key = [] then Inl (BuildError (BadArg (i_lineno i)))
      else let v = (case dict_get (e_user_args e) key of
                 Some u \<Rightarrow> u
               | None \<Rightarrow>
                   (case dflt of
                      Some t \<Rightarrow> t
                    | None \<Rightarrow>
                        (case dict_get (e_global e) key of
                           Some g \<Rightarrow> if key \<in> set (e_declared_global e) then g
                                     else if key \<in> set PREDEFINED_ARGS then environ h key else []
                         | None \<Rightarrow> if key \<in> set PREDEFINED_ARGS then environ h key else [])))
           in Inr (upd_stage (\<lambda>s. s\<lparr>s_declared := List.insert key (s_declared s),
                                      s_args := dict_set key v (s_args s)\<rparr>) e))"

definition env_entry :: "json \<Rightarrow> (string \<times> string) option" where
  "env_entry v = (case v of JStr e \<Rightarrow> kv_pair e | _ \<Rightarrow> None)"

definition env_strings :: "(string \<times> string) list \<Rightarrow> json" where
  "env_strings m = JArr (map (\<lambda>(k, v). JStr (k @ ''='' @ v)) m)"

definition do_env :: "engine \<Rightarrow> instr \<Rightarrow> fault + engine" where
  "do_env e i =
     bindR (parse_kv_list (if i_exec i then value_joined (i_value i) else value_str (i_value i))) (\<lambda>pairs.
     bindR (stage_cfg (the_stage e)) (\<lambda>cfg.
     bindR (iter_json (cfg_or cfg ''Env'')) (\<lambda>env_list.
       (let kept = filter (\<lambda>(k, v). \<not> (e_firing e \<and> is_host_exec_var k)) pairs;
            env_map = dict_update kept (dict_update (List.map_filter env_entry env_list) [])
        in bindR (put_cfg e ''Env'' (env_strings env_map)) (\<lambda>e'.
             Inr (upd_stage (\<lambda>s. s\<lparr>s_env := dict_update kept (s_env s)\<rparr>) e'))))))"

definition do_label :: "engine \<Rightarrow> instr \<Rightarrow> fault + engine" where
  "do_label e i =
     bindR (parse_kv_list (if i_exec i then value_joined (i_value i) else value_str (i_value i))) (\<lambda>pairs.
     bindR (stage_cfg (the_stage e)) (\<lambda>cfg.
     bindR (dict_json (cfg_or cfg ''Labels'')) (\<lambda>labels.
       put_cfg e ''Labels'' (JObj (dict_update (map (\<lambda>(k, v). (k, JStr v)) pairs) labels)))))"

definition do_maintainer :: "engine \<Rightarrow> instr \<Rightarrow> fault + engine" where
  "do_maintainer e i =
     bindR (stage_cfg (the_stage e)) (\<lambda>cfg.
     bindR (dict_json (cfg_or cfg ''Labels'')) (\<lambda>labels.
       put_cfg e ''Labels'' (JObj (dict_set ''maintainer'' (JStr (strip (value_str (i_value i)))) labels))))"

definition do_user :: "engine \<Rightarrow> instr \<Rightarrow> fault + engine" where
  "do_user e i =
     (let u = strip (value_str (i_value i)) in
      put_cfg (upd_stage (\<lambda>s. s\<lparr>s_user := u\<rparr>) e) ''User'' (JStr u))"

definition do_cmd :: "engine \<Rightarrow> instr \<Rightarrow> fault + engine" where
  "do_cmd e i = put_cfg e ''Cmd'' (JArr (map JStr (to_argv i (s_shell (the_stage e)))))"

definition do_entrypoint :: "engine \<Rightarrow> instr \<Rightarrow> fault + engine" where
  "do_entrypoint e i =
     bindR (put_cfg e ''Entrypoint'' (JArr (map JStr (to_argv i (s_shell (the_stage e))))))
       (\<lambda>e'. put_cfg e' ''Cmd'' JNull)"

definition do_expose :: "engine \<Rightarrow> instr \<Rightarrow> fault + engine" where
  "do_expose e i =
     bindR (stage_cfg (the_stage e)) (\<lambda>cfg.
     bindR (dict_json (cfg_or cfg ''ExposedPorts'')) (\<lambda>ports.
     bindR (split_operands i) (\<lambda>tokens.
       put_cfg e ''ExposedPorts''
         (JObj (dict_update (map (\<lambda>t. (if CHR ''/'' \<in> set t then t else t @ ''/tcp'', JObj [])) tokens) ports)))))"

definition do_volume :: "engine \<Rightarrow> instr \<Rightarrow> fault + engine" where
  "do_volume e i =
     bindR (stage_cfg (the_stage e)) (\<lambda>cfg.
     bindR (dict_json (cfg_or cfg ''Volumes'')) (\<lambda>vols.
     bindR (case i_value i of VArgv xs \<Rightarrow> if i_exec i then Inr xs else split_operands i | _ \<Rightarrow> split_operands i)
       (\<lambda>paths. put_cfg e ''Volumes'' (JObj (dict_update (map (\<lambda>p. (p, JObj [])) paths) vols)))))"

definition do_stopsignal :: "engine \<Rightarrow> instr \<Rightarrow> fault + engine" where
  "do_stopsignal e i = put_cfg e ''StopSignal'' (JStr (strip (value_str (i_value i))))"

definition do_shell :: "engine \<Rightarrow> instr \<Rightarrow> fault + engine" where
  "do_shell e i =
     (case i_value i of
        VArgv xs \<Rightarrow>
          (if \<not> i_exec i then Inl (BuildError (ShellNotExec (i_lineno i)))
           else put_cfg (upd_stage (\<lambda>s. s\<lparr>s_shell := xs\<rparr>) e) ''Shell'' (JArr (map JStr xs)))
      | _ \<Rightarrow> Inl (BuildError (ShellNotExec (i_lineno i))))"

definition health_test :: "string \<Rightarrow> json list" where
  "health_test rest =
     (case json_loads rest of
        Some (JArr xs) \<Rightarrow> JStr ''CMD'' # xs
      | _ \<Rightarrow> [JStr ''CMD-SHELL'', JStr rest])"

definition do_healthcheck :: "engine \<Rightarrow> instr \<Rightarrow> fault + engine" where
  "do_healthcheck e i =
     (let v = strip (value_str (i_value i));
          upper = (case split_first_word v of [] \<Rightarrow> [] | w # _ \<Rightarrow> str_upper w)
      in if upper = ''NONE'' then put_cfg e ''Healthcheck'' (JObj [(''Test'', JArr [JStr ''NONE''])])
         else if \<not> starts_with ''CMD'' upper then Inl (BuildError (BadHealthcheck (i_lineno i)))
         else put_cfg e ''Healthcheck'' (JObj [(''Test'', JArr (health_test (strip (drop 3 v))))]))"

definition do_onbuild :: "engine \<Rightarrow> instr \<Rightarrow> fault + engine" where
  "do_onbuild e i =
     (case i_value i of
        VInner inner \<Rightarrow>
          (if current e = None then Inl (BuildError (BeforeFrom ''ONBUILD'' (i_lineno i)))
           else bindR (stage_cfg (the_stage e)) (\<lambda>cfg.
                bindR (iter_json (cfg_or cfg ''OnBuild'')) (\<lambda>triggers.
                  put_cfg e ''OnBuild'' (JArr (triggers @ [JStr (i_raw inner)])))))
      | _ \<Rightarrow> Inl (BuildError (OnbuildMalformed (i_lineno i))))"

subsection \<open>WORKDIR\<close>

fun missing_levels :: "fs \<Rightarrow> path option \<Rightarrow> string list \<Rightarrow> string list \<Rightarrow> string list" where
  "missing_levels s fd seen [] = []"
| "missing_levels s fd seen (n # ns) =
     (case fd of
        None \<Rightarrow> join_with ''/'' (seen @ [n]) # missing_levels s None (seen @ [n]) ns
      | Some d \<Rightarrow>
          (if \<not> exists_at s d n then join_with ''/'' (seen @ [n]) # missing_levels s None (seen @ [n]) ns
           else missing_levels s (case opendir_at s d n of Inr p \<Rightarrow> Some p | Inl err \<Rightarrow> None) (seen @ [n]) ns))"

text \<open>A packed layer goes to the layer cache under its digest and becomes the stage's parent.\<close>

definition emit_layer :: "host \<Rightarrow> member list \<Rightarrow> engine \<Rightarrow> engine" where
  "emit_layer h ms e =
     (let l = h_pack h ms in
      upd_stage (\<lambda>s. s\<lparr>s_layers := s_layers s @ [l], s_parent := ly_digest l\<rparr>)
        (e\<lparr>e_blobs := dict_set (ly_digest l) ms (e_blobs e)\<rparr>))"

definition do_workdir :: "host \<Rightarrow> engine \<Rightarrow> instr \<Rightarrow> fault + engine" where
  "do_workdir h e i =
     (let raw = strip (value_str (i_value i)) in
      if raw = [] then Inl (BuildError (EmptyWorkdir (i_lineno i)))
      else let wd = s_workdir (the_stage e);
               p = py_normpath (py_join (py_join ''/'' (if wd = [] then ''/'' else wd)) raw)
        in bindR (put_cfg (upd_stage (\<lambda>s. s\<lparr>s_workdir := p\<rparr>) e) ''WorkingDir'' (JStr p)) (\<lambda>e1.
             (let root = s_root (the_stage e1); s = e_fs e1 in
              case safe_resolve_parts s root (path_parts p) of
                None \<Rightarrow> Inr e1
              | Some parts \<Rightarrow>
                  (let new_dirs = missing_levels s (if is_dir s root then Some root else None) [] parts;
                       (made, t) = makedirs_at (Some 493) s root parts;
                       e2 = e1\<lparr>e_fs := t\<rparr>
                   in if made = None \<or> new_dirs = [] then Inr e2
                      else Inr (emit_layer h (write_files_layer t (map (\<lambda>a. (a, MDir 493 0 0 0)) new_dirs)) e2)))))"

end
