(* ===== verification/Handler_Props.thy ===== *)
theory Handler_Props
  imports Build_Handlers
begin

text \<open>
  What every instruction handler keeps: the shape of the image config, so that no handler fails on a
  type, and the bookkeeping of layers and history.
\<close>

subsection \<open>The config a stage works on\<close>

text \<open>As after adoption, except that ENTRYPOINT leaves a null under \<open>Cmd\<close>.\<close>

definition ok_value :: "string \<Rightarrow> json \<Rightarrow> bool" where
  "ok_value k v \<longleftrightarrow>
     (if k \<in> {''Entrypoint'', ''OnBuild'', ''Shell'', ''Env''} then is_str_list v
      else if k = ''Cmd'' then is_str_list v \<or> v = JNull
      else if k \<in> {''User'', ''WorkingDir''} then is_jstr v
      else if k \<in> {''ExposedPorts'', ''Volumes''} then is_name_map v
      else if k = ''Labels'' then is_str_map v else True)"

definition CONFIG_KEYS :: "string list" where
  "CONFIG_KEYS = [''Cmd'', ''Entrypoint'', ''OnBuild'', ''Shell'', ''Env'', ''User'', ''WorkingDir'',
     ''ExposedPorts'', ''Volumes'', ''Labels'']"

definition live_config :: "jdict \<Rightarrow> bool" where
  "live_config d \<longleftrightarrow> list_all (\<lambda>k. field_is k (ok_value k) d) CONFIG_KEYS"

definition live_doc :: "jdict \<Rightarrow> bool" where
  "live_doc doc \<longleftrightarrow> field_is ''history'' is_jarr doc
     \<and> (case dict_get doc ''config'' of Some (JObj d) \<Rightarrow> live_config d | _ \<Rightarrow> False)"

lemma field_is_mono: "field_is k P d \<Longrightarrow> (\<And>v. P v \<Longrightarrow> Q v) \<Longrightarrow> field_is k Q d"
  by (auto simp: field_is_def split: option.splits)

lemma clean_live: "clean_config d \<Longrightarrow> live_config d"
  by (auto simp: clean_config_def oci_config_def live_config_def CONFIG_KEYS_def ok_value_def
      elim!: field_is_mono)

lemma clean_doc_live: "clean_doc doc \<Longrightarrow> live_doc doc"
  by (auto simp: clean_doc_def live_doc_def clean_live split: option.splits json.splits)

lemma live_get: "live_config d \<Longrightarrow> k \<in> set CONFIG_KEYS \<Longrightarrow> dict_get d k = Some v \<Longrightarrow> ok_value k v"
  by (auto simp: live_config_def list_all_iff field_is_def dest!: bspec split: option.splits)

lemma live_set: "live_config d \<Longrightarrow> ok_value k v \<Longrightarrow> live_config (dict_set k v d)"
  by (auto simp: live_config_def list_all_iff)

lemma live_empty: "live_config []"
  by (simp add: live_config_def CONFIG_KEYS_def field_is_def)

lemma live_new: "live_doc (s_doc (new_stage i n r))"
  by (simp add: live_doc_def new_stage_def live_empty field_is_def dict_get_def)

subsection \<open>Steps of the current stage\<close>

definition live :: "engine \<Rightarrow> bool" where
  "live e \<longleftrightarrow> e_stages e \<noteq> [] \<and> list_all (\<lambda>s. live_doc (s_doc s)) (e_stages e)"

text \<open>What a handler may do to the engine: work on the current stage, adding at most one layer to it.\<close>

definition stage_step :: "engine \<Rightarrow> engine \<Rightarrow> bool" where
  "stage_step e e' \<longleftrightarrow>
     e_stages e' \<noteq> [] \<and> butlast (e_stages e') = butlast (e_stages e) \<and> e_names e' = e_names e
     \<and> e_stop e' = e_stop e \<and> e_target e' = e_target e \<and> e_firing e' = e_firing e \<and> e_tmp e' = e_tmp e
     \<and> s_index (the_stage e') = s_index (the_stage e) \<and> s_name (the_stage e') = s_name (the_stage e)
     \<and> s_root (the_stage e') = s_root (the_stage e)
     \<and> dict_get (s_doc (the_stage e')) ''history'' = dict_get (s_doc (the_stage e)) ''history''
     \<and> (s_layers (the_stage e') = s_layers (the_stage e)
        \<or> (\<exists>l. s_layers (the_stage e') = s_layers (the_stage e) @ [l]))"

definition handled :: "engine \<Rightarrow> fault + engine \<Rightarrow> bool" where
  "handled e r \<longleftrightarrow> (case r of Inr e' \<Rightarrow> live e' \<and> stage_step e e' | Inl f \<Rightarrow> \<exists>b. f = BuildError b)"

lemma live_stages: "e_stages e \<noteq> [] \<Longrightarrow> e_stages e = butlast (e_stages e) @ [the_stage e]"
  by (simp add: the_stage_def)

lemma live_iff: "live e \<longleftrightarrow> e_stages e \<noteq> [] \<and> live_doc (s_doc (the_stage e))
    \<and> list_all (\<lambda>s. live_doc (s_doc s)) (butlast (e_stages e))"
proof (cases "e_stages e = []")
  case False
  from live_stages [OF False] have "list_all P (e_stages e) \<longleftrightarrow> list_all P (butlast (e_stages e)) \<and> P (the_stage e)" for P
    by (metis list.pred_inject(2) list.pred_inject(1) list_all_append)
  with False show ?thesis by (auto simp: live_def)
qed (simp add: live_def)

lemma live_stage_cfg: "live e \<Longrightarrow> \<exists>d. stage_cfg (the_stage e) = Inr d \<and> live_config d"
  by (auto simp: live_iff live_doc_def stage_cfg_def split: option.splits json.splits)

lemma live_upd: "live e \<Longrightarrow> (s_doc (f (the_stage e)) = s_doc (the_stage e)) \<Longrightarrow> live (upd_stage f e)"
  by (simp add: live_iff)

lemma step_refl [simp]: "live e \<Longrightarrow> stage_step e e"
  by (simp add: stage_step_def live_def)

lemma step_upd:
  "e_stages e \<noteq> [] \<Longrightarrow> s_doc (f (the_stage e)) = s_doc (the_stage e) \<Longrightarrow> s_layers (f (the_stage e)) = s_layers (the_stage e) \<Longrightarrow>
     s_index (f (the_stage e)) = s_index (the_stage e) \<Longrightarrow> s_name (f (the_stage e)) = s_name (the_stage e) \<Longrightarrow>
     s_root (f (the_stage e)) = s_root (the_stage e) \<Longrightarrow> stage_step e (upd_stage f e)"
  by (simp add: stage_step_def)

text \<open>A step that adds no layer.\<close>

definition quiet_step :: "engine \<Rightarrow> engine \<Rightarrow> bool" where
  "quiet_step e e' \<longleftrightarrow> stage_step e e' \<and> s_layers (the_stage e') = s_layers (the_stage e)"

lemma quiet_then: "quiet_step e e' \<Longrightarrow> stage_step e' e'' \<Longrightarrow> stage_step e e''"
  by (auto simp: quiet_step_def stage_step_def)

lemma then_quiet: "stage_step e e' \<Longrightarrow> quiet_step e' e'' \<Longrightarrow> stage_step e e''"
  by (auto simp: quiet_step_def stage_step_def)

lemma put_cfg_live:
  assumes "live e" and "ok_value k v"
  shows "\<exists>e'. put_cfg e k v = Inr e' \<and> live e' \<and> quiet_step e e' \<and> e_fs e' = e_fs e
    \<and> s_env (the_stage e') = s_env (the_stage e) \<and> s_workdir (the_stage e') = s_workdir (the_stage e)
    \<and> e_stages e' \<noteq> []"
proof -
  obtain d where d: "stage_cfg (the_stage e) = Inr d" "live_config d" using live_stage_cfg [OF assms(1)] by blast
  let ?e = "upd_stage (set_cfg (dict_set k v d)) e"
  have "live ?e"
    using assms d live_set by (auto simp: live_iff set_cfg_def live_doc_def)
  moreover have "quiet_step e ?e" by (simp add: quiet_step_def stage_step_def set_cfg_def)
  ultimately show ?thesis using d by (simp add: put_cfg_def set_cfg_def)
qed

lemma handled_put: "live e \<Longrightarrow> ok_value k v \<Longrightarrow> handled e (put_cfg e k v)"
  using put_cfg_live [of e k v] by (auto simp: handled_def quiet_step_def)

lemma handled_put_after:
  assumes "live e" "quiet_step e e1" "live e1" "ok_value k v"
  shows "handled e (put_cfg e1 k v)"
proof -
  obtain e' where e': "put_cfg e1 k v = Inr e'" "live e'" "quiet_step e1 e'"
    using put_cfg_live [OF assms(3,4)] by blast
  from e'(3) have "stage_step e1 e'" by (simp add: quiet_step_def)
  from quiet_then [OF assms(2) this] e'(1,2) show ?thesis by (simp add: handled_def)
qed

lemma handled_upd:
  assumes "live e" and "\<And>s. s_doc (f s) = s_doc s \<and> s_layers (f s) = s_layers s \<and> s_index (f s) = s_index s
    \<and> s_name (f s) = s_name s \<and> s_root (f s) = s_root s"
  shows "live (upd_stage f e)" and "quiet_step e (upd_stage f e)"
proof -
  show "live (upd_stage f e)" using assms by (intro live_upd) simp_all
  have "e_stages e \<noteq> []" using assms(1) by (simp add: live_def)
  with assms(2) show "quiet_step e (upd_stage f e)" by (simp add: quiet_step_def step_upd)
qed

subsection \<open>The metadata handlers\<close>

lemma is_str_list_map [simp]: "is_str_list (JArr (map JStr xs))"
  by (simp add: list_all_iff)

lemma parse_kv_errors: "parse_kv_list t = Inl f \<Longrightarrow> \<exists>b. f = BuildError b"
  by (auto simp: parse_kv_list_def Let_def split: if_splits list.splits sum.splits)

lemma split_operands_errors: "split_operands i = Inl f \<Longrightarrow> \<exists>b. f = BuildError b"
  by (auto simp: split_operands_def split: sum.splits)

lemma do_arg_handled: "live e \<Longrightarrow> handled e (do_arg h e i)"
proof -
  assume l: "live e"
  obtain key d where k: "split_arg (i_value i) = (key, d)" by (cases "split_arg (i_value i)")
  have "handled e (Inr (upd_stage (\<lambda>s. s\<lparr>s_declared := List.insert key (s_declared s), s_args := dict_set key v (s_args s)\<rparr>) e))" for v
    using handled_upd [OF l] by (simp add: handled_def quiet_step_def)
  then show ?thesis by (simp add: do_arg_def k Let_def handled_def)
qed

lemma cfg_or_arr:
  assumes "live_config d" and "k \<in> {''OnBuild'', ''Env''}"
  shows "\<exists>xs. iter_json (cfg_or d k) = Inr xs \<and> list_all is_jstr xs"
proof (cases "dict_get d k")
  case (Some v)
  have "k \<in> set CONFIG_KEYS" using assms(2) by (auto simp: CONFIG_KEYS_def)
  from live_get [OF assms(1) this Some] assms(2) have "is_str_list v" by (auto simp: ok_value_def)
  with Some show ?thesis by (cases v) (simp_all add: cfg_or_def iter_json_def)
qed (simp add: cfg_or_def iter_json_def)

lemma ok_obj:
  assumes "k \<in> {''Labels'', ''ExposedPorts'', ''Volumes''}" and "ok_value k v"
  shows "\<exists>m. v = JObj m"
proof -
  have "is_str_map v \<or> is_name_map v" using assms by (auto simp: ok_value_def)
  then show ?thesis by (cases v) simp_all
qed

lemma ok_empty: "k \<in> {''Labels'', ''ExposedPorts'', ''Volumes''} \<Longrightarrow> ok_value k (JObj [])"
  by (auto simp: ok_value_def)

lemma cfg_or_obj:
  assumes "live_config d" and "k \<in> {''Labels'', ''ExposedPorts'', ''Volumes''}"
  shows "\<exists>m. dict_json (cfg_or d k) = Inr m \<and> ok_value k (JObj m)"
proof (cases "dict_get d k")
  case (Some v)
  have "k \<in> set CONFIG_KEYS" using assms(2) by (auto simp: CONFIG_KEYS_def)
  from live_get [OF assms(1) this Some] have ok: "ok_value k v" .
  then obtain m where m: "v = JObj m" using ok_obj [OF assms(2)] by blast
  with Some ok ok_empty [OF assms(2)] show ?thesis by (simp add: cfg_or_def dict_json_def)
qed (use ok_empty [OF assms(2)] in \<open>simp add: cfg_or_def dict_json_def\<close>)

lemma set_dict_set: "set (dict_set k v d) \<subseteq> insert (k, v) (set d)"
  by (induction k v d rule: dict_set.induct) auto

lemma all_dict_set: "list_all P d \<Longrightarrow> P (k, v) \<Longrightarrow> list_all P (dict_set k v d)"
  using set_dict_set [of k v d] by (auto simp: list_all_iff)

lemma all_dict_update: "list_all P d \<Longrightarrow> list_all P ps \<Longrightarrow> list_all P (dict_update ps d)"
  by (induction ps arbitrary: d) (auto simp: dict_update_def all_dict_set)

lemma handled_bind:
  "(\<And>f. r = Inl f \<Longrightarrow> \<exists>b. f = BuildError b) \<Longrightarrow> (\<And>x. r = Inr x \<Longrightarrow> handled e (g x)) \<Longrightarrow> handled e (bindR r g)"
  by (cases r) (auto simp: handled_def)

lemma do_env_handled: "live e \<Longrightarrow> handled e (do_env e i)"
  unfolding do_env_def
proof (rule handled_bind)
  fix pairs :: "(string \<times> string) list"
  assume l: "live e"
  obtain d where d: "stage_cfg (the_stage e) = Inr d" "live_config d" using live_stage_cfg [OF l] by blast
  obtain xs where xs: "iter_json (cfg_or d ''Env'') = Inr xs" using cfg_or_arr [OF d(2), of "''Env''"] by auto
  let ?kept = "filter (\<lambda>(k, v). \<not> (e_firing e \<and> is_host_exec_var k)) pairs"
  let ?v = "env_strings (dict_update ?kept (dict_update (List.map_filter env_entry xs) []))"
  have "ok_value ''Env'' ?v" by (simp add: ok_value_def env_strings_def list_all_iff split: prod.splits)
  from put_cfg_live [OF l this] obtain e' where e': "put_cfg e ''Env'' ?v = Inr e'" "live e'" "quiet_step e e'" by blast
  note u = handled_upd [OF e'(2), of "\<lambda>s. s\<lparr>s_env := dict_update ?kept (s_env s)\<rparr>"]
  have "stage_step e (upd_stage (\<lambda>s. s\<lparr>s_env := dict_update ?kept (s_env s)\<rparr>) e')"
    using quiet_then [OF e'(3)] u(2) by (simp add: quiet_step_def)
  with u(1) d xs e'(1) show "handled e (bindR (stage_cfg (the_stage e)) (\<lambda>cfg. bindR (iter_json (cfg_or cfg ''Env''))
      (\<lambda>env_list. let kept = filter (\<lambda>(k, v). \<not> (e_firing e \<and> is_host_exec_var k)) pairs;
            env_map = dict_update kept (dict_update (List.map_filter env_entry env_list) [])
        in bindR (put_cfg e ''Env'' (env_strings env_map)) (\<lambda>e'.
             Inr (upd_stage (\<lambda>s. s\<lparr>s_env := dict_update kept (s_env s)\<rparr>) e')))))"
    by (simp add: handled_def Let_def)
qed (rule parse_kv_errors)

lemma put_map_handled:
  assumes "live e" and "k \<in> {''Labels'', ''ExposedPorts'', ''Volumes''}"
    and "\<And>m. ok_value k (JObj m) \<Longrightarrow> handled e (g m)"
  shows "handled e (bindR (stage_cfg (the_stage e)) (\<lambda>cfg. bindR (dict_json (cfg_or cfg k)) g))"
proof -
  obtain d where d: "stage_cfg (the_stage e) = Inr d" "live_config d" using live_stage_cfg [OF assms(1)] by blast
  obtain m where "dict_json (cfg_or d k) = Inr m" "ok_value k (JObj m)" using cfg_or_obj [OF d(2) assms(2)] by blast
  with d assms(3) show ?thesis by simp
qed

lemma ok_labels: "ok_value ''Labels'' (JObj m) \<longleftrightarrow> list_all (\<lambda>(k, v). is_jstr v) m"
  by (simp add: ok_value_def)

lemma ok_names:
  "ok_value ''ExposedPorts'' (JObj m) \<longleftrightarrow> list_all (\<lambda>(k, v). v = JObj []) m"
  "ok_value ''Volumes'' (JObj m) \<longleftrightarrow> list_all (\<lambda>(k, v). v = JObj []) m"
  by (simp_all add: ok_value_def)

lemma names_update:
  "list_all (\<lambda>(k, v). v = JObj []) m \<Longrightarrow> list_all (\<lambda>(k, v). v = JObj []) (dict_update (map (\<lambda>t. (f t, JObj [])) ts) m)"
  by (erule all_dict_update) (simp add: list_all_iff)

lemma labels_update:
  "list_all (\<lambda>(k, v). is_jstr v) m \<Longrightarrow> list_all (\<lambda>(k, v). is_jstr v) (dict_update (map (\<lambda>(k, v). (k, JStr v)) ps) m)"
  by (erule all_dict_update) (auto simp: list_all_iff)

lemma do_label_handled: "live e \<Longrightarrow> handled e (do_label e i)"
  unfolding do_label_def
proof (rule handled_bind)
  fix pairs assume l: "live e"
  show "handled e (bindR (stage_cfg (the_stage e)) (\<lambda>cfg. bindR (dict_json (cfg_or cfg ''Labels'')) (\<lambda>labels.
       put_cfg e ''Labels'' (JObj (dict_update (map (\<lambda>(k, v). (k, JStr v)) pairs) labels)))))"
    by (intro put_map_handled [OF l] handled_put [OF l])
       (simp_all only: ok_labels labels_update, simp)
qed (rule parse_kv_errors)

lemma do_maintainer_handled: "live e \<Longrightarrow> handled e (do_maintainer e i)"
  unfolding do_maintainer_def
  by (intro put_map_handled handled_put) (auto simp: ok_labels all_dict_set)

lemma do_expose_handled: "live e \<Longrightarrow> handled e (do_expose e i)"
  unfolding do_expose_def
proof (rule put_map_handled)
  fix m assume l: "live e" and m: "ok_value ''ExposedPorts'' (JObj m)"
  show "handled e (bindR (split_operands i) (\<lambda>tokens. put_cfg e ''ExposedPorts''
         (JObj (dict_update (map (\<lambda>t. (if CHR ''/'' \<in> set t then t else t @ ''/tcp'', JObj [])) tokens) m))))"
    using m by (intro handled_bind handled_put [OF l]) (simp_all only: ok_names names_update split_operands_errors)
qed simp_all

lemma do_volume_handled: "live e \<Longrightarrow> handled e (do_volume e i)"
  unfolding do_volume_def
proof (rule put_map_handled)
  fix m assume l: "live e" and m: "ok_value ''Volumes'' (JObj m)"
  show "handled e (bindR (case i_value i of VArgv xs \<Rightarrow> if i_exec i then Inr xs else split_operands i | _ \<Rightarrow> split_operands i)
       (\<lambda>paths. put_cfg e ''Volumes'' (JObj (dict_update (map (\<lambda>p. (p, JObj [])) paths) m))))"
  proof (intro handled_bind handled_put [OF l])
    show "ok_value ''Volumes'' (JObj (dict_update (map (\<lambda>p. (p, JObj [])) x) m))" for x :: "string list"
      using m by (simp only: ok_names names_update)
    show "\<exists>b. f = BuildError b"
      if "(case i_value i of VArgv xs \<Rightarrow> if i_exec i then Inr xs else split_operands i | _ \<Rightarrow> split_operands i) = Inl f" for f
      using that split_operands_errors [of i f] by (cases "i_value i") (auto split: if_splits)
  qed
qed simp_all

lemma ok_other: "ok_value ''StopSignal'' v" "ok_value ''Healthcheck'' v"
  by (simp_all add: ok_value_def)

lemma do_user_handled: "live e \<Longrightarrow> handled e (do_user e i)"
proof -
  assume l: "live e"
  have "ok_value ''User'' (JStr u)" for u by (simp add: ok_value_def)
  then show ?thesis
    unfolding do_user_def Let_def by (intro handled_put_after [OF l] handled_upd [OF l]) simp_all
qed

lemma do_cmd_handled: "live e \<Longrightarrow> handled e (do_cmd e i)"
  unfolding do_cmd_def by (rule handled_put) (simp_all add: ok_value_def list_all_iff)

lemma do_entrypoint_handled: "live e \<Longrightarrow> handled e (do_entrypoint e i)"
proof -
  assume l: "live e"
  have "ok_value ''Entrypoint'' (JArr (map JStr (to_argv i (s_shell (the_stage e)))))"
    by (simp add: ok_value_def list_all_iff)
  from put_cfg_live [OF l this] obtain e' where
    e': "put_cfg e ''Entrypoint'' (JArr (map JStr (to_argv i (s_shell (the_stage e))))) = Inr e'" "live e'" "quiet_step e e'"
    by blast
  have "handled e (put_cfg e' ''Cmd'' JNull)"
    by (rule handled_put_after [OF l e'(3,2)]) (simp add: ok_value_def)
  with e'(1) show ?thesis by (simp add: do_entrypoint_def)
qed

lemma do_stopsignal_handled: "live e \<Longrightarrow> handled e (do_stopsignal e i)"
  unfolding do_stopsignal_def by (intro handled_put ok_other)

lemma do_shell_handled: "live e \<Longrightarrow> handled e (do_shell e i)"
proof -
  assume l: "live e"
  have "handled e (put_cfg (upd_stage (\<lambda>s. s\<lparr>s_shell := xs\<rparr>) e) ''Shell'' (JArr (map JStr xs)))" for xs
    by (rule handled_put_after [OF l]) (auto intro: handled_upd l simp: ok_value_def list_all_iff)
  then show ?thesis by (auto simp: do_shell_def handled_def split: ivalue.splits)
qed

lemma do_healthcheck_handled: "live e \<Longrightarrow> handled e (do_healthcheck e i)"
proof -
  assume l: "live e"
  have p: "handled e (put_cfg e ''Healthcheck'' v)" for v by (intro handled_put [OF l] ok_other)
  have b: "handled e (Inl (BuildError b))" for b by (simp add: handled_def)
  show ?thesis unfolding do_healthcheck_def Let_def by (simp only: p b simp_thms split: if_splits)
qed

lemma do_onbuild_handled: "live e \<Longrightarrow> handled e (do_onbuild e i)"
proof (cases "i_value i")
  case (VInner j)
  assume l: "live e"
  obtain d where d: "stage_cfg (the_stage e) = Inr d" "live_config d" using live_stage_cfg [OF l] by blast
  obtain xs where xs: "iter_json (cfg_or d ''OnBuild'') = Inr xs" "list_all is_jstr xs"
    using cfg_or_arr [OF d(2), of "''OnBuild''"] by auto
  have "handled e (put_cfg e ''OnBuild'' (JArr (xs @ [JStr (i_raw j)])))"
    using xs(2) by (intro handled_put [OF l]) (simp add: ok_value_def)
  with VInner d xs(1) show ?thesis by (simp add: do_onbuild_def handled_def)
qed (simp_all add: do_onbuild_def handled_def)

lemma live_fs: "live (e\<lparr>e_fs := t\<rparr>) = live e" "live (e\<lparr>e_blobs := b\<rparr>) = live e" "live (e\<lparr>e_index := x\<rparr>) = live e"
  by (simp_all add: live_def)

lemma step_fs: "quiet_step e e' \<Longrightarrow> quiet_step e (e'\<lparr>e_fs := t\<rparr>)"
  by (simp add: quiet_step_def stage_step_def)

lemma emit_layer_step: "live e \<Longrightarrow> live (emit_layer h ms e) \<and> stage_step e (emit_layer h ms e)"
proof -
  assume l: "live e"
  have "live (emit_layer h ms e)"
    unfolding emit_layer_def Let_def using l by (intro live_upd) (simp_all add: live_fs)
  moreover have "stage_step e (emit_layer h ms e)"
    by (auto simp: emit_layer_def Let_def stage_step_def upd_stage_def the_stage_def)
  ultimately show ?thesis ..
qed



lemma do_workdir_handled: "live e \<Longrightarrow> handled e (do_workdir h e i)"
proof -
  assume l: "live e"
  let ?raw = "strip (value_str (i_value i))"
  let ?wd = "s_workdir (the_stage e)"
  define p where "p = py_normpath (py_join (py_join ''/'' (if ?wd = [] then ''/'' else ?wd)) ?raw)"
  note u = handled_upd [OF l, of "\<lambda>s. s\<lparr>s_workdir := p\<rparr>"]
  have "ok_value ''WorkingDir'' (JStr p)" by (simp add: ok_value_def)
  from put_cfg_live [OF u(1) this] obtain e1 where e1:
    "put_cfg (upd_stage (\<lambda>s. s\<lparr>s_workdir := p\<rparr>) e) ''WorkingDir'' (JStr p) = Inr e1" "live e1"
    "quiet_step (upd_stage (\<lambda>s. s\<lparr>s_workdir := p\<rparr>) e) e1" by auto
  have q: "quiet_step e e1"
    using u(2) e1(3) quiet_then [OF u(2)] by (auto simp: quiet_step_def)
  have a: "handled e (Inr (e1\<lparr>e_fs := t\<rparr>))" for t
    using step_fs [OF q] e1(2) by (simp add: handled_def live_fs quiet_step_def)
  have b: "handled e (Inr (emit_layer h ms (e1\<lparr>e_fs := t\<rparr>)))" for ms t
    using emit_layer_step [of "e1\<lparr>e_fs := t\<rparr>" h ms] quiet_then [OF step_fs [OF q]] e1(2)
    by (auto simp: handled_def live_fs)
  have c: "handled e (Inr e1)" using q e1(2) by (simp add: handled_def quiet_step_def)
  show ?thesis
    using a b c e1(1) unfolding do_workdir_def Let_def p_def [symmetric]
    by (auto simp: handled_def split: option.splits prod.splits)
qed

end
