(* ===== verification/Layer_Roundtrip.thy ===== *)
theory Layer_Roundtrip
  imports Layer_Diff
begin

text \<open>
  Applying the layer of a RUN step to the rootfs it started from gives the rootfs it ended with, as
  long as no path changed its type; and what happens when one does.
\<close>

subsection \<open>Views\<close>

text \<open>What a rootfs looks like below \<open>r\<close>: directories, links, files, with modes and without times.\<close>

datatype ventry = VDir nat | VLink string | VFile string nat | VSpecial

fun ventry_of :: "fs \<Rightarrow> node \<Rightarrow> ventry" where
  "ventry_of s (NDir m t) = VDir m"
| "ventry_of s (NLink g t) = VLink g"
| "ventry_of s (NFile i) = VFile (fd_bytes (f_data s i)) (fd_mode (f_data s i))"
| "ventry_of s NSpecial = VSpecial"

definition view :: "fs \<Rightarrow> path \<Rightarrow> string list \<Rightarrow> ventry option" where
  "view s r q = map_option (ventry_of s) (node_at s (r @ q))"

fun is_vdir :: "ventry \<Rightarrow> bool" where
  "is_vdir (VDir m) \<longleftrightarrow> True"
| "is_vdir _ \<longleftrightarrow> False"

fun same_kind :: "ventry \<Rightarrow> ventry \<Rightarrow> bool" where
  "same_kind (VDir m) (VDir n) \<longleftrightarrow> True"
| "same_kind (VLink g) (VLink h) \<longleftrightarrow> True"
| "same_kind (VFile b m) (VFile c n) \<longleftrightarrow> True"
| "same_kind _ _ \<longleftrightarrow> False"

lemma ventry_dir [simp]: "is_vdir (ventry_of s n) = is_dir_node n"
  by (cases n) simp_all

lemma view_is_dir: "is_dir s (r @ q) \<longleftrightarrow> (\<exists>v. view s r q = Some v \<and> is_vdir v)"
  by (auto simp: is_dir_def view_def split: option.splits)

lemma view_None: "view s r q = None \<longleftrightarrow> node_at s (r @ q) = None"
  by (simp add: view_def)

lemma view_wf_parent: "wf_fs s \<Longrightarrow> view s r (q @ [n]) \<noteq> None \<Longrightarrow> is_dir s (r @ q) \<and> plain_name n"
  using wf_node [of s "r @ q" n] by (auto simp: view_def)

lemma view_wf_prefix: "wf_fs s \<Longrightarrow> view s r (q @ z) \<noteq> None \<Longrightarrow> z \<noteq> [] \<Longrightarrow> is_dir s (r @ q)"
  using wf_prefix_dir [of s "r @ q" "hd z" "tl z"] by (auto simp: view_def)

lemma view_plain: "wf_fs s \<Longrightarrow> view s r q = Some v \<Longrightarrow> list_all plain_name q"
  using wf_node_path [of s "r @ q"] by (auto simp: view_def)

subsection \<open>Names of the members\<close>

abbreviation slashed :: "string list \<Rightarrow> string" where
  "slashed q \<equiv> join_with ''/'' q"

lemma slashed_split:
  "list_all plain_name q \<Longrightarrow> q \<noteq> [] \<Longrightarrow> split_on CHR ''/'' (slashed q) = q"
  by (rule split_join) (auto simp: list_all_iff plain_name_def)

lemma slashed_inj:
  "list_all plain_name q \<Longrightarrow> list_all plain_name p \<Longrightarrow> q \<noteq> [] \<Longrightarrow> p \<noteq> [] \<Longrightarrow> slashed q = slashed p \<Longrightarrow> q = p"
  using slashed_split by metis

lemma slashed_Cons: "slashed (a # b) = (if b = [] then a else a @ CHR ''/'' # slashed b)"
  by (cases b) simp_all

lemma slashed_ends:
  assumes "list_all plain_name q" and "q \<noteq> []"
  shows "slashed q \<noteq> [] \<and> hd (slashed q) \<noteq> CHR ''/'' \<and> last (slashed q) \<noteq> CHR ''/''"
proof -
  obtain a b where a: "q = a # b" using assms(2) by (cases q) auto
  then have "a \<noteq> []" "CHR ''/'' \<notin> set a" using assms(1) by (auto simp: plain_name_def)
  then obtain x y where x: "a = x # y" "x \<noteq> CHR ''/''" by (cases a) auto
  have "\<exists>u. slashed q = x # u" by (simp add: a slashed_Cons x)
  then have "hd (slashed q) \<noteq> CHR ''/''" "slashed q \<noteq> []" using x by auto
  moreover have "last (slashed q) \<noteq> CHR ''/''"
  proof -
    have l: "last q \<noteq> [] \<and> CHR ''/'' \<notin> set (last q)"
      using assms by (auto simp: list_all_iff plain_name_def)
    obtain u where "slashed q = u @ last q" using suffix_last_join [OF assms(2)] by (auto simp: suffix_def)
    with l show ?thesis by (metis last_appendR last_in_set)
  qed
  ultimately show ?thesis by simp
qed

lemma name_parts_slashed:
  assumes "list_all plain_name q" and "q \<noteq> []"
  shows "name_parts 0 (slashed q) = Some q"
proof -
  note e = slashed_ends [OF assms]
  have "lstrip_by (\<lambda>c. c = CHR ''/'') (slashed q) = slashed q"
    using e by (cases "slashed q") (simp_all add: lstrip_by_def)
  moreover have "rstrip_by (\<lambda>c. c = CHR ''/'') (slashed q) = slashed q"
    using e by (cases "slashed q" rule: rev_cases) (simp_all add: rstrip_by_def)
  moreover have "\<not> list_ex (\<lambda>p. p = ''..'' \<or> p = []) q"
    using assms(1) by (auto simp: list_all_iff list_ex_iff plain_name_def)
  ultimately show ?thesis using slashed_split [OF assms] assms(2) by (simp add: name_parts_def)
qed

lemma slashed_snoc: "slashed (p @ [n]) = (if p = [] then n else slashed p @ ''/'' @ n)"
  by (induction "''/''" p rule: join_with.induct) auto

lemma rpartition_slashed:
  assumes "plain_name n"
  shows "rpartition_at CHR ''/'' (slashed (p @ [n])) = (slashed p, n)"
proof (cases "p = []")
  case True
  have "rpartition_at CHR ''/'' n = ([], n)"
  proof -
    have t: "takeWhile (\<lambda>x. x \<noteq> CHR ''/'') (rev n) = rev n"
      and d: "dropWhile (\<lambda>x. x \<noteq> CHR ''/'') (rev n) = []"
      using assms by (auto simp: plain_name_def takeWhile_eq_all_conv dropWhile_eq_Nil_conv)
    show ?thesis unfolding rpartition_at_def Let_def t d by simp
  qed
  with True show ?thesis by simp
next
  case False
  with assms rpartition_at_append [of "CHR ''/''" n "slashed p"] show ?thesis
    by (simp add: slashed_snoc plain_name_def)
qed

lemma slashed_append: "p \<noteq> [] \<Longrightarrow> z \<noteq> [] \<Longrightarrow> slashed (p @ z) = slashed p @ CHR ''/'' # slashed z"
proof (induction p)
  case (Cons a p)
  then show ?case by (cases p) (simp_all add: slashed_Cons)
qed simp

lemma less_append: "(xs :: string) < xs @ c # ys"
  by (induction xs) simp_all

lemma slashed_less: "p \<noteq> [] \<Longrightarrow> z \<noteq> [] \<Longrightarrow> slashed p < slashed (p @ z)"
  by (simp add: slashed_append less_append)

subsection \<open>What a snapshot holds\<close>

fun fp_of :: "fs \<Rightarrow> node \<Rightarrow> fingerprint option" where
  "fp_of s (NDir m t) = Some (FpDir (S_IMODE m))"
| "fp_of s (NLink g t) = Some (FpLink g)"
| "fp_of s (NFile i) =
     Some (FpFile (length (fd_bytes (f_data s i))) (fd_mtime (f_data s i))
       (S_IMODE (fd_mode (f_data s i))) (crc32 (fd_bytes (f_data s i))))"
| "fp_of s NSpecial = None"

lemma lstat_plain: "plain_name n \<Longrightarrow> lstat_at s d n = (case node_at s (d @ [n]) of None \<Rightarrow> Inl ENOENT | Some x \<Rightarrow> Inr x)"
  by (simp add: lstat_at_def at_plain)

lemma snap_dir_iff:
  "wf_fs s \<Longrightarrow> \<forall>q. node_at s (d @ q) \<noteq> None \<longrightarrow> length q \<le> k \<Longrightarrow> pre \<noteq> [] \<or> node_at s (d @ [''.l2s'']) = None \<Longrightarrow>
     (x, v) \<in> set (snap_dir k s d pre) \<longleftrightarrow>
     (\<exists>q n. q \<noteq> [] \<and> x = pre @ slashed q \<and> node_at s (d @ q) = Some n \<and> fp_of s n = Some v)"
proof (induction k arbitrary: d pre)
  case 0
  then have "\<And>q. node_at s (d @ q) \<noteq> None \<Longrightarrow> q = []" by auto
  then show ?case by (auto simp del: not_None_eq)
next
  case (Suc k)
  let ?own = "\<lambda>c n. if fp_of s n = Some v \<and> x = pre @ c then True else False"
  have sub: "(x, v) \<in> set (snap_dir k s (d @ [c]) (pre @ c @ ''/'')) \<longleftrightarrow>
      (\<exists>q n. q \<noteq> [] \<and> x = pre @ slashed (c # q) \<and> node_at s (d @ c # q) = Some n \<and> fp_of s n = Some v)" for c
  proof -
    have "\<forall>q. node_at s ((d @ [c]) @ q) \<noteq> None \<longrightarrow> length q \<le> k"
    proof (intro allI impI)
      fix q assume "node_at s ((d @ [c]) @ q) \<noteq> None"
      then have "length (c # q) \<le> Suc k" using Suc.prems(2) by fastforce
      then show "length q \<le> k" by simp
    qed
    from Suc.IH [OF Suc.prems(1) this, of "pre @ c @ ''/''"] show ?thesis
      by (auto simp: slashed_Cons)
  qed
  have entry: "(x, v) \<in> set (let rel = pre @ c in
       case lstat_at s d c of
         Inl e \<Rightarrow> []
       | Inr (NLink t m) \<Rightarrow> [(rel, FpLink t)]
       | Inr (NDir m t) \<Rightarrow>
           (if pre = [] \<and> c = ''.l2s'' then []
            else (rel, FpDir (S_IMODE m)) # snap_dir k s (d @ [c]) (rel @ ''/''))
       | Inr (NFile i) \<Rightarrow>
           [(rel, FpFile (length (fd_bytes (f_data s i))) (fd_mtime (f_data s i))
              (S_IMODE (fd_mode (f_data s i))) (file_crc32 s d c))]
       | Inr NSpecial \<Rightarrow> [])
     \<longleftrightarrow> (\<exists>q n. x = pre @ slashed (c # q) \<and> node_at s (d @ c # q) = Some n \<and> fp_of s n = Some v)"
    if c: "c \<in> set (listdir_at s d)" for c
  proof -
    have pc: "plain_name c" using listdir_plain [OF Suc.prems(1) c] .
    obtain n0 where n0: "node_at s (d @ [c]) = Some n0" using listdir_iff [OF Suc.prems(1)] c by blast
    have nl: "\<not> (pre = [] \<and> c = ''.l2s'')" using Suc.prems(3) n0 by auto
    have split: "(\<exists>q n. x = pre @ slashed (c # q) \<and> node_at s (d @ c # q) = Some n \<and> fp_of s n = Some v) \<longleftrightarrow>
        x = pre @ c \<and> fp_of s n0 = Some v \<or>
        (\<exists>q n. q \<noteq> [] \<and> x = pre @ slashed (c # q) \<and> node_at s (d @ c # q) = Some n \<and> fp_of s n = Some v)"
      using n0 by (metis append_Cons append_Nil join_with.simps(2) list.exhaust option.inject)
    have below: "\<not> is_dir_node n0 \<Longrightarrow> q \<noteq> [] \<Longrightarrow> node_at s (d @ c # q) = None" for q
      using wf_prefix_dir [OF Suc.prems(1), of "d @ [c]" "hd q" "tl q"] n0
      by (cases "node_at s (d @ c # q)") (auto simp: is_dir_def)
    show ?thesis
      unfolding split Let_def
      using n0 nl sub [of c] below
      by (cases n0) (auto simp: lstat_plain [OF pc] file_crc32_def open_regular_at_def at_plain [OF pc])
  qed
  have "(x, v) \<in> set (snap_dir (Suc k) s d pre) \<longleftrightarrow>
      (\<exists>c \<in> set (listdir_at s d). \<exists>q n. x = pre @ slashed (c # q) \<and> node_at s (d @ c # q) = Some n \<and> fp_of s n = Some v)"
    using entry by (simp add: Let_def)
  also have "\<dots> \<longleftrightarrow> (\<exists>q n. q \<noteq> [] \<and> x = pre @ slashed q \<and> node_at s (d @ q) = Some n \<and> fp_of s n = Some v)"
  proof -
    have "c \<in> set (listdir_at s d)" if "node_at s (d @ c # q) = Some n" for c q n
    proof (cases q)
      case Nil
      with that show ?thesis using listdir_iff [OF Suc.prems(1)] by simp
    next
      case (Cons a b)
      with that wf_prefix_dir [OF Suc.prems(1), of "d @ [c]" a b] have "is_dir s (d @ [c])" by simp
      then show ?thesis
        unfolding listdir_iff [OF Suc.prems(1)] by (auto simp: is_dir_def split: option.splits)
    qed
    then show ?thesis by (metis list.exhaust list.distinct(1))
  qed
  finally show ?case .
qed

lemma snapshot_iff:
  assumes "wf_fs s" and "node_at s (r @ [''.l2s'']) = None"
  shows "(x, v) \<in> set (snapshot s r) \<longleftrightarrow>
     (\<exists>q n. q \<noteq> [] \<and> x = slashed q \<and> node_at s (r @ q) = Some n \<and> fp_of s n = Some v)"
proof -
  have "\<forall>q. node_at s (r @ q) \<noteq> None \<longrightarrow> length q \<le> Suc (max_depth s)"
  proof (intro allI impI)
    fix q assume "node_at s (r @ q) \<noteq> None"
    then obtain n where "node_at s (r @ q) = Some n" by auto
    from max_depth_bound [OF this] show "length q \<le> Suc (max_depth s)" by simp
  qed
  from snap_dir_iff [OF assms(1) this, of "[]"] assms(2) show ?thesis by (simp add: snapshot_def)
qed

lemma map_of_functional:
  assumes "\<And>w. (k, w) \<in> set xs \<Longrightarrow> w = v" and "(k, v) \<in> set xs"
  shows "map_of xs k = Some v"
proof -
  obtain w where "map_of xs k = Some w" using weak_map_of_SomeI [OF assms(2)] by blast
  with assms(1) map_of_SomeD show ?thesis by metis
qed

lemma snapshot_get:
  assumes "wf_fs s" and "node_at s (r @ [''.l2s'']) = None" and "list_all plain_name q" and "q \<noteq> []"
  shows "dict_get (snapshot s r) (slashed q) = (case node_at s (r @ q) of None \<Rightarrow> None | Some n \<Rightarrow> fp_of s n)"
proof -
  note iff = snapshot_iff [OF assms(1,2)]
  have one: "(slashed q, w) \<in> set (snapshot s r) \<longleftrightarrow> (\<exists>n. node_at s (r @ q) = Some n \<and> fp_of s n = Some w)" for w
  proof
    assume "(slashed q, w) \<in> set (snapshot s r)"
    then obtain p n where p: "p \<noteq> []" "slashed q = slashed p" "node_at s (r @ p) = Some n" "fp_of s n = Some w"
      unfolding iff by blast
    have "list_all plain_name p" using wf_node_path [OF assms(1) p(3)] by simp
    with p slashed_inj [OF assms(3) _ assms(4) p(1)] have "q = p" by simp
    with p show "\<exists>n. node_at s (r @ q) = Some n \<and> fp_of s n = Some w" by blast
  next
    assume "\<exists>n. node_at s (r @ q) = Some n \<and> fp_of s n = Some w"
    with assms(4) show "(slashed q, w) \<in> set (snapshot s r)" unfolding iff by blast
  qed
  show ?thesis
  proof (cases "\<exists>n w. node_at s (r @ q) = Some n \<and> fp_of s n = Some w")
    case True
    then obtain n w where n: "node_at s (r @ q) = Some n" "fp_of s n = Some w" by blast
    then have "map_of (snapshot s r) (slashed q) = Some w"
      using one by (intro map_of_functional) auto
    with n show ?thesis by (simp add: dict_get_def)
  next
    case False
    then have "map_of (snapshot s r) (slashed q) = None"
      using one by (metis map_of_SomeD not_None_eq)
    with False show ?thesis by (auto simp: dict_get_def split: option.splits)
  qed
qed

subsection \<open>Walks over existing directories\<close>

lemma resolve_plain:
  "list_all plain_name pend \<Longrightarrow>
     (\<And>i x. i < length pend \<Longrightarrow> node_at s (r @ res @ take (Suc i) pend) = Some x \<Longrightarrow> \<not> is_link_node x) \<Longrightarrow>
     resolve_parts s r b res pend = Some (res @ pend)"
proof (induction pend arbitrary: res)
  case (Cons c pend)
  have c: "c \<noteq> []" "c \<noteq> ''.''" "c \<noteq> ''..''" using Cons.prems(1) by (simp_all add: plain_name_def)
  have rec: "resolve_parts s r b (res @ [c]) pend = Some ((res @ [c]) @ pend)"
  proof (rule Cons.IH)
    show "list_all plain_name pend" using Cons.prems(1) by simp
    fix i x assume "i < length pend" "node_at s (r @ (res @ [c]) @ take (Suc i) pend) = Some x"
    then show "\<not> is_link_node x" using Cons.prems(2) [of "Suc i" x] by simp
  qed
  show ?case
  proof (cases "node_at s (r @ res @ [c])")
    case (Some x)
    with Cons.prems(2) [of 0 x] have "\<not> is_link_node x" by simp
    with Some c rec show ?thesis by (cases x) auto
  qed (use c rec in simp)
qed simp

lemma descend_false_fs: "descend_at False s d p = (res, t) \<Longrightarrow> t = s"
proof (induction False s d p arbitrary: res t rule: descend_at.induct)
  case (3 s d n m ns)
  then show ?case by (auto simp: open_level_def split: sum.splits prod.splits if_splits)
qed (auto simp: open_level_def split: sum.splits if_splits)

definition good :: "path \<Rightarrow> fs \<Rightarrow> bool" where
  "good r s \<longleftrightarrow> wf_fs s \<and> is_dir s r \<and> free_below r s"

lemma parents_existing:
  assumes "good r (x_fs x)" and "is_dir (x_fs x) (r @ p)" and "list_all plain_name p"
  shows "\<exists>y. parents_get r c x p = (Inr (r @ p), y) \<and> x_fs y = x_fs x \<and> x_links y = x_links x \<and> x_dirs y = x_dirs x"
  using descend_existing [of "x_fs x" r p c] assms by (auto simp: parents_get_def good_def)

lemma parents_missing:
  assumes "\<not> is_dir (x_fs x) (r @ p)" and "list_all plain_name p"
  shows "\<exists>res y. parents_get r False x p = (res, y) \<and> x_fs y = x_fs x \<and> x_links y = x_links x \<and> x_dirs y = x_dirs x
    \<and> (x_cache x = Some p \<or> (\<exists>e. res = Inl e))"
proof -
  obtain o1 t where d: "descend_at False (x_fs x) r p = (o1, t)" by (cases "descend_at False (x_fs x) r p")
  have "t = x_fs x" using descend_false_fs [OF d] .
  moreover have "\<exists>e. o1 = Inl e"
    using descend_safe [OF d assms(2), of r] assms(1) calculation by (cases o1) auto
  ultimately show ?thesis using d by (auto simp: parents_get_def)
qed

subsection \<open>Entries written into a view\<close>

lemma ventry_data: "f_data t = f_data s \<Longrightarrow> ventry_of t = ventry_of s"
proof
  fix x assume "f_data t = f_data s"
  then show "ventry_of t x = ventry_of s x" by (cases x) simp_all
qed

lemma ventry_put [simp]: "ventry_of (put_node p n s) = ventry_of s"
  by (rule ventry_data) simp

lemma ventry_drop [simp]: "ventry_of (drop_node p s) = ventry_of s"
  by (rule ventry_data) simp

lemma view_put: "view (put_node (r @ q) n s) r = (view s r)(q \<mapsto> ventry_of s n)"
  by (rule ext) (simp add: view_def)

lemma view_drop: "view (drop_node (r @ q) s) r = (view s r)(q := None)"
  by (rule ext) (simp add: view_def)

lemma free_below_stuck: "f_stuck t = f_stuck s \<Longrightarrow> free_below r t = free_below r s"
  by (simp add: free_below_def)

lemma good_step:
  assumes "good r s" and "safe_step r s t" and "is_dir t r"
  shows "good r t"
proof -
  have "f_stuck t = f_stuck s" using assms(2) by (simp add: safe_step_def keeps_bytes_def)
  from free_below_stuck [OF this] assms show ?thesis by (simp add: good_def safe_wf)
qed

lemma view_same_data:
  assumes "\<And>q. node_at t (r @ q) = node_at s (r @ q)"
    and "\<And>q i. node_at s (r @ q) = Some (NFile i) \<Longrightarrow>
           fd_bytes (f_data t i) = fd_bytes (f_data s i) \<and> fd_mode (f_data t i) = fd_mode (f_data s i)"
  shows "view t r = view s r"
proof
  fix q
  show "view t r q = view s r q"
  proof (cases "node_at s (r @ q)")
    case (Some n)
    have "ventry_of t n = ventry_of s n"
    proof (cases n)
      case (NFile i)
      with assms(2) [of q i] Some show ?thesis by simp
    qed simp_all
    with Some assms(1) [of q] show ?thesis by (simp add: view_def)
  qed (use assms(1) [of q] in \<open>simp add: view_def\<close>)
qed

lemma view_utime: "view (quiet (utime_at s d n t) s) r = view s r"
proof (cases "utime_at s d n t")
  case (Inr u)
  from Inr obtain x where x: "node_at s (at d n) = Some x" by (auto simp: utime_at_def split: option.splits)
  consider (put) y where "u = put_node (at d n) y s" "ventry_of s y = ventry_of s x"
    | (ino) i where "u = write_inode i ((f_data s i)\<lparr>fd_mtime := t\<rparr>) s" | (same) "u = s"
    using Inr x by (cases x) (auto simp: utime_at_def)
  then show ?thesis
  proof cases
    case put
    with x have "view u r q = view s r q" for q by (simp add: view_def)
    with Inr show ?thesis by (simp add: quiet_def fun_eq_iff)
  next
    case ino
    have "view u r = view s r" by (rule view_same_data) (simp_all add: ino)
    with Inr show ?thesis by (simp add: quiet_def)
  qed (use Inr in \<open>simp add: quiet_def\<close>)
qed (simp add: quiet_def)

lemma view_link_none:
  "wf_fs s \<Longrightarrow> view s r q = Some v \<Longrightarrow> \<not> is_vdir v \<Longrightarrow> z \<noteq> [] \<Longrightarrow> view s r (q @ z) = None"
  using view_wf_prefix [of s r q z] by (cases "view s r (q @ z)") (auto simp: view_is_dir)

lemma write_dir_view:
  assumes "wf_fs s" and "is_dir s (r @ p)" and "plain_name n"
    and "view s r (p @ [n]) = None \<or> (\<exists>m0. view s r (p @ [n]) = Some (VDir m0))"
  shows "\<exists>t. write_dir s (r @ p) n m = (Inr (), t)
    \<and> view t r = (view s r)(p @ [n] \<mapsto> VDir (or (S_IMODE m) 448))"
proof -
  note pl = at_plain [OF assms(3)]
  have dl: "drop_link s (r @ p) n = s"
    using assms(4) by (auto simp: drop_link_def lstat_at_def pl view_def split: option.splits)
      (metis is_dir_node.simps is_link_node.elims(2) is_vdir.simps(1) ventry_dir)
  from assms(4) show ?thesis
  proof
    assume none: "view s r (p @ [n]) = None"
    then have n0: "node_at s (r @ p @ [n]) = None" by (simp add: view_def)
    have "mkdir_at s (r @ p) n 511 = Inr (put_node (r @ p @ [n]) (NDir (511 - and 511 (f_umask s)) (f_now s)) s)"
      using n0 assms(2,3) by (simp add: mkdir_at_def pl)
    with dl show ?thesis
      by (simp add: write_dir_def chmod_at_def pl) (simp add: view_def fun_eq_iff)
  next
    assume "\<exists>m0. view s r (p @ [n]) = Some (VDir m0)"
    then obtain x where x: "node_at s (r @ p @ [n]) = Some x" "is_dir_node x"
      by (auto simp: view_def) (metis is_vdir.simps(1) ventry_dir)
    then obtain m0 t0 where "x = NDir m0 t0" by (cases x) auto
    with x dl show ?thesis
      by (simp add: write_dir_def chmod_at_def mkdir_at_def lstat_at_def pl) (simp add: view_def fun_eq_iff)
  qed
qed

lemma create_view:
  assumes "wf_fs s" and "is_dir s (r @ p)" and "plain_name n" and "node_at s (r @ p @ [n]) = None"
    and "create_excl s (r @ p) n m = Inr (i, t)"
  shows "view (write_inode i \<lparr>fd_bytes = b, fd_mode = k, fd_mtime = w\<rparr> t) r
    = (view s r)(p @ [n] \<mapsto> VFile b k)"
proof
  fix q
  let ?u = "write_inode i \<lparr>fd_bytes = b, fd_mode = k, fd_mtime = w\<rparr> t"
  from assms have i: "i = f_next s" and nd: "\<And>q. node_at t q = (if q = r @ p @ [n] then Some (NFile i) else node_at s q)"
    and fd: "\<And>j. j \<noteq> i \<Longrightarrow> f_data t j = f_data s j"
    by (auto simp: create_excl_def at_plain split: if_splits)
  show "view ?u r q = ((view s r)(p @ [n] \<mapsto> VFile b k)) q"
  proof (cases "q = p @ [n]")
    case False
    show ?thesis
    proof (cases "node_at s (r @ q)")
      case (Some x)
      have "ventry_of ?u x = ventry_of s x"
      proof (cases x)
        case (NFile j)
        with Some have "wf_entry s (r @ q, NFile j)" using assms(1) by (auto intro: wf_fsD)
        with i have "j \<noteq> i" by (simp add: wf_entry_def)
        with NFile fd show ?thesis by simp
      qed simp_all
      with Some False nd [of "r @ q"] show ?thesis by (simp add: view_def)
    qed (use False nd [of "r @ q"] in \<open>simp add: view_def\<close>)
  qed (use nd [of "r @ q"] in \<open>simp add: view_def\<close>)
qed

lemma view_unlink:
  assumes "wf_fs s" and "view s r (p @ [n]) = Some v" and "\<not> is_vdir v" and "plain_name n" and "free_below r s"
  shows "unlink_at s (r @ p) n = Inr (drop_node (r @ p @ [n]) s)"
proof -
  obtain x where x: "node_at s (r @ p @ [n]) = Some x" "\<not> is_dir_node x"
    using assms(2,3) by (auto simp: view_def)
  have "r @ p @ [n] \<notin> set (f_stuck s)" using assms(5) by (auto simp: free_below_def list_all_iff)
  with x assms(4) show ?thesis by (cases x) (simp_all add: unlink_at_def at_plain)
qed

lemma write_regular_view:
  assumes g: "good r s" and d: "is_dir s (r @ p)" and n: "plain_name n"
    and v: "view s r (p @ [n]) = None \<or> (\<exists>v. view s r (p @ [n]) = Some v \<and> \<not> is_vdir v)"
  shows "\<exists>t. write_regular s (r @ p) n b m mt = (Inr (), t)
    \<and> view t r = (view s r)(p @ [n] \<mapsto> VFile b (S_IMODE m))"
proof -
  note pl = at_plain [OF n]
  have wf: "wf_fs s" and fb: "free_below r s" using g by (simp_all add: good_def)
  define s1 where "s1 = (if view s r (p @ [n]) = None then s else drop_node (r @ p @ [n]) s)"
  have w1: "wf_fs s1" and d1: "is_dir s1 (r @ p)"
    using v view_unlink [OF wf _ _ n fb] safe_unlink [of s "r @ p" n _ r] n wf d by (auto simp: s1_def dest: safe_wf)
  have n1: "node_at s1 (r @ p @ [n]) = None" by (simp add: s1_def view_def)
  have v1: "(view s1 r)(p @ [n] \<mapsto> e) = (view s r)(p @ [n] \<mapsto> e)" for e
    by (auto simp: s1_def view_drop)
  obtain i t where c: "create_excl s1 (r @ p) n (S_IMODE m) = Inr (i, t)"
    using n1 d1 n by (simp add: create_excl_def pl)
  have o: "open_new_at s (r @ p) n (S_IMODE m) = Inr (i, t)"
  proof (cases "view s r (p @ [n])")
    case None
    with c show ?thesis by (simp add: open_new_at_def s1_def)
  next
    case (Some v')
    with v have "unlink_at s (r @ p) n = Inr s1" using view_unlink [OF wf Some _ n fb] by (simp add: s1_def)
    moreover have "create_excl s (r @ p) n (S_IMODE m) = Inl EEXIST"
      using Some by (auto simp: create_excl_def pl view_def)
    ultimately show ?thesis using c by (simp add: open_new_at_def)
  qed
  show ?thesis
    using o create_view [OF w1 d1 n n1 c] v1
    by (simp add: write_regular_def Let_def view_utime)
qed

lemma removed_view:
  assumes "removed {r @ q} s t" and "f_data t = f_data s"
  shows "view t r = (\<lambda>z. if prefix q z then None else view s r z)"
  using assms(1) by (intro ext) (simp add: view_def removed_def ventry_data [OF assms(2)])

lemma rm_data: "remove_entry k f l d s n = (res, t) \<Longrightarrow> f_data t = f_data s"
proof (induction k arbitrary: d s n res t)
  case (Suc k)
  have mw: "f_data (make_writable s d) = f_data s" for s d
    by (auto simp: make_writable_def chmod_dir_fd_def split: option.splits node.splits)
  have rm: "rmdir_at s d n = Inr t \<Longrightarrow> f_data t = f_data s" "unlink_at s d n = Inr t \<Longrightarrow> f_data t = f_data s" for s d n t
    by (auto simp: rmdir_at_def unlink_at_def split: option.splits node.splits if_splits)
  have uf: "unlink_force b s d n f = Inr t \<Longrightarrow> f_data t = f_data s" for b s d n t
    by (auto simp: unlink_force_def Let_def mw split: sum.splits if_splits dest!: rm)
  have ar: "f_data (after_refusal e s d f) = f_data s" for e s d by (simp add: after_refusal_def mw)
  have ur: "unlink_reporting f l s d n = (res, t) \<Longrightarrow> f_data t = f_data s" for s d n res t
    by (auto simp: unlink_reporting_def fail_remove_def ar split: sum.splits if_splits dest!: uf)
  have re: "remove_each (remove_entry k f l p) s ns = (res, t) \<Longrightarrow> f_data t = f_data s" for p s ns res t
  proof (induction ns arbitrary: s res t)
    case (Cons c ns)
    obtain o1 u where u: "remove_entry k f l p s c = (o1, u)" by (cases "remove_entry k f l p s c")
    obtain o2 w where w: "remove_each (remove_entry k f l p) u ns = (o2, w)"
      by (cases "remove_each (remove_entry k f l p) u ns")
    from Cons u w Suc.IH [OF u] show ?case by (auto split: sum.splits)
  qed simp
  show ?case
    using Suc.prems ar ur re uf
    by (auto simp: fail_remove_def split: sum.splits if_splits prod.splits)
qed simp

lemma rmtree_view:
  assumes g: "good r s" and n: "plain_name n"
  shows "\<exists>t. rmtree_at f l s (r @ p) n = (Inr True, t) \<and> wf_fs t
    \<and> view t r = (\<lambda>z. if prefix (p @ [n]) z then None else view s r z)"
proof -
  have "free_below ((r @ p) @ [n]) s"
    using g by (auto simp: good_def free_below_def list_all_iff dest: append_prefixD)
  then obtain t where t: "rmtree_at f l s (r @ p) n = (Inr True, t)" "wf_fs t" "removed {(r @ p) @ [n]} s t"
    using rmtree_complete [of s n "r @ p" f l] g n by (auto simp: good_def)
  have "f_data t = f_data s" using rm_data t(1) unfolding rmtree_at_def by blast
  with removed_view [of r "p @ [n]" s t] t show ?thesis by simp
qed

lemma write_symlink_view:
  assumes g: "good r s" and d: "is_dir s (r @ p)" and n: "plain_name n" and t: "target \<noteq> []"
    and v: "view s r (p @ [n]) = None \<or> (\<exists>v. view s r (p @ [n]) = Some v \<and> \<not> is_vdir v)"
  shows "\<exists>u. write_symlink s (r @ p) n target mt = (Inr (), u)
    \<and> view u r = (view s r)(p @ [n] \<mapsto> VLink target)"
proof -
  note pl = at_plain [OF n]
  have wf: "wf_fs s" using g by (simp add: good_def)
  have below: "z \<noteq> [] \<Longrightarrow> view s r ((p @ [n]) @ z) = None" for z
    using v
  proof
    assume "z \<noteq> []" "view s r (p @ [n]) = None"
    then show ?thesis using view_wf_prefix [OF wf, of r "p @ [n]" z]
      by (cases "view s r ((p @ [n]) @ z)") (auto simp: view_is_dir)
  next
    assume "z \<noteq> []" "\<exists>v. view s r (p @ [n]) = Some v \<and> \<not> is_vdir v"
    then show ?thesis using view_link_none [OF wf, of r "p @ [n]"] by blast
  qed
  obtain s1 where s1: "(if exists_at s (r @ p) n then rmtree_at True False s (r @ p) n else (Inr True, s)) = (Inr True, s1)"
    and v1: "view s1 r = (view s r)(p @ [n] := None)"
  proof (cases "exists_at s (r @ p) n")
    case True
    obtain s1 where a: "rmtree_at True False s (r @ p) n = (Inr True, s1)"
      "view s1 r = (\<lambda>z. if prefix (p @ [n]) z then None else view s r z)"
      using rmtree_view [OF g n] by blast
    have "view s1 r = (view s r)(p @ [n] := None)"
    proof
      fix z
      show "view s1 r z = ((view s r)(p @ [n] := None)) z"
      proof (cases "prefix (p @ [n]) z \<and> z \<noteq> p @ [n]")
        case True
        then obtain zs where "z = (p @ [n]) @ zs" "zs \<noteq> []" by (auto simp: prefix_def)
        with below [of zs] show ?thesis by (simp add: a(2))
      qed (auto simp: a(2))
    qed
    with True a(1) that show thesis by simp
  next
    case False
    then have "view s r (p @ [n]) = None" by (auto simp: exists_at_def lstat_at_def pl view_def split: option.splits)
    then have "view s r = (view s r)(p @ [n] := None)" by (metis fun_upd_triv)
    with False that [of s] show thesis by simp
  qed
  have n1: "node_at s1 (r @ p @ [n]) = None" using v1 by (simp add: view_def fun_eq_iff) (metis option.map_disc_iff)
  have d1: "is_dir s1 (r @ p)" using d v1 by (simp add: view_is_dir)
  have "symlink_at s1 target (r @ p) n = Inr (put_node (r @ p @ [n]) (NLink target (f_now s1)) s1)"
    using n1 d1 t n by (simp add: symlink_at_def pl)
  then have "\<exists>u. write_symlink s (r @ p) n target mt = (Inr (), u)
      \<and> view u r = (view s1 r)(p @ [n] \<mapsto> VLink target)"
    using s1 view_put [of r "p @ [n]" _ s1] by (simp add: write_symlink_def view_utime)
  with v1 show ?thesis by simp
qed

lemma whiteout_view:
  assumes g: "good r s" and n: "plain_name n" and no: "\<not> starts_with WH_PREFIX n"
  shows "\<exists>t. apply_whiteout s (r @ p) (WH_PREFIX @ n) = (Inr (), t)
    \<and> view t r = (\<lambda>z. if prefix (p @ [n]) z then None else view s r z)"
proof -
  obtain t where t: "rmtree_at True False s (r @ p) n = (Inr True, t)"
    "view t r = (\<lambda>z. if prefix (p @ [n]) z then None else view s r z)"
    using rmtree_view [OF g n] by blast
  have "WH_PREFIX @ n \<noteq> OPAQUE"
  proof
    assume "WH_PREFIX @ n = OPAQUE"
    then have "n = ''.wh..opq''" by (simp add: WH_PREFIX_def OPAQUE_def)
    with no show False by (simp add: starts_with_def WH_PREFIX_def)
  qed
  moreover have "starts_with WH_PREFIX (WH_PREFIX @ n)" "drop 4 (WH_PREFIX @ n) = n"
    by (simp_all add: starts_with_def WH_PREFIX_def)
  ultimately show ?thesis using t n by (simp add: apply_whiteout_def plain_name_def)
qed

end
