(* ===== verification/Layer_Apply.thy ===== *)
theory Layer_Apply
  imports Layer_Roundtrip
begin

text \<open>
  Member by member: what the extraction of a RUN step's layer does to the view of a rootfs, and the
  theorem that applying the layer to the rootfs the step started from gives the one it ended with.
\<close>

subsection \<open>One member\<close>

definition inv :: "path \<Rightarrow> fs \<Rightarrow> xstate \<Rightarrow> (string list \<Rightarrow> ventry option) \<Rightarrow> bool" where
  "inv r s0 x V \<longleftrightarrow> x_safe r s0 x \<and> good r s0 \<and> x_links x = [] \<and> view (x_fs x) r = V
     \<and> (\<exists>k. V [] = Some (VDir k))"

lemma inv_good: "inv r s0 x V \<Longrightarrow> good r (x_fs x)"
proof -
  assume i: "inv r s0 x V"
  then have "is_dir (x_fs x) (r @ [])" unfolding view_is_dir by (auto simp: inv_def)
  with i good_step [of r s0 "x_fs x"] show "good r (x_fs x)" by (simp add: inv_def x_safe_def)
qed

lemma inv_dir: "inv r s0 x V \<Longrightarrow> is_dir (x_fs x) (r @ p) \<longleftrightarrow> (\<exists>k. V p = Some (VDir k))"
  unfolding view_is_dir by (auto simp: inv_def) (metis is_vdir.elims(2))

lemma wh_names: "\<not> starts_with WH_PREFIX n \<Longrightarrow> \<not> is_whiteout n"
  by (auto simp: is_whiteout_def OPAQUE_def WH_PREFIX_def starts_with_def)

lemma resolve_dirs:
  assumes "list_all plain_name p" and "\<And>z q. p = q @ z \<Longrightarrow> q \<noteq> [] \<Longrightarrow> view s r q = None \<or> (\<exists>k. view s r q = Some (VDir k))"
  shows "safe_resolve_parts s r p = Some p"
proof -
  have nl: "\<not> is_link_node x" if "i < length p" "node_at s (r @ [] @ take (Suc i) p) = Some x" for i x
  proof -
    have "view s r (take (Suc i) p) = Some (ventry_of s x)" using that by (simp add: view_def)
    moreover have "take (Suc i) p \<noteq> []" using that(1) by auto
    ultimately obtain k where "ventry_of s x = VDir k"
      using assms(2) [of "take (Suc i) p" "drop (Suc i) p"] by auto
    then show ?thesis by (cases x) auto
  qed
  have "resolve_parts s r LINK_BUDGET [] p = Some ([] @ p)"
    by (rule resolve_plain [OF assms(1)]) (rule nl)
  then show ?thesis by (simp add: safe_resolve_parts_def)
qed

lemma resolve_parent:
  assumes "inv r s0 x V" and "V p = Some (VDir k)" and "list_all plain_name p"
  shows "safe_resolve_parts (x_fs x) r p = Some p"
proof (rule resolve_dirs [OF assms(3)])
  fix q z assume pq: "p = q @ z" "q \<noteq> []"
  have wf: "wf_fs (x_fs x)" and v: "view (x_fs x) r = V" using assms(1) by (simp_all add: inv_def x_safe_def)
  show "view (x_fs x) r q = None \<or> (\<exists>k. view (x_fs x) r q = Some (VDir k))"
  proof (cases "z = []")
    case True
    with assms(2) pq v show ?thesis by simp
  next
    case False
    with view_wf_prefix [OF wf, of r q z] assms(2) pq v have "is_dir (x_fs x) (r @ q)" by simp
    with inv_dir [OF assms(1)] v show ?thesis by simp
  qed
qed

text \<open>The state right before the entry of a member is written.\<close>

lemma process_to_write:
  assumes i: "inv r s0 x V" and p: "V p = Some (VDir k)" and q: "list_all plain_name (p @ [n])"
    and nw: "\<not> starts_with WH_PREFIX n" and m: "tm_name m = slashed (p @ [n])" "tm_kind m \<noteq> TDevice"
  shows "\<exists>y. x_fs y = x_fs x \<and> x_links y = x_links x \<and>
    process_member r 0 True x m = write_member 0 m (p @ [n]) p (r @ p) y"
proof -
  have pp: "list_all plain_name p" and n: "plain_name n" using q by simp_all
  have d: "is_dir (x_fs x) (r @ p)" using p inv_dir [OF i] by simp
  obtain y where y: "parents_get r True x p = (Inr (r @ p), y)" "x_fs y = x_fs x" "x_links y = x_links x"
    using parents_existing [OF inv_good [OF i] d pp] by blast
  have "name_parts 0 (tm_name m) = Some (p @ [n])" unfolding m(1) using q by (intro name_parts_slashed) simp_all
  moreover have "n \<noteq> ''.''" using n by (simp add: plain_name_def)
  ultimately show ?thesis
    using y m(2) resolve_parent [OF i p pp] wh_names [OF nw] by (auto simp: process_member_def)
qed

lemma inv_after:
  assumes i: "inv r s0 x V" and s: "process_member r 0 True x m = (Inr (), y)" and l: "x_links y = []"
    and v: "view (x_fs y) r = V'" and r: "V' [] = V []"
  shows "inv r s0 y V'"
  using process_member_safe [OF s, of s0] i l v r by (simp add: inv_def)

definition member_entry :: "member \<Rightarrow> ventry option" where
  "member_entry m =
     (case tm_kind m of
        TDir \<Rightarrow> Some (VDir (or (S_IMODE (tm_mode m)) 448))
      | TSym g \<Rightarrow> (if g = [] then None else Some (VLink g))
      | TReg b \<Rightarrow> Some (VFile b (S_IMODE (tm_mode m)))
      | _ \<Rightarrow> None)"

lemma same_kind_dir: "same_kind v e \<Longrightarrow> is_vdir v \<longleftrightarrow> is_vdir e"
  by (cases v; cases e) auto

lemma process_entry:
  assumes i: "inv r s0 x V" and p: "V p = Some (VDir k)" and q: "list_all plain_name (p @ [n])"
    and nw: "\<not> starts_with WH_PREFIX n" and m: "tm_name m = slashed (p @ [n])"
    and e: "member_entry m = Some e" and c: "V (p @ [n]) = None \<or> (\<exists>v. V (p @ [n]) = Some v \<and> same_kind v e)"
  shows "\<exists>y. process_member r 0 True x m = (Inr (), y) \<and> inv r s0 y (V(p @ [n] \<mapsto> e))"
proof -
  have nd: "tm_kind m \<noteq> TDevice" using e by (auto simp: member_entry_def)
  obtain y where y: "x_fs y = x_fs x" "x_links y = x_links x"
    "process_member r 0 True x m = write_member 0 m (p @ [n]) p (r @ p) y"
    using process_to_write [OF i p q nw m nd] by blast
  have g: "good r (x_fs y)" and wf: "wf_fs (x_fs y)" using inv_good [OF i] y(1) by (simp_all add: good_def)
  have d: "is_dir (x_fs y) (r @ p)" using p inv_dir [OF i] y(1) by simp
  have n: "plain_name n" using q by simp
  have V: "view (x_fs y) r = V" and ly: "x_links y = []" using i y(1,2) by (simp_all add: inv_def)
  have "\<exists>z. write_member 0 m (p @ [n]) p (r @ p) y = (Inr (), z) \<and> x_links z = [] \<and>
      view (x_fs z) r = V(p @ [n] \<mapsto> e)"
  proof (cases "tm_kind m")
    case TDir
    then have e': "e = VDir (or (S_IMODE (tm_mode m)) 448)" using e by (simp add: member_entry_def)
    have "view (x_fs y) r (p @ [n]) = None \<or> (\<exists>m0. view (x_fs y) r (p @ [n]) = Some (VDir m0))"
      using c V e' same_kind_dir by (metis is_vdir.elims(2) is_vdir.simps(1))
    from write_dir_view [OF wf d n this, of "tm_mode m"] TDir V e' ly show ?thesis
      by (auto simp: write_member_def with_fs_def)
  next
    case (TSym g)
    then have e': "e = VLink g" "g \<noteq> []" using e by (auto simp: member_entry_def split: if_splits)
    have "view (x_fs y) r (p @ [n]) = None \<or> (\<exists>v. view (x_fs y) r (p @ [n]) = Some v \<and> \<not> is_vdir v)"
      using c V e' same_kind_dir by (metis is_vdir.simps(2))
    from write_symlink_view [OF g d n e'(2) this, of "tm_mtime m"] TSym V e' ly show ?thesis
      by (auto simp: write_member_def with_fs_def)
  next
    case (TReg b)
    then have e': "e = VFile b (S_IMODE (tm_mode m))" using e by (simp add: member_entry_def)
    have "view (x_fs y) r (p @ [n]) = None \<or> (\<exists>v. view (x_fs y) r (p @ [n]) = Some v \<and> \<not> is_vdir v)"
      using c V e' same_kind_dir by (metis is_vdir.simps(3))
    from write_regular_view [OF g d n this, of b "tm_mode m" "tm_mtime m"] TReg V e' ly show ?thesis
      by (auto simp: write_member_def with_fs_def)
  qed (use e in \<open>simp_all add: member_entry_def\<close>)
  then obtain z where z: "write_member 0 m (p @ [n]) p (r @ p) y = (Inr (), z)" "x_links z = []"
    "view (x_fs z) r = V(p @ [n] \<mapsto> e)" by blast
  with inv_after [OF i _ z(2,3)] y(3) show ?thesis by auto
qed

subsection \<open>One whiteout\<close>

lemma whiteout_member_name:
  assumes "plain_name n" and "list_all plain_name p"
  shows "whiteout_name (slashed (p @ [n])) = slashed (p @ [WH_PREFIX @ n])"
proof (cases "p = []")
  case True
  with rpartition_slashed [OF assms(1), of p] show ?thesis by (simp add: whiteout_name_def)
next
  case False
  with slashed_ends [OF assms(2)] rpartition_slashed [OF assms(1), of p] show ?thesis
    by (auto simp: whiteout_name_def slashed_snoc)
qed

lemma process_whiteout:
  assumes i: "inv r s0 x V" and q: "list_all plain_name (p @ [n])" and nw: "\<not> starts_with WH_PREFIX n"
    and dirs: "\<And>q z. p = q @ z \<Longrightarrow> q \<noteq> [] \<Longrightarrow> V q = None \<or> (\<exists>k. V q = Some (VDir k))"
  shows "\<exists>y. process_member r 0 True x (add_whiteout (whiteout_name (slashed (p @ [n])))) = (Inr (), y)
    \<and> inv r s0 y (\<lambda>z. if prefix (p @ [n]) z then None else V z)"
proof -
  let ?m = "add_whiteout (whiteout_name (slashed (p @ [n])))"
  let ?V = "\<lambda>z. if prefix (p @ [n]) z then None else V z"
  have pp: "list_all plain_name p" and n: "plain_name n" using q by simp_all
  have V: "view (x_fs x) r = V" and wf: "wf_fs (x_fs x)" and lx: "x_links x = []"
    using i by (simp_all add: inv_def x_safe_def)
  have wn: "plain_name (WH_PREFIX @ n)" using n by (auto simp: plain_name_def WH_PREFIX_def)
  then have np: "name_parts 0 (tm_name ?m) = Some (p @ [WH_PREFIX @ n])"
    using pp by (simp add: add_whiteout_def whiteout_member_name [OF n pp] name_parts_slashed)
  have res: "safe_resolve_parts (x_fs x) r p = Some p"
    using dirs V by (intro resolve_dirs pp) simp
  have iw: "is_whiteout (WH_PREFIX @ n)" "WH_PREFIX @ n \<noteq> ''.''"
    by (simp_all add: is_whiteout_def starts_with_def WH_PREFIX_def)
  obtain t where t: "apply_whiteout (x_fs x) (r @ p) (WH_PREFIX @ n) = (Inr (), t)" "view t r = ?V"
    using whiteout_view [OF inv_good [OF i] n nw, of p] V by auto
  have "\<exists>y. process_member r 0 True x ?m = (Inr (), y) \<and> x_links y = [] \<and> view (x_fs y) r = ?V"
  proof (cases "is_dir (x_fs x) (r @ p)")
    case True
    obtain y where y: "parents_get r False x p = (Inr (r @ p), y)" "x_fs y = x_fs x" "x_links y = x_links x"
      using parents_existing [OF inv_good [OF i] True pp] by blast
    with np res iw t lx show ?thesis by (simp add: process_member_def with_fs_def add_whiteout_def)
  next
    case False
    obtain rs y where y: "parents_get r False x p = (rs, y)" "x_fs y = x_fs x" "x_links y = x_links x"
      "x_cache x = Some p \<or> (\<exists>e. rs = Inl e)"
      using parents_missing [OF False pp] by blast
    show ?thesis
    proof (cases rs)
      case (Inl e)
      have "V z = None" if pz: "prefix (p @ [n]) z" for z
      proof -
        obtain w where "z = p @ ([n] @ w)" using pz by (auto simp: prefix_def)
        with view_wf_prefix [OF wf, of r p "[n] @ w"] False V show ?thesis by (cases "V z") auto
      qed
      then have "?V = V" by (auto simp: fun_eq_iff)
      with np res iw y Inl lx V show ?thesis by (simp add: process_member_def add_whiteout_def)
    next
      case (Inr d)
      with y(1,4) have "d = r @ p" by (auto simp: parents_get_def)
      with np res iw t y Inr lx show ?thesis by (simp add: process_member_def with_fs_def add_whiteout_def)
    qed
  qed
  then obtain y where "process_member r 0 True x ?m = (Inr (), y)" "x_links y = []" "view (x_fs y) r = ?V" by blast
  with inv_after [OF i this] show ?thesis by auto
qed

subsection \<open>The members of one path\<close>

text \<open>Rootfs trees the theorem is about: no devices, nothing that looks like a whiteout, ordinary modes.\<close>

definition ordinary_node :: "fs \<Rightarrow> node \<Rightarrow> bool" where
  "ordinary_node s x \<longleftrightarrow>
     (case x of
        NDir m t \<Rightarrow> or (S_IMODE m) 448 = m
      | NLink g t \<Rightarrow> g \<noteq> []
      | NFile i \<Rightarrow> fd_mode (f_data s i) < 4096
      | NSpecial \<Rightarrow> False)"

definition ordinary :: "fs \<Rightarrow> path \<Rightarrow> bool" where
  "ordinary s r \<longleftrightarrow> wf_fs s \<and> is_dir s r \<and> node_at s (r @ [''.l2s'']) = None
     \<and> list_all (\<lambda>(p, x). strict_prefix r p \<longrightarrow> \<not> starts_with WH_PREFIX (last p) \<and> ordinary_node s x) (f_ents s)"

lemma ordinary_at:
  assumes "ordinary s r" and "node_at s (r @ q) = Some x" and "q \<noteq> []"
  shows "\<not> starts_with WH_PREFIX (last q)" and "ordinary_node s x"
proof -
  have "(r @ q, x) \<in> set (f_ents s)" using assms(2) by (auto simp: node_at_def dest: dict_get_Some_in)
  moreover have "strict_prefix r (r @ q)" using assms(3) by (simp add: strict_prefix_def)
  ultimately show "\<not> starts_with WH_PREFIX (last q)" "ordinary_node s x"
    using assms(1,3) by (auto simp: ordinary_def list_all_iff)
qed

lemma open_parent_dirs:
  "wf_fs s \<Longrightarrow> is_dir s (d @ p) \<Longrightarrow> list_all plain_name p \<Longrightarrow> open_parent s d p = Some (d @ p)"
proof (induction p arbitrary: d)
  case (Cons c p)
  have "is_dir s (d @ [c])"
  proof (cases p)
    case Nil
    with Cons.prems show ?thesis by simp
  next
    case (Cons a b)
    have "node_at s ((d @ [c]) @ a # b) \<noteq> None"
      using Cons.prems(2) Cons by (auto simp: is_dir_def split: option.splits)
    then show ?thesis by (rule wf_prefix_dir [OF Cons.prems(1)])
  qed
  then have "opendir_at s d c = Inr (d @ [c])"
    using Cons.prems(3) by (auto simp: opendir_at_def at_plain is_dir_def split: option.splits node.splits)
  with Cons show ?case by simp
qed simp

abbreviation plain_links :: "string \<Rightarrow> string \<Rightarrow> nat option option" where
  "plain_links \<equiv> (\<lambda>_ _. None)"

lemma add_entry_member:
  assumes o: "ordinary s r" and x: "node_at s (r @ p @ [n]) = Some x"
  shows "\<exists>m. add_entry plain_links s r (slashed (p @ [n])) = [m] \<and> tm_name m = slashed (p @ [n])
    \<and> member_entry m = Some (ventry_of s x)"
proof -
  have wf: "wf_fs s" using o by (simp add: ordinary_def)
  have pl: "list_all plain_name (r @ p @ [n])" using wf_node_path [OF wf x] .
  then have n: "plain_name n" and p: "list_all plain_name p" by simp_all
  have d: "is_dir s (r @ p)" using wf_node(2) [OF wf, of "r @ p" n x] x by simp
  have pp: "parent_parts (slashed p) = p"
    using slashed_split [OF p] slashed_ends [OF p] by (cases "p = []") (auto simp: parent_parts_def)
  have on: "ordinary_node s x" using ordinary_at(2) [OF o, of "p @ [n]" x] x by simp
  have ls: "lstat_at s (r @ p) n = Inr x" using x by (simp add: lstat_plain [OF n])
  show ?thesis
    using rpartition_slashed [OF n, of p] pp open_parent_dirs [OF wf d p] ls on
    by (cases x) (auto simp: add_entry_def member_entry_def ordinary_node_def S_IMODE_def)
qed

lemma process_members_append:
  "process_members r st wh x as = (Inr (), y) \<Longrightarrow>
     process_members r st wh x (as @ bs) = process_members r st wh y bs"
  by (induction as arbitrary: x) (auto split: prod.splits sum.splits)

subsection \<open>The two halves of a layer\<close>

definition above :: "string list \<Rightarrow> string list \<Rightarrow> bool" where
  "above p q \<longleftrightarrow> p \<noteq> [] \<and> strict_prefix p q"

lemma adds_phase:
  assumes A: "ordinary A ra"
  shows "inv r s0 x V \<Longrightarrow> sorted_wrt (\<lambda>p q. slashed p \<le> slashed q) qs \<Longrightarrow>
     (\<And>q. q \<in> set qs \<Longrightarrow> q \<noteq> [] \<and> view A ra q \<noteq> None) \<Longrightarrow>
     (\<And>q p. q \<in> set qs \<Longrightarrow> above p q \<Longrightarrow> p \<in> set qs \<or> (\<exists>k. V p = Some (VDir k))) \<Longrightarrow>
     (\<And>q v w. q \<in> set qs \<Longrightarrow> V q = Some v \<Longrightarrow> view A ra q = Some w \<Longrightarrow> same_kind v w) \<Longrightarrow>
     \<exists>y. process_members r 0 True x (concat (map (\<lambda>q. add_entry plain_links A ra (slashed q)) qs)) = (Inr (), y)
       \<and> inv r s0 y (\<lambda>q. if q \<in> set qs then view A ra q else V q)"
proof (induction qs arbitrary: x V)
  case Nil
  then show ?case by simp
next
  case (Cons q qs)
  have wf: "wf_fs A" using A by (simp add: ordinary_def)
  have q0: "q \<noteq> []" and vq: "view A ra q \<noteq> None" using Cons.prems(3) by simp_all
  then obtain p n where q: "q = p @ [n]" by (cases q rule: rev_cases) auto
  from vq obtain a where a: "node_at A (ra @ p @ [n]) = Some a" by (auto simp: view_def q)
  have plq: "list_all plain_name (p @ [n])" using wf_node_path [OF wf a] by simp
  obtain m where m: "add_entry plain_links A ra (slashed (p @ [n])) = [m]" "tm_name m = slashed (p @ [n])"
    "member_entry m = Some (ventry_of A a)" using add_entry_member [OF A a] by blast
  have va: "view A ra q = Some (ventry_of A a)" using a by (simp add: view_def q)
  have "\<exists>k. V p = Some (VDir k)"
  proof (cases "p = []")
    case True
    with Cons.prems(1) show ?thesis by (simp add: inv_def)
  next
    case False
    then have "above p q" by (simp add: above_def q strict_prefix_def)
    moreover have "p \<notin> set (q # qs)"
      using Cons.prems(2) slashed_less [OF False, of "[n]"] by (auto simp: q)
    ultimately show ?thesis using Cons.prems(4) [of q p] by auto
  qed
  then obtain k where k: "V p = Some (VDir k)" ..
  have nw: "\<not> starts_with WH_PREFIX n" using ordinary_at(1) [OF A, of "p @ [n]" a] a by simp
  have c: "V (p @ [n]) = None \<or> (\<exists>v. V (p @ [n]) = Some v \<and> same_kind v (ventry_of A a))"
    using Cons.prems(5) [of q] va by (cases "V q") (auto simp: q)
  obtain y where y: "process_member r 0 True x m = (Inr (), y)" "inv r s0 y (V(q \<mapsto> ventry_of A a))"
    using process_entry [OF Cons.prems(1) k plq nw m(2,3) c] q by blast
  let ?V = "V(q \<mapsto> ventry_of A a)"
  have "\<exists>z. process_members r 0 True y (concat (map (\<lambda>q. add_entry plain_links A ra (slashed q)) qs)) = (Inr (), z)
      \<and> inv r s0 z (\<lambda>q. if q \<in> set qs then view A ra q else ?V q)"
  proof (rule Cons.IH [OF y(2)])
    show "sorted_wrt (\<lambda>p q. slashed p \<le> slashed q) qs" using Cons.prems(2) by simp
    show "q' \<noteq> [] \<and> view A ra q' \<noteq> None" if "q' \<in> set qs" for q' using Cons.prems(3) that by simp
    show "p' \<in> set qs \<or> (\<exists>k. ?V p' = Some (VDir k))" if q': "q' \<in> set qs" and ab: "above p' q'" for q' p'
    proof (cases "p' = q")
      case True
      obtain w where w: "q' = p' @ w" "w \<noteq> []" using ab by (auto simp: above_def strict_prefix_def prefix_def)
      have "is_dir A (ra @ p')" using Cons.prems(3) [of q'] q' w by (intro view_wf_prefix [OF wf, of ra p' w]) auto
      with True a have "is_dir_node a" by (simp add: is_dir_def q)
      with True show ?thesis by (cases a) auto
    next
      case False
      with Cons.prems(4) [of q' p'] q' ab show ?thesis by auto
    qed
    show "same_kind v w" if "q' \<in> set qs" "?V q' = Some v" "view A ra q' = Some w" for q' v w
    proof (cases "q' = q")
      case True
      with that va ordinary_at(2) [OF A, of "p @ [n]" a] a show ?thesis
        by (cases a) (auto simp: ordinary_node_def)
    next
      case False
      with that Cons.prems(5) [of q' v w] show ?thesis by simp
    qed
  qed
  then obtain z where z: "process_members r 0 True y (concat (map (\<lambda>q. add_entry plain_links A ra (slashed q)) qs)) = (Inr (), z)"
    "inv r s0 z (\<lambda>q. if q \<in> set qs then view A ra q else ?V q)" by blast
  have "(\<lambda>q'. if q' \<in> set qs then view A ra q' else ?V q') = (\<lambda>q'. if q' \<in> set (q # qs) then view A ra q' else V q')"
    using va by auto
  with z y(1) m(1) show ?case by (simp add: q)
qed

lemma deletes_phase:
  "inv r s0 x V \<Longrightarrow>
     (\<And>d. d \<in> set ds \<Longrightarrow> d \<noteq> [] \<and> list_all plain_name d \<and> \<not> starts_with WH_PREFIX (last d)) \<Longrightarrow>
     (\<And>d q. d \<in> set ds \<Longrightarrow> above q d \<Longrightarrow> V q = None \<or> (\<exists>k. V q = Some (VDir k))) \<Longrightarrow>
     \<exists>y. process_members r 0 True x (map (\<lambda>d. add_whiteout (whiteout_name (slashed d))) ds) = (Inr (), y)
       \<and> inv r s0 y (\<lambda>q. if list_ex (\<lambda>d. prefix d q) ds then None else V q)"
proof (induction ds arbitrary: x V)
  case Nil
  then show ?case by simp
next
  case (Cons d ds)
  from Cons.prems(2) [of d] obtain p n where d: "d = p @ [n]" by (cases d rule: rev_cases) auto
  have pl: "list_all plain_name (p @ [n])" and nw: "\<not> starts_with WH_PREFIX n" using Cons.prems(2) [of d] d by auto
  have dirs: "V q = None \<or> (\<exists>k. V q = Some (VDir k))" if "p = q @ z" "q \<noteq> []" for q z
    using Cons.prems(3) [of d q] that by (simp add: above_def d strict_prefix_def)
  let ?V = "\<lambda>z. if prefix (p @ [n]) z then None else V z"
  obtain y where y: "process_member r 0 True x (add_whiteout (whiteout_name (slashed d))) = (Inr (), y)" "inv r s0 y ?V"
    using process_whiteout [OF Cons.prems(1) pl nw] dirs d by blast
  have "\<exists>z. process_members r 0 True y (map (\<lambda>d. add_whiteout (whiteout_name (slashed d))) ds) = (Inr (), z)
      \<and> inv r s0 z (\<lambda>q. if list_ex (\<lambda>d. prefix d q) ds then None else ?V q)"
    using Cons.prems(2,3) by (intro Cons.IH [OF y(2)]) auto
  then obtain z where z: "process_members r 0 True y (map (\<lambda>d. add_whiteout (whiteout_name (slashed d))) ds) = (Inr (), z)"
    "inv r s0 z (\<lambda>q. if list_ex (\<lambda>d. prefix d q) ds then None else ?V q)" by blast
  moreover have "(\<lambda>q. if list_ex (\<lambda>d. prefix d q) ds then None else ?V q)
      = (\<lambda>q. if list_ex (\<lambda>d. prefix d q) (d # ds) then None else V q)"
    by (auto simp: d fun_eq_iff)
  ultimately show ?case using y(1) by simp
qed

lemma stamp_view:
  assumes "x_safe r s x" and "fst e \<noteq> []" and "list_all plain_name (fst e)"
  shows "view (x_fs (stamp_dir r x e)) r = view (x_fs x) r"
proof -
  obtain o1 y where g: "parents_get r False x (butlast (fst e)) = (o1, y)"
    by (cases "parents_get r False x (butlast (fst e))")
  have "x_fs y = x_fs x" using g descend_false_fs by (auto simp: parents_get_def split: if_splits sum.splits prod.splits)
  with g show ?thesis by (auto simp: stamp_dir_def view_utime split: sum.splits)
qed

lemma foldl_stamp_view:
  "x_safe r s x \<Longrightarrow> list_all (\<lambda>(d, t). d \<noteq> [] \<and> list_all plain_name d) es \<Longrightarrow>
     view (x_fs (foldl (stamp_dir r) x es)) r = view (x_fs x) r"
  by (induction es arbitrary: x) (auto simp: stamp_dir_safe stamp_view)

subsection \<open>The layer of a RUN step\<close>

text \<open>No path changes its type, and equal fingerprints of two files mean equal contents.\<close>

definition no_type_change :: "fs \<Rightarrow> fs \<Rightarrow> path \<Rightarrow> bool" where
  "no_type_change B A r \<longleftrightarrow>
     list_all (\<lambda>(p, x). case node_at A p of
         None \<Rightarrow> True
       | Some y \<Rightarrow> strict_prefix r p \<longrightarrow> same_kind (ventry_of B x) (ventry_of A y)) (f_ents B)"

definition prints_faithful :: "fs \<Rightarrow> fs \<Rightarrow> path \<Rightarrow> bool" where
  "prints_faithful B A r \<longleftrightarrow>
     list_all (\<lambda>(p, x). case (x, node_at A p) of
         (NFile i, Some (NFile j)) \<Rightarrow>
           fp_of B (NFile i) = fp_of A (NFile j) \<longrightarrow> fd_bytes (f_data B i) = fd_bytes (f_data A j)
       | _ \<Rightarrow> True) (f_ents B)"

lemma node_in_ents: "node_at s p = Some x \<Longrightarrow> (p, x) \<in> set (f_ents s)"
  by (auto simp: node_at_def dest: dict_get_Some_in)

lemma type_kept:
  "no_type_change B A r \<Longrightarrow> q \<noteq> [] \<Longrightarrow> view B r q = Some v \<Longrightarrow> view A r q = Some w \<Longrightarrow> same_kind v w"
proof -
  assume k: "no_type_change B A r" and q: "q \<noteq> []" and v: "view B r q = Some v" and w: "view A r q = Some w"
  from v obtain x where x: "node_at B (r @ q) = Some x" "v = ventry_of B x" by (auto simp: view_def)
  from w obtain y where y: "node_at A (r @ q) = Some y" "w = ventry_of A y" by (auto simp: view_def)
  show "same_kind v w"
    using k node_in_ents [OF x(1)] x(2) y q by (fastforce simp: no_type_change_def list_all_iff strict_prefix_def)
qed

lemma ordinary_fp: "ordinary_node s x \<Longrightarrow> \<exists>v. fp_of s x = Some v"
  by (cases x) (auto simp: ordinary_node_def)

lemma S_IMODE_small: "m < 4096 \<Longrightarrow> S_IMODE m = m"
  by (simp add: S_IMODE_def)

lemma same_fp_same_view:
  assumes "ordinary_node B x" and "ordinary_node A y" and "fp_of B x = fp_of A y"
    and "\<And>i j. x = NFile i \<Longrightarrow> y = NFile j \<Longrightarrow> fd_bytes (f_data B i) = fd_bytes (f_data A j)"
  shows "ventry_of B x = ventry_of A y"
proof (cases x)
  case (NDir m t)
  then obtain m' t' where y: "y = NDir m' t'" using assms(3) by (cases y) auto
  have "or (S_IMODE m) 448 = m" "or (S_IMODE m') 448 = m'"
    using assms(1,2) by (simp_all only: NDir y ordinary_node_def node.case)
  moreover have "S_IMODE m = S_IMODE m'" using assms(3) by (simp only: NDir y fp_of.simps option.inject fingerprint.inject)
  ultimately have "m = m'" by metis
  then show ?thesis by (simp add: NDir y)
next
  case (NFile i)
  then obtain j where y: "y = NFile j" using assms(3) by (cases y) auto
  have "fd_bytes (f_data B i) = fd_bytes (f_data A j)" using assms(4) NFile y by simp
  moreover have "S_IMODE (fd_mode (f_data B i)) = S_IMODE (fd_mode (f_data A j))"
    using assms(3) NFile y by simp
  ultimately show ?thesis using NFile y assms(1,2) by (simp add: ordinary_node_def S_IMODE_small)
next
  case (NLink g t)
  with assms(3) show ?thesis by (cases y) simp_all
next
  case NSpecial
  with assms(1) show ?thesis by (simp add: ordinary_node_def)
qed

lemma unchanged_view:
  assumes B: "ordinary B r" and A: "ordinary A r" and f: "prints_faithful B A r" and q: "q \<noteq> []"
    and eq: "dict_get (snapshot B r) (slashed q) = dict_get (snapshot A r) (slashed q)"
    and w: "view A r q = Some w"
  shows "view B r q = Some w"
proof -
  from w obtain y where y: "node_at A (r @ q) = Some y" "w = ventry_of A y" by (auto simp: view_def)
  have wA: "wf_fs A" and wB: "wf_fs B" and l: "node_at A (r @ [''.l2s'']) = None" "node_at B (r @ [''.l2s'']) = None"
    using A B by (simp_all add: ordinary_def)
  have pl: "list_all plain_name q" using wf_node_path [OF wA y(1)] by simp
  have oy: "ordinary_node A y" using ordinary_at(2) [OF A y(1) q] .
  obtain v where v: "fp_of A y = Some v" using ordinary_fp [OF oy] ..
  have "dict_get (snapshot B r) (slashed q) = Some v"
    using eq snapshot_get [OF wA l(1) pl q] y v by simp
  then obtain x where x: "node_at B (r @ q) = Some x" "fp_of B x = Some v"
    using snapshot_get [OF wB l(2) pl q] by (auto split: option.splits)
  have ox: "ordinary_node B x" using ordinary_at(2) [OF B x(1) q] .
  have "fd_bytes (f_data B i) = fd_bytes (f_data A j)" if ij: "x = NFile i" "y = NFile j" for i j
  proof -
    have "(r @ q, NFile i) \<in> set (f_ents B)" and yj: "node_at A (r @ q) = Some (NFile j)"
      using node_in_ents [OF x(1)] y(1) ij by simp_all
    then have "fp_of B (NFile i) = fp_of A (NFile j) \<longrightarrow> fd_bytes (f_data B i) = fd_bytes (f_data A j)"
      using f by (auto simp: prints_faithful_def list_all_iff simp del: fp_of.simps dest!: bspec)
    moreover have "fp_of B (NFile i) = fp_of A (NFile j)" using x(2) v by (simp only: ij)
    ultimately show ?thesis by blast
  qed
  then have "ventry_of B x = w" using same_fp_same_view [OF ox oy] x v y by simp
  with x show ?thesis by (simp add: view_def)
qed

lemma in_snapshot:
  assumes "ordinary s r" and "(x, v) \<in> set (snapshot s r)"
  shows "\<exists>q. q \<noteq> [] \<and> list_all plain_name q \<and> x = slashed q \<and> view s r q \<noteq> None
    \<and> dict_get (snapshot s r) x = Some v"
proof -
  have w: "wf_fs s" and l: "node_at s (r @ [''.l2s'']) = None" using assms(1) by (simp_all add: ordinary_def)
  then obtain q n where q: "q \<noteq> []" "x = slashed q" "node_at s (r @ q) = Some n" "fp_of s n = Some v"
    using assms(2) snapshot_iff by blast
  moreover have "list_all plain_name q" using wf_node_path [OF w q(3)] by simp
  ultimately show ?thesis using snapshot_get [OF w l] by (auto simp: view_def)
qed

lemma snapshot_has:
  assumes "ordinary s r" and "view s r q \<noteq> None" and "q \<noteq> []"
  shows "\<exists>v. (slashed q, v) \<in> set (snapshot s r) \<and> dict_get (snapshot s r) (slashed q) = Some v \<and> list_all plain_name q"
proof -
  have w: "wf_fs s" and l: "node_at s (r @ [''.l2s'']) = None" using assms(1) by (simp_all add: ordinary_def)
  from assms(2) obtain n where n: "node_at s (r @ q) = Some n" by (auto simp: view_def)
  obtain v where v: "fp_of s n = Some v" using ordinary_fp [OF ordinary_at(2) [OF assms(1) n assms(3)]] ..
  moreover have "list_all plain_name q" using wf_node_path [OF w n] by simp
  ultimately show ?thesis using snapshot_iff [OF w l, of "slashed q" v] snapshot_get [OF w l] n assms(3) by auto
qed

lemma snapshot_none:
  assumes "ordinary s r" and "list_all plain_name q" and "q \<noteq> []"
  shows "dict_get (snapshot s r) (slashed q) = None \<longleftrightarrow> view s r q = None"
proof -
  have w: "wf_fs s" and l: "node_at s (r @ [''.l2s'']) = None" using assms(1) by (simp_all add: ordinary_def)
  show ?thesis
    using snapshot_get [OF w l assms(2,3)] snapshot_has [OF assms(1) _ assms(3)]
    by (cases "view s r q = None") (auto simp: view_def split: option.splits)
qed

definition changed :: "fs \<Rightarrow> fs \<Rightarrow> path \<Rightarrow> string list \<Rightarrow> bool" where
  "changed B A r q \<longleftrightarrow> q \<noteq> [] \<and> list_all plain_name q \<and> view A r q \<noteq> None
     \<and> dict_get (snapshot B r) (slashed q) \<noteq> dict_get (snapshot A r) (slashed q)"

definition gone :: "fs \<Rightarrow> fs \<Rightarrow> path \<Rightarrow> string list \<Rightarrow> bool" where
  "gone B A r q \<longleftrightarrow> q \<noteq> [] \<and> list_all plain_name q \<and> view B r q \<noteq> None \<and> view A r q = None"

lemma diff_sets:
  assumes B: "ordinary B r" and A: "ordinary A r"
    and d: "diff_snapshots (snapshot B r) (snapshot A r) = (added, modified, deleted)"
  shows "x \<in> set added \<union> set modified \<longleftrightarrow> (\<exists>q. x = slashed q \<and> changed B A r q)"
    and "x \<in> set deleted \<longleftrightarrow> (\<exists>q. x = slashed q \<and> gone B A r q)"
proof -
  let ?b = "snapshot B r" and ?a = "snapshot A r"
  have am: "x \<in> set added \<union> set modified \<longleftrightarrow> (\<exists>v. (x, v) \<in> set ?a \<and> dict_get ?b x \<noteq> Some v)"
    using d by (auto simp: diff_snapshots_def image_iff; force)
  show "x \<in> set added \<union> set modified \<longleftrightarrow> (\<exists>q. x = slashed q \<and> changed B A r q)" unfolding am
  proof
    assume "\<exists>v. (x, v) \<in> set ?a \<and> dict_get ?b x \<noteq> Some v"
    then obtain v where v: "(x, v) \<in> set ?a" "dict_get ?b x \<noteq> Some v" by blast
    with in_snapshot [OF A v(1)] show "\<exists>q. x = slashed q \<and> changed B A r q" by (auto simp: changed_def)
  next
    assume "\<exists>q. x = slashed q \<and> changed B A r q"
    then show "\<exists>v. (x, v) \<in> set ?a \<and> dict_get ?b x \<noteq> Some v"
      using snapshot_has [OF A] by (fastforce simp: changed_def)
  qed
  have de: "x \<in> set deleted \<longleftrightarrow> (\<exists>v. (x, v) \<in> set ?b) \<and> dict_get ?a x = None"
    using d by (auto simp: diff_snapshots_def image_iff)
  show "x \<in> set deleted \<longleftrightarrow> (\<exists>q. x = slashed q \<and> gone B A r q)" unfolding de
  proof
    assume "(\<exists>v. (x, v) \<in> set ?b) \<and> dict_get ?a x = None"
    then obtain v where v: "(x, v) \<in> set ?b" "dict_get ?a x = None" by blast
    with in_snapshot [OF B v(1)] snapshot_none [OF A]
    show "\<exists>q. x = slashed q \<and> gone B A r q" by (auto simp: gone_def)
  next
    assume "\<exists>q. x = slashed q \<and> gone B A r q"
    then show "(\<exists>v. (x, v) \<in> set ?b) \<and> dict_get ?a x = None"
      using snapshot_has [OF B] snapshot_none [OF A] by (fastforce simp: gone_def)
  qed
qed

lemma slashed_list:
  "(\<And>x. x \<in> set xs \<Longrightarrow> \<exists>q. x = slashed q \<and> q \<noteq> [] \<and> list_all plain_name q) \<Longrightarrow>
     map slashed (map (split_on CHR ''/'') xs) = xs"
  by (induction xs) (auto simp: slashed_split, metis slashed_split)

lemma slashed_members:
  assumes "\<And>x. x \<in> set xs \<longleftrightarrow> (\<exists>q. x = slashed q \<and> P q)" and "\<And>q. P q \<Longrightarrow> q \<noteq> [] \<and> list_all plain_name q"
    and "sorted xs"
  shows "\<exists>qs. xs = map slashed qs \<and> set qs = Collect P \<and> sorted_wrt (\<lambda>p q. slashed p \<le> slashed q) qs"
proof (intro exI conjI)
  let ?qs = "map (split_on CHR ''/'') xs"
  show eq: "xs = map slashed ?qs" using assms(1,2) by (intro slashed_list [symmetric]) blast
  have rt: "P q \<Longrightarrow> split_on CHR ''/'' (slashed q) = q" for q
    using slashed_split assms(2) by blast
  show "set ?qs = Collect P"
  proof (intro set_eqI iffI)
    fix q assume "q \<in> set ?qs"
    then obtain x where "x \<in> set xs" "q = split_on CHR ''/'' x" by auto
    with assms(1) rt show "q \<in> Collect P" by auto
  next
    fix q assume "q \<in> Collect P"
    then have "slashed q \<in> set xs" "split_on CHR ''/'' (slashed q) = q" using assms(1) rt by auto
    then show "q \<in> set ?qs" by (metis image_eqI set_map)
  qed
  show "sorted_wrt (\<lambda>p q. slashed p \<le> slashed q) ?qs"
    using assms(3) eq by (metis sorted_wrt_map)
qed

lemma run_layer_shape:
  assumes B: "ordinary B r" and A: "ordinary A r"
  shows "\<exists>qs ds. run_layer plain_links B A r
      = concat (map (\<lambda>q. add_entry plain_links A r (slashed q)) qs)
        @ map (\<lambda>d. add_whiteout (whiteout_name (slashed d))) ds
    \<and> set qs = Collect (changed B A r) \<and> set ds = Collect (gone B A r)
    \<and> sorted_wrt (\<lambda>p q. slashed p \<le> slashed q) qs"
proof -
  obtain a m d where diff: "diff_snapshots (snapshot B r) (snapshot A r) = (a, m, d)"
    by (cases "diff_snapshots (snapshot B r) (snapshot A r)")
  note sets = diff_sets [OF B A diff]
  obtain qs where qs: "sort (a @ m) = map slashed qs" "set qs = Collect (changed B A r)"
    "sorted_wrt (\<lambda>p q. slashed p \<le> slashed q) qs"
    using slashed_members [of "sort (a @ m)" "changed B A r"] sets(1)
    by (simp only: set_sort set_append sorted_sort) (metis changed_def)
  obtain ds where ds: "sort (remdups d) = map slashed ds" "set ds = Collect (gone B A r)"
    using slashed_members [of "sort (remdups d)" "gone B A r"] sets(2)
    by (simp only: set_sort set_remdups sorted_sort) (metis gone_def)
  have "run_layer plain_links B A r
      = concat (map (\<lambda>q. add_entry plain_links A r (slashed q)) qs)
        @ map (\<lambda>d. add_whiteout (whiteout_name (slashed d))) ds"
    by (simp add: run_layer_def diff write_layer_tar_def whiteout_paths_def qs(1) ds(1) comp_def)
  with qs ds show ?thesis by blast
qed

lemma inv_start:
  assumes "good r S"
  shows "inv r S \<lparr>x_fs = S, x_cache = None, x_links = [], x_dirs = []\<rparr> (view S r)"
proof -
  have "is_dir S (r @ [])" using assms by (simp add: good_def)
  then have "\<exists>k. view S r [] = Some (VDir k)" unfolding view_is_dir by (metis is_vdir.elims(2))
  with assms show ?thesis by (simp add: inv_def x_safe_def good_def)
qed

lemma extract_members:
  assumes "process_members r 0 True \<lparr>x_fs = S, x_cache = None, x_links = [], x_dirs = []\<rparr> ms = (Inr (), y)"
    and i: "inv r S y V"
  shows "\<exists>t. extract_stream r 0 True S ms = (Inr (), t) \<and> view t r = V"
proof -
  have s: "x_safe r S y" and l: "x_links y = []" and v: "view (x_fs y) r = V" using i by (simp_all add: inv_def)
  have "list_all (\<lambda>(d, t). d \<noteq> [] \<and> list_all plain_name d) (rev (x_dirs y))"
    using s by (simp add: x_safe_def)
  from foldl_stamp_view [OF s this] v l assms(1) show ?thesis by (simp add: extract_stream_def Let_def)
qed

lemma changed_below:
  assumes B: "ordinary B r" and A: "ordinary A r" and k: "prints_faithful B A r"
    and q: "changed B A r q" and p: "above p q"
  shows "changed B A r p \<or> (\<exists>m. view B r p = Some (VDir m))"
proof -
  obtain w where w: "q = p @ w" "w \<noteq> []" "p \<noteq> []" using p by (auto simp: above_def strict_prefix_def prefix_def)
  have "wf_fs A" using A by (simp add: ordinary_def)
  then have "is_dir A (r @ p)" using q w view_wf_prefix [of A r p w] by (auto simp: changed_def)
  then obtain m where m: "view A r p = Some (VDir m)" unfolding view_is_dir by (metis is_vdir.elims(2))
  show ?thesis
  proof (cases "changed B A r p")
    case False
    then have "dict_get (snapshot B r) (slashed p) = dict_get (snapshot A r) (slashed p)"
      using q w m by (auto simp: changed_def)
    from unchanged_view [OF B A k w(3) this m] show ?thesis by blast
  qed simp
qed

lemma layer_result:
  assumes B: "ordinary B r" and A: "ordinary A r" and k: "prints_faithful B A r"
    and qs: "set qs = Collect (changed B A r)" and ds: "set ds = Collect (gone B A r)" and q: "q \<noteq> []"
  shows "(if list_ex (\<lambda>d. prefix d q) ds then None else if q \<in> set qs then view A r q else view B r q) = view A r q"
proof (cases "view A r q")
  case None
  then have n: "q \<notin> set qs" using qs by (simp add: changed_def)
  have "view B r q = None \<or> list_ex (\<lambda>d. prefix d q) ds"
  proof (cases "view B r q")
    case (Some v)
    have "wf_fs B" using B by (simp add: ordinary_def)
    then have "list_all plain_name q" using Some by (rule view_plain)
    with None Some q have "q \<in> set ds" using ds by (simp add: gone_def)
    then show ?thesis by (auto simp: list_ex_iff)
  qed simp
  with n None show ?thesis by auto
next
  case (Some w)
  have wA: "wf_fs A" using A by (simp add: ordinary_def)
  have "\<not> prefix d q" if "d \<in> set ds" for d
  proof
    assume "prefix d q"
    then obtain z where z: "q = d @ z" by (auto simp: prefix_def)
    have d: "view A r d = None" using that ds by (simp add: gone_def)
    show False
    proof (cases "z = []")
      case False
      then have "is_dir A (r @ d)" using view_wf_prefix [OF wA, of r d z] Some z by simp
      with d show False by (simp add: view_is_dir)
    qed (use d z Some in simp)
  qed
  then have no: "\<not> list_ex (\<lambda>d. prefix d q) ds" by (auto simp: list_ex_iff)
  have "view B r q = Some w" if "q \<notin> set qs"
  proof (rule unchanged_view [OF B A k q _ Some])
    show "dict_get (snapshot B r) (slashed q) = dict_get (snapshot A r) (slashed q)"
      using that qs q Some view_plain [OF wA Some] by (auto simp: changed_def)
  qed
  with no Some show ?thesis by simp
qed


definition rootfs_before :: fs where
  "rootfs_before = sample_fs [([], NDir 493 0), ([''r''], NDir 493 0), ([''r'', ''etc''], NDir 493 0),
     ([''r'', ''etc'', ''a''], NFile 1), ([''r'', ''etc'', ''b''], NFile 2), ([''r'', ''sh''], NLink ''etc/a'' 0)]"

definition rootfs_after :: fs where
  "rootfs_after = (sample_fs [([], NDir 493 0), ([''r''], NDir 493 0), ([''r'', ''etc''], NDir 448 0),
     ([''r'', ''etc'', ''a''], NFile 3), ([''r'', ''new''], NDir 493 0), ([''r'', ''new'', ''c''], NFile 1),
     ([''r'', ''sh''], NLink ''new/c'' 0)])
     \<lparr>f_data := (\<lambda>i. \<lparr>fd_bytes = (if i = 3 then ''x'' else []), fd_mode = 420, fd_mtime = 0\<rparr>)\<rparr>"


subsection \<open>Paths that change their type\<close>

definition merge_before :: fs where
  "merge_before = sample_fs [([], NDir 493 0), ([''r''], NDir 493 0), ([''r'', ''lib''], NDir 493 0),
     ([''r'', ''lib'', ''x''], NFile 1), ([''r'', ''usr''], NDir 493 0), ([''r'', ''usr'', ''lib''], NDir 493 0)]"

definition merge_after :: fs where
  "merge_after = sample_fs [([], NDir 493 0), ([''r''], NDir 493 0), ([''r'', ''lib''], NLink ''usr/lib'' 0),
     ([''r'', ''usr''], NDir 493 0), ([''r'', ''usr'', ''lib''], NDir 493 0), ([''r'', ''usr'', ''lib'', ''x''], NFile 1)]"

definition dir_becomes_file :: fs where
  "dir_becomes_file = sample_fs [([], NDir 493 0), ([''r''], NDir 493 0), ([''r'', ''lib''], NFile 1),
     ([''r'', ''usr''], NDir 493 0), ([''r'', ''usr'', ''lib''], NDir 493 0)]"

text \<open>Without the assumption that no path changes its type the layer of a RUN step can lose data or
  fail to apply. When the step moves a directory and leaves a link to its new place (a merged /usr), the
  layer's whiteouts, which come last, are resolved through that link and remove the moved files; when a
  directory becomes a file, the layer cannot be applied to the rootfs it was made from at all.\<close>

theorem type_change_breaks_layer:
  "(case extract_stream [''r''] 0 True merge_before (run_layer plain_links merge_before merge_after [''r'']) of
      (res, t) \<Rightarrow> res = Inr ()
        \<and> view merge_after [''r''] [''usr'', ''lib'', ''x''] = Some (VFile [] 420)
        \<and> view t [''r''] [''usr'', ''lib'', ''x''] = None)
   \<and> fst (extract_stream [''r''] 0 True merge_before (run_layer plain_links merge_before dir_becomes_file [''r'']))
     = Inl EISDIR"
proof (rule conjI)
  show "case extract_stream [''r''] 0 True merge_before (run_layer plain_links merge_before merge_after [''r'']) of
      (res, t) \<Rightarrow> res = Inr ()
        \<and> view merge_after [''r''] [''usr'', ''lib'', ''x''] = Some (VFile [] 420)
        \<and> view t [''r''] [''usr'', ''lib'', ''x''] = None" by code_simp
  show "fst (extract_stream [''r''] 0 True merge_before (run_layer plain_links merge_before dir_becomes_file [''r'']))
     = Inl EISDIR" by code_simp
qed

end
