(* ===== verification/Json_Print.thy ===== *)
theory Json_Print
  imports Py_Json Names_Quoting
begin

text \<open>
  \<open>json.dumps\<close> with its default arguments, and the round trip with the reader of Py_Json: what a document of
  distinct keys and proper numbers prints to reads back as that document.
\<close>

subsection \<open>Printing\<close>

definition json_char :: "char \<Rightarrow> string" where
  "json_char c =
     (if c = CHR 0x22 \<or> c = CHR 0x5C then [CHR 0x5C, c]
      else if c = CHR 0x0A then [CHR 0x5C, CHR ''n'']
      else if c = CHR 0x0D then [CHR 0x5C, CHR ''r'']
      else if c = CHR 0x09 then [CHR 0x5C, CHR ''t'']
      else if c = CHR 0x08 then [CHR 0x5C, CHR ''b'']
      else if c = CHR 0x0C then [CHR 0x5C, CHR ''f'']
      else if code c < 32 \<or> 126 < code c
        then [CHR 0x5C, CHR ''u'', CHR ''0'', CHR ''0'', hex_digit (code c div 16), hex_digit (code c mod 16)]
      else [c])"

definition json_dump_str :: "string \<Rightarrow> string" where
  "json_dump_str s = CHR 0x22 # concat (map json_char s) @ [CHR 0x22]"

fun json_dumps :: "json \<Rightarrow> string" where
  "json_dumps JNull = ''null''"
| "json_dumps (JBool b) = (if b then ''true'' else ''false'')"
| "json_dumps (JNum t) = t"
| "json_dumps (JStr s) = json_dump_str s"
| "json_dumps (JArr xs) = ''['' @ join_with '', '' (map json_dumps xs) @ '']''"
| "json_dumps (JObj ms) = ''{'' @ join_with '', '' (map (\<lambda>(k, v). json_dump_str k @ '': '' @ json_dumps v) ms) @ ''}''"

fun json_ok :: "json \<Rightarrow> bool" where
  "json_ok (JNum t) \<longleftrightarrow> js_number t = Some (t, [])"
| "json_ok (JArr xs) \<longleftrightarrow> list_all json_ok xs"
| "json_ok (JObj ms) \<longleftrightarrow> distinct (map fst ms) \<and> list_all (\<lambda>(k, v). json_ok v) ms"
| "json_ok _ \<longleftrightarrow> True"

subsection \<open>Strings read back\<close>

lemma hex_digit_reads: "n < 16 \<Longrightarrow> is_hex (hex_digit n) \<and> js_hex (hex_digit n) = n"
  by (simp add: numeral_eq_Suc less_Suc_eq) (elim disjE; simp; code_simp)

lemma js_unicode_code: "js_unicode [CHR ''0'', CHR ''0'', hex_digit (code c div 16), hex_digit (code c mod 16)] = c"
proof -
  have h: "js_hex (hex_digit (code c div 16)) = code c div 16" "js_hex (hex_digit (code c mod 16)) = code c mod 16"
    using hex_digit_reads [of "code c div 16"] hex_digit_reads [of "code c mod 16"] code_less_256 [of c] by auto
  have z: "js_hex (CHR ''0'') = 0" by code_simp
  have "16 * (code c div 16) + code c mod 16 = code c" by simp
  then show ?thesis using code_less_256 [of c] by (simp add: js_unicode_def h z) (simp add: code_def)
qed

lemma js_string_char: "js_string (json_char c @ s) = map_option (\<lambda>(t, r). (c # t, r)) (js_string s)"
proof -
  consider (esc) "c = CHR 0x22 \<or> c = CHR 0x5C" | (nl) "c = CHR 0x0A" | (cr) "c = CHR 0x0D" | (tab) "c = CHR 0x09"
    | (bs) "c = CHR 0x08" | (ff) "c = CHR 0x0C"
    | (uni) "c \<notin> {CHR 0x22, CHR 0x5C, CHR 0x0A, CHR 0x0D, CHR 0x09, CHR 0x08, CHR 0x0C}" "code c < 32 \<or> 126 < code c"
    | (plain) "c \<notin> {CHR 0x22, CHR 0x5C, CHR 0x0A, CHR 0x0D, CHR 0x09, CHR 0x08, CHR 0x0C}" "\<not> (code c < 32 \<or> 126 < code c)"
    by blast
  then show ?thesis
  proof cases
    case uni
    have "is_hex (CHR ''0'')" by code_simp
    moreover have "is_hex (hex_digit (code c div 16))" "is_hex (hex_digit (code c mod 16))"
      using hex_digit_reads [of "code c div 16"] hex_digit_reads [of "code c mod 16"] code_less_256 [of c] by auto
    moreover have "json_char c = [CHR 0x5C, CHR ''u'', CHR ''0'', CHR ''0'', hex_digit (code c div 16), hex_digit (code c mod 16)]"
      using uni by (simp add: json_char_def)
    moreover have "\<not> code CHR 0x5C < 32" by code_simp
    ultimately show ?thesis by (simp add: js_unicode_code)
  next
    case plain
    then show ?thesis by (simp add: json_char_def)
  qed (auto simp: json_char_def js_escape_def code_def)
qed

lemma js_string_dumped: "js_string (concat (map json_char s) @ CHR 0x22 # r) = Some (s, r)"
  by (induction s) (simp_all add: js_string_char)

subsection \<open>Numbers read back\<close>

text \<open>What may follow a value inside a printed document: nothing, the end of a line, a comma or a closing bracket.\<close>

definition value_end :: "string \<Rightarrow> bool" where
  "value_end r \<longleftrightarrow> r = [] \<or> hd r = CHR 0x0A \<or> hd r = CHR '','' \<or> hd r = CHR '']'' \<or> hd r = CHR ''}''"

lemma value_end_simps [simp]:
  "value_end []" "value_end (CHR 0x0A # r)" "value_end (CHR '','' # r)" "value_end (CHR '']'' # r)" "value_end (CHR ''}'' # r)"
  by (simp_all add: value_end_def)

lemma value_end_head: "value_end (c # r) \<Longrightarrow> \<not> is_dec c \<and> c \<notin> {CHR ''.'', CHR ''e'', CHR ''E'', CHR ''-'', CHR ''+'', CHR ''0''}"
  by (auto simp: value_end_def is_dec_def in_range_def code_def)

lemma js_digits_append: "value_end r \<Longrightarrow> js_digits (s @ r) = (fst (js_digits s), snd (js_digits s) @ r)"
  by (induction s) (cases r; auto simp: js_digits_def dest: value_end_head)+

definition js_int_part :: "string \<Rightarrow> string \<times> string" where
  "js_int_part s = (case s of c # t \<Rightarrow> if c = CHR ''0'' then ([c], t) else js_digits s | [] \<Rightarrow> ([], s))"

definition js_sign :: "string \<Rightarrow> string \<times> string" where
  "js_sign s = (case s of c # t \<Rightarrow> if c = CHR ''-'' then ([c], t) else ([], s) | [] \<Rightarrow> ([], s))"

definition js_frac :: "string \<Rightarrow> string \<times> string" where
  "js_frac s = (case s of
      c # t \<Rightarrow> if c = CHR ''.'' \<and> fst (js_digits t) \<noteq> [] then (c # fst (js_digits t), snd (js_digits t)) else ([], s)
    | [] \<Rightarrow> ([], s))"

definition js_exp_sign :: "string \<Rightarrow> string \<times> string" where
  "js_exp_sign t = (case t of d # t' \<Rightarrow> if d = CHR ''-'' \<or> d = CHR ''+'' then ([d], t') else ([], t) | [] \<Rightarrow> ([], t))"

definition js_exp :: "string \<Rightarrow> string \<times> string" where
  "js_exp s = (case s of
      c # t \<Rightarrow> if c = CHR ''e'' \<or> c = CHR ''E'' then
          (let (es, t1) = js_exp_sign t
           in if fst (js_digits t1) \<noteq> [] then (c # es @ fst (js_digits t1), snd (js_digits t1)) else ([], s))
        else ([], s)
    | [] \<Rightarrow> ([], s))"

lemma js_number_stages:
  "js_number s =
     (let (sg, s1) = js_sign s; (ip, s2) = js_int_part s1
      in if ip = [] then None else let (fp, s3) = js_frac s2; (ep, s4) = js_exp s3 in Some (sg @ ip @ fp @ ep, s4))"
  by (simp only: js_number_def js_sign_def js_int_part_def js_frac_def js_exp_def js_exp_sign_def Let_def)

lemma stage_append:
  assumes "value_end r"
  shows "js_sign (s @ r) = (fst (js_sign s), snd (js_sign s) @ r)"
    and "js_int_part (s @ r) = (fst (js_int_part s), snd (js_int_part s) @ r)"
    and "js_frac (s @ r) = (fst (js_frac s), snd (js_frac s) @ r)"
    and "js_exp_sign (s @ r) = (fst (js_exp_sign s), snd (js_exp_sign s) @ r)"
proof -
  note d = js_digits_append [OF assms]
  have h: "r = [] \<or> (\<exists>c t. r = c # t \<and> \<not> is_dec c \<and> c \<notin> {CHR ''.'', CHR ''e'', CHR ''E'', CHR ''-'', CHR ''+'', CHR ''0''})"
    using assms value_end_head by (cases r) auto
  show "js_sign (s @ r) = (fst (js_sign s), snd (js_sign s) @ r)"
    using h by (cases s) (auto simp: js_sign_def)
  show "js_int_part (s @ r) = (fst (js_int_part s), snd (js_int_part s) @ r)"
    using h d [of s] by (cases s) (auto simp: js_int_part_def js_digits_def)
  show "js_frac (s @ r) = (fst (js_frac s), snd (js_frac s) @ r)"
    using h d by (cases s) (auto simp: js_frac_def)
  show "js_exp_sign (s @ r) = (fst (js_exp_sign s), snd (js_exp_sign s) @ r)"
    using h by (cases s) (auto simp: js_exp_sign_def)
qed

lemma js_exp_append: "value_end r \<Longrightarrow> js_exp (s @ r) = (fst (js_exp s), snd (js_exp s) @ r)"
proof (cases s)
  case Nil
  assume "value_end r"
  then show ?thesis using Nil value_end_head by (cases r) (auto simp: js_exp_def)
next
  case (Cons c t)
  assume r: "value_end r"
  show ?thesis
    using Cons stage_append(4) [OF r, of t] js_digits_append [OF r]
    by (cases "js_exp_sign t") (auto simp: js_exp_def)
qed

lemma js_number_append: "js_number s = Some (a, b) \<Longrightarrow> value_end r \<Longrightarrow> js_number (s @ r) = Some (a, b @ r)"
  by (auto simp: js_number_stages stage_append js_exp_append split_def Let_def split: if_splits)

lemma js_number_head: "js_number (c # s) \<noteq> None \<Longrightarrow> is_dec c \<or> c = CHR ''-''"
proof (rule ccontr)
  assume n: "js_number (c # s) \<noteq> None" and c: "\<not> (is_dec c \<or> c = CHR ''-'')"
  then have "c \<noteq> CHR ''0''" by (auto simp: is_dec_def in_range_def code_def)
  with n c show False by (simp add: js_number_stages js_sign_def js_int_part_def js_digits_def)
qed

lemma js_read_number:
  assumes "js_number t = Some (t, [])" and "value_end r"
  shows "js_read JVal (t @ r) = Some (JNum t, r)"
proof -
  have n: "js_number (t @ r) = Some (t, r)" using js_number_append [OF assms] by simp
  have "t \<noteq> []" using assms(1) by (auto simp: js_number_stages js_sign_def js_int_part_def)
  then obtain c u where c: "t = c # u" by (cases t) auto
  then have "is_dec c \<or> c = CHR ''-''" using js_number_head [of c u] assms(1) by simp
  then have "c \<notin> {CHR 0x22, CHR ''['', CHR ''{'', CHR ''n'', CHR ''t'', CHR ''f''}"
    by (auto simp: is_dec_def in_range_def code_def)
  then show ?thesis
    using n c by (simp add: js_read.simps(1) [of "c # _"] js_word_def starts_with_def)
qed

subsection \<open>Documents read back\<close>

lemma json_dumps_head: "json_ok v \<Longrightarrow> \<exists>c t. json_dumps v = c # t \<and> \<not> js_white c \<and> c \<noteq> CHR '']''"
proof (cases v)
  case (JNum t)
  assume "json_ok v"
  with JNum have n: "js_number t = Some (t, [])" by simp
  then obtain c u where c: "t = c # u" by (cases t) (auto simp: js_number_stages js_sign_def js_int_part_def)
  with n js_number_head [of c u] have "is_dec c \<or> c = CHR ''-''" by simp
  with JNum c show ?thesis by (auto simp: js_white_def is_dec_def in_range_def code_def)
qed (auto simp: js_white_def json_dump_str_def)

lemma js_skip_value: "json_ok v \<Longrightarrow> js_skip (json_dumps v @ r) = json_dumps v @ r"
  using json_dumps_head [of v] by (auto simp: js_skip_def)

lemma js_skip_dump_str: "js_skip (json_dump_str k @ r) = json_dump_str k @ r"
  by (simp add: json_dump_str_def)

lemma js_skip_brace [simp]: "js_skip (CHR ''}'' # s) = CHR ''}'' # s" "js_skip (CHR '':'' # s) = CHR '':'' # s"
  by (simp_all add: js_skip_def js_white_def)

definition reads_back :: "json \<Rightarrow> bool" where
  "reads_back v \<longleftrightarrow> json_ok v \<and> (\<forall>r. value_end r \<longrightarrow> js_read JVal (json_dumps v @ r) = Some (v, r))"

lemma reads_backD: "reads_back v \<Longrightarrow> value_end r \<Longrightarrow> js_read JVal (json_dumps v @ r) = Some (v, r)"
  by (simp add: reads_back_def)

lemma js_read_array:
  "list_all reads_back (w # ws) \<Longrightarrow>
     js_read (JElems xs) (join_with '', '' (map json_dumps (w # ws)) @ CHR '']'' # r) = Some (JArr (xs @ w # ws), r)"
proof (induction ws arbitrary: xs w)
  case Nil
  then have "js_read JVal (json_dumps w @ CHR '']'' # r) = Some (w, CHR '']'' # r)" by (intro reads_backD) simp_all
  then show ?case by (simp add: js_read.simps(2) [of xs "json_dumps w @ CHR '']'' # r"])
next
  case (Cons v ws)
  define rest where "rest = join_with '', '' (map json_dumps (v # ws)) @ CHR '']'' # r"
  have "\<exists>u. rest = json_dumps v @ u" by (cases ws) (auto simp: rest_def)
  then have skip: "js_skip rest = rest" using Cons.prems js_skip_value [of v] by (auto simp: reads_back_def)
  have whole: "join_with '', '' (map json_dumps (w # v # ws)) @ CHR '']'' # r = json_dumps w @ CHR '','' # CHR '' '' # rest"
    by (simp add: rest_def)
  have "js_read JVal (json_dumps w @ CHR '','' # CHR '' '' # rest) = Some (w, CHR '','' # CHR '' '' # rest)"
    using Cons.prems by (intro reads_backD) simp_all
  moreover have "js_read (JElems (xs @ [w])) rest = Some (JArr ((xs @ [w]) @ v # ws), r)"
    unfolding rest_def using Cons.prems by (intro Cons.IH) simp_all
  ultimately show ?case
    unfolding whole using skip
    by (simp add: js_read.simps(2) [of xs "json_dumps w @ CHR '','' # CHR '' '' # rest"])
qed

definition dump_member :: "string \<times> json \<Rightarrow> string" where
  "dump_member m = json_dump_str (fst m) @ '': '' @ json_dumps (snd m)"

lemma json_dumps_object: "json_dumps (JObj ms) = ''{'' @ join_with '', '' (map dump_member ms) @ ''}''"
  by (simp add: dump_member_def [abs_def] split_def)

lemma js_read_member:
  assumes "reads_back (snd m)" and "value_end r"
  shows "js_read (JMembers ms) (dump_member m @ r) =
    (case js_skip r of
       [] \<Rightarrow> None
     | e # w \<Rightarrow>
         (if e = CHR ''}'' then Some (JObj (dict_set (fst m) (snd m) ms), w)
          else if e = CHR '','' \<and> length (js_skip w) < length (dump_member m @ r)
            then js_read (JMembers (dict_set (fst m) (snd m) ms)) (js_skip w)
          else None))"
proof -
  have ok: "json_ok (snd m)" using assms(1) by (simp add: reads_back_def)
  have v: "js_read JVal (json_dumps (snd m) @ r) = Some (snd m, r)" by (rule reads_backD [OF assms])
  have d: "dump_member m @ r = CHR 0x22 # concat (map json_char (fst m)) @ CHR 0x22 # CHR '':'' # CHR '' '' # json_dumps (snd m) @ r"
    by (simp add: dump_member_def json_dump_str_def)
  show ?thesis
    unfolding d js_read.simps(3) [of ms "CHR 0x22 # _"]
    by (simp add: js_string_dumped js_skip_value [OF ok] v del: js_string.simps)
qed

lemma js_read_object:
  "list_all (\<lambda>m. reads_back (snd m)) (m # ns) \<Longrightarrow> distinct (map fst (ms @ m # ns)) \<Longrightarrow>
     js_read (JMembers ms) (join_with '', '' (map dump_member (m # ns)) @ CHR ''}'' # r) = Some (JObj (ms @ m # ns), r)"
proof (induction ns arbitrary: ms m)
  case Nil
  then have "dict_set (fst m) (snd m) ms = ms @ [m]" by (subst dict_set_new) auto
  with Nil js_read_member [of m "CHR ''}'' # r" ms] show ?case by simp
next
  case (Cons n ns)
  define rest where "rest = join_with '', '' (map dump_member (n # ns)) @ CHR ''}'' # r"
  have "\<exists>u. rest = json_dump_str (fst n) @ u" by (cases ns) (auto simp: rest_def dump_member_def)
  then have skip: "js_skip rest = rest" using js_skip_dump_str by auto
  have whole: "join_with '', '' (map dump_member (m # n # ns)) @ CHR ''}'' # r = dump_member m @ CHR '','' # CHR '' '' # rest"
    by (simp add: rest_def)
  have set: "dict_set (fst m) (snd m) ms = ms @ [m]" using Cons.prems by (subst dict_set_new) auto
  have "js_read (JMembers (ms @ [m])) rest = Some (JObj ((ms @ [m]) @ n # ns), r)"
    unfolding rest_def using Cons.prems by (intro Cons.IH) simp_all
  with js_read_member [of m "CHR '','' # CHR '' '' # rest" ms] Cons.prems skip set show ?case
    unfolding whole by simp
qed

lemma ok_reads_back: "json_ok v \<Longrightarrow> reads_back v"
proof (induction v)
  case (JNum t)
  then show ?case by (simp add: reads_back_def js_read_number)
next
  case (JStr s)
  have "js_read JVal (json_dump_str s @ r) = Some (JStr s, r)" for r
    by (simp add: json_dump_str_def js_read.simps(1) js_string_dumped)
  then show ?case by (simp add: reads_back_def)
next
  case (JArr xs)
  then have all: "list_all reads_back xs" by (auto simp: list_all_iff)
  have "js_read JVal (json_dumps (JArr xs) @ r) = Some (JArr xs, r)" for r
  proof (cases xs)
    case Nil
    then show ?thesis by (simp add: js_read.simps(1))
  next
    case (Cons w ws)
    define body where "body = join_with '', '' (map json_dumps (w # ws)) @ CHR '']'' # r"
    have "\<exists>u. body = json_dumps w @ u" by (cases ws) (auto simp: body_def)
    moreover have "json_ok w" using JArr.prems Cons by simp
    ultimately have b: "js_skip body = body" "body \<noteq> []" "hd body \<noteq> CHR '']''"
      using js_skip_value [of w] json_dumps_head [of w] by auto
    have "js_read (JElems []) body = Some (JArr ([] @ w # ws), r)"
      unfolding body_def using all Cons by (intro js_read_array) simp
    moreover have "json_dumps (JArr xs) @ r = CHR ''['' # body" by (simp add: body_def Cons)
    ultimately show ?thesis using b Cons by (simp add: js_read.simps(1) [of "CHR ''['' # body"])
  qed
  with JArr.prems show ?case by (simp add: reads_back_def del: json_dumps.simps)
next
  case (JObj ms)
  then have all: "list_all (\<lambda>m. reads_back (snd m)) ms" by (fastforce simp: list_all_iff)
  have "js_read JVal (json_dumps (JObj ms) @ r) = Some (JObj ms, r)" for r
  proof (cases ms)
    case Nil
    then show ?thesis by (simp add: js_read.simps(1))
  next
    case (Cons n ns)
    define body where "body = join_with '', '' (map dump_member (n # ns)) @ CHR ''}'' # r"
    have "\<exists>u. body = CHR 0x22 # u" by (cases ns) (auto simp: body_def dump_member_def json_dump_str_def)
    then have b: "js_skip body = body" "body \<noteq> []" "hd body \<noteq> CHR ''}''" by auto
    have "js_read (JMembers []) body = Some (JObj ([] @ n # ns), r)"
      unfolding body_def using all Cons JObj.prems by (intro js_read_object) simp_all
    moreover have "json_dumps (JObj ms) @ r = CHR ''{'' # body" by (simp add: body_def Cons json_dumps_object del: json_dumps.simps)
    ultimately show ?thesis using b Cons by (simp add: js_read.simps(1) [of "CHR ''{'' # body"])
  qed
  with JObj.prems show ?case by (simp add: reads_back_def del: json_dumps.simps)
qed (simp_all add: reads_back_def js_read.simps(1) js_word_def starts_with_def)

lemma json_loads_dumps: "json_ok v \<Longrightarrow> json_loads (json_dumps v) = Some v"
  using reads_backD [OF ok_reads_back, of v "[]"] js_skip_value [of v "[]"] by (simp add: json_loads_def)

lemma json_loads_line: "json_ok v \<Longrightarrow> json_loads (json_dumps v @ [CHR 0x0A]) = Some v"
  using reads_backD [OF ok_reads_back, of v "[CHR 0x0A]"] js_skip_value [of v "[CHR 0x0A]"]
  by (simp add: json_loads_def js_skip_def js_white_def)

end
