(* ===== verification/Build_Run.thy ===== *)
theory Build_Run
  imports Handler_Props Layer_Apply Json_Print
begin

text \<open>
  RUN (\<open>run_step.py\<close>), the variables a step sees (\<open>expansion_scope\<close> of \<open>engine.py\<close>) and the build cache
  (\<open>helpers/build_cache.py\<close>). proot is the argument \<open>h_proot\<close>: it gets the argument list, the
  environment and the rootfs, and answers an exit status and the tree it leaves. The part of the
  argument list that depends on the device (the proot binary, an emulator, Termux binds) is \<open>proot_prefix\<close>
  and \<open>proot_binds\<close>. Stopping what a step left running is process control and not modelled.
\<close>

record device =
  dv_prefix :: "string list"
  dv_binds :: "string list"
  dv_default_path :: string

subsection \<open>Scope\<close>

definition dict_default :: "string \<Rightarrow> string \<Rightarrow> (string \<times> string) list \<Rightarrow> (string \<times> string) list" where
  "dict_default k v d = (if dict_get d k = None then dict_set k v d else d)"

definition set_arch_defaults :: "engine \<Rightarrow> (string \<times> string) list \<Rightarrow> (string \<times> string) list" where
  "set_arch_defaults e d =
     fold (\<lambda>(k, v) d. dict_default k v d)
       [(''TARGETARCH'', e_target_arch e), (''BUILDARCH'', e_host_arch e), (''TARGETOS'', ''linux''),
        (''BUILDOS'', ''linux''), (''TARGETPLATFORM'', ''linux/'' @ e_target_arch e),
        (''BUILDPLATFORM'', ''linux/'' @ e_host_arch e)] d"

definition host_args :: "host \<Rightarrow> (string \<times> string) list" where
  "host_args h = map (\<lambda>k. (k, environ h k)) (filter (\<lambda>k. environ h k \<noteq> []) PREDEFINED_ARGS)"

definition expansion_scope :: "host \<Rightarrow> engine \<Rightarrow> (string \<times> string) list" where
  "expansion_scope h e =
     (let s = the_stage e in
      dict_update (s_env s) (dict_update (s_args s) (set_arch_defaults e (host_args h))))"

definition CONTAINER_MARKER :: string where
  "CONTAINER_MARKER = ''proot-distro''"

definition identity_env :: "stage \<Rightarrow> (string \<times> string) list" where
  "identity_env s =
     [(''container'', CONTAINER_MARKER)]
     @ (if s_base_ref s \<noteq> [] \<and> is_exportable ''PD_IMAGE'' (s_base_ref s) then [(''PD_IMAGE'', s_base_ref s)] else [])
     @ (if s_base_id s \<noteq> [] then [(''PD_IMAGE_ID'', s_base_id s)] else [])"

definition env_line :: "string \<times> string \<Rightarrow> string" where
  "env_line kv = fst kv @ ''='' @ snd kv"

definition run_extra_inputs :: "host \<Rightarrow> engine \<Rightarrow> string" where
  "run_extra_inputs h e =
     join_with NL (map env_line (sort_key fst (dict_update (identity_env (the_stage e)) (expansion_scope h e))))"

subsection \<open>The recipe hash\<close>

definition canonical_value :: "ivalue \<Rightarrow> string" where
  "canonical_value v =
     (case v of VArgv xs \<Rightarrow> ''['' @ join_with '','' (map json_dump_str xs) @ '']'' | _ \<Rightarrow> value_str v)"

definition canonical_flags :: "(string \<times> string) list \<Rightarrow> string" where
  "canonical_flags fl = join_with ''&'' (map env_line (sort_key fst fl))"

definition recipe_text :: "string \<Rightarrow> instr \<Rightarrow> string \<Rightarrow> string" where
  "recipe_text parent i extra =
     parent @ [CHR 0x00] @ i_name i @ [CHR 0x00] @ canonical_flags (i_flags i) @ [CHR 0x00]
     @ canonical_value (i_value i) @ [CHR 0x00]
     @ concat (map (\<lambda>hd. ''<<'' @ hd_body hd @ ''>>'') (i_heredocs i)) @ [CHR 0x00] @ extra"

definition compute_recipe_hash :: "(string \<Rightarrow> string) \<Rightarrow> string \<Rightarrow> instr \<Rightarrow> string \<Rightarrow> string" where
  "compute_recipe_hash hash parent i extra = hash (recipe_text parent i extra)"

definition lookup :: "engine \<Rightarrow> string \<Rightarrow> cache_entry option" where
  "lookup e recipe = (if recipe = [] then None else dict_get (e_index e) recipe)"

definition record_entry :: "string \<Rightarrow> layer \<Rightarrow> engine \<Rightarrow> engine" where
  "record_entry recipe l e =
     e\<lparr>e_index := dict_set recipe \<lparr>ce_digest = ly_digest l, ce_diff = ly_diff l, ce_size = ly_size l\<rparr> (e_index e)\<rparr>"

definition run_recipe :: "host \<Rightarrow> engine \<Rightarrow> instr \<Rightarrow> string" where
  "run_recipe h e i = compute_recipe_hash (h_hash h) (s_parent (the_stage e)) i (run_extra_inputs h e)"

subsection \<open>The environment of a step\<close>

definition set_exported :: "(string \<times> string) list \<Rightarrow> (string \<times> string) list \<Rightarrow> (string \<times> string) list" where
  "set_exported new d = dict_update (filter (\<lambda>(k, v). \<not> is_host_exec_var k \<and> is_exportable k v) new) d"

definition declared_values :: "stage \<Rightarrow> (string \<times> string) list" where
  "declared_values s =
     List.map_filter (\<lambda>k. map_option (Pair k) (dict_get (s_args s) k)) (s_declared s)"

definition get_or :: "(string \<times> string) list \<Rightarrow> string \<Rightarrow> string \<Rightarrow> string" where
  "get_or d k dflt = (case dict_get d k of Some v \<Rightarrow> v | None \<Rightarrow> dflt)"

definition build_child_env :: "device \<Rightarrow> host \<Rightarrow> engine \<Rightarrow> (string \<times> string) list \<times> fs" where
  "build_child_env dv h e =
     (let s = the_stage e;
          env0 = [(''PATH'', if get_or (s_env s) ''PATH'' [] = [] then dv_default_path dv else get_or (s_env s) ''PATH'' []),
                  (''HOME'', get_or (s_env s) ''HOME'' ''/root''),
                  (''TERM'', if environ h ''TERM'' = [] then ''xterm-256color'' else environ h ''TERM'')];
          env1 = (if environ h ''COLORTERM'' = [] then env0 else dict_set ''COLORTERM'' (environ h ''COLORTERM'') env0);
          env2 = dict_update (host_args h) env1;
          env3 = set_exported (s_env s) (set_exported (declared_values s) env2);
          env4 = dict_update (identity_env s) env3;
          env5 = dict_update (map (\<lambda>k. (k, environ h k))
                   (filter (\<lambda>k. environ h k \<noteq> []) [''PROOT_NO_SECCOMP'', ''PROOT_VERBOSE''])) env4
      in if \<not> h_termux h then (env5, e_fs e)
         else (case makedirs_at None (e_fs e) (s_root s) [''.l2s''] of
                 (Some p, t) \<Rightarrow> (dict_set ''PROOT_L2S_DIR'' (''/'' @ join_with ''/'' p) env5, t)
               | (None, t) \<Rightarrow> (dict_del ''PROOT_L2S_DIR'' env5, t)))"

definition proot_argv :: "device \<Rightarrow> stage \<Rightarrow> int \<times> int \<Rightarrow> string list \<Rightarrow> string list" where
  "proot_argv dv s ids command =
     dv_prefix dv
     @ [''--change-id='' @ int_str (fst ids) @ '':'' @ int_str (snd ids),
        ''--rootfs=.'',
        ''--cwd='' @ (if s_workdir s = [] then ''/'' else s_workdir s),
        ''--bind=/dev'', ''--bind=/proc'', ''--bind=/sys'']
     @ dv_binds dv @ command"

text \<open>\<open>_exec_proot\<close>: the exit status and the disk afterwards.\<close>

definition exec_proot :: "device \<Rightarrow> host \<Rightarrow> engine \<Rightarrow> string list \<Rightarrow> fault + int \<times> fs" where
  "exec_proot dv h e command =
     (let s = the_stage e in
      bindR (resolve_user_for_proot (h_l2s h) (e_fs e) (s_root s) (s_user s)) (\<lambda>ids.
        (case build_child_env dv h e of
           (env, t) \<Rightarrow>
             Inr (h_proot h \<lparr>pr_argv = proot_argv dv s ids command, pr_env = env, pr_root = s_root s\<rparr> t))))"

subsection \<open>The step\<close>

definition run_command :: "stage \<Rightarrow> instr \<Rightarrow> string list" where
  "run_command s i =
     (case i_value i of
        VArgv xs \<Rightarrow> xs
      | v \<Rightarrow> s_shell s @
          [if i_heredocs i = [] then value_str v else join_with NL (map hd_body (i_heredocs i))])"

definition replay_layer :: "cache_entry \<Rightarrow> member list \<Rightarrow> engine \<Rightarrow> fault + engine" where
  "replay_layer c ms e =
     (case extract_stream (s_root (the_stage e)) 0 True (e_fs e) ms of
        (Inl err, t) \<Rightarrow> Inl (OSError err)
      | (Inr u, t) \<Rightarrow>
          Inr (upd_stage (\<lambda>s. s\<lparr>s_layers := s_layers s
                  @ [\<lparr>ly_digest = ce_digest c, ly_size = ce_size c, ly_diff = ce_diff c\<rparr>],
                s_parent := ce_digest c\<rparr>) (e\<lparr>e_fs := t\<rparr>)))"

definition run_fresh :: "device \<Rightarrow> host \<Rightarrow> engine \<Rightarrow> instr \<Rightarrow> string \<Rightarrow> fault + engine" where
  "run_fresh dv h e i recipe =
     (let s = the_stage e; root = s_root s in
      bindR (exec_proot dv h e (run_command s i)) (\<lambda>(rc, t).
        if rc \<noteq> 0 then Inl (BuildError (RunFailed (i_lineno i) rc))
        else let ms = run_layer (h_l2s_file h) (e_fs e) t root
             in Inr (record_entry recipe (h_pack h ms) (emit_layer h ms (e\<lparr>e_fs := t\<rparr>)))))"

text \<open>A cache entry whose blob is gone or damaged is not used; the step runs again.\<close>

definition do_run :: "device \<Rightarrow> host \<Rightarrow> engine \<Rightarrow> instr \<Rightarrow> fault + engine" where
  "do_run dv h e i =
     (let recipe = run_recipe h e i in
      case (if e_no_cache e then None else lookup e recipe) of
        None \<Rightarrow> run_fresh dv h e i recipe
      | Some c \<Rightarrow>
          (case dict_get (e_blobs e) (ce_digest c) of
             None \<Rightarrow> run_fresh dv h e i recipe
           | Some ms \<Rightarrow> replay_layer c ms e))"

end
