(* ===== verification/Build_Run_Props.thy ===== *)
theory Build_Run_Props
  imports Build_Run
begin

text \<open>
  What a RUN step may see of the host's own variables, and when a recorded layer may stand for a step.
\<close>

subsection \<open>The environment\<close>

definition guest_safe :: "string \<times> string \<Rightarrow> bool" where
  "guest_safe kv \<longleftrightarrow> \<not> is_host_exec_var (fst kv)"

lemma predefined_safe: "list_all guest_safe (host_args h)"
proof -
  have "list_all (\<lambda>k. \<not> is_host_exec_var k) PREDEFINED_ARGS" by code_simp
  then show ?thesis by (auto simp: host_args_def guest_safe_def list_all_iff)
qed

lemma set_exported_safe: "list_all guest_safe d \<Longrightarrow> list_all guest_safe (set_exported new d)"
  unfolding set_exported_def by (erule all_dict_update) (auto simp: guest_safe_def list_all_iff)

lemma identity_safe: "list_all guest_safe (identity_env s)"
proof -
  have "\<not> is_host_exec_var ''container''" "\<not> is_host_exec_var ''PD_IMAGE''" "\<not> is_host_exec_var ''PD_IMAGE_ID''"
    by code_simp+
  then show ?thesis by (simp add: identity_env_def guest_safe_def)
qed

text \<open>A variable of the host side a step may get: one the user set for proot, or the link store.\<close>

definition host_side :: "host \<Rightarrow> string \<times> string \<Rightarrow> bool" where
  "host_side h kv \<longleftrightarrow>
     (fst kv \<in> {''PROOT_NO_SECCOMP'', ''PROOT_VERBOSE''} \<and> snd kv = environ h (fst kv) \<and> snd kv \<noteq> [])
     \<or> (fst kv = ''PROOT_L2S_DIR'' \<and> h_termux h)"

text \<open>C24. proot's own environment never takes a dynamic-linker or proot variable from the image or the
  Dockerfile: whatever ENV and ARG say, every LD_ and PROOT_ name in it is one of two the user exported
  with exactly that value, or on Termux the store of hard-link stand-ins.\<close>

theorem child_env_host_variables:
  "list_all (\<lambda>kv. \<not> is_host_exec_var (fst kv) \<or> host_side h kv) (fst (build_child_env dv h e))"
proof -
  let ?P = "\<lambda>kv. \<not> is_host_exec_var (fst kv) \<or> host_side h kv"
  let ?s = "the_stage e"
  define env1 where "env1 = (let s = the_stage e;
      env0 = [(''PATH'', if get_or (s_env s) ''PATH'' [] = [] then dv_default_path dv else get_or (s_env s) ''PATH'' []),
              (''HOME'', get_or (s_env s) ''HOME'' ''/root''),
              (''TERM'', if environ h ''TERM'' = [] then ''xterm-256color'' else environ h ''TERM'')]
    in if environ h ''COLORTERM'' = [] then env0 else dict_set ''COLORTERM'' (environ h ''COLORTERM'') env0)"
  have "\<not> is_host_exec_var ''PATH''" "\<not> is_host_exec_var ''HOME''" "\<not> is_host_exec_var ''TERM''"
    "\<not> is_host_exec_var ''COLORTERM''" by code_simp+
  then have "list_all guest_safe env1"
    unfolding env1_def Let_def by (auto simp: guest_safe_def intro!: all_dict_set)
  then have "list_all guest_safe (dict_update (identity_env ?s)
      (set_exported (s_env ?s) (set_exported (declared_values ?s) (dict_update (host_args h) env1))))"
    by (intro all_dict_update [OF _ identity_safe] set_exported_safe) (rule all_dict_update [OF _ predefined_safe])
  then have g: "list_all ?P (dict_update (identity_env ?s)
      (set_exported (s_env ?s) (set_exported (declared_values ?s) (dict_update (host_args h) env1))))"
    by (auto simp: guest_safe_def list_all_iff)
  define env5 where "env5 = dict_update (map (\<lambda>k. (k, environ h k))
      (filter (\<lambda>k. environ h k \<noteq> []) [''PROOT_NO_SECCOMP'', ''PROOT_VERBOSE'']))
    (dict_update (identity_env ?s) (set_exported (s_env ?s) (set_exported (declared_values ?s) (dict_update (host_args h) env1))))"
  have e5: "list_all ?P env5"
    unfolding env5_def by (rule all_dict_update [OF g]) (auto simp: host_side_def)
  have b: "build_child_env dv h e = (if \<not> h_termux h then (env5, e_fs e)
         else (case makedirs_at None (e_fs e) (s_root ?s) [''.l2s''] of
                 (Some p, t) \<Rightarrow> (dict_set ''PROOT_L2S_DIR'' (''/'' @ join_with ''/'' p) env5, t)
               | (None, t) \<Rightarrow> (dict_del ''PROOT_L2S_DIR'' env5, t)))"
    by (simp only: build_child_env_def env5_def env1_def Let_def)
  have "list_all ?P (dict_set ''PROOT_L2S_DIR'' v env5)" if "h_termux h" for v
    using e5 that by (intro all_dict_set) (simp_all add: host_side_def)
  moreover have "list_all ?P (dict_del ''PROOT_L2S_DIR'' env5)"
    using e5 by (auto simp: dict_del_def list_all_iff)
  ultimately show ?thesis using e5 by (auto simp: b split: prod.splits option.splits)
qed

subsection \<open>Examples\<close>

definition sample_host :: "(proot_run \<Rightarrow> fs \<Rightarrow> int \<times> fs) \<Rightarrow> host" where
  "sample_host run =
     \<lparr>h_environ = [(''PROOT_VERBOSE'', ''1'')], h_termux = False, h_pull = (\<lambda>r p s. (None, s)),
      h_pack = (\<lambda>ms. \<lparr>ly_digest = nat_str (length ms), ly_size = 0, ly_diff = []\<rparr>), h_proot = run,
      h_hash = (\<lambda>t. ''k'' @ t), h_members = (\<lambda>b. (False, [])), h_fetch = (\<lambda>u. None), h_rand = (\<lambda>n. []), h_now = 0,
      h_l2s = no_l2s, h_l2s_file = plain_links\<rparr>"

definition sample_engine :: "fs \<Rightarrow> path \<Rightarrow> engine" where
  "sample_engine s r =
     \<lparr>e_fs = s, e_blobs = [], e_index = [], e_stages = [new_stage 0 None r], e_names = [(''0'', 0)],
      e_global = [], e_declared_global = [], e_stop = False, e_firing = False, e_tmp = [''tmp''],
      e_context = [''ctx''], e_user_args = [], e_target = [], e_no_cache = False, e_target_arch = ''arm64'',
      e_host_arch = ''arm64'', e_ignore = []\<rparr>"

definition sample_device :: device where
  "sample_device = \<lparr>dv_prefix = [''proot''], dv_binds = [], dv_default_path = ''/bin''\<rparr>"

definition run_line :: "string \<Rightarrow> instr" where
  "run_line cmd = Instr ''RUN'' [] (VText cmd) False [] 1 (''RUN '' @ cmd)"

theorem child_env_host_variables_witness:
  "case fst (build_child_env sample_device (sample_host (\<lambda>r s. (0, s)))
       (upd_stage (\<lambda>s. s\<lparr>s_env := [(''LD_PRELOAD'', ''/x''), (''A'', ''b'')]\<rparr>) (sample_engine rootfs_before [''r''])))
   of env \<Rightarrow> dict_get env ''LD_PRELOAD'' = None"
proof -
  let ?e = "upd_stage (\<lambda>s. s\<lparr>s_env := [(''LD_PRELOAD'', ''/x''), (''A'', ''b'')]\<rparr>) (sample_engine rootfs_before [''r''])"
  let ?env = "fst (build_child_env sample_device (sample_host (\<lambda>r s. (0, s))) ?e)"
  have l: "is_host_exec_var ''LD_PRELOAD''" by code_simp
  have "dict_get ?env ''LD_PRELOAD'' = None"
  proof (cases "dict_get ?env ''LD_PRELOAD''")
    case (Some v)
    then have "(''LD_PRELOAD'', v) \<in> set ?env" by (rule dict_get_Some_in)
    with child_env_host_variables [of "sample_host (\<lambda>r s. (0, s))" sample_device ?e]
    have "host_side (sample_host (\<lambda>r s. (0, s))) (''LD_PRELOAD'', v)" using l by (auto simp: list_all_iff)
    then show ?thesis by (simp add: host_side_def)
  qed
  then show ?thesis by simp
qed

subsection \<open>The build cache\<close>

lemma run_recipe_stage:
  "run_recipe h (upd_stage (\<lambda>s. s\<lparr>s_user := u, s_workdir := w, s_shell := sh\<rparr>) e) i = run_recipe h e i"
  by (simp add: run_recipe_def run_extra_inputs_def expansion_scope_def identity_env_def set_arch_defaults_def
      Let_def upd_stage_def the_stage_def)

lemma run_fresh_result:
  assumes "run_fresh dv h e i recipe = Inr e1"
  shows "\<exists>t ids env. resolve_user_for_proot (h_l2s h) (e_fs e) (s_root (the_stage e)) (s_user (the_stage e)) = Inr ids
    \<and> h_proot h \<lparr>pr_argv = proot_argv dv (the_stage e) ids (run_command (the_stage e) i), pr_env = env,
        pr_root = s_root (the_stage e)\<rparr> (snd (build_child_env dv h e)) = (0, t)
    \<and> e_fs e1 = t
    \<and> e1 = record_entry recipe (h_pack h (run_layer (h_l2s_file h) (e_fs e) t (s_root (the_stage e))))
        (emit_layer h (run_layer (h_l2s_file h) (e_fs e) t (s_root (the_stage e))) (e\<lparr>e_fs := t\<rparr>))"
proof -
  obtain env t0 where b: "build_child_env dv h e = (env, t0)" by (cases "build_child_env dv h e")
  obtain rc t where x: "exec_proot dv h e (run_command (the_stage e) i) = Inr (rc, t)"
    using assms by (cases "exec_proot dv h e (run_command (the_stage e) i)") (auto simp: run_fresh_def Let_def)
  then have rc: "rc = 0" and e1: "e1 = record_entry recipe (h_pack h (run_layer (h_l2s_file h) (e_fs e) t (s_root (the_stage e))))
        (emit_layer h (run_layer (h_l2s_file h) (e_fs e) t (s_root (the_stage e))) (e\<lparr>e_fs := t\<rparr>))"
    using assms by (auto simp: run_fresh_def Let_def split: if_splits)
  from x rc b obtain ids where
    "resolve_user_for_proot (h_l2s h) (e_fs e) (s_root (the_stage e)) (s_user (the_stage e)) = Inr ids"
    "h_proot h \<lparr>pr_argv = proot_argv dv (the_stage e) ids (run_command (the_stage e) i), pr_env = env,
        pr_root = s_root (the_stage e)\<rparr> t0 = (0, t)"
    by (auto simp: exec_proot_def Let_def)
  moreover have "e_fs e1 = t" by (simp add: e1 record_entry_def emit_layer_def Let_def)
  ultimately show ?thesis using b e1 by auto
qed

lemma recorded_is_replayed:
  assumes "run_fresh dv h e i (run_recipe h e i) = Inr e1" and "run_recipe h e i \<noteq> []"
    and "e_index e' = e_index e1" and "e_blobs e' = e_blobs e1" and "\<not> e_no_cache e'"
    and "run_recipe h e' i = run_recipe h e i"
  shows "\<exists>c. ce_digest c = s_parent (the_stage e1)
    \<and> do_run dv h e' i = replay_layer c (run_layer (h_l2s_file h) (e_fs e) (e_fs e1) (s_root (the_stage e))) e'"
proof -
  obtain t where t: "e_fs e1 = t"
    "e1 = record_entry (run_recipe h e i) (h_pack h (run_layer (h_l2s_file h) (e_fs e) t (s_root (the_stage e))))
        (emit_layer h (run_layer (h_l2s_file h) (e_fs e) t (s_root (the_stage e))) (e\<lparr>e_fs := t\<rparr>))"
    using run_fresh_result [OF assms(1)] by blast
  let ?ms = "run_layer (h_l2s_file h) (e_fs e) t (s_root (the_stage e))"
  let ?l = "h_pack h ?ms"
  have i: "dict_get (e_index e1) (run_recipe h e i)
      = Some \<lparr>ce_digest = ly_digest ?l, ce_diff = ly_diff ?l, ce_size = ly_size ?l\<rparr>"
    by (subst t(2)) (simp add: record_entry_def)
  have b: "dict_get (e_blobs e1) (ly_digest ?l) = Some ?ms"
    by (subst t(2)) (simp add: record_entry_def emit_layer_def Let_def)
  have p: "s_parent (the_stage e1) = ly_digest ?l"
    by (subst t(2)) (simp add: record_entry_def emit_layer_def Let_def the_stage_def upd_stage_def)
  have "do_run dv h e' i = replay_layer \<lparr>ce_digest = ly_digest ?l, ce_diff = ly_diff ?l, ce_size = ly_size ?l\<rparr> ?ms e'"
    using assms(2-6) i b by (simp add: do_run_def Let_def lookup_def)
  with p t(1) show ?thesis by (intro exI conjI) auto
qed


text \<open>The recipe of a RUN step leaves out the user, the directory and the shell it runs with: what a
  step left behind when it ran as one user is replayed, without running anything, for the same line
  after a USER, WORKDIR or SHELL instruction changed them.\<close>

theorem cached_run_ignores_user:
  assumes "run_fresh dv h e i (run_recipe h e i) = Inr e1" and "run_recipe h e i \<noteq> []" and "\<not> e_no_cache e"
  shows "\<exists>c ms. ce_digest c = s_parent (the_stage e1)
    \<and> (\<forall>u w sh. let e' = (upd_stage (\<lambda>s. s\<lparr>s_user := u, s_workdir := w, s_shell := sh\<rparr>) e)
           \<lparr>e_index := e_index e1, e_blobs := e_blobs e1\<rparr>
         in do_run dv h e' i = replay_layer c ms e')"
proof -
  let ?ms = "run_layer (h_l2s_file h) (e_fs e) (e_fs e1) (s_root (the_stage e))"
  let ?e = "\<lambda>u w sh. (upd_stage (\<lambda>s. s\<lparr>s_user := u, s_workdir := w, s_shell := sh\<rparr>) e)\<lparr>e_index := e_index e1, e_blobs := e_blobs e1\<rparr>"
  obtain t where t: "e1 = record_entry (run_recipe h e i) (h_pack h (run_layer (h_l2s_file h) (e_fs e) t (s_root (the_stage e))))
        (emit_layer h (run_layer (h_l2s_file h) (e_fs e) t (s_root (the_stage e))) (e\<lparr>e_fs := t\<rparr>))"
    "e_fs e1 = t" using run_fresh_result [OF assms(1)] by blast
  have r: "run_recipe h (?e u w sh) i = run_recipe h e i" for u w sh
  proof -
    have "run_recipe h (?e u w sh) i = run_recipe h (upd_stage (\<lambda>s. s\<lparr>s_user := u, s_workdir := w, s_shell := sh\<rparr>) e) i"
      by (simp add: run_recipe_def run_extra_inputs_def expansion_scope_def set_arch_defaults_def the_stage_def Let_def)
    then show ?thesis by (simp only: run_recipe_stage)
  qed
  define l where "l = h_pack h ?ms"
  define c where "c = \<lparr>ce_digest = ly_digest l, ce_diff = ly_diff l, ce_size = ly_size l\<rparr>"
  have i: "dict_get (e_index e1) (run_recipe h e i) = Some c"
    unfolding c_def l_def t(2) by (subst t(1)) (simp add: record_entry_def)
  have b: "dict_get (e_blobs e1) (ly_digest l) = Some ?ms"
    unfolding l_def t(2) by (subst t(1)) (simp add: record_entry_def emit_layer_def Let_def)
  have p: "s_parent (the_stage e1) = ly_digest l"
    unfolding l_def t(2) by (subst t(1)) (simp add: record_entry_def emit_layer_def Let_def the_stage_def upd_stage_def)
  have "do_run dv h (?e u w sh) i = replay_layer c ?ms (?e u w sh)" for u w sh
    using assms(2,3) i b r by (simp add: do_run_def Let_def lookup_def c_def upd_stage_def)
  with p show ?thesis by (intro exI [of _ c] exI [of _ ?ms]) (simp add: c_def Let_def)
qed

lemma run_fresh_const:
  "h_proot h = (\<lambda>r s. (0, t)) \<Longrightarrow> s_user (the_stage e) = [] \<Longrightarrow>
     run_fresh dv h e i rc = Inr (record_entry rc (h_pack h (run_layer (h_l2s_file h) (e_fs e) t (s_root (the_stage e))))
        (emit_layer h (run_layer (h_l2s_file h) (e_fs e) t (s_root (the_stage e))) (e\<lparr>e_fs := t\<rparr>)))"
  by (simp add: run_fresh_def exec_proot_def resolve_user_for_proot_def Let_def split: prod.split)

definition sample_step_host :: host where
  "sample_step_host = sample_host (\<lambda>r s. (0, rootfs_after))"

definition sample_before :: engine where
  "sample_before = sample_engine rootfs_before [''r'']"

text \<open>The engine after the step ran once, and the next build, which finds its layer in the cache.\<close>

definition sample_ran :: engine where
  "sample_ran = (case run_fresh sample_device sample_step_host sample_before (run_line ''x'')
       (run_recipe sample_step_host sample_before (run_line ''x'')) of Inr e \<Rightarrow> e | Inl f \<Rightarrow> sample_before)"

definition sample_again :: engine where
  "sample_again = sample_before\<lparr>e_index := e_index sample_ran, e_blobs := e_blobs sample_ran\<rparr>"

lemma sample_run:
  "run_fresh sample_device sample_step_host sample_before (run_line ''x'')
     (run_recipe sample_step_host sample_before (run_line ''x'')) = Inr sample_ran"
  "e_fs sample_ran = rootfs_after"
  "run_recipe sample_step_host sample_before (run_line ''x'') \<noteq> []"
  "run_recipe sample_step_host sample_again (run_line ''x'') = run_recipe sample_step_host sample_before (run_line ''x'')"
proof -
  have f: "run_fresh sample_device sample_step_host sample_before (run_line ''x'') rc
    = Inr (record_entry rc (h_pack sample_step_host (run_layer (h_l2s_file sample_step_host) (e_fs sample_before) rootfs_after
          (s_root (the_stage sample_before))))
        (emit_layer sample_step_host (run_layer (h_l2s_file sample_step_host) (e_fs sample_before) rootfs_after
          (s_root (the_stage sample_before))) (sample_before\<lparr>e_fs := rootfs_after\<rparr>)))" for rc
    by (rule run_fresh_const)
      (simp_all add: sample_step_host_def sample_host_def sample_before_def sample_engine_def the_stage_def new_stage_def)
  show 1: "run_fresh sample_device sample_step_host sample_before (run_line ''x'')
     (run_recipe sample_step_host sample_before (run_line ''x'')) = Inr sample_ran"
    by (simp add: sample_ran_def f)
  from run_fresh_result [OF this] show "e_fs sample_ran = rootfs_after"
    by (auto simp: sample_step_host_def sample_host_def)
  show "run_recipe sample_step_host sample_before (run_line ''x'') \<noteq> []"
    by (simp add: run_recipe_def compute_recipe_hash_def sample_step_host_def sample_host_def)
  show "run_recipe sample_step_host sample_again (run_line ''x'') = run_recipe sample_step_host sample_before (run_line ''x'')"
    by (simp add: run_recipe_def run_extra_inputs_def expansion_scope_def set_arch_defaults_def the_stage_def Let_def sample_again_def)
qed


theorem cached_run_ignores_user_witness:
  "\<exists>c ms. let e' = (upd_stage (\<lambda>s. s\<lparr>s_user := ''nobody'', s_workdir := ''/'', s_shell := [''/bin/bash'']\<rparr>) sample_before)
       \<lparr>e_index := e_index sample_ran, e_blobs := e_blobs sample_ran\<rparr>
     in do_run sample_device sample_step_host e' (run_line ''x'') = replay_layer c ms e'"
proof -
  have "\<not> e_no_cache sample_before" by (simp add: sample_before_def sample_engine_def)
  from cached_run_ignores_user [OF sample_run(1,3) this] show ?thesis by meson
qed

end
