(* ===== verification/Docker_Ignore.thy ===== *)
theory Docker_Ignore
  imports Posix_Path Path_Resolve Dockerfile_Syntax
begin

text \<open>
  \<open>helpers/build_engine/dockerignore.py\<close>: \<open>fnmatch\<close> of the standard library on whole names, the ordered
  patterns of a \<open>.dockerignore\<close>, and the one-level glob of COPY sources over the live tree.
\<close>

subsection \<open>fnmatch\<close>

datatype pat_item = PStar | PAny | PLit char | PSet bool "(char \<times> char) list"

text \<open>The inside of brackets: single characters and ranges; an empty range stands for nothing.\<close>

fun set_items :: "string \<Rightarrow> (char \<times> char) list" where
  "set_items (x # d # y # rest) =
     (if d = CHR ''-'' then (x, y) # set_items rest else (x, x) # set_items (d # y # rest))"
| "set_items (x # rest) = (x, x) # set_items rest"
| "set_items [] = []"

definition bracket_end :: "string \<Rightarrow> nat option" where
  "bracket_end s =
     (let n0 = (if s \<noteq> [] \<and> hd s = CHR ''!'' then 1 else 0);
          n1 = (if drop n0 s \<noteq> [] \<and> hd (drop n0 s) = CHR '']'' then n0 + 1 else n0);
          n2 = n1 + length (takeWhile (\<lambda>c. c \<noteq> CHR '']'') (drop n1 s))
      in if n2 < length s then Some n2 else None)"

definition bracket_item :: "string \<Rightarrow> pat_item" where
  "bracket_item t =
     (if t \<noteq> [] \<and> hd t = CHR ''!'' then PSet True (set_items (tl t)) else PSet False (set_items t))"

function pat_items :: "string \<Rightarrow> pat_item list" where
  "pat_items s =
     (case s of
        [] \<Rightarrow> []
      | c # r \<Rightarrow>
          (if c = CHR ''*'' then PStar # pat_items r
           else if c = CHR ''?'' then PAny # pat_items r
           else if c = CHR ''['' then
             (case bracket_end r of
                None \<Rightarrow> PLit c # pat_items r
              | Some n \<Rightarrow> bracket_item (take n r) # pat_items (drop (Suc n) r))
           else PLit c # pat_items r))"
  by pat_completeness auto
termination
  by (relation "measure length") auto

declare pat_items.simps [simp del]

definition in_set :: "bool \<Rightarrow> (char \<times> char) list \<Rightarrow> char \<Rightarrow> bool" where
  "in_set neg rs c \<longleftrightarrow> neg \<noteq> list_ex (\<lambda>(lo, hi). code lo \<le> code c \<and> code c \<le> code hi) rs"

fun fnmatch_items :: "pat_item list \<Rightarrow> string \<Rightarrow> bool" where
  "fnmatch_items [] s \<longleftrightarrow> s = []"
| "fnmatch_items (PStar # ps) [] \<longleftrightarrow> fnmatch_items ps []"
| "fnmatch_items (PStar # ps) (c # s) \<longleftrightarrow> fnmatch_items ps (c # s) \<or> fnmatch_items (PStar # ps) s"
| "fnmatch_items (PAny # ps) (c # s) \<longleftrightarrow> fnmatch_items ps s"
| "fnmatch_items (PLit x # ps) (c # s) \<longleftrightarrow> c = x \<and> fnmatch_items ps s"
| "fnmatch_items (PSet neg rs # ps) (c # s) \<longleftrightarrow> in_set neg rs c \<and> fnmatch_items ps s"
| "fnmatch_items (_ # ps) [] \<longleftrightarrow> False"

definition fnmatchcase :: "string \<Rightarrow> string \<Rightarrow> bool" where
  "fnmatchcase name pat \<longleftrightarrow> fnmatch_items (pat_items pat) name"

subsection \<open>Patterns\<close>

definition load_dockerignore :: "string \<Rightarrow> string list" where
  "load_dockerignore text =
     filter (\<lambda>s. s \<noteq> [] \<and> hd s \<noteq> CHR ''#'') (map strip (split_on CHR 0x0A (normalise_newlines text)))"

fun replace_stars :: "string \<Rightarrow> string" where
  "replace_stars (a # b # s) =
     (if a = CHR ''*'' \<and> b = CHR ''*'' then CHR ''*'' # replace_stars s else a # replace_stars (b # s))"
| "replace_stars s = s"

definition is_slash :: "char \<Rightarrow> bool" where
  "is_slash c \<longleftrightarrow> c = CHR ''/''"

definition ignore_match :: "string \<Rightarrow> string \<Rightarrow> bool" where
  "ignore_match rel_path pattern \<longleftrightarrow>
     (let pat = replace_stars (strip_by is_slash pattern);
          rel = strip_by is_slash rel_path;
          parts = split_on CHR ''/'' rel
      in fnmatchcase rel pat
         \<or> list_ex (\<lambda>i. fnmatchcase (join_with ''/'' (take i parts)) pat) [1..<length parts + 1])"

definition pattern_step :: "string \<Rightarrow> string \<Rightarrow> bool \<Rightarrow> bool" where
  "pattern_step rel pat ignored =
     (let negate = starts_with ''!'' pat; p = (if negate then tl pat else pat)
      in if ignore_match rel p then \<not> negate else ignored)"

definition is_ignored :: "string \<Rightarrow> string list \<Rightarrow> bool" where
  "is_ignored rel pats \<longleftrightarrow>
     (if rel = ''Dockerfile'' \<or> rel = ''.dockerignore'' then False
      else fold (pattern_step rel) pats False)"

subsection \<open>Glob\<close>

text \<open>
  \<open>glob.glob\<close> of \<open>base/pattern\<close>. A directory on the way is listed by name, so links are followed the way
  the kernel follows them, from the root of the file system; the answers are relative to \<open>base\<close>.
\<close>

definition has_magic :: "string \<Rightarrow> bool" where
  "has_magic p \<longleftrightarrow> list_ex (\<lambda>c. c = CHR ''*'' \<or> c = CHR ''?'' \<or> c = CHR ''['') p"

definition real_dir :: "fs \<Rightarrow> path \<Rightarrow> path option" where
  "real_dir s p =
     (case safe_resolve_parts s [] p of
        None \<Rightarrow> None
      | Some q \<Rightarrow> if is_dir s q then Some q else None)"

definition glob_names :: "fs \<Rightarrow> path \<Rightarrow> string \<Rightarrow> string list" where
  "glob_names s dir p =
     (case real_dir s dir of
        None \<Rightarrow> []
      | Some q \<Rightarrow>
          (if has_magic p
           then filter (\<lambda>n. fnmatchcase n p \<and> (starts_with ''.'' p \<or> \<not> starts_with ''.'' n)) (listdir_at s q)
           else if p = ''.'' \<or> p = ''..'' \<or> node_at s (q @ [p]) \<noteq> None then [p] else []))"

fun glob_parts :: "fs \<Rightarrow> path \<Rightarrow> string list \<Rightarrow> string list \<Rightarrow> string list list" where
  "glob_parts s base pre [] = [pre]"
| "glob_parts s base pre (p # ps) =
     concat (map (\<lambda>n. glob_parts s base (pre @ [n]) ps) (glob_names s (base @ pre) p))"

definition simple_glob :: "fs \<Rightarrow> path \<Rightarrow> string \<Rightarrow> string list" where
  "simple_glob s base pattern =
     (let parts = split_on CHR ''/'' pattern; dir_only = (parts \<noteq> [] \<and> last parts = []);
          found = glob_parts s base [] (filter (\<lambda>p. p \<noteq> []) parts)
      in map (\<lambda>m. let r = norm_parts False [] m in if r = [] then ''.'' else join_with ''/'' r)
           (filter (\<lambda>m. \<not> dir_only \<or> real_dir s (base @ m) \<noteq> None) found))"

subsection \<open>The verdict\<close>

definition verdict :: "string \<Rightarrow> bool" where
  "verdict pat \<longleftrightarrow> \<not> starts_with ''!'' pat"

definition body_of :: "string \<Rightarrow> string" where
  "body_of pat = (if starts_with ''!'' pat then tl pat else pat)"

text \<open>The last pattern of a .dockerignore that matches a path decides it, an exclamation mark turning
  the verdict around, and a path no pattern matches is kept. Dockerfile and .dockerignore are kept always.\<close>

theorem last_pattern_decides:
  "is_ignored rel pats =
     (if rel = ''Dockerfile'' \<or> rel = ''.dockerignore'' then False
      else case filter (\<lambda>p. ignore_match rel (body_of p)) (rev pats) of
             [] \<Rightarrow> False
           | p # _ \<Rightarrow> verdict p)"
proof -
  have step: "pattern_step rel p b = (if ignore_match rel (body_of p) then verdict p else b)" for p b
    by (simp add: pattern_step_def body_of_def verdict_def Let_def)
  have "fold (pattern_step rel) pats b
    = (case filter (\<lambda>p. ignore_match rel (body_of p)) (rev pats) of [] \<Rightarrow> b | p # _ \<Rightarrow> verdict p)" for b
  proof (induction pats rule: rev_induct)
    case Nil
    show ?case by simp
  next
    case (snoc p pats)
    then show ?case by (simp add: step)
  qed
  then show ?thesis by (simp add: is_ignored_def)
qed

end
