(* ===== verification/Build_Copy.thy ===== *)
theory Build_Copy
  imports Build_Handlers Docker_Ignore
begin

text \<open>
  COPY and ADD (\<open>helpers/build_engine/copy_step.py\<close>): where a source resolves, the file map one
  instruction records, its entries written into the stage's rootfs, and the layer packed from it. The
  network and the tar reader are the arguments \<open>h_fetch\<close> and \<open>h_members\<close>; an archive is the list of its
  members and whether the reader got to the end of it. The context and every source tree is named by the
  directory its descriptor was opened as.
\<close>

subsection \<open>The source tree\<close>

definition spec_parts :: "string \<Rightarrow> string list option" where
  "spec_parts src =
     (let parts = filter (\<lambda>p. p \<noteq> [] \<and> p \<noteq> ''.'') (split_on CHR ''/'' (dropWhile is_slash src))
      in if ''..'' \<in> set parts then None else Some parts)"

definition rel_name :: "string list \<Rightarrow> string" where
  "rel_name parts = (if parts = [] then ''.'' else join_with ''/'' parts)"

definition tree_resolve :: "fs \<Rightarrow> path \<Rightarrow> string list \<Rightarrow> string list option" where
  "tree_resolve s root parts =
     (let ps = filter (\<lambda>p. p \<noteq> [] \<and> p \<noteq> ''.'') parts in
      if ps = [] then Some []
      else map_option (\<lambda>q. q @ [last ps]) (safe_resolve_parts s root (butlast ps)))"

definition tree_opendir :: "fs \<Rightarrow> path \<Rightarrow> string list \<Rightarrow> errno + path" where
  "tree_opendir s root parts = fst (descend_at False s root parts)"

definition tree_lstat :: "fs \<Rightarrow> path \<Rightarrow> string list \<Rightarrow> node option" where
  "tree_lstat s root parts =
     (if parts = [] then node_at s root
      else case tree_opendir s root (butlast parts) of
          Inl e \<Rightarrow> None
        | Inr d \<Rightarrow> (case lstat_at s d (last parts) of Inl e \<Rightarrow> None | Inr n \<Rightarrow> Some n))"

text \<open>The two steps a source goes through before it is recorded.\<close>

definition find_source :: "fs \<Rightarrow> path \<Rightarrow> string list \<Rightarrow> (string list \<times> node) option" where
  "find_source s root raw =
     (case tree_resolve s root raw of
        None \<Rightarrow> None
      | Some parts \<Rightarrow> map_option (Pair parts) (tree_lstat s root parts))"

subsection \<open>The file map\<close>

text \<open>What recording threads: the tree (the spool is on it), the map and the number of spooled files.\<close>

record recording =
  rc_fs :: fs
  rc_map :: "(string \<times> map_entry) list"
  rc_seq :: nat

definition record_at :: "string \<Rightarrow> map_entry \<Rightarrow> recording \<Rightarrow> recording" where
  "record_at arc m c = c\<lparr>rc_map := dict_set arc m (rc_map c)\<rparr>"

text \<open>Owner, group and the mode of \<open>--chmod\<close>.\<close>

record ownership =
  ow_uid :: int
  ow_gid :: int
  ow_mode :: "nat option"

definition entry_mode :: "ownership \<Rightarrow> nat \<Rightarrow> nat" where
  "entry_mode ow m = (case ow_mode ow of Some mo \<Rightarrow> mo | None \<Rightarrow> m)"

definition strip_slash :: "string \<Rightarrow> string" where
  "strip_slash s = rev (dropWhile is_slash (rev (dropWhile is_slash s)))"

definition rstrip_slash :: "string \<Rightarrow> string" where
  "rstrip_slash s = rev (dropWhile is_slash (rev s))"

definition make_subpath :: "string \<Rightarrow> string \<Rightarrow> string \<Rightarrow> string" where
  "make_subpath dest rel name =
     join_with ''/'' (map strip_slash
       ([rstrip_slash dest] @ (if rel \<noteq> [] \<and> rel \<noteq> ''.'' then [rel] else []) @ (if name \<noteq> [] then [name] else [])))"

definition ends_slash :: "string \<Rightarrow> bool" where
  "ends_slash s \<longleftrightarrow> s \<noteq> [] \<and> last s = CHR ''/''"

definition dest_arcname :: "string \<Rightarrow> string \<Rightarrow> bool \<Rightarrow> string" where
  "dest_arcname src_full dest is_dir_dest =
     (if is_dir_dest \<or> ends_slash dest
      then dropWhile is_slash (rstrip_slash dest @ ''/'' @ snd (rpartition_at CHR ''/'' (rstrip_slash src_full)))
      else dropWhile is_slash dest)"

text \<open>\<open>_Spool.stream\<close> and \<open>_spool_entry\<close>: the bytes in a fresh file of the spool, recorded as a source.\<close>

definition spool_stream :: "host \<Rightarrow> path \<Rightarrow> string \<Rightarrow> recording \<Rightarrow> fault + string \<times> recording" where
  "spool_stream h sp bytes c =
     (let n = Suc (rc_seq c); name = ''add-'' @ nat_str n @ ''.'' @ h_rand h n in
      case open_new_at (rc_fs c) sp name 384 of
        Inl e \<Rightarrow> Inl (OSError e)
      | Inr (i, t) \<Rightarrow>
          Inr (name, c\<lparr>rc_fs := write_inode i ((f_data t i)\<lparr>fd_bytes := bytes\<rparr>) t, rc_seq := n\<rparr>))"

definition spool_entry :: "path \<Rightarrow> string \<Rightarrow> string \<Rightarrow> nat \<Rightarrow> ownership \<Rightarrow> int \<Rightarrow> recording \<Rightarrow> recording" where
  "spool_entry sp arc name mode ow mtime c =
     record_at arc (MFile sp [name] mode (ow_uid ow) (ow_gid ow))
       (c\<lparr>rc_fs := (case utime_at (rc_fs c) sp name mtime of Inr t \<Rightarrow> t | Inl e \<Rightarrow> rc_fs c)\<rparr>)"

definition spool_file :: "host \<Rightarrow> path \<Rightarrow> string \<Rightarrow> string \<Rightarrow> nat \<Rightarrow> ownership \<Rightarrow> int \<Rightarrow> recording \<Rightarrow> fault + recording" where
  "spool_file h sp arc bytes mode ow mtime c =
     bindR (spool_stream h sp bytes c) (\<lambda>(name, c'). Inr (spool_entry sp arc name mode ow mtime c'))"

subsection \<open>URLs\<close>

text \<open>
  \<open>urlsplit(url).path\<close> for a URL that starts with its scheme; \<open>None\<close> is the ValueError for unbalanced
  brackets in the host. A bracketed host that is no address is refused by the fetch instead.
\<close>

definition url_path :: "string \<Rightarrow> string option" where
  "url_path url =
     (let s = filter (\<lambda>c. c \<notin> {CHR 0x09, CHR 0x0A, CHR 0x0D}) url;
          rest = drop 2 (tl (dropWhile (\<lambda>c. c \<noteq> CHR '':'') s));
          host = takeWhile (\<lambda>c. c \<noteq> CHR ''/'' \<and> c \<noteq> CHR ''?'' \<and> c \<noteq> CHR ''#'') rest;
          path = takeWhile (\<lambda>c. c \<noteq> CHR ''?'' \<and> c \<noteq> CHR ''#'') (drop (length host) rest)
      in if (CHR ''['' \<in> set host) = (CHR '']'' \<in> set host) then Some path else None)"

definition url_arcname :: "string \<Rightarrow> string \<Rightarrow> fault + string" where
  "url_arcname url dest =
     (if ends_slash dest
      then (case url_path url of
              None \<Rightarrow> Inl (BuildError (FetchFailed url))
            | Some p \<Rightarrow>
                (let base = snd (rpartition_at CHR ''/'' p) in
                 Inr (dropWhile is_slash dest @ (if base = [] then ''index'' else base))))
      else Inr (dropWhile is_slash dest))"

definition copy_url :: "host \<Rightarrow> path \<Rightarrow> string \<Rightarrow> string \<Rightarrow> ownership \<Rightarrow> recording \<Rightarrow> fault + recording" where
  "copy_url h sp url dest ow c =
     bindR (url_arcname url dest) (\<lambda>arc.
       case h_fetch h url of
         None \<Rightarrow> Inl (BuildError (FetchFailed url))
       | Some body \<Rightarrow> spool_file h sp arc body (entry_mode ow 420) ow (h_now h * 1000000000) c)"

subsection \<open>Recording a source\<close>

definition entry_of_file :: "fs \<Rightarrow> path \<Rightarrow> string list \<Rightarrow> nat \<Rightarrow> ownership \<Rightarrow> map_entry" where
  "entry_of_file s root parts i ow =
     MFile root parts (entry_mode ow (S_IMODE (fd_mode (f_data s i)))) (ow_uid ow) (ow_gid ow)"

definition entry_of_link :: "string \<Rightarrow> int \<Rightarrow> ownership \<Rightarrow> map_entry" where
  "entry_of_link target t ow = MSym target 511 (ow_uid ow) (ow_gid ow) (whole_seconds t)"

text \<open>
  \<open>_add_directory_tree\<close>: the names of a directory from the last to the first, a subdirectory right after
  its own entry, as the stack of the code has it. An ignored name is not descended. The first argument
  bounds the depth; the walk starts with more than the depth of the tree.
\<close>

fun add_tree :: "nat \<Rightarrow> string list \<Rightarrow> path \<Rightarrow> string list \<Rightarrow> string \<Rightarrow> string \<Rightarrow> ownership \<Rightarrow> path \<Rightarrow>
    string list \<Rightarrow> string list \<Rightarrow> recording \<Rightarrow> recording" where
  "add_tree 0 ignore root base dest src_rel ow d rel names c = c"
| "add_tree (Suc k) ignore root base dest src_rel ow d rel [] c = c"
| "add_tree (Suc k) ignore root base dest src_rel ow d rel (name # names) c =
     (let s = rc_fs c;
          child = rel @ [name];
          combined = (if src_rel \<noteq> [] \<and> src_rel \<noteq> ''.'' then src_rel @ ''/'' @ join_with ''/'' child
                      else join_with ''/'' child);
          arc = dropWhile is_slash (make_subpath dest (join_with ''/'' rel) name);
          c' = (case lstat_at s d name of
                  Inl e \<Rightarrow> c
                | Inr n \<Rightarrow>
                    (if is_ignored combined ignore then c
                     else case n of
                         NLink target t \<Rightarrow> record_at arc (entry_of_link target t ow) c
                       | NDir m t \<Rightarrow>
                           (let c1 = record_at arc (MDir (entry_mode ow (S_IMODE m)) (ow_uid ow) (ow_gid ow) 0) c
                            in case opendir_at s d name of
                                 Inl e \<Rightarrow> c1
                               | Inr p \<Rightarrow> add_tree k ignore root base dest src_rel ow p child (rev (listdir_at s p)) c1)
                       | NFile i \<Rightarrow> record_at arc (entry_of_file s root (base @ child) i ow) c
                       | NSpecial \<Rightarrow> c))
      in add_tree (Suc k) ignore root base dest src_rel ow d rel names c')"

definition add_directory_tree :: "string list \<Rightarrow> path \<Rightarrow> string list \<Rightarrow> string \<Rightarrow> string \<Rightarrow> ownership \<Rightarrow> recording \<Rightarrow> recording" where
  "add_directory_tree ignore root parts dest src_rel ow c =
     (let dest' = (if ends_slash dest then dest else dest @ ''/'') in
      case tree_opendir (rc_fs c) root parts of
        Inl e \<Rightarrow> c
      | Inr p \<Rightarrow>
          add_tree (Suc (max_depth (rc_fs c))) ignore root parts dest' src_rel ow p []
            (rev (listdir_at (rc_fs c) p)) c)"

text \<open>One member of an archive; devices and hard links leave the map as it is and do not count.\<close>

fun drop_dot_slash :: "string \<Rightarrow> string" where
  "drop_dot_slash (c # d # s) = (if c = CHR ''.'' \<and> d = CHR ''/'' then drop_dot_slash s else c # d # s)"
| "drop_dot_slash s = s"

definition or_default :: "nat \<Rightarrow> nat \<Rightarrow> nat" where
  "or_default m d = (if m = 0 then d else m)"

definition member_rel :: "string \<Rightarrow> string option" where
  "member_rel name =
     (let rel = dropWhile is_slash (drop_dot_slash name) in
      if list_ex (\<lambda>p. p \<in> {''..'', ''.'', []}) (split_on CHR ''/'' rel) then None else Some rel)"

definition extract_member :: "host \<Rightarrow> path \<Rightarrow> string \<Rightarrow> ownership \<Rightarrow> member \<Rightarrow> nat \<times> recording \<Rightarrow> fault + nat \<times> recording" where
  "extract_member h sp dest ow m = (\<lambda>(count, c).
     (case member_rel (tm_name m) of
        None \<Rightarrow> Inr (count, c)
      | Some rel \<Rightarrow>
          (let arc = dropWhile is_slash (dest @ rel); mode = S_IMODE (tm_mode m); mtime = whole_seconds (tm_mtime m) in
           case tm_kind m of
             TDir \<Rightarrow> Inr (Suc count, record_at arc (MDir (or_default mode 493) (ow_uid ow) (ow_gid ow) mtime) c)
           | TSym target \<Rightarrow> Inr (Suc count, record_at arc (MSym target 511 (ow_uid ow) (ow_gid ow) mtime) c)
           | TReg bytes \<Rightarrow>
               bindR (spool_file h sp arc bytes (or_default mode 420) ow mtime c) (\<lambda>c'. Inr (Suc count, c'))
           | _ \<Rightarrow> Inr (count, c))))"

text \<open>The members in order, then the error of a stream that breaks off. A count of zero is no archive.\<close>

definition extract_tar_into_dest :: "host \<Rightarrow> path \<Rightarrow> string \<Rightarrow> ownership \<Rightarrow> string \<Rightarrow> bool \<Rightarrow> member list \<Rightarrow>
    recording \<Rightarrow> fault + nat \<times> recording" where
  "extract_tar_into_dest h sp dest ow src complete ms c =
     bindR (foldR (extract_member h sp (if ends_slash dest then dest else dest @ ''/'') ow) ms (0, c)) (\<lambda>(count, c').
       if complete \<or> count = 0 then Inr (count, c') else Inl (BuildError (BadArchive src)))"

definition extract_archive :: "host \<Rightarrow> path \<Rightarrow> path \<Rightarrow> string list \<Rightarrow> string \<Rightarrow> ownership \<Rightarrow> recording \<Rightarrow> fault + bool \<times> recording" where
  "extract_archive h sp root parts dest ow c =
     (case open_source (rc_fs c) root parts of
        Inl e \<Rightarrow> Inr (False, c)
      | Inr i \<Rightarrow>
          (let bytes = fd_bytes (f_data (rc_fs c) i) in
           if \<not> is_tar_header (take TAR_HEADER_BYTES bytes) then Inr (False, c)
           else (case h_members h bytes of
                   (complete, ms) \<Rightarrow>
                     bindR (extract_tar_into_dest h sp dest ow (join_with ''/'' parts) complete ms c)
                       (\<lambda>(count, c'). Inr (0 < count, c')))))"

definition add_to_file_map :: "host \<Rightarrow> path \<Rightarrow> path \<Rightarrow> string list \<Rightarrow> bool \<Rightarrow> string \<Rightarrow> bool \<Rightarrow> ownership \<Rightarrow>
    string list \<times> node \<Rightarrow> recording \<Rightarrow> fault + recording" where
  "add_to_file_map h sp root ignore auto_extract dest is_dir_dest ow = (\<lambda>(parts, n) c.
     (case n of
        NLink target t \<Rightarrow>
          Inr (record_at (dest_arcname (last parts) dest is_dir_dest) (entry_of_link target t ow) c)
      | NDir m t \<Rightarrow> Inr (add_directory_tree ignore root parts dest (rel_name parts) ow c)
      | NFile i \<Rightarrow>
          bindR (if auto_extract then extract_archive h sp root parts dest ow c else Inr (False, c)) (\<lambda>(unpacked, c').
            Inr (if unpacked then c'
                 else record_at (dest_arcname (last parts) dest is_dir_dest) (entry_of_file (rc_fs c') root parts i ow) c'))
      | NSpecial \<Rightarrow> Inr c))"

definition copy_from_context :: "host \<Rightarrow> engine \<Rightarrow> path \<Rightarrow> bool \<Rightarrow> string \<Rightarrow> bool \<Rightarrow> ownership \<Rightarrow> string \<Rightarrow> recording \<Rightarrow> fault + recording" where
  "copy_from_context h e sp auto_extract dest is_dir_dest ow src c =
     (let root = e_context e; s = rc_fs c in
      case spec_parts src of
        None \<Rightarrow> Inl (BuildError (SourceEscapes src))
      | Some raw \<Rightarrow>
          (case find_source s root raw of
             Some (parts, n) \<Rightarrow>
               (if is_ignored (rel_name parts) (e_ignore e) then Inr c
                else add_to_file_map h sp root (e_ignore e) auto_extract dest is_dir_dest ow (parts, n) c)
           | None \<Rightarrow>
               (let matches = filter (\<lambda>m. \<not> is_ignored m (e_ignore e))
                      (sort (simple_glob s root (dropWhile is_slash src)));
                    found = List.map_filter (\<lambda>m. Option.bind (spec_parts m) (find_source s root)) matches
                in if found = [] then Inl (BuildError (SourceMissing src))
                   else foldR (add_to_file_map h sp root (e_ignore e) auto_extract dest True ow) found c)))"

definition copy_from_rootfs :: "host \<Rightarrow> path \<Rightarrow> path \<Rightarrow> string \<Rightarrow> bool \<Rightarrow> ownership \<Rightarrow> string \<Rightarrow> recording \<Rightarrow> fault + recording" where
  "copy_from_rootfs h sp root dest is_dir_dest ow src c =
     (case spec_parts src of
        None \<Rightarrow> Inl (BuildError (SourceEscapes src))
      | Some raw \<Rightarrow>
          (case find_source (rc_fs c) root raw of
             None \<Rightarrow> Inl (BuildError (SourceMissing src))
           | Some x \<Rightarrow> add_to_file_map h sp root [] False dest is_dir_dest ow x c))"

subsection \<open>Writing the map into the rootfs\<close>

definition drop_entry_at :: "fs \<Rightarrow> path \<Rightarrow> string \<Rightarrow> fs" where
  "drop_entry_at s d n = unlink_quietly s d n"

definition write_dir_entry :: "fs \<Rightarrow> path \<Rightarrow> string \<Rightarrow> nat \<Rightarrow> string \<Rightarrow> (fault + unit) \<times> fs" where
  "write_dir_entry s d n mode arc =
     (let s1 = (case lstat_at s d n of Inr (NLink g t) \<Rightarrow> drop_entry_at s d n | _ \<Rightarrow> s) in
      case mkdir_at s1 d n 511 of
        Inr s2 \<Rightarrow> (Inr (), snd (chmod_at s2 d n mode True))
      | Inl e \<Rightarrow>
          (if e = EEXIST then
             (case lstat_at s1 d n of
                Inr (NDir m t) \<Rightarrow> (Inr (), snd (chmod_at s1 d n mode True))
              | _ \<Rightarrow> (Inl (BuildError (NotADirectory arc)), s1))
           else (Inl (BuildError (CannotWrite arc)), s1)))"

definition write_link_entry :: "fs \<Rightarrow> path \<Rightarrow> string \<Rightarrow> string \<Rightarrow> string \<Rightarrow> (fault + unit) \<times> fs" where
  "write_link_entry s d n target arc =
     (let s1 = drop_entry_at s d n in
      case symlink_at s1 target d n of
        Inr s2 \<Rightarrow> (Inr (), s2)
      | Inl e \<Rightarrow> (Inl (BuildError (CannotWrite arc)), s1))"

definition write_file_entry :: "fs \<Rightarrow> path \<Rightarrow> string \<Rightarrow> path \<Rightarrow> string list \<Rightarrow> nat \<Rightarrow> string \<Rightarrow> (fault + unit) \<times> fs" where
  "write_file_entry s d n root rel mode arc =
     (case open_source s root rel of
        Inl e \<Rightarrow> (Inl (BuildError (CannotWrite arc)), s)
      | Inr i \<Rightarrow>
          (case open_new_at s d n mode of
             Inl e \<Rightarrow> (Inl (BuildError (CannotWrite arc)), s)
           | Inr (j, t) \<Rightarrow>
               (Inr (), write_inode j ((f_data t j)\<lparr>fd_bytes := fd_bytes (f_data s i), fd_mode := mode\<rparr>) t)))"

definition materialise_entry :: "fs \<Rightarrow> path \<Rightarrow> string \<Rightarrow> map_entry \<Rightarrow> string \<Rightarrow> (fault + unit) \<times> fs" where
  "materialise_entry s d n m arc =
     (case m of
        MDir mode uid gid mtime \<Rightarrow> write_dir_entry s d n mode arc
      | MSym target mode uid gid mtime \<Rightarrow> write_link_entry s d n target arc
      | MFile root rel mode uid gid \<Rightarrow> write_file_entry s d n root rel mode arc)"

definition materialise_one :: "path \<Rightarrow> fs \<Rightarrow> string \<times> map_entry \<Rightarrow> (fault + unit) \<times> fs" where
  "materialise_one r s x =
     (case layer_path_parts (fst x) of
        None \<Rightarrow> (Inr (), s)
      | Some parts \<Rightarrow>
          (case safe_resolve_parts s r (butlast parts) of
             None \<Rightarrow> (Inr (), s)
           | Some resolved \<Rightarrow>
               (case descend_at True s r resolved of
                  (Inl e, t) \<Rightarrow> (Inl (BuildError (CannotWrite (fst x))), t)
                | (Inr d, t) \<Rightarrow> materialise_entry t d (last parts) (snd x) (fst x))))"

fun materialise_all :: "path \<Rightarrow> fs \<Rightarrow> (string \<times> map_entry) list \<Rightarrow> (fault + unit) \<times> fs" where
  "materialise_all r s [] = (Inr (), s)"
| "materialise_all r s (x # xs) =
     (case materialise_one r s x of
        (Inl e, t) \<Rightarrow> (Inl e, t)
      | (Inr u, t) \<Rightarrow> materialise_all r t xs)"

definition materialise_files :: "path \<Rightarrow> fs \<Rightarrow> (string \<times> map_entry) list \<Rightarrow> (fault + unit) \<times> fs" where
  "materialise_files r s fmap = materialise_all r s (sort_key fst fmap)"

subsection \<open>The instruction\<close>

definition open_scratch_dir :: "engine \<Rightarrow> string \<Rightarrow> (errno + path) \<times> fs" where
  "open_scratch_dir e name = descend_at True (e_fs e) (e_tmp e) [name]"

definition pull_throwaway_image :: "host \<Rightarrow> engine \<Rightarrow> string \<Rightarrow> (fault + path) \<times> fs" where
  "pull_throwaway_image h e ref =
     (case parse_reference ref of
        Inl x \<Rightarrow> (Inl (BuildError (PullFailed ref)), e_fs e)
      | Inr x \<Rightarrow>
          (case open_scratch_dir e (''copyfrom-'' @ take 16 (h_hash h ref)) of
             (Inl err, t) \<Rightarrow> (Inl (BuildError (PullFailed ref)), t)
           | (Inr d, t) \<Rightarrow>
               (if listdir_at t d \<noteq> [] then (Inr d, t)
                else case h_pull h ref d t of
                    (None, u) \<Rightarrow> (Inl (BuildError (PullFailed ref)), u)
                  | (Some b, u) \<Rightarrow> (Inr d, u))))"

text \<open>The tree of \<open>--from\<close>, a stage of this build or an image, and the disk after a pull.\<close>

definition from_tree :: "host \<Rightarrow> engine \<Rightarrow> string \<Rightarrow> (fault + path) \<times> fs" where
  "from_tree h e from =
     (case dict_get (e_names e) from of
        Some k \<Rightarrow> (Inr (s_root (e_stages e ! k)), e_fs e)
      | None \<Rightarrow> pull_throwaway_image h e from)"

definition copy_dest :: "stage \<Rightarrow> string \<Rightarrow> string" where
  "copy_dest s dest =
     (let d = py_normpath (py_join (if s_workdir s = [] then ''/'' else s_workdir s) dest) in
      if ends_slash dest \<and> \<not> ends_slash d then d @ ''/'' else d)"

definition copy_ownership :: "host \<Rightarrow> engine \<Rightarrow> instr \<Rightarrow> fault + ownership" where
  "copy_ownership h e i =
     bindR (case dict_get (i_flags i) ''chown'' of
              None \<Rightarrow> Inr (0, 0)
            | Some o' \<Rightarrow> if o' = [] then Inr (0, 0) else resolve_chown (h_l2s h) (e_fs e) (s_root (the_stage e)) o')
       (\<lambda>(uid, gid).
     bindR (case dict_get (i_flags i) ''chmod'' of
              None \<Rightarrow> Inr None
            | Some m \<Rightarrow> bindR (parse_chmod m i) (\<lambda>k. Inr (Some k)))
       (\<lambda>mode. Inr \<lparr>ow_uid = uid, ow_gid = gid, ow_mode = mode\<rparr>))"

definition buildkit_flag :: "instr \<Rightarrow> string option" where
  "buildkit_flag i = List.find (\<lambda>k. k = ''link'' \<or> k = ''parents'') (map fst (i_flags i))"

definition copy_operands :: "instr \<Rightarrow> fault + string list" where
  "copy_operands i =
     bindR (case i_value i of VArgv xs \<Rightarrow> if i_exec i then Inr xs else split_operands i | _ \<Rightarrow> split_operands i) (\<lambda>tokens.
       if length tokens < 2 then Inl (BuildError (FewOperands (i_name i) (i_lineno i)))
       else case buildkit_flag i of
           Some k \<Rightarrow> Inl (BuildError (BuildKitFlag k (i_lineno i)))
         | None \<Rightarrow> Inr tokens)"

definition record_source :: "host \<Rightarrow> engine \<Rightarrow> bool \<Rightarrow> path option \<Rightarrow> path \<Rightarrow> string \<Rightarrow> bool \<Rightarrow> ownership \<Rightarrow> string \<Rightarrow> recording \<Rightarrow> fault + recording" where
  "record_source h e add from sp dest is_dir_dest ow src c =
     (case from of
        Some root \<Rightarrow> copy_from_rootfs h sp root dest is_dir_dest ow src c
      | None \<Rightarrow>
          (if add \<and> looks_like_url src then copy_url h sp src dest ow c
           else copy_from_context h e sp add dest is_dir_dest ow src c))"

definition open_spool :: "engine \<Rightarrow> bool \<Rightarrow> (fault + path) \<times> fs" where
  "open_spool e add =
     (if add then (case open_scratch_dir e ''add-spool'' of (Inl x, t) \<Rightarrow> (Inl (OSError x), t) | (Inr p, t) \<Rightarrow> (Inr p, t))
      else (Inr [], e_fs e))"

text \<open>The tree the sources come from, \<open>None\<close> the context.\<close>

definition from_flag :: "instr \<Rightarrow> string" where
  "from_flag i = (case dict_get (i_flags i) ''from'' of None \<Rightarrow> [] | Some f \<Rightarrow> f)"

definition source_root :: "host \<Rightarrow> engine \<Rightarrow> instr \<Rightarrow> (fault + path option) \<times> fs" where
  "source_root h e i =
     (if from_flag i = [] then (Inr None, e_fs e)
      else case from_tree h e (from_flag i) of (Inl x, t) \<Rightarrow> (Inl x, t) | (Inr p, t) \<Rightarrow> (Inr (Some p), t))"

text \<open>The file map of an instruction, with the disk after the pull and the spooling.\<close>

definition gather_files :: "host \<Rightarrow> bool \<Rightarrow> engine \<Rightarrow> instr \<Rightarrow> fault + recording" where
  "gather_files h add e i =
     bindR (copy_operands i) (\<lambda>tokens.
       case source_root h e i of
         (Inl x, t) \<Rightarrow> Inl x
       | (Inr root, t) \<Rightarrow>
           bindR (copy_ownership h (e\<lparr>e_fs := t\<rparr>) i) (\<lambda>ow.
             case open_spool (e\<lparr>e_fs := t\<rparr>) add of
               (Inl x, u) \<Rightarrow> Inl x
             | (Inr sp, u) \<Rightarrow>
                 foldR (record_source h e add root sp (copy_dest (the_stage e) (last tokens))
                          (ends_slash (last tokens) \<or> 2 < length tokens) ow)
                   (butlast tokens) \<lparr>rc_fs = u, rc_map = [], rc_seq = 0\<rparr>))"

definition do_copy_or_add :: "host \<Rightarrow> bool \<Rightarrow> engine \<Rightarrow> instr \<Rightarrow> fault + engine" where
  "do_copy_or_add h add e i =
     bindR (gather_files h add e i) (\<lambda>c.
       if rc_map c = [] then Inr (e\<lparr>e_fs := rc_fs c\<rparr>)
       else case materialise_files (s_root (the_stage e)) (rc_fs c) (rc_map c) of
           (Inl x, t) \<Rightarrow> Inl x
         | (Inr u, t) \<Rightarrow> Inr (emit_layer h (write_files_layer t (rc_map c)) (e\<lparr>e_fs := t\<rparr>)))"

definition do_copy :: "host \<Rightarrow> engine \<Rightarrow> instr \<Rightarrow> fault + engine" where
  "do_copy h e i = do_copy_or_add h False e i"

definition do_add :: "host \<Rightarrow> engine \<Rightarrow> instr \<Rightarrow> fault + engine" where
  "do_add h e i = do_copy_or_add h True e i"

end
