(* ===== verification/Build_Engine.thy ===== *)
theory Build_Engine
  imports Build_Copy Build_Run
begin

text \<open>
  The engine (\<open>helpers/build_engine/engine.py\<close>): the scan for stage names and global arguments before
  the first step, FROM with its base image, inherited stage and ONBUILD triggers, the dispatcher with
  the history of the image, and the walk over a parsed Dockerfile.
\<close>

subsection \<open>FROM lines\<close>

text \<open>\<open>_FROM_RE\<close> and \<open>_FROM_AS_RE\<close> on the words of the line.\<close>

definition from_match :: "string \<Rightarrow> (string \<times> string option) option" where
  "from_match v =
     (case split_ws v of
        [ref] \<Rightarrow> Some (ref, None)
      | [ref, as, name] \<Rightarrow> if str_upper as = ''AS'' then Some (ref, Some name) else None
      | _ \<Rightarrow> None)"

definition from_as_name :: "string \<Rightarrow> string option" where
  "from_as_name v =
     (case rev (split_ws v) of
        name # as # rest \<Rightarrow>
          (if str_upper as = ''AS'' \<and> (rest \<noteq> [] \<or> is_space (hd v)) then Some name else None)
      | _ \<Rightarrow> None)"

text \<open>
  \<open>expand_vars\<close> on the list of an exec-form FROM, which only the scan meets: items that are no variable
  are joined, and what the code does with an item \<open>$\<close> before a name or a brace is an error of the
  interpreter.
\<close>

fun expand_list :: "string list \<Rightarrow> fault + string" where
  "expand_list [] = Inr []"
| "expand_list [x] = Inr x"
| "expand_list (x # y # ys) =
     (if x = [CHR 0x5C] then bindR (expand_list ys) (\<lambda>t. Inr (y @ t))
      else if x \<noteq> ''$'' then bindR (expand_list (y # ys)) (\<lambda>t. Inr (x @ t))
      else if y = ''{'' \<or> y = ''_'' \<or> y \<noteq> [] \<and> list_all is_alnum_py y then Inl TypeFault
      else bindR (expand_list (y # ys)) (\<lambda>t. Inr (''$'' @ t)))"

definition syntax_fault :: "syntax_error + 'a \<Rightarrow> fault + 'a" where
  "syntax_fault r = (case r of Inl x \<Rightarrow> Inl (SyntaxFault x) | Inr y \<Rightarrow> Inr y)"

definition from_scope :: "engine \<Rightarrow> bool \<Rightarrow> (string \<times> string) list" where
  "from_scope e pre_scan = set_arch_defaults e (if pre_scan then e_user_args e else e_global e)"

definition expand_for_from :: "engine \<Rightarrow> bool \<Rightarrow> ivalue \<Rightarrow> fault + string" where
  "expand_for_from e pre_scan v =
     (case v of
        VText t \<Rightarrow> syntax_fault (expand_vars t (dict_get (from_scope e pre_scan)))
      | VArgv xs \<Rightarrow> expand_list xs
      | VInner j \<Rightarrow> Inl TypeFault)"

subsection \<open>The scan\<close>

text \<open>State: the engine, whether a FROM was seen, the stage names so far.\<close>

definition prescan_step :: "instr \<Rightarrow> engine \<times> bool \<times> string list \<Rightarrow> fault + engine \<times> bool \<times> string list" where
  "prescan_step i = (\<lambda>(e, seen, names).
     (if i_name i = ''FROM'' then
        bindR (expand_for_from e True (i_value i)) (\<lambda>v.
          Inr (e, True, case from_as_name v of Some n \<Rightarrow> names @ [n] | None \<Rightarrow> names))
      else if i_name i = ''ARG'' \<and> \<not> seen then
        (let (key, dflt) = split_arg (i_value i) in
         if key = [] then Inr (e, seen, names)
         else let v = (case dict_get (e_user_args e) key of
                  Some u \<Rightarrow> u | None \<Rightarrow> (case dflt of Some t \<Rightarrow> t | None \<Rightarrow> []))
              in Inr (e\<lparr>e_declared_global := List.insert key (e_declared_global e),
                        e_global := dict_set key v (e_global e)\<rparr>, seen, names))
      else Inr (e, seen, names)))"

definition prescan :: "instr list \<Rightarrow> engine \<Rightarrow> fault + engine" where
  "prescan is e =
     bindR (foldR prescan_step is (e, False, [])) (\<lambda>(e', seen, names).
       if e_target e' \<noteq> [] \<and> e_target e' \<notin> set names then Inl (BuildError (TargetUndefined (e_target e')))
       else Inr e')"

subsection \<open>History\<close>

definition history_entry :: "instr \<Rightarrow> bool \<Rightarrow> json" where
  "history_entry i layer_added =
     JObj ([(''created'', JStr ''1970-01-01T00:00:00Z''),
            (''created_by'', JStr (if i_raw i \<noteq> [] then i_raw i else i_name i))]
           @ (if layer_added then [] else [(''empty_layer'', JBool True)]))"

definition record_history :: "instr \<Rightarrow> bool \<Rightarrow> engine \<Rightarrow> fault + engine" where
  "record_history i layer_added e =
     (let doc = s_doc (the_stage e) in
      bindR (case dict_get doc ''history'' of
               None \<Rightarrow> Inr [] | Some (JArr xs) \<Rightarrow> Inr xs | Some v \<Rightarrow> Inl TypeFault) (\<lambda>xs.
        Inr (upd_stage (\<lambda>s. s\<lparr>s_doc := dict_set ''history'' (JArr (xs @ [history_entry i layer_added])) doc\<rparr>) e)))"

definition run_with_history :: "(engine \<Rightarrow> instr \<Rightarrow> fault + engine) \<Rightarrow> engine \<Rightarrow> instr \<Rightarrow> fault + engine" where
  "run_with_history f e i =
     bindR (f e i) (\<lambda>e'.
       record_history i (length (s_layers (the_stage e)) < length (s_layers (the_stage e'))) e')"

subsection \<open>Dispatch\<close>

definition expand_flag :: "env \<Rightarrow> string \<times> string \<Rightarrow> fault + string \<times> string" where
  "expand_flag env = (\<lambda>(k, t). bindR (syntax_fault (expand_vars t env)) (\<lambda>t'. Inr (k, t')))"

definition expand_value :: "env \<Rightarrow> ivalue \<Rightarrow> fault + ivalue" where
  "expand_value env v =
     (case v of VText t \<Rightarrow> bindR (syntax_fault (expand_vars t env)) (\<lambda>t'. Inr (VText t')) | _ \<Rightarrow> Inr v)"

definition expand_instruction :: "host \<Rightarrow> engine \<Rightarrow> instr \<Rightarrow> fault + instr" where
  "expand_instruction h e i =
     (let env = dict_get (expansion_scope h e) in
      bindR (expand_value env (i_value i)) (\<lambda>v.
      bindR (mapR (expand_flag env) (i_flags i)) (\<lambda>fl.
        Inr (Instr (i_name i) fl v (i_exec i) (i_heredocs i) (i_lineno i) (i_raw i)))))"

definition HANDLERS :: "device \<Rightarrow> host \<Rightarrow> (string \<times> (engine \<Rightarrow> instr \<Rightarrow> fault + engine)) list" where
  "HANDLERS dv h =
     [(''ADD'', do_add h), (''ARG'', do_arg h), (''CMD'', do_cmd), (''COPY'', do_copy h),
      (''ENTRYPOINT'', do_entrypoint), (''ENV'', do_env), (''EXPOSE'', do_expose),
      (''HEALTHCHECK'', do_healthcheck), (''LABEL'', do_label), (''MAINTAINER'', do_maintainer),
      (''RUN'', do_run dv h), (''SHELL'', do_shell), (''STOPSIGNAL'', do_stopsignal), (''USER'', do_user),
      (''VOLUME'', do_volume), (''WORKDIR'', do_workdir h)]"

text \<open>An instruction with its variables expanded, handled, and recorded; \<open>missing\<close> is the refusal of an
  instruction without a handler.\<close>

definition expand_if :: "host \<Rightarrow> engine \<Rightarrow> instr \<Rightarrow> fault + instr" where
  "expand_if h e i = (if i_name i \<in> set EXPANDS_VARS \<and> \<not> i_exec i then expand_instruction h e i else Inr i)"

definition handle :: "device \<Rightarrow> host \<Rightarrow> build_reason \<Rightarrow> engine \<Rightarrow> instr \<Rightarrow> fault + engine" where
  "handle dv h missing e i =
     bindR (expand_if h e i) (\<lambda>i'.
       case dict_get (HANDLERS dv h) (i_name i') of
         None \<Rightarrow> Inl (BuildError missing)
       | Some f \<Rightarrow> run_with_history f e i')"

subsection \<open>FROM\<close>

definition make_stage_dirs :: "engine \<Rightarrow> nat \<Rightarrow> fault + path \<times> fs" where
  "make_stage_dirs e idx =
     (case descend_at True (e_fs e) (e_tmp e) [''stage-'' @ nat_str idx] of
        (Inl x, t) \<Rightarrow> Inl (BuildError (CannotWrite ''stage''))
      | (Inr d, t) \<Rightarrow>
          (case descend_at True t d [''rootfs''] of
             (Inl x, u) \<Rightarrow> Inl (BuildError (CannotWrite ''stage''))
           | (Inr r, u) \<Rightarrow> Inr (r, u)))"

text \<open>The layers of a stage applied in order to a rootfs. A blob that is gone is an error of the build.\<close>

definition apply_one :: "engine \<Rightarrow> path \<Rightarrow> layer \<Rightarrow> fs \<Rightarrow> fault + fs" where
  "apply_one e r l s =
     (case dict_get (e_blobs e) (ly_digest l) of
        None \<Rightarrow> Inl (BuildError (MissingLayer (ly_digest l)))
      | Some ms \<Rightarrow> (case extract_stream r 0 True s ms of (Inl x, t) \<Rightarrow> Inl (OSError x) | (Inr u, t) \<Rightarrow> Inr t))"

definition inherit_from_stage :: "engine \<Rightarrow> stage \<Rightarrow> stage \<Rightarrow> fs \<Rightarrow> fault + stage \<times> fs" where
  "inherit_from_stage e new parent s =
     bindR (foldR (apply_one e (s_root new)) (s_layers parent) s) (\<lambda>t.
       Inr (new\<lparr>s_doc := s_doc parent, s_layers := s_layers parent, s_parent := s_parent parent,
                s_base_ref := s_base_ref parent, s_base_id := s_base_id parent\<rparr>, t))"

definition json_int :: "json \<Rightarrow> int" where
  "json_int v = (case v of JNum t \<Rightarrow> (case py_int t of Some i \<Rightarrow> i | None \<Rightarrow> 0) | _ \<Rightarrow> 0)"

definition dict_str :: "jdict \<Rightarrow> string \<Rightarrow> string" where
  "dict_str d k = (case dict_get d k of Some v \<Rightarrow> jstr v | None \<Rightarrow> [])"

definition diff_ids :: "jdict \<Rightarrow> string list" where
  "diff_ids doc =
     (case jget doc ''rootfs'' of
        Some (JObj r) \<Rightarrow> (case jget r ''diff_ids'' of Some (JArr xs) \<Rightarrow> map jstr xs | _ \<Rightarrow> [])
      | _ \<Rightarrow> [])"

definition base_layer :: "string list \<Rightarrow> nat \<times> jdict \<Rightarrow> layer" where
  "base_layer ids = (\<lambda>(k, d).
     \<lparr>ly_digest = dict_str d ''digest'',
      ly_size = (case dict_get d ''size'' of Some v \<Rightarrow> json_int v | None \<Rightarrow> 0),
      ly_diff = (if k < length ids then ids ! k else dict_str d ''digest'')\<rparr>)"

definition pull_base_image :: "host \<Rightarrow> stage \<Rightarrow> string \<Rightarrow> fs \<Rightarrow> fault + stage \<times> fs" where
  "pull_base_image h new ref s =
     (case parse_reference ref of
        Inl x \<Rightarrow> Inl (BuildError (BadBase ref))
      | Inr x \<Rightarrow>
          (case h_pull h ref (s_root new) s of
             (None, t) \<Rightarrow> Inl (BuildError (PullFailed ref))
           | (Some b, t) \<Rightarrow>
               bindR (adopt_image_config (if truthy (b_config b) then b_config b else JObj [(''config'', JObj [])])) (\<lambda>doc.
                 let ls = map (base_layer (diff_ids doc)) (enumerate 0 (b_layers b))
                 in Inr (new\<lparr>s_doc := doc, s_layers := ls, s_base_ref := ref, s_base_id := b_id b,
                             s_parent := (if ls = [] then s_parent new else ly_digest (last ls))\<rparr>, t))))"

text \<open>What a stage takes over from its config: the variables of \<open>Env\<close>, directory, user and shell.\<close>

definition config_of :: "stage \<Rightarrow> jdict" where
  "config_of s = (case dict_get (s_doc s) ''config'' of Some (JObj d) \<Rightarrow> d | _ \<Rightarrow> [])"

definition config_list :: "stage \<Rightarrow> string \<Rightarrow> json list" where
  "config_list s k = (case dict_get (config_of s) k of Some (JArr xs) \<Rightarrow> xs | _ \<Rightarrow> [])"

definition seed_stage :: "stage \<Rightarrow> stage" where
  "seed_stage s =
     (let cfg = config_of s; wd = dict_str cfg ''WorkingDir''; us = dict_str cfg ''User''; sh = config_list s ''Shell''
      in s\<lparr>s_env := dict_update (List.map_filter env_entry (config_list s ''Env'')) (s_env s),
           s_workdir := (if wd = [] then s_workdir s else wd),
           s_user := (if us = [] then s_user s else us),
           s_shell := (if sh = [] then s_shell s else map jstr sh),
           s_args := [], s_declared := []\<rparr>)"

definition push_stage :: "stage \<Rightarrow> fs \<Rightarrow> engine \<Rightarrow> engine" where
  "push_stage s t e =
     e\<lparr>e_fs := write_hosts (write_resolv_conf t (s_root s)) (s_root s), e_stages := e_stages e @ [s],
       e_names := dict_set (nat_str (s_index s)) (length (e_stages e))
         (case s_name s of None \<Rightarrow> e_names e | Some n \<Rightarrow> dict_set n (length (e_stages e)) (e_names e))\<rparr>"

definition fire_trigger :: "device \<Rightarrow> host \<Rightarrow> json \<Rightarrow> engine \<Rightarrow> fault + engine" where
  "fire_trigger dv h trig e =
     bindR (syntax_fault (parse_dockerfile (jstr trig @ NL))) (\<lambda>(ds, is).
       foldR (\<lambda>i e. handle dv h (BadTrigger (i_name i)) e i) is e)"

definition fire_onbuild :: "device \<Rightarrow> host \<Rightarrow> engine \<Rightarrow> fault + engine" where
  "fire_onbuild dv h e =
     bindR (foldR (fire_trigger dv h) (config_list (the_stage e) ''OnBuild'') (e\<lparr>e_firing := True\<rparr>))
       (\<lambda>e'. Inr (e'\<lparr>e_firing := False\<rparr>))"

text \<open>The base of a new stage: nothing, an earlier stage, or a pulled image.\<close>

definition base_stage :: "host \<Rightarrow> engine \<Rightarrow> stage \<Rightarrow> string \<Rightarrow> fs \<Rightarrow> fault + stage \<times> fs" where
  "base_stage h e new ref s =
     (if str_lower ref = ''scratch'' then Inr (new\<lparr>s_doc := [(''config'', JObj [])]\<rparr>, s)
      else case dict_get (e_names e) ref of
          Some k \<Rightarrow> inherit_from_stage e new (e_stages e ! k) s
        | None \<Rightarrow> pull_base_image h new ref s)"

definition do_from :: "device \<Rightarrow> host \<Rightarrow> engine \<Rightarrow> instr \<Rightarrow> fault + engine" where
  "do_from dv h e i =
     (if e_target e \<noteq> [] \<and> e_stages e \<noteq> [] \<and> s_name (the_stage e) = Some (e_target e) then Inr (e\<lparr>e_stop := True\<rparr>)
      else
        bindR (expand_for_from e False (case i_value i of VText t \<Rightarrow> VText t | v \<Rightarrow> VText [])) (\<lambda>v.
          case from_match v of
            None \<Rightarrow> Inl (BuildError (BadFrom (i_lineno i)))
          | Some (ref, name) \<Rightarrow>
              (let idx = length (e_stages e) in
               bindR (make_stage_dirs e idx) (\<lambda>(r, t).
               bindR (base_stage h e (new_stage idx name r) ref t) (\<lambda>(s, u).
                 fire_onbuild dv h (push_stage (seed_stage s) u e))))))"

subsection \<open>The walk\<close>

definition dispatch :: "device \<Rightarrow> host \<Rightarrow> engine \<Rightarrow> instr \<Rightarrow> fault + engine" where
  "dispatch dv h e i =
     (if i_name i = ''FROM'' then do_from dv h e i
      else if e_stages e = [] then
        (if i_name i = ''ARG'' then Inr e else Inl (BuildError (BeforeFrom (i_name i) (i_lineno i))))
      else if i_name i = ''ONBUILD'' then bindR (do_onbuild e i) (record_history i False)
      else handle dv h (Unsupported (i_name i) (i_lineno i)) e i)"

fun run_steps :: "device \<Rightarrow> host \<Rightarrow> instr list \<Rightarrow> engine \<Rightarrow> fault + engine" where
  "run_steps dv h [] e = Inr e"
| "run_steps dv h (i # is) e =
     bindR (dispatch dv h e i) (\<lambda>e'. if e_stop e' then Inr e' else run_steps dv h is e')"

definition target :: "engine \<Rightarrow> fault + stage" where
  "target e =
     (if e_target e \<noteq> [] then
        (case dict_get (e_names e) (e_target e) of
           None \<Rightarrow> Inl (BuildError (TargetNotBuilt (e_target e)))
         | Some k \<Rightarrow> Inr (e_stages e ! k))
      else Inr (the_stage e))"

definition run_build :: "device \<Rightarrow> host \<Rightarrow> instr list \<Rightarrow> engine \<Rightarrow> fault + stage \<times> engine" where
  "run_build dv h is e =
     bindR (prescan is e) (\<lambda>e0.
     bindR (run_steps dv h is e0) (\<lambda>e'.
       if e_stages e' = [] then Inl (BuildError NoFrom)
       else bindR (target e') (\<lambda>s. Inr (s, e'))))"

end
