(* ===== verification/Copy_Props.thy ===== *)
theory Copy_Props
  imports Build_Copy Handler_Props
begin

text \<open>
  What COPY and ADD can reach: the stage's rootfs, the spool and the directory of a pulled image, each
  below the build's scratch root, and no byte of a file that existed before. The surroundings enter
  through \<open>host_ok\<close>: digests and random names without a slash, and a registry client that unpacks below
  the directory it is given.
\<close>

definition host_ok :: "host \<Rightarrow> bool" where
  "host_ok h \<longleftrightarrow> (\<forall>n. no_slash (h_rand h n)) \<and> (\<forall>t. no_slash (h_hash h t))
     \<and> (\<forall>ref d t. safe_step d t (snd (h_pull h ref d t)))"

text \<open>Steps below any of a list of directories.\<close>

definition only_under :: "path list \<Rightarrow> fs \<Rightarrow> fs \<Rightarrow> bool" where
  "only_under rs s t \<longleftrightarrow> keeps_bytes s t \<and> (wf_fs s \<longrightarrow> wf_fs t)
     \<and> (\<forall>q. list_all (\<lambda>r. \<not> prefix r q) rs \<longrightarrow> node_at t q = node_at s q)"

lemma only_under_refl [simp]: "only_under rs s s"
  by (simp add: only_under_def keeps_bytes_def)

lemma only_under_trans: "only_under rs s t \<Longrightarrow> only_under rs t u \<Longrightarrow> only_under rs s u"
  unfolding only_under_def using keeps_bytes_trans by metis

lemma only_under_step: "safe_step r s t \<Longrightarrow> r \<in> set rs \<Longrightarrow> only_under rs s t"
  by (auto simp: only_under_def safe_step_def ft.beyond_def list_all_iff)

lemma only_under_mono: "only_under rs s t \<Longrightarrow> set rs \<subseteq> set qs \<Longrightarrow> only_under qs s t"
  by (auto simp: only_under_def list_all_iff)

lemma only_under_wf: "only_under rs s t \<Longrightarrow> wf_fs s \<Longrightarrow> wf_fs t"
  by (simp add: only_under_def)

subsection \<open>The spool\<close>

lemma nat_str_no_slash: "no_slash (nat_str n)"
proof (induction n rule: nat_str.induct)
  case (1 n)
  have d: "char_of (48 + k) \<noteq> CHR ''/''" if "k < 10" for k :: nat
  proof
    assume "char_of (48 + k) = CHR ''/''"
    then have "(of_char (char_of (48 + k) :: char) :: nat) = of_char (CHR ''/'')" by simp
    then have "(48 + k) mod 256 = 47" by (simp only: of_char_of) simp
    with that show False by simp
  qed
  have "n mod 10 < 10" by simp
  then have "CHR ''/'' \<noteq> char_of (48 + n mod 10)" "n < 10 \<Longrightarrow> CHR ''/'' \<noteq> char_of (48 + n)" by (metis d)+
  with 1 show ?case by (subst nat_str.simps) (auto simp: no_slash_def)
qed

lemma spool_name_plain:
  assumes "host_ok h"
  shows "plain_name (''add-'' @ nat_str n @ ''.'' @ h_rand h n)"
  using assms nat_str_no_slash [of n] by (auto simp: plain_name_def no_slash_def host_ok_def)

lemma spool_file_safe:
  assumes "spool_file h sp arc bytes mode ow mtime c = Inr c'" and "host_ok h"
  shows "safe_step sp (rc_fs c) (rc_fs c')"
proof -
  let ?n = "''add-'' @ nat_str (Suc (rc_seq c)) @ ''.'' @ h_rand h (Suc (rc_seq c))"
  have pn: "plain_name ?n" using assms(2) by (rule spool_name_plain)
  from assms(1) obtain i t where o: "open_new_at (rc_fs c) sp ?n 384 = Inr (i, t)"
    and c': "c' = spool_entry sp arc ?n mode ow mtime
        (c\<lparr>rc_fs := write_inode i ((f_data t i)\<lparr>fd_bytes := bytes\<rparr>) t, rc_seq := Suc (rc_seq c)\<rparr>)"
    by (auto simp: spool_file_def spool_stream_def Let_def split: sum.splits prod.splits)
  let ?w = "write_inode i ((f_data t i)\<lparr>fd_bytes := bytes\<rparr>) t"
  note op = safe_open_new [OF o pn prefix_order.refl]
  have w: "safe_step sp (rc_fs c) ?w"
    using op(1,2) by (auto simp: safe_step_def ft.beyond_def keeps_bytes_def)
  have "rc_fs c' = ?w \<or> utime_at ?w sp ?n mtime = Inr (rc_fs c')"
    unfolding c' by (auto simp: spool_entry_def record_at_def split: sum.splits)
  with w pn show ?thesis using safe_trans safe_utime prefix_order.refl by metis
qed

lemma extract_member_safe:
  assumes "extract_member h sp dest ow m (n, c) = Inr (n', c')" and "host_ok h"
  shows "safe_step sp (rc_fs c) (rc_fs c')"
  using assms(1) spool_file_safe [OF _ assms(2)]
  by (auto simp: extract_member_def record_at_def Let_def split: option.splits member_kind.splits)

lemma extract_tar_safe:
  assumes "extract_tar_into_dest h sp dest ow src complete ms c = Inr (n, c')" and "host_ok h"
  shows "safe_step sp (rc_fs c) (rc_fs c')"
proof -
  let ?f = "extract_member h sp (if ends_slash dest then dest else dest @ ''/'') ow"
  from assms(1) have "foldR ?f ms (0, c) = Inr (n, c')"
    by (auto simp: extract_tar_into_dest_def split: if_splits)
  then have "safe_step sp (rc_fs c) (rc_fs (snd (n, c')))"
  proof (rule foldR_invariant [where P = "\<lambda>x. safe_step sp (rc_fs c) (rc_fs (snd x))", rotated])
    show "safe_step sp (rc_fs c) (rc_fs (snd (0, c)))" by simp
  next
    fix m x y
    assume "safe_step sp (rc_fs c) (rc_fs (snd x))" and "?f m x = Inr y"
    then show "safe_step sp (rc_fs c) (rc_fs (snd y))"
      using extract_member_safe [OF _ assms(2)] by (cases x; cases y) (auto intro: safe_trans)
  qed
  then show ?thesis by simp
qed

subsection \<open>Recording leaves the disk to the spool\<close>

lemma add_tree_fs [simp]: "rc_fs (add_tree k ignore root base dest src_rel ow d rel names c) = rc_fs c"
  by (induction k ignore root base dest src_rel ow d rel names c rule: add_tree.induct)
    (auto simp: record_at_def Let_def split: sum.splits node.splits if_splits)

lemma add_directory_tree_fs [simp]: "rc_fs (add_directory_tree ignore root parts dest src_rel ow c) = rc_fs c"
  by (simp add: add_directory_tree_def Let_def split: sum.splits)

lemma extract_archive_safe:
  assumes "extract_archive h sp root parts dest ow c = Inr (b, c')" and "host_ok h"
  shows "safe_step sp (rc_fs c) (rc_fs c')"
  using assms(1) extract_tar_safe [OF _ assms(2)]
  by (auto simp: extract_archive_def Let_def split: sum.splits if_splits prod.splits)

lemma add_to_file_map_safe:
  assumes "add_to_file_map h sp root ignore ae dest idd ow x c = Inr c'" and "host_ok h"
  shows "safe_step sp (rc_fs c) (rc_fs c') \<and> (\<not> ae \<longrightarrow> rc_fs c' = rc_fs c)"
  using assms(1) extract_archive_safe [OF _ assms(2)]
  by (cases x) (auto simp: add_to_file_map_def record_at_def split: node.splits if_splits)

lemma record_source_safe:
  assumes "record_source h e add from sp dest idd ow src c = Inr c'" and "host_ok h"
  shows "safe_step sp (rc_fs c) (rc_fs c') \<and> (\<not> add \<longrightarrow> rc_fs c' = rc_fs c)"
proof -
  have f: "safe_step sp (rc_fs c) (rc_fs c') \<and> (\<not> ae \<longrightarrow> rc_fs c' = rc_fs c)"
    if "foldR (add_to_file_map h sp root ig ae d b ow) xs c = Inr c'" for root ig ae d b xs
    using that
  proof (rule foldR_invariant [where P = "\<lambda>x. safe_step sp (rc_fs c) (rc_fs x) \<and> (\<not> ae \<longrightarrow> rc_fs x = rc_fs c)", rotated])
    fix x s t
    assume "safe_step sp (rc_fs c) (rc_fs s) \<and> (\<not> ae \<longrightarrow> rc_fs s = rc_fs c)"
      and "add_to_file_map h sp root ig ae d b ow x s = Inr t"
    then show "safe_step sp (rc_fs c) (rc_fs t) \<and> (\<not> ae \<longrightarrow> rc_fs t = rc_fs c)"
      using add_to_file_map_safe [OF _ assms(2)] by (metis safe_trans)
  qed simp
  have u: "safe_step sp (rc_fs c) (rc_fs c')" if "copy_url h sp src dest ow c = Inr c'"
    using that spool_file_safe [OF _ assms(2)] by (auto simp: copy_url_def split: option.splits)
  show ?thesis
    using assms f u add_to_file_map_safe [OF _ assms(2)]
    by (fastforce simp: record_source_def copy_from_rootfs_def copy_from_context_def Let_def
        split: option.splits if_splits)
qed

lemma record_sources_safe:
  assumes "foldR (record_source h e add from sp dest idd ow) srcs c = Inr c'" and "host_ok h"
  shows "safe_step sp (rc_fs c) (rc_fs c') \<and> (\<not> add \<longrightarrow> rc_fs c' = rc_fs c)"
  using assms(1)
proof (rule foldR_invariant [where P = "\<lambda>x. safe_step sp (rc_fs c) (rc_fs x) \<and> (\<not> add \<longrightarrow> rc_fs x = rc_fs c)", rotated])
  fix x s t
  assume "safe_step sp (rc_fs c) (rc_fs s) \<and> (\<not> add \<longrightarrow> rc_fs s = rc_fs c)"
    and "record_source h e add from sp dest idd ow x s = Inr t"
  then show "safe_step sp (rc_fs c) (rc_fs t) \<and> (\<not> add \<longrightarrow> rc_fs t = rc_fs c)"
    using record_source_safe [OF _ assms(2)] by (metis safe_trans)
qed simp

subsection \<open>Writing the map\<close>

lemma layer_parts_plain:
  assumes "layer_path_parts arc = Some parts"
  shows "list_all plain_name parts" and "parts \<noteq> []"
proof -
  from assms have p: "parts = filter (\<lambda>p. p \<noteq> [] \<and> p \<noteq> ''.'') (split_on CHR ''/'' arc)" "parts \<noteq> []" "''..'' \<notin> set parts"
    by (auto simp: layer_path_parts_def Let_def split: if_splits)
  with split_no_slash [of arc] show "list_all plain_name parts"
    by (auto simp: list_all_iff plain_name_def no_slash_def)
  show "parts \<noteq> []" by (fact p(2))
qed

lemma write_dir_entry_safe:
  assumes "write_dir_entry s d n m arc = (res, t)" and "plain_name n" and "prefix r d"
  shows "safe_step r s t"
proof -
  define s1 where "s1 = (case lstat_at s d n of Inr (NLink g t) \<Rightarrow> drop_entry_at s d n | _ \<Rightarrow> s)"
  have 1: "safe_step r s s1"
    unfolding s1_def drop_entry_at_def using safe_unlink_quietly [OF assms(2,3)] by (auto split: sum.splits node.splits)
  have ch: "safe_step r u (snd (chmod_at u d n m True))" for u
    using safe_chmod [of u d n m True _ _ r] assms(2,3) by (metis prod.collapse)
  show ?thesis
  proof (cases "mkdir_at s1 d n 511")
    case (Inr s2)
    with assms have "t = snd (chmod_at s2 d n m True)" by (simp add: write_dir_entry_def s1_def)
    with ch safe_mkdir [OF Inr assms(3)] 1 show ?thesis using safe_trans by blast
  next
    case (Inl e)
    with assms have "t = s1 \<or> t = snd (chmod_at s1 d n m True)"
      by (auto simp: write_dir_entry_def s1_def [symmetric] Let_def split: if_splits sum.splits node.splits)
    with ch 1 show ?thesis using safe_trans by blast
  qed
qed

lemma write_link_entry_safe:
  assumes "write_link_entry s d n target arc = (res, t)" and "plain_name n" and "prefix r d"
  shows "safe_step r s t"
  using assms safe_trans [OF safe_unlink_quietly [OF assms(2,3)] safe_symlink]
  by (auto simp: write_link_entry_def drop_entry_at_def Let_def split: sum.splits intro: safe_unlink_quietly)

lemma write_file_entry_safe:
  assumes "write_file_entry s d n root rel mode arc = (res, t)" and "plain_name n" and "prefix r d"
  shows "safe_step r s t"
proof (cases "t = s")
  case False
  with assms(1) obtain i j u where o: "open_new_at s d n mode = Inr (j, u)"
    and t: "t = write_inode j ((f_data u j)\<lparr>fd_bytes := fd_bytes (f_data s i), fd_mode := mode\<rparr>) u"
    by (auto simp: write_file_entry_def split: sum.splits prod.splits)
  note op = safe_open_new [OF o assms(2,3)]
  then show ?thesis by (auto simp: t safe_step_def ft.beyond_def keeps_bytes_def)
qed simp

lemma materialise_entry_safe:
  assumes "materialise_entry s d n m arc = (res, t)" and "plain_name n" and "prefix r d"
  shows "safe_step r s t"
  using assms write_dir_entry_safe write_link_entry_safe write_file_entry_safe
  by (cases m) (auto simp: materialise_entry_def)

lemma materialise_one_safe:
  assumes "materialise_one r s x = (res, t)"
  shows "safe_step r s t"
proof (cases "t = s")
  case False
  with assms obtain parts resolved where p: "layer_path_parts (fst x) = Some parts"
    and q: "safe_resolve_parts s r (butlast parts) = Some resolved"
    by (auto simp: materialise_one_def split: option.splits)
  note pl = layer_parts_plain [OF p]
  have ends: "list_all plain_name (butlast parts)" "plain_name (last parts)"
    using plain_ends [OF pl] by auto
  then have "list_all no_slash (butlast parts)" by (auto simp: list_all_iff plain_name_def no_slash_def)
  with q have res: "list_all plain_name resolved" by (rule safe_resolve_plain)
  obtain o1 u where d: "descend_at True s r resolved = (o1, u)" by (cases "descend_at True s r resolved")
  note ds = descend_safe [OF d res prefix_order.refl]
  show ?thesis
  proof (cases o1)
    case (Inl e)
    with assms p q d have "t = u" by (simp add: materialise_one_def)
    with ds show ?thesis by simp
  next
    case (Inr p')
    with assms p q d have "materialise_entry u p' (last parts) (snd x) (fst x) = (res, t)"
      by (simp add: materialise_one_def)
    moreover have "prefix r p'" using ds Inr by (auto simp: prefix_def)
    ultimately show ?thesis using materialise_entry_safe ends(2) ds safe_trans by blast
  qed
qed simp

lemma materialise_all_safe: "materialise_all r s xs = (res, t) \<Longrightarrow> safe_step r s t"
proof (induction xs arbitrary: s)
  case (Cons x xs)
  obtain o1 u where m: "materialise_one r s x = (o1, u)" by (cases "materialise_one r s x")
  note materialise_one_safe [OF m]
  with Cons m show ?case by (cases o1) (auto intro: safe_trans)
qed simp

subsection \<open>The instruction\<close>

definition copy_roots :: "host \<Rightarrow> engine \<Rightarrow> instr \<Rightarrow> path list" where
  "copy_roots h e i =
     [s_root (the_stage e), e_tmp e @ [''add-spool''],
      e_tmp e @ [''copyfrom-'' @ take 16 (h_hash h (from_flag i))]]"

lemma open_scratch_only:
  assumes "descend_at True s tmp [n] = (res, t)" and "plain_name n" and "tmp @ [n] \<in> set rs"
  shows "only_under rs s t \<and> (\<forall>p. res = Inr p \<longrightarrow> p = tmp @ [n])"
proof -
  have "safe_step (tmp @ [n]) s t"
  proof (cases "opendir_at s tmp n")
    case (Inr p)
    with assms(1) show ?thesis by (simp add: open_level_def)
  next
    case (Inl e)
    have "safe_step (tmp @ [n]) s u" if "mkdir_at s tmp n 511 = Inr u" for u
      using that assms(2) by (auto simp: mkdir_at_def at_plain is_dir_def split: if_splits intro!: safe_put wf_put)
    with assms(1) Inl show ?thesis by (auto simp: open_level_def split: if_splits sum.splits)
  qed
  from only_under_step [OF this assms(3)] have "only_under rs s t" .
  moreover have "\<forall>p. res = Inr p \<longrightarrow> p = tmp @ [n]"
    using assms(1,2) open_level_safe [of True s tmp n res t tmp] by simp
  ultimately show ?thesis by simp
qed

lemma from_tree_only:
  assumes "from_tree h e from = (res, t)" and "host_ok h"
    and "e_tmp e @ [''copyfrom-'' @ take 16 (h_hash h from)] \<in> set rs"
  shows "only_under rs (e_fs e) t"
proof -
  let ?n = "''copyfrom-'' @ take 16 (h_hash h from)"
  have pn: "plain_name ?n"
    using assms(2) by (auto simp: plain_name_def no_slash_def host_ok_def dest: in_set_takeD)
  show ?thesis
  proof (cases "t = e_fs e")
    case False
    obtain o1 u where d: "descend_at True (e_fs e) (e_tmp e) [?n] = (o1, u)"
      by (cases "descend_at True (e_fs e) (e_tmp e) [?n]")
    note sc = open_scratch_only [OF d pn assms(3)]
    from assms(1) False d have "t = u \<or> (\<exists>p. o1 = Inr p \<and> t = snd (h_pull h from p u))"
      by (auto simp: from_tree_def pull_throwaway_image_def open_scratch_dir_def simp del: descend_at.simps
          split: option.splits sum.splits if_splits prod.splits)
    moreover have "only_under rs u (snd (h_pull h from p u))" if "o1 = Inr p" for p
      using that sc assms(2,3) only_under_step unfolding host_ok_def by metis
    ultimately show ?thesis using sc only_under_trans by blast
  qed simp
qed

lemma gather_only:
  assumes "gather_files h add e i = Inr c" and "host_ok h"
  shows "only_under (copy_roots h e i) (e_fs e) (rc_fs c)"
proof -
  let ?rs = "copy_roots h e i"
  from assms(1) obtain tokens root t ow sp u where r: "source_root h e i = (Inr root, t)"
    and sp: "open_spool (e\<lparr>e_fs := t\<rparr>) add = (Inr sp, u)"
    and f: "foldR (record_source h e add root sp (copy_dest (the_stage e) (last tokens))
         (ends_slash (last tokens) \<or> 2 < length tokens) ow) (butlast tokens) \<lparr>rc_fs = u, rc_map = [], rc_seq = 0\<rparr> = Inr c"
  proof -
    obtain o1 t where r0: "source_root h e i = (o1, t)" by (cases "source_root h e i")
    with assms(1) obtain root where o1: "o1 = Inr root" by (cases o1) (auto simp: gather_files_def)
    obtain o2 u where s0: "open_spool (e\<lparr>e_fs := t\<rparr>) add = (o2, u)" by (cases "open_spool (e\<lparr>e_fs := t\<rparr>) add")
    with assms(1) r0 o1 obtain sp where o2: "o2 = Inr sp" by (cases o2) (auto simp: gather_files_def)
    from assms(1) r0 o1 s0 o2 that show ?thesis by (auto simp: gather_files_def)
  qed
  have t: "only_under ?rs (e_fs e) t"
  proof (cases "from_flag i = []")
    case False
    obtain o1 t' where ft: "from_tree h e (from_flag i) = (o1, t')" by (cases "from_tree h e (from_flag i)")
    with r False have "t' = t" by (auto simp: source_root_def split: sum.splits)
    with from_tree_only [OF ft assms(2), of ?rs] show ?thesis by (simp add: copy_roots_def)
  qed (use r in \<open>simp add: source_root_def\<close>)
  have s: "only_under ?rs t u \<and> (add \<longrightarrow> sp \<in> set ?rs)"
  proof (cases add)
    case True
    obtain o1 u' where d: "descend_at True t (e_tmp e) [''add-spool''] = (o1, u')"
      by (cases "descend_at True t (e_tmp e) [''add-spool'']")
    from sp True d have "o1 = Inr sp" "u' = u"
      by (auto simp: open_spool_def open_scratch_dir_def simp del: descend_at.simps split: sum.splits)
    with open_scratch_only [OF d, of ?rs] show ?thesis
      by (simp add: copy_roots_def plain_name_def)
  qed (use sp in \<open>simp add: open_spool_def\<close>)
  have g: "safe_step sp u (rc_fs c) \<and> (\<not> add \<longrightarrow> rc_fs c = u)"
    using record_sources_safe [OF f assms(2)] by simp
  have "only_under ?rs u (rc_fs c)"
  proof (cases add)
    case True
    with g s show ?thesis using only_under_step by blast
  qed (use g in simp)
  with t s show ?thesis using only_under_trans by blast
qed

lemma emit_layer_fs [simp]: "e_fs (emit_layer h ms e) = e_fs e"
  by (simp add: emit_layer_def Let_def)

lemma copy_or_add_only:
  assumes "do_copy_or_add h add e i = Inr e'" and "host_ok h"
  shows "only_under (copy_roots h e i) (e_fs e) (e_fs e')"
proof -
  from assms(1) obtain c where g: "gather_files h add e i = Inr c"
    and r: "(if rc_map c = [] then Inr (e\<lparr>e_fs := rc_fs c\<rparr>)
       else case materialise_files (s_root (the_stage e)) (rc_fs c) (rc_map c) of
           (Inl x, t) \<Rightarrow> Inl x
         | (Inr u, t) \<Rightarrow> Inr (emit_layer h (write_files_layer t (rc_map c)) (e\<lparr>e_fs := t\<rparr>))) = Inr e'"
    by (auto simp: do_copy_or_add_def)
  obtain o1 t where m: "materialise_files (s_root (the_stage e)) (rc_fs c) (rc_map c) = (o1, t)"
    by (cases "materialise_files (s_root (the_stage e)) (rc_fs c) (rc_map c)")
  have "safe_step (s_root (the_stage e)) (rc_fs c) t"
    using m unfolding materialise_files_def by (rule materialise_all_safe)
  then have "only_under (copy_roots h e i) (rc_fs c) t" by (rule only_under_step) (simp add: copy_roots_def)
  moreover have "e_fs e' = rc_fs c \<or> e_fs e' = t"
  proof (cases "rc_map c = []")
    case False
    with r m have "emit_layer h (write_files_layer t (rc_map c)) (e\<lparr>e_fs := t\<rparr>) = e'" by (cases o1) simp_all
    then have "e_fs e' = e_fs (emit_layer h (write_files_layer t (rc_map c)) (e\<lparr>e_fs := t\<rparr>))" by simp
    then show ?thesis by simp
  next
    case True
    with r have "e\<lparr>e_fs := rc_fs c\<rparr> = e'" by simp
    then have "e_fs e' = e_fs (e\<lparr>e_fs := rc_fs c\<rparr>)" by simp
    then show ?thesis by simp
  qed
  ultimately show ?thesis using gather_only [OF g assms(2)] by (auto elim: only_under_trans)
qed


text \<open>A small build: a context with one file, a rootfs whose \<open>dst\<close> is a link to the host.\<close>

definition copy_host :: host where
  "copy_host = \<lparr>h_environ = [], h_termux = False, h_pull = (\<lambda>r p s. (None, s)),
     h_pack = (\<lambda>ms. \<lparr>ly_digest = nat_str (length ms), ly_size = 0, ly_diff = []\<rparr>), h_proot = (\<lambda>r s. (0, s)),
     h_hash = (\<lambda>t. []), h_members = (\<lambda>b. (False, [])), h_fetch = (\<lambda>u. None), h_rand = (\<lambda>n. []), h_now = 0,
     h_l2s = no_l2s, h_l2s_file = (\<lambda>r t. None)\<rparr>"

definition copy_engine :: "(path \<times> node) list \<Rightarrow> engine" where
  "copy_engine ents =
     \<lparr>e_fs = sample_fs ents, e_blobs = [], e_index = [], e_stages = [new_stage 0 None [''t'', ''r'']], e_names = [],
      e_global = [], e_declared_global = [], e_stop = False, e_firing = False, e_tmp = [''t''], e_context = [''c''],
      e_user_args = [], e_target = [], e_no_cache = False, e_target_arch = [], e_host_arch = [], e_ignore = []\<rparr>"

lemma copy_host_ok: "host_ok copy_host"
  by (simp add: host_ok_def copy_host_def no_slash_def)

definition copy_sample :: engine where
  "copy_sample = copy_engine
     [([], NDir 493 0), ([''h''], NDir 493 0), ([''c''], NDir 493 0), ([''c'', ''f''], NFile 1),
      ([''t''], NDir 493 0), ([''t'', ''r''], NDir 493 0), ([''t'', ''r'', ''dst''], NLink ''/h'' 0)]"

definition copy_instr :: instr where
  "copy_instr = Instr ''COPY'' [] (VArgv [''f'', ''/dst/'']) True [] 1 []"


text \<open>
  The layer of a COPY names every directory above an entry as the instruction wrote it, with mode 0755.
  The sample image has the merged layout (\<open>bin\<close> is a link to \<open>usr/bin\<close>) and a sticky \<open>tmp\<close>.
\<close>

definition merged_image :: "(path \<times> node) list" where
  "merged_image =
     [([], NDir 493 0), ([''c''], NDir 493 0), ([''c'', ''f''], NFile 1),
      ([''t''], NDir 493 0), ([''t'', ''r''], NDir 493 0), ([''t'', ''r'', ''tmp''], NDir 1023 0),
      ([''t'', ''r'', ''usr''], NDir 493 0), ([''t'', ''r'', ''usr'', ''bin''], NDir 493 0),
      ([''t'', ''r'', ''usr'', ''bin'', ''sh''], NFile 2), ([''t'', ''r'', ''bin''], NLink ''usr/bin'' 0)]"

definition copied_layer :: "string \<Rightarrow> fs \<times> fs" where
  "copied_layer dest =
     (let e = copy_engine merged_image; i = Instr ''COPY'' [] (VArgv [''f'', dest]) True [] 1 [] in
      case do_copy copy_host e i of
        Inl x \<Rightarrow> (e_fs e, e_fs e)
      | Inr e' \<Rightarrow>
          (e_fs e', snd (extract_stream [''t'', ''r''] 0 True (e_fs e) (snd (hd (e_blobs e'))))))"

text \<open>Copying a file to a path below a linked directory gives a layer that does not rebuild the tree the
  build went on with: in the build's rootfs \<open>bin\<close> is still the link and the file is in \<open>usr/bin\<close>; in the
  rootfs the layer is applied to, the link has become a directory that holds the copied file alone, and
  \<open>/bin/sh\<close> is gone. Copying into \<open>/tmp\<close> takes its sticky bit away in the same manner.\<close>

theorem copy_below_link_breaks_layer:
  "(case copied_layer ''/bin/f'' of (built, applied) \<Rightarrow>
      node_at built [''t'', ''r'', ''bin''] = Some (NLink ''usr/bin'' 0)
      \<and> node_at built [''t'', ''r'', ''usr'', ''bin'', ''f''] \<noteq> None
      \<and> node_at applied [''t'', ''r'', ''bin''] = Some (NDir 493 0)
      \<and> listdir_at applied [''t'', ''r'', ''bin''] = [''f'']
      \<and> node_at applied [''t'', ''r'', ''usr'', ''bin'', ''f''] = None)
   \<and> (case copied_layer ''/tmp/f'' of (built, applied) \<Rightarrow>
      node_at built [''t'', ''r'', ''tmp''] = Some (NDir 1023 0) \<and> node_at applied [''t'', ''r'', ''tmp''] = Some (NDir 493 0))"
  by code_simp

end
