(* ===== verification/Engine_Props.thy ===== *)
theory Engine_Props
  imports Build_Engine Copy_Props
begin

text \<open>
  Properties of a whole build. The locale states what an assertion on the engine has to satisfy at each
  place where the walk changes the engine; inside it the walk itself is handled once. Its
  interpretations give the shape of the image config, the balance of layers and history, and the
  confinement of the build.
\<close>

definition outcome :: "('a \<Rightarrow> bool) \<Rightarrow> (fault \<Rightarrow> bool) \<Rightarrow> fault + 'a \<Rightarrow> bool" where
  "outcome P F r \<longleftrightarrow> (case r of Inr x \<Rightarrow> P x | Inl f \<Rightarrow> F f)"

lemma outcome_simps [simp]: "outcome P F (Inr x) = P x" "outcome P F (Inl f) = F f"
  by (simp_all add: outcome_def)

lemma outcome_bind:
  "outcome (\<lambda>x. outcome P F (g x)) F r \<Longrightarrow> outcome P F (bindR r g)"
  by (cases r) simp_all

lemma outcome_mono: "outcome P F r \<Longrightarrow> (\<And>x. P x \<Longrightarrow> Q x) \<Longrightarrow> (\<And>f. F f \<Longrightarrow> G f) \<Longrightarrow> outcome Q G r"
  by (cases r) simp_all

lemma outcome_foldR:
  assumes "P s" and "\<And>x s. x \<in> set xs \<Longrightarrow> P s \<Longrightarrow> outcome P F (f x s)"
  shows "outcome P F (foldR f xs s)"
  using assms
proof (induction xs arbitrary: s)
  case (Cons x xs)
  have "outcome P F (f x s)" using Cons.prems by simp
  then have "outcome (\<lambda>t. outcome P F (foldR f xs t)) F (f x s)"
    by (rule outcome_mono) (use Cons in auto)
  then show ?case by (simp add: outcome_bind)
qed simp

definition from_stage_result :: "host \<Rightarrow> engine \<Rightarrow> string \<Rightarrow> string option \<Rightarrow> fault + stage \<times> fs" where
  "from_stage_result h e ref name =
     bindR (make_stage_dirs e (length (e_stages e))) (\<lambda>(r, t). base_stage h e (new_stage (length (e_stages e)) name r) ref t)"

locale engine_rule =
  fixes dv :: device and h :: host and P :: "engine \<Rightarrow> bool" and F :: "fault \<Rightarrow> bool"
  assumes handler: "\<And>e n f i. P e \<Longrightarrow> e_stages e \<noteq> [] \<Longrightarrow> dict_get (HANDLERS dv h) n = Some f \<Longrightarrow> outcome P F (run_with_history f e i)"
    and onbuild: "\<And>e i. P e \<Longrightarrow> e_stages e \<noteq> [] \<Longrightarrow> outcome P F (bindR (do_onbuild e i) (record_history i False))"
    and new_base: "\<And>e ref name. P e \<Longrightarrow> outcome (\<lambda>(s, u). P (push_stage (seed_stage s) u e)) F (from_stage_result h e ref name)"
    and grows: "\<And>e n f i e'. P e \<Longrightarrow> e_stages e \<noteq> [] \<Longrightarrow> run_with_history f e i = Inr e' \<Longrightarrow> dict_get (HANDLERS dv h) n = Some f \<Longrightarrow> e_stages e' \<noteq> []"
    and firing: "\<And>e b. P e \<Longrightarrow> P (e\<lparr>e_firing := b\<rparr>)"
    and stop: "\<And>e b. P e \<Longrightarrow> P (e\<lparr>e_stop := b\<rparr>)"
    and build_error: "\<And>b. F (BuildError b)"
    and syntax_error: "\<And>x. F (SyntaxFault x)"
begin

definition with_stage :: "engine \<Rightarrow> bool" where
  "with_stage e \<longleftrightarrow> P e \<and> e_stages e \<noteq> []"

lemma expand_if_fault: "expand_if h e i = Inl x \<Longrightarrow> \<exists>y. x = SyntaxFault y"
proof -
  have f: "expand_flag env kt = Inl x \<Longrightarrow> \<exists>y. x = SyntaxFault y" for env kt
    by (auto simp: expand_flag_def syntax_fault_def split: sum.splits prod.splits)
  have v: "expand_value env v = Inl x \<Longrightarrow> \<exists>y. x = SyntaxFault y" for env v
    by (auto simp: expand_value_def syntax_fault_def split: sum.splits ivalue.splits)
  have m: "mapR (expand_flag env) fl = Inl x \<Longrightarrow> \<exists>y. x = SyntaxFault y" for env fl
    by (induction fl) (auto simp: bindR_Inl_iff dest: f)
  show "expand_if h e i = Inl x \<Longrightarrow> ?thesis"
    by (auto simp: expand_if_def expand_instruction_def Let_def bindR_Inl_iff split: if_splits dest: m v)
qed

lemma handle_outcome:
  assumes "with_stage e"
  shows "outcome with_stage F (handle dv h (BadTrigger n) e i)" and "outcome with_stage F (handle dv h (Unsupported n l) e i)"
proof -
  have "outcome with_stage F (handle dv h m e i)" for m
  proof (cases "expand_if h e i")
    case (Inl x)
    with expand_if_fault [OF Inl] show ?thesis by (auto simp: handle_def syntax_error)
  next
    case (Inr i')
    show ?thesis
    proof (cases "dict_get (HANDLERS dv h) (i_name i')")
      case (Some f)
      from assms have P: "P e" "e_stages e \<noteq> []" by (simp_all add: with_stage_def)
      note o = handler [OF P Some, of i']
      have "outcome with_stage F (run_with_history f e i')"
      proof (cases "run_with_history f e i'")
        case (Inr e')
        from grows [OF P Inr Some] o Inr show ?thesis by (simp add: with_stage_def)
      qed (use o in simp)
      with Some Inr show ?thesis by (simp add: handle_def)
    qed (simp add: handle_def Inr build_error)
  qed
  then show "outcome with_stage F (handle dv h (BadTrigger n) e i)" and "outcome with_stage F (handle dv h (Unsupported n l) e i)"
    by blast+
qed

lemma fire_outcome: "with_stage e \<Longrightarrow> outcome with_stage F (fire_onbuild dv h e)"
proof -
  assume w: "with_stage e"
  have t: "outcome with_stage F (fire_trigger dv h trig e)" if "with_stage e" for trig e
  proof (cases "parse_dockerfile (jstr trig @ NL)")
    case (Inl x)
    then show ?thesis by (simp add: fire_trigger_def syntax_fault_def syntax_error)
  next
    case (Inr r)
    obtain ds ins where r: "r = (ds, ins)" by (cases r)
    have "outcome with_stage F (foldR (\<lambda>i e. handle dv h (BadTrigger (i_name i)) e i) ins e)"
      using that by (rule outcome_foldR) (rule handle_outcome)
    with Inr r show ?thesis by (simp add: fire_trigger_def syntax_fault_def)
  qed
  have "with_stage (e\<lparr>e_firing := True\<rparr>)" using w firing by (simp add: with_stage_def)
  then have "outcome with_stage F (foldR (fire_trigger dv h) (config_list (the_stage e) ''OnBuild'') (e\<lparr>e_firing := True\<rparr>))"
    by (rule outcome_foldR) (rule t)
  then show ?thesis
    unfolding fire_onbuild_def
    by (intro outcome_bind, rule outcome_mono) (auto simp: with_stage_def firing)
qed

lemma from_outcome: "P e \<Longrightarrow> outcome P F (do_from dv h e i)"
proof (cases "e_target e \<noteq> [] \<and> e_stages e \<noteq> [] \<and> s_name (the_stage e) = Some (e_target e)")
  case True
  assume "P e"
  with True stop show ?thesis by (simp add: do_from_def)
next
  case False
  assume P: "P e"
  let ?v = "expand_for_from e False (case i_value i of VText t \<Rightarrow> VText t | v \<Rightarrow> VText [])"
  show ?thesis
  proof (cases ?v)
    case (Inl x)
    then have "\<exists>y. x = SyntaxFault y"
      by (auto simp: expand_for_from_def syntax_fault_def split: ivalue.splits sum.splits)
    moreover have "do_from dv h e i = Inl x"
      using Inl False unfolding do_from_def by (simp only: if_False simp_thms bindR.simps)
    ultimately show ?thesis by (auto simp: syntax_error)
  next
    case (Inr v)
    show ?thesis
    proof (cases "from_match v")
      case None
      with Inr False have "do_from dv h e i = Inl (BuildError (BadFrom (i_lineno i)))"
        unfolding do_from_def by (simp only: if_False if_True simp_thms bindR.simps option.simps)
      then show ?thesis by (simp add: build_error)
    next
      case (Some m)
      obtain ref name where m: "m = (ref, name)" by (cases m)
      have "outcome (\<lambda>(s, u). outcome P F (fire_onbuild dv h (push_stage (seed_stage s) u e))) F (from_stage_result h e ref name)"
      proof (rule outcome_mono [OF new_base [OF P]])
        fix x assume a: "case x of (s, u) \<Rightarrow> P (push_stage (seed_stage s) u e)"
        obtain s u where x: "x = (s, u)" by (cases x)
        have "with_stage (push_stage (seed_stage s) u e)" using a x by (simp add: with_stage_def push_stage_def)
        then have "outcome P F (fire_onbuild dv h (push_stage (seed_stage s) u e))"
          by (intro outcome_mono [OF fire_outcome]) (auto simp: with_stage_def)
        with x show "case x of (s, u) \<Rightarrow> outcome P F (fire_onbuild dv h (push_stage (seed_stage s) u e))" by simp
      qed simp
      then have "outcome P F (bindR (from_stage_result h e ref name) (\<lambda>(s, u). fire_onbuild dv h (push_stage (seed_stage s) u e)))"
        by (intro outcome_bind) (simp add: case_prod_unfold)
      moreover have "do_from dv h e i = bindR (from_stage_result h e ref name) (\<lambda>(s, u). fire_onbuild dv h (push_stage (seed_stage s) u e))"
        using False Inr Some m
        by (cases "make_stage_dirs e (length (e_stages e))") (auto simp: do_from_def Let_def from_stage_result_def)
      ultimately show ?thesis by simp
    qed
  qed
qed

lemma dispatch_outcome: "P e \<Longrightarrow> outcome P F (dispatch dv h e i)"
proof -
  assume P: "P e"
  have "outcome P F (handle dv h (Unsupported (i_name i) (i_lineno i)) e i)" if "e_stages e \<noteq> []"
    by (rule outcome_mono [OF handle_outcome(2)]) (use P that in \<open>auto simp: with_stage_def\<close>)
  with P from_outcome onbuild build_error show ?thesis by (auto simp: dispatch_def)
qed

theorem walk_outcome: "P e \<Longrightarrow> outcome P F (run_steps dv h is e)"
proof (induction "is" arbitrary: e)
  case (Cons i "is")
  have "outcome (\<lambda>e'. outcome P F (if e_stop e' then Inr e' else run_steps dv h is e')) F (dispatch dv h e i)"
    by (rule outcome_mono [OF dispatch_outcome [OF Cons.prems]]) (auto simp: Cons.IH)
  then show ?case by (simp add: outcome_bind)
qed simp

end

subsection \<open>What each handler answers\<close>

text \<open>An error the walk may end with: anything but the interpreter's own type errors.\<close>

definition tame :: "fault \<Rightarrow> bool" where
  "tame f \<longleftrightarrow> f \<noteq> TypeFault \<and> f \<noteq> RuntimeFault"

lemma tame_simps [simp]:
  "tame (BuildError b)" "tame (OSError x)" "tame (SyntaxFault y)" "tame ValueFault" "\<not> tame TypeFault" "\<not> tame RuntimeFault"
  by (simp_all add: tame_def)

definition kept :: "engine \<Rightarrow> engine \<Rightarrow> bool" where
  "kept e e' \<longleftrightarrow> live e' \<and> stage_step e e'"

lemma handled_outcome: "handled e r \<Longrightarrow> outcome (kept e) tame r"
  by (cases r) (auto simp: handled_def kept_def)

lemma step_quiet: "live e \<Longrightarrow> stage_step e (e\<lparr>e_fs := t\<rparr>)" "live e \<Longrightarrow> stage_step e (e\<lparr>e_index := x\<rparr>)"
  by (simp_all add: stage_step_def live_def)

lemma kept_emit:
  assumes "live e"
  shows "kept e (emit_layer h ms (e\<lparr>e_fs := t\<rparr>))"
proof -
  have "live (e\<lparr>e_fs := t\<rparr>)" using assms by (simp add: live_fs)
  from emit_layer_step [OF this, of h ms] show ?thesis by (auto simp: kept_def stage_step_def)
qed

lemma kept_index: "kept e e' \<Longrightarrow> kept e (record_entry r l e')"
  by (simp add: kept_def record_entry_def live_fs stage_step_def)

lemma resolve_tame:
  "resolve_id l2s s root n g d = Inl f \<Longrightarrow> f = ValueFault" "resolve_chown l2s s root c = Inl f \<Longrightarrow> f = ValueFault"
  "resolve_user_for_proot l2s s root u = Inl f \<Longrightarrow> f = ValueFault"
proof -
  show a: "resolve_id l2s s root n g d = Inl f \<Longrightarrow> f = ValueFault" for n g d
    by (auto simp: resolve_id_def split: if_splits option.splits)
  show b: "resolve_chown l2s s root c = Inl f \<Longrightarrow> f = ValueFault" for c
    by (auto simp: resolve_chown_def bindR_Inl_iff split: prod.splits if_splits dest: a)
  show "resolve_user_for_proot l2s s root u = Inl f \<Longrightarrow> f = ValueFault"
    by (auto simp: resolve_user_for_proot_def split: if_splits dest: b)
qed

lemma replay_outcome: "live e \<Longrightarrow> outcome (kept e) tame (replay_layer c ms e)"
proof -
  assume l: "live e"
  obtain o1 t where x: "extract_stream (s_root (the_stage e)) 0 True (e_fs e) ms = (o1, t)"
    by (cases "extract_stream (s_root (the_stage e)) 0 True (e_fs e) ms")
  have "live (upd_stage (\<lambda>s. s\<lparr>s_layers := L s, s_parent := p\<rparr>) (e\<lparr>e_fs := t\<rparr>))" for L p
    using l by (intro live_upd) (simp_all add: live_fs)
  with x show ?thesis
    by (cases o1) (auto simp: replay_layer_def kept_def stage_step_def upd_stage_def the_stage_def)
qed

lemma run_fresh_outcome: "live e \<Longrightarrow> outcome (kept e) tame (run_fresh dv h e i r)"
proof -
  assume l: "live e"
  show ?thesis
  proof (cases "exec_proot dv h e (run_command (the_stage e) i)")
    case (Inl f)
    then have "f = ValueFault"
      by (auto simp: exec_proot_def Let_def bindR_Inl_iff split: prod.splits dest: resolve_tame)
    with Inl show ?thesis by (simp add: run_fresh_def Let_def)
  next
    case (Inr x)
    obtain rc t where x: "x = (rc, t)" by (cases x)
    from Inr x show ?thesis by (simp add: run_fresh_def Let_def kept_index kept_emit l)
  qed
qed

lemma do_run_outcome: "live e \<Longrightarrow> outcome (kept e) tame (do_run dv h e i)"
  by (auto simp: do_run_def Let_def run_fresh_outcome replay_outcome split: option.splits)

lemma copy_ownership_tame: "copy_ownership h e i = Inl f \<Longrightarrow> tame f"
  by (auto simp: copy_ownership_def bindR_Inl_iff parse_chmod_def Let_def split: option.splits if_splits
      dest: resolve_tame)

lemma copy_operands_tame: "copy_operands i = Inl f \<Longrightarrow> tame f"
proof -
  have "(case i_value i of VArgv xs \<Rightarrow> if i_exec i then Inr xs else split_operands i | _ \<Rightarrow> split_operands i) = Inl f \<Longrightarrow> tame f"
    using split_operands_errors [of i f] by (auto split: ivalue.splits if_splits)
  then show "copy_operands i = Inl f \<Longrightarrow> tame f"
    by (auto simp: copy_operands_def bindR_Inl_iff split: if_splits option.splits)
qed

lemma spool_file_tame: "spool_file h sp arc b m ow t c = Inl f \<Longrightarrow> tame f"
  by (auto simp: spool_file_def spool_stream_def Let_def bindR_Inl_iff split: sum.splits prod.splits)

lemma foldR_fault: "foldR f xs s = Inl x \<Longrightarrow> (\<And>a t y. f a t = Inl y \<Longrightarrow> G y) \<Longrightarrow> G x"
  by (induction xs arbitrary: s) (auto simp: bindR_Inl_iff)

lemma extract_member_tame: "extract_member h sp dest ow m a = Inl f \<Longrightarrow> tame f"
  by (cases a) (auto simp: extract_member_def Let_def bindR_Inl_iff split: option.splits member_kind.splits
      dest: spool_file_tame)

lemma add_to_file_map_tame: "add_to_file_map h sp root ig ae dest idd ow x c = Inl f \<Longrightarrow> tame f"
proof -
  have "extract_tar_into_dest h sp dest ow src b ms c = Inl f \<Longrightarrow> tame f" for src b ms
    using foldR_fault [of _ ms "(0, c)" f tame] extract_member_tame
    by (fastforce simp: extract_tar_into_dest_def bindR_Inl_iff split: if_splits)
  then have "extract_archive h sp root p dest ow c = Inl f \<Longrightarrow> tame f" for p
    by (auto simp: extract_archive_def Let_def bindR_Inl_iff split: sum.splits if_splits prod.splits)
  then show "add_to_file_map h sp root ig ae dest idd ow x c = Inl f \<Longrightarrow> tame f"
    by (cases x) (auto simp: add_to_file_map_def bindR_Inl_iff split: node.splits if_splits)
qed

lemma record_source_tame: "record_source h e add from sp dest idd ow src c = Inl f \<Longrightarrow> tame f"
proof -
  have m: "foldR (add_to_file_map h sp root ig ae dest idd ow) xs c = Inl f \<Longrightarrow> tame f" for root ig ae dest idd ow xs
    using foldR_fault [of _ xs c f tame] add_to_file_map_tame by blast
  have u: "copy_url h sp src dest ow c = Inl f \<Longrightarrow> tame f"
    by (auto simp: copy_url_def url_arcname_def Let_def bindR_Inl_iff split: option.splits if_splits dest: spool_file_tame)
  show "record_source h e add from sp dest idd ow src c = Inl f \<Longrightarrow> tame f"
    by (auto simp: record_source_def copy_from_rootfs_def copy_from_context_def Let_def
        split: option.splits if_splits dest: u m add_to_file_map_tame)
qed

lemma source_root_tame: "source_root h e i = (Inl f, t) \<Longrightarrow> tame f"
  by (auto simp: source_root_def from_tree_def pull_throwaway_image_def
      split: if_splits option.splits sum.splits prod.splits)

lemma gather_tame: "gather_files h add e i = Inl f \<Longrightarrow> tame f"
proof -
  assume g: "gather_files h add e i = Inl f"
  show ?thesis
  proof (cases "copy_operands i")
    case (Inl x)
    with g copy_operands_tame show ?thesis by (simp add: gather_files_def)
  next
    case (Inr tokens)
    obtain o1 t where r: "source_root h e i = (o1, t)" by (cases "source_root h e i")
    show ?thesis
    proof (cases o1)
      case (Inl x)
      with g Inr r source_root_tame show ?thesis by (simp add: gather_files_def)
    next
      case I: (Inr root)
      obtain o2 u where s: "open_spool (e\<lparr>e_fs := t\<rparr>) add = (o2, u)" by (cases "open_spool (e\<lparr>e_fs := t\<rparr>) add")
      have st: "tame x" if "o2 = Inl x" for x
        using s that by (auto simp: open_spool_def split: if_splits sum.splits prod.splits)
      show ?thesis
      proof (cases o2)
        case (Inl x)
        with g Inr I r s st copy_ownership_tame show ?thesis by (auto simp: gather_files_def bindR_Inl_iff)
      next
        case J: (Inr sp)
        have "foldR (record_source h e add root sp d b ow) xs c = Inl f \<Longrightarrow> tame f" for d b ow xs c
          using foldR_fault [of _ xs c f tame] record_source_tame by blast
        with g Inr I r s J copy_ownership_tame show ?thesis by (auto simp: gather_files_def bindR_Inl_iff)
      qed
    qed
  qed
qed

lemma materialise_tame: "materialise_all r s xs = (Inl f, t) \<Longrightarrow> tame f"
proof (induction xs arbitrary: s)
  case (Cons x xs)
  have e: "materialise_entry s d n m arc = (Inl f, t) \<Longrightarrow> tame f" for s d n m arc f t
    by (auto simp: materialise_entry_def write_dir_entry_def write_link_entry_def write_file_entry_def Let_def
        split: map_entry.splits sum.splits if_splits node.splits prod.splits)
  have o: "materialise_one r s x = (Inl f, t) \<Longrightarrow> tame f" for s f t
    by (auto simp: materialise_one_def split: option.splits prod.splits sum.splits dest: e)
  obtain o1 u where m: "materialise_one r s x = (o1, u)" by (cases "materialise_one r s x")
  with Cons o show ?case by (cases o1) auto
qed simp

lemma copy_outcome: "live e \<Longrightarrow> outcome (kept e) tame (do_copy_or_add h add e i)"
proof -
  assume l: "live e"
  show ?thesis
  proof (cases "gather_files h add e i")
    case (Inl f)
    with gather_tame [OF Inl] show ?thesis by (simp add: do_copy_or_add_def)
  next
    case (Inr c)
    obtain o1 t where m: "materialise_files (s_root (the_stage e)) (rc_fs c) (rc_map c) = (o1, t)"
      by (cases "materialise_files (s_root (the_stage e)) (rc_fs c) (rc_map c)")
    have "tame f" if "o1 = Inl f" for f
      using m that materialise_tame unfolding materialise_files_def by blast
    with Inr m l show ?thesis
      by (cases o1) (simp_all add: do_copy_or_add_def kept_emit, simp_all add: kept_def live_fs step_quiet)
  qed
qed

lemma handler_outcome:
  assumes "live e" and "dict_get (HANDLERS dv h) n = Some f"
  shows "outcome (kept e) tame (f e i)"
proof -
  have "(n, f) \<in> set (HANDLERS dv h)" using assms(2) by (rule dict_get_Some_in)
  then show ?thesis
    using assms(1)
    by (auto simp: HANDLERS_def do_copy_def do_add_def copy_outcome do_run_outcome
        intro!: handled_outcome [OF do_arg_handled] handled_outcome [OF do_env_handled]
          handled_outcome [OF do_label_handled] handled_outcome [OF do_maintainer_handled] handled_outcome [OF do_user_handled]
          handled_outcome [OF do_cmd_handled] handled_outcome [OF do_entrypoint_handled] handled_outcome [OF do_expose_handled]
          handled_outcome [OF do_volume_handled] handled_outcome [OF do_stopsignal_handled]
          handled_outcome [OF do_shell_handled] handled_outcome [OF do_healthcheck_handled] handled_outcome [OF do_workdir_handled])
qed

subsection \<open>Shape and balance\<close>

fun entry_empty :: "json \<Rightarrow> bool" where
  "entry_empty (JObj d) \<longleftrightarrow> dict_get d ''empty_layer'' = Some (JBool True)"
| "entry_empty _ \<longleftrightarrow> False"

text \<open>The history entries that stand for a layer.\<close>

definition layer_entries :: "jdict \<Rightarrow> nat" where
  "layer_entries doc =
     (case dict_get doc ''history'' of Some (JArr xs) \<Rightarrow> length (filter (\<lambda>x. \<not> entry_empty x) xs) | _ \<Rightarrow> 0)"

definition balanced :: "stage \<Rightarrow> bool" where
  "balanced s \<longleftrightarrow> layer_entries (s_doc s) = length (s_layers s)"

definition base_config :: "base_image \<Rightarrow> json" where
  "base_config b = (if truthy (b_config b) then b_config b else JObj [(''config'', JObj [])])"

text \<open>Images as the registry client hands them out: one history entry for each layer.\<close>

definition balanced_images :: "host \<Rightarrow> bool" where
  "balanced_images h \<longleftrightarrow>
     (\<forall>ref d s b t doc. h_pull h ref d s = (Some b, t) \<longrightarrow> adopt_image_config (base_config b) = Inr doc \<longrightarrow>
        layer_entries doc = length (b_layers b))"

definition sound_engine :: "host \<Rightarrow> engine \<Rightarrow> bool" where
  "sound_engine h e \<longleftrightarrow> list_all (\<lambda>s. live_doc (s_doc s)) (e_stages e)
     \<and> list_all (\<lambda>(n, k). k < length (e_stages e)) (e_names e)
     \<and> (balanced_images h \<longrightarrow> list_all balanced (e_stages e))"

lemma entry_empty_history: "entry_empty (history_entry i b) = (\<not> b)"
  by (simp add: history_entry_def dict_get_def)

lemma stage_step_length: "stage_step e e' \<Longrightarrow> e_stages e \<noteq> [] \<Longrightarrow> length (e_stages e') = length (e_stages e)"
  unfolding stage_step_def using length_butlast by (metis Suc_diff_1 length_greater_0_conv)

lemma all_last: "e_stages e \<noteq> [] \<Longrightarrow> list_all Q (e_stages e) \<longleftrightarrow> list_all Q (butlast (e_stages e)) \<and> Q (the_stage e)"
  using live_stages [of e] by (metis list.pred_inject list_all_append)

lemma record_history_outcome:
  assumes "sound_engine h e" and "e_stages e \<noteq> []" and "kept e e'"
    and "b \<longleftrightarrow> s_layers (the_stage e') \<noteq> s_layers (the_stage e)"
  shows "outcome (\<lambda>x. sound_engine h x \<and> e_stages x \<noteq> []) tame (record_history i b e')"
proof -
  have l: "live e'" and st: "stage_step e e'" using assms(3) by (simp_all add: kept_def)
  let ?doc = "s_doc (the_stage e')"
  from l have ld: "live_doc ?doc" by (simp add: live_iff)
  then obtain xs where xs: "(case dict_get ?doc ''history'' of None \<Rightarrow> Inr [] | Some (JArr xs) \<Rightarrow> Inr xs | Some v \<Rightarrow> Inl TypeFault) = Inr xs"
    and cnt: "layer_entries ?doc = length (filter (\<lambda>x. \<not> entry_empty x) xs)"
  proof (cases "dict_get ?doc ''history''")
    case (Some v)
    with ld have "is_jarr v" by (simp add: live_doc_def field_is_def)
    with Some that show ?thesis by (cases v) (simp_all add: layer_entries_def)
  qed (use that in \<open>simp add: layer_entries_def\<close>)
  define x where "x = upd_stage (\<lambda>s. s\<lparr>s_doc := dict_set ''history'' (JArr (xs @ [history_entry i b])) ?doc\<rparr>) e'"
  have r: "record_history i b e' = Inr x" by (simp add: record_history_def Let_def xs x_def)
  have hist: "dict_get ?doc ''history'' = dict_get (s_doc (the_stage e)) ''history''" using st by (simp add: stage_step_def)
  then have same: "layer_entries ?doc = layer_entries (s_doc (the_stage e))" by (simp add: layer_entries_def)
  have lay: "length (s_layers (the_stage e')) = length (s_layers (the_stage e)) + (if b then 1 else 0)"
    using st assms(4) by (auto simp: stage_step_def)
  have b1: "butlast (e_stages x) = butlast (e_stages e)" "e_stages x \<noteq> []" "e_names x = e_names e"
    using st by (simp_all add: x_def stage_step_def)
  have ts: "s_doc (the_stage x) = dict_set ''history'' (JArr (xs @ [history_entry i b])) ?doc"
    "s_layers (the_stage x) = s_layers (the_stage e')" by (simp_all add: x_def)
  have "live_doc (s_doc (the_stage x))" using ld by (simp add: ts live_doc_def)
  moreover have "balanced (the_stage e) \<Longrightarrow> balanced (the_stage x)"
    using same cnt lay by (simp add: balanced_def ts layer_entries_def [of "dict_set k v d" for k v d] entry_empty_history)
  moreover have "length (e_stages x) = length (e_stages e)"
    using b1 assms(2) by (metis Suc_diff_1 length_butlast length_greater_0_conv)
  ultimately have "sound_engine h x"
    using assms(1,2) b1 by (simp add: sound_engine_def all_last)
  with r b1 show ?thesis by simp
qed

lemma kept_layers: "kept e e' \<Longrightarrow> (length (s_layers (the_stage e)) < length (s_layers (the_stage e'))) = (s_layers (the_stage e') \<noteq> s_layers (the_stage e))"
  by (auto simp: kept_def stage_step_def)

lemma sound_live: "sound_engine h e \<Longrightarrow> e_stages e \<noteq> [] \<Longrightarrow> live e"
  by (simp add: sound_engine_def live_def)

lemma sound_handler:
  assumes "sound_engine h e" and "e_stages e \<noteq> []" and "dict_get (HANDLERS dv h) n = Some f"
  shows "outcome (\<lambda>x. sound_engine h x \<and> e_stages x \<noteq> []) tame (run_with_history f e i)"
  unfolding run_with_history_def
  by (rule outcome_bind, rule outcome_mono [OF handler_outcome [OF sound_live [OF assms(1,2)] assms(3)]])
    (auto intro!: record_history_outcome [OF assms(1,2)] simp: kept_layers)

lemma onbuild_quiet: "do_onbuild e i = Inr e' \<Longrightarrow> s_layers (the_stage e') = s_layers (the_stage e)"
  by (auto simp: do_onbuild_def put_cfg_def set_cfg_def split: ivalue.splits if_splits)

lemma sound_onbuild:
  assumes "sound_engine h e" and "e_stages e \<noteq> []"
  shows "outcome (sound_engine h) tame (bindR (do_onbuild e i) (record_history i False))"
proof (cases "do_onbuild e i")
  case (Inl f)
  with handled_outcome [OF do_onbuild_handled [OF sound_live [OF assms], of i]] show ?thesis by simp
next
  case (Inr e')
  with handled_outcome [OF do_onbuild_handled [OF sound_live [OF assms], of i]] have "kept e e'" by simp
  from record_history_outcome [OF assms this, of False i] onbuild_quiet [OF Inr] Inr show ?thesis
    by (auto intro: outcome_mono)
qed

subsubsection \<open>New stages\<close>

lemma on_field_error: "on_field k f d = Inl x \<Longrightarrow> (\<And>v y. f v = Inl y \<Longrightarrow> \<exists>b. y = BuildError b) \<Longrightarrow> \<exists>b. x = BuildError b"
  by (auto simp: on_field_def bindR_Inl_iff split: option.splits)

lemma adopt_error: "adopt_image_config v = Inl f \<Longrightarrow> \<exists>b. f = BuildError b"
proof -
  have a: "cfg_object v w = Inl x \<Longrightarrow> \<exists>b. x = BuildError b" for v w and x :: fault
    by (auto simp: cfg_object_def malformed_def split: json.splits)
  have b: "cfg_str_list v w = Inl x \<Longrightarrow> \<exists>b. x = BuildError b" for v w and x :: fault
    by (auto simp: cfg_str_list_def malformed_def split: json.splits if_splits)
  have f: "str_list_field w v = Inl x \<Longrightarrow> \<exists>b. x = BuildError b" "str_field w v = Inl x \<Longrightarrow> \<exists>b. x = BuildError b"
    "list_field w v = Inl x \<Longrightarrow> \<exists>b. x = BuildError b" "names_field w v = Inl x \<Longrightarrow> \<exists>b. x = BuildError b"
    "labels_field v = Inl x \<Longrightarrow> \<exists>b. x = BuildError b" "env_field v = Inl x \<Longrightarrow> \<exists>b. x = BuildError b" for w v x
    by (auto simp: str_list_field_def str_field_def list_field_def names_field_def labels_field_def env_field_def
        bindR_Inl_iff malformed_def split: if_splits json.splits dest: a b)
  have r: "rootfs_field v = Inl x \<Longrightarrow> \<exists>b. x = BuildError b" for v x
    by (auto simp: rootfs_field_def bindR_Inl_iff dest!: a on_field_error dest: f)
  have c: "adopt_config d = Inl x \<Longrightarrow> \<exists>b. x = BuildError b" for d x
    by (auto simp: adopt_config_def bindR_Inl_iff dest!: on_field_error dest: f)
  show "adopt_image_config v = Inl f \<Longrightarrow> ?thesis"
    by (auto simp: adopt_image_config_def bindR_Inl_iff split: option.splits dest!: on_field_error dest: a c f r)
qed

lemma adopt_live: "adopt_image_config v = Inr doc \<Longrightarrow> live_doc doc"
  using adopted_clean clean_doc_live by blast

text \<open>What a base may answer for a new stage: a live config, balanced when every pulled image is.\<close>

definition good_base :: "host \<Rightarrow> stage \<Rightarrow> bool" where
  "good_base h s \<longleftrightarrow> live_doc (s_doc s) \<and> (balanced_images h \<longrightarrow> balanced s)"

lemma apply_layers_tame: "foldR (apply_one e r) ls s = Inl f \<Longrightarrow> tame f"
  by (erule foldR_fault) (auto simp: apply_one_def split: option.splits sum.splits prod.splits)

lemma pull_outcome: "outcome (\<lambda>(s, u). good_base h s) tame (pull_base_image h new ref t)"
proof (cases "parse_reference ref")
  case (Inr x)
  obtain ob u where p: "h_pull h ref (s_root new) t = (ob, u)" by (cases "h_pull h ref (s_root new) t")
  show ?thesis
  proof (cases ob)
    case (Some b)
    show ?thesis
    proof (cases "adopt_image_config (base_config b)")
      case (Inl f)
      with adopt_error [OF Inl] p Some Inr show ?thesis by (auto simp: pull_base_image_def base_config_def)
    next
      case I: (Inr doc)
      have "balanced_images h \<Longrightarrow> layer_entries doc = length (b_layers b)"
        using p Some I unfolding balanced_images_def by blast
      with adopt_live [OF I] I p Some Inr show ?thesis
        by (simp add: pull_base_image_def base_config_def [symmetric] Let_def good_base_def balanced_def)
    qed
  qed (simp add: pull_base_image_def Inr p)
qed (simp add: pull_base_image_def)

lemma sound_new_base:
  assumes "sound_engine h e"
  shows "outcome (\<lambda>(s, u). sound_engine h (push_stage (seed_stage s) u e)) tame (from_stage_result h e ref name)"
proof -
  have push: "sound_engine h (push_stage (seed_stage s) u e)" if "good_base h s" for s u
  proof -
    have "k < length (e_stages (push_stage (seed_stage s) u e))" if "(n, k) \<in> set (e_names (push_stage (seed_stage s) u e))" for n k
      using that assms set_dict_set [of _ _ "e_names e"] set_dict_set [of _ _ "dict_set _ _ (e_names e)"]
      by (fastforce simp: push_stage_def sound_engine_def list_all_iff split: option.splits)
    then show ?thesis
      using assms that by (auto simp: sound_engine_def push_stage_def list_all_iff good_base_def balanced_def seed_stage_def Let_def)
  qed
  have base: "outcome (\<lambda>(s, u). good_base h s) tame (base_stage h e (new_stage n name r) ref t)" for n r t
  proof (cases "str_lower ref = ''scratch''")
    case True
    then show ?thesis
      by (simp add: base_stage_def good_base_def balanced_def new_stage_def layer_entries_def live_doc_def live_empty
          field_is_def dict_get_def)
  next
    case False
    show ?thesis
    proof (cases "dict_get (e_names e) ref")
      case None
      with False pull_outcome show ?thesis by (simp add: base_stage_def)
    next
      case (Some k)
      have "(ref, k) \<in> set (e_names e)" using Some by (rule dict_get_Some_in)
      with assms have "k < length (e_stages e)" by (auto simp: sound_engine_def list_all_iff)
      then have "e_stages e ! k \<in> set (e_stages e)" by simp
      with assms have g: "live_doc (s_doc (e_stages e ! k))" "balanced_images h \<Longrightarrow> balanced (e_stages e ! k)"
        unfolding sound_engine_def list_all_iff by blast+
      show ?thesis
      proof (cases "foldR (apply_one e (s_root (new_stage n name r))) (s_layers (e_stages e ! k)) t")
        case (Inl f)
        with apply_layers_tame [OF Inl] False Some show ?thesis by (simp add: base_stage_def inherit_from_stage_def)
      next
        case (Inr u)
        with g False Some show ?thesis
          by (simp add: base_stage_def inherit_from_stage_def good_base_def balanced_def)
      qed
    qed
  qed
  have dirs: "make_stage_dirs e n = Inl f \<Longrightarrow> tame f" for n f
    by (auto simp: make_stage_dirs_def split: prod.splits sum.splits)
  show ?thesis
  proof (cases "make_stage_dirs e (length (e_stages e))")
    case (Inl f)
    with dirs [OF Inl] show ?thesis by (simp add: from_stage_result_def)
  next
    case (Inr x)
    obtain r t where x: "x = (r, t)" by (cases x)
    have "outcome (\<lambda>(s, u). sound_engine h (push_stage (seed_stage s) u e)) tame
        (base_stage h e (new_stage (length (e_stages e)) name r) ref t)"
      using base by (rule outcome_mono) (auto intro: push)
    with Inr x show ?thesis by (simp add: from_stage_result_def)
  qed
qed

interpretation sound: engine_rule dv h "sound_engine h" tame for dv h
proof unfold_locales
  show "outcome (sound_engine h) tame (run_with_history f e i)"
    if "sound_engine h e" "e_stages e \<noteq> []" "dict_get (HANDLERS dv h) n = Some f" for e n f i
    using sound_handler [OF that, of i] by (rule outcome_mono) simp_all
  show "e_stages e' \<noteq> []"
    if "sound_engine h e" "e_stages e \<noteq> []" "run_with_history f e i = Inr e'" "dict_get (HANDLERS dv h) n = Some f" for e n f i e'
    using sound_handler [OF that(1,2,4), of i] that(3) by simp
qed (simp_all add: sound_onbuild sound_new_base, simp_all add: sound_engine_def)

text \<open>An engine at the start of a build.\<close>

definition fresh :: "engine \<Rightarrow> bool" where
  "fresh e \<longleftrightarrow> e_stages e = [] \<and> e_names e = [] \<and> e_global e = [] \<and> e_declared_global e = [] \<and> \<not> e_stop e \<and> \<not> e_firing e"

lemma prescan_frame: "prescan is e = Inr e' \<Longrightarrow> e_stages e' = e_stages e \<and> e_names e' = e_names e \<and> e_target e' = e_target e
    \<and> e_fs e' = e_fs e \<and> e_tmp e' = e_tmp e"
proof -
  let ?P = "\<lambda>x. e_stages (fst x) = e_stages e \<and> e_names (fst x) = e_names e \<and> e_target (fst x) = e_target e
    \<and> e_fs (fst x) = e_fs e \<and> e_tmp (fst x) = e_tmp e"
  assume p: "prescan is e = Inr e'"
  then obtain x where f: "foldR prescan_step is (e, False, []) = Inr x" and e: "e' = fst x"
    by (auto simp: prescan_def split: if_splits prod.splits)
  have "?P x"
  proof (rule foldR_invariant [OF _ f])
    fix i s t assume "?P s" and "prescan_step i s = Inr t"
    then show "?P t"
      by (cases s) (auto simp: prescan_step_def Let_def split: if_splits prod.splits option.splits)
  qed simp
  with e show ?thesis by simp
qed

lemma start_sound: "fresh e \<Longrightarrow> prescan is e = Inr e0 \<Longrightarrow> sound_engine h e0"
  using prescan_frame [of "is" e e0] by (simp add: fresh_def sound_engine_def)

text \<open>C14. Once the scan has passed, no Dockerfile, no trigger of a base image and no image config ends a
  build in a type error: every way the walk can fail is a build error, an error of the operating system, a
  syntax error in a variable or a trigger, or the conversion of a user id that is no number.\<close>

theorem walk_never_mistypes:
  assumes "fresh e" and "prescan is e = Inr e0" and "run_steps dv h is e0 = Inl f"
  shows "reported f \<or> (\<exists>x. f = SyntaxFault x) \<or> f = ValueFault"
proof -
  have "outcome (sound_engine h) tame (run_steps dv h is e0)"
    by (rule sound.walk_outcome [OF start_sound [OF assms(1,2)]])
  with assms(3) show ?thesis by (cases f) (auto simp: reported_def)
qed


subsection \<open>Examples\<close>

definition bare_device :: device where
  "bare_device = \<lparr>dv_prefix = [], dv_binds = [], dv_default_path = ''/bin''\<rparr>"

definition bare_engine :: engine where
  "bare_engine = (copy_engine [([], NDir 493 0), ([''t''], NDir 493 0), ([''c''], NDir 493 0)])\<lparr>e_stages := []\<rparr>"

definition build_text :: "string \<Rightarrow> fault + stage \<times> engine" where
  "build_text text =
     (case parse_dockerfile text of
        Inl x \<Rightarrow> Inl (SyntaxFault x)
      | Inr (ds, is) \<Rightarrow> run_build bare_device copy_host is bare_engine)"

theorem walk_never_mistypes_witness:
  "(let is = [Instr ''FROM'' [] (VText ''scratch'') False [] 1 [], Instr ''ENV'' [] (VText ''a=${b'') False [] 2 []]
    in case prescan is bare_engine of
         Inl x \<Rightarrow> False
       | Inr e0 \<Rightarrow> (case run_steps bare_device copy_host is e0 of
             Inl f \<Rightarrow> reported f \<or> (\<exists>x. f = SyntaxFault x) \<or> f = ValueFault | Inr e' \<Rightarrow> False))"
proof -
  let ?is = "[Instr ''FROM'' [] (VText ''scratch'') False [] 1 [], Instr ''ENV'' [] (VText ''a=${b'') False [] 2 []]"
  have c: "case prescan ?is bare_engine of Inl x \<Rightarrow> False
     | Inr e0 \<Rightarrow> (case run_steps bare_device copy_host ?is e0 of Inl f \<Rightarrow> True | Inr e' \<Rightarrow> False)" by code_simp
  have f: "fresh bare_engine" by (simp add: fresh_def bare_engine_def copy_engine_def)
  from c obtain e0 where p: "prescan ?is bare_engine = Inr e0" by (cases "prescan ?is bare_engine") simp_all
  with c obtain x where r: "run_steps bare_device copy_host ?is e0 = Inl x"
    by (cases "run_steps bare_device copy_host ?is e0") (simp_all del: run_steps.simps)
  from walk_never_mistypes [OF f p r] p r show ?thesis by (simp add: Let_def del: run_steps.simps)
qed


text \<open>Three Dockerfiles end the build with an exception \<open>build\<close> does not report: a variable whose brace
  is never closed, a user named by a superscript digit, and an exec-form FROM with a variable.\<close>

theorem unreported_errors:
  "(case build_text (''FROM scratch'' @ NL @ ''ENV a=${b'' @ NL) of Inl f \<Rightarrow> \<not> reported f \<and> f = SyntaxFault UnterminatedBrace | Inr x \<Rightarrow> False)
   \<and> (case build_text (''FROM scratch'' @ NL @ ''USER '' @ [CHR 0xB2] @ NL @ ''RUN x'' @ NL) of Inl f \<Rightarrow> \<not> reported f \<and> f = ValueFault | Inr x \<Rightarrow> False)
   \<and> (case build_text (''FROM [\"$\", \"{\"]'' @ NL) of Inl f \<Rightarrow> \<not> reported f \<and> f = TypeFault | Inr x \<Rightarrow> False)"
  by code_simp

end
