(* ===== verification/Build_Confined.thy ===== *)
theory Build_Confined
  imports Engine_Props
begin

text \<open>
  A whole build changes nothing outside its scratch root: the second interpretation of the walk's
  locale. proot is assumed to change entries below the rootfs it is started on only.
\<close>

definition proot_ok :: "host \<Rightarrow> bool" where
  "proot_ok h \<longleftrightarrow> (\<forall>run t. ft.beyond (pr_root run) t (snd (h_proot h run t)) \<and> (wf_fs t \<longrightarrow> wf_fs (snd (h_proot h run t))))"

text \<open>\<open>tmp_step\<close>: a well-formed tree stays one and changes below \<open>r\<close> only.\<close>

definition tmp_step :: "path \<Rightarrow> fs \<Rightarrow> fs \<Rightarrow> bool" where
  "tmp_step r s t \<longleftrightarrow> ft.beyond r s t \<and> (wf_fs s \<longrightarrow> wf_fs t)"

lemma tmp_refl [simp]: "tmp_step r s s"
  by (simp add: tmp_step_def ft.beyond_refl)

lemma tmp_trans: "tmp_step r s t \<Longrightarrow> tmp_step r t u \<Longrightarrow> tmp_step r s u"
  unfolding tmp_step_def using ft.beyond_trans by blast

lemma tmp_safe: "safe_step r' s t \<Longrightarrow> prefix r r' \<Longrightarrow> tmp_step r s t"
  unfolding tmp_step_def safe_step_def using ft.beyond_mono by blast

lemma tmp_only: "only_under rs s t \<Longrightarrow> list_all (prefix r) rs \<Longrightarrow> tmp_step r s t"
  unfolding tmp_step_def only_under_def ft.beyond_def list_all_iff using prefix_order.trans by metis

subsection \<open>Handlers\<close>

lemma put_cfg_fs: "put_cfg e k v = Inr e' \<Longrightarrow> e_fs e' = e_fs e"
  by (auto simp: put_cfg_def)

lemma metadata_fs:
  "do_arg h e i = Inr e' \<Longrightarrow> e_fs e' = e_fs e" "do_env e i = Inr e' \<Longrightarrow> e_fs e' = e_fs e"
  "do_label e i = Inr e' \<Longrightarrow> e_fs e' = e_fs e" "do_maintainer e i = Inr e' \<Longrightarrow> e_fs e' = e_fs e"
  "do_user e i = Inr e' \<Longrightarrow> e_fs e' = e_fs e" "do_cmd e i = Inr e' \<Longrightarrow> e_fs e' = e_fs e"
  "do_entrypoint e i = Inr e' \<Longrightarrow> e_fs e' = e_fs e" "do_expose e i = Inr e' \<Longrightarrow> e_fs e' = e_fs e"
  "do_volume e i = Inr e' \<Longrightarrow> e_fs e' = e_fs e" "do_stopsignal e i = Inr e' \<Longrightarrow> e_fs e' = e_fs e"
  "do_shell e i = Inr e' \<Longrightarrow> e_fs e' = e_fs e" "do_healthcheck e i = Inr e' \<Longrightarrow> e_fs e' = e_fs e"
  "do_onbuild e i = Inr e' \<Longrightarrow> e_fs e' = e_fs e"
  by (auto simp: do_arg_def do_env_def do_label_def do_maintainer_def do_user_def do_cmd_def do_entrypoint_def
      do_expose_def do_volume_def do_stopsignal_def do_shell_def do_healthcheck_def do_onbuild_def Let_def
      split: prod.splits if_splits ivalue.splits dest!: put_cfg_fs)

lemma workdir_fs:
  assumes "do_workdir h e i = Inr e'" and "stage_step e e'" and "prefix r (s_root (the_stage e))"
  shows "tmp_step r (e_fs e) (e_fs e')"
proof (cases "e_fs e' = e_fs e")
  case False
  let ?raw = "strip (value_str (i_value i))"
  define p where "p = py_normpath (py_join (py_join ''/'' (if s_workdir (the_stage e) = [] then ''/'' else s_workdir (the_stage e))) ?raw)"
  from assms(1) obtain e1 where e1: "put_cfg (upd_stage (\<lambda>s. s\<lparr>s_workdir := p\<rparr>) e) ''WorkingDir'' (JStr p) = Inr e1"
    by (auto simp: do_workdir_def Let_def p_def [symmetric] split: if_splits)
  from e1 have fs: "e_fs e1 = e_fs e" and root: "s_root (the_stage e1) = s_root (the_stage e)"
    by (auto simp: put_cfg_def set_cfg_def)
  show ?thesis
  proof (cases "safe_resolve_parts (e_fs e) (s_root (the_stage e)) (path_parts p)")
    case None
    with assms(1) e1 fs root have "e_fs e' = e_fs e"
      by (auto simp: do_workdir_def Let_def p_def [symmetric] split: if_splits)
    then show ?thesis by simp
  next
    case (Some parts)
    obtain made t where m: "makedirs_at (Some 493) (e_fs e) (s_root (the_stage e)) parts = (made, t)"
      by (cases "makedirs_at (Some 493) (e_fs e) (s_root (the_stage e)) parts")
    have "list_all no_slash (path_parts p)" unfolding path_parts_def by (rule split_no_slash)
    with Some have "list_all plain_name parts" by (rule safe_resolve_plain)
    from makedirs_safe [OF m this] have "tmp_step r (e_fs e) t"
      using tmp_safe assms(3) prefix_order.refl by blast
    moreover have "e_fs e' = t"
      using assms(1) e1 fs root Some m
      by (auto simp: do_workdir_def Let_def p_def [symmetric] split: if_splits)
    ultimately show ?thesis by simp
  qed
qed simp

lemma copy_fs:
  assumes "do_copy_or_add h add e i = Inr e'" and "host_ok h" and "prefix (e_tmp e) (s_root (the_stage e))"
  shows "tmp_step (e_tmp e) (e_fs e) (e_fs e')"
  using copy_or_add_only [OF assms(1,2)] by (rule tmp_only) (simp add: copy_roots_def assms(3))

lemma child_env_fs:
  assumes "build_child_env dv h e = (env, t)"
  shows "safe_step (s_root (the_stage e)) (e_fs e) t"
proof (cases "t = e_fs e")
  case False
  let ?m = "makedirs_at None (e_fs e) (s_root (the_stage e)) [''.l2s'']"
  have "snd ?m = t" using assms False by (auto simp: build_child_env_def Let_def split: prod.splits option.splits if_splits)
  then obtain m where "?m = (m, t)" by (cases ?m) simp
  then show ?thesis by (rule makedirs_safe) (simp_all add: plain_name_def)
qed simp

lemma extract_tmp:
  "extract_stream root k b s ms = (res, t) \<Longrightarrow> wf_fs s \<Longrightarrow> prefix r root \<Longrightarrow> tmp_step r s t"
  using extract_stream_safe tmp_safe by blast

lemma run_fs:
  assumes "do_run dv h e i = Inr e'" and "proot_ok h" and "wf_fs (e_fs e)" and "prefix r (s_root (the_stage e))"
  shows "tmp_step r (e_fs e) (e_fs e')"
proof -
  have fresh_run: "tmp_step r (e_fs e) (e_fs e')" if "run_fresh dv h e i rec = Inr e'" for rec
  proof -
    from that obtain rc t where x: "exec_proot dv h e (run_command (the_stage e) i) = Inr (rc, t)" and t: "e_fs e' = t"
      by (auto simp: run_fresh_def Let_def record_entry_def split: prod.splits if_splits)
    obtain env u where c: "build_child_env dv h e = (env, u)" by (cases "build_child_env dv h e")
    with x obtain argv where run: "h_proot h \<lparr>pr_argv = argv, pr_env = env, pr_root = s_root (the_stage e)\<rparr> u = (rc, t)"
      by (auto simp: exec_proot_def Let_def)
    from assms(2) have "tmp_step (pr_root run) u (snd (h_proot h run u))" for run
      by (simp add: proot_ok_def tmp_step_def)
    from this [of "\<lparr>pr_argv = argv, pr_env = env, pr_root = s_root (the_stage e)\<rparr>"] run
    have "tmp_step (s_root (the_stage e)) u t" by simp
    with assms(4) have "tmp_step r u t" unfolding tmp_step_def using ft.beyond_mono by blast
    with tmp_safe [OF child_env_fs [OF c] assms(4)] t show ?thesis using tmp_trans by blast
  qed
  have replay: "tmp_step r (e_fs e) (e_fs e')" if "replay_layer c ms e = Inr e'" for c ms
  proof -
    obtain o1 t where x: "extract_stream (s_root (the_stage e)) 0 True (e_fs e) ms = (o1, t)"
      by (cases "extract_stream (s_root (the_stage e)) 0 True (e_fs e) ms")
    with that have "e_fs e' = t" by (cases o1) (auto simp: replay_layer_def)
    with extract_tmp [OF x assms(3,4)] show ?thesis by simp
  qed
  show ?thesis using assms(1) fresh_run replay by (auto simp: do_run_def Let_def split: option.splits)
qed

lemma handler_fs:
  assumes "dict_get (HANDLERS dv h) n = Some f" and "f e i = Inr e'" and "host_ok h" and "proot_ok h"
    and "wf_fs (e_fs e)" and "prefix (e_tmp e) (s_root (the_stage e))" and "stage_step e e'"
  shows "tmp_step (e_tmp e) (e_fs e) (e_fs e')"
proof -
  have "(n, f) \<in> set (HANDLERS dv h)" using assms(1) by (rule dict_get_Some_in)
  then consider "f = do_run dv h" | "f = do_copy h \<or> f = do_add h" | "f = do_workdir h" | "e_fs e' = e_fs e"
    using assms(2) by (auto simp: HANDLERS_def dest: metadata_fs)
  then show ?thesis
  proof cases
    case 1
    with assms(2) run_fs [OF _ assms(4,5,6)] show ?thesis by blast
  next
    case 2
    with assms(2) copy_fs [OF _ assms(3,6)] show ?thesis by (auto simp: do_copy_def do_add_def)
  next
    case 3
    with assms(2) workdir_fs [OF _ assms(7,6)] show ?thesis by blast
  qed simp
qed

subsection \<open>The walk\<close>

text \<open>The state of a confined build that began with the tree \<open>s0\<close>.\<close>

definition inside :: "path \<Rightarrow> fs \<Rightarrow> engine \<Rightarrow> bool" where
  "inside tmp s0 e \<longleftrightarrow> wf_fs (e_fs e) \<and> tmp_step tmp s0 (e_fs e) \<and> e_tmp e = tmp
     \<and> list_all (\<lambda>s. prefix tmp (s_root s)) (e_stages e)"

lemma inside_root: "inside tmp s0 e \<Longrightarrow> e_stages e \<noteq> [] \<Longrightarrow> prefix (e_tmp e) (s_root (the_stage e))"
  by (simp add: inside_def all_last)

lemma inside_step:
  assumes "inside tmp s0 e" and "e_stages e \<noteq> []" and "stage_step e e'" and "tmp_step tmp (e_fs e) (e_fs e')"
  shows "inside tmp s0 e'"
proof -
  have "list_all (\<lambda>s. prefix tmp (s_root s)) (e_stages e')"
    using assms(1,2,3) all_last [of e] all_last [of e'] by (simp add: inside_def stage_step_def)
  moreover have "tmp_step tmp s0 (e_fs e')" using assms(1,4) tmp_trans by (simp add: inside_def) blast
  ultimately show ?thesis using assms(1,3,4) by (simp add: inside_def stage_step_def tmp_step_def)
qed

lemma inside_history:
  assumes "record_history i b e = Inr e'" and "e_stages e \<noteq> []" and "inside tmp s0 e"
  shows "inside tmp s0 e'" and "e_stages e' \<noteq> []"
proof -
  from assms(1) obtain f where e': "e' = upd_stage f e" and f: "s_root (f (the_stage e)) = s_root (the_stage e)"
    by (auto simp: record_history_def Let_def)
  then show "e_stages e' \<noteq> []" by simp
  with e' f assms(2,3) all_last [of e'] all_last [of e] show "inside tmp s0 e'" by (simp add: inside_def)
qed

definition confined :: "host \<Rightarrow> path \<Rightarrow> fs \<Rightarrow> engine \<Rightarrow> bool" where
  "confined h tmp s0 e \<longleftrightarrow> sound_engine h e \<and> (host_ok h \<and> proot_ok h \<longrightarrow> inside tmp s0 e)"

lemma confined_handler:
  assumes "confined h tmp s0 e" and "e_stages e \<noteq> []" and "dict_get (HANDLERS dv h) n = Some f"
  shows "outcome (\<lambda>x. confined h tmp s0 x \<and> e_stages x \<noteq> []) tame (run_with_history f e i)"
proof -
  have s: "sound_engine h e" using assms(1) by (simp add: confined_def)
  note out = sound_handler [OF s assms(2,3), of i]
  show ?thesis
  proof (cases "run_with_history f e i")
    case (Inr e2)
    then obtain e1 b where f: "f e i = Inr e1" and r: "record_history i b e1 = Inr e2"
      by (auto simp: run_with_history_def)
    from handler_outcome [OF sound_live [OF s assms(2)] assms(3), of i] f have k: "stage_step e e1"
      by (simp add: kept_def)
    then have ne: "e_stages e1 \<noteq> []" by (simp add: stage_step_def)
    have "inside tmp s0 e2" if h: "host_ok h" "proot_ok h"
    proof -
      have c: "inside tmp s0 e" using assms(1) h by (simp add: confined_def)
      then have "wf_fs (e_fs e)" "e_tmp e = tmp" by (simp_all add: inside_def)
      with handler_fs [OF assms(3) f h _ inside_root [OF c assms(2)] k] have "tmp_step tmp (e_fs e) (e_fs e1)" by simp
      with inside_history [OF r ne inside_step [OF c assms(2) k]] show ?thesis by blast
    qed
    with out Inr show ?thesis by (simp add: confined_def)
  qed (use out in simp)
qed

lemma confined_onbuild:
  assumes "confined h tmp s0 e" and "e_stages e \<noteq> []"
  shows "outcome (confined h tmp s0) tame (bindR (do_onbuild e i) (record_history i False))"
proof -
  have s: "sound_engine h e" using assms(1) by (simp add: confined_def)
  note out = sound_onbuild [OF s assms(2), of i]
  show ?thesis
  proof (cases "do_onbuild e i")
    case (Inr e1)
    from handled_outcome [OF do_onbuild_handled [OF sound_live [OF s assms(2)], of i]] Inr have k: "stage_step e e1"
      by (simp add: kept_def)
    then have ne: "e_stages e1 \<noteq> []" by (simp add: stage_step_def)
    show ?thesis
    proof (cases "record_history i False e1")
      case r: (Inr e2)
      have "inside tmp s0 e2" if h: "host_ok h" "proot_ok h"
      proof -
        have c: "inside tmp s0 e" using assms(1) h by (simp add: confined_def)
        from inside_history [OF r ne inside_step [OF c assms(2) k]] metadata_fs(13) [OF Inr] show ?thesis by simp
      qed
      with out Inr r show ?thesis by (simp add: confined_def)
    qed (use out Inr in simp)
  qed (use out in simp)
qed

subsection \<open>New stages\<close>

lemma apply_layers_tmp:
  assumes "foldR (apply_one e root) ls s = Inr t" and "wf_fs s" and "prefix r root"
  shows "tmp_step r s t"
proof -
  have "tmp_step r s t \<and> wf_fs t"
  proof (rule foldR_invariant [OF _ assms(1)])
    fix l u v assume "tmp_step r s u \<and> wf_fs u" and "apply_one e root l u = Inr v"
    then show "tmp_step r s v \<and> wf_fs v"
      using extract_tmp [OF _ _ assms(3)] tmp_trans
      by (fastforce simp: apply_one_def tmp_step_def split: option.splits sum.splits prod.splits)
  qed (simp add: assms(2))
  then show ?thesis ..
qed

lemma base_stage_tmp:
  assumes "base_stage h e new ref s = Inr (st, t)" and "host_ok h" and "wf_fs s" and "prefix r (s_root new)"
  shows "tmp_step r s t \<and> s_root st = s_root new"
proof -
  have p: "tmp_step r s t \<and> s_root st = s_root new" if "pull_base_image h new ref s = Inr (st, t)"
  proof -
    from that have t: "t = snd (h_pull h ref (s_root new) s)" and "s_root st = s_root new"
      by (auto simp: pull_base_image_def Let_def split: sum.splits prod.splits option.splits)
    moreover have "safe_step (s_root new) s t" using assms(2) t by (simp add: host_ok_def)
    ultimately show ?thesis using tmp_safe [OF _ assms(4)] by simp
  qed
  have i: "tmp_step r s t \<and> s_root st = s_root new" if "inherit_from_stage e new parent s = Inr (st, t)" for parent
    using that apply_layers_tmp [OF _ assms(3,4)] by (auto simp: inherit_from_stage_def)
  show ?thesis
    using assms(1) p i by (auto simp: base_stage_def split: if_splits option.splits)
qed

lemma fixups_tmp: "prefix r root \<Longrightarrow> tmp_step r s (write_hosts (write_resolv_conf s root) root)"
proof (rule tmp_trans)
  assume r: "prefix r root"
  have e: "prefix root (root @ [''etc''])" by simp
  show "tmp_step r s (write_resolv_conf s root)"
    unfolding write_resolv_conf_def
    by (rule tmp_safe [OF safe_with_etc r]) (intro safe_replace_at e, simp add: plain_name_def)
  show "tmp_step r (write_resolv_conf s root) (write_hosts (write_resolv_conf s root) root)"
    unfolding write_hosts_def
    by (rule tmp_safe [OF safe_with_etc r]) (intro safe_replace_at e, simp add: plain_name_def)
qed

lemma stage_dirs_tmp:
  assumes "make_stage_dirs e n = Inr (root, t)"
  shows "tmp_step (e_tmp e) (e_fs e) t" and "prefix (e_tmp e) root"
proof -
  let ?n = "''stage-'' @ nat_str n"
  obtain o1 u where d: "descend_at True (e_fs e) (e_tmp e) [?n] = (o1, u)" by (cases "descend_at True (e_fs e) (e_tmp e) [?n]")
  with assms obtain p where p: "o1 = Inr p" by (cases o1) (auto simp: make_stage_dirs_def)
  obtain o2 v where d2: "descend_at True u p [''rootfs''] = (o2, v)" by (cases "descend_at True u p [''rootfs'']")
  with assms d p have o2: "o2 = Inr root" "v = t" by (cases o2; auto simp: make_stage_dirs_def simp del: descend_at.simps)+
  have pn: "plain_name ?n" using nat_str_no_slash [of n] by (simp add: plain_name_def no_slash_def)
  have a: "safe_step (e_tmp e) (e_fs e) u" "prefix (e_tmp e) p"
    using descend_safe [OF d, of "e_tmp e"] pn p by auto
  have b: "safe_step (e_tmp e) u v \<and> (\<forall>q. o2 = Inr q \<longrightarrow> q = p @ [''rootfs''] \<and> is_dir v q)"
    by (rule descend_safe [OF d2 _ a(2)]) (simp add: plain_name_def)
  with a o2 show "tmp_step (e_tmp e) (e_fs e) t" using tmp_safe tmp_trans prefix_order.refl by metis
  from a(2) b o2 show "prefix (e_tmp e) root" by (auto simp: prefix_def)
qed

lemma confined_new_base:
  assumes "confined h tmp s0 e"
  shows "outcome (\<lambda>(s, u). confined h tmp s0 (push_stage (seed_stage s) u e)) tame (from_stage_result h e ref name)"
proof -
  have s: "sound_engine h e" using assms by (simp add: confined_def)
  note out = sound_new_base [OF s, of ref name]
  show ?thesis
  proof (cases "from_stage_result h e ref name")
    case (Inr x)
    obtain st u where x: "x = (st, u)" by (cases x)
    with Inr obtain root t where d: "make_stage_dirs e (length (e_stages e)) = Inr (root, t)"
      and b: "base_stage h e (new_stage (length (e_stages e)) name root) ref t = Inr (st, u)"
      by (auto simp: from_stage_result_def)
    have "inside tmp s0 (push_stage (seed_stage st) u e)" if h: "host_ok h" "proot_ok h"
    proof -
      have c: "inside tmp s0 e" using assms h by (simp add: confined_def)
      then have c': "wf_fs (e_fs e)" "e_tmp e = tmp" "tmp_step tmp s0 (e_fs e)" by (simp_all add: inside_def)
      note dirs = stage_dirs_tmp [OF d, unfolded c'(2)]
      have wt: "wf_fs t" using dirs(1) c'(1) by (simp add: tmp_step_def)
      have "prefix tmp (s_root (new_stage (length (e_stages e)) name root))" using dirs(2) by (simp add: new_stage_def)
      from base_stage_tmp [OF b h(1) wt this] have bt: "tmp_step tmp t u" "s_root st = root"
        by (simp_all add: new_stage_def)
      have "tmp_step tmp u (write_hosts (write_resolv_conf u root) root)" using dirs(2) by (rule fixups_tmp)
      with bt dirs c' have all: "tmp_step tmp s0 (write_hosts (write_resolv_conf u root) root)"
        "wf_fs (write_hosts (write_resolv_conf u root) root)"
        by (blast intro: tmp_trans, simp add: tmp_step_def)
      with c bt dirs(2) show ?thesis by (simp add: inside_def push_stage_def seed_stage_def Let_def)
    qed
    with out Inr x show ?thesis by (simp add: confined_def)
  qed (use out in simp)
qed

interpretation conf: engine_rule dv h "confined h tmp s0" tame for dv h tmp s0
proof unfold_locales
  show "outcome (confined h tmp s0) tame (run_with_history f e i)"
    if "confined h tmp s0 e" "e_stages e \<noteq> []" "dict_get (HANDLERS dv h) n = Some f" for e n f i
    using confined_handler [OF that, of i] by (rule outcome_mono) simp_all
  show "e_stages e' \<noteq> []"
    if "confined h tmp s0 e" "e_stages e \<noteq> []" "run_with_history f e i = Inr e'" "dict_get (HANDLERS dv h) n = Some f" for e n f i e'
    using confined_handler [OF that(1,2,4), of i] that(3) by simp
qed (simp_all add: confined_onbuild confined_new_base, simp_all add: confined_def sound_engine_def inside_def)



end
