(* ===== verification/Locking.thy ===== *)
theory Locking
  imports Fs_Steps Image_Refs
begin

text \<open>
  \<open>locking.py\<close>: the advisory locks commands take on containers and images. The world holds the files, the
  kernel's open descriptions with their flock table, the descriptors of each process, the
  \<open>_held_exclusive\<close> set of each process, and the lock objects. Paths a guest made unreadable are
  \<open>w_denied\<close>: opening one fails with EACCES, which the file system calls EPERM here.
\<close>

subsection \<open>flock\<close>

text \<open>The table maps a description to the inode it locks and whether exclusively.\<close>

type_synonym lock_table = "(nat \<times> nat \<times> bool) list"

definition flock_conflict :: "lock_table \<Rightarrow> nat \<Rightarrow> nat \<Rightarrow> bool \<Rightarrow> bool" where
  "flock_conflict t d i x = list_ex (\<lambda>(p, j, y). p \<noteq> d \<and> j = i \<and> (x \<or> y)) t"

definition flock_grant :: "lock_table \<Rightarrow> nat \<Rightarrow> nat \<Rightarrow> bool \<Rightarrow> lock_table option" where
  "flock_grant t d i x = (if flock_conflict t d i x then None else Some (dict_set d (i, x) t))"

text \<open>
  What the rest relies on: a grant gives the description its lock, a refusal means that another one is in
  the way, and dropping takes away one description's lock. Exclusion is kept by all of it.
\<close>

locale flock_laws =
  fixes holds :: "'t \<Rightarrow> 'd \<Rightarrow> ('i \<times> bool) option"
    and grant :: "'t \<Rightarrow> 'd \<Rightarrow> 'i \<Rightarrow> bool \<Rightarrow> 't option"
    and drop_lock :: "'d \<Rightarrow> 't \<Rightarrow> 't"
    and valid :: "'t \<Rightarrow> bool"
  assumes grant_holds: "\<And>t d i x t' p. grant t d i x = Some t' \<Longrightarrow> holds t' p = (if p = d then Some (i, x) else holds t p)"
    and grant_refused: "\<And>t d i x. valid t \<Longrightarrow> grant t d i x = None \<longleftrightarrow> (\<exists>p y. p \<noteq> d \<and> holds t p = Some (i, y) \<and> (x \<or> y))"
    and drop_holds: "\<And>d t p. holds (drop_lock d t) p = (if p = d then None else holds t p)"
    and grant_valid: "\<And>t d i x t'. valid t \<Longrightarrow> grant t d i x = Some t' \<Longrightarrow> valid t'"
    and drop_valid: "\<And>d t. valid t \<Longrightarrow> valid (drop_lock d t)"
begin

definition exclusion :: "'t \<Rightarrow> bool" where
  "exclusion t \<longleftrightarrow> valid t \<and> (\<forall>p q i x y. p \<noteq> q \<longrightarrow> holds t p = Some (i, x) \<longrightarrow> holds t q = Some (i, y) \<longrightarrow> \<not> x \<and> \<not> y)"

lemma exclusionD: "exclusion t \<Longrightarrow> p \<noteq> q \<Longrightarrow> holds t p = Some (i, x) \<Longrightarrow> holds t q = Some (i, y) \<Longrightarrow> \<not> x \<and> \<not> y"
  unfolding exclusion_def by blast

lemma exclusion_drop: "exclusion t \<Longrightarrow> exclusion (drop_lock d t)"
proof -
  assume e: "exclusion t"
  have "\<not> x \<and> \<not> y" if "p \<noteq> q" "holds (drop_lock d t) p = Some (i, x)" "holds (drop_lock d t) q = Some (i, y)" for p q i x y
    using that exclusionD [OF e that(1), of i x y] by (simp add: drop_holds split: if_splits)
  with e drop_valid show ?thesis unfolding exclusion_def by blast
qed

lemma exclusion_grant:
  assumes "exclusion t" and "grant t d i x = Some t'"
  shows "exclusion t'"
proof -
  have v: "valid t" using assms(1) by (simp add: exclusion_def)
  have free: "\<not> x \<and> \<not> y" if "p \<noteq> d" "holds t p = Some (i, y)" for p y
    using grant_refused [OF v, of d i x] assms(2) that by auto
  have "\<not> a \<and> \<not> b"
    if h: "p \<noteq> q" "holds t' p = Some (j, a)" "holds t' q = Some (j, b)" for p q j a b
  proof -
    consider "p = d" | "q = d" | "p \<noteq> d" "q \<noteq> d" by blast
    then show ?thesis
    proof cases
      case 1
      with h have "x = a" "i = j" "holds t q = Some (i, b)" by (simp_all add: grant_holds [OF assms(2)])
      with free [of q b] 1 h(1) show ?thesis by simp
    next
      case 2
      with h have "x = b" "i = j" "holds t p = Some (i, a)" by (simp_all add: grant_holds [OF assms(2)])
      with free [of p a] 2 h(1) show ?thesis by simp
    next
      case 3
      with h exclusionD [OF assms(1) h(1), of j a b] show ?thesis by (simp add: grant_holds [OF assms(2)])
    qed
  qed
  with grant_valid [OF v assms(2)] show ?thesis unfolding exclusion_def by blast
qed

end

interpretation fl: flock_laws dict_get flock_grant dict_del "\<lambda>t. distinct (map fst t)"
proof unfold_locales
  fix t :: lock_table and d i x
  assume v: "distinct (map fst t)"
  have g: "dict_get t p = Some (i, y) \<longleftrightarrow> (p, i, y) \<in> set t" for p y
    using v by (simp add: dict_get_def)
  have "flock_conflict t d i x \<longleftrightarrow> (\<exists>p y. p \<noteq> d \<and> dict_get t p = Some (i, y) \<and> (x \<or> y))"
    unfolding g by (auto simp: flock_conflict_def list_ex_iff)
  then show "(flock_grant t d i x = None) = (\<exists>p y. p \<noteq> d \<and> dict_get t p = Some (i, y) \<and> (x \<or> y))"
    by (simp add: flock_grant_def)
next
  fix t :: lock_table and d i x t'
  show "distinct (map fst t) \<Longrightarrow> flock_grant t d i x = Some t' \<Longrightarrow> distinct (map fst t')"
    by (auto simp: flock_grant_def dict_distinct_set split: if_splits)
qed (auto simp: flock_grant_def dict_keys_distinct_del split: if_splits)

subsection \<open>The world\<close>

text \<open>A lock object. \<open>l_hostile\<close> and \<open>l_denied\<close> are the reasons \<open>blocked_detail\<close> gives.\<close>

record lock =
  l_pid :: nat
  l_exclusive :: bool
  l_inheritable :: bool
  l_parts :: "string list"
  l_name :: string
  l_command :: string
  l_fd :: "nat option"
  l_reentrant :: bool
  l_disowned :: bool
  l_hostile :: "path option"
  l_denied :: "path option"

record world =
  w_fs :: fs
  w_denied :: "path list"
  w_runtime :: path
  w_flock :: bool
  w_table :: lock_table
  w_fds :: "(nat \<times> nat \<times> bool) list"
  w_next :: nat
  w_held :: "(nat \<times> path) list"
  w_locks :: "(nat \<times> lock) list"

definition lock_path :: "world \<Rightarrow> lock \<Rightarrow> path" where
  "lock_path w l = w_runtime w @ l_parts l @ [l_name l]"

definition CONTAINER_PARTS :: "string list" where
  "CONTAINER_PARTS = [''locks'']"

definition BUILD_PARTS :: "string list" where
  "BUILD_PARTS = [''locks'', ''build'']"

definition new_lock :: "nat \<Rightarrow> bool \<Rightarrow> bool \<Rightarrow> string list \<Rightarrow> string \<Rightarrow> string \<Rightarrow> lock" where
  "new_lock pid exclusive inheritable parts name command =
     \<lparr>l_pid = pid, l_exclusive = exclusive, l_inheritable = inheritable, l_parts = parts, l_name = name,
      l_command = command, l_fd = None, l_reentrant = False, l_disowned = False, l_hostile = None, l_denied = None\<rparr>"

definition container_lock :: "nat \<Rightarrow> string \<Rightarrow> bool \<Rightarrow> string \<Rightarrow> bool \<Rightarrow> lock" where
  "container_lock pid name exclusive command inheritable =
     new_lock pid exclusive inheritable CONTAINER_PARTS (name @ ''.lock'') command"

definition build_lock :: "(string \<Rightarrow> string) \<Rightarrow> nat \<Rightarrow> string \<Rightarrow> string \<Rightarrow> string \<Rightarrow> lock" where
  "build_lock hash pid image_ref arch command =
     new_lock pid True False BUILD_PARTS (take 16 (hash (canonical_ref image_ref @ ''_'' @ arch)) @ ''.lock'') command"

subsection \<open>The lock files\<close>

datatype blocked = HostilePath path | PathDenied path

definition is_denied :: "errno \<Rightarrow> bool" where
  "is_denied e \<longleftrightarrow> e = EPERM"

definition is_planted :: "errno \<Rightarrow> bool" where
  "is_planted e \<longleftrightarrow> e \<in> {ELOOP, ENOTDIR, EISDIR, EINVAL}"

definition guarded :: "path list \<Rightarrow> fs \<Rightarrow> path \<Rightarrow> errno + 'a \<Rightarrow> errno + 'a" where
  "guarded denied s p r = (if p \<in> set denied \<and> node_at s p \<noteq> None then Inl EPERM else r)"

definition drop_planted :: "fs \<Rightarrow> path \<Rightarrow> string \<Rightarrow> bool \<times> fs" where
  "drop_planted s d n =
     (case unlink_at s d n of
        Inr t \<Rightarrow> (True, t)
      | Inl e \<Rightarrow>
          (if e = ENOENT then (True, s)
           else if e \<noteq> EISDIR \<and> e \<noteq> EPERM then (False, s)
           else (case rmdir_at s d n of Inr t \<Rightarrow> (True, t) | Inl e' \<Rightarrow> (False, s))))"

definition reopen_subdir :: "path list \<Rightarrow> fs \<Rightarrow> path \<Rightarrow> string \<Rightarrow> blocked + path option" where
  "reopen_subdir denied s d n =
     (case guarded denied s (d @ [n]) (opendir_at s d n) of
        Inr p \<Rightarrow> Inr (Some p)
      | Inl e \<Rightarrow> (if is_planted e then Inl (HostilePath (d @ [n]))
                  else if is_denied e then Inl (PathDenied (d @ [n])) else Inr None))"

definition make_subdir :: "path list \<Rightarrow> fs \<Rightarrow> path \<Rightarrow> string \<Rightarrow> (blocked + path option) \<times> fs" where
  "make_subdir denied s d n =
     (case mkdir_at s d n 511 of
        Inr t \<Rightarrow> (reopen_subdir denied t d n, t)
      | Inl e \<Rightarrow> (if e = EEXIST then (reopen_subdir denied s d n, s)
                  else if is_denied e then (Inl (PathDenied (d @ [n])), s) else (Inr None, s)))"

definition open_lock_subdir :: "path list \<Rightarrow> fs \<Rightarrow> path \<Rightarrow> string \<Rightarrow> (blocked + path option) \<times> fs" where
  "open_lock_subdir denied s d n =
     (case guarded denied s (d @ [n]) (opendir_at s d n) of
        Inr p \<Rightarrow> (Inr (Some p), s)
      | Inl e \<Rightarrow>
          (if e = ENOENT then make_subdir denied s d n
           else if is_denied e then (Inl (PathDenied (d @ [n])), s)
           else if \<not> is_planted e then (Inr None, s)
           else case drop_planted s d n of
               (False, t) \<Rightarrow> (Inl (HostilePath (d @ [n])), t)
             | (True, t) \<Rightarrow> make_subdir denied t d n))"

fun open_lock_dirs :: "path list \<Rightarrow> fs \<Rightarrow> path \<Rightarrow> string list \<Rightarrow> (blocked + path option) \<times> fs" where
  "open_lock_dirs denied s d [] = (Inr (Some d), s)"
| "open_lock_dirs denied s d (n # ns) =
     (case open_lock_subdir denied s d n of
        (Inr (Some p), t) \<Rightarrow> open_lock_dirs denied t p ns
      | r \<Rightarrow> r)"

text \<open>\<open>_locks_dir_fd(create=True)\<close>: the runtime directory by name, then each level.\<close>

definition locks_dir_fd :: "path list \<Rightarrow> fs \<Rightarrow> path \<Rightarrow> string list \<Rightarrow> (blocked + path option) \<times> fs" where
  "locks_dir_fd denied s runtime parts =
     (case descend_at True s [] runtime of
        (Inl e, t) \<Rightarrow> (if is_denied e then Inl (PathDenied runtime) else Inr None, t)
      | (Inr r, t) \<Rightarrow>
          (if r \<in> set denied then (Inl (PathDenied runtime), t) else open_lock_dirs denied t r parts))"

text \<open>Opening the file itself, created when it is not there, with the type check of \<open>open_regular_at\<close>.\<close>

definition open_or_create :: "path list \<Rightarrow> fs \<Rightarrow> path \<Rightarrow> string \<Rightarrow> (errno + nat) \<times> fs" where
  "open_or_create denied s d n =
     (case guarded denied s (d @ [n]) (Inr ()) of
        Inl e \<Rightarrow> (Inl e, s)
      | Inr u \<Rightarrow>
          (case node_at s (d @ [n]) of
             None \<Rightarrow> (case create_excl s d n 420 of Inl e \<Rightarrow> (Inl e, s) | Inr (i, t) \<Rightarrow> (Inr i, t))
           | Some (NFile i) \<Rightarrow> (Inr i, s)
           | Some (NLink g m) \<Rightarrow> (Inl ELOOP, s)
           | Some (NDir m u) \<Rightarrow> (Inl EISDIR, s)
           | Some NSpecial \<Rightarrow> (Inl EINVAL, s)))"

definition open_lock_file :: "path list \<Rightarrow> fs \<Rightarrow> path \<Rightarrow> string \<Rightarrow> (blocked + nat option) \<times> fs" where
  "open_lock_file denied s d n =
     (case open_or_create denied s d n of
        (Inr i, t) \<Rightarrow> (Inr (Some i), t)
      | (Inl e, t) \<Rightarrow>
          (if is_denied e then (Inl (PathDenied (d @ [n])), t)
           else if \<not> is_planted e then (Inr None, t)
           else case drop_planted t d n of
               (False, u) \<Rightarrow> (Inl (HostilePath (d @ [n])), u)
             | (True, u) \<Rightarrow>
                 (case open_or_create denied u d n of
                    (Inr i, v) \<Rightarrow> (Inr (Some i), v)
                  | (Inl e', v) \<Rightarrow>
                      (if is_planted e' then Inl (HostilePath (d @ [n]))
                       else if is_denied e' then Inl (PathDenied (d @ [n])) else Inr None, v))))"

definition open_lock :: "world \<Rightarrow> lock \<Rightarrow> (blocked + nat option) \<times> fs" where
  "open_lock w l =
     (case locks_dir_fd (w_denied w) (w_fs w) (w_runtime w) (l_parts l) of
        (Inl b, s) \<Rightarrow> (Inl b, s)
      | (Inr None, s) \<Rightarrow> (Inr None, s)
      | (Inr (Some d), s) \<Rightarrow> open_lock_file (w_denied w) s d (l_name l))"

subsection \<open>Operations on lock objects\<close>

definition close_fd :: "nat \<Rightarrow> nat \<Rightarrow> world \<Rightarrow> world" where
  "close_fd pid d w =
     (let fds = filter (\<lambda>(p, k, inh). \<not> (p = pid \<and> k = d)) (w_fds w)
      in w\<lparr>w_fds := fds, w_table := (if list_ex (\<lambda>(p, k, inh). k = d) fds then w_table w else dict_del d (w_table w))\<rparr>)"

definition put_lock :: "nat \<Rightarrow> lock \<Rightarrow> world \<Rightarrow> world" where
  "put_lock h l w = w\<lparr>w_locks := dict_set h l (w_locks w)\<rparr>"

text \<open>\<open>acquire\<close> of the lock object \<open>h\<close>, which is \<open>l\<close>.\<close>

definition acquire :: "nat \<Rightarrow> lock \<Rightarrow> world \<Rightarrow> bool \<times> world" where
  "acquire h l w =
     (let path = lock_path w l in
      if (l_pid l, path) \<in> set (w_held w) then (True, put_lock h (l\<lparr>l_reentrant := True\<rparr>) w)
      else case open_lock w l of
          (Inl (HostilePath p), s) \<Rightarrow> (False, put_lock h (l\<lparr>l_hostile := Some p\<rparr>) (w\<lparr>w_fs := s\<rparr>))
        | (Inl (PathDenied p), s) \<Rightarrow> (False, put_lock h (l\<lparr>l_denied := Some p\<rparr>) (w\<lparr>w_fs := s\<rparr>))
        | (Inr None, s) \<Rightarrow> (True, w\<lparr>w_fs := s\<rparr>)
        | (Inr (Some i), s) \<Rightarrow>
            (let d = w_next w; w1 = w\<lparr>w_fs := s, w_next := Suc d\<rparr> in
             if \<not> w_flock w then (True, w1)
             else case flock_grant (w_table w) d i (l_exclusive l) of
                 None \<Rightarrow> (False, w1)
               | Some t \<Rightarrow>
                   (True, put_lock h (l\<lparr>l_fd := Some d\<rparr>)
                      (w1\<lparr>w_fs := write_inode i ((f_data s i)\<lparr>fd_bytes := nat_str (l_pid l) @ '' '' @ l_command l @ [CHR 0x0A]\<rparr>) s,
                          w_table := t, w_fds := (l_pid l, d, l_inheritable l) # w_fds w,
                          w_held := (if l_exclusive l then (l_pid l, path) # w_held w else w_held w)\<rparr>))))"

definition release :: "nat \<Rightarrow> lock \<Rightarrow> world \<Rightarrow> world" where
  "release h l w =
     (if l_reentrant l then w
      else let w1 = (if l_exclusive l then w\<lparr>w_held := filter (\<lambda>x. x \<noteq> (l_pid l, lock_path w l)) (w_held w)\<rparr> else w)
        in case l_fd l of
             None \<Rightarrow> w1
           | Some d \<Rightarrow>
               put_lock h (l\<lparr>l_fd := None\<rparr>)
                 (close_fd (l_pid l) d (if l_disowned l then w1 else w1\<lparr>w_table := dict_del d (w_table w1)\<rparr>)))"

definition disown :: "nat \<Rightarrow> lock \<Rightarrow> world \<Rightarrow> world" where
  "disown h l w = put_lock h (l\<lparr>l_disowned := True\<rparr>) w"

text \<open>The process calls around them: the child of a fork gets the descriptors and only execs or exits,
  so the lock objects stay with the parent; an exec keeps the inheritable descriptors alone.\<close>

definition fork :: "nat \<Rightarrow> nat \<Rightarrow> world \<Rightarrow> world" where
  "fork p q w = w\<lparr>w_fds := w_fds w @ map (\<lambda>(_, d, inh). (q, d, inh)) (filter (\<lambda>(k, _). k = p) (w_fds w))\<rparr>"

definition forget :: "nat \<Rightarrow> world \<Rightarrow> world" where
  "forget p w = w\<lparr>w_held := filter (\<lambda>(k, _). k \<noteq> p) (w_held w), w_locks := filter (\<lambda>(_, l). l_pid l \<noteq> p) (w_locks w)\<rparr>"

definition exec_call :: "nat \<Rightarrow> world \<Rightarrow> world" where
  "exec_call p w =
     foldr (\<lambda>d. close_fd p d) (map (\<lambda>(_, d, _). d) (filter (\<lambda>(k, _, inh). k = p \<and> \<not> inh) (w_fds w))) (forget p w)"

definition exit_call :: "nat \<Rightarrow> world \<Rightarrow> world" where
  "exit_call p w =
     foldr (\<lambda>d. close_fd p d) (map (\<lambda>(_, d, _). d) (filter (\<lambda>(k, _). k = p) (w_fds w))) (forget p w)"

subsection \<open>Probing\<close>

text \<open>\<open>_lock_is_held_at\<close> and \<open>busy_locks\<close>: \<open>None\<close> is LockStateUnknown.\<close>

definition lock_is_held_at :: "world \<Rightarrow> path \<Rightarrow> string \<Rightarrow> bool option" where
  "lock_is_held_at w d n =
     (case guarded (w_denied w) (w_fs w) (d @ [n]) (open_regular_at (w_fs w) d n) of
        Inl e \<Rightarrow> (if e = ENOENT then Some False else None)
      | Inr i \<Rightarrow> Some (w_flock w \<and> flock_grant (w_table w) (w_next w) i False = None))"

definition read_locks_dir :: "world \<Rightarrow> string list \<Rightarrow> path option option" where
  "read_locks_dir w parts =
     (if node_at (w_fs w) (w_runtime w) = None then Some None
      else if w_runtime w \<in> set (w_denied w) \<or> \<not> is_dir (w_fs w) (w_runtime w)
        \<or> list_ex (\<lambda>k. w_runtime w @ take k parts \<in> set (w_denied w) \<and> node_at (w_fs w) (w_runtime w @ take k parts) \<noteq> None)
            [1..<Suc (length parts)] then None
      else case fst (descend_at False (w_fs w) (w_runtime w) parts) of
          Inr p \<Rightarrow> Some (Some p)
        | Inl e \<Rightarrow> if e = ENOENT then Some None else None)"

definition is_lock_name :: "string \<Rightarrow> bool" where
  "is_lock_name n \<longleftrightarrow> 5 \<le> length n \<and> drop (length n - 5) n = ''.lock''"

fun probe_names :: "world \<Rightarrow> path \<Rightarrow> string list \<Rightarrow> path list option" where
  "probe_names w d [] = Some []"
| "probe_names w d (n # ns) =
     (if \<not> is_lock_name n then probe_names w d ns
      else case lock_is_held_at w d n of
          None \<Rightarrow> None
        | Some b \<Rightarrow> map_option (\<lambda>xs. if b then (d @ [n]) # xs else xs) (probe_names w d ns))"

definition probe_locks_dir :: "world \<Rightarrow> string list \<Rightarrow> path list option" where
  "probe_locks_dir w parts =
     (case read_locks_dir w parts of
        None \<Rightarrow> None
      | Some None \<Rightarrow> Some []
      | Some (Some d) \<Rightarrow> probe_names w d (listdir_at (w_fs w) d))"

definition busy_locks :: "world \<Rightarrow> path list option" where
  "busy_locks w =
     (case probe_locks_dir w CONTAINER_PARTS of
        None \<Rightarrow> None
      | Some xs \<Rightarrow> map_option (append xs) (probe_locks_dir w BUILD_PARTS))"

end
