(* ===== verification/Locking_Props.thy ===== *)
theory Locking_Props
  imports Locking
begin

text \<open>
  The locks as a state machine: processes create, acquire, release and disown lock objects, fork, exec and
  exit, and guests change files, permissions and anything planted in the lock directories, as long as a
  regular lock file stays in place. The invariant gives mutual exclusion, the absence of stale locks and
  the completeness of \<open>busy_locks\<close>.
\<close>

definition lock_file :: "path \<Rightarrow> bool" where
  "lock_file p \<longleftrightarrow> p \<noteq> [] \<and> is_lock_name (last p)"

definition keeps_files :: "fs \<Rightarrow> fs \<Rightarrow> bool" where
  "keeps_files s t \<longleftrightarrow> (\<forall>p i. lock_file p \<longrightarrow> node_at s p = Some (NFile i) \<longrightarrow> node_at t p = Some (NFile i))"

inductive lock_step :: "world \<Rightarrow> world \<Rightarrow> bool" where
  create: "dict_get (w_locks w) h = None \<Longrightarrow> parts = CONTAINER_PARTS \<or> parts = BUILD_PARTS \<Longrightarrow> plain_name name \<Longrightarrow>
    is_lock_name name \<Longrightarrow> lock_step w (put_lock h (new_lock pid x inh parts name cmd) w)"
| acq: "dict_get (w_locks w) h = Some l \<Longrightarrow> l_fd l = None \<Longrightarrow> \<not> l_reentrant l \<Longrightarrow> lock_step w (snd (acquire h l w))"
| rel: "dict_get (w_locks w) h = Some l \<Longrightarrow> lock_step w (release h l w)"
| dis: "dict_get (w_locks w) h = Some l \<Longrightarrow> lock_step w (disown h l w)"
| frk: "lock_step w (fork p q w)"
| exe: "lock_step w (exec_call p w)"
| ext: "lock_step w (exit_call p w)"
| guest: "keeps_files (w_fs w) s \<Longrightarrow> lock_step w (w\<lparr>w_fs := s, w_denied := denied\<rparr>)"

definition start :: "world \<Rightarrow> bool" where
  "start w \<longleftrightarrow> w_table w = [] \<and> w_fds w = [] \<and> w_held w = [] \<and> w_locks w = [] \<and> list_all plain_name (w_runtime w)"

inductive reachable :: "world \<Rightarrow> bool" where
  init: "start w \<Longrightarrow> reachable w"
| step: "reachable w \<Longrightarrow> lock_step w w' \<Longrightarrow> reachable w'"

subsection \<open>The lock files\<close>

lemma keeps_refl [simp]: "keeps_files s s"
  by (simp add: keeps_files_def)

lemma keeps_trans: "keeps_files s t \<Longrightarrow> keeps_files t u \<Longrightarrow> keeps_files s u"
  by (simp add: keeps_files_def)

lemma keeps_mkdir: "mkdir_at s d n m = Inr t \<Longrightarrow> keeps_files s t"
  by (auto simp: mkdir_at_def keeps_files_def at_plain split: if_splits)

lemma keeps_create: "create_excl s d n m = Inr (i, t) \<Longrightarrow> keeps_files s t \<and> node_at t (d @ [n]) = Some (NFile i)"
  by (auto simp: create_excl_def keeps_files_def at_plain node_at_def [of "s\<lparr>f_data := f, f_next := k\<rparr>" for f k]
      node_at_def [of s] split: if_splits)

lemma keeps_open_level: "open_level True s d n = (r, t) \<Longrightarrow> keeps_files s t"
  by (auto simp: open_level_def split: sum.splits if_splits dest: keeps_mkdir)

lemma keeps_descend: "descend_at True s d ns = (r, t) \<Longrightarrow> keeps_files s t"
proof (induction True s d ns arbitrary: r t rule: descend_at.induct)
  case (3 s d n m ns)
  obtain o1 u where l: "open_level True s d n = (o1, u)" by (cases "open_level True s d n")
  with 3 keeps_open_level [OF l] show ?case by (cases o1) (auto intro: keeps_trans)
qed (auto dest: keeps_open_level)

text \<open>What is dropped is no lock file: it has another name, or it is not a regular file.\<close>

lemma keeps_drop_planted:
  assumes "drop_planted s d n = (b, t)" and "plain_name n"
    and "is_lock_name n \<Longrightarrow> \<forall>i. node_at s (d @ [n]) \<noteq> Some (NFile i)"
  shows "keeps_files s t"
proof -
  have "t = s \<or> t = drop_node (d @ [n]) s"
    using assms(1,2) by (auto simp: drop_planted_def unlink_at_def rmdir_at_def at_plain
        split: option.splits node.splits sum.splits if_splits)
  with assms(3) show ?thesis by (auto simp: keeps_files_def lock_file_def)
qed

lemma keeps_make_subdir: "make_subdir denied s d n = (r, t) \<Longrightarrow> keeps_files s t"
  by (auto simp: make_subdir_def split: sum.splits if_splits dest: keeps_mkdir)

lemma subdir_path:
  "reopen_subdir denied s d n = Inr (Some p) \<Longrightarrow> plain_name n \<Longrightarrow> p = d @ [n]"
  "make_subdir denied s d n = (Inr (Some p), t) \<Longrightarrow> plain_name n \<Longrightarrow> p = d @ [n]"
proof -
  show a: "reopen_subdir denied s d n = Inr (Some p) \<Longrightarrow> plain_name n \<Longrightarrow> p = d @ [n]" for s
    by (auto simp: reopen_subdir_def guarded_def opendir_at_def at_plain
        split: sum.splits if_splits option.splits node.splits)
  show "make_subdir denied s d n = (Inr (Some p), t) \<Longrightarrow> plain_name n \<Longrightarrow> p = d @ [n]"
    by (auto simp: make_subdir_def split: sum.splits if_splits dest: a)
qed

lemma open_subdir_facts:
  assumes "open_lock_subdir denied s d n = (r, t)" and "plain_name n" and "\<not> is_lock_name n"
  shows "keeps_files s t" and "r = Inr (Some p) \<Longrightarrow> p = d @ [n]"
proof -
  have d: "drop_planted s d n = (b, u) \<Longrightarrow> keeps_files s u" for b u
    using keeps_drop_planted assms(2,3) by blast
  show "keeps_files s t"
    using assms(1) by (auto simp: open_lock_subdir_def split: sum.splits if_splits prod.splits bool.splits
        dest: keeps_make_subdir d intro: keeps_trans)
  show "r = Inr (Some p) \<Longrightarrow> p = d @ [n]"
    using assms(1,2) by (auto simp: open_lock_subdir_def guarded_def opendir_at_def at_plain
        split: sum.splits if_splits prod.splits bool.splits option.splits node.splits dest: subdir_path)
qed

lemma open_dirs_facts:
  assumes "open_lock_dirs denied s d ns = (r, t)" and "list_all (\<lambda>n. plain_name n \<and> \<not> is_lock_name n) ns"
  shows "keeps_files s t" and "r = Inr (Some p) \<Longrightarrow> p = d @ ns"
proof -
  have "keeps_files s t \<and> (\<forall>p. r = Inr (Some p) \<longrightarrow> p = d @ ns)"
    using assms
  proof (induction denied s d ns rule: open_lock_dirs.induct)
    case (2 denied s d n ns)
    obtain o1 u where l: "open_lock_subdir denied s d n = (o1, u)" by (cases "open_lock_subdir denied s d n")
    note f = open_subdir_facts [OF l]
    show ?case
    proof (cases "\<exists>p. o1 = Inr (Some p)")
      case True
      then obtain p where p: "o1 = Inr (Some p)" by blast
      with 2 l have "keeps_files u t \<and> (\<forall>q. r = Inr (Some q) \<longrightarrow> q = p @ ns)" by auto
      with f p 2 show ?thesis by (auto intro: keeps_trans)
    next
      case False
      with l 2 f show ?thesis by (auto split: sum.splits option.splits)
    qed
  qed auto
  then show "keeps_files s t" and "r = Inr (Some p) \<Longrightarrow> p = d @ ns" by auto
qed

lemma lock_dir_names: "parts = CONTAINER_PARTS \<or> parts = BUILD_PARTS \<Longrightarrow> list_all (\<lambda>n. plain_name n \<and> \<not> is_lock_name n) parts"
  by (auto simp: CONTAINER_PARTS_def BUILD_PARTS_def plain_name_def is_lock_name_def)

lemma locks_dir_facts:
  assumes "locks_dir_fd denied s runtime parts = (r, t)" and "parts = CONTAINER_PARTS \<or> parts = BUILD_PARTS"
    and "list_all plain_name runtime"
  shows "keeps_files s t" and "r = Inr (Some p) \<Longrightarrow> p = runtime @ parts"
proof -
  obtain o1 u where d: "descend_at True s [] runtime = (o1, u)" by (cases "descend_at True s [] runtime")
  have k: "keeps_files s u" using d by (rule keeps_descend)
  have q: "o1 = Inr q \<Longrightarrow> q = runtime" for q using descend_safe [OF d assms(3)] by auto
  note names = lock_dir_names [OF assms(2)]
  show "keeps_files s t"
    using assms(1) d k open_dirs_facts(1) [OF _ names]
    by (auto simp: locks_dir_fd_def split: sum.splits if_splits intro: keeps_trans)
  show "r = Inr (Some p) \<Longrightarrow> p = runtime @ parts"
    using assms(1) d q open_dirs_facts(2) [OF _ names]
    by (auto simp: locks_dir_fd_def split: sum.splits if_splits)
qed

lemma open_or_create_facts:
  assumes "open_or_create denied s d n = (r, t)"
  shows "keeps_files s t" and "r = Inr i \<Longrightarrow> node_at t (d @ [n]) = Some (NFile i)"
    and "r = Inl e \<Longrightarrow> is_planted e \<Longrightarrow> t = s \<and> (\<forall>i. node_at s (d @ [n]) \<noteq> Some (NFile i))"
  using assms by (auto simp: open_or_create_def guarded_def is_planted_def
      split: sum.splits if_splits option.splits node.splits dest: keeps_create)

lemma open_file_facts:
  assumes "open_lock_file denied s d n = (r, t)" and "plain_name n"
  shows "keeps_files s t" and "r = Inr (Some i) \<Longrightarrow> node_at t (d @ [n]) = Some (NFile i)"
proof -
  obtain o1 u where o1: "open_or_create denied s d n = (o1, u)" by (cases "open_or_create denied s d n")
  note a = open_or_create_facts [OF o1]
  have b: "keeps_files s v" if "drop_planted u d n = (b, v)" "o1 = Inl e" "is_planted e" for b v e
    using keeps_drop_planted [OF that(1) assms(2)] a(1) a(3) [OF that(2,3)] keeps_trans by blast
  show "keeps_files s t"
    using assms(1) o1 a(1) by (auto simp: open_lock_file_def split: sum.splits if_splits prod.splits bool.splits
        dest: open_or_create_facts(1) b intro: keeps_trans)
  show "r = Inr (Some i) \<Longrightarrow> node_at t (d @ [n]) = Some (NFile i)"
    using assms(1) o1 a(2) by (auto simp: open_lock_file_def split: sum.splits if_splits prod.splits bool.splits
        dest: open_or_create_facts(2))
qed

lemma open_lock_facts:
  assumes "open_lock w l = (r, t)" and "l_parts l = CONTAINER_PARTS \<or> l_parts l = BUILD_PARTS"
    and "list_all plain_name (w_runtime w)" and "plain_name (l_name l)"
  shows "keeps_files (w_fs w) t" and "r = Inr (Some i) \<Longrightarrow> node_at t (lock_path w l) = Some (NFile i)"
proof -
  obtain o1 u where d: "locks_dir_fd (w_denied w) (w_fs w) (w_runtime w) (l_parts l) = (o1, u)"
    by (cases "locks_dir_fd (w_denied w) (w_fs w) (w_runtime w) (l_parts l)")
  note f = locks_dir_facts [OF d assms(2,3)]
  show "keeps_files (w_fs w) t"
    using assms(1) d f open_file_facts(1) [OF _ assms(4)]
    by (auto simp: open_lock_def split: sum.splits option.splits intro: keeps_trans)
  show "r = Inr (Some i) \<Longrightarrow> node_at t (lock_path w l) = Some (NFile i)"
    using assms(1) d f(2) open_file_facts(2) [OF _ assms(4) refl]
    by (fastforce simp: open_lock_def lock_path_def split: sum.splits option.splits)
qed

subsection \<open>The invariant\<close>

definition has_fd :: "world \<Rightarrow> nat \<Rightarrow> nat \<Rightarrow> bool" where
  "has_fd w p d \<longleftrightarrow> (\<exists>inh. (p, d, inh) \<in> set (w_fds w))"

text \<open>A lock object that believes in its lock has it: on the file under its path, through a descriptor of
  its process, and no other object shares the description.\<close>

definition lock_true :: "world \<Rightarrow> lock \<Rightarrow> bool" where
  "lock_true w l \<longleftrightarrow>
     (case l_fd l of
        None \<Rightarrow> True
      | Some d \<Rightarrow> has_fd w (l_pid l) d
          \<and> (\<exists>i. dict_get (w_table w) d = Some (i, l_exclusive l) \<and> node_at (w_fs w) (lock_path w l) = Some (NFile i)))"

definition good_lock :: "lock \<Rightarrow> bool" where
  "good_lock l \<longleftrightarrow> (l_parts l = CONTAINER_PARTS \<or> l_parts l = BUILD_PARTS) \<and> plain_name (l_name l) \<and> is_lock_name (l_name l)"

definition own_fds :: "(nat \<times> lock) list \<Rightarrow> bool" where
  "own_fds ls \<longleftrightarrow> (\<forall>h k l m d. dict_get ls h = Some l \<longrightarrow> dict_get ls k = Some m \<longrightarrow> l_fd l = Some d \<longrightarrow> l_fd m = Some d \<longrightarrow> h = k)"

definition live_table :: "world \<Rightarrow> bool" where
  "live_table w \<longleftrightarrow> (\<forall>d v. dict_get (w_table w) d = Some v \<longrightarrow> (\<exists>p. has_fd w p d)) \<and> (\<forall>p d. has_fd w p d \<longrightarrow> d < w_next w)"

definition lock_inv :: "world \<Rightarrow> bool" where
  "lock_inv w \<longleftrightarrow> fl.exclusion (w_table w) \<and> live_table w \<and> own_fds (w_locks w) \<and> distinct (map fst (w_locks w))
     \<and> (\<forall>h l. dict_get (w_locks w) h = Some l \<longrightarrow> good_lock l \<and> lock_true w l) \<and> list_all plain_name (w_runtime w)"

lemma lock_file_path: "good_lock l \<Longrightarrow> lock_file (lock_path w l)"
  by (simp add: good_lock_def lock_file_def lock_path_def)

text \<open>Steps that only touch files keep the invariant when lock files stay.\<close>

lemma inv_files:
  assumes "lock_inv w" and "keeps_files (w_fs w) s"
  shows "lock_inv (w\<lparr>w_fs := s, w_denied := D, w_next := w_next w + k\<rparr>)"
proof -
  let ?w = "w\<lparr>w_fs := s, w_denied := D, w_next := w_next w + k\<rparr>"
  have t: "lock_true ?w l" if "lock_true w l" "good_lock l" for l
    using that assms(2) lock_file_path [OF that(2), of w]
    by (auto simp: lock_true_def keeps_files_def lock_path_def has_fd_def split: option.splits)
  have "live_table ?w"
    using assms(1) by (auto simp: lock_inv_def live_table_def has_fd_def) (meson trans_less_add1)
  with t assms(1) show ?thesis by (auto simp: lock_inv_def)
qed

lemma inv_put:
  assumes "lock_inv w" and "good_lock l" and "lock_true w l"
    and "\<And>d k m. l_fd l = Some d \<Longrightarrow> dict_get (w_locks w) k = Some m \<Longrightarrow> l_fd m = Some d \<Longrightarrow> h = k"
  shows "lock_inv (put_lock h l w)"
proof -
  have t: "lock_true (put_lock h l w) m = lock_true w m" for m
    by (simp add: lock_true_def put_lock_def has_fd_def lock_path_def split: option.split)
  have o: "own_fds (dict_set h l (w_locks w))"
    using assms(1,4) unfolding own_fds_def lock_inv_def by (auto split: if_splits)
  have "live_table (put_lock h l w) = live_table w" by (simp add: live_table_def put_lock_def has_fd_def)
  with assms t o show ?thesis
    unfolding lock_inv_def by (auto simp: put_lock_def dict_distinct_set split: if_splits)
qed

lemma close_fd_facts:
  "has_fd (close_fd pid d w) p k \<longleftrightarrow> has_fd w p k \<and> \<not> (p = pid \<and> k = d)"
  "w_fs (close_fd pid d w) = w_fs w" "w_locks (close_fd pid d w) = w_locks w" "w_runtime (close_fd pid d w) = w_runtime w"
  "w_next (close_fd pid d w) = w_next w"
  "w_table (close_fd pid d w) = w_table w \<or> w_table (close_fd pid d w) = dict_del d (w_table w) \<and> (\<forall>p. \<not> has_fd (close_fd pid d w) p d)"
  by (auto simp: close_fd_def Let_def has_fd_def list_ex_iff)

lemma close_fd_gone: "dict_get (w_table (close_fd pid d w)) d = Some v \<Longrightarrow> \<exists>p. has_fd (close_fd pid d w) p d"
  by (auto simp: close_fd_def Let_def has_fd_def list_ex_iff split: if_splits)

text \<open>Closing a descriptor that no lock object of the process relies on.\<close>

lemma inv_close:
  assumes "lock_inv w" and "\<And>h l. dict_get (w_locks w) h = Some l \<Longrightarrow> l_pid l = pid \<Longrightarrow> l_fd l \<noteq> Some d"
  shows "lock_inv (close_fd pid d w)"
proof -
  let ?w = "close_fd pid d w"
  note f = close_fd_facts [of pid d w]
  have tab: "dict_get (w_table ?w) k = Some v \<Longrightarrow> dict_get (w_table w) k = Some v" for k v
    using f(6) by (auto split: if_splits)
  have keep: "dict_get (w_table ?w) k = dict_get (w_table w) k" if "has_fd ?w p k" for p k
    using f(6) that by auto
  have t: "lock_true ?w l" if "dict_get (w_locks w) h = Some l" "lock_true w l" for h l
  proof (cases "l_fd l")
    case (Some k)
    with that(2) have hf: "has_fd w (l_pid l) k" by (simp add: lock_true_def)
    have "\<not> (l_pid l = pid \<and> k = d)" using assms(2) [OF that(1)] Some by auto
    with hf f(1) have "has_fd ?w (l_pid l) k" by simp
    with Some that(2) keep [OF this] f show ?thesis by (simp add: lock_true_def lock_path_def)
  qed (simp add: lock_true_def)
  have "live_table ?w"
    using assms(1) tab close_fd_gone [of pid d w] f(1,5) unfolding lock_inv_def live_table_def
    by (metis (no_types, lifting))
  moreover have "fl.exclusion (w_table ?w)"
    using f(6) assms(1) fl.exclusion_drop unfolding lock_inv_def by metis
  ultimately show ?thesis
    using assms(1) t f unfolding lock_inv_def by auto
qed

lemma inv_drop:
  assumes "lock_inv w" and "\<And>h l. dict_get (w_locks w) h = Some l \<Longrightarrow> l_fd l \<noteq> Some d"
  shows "lock_inv (w\<lparr>w_table := dict_del d (w_table w)\<rparr>)"
proof -
  have "lock_true (w\<lparr>w_table := dict_del d (w_table w)\<rparr>) l" if "dict_get (w_locks w) h = Some l" "lock_true w l" for h l
    using that assms(2) [OF that(1)] by (auto simp: lock_true_def has_fd_def lock_path_def split: option.splits)
  then show ?thesis
    using assms(1) by (auto simp: lock_inv_def live_table_def has_fd_def fl.exclusion_drop split: if_splits)
qed

lemma inv_held: "lock_inv (w\<lparr>w_held := H\<rparr>) = lock_inv w"
  by (simp add: lock_inv_def live_table_def has_fd_def lock_true_def lock_path_def split: option.split)

subsection \<open>Every step keeps it\<close>

lemma get_filter: "distinct (map fst d) \<Longrightarrow> dict_get (filter (\<lambda>(_, l). P l) d) h = Some l \<longleftrightarrow> dict_get d h = Some l \<and> P l"
  by (auto simp: dict_get_def distinct_map_filter)

lemma inv_forget: "lock_inv w \<Longrightarrow> lock_inv (forget p w)"
proof -
  assume i: "lock_inv w"
  then have d: "distinct (map fst (w_locks w))" by (simp add: lock_inv_def)
  have t: "lock_true (forget p w) l = lock_true w l" for l
    by (simp add: lock_true_def forget_def has_fd_def lock_path_def split: option.split)
  have "live_table (forget p w) = live_table w" by (simp add: live_table_def forget_def has_fd_def)
  moreover have "own_fds (w_locks (forget p w))"
    using i get_filter [OF d] unfolding own_fds_def lock_inv_def forget_def by auto
  ultimately show ?thesis
    using i t get_filter [OF d] by (auto simp: lock_inv_def forget_def distinct_map_filter)
qed

lemma inv_close_all:
  assumes "lock_inv w" and "\<And>h l. dict_get (w_locks w) h = Some l \<Longrightarrow> l_pid l \<noteq> p"
  shows "lock_inv (foldr (\<lambda>d. close_fd p d) ds w) \<and> w_locks (foldr (\<lambda>d. close_fd p d) ds w) = w_locks w"
proof (induction ds)
  case (Cons d ds)
  let ?w = "foldr (\<lambda>d. close_fd p d) ds w"
  have "lock_inv (close_fd p d ?w)"
    using Cons assms(2) by (intro inv_close) auto
  with Cons show ?case by (simp add: close_fd_facts(3))
qed (simp add: assms(1))

lemma inv_forget_close: "lock_inv w \<Longrightarrow> lock_inv (foldr (\<lambda>d. close_fd p d) ds (forget p w))"
proof -
  assume i: "lock_inv w"
  then have d: "distinct (map fst (w_locks w))" by (simp add: lock_inv_def)
  have "l_pid l \<noteq> p" if "dict_get (w_locks (forget p w)) h = Some l" for h l
    using that get_filter [OF d] by (auto simp: forget_def)
  with inv_close_all [OF inv_forget [OF i], of p p ds] show ?thesis by blast
qed

lemma inv_open:
  assumes "lock_inv w" and "open_lock w l = (r, s)" and "good_lock l"
  shows "lock_inv (w\<lparr>w_fs := s, w_denied := D, w_next := w_next w + k\<rparr>)"
proof -
  have "keeps_files (w_fs w) s"
    using assms open_lock_facts(1) [OF assms(2)] by (simp add: lock_inv_def good_lock_def)
  with assms(1) show ?thesis by (rule inv_files)
qed

text \<open>A granted lock: the description is new, so no other object and no other entry has it.\<close>

lemma inv_grant:
  assumes inv: "lock_inv w" and get: "dict_get (w_locks w) h = Some l" and "l_fd l = None"
    and op: "open_lock w l = (Inr (Some i), s)" and gr: "flock_grant (w_table w) (w_next w) i (l_exclusive l) = Some t"
  shows "lock_inv (put_lock h (l\<lparr>l_fd := Some (w_next w)\<rparr>)
      (w\<lparr>w_next := Suc (w_next w), w_fs := write_inode i D s, w_table := t,
         w_fds := (l_pid l, w_next w, inh) # w_fds w, w_held := H\<rparr>))"
proof -
  let ?d = "w_next w"
  let ?u = "w\<lparr>w_next := Suc ?d, w_fs := write_inode i D s, w_table := t, w_fds := (l_pid l, ?d, inh) # w_fds w, w_held := H\<rparr>"
  have g: "good_lock l" using inv get by (simp add: lock_inv_def)
  have files: "keeps_files (w_fs w) s" "node_at s (lock_path w l) = Some (NFile i)"
    using open_lock_facts [OF op] inv g by (simp_all add: lock_inv_def good_lock_def)
  have fresh: "\<not> has_fd w p ?d" for p using inv by (auto simp: lock_inv_def live_table_def)
  have old: "dict_get t k = (if k = ?d then Some (i, l_exclusive l) else dict_get (w_table w) k)" for k
    using fl.grant_holds [OF gr] .
  have none: "l_fd m \<noteq> Some ?d" if "dict_get (w_locks w) k = Some m" for k m
  proof
    assume "l_fd m = Some ?d"
    moreover have "lock_true w m" using inv that by (simp add: lock_inv_def)
    ultimately show False using fresh by (simp add: lock_true_def)
  qed
  have kept: "lock_true ?u m" if "dict_get (w_locks w) k = Some m" for k m
  proof (cases "l_fd m")
    case (Some d)
    have m: "lock_true w m" "good_lock m" using inv that by (simp_all add: lock_inv_def)
    from none [OF that] Some have "d \<noteq> ?d" by simp
    with m Some old files(1) lock_file_path [OF m(2), of w] show ?thesis
      by (auto simp: lock_true_def has_fd_def keeps_files_def lock_path_def)
  qed (simp add: lock_true_def)
  have inv_u: "lock_inv ?u"
  proof -
    have "(p, d, b) \<in> set (w_fds w) \<Longrightarrow> d < ?d" for p d b
      using inv unfolding lock_inv_def live_table_def has_fd_def by blast
    then have "live_table ?u"
      using inv old by (auto simp: lock_inv_def live_table_def has_fd_def less_Suc_eq split: if_splits)
    moreover have "fl.exclusion t" using inv fl.exclusion_grant [OF _ gr] by (simp add: lock_inv_def)
    ultimately show ?thesis using inv kept by (simp add: lock_inv_def)
  qed
  show ?thesis
  proof (rule inv_put [OF inv_u])
    show "good_lock (l\<lparr>l_fd := Some ?d\<rparr>)" using g by (simp add: good_lock_def)
    show "lock_true ?u (l\<lparr>l_fd := Some ?d\<rparr>)"
      using files(2) old by (simp add: lock_true_def has_fd_def lock_path_def) blast
  qed (use none in auto)
qed

lemma inv_acquire:
  assumes "lock_inv w" and "dict_get (w_locks w) h = Some l" and "l_fd l = None"
  shows "lock_inv (snd (acquire h l w))"
proof -
  have g: "good_lock l" using assms by (simp add: lock_inv_def)
  have put: "lock_inv (put_lock h m v)" if "lock_inv v" "l_fd m = None" "good_lock m" for m v
    using that by (intro inv_put) (auto simp: lock_true_def)
  obtain o1 s where op: "open_lock w l = (o1, s)" by (cases "open_lock w l")
  have files: "lock_inv (w\<lparr>w_fs := s\<rparr>)" "lock_inv (w\<lparr>w_fs := s, w_next := Suc (w_next w)\<rparr>)"
    using inv_open [OF assms(1) op g, where D = "w_denied w" and k = 0]
      inv_open [OF assms(1) op g, where D = "w_denied w" and k = 1] by simp_all
  have g': "good_lock (l\<lparr>l_reentrant := True\<rparr>)" "good_lock (l\<lparr>l_hostile := x\<rparr>)" "good_lock (l\<lparr>l_denied := x\<rparr>)" for x
    using g by (simp_all add: good_lock_def)
  show ?thesis
  proof (cases "(l_pid l, lock_path w l) \<in> set (w_held w)")
    case True
    then show ?thesis using put [OF assms(1) _ g'(1)] assms(3) by (simp add: acquire_def)
  next
    case False
    show ?thesis
    proof (cases o1)
      case (Inl b)
      then show ?thesis
        using False op put [OF files(1)] g' assms(3) by (cases b) (simp_all add: acquire_def)
    next
      case (Inr oi)
      show ?thesis
      proof (cases oi)
        case (Some i)
        show ?thesis
        proof (cases "flock_grant (w_table w) (w_next w) i (l_exclusive l)")
          case None
          then show ?thesis using False op Inr Some files(2) by (simp add: acquire_def Let_def)
        next
          case gr: (Some t)
          from inv_grant [OF assms op [unfolded Inr Some] gr] show ?thesis
            using False op Inr Some gr files(2) by (simp add: acquire_def Let_def)
        qed
      qed (use False op Inr files(1) in \<open>simp add: acquire_def\<close>)
    qed
  qed
qed

lemma inv_release:
  assumes "lock_inv w" and "dict_get (w_locks w) h = Some l"
  shows "lock_inv (release h l w)"
proof (cases "l_reentrant l")
  case False
  define w1 where "w1 = (if l_exclusive l then w\<lparr>w_held := filter (\<lambda>x. x \<noteq> (l_pid l, lock_path w l)) (w_held w)\<rparr> else w)"
  have i1: "lock_inv w1" using assms(1) inv_held by (simp add: w1_def)
  have l1: "w_locks w1 = w_locks w" by (simp add: w1_def)
  show ?thesis
  proof (cases "l_fd l")
    case None
    with False i1 show ?thesis by (simp add: release_def w1_def [symmetric] Let_def)
  next
    case (Some d)
    let ?l = "l\<lparr>l_fd := None\<rparr>"
    have g: "good_lock ?l" using assms by (simp add: lock_inv_def good_lock_def)
    have own: "h = k" if "dict_get (w_locks w) k = Some m" "l_fd m = Some d" for k m
      using assms that Some unfolding lock_inv_def own_fds_def by blast
    have p1: "lock_inv (put_lock h ?l w1)"
      by (rule inv_put [OF i1 g]) (simp_all add: lock_true_def)
    have free: "l_fd m \<noteq> Some d" if "dict_get (w_locks (put_lock h ?l v)) k = Some m" "w_locks v = w_locks w" for k m v
      using that own by (auto simp: put_lock_def split: if_splits)
    have swap: "put_lock h ?l (close_fd p d v) = close_fd p d (put_lock h ?l v)" for p v
      by (simp add: put_lock_def close_fd_def Let_def)
    have swap2: "put_lock h ?l (v\<lparr>w_table := T\<rparr>) = (put_lock h ?l v)\<lparr>w_table := T\<rparr>" for v T by (simp add: put_lock_def)
    have tab: "w_table (put_lock h ?l w1) = w_table w1" by (simp add: put_lock_def)
    have "lock_inv (close_fd (l_pid l) d (put_lock h ?l w1))"
      by (rule inv_close [OF p1]) (use free l1 in blast)
    moreover have "lock_inv (close_fd (l_pid l) d ((put_lock h ?l w1)\<lparr>w_table := dict_del d (w_table w1)\<rparr>))"
    proof (rule inv_close)
      show "lock_inv ((put_lock h ?l w1)\<lparr>w_table := dict_del d (w_table w1)\<rparr>)"
        using inv_drop [OF p1, of d] free [OF _ l1] tab by simp
      show "l_fd m \<noteq> Some d" if "dict_get (w_locks ((put_lock h ?l w1)\<lparr>w_table := dict_del d (w_table w1)\<rparr>)) k = Some m" for k m
        using free [OF _ l1] that by simp
    qed
    ultimately show ?thesis
      using False Some by (simp add: release_def w1_def [symmetric] Let_def swap swap2)
  qed
qed (simp add: release_def assms(1))

lemma inv_fork: "lock_inv w \<Longrightarrow> lock_inv (fork p q w)"
proof -
  assume i: "lock_inv w"
  have f: "has_fd w k d \<Longrightarrow> has_fd (fork p q w) k d" "has_fd (fork p q w) k d \<Longrightarrow> \<exists>k'. has_fd w k' d" for k d
    by (auto simp: has_fd_def fork_def)
  have "live_table (fork p q w)"
  proof -
    have "w_table (fork p q w) = w_table w" "w_next (fork p q w) = w_next w" by (simp_all add: fork_def)
    with i f show ?thesis unfolding lock_inv_def live_table_def by metis
  qed
  moreover have "lock_true w l \<Longrightarrow> lock_true (fork p q w) l" for l
    using f(1) by (auto simp: lock_true_def lock_path_def fork_def split: option.splits)
  ultimately show ?thesis using i by (auto simp: lock_inv_def fork_def)
qed

lemma inv_step: "lock_step w w' \<Longrightarrow> lock_inv w \<Longrightarrow> lock_inv w'"
proof (induction rule: lock_step.induct)
  case (create w h parts name pid x inh cmd)
  then show ?case by (intro inv_put) (auto simp: good_lock_def new_lock_def lock_true_def)
next
  case (dis w h l)
  show ?case unfolding disown_def
  proof (rule inv_put [OF dis(2)])
    show "good_lock (l\<lparr>l_disowned := True\<rparr>)" "lock_true w (l\<lparr>l_disowned := True\<rparr>)"
      using dis by (auto simp: lock_inv_def good_lock_def lock_true_def lock_path_def split: option.splits)
    show "h = k" if "l_fd (l\<lparr>l_disowned := True\<rparr>) = Some d" "dict_get (w_locks w) k = Some m" "l_fd m = Some d" for d k m
      using dis that unfolding lock_inv_def own_fds_def by simp
  qed
next
  case (guest w s denied)
  then show ?case using inv_files [where D = denied and k = 0] by simp
qed (simp_all add: inv_acquire inv_release inv_fork exec_call_def exit_call_def inv_forget_close)

lemma reachable_inv: "reachable w \<Longrightarrow> lock_inv w"
proof (induction rule: reachable.induct)
  case (init w)
  then show ?case by (simp add: start_def lock_inv_def fl.exclusion_def live_table_def has_fd_def own_fds_def)
qed (rule inv_step)

subsection \<open>Properties\<close>

text \<open>C4. Two lock objects that both hold a lock on the same container or image, whatever the processes,
  forks, exits and guests did before, are both shared: an exclusive holder is alone.\<close>

theorem mutual_exclusion:
  assumes "reachable w" and "dict_get (w_locks w) h = Some l" and "dict_get (w_locks w) k = Some m" and "h \<noteq> k"
    and "l_fd l \<noteq> None" and "l_fd m \<noteq> None" and "lock_path w l = lock_path w m"
  shows "\<not> l_exclusive l \<and> \<not> l_exclusive m"
proof -
  have inv: "lock_inv w" using assms(1) by (rule reachable_inv)
  obtain c d where c: "l_fd l = Some c" and d: "l_fd m = Some d" using assms(5,6) by blast
  have "lock_true w l" "lock_true w m" using inv assms(2,3) by (simp_all add: lock_inv_def)
  with c d assms(7) obtain i where t: "dict_get (w_table w) c = Some (i, l_exclusive l)"
    "dict_get (w_table w) d = Some (i, l_exclusive m)" by (auto simp: lock_true_def)
  have "c \<noteq> d" using inv assms(2,3,4) c d unfolding lock_inv_def own_fds_def by blast
  moreover have "fl.exclusion (w_table w)" using inv by (simp add: lock_inv_def)
  ultimately show ?thesis using fl.exclusionD t by blast
qed

text \<open>C26. There are no stale locks: when \<open>acquire\<close> refuses although the lock file could be opened, some process
  that is still there has a description open that holds the file against it. In particular the lock of a
  process that crashed never stands in the way.\<close>

theorem refusal_has_live_holder:
  assumes "reachable w" and "dict_get (w_locks w) h = Some l" and "acquire h l w = (False, w')"
    and "open_lock w l = (Inr (Some i), s)"
  shows "\<exists>d x p inh. (p, d, inh) \<in> set (w_fds w) \<and> dict_get (w_table w) d = Some (i, x) \<and> (x \<or> l_exclusive l)"
proof -
  have inv: "lock_inv w" using assms(1) by (rule reachable_inv)
  have "flock_grant (w_table w) (w_next w) i (l_exclusive l) = None"
    using assms(3,4) by (auto simp: acquire_def Let_def split: if_splits option.splits)
  moreover have "distinct (map fst (w_table w))" using inv by (simp add: lock_inv_def fl.exclusion_def)
  ultimately obtain d x where d: "dict_get (w_table w) d = Some (i, x)" "l_exclusive l \<or> x"
    using fl.grant_refused [of "w_table w" "w_next w" i "l_exclusive l"] by auto
  moreover from inv d(1) obtain p where "has_fd w p d" unfolding lock_inv_def live_table_def by blast
  ultimately show ?thesis unfolding has_fd_def by blast
qed

text \<open>The lock of a detached session: once the lock object is disowned and a forked process has its
  descriptors, the parent's release and its exit leave the description's lock as it was.\<close>

theorem disowned_lock_survives:
  assumes "l_fd l = Some d" and "(q, d, inh) \<in> set (w_fds w)" and "q \<noteq> l_pid l"
  shows "dict_get (w_table (exit_call (l_pid l) (release h (l\<lparr>l_disowned := True\<rparr>) (disown h l w)))) d = dict_get (w_table w) d"
proof -
  let ?l = "l\<lparr>l_disowned := True\<rparr>"
  have step: "has_fd (close_fd (l_pid l) k v) q d \<and> dict_get (w_table (close_fd (l_pid l) k v)) d = dict_get (w_table v) d"
    if "has_fd v q d" for k v
    using that assms(3) close_fd_facts(1) [of "l_pid l" k v q d] close_fd_facts(6) [of "l_pid l" k v] by auto
  have all: "dict_get (w_table (foldr (\<lambda>k. close_fd (l_pid l) k) ds v)) d = dict_get (w_table v) d"
    if "has_fd v q d" for ds v
  proof -
    have "has_fd (foldr (\<lambda>k. close_fd (l_pid l) k) ds v) q d
      \<and> dict_get (w_table (foldr (\<lambda>k. close_fd (l_pid l) k) ds v)) d = dict_get (w_table v) d"
      using that step by (induction ds) auto
    then show ?thesis ..
  qed
  define u where "u = release h ?l (disown h l w)"
  have u: "has_fd u q d \<and> dict_get (w_table u) d = dict_get (w_table w) d"
  proof (cases "l_reentrant l")
    case True
    then show ?thesis using assms(2) by (auto simp: u_def release_def disown_def put_lock_def has_fd_def)
  next
    case False
    define v where "v = (if l_exclusive l then (disown h l w)\<lparr>w_held := filter (\<lambda>x. x \<noteq> (l_pid l, lock_path (disown h l w) l)) (w_held (disown h l w))\<rparr> else disown h l w)"
    have v: "has_fd v q d" "w_table v = w_table w" using assms(2) by (auto simp: v_def disown_def put_lock_def has_fd_def)
    have "u = put_lock h (?l\<lparr>l_fd := None\<rparr>) (close_fd (l_pid l) d v)"
      using False assms(1) by (simp add: u_def release_def v_def Let_def lock_path_def)
    with step [OF v(1), of d] v(2) show ?thesis by (simp add: put_lock_def has_fd_def)
  qed
  have "has_fd (forget (l_pid l) u) q d" "w_table (forget (l_pid l) u) = w_table u"
    using u by (simp_all add: forget_def has_fd_def)
  with all [of "forget (l_pid l) u"] u show ?thesis by (simp add: exit_call_def u_def)
qed

lemma probe_complete:
  assumes "probe_names w d ns = Some xs" and "n \<in> set ns" and "is_lock_name n" and "plain_name n"
    and "node_at (w_fs w) (d @ [n]) = Some (NFile i)" and "w_flock w" and "flock_grant (w_table w) (w_next w) i False = None"
  shows "d @ [n] \<in> set xs"
  using assms(1,2)
proof (induction ns arbitrary: xs)
  case (Cons m ns)
  have held: "lock_is_held_at w d n = Some True \<or> lock_is_held_at w d n = None"
    using assms by (auto simp: lock_is_held_at_def guarded_def open_regular_at_def at_plain)
  show ?case
  proof (cases "m = n")
    case True
    with Cons.prems held assms(3) show ?thesis by auto
  next
    case False
    with Cons show ?thesis by (auto split: if_splits option.splits)
  qed
qed simp

lemma read_dir_here:
  assumes "wf_fs (w_fs w)" and "node_at (w_fs w) (w_runtime w @ parts @ [n]) = Some x" and "read_locks_dir w parts = Some r"
    and "list_all plain_name parts"
  shows "r = Some (w_runtime w @ parts)"
proof -
  have dirs: "is_dir (w_fs w) q" if "prefix q (w_runtime w @ parts)" for q
  proof -
    from that obtain zs where "w_runtime w @ parts = q @ zs" by (auto simp: prefix_def)
    with assms(2) have "node_at (w_fs w) (q @ zs @ [n]) \<noteq> None" by (metis append.assoc option.distinct(1))
    then show ?thesis using wf_prefix_dir [OF assms(1), of q "hd (zs @ [n])" "tl (zs @ [n])"] by (cases zs) simp_all
  qed
  have down: "fst (descend_at False (w_fs w) p ns) = Inr (p @ ns)"
    if "prefix (p @ ns) (w_runtime w @ parts)" "list_all plain_name ns" for p ns
    using that
  proof (induction ns arbitrary: p)
    case Nil
    then show ?case using dirs by simp
  next
    case (Cons m ns)
    have "is_dir (w_fs w) (p @ [m])" using Cons.prems(1) by (intro dirs) (metis append.assoc append_Cons append_Nil append_prefixD)
    then have "opendir_at (w_fs w) p m = Inr (p @ [m])"
      using Cons.prems(2) by (auto simp: opendir_at_def at_plain is_dir_def split: option.splits node.splits)
    then have "open_level False (w_fs w) p m = (Inr (p @ [m]), w_fs w)" by (simp add: open_level_def)
    with Cons.IH [of "p @ [m]"] Cons.prems show ?case by (cases ns) simp_all
  qed
  have "is_dir (w_fs w) (w_runtime w)" by (rule dirs) simp
  then have "node_at (w_fs w) (w_runtime w) \<noteq> None" by (auto simp: is_dir_def split: option.splits)
  with down [of "w_runtime w" parts] assms(3,4) show ?thesis by (auto simp: read_locks_dir_def split: if_splits)
qed

text \<open>\<open>busy_locks\<close> misses nothing: when it answers at all, the path of every lock some lock object holds
  exclusively is in the answer, so an empty answer means that no command writes to the cache.\<close>

theorem busy_locks_complete:
  assumes "reachable w" and "wf_fs (w_fs w)" and "w_flock w" and "busy_locks w = Some xs"
    and "dict_get (w_locks w) h = Some l" and "l_fd l \<noteq> None" and "l_exclusive l"
  shows "lock_path w l \<in> set xs"
proof -
  have inv: "lock_inv w" using assms(1) by (rule reachable_inv)
  obtain d where d: "l_fd l = Some d" using assms(6) by blast
  from inv assms(5) have g: "good_lock l" and t: "lock_true w l" by (simp_all add: lock_inv_def)
  from t d assms(7) obtain i where i: "dict_get (w_table w) d = Some (i, True)"
    and node: "node_at (w_fs w) (lock_path w l) = Some (NFile i)" and fd: "has_fd w (l_pid l) d"
    by (auto simp: lock_true_def)
  have "d \<noteq> w_next w" using inv fd by (auto simp: lock_inv_def live_table_def)
  moreover have "distinct (map fst (w_table w))" using inv by (simp add: lock_inv_def fl.exclusion_def)
  ultimately have busy: "flock_grant (w_table w) (w_next w) i False = None"
    using fl.grant_refused [of "w_table w" "w_next w" i False] i by auto
  have plain: "list_all plain_name (l_parts l)" using lock_dir_names g by (fastforce simp: good_lock_def list_all_iff)
  have found: "lock_path w l \<in> set ys" if "probe_locks_dir w (l_parts l) = Some ys" for ys
  proof -
    from that obtain r where r: "read_locks_dir w (l_parts l) = Some r" by (auto simp: probe_locks_dir_def split: option.splits)
    have dir: "r = Some (w_runtime w @ l_parts l)"
      using read_dir_here [OF assms(2) _ r plain] node by (simp add: lock_path_def)
    have n: "plain_name (l_name l)" "is_lock_name (l_name l)" using g by (simp_all add: good_lock_def)
    have "l_name l \<in> set (listdir_at (w_fs w) (w_runtime w @ l_parts l))"
      using listdir_iff [OF assms(2)] node by (simp add: lock_path_def)
    from probe_complete [OF _ this n(2,1) _ assms(3) busy, of "w_runtime w @ l_parts l" ys] r dir that node show ?thesis
      by (simp add: probe_locks_dir_def lock_path_def)
  qed
  from assms(4) obtain a b where "probe_locks_dir w CONTAINER_PARTS = Some a" "probe_locks_dir w BUILD_PARTS = Some b" "xs = a @ b"
    by (auto simp: busy_locks_def split: option.splits)
  with found g show ?thesis by (auto simp: good_lock_def)
qed

subsection \<open>Examples\<close>

definition quiet_world :: world where
  "quiet_world =
     \<lparr>w_fs = sample_fs [([], NDir 493 0), ([''rt''], NDir 493 0)], w_denied = [], w_runtime = [''rt''], w_flock = True,
      w_table = [], w_fds = [], w_next = 0, w_held = [], w_locks = []\<rparr>"

text \<open>Two processes want container \<open>a\<close>, each shared or exclusively; the first one goes first.\<close>

definition first_lock :: "bool \<Rightarrow> lock" where
  "first_lock x = container_lock 1 ''a'' x ''backup'' True"

definition second_lock :: "bool \<Rightarrow> lock" where
  "second_lock x = container_lock 2 ''a'' x ''backup'' True"

definition one_holder :: "bool \<Rightarrow> world" where
  "one_holder x = put_lock 1 (second_lock x) (snd (acquire 0 (first_lock x) (put_lock 0 (first_lock x) quiet_world)))"

definition two_holders :: world where
  "two_holders = snd (acquire 1 (second_lock False) (one_holder False))"

lemma one_holder_reachable: "reachable (one_holder x)"
proof -
  have q: "reachable quiet_world" by (rule init) (simp add: start_def quiet_world_def plain_name_def)
  have n: "plain_name ''a.lock''" "is_lock_name ''a.lock''" by (simp_all add: plain_name_def is_lock_name_def)
  have a: "lock_step quiet_world (put_lock 0 (first_lock x) quiet_world)"
    using create [of quiet_world 0 CONTAINER_PARTS "''a.lock''" 1 x True "''backup''"] n
    by (simp add: first_lock_def container_lock_def quiet_world_def)
  let ?v = "put_lock 0 (first_lock x) quiet_world"
  have b: "lock_step ?v (snd (acquire 0 (first_lock x) ?v))"
    by (rule acq) (simp_all add: put_lock_def first_lock_def container_lock_def new_lock_def)
  let ?w = "snd (acquire 0 (first_lock x) ?v)"
  have "dict_get (w_locks ?w) 1 = None" by (cases x) code_simp+
  then have c: "lock_step ?w (put_lock 1 (second_lock x) ?w)"
    using create [of ?w 1 CONTAINER_PARTS "''a.lock''" 2 x True "''backup''"] n
    by (simp add: second_lock_def container_lock_def)
  from step [OF step [OF step [OF q a] b] c] show ?thesis by (simp add: one_holder_def)
qed

lemma two_holders_reachable: "reachable two_holders"
proof (rule step [OF one_holder_reachable])
  show "lock_step (one_holder False) two_holders"
    unfolding two_holders_def
    by (rule acq) (simp_all add: one_holder_def put_lock_def second_lock_def container_lock_def new_lock_def)
qed

theorem mutual_exclusion_witness:
  "(case (dict_get (w_locks two_holders) 0, dict_get (w_locks two_holders) 1) of
      (Some l, Some m) \<Rightarrow> l_fd l = Some 0 \<and> l_fd m = Some 1 \<and> \<not> l_exclusive l \<and> \<not> l_exclusive m
    | _ \<Rightarrow> False)"
proof -
  have c: "case (dict_get (w_locks two_holders) 0, dict_get (w_locks two_holders) 1) of
      (Some l, Some m) \<Rightarrow> l_fd l = Some 0 \<and> l_fd m = Some 1 \<and> lock_path two_holders l = lock_path two_holders m | _ \<Rightarrow> False"
    by code_simp
  then obtain l m where l: "dict_get (w_locks two_holders) 0 = Some l" "dict_get (w_locks two_holders) 1 = Some m"
    by (auto split: option.splits)
  with c mutual_exclusion [OF two_holders_reachable l] show ?thesis by simp
qed

theorem refusal_has_live_holder_witness:
  "fst (acquire 1 (second_lock True) (one_holder True)) = False
   \<and> (\<exists>d x p inh. (p, d, inh) \<in> set (w_fds (one_holder True)) \<and> dict_get (w_table (one_holder True)) d = Some (10, x))"
proof -
  have c: "fst (acquire 1 (second_lock True) (one_holder True)) = False"
    "fst (open_lock (one_holder True) (second_lock True)) = Inr (Some 10)" by code_simp+
  have l: "dict_get (w_locks (one_holder True)) 1 = Some (second_lock True)" by (simp add: one_holder_def put_lock_def)
  obtain w' where a: "acquire 1 (second_lock True) (one_holder True) = (False, w')"
    using c(1) by (cases "acquire 1 (second_lock True) (one_holder True)") simp
  obtain s where "open_lock (one_holder True) (second_lock True) = (Inr (Some 10), s)"
    using c(2) by (cases "open_lock (one_holder True) (second_lock True)") simp
  from refusal_has_live_holder [OF one_holder_reachable l a this] c(1) show ?thesis by blast
qed

theorem disowned_lock_survives_witness:
  "(let w = fork 1 7 (one_holder False) in
    case dict_get (w_locks w) 0 of
      None \<Rightarrow> False
    | Some l \<Rightarrow> dict_get (w_table (exit_call 1 (release 0 (l\<lparr>l_disowned := True\<rparr>) (disown 0 l w)))) 0 = Some (10, False))"
proof -
  let ?w = "fork 1 7 (one_holder False)"
  have c: "case dict_get (w_locks ?w) 0 of None \<Rightarrow> False
      | Some l \<Rightarrow> l_fd l = Some 0 \<and> l_pid l = 1 \<and> (7, 0, True) \<in> set (w_fds ?w) \<and> dict_get (w_table ?w) 0 = Some (10, False)"
    by code_simp
  then obtain l where l: "dict_get (w_locks ?w) 0 = Some l" "l_fd l = Some 0" "l_pid l = 1" "(7, 0, True) \<in> set (w_fds ?w)"
    "dict_get (w_table ?w) 0 = Some (10, False)" by (auto split: option.splits)
  from disowned_lock_survives [OF l(2,4), of 0] l show ?thesis by (simp add: Let_def)
qed

theorem busy_locks_complete_witness:
  "(case busy_locks (one_holder True) of Some xs \<Rightarrow> [''rt'', ''locks'', ''a.lock''] \<in> set xs | None \<Rightarrow> False)"
proof -
  have c: "busy_locks (one_holder True) \<noteq> None" "wf_fs (w_fs (one_holder True))" "w_flock (one_holder True)" by code_simp+
  have d: "case dict_get (w_locks (one_holder True)) 0 of None \<Rightarrow> False
      | Some l \<Rightarrow> l_fd l = Some 0 \<and> l_exclusive l \<and> lock_path (one_holder True) l = [''rt'', ''locks'', ''a.lock'']" by code_simp
  then obtain l where l: "dict_get (w_locks (one_holder True)) 0 = Some l" "l_fd l \<noteq> None" "l_exclusive l"
    "lock_path (one_holder True) l = [''rt'', ''locks'', ''a.lock'']" by (auto split: option.splits)
  from c(1) obtain xs where xs: "busy_locks (one_holder True) = Some xs" by blast
  from busy_locks_complete [OF one_holder_reachable c(2,3) xs l(1,2,3)] xs l(4) show ?thesis by simp
qed

end
