(* ===== verification/Py_Float.thy ===== *)
theory Py_Float
  imports Py_Json
begin

text \<open>
  The numbers of a JSON document as Python reads them: an integer of any size, or a binary64 float. A finite
  float is the integer that it is a multiple of \<open>2 ^ -1074\<close> by, so floats compare as integers.
\<close>

subsection \<open>Rounding to binary64\<close>

definition round_half_even :: "nat \<Rightarrow> nat \<Rightarrow> nat" where
  "round_half_even n d =
     (let q = n div d; r = n mod d in if 2 * r < d \<or> (2 * r = d \<and> even q) then q else Suc q)"

fun bit_len :: "nat \<Rightarrow> nat" where
  "bit_len n = (if n = 0 then 0 else Suc (bit_len (n div 2)))"

declare bit_len.simps [simp del]

text \<open>The float nearest to \<open>n / d\<close>; \<open>None\<close> is beyond the largest one.\<close>

definition double_of :: "nat \<Rightarrow> nat \<Rightarrow> nat option" where
  "double_of n d =
     (let x = n * 2 ^ 1074; sh = bit_len (x div d) - 53; q = round_half_even x (d * 2 ^ sh) * 2 ^ sh
      in if q < 2 ^ 2098 then Some q else None)"

datatype pyfloat = Fin int | PosInf | NegInf | NaN

definition signed_float :: "bool \<Rightarrow> nat \<Rightarrow> nat \<Rightarrow> pyfloat" where
  "signed_float neg n d =
     (case double_of n d of
        Some q \<Rightarrow> Fin (if neg then - int q else int q)
      | None \<Rightarrow> if neg then NegInf else PosInf)"

subsection \<open>The text of a number\<close>

text \<open>An integer has neither a fraction nor an exponent.\<close>

definition num_int :: "string \<Rightarrow> int option" where
  "num_int t =
     (let neg = starts_with ''-'' t; ds = (if neg then drop 1 t else t)
      in if ds \<noteq> [] \<and> list_all is_dec ds then Some (if neg then - int (dec_nat ds) else int (dec_nat ds)) else None)"

definition num_float :: "string \<Rightarrow> pyfloat" where
  "num_float t =
     (if t = ''NaN'' then NaN else if t = ''Infinity'' then PosInf else if t = ''-Infinity'' then NegInf
      else let neg = starts_with ''-'' t; u = (if neg then drop 1 t else t);
               ip = takeWhile is_dec u; v = dropWhile is_dec u;
               fp = (if starts_with ''.'' v then takeWhile is_dec (drop 1 v) else []);
               w = (if starts_with ''.'' v then dropWhile is_dec (drop 1 v) else v);
               es = drop 1 w; eneg = starts_with ''-'' es;
               ex = dec_nat (if eneg \<or> starts_with ''+'' es then drop 1 es else es);
               m = dec_nat (ip @ fp)
           in if eneg then signed_float neg m (10 ^ (ex + length fp)) else signed_float neg (m * 10 ^ ex) (10 ^ length fp))"

text \<open>\<open>int()\<close> refuses a text of more than 4300 digits, so \<open>json.loads\<close> raises \<open>ValueError\<close>.\<close>

definition MAX_INT_DIGITS :: nat where
  "MAX_INT_DIGITS = 4300"

fun json_too_long :: "json \<Rightarrow> bool" where
  "json_too_long (JNum t) \<longleftrightarrow> num_int t \<noteq> None \<and> MAX_INT_DIGITS < length (filter is_dec t)"
| "json_too_long (JArr xs) \<longleftrightarrow> list_ex json_too_long xs"
| "json_too_long (JObj ms) \<longleftrightarrow> list_ex (\<lambda>(k, v). json_too_long v) ms"
| "json_too_long _ \<longleftrightarrow> False"

subsection \<open>Rounding facts\<close>

lemma bit_len_bound: "n < 2 ^ b \<Longrightarrow> bit_len n \<le> b"
proof (induction b arbitrary: n)
  case 0
  then show ?case by (simp add: bit_len.simps)
next
  case (Suc b)
  then have "n div 2 < 2 ^ b" by (simp add: less_mult_imp_div_less mult.commute)
  with Suc.IH show ?case by (subst bit_len.simps) simp
qed

lemma bit_len_gt: "2 ^ b \<le> n \<Longrightarrow> b < bit_len n"
proof (induction b arbitrary: n)
  case 0
  then show ?case by (subst bit_len.simps) simp
next
  case (Suc b)
  then have "2 ^ b \<le> n div 2" by (simp add: div_le_mono [of "2 * 2 ^ b" n 2, simplified])
  moreover have "n \<noteq> 0" using Suc.prems by (metis le_zero_eq power_not_zero zero_neq_numeral)
  ultimately show ?case using Suc.IH by (subst bit_len.simps) simp
qed

lemma round_exact [simp]: "d \<noteq> 0 \<Longrightarrow> round_half_even (k * d) d = k"
  by (simp add: round_half_even_def)

text \<open>Integers below \<open>2 ^ 53\<close> are floats, and integers from \<open>2 ^ 1024\<close> on are beyond them.\<close>

lemma double_of_small:
  assumes "n < 2 ^ 53"
  shows "double_of n 1 = Some (n * 2 ^ 1074)"
proof -
  let ?x = "n * 2 ^ 1074 :: nat"
  define sh where "sh = bit_len ?x - 53"
  have "?x < 2 ^ 53 * 2 ^ 1074" using assms by (rule mult_less_mono1) (rule zero_less_power, simp)
  then have "?x < 2 ^ (53 + 1074)" by (simp only: power_add)
  then have "bit_len ?x \<le> 53 + 1074" by (rule bit_len_bound)
  then have "sh \<le> 1074" by (simp add: sh_def)
  then have e: "(2::nat) ^ 1074 = 2 ^ (1074 - sh) * 2 ^ sh" by (simp only: power_add [symmetric]) simp
  have x: "?x = (n * 2 ^ (1074 - sh)) * 2 ^ sh" by (simp only: e mult.assoc)
  have "round_half_even ?x (2 ^ sh) * 2 ^ sh = ?x" 
    unfolding x by (subst round_exact) simp_all
  moreover have "?x < 2 ^ 2098"
  proof -
    have "(2::nat) ^ (53 + 1074) < 2 ^ 2098" by (rule power_strict_increasing) simp_all
    with \<open>?x < 2 ^ (53 + 1074)\<close> show ?thesis by (rule less_trans)
  qed
  ultimately show ?thesis unfolding double_of_def Let_def div_by_1 mult_1 sh_def [symmetric] by (simp only: if_True)
qed

lemma bit_len_low: "n \<noteq> 0 \<Longrightarrow> 2 ^ (bit_len n - 1) \<le> n"
proof (induction n rule: bit_len.induct)
  case (1 n)
  show ?case
  proof (cases "n div 2 = 0")
    case True
    with 1 show ?thesis by (subst bit_len.simps) (simp add: bit_len.simps)
  next
    case False
    with 1 have "2 ^ (bit_len (n div 2) - 1) \<le> n div 2" by blast
    moreover have "bit_len (n div 2) \<noteq> 0" using False by (subst bit_len.simps) simp
    ultimately have "2 ^ bit_len (n div 2) \<le> n"
      by (cases "bit_len (n div 2)") auto
    with 1 show ?thesis by (subst bit_len.simps) simp
  qed
qed

lemma round_ge: "n div d \<le> round_half_even n d"
  by (simp add: round_half_even_def Let_def)

lemma double_of_huge:
  assumes "2 ^ 1024 \<le> n"
  shows "double_of n 1 = None"
proof -
  define x where "x = n * 2 ^ 1074"
  define b where "b = bit_len x"
  have "(2::nat) ^ 1024 * 2 ^ 1074 \<le> x" unfolding x_def using assms by (rule mult_le_mono1)
  then have ge: "2 ^ 2098 \<le> x" by (simp only: power_add [symmetric]) simp
  then have b: "2098 < b" unfolding b_def by (rule bit_len_gt)
  have "(2::nat) ^ 2098 \<noteq> 0" by (rule power_not_zero) simp
  with ge have "x \<noteq> 0" by linarith
  then have low: "2 ^ (b - 1) \<le> x" unfolding b_def by (rule bit_len_low)
  have "(2::nat) ^ (b - 1) = 2 ^ 52 * 2 ^ (b - 53)" using b by (simp only: power_add [symmetric]) simp
  with low have "2 ^ 52 \<le> x div 2 ^ (b - 53)"
    by (metis div_le_mono nonzero_mult_div_cancel_right power_not_zero zero_neq_numeral)
  then have "2 ^ 52 \<le> round_half_even x (2 ^ (b - 53))" using round_ge by (rule le_trans)
  then have "2 ^ 52 * 2 ^ (b - 53) \<le> round_half_even x (2 ^ (b - 53)) * 2 ^ (b - 53)" by (rule mult_le_mono1)
  moreover have "(2::nat) ^ 2098 \<le> 2 ^ (b - 1)" using b by (intro power_increasing) simp_all
  ultimately have "\<not> round_half_even x (2 ^ (b - 53)) * 2 ^ (b - 53) < 2 ^ 2098"
    using \<open>(2::nat) ^ (b - 1) = _\<close> by linarith
  then show ?thesis unfolding double_of_def Let_def div_by_1 mult_1 x_def [symmetric] b_def [symmetric] by (simp only: if_False)
qed

lemma round_scale: "c \<noteq> 0 \<Longrightarrow> round_half_even (n * c) (d * c) = round_half_even n d"
proof -
  assume c: "c \<noteq> 0"
  then have "n * c div (d * c) = n div d" "n * c mod (d * c) = (n mod d) * c" by (simp_all add: mult_mod_left)
  moreover have "2 * (n mod d * c) < d * c \<longleftrightarrow> 2 * (n mod d) < d" "2 * (n mod d * c) = d * c \<longleftrightarrow> 2 * (n mod d) = d"
    using c by (simp_all add: mult.assoc [symmetric])
  ultimately show ?thesis by (simp only: round_half_even_def Let_def)
qed

lemma double_of_scale: "c \<noteq> 0 \<Longrightarrow> double_of (n * c) c = double_of n 1"
proof -
  assume c: "c \<noteq> 0"
  define u :: nat where "u = 2 ^ 1074"
  define l :: nat where "l = 2 ^ 2098"
  have e: "n * c * u = (n * u) * c" by (simp add: ac_simps)
  have "round_half_even (n * c * u) (c * b) = round_half_even (n * u) b" for b
    unfolding e using round_scale [OF c, of "n * u" b] by (simp add: mult.commute)
  moreover have "n * c * u div c = n * u" unfolding e using c by simp
  ultimately show ?thesis
    using c unfolding double_of_def u_def [symmetric] l_def [symmetric] by (simp add: Let_def)
qed

end
