(* ===== verification/Json_Bytes.thy ===== *)
theory Json_Bytes
  imports Py_Float Json_Print
begin

text \<open>
  \<open>json.loads\<close> of the bytes of a file: the encoding is guessed from the first bytes, decoded with the
  \<open>surrogatepass\<close> handler, and the text is read. \<open>None\<close> is a \<open>ValueError\<close>. Characters beyond U+00FF, which
  the strings here do not have, become the substitute U+001A, as in the reader's escapes.
\<close>

definition uchar :: "nat \<Rightarrow> char" where
  "uchar n = (if n < 256 then char_of n else CHR 0x1A)"

definition is_cont :: "char \<Rightarrow> bool" where
  "is_cont c \<longleftrightarrow> in_range 128 191 c"

definition cont_val :: "char \<Rightarrow> nat" where
  "cont_val c = code c - 128"

text \<open>UTF-8, with the encoded surrogates when \<open>sp\<close> (the \<open>surrogatepass\<close> handler).\<close>

fun utf8_decode :: "bool \<Rightarrow> string \<Rightarrow> string option" where
  "utf8_decode sp [] = Some []"
| "utf8_decode sp (c # s) =
     (let n = code c in
      if n < 128 then map_option (\<lambda>t. c # t) (utf8_decode sp s)
      else if 194 \<le> n \<and> n \<le> 223 then
        (case s of
           a # t \<Rightarrow> if is_cont a then map_option (\<lambda>r. uchar ((n - 192) * 64 + cont_val a) # r) (utf8_decode sp t) else None
         | _ \<Rightarrow> None)
      else if 224 \<le> n \<and> n \<le> 239 then
        (case s of
           a # b # t \<Rightarrow>
             if is_cont a \<and> is_cont b \<and> (n = 224 \<longrightarrow> 160 \<le> code a) \<and> (n = 237 \<longrightarrow> sp \<or> code a < 160)
             then map_option (\<lambda>r. uchar ((n - 224) * 4096 + cont_val a * 64 + cont_val b) # r) (utf8_decode sp t) else None
         | _ \<Rightarrow> None)
      else if 240 \<le> n \<and> n \<le> 244 then
        (case s of
           a # b # d # t \<Rightarrow>
             if is_cont a \<and> is_cont b \<and> is_cont d \<and> (n = 240 \<longrightarrow> 144 \<le> code a) \<and> (n = 244 \<longrightarrow> code a \<le> 143)
             then map_option (\<lambda>r. CHR 0x1A # r) (utf8_decode sp t) else None
         | _ \<Rightarrow> None)
      else None)"

fun utf16_decode :: "bool \<Rightarrow> string \<Rightarrow> string option" where
  "utf16_decode be [] = Some []"
| "utf16_decode be (a # b # s) =
     map_option (\<lambda>r. uchar (if be then code a * 256 + code b else code b * 256 + code a) # r) (utf16_decode be s)"
| "utf16_decode be [a] = None"

fun utf32_decode :: "bool \<Rightarrow> string \<Rightarrow> string option" where
  "utf32_decode be [] = Some []"
| "utf32_decode be (a # b # c # d # s) =
     (let n = (if be then ((code a * 256 + code b) * 256 + code c) * 256 + code d
               else ((code d * 256 + code c) * 256 + code b) * 256 + code a)
      in if n < 1114112 then map_option (\<lambda>r. uchar n # r) (utf32_decode be s) else None)"
| "utf32_decode be s = None"

definition zero_at :: "string \<Rightarrow> nat \<Rightarrow> bool" where
  "zero_at s k \<longleftrightarrow> k < length s \<and> s ! k = CHR 0x00"

definition decode_bytes :: "string \<Rightarrow> string option" where
  "decode_bytes s =
     (if starts_with [CHR 0x00, CHR 0x00, CHR 0xFE, CHR 0xFF] s then utf32_decode True (drop 4 s)
      else if starts_with [CHR 0xFF, CHR 0xFE, CHR 0x00, CHR 0x00] s then utf32_decode False (drop 4 s)
      else if starts_with [CHR 0xFE, CHR 0xFF] s then utf16_decode True (drop 2 s)
      else if starts_with [CHR 0xFF, CHR 0xFE] s then utf16_decode False (drop 2 s)
      else if starts_with [CHR 0xEF, CHR 0xBB, CHR 0xBF] s then utf8_decode True (drop 3 s)
      else if 4 \<le> length s \<and> zero_at s 0 then (if zero_at s 1 then utf32_decode True s else utf16_decode True s)
      else if 4 \<le> length s \<and> zero_at s 1
        then (if zero_at s 2 \<and> zero_at s 3 then utf32_decode False s else utf16_decode False s)
      else if length s = 2 \<and> zero_at s 0 then utf16_decode True s
      else if length s = 2 \<and> zero_at s 1 then utf16_decode False s
      else utf8_decode True s)"

definition json_loads_bytes :: "string \<Rightarrow> json option" where
  "json_loads_bytes raw =
     (case decode_bytes raw of
        None \<Rightarrow> None
      | Some s \<Rightarrow> (case json_loads s of Some v \<Rightarrow> if json_too_long v then None else Some v | None \<Rightarrow> None))"

subsection \<open>What \<open>json.dumps\<close> writes is read back\<close>

definition ascii :: "string \<Rightarrow> bool" where
  "ascii s \<longleftrightarrow> (\<forall>c \<in> set s. 0 < code c \<and> code c < 128)"

lemma ascii_simps [simp]: "ascii []" "ascii (c # s) \<longleftrightarrow> 0 < code c \<and> code c < 128 \<and> ascii s" "ascii (s @ t) \<longleftrightarrow> ascii s \<and> ascii t"
  by (auto simp: ascii_def)

lemma utf8_ascii: "ascii s \<Longrightarrow> utf8_decode sp s = Some s"
  by (induction s) (simp_all add: Let_def)

lemma decode_ascii: "ascii s \<Longrightarrow> decode_bytes s = Some s"
proof -
  assume a: "ascii s"
  have nz: "\<not> zero_at s k" for k
  proof
    assume "zero_at s k"
    then have "CHR 0x00 \<in> set s" using nth_mem [of k s] by (auto simp: zero_at_def)
    with a have "0 < code CHR 0x00" unfolding ascii_def by blast
    then show False by (simp add: code_def)
  qed
  have hd: "\<not> starts_with (c # r) s" if "code c = 0 \<or> 128 \<le> code c" for c r
    using a that by (cases s) (auto simp: starts_with_def)
  show ?thesis using nz hd utf8_ascii [OF a] by (simp add: decode_bytes_def code_def)
qed

lemma ascii_digits: "list_all is_dec s \<Longrightarrow> ascii s"
  by (auto simp: ascii_def list_all_iff is_dec_def in_range_def)

lemma ascii_hex: "n < 16 \<Longrightarrow> 0 < code (hex_digit n) \<and> code (hex_digit n) < 128"
  using hex_digit_reads [of n] by (auto simp: is_hex_def is_hex_lower_def is_dec_def in_range_def)

lemma ascii_json_char: "ascii (json_char c)"
proof -
  have "code c div 16 < 16" "code c mod 16 < 16" using code_less_256 [of c] by auto
  then show ?thesis using ascii_hex by (auto simp: json_char_def code_def)
qed

lemma ascii_dump_str: "ascii (json_dump_str s)"
  using ascii_json_char by (induction s) (auto simp: json_dump_str_def code_def)

lemma ascii_join: "ascii sep \<Longrightarrow> list_all ascii ps \<Longrightarrow> ascii (join_with sep ps)"
  by (induction sep ps rule: join_with.induct) auto

lemma ascii_stages:
  "ascii (fst (js_digits s))" "ascii (fst (js_sign s))" "ascii (fst (js_int_part s))" "ascii (fst (js_frac s))"
  "ascii (fst (js_exp_sign s))" "ascii (fst (js_exp s))"
proof -
  show d: "ascii (fst (js_digits s))" for s
    by (auto simp: js_digits_def ascii_def is_dec_def in_range_def dest: set_takeWhileD)
  show "ascii (fst (js_sign s))" "ascii (fst (js_int_part s))" "ascii (fst (js_frac s))"
    using d by (auto simp: js_sign_def js_int_part_def js_frac_def code_def split: list.splits)
  show x: "ascii (fst (js_exp_sign s))" for s by (auto simp: js_exp_sign_def code_def split: list.splits)
  show "ascii (fst (js_exp s))"
    using d x by (auto simp: js_exp_def code_def split_def Let_def split: list.splits)
qed

lemma ascii_number: "js_number t = Some (t, []) \<Longrightarrow> ascii t"
proof -
  assume "js_number t = Some (t, [])"
  then have "\<exists>a b c d. t = fst (js_sign a) @ fst (js_int_part b) @ fst (js_frac c) @ fst (js_exp d)"
    by (auto simp: js_number_stages split_def Let_def split: if_splits) metis
  then obtain a b c d where "t = fst (js_sign a) @ fst (js_int_part b) @ fst (js_frac c) @ fst (js_exp d)" by blast
  then show ?thesis using ascii_stages by simp
qed

lemma ascii_dumps: "json_ok v \<Longrightarrow> ascii (json_dumps v)"
proof (induction v)
  case (JNum t)
  then show ?case by (simp add: ascii_number)
next
  case (JArr xs)
  then show ?case by (auto simp: list_all_iff code_def intro!: ascii_join)
next
  case (JObj ms)
  then have "list_all ascii (map dump_member ms)" 
    by (fastforce simp: list_all_iff dump_member_def code_def ascii_dump_str)
  then show ?case by (simp add: json_dumps_object code_def ascii_join del: json_dumps.simps)
qed (simp_all add: code_def ascii_dump_str)

lemma json_bytes_roundtrip:
  assumes "json_ok v" and "\<not> json_too_long v"
  shows "json_loads_bytes (json_dumps v @ [CHR 0x0A]) = Some v"
  using assms by (simp add: json_loads_bytes_def decode_ascii ascii_dumps json_loads_line code_def)

subsection \<open>Printed naturals\<close>

lemma dec_digit: "k < 10 \<Longrightarrow> is_dec (char_of (48 + k)) \<and> dec_val (char_of (48 + k)) = k"
  by (simp add: is_dec_def in_range_def dec_val_def code_def)

lemma dec_acc_append: "dec_acc n (s @ t) = dec_acc (dec_acc n s) t"
  by (induction s arbitrary: n) simp_all

lemma nat_str_digits: "list_all is_dec (nat_str n) \<and> nat_str n \<noteq> [] \<and> dec_nat (nat_str n) = n"
proof (induction n rule: nat_str.induct)
  case (1 n)
  have n: "n mod 10 < 10" "10 * (n div 10) + n mod 10 = n" by simp_all
  show ?case
  proof (cases "n < 10")
    case True
    then show ?thesis using dec_digit [of n] by (subst (1 2 3) nat_str.simps) (simp add: dec_nat_def)
  next
    case False
    with 1 n(2) show ?thesis using dec_digit [OF n(1)]
      by (subst (1 2 3) nat_str.simps) (simp add: dec_nat_def dec_acc_append)
  qed
qed

lemma nat_str_head: "n \<noteq> 0 \<Longrightarrow> hd (nat_str n) \<noteq> CHR ''0''"
proof (induction n rule: nat_str.induct)
  case (1 n)
  show ?case
  proof (cases "n < 10")
    case True
    moreover have "dec_val CHR ''0'' = 0" by code_simp
    ultimately have "char_of (48 + n) \<noteq> CHR ''0''" using dec_digit [of n] 1(2) by metis
    with True show ?thesis by (subst nat_str.simps) simp
  next
    case False
    then have "hd (nat_str (n div 10)) \<noteq> CHR ''0''" using 1 by simp
    with False show ?thesis using nat_str_digits [of "n div 10"] by (subst nat_str.simps) simp
  qed
qed

lemma num_int_nat_str: "num_int (nat_str n) = Some (int n)"
proof -
  have "\<not> starts_with ''-'' (nat_str n)"
    using nat_str_digits [of n] by (cases "nat_str n") (auto simp: starts_with_def is_dec_def in_range_def code_def)
  then show ?thesis using nat_str_digits [of n] by (simp add: num_int_def)
qed

lemma js_number_nat_str: "js_number (nat_str n) = Some (nat_str n, [])"
proof (cases "n = 0")
  case True
  then show ?thesis by (simp add: nat_str.simps) code_simp
next
  case False
  obtain c t where c: "nat_str n = c # t" using nat_str_digits [of n] by (cases "nat_str n") auto
  then have d: "is_dec c" "list_all is_dec t" "c \<noteq> CHR ''0''" using nat_str_digits [of n] nat_str_head [OF False] by auto
  have m: "c \<noteq> CHR ''-''" using d(1) by (auto simp: is_dec_def in_range_def code_def)
  have "takeWhile is_dec (c # t) = c # t" "dropWhile is_dec (c # t) = []"
    using d(1,2) by (simp_all add: takeWhile_eq_all_conv dropWhile_eq_Nil_conv list_all_iff)
  then have "js_digits (c # t) = (c # t, [])" by (simp only: js_digits_def)
  with c d(3) m show ?thesis by (simp add: js_number_stages js_sign_def js_int_part_def js_frac_def js_exp_def)
qed

end
