(* ===== verification/Session_Registry.thy ===== *)
theory Session_Registry
  imports Locking Json_Bytes
begin

text \<open>
  \<open>session.py\<close>: the registry of running sessions, one JSON file \<open><pid>.json\<close> each in a directory guests can
  write to, locked for as long as a process of the session has the file open. The world holds the files,
  the kernel's open descriptions with their flock table, and the processes as \<open>/proc\<close> shows them.
\<close>

subsection \<open>The world\<close>

text \<open>A process: its parent, the state letter, its \<open>comm\<close>, the descriptions it has open, whether its \<open>fd\<close>
  directory is ours to read, and whether this user may signal it.\<close>

record proc =
  pr_ppid :: nat
  pr_state :: string
  pr_comm :: string
  pr_fds :: "nat list"
  pr_readable :: bool
  pr_signalable :: bool

text \<open>\<open>y_listing\<close> says whether \<open>/proc\<close> can be listed; \<open>y_open\<close> maps a description to its inode.\<close>

record sysw =
  y_fs :: fs
  y_runtime :: path
  y_flock :: bool
  y_table :: lock_table
  y_open :: "(nat \<times> nat) list"
  y_next :: nat
  y_listing :: bool
  y_procs :: "(nat \<times> proc) list"

definition SESSION_KINDS :: "string list" where
  "SESSION_KINDS = [''login'', ''run'']"

definition SESSIONS_PARTS :: "string list" where
  "SESSIONS_PARTS = [''sessions'']"

datatype pyerror = OverflowError

record session =
  ss_pid :: nat
  ss_container :: string
  ss_kind :: string
  ss_command :: "string list"
  ss_user :: string
  ss_start :: int
  ss_isolated :: bool
  ss_minimal :: bool
  ss_detach :: bool

subsection \<open>The directory\<close>

definition sessions_dir :: "sysw \<Rightarrow> path" where
  "sessions_dir w = y_runtime w @ SESSIONS_PARTS"

definition sessions_dir_fd :: "bool \<Rightarrow> sysw \<Rightarrow> path option \<times> fs" where
  "sessions_dir_fd create w =
     (if create then
        (case descend_at True (y_fs w) [] (y_runtime w) of
           (Inl e, s) \<Rightarrow> (None, s)
         | (Inr r, s) \<Rightarrow> opendir_under True None s (y_runtime w) SESSIONS_PARTS)
      else opendir_under False None (y_fs w) (y_runtime w) SESSIONS_PARTS)"

subsection \<open>Reading a record\<close>

definition record_pid :: "string \<Rightarrow> nat option" where
  "record_pid name =
     (if \<not> ends_with ''.json'' name then None
      else let stem = take (length name - 5) name in
           if stem = [] \<or> \<not> list_all is_dec stem then None
           else let pid = dec_nat stem in if pid = 0 \<or> nat_str pid \<noteq> stem then None else Some pid)"

text \<open>\<open>float(start_time)\<close> after \<open>math.isfinite\<close>, which raises \<open>OverflowError\<close> for an integer beyond the floats.\<close>

definition finite_start :: "string \<Rightarrow> pyerror + int option" where
  "finite_start t =
     (case num_int t of
        Some n \<Rightarrow>
          (case double_of (nat (abs n)) 1 of
             None \<Rightarrow> Inl OverflowError
           | Some q \<Rightarrow> Inr (Some (if n < 0 then - int q else int q)))
      | None \<Rightarrow> Inr (case num_float t of Fin q \<Rightarrow> Some q | _ \<Rightarrow> None))"

definition flag_field :: "(string \<times> json) list \<Rightarrow> string \<Rightarrow> bool option" where
  "flag_field d k = (case dict_get d k of None \<Rightarrow> Some False | Some (JBool b) \<Rightarrow> Some b | Some v \<Rightarrow> None)"

definition num_field :: "(string \<times> json) list \<Rightarrow> string \<Rightarrow> string option" where
  "num_field d k = (case dict_get d k of Some (JNum t) \<Rightarrow> Some t | _ \<Rightarrow> None)"

definition str_field_of :: "(string \<times> json) list \<Rightarrow> string \<Rightarrow> string option" where
  "str_field_of d k = (case dict_get d k of Some (JStr s) \<Rightarrow> Some s | _ \<Rightarrow> None)"

definition strs_field :: "(string \<times> json) list \<Rightarrow> string \<Rightarrow> string list option" where
  "strs_field d k = (case dict_get d k of Some (JArr xs) \<Rightarrow> json_strings xs | _ \<Rightarrow> None)"

text \<open>The identity part of \<open>_validate_record\<close>: everything up to the start time.\<close>

definition record_head :: "(string \<times> json) list \<Rightarrow> nat \<Rightarrow> (string \<times> string \<times> string \<times> string list \<times> string) option" where
  "record_head d pid =
     (case num_field d ''pid'' of
        None \<Rightarrow> None
      | Some t \<Rightarrow>
          if num_int t \<noteq> Some (int pid) then None
          else case (str_field_of d ''container'', str_field_of d ''kind'', str_field_of d ''user'',
                     strs_field d ''command'', num_field d ''start_time'') of
              (Some c, Some k, Some u, Some xs, Some st) \<Rightarrow>
                if is_valid_name c \<and> k \<in> set SESSION_KINDS then Some (c, k, u, xs, st) else None
            | _ \<Rightarrow> None)"

text \<open>The record, once its identity and its start time are known to be in order.\<close>

definition session_of :: "(string \<times> json) list \<Rightarrow> nat \<Rightarrow> string \<Rightarrow> string \<Rightarrow> string \<Rightarrow> string list \<Rightarrow> int \<Rightarrow> session option" where
  "session_of d pid c k u xs q =
     (case (flag_field d ''isolated'', flag_field d ''minimal'', flag_field d ''detach'') of
        (Some i, Some m, Some e) \<Rightarrow>
          Some \<lparr>ss_pid = pid, ss_container = c, ss_kind = k, ss_command = xs, ss_user = u,
                ss_start = q, ss_isolated = i, ss_minimal = m, ss_detach = e\<rparr>
      | _ \<Rightarrow> None)"

definition validate_record :: "json option \<Rightarrow> nat \<Rightarrow> pyerror + session option" where
  "validate_record v pid =
     (case v of
        Some (JObj d) \<Rightarrow>
          (case record_head d pid of
             None \<Rightarrow> Inr None
           | Some (c, k, u, xs, st) \<Rightarrow>
               (case finite_start st of
                  Inl e \<Rightarrow> Inl e
                | Inr None \<Rightarrow> Inr None
                | Inr (Some q) \<Rightarrow> Inr (session_of d pid c k u xs q)))
      | _ \<Rightarrow> Inr None)"

definition MAX_STATE_JSON_BYTES :: nat where
  "MAX_STATE_JSON_BYTES = 16777216"

text \<open>The content of a state file; \<open>None\<close> is the EFBIG of a longer one.\<close>

definition read_state_file :: "string \<Rightarrow> string option" where
  "read_state_file raw = (if MAX_STATE_JSON_BYTES < length raw then None else Some raw)"

definition read_record :: "fs \<Rightarrow> path \<Rightarrow> string \<Rightarrow> json option" where
  "read_record s d name =
     (case open_regular_at s d name of
        Inl e \<Rightarrow> None
      | Inr i \<Rightarrow>
          (case read_state_file (fd_bytes (f_data s i)) of
             None \<Rightarrow> None
           | Some raw \<Rightarrow> json_loads_bytes raw))"

subsection \<open>Liveness\<close>

definition session_alive_at :: "sysw \<Rightarrow> path \<Rightarrow> string \<Rightarrow> bool" where
  "session_alive_at w d name =
     (case open_regular_at (y_fs w) d name of
        Inl e \<Rightarrow> False
      | Inr i \<Rightarrow> \<not> y_flock w \<or> flock_grant (y_table w) (y_next w) i False = None)"

definition session_name :: "nat \<Rightarrow> string" where
  "session_name pid = nat_str pid @ ''.json''"

definition session_is_live :: "sysw \<Rightarrow> nat \<Rightarrow> bool" where
  "session_is_live w pid =
     (case fst (sessions_dir_fd False w) of
        None \<Rightarrow> False
      | Some d \<Rightarrow> session_alive_at w d (session_name pid))"

definition has_open :: "sysw \<Rightarrow> proc \<Rightarrow> nat \<Rightarrow> bool" where
  "has_open w p i \<longleftrightarrow> pr_readable p \<and> list_ex (\<lambda>d. dict_get (y_open w) d = Some i) (pr_fds p)"

definition session_holders :: "nat \<Rightarrow> sysw \<Rightarrow> nat \<Rightarrow> nat list" where
  "session_holders self w pid =
     (case fst (sessions_dir_fd False w) of
        None \<Rightarrow> []
      | Some d \<Rightarrow>
          (case lstat_at (y_fs w) d (session_name pid) of
             Inr (NFile i) \<Rightarrow>
               (if y_listing w then map fst (filter (\<lambda>(other, p). other \<noteq> self \<and> has_open w p i) (y_procs w)) else [])
           | _ \<Rightarrow> []))"

subsection \<open>Listing\<close>

text \<open>One entry of the directory: the session it registers, if any, and the directory afterwards.\<close>

definition probe_entry :: "path \<Rightarrow> string \<Rightarrow> sysw \<Rightarrow> pyerror + (session option \<times> sysw)" where
  "probe_entry d name w =
     (if starts_with ''.'' name \<or> \<not> ends_with ''.json'' name then Inr (None, w)
      else bindR (case record_pid name of
                    None \<Rightarrow> Inr None
                  | Some pid \<Rightarrow> validate_record (read_record (y_fs w) d name) pid) (\<lambda>r.
        if \<not> session_alive_at w d name then Inr (None, w\<lparr>y_fs := unlink_quietly (y_fs w) d name\<rparr>)
        else Inr (r, w)))"

fun probe_entries :: "path \<Rightarrow> string list \<Rightarrow> sysw \<Rightarrow> (pyerror + session list) \<times> sysw" where
  "probe_entries d [] w = (Inr [], w)"
| "probe_entries d (n # ns) w =
     (case probe_entry d n w of
        Inl e \<Rightarrow> (Inl e, w)
      | Inr (r, v) \<Rightarrow>
          (case probe_entries d ns v of
             (Inl e, u) \<Rightarrow> (Inl e, u)
           | (Inr xs, u) \<Rightarrow> (Inr (case r of None \<Rightarrow> xs | Some x \<Rightarrow> x # xs), u)))"

text \<open>Sorting by start time and then PID: first by PID, then stably by time.\<close>

definition active_sessions :: "sysw \<Rightarrow> (pyerror + session list) \<times> sysw" where
  "active_sessions w =
     (case fst (sessions_dir_fd False w) of
        None \<Rightarrow> (Inr [], w)
      | Some d \<Rightarrow>
          (case probe_entries d (listdir_at (y_fs w) d) w of
             (Inl e, v) \<Rightarrow> (Inl e, v)
           | (Inr xs, v) \<Rightarrow> (Inr (sort_key ss_start (sort_key ss_pid xs)), v)))"

subsection \<open>Registering\<close>

text \<open>\<open>now\<close> is the text of \<open>time.time()\<close> and \<open>rnd\<close> the eight hex digits in the name of the temporary file.\<close>

definition session_payload :: "nat \<Rightarrow> string \<Rightarrow> string \<Rightarrow> string list \<Rightarrow> string \<Rightarrow> string \<Rightarrow> bool \<Rightarrow> bool \<Rightarrow> bool \<Rightarrow> json" where
  "session_payload pid container kind command user now isolated minimal detach =
     JObj [(''pid'', JNum (nat_str pid)), (''container'', JStr container), (''kind'', JStr kind),
           (''command'', JArr (map JStr command)), (''user'', JStr user), (''start_time'', JNum now),
           (''isolated'', JBool isolated), (''minimal'', JBool minimal), (''detach'', JBool detach)]"

definition abandon :: "path \<Rightarrow> string \<Rightarrow> fs \<Rightarrow> fs" where
  "abandon d name s = unlink_quietly s d name"

text \<open>The descriptor is inheritable, and the caller is about to exec: what it has open is its session's.\<close>

definition add_fd :: "nat \<Rightarrow> nat \<Rightarrow> sysw \<Rightarrow> sysw" where
  "add_fd pid d w =
     w\<lparr>y_procs := map (\<lambda>(k, p). (k, if k = pid then p\<lparr>pr_fds := d # pr_fds p\<rparr> else p)) (y_procs w)\<rparr>"

definition register_at :: "nat \<Rightarrow> string \<Rightarrow> json \<Rightarrow> path \<Rightarrow> sysw \<Rightarrow> nat option \<times> sysw" where
  "register_at pid rnd payload d w =
     (let final_name = session_name pid; tmp_name = ''.'' @ nat_str pid @ ''.'' @ rnd @ ''.tmp'' in
      case open_new_at (y_fs w) d tmp_name 420 of
        Inl e \<Rightarrow> (None, w)
      | Inr (i, s) \<Rightarrow>
          (let k = y_next w; w1 = w\<lparr>y_fs := s, y_next := Suc k\<rparr> in
           if \<not> y_flock w then (None, w1\<lparr>y_fs := abandon d tmp_name s\<rparr>)
           else case flock_grant (y_table w) k i True of
               None \<Rightarrow> (None, w1\<lparr>y_fs := abandon d tmp_name s\<rparr>)
             | Some t \<Rightarrow>
                 (let s2 = write_inode i ((f_data s i)\<lparr>fd_bytes := json_dumps payload @ [CHR 0x0A]\<rparr>) s in
                  case replace_entry s2 d tmp_name final_name of
                    Inl e \<Rightarrow> (None, w1\<lparr>y_fs := abandon d tmp_name s2\<rparr>)
                  | Inr s3 \<Rightarrow> (Some k, add_fd pid k (w1\<lparr>y_fs := s3, y_table := t, y_open := dict_set k i (y_open w)\<rparr>)))))"

definition register_session :: "nat \<Rightarrow> string \<Rightarrow> json \<Rightarrow> sysw \<Rightarrow> nat option \<times> sysw" where
  "register_session pid rnd payload w =
     (case sessions_dir_fd True w of
        (None, s) \<Rightarrow> (None, w\<lparr>y_fs := s\<rparr>)
      | (Some d, s) \<Rightarrow> register_at pid rnd payload d (w\<lparr>y_fs := s\<rparr>))"

end
