(* ===== verification/Session_Kill.thy ===== *)
theory Session_Kill
  imports Session_Registry
begin

text \<open>
  \<open>commands/kill.py\<close>: signalling the processes of sessions. Processes come and go while the command runs, so
  every look at \<open>/proc\<close> is at a world of its own: the environment is a function from the number of the look
  to the world. Files of \<open>/proc\<close> are the text the kernel prints, read the way Python reads text files.
\<close>

subsection \<open>Files of \<open>/proc\<close>\<close>

text \<open>\<open>proc(5)\<close>: the name of a process is printed as it is in \<open>stat\<close> and \<open>comm\<close>; in \<open>status\<close> newlines and
  backslashes of it are escaped.\<close>

definition escape_comm :: "string \<Rightarrow> string" where
  "escape_comm s = concat (map (\<lambda>c. if c = CHR 0x0A then [CHR 0x5C, CHR ''n''] else if c = CHR 0x5C then [c, c] else [c]) s)"

definition proc_stat :: "nat \<Rightarrow> proc \<Rightarrow> string" where
  "proc_stat pid p = nat_str pid @ '' ('' @ pr_comm p @ '') '' @ pr_state p @ '' '' @ nat_str (pr_ppid p) @ [CHR 0x0A]"

definition proc_status :: "nat \<Rightarrow> proc \<Rightarrow> string" where
  "proc_status pid p =
     ''Name:'' @ [CHR 0x09] @ escape_comm (pr_comm p) @ [CHR 0x0A]
     @ ''Umask:'' @ [CHR 0x09] @ ''0022'' @ [CHR 0x0A] @ ''State:'' @ [CHR 0x09] @ pr_state p @ [CHR 0x0A]
     @ ''Tgid:'' @ [CHR 0x09] @ nat_str pid @ [CHR 0x0A] @ ''Ngid:'' @ [CHR 0x09] @ ''0'' @ [CHR 0x0A]
     @ ''Pid:'' @ [CHR 0x09] @ nat_str pid @ [CHR 0x0A]
     @ ''PPid:'' @ [CHR 0x09] @ nat_str (pr_ppid p) @ [CHR 0x0A] @ ''TracerPid:'' @ [CHR 0x09] @ ''0'' @ [CHR 0x0A]"

definition proc_comm :: "proc \<Rightarrow> string" where
  "proc_comm p = pr_comm p @ [CHR 0x0A]"

datatype kerror = UnicodeDecodeError | IndexError | ListingError pyerror

text \<open>A text file: strict UTF-8 with universal newlines.\<close>

fun universal_newlines :: "string \<Rightarrow> string" where
  "universal_newlines [] = []"
| "universal_newlines (c # s) =
     (if c = CHR 0x0D then CHR 0x0A # (case s of d # t \<Rightarrow> if d = CHR 0x0A then universal_newlines t else universal_newlines s | [] \<Rightarrow> [])
      else c # universal_newlines s)"

definition read_text :: "string \<Rightarrow> kerror + string" where
  "read_text raw = (case utf8_decode False raw of None \<Rightarrow> Inl UnicodeDecodeError | Some s \<Rightarrow> Inr (universal_newlines s))"

text \<open>The loop over the lines of \<open>status\<close>: \<open>None\<close> is a \<open>ValueError\<close> or no such line, and the process is skipped.\<close>

fun find_ppid :: "string list \<Rightarrow> kerror + int option" where
  "find_ppid [] = Inr None"
| "find_ppid (l # ls) =
     (if starts_with ''PPid:'' l then
        (case split_ws l of
           a # b # r \<Rightarrow> Inr (py_int b)
         | _ \<Rightarrow> Inl IndexError)
      else find_ppid ls)"

definition ppid_of :: "nat \<Rightarrow> proc \<Rightarrow> kerror + int option" where
  "ppid_of pid p =
     (case read_text (proc_status pid p) of
        Inl e \<Rightarrow> Inr None
      | Inr s \<Rightarrow> find_ppid (split_on CHR 0x0A s))"

fun read_ppids :: "(nat \<times> proc) list \<Rightarrow> kerror + (nat \<times> int) list" where
  "read_ppids [] = Inr []"
| "read_ppids ((pid, p) # ps) =
     bindR (ppid_of pid p) (\<lambda>q. bindR (read_ppids ps) (\<lambda>m. Inr (case q of None \<Rightarrow> m | Some i \<Rightarrow> (pid, i) # m)))"

definition read_pid_ppid :: "sysw \<Rightarrow> kerror + (nat \<times> int) list" where
  "read_pid_ppid w = (if y_listing w then read_ppids (y_procs w) else Inr [])"

definition stat_state :: "string \<Rightarrow> string option" where
  "stat_state data =
     (if CHR '')'' \<notin> set data then None
      else case split_ws (snd (rpartition_at CHR '')'' data)) of [] \<Rightarrow> None | st # r \<Rightarrow> Some st)"

definition is_alive :: "sysw \<Rightarrow> nat \<Rightarrow> kerror + bool" where
  "is_alive w pid =
     (case dict_get (y_procs w) pid of
        None \<Rightarrow> Inr False
      | Some p \<Rightarrow>
          bindR (read_text (proc_stat pid p)) (\<lambda>data.
            Inr (case stat_state data of None \<Rightarrow> False | Some st \<Rightarrow> st \<noteq> ''Z'')))"

text \<open>\<open>override\<close> is \<open>PD_PROOT_BIN\<close>.\<close>

definition basename_of :: "string \<Rightarrow> string" where
  "basename_of s = (if CHR ''/'' \<in> set s then snd (rpartition_at CHR ''/'' s) else s)"

definition proot_comm_names :: "string \<Rightarrow> string list" where
  "proot_comm_names override = map (take 15) (''proot'' # (if override = [] then [] else [basename_of override]))"

definition root_is_proot :: "string \<Rightarrow> sysw \<Rightarrow> nat \<Rightarrow> kerror + bool option" where
  "root_is_proot override w pid =
     (case dict_get (y_procs w) pid of
        None \<Rightarrow> Inr None
      | Some p \<Rightarrow>
          bindR (read_text (proc_comm p)) (\<lambda>s. Inr (Some (strip_by is_space s \<in> set (proot_comm_names override)))))"

subsection \<open>The tree of a process\<close>

definition children :: "(nat \<times> int) list \<Rightarrow> nat \<Rightarrow> nat list" where
  "children pp q = map fst (filter (\<lambda>(p, i). i = int q) pp)"

definition tree_nodes :: "(nat \<times> int) list \<Rightarrow> nat set" where
  "tree_nodes pp = nat ` snd ` set pp"

function walk_tree :: "(nat \<times> int) list \<Rightarrow> nat list \<Rightarrow> nat list \<Rightarrow> nat list" where
  "walk_tree pp [] seen = seen"
| "walk_tree pp (cur # stack) seen =
     (if cur \<in> set seen then walk_tree pp stack seen
      else walk_tree pp (filter (\<lambda>c. c \<notin> set (cur # seen)) (children pp cur) @ stack) (cur # seen))"
  by pat_completeness auto
termination
proof (relation "inv_image (finite_psubset <*lex*> less_than) (\<lambda>(pp, st, seen). (tree_nodes pp - set seen, length st))")
  show "wf (inv_image (finite_psubset <*lex*> less_than) (\<lambda>(pp, st, seen). (tree_nodes pp - set seen, length st)))"
    by (intro wf_inv_image wf_lex_prod wf_finite_psubset wf_less_than)
next
  fix pp :: "(nat \<times> int) list" and cur :: nat and stack seen :: "nat list"
  assume new: "cur \<notin> set seen"
  have fin: "finite (tree_nodes pp)" by (simp add: tree_nodes_def)
  show "((pp, filter (\<lambda>c. c \<notin> set (cur # seen)) (children pp cur) @ stack, cur # seen), pp, cur # stack, seen)
      \<in> inv_image (finite_psubset <*lex*> less_than) (\<lambda>(pp, st, seen). (tree_nodes pp - set seen, length st))"
  proof (cases "cur \<in> tree_nodes pp")
    case True
    with new fin show ?thesis by (auto simp: finite_psubset_def)
  next
    case False
    then have "children pp cur = []" by (force simp: children_def tree_nodes_def filter_empty_conv)
    with False show ?thesis by auto
  qed
qed simp

definition collect_tree :: "nat \<Rightarrow> (nat \<times> int) list \<Rightarrow> nat list" where
  "collect_tree root pp = walk_tree pp [root] []"

subsection \<open>Actions\<close>

text \<open>What a part of the command does: its result or its exception, and the signals it has sent by then.\<close>

type_synonym 'a act = "(kerror + 'a) \<times> (nat \<times> nat) list"

definition pureW :: "kerror + 'a \<Rightarrow> 'a act" where
  "pureW r = (r, [])"

definition bindW :: "'a act \<Rightarrow> ('a \<Rightarrow> 'b act) \<Rightarrow> 'b act" where
  "bindW a f = (case fst a of Inl e \<Rightarrow> (Inl e, snd a) | Inr x \<Rightarrow> (fst (f x), snd a @ snd (f x)))"

definition send :: "nat \<Rightarrow> nat \<Rightarrow> unit act" where
  "send pid sig = (Inr (), [(pid, sig)])"

fun filterR :: "('a \<Rightarrow> kerror + bool) \<Rightarrow> 'a list \<Rightarrow> kerror + 'a list" where
  "filterR f [] = Inr []"
| "filterR f (x # xs) = bindR (f x) (\<lambda>b. bindR (filterR f xs) (\<lambda>ys. Inr (if b then x # ys else ys)))"

subsection \<open>The processes of a session\<close>

definition forest_roots :: "nat list \<Rightarrow> (nat \<times> int) list \<Rightarrow> nat list" where
  "forest_roots pids pp =
     sort (filter (\<lambda>p. case dict_get pp p of Some q \<Rightarrow> \<not> list_ex (\<lambda>x. int x = q) pids | None \<Rightarrow> True) (remdups pids))"

definition session_roots :: "nat \<Rightarrow> string \<Rightarrow> sysw \<Rightarrow> nat \<Rightarrow> (nat \<times> int) list \<Rightarrow> kerror + nat list" where
  "session_roots self override w pid pp =
     bindR (filterR (is_alive w) (session_holders self w pid)) (\<lambda>holders.
       if holders \<noteq> [] then Inr (forest_roots holders pp)
       else if \<not> session_is_live w pid then Inr []
       else bindR (is_alive w pid) (\<lambda>a.
         if \<not> a then Inr []
         else bindR (root_is_proot override w pid) (\<lambda>r. Inr (if r = Some True then [pid] else []))))"

definition live_roots_in :: "nat \<Rightarrow> string \<Rightarrow> sysw \<Rightarrow> session list \<Rightarrow> (nat \<times> int) list \<Rightarrow> kerror + nat list" where
  "live_roots_in self override w tracked pp =
     bindR (mapR (\<lambda>s. session_roots self override w (ss_pid s) pp) tracked) (\<lambda>rs. Inr (sort (remdups (concat rs))))"

definition live_roots :: "nat \<Rightarrow> string \<Rightarrow> sysw \<Rightarrow> session list \<Rightarrow> kerror + nat list" where
  "live_roots self override w tracked = bindR (read_pid_ppid w) (live_roots_in self override w tracked)"

text \<open>A session without roots whose PID is another program's by now is reported; that look at \<open>comm\<close> may fail too.\<close>

definition tracked_sessions :: "nat \<Rightarrow> string \<Rightarrow> sysw \<Rightarrow> session list \<Rightarrow> kerror + session list" where
  "tracked_sessions self override w selected =
     bindR (read_pid_ppid w) (\<lambda>pp.
       filterR (\<lambda>s. bindR (session_roots self override w (ss_pid s) pp) (\<lambda>rs.
         if rs \<noteq> [] then Inr True else bindR (root_is_proot override w (ss_pid s)) (\<lambda>r. Inr False))) selected)"

subsection \<open>Signals\<close>

definition SIGNALS :: "(string \<times> nat) list" where
  "SIGNALS =
     [(''SIGHUP'', 1), (''SIGINT'', 2), (''SIGQUIT'', 3), (''SIGILL'', 4), (''SIGTRAP'', 5), (''SIGABRT'', 6), (''SIGIOT'', 6),
      (''SIGBUS'', 7), (''SIGFPE'', 8), (''SIGKILL'', 9), (''SIGUSR1'', 10), (''SIGSEGV'', 11), (''SIGUSR2'', 12),
      (''SIGPIPE'', 13), (''SIGALRM'', 14), (''SIGTERM'', 15), (''SIGSTKFLT'', 16), (''SIGCHLD'', 17), (''SIGCLD'', 17),
      (''SIGCONT'', 18), (''SIGSTOP'', 19), (''SIGTSTP'', 20), (''SIGTTIN'', 21), (''SIGTTOU'', 22), (''SIGURG'', 23),
      (''SIGXCPU'', 24), (''SIGXFSZ'', 25), (''SIGVTALRM'', 26), (''SIGPROF'', 27), (''SIGWINCH'', 28), (''SIGIO'', 29),
      (''SIGPOLL'', 29), (''SIGPWR'', 30), (''SIGSYS'', 31), (''SIGRTMIN'', 34), (''SIGRTMAX'', 64)]"

definition SIGQUIT :: nat where "SIGQUIT = 3"

definition SIGKILL :: nat where "SIGKILL = 9"

definition SIGTERM :: nat where "SIGTERM = 15"

definition NON_TERMINATING_SIGNALS :: "nat list" where
  "NON_TERMINATING_SIGNALS = [19, 18, 20, 21, 22, 17, 23, 28, 10, 12]"

text \<open>\<open>None\<close> is the exit with an error message.\<close>

definition parse_signal :: "string \<Rightarrow> nat option" where
  "parse_signal name =
     (let raw = str_upper (strip_by is_space name) in
      if raw = [] then None
      else if list_all is_digit_py raw then
        (if list_all is_dec raw \<and> dec_nat raw \<in> set (map snd SIGNALS) then Some (dec_nat raw) else None)
      else dict_get SIGNALS (if starts_with ''SIG'' raw then raw else ''SIG'' @ raw))"

primrec signal_each :: "nat \<Rightarrow> nat \<Rightarrow> sysw \<Rightarrow> nat list \<Rightarrow> unit act" where
  "signal_each self sig w [] = (Inr (), [])"
| "signal_each self sig w (p # ps) =
     (if p = 0 \<or> p = 1 \<or> p = self then signal_each self sig w ps
      else bindW (pureW (is_alive w p)) (\<lambda>a.
        if a \<and> (case dict_get (y_procs w) p of Some pr \<Rightarrow> pr_signalable pr | None \<Rightarrow> False)
        then bindW (send p sig) (\<lambda>u. signal_each self sig w ps)
        else signal_each self sig w ps))"

text \<open>One pass looks twice: at the tree, then at each process before its signal.\<close>

definition signal_pass :: "nat \<Rightarrow> nat list \<Rightarrow> nat \<Rightarrow> sysw \<Rightarrow> sysw \<Rightarrow> unit act" where
  "signal_pass self roots sig wr wk =
     bindW (pureW (read_pid_ppid wr)) (\<lambda>pp.
       signal_each self sig wk (sort (remdups (concat (map (\<lambda>r. collect_tree r pp) roots)))))"

primrec escalate :: "string \<Rightarrow> sysw \<Rightarrow> nat list \<Rightarrow> unit act" where
  "escalate override w [] = (Inr (), [])"
| "escalate override w (p # ps) =
     bindW (pureW (is_alive w p)) (\<lambda>a.
       if \<not> a then escalate override w ps
       else bindW (pureW (root_is_proot override w p)) (\<lambda>r.
         if r = Some True \<and> (case dict_get (y_procs w) p of Some pr \<Rightarrow> pr_signalable pr | None \<Rightarrow> False)
         then bindW (send p SIGQUIT) (\<lambda>u. escalate override w ps)
         else escalate override w ps))"

definition drained :: "nat \<Rightarrow> string \<Rightarrow> sysw \<Rightarrow> session list \<Rightarrow> kerror + bool" where
  "drained self override w tracked =
     (if list_ex (\<lambda>s. session_is_live w (ss_pid s)) tracked then Inr False
      else bindR (live_roots self override w tracked) (\<lambda>rs. Inr (rs = [])))"

text \<open>The polls of \<open>_wait_for_drain\<close> until the grace runs out: the answer and the number of the next look.\<close>

fun wait_for_drain :: "nat \<Rightarrow> string \<Rightarrow> (nat \<Rightarrow> sysw) \<Rightarrow> nat \<Rightarrow> nat \<Rightarrow> session list \<Rightarrow> kerror + bool \<times> nat" where
  "wait_for_drain self override ws t polls tracked =
     bindR (drained self override (ws t) tracked) (\<lambda>b.
       if b then Inr (True, Suc t)
       else case polls of 0 \<Rightarrow> Inr (False, Suc t) | Suc n \<Rightarrow> wait_for_drain self override ws (Suc t) n tracked)"

definition teardown :: "nat \<Rightarrow> string \<Rightarrow> nat \<Rightarrow> (nat \<Rightarrow> sysw) \<Rightarrow> session list \<Rightarrow> nat \<Rightarrow> nat act" where
  "teardown self override polls ws tracked sig =
     bindW (pureW (live_roots self override (ws 1) tracked)) (\<lambda>r1.
     bindW (signal_pass self r1 sig (ws 2) (ws 3)) (\<lambda>u.
       if sig \<in> set NON_TERMINATING_SIGNALS then (Inr 4, [])
       else bindW (pureW (wait_for_drain self override ws 4 polls tracked)) (\<lambda>(done1, t).
         if done1 then (Inr t, [])
         else bindW (pureW (live_roots self override (ws t) tracked)) (\<lambda>r2.
         bindW (escalate override (ws (t + 1)) r2) (\<lambda>u.
         bindW (pureW (wait_for_drain self override ws (t + 2) polls tracked)) (\<lambda>(done2, t').
           if done2 then (Inr t', [])
           else bindW (pureW (live_roots self override (ws t') tracked)) (\<lambda>r3.
           bindW (signal_pass self r3 SIGKILL (ws (t' + 1)) (ws (t' + 2))) (\<lambda>u. (Inr (t' + 3), [])))))))))"

definition survivors :: "nat \<Rightarrow> string \<Rightarrow> sysw \<Rightarrow> session list \<Rightarrow> kerror + nat list" where
  "survivors self override w tracked =
     bindR (read_pid_ppid w) (\<lambda>pp.
     bindR (live_roots_in self override w tracked pp) (\<lambda>rs.
     bindR (filterR (is_alive w) (concat (map (\<lambda>r. collect_tree r pp) rs))) (\<lambda>ps. Inr (sort (remdups ps)))))"

subsection \<open>The command\<close>

datatype kill_result = Usage string | InvalidTarget | NoMatch | NoLive | Sent nat | Terminated nat | Survived "nat list"

definition is_pid_token :: "string \<Rightarrow> bool" where
  "is_pid_token t \<longleftrightarrow> t \<noteq> [] \<and> list_all is_dec t"

definition select_sessions :: "session list \<Rightarrow> string \<Rightarrow> bool \<Rightarrow> kill_result + session list" where
  "select_sessions sessions target kill_all =
     (if kill_all then Inr sessions
      else if is_pid_token target then Inr (filter (\<lambda>s. ss_pid s = dec_nat target) sessions)
      else if \<not> is_valid_name target then Inl InvalidTarget
      else Inr (filter (\<lambda>s. ss_container s = target) sessions))"

definition report :: "nat \<Rightarrow> string \<Rightarrow> sysw \<Rightarrow> session list \<Rightarrow> nat \<Rightarrow> kerror + kill_result" where
  "report self override w tracked sig =
     (if sig \<in> set NON_TERMINATING_SIGNALS then Inr (Sent (length tracked))
      else bindR (survivors self override w tracked) (\<lambda>ps.
        Inr (if ps \<noteq> [] then Survived ps else Terminated (length tracked))))"

definition run_kill :: "nat \<Rightarrow> string \<Rightarrow> nat \<Rightarrow> (nat \<Rightarrow> sysw) \<Rightarrow> session list \<Rightarrow> nat \<Rightarrow> kill_result act" where
  "run_kill self override polls ws selected sig =
     (if selected = [] then (Inr NoMatch, [])
      else bindW (pureW (tracked_sessions self override (ws 0) selected)) (\<lambda>tracked.
        if tracked = [] then (Inr NoLive, [])
        else bindW (teardown self override polls ws tracked sig) (\<lambda>t.
          pureW (report self override (ws t) tracked sig))))"

definition command_kill :: "nat \<Rightarrow> string \<Rightarrow> nat \<Rightarrow> sysw \<Rightarrow> (nat \<Rightarrow> sysw) \<Rightarrow> string option \<Rightarrow> bool \<Rightarrow> string \<Rightarrow> kill_result act" where
  "command_kill self override polls w ws target kill_all signal_name =
     (case (if signal_name = [] then Some SIGTERM else parse_signal signal_name) of
        None \<Rightarrow> (Inr (Usage ''signal''), [])
      | Some sig \<Rightarrow>
          (if kill_all \<and> target \<noteq> None then (Inr (Usage ''a target cannot be combined with --all.''), [])
           else if \<not> kill_all \<and> target = None then (Inr (Usage ''specify a PID, a container name, or --all.''), [])
           else case fst (active_sessions w) of
               Inl e \<Rightarrow> (Inl (ListingError e), [])
             | Inr sessions \<Rightarrow>
                 (case select_sessions sessions (case target of Some t \<Rightarrow> t | None \<Rightarrow> []) kill_all of
                    Inl r \<Rightarrow> (Inr r, [])
                  | Inr selected \<Rightarrow> run_kill self override polls ws selected sig)))"

end
