(* ===== verification/Session_Props.thy ===== *)
theory Session_Props
  imports Session_Registry
begin

text \<open>
  The registry as a set: the sessions that are live in a world, what listing, registering and the death of a
  process do to that set, and how far a forged record gets.
\<close>

subsection \<open>The abstract registry\<close>

definition held :: "sysw \<Rightarrow> nat \<Rightarrow> bool" where
  "held w i \<longleftrightarrow> (\<exists>d. dict_get (y_table w) d = Some (i, True))"

definition record_of :: "sysw \<Rightarrow> nat \<Rightarrow> nat \<Rightarrow> pyerror + session option" where
  "record_of w i pid =
     validate_record (case read_state_file (fd_bytes (f_data (y_fs w) i)) of None \<Rightarrow> None | Some raw \<Rightarrow> json_loads_bytes raw) pid"

text \<open>A live session: its file is a regular one that some process holds, and says what a record says.\<close>

definition live_sessions :: "sysw \<Rightarrow> session set" where
  "live_sessions w =
     {s. ss_pid s \<noteq> 0 \<and> (\<exists>i. node_at (y_fs w) (sessions_dir w @ [session_name (ss_pid s)]) = Some (NFile i)
        \<and> held w i \<and> record_of w i (ss_pid s) = Inr (Some s))}"

definition good_world :: "sysw \<Rightarrow> bool" where
  "good_world w \<longleftrightarrow> wf_fs (y_fs w) \<and> y_flock w \<and> list_all plain_name (y_runtime w)
     \<and> distinct (map fst (y_table w)) \<and> (\<forall>d. y_next w \<le> d \<longrightarrow> dict_get (y_table w) d = None)
     \<and> (\<forall>d i x. dict_get (y_table w) d = Some (i, x) \<longrightarrow> i < f_next (y_fs w))"

subsection \<open>Names\<close>

lemma dec_other: "is_dec c \<Longrightarrow> c \<noteq> CHR ''.'' \<and> c \<noteq> CHR ''/''"
  by (auto simp: is_dec_def in_range_def code_def)

lemma session_name_head: "\<exists>c t. session_name pid = c # t \<and> is_dec c"
  using nat_str_digits [of pid] by (cases "nat_str pid") (auto simp: session_name_def)

lemma session_name_plain: "plain_name (session_name pid)"
proof -
  have "\<forall>c \<in> set (nat_str pid). c \<noteq> CHR ''/''" using nat_str_digits [of pid] dec_other by (auto simp: list_all_iff)
  moreover have "CHR ''/'' \<notin> set ''.json''" by simp
  ultimately have "CHR ''/'' \<notin> set (session_name pid)" unfolding session_name_def by auto
  moreover obtain c t where "session_name pid = c # t" "c \<noteq> CHR ''.''" using session_name_head dec_other by blast
  ultimately show ?thesis by (simp add: plain_name_def)
qed

lemma session_name_inj: "session_name p = session_name q \<longleftrightarrow> p = q"
proof
  assume "session_name p = session_name q"
  then have "nat_str p = nat_str q" by (simp add: session_name_def)
  then show "p = q" using nat_str_digits [of p] nat_str_digits [of q] by metis
qed simp

lemma session_name_shape: "\<not> starts_with ''.'' (session_name pid) \<and> ends_with ''.json'' (session_name pid)"
proof -
  obtain c t where "session_name pid = c # t" "is_dec c" using session_name_head by blast
  then have "\<not> starts_with ''.'' (session_name pid)" using dec_other [of c] by (simp add: starts_with_def)
  then show ?thesis by (simp add: ends_with_def session_name_def)
qed

lemma record_pid_iff: "record_pid n = Some pid \<longleftrightarrow> pid \<noteq> 0 \<and> n = session_name pid"
proof
  assume r: "record_pid n = Some pid"
  then have e: "ends_with ''.json'' n" by (auto simp: record_pid_def split: if_splits)
  from r e have p: "pid \<noteq> 0" "take (length n - 5) n = nat_str pid"
    by (auto simp: record_pid_def Let_def split: if_splits)
  have l: "length ''.json'' = 5" by simp
  from e have "n = take (length n - length ''.json'') n @ ''.json''" unfolding ends_with_def by (metis append_take_drop_id)
  then have "n = take (length n - 5) n @ ''.json''" unfolding l .
  with p show "pid \<noteq> 0 \<and> n = session_name pid" by (simp add: session_name_def)
next
  assume "pid \<noteq> 0 \<and> n = session_name pid"
  then show "record_pid n = Some pid"
    using nat_str_digits [of pid] by (simp add: record_pid_def session_name_def ends_with_def)
qed

lemma validated_pid: "validate_record v pid = Inr (Some s) \<Longrightarrow> ss_pid s = pid"
  by (auto simp: validate_record_def session_of_def split: json.split_asm option.split_asm sum.split_asm prod.split_asm)

subsection \<open>Liveness probes\<close>

lemma grant_shared: "good_world w \<Longrightarrow> flock_grant (y_table w) (y_next w) i False = None \<longleftrightarrow> held w i"
proof -
  assume g: "good_world w"
  then have "dict_get (y_table w) (y_next w) = None" by (simp add: good_world_def)
  then have "(\<exists>p y. p \<noteq> y_next w \<and> dict_get (y_table w) p = Some (i, y) \<and> (False \<or> y)) \<longleftrightarrow> held w i"
    unfolding held_def by (metis option.distinct(1))
  with fl.grant_refused [of "y_table w" "y_next w" i False] g show ?thesis by (simp add: good_world_def)
qed

lemma alive_iff:
  assumes "good_world w" and "plain_name n"
  shows "session_alive_at w d n \<longleftrightarrow> (\<exists>i. node_at (y_fs w) (d @ [n]) = Some (NFile i) \<and> held w i)"
  using assms(1) grant_shared [OF assms(1)]
  by (auto simp: session_alive_at_def open_regular_at_def at_plain [OF assms(2)] good_world_def
      split: option.splits node.splits)

lemma read_dir_fd:
  "sessions_dir_fd False w =
     (if is_dir (y_fs w) (y_runtime w) \<and> is_dir (y_fs w) (sessions_dir w) then Some (sessions_dir w) else None, y_fs w)"
proof -
  have "plain_name ''sessions''" by (simp add: plain_name_def)
  then show ?thesis
    by (auto simp: sessions_dir_fd_def opendir_under_def descend_mode_def SESSIONS_PARTS_def sessions_dir_def open_level_def
        opendir_at_def at_plain is_dir_def split: option.splits node.splits)
qed

lemma live_dir:
  assumes "good_world w" and "s \<in> live_sessions w"
  shows "fst (sessions_dir_fd False w) = Some (sessions_dir w)"
proof -
  have wf: "wf_fs (y_fs w)" using assms(1) by (simp add: good_world_def)
  obtain i where "node_at (y_fs w) (sessions_dir w @ [session_name (ss_pid s)]) = Some (NFile i)"
    using assms(2) by (auto simp: live_sessions_def)
  then have d: "is_dir (y_fs w) (sessions_dir w)" by (rule wf_node(2) [OF wf])
  then have "node_at (y_fs w) (y_runtime w @ [''sessions'']) \<noteq> None"
    by (auto simp: is_dir_def sessions_dir_def SESSIONS_PARTS_def split: option.splits)
  then have "is_dir (y_fs w) (y_runtime w)" using wf_node(2) [OF wf] by blast
  with d show ?thesis by (simp add: read_dir_fd)
qed

subsection \<open>Listing\<close>

definition entry_result :: "sysw \<Rightarrow> path \<Rightarrow> string \<Rightarrow> pyerror + session option" where
  "entry_result w d n =
     (case record_pid n of
        None \<Rightarrow> Inr None
      | Some pid \<Rightarrow>
          (case validate_record (read_record (y_fs w) d n) pid of
             Inl e \<Rightarrow> Inl e
           | Inr r \<Rightarrow> Inr (if session_alive_at w d n then r else None)))"

text \<open>The files of \<open>v\<close> are those of \<open>w\<close> without some names of \<open>N\<close> nobody holds.\<close>

definition pruned :: "path \<Rightarrow> string set \<Rightarrow> sysw \<Rightarrow> sysw \<Rightarrow> bool" where
  "pruned d N w v \<longleftrightarrow>
     v = w\<lparr>y_fs := y_fs v\<rparr> \<and> f_data (y_fs v) = f_data (y_fs w) \<and> f_next (y_fs v) = f_next (y_fs w)
     \<and> (wf_fs (y_fs w) \<longrightarrow> wf_fs (y_fs v))
     \<and> (\<forall>p. node_at (y_fs v) p = node_at (y_fs w) p
          \<or> node_at (y_fs v) p = None \<and> \<not> is_dir (y_fs w) p
            \<and> (\<exists>n \<in> N. p = d @ [n] \<and> ends_with ''.json'' n \<and> \<not> starts_with ''.'' n \<and> \<not> session_alive_at w d n))"

lemma pruned_refl [simp]: "pruned d N w w"
  by (simp add: pruned_def)

lemma record_hidden: "starts_with ''.'' n \<or> \<not> ends_with ''.json'' n \<Longrightarrow> record_pid n = None"
proof (cases "record_pid n")
  case (Some pid)
  assume h: "starts_with ''.'' n \<or> \<not> ends_with ''.json'' n"
  from Some have "n = session_name pid" by (simp add: record_pid_iff)
  with h session_name_shape [of pid] show ?thesis by simp
qed

lemma unlink_pruned:
  assumes "plain_name n" and "ends_with ''.json'' n" and "\<not> starts_with ''.'' n" and "\<not> session_alive_at w d n"
  shows "pruned d {n} w (w\<lparr>y_fs := unlink_quietly (y_fs w) d n\<rparr>)"
proof -
  have "wf_fs (y_fs w) \<Longrightarrow> wf_fs (unlink_quietly (y_fs w) d n)"
    using safe_unlink_quietly [OF assms(1), of d d "y_fs w"] by (auto dest: safe_wf)
  moreover have "unlink_quietly (y_fs w) d n = y_fs w \<or> unlink_quietly (y_fs w) d n = drop_node (d @ [n]) (y_fs w) \<and> \<not> is_dir (y_fs w) (d @ [n])"
    by (auto simp: unlink_quietly_def unlink_at_def at_plain [OF assms(1)] is_dir_def split: sum.splits option.splits node.splits if_splits)
  ultimately show ?thesis using assms(2-4) by (auto simp: pruned_def split: if_splits)
qed

lemma probe_entry_result:
  assumes "plain_name n"
  shows "(case probe_entry d n w of
      Inl e \<Rightarrow> entry_result w d n = Inl e
    | Inr (r, v) \<Rightarrow> entry_result w d n = Inr r \<and> pruned d {n} w v)"
proof (cases "starts_with ''.'' n \<or> \<not> ends_with ''.json'' n")
  case True
  then show ?thesis by (auto simp: probe_entry_def entry_result_def record_hidden)
next
  case False
  then have u: "\<not> session_alive_at w d n \<Longrightarrow> pruned d {n} w (w\<lparr>y_fs := unlink_quietly (y_fs w) d n\<rparr>)"
    using unlink_pruned [OF assms] by blast
  show ?thesis
  proof (cases "record_pid n")
    case None
    with False u show ?thesis by (simp add: probe_entry_def entry_result_def)
  next
    case (Some pid)
    with False u show ?thesis
      by (cases "validate_record (read_record (y_fs w) d n) pid") (simp_all add: probe_entry_def entry_result_def)
  qed
qed

lemma pruned_entry:
  assumes "pruned d N w v" and "m \<notin> N" and "plain_name m"
  shows "session_alive_at v d m = session_alive_at w d m" and "entry_result v d m = entry_result w d m"
proof -
  obtain s where v: "v = w\<lparr>y_fs := s\<rparr>" and s: "f_data s = f_data (y_fs w)" "node_at s (d @ [m]) = node_at (y_fs w) (d @ [m])"
    using assms(1,2) unfolding pruned_def by (metis append1_eq_conv sysw.select_convs(1) sysw.update_convs(1) sysw.surjective)
  have o: "open_regular_at s d m = open_regular_at (y_fs w) d m" using s by (simp add: open_regular_at_def at_plain [OF assms(3)])
  show "session_alive_at v d m = session_alive_at w d m" using o v by (simp add: session_alive_at_def split: sum.splits)
  moreover have "read_record s d m = read_record (y_fs w) d m" using o s by (simp add: read_record_def split: sum.splits)
  ultimately show "entry_result v d m = entry_result w d m" using v by (simp add: entry_result_def split: option.splits sum.splits)
qed

lemma pruned_trans:
  assumes a: "pruned d {n} w v" and b: "pruned d N v u" and n: "n \<notin> N" and plain: "\<forall>m \<in> N. plain_name m"
  shows "pruned d (insert n N) w u"
proof -
  have alive: "session_alive_at v d m = session_alive_at w d m" if "m \<in> N" for m
    using pruned_entry(1) [OF a, of m] n plain that by auto
  have "node_at (y_fs u) p = node_at (y_fs w) p
      \<or> node_at (y_fs u) p = None \<and> \<not> is_dir (y_fs w) p
        \<and> (\<exists>m \<in> insert n N. p = d @ [m] \<and> ends_with ''.json'' m \<and> \<not> starts_with ''.'' m \<and> \<not> session_alive_at w d m)" for p
  proof (cases "node_at (y_fs v) p = node_at (y_fs w) p")
    case True
    then have "is_dir (y_fs v) p = is_dir (y_fs w) p" by (simp add: is_dir_def)
    moreover have "node_at (y_fs u) p = node_at (y_fs v) p \<or> node_at (y_fs u) p = None \<and> \<not> is_dir (y_fs v) p
        \<and> (\<exists>m \<in> N. p = d @ [m] \<and> ends_with ''.json'' m \<and> \<not> starts_with ''.'' m \<and> \<not> session_alive_at v d m)"
      using b by (simp add: pruned_def)
    ultimately show ?thesis using True alive by auto
  next
    case False
    moreover have "node_at (y_fs v) p = node_at (y_fs w) p \<or> node_at (y_fs v) p = None \<and> \<not> is_dir (y_fs w) p
        \<and> (p = d @ [n] \<and> ends_with ''.json'' n \<and> \<not> starts_with ''.'' n \<and> \<not> session_alive_at w d n)"
      using a by (simp add: pruned_def)
    ultimately have g: "node_at (y_fs v) p = None" "\<not> is_dir (y_fs w) p"
      "p = d @ [n] \<and> ends_with ''.json'' n \<and> \<not> starts_with ''.'' n \<and> \<not> session_alive_at w d n"
      by blast+
    have "node_at (y_fs u) p = node_at (y_fs v) p \<or> node_at (y_fs u) p = None" using b by (auto simp: pruned_def)
    with g show ?thesis by auto
  qed
  moreover have "u = w\<lparr>y_fs := y_fs u\<rparr>"
  proof -
    obtain s t where "v = w\<lparr>y_fs := s\<rparr>" "u = v\<lparr>y_fs := t\<rparr>" using a b unfolding pruned_def by blast
    then show ?thesis by simp
  qed
  ultimately show ?thesis using a b by (simp add: pruned_def)
qed

lemma probe_entries_result:
  assumes "probe_entries d ns w = (res, v)" and "distinct ns" and "\<forall>n \<in> set ns. plain_name n"
  shows "pruned d (set ns) w v
    \<and> (\<forall>xs. res = Inr xs \<longrightarrow> set xs = {s. \<exists>n \<in> set ns. entry_result w d n = Inr (Some s)} \<and> distinct (map ss_pid xs))"
  using assms
proof (induction ns arbitrary: w res v)
  case Nil
  then show ?case by auto
next
  case (Cons n ns)
  have p: "plain_name n" using Cons.prems(3) by simp
  show ?case
  proof (cases "probe_entry d n w")
    case (Inl e)
    with Cons.prems(1) show ?thesis by auto
  next
    case (Inr rv)
    obtain r w1 where rv: "rv = (r, w1)" by (cases rv)
    with Inr probe_entry_result [OF p, where d = d and w = w] have r: "entry_result w d n = Inr r" and pr: "pruned d {n} w w1" by auto
    obtain res1 u where rest: "probe_entries d ns w1 = (res1, u)" by (cases "probe_entries d ns w1")
    with Inr rv Cons.prems(1) have v: "v = u" by (auto split: sum.splits)
    from Cons.IH [OF rest] Cons.prems have ih: "pruned d (set ns) w1 u"
      "\<And>xs. res1 = Inr xs \<Longrightarrow> set xs = {s. \<exists>m \<in> set ns. entry_result w1 d m = Inr (Some s)} \<and> distinct (map ss_pid xs)" by auto
    have same: "entry_result w1 d m = entry_result w d m" if "m \<in> set ns" for m
      using pruned_entry(2) [OF pr, of m] that Cons.prems by auto
    have "pruned d (set (n # ns)) w v" using pruned_trans [OF pr ih(1)] Cons.prems v by simp
    moreover have "set xs = {s. \<exists>m \<in> set (n # ns). entry_result w d m = Inr (Some s)} \<and> distinct (map ss_pid xs)" if "res = Inr xs" for xs
    proof -
      from that Inr rv rest Cons.prems(1) obtain ys where ys: "res1 = Inr ys" and xs: "xs = (case r of None \<Rightarrow> ys | Some x \<Rightarrow> x # ys)"
        by (auto split: sum.splits)
      have set_ys: "set ys = {s. \<exists>m \<in> set ns. entry_result w d m = Inr (Some s)}" and dist: "distinct (map ss_pid ys)"
        using ih(2) [OF ys] same by auto
      have pid: "n' = session_name (ss_pid s)" if "entry_result w d n' = Inr (Some s)" for n' s
        using that by (auto simp: entry_result_def record_pid_iff split: option.splits sum.splits if_splits dest: validated_pid)
      have "ss_pid x \<notin> ss_pid ` set ys" if "r = Some x" for x
      proof
        assume "ss_pid x \<in> ss_pid ` set ys"
        then obtain y m where y: "ss_pid x = ss_pid y" "m \<in> set ns" "entry_result w d m = Inr (Some y)" using set_ys by auto
        have "n = session_name (ss_pid x)" using r that by (intro pid) simp
        with pid [OF y(3)] y(1,2) Cons.prems(2) show False by simp
      qed
      with xs set_ys dist r show ?thesis by (cases r) auto
    qed
    ultimately show ?thesis by blast
  qed
qed

lemma sorted_by_two:
  fixes f :: "'a \<Rightarrow> 'b :: linorder" and g :: "'a \<Rightarrow> 'c :: linorder"
  assumes "sorted (map f xs)" and "\<And>k. sorted (map g (filter (\<lambda>x. f x = k) xs))"
  shows "sorted_wrt (\<lambda>x y. f x < f y \<or> f x = f y \<and> g x \<le> g y) xs"
  using assms
proof (induction xs)
  case (Cons z zs)
  have "f z < f y \<or> f z = f y \<and> g z \<le> g y" if "y \<in> set zs" for y
  proof (cases "f z = f y")
    case True
    have "sorted (map g (filter (\<lambda>x. f x = f z) (z # zs)))" by (rule Cons.prems(2))
    with that True show ?thesis by simp
  next
    case False
    with Cons.prems(1) that show ?thesis by fastforce
  qed
  moreover have "sorted (map g (filter (\<lambda>x. f x = k) zs))" for k using Cons.prems(2) [of k] by (simp split: if_splits)
  ultimately show ?case using Cons by simp
qed simp

lemma sort_two_keys:
  fixes f :: "'a \<Rightarrow> 'b :: linorder" and g :: "'a \<Rightarrow> 'c :: linorder"
  shows "sorted_wrt (\<lambda>x y. f x < f y \<or> f x = f y \<and> g x \<le> g y) (sort_key f (sort_key g xs))"
proof (rule sorted_by_two)
  have "sorted (map g (filter P (sort_key g xs)))" for P by (rule sorted_filter) simp
  then show "sorted (map g (filter (\<lambda>x. f x = k) (sort_key f (sort_key g xs))))" for k
    by (simp add: sort_key_stable)
qed simp

lemma entry_live:
  assumes "good_world w"
  shows "(\<exists>n. node_at (y_fs w) (sessions_dir w @ [n]) \<noteq> None \<and> entry_result w (sessions_dir w) n = Inr (Some s)) \<longleftrightarrow> s \<in> live_sessions w"
proof
  assume "\<exists>n. node_at (y_fs w) (sessions_dir w @ [n]) \<noteq> None \<and> entry_result w (sessions_dir w) n = Inr (Some s)"
  then obtain n where e: "entry_result w (sessions_dir w) n = Inr (Some s)" by blast
  then obtain pid where pid: "record_pid n = Some pid"
    and v: "validate_record (read_record (y_fs w) (sessions_dir w) n) pid = Inr (Some s)" and al: "session_alive_at w (sessions_dir w) n"
    by (auto simp: entry_result_def split: option.splits sum.splits if_splits)
  from pid have n: "pid \<noteq> 0" "n = session_name pid" by (simp_all add: record_pid_iff)
  have p: "plain_name n" using n session_name_plain by simp
  from al obtain i where i: "node_at (y_fs w) (sessions_dir w @ [n]) = Some (NFile i)" "held w i"
    using alive_iff [OF assms p] by blast
  with v have "record_of w i pid = Inr (Some s)"
    by (simp add: read_record_def open_regular_at_def at_plain [OF p] record_of_def)
  with i n validated_pid [OF v] show "s \<in> live_sessions w" by (auto simp: live_sessions_def)
next
  assume "s \<in> live_sessions w"
  then obtain i where i: "ss_pid s \<noteq> 0" "node_at (y_fs w) (sessions_dir w @ [session_name (ss_pid s)]) = Some (NFile i)"
    "held w i" "record_of w i (ss_pid s) = Inr (Some s)" by (auto simp: live_sessions_def)
  let ?n = "session_name (ss_pid s)"
  have p: "plain_name ?n" by (rule session_name_plain)
  have "session_alive_at w (sessions_dir w) ?n" using i alive_iff [OF assms p] by blast
  moreover have "record_pid ?n = Some (ss_pid s)" using i(1) by (simp add: record_pid_iff)
  ultimately have "entry_result w (sessions_dir w) ?n = Inr (Some s)"
    using i by (simp add: entry_result_def read_record_def open_regular_at_def at_plain [OF p] record_of_def)
  with i(2) show "\<exists>n. node_at (y_fs w) (sessions_dir w @ [n]) \<noteq> None \<and> entry_result w (sessions_dir w) n = Inr (Some s)" by auto
qed

lemma listing_pruned:
  assumes "good_world w" and "active_sessions w = (res, v)"
  shows "pruned (sessions_dir w) (set (listdir_at (y_fs w) (sessions_dir w))) w v"
    and "res = Inr xs \<Longrightarrow> set xs = live_sessions w" and "res = Inr xs \<Longrightarrow> distinct (map ss_pid xs)"
    and "res = Inr xs \<Longrightarrow> sorted_wrt (\<lambda>x y. ss_start x < ss_start y \<or> ss_start x = ss_start y \<and> ss_pid x \<le> ss_pid y) xs"
proof -
  let ?d = "sessions_dir w"
  let ?ns = "listdir_at (y_fs w) ?d"
  have wf: "wf_fs (y_fs w)" using assms(1) by (simp add: good_world_def)
  have all: "pruned ?d (set ?ns) w v \<and> (\<forall>xs. res = Inr xs \<longrightarrow> set xs = live_sessions w \<and> distinct (map ss_pid xs)
      \<and> sorted_wrt (\<lambda>x y. ss_start x < ss_start y \<or> ss_start x = ss_start y \<and> ss_pid x \<le> ss_pid y) xs)"
  proof (cases "fst (sessions_dir_fd False w)")
    case None
    with assms(2) have "res = Inr []" "v = w" by (auto simp: active_sessions_def)
    moreover have "live_sessions w = {}" using live_dir [OF assms(1)] None by fastforce
    ultimately show ?thesis by simp
  next
    case (Some d)
    then have d: "d = ?d" by (auto simp: read_dir_fd split: if_splits)
    obtain r u where r: "probe_entries ?d ?ns w = (r, u)" by (cases "probe_entries ?d ?ns w")
    have plain: "\<forall>n \<in> set ?ns. plain_name n" using listdir_iff [OF wf] wf_node(1) [OF wf] by blast
    note pr = probe_entries_result [OF r listdir_sorted(2) plain]
    have "u = v" using assms(2) Some d r by (auto simp: active_sessions_def split: sum.splits)
    moreover have "set xs = live_sessions w \<and> distinct (map ss_pid xs)
        \<and> sorted_wrt (\<lambda>x y. ss_start x < ss_start y \<or> ss_start x = ss_start y \<and> ss_pid x \<le> ss_pid y) xs" if "res = Inr xs" for xs
    proof -
      from that assms(2) Some d r obtain ys where ys: "r = Inr ys" "xs = sort_key ss_start (sort_key ss_pid ys)"
        by (auto simp: active_sessions_def split: sum.splits)
      have s: "set ys = {s. \<exists>n \<in> set ?ns. entry_result w ?d n = Inr (Some s)}" "distinct (map ss_pid ys)" using pr ys(1) by blast+
      have "set ys = live_sessions w"
        unfolding s(1) Bex_def listdir_iff [OF wf] entry_live [OF assms(1)] by simp
      moreover have "distinct (map ss_pid xs)" unfolding ys(2)
        using s(2) by (simp add: distinct_map inj_on_def)
      ultimately show ?thesis using ys(2) sort_two_keys by simp
    qed
    ultimately show ?thesis using pr by simp
  qed
  show "pruned ?d (set ?ns) w v" "res = Inr xs \<Longrightarrow> set xs = live_sessions w" "res = Inr xs \<Longrightarrow> distinct (map ss_pid xs)"
    "res = Inr xs \<Longrightarrow> sorted_wrt (\<lambda>x y. ss_start x < ss_start y \<or> ss_start x = ss_start y \<and> ss_pid x \<le> ss_pid y) xs"
    using all by blast+
qed

lemma pruned_live:
  assumes "good_world w" and "pruned (sessions_dir w) N w v"
  shows "good_world v" and "live_sessions v = live_sessions w"
proof -
  obtain s where v: "v = w\<lparr>y_fs := s\<rparr>" using assms(2) unfolding pruned_def by blast
  with assms show "good_world v" by (auto simp: good_world_def pruned_def)
  have same: "held v i = held w i" "record_of v i pid = record_of w i pid" "sessions_dir v = sessions_dir w" for i pid
    using assms(2) v by (auto simp: held_def record_of_def sessions_dir_def pruned_def)
  have "node_at (y_fs v) p = Some (NFile i) \<longleftrightarrow> node_at (y_fs w) p = Some (NFile i)"
    if h: "held w i" "p = sessions_dir w @ [session_name pid]" for p i pid
  proof -
    have "session_alive_at w (sessions_dir w) n" if "node_at (y_fs w) p = Some (NFile i)" "p = sessions_dir w @ [n]" for n
      using alive_iff [OF assms(1) session_name_plain, of "sessions_dir w" pid] h that by auto
    moreover have "node_at (y_fs v) p = node_at (y_fs w) p \<or> node_at (y_fs v) p = None
        \<and> (\<exists>n. p = sessions_dir w @ [n] \<and> \<not> session_alive_at w (sessions_dir w) n)"
      using assms(2) by (auto simp: pruned_def)
    ultimately show ?thesis by fastforce
  qed
  then have "(\<exists>i. node_at (y_fs v) (sessions_dir w @ [session_name k]) = Some (NFile i) \<and> held w i \<and> record_of w i k = Inr (Some s))
      = (\<exists>i. node_at (y_fs w) (sessions_dir w @ [session_name k]) = Some (NFile i) \<and> held w i \<and> record_of w i k = Inr (Some s))" for k s
    by metis
  then show "live_sessions v = live_sessions w" by (simp add: live_sessions_def same)
qed

text \<open>C6. Listing refines the abstract registry: what \<open>ps\<close> and \<open>kill\<close> get is exactly the set of live sessions,
  each once, by start time and PID, and the pruning that goes with it does not change that set.\<close>

theorem listing_refines_registry:
  assumes "good_world w" and "active_sessions w = (Inr xs, v)"
  shows "set xs = live_sessions w \<and> distinct (map ss_pid xs)
    \<and> sorted_wrt (\<lambda>x y. ss_start x < ss_start y \<or> ss_start x = ss_start y \<and> ss_pid x \<le> ss_pid y) xs
    \<and> live_sessions v = live_sessions w"
  using listing_pruned [OF assms] pruned_live(2) [OF assms(1) listing_pruned(1) [OF assms]] by blast

text \<open>Whatever guests left in the sessions directory, and even when listing fails, it takes away nothing
  but names ending in \<open>.json\<close> of that directory that are no directories and no file a process holds.\<close>

theorem pruning_confined:
  assumes "good_world w" and "active_sessions w = (res, v)" and "node_at (y_fs v) p \<noteq> node_at (y_fs w) p"
  shows "node_at (y_fs v) p = None \<and> \<not> is_dir (y_fs w) p \<and> butlast p = sessions_dir w \<and> ends_with ''.json'' (last p)
    \<and> (\<forall>i. node_at (y_fs w) p = Some (NFile i) \<longrightarrow> \<not> held w i) \<and> f_data (y_fs v) = f_data (y_fs w)"
proof -
  let ?d = "sessions_dir w"
  have wf: "wf_fs (y_fs w)" using assms(1) by (simp add: good_world_def)
  note pr = listing_pruned(1) [OF assms(1,2)]
  then obtain n where n: "node_at (y_fs v) p = None" "\<not> is_dir (y_fs w) p" "p = ?d @ [n]" "ends_with ''.json'' n"
    "\<not> session_alive_at w ?d n" "n \<in> set (listdir_at (y_fs w) ?d)"
    using assms(3) unfolding pruned_def by blast
  have "plain_name n" using n(6) listdir_iff [OF wf] wf_node(1) [OF wf] by blast
  with n(5) alive_iff [OF assms(1)] have "node_at (y_fs w) p = Some (NFile i) \<Longrightarrow> \<not> held w i" for i
    using n(3) by blast
  with n pr show ?thesis by (auto simp: pruned_def)
qed

subsection \<open>Registering\<close>

definition dirs_added :: "fs \<Rightarrow> fs \<Rightarrow> bool" where
  "dirs_added s t \<longleftrightarrow> f_data t = f_data s \<and> f_next t = f_next s \<and> (wf_fs s \<longrightarrow> wf_fs t)
     \<and> (\<forall>p. node_at t p = node_at s p \<or> node_at s p = None \<and> is_dir t p)"

lemma dirs_added_refl [simp]: "dirs_added s s"
  by (simp add: dirs_added_def)

lemma dirs_added_trans: "dirs_added s t \<Longrightarrow> dirs_added t u \<Longrightarrow> dirs_added s u"
  unfolding dirs_added_def is_dir_def by (metis option.case(1))

lemma mkdir_added: "mkdir_at s d n m = Inr t \<Longrightarrow> dirs_added s t"
  using safe_mkdir [of s d n m t d] by (auto simp: mkdir_at_def dirs_added_def at_plain dest: safe_wf split: if_splits)

lemma open_level_added: "open_level c s d n = (res, t) \<Longrightarrow> dirs_added s t"
  by (auto simp: open_level_def dest: mkdir_added split: sum.splits if_splits)

lemma descend_added: "descend_at c s d ns = (res, t) \<Longrightarrow> dirs_added s t"
proof (induction c s d ns arbitrary: res t rule: descend_at.induct)
  case (3 c s d n m ns)
  then show ?case
    by (auto split: prod.splits sum.splits dest!: open_level_added intro: dirs_added_trans)
qed (auto dest: open_level_added)

lemma write_dir_fd:
  assumes "sessions_dir_fd True w = (Some d, s)" and "list_all plain_name (y_runtime w)"
  shows "dirs_added (y_fs w) s" and "d = sessions_dir w" and "is_dir s d"
proof -
  obtain r u where r: "descend_at True (y_fs w) [] (y_runtime w) = (Inr r, u)"
    using assms(1) by (auto simp: sessions_dir_fd_def split: prod.splits sum.splits)
  with assms(1) have o: "descend_at True u (y_runtime w) SESSIONS_PARTS = (Inr d, s)"
    by (auto simp: sessions_dir_fd_def opendir_under_def descend_mode_def split: prod.splits sum.splits if_splits)
  show "dirs_added (y_fs w) s" using descend_added [OF r] descend_added [OF o] by (rule dirs_added_trans)
  have "list_all plain_name SESSIONS_PARTS" by (simp add: SESSIONS_PARTS_def plain_name_def)
  with descend_safe [OF o, of "y_runtime w"] show "d = sessions_dir w" "is_dir s d" by (auto simp: sessions_dir_def)
qed

lemma dirs_added_live:
  assumes "good_world w" and "dirs_added (y_fs w) s"
  shows "good_world (w\<lparr>y_fs := s\<rparr>)" and "live_sessions (w\<lparr>y_fs := s\<rparr>) = live_sessions w"
proof -
  show "good_world (w\<lparr>y_fs := s\<rparr>)" using assms by (auto simp: good_world_def dirs_added_def)
  have "node_at s p = Some (NFile i) \<longleftrightarrow> node_at (y_fs w) p = Some (NFile i)" for p i
  proof -
    have "node_at s p = node_at (y_fs w) p \<or> node_at (y_fs w) p = None \<and> is_dir s p"
      using assms(2) by (simp add: dirs_added_def)
    then show ?thesis by (auto simp: is_dir_def)
  qed
  then show "live_sessions (w\<lparr>y_fs := s\<rparr>) = live_sessions w"
    using assms(2) by (simp add: live_sessions_def held_def record_of_def sessions_dir_def dirs_added_def)
qed

text \<open>What the payload of a session reads back as.\<close>

definition registered :: "nat \<Rightarrow> string \<Rightarrow> string \<Rightarrow> string list \<Rightarrow> string \<Rightarrow> int \<Rightarrow> bool \<Rightarrow> bool \<Rightarrow> bool \<Rightarrow> session" where
  "registered pid container kind command user q isolated minimal detach =
     \<lparr>ss_pid = pid, ss_container = container, ss_kind = kind, ss_command = command, ss_user = user,
      ss_start = q, ss_isolated = isolated, ss_minimal = minimal, ss_detach = detach\<rparr>"

lemma json_strings_of_map: "json_strings (map JStr xs) = Some xs"
  by (induction xs) (simp_all add: json_strings_def json_str_def)

text \<open>PIDs are at most \<open>2 ^ 22\<close> (\<open>PID_MAX_LIMIT\<close> of the kernel).\<close>

definition PID_MAX_LIMIT :: nat where
  "PID_MAX_LIMIT = 4194304"

lemma nat_str_length: "n < 10 ^ Suc k \<Longrightarrow> length (nat_str n) \<le> Suc k"
proof (induction k arbitrary: n)
  case 0
  then show ?case by (simp add: nat_str.simps)
next
  case (Suc k)
  show ?case
  proof (cases "n < 10")
    case True
    then show ?thesis by (simp add: nat_str.simps)
  next
    case False
    have "n div 10 < 10 ^ Suc k" using Suc.prems by (simp add: less_mult_imp_div_less mult.commute)
    with Suc.IH have "length (nat_str (n div 10)) \<le> Suc k" by blast
    with False show ?thesis by (subst nat_str.simps) simp
  qed
qed

lemma payload_ok:
  assumes "pid < PID_MAX_LIMIT" and "js_number now = Some (now, [])" and "num_int now = None"
  shows "json_ok (session_payload pid container kind command user now i m e)"
    and "\<not> json_too_long (session_payload pid container kind command user now i m e)"
proof -
  show "json_ok (session_payload pid container kind command user now i m e)"
    using assms(2) js_number_nat_str by (simp add: session_payload_def list_all_iff)
  have "pid < 10 ^ Suc 6" using assms(1) by (simp add: PID_MAX_LIMIT_def)
  then have "length (nat_str pid) \<le> Suc 6" by (rule nat_str_length)
  then have "length (filter is_dec (nat_str pid)) \<le> 7" using length_filter_le [of is_dec "nat_str pid"] by linarith
  moreover have "\<not> list_ex json_too_long (map JStr command)" by (simp add: list_ex_iff)
  ultimately show "\<not> json_too_long (session_payload pid container kind command user now i m e)"
    using assms(3) by (simp add: session_payload_def MAX_INT_DIGITS_def)
qed

lemma payload_reads_back:
  assumes "is_valid_name container" and "kind \<in> set SESSION_KINDS" and "pid < PID_MAX_LIMIT"
    and "js_number now = Some (now, [])" and "num_int now = None" and "num_float now = Fin q"
  shows "validate_record (json_loads_bytes (json_dumps (session_payload pid container kind command user now i m e) @ [CHR 0x0A])) pid
    = Inr (Some (registered pid container kind command user q i m e))"
proof -
  let ?v = "session_payload pid container kind command user now i m e"
  have "json_loads_bytes (json_dumps ?v @ [CHR 0x0A]) = Some ?v"
    using payload_ok [OF assms(3-5)] by (rule json_bytes_roundtrip)
  moreover have "finite_start now = Inr (Some q)" using assms(5,6) by (simp add: finite_start_def)
  ultimately show ?thesis
    using assms(1,2)
    by (simp add: validate_record_def session_payload_def record_head_def num_field_def str_field_of_def strs_field_def
        dict_get_def json_strings_of_map num_int_nat_str session_of_def flag_field_def registered_def)
qed

lemma tmp_name_facts:
  assumes "CHR ''/'' \<notin> set rnd"
  shows "plain_name (''.'' @ nat_str pid @ ''.'' @ rnd @ ''.tmp'')" and "''.'' @ nat_str pid @ ''.'' @ rnd @ ''.tmp'' \<noteq> session_name k"
proof -
  have "\<forall>c \<in> set (nat_str pid). c \<noteq> CHR ''/''" using nat_str_digits [of pid] dec_other by (auto simp: list_all_iff)
  moreover have "nat_str pid \<noteq> []" using nat_str_digits by blast
  ultimately show "plain_name (''.'' @ nat_str pid @ ''.'' @ rnd @ ''.tmp'')" using assms by (auto simp: plain_name_def)
  obtain c t where "session_name k = c # t" "c \<noteq> CHR ''.''" using session_name_head dec_other by blast
  then show "''.'' @ nat_str pid @ ''.'' @ rnd @ ''.tmp'' \<noteq> session_name k" by simp
qed

lemma open_new_frame:
  assumes "open_new_at s d n m = Inr (i, t)" and "plain_name n"
  shows "i = f_next s" and "f_next t = Suc (f_next s)" and "p \<noteq> d @ [n] \<Longrightarrow> node_at t p = node_at s p" and "node_at t (d @ [n]) = Some (NFile i)"
    and "j < f_next s \<Longrightarrow> f_data t j = f_data s j"
  using assms
  by (auto simp: open_new_at_def create_excl_def unlink_at_def at_plain node_at_def put_node_def drop_node_def
      split: sum.splits if_splits option.splits node.splits)

lemma replace_file:
  assumes "replace_entry s d old new = Inr t" and "node_at s (d @ [old]) = Some (NFile i)" and "node_at s (d @ [new]) \<noteq> Some (NFile i)"
  shows "t = put_node (d @ [new]) (NFile i) (drop_node (d @ [old]) s)" and "\<not> is_dir s (d @ [new])"
  using assms by (auto simp: replace_entry_def is_dir_def split: option.splits node.splits if_splits)

lemma add_fd_frame [simp]:
  "y_fs (add_fd pid k w) = y_fs w" "y_table (add_fd pid k w) = y_table w" "y_next (add_fd pid k w) = y_next w"
  "y_runtime (add_fd pid k w) = y_runtime w" "y_flock (add_fd pid k w) = y_flock w" "y_open (add_fd pid k w) = y_open w"
  by (simp_all add: add_fd_def)

text \<open>The world after the file is written, locked and published under its final name.\<close>

lemma register_world:
  assumes good: "good_world w" and reg: "register_at pid rnd payload d w = (Some k, v)" and d: "d = sessions_dir w"
    and rnd: "CHR ''/'' \<notin> set rnd"
  shows "good_world v \<and> sessions_dir v = sessions_dir w
    \<and> (\<exists>i. node_at (y_fs v) (d @ [session_name pid]) = Some (NFile i) \<and> held v i
          \<and> fd_bytes (f_data (y_fs v) i) = json_dumps payload @ [CHR 0x0A])
    \<and> (\<forall>q. q \<noteq> pid \<longrightarrow> node_at (y_fs v) (d @ [session_name q]) = node_at (y_fs w) (d @ [session_name q]))
    \<and> (\<forall>i < f_next (y_fs w). held v i = held w i \<and> fd_bytes (f_data (y_fs v) i) = fd_bytes (f_data (y_fs w) i))"
proof -
  let ?tmp = "''.'' @ nat_str pid @ ''.'' @ rnd @ ''.tmp''"
  let ?fin = "session_name pid"
  let ?data = "json_dumps payload @ [CHR 0x0A]"
  note tmp = tmp_name_facts [OF rnd, of pid]
  have wf: "wf_fs (y_fs w)" and fl: "y_flock w" and nx: "dict_get (y_table w) (y_next w) = None"
    and dist: "distinct (map fst (y_table w))" and low: "\<And>j i x. dict_get (y_table w) j = Some (i, x) \<Longrightarrow> i < f_next (y_fs w)"
    using good by (auto simp: good_world_def)
  obtain i s where new: "open_new_at (y_fs w) d ?tmp 420 = Inr (i, s)"
    using reg by (auto simp: register_at_def Let_def split: sum.splits)
  note o = open_new_frame [OF new tmp(1)]
  define s2 where "s2 = write_inode i ((f_data s i)\<lparr>fd_bytes := ?data\<rparr>) s"
  from reg new fl obtain t s3 where gr: "flock_grant (y_table w) (y_next w) i True = Some t"
    and rep: "replace_entry s2 d ?tmp ?fin = Inr s3" and k: "k = y_next w"
    and v: "v = add_fd pid k (w\<lparr>y_next := Suc k, y_fs := s3, y_table := t, y_open := dict_set k i (y_open w)\<rparr>)"
    by (auto simp: register_at_def Let_def s2_def split: sum.splits option.splits)
  have ne: "d @ [?fin] \<noteq> d @ [?tmp]" using tmp(2) [of pid] by simp
  have old: "node_at s2 (d @ [?fin]) = node_at (y_fs w) (d @ [?fin])" using o(3) ne by (simp add: s2_def)
  have "node_at s2 (d @ [?fin]) \<noteq> Some (NFile i)" using old wf_node(3) [OF wf] o(1) by auto
  moreover have "node_at s2 (d @ [?tmp]) = Some (NFile i)" using o(4) by (simp add: s2_def)
  ultimately have s3: "s3 = put_node (d @ [?fin]) (NFile i) (drop_node (d @ [?tmp]) s2)" and nd: "\<not> is_dir s2 (d @ [?fin])"
    using replace_file [OF rep] by auto
  have wfs: "wf_fs s" using safe_open_new(1) [OF new tmp(1), of d] wf by (auto dest: safe_wf)
  have dd: "is_dir s2 d" using wf_node(2) [OF wfs o(4)] by (simp add: s2_def is_dir_def)
  have "wf_fs (drop_node (d @ [?tmp]) s2)"
  proof (rule wf_drop)
    show "wf_fs s2" using wfs by (simp add: s2_def)
    then show "\<And>n. node_at s2 ((d @ [?tmp]) @ [n]) = None"
      using no_below_file [of s2 "d @ [?tmp]"] o(4) by (simp add: is_dir_def s2_def)
  qed simp
  then have wf3: "wf_fs s3" unfolding s3
    using session_name_plain dd nd ne o(1,2) by (intro wf_put) (auto simp: s2_def)
  have t: "dict_get t j = (if j = k then Some (i, True) else dict_get (y_table w) j)" for j
    using fl.grant_holds [OF gr] k by simp
  have td: "distinct (map fst t)" using fl.grant_valid [OF dist gr] .
  have tab: "dict_get t j = None" if "Suc k \<le> j" for j using t that good k by (auto simp: good_world_def)
  have low3: "j < f_next s3" if "dict_get t m = Some (j, x)" for m j x
    using that t low [of m j x] o(1,2) by (auto simp: s3 s2_def split: if_splits)
  have "good_world v"
    unfolding v good_world_def using wf3 good td tab low3 by (auto simp: good_world_def)
  moreover have "held v j = (if j = i then True else held w j)" for j
  proof -
    have "(\<exists>m. dict_get t m = Some (j, True)) \<longleftrightarrow> j = i \<or> (\<exists>m. dict_get (y_table w) m = Some (j, True))"
      using t nx k by (metis option.distinct(1) option.inject prod.inject)
    then show ?thesis by (simp add: held_def v)
  qed
  moreover have "node_at (y_fs v) (d @ [?fin]) = Some (NFile i)" "fd_bytes (f_data (y_fs v) i) = ?data"
    by (simp_all add: v s3 s2_def)
  moreover have "node_at (y_fs v) (d @ [session_name q]) = node_at (y_fs w) (d @ [session_name q])" if "q \<noteq> pid" for q
  proof -
    have "session_name q \<noteq> ?fin" "session_name q \<noteq> ?tmp" using that tmp(2) [of q] session_name_inj by metis+
    then show ?thesis using o(3) by (simp add: v s3 s2_def)
  qed
  moreover have "j \<noteq> i \<and> fd_bytes (f_data (y_fs v) j) = fd_bytes (f_data (y_fs w) j)" if "j < f_next (y_fs w)" for j
    using that o(1) o(5) by (simp add: v s3 s2_def)
  moreover have "sessions_dir v = sessions_dir w" by (simp add: v sessions_dir_def)
  ultimately show ?thesis by auto
qed

lemma register_inserts:
  assumes "good_world w"
    and "register_session pid rnd (session_payload pid container kind command user now i m e) w = (Some k, v)"
    and "CHR ''/'' \<notin> set rnd" and "pid \<noteq> 0" and "pid < PID_MAX_LIMIT" and "is_valid_name container" and "kind \<in> set SESSION_KINDS"
    and "js_number now = Some (now, [])" and "num_int now = None" and "num_float now = Fin q"
    and "length (json_dumps (session_payload pid container kind command user now i m e)) < MAX_STATE_JSON_BYTES"
  shows "live_sessions v = insert (registered pid container kind command user q i m e) {s \<in> live_sessions w. ss_pid s \<noteq> pid}
    \<and> good_world v"
proof -
  let ?p = "session_payload pid container kind command user now i m e"
  let ?r = "registered pid container kind command user q i m e"
  obtain s d where sd: "sessions_dir_fd True w = (Some d, s)" and at: "register_at pid rnd ?p d (w\<lparr>y_fs := s\<rparr>) = (Some k, v)"
    using assms(2) by (auto simp: register_session_def split: prod.splits option.splits)
  have "list_all plain_name (y_runtime w)" using assms(1) by (simp add: good_world_def)
  note wd = write_dir_fd [OF sd this]
  let ?w = "w\<lparr>y_fs := s\<rparr>"
  note lw = dirs_added_live [OF assms(1) wd(1)]
  have d: "d = sessions_dir ?w" using wd(2) by (simp add: sessions_dir_def)
  note rw = register_world [OF lw(1) at d assms(3)]
  then obtain j where j: "node_at (y_fs v) (d @ [session_name pid]) = Some (NFile j)" "held v j"
    "fd_bytes (f_data (y_fs v) j) = json_dumps ?p @ [CHR 0x0A]" by blast
  have rec: "record_of v j pid = Inr (Some ?r)"
    using payload_reads_back [OF assms(6,7,5,8-10)] assms(11) j(3) by (simp add: record_of_def read_state_file_def)
  have dir: "sessions_dir v = d" using rw d by simp
  have wf: "wf_fs (y_fs ?w)" using lw(1) by (simp add: good_world_def)
  have other: "(\<exists>i. node_at (y_fs v) (d @ [session_name k]) = Some (NFile i) \<and> held v i \<and> record_of v i k = Inr (Some x))
      \<longleftrightarrow> (\<exists>i. node_at (y_fs ?w) (d @ [session_name k]) = Some (NFile i) \<and> held ?w i \<and> record_of ?w i k = Inr (Some x))"
    if "k \<noteq> pid" for k x
  proof -
    have "node_at (y_fs v) (d @ [session_name k]) = node_at (y_fs ?w) (d @ [session_name k])" using rw that by blast
    moreover have "held v i = held ?w i \<and> record_of v i k = record_of ?w i k"
      if "node_at (y_fs ?w) (d @ [session_name k]) = Some (NFile i)" for i
      using rw wf_node(3) [OF wf that refl] by (simp add: record_of_def)
    ultimately show ?thesis by auto
  qed
  have "x \<in> live_sessions v \<longleftrightarrow> x \<in> insert ?r {s \<in> live_sessions ?w. ss_pid s \<noteq> pid}" for x
  proof (cases "ss_pid x = pid")
    case True
    have "x \<in> live_sessions v \<longleftrightarrow> x = ?r"
      using True j(1,2) rec assms(4) by (auto simp: live_sessions_def dir registered_def)
    with True show ?thesis by auto
  next
    case False
    then have "x \<noteq> ?r" by (auto simp: registered_def)
    with False other [OF False, of x] show ?thesis by (simp add: live_sessions_def dir d [symmetric])
  qed
  with lw(2) rw show ?thesis by blast
qed

text \<open>C7. Registering refines insertion: once \<open>register_session\<close> has answered a descriptor, the session it
  describes is live, field for field, in place of any other the PID had, and every other session is as it was.\<close>

theorem registering_refines_insertion:
  assumes "good_world w"
    and "register_session pid rnd (session_payload pid container kind command user now i m e) w = (Some k, v)"
    and "CHR ''/'' \<notin> set rnd" and "pid \<noteq> 0" and "pid < PID_MAX_LIMIT" and "is_valid_name container" and "kind \<in> set SESSION_KINDS"
    and "js_number now = Some (now, [])" and "num_int now = None" and "num_float now = Fin q"
    and "length (json_dumps (session_payload pid container kind command user now i m e)) < MAX_STATE_JSON_BYTES"
  shows "live_sessions v = insert (registered pid container kind command user q i m e) {s \<in> live_sessions w. ss_pid s \<noteq> pid}
    \<and> good_world v"
  using assms by (rule register_inserts)

subsection \<open>A record nobody can read\<close>

lemma probe_entries_error:
  assumes "probe_entries d ns w = (res, v)" and "distinct ns" and "\<forall>n \<in> set ns. plain_name n"
    and "n \<in> set ns" and "entry_result w d n = Inl e"
  shows "(\<exists>x. res = Inl x) \<and> node_at (y_fs v) (d @ [n]) = node_at (y_fs w) (d @ [n])"
  using assms
proof (induction ns arbitrary: w res v)
  case (Cons m ns)
  have p: "plain_name m" using Cons.prems(3) by simp
  show ?case
  proof (cases "probe_entry d m w")
    case (Inl x)
    with Cons.prems(1) show ?thesis by auto
  next
    case (Inr rv)
    obtain r w1 where rv: "rv = (r, w1)" by (cases rv)
    with Inr probe_entry_result [OF p, where d = d and w = w] have r: "entry_result w d m = Inr r" and pr: "pruned d {m} w w1" by auto
    from r Cons.prems(5) have "m \<noteq> n" by auto
    with Cons.prems have n: "n \<in> set ns" "plain_name n" by auto
    obtain res1 u where rest: "probe_entries d ns w1 = (res1, u)" by (cases "probe_entries d ns w1")
    have "entry_result w1 d n = Inl e" using pruned_entry(2) [OF pr, of n] n \<open>m \<noteq> n\<close> Cons.prems(5) by simp
    with Cons.IH [OF rest] Cons.prems n have "\<exists>x. res1 = Inl x" "node_at (y_fs u) (d @ [n]) = node_at (y_fs w1) (d @ [n])" by auto
    moreover have "node_at (y_fs w1) (d @ [n]) = node_at (y_fs w) (d @ [n])" using pr \<open>m \<noteq> n\<close> by (auto simp: pruned_def)
    ultimately show ?thesis using Inr rv rest Cons.prems(1) by auto
  qed
qed simp

lemma only_overflow: "(e :: pyerror) = OverflowError"
  by (cases e) simp

text \<open>A record whose start time is an integer beyond the floats ends \<open>ps\<close> and \<open>kill\<close> with an
  \<open>OverflowError\<close> nobody catches, whether or not its session is alive, and the file stays for the next run.\<close>

theorem oversized_start_time_blocks_listing:
  assumes "good_world w" and "node_at (y_fs w) (sessions_dir w @ [session_name pid]) = Some (NFile j)"
    and "fd_bytes (f_data (y_fs w) j) = json_dumps (session_payload pid container kind command user (nat_str N) i m e) @ [CHR 0x0A]"
    and "length (fd_bytes (f_data (y_fs w) j)) \<le> MAX_STATE_JSON_BYTES"
    and "2 ^ 1024 \<le> N" and "length (nat_str N) \<le> MAX_INT_DIGITS" and "pid \<noteq> 0" and "pid < PID_MAX_LIMIT"
    and "is_valid_name container" and "kind \<in> set SESSION_KINDS"
  shows "\<exists>v. active_sessions w = (Inl OverflowError, v) \<and> node_at (y_fs v) (sessions_dir w @ [session_name pid]) = Some (NFile j)"
proof -
  let ?d = "sessions_dir w" and ?n = "session_name pid"
  let ?p = "session_payload pid container kind command user (nat_str N) i m e"
  have wf: "wf_fs (y_fs w)" using assms(1) by (simp add: good_world_def)
  have "json_ok ?p" using js_number_nat_str by (simp add: session_payload_def list_all_iff)
  moreover have "\<not> json_too_long ?p"
  proof -
    have "pid < 10 ^ Suc 6" using assms(8) by (simp add: PID_MAX_LIMIT_def)
    then have "length (nat_str pid) \<le> Suc 6" by (rule nat_str_length)
    then have "length (filter is_dec (nat_str pid)) \<le> 7" using length_filter_le [of is_dec "nat_str pid"] by linarith
    moreover have "length (filter is_dec (nat_str N)) \<le> MAX_INT_DIGITS"
      using length_filter_le [of is_dec "nat_str N"] assms(6) by linarith
    moreover have "\<not> list_ex json_too_long (map JStr command)" by (simp add: list_ex_iff)
    ultimately show ?thesis by (simp add: session_payload_def MAX_INT_DIGITS_def)
  qed
  ultimately have load: "json_loads_bytes (json_dumps ?p @ [CHR 0x0A]) = Some ?p" by (rule json_bytes_roundtrip)
  have "finite_start (nat_str N) = Inl OverflowError"
    using double_of_huge [OF assms(5)] by (simp add: finite_start_def num_int_nat_str)
  then have "validate_record (Some ?p) pid = Inl OverflowError"
    using assms(9,10)
    by (simp add: validate_record_def session_payload_def record_head_def num_field_def str_field_of_def strs_field_def
        dict_get_def json_strings_of_map num_int_nat_str)
  moreover have "read_record (y_fs w) ?d ?n = Some ?p"
    using assms(2-4) load by (simp add: read_record_def read_state_file_def open_regular_at_def at_plain [OF session_name_plain])
  ultimately have er: "entry_result w ?d ?n = Inl OverflowError"
    using assms(7) record_pid_iff [of ?n pid] by (simp add: entry_result_def)
  let ?ns = "listdir_at (y_fs w) ?d"
  obtain res v where pe: "probe_entries ?d ?ns w = (res, v)" by (cases "probe_entries ?d ?ns w")
  have plain: "\<forall>n \<in> set ?ns. plain_name n" using listdir_iff [OF wf] wf_node(1) [OF wf] by blast
  have "?n \<in> set ?ns" using assms(2) listdir_iff [OF wf] by simp
  from probe_entries_error [OF pe listdir_sorted(2) plain this er]
  obtain x where "res = Inl x" "node_at (y_fs v) (?d @ [?n]) = Some (NFile j)" using assms(2) by auto
  moreover have "fst (sessions_dir_fd False w) = Some ?d"
  proof -
    have dd: "is_dir (y_fs w) ?d" by (rule wf_node(2) [OF wf assms(2)])
    then have "node_at (y_fs w) (y_runtime w @ [''sessions'']) \<noteq> None"
      by (auto simp: is_dir_def sessions_dir_def SESSIONS_PARTS_def split: option.splits)
    then have "is_dir (y_fs w) (y_runtime w)" using wf_node(2) [OF wf] by blast
    with dd show ?thesis by (simp add: read_dir_fd)
  qed
  ultimately have "active_sessions w = (Inl OverflowError, v)" using pe only_overflow by (simp add: active_sessions_def)
  with \<open>node_at (y_fs v) (?d @ [?n]) = Some (NFile j)\<close> show ?thesis by blast
qed

subsection \<open>Examples\<close>

definition sample_sys :: "(path \<times> node) list \<Rightarrow> string \<Rightarrow> sysw" where
  "sample_sys es bytes =
     \<lparr>y_fs = (sample_fs ([([], NDir 493 0), ([''rt''], NDir 493 0), ([''rt'', ''sessions''], NDir 493 0)] @ es))
        \<lparr>f_data := (\<lambda>i. \<lparr>fd_bytes = bytes, fd_mode = 420, fd_mtime = 0\<rparr>)\<rparr>,
      y_runtime = [''rt''], y_flock = True, y_table = [], y_open = [], y_next = 0, y_listing = True, y_procs = []\<rparr>"

definition sample_session :: session where
  "sample_session = registered 7 ''deb'' ''login'' [''sh''] ''root'' 0 False False False"

definition sample_registration :: "nat option \<times> sysw" where
  "sample_registration =
     register_session 7 ''ab'' (session_payload 7 ''deb'' ''login'' [''sh''] ''root'' ''0.0'' False False False) (sample_sys [] [])"

lemma sample_good:
  assumes "wf_fs (y_fs (sample_sys es b))"
  shows "good_world (sample_sys es b)"
  using assms by (simp add: good_world_def) (simp add: sample_sys_def plain_name_def)

lemma sample_not_held: "\<not> held (sample_sys es b) i"
  by (simp add: held_def sample_sys_def)

lemma sample_registers: "fst sample_registration = Some 0"
  unfolding sample_registration_def by code_simp

lemma sample_start: "num_float ''0.0'' = Fin 0"
proof -
  have "num_float ''0.0'' = signed_float False (dec_nat ''00'' * 10 ^ dec_nat []) (10 ^ length ''0'')"
    by (simp add: num_float_def starts_with_def Let_def is_dec_def in_range_def code_def)
  also have "dec_nat ''00'' * 10 ^ dec_nat [] = 0 * 10" by code_simp
  also have "(10::nat) ^ length ''0'' = 10" by simp
  also have "signed_float False (0 * 10) 10 = Fin (int (0 * 2 ^ 1074))"
  proof -
    have "double_of (0 * 10) 10 = double_of 0 1" by (rule double_of_scale) simp
    also have "double_of 0 1 = Some (0 * 2 ^ 1074)" by (rule double_of_small) simp
    finally show ?thesis by (simp only: signed_float_def option.case if_False)
  qed
  also have "int (0 * 2 ^ 1074) = 0" by (simp only: mult_0 of_nat_0)
  finally show ?thesis .
qed

lemma sample_valid:
  "js_number ''0.0'' = Some (''0.0'', [])" "num_int ''0.0'' = None" "CHR ''/'' \<notin> set ''ab''"
  "is_valid_name ''deb''" "''login'' \<in> set SESSION_KINDS" "(7::nat) < PID_MAX_LIMIT" "(7::nat) \<noteq> 0"
  "length (json_dumps (session_payload 7 ''deb'' ''login'' [''sh''] ''root'' ''0.0'' False False False)) < MAX_STATE_JSON_BYTES"
proof -
  have "length (json_dumps (session_payload 7 ''deb'' ''login'' [''sh''] ''root'' ''0.0'' False False False)) = 155" by code_simp
  then show "length (json_dumps (session_payload 7 ''deb'' ''login'' [''sh''] ''root'' ''0.0'' False False False)) < MAX_STATE_JSON_BYTES"
    by (simp add: MAX_STATE_JSON_BYTES_def)
  show "js_number ''0.0'' = Some (''0.0'', [])" "num_int ''0.0'' = None" "CHR ''/'' \<notin> set ''ab''" by code_simp+
qed (simp_all add: valid_name_iff char_class_defs code_def SESSION_KINDS_def PID_MAX_LIMIT_def)

lemma sample_empty: "good_world (sample_sys [] [])" "live_sessions (sample_sys [] []) = {}"
proof -
  have "wf_fs (y_fs (sample_sys [] []))" by code_simp
  then show "good_world (sample_sys [] [])" by (rule sample_good)
  show "live_sessions (sample_sys [] []) = {}" by (simp add: live_sessions_def sample_not_held)
qed

theorem registering_refines_insertion_witness:
  "fst sample_registration = Some 0 \<and> live_sessions (snd sample_registration) = {sample_session}"
proof -
  obtain v where v: "sample_registration = (Some 0, v)" using sample_registers by (metis prod.collapse)
  from registering_refines_insertion [OF sample_empty(1) v [unfolded sample_registration_def] sample_valid(3,7,6,4,5,1,2) sample_start sample_valid(8)]
  have "live_sessions v = insert sample_session {s \<in> {}. ss_pid s \<noteq> 7}"
    unfolding sample_empty(2) sample_session_def by (rule conjunct1)
  then show ?thesis unfolding v by simp
qed

lemma probe_entries_ok:
  assumes "probe_entries d ns w = (res, v)" and "distinct ns" and "\<forall>n \<in> set ns. plain_name n"
    and "\<forall>n \<in> set ns. \<exists>r. entry_result w d n = Inr r"
  shows "\<exists>xs. res = Inr xs"
  using assms
proof (induction ns arbitrary: w res v)
  case (Cons n ns)
  have p: "plain_name n" using Cons.prems(3) by simp
  obtain r where r: "entry_result w d n = Inr r" using Cons.prems(4) by auto
  with probe_entry_result [OF p, where d = d and w = w] obtain w1 where w1: "probe_entry d n w = Inr (r, w1)" "pruned d {n} w w1"
    by (auto split: sum.splits)
  obtain res1 u where rest: "probe_entries d ns w1 = (res1, u)" by (cases "probe_entries d ns w1")
  have "\<exists>r. entry_result w1 d m = Inr r" if "m \<in> set ns" for m
  proof -
    have "m \<noteq> n" "plain_name m" "\<exists>r. entry_result w d m = Inr r" using that Cons.prems(2-4) by auto
    with pruned_entry(2) [OF w1(2), of m] show ?thesis by simp
  qed
  with Cons.IH [OF rest] Cons.prems have "\<exists>xs. res1 = Inr xs" by auto
  with w1(1) rest Cons.prems(1) show ?case by auto
qed simp

lemma sample_listed: "\<exists>xs u. active_sessions (snd sample_registration) = (Inr xs, u)"
proof -
  obtain v where v: "sample_registration = (Some 0, v)" using sample_registers by (metis prod.collapse)
  from register_inserts [OF sample_empty(1) v [unfolded sample_registration_def] sample_valid(3,7,6,4,5,1,2) sample_start sample_valid(8)]
  have live: "live_sessions v = {sample_session}" and g: "good_world v" by (simp_all add: sample_empty(2) sample_session_def)
  have ns: "listdir_at (y_fs (snd sample_registration)) (sessions_dir (snd sample_registration)) = [session_name 7]"
    unfolding sample_registration_def by code_simp
  have "sample_session \<in> live_sessions v" using live by simp
  then obtain n where n: "entry_result v (sessions_dir v) n = Inr (Some sample_session)"
    unfolding entry_live [OF g, symmetric] by blast
  then have "n = session_name 7"
    by (auto simp: entry_result_def record_pid_iff sample_session_def registered_def split: option.splits sum.splits if_splits
        dest: validated_pid)
  with n have ok: "\<exists>r. entry_result v (sessions_dir v) m = Inr r" if "m \<in> set [session_name 7]" for m using that by auto
  obtain res u where pe: "probe_entries (sessions_dir v) [session_name 7] v = (res, u)" by fastforce
  then obtain xs where "res = Inr xs" using probe_entries_ok [OF pe] ok session_name_plain by auto
  moreover have "fst (sessions_dir_fd False v) = Some (sessions_dir v)" using live_dir [OF g] live by blast
  ultimately have "\<exists>xs u. active_sessions v = (Inr xs, u)" using pe ns unfolding v by (simp add: active_sessions_def)
  then show ?thesis unfolding v by simp
qed

theorem listing_refines_registry_witness:
  "\<exists>xs u. active_sessions (snd sample_registration) = (Inr xs, u) \<and> set xs = {sample_session} \<and> live_sessions u = {sample_session}"
proof -
  obtain v where v: "sample_registration = (Some 0, v)" using sample_registers by (metis prod.collapse)
  from register_inserts [OF sample_empty(1) v [unfolded sample_registration_def] sample_valid(3,7,6,4,5,1,2) sample_start sample_valid(8)]
  have live: "live_sessions v = {sample_session}" and g: "good_world v" by (simp_all add: sample_empty(2) sample_session_def)
  obtain xs u where "active_sessions v = (Inr xs, u)" using sample_listed unfolding v by auto
  with listing_refines_registry [OF g this] live show ?thesis unfolding v by auto
qed

definition dead_world :: sysw where
  "dead_world = sample_sys [([''rt'', ''sessions'', ''x.json''], NFile 3), ([''rt'', ''x.json''], NFile 3)] []"

theorem pruning_confined_witness:
  "node_at (y_fs dead_world) [''rt'', ''sessions'', ''x.json''] = Some (NFile 3)
   \<and> node_at (y_fs (snd (active_sessions dead_world))) [''rt'', ''sessions'', ''x.json''] = None
   \<and> f_data (y_fs (snd (active_sessions dead_world))) = f_data (y_fs dead_world)"
proof -
  have w: "wf_fs (y_fs dead_world)" and a: "node_at (y_fs dead_world) [''rt'', ''sessions'', ''x.json''] = Some (NFile 3)"
    and b: "node_at (y_fs (snd (active_sessions dead_world))) [''rt'', ''sessions'', ''x.json''] = None" by code_simp+
  have g: "good_world dead_world" using w unfolding dead_world_def by (rule sample_good)
  obtain res v where r: "active_sessions dead_world = (res, v)" by fastforce
  with a b pruning_confined [OF g r, of "[''rt'', ''sessions'', ''x.json'']"] show ?thesis by simp
qed

definition big_start :: nat where
  "big_start = 2 ^ 1024"

definition big_record :: string where
  "big_record = json_dumps (session_payload 5 ''deb'' ''login'' [] ''root'' (nat_str big_start) False False False) @ [CHR 0x0A]"

definition big_world :: sysw where
  "big_world = sample_sys [([''rt'', ''sessions'', ''5.json''], NFile 3)] big_record"

lemma sample_bytes:
  "node_at (y_fs (sample_sys es b)) p = node_at (y_fs (sample_sys es [])) p"
  "wf_fs (y_fs (sample_sys es b)) = wf_fs (y_fs (sample_sys es []))"
  "sessions_dir (sample_sys es b) = [''rt'', ''sessions'']"
proof -
  show n: "node_at (y_fs (sample_sys es b)) p = node_at (y_fs (sample_sys es [])) p" for p by (simp add: sample_sys_def node_at_def)
  have e: "f_ents (y_fs (sample_sys es b)) = f_ents (y_fs (sample_sys es []))" "f_next (y_fs (sample_sys es b)) = f_next (y_fs (sample_sys es []))"
    by (simp_all add: sample_sys_def)
  have "wf_entry (y_fs (sample_sys es b)) x = wf_entry (y_fs (sample_sys es [])) x" for x
    by (simp add: wf_entry_def is_dir_def n inode_ok_next [OF e(2)])
  then show "wf_fs (y_fs (sample_sys es b)) = wf_fs (y_fs (sample_sys es []))" by (simp add: wf_fs_def is_dir_def n e(1) list_all_iff)
  show "sessions_dir (sample_sys es b) = [''rt'', ''sessions'']" by (simp add: sample_sys_def sessions_dir_def SESSIONS_PARTS_def)
qed

theorem oversized_start_time_blocks_listing_witness:
  "fst (active_sessions big_world) = Inl OverflowError"
proof -
  have "wf_fs (y_fs (sample_sys [([''rt'', ''sessions'', ''5.json''], NFile 3)] []))"
    by code_simp
  then have g: "good_world big_world" unfolding big_world_def by (intro sample_good) (subst sample_bytes(2))
  have "node_at (y_fs (sample_sys [([''rt'', ''sessions'', ''5.json''], NFile 3)] [])) ([''rt'', ''sessions''] @ [session_name 5]) = Some (NFile 3)"
    by code_simp
  then have n: "node_at (y_fs big_world) (sessions_dir big_world @ [session_name 5]) = Some (NFile 3)"
    unfolding big_world_def sample_bytes(3) by (subst sample_bytes(1))
  have b: "fd_bytes (f_data (y_fs big_world) 3) = big_record" by (simp add: big_world_def sample_sys_def)
  have "big_start < 10 ^ Suc 308" by (simp add: big_start_def)
  then have len: "length (nat_str big_start) \<le> Suc 308" by (rule nat_str_length)
  then have d: "length (nat_str big_start) \<le> MAX_INT_DIGITS" by (simp add: MAX_INT_DIGITS_def)
  have "length (json_dumps (session_payload 5 ''deb'' ''login'' [] ''root'' t False False False)) = length t + 148" for t
    by (simp add: session_payload_def json_dump_str_def json_char_def code_def nat_str.simps)
  with len have "length big_record \<le> MAX_STATE_JSON_BYTES" unfolding big_record_def MAX_STATE_JSON_BYTES_def by simp
  with b have l: "length (fd_bytes (f_data (y_fs big_world) 3)) \<le> MAX_STATE_JSON_BYTES" by simp
  have p: "(5::nat) \<noteq> 0" "(5::nat) < PID_MAX_LIMIT" by (simp_all add: PID_MAX_LIMIT_def)
  have "2 ^ 1024 \<le> big_start" by (simp add: big_start_def)
  from oversized_start_time_blocks_listing [OF g n b [unfolded big_record_def] l this d p sample_valid(4,5)]
  show ?thesis by auto
qed

end
