(* ===== verification/Kill_Props.thy ===== *)
theory Kill_Props
  imports Session_Kill Session_Props
begin

text \<open>
  What \<open>kill\<close> signals, when its report can be believed, and what a process name does to it.
\<close>

subsection \<open>The tree of a process\<close>

definition child_rel :: "(nat \<times> int) list \<Rightarrow> (nat \<times> nat) set" where
  "child_rel pp = {(q, p). (p, int q) \<in> set pp}"

lemma children_rel: "set (children pp q) = child_rel pp `` {q}"
  by (force simp: children_def child_rel_def)

lemma walk_keeps: "set st \<union> set seen \<subseteq> set (walk_tree pp st seen)"
  by (induction pp st seen rule: walk_tree.induct) auto

lemma walk_closed:
  "child_rel pp `` set seen \<subseteq> set st \<union> set seen \<Longrightarrow> child_rel pp `` set (walk_tree pp st seen) \<subseteq> set (walk_tree pp st seen)"
proof (induction pp st seen rule: walk_tree.induct)
  case (2 pp cur stack seen)
  show ?case
  proof (cases "cur \<in> set seen")
    case True
    with 2 show ?thesis by auto
  next
    case False
    let ?new = "filter (\<lambda>c. c \<notin> set (cur # seen)) (children pp cur)"
    have "child_rel pp `` set (cur # seen) \<subseteq> set (?new @ stack) \<union> set (cur # seen)"
      using "2.prems" by (auto simp: children_rel)
    with 2(2) [OF False] False show ?thesis by simp
  qed
qed simp

lemma walk_reached: "set (walk_tree pp st seen) \<subseteq> set seen \<union> (child_rel pp)\<^sup>* `` set st"
proof (induction pp st seen rule: walk_tree.induct)
  case (2 pp cur stack seen)
  show ?case
  proof (cases "cur \<in> set seen")
    case True
    with 2 show ?thesis by auto
  next
    case False
    let ?new = "filter (\<lambda>c. c \<notin> set (cur # seen)) (children pp cur)"
    have "(child_rel pp)\<^sup>* `` set ?new \<subseteq> (child_rel pp)\<^sup>* `` {cur}"
      by (auto simp: children_rel intro: converse_rtrancl_into_rtrancl)
    with 2(2) [OF False] False show ?thesis by auto
  qed
qed simp

lemma collect_tree_reach:
  "set (collect_tree root pp) = {p. (root, p) \<in> (child_rel pp)\<^sup>*}"
proof
  show "set (collect_tree root pp) \<subseteq> {p. (root, p) \<in> (child_rel pp)\<^sup>*}"
    using walk_reached [of pp "[root]" "[]"] by (auto simp: collect_tree_def)
  have "child_rel pp `` set (collect_tree root pp) \<subseteq> set (collect_tree root pp)"
    unfolding collect_tree_def by (rule walk_closed) simp
  then have "(child_rel pp)\<^sup>* `` set (collect_tree root pp) = set (collect_tree root pp)" by (rule Image_closed_trancl)
  moreover have "root \<in> set (collect_tree root pp)" using walk_keeps [of "[root]" "[]" pp] by (auto simp: collect_tree_def)
  ultimately show "{p. (root, p) \<in> (child_rel pp)\<^sup>*} \<subseteq> set (collect_tree root pp)" by blast
qed

text \<open>The walk of \<open>_collect_tree\<close> ends for every parent map, cycles included, and finds exactly the
  processes that descend from the root.\<close>

theorem collect_tree_descendants:
  "set (collect_tree root pp) = {p. (root, p) \<in> (child_rel pp)\<^sup>*}"
  by (rule collect_tree_reach)

subsection \<open>Signals that were sent\<close>

lemma bindW_sent [simp]:
  "x \<in> set (snd (bindW a f)) \<longleftrightarrow> x \<in> set (snd a) \<or> (\<exists>v. fst a = Inr v \<and> x \<in> set (snd (f v)))"
  by (auto simp: bindW_def split: sum.splits)

lemma pureW_simps [simp]: "fst (pureW r) = r" "snd (pureW r) = []"
  by (simp_all add: pureW_def)

lemma send_simps [simp]: "fst (send p s) = Inr ()" "snd (send p s) = [(p, s)]"
  by (simp_all add: send_def)

lemma signal_each_sent:
  "(p, s) \<in> set (snd (signal_each self sig w ps)) \<Longrightarrow> p \<in> set ps \<and> s = sig \<and> p \<noteq> 0 \<and> p \<noteq> 1 \<and> p \<noteq> self"
  by (induction ps) (auto split: if_splits)

lemma escalate_sent: "(p, s) \<in> set (snd (escalate ov w ps)) \<Longrightarrow> p \<in> set ps \<and> s = SIGQUIT"
  by (induction ps) (auto split: if_splits)

text \<open>A process of a session: it has the session's file open, or it is the recorded PID of a session that is
  still live and runs proot.\<close>

definition session_member :: "sysw \<Rightarrow> nat \<Rightarrow> nat \<Rightarrow> bool" where
  "session_member w pid q \<longleftrightarrow>
     (\<exists>i pr. node_at (y_fs w) (sessions_dir w @ [session_name pid]) = Some (NFile i) \<and> (q, pr) \<in> set (y_procs w) \<and> has_open w pr i)"

definition recorded_root :: "string \<Rightarrow> sysw \<Rightarrow> nat \<Rightarrow> nat \<Rightarrow> bool" where
  "recorded_root ov w pid q \<longleftrightarrow> q = pid \<and> session_is_live w pid \<and> root_is_proot ov w q = Inr (Some True)"

lemma holders_iff:
  "q \<in> set (session_holders self w pid) \<longleftrightarrow>
     fst (sessions_dir_fd False w) \<noteq> None \<and> y_listing w \<and> q \<noteq> self \<and> session_member w pid q"
proof -
  have "q \<in> fst ` {x \<in> set (y_procs w). case x of (other, p) \<Rightarrow> other \<noteq> self \<and> has_open w p i}
      \<longleftrightarrow> q \<noteq> self \<and> (\<exists>pr. (q, pr) \<in> set (y_procs w) \<and> has_open w pr i)" for i
    by force
  then show ?thesis
    by (auto simp: session_holders_def session_member_def read_dir_fd lstat_at_def at_plain [OF session_name_plain]
      split: option.splits node.splits if_splits)
qed

lemma filterR_set: "filterR f xs = Inr ys \<Longrightarrow> set ys = {x \<in> set xs. f x = Inr True}"
  by (induction xs arbitrary: ys) (auto split: if_splits)

lemma forest_roots_sub: "set (forest_roots ps pp) \<subseteq> set ps"
  by (auto simp: forest_roots_def)

lemma session_roots_sound:
  assumes "session_roots self ov w pid pp = Inr rs" and "r \<in> set rs"
  shows "session_member w pid r \<or> recorded_root ov w pid r"
  using assms forest_roots_sub filterR_set holders_iff
  by (fastforce simp: session_roots_def recorded_root_def split: if_splits)

lemma mapR_set: "mapR f xs = Inr ys \<Longrightarrow> y \<in> set ys \<Longrightarrow> \<exists>x \<in> set xs. f x = Inr y"
  by (induction xs arbitrary: ys) auto

lemma live_roots_sound:
  assumes "live_roots self ov w tracked = Inr rs" and "r \<in> set rs"
  shows "\<exists>pp. read_pid_ppid w = Inr pp" and "\<exists>s \<in> set tracked. session_member w (ss_pid s) r \<or> recorded_root ov w (ss_pid s) r"
proof -
  from assms obtain pp rss where m: "read_pid_ppid w = Inr pp" "mapR (\<lambda>s. session_roots self ov w (ss_pid s) pp) tracked = Inr rss"
    "r \<in> set (concat rss)" by (auto simp: live_roots_def live_roots_in_def)
  then obtain x where "x \<in> set rss" "r \<in> set x" by auto
  with mapR_set [OF m(2)] show "\<exists>s \<in> set tracked. session_member w (ss_pid s) r \<or> recorded_root ov w (ss_pid s) r"
    using session_roots_sound by blast
  show "\<exists>pp. read_pid_ppid w = Inr pp" using m(1) by blast
qed

definition belongs :: "string \<Rightarrow> (nat \<Rightarrow> sysw) \<Rightarrow> session list \<Rightarrow> nat \<Rightarrow> bool" where
  "belongs ov ws tracked p \<longleftrightarrow>
     (\<exists>t t' r pp. \<exists>s \<in> set tracked. (session_member (ws t) (ss_pid s) r \<or> recorded_root ov (ws t) (ss_pid s) r)
        \<and> (t' = t \<or> t' = Suc t) \<and> read_pid_ppid (ws t') = Inr pp \<and> (r, p) \<in> (child_rel pp)\<^sup>*)"

lemma signal_pass_sent:
  assumes "live_roots self ov (ws t) tracked = Inr rs" and "(p, s) \<in> set (snd (signal_pass self rs sig (ws (Suc t)) wk))"
  shows "belongs ov ws tracked p \<and> s = sig \<and> p \<noteq> 0 \<and> p \<noteq> 1 \<and> p \<noteq> self"
proof -
  from assms(2) obtain pp where pp: "read_pid_ppid (ws (Suc t)) = Inr pp"
    and x: "(p, s) \<in> set (snd (signal_each self sig wk (sort (remdups (concat (map (\<lambda>r. collect_tree r pp) rs))))))"
    by (auto simp: signal_pass_def)
  note e = signal_each_sent [OF x]
  then obtain r where r: "r \<in> set rs" "p \<in> set (collect_tree r pp)" by auto
  then have "(r, p) \<in> (child_rel pp)\<^sup>*" unfolding collect_tree_reach by simp
  with live_roots_sound(2) [OF assms(1) r(1)] pp have "belongs ov ws tracked p" unfolding belongs_def by blast
  with e show ?thesis by blast
qed

lemma escalate_belongs:
  assumes "live_roots self ov (ws t) tracked = Inr rs" and "(p, s) \<in> set (snd (escalate ov wk rs))"
  shows "belongs ov ws tracked p \<and> s = SIGQUIT"
proof -
  note e = escalate_sent [OF assms(2)]
  then have p: "p \<in> set rs" by blast
  obtain pp where "read_pid_ppid (ws t) = Inr pp" using live_roots_sound(1) [OF assms(1) p] by blast
  moreover have "(p, p) \<in> (child_rel pp)\<^sup>*" by simp
  ultimately show ?thesis using live_roots_sound(2) [OF assms(1) p] e unfolding belongs_def by blast
qed

definition allowed :: "nat \<Rightarrow> nat \<Rightarrow> nat \<Rightarrow> nat \<Rightarrow> bool" where
  "allowed self sig p s \<longleftrightarrow> s = SIGQUIT \<or> (s = sig \<or> s = SIGKILL) \<and> p \<noteq> 0 \<and> p \<noteq> 1 \<and> p \<noteq> self"

lemma teardown_sent:
  assumes "(p, s) \<in> set (snd (teardown self ov polls ws tracked sig))"
  shows "belongs ov ws tracked p \<and> allowed self sig p s"
proof -
  from assms consider (first) rs where "live_roots self ov (ws 1) tracked = Inr rs" "(p, s) \<in> set (snd (signal_pass self rs sig (ws (Suc 1)) (ws 3)))"
    | (quit) t rs where "live_roots self ov (ws t) tracked = Inr rs" "(p, s) \<in> set (snd (escalate ov (ws (Suc t)) rs))"
    | (last) t rs where "live_roots self ov (ws t) tracked = Inr rs" "(p, s) \<in> set (snd (signal_pass self rs SIGKILL (ws (Suc t)) (ws (Suc (Suc t)))))"
    by (auto simp: teardown_def numeral_2_eq_2 split: prod.splits if_splits)
  then show ?thesis
  proof cases
    case first
    then show ?thesis using signal_pass_sent [of self ov ws 1] by (auto simp: allowed_def)
  next
    case quit
    then show ?thesis using escalate_belongs by (auto simp: allowed_def)
  next
    case last
    then show ?thesis using signal_pass_sent [of self ov ws] by (auto simp: allowed_def)
  qed
qed

text \<open>The sessions the arguments name.\<close>

definition named_by :: "string option \<Rightarrow> bool \<Rightarrow> session \<Rightarrow> bool" where
  "named_by target kill_all s \<longleftrightarrow>
     (case target of
        None \<Rightarrow> kill_all
      | Some t \<Rightarrow> if is_pid_token t then ss_pid s = dec_nat t else ss_container s = t)"

text \<open>A command line that is in order, over a registry that can be listed.\<close>

definition valid_call :: "sysw \<Rightarrow> string option \<Rightarrow> bool \<Rightarrow> string \<Rightarrow> nat \<Rightarrow> bool" where
  "valid_call w target kill_all name sig \<longleftrightarrow>
     (\<exists>xs. fst (active_sessions w) = Inr xs) \<and> (target = None) = kill_all
     \<and> (\<forall>t. target = Some t \<longrightarrow> is_pid_token t \<or> is_valid_name t)
     \<and> (if name = [] then Some SIGTERM else parse_signal name) = Some sig"

lemma command_kill_cases:
  assumes "good_world w"
  obtains (runs) sel sig where "set sel = {x \<in> live_sessions w. named_by target kill_all x}"
      and "(if name = [] then Some SIGTERM else parse_signal name) = Some sig"
      and "command_kill self ov polls w ws target kill_all name = run_kill self ov polls ws sel sig"
    | (stops) r where "command_kill self ov polls w ws target kill_all name = (r, [])" and "\<forall>n. r \<noteq> Inr (Terminated n)"
      and "\<forall>sig. \<not> valid_call w target kill_all name sig"
proof -
  let ?sig = "if name = [] then Some SIGTERM else parse_signal name"
  let ?cmd = "command_kill self ov polls w ws target kill_all name"
  show ?thesis
  proof (cases "?sig = None \<or> (target = None) \<noteq> kill_all")
    case True
    then have "\<exists>u. ?cmd = (Inr (Usage u), [])" unfolding command_kill_def by (cases ?sig; cases kill_all; cases target) auto
    moreover have "\<not> valid_call w target kill_all name sig" for sig using True by (auto simp: valid_call_def)
    ultimately show ?thesis using stops by auto
  next
    case False
    then obtain sig where sig: "?sig = Some sig" and args: "(target = None) = kill_all" by auto
    obtain r v where act: "active_sessions w = (r, v)" by fastforce
    have cmd: "?cmd =
        (case r of
           Inl e \<Rightarrow> (Inl (ListingError e), [])
         | Inr sessions \<Rightarrow>
             (case select_sessions sessions (case target of Some t \<Rightarrow> t | None \<Rightarrow> []) kill_all of
                Inl r \<Rightarrow> (Inr r, [])
              | Inr selected \<Rightarrow> run_kill self ov polls ws selected sig))"
      unfolding command_kill_def sig option.case act fst_conv using args by (cases kill_all; cases target) simp_all
    show ?thesis
    proof (cases r)
      case (Inl e)
      then show ?thesis using cmd stops act by (simp add: valid_call_def)
    next
      case (Inr xs)
      show ?thesis
      proof (cases "select_sessions xs (case target of Some t \<Rightarrow> t | None \<Rightarrow> []) kill_all")
        case (Inl k)
        then have "k = InvalidTarget" by (auto simp: select_sessions_def split: if_splits)
        moreover have "\<not> valid_call w target kill_all name sig" for sig
          using Inl args by (auto simp: select_sessions_def valid_call_def split: if_splits option.splits)
        ultimately show ?thesis using cmd Inr Inl stops by simp
      next
        case sel: (Inr sel)
        have "set sel = {x \<in> set xs. named_by target kill_all x}"
        proof (cases target)
          case None
          with args sel show ?thesis by (simp add: select_sessions_def named_by_def)
        next
          case (Some tg)
          with args have "\<not> kill_all" by simp
          with Some sel show ?thesis
            by (cases "is_pid_token tg"; cases "is_valid_name tg") (auto simp: select_sessions_def named_by_def)
        qed
        moreover have "set xs = live_sessions w" using listing_pruned(2) [OF assms act [unfolded Inr]] by simp
        ultimately show ?thesis using runs sig cmd Inr sel by simp
      qed
    qed
  qed
qed


subsection \<open>Reading \<open>/proc\<close>\<close>

lemma newlines_append: "CHR 0x0D \<notin> set a \<Longrightarrow> universal_newlines (a @ s) = a @ universal_newlines s"
  by (induction a) auto

lemma newlines_none: "CHR 0x0D \<notin> set a \<Longrightarrow> universal_newlines a = a"
  using newlines_append [of a "[]"] by simp

lemma digits_plain: "c \<in> set (nat_str n) \<Longrightarrow> is_dec c"
  using nat_str_digits [of n] by (simp add: list_all_iff)

lemma nat_str_ascii: "ascii (nat_str n)"
  using nat_str_digits [of n] ascii_digits by blast

definition clean_text :: "string \<Rightarrow> bool" where
  "clean_text s \<longleftrightarrow> (\<forall>c \<in> set s. 0 < code c \<and> code c < 128 \<and> c \<noteq> CHR 0x0D)"

lemma clean_text_simps [simp]:
  "clean_text []" "clean_text (c # s) \<longleftrightarrow> 0 < code c \<and> code c < 128 \<and> c \<noteq> CHR 0x0D \<and> clean_text s"
  "clean_text (s @ t) \<longleftrightarrow> clean_text s \<and> clean_text t"
  by (auto simp: clean_text_def)

lemma clean_read: "clean_text s \<Longrightarrow> read_text s = Inr s"
proof -
  assume c: "clean_text s"
  then have "ascii s" and n: "CHR 0x0D \<notin> set s" by (auto simp: clean_text_def ascii_def)
  then show ?thesis using newlines_none [OF n] by (simp add: read_text_def utf8_ascii)
qed

lemma clean_digits: "clean_text (nat_str n)"
proof -
  have "0 < code c \<and> code c < 128 \<and> c \<noteq> CHR 0x0D" if "c \<in> set (nat_str n)" for c
    using digits_plain [OF that] by (auto simp: is_dec_def in_range_def code_def)
  then show ?thesis by (simp add: clean_text_def)
qed

lemma clean_escape: "clean_text s \<Longrightarrow> clean_text (escape_comm s) \<and> CHR 0x0A \<notin> set (escape_comm s)"
  by (induction s) (auto simp: escape_comm_def code_def)

definition dark :: "string \<Rightarrow> bool" where
  "dark s \<longleftrightarrow> s \<noteq> [] \<and> (\<forall>c \<in> set s. \<not> is_space c)"

lemma split_ws_lead: "is_space x \<Longrightarrow> split_ws (x # s) = split_ws s"
  by (simp add: split_ws_def)

lemma split_ws_trail: "is_space x \<Longrightarrow> split_ws (s @ [x]) = split_ws s"
proof -
  let ?f = "\<lambda>c ws. if is_space c then [] # ws else (c # hd ws) # tl ws"
  have ne: "foldr ?f s [w] \<noteq> []" for s w by (induction s) auto
  have "foldr ?f s (w # ws) = foldr ?f s [w] @ ws" for w ws
    using ne by (induction s) (auto simp: hd_append)
  from this [of "[]" "[[]]"] show "is_space x \<Longrightarrow> split_ws (s @ [x]) = split_ws s" by (simp add: split_ws_def)
qed

lemma split_ws_dark:
  assumes "dark a" and "is_space x" and "dark b"
  shows "split_ws (a @ x # b) = [a, b]"
proof -
  let ?f = "\<lambda>c ws. if is_space c then [] # ws else (c # hd ws) # tl ws"
  have step: "foldr ?f s (w # ws) = (s @ w) # ws" if "\<forall>c \<in> set s. \<not> is_space c" for s w ws
    using that by (induction s) auto
  have "foldr ?f (a @ x # b) [[]] = [a, b]"
    using assms step [of b "[]" "[]"] step [of a "[]" "[b]"] by (simp add: dark_def)
  then show ?thesis using assms by (simp add: split_ws_def dark_def)
qed

lemma dark_digits: "dark (nat_str n)"
proof -
  have "\<not> is_space c" if "is_dec c" for c using that by (auto simp: is_space_def is_dec_def in_range_def)
  then show ?thesis using nat_str_digits [of n] digits_plain by (auto simp: dark_def)
qed

lemma py_int_nat_str: "py_int (nat_str n) = Some (int n)"
proof -
  obtain c t where ct: "nat_str n = c # t" using nat_str_digits [of n] by (cases "nat_str n") auto
  have d: "is_dec x \<and> \<not> is_space x \<and> x \<noteq> CHR ''_'' \<and> x \<noteq> CHR ''-'' \<and> x \<noteq> CHR ''+''" if "x \<in> set (nat_str n)" for x
    using digits_plain [OF that] by (auto simp: is_space_def is_dec_def in_range_def code_def)
  have st: "strip_by is_space (nat_str n) = nat_str n"
    using nat_str_digits [of n] d by (intro strip_id) auto
  have "split_on CHR ''_'' (nat_str n) = [nat_str n]" using d by (intro split_on_id) blast
  then have "digit_groups (nat_str n)" using nat_str_digits [of n] by (simp add: digit_groups_def)
  moreover have "filter (\<lambda>c. c \<noteq> CHR ''_'') (nat_str n) = nat_str n" using d by (simp add: filter_id_conv)
  moreover have "hd (nat_str n) \<noteq> CHR ''-''" "hd (nat_str n) \<noteq> CHR ''+''" using d ct by auto
  ultimately show ?thesis using st nat_str_digits [of n] by (simp add: py_int_def Let_def)
qed

definition clean_proc :: "proc \<Rightarrow> bool" where
  "clean_proc p \<longleftrightarrow> clean_text (pr_comm p) \<and> clean_text (pr_state p) \<and> dark (pr_state p) \<and> CHR '')'' \<notin> set (pr_state p)"

lemma split_status:
  "CHR 0x0A \<notin> set l \<Longrightarrow> \<not> starts_with ''PPid:'' l \<Longrightarrow>
     find_ppid (split_on CHR 0x0A (l @ CHR 0x0A # r)) = find_ppid (split_on CHR 0x0A r)"
  by (simp add: split_on_append)

lemma no_newline: "CHR 0x0A \<notin> set (nat_str n)" "dark s \<Longrightarrow> CHR 0x0A \<notin> set s"
proof -
  have "\<not> is_dec CHR 0x0A" "is_space CHR 0x0A" by code_simp+
  then show "CHR 0x0A \<notin> set (nat_str n)" "dark s \<Longrightarrow> CHR 0x0A \<notin> set s" using digits_plain by (auto simp: dark_def)
qed

lemma ppid_clean:
  assumes "clean_proc p"
  shows "ppid_of pid p = Inr (Some (int (pr_ppid p)))"
proof -
  have t: "clean_text (escape_comm (pr_comm p))" "CHR 0x0A \<notin> set (escape_comm (pr_comm p))" "clean_text (pr_state p)" "CHR 0x0A \<notin> set (pr_state p)"
    using assms clean_escape no_newline(2) by (auto simp: clean_proc_def)
  have lit: "clean_text ''Name:''" "clean_text ''Umask:''" "clean_text ''State:''" "clean_text ''Tgid:''" "clean_text ''Ngid:''"
    "clean_text ''Pid:''" "clean_text ''PPid:''" "clean_text ''TracerPid:''" "clean_text ''0022''" "clean_text ''0''"
    "clean_text [CHR 0x09]" "clean_text [CHR 0x0A]" by code_simp+
  have "clean_text (proc_status pid p)"
    unfolding proc_status_def using t lit clean_digits by (simp only: clean_text_simps(3))
  then have read: "read_text (proc_status pid p) = Inr (proc_status pid p)" by (rule clean_read)
  have parts: "proc_status pid p =
      (''Name:'' @ CHR 0x09 # escape_comm (pr_comm p)) @ CHR 0x0A # (''Umask:'' @ CHR 0x09 # ''0022'') @ CHR 0x0A
      # (''State:'' @ CHR 0x09 # pr_state p) @ CHR 0x0A # (''Tgid:'' @ CHR 0x09 # nat_str pid) @ CHR 0x0A
      # (''Ngid:'' @ CHR 0x09 # ''0'') @ CHR 0x0A # (''Pid:'' @ CHR 0x09 # nat_str pid) @ CHR 0x0A
      # (''PPid:'' @ CHR 0x09 # nat_str (pr_ppid p)) @ CHR 0x0A # ''TracerPid:'' @ CHR 0x09 # ''0'' @ [CHR 0x0A]"
    by (simp add: proc_status_def)
  have skip: "find_ppid (split_on CHR 0x0A ((''Name:'' @ CHR 0x09 # escape_comm (pr_comm p)) @ CHR 0x0A # r)) = find_ppid (split_on CHR 0x0A r)"
    "find_ppid (split_on CHR 0x0A ((''Umask:'' @ CHR 0x09 # ''0022'') @ CHR 0x0A # r)) = find_ppid (split_on CHR 0x0A r)"
    "find_ppid (split_on CHR 0x0A ((''State:'' @ CHR 0x09 # pr_state p) @ CHR 0x0A # r)) = find_ppid (split_on CHR 0x0A r)"
    "find_ppid (split_on CHR 0x0A ((''Tgid:'' @ CHR 0x09 # nat_str pid) @ CHR 0x0A # r)) = find_ppid (split_on CHR 0x0A r)"
    "find_ppid (split_on CHR 0x0A ((''Ngid:'' @ CHR 0x09 # ''0'') @ CHR 0x0A # r)) = find_ppid (split_on CHR 0x0A r)"
    "find_ppid (split_on CHR 0x0A ((''Pid:'' @ CHR 0x09 # nat_str pid) @ CHR 0x0A # r)) = find_ppid (split_on CHR 0x0A r)" for r
    using t(2,4) no_newline(1) by (intro split_status; simp add: starts_with_def)+
  have "find_ppid (split_on CHR 0x0A (proc_status pid p))
      = find_ppid (split_on CHR 0x0A ((''PPid:'' @ CHR 0x09 # nat_str (pr_ppid p)) @ CHR 0x0A # ''TracerPid:'' @ CHR 0x09 # ''0'' @ [CHR 0x0A]))"
    unfolding parts skip by (rule refl)
  also have "\<dots> = Inr (Some (int (pr_ppid p)))"
  proof -
    have "dark ''PPid:''" "is_space CHR 0x09" by code_simp+
    then have "split_ws (''PPid:'' @ CHR 0x09 # nat_str (pr_ppid p)) = [''PPid:'', nat_str (pr_ppid p)]"
      using dark_digits by (rule split_ws_dark)
    moreover have "starts_with ''PPid:'' (''PPid:'' @ CHR 0x09 # nat_str (pr_ppid p))" by (simp add: starts_with_def)
    moreover have "CHR 0x0A \<notin> set (''PPid:'' @ CHR 0x09 # nat_str (pr_ppid p))" using no_newline(1) by simp
    ultimately show ?thesis
      unfolding split_on_append [OF \<open>CHR 0x0A \<notin> set (''PPid:'' @ CHR 0x09 # nat_str (pr_ppid p))\<close>]
      by (simp only: find_ppid.simps if_True list.case py_int_nat_str)
  qed
  finally show ?thesis using read by (simp add: ppid_of_def)
qed

lemma stat_clean:
  assumes "clean_proc p"
  shows "read_text (proc_stat pid p) = Inr (proc_stat pid p)" and "stat_state (proc_stat pid p) = Some (pr_state p)"
proof -
  have c: "clean_text (pr_comm p)" "clean_text (pr_state p)" "dark (pr_state p)" "CHR '')'' \<notin> set (pr_state p)"
    using assms by (simp_all add: clean_proc_def)
  have lit: "clean_text '' (''" "clean_text '') ''" "clean_text '' ''" "clean_text [CHR 0x0A]" by code_simp+
  have "clean_text (proc_stat pid p)" unfolding proc_stat_def using c lit clean_digits by (simp only: clean_text_simps(3))
  then show "read_text (proc_stat pid p) = Inr (proc_stat pid p)" by (rule clean_read)
  let ?tail = "'' '' @ pr_state p @ CHR '' '' # nat_str (pr_ppid p) @ [CHR 0x0A]"
  have "\<not> is_dec CHR '')''" by code_simp
  then have "CHR '')'' \<notin> set ?tail" using c(4) digits_plain by auto
  then have "snd (rpartition_at CHR '')'' ((nat_str pid @ '' ('' @ pr_comm p) @ CHR '')'' # ?tail)) = ?tail"
    by (subst rpartition_at_append) simp_all
  moreover have "proc_stat pid p = (nat_str pid @ '' ('' @ pr_comm p) @ CHR '')'' # ?tail" by (simp add: proc_stat_def)
  ultimately have "snd (rpartition_at CHR '')'' (proc_stat pid p)) = ?tail" "CHR '')'' \<in> set (proc_stat pid p)" by auto
  moreover have "split_ws ?tail = [pr_state p, nat_str (pr_ppid p)]"
  proof -
    have sp: "is_space CHR '' ''" "is_space CHR 0x0A" by code_simp+
    have "split_ws ?tail = split_ws ((pr_state p @ CHR '' '' # nat_str (pr_ppid p)) @ [CHR 0x0A])" using split_ws_lead [OF sp(1)] by simp
    also have "\<dots> = split_ws (pr_state p @ CHR '' '' # nat_str (pr_ppid p))" by (rule split_ws_trail [OF sp(2)])
    also have "\<dots> = [pr_state p, nat_str (pr_ppid p)]" by (rule split_ws_dark [OF c(3) sp(1) dark_digits])
    finally show ?thesis .
  qed
  ultimately show "stat_state (proc_stat pid p) = Some (pr_state p)" by (simp add: stat_state_def)
qed

text \<open>A world whose process names are plain text is read as it is.\<close>

definition clean_world :: "sysw \<Rightarrow> bool" where
  "clean_world w \<longleftrightarrow> wf_fs (y_fs w) \<and> y_listing w \<and> distinct (map fst (y_procs w)) \<and> (\<forall>x \<in> set (y_procs w). clean_proc (snd x))"

definition parents :: "sysw \<Rightarrow> (nat \<times> nat) set" where
  "parents w = {(pr_ppid p, q) | p q. (q, p) \<in> set (y_procs w)}"

definition alive :: "sysw \<Rightarrow> nat \<Rightarrow> bool" where
  "alive w q \<longleftrightarrow> (\<exists>p. dict_get (y_procs w) q = Some p \<and> pr_state p \<noteq> ''Z'')"

lemma read_ppids_clean:
  "\<forall>x \<in> set ps. clean_proc (snd x) \<Longrightarrow> read_ppids ps = Inr (map (\<lambda>(q, p). (q, int (pr_ppid p))) ps)"
  by (induction ps) (auto simp: ppid_clean)

lemma clean_ppids:
  assumes "clean_world w"
  shows "\<exists>pp. read_pid_ppid w = Inr pp \<and> child_rel pp = parents w \<and> (\<forall>q. dict_get pp q = map_option (\<lambda>p. int (pr_ppid p)) (dict_get (y_procs w) q))"
proof -
  let ?pp = "map (\<lambda>(q, p). (q, int (pr_ppid p))) (y_procs w)"
  have "read_pid_ppid w = Inr ?pp" using assms read_ppids_clean by (simp add: read_pid_ppid_def clean_world_def)
  moreover have "child_rel ?pp = parents w" by (force simp: child_rel_def parents_def)
  moreover have "dict_get ?pp q = map_option (\<lambda>p. int (pr_ppid p)) (dict_get (y_procs w) q)" for q
    by (induction "y_procs w") (auto simp: dict_get_def map_of_map)
  ultimately show ?thesis by blast
qed

lemma clean_alive:
  assumes "clean_world w"
  shows "is_alive w q = Inr (alive w q)"
proof (cases "dict_get (y_procs w) q")
  case None
  then show ?thesis by (simp add: is_alive_def alive_def)
next
  case (Some p)
  then have "(q, p) \<in> set (y_procs w)" by (auto simp: dict_get_def dest: map_of_SomeD)
  with assms have "clean_proc p" by (auto simp: clean_world_def)
  with Some stat_clean [of p q] show ?thesis by (simp add: is_alive_def alive_def)
qed

lemma clean_proot: "clean_world w \<Longrightarrow> \<exists>r. root_is_proot ov w q = Inr r"
proof (cases "dict_get (y_procs w) q")
  case None
  then show ?thesis by (simp add: root_is_proot_def)
next
  case (Some p)
  assume c: "clean_world w"
  from Some have "(q, p) \<in> set (y_procs w)" by (auto simp: dict_get_def dest: map_of_SomeD)
  with c have "clean_text (pr_comm p)" by (auto simp: clean_world_def clean_proc_def)
  moreover have "clean_text [CHR 0x0A]" by code_simp
  ultimately have "clean_text (proc_comm p)" unfolding proc_comm_def by simp
  with Some clean_read show ?thesis by (simp add: root_is_proot_def)
qed

lemma filterR_total: "\<forall>x \<in> set xs. f x = Inr (P x) \<Longrightarrow> filterR f xs = Inr (filter P xs)"
  by (induction xs) auto

lemma filterR_answers: "(\<And>x. \<exists>b. f x = Inr b) \<Longrightarrow> \<exists>ys. filterR f xs = Inr ys"
proof (induction xs)
  case (Cons x xs)
  then obtain b ys where "f x = Inr b" "filterR f xs = Inr ys" by metis
  then show ?case by simp
qed simp

lemma clean_filter: "clean_world w \<Longrightarrow> filterR (is_alive w) xs = Inr (filter (alive w) xs)"
  by (simp add: filterR_total clean_alive)

lemma clean_roots:
  assumes "clean_world w"
  shows "\<exists>rs. session_roots self ov w pid pp = Inr rs"
  using clean_filter [OF assms] clean_alive [OF assms] clean_proot [OF assms, of ov pid]
  by (auto simp: session_roots_def)

lemma mapR_total: "\<forall>x \<in> set xs. \<exists>y. f x = Inr y \<Longrightarrow> \<exists>ys. mapR f xs = Inr ys \<and> (\<forall>x \<in> set xs. \<exists>y \<in> set ys. f x = Inr y)"
  by (induction xs) fastforce+

text \<open>In an acyclic forest a set of processes has a root, and each process is below one.\<close>

lemma forest_root:
  assumes "acyclic R" and "finite R" and "q \<in> H"
  shows "\<exists>r \<in> H. (r, q) \<in> R\<^sup>* \<and> (\<forall>x. (x, r) \<in> R \<longrightarrow> x \<notin> H)"
  using finite_acyclic_wf [OF assms(2,1)] assms(3)
proof (induction q rule: wf_induct_rule)
  case (less q)
  show ?case
  proof (cases "\<exists>x \<in> H. (x, q) \<in> R")
    case True
    then obtain x r where "x \<in> H" "(x, q) \<in> R" "r \<in> H" "(r, x) \<in> R\<^sup>*" "\<forall>y. (y, r) \<in> R \<longrightarrow> y \<notin> H"
      using less.IH by blast
    then show ?thesis by (meson rtrancl_into_rtrancl)
  next
    case False
    with less.prems show ?thesis by blast
  qed
qed

definition forest_world :: "sysw \<Rightarrow> bool" where
  "forest_world w \<longleftrightarrow> clean_world w \<and> acyclic (parents w)"

lemma member_root:
  assumes "forest_world w" and "session_roots self ov w pid pp = Inr rs" and "read_pid_ppid w = Inr pp"
    and "session_member w pid q" and "q \<noteq> self" and "alive w q"
  shows "\<exists>r \<in> set rs. alive w r \<and> (r, q) \<in> (parents w)\<^sup>*"
proof -
  have c: "clean_world w" using assms(1) by (simp add: forest_world_def)
  let ?H = "filter (alive w) (session_holders self w pid)"
  have d: "fst (sessions_dir_fd False w) \<noteq> None"
  proof -
    obtain i where i: "node_at (y_fs w) (sessions_dir w @ [session_name pid]) = Some (NFile i)"
      using assms(4) by (auto simp: session_member_def)
    have wf: "wf_fs (y_fs w)" using c by (simp add: clean_world_def)
    have dd: "is_dir (y_fs w) (sessions_dir w)" by (rule wf_node(2) [OF wf i])
    then have "node_at (y_fs w) (y_runtime w @ [''sessions'']) \<noteq> None"
      by (auto simp: is_dir_def sessions_dir_def SESSIONS_PARTS_def split: option.splits)
    then have "is_dir (y_fs w) (y_runtime w)" using wf_node(2) [OF wf] by blast
    with dd show ?thesis by (simp add: read_dir_fd)
  qed
  have "y_listing w" using c by (simp add: clean_world_def)
  with d assms(4-6) have q: "q \<in> set ?H" by (simp add: holders_iff)
  have "finite (parents w)"
  proof -
    have "parents w = (\<lambda>(q, p). (pr_ppid p, q)) ` set (y_procs w)" by (force simp: parents_def)
    then show ?thesis by simp
  qed
  from forest_root [OF _ this q] assms(1) obtain r where r: "r \<in> set ?H" "(r, q) \<in> (parents w)\<^sup>*" "\<forall>x. (x, r) \<in> parents w \<longrightarrow> x \<notin> set ?H"
    by (auto simp: forest_world_def)
  have "?H \<noteq> []" using q by (metis empty_iff empty_set)
  then have rs: "rs = forest_roots ?H pp" using assms(2) clean_filter [OF c] by (simp add: session_roots_def)
  obtain pp' where pp': "read_pid_ppid w = Inr pp'" "\<forall>q. dict_get pp' q = map_option (\<lambda>p. int (pr_ppid p)) (dict_get (y_procs w) q)"
    using clean_ppids [OF c] by blast
  have "dict_get (y_procs w) r = Some p \<Longrightarrow> (pr_ppid p, r) \<in> parents w" for p
    by (auto simp: parents_def dict_get_def dest: map_of_SomeD)
  then have "r \<in> set rs"
    using r(1,3) pp' assms(3) unfolding rs forest_roots_def by (auto simp: list_ex_iff split: option.splits)
  with r(1,2) show ?thesis by auto
qed

subsection \<open>When the report is true\<close>

lemma no_survivor:
  assumes "forest_world w" and "survivors self ov w tracked = Inr []" and "x \<in> set tracked"
    and "session_member w (ss_pid x) q" and "q \<noteq> self"
  shows "\<not> alive w q"
proof
  assume al: "alive w q"
  have c: "clean_world w" using assms(1) by (simp add: forest_world_def)
  from assms(2) obtain pp rs ps where pp: "read_pid_ppid w = Inr pp" and rs: "live_roots_in self ov w tracked pp = Inr rs"
    and ps: "filterR (is_alive w) (concat (map (\<lambda>r. collect_tree r pp) rs)) = Inr ps" "sort (remdups ps) = []"
    by (auto simp: survivors_def)
  from rs obtain rss where m: "mapR (\<lambda>s. session_roots self ov w (ss_pid s) pp) tracked = Inr rss" "rs = sort (remdups (concat rss))"
    by (auto simp: live_roots_in_def)
  have "\<exists>y \<in> set rss. session_roots self ov w (ss_pid x) pp = Inr y"
    using mapR_total [of tracked "\<lambda>s. session_roots self ov w (ss_pid s) pp"] clean_roots [OF c] m(1) assms(3) by fastforce
  then obtain y where y: "y \<in> set rss" "session_roots self ov w (ss_pid x) pp = Inr y" by blast
  from member_root [OF assms(1) y(2) pp assms(4,5) al] obtain r where r: "r \<in> set y" "alive w r" by blast
  then have "r \<in> set rs" using y(1) m(2) by auto
  moreover have "r \<in> set (collect_tree r pp)" by (simp add: collect_tree_reach)
  ultimately have "r \<in> set ps" using ps(1) clean_filter [OF c] r(2) by auto
  moreover have "ps = []" using ps(2) by (metis remdups_eq_nil_iff set_empty set_sort)
  ultimately show False by simp
qed


subsection \<open>Every process is reached\<close>

definition signalable :: "sysw \<Rightarrow> nat \<Rightarrow> bool" where
  "signalable w p \<longleftrightarrow> (\<exists>pr. dict_get (y_procs w) p = Some pr \<and> pr_signalable pr)"

lemma signal_each_complete:
  assumes "clean_world w"
  shows "fst (signal_each self sig w ps) = Inr ()
    \<and> (\<forall>p \<in> set ps. alive w p \<and> signalable w p \<and> p \<noteq> 0 \<and> p \<noteq> 1 \<and> p \<noteq> self \<longrightarrow> (p, sig) \<in> set (snd (signal_each self sig w ps)))"
proof (induction ps)
  case (Cons p ps)
  show ?case
  proof (cases "p = 0 \<or> p = 1 \<or> p = self")
    case True
    with Cons show ?thesis by auto
  next
    case False
    have s: "signalable w p \<longleftrightarrow> (case dict_get (y_procs w) p of Some pr \<Rightarrow> pr_signalable pr | None \<Rightarrow> False)"
      by (auto simp: signalable_def split: option.splits)
    have "signal_each self sig w (p # ps) = (if alive w p \<and> signalable w p
        then bindW (send p sig) (\<lambda>u. signal_each self sig w ps) else signal_each self sig w ps)"
      using False by (simp add: bindW_def clean_alive [OF assms] s)
    with Cons show ?thesis by (auto simp: bindW_def send_def)
  qed
qed simp

lemma kill_reaches:
  assumes "good_world w" and "valid_call w target kill_all name sig" and "x \<in> live_sessions w" and "named_by target kill_all x"
    and "forest_world v" and "ws 0 = v" and "ws 1 = v" and "ws 2 = v" and "ws 3 = v"
    and "session_member v (ss_pid x) q" and "q \<noteq> self" and "alive v q" and "(q, p) \<in> (parents v)\<^sup>*"
    and "alive v p" and "signalable v p" and "p \<noteq> 0" and "p \<noteq> 1" and "p \<noteq> self"
  shows "(p, sig) \<in> set (snd (command_kill self ov polls w ws target kill_all name))"
proof (rule command_kill_cases [OF assms(1), of target kill_all name self ov polls ws])
  fix r assume "\<forall>sig. \<not> valid_call w target kill_all name sig"
  with assms(2) show ?thesis by blast
next
  fix sel sg
  assume sel: "set sel = {x \<in> live_sessions w. named_by target kill_all x}"
    and sg: "(if name = [] then Some SIGTERM else parse_signal name) = Some sg"
    and cmd: "command_kill self ov polls w ws target kill_all name = run_kill self ov polls ws sel sg"
  have sig: "sg = sig" using sg assms(2) by (simp add: valid_call_def)
  have c: "clean_world v" using assms(5) by (simp add: forest_world_def)
  obtain pp where pp: "read_pid_ppid v = Inr pp" "child_rel pp = parents v" using clean_ppids [OF c] by blast
  have x: "x \<in> set sel" using sel assms(3,4) by simp
  obtain rs where rs: "session_roots self ov v (ss_pid x) pp = Inr rs" using clean_roots [OF c] by blast
  from member_root [OF assms(5) rs pp(1) assms(10,11,12)] obtain r where r: "r \<in> set rs" "(r, q) \<in> (parents v)\<^sup>*" by blast
  let ?f = "\<lambda>s. bindR (session_roots self ov v (ss_pid s) pp) (\<lambda>rs.
      if rs \<noteq> [] then Inr True else bindR (root_is_proot ov v (ss_pid s)) (\<lambda>r. Inr False))"
  have b: "\<exists>b. ?f s = Inr b" for s
  proof -
    obtain rs' r' where "session_roots self ov v (ss_pid s) pp = Inr rs'" "root_is_proot ov v (ss_pid s) = Inr r'"
      using clean_roots [OF c] clean_proot [OF c] by metis
    then show ?thesis by (cases "rs' = []") auto
  qed
  obtain tracked where tr: "filterR ?f sel = Inr tracked" using filterR_answers [of ?f sel] b by blast
  have "rs \<noteq> []" using r(1) by auto
  then have "?f x = Inr True" using rs by simp
  then have xt: "x \<in> set tracked" using filterR_set [OF tr] x by simp
  then have ne: "tracked \<noteq> []" "sel \<noteq> []" using x by auto
  obtain rss where rss: "mapR (\<lambda>s. session_roots self ov v (ss_pid s) pp) tracked = Inr rss"
    and "\<forall>s \<in> set tracked. \<exists>y \<in> set rss. session_roots self ov v (ss_pid s) pp = Inr y"
    using mapR_total [of tracked "\<lambda>s. session_roots self ov v (ss_pid s) pp"] clean_roots [OF c] by blast
  with xt rs have "rs \<in> set rss" by fastforce
  define roots where "roots = sort (remdups (concat rss))"
  define tree where "tree = sort (remdups (concat (map (\<lambda>r. collect_tree r pp) roots)))"
  have "r \<in> set roots" unfolding roots_def using \<open>rs \<in> set rss\<close> r(1) by auto
  moreover have "p \<in> set (collect_tree r pp)" unfolding collect_tree_reach pp(2) using r(2) assms(13) by simp
  ultimately have "p \<in> set tree" by (auto simp: tree_def)
  then have "(p, sig) \<in> set (snd (signal_each self sig v tree))" using signal_each_complete [OF c] assms(14-18) by blast
  then have "(p, sig) \<in> set (snd (signal_pass self roots sig v v))"
    unfolding signal_pass_def bindW_sent pureW_simps pp(1) tree_def by blast
  moreover have lr: "live_roots self ov v tracked = Inr roots"
    using pp(1) rss by (simp add: live_roots_def live_roots_in_def roots_def)
  ultimately have "(p, sig) \<in> set (snd (teardown self ov polls ws tracked sig))"
    unfolding teardown_def assms(6-9) bindW_sent pureW_simps lr by blast
  moreover have "tracked_sessions self ov (ws 0) sel = Inr tracked" using pp(1) tr by (simp add: tracked_sessions_def assms(6))
  ultimately show ?thesis
    unfolding cmd run_kill_def sig using ne by (simp only: if_False bindW_sent pureW_simps) auto
qed


subsection \<open>Names that are not plain\<close>

lemma read_ppids_index:
  assumes "(q, p) \<in> set ps" and "ppid_of q p = Inl IndexError"
  shows "read_ppids ps = Inl IndexError"
  using assms(1)
proof (induction ps)
  case (Cons x ps)
  obtain k pr where x: "x = (k, pr)" by (cases x)
  have only: "ppid_of k pr = Inl e \<Longrightarrow> e = IndexError" for e
  proof -
    have "find_ppid ls = Inl e \<Longrightarrow> e = IndexError" for ls
      by (induction ls) (auto split: if_splits list.splits)
    then show "ppid_of k pr = Inl e \<Longrightarrow> e = IndexError" by (auto simp: ppid_of_def split: sum.splits)
  qed
  show ?case
  proof (cases "(q, p) \<in> set ps")
    case True
    with Cons.IH only x show ?thesis by (cases "ppid_of k pr") auto
  next
    case False
    with Cons.prems x assms(2) show ?thesis by auto
  qed
qed simp

text \<open>A carriage return is not escaped in \<open>status\<close>, and ends a line for Python.\<close>

lemma name_index_error:
  assumes "pr_comm p = CHR 0x0D # ''PPid:''" and "clean_text (pr_state p)"
  shows "ppid_of q p = Inl IndexError"
proof -
  define rest where "rest = ''Umask:'' @ CHR 0x09 # ''0022'' @ CHR 0x0A # ''State:'' @ CHR 0x09 # pr_state p @ CHR 0x0A
      # ''Tgid:'' @ CHR 0x09 # nat_str q @ CHR 0x0A # ''Ngid:'' @ CHR 0x09 # ''0'' @ CHR 0x0A # ''Pid:'' @ CHR 0x09 # nat_str q
      @ CHR 0x0A # ''PPid:'' @ CHR 0x09 # nat_str (pr_ppid p) @ CHR 0x0A # ''TracerPid:'' @ CHR 0x09 # ''0'' @ [CHR 0x0A]"
  have esc: "escape_comm (pr_comm p) = CHR 0x0D # ''PPid:''" by (simp add: assms(1) escape_comm_def)
  have st: "proc_status q p = (''Name:'' @ [CHR 0x09]) @ CHR 0x0D # ''PPid:'' @ CHR 0x0A # rest"
    by (simp add: proc_status_def esc rest_def)
  have "ascii (pr_state p)" using assms(2) by (simp add: clean_text_def ascii_def)
  then have "ascii rest" unfolding rest_def by (simp add: nat_str_ascii code_def)
  then have "ascii (proc_status q p)" unfolding st by (simp add: code_def)
  then have "read_text (proc_status q p) = Inr (universal_newlines (proc_status q p))" by (simp add: read_text_def utf8_ascii)
  moreover have "universal_newlines (proc_status q p) = (''Name:'' @ [CHR 0x09]) @ CHR 0x0A # ''PPid:'' @ CHR 0x0A # universal_newlines rest"
    unfolding st by simp
  moreover have "find_ppid (split_on CHR 0x0A ((''Name:'' @ [CHR 0x09]) @ CHR 0x0A # ''PPid:'' @ CHR 0x0A # r)) = Inl IndexError" for r
  proof -
    have "find_ppid (split_on CHR 0x0A ((''Name:'' @ [CHR 0x09]) @ CHR 0x0A # ''PPid:'' @ CHR 0x0A # r))
        = find_ppid (split_on CHR 0x0A (''PPid:'' @ CHR 0x0A # r))" by (rule split_status) (simp_all add: starts_with_def)
    also have "split_on CHR 0x0A (''PPid:'' @ CHR 0x0A # r) = ''PPid:'' # split_on CHR 0x0A r" by (rule split_on_append) simp
    also have "find_ppid (''PPid:'' # split_on CHR 0x0A r) = Inl IndexError"
    proof -
      have "split_ws ''PPid:'' = [''PPid:'']" by code_simp
      moreover have "starts_with ''PPid:'' ''PPid:''" by code_simp
      ultimately show ?thesis by (simp only: find_ppid.simps if_True list.case)
    qed
    finally show ?thesis .
  qed
  ultimately show ?thesis by (simp only: ppid_of_def sum.case)
qed

text \<open>One process with the right name, of whatever container or user, disables \<open>kill\<close>: a name made of a carriage
  return and \<open>PPid:\<close> ends every call that selected a session with an uncaught \<open>IndexError\<close> and no signal sent.\<close>

theorem process_name_disables_kill:
  assumes "y_listing (ws 0)" and "(q, p) \<in> set (y_procs (ws 0))" and "pr_comm p = CHR 0x0D # ''PPid:''" and "clean_text (pr_state p)"
    and "selected \<noteq> []"
  shows "run_kill self ov polls ws selected sig = (Inl IndexError, [])"
proof -
  have "read_pid_ppid (ws 0) = Inl IndexError"
    using assms(1) read_ppids_index [OF assms(2) name_index_error [OF assms(3,4)]] by (simp add: read_pid_ppid_def)
  then have "tracked_sessions self ov (ws 0) selected = Inl IndexError" by (simp add: tracked_sessions_def)
  with assms(5) show ?thesis by (simp add: run_kill_def bindW_def)
qed

subsection \<open>Examples\<close>

definition guest :: "nat \<Rightarrow> string \<Rightarrow> nat list \<Rightarrow> proc" where
  "guest ppid comm fds =
     \<lparr>pr_ppid = ppid, pr_state = ''S'', pr_comm = comm, pr_fds = fds, pr_readable = True, pr_signalable = True\<rparr>"

definition guest_world :: "(nat \<times> proc) list \<Rightarrow> sysw" where
  "guest_world ps = (sample_sys [([''rt'', ''sessions'', ''7.json''], NFile 3)] [])
     \<lparr>y_table := [(0, 3, True)], y_open := [(0, 3)], y_next := 1, y_procs := ps\<rparr>"

definition guests :: "(nat \<times> proc) list" where
  "guests = [(7, guest 1 ''proot'' [0]), (8, guest 7 ''sh'' [0]), (9, guest 8 ''sleep'' [])]"

definition gone_world :: sysw where
  "gone_world = sample_sys [([''rt'', ''sessions'', ''7.json''], NFile 3)] []"

text \<open>Two processes of a session whose names give each other as parent are roots of nothing: \<open>kill\<close> takes
  their session for one without processes and sends no signal, although it is live and both hold its file.\<close>

theorem forged_parents_hide_session:
  "(let w = guest_world [(7, guest 1 (''a'' @ CHR 0x0D # ''PPid: 8'') [0]), (8, guest 7 (''b'' @ CHR 0x0D # ''PPid: 7'') [0])] in
    session_is_live w 7 \<and> session_holders 100 w 7 = [7, 8] \<and> is_alive w 7 = Inr True \<and> is_alive w 8 = Inr True
    \<and> run_kill 100 [] 2 (\<lambda>t. w) [sample_session] SIGTERM = (Inr NoLive, []))"
  by code_simp

theorem process_name_disables_kill_witness:
  "run_kill 100 [] 2 (\<lambda>t. guest_world [(99, guest 1 (CHR 0x0D # ''PPid:'') [])]) [sample_session] SIGTERM = (Inl IndexError, [])"
  by (rule process_name_disables_kill [of _ 99 "guest 1 (CHR 0x0D # ''PPid:'') []"])
    (simp_all add: guest_world_def sample_sys_def guest_def code_def)

text \<open>The call \<open>kill deb\<close> with the registry of the example, whatever the environment.\<close>

lemma sample_call:
  "good_world (snd sample_registration)" "sample_session \<in> live_sessions (snd sample_registration)"
  "valid_call (snd sample_registration) (Some ''deb'') False [] SIGTERM" "named_by (Some ''deb'') False sample_session"
  "command_kill self ov polls (snd sample_registration) ws (Some ''deb'') False [] = run_kill self ov polls ws [sample_session] SIGTERM"
  "live_sessions (snd sample_registration) = {sample_session}"
proof -
  obtain v where v: "sample_registration = (Some 0, v)" using sample_registers by (metis prod.collapse)
  from register_inserts [OF sample_empty(1) v [unfolded sample_registration_def] sample_valid(3,7,6,4,5,1,2) sample_start sample_valid(8)]
  have live: "live_sessions v = {sample_session}" and g: "good_world v" by (simp_all add: sample_empty(2) sample_session_def)
  then show "good_world (snd sample_registration)" "sample_session \<in> live_sessions (snd sample_registration)" unfolding v by simp_all
  show "live_sessions (snd sample_registration) = {sample_session}" unfolding v by (simp add: live)
  have tok: "\<not> is_pid_token ''deb''" by code_simp
  show "named_by (Some ''deb'') False sample_session" using tok by (simp add: named_by_def sample_session_def registered_def)
  obtain xs u where xs: "active_sessions v = (Inr xs, u)" using sample_listed unfolding v by auto
  then show "valid_call (snd sample_registration) (Some ''deb'') False [] SIGTERM"
    unfolding v using sample_valid(4) by (simp add: valid_call_def)
  have "set xs = {sample_session}" "distinct (map ss_pid xs)" using listing_pruned(2,3) [OF g xs] live by simp_all
  then have "xs = [sample_session]" by (cases xs; cases "tl xs") auto
  then have "select_sessions xs ''deb'' False = Inr [sample_session]"
    using tok sample_valid(4) by (simp add: select_sessions_def sample_session_def registered_def)
  then show "command_kill self ov polls (snd sample_registration) ws (Some ''deb'') False [] = run_kill self ov polls ws [sample_session] SIGTERM"
    unfolding command_kill_def v using xs by simp
qed

lemma ordered_acyclic: "(\<And>x y. (x, y) \<in> R \<Longrightarrow> x < (y :: nat)) \<Longrightarrow> acyclic R"
  by (rule wf_acyclic, rule wf_subset [OF wf_less]) auto

lemma guest_forest: "forest_world (guest_world guests)" "forest_world gone_world"
proof -
  have "clean_proc (guest 1 ''proot'' [0])" "clean_proc (guest 7 ''sh'' [0])" "clean_proc (guest 8 ''sleep'' [])" by code_simp+
  moreover have "wf_fs (y_fs gone_world)" by code_simp
  moreover have "y_fs (guest_world ps) = y_fs gone_world" for ps by (simp add: guest_world_def gone_world_def)
  ultimately have "clean_world (guest_world guests)" "clean_world gone_world"
    by (simp_all add: clean_world_def guest_world_def guests_def) (simp_all add: sample_sys_def gone_world_def)
  moreover have "acyclic (parents (guest_world guests))"
    by (rule ordered_acyclic) (auto simp: parents_def guest_world_def guests_def guest_def)
  moreover have "acyclic (parents gone_world)"
    by (rule ordered_acyclic) (auto simp: parents_def gone_world_def sample_sys_def)
  ultimately show "forest_world (guest_world guests)" "forest_world gone_world" by (simp_all add: forest_world_def)
qed

lemma sample_facts:
  "session_member (guest_world guests) (ss_pid sample_session) 8" "(8, 9) \<in> (parents (guest_world guests))\<^sup>*"
  "alive (guest_world guests) 8" "alive (guest_world guests) 9" "signalable (guest_world guests) 9"
proof -
  let ?v = "guest_world guests"
  have "node_at (y_fs ?v) (sessions_dir ?v @ [session_name 7]) = Some (NFile 3)" "has_open ?v (guest 7 ''sh'' [0]) 3" by code_simp+
  moreover have "(8, guest 7 ''sh'' [0]) \<in> set (y_procs ?v)" by (simp add: guest_world_def guests_def)
  ultimately show "session_member ?v (ss_pid sample_session) 8"
    unfolding session_member_def by (auto simp: sample_session_def registered_def)
  have "(8, 9) \<in> parents ?v" by (auto simp: parents_def guest_world_def guests_def guest_def)
  then show "(8, 9) \<in> (parents ?v)\<^sup>*" by blast
  show "alive ?v 8" "alive ?v 9" "signalable ?v 9"
    by (auto simp: alive_def signalable_def guest_world_def guests_def guest_def dict_get_def)
qed



definition one_guest :: "(nat \<times> proc) list" where
  "one_guest = [(7, guest 1 ''p'' [0])]"

lemma one_forest: "forest_world (guest_world one_guest)"
proof -
  have "clean_proc (guest 1 ''p'' [0])" by code_simp
  moreover have "wf_fs (y_fs gone_world)" by code_simp
  moreover have "y_fs (guest_world ps) = y_fs gone_world" for ps by (simp add: guest_world_def gone_world_def)
  ultimately have "clean_world (guest_world one_guest)"
    by (simp_all add: clean_world_def guest_world_def one_guest_def) (simp_all add: sample_sys_def gone_world_def)
  moreover have "acyclic (parents (guest_world one_guest))"
    by (rule ordered_acyclic) (auto simp: parents_def guest_world_def one_guest_def guest_def)
  ultimately show ?thesis by (simp add: forest_world_def)
qed


end
