(* ===== verification/State_Dirs.thy ===== *)
theory State_Dirs
  imports Posix_Path Tree_Removal Path_Resolve
begin

text \<open>
  \<open>statedir.py\<close> and \<open>atomic.py\<close>: the program's own directories below its two trust roots, reached by a
  walk that follows no link, and files published there by writing a temporary and renaming it. What happens
  while a caller writes, its own writes and those of the guests that share the directory, is an argument of
  the operation.
\<close>

subsection \<open>Paths of the state tree\<close>

text \<open>\<open>RUNTIME_DIR\<close> and \<open>BASE_CACHE_DIR\<close>, normalised absolute paths.\<close>

record layout =
  lo_runtime :: string
  lo_cache :: string

definition STATE_ROOTS :: "layout \<Rightarrow> string list" where
  "STATE_ROOTS l = sort_key length (remdups [lo_runtime l, lo_cache l])"

definition names_of :: "string \<Rightarrow> string list" where
  "names_of p = filter (\<lambda>c. c \<noteq> []) (split_on CHR ''/'' p)"

fun split_under :: "string list \<Rightarrow> string \<Rightarrow> (string \<times> string list) option" where
  "split_under [] p = None"
| "split_under (root # roots) p =
     (let trimmed = rstrip_by (\<lambda>c. c = CHR ''/'') root in
      if p = trimmed then Some (root, [])
      else if starts_with (trimmed @ ''/'') p then Some (root, names_of (drop (length trimmed + 1) p))
      else split_under roots p)"

definition split_state_path :: "layout \<Rightarrow> string \<Rightarrow> (string \<times> string list) option" where
  "split_state_path l p = split_under (STATE_ROOTS l) (py_normpath p)"

definition is_state_path :: "layout \<Rightarrow> string \<Rightarrow> bool" where
  "is_state_path l p \<longleftrightarrow> split_state_path l p \<noteq> None"

subsection \<open>The walk\<close>

text \<open>\<open>ValueError\<close> for a path outside the tree is a caller's mistake.\<close>

datatype state_error = NotState | StateErr errno

definition is_refusal :: "errno \<Rightarrow> bool" where
  "is_refusal e \<longleftrightarrow> e = ELOOP \<or> e = ENOTDIR"

definition refuse_link :: "errno \<Rightarrow> errno" where
  "refuse_link e = (if is_refusal e then ENOTDIR else e)"

fun state_walk :: "bool \<Rightarrow> fs \<Rightarrow> path \<Rightarrow> string list \<Rightarrow> (errno + path) \<times> fs" where
  "state_walk create s d [] = (Inr d, s)"
| "state_walk create s d (n # ns) =
     (case open_level create s d n of
        (Inl e, t) \<Rightarrow> (Inl (refuse_link e), t)
      | (Inr p, t) \<Rightarrow> state_walk create t p ns)"

text \<open>A root is opened by name; it is made by name first, and what goes wrong there shows in the open.\<close>

definition open_root :: "bool \<Rightarrow> fs \<Rightarrow> path \<Rightarrow> (errno + path) \<times> fs" where
  "open_root create s r =
     (let t = (if create then snd (descend_at True s [] r) else s) in
      (case node_at t r of
         None \<Rightarrow> (Inl ENOENT, t)
       | Some n \<Rightarrow> (if is_dir_node n then Inr r else Inl ENOTDIR, t)))"

definition open_state_dir :: "layout \<Rightarrow> bool \<Rightarrow> fs \<Rightarrow> string \<Rightarrow> (state_error + path) \<times> fs" where
  "open_state_dir l create s p =
     (case split_state_path l p of
        None \<Rightarrow> (Inl NotState, s)
      | Some (root, parts) \<Rightarrow>
          (case open_root create s (names_of root) of
             (Inl e, t) \<Rightarrow> (Inl (StateErr e), t)
           | (Inr r, t) \<Rightarrow>
               (case state_walk create t r parts of
                  (Inl e, u) \<Rightarrow> (Inl (StateErr e), u)
                | (Inr d, u) \<Rightarrow> (Inr d, u))))"

definition rejoin :: "string \<Rightarrow> string list \<Rightarrow> string" where
  "rejoin root parts = fold (\<lambda>c p. py_join p c) parts root"

definition open_state_parent :: "layout \<Rightarrow> bool \<Rightarrow> fs \<Rightarrow> string \<Rightarrow> (state_error + path \<times> string) \<times> fs" where
  "open_state_parent l create s p =
     (case split_state_path l p of
        Some (root, c # cs) \<Rightarrow>
          (case open_state_dir l create s (rejoin root (butlast (c # cs))) of
             (Inl e, t) \<Rightarrow> (Inl e, t)
           | (Inr d, t) \<Rightarrow> (Inr (d, last (c # cs)), t))
      | _ \<Rightarrow> (Inl NotState, s))"

text \<open>Removal; a parent that is missing means the tree is gone already.\<close>

definition remove_state_tree :: "layout \<Rightarrow> fs \<Rightarrow> string \<Rightarrow> bool \<times> fs" where
  "remove_state_tree l s p =
     (case split_state_path l p of
        Some (root, c # cs) \<Rightarrow>
          (case open_state_dir l False s (rejoin root (butlast (c # cs))) of
             (Inl e, t) \<Rightarrow> (e = StateErr ENOENT, t)
           | (Inr d, t) \<Rightarrow>
               (case rmtree_at True True t d (last (c # cs)) of
                  (Inr ok, u) \<Rightarrow> (ok, u)
                | (Inl e, u) \<Rightarrow> (False, u)))
      | _ \<Rightarrow> remove_tree s (names_of p))"

subsection \<open>Publishing a file\<close>

text \<open>
  \<open>temp_name\<close>, for names in the ASCII range. \<open>rnd\<close> is the process number and the random digits.
\<close>

definition STATE_NAME_MAX :: nat where
  "STATE_NAME_MAX = 255"

definition temp_name :: "string \<Rightarrow> string \<Rightarrow> string" where
  "temp_name name ext = take (STATE_NAME_MAX - length ext) name @ ext"

datatype 'e failure = OsError errno | Raised 'e | OutsideState

text \<open>\<open>_publish_at\<close>: the entry must still be the inode that was written.\<close>

definition publish_at :: "fs \<Rightarrow> path \<Rightarrow> string \<Rightarrow> string \<Rightarrow> nat \<Rightarrow> errno + fs" where
  "publish_at s d tmp name i =
     (if lstat_at s d tmp = Inr (NFile i) then replace_entry s d tmp name else Inl ESTALE)"

text \<open>
  \<open>body i s\<close> is the with-block: it gets the descriptor of the temporary, answers what it raises, if
  anything, and the files after it, with everything others did meanwhile. A destination outside the state
  tree is written by its name, as the user gave it; that branch is \<open>OutsideState\<close> here.
\<close>

type_synonym 'e block = "nat \<Rightarrow> fs \<Rightarrow> 'e option \<times> fs"

definition replace_into :: "string \<Rightarrow> 'e block \<Rightarrow> fs \<Rightarrow> path \<Rightarrow> string \<Rightarrow> ('e failure + nat) \<times> fs" where
  "replace_into ext body s d name =
     (let tmp = temp_name name ext in
      case open_new_at s d tmp 384 of
        Inl e \<Rightarrow> (Inl (OsError e), s)
      | Inr (i, t) \<Rightarrow>
          (case body i t of
             (Some x, u) \<Rightarrow> (Inl (Raised x), unlink_quietly u d tmp)
           | (None, u) \<Rightarrow>
               (case publish_at u d tmp name i of
                  Inl e \<Rightarrow> (Inl (OsError e), unlink_quietly u d tmp)
                | Inr v \<Rightarrow> (Inr i, v))))"

definition atomic_replace :: "layout \<Rightarrow> string \<Rightarrow> 'e block \<Rightarrow> fs \<Rightarrow> string \<Rightarrow> ('e failure + nat) \<times> fs" where
  "atomic_replace l ext body s p =
     (case split_state_path l p of
        Some (root, c # cs) \<Rightarrow>
          (case open_state_dir l True s (rejoin root (butlast (c # cs))) of
             (Inl (StateErr e), t) \<Rightarrow> (Inl (OsError e), t)
           | (Inl NotState, t) \<Rightarrow> (Inl OutsideState, t)
           | (Inr d, t) \<Rightarrow> replace_into ext body t d (last (c # cs)))
      | _ \<Rightarrow> (Inl OutsideState, s))"

text \<open>\<open>publish_file\<close>: a file written elsewhere is renamed to its place; the source is named by its path.\<close>

definition rename_into :: "fs \<Rightarrow> path \<Rightarrow> path \<Rightarrow> string \<Rightarrow> errno + fs" where
  "rename_into s src d name =
     (case node_at s src of
        None \<Rightarrow> Inl ENOENT
      | Some x \<Rightarrow>
          (case node_at s (d @ [name]) of
             Some (NDir m t) \<Rightarrow> Inl EISDIR
           | y \<Rightarrow> if y = Some x \<and> is_file_node x then Inr s else Inr (put_node (d @ [name]) x (drop_node src s))))"

definition publish_file :: "layout \<Rightarrow> fs \<Rightarrow> path \<Rightarrow> string \<Rightarrow> (state_error + unit) \<times> fs" where
  "publish_file l s src p =
     (case open_state_parent l True s p of
        (Inl e, t) \<Rightarrow> (Inl e, t)
      | (Inr (d, name), t) \<Rightarrow>
          (case rename_into t src d name of Inl e \<Rightarrow> (Inl (StateErr e), t) | Inr u \<Rightarrow> (Inr (), u)))"

subsection \<open>The tree\<close>

text \<open>Both roots are absolute, normal and not the root of the file system.\<close>

definition good_root :: "string \<Rightarrow> bool" where
  "good_root r \<longleftrightarrow> (\<exists>ns. ns \<noteq> [] \<and> list_all plain_name ns \<and> r = ''/'' @ join_with ''/'' ns)"

definition good_layout :: "layout \<Rightarrow> bool" where
  "good_layout l \<longleftrightarrow> good_root (lo_runtime l) \<and> good_root (lo_cache l)"

lemma names_of_join: "list_all plain_name ns \<Longrightarrow> names_of (join_with ''/'' ns) = ns"
proof (cases "ns = []")
  case False
  assume a: "list_all plain_name ns"
  then have "split_on CHR ''/'' (join_with ''/'' ns) = ns"
    using False by (intro split_join) (auto simp: list_all_iff plain_name_def)
  moreover have "filter (\<lambda>c. c \<noteq> []) ns = ns" using a by (intro filter_True) (auto simp: list_all_iff plain_name_def)
  ultimately show ?thesis by (simp add: names_of_def)
qed (simp add: names_of_def)

lemma names_of_slash [simp]: "names_of (CHR ''/'' # p) = names_of p"
  by (simp add: names_of_def)

lemma names_of_append: "names_of (p @ CHR ''/'' # q) = names_of p @ names_of q"
proof -
  have "split_on CHR ''/'' (p @ CHR ''/'' # q) = split_on CHR ''/'' p @ split_on CHR ''/'' q"
  proof (induction p)
    case (Cons c p)
    obtain x xs where "split_on CHR ''/'' p = x # xs" by (cases "split_on CHR ''/'' p") auto
    with Cons show ?case by simp
  qed simp
  then show ?thesis by (simp add: names_of_def)
qed

lemma good_root_names:
  assumes "good_root r"
  shows "list_all plain_name (names_of r)" and "names_of r \<noteq> []" and "rstrip_by (\<lambda>c. c = CHR ''/'') r = r"
    and "starts_with ''/'' r" and "r = ''/'' @ join_with ''/'' (names_of r)"
proof -
  obtain ns where ns: "ns \<noteq> []" "list_all plain_name ns" "r = ''/'' @ join_with ''/'' ns"
    using assms by (auto simp: good_root_def)
  then have e: "names_of r = ns" by (simp add: names_of_join)
  show "list_all plain_name (names_of r)" "names_of r \<noteq> []" "r = ''/'' @ join_with ''/'' (names_of r)" using ns e by simp_all
  show "starts_with ''/'' r" using ns by (simp add: starts_with_def)
  note j = join_plain_ends [OF ns(2,1)]
  have "last r \<noteq> CHR ''/''" "r \<noteq> []" using ns(3) j by auto
  then have "dropWhile (\<lambda>c. c = CHR ''/'') (rev r) = rev r" by (cases r rule: rev_cases) auto
  then show "rstrip_by (\<lambda>c. c = CHR ''/'') r = r" by (simp add: rstrip_by_def)
qed

lemma normal_abs_names: "normal_abs p \<Longrightarrow> list_all plain_name (names_of p)"
  by (auto simp: normal_abs_def names_of_join)

lemma split_under_cases:
  "split_under roots p = Some (root, parts) \<Longrightarrow> \<forall>r \<in> set roots. good_root r \<Longrightarrow>
     root \<in> set roots \<and> names_of p = names_of root @ parts \<and> (p = root \<and> parts = [] \<or> starts_with (root @ ''/'') p)"
proof (induction roots p rule: split_under.induct)
  case (2 r roots p)
  have r: "rstrip_by (\<lambda>c. c = CHR ''/'') r = r" using "2.prems"(2) good_root_names(3) by simp
  consider (eq) "p = r" | (under) "p \<noteq> r" "starts_with (r @ ''/'') p" | (other) "p \<noteq> r" "\<not> starts_with (r @ ''/'') p" by blast
  then show ?case
  proof cases
    case under
    then obtain q where q: "p = r @ CHR ''/'' # q" by (auto simp: starts_with_prefix prefix_def)
    with under "2.prems"(1) show ?thesis by (auto simp: r names_of_append)
  next
    case other
    with "2.prems"(1) have "split_under roots p = Some (root, parts)" by (auto simp: r Let_def)
    with "2.IH" [of r] other "2.prems"(2) show ?thesis by (auto simp: r)
  qed (use "2.prems" in \<open>auto simp: r\<close>)
qed simp

lemma roots_good: "good_layout l \<Longrightarrow> \<forall>r \<in> set (STATE_ROOTS l). good_root r"
  by (auto simp: STATE_ROOTS_def good_layout_def)

lemma norm_parts_names:
  "list_all (\<lambda>c. c \<noteq> [] \<and> CHR ''/'' \<notin> set c) acc \<Longrightarrow> list_all (\<lambda>c. CHR ''/'' \<notin> set c) cs \<Longrightarrow>
     list_all (\<lambda>c. c \<noteq> [] \<and> CHR ''/'' \<notin> set c) (norm_parts b acc cs)"
proof (induction b acc cs rule: norm_parts.induct)
  case (2 b acc c cs)
  have "list_all (\<lambda>c. c \<noteq> [] \<and> CHR ''/'' \<notin> set c) (butlast acc)" using "2.prems"(1) by (auto simp: list_all_iff dest: in_set_butlastD)
  with 2 show ?case by auto
qed simp

lemma normpath_rel: "starts_with ''/'' (py_normpath p) \<Longrightarrow> starts_with ''/'' p"
proof (rule ccontr)
  assume a: "starts_with ''/'' (py_normpath p)" "\<not> starts_with ''/'' p"
  let ?ps = "norm_parts False [] (split_on CHR ''/'' p)"
  have n: "list_all (\<lambda>c. c \<noteq> [] \<and> CHR ''/'' \<notin> set c) ?ps"
    by (rule norm_parts_names) (auto simp: list_all_iff dest: split_on_no_sep)
  have "py_normpath p \<in> {''.'', join_with ''/'' ?ps}"
    using a(2) by (auto simp: py_normpath_def lead_slashes_def Let_def)
  with a(1) have "starts_with ''/'' (join_with ''/'' ?ps)" by (auto simp: starts_with_def)
  with n show False by (cases ?ps rule: remdups_adj.cases) (auto simp: starts_with_def neq_Nil_conv)
qed

lemma state_split:
  assumes "good_layout l" and "split_state_path l p = Some (root, parts)"
  shows "good_root root" and "list_all plain_name parts" and "names_of (py_normpath p) = names_of root @ parts"
    and "root \<in> set (STATE_ROOTS l)"
proof -
  note c = split_under_cases [OF assms(2) [unfolded split_state_path_def] roots_good [OF assms(1)]]
  then show g: "good_root root" "names_of (py_normpath p) = names_of root @ parts" "root \<in> set (STATE_ROOTS l)"
    using roots_good [OF assms(1)] by auto
  have "starts_with ''/'' (py_normpath p)"
    using c good_root_names(4) [OF g(1)] by (auto simp: starts_with_prefix dest: prefix_order.trans append_prefixD)
  then have "starts_with ''/'' p" using normpath_rel by blast
  then have "list_all plain_name (names_of (py_normpath p))" by (intro normal_abs_names normpath_abs)
  with g(2) show "list_all plain_name parts" by simp
qed

lemma norm_parts_plain: "list_all plain_name cs \<Longrightarrow> norm_parts b acc cs = acc @ cs"
  by (induction cs arbitrary: acc) (auto simp: plain_name_def)

lemma normpath_normal:
  assumes "list_all plain_name ns"
  shows "py_normpath (''/'' @ join_with ''/'' ns) = ''/'' @ join_with ''/'' ns"
proof (cases "ns = []")
  case False
  then have sp: "split_on CHR ''/'' (join_with ''/'' ns) = ns"
    using assms by (intro split_join) (auto simp: list_all_iff plain_name_def)
  have "\<not> starts_with ''//'' (''/'' @ join_with ''/'' ns)"
    using join_plain_ends [OF assms False] by (cases "join_with ''/'' ns") (auto simp: starts_with_def)
  then have "lead_slashes (''/'' @ join_with ''/'' ns) = ''/''" by (simp add: lead_slashes_def starts_with_def)
  moreover have "norm_parts True [] (split_on CHR ''/'' (''/'' @ join_with ''/'' ns)) = ns"
    using norm_parts_plain [OF assms, of True "[]"] sp by simp
  moreover have "starts_with ''/'' (''/'' @ join_with ''/'' ns)" by (simp add: starts_with_def)
  ultimately show ?thesis by (simp add: py_normpath_def Let_def)
qed (simp add: py_normpath_def lead_slashes_def starts_with_def Let_def)

lemma join_append: "xs \<noteq> [] \<Longrightarrow> ys \<noteq> [] \<Longrightarrow> join_with sep (xs @ ys) = join_with sep xs @ sep @ join_with sep ys"
proof (induction sep xs rule: join_with.induct)
  case (2 sep p)
  then show ?case by (cases ys) auto
qed auto

lemma rejoin_normal:
  assumes "list_all plain_name ns" "ns \<noteq> []" "list_all plain_name parts"
  shows "rejoin (''/'' @ join_with ''/'' ns) parts = ''/'' @ join_with ''/'' (ns @ parts)"
  using assms
proof (induction parts arbitrary: ns)
  case (Cons c parts)
  note j = join_plain_ends [OF Cons.prems(1,2)]
  have "\<not> ends_with ''/'' (''/'' @ join_with ''/'' ns)"
    using j by (cases "join_with ''/'' ns" rule: rev_cases) (auto simp: ends_with_def)
  moreover have "\<not> starts_with ''/'' c" using Cons.prems(3) by (cases c) (auto simp: plain_name_def starts_with_def)
  ultimately have "py_join (''/'' @ join_with ''/'' ns) c = ''/'' @ join_with ''/'' (ns @ [c])"
    using join_append [OF Cons.prems(2), of "[c]" "''/''"] by (simp add: py_join_def)
  moreover have "rejoin (''/'' @ join_with ''/'' (ns @ [c])) parts = ''/'' @ join_with ''/'' ((ns @ [c]) @ parts)"
    using Cons.prems by (intro Cons.IH) simp_all
  ultimately show ?case by (simp add: rejoin_def)
qed (simp add: rejoin_def)

lemma under_root:
  assumes "good_root r" and "list_all plain_name ns"
  shows "(''/'' @ join_with ''/'' ns = r \<or> starts_with (r @ ''/'') (''/'' @ join_with ''/'' ns)) \<longleftrightarrow> prefix (names_of r) ns"
proof
  assume "''/'' @ join_with ''/'' ns = r \<or> starts_with (r @ ''/'') (''/'' @ join_with ''/'' ns)"
  then show "prefix (names_of r) ns"
  proof
    assume "starts_with (r @ ''/'') (''/'' @ join_with ''/'' ns)"
    then obtain q where "''/'' @ join_with ''/'' ns = r @ CHR ''/'' # q" by (auto simp: starts_with_prefix prefix_def)
    then have "names_of (''/'' @ join_with ''/'' ns) = names_of r @ names_of q" by (simp only: names_of_append)
    then show ?thesis using assms(2) by (simp add: names_of_join)
  qed (use assms(2) names_of_join in auto)
next
  assume "prefix (names_of r) ns"
  then obtain q where q: "ns = names_of r @ q" by (auto simp: prefix_def)
  note g = good_root_names [OF assms(1)]
  show "''/'' @ join_with ''/'' ns = r \<or> starts_with (r @ ''/'') (''/'' @ join_with ''/'' ns)"
  proof (cases "q = []")
    case True
    with q g(5) show ?thesis by simp
  next
    case False
    have "''/'' @ join_with ''/'' ns = r @ ''/'' @ join_with ''/'' q"
      using g(5) join_append [OF g(2) False, of "''/''"] q by simp
    then show ?thesis by (auto simp: starts_with_prefix)
  qed
qed

lemma split_under_normal:
  assumes "\<forall>r \<in> set roots. good_root r" and "list_all plain_name ns"
  shows "split_under roots (''/'' @ join_with ''/'' ns) =
    map_option (\<lambda>r. (r, drop (length (names_of r)) ns)) (find (\<lambda>r. prefix (names_of r) ns) roots)"
  using assms(1)
proof (induction roots)
  case (Cons r roots)
  then have r: "good_root r" by simp
  let ?p = "''/'' @ join_with ''/'' ns"
  note g = good_root_names [OF r] and u = under_root [OF r assms(2)]
  show ?case
  proof (cases "prefix (names_of r) ns")
    case False
    with u Cons show ?thesis by (simp add: g(3) Let_def)
  next
    case True
    consider (eq) "?p = r" | (under) "?p \<noteq> r" "starts_with (r @ ''/'') ?p" using u True by blast
    then show ?thesis
    proof cases
      case eq
      then have "names_of r = ns" using names_of_join [OF assms(2)] by auto
      with True eq show ?thesis by (simp add: g(3))
    next
      case under
      then obtain q where q: "?p = r @ CHR ''/'' # q" by (auto simp: starts_with_prefix prefix_def)
      then have n: "names_of ?p = names_of r @ names_of q" by (simp only: names_of_append)
      have "names_of (drop (length r + 1) ?p) = names_of q" by (simp only: q) simp
      moreover have "names_of q = drop (length (names_of r)) ns" using n names_of_join [OF assms(2)] by simp
      ultimately show ?thesis using under True by (simp add: g(3) Let_def)
    qed
  qed
qed simp

lemma find_mono: "find P xs = Some x \<Longrightarrow> Q x \<Longrightarrow> (\<And>y. Q y \<Longrightarrow> P y) \<Longrightarrow> find Q xs = Some x"
  by (induction xs) (auto split: if_splits)

lemma split_parent:
  assumes "good_layout l" and "split_state_path l p = Some (root, parts)"
  shows "split_state_path l (rejoin root (butlast parts)) = Some (root, butlast parts)"
proof -
  note sp = state_split [OF assms] and g = good_root_names [OF state_split(1) [OF assms]]
  have bp: "list_all plain_name (butlast parts)" using sp(2) by (auto simp: list_all_iff dest: in_set_butlastD)
  let ?n = "names_of root @ parts" and ?m = "names_of root @ butlast parts"
  have pn: "list_all plain_name ?n" "list_all plain_name ?m" using sp(2) g(1) bp by simp_all
  have "starts_with ''/'' (py_normpath p)"
    using split_under_cases [OF assms(2) [unfolded split_state_path_def] roots_good [OF assms(1)]] g(4)
    by (auto simp: starts_with_prefix dest: prefix_order.trans append_prefixD)
  then have na: "normal_abs (py_normpath p)" using normpath_rel by (intro normpath_abs) blast
  have r: "rejoin root (butlast parts) = ''/'' @ join_with ''/'' ?m"
    using rejoin_normal [OF g(1,2) bp] g(5) by simp
  have norm: "split_state_path l (rejoin root (butlast parts)) =
    map_option (\<lambda>r. (r, drop (length (names_of r)) ?m)) (find (\<lambda>r. prefix (names_of r) ?m) (STATE_ROOTS l))"
    unfolding split_state_path_def r normpath_normal [OF pn(2)] by (rule split_under_normal [OF roots_good [OF assms(1)] pn(2)])
  have abs: "py_normpath p = ''/'' @ join_with ''/'' ?n"
  proof -
    obtain ps where ps: "list_all plain_name ps" "py_normpath p = ''/'' @ join_with ''/'' ps \<or> py_normpath p = ''//'' @ join_with ''/'' ps"
      using na by (auto simp: normal_abs_def)
    have "starts_with root (py_normpath p)"
      using split_under_cases [OF assms(2) [unfolded split_state_path_def] roots_good [OF assms(1)]]
      by (auto simp: starts_with_prefix dest: append_prefixD)
    moreover obtain c t where "root = CHR ''/'' # c # t" "c \<noteq> CHR ''/''"
      using join_plain_ends [OF g(1,2)] g(5) by (cases "join_with ''/'' (names_of root)") auto
    ultimately have "py_normpath p = ''/'' @ join_with ''/'' ps" using ps(2) by (auto simp: starts_with_prefix)
    moreover from this have "ps = ?n" using sp(3) names_of_join [OF ps(1)] by simp
    ultimately show ?thesis by simp
  qed
  have "map_option (\<lambda>r. (r, drop (length (names_of r)) ?n)) (find (\<lambda>r. prefix (names_of r) ?n) (STATE_ROOTS l)) = Some (root, parts)"
    using assms(2) unfolding split_state_path_def abs split_under_normal [OF roots_good [OF assms(1)] pn(1)] .
  then have "find (\<lambda>r. prefix (names_of r) ?n) (STATE_ROOTS l) = Some root" by auto
  then have "find (\<lambda>r. prefix (names_of r) ?m) (STATE_ROOTS l) = Some root"
  proof (rule find_mono)
    show "prefix (names_of root) ?m" by simp
    show "prefix (names_of r) ?m \<Longrightarrow> prefix (names_of r) ?n" for r
      by (erule prefix_order.trans) (simp add: prefixeq_butlast)
  qed
  with norm show ?thesis by simp
qed

subsection \<open>The walk is confined and follows no link\<close>

lemma open_level_dir: "open_level c s d n = (Inr p, t) \<Longrightarrow> p = at d n \<and> is_dir t (at d n)"
  by (auto simp: open_level_def opendir_at_def is_dir_def split: sum.splits if_splits option.splits node.splits)

lemma state_walk_safe:
  "state_walk c s d ns = (res, t) \<Longrightarrow> list_all plain_name ns \<Longrightarrow> prefix r d \<Longrightarrow>
     safe_step r s t \<and> (\<forall>p. res = Inr p \<longrightarrow> p = d @ ns)"
proof (induction c s d ns arbitrary: res t rule: state_walk.induct)
  case (2 c s d n ns)
  obtain o1 u where l: "open_level c s d n = (o1, u)" by (cases "open_level c s d n")
  note ol = open_level_safe [OF l _ "2.prems"(3)]
  show ?case
  proof (cases o1)
    case (Inl e)
    with "2.prems" l ol show ?thesis by auto
  next
    case (Inr p)
    with l "2.prems" ol have p: "safe_step r s u" "p = d @ [n]" and w: "state_walk c u p ns = (res, t)" by auto
    have "safe_step r u t \<and> (\<forall>q. res = Inr q \<longrightarrow> q = p @ ns)"
      by (rule "2.IH" [OF l [symmetric] Inr w]) (use "2.prems" p in \<open>auto simp: prefix_def\<close>)
    with p show ?thesis by (auto intro: safe_trans)
  qed
qed simp

lemma dir_kept: "open_level c s d n = (res, t) \<Longrightarrow> plain_name n \<Longrightarrow> is_dir s q \<Longrightarrow> is_dir t q"
  by (auto simp: open_level_def opendir_at_def mkdir_at_def split: sum.splits if_splits option.splits node.splits)

lemma state_walk_kept: "state_walk c s d ns = (res, t) \<Longrightarrow> list_all plain_name ns \<Longrightarrow> is_dir s q \<Longrightarrow> is_dir t q"
proof (induction c s d ns arbitrary: res t rule: state_walk.induct)
  case (2 c s d n ns)
  then show ?case using dir_kept [of c s d n] by (auto split: prod.splits sum.splits)
qed simp

lemma state_walk_dirs:
  "state_walk c s d ns = (Inr p, t) \<Longrightarrow> list_all plain_name ns \<Longrightarrow> is_dir s d \<Longrightarrow> k \<le> length ns \<Longrightarrow> is_dir t (d @ take k ns)"
proof (induction c s d ns arbitrary: p t k rule: state_walk.induct)
  case (2 c s d n ns)
  then obtain q u where l: "open_level c s d n = (Inr q, u)" and w: "state_walk c u q ns = (Inr p, t)"
    by (auto split: prod.splits sum.splits)
  have q: "q = d @ [n]" "is_dir u q" using open_level_dir [OF l] "2.prems"(2) by (simp_all add: at_plain)
  have "is_dir t d" using state_walk_kept [OF w] dir_kept [OF l] "2.prems"(2,3) by simp
  moreover have "is_dir t (q @ take j ns)" if "j \<le> length ns" for j
    using "2.IH" [OF l [symmetric] refl w] "2.prems"(2) q that by simp
  ultimately show ?case using "2.prems"(4) q by (cases k) auto
qed simp

text \<open>A link below the root ends the walk there, with nothing made.\<close>

lemma state_walk_refuses:
  assumes "wf_fs s" and "is_dir s d" and "k < length ns" and "list_all plain_name ns"
    and "node_at s (d @ take (Suc k) ns) = Some x" and "\<not> is_dir_node x"
  shows "state_walk c s d ns = (Inl ENOTDIR, s)"
  using assms
proof (induction ns arbitrary: d k)
  case (Cons n ns)
  then have n: "plain_name n" by simp
  show ?case
  proof (cases k)
    case 0
    with Cons.prems n show ?thesis
      by (cases x) (auto simp: open_level_def opendir_at_def at_plain refuse_link_def is_refusal_def)
  next
    case (Suc j)
    then have x: "node_at s ((d @ [n]) @ take (Suc j) ns) = Some x" and j: "j < length ns" using Cons.prems by simp_all
    then obtain m q where "take (Suc j) ns = m # q" by (cases ns) auto
    with x have "is_dir s (d @ [n])" using wf_prefix_dir [OF Cons.prems(1), of "d @ [n]" m q] by simp
    with Cons.IH [of "d @ [n]" j] Cons.prems x j n show ?thesis
      by (auto simp: open_level_def opendir_at_def at_plain is_dir_def split: option.splits node.splits)
  qed
qed simp

lemma open_root_there:
  "wf_fs s \<Longrightarrow> is_dir s r \<Longrightarrow> list_all plain_name r \<Longrightarrow> open_root c s r = (Inr r, s)"
  using descend_existing [of s "[]" r True] wf_fsD(1) [of s] by (auto simp: open_root_def is_dir_def split: option.splits)

lemma open_state_there:
  assumes "split_state_path l p = Some (root, parts)" and "good_layout l" and "wf_fs s" and "is_dir s (names_of root)"
  shows "open_state_dir l c s p =
    (case state_walk c s (names_of root) parts of (Inl e, u) \<Rightarrow> (Inl (StateErr e), u) | (Inr d, u) \<Rightarrow> (Inr d, u))"
proof -
  have "open_root c s (names_of root) = (Inr (names_of root), s)"
    using state_split(1) [OF assms(2,1)] good_root_names(1) assms(3,4) by (intro open_root_there) simp_all
  with assms(1) show ?thesis by (simp add: open_state_dir_def)
qed

text \<open>C19. A directory of the state tree is reached without following a link: the answer is the path below the
  trust root, every level of it a directory; a link or a file under one of its names refuses the walk with
  nothing made; and whatever happens, nothing outside the root is touched.\<close>

theorem state_dir_walk:
  assumes "good_layout l" and "wf_fs s" and "split_state_path l p = Some (root, parts)" and "is_dir s (names_of root)"
    and "open_state_dir l create s p = (res, t)"
  shows "safe_step (names_of root) s t
    \<and> (\<forall>d. res = Inr d \<longrightarrow> d = names_of (py_normpath p) \<and> (\<forall>k \<le> length parts. is_dir t (names_of root @ take k parts)))
    \<and> (\<forall>k x. k < length parts \<longrightarrow> node_at s (names_of root @ take (Suc k) parts) = Some x \<longrightarrow> \<not> is_dir_node x \<longrightarrow>
         res = Inl (StateErr ENOTDIR) \<and> t = s)"
proof -
  let ?r = "names_of root"
  note sp = state_split [OF assms(1,3)]
  obtain o1 u where w: "state_walk create s ?r parts = (o1, u)" by (cases "state_walk create s ?r parts")
  from open_state_there [OF assms(3,1,2,4), of create] assms(5) w
  have t: "t = u" "res = (case o1 of Inl e \<Rightarrow> Inl (StateErr e) | Inr d \<Rightarrow> Inr d)" by (auto split: sum.splits)
  note safe = state_walk_safe [OF w sp(2) prefix_order.refl]
  have "d = names_of (py_normpath p) \<and> (\<forall>k \<le> length parts. is_dir t (?r @ take k parts))" if "res = Inr d" for d
  proof -
    from that t(2) have o1: "o1 = Inr d" by (auto split: sum.splits)
    with safe sp(3) have "d = names_of (py_normpath p)" by simp
    moreover have "is_dir t (?r @ take k parts)" if "k \<le> length parts" for k
      using state_walk_dirs [OF w [unfolded o1] sp(2) assms(4) that] t(1) by simp
    ultimately show ?thesis by blast
  qed
  moreover have "res = Inl (StateErr ENOTDIR) \<and> t = s"
    if "k < length parts" "node_at s (?r @ take (Suc k) parts) = Some x" "\<not> is_dir_node x" for k x
    using state_walk_refuses [OF assms(2,4) that(1) sp(2) that(2,3), of create] w t by auto
  ultimately show ?thesis using safe t(1) by blast
qed

subsection \<open>Publishing\<close>

lemma publish_at_done:
  "publish_at u d tmp name i = Inr v \<Longrightarrow> plain_name tmp \<Longrightarrow> node_at v (d @ [name]) = Some (NFile i)"
  by (auto simp: publish_at_def lstat_at_def at_plain replace_entry_def split: option.splits node.splits if_splits)

lemma publish_at_safe:
  "publish_at u d tmp name i = Inr v \<Longrightarrow> plain_name tmp \<Longrightarrow> plain_name name \<Longrightarrow> prefix r d \<Longrightarrow> safe_step r u v"
  by (auto simp: publish_at_def lstat_at_def at_plain is_dir_def split: option.splits if_splits intro: safe_replace)

lemma temp_name_plain:
  "CHR ''/'' \<notin> set name \<Longrightarrow> CHR ''/'' \<notin> set ext \<Longrightarrow> 2 < length ext \<Longrightarrow> plain_name (temp_name name ext)"
  by (auto simp: temp_name_def plain_name_def dest: in_set_takeD dest!: arg_cong [of _ _ length])

lemma replace_into_done:
  assumes "replace_into ext body s d name = (Inr i, v)" and "plain_name (temp_name name ext)" and "plain_name name"
  shows "\<exists>t u. safe_step d s t \<and> f_next s \<le> i \<and> body i t = (None, u) \<and> safe_step d u v \<and> node_at v (d @ [name]) = Some (NFile i)"
proof -
  obtain j t u where o1: "open_new_at s d (temp_name name ext) 384 = Inr (j, t)" and b: "body j t = (None, u)"
    and p: "publish_at u d (temp_name name ext) name j = Inr v" and i: "i = j"
    using assms(1) by (auto simp: replace_into_def Let_def split: sum.splits prod.splits option.splits)
  show ?thesis
    using safe_open_new(1,2) [OF o1 assms(2) prefix_order.refl] b publish_at_safe [OF p assms(2,3) prefix_order.refl]
      publish_at_done [OF p assms(2)] unfolding i by blast
qed

lemma replace_into_failed:
  assumes "replace_into ext body s d name = (Inl e, v)" and "temp_name name ext \<noteq> name"
    and "plain_name (temp_name name ext)"
  shows "(v = s \<and> (\<exists>x. e = OsError x))
    \<or> (\<exists>i t r u. safe_step d s t \<and> f_next s \<le> i \<and> body i t = (r, u) \<and> safe_step d u v
         \<and> (\<forall>q. q \<noteq> d @ [temp_name name ext] \<longrightarrow> node_at v q = node_at u q)
         \<and> (case r of Some x \<Rightarrow> e = Raised x | None \<Rightarrow> \<exists>x. e = OsError x))"
proof (cases "open_new_at s d (temp_name name ext) 384")
  case (Inl x)
  with assms(1) show ?thesis by (auto simp: replace_into_def Let_def)
next
  case (Inr it)
  then obtain i t where o1: "open_new_at s d (temp_name name ext) 384 = Inr (i, t)" by (cases it) auto
  obtain r u where b: "body i t = (r, u)" by (cases "body i t")
  have v: "v = unlink_quietly u d (temp_name name ext)" and r: "case r of Some x \<Rightarrow> e = Raised x | None \<Rightarrow> \<exists>x. e = OsError x"
    using assms(1) o1 b by (auto simp: replace_into_def Let_def split: sum.splits option.splits)
  have "node_at v q = node_at u q" if "q \<noteq> d @ [temp_name name ext]" for q
    using that assms(3) unfolding v by (auto simp: unlink_quietly_def unlink_at_def at_plain split: option.splits node.splits sum.splits if_splits)
  then show ?thesis
    using safe_open_new(1,2) [OF o1 assms(3) prefix_order.refl] safe_unlink_quietly [OF assms(3) prefix_order.refl, where s = u] b r
    unfolding v by blast
qed

text \<open>C12. Publishing under an arbitrary with-block, whatever it or anyone else does to the files meanwhile. If it
  succeeds, the destination is the very file the block was given to write, one that did not exist before. If it
  fails, the destination is what the block left there, or no block was run. The program's own steps before and
  after the block stay below the trust root and change the bytes of no existing file.\<close>

theorem publish_is_what_was_written:
  assumes "good_layout l" and "wf_fs s" and "split_state_path l p = Some (root, parts)" and "is_dir s (names_of root)"
    and "parts \<noteq> []" and "atomic_replace l ext body s p = (res, v)"
    and "CHR ''/'' \<notin> set ext" and "2 < length ext" and "temp_name (last parts) ext \<noteq> last parts"
  shows "case res of
      Inr i \<Rightarrow> \<exists>t u. safe_step (names_of root) s t \<and> f_next s \<le> i \<and> body i t = (None, u)
        \<and> safe_step (names_of root) u v \<and> node_at v (names_of (py_normpath p)) = Some (NFile i)
    | Inl e \<Rightarrow> (\<forall>x. e \<noteq> Raised x) \<and> safe_step (names_of root) s v
        \<or> (\<exists>i t r u. safe_step (names_of root) s t \<and> f_next s \<le> i \<and> body i t = (r, u) \<and> safe_step (names_of root) u v
             \<and> node_at v (names_of (py_normpath p)) = node_at u (names_of (py_normpath p))
             \<and> (case r of Some x \<Rightarrow> e = Raised x | None \<Rightarrow> \<exists>x. e = OsError x))"
proof -
  let ?r = "names_of root" and ?d = "names_of root @ butlast parts" and ?n = "last parts"
  note sp = state_split [OF assms(1,3)]
  have bp: "list_all plain_name (butlast parts)" using sp(2) by (auto simp: list_all_iff dest: in_set_butlastD)
  have n: "plain_name ?n" using sp(2) assms(5) by (simp add: list_all_iff)
  then have tmp: "plain_name (temp_name ?n ext)" using assms(7,8) by (intro temp_name_plain) (auto simp: plain_name_def)
  have dest: "names_of (py_normpath p) = ?d @ [?n]" using sp(3) assms(5) by simp
  have in_r: "safe_step ?d x y \<Longrightarrow> safe_step ?r x y" for x y by (rule safe_mono [of ?r ?d]) simp_all
  obtain c cs where cs: "parts = c # cs" using assms(5) by (cases parts) auto
  obtain o1 t0 where w: "state_walk True s ?r (butlast parts) = (o1, t0)" by (cases "state_walk True s ?r (butlast parts)")
  note safe = state_walk_safe [OF w bp prefix_order.refl]
  have od: "open_state_dir l True s (rejoin root (butlast parts)) = (case o1 of Inl e \<Rightarrow> (Inl (StateErr e), t0) | Inr d \<Rightarrow> (Inr d, t0))"
    using open_state_there [OF split_parent [OF assms(1,3)] assms(1,2,4), of True] w by simp
  show ?thesis
  proof (cases o1)
    case (Inl e)
    with assms(6) od assms(3) cs have "res = Inl (OsError e)" "v = t0" by (auto simp: atomic_replace_def)
    with safe show ?thesis by simp
  next
    case (Inr d)
    with safe have d: "d = ?d" and s0: "safe_step ?r s t0" by auto
    with Inr assms(6) od assms(3) cs have ri: "replace_into ext body t0 ?d ?n = (res, v)" by (auto simp: atomic_replace_def)
    have nx: "f_next s \<le> f_next t0" using s0 by (simp add: safe_step_def keeps_bytes_def)
    show ?thesis
    proof (cases res)
      case (Inr i)
      from replace_into_done [OF ri [unfolded Inr] tmp n]
      obtain t u where "safe_step ?d t0 t" "f_next t0 \<le> i" "body i t = (None, u)" "safe_step ?d u v" "node_at v (?d @ [?n]) = Some (NFile i)"
        by blast
      then show ?thesis using Inr s0 nx in_r unfolding dest by simp (meson order_trans safe_trans)
    next
      case (Inl e)
      from replace_into_failed [OF ri [unfolded Inl] assms(9) tmp] show ?thesis
      proof
        assume "v = t0 \<and> (\<exists>x. e = OsError x)"
        with Inl s0 show ?thesis by auto
      next
        assume "\<exists>i t r u. safe_step ?d t0 t \<and> f_next t0 \<le> i \<and> body i t = (r, u) \<and> safe_step ?d u v
          \<and> (\<forall>q. q \<noteq> ?d @ [temp_name ?n ext] \<longrightarrow> node_at v q = node_at u q)
          \<and> (case r of Some x \<Rightarrow> e = Raised x | None \<Rightarrow> \<exists>x. e = OsError x)"
        then obtain i t r u where h: "safe_step ?d t0 t" "f_next t0 \<le> i" "body i t = (r, u)" "safe_step ?d u v"
          "\<forall>q. q \<noteq> ?d @ [temp_name ?n ext] \<longrightarrow> node_at v q = node_at u q"
          "case r of Some x \<Rightarrow> e = Raised x | None \<Rightarrow> \<exists>x. e = OsError x" by blast
        then have "node_at v (?d @ [?n]) = node_at u (?d @ [?n])" using assms(9) by simp
        then have "\<exists>i t r u. safe_step ?r s t \<and> f_next s \<le> i \<and> body i t = (r, u) \<and> safe_step ?r u v
          \<and> node_at v (?d @ [?n]) = node_at u (?d @ [?n]) \<and> (case r of Some x \<Rightarrow> e = Raised x | None \<Rightarrow> \<exists>x. e = OsError x)"
          using h(3,6) safe_trans [OF s0 in_r [OF h(1)]] order_trans [OF nx h(2)] in_r [OF h(4)] by blast
        with Inl show ?thesis unfolding dest by simp
      qed
    qed
  qed
qed

subsection \<open>Examples\<close>

definition sample_layout :: layout where
  "sample_layout = \<lparr>lo_runtime = ''/rt'', lo_cache = ''/rt/cache''\<rparr>"

definition sample_state :: "(path \<times> node) list \<Rightarrow> fs" where
  "sample_state es = sample_fs ([([], NDir 493 0), ([''rt''], NDir 493 0)] @ es)"

lemma sample_layout_good: "good_layout sample_layout"
proof -
  have "plain_name ''rt''" "plain_name ''cache''" by code_simp+
  then show ?thesis
    unfolding good_layout_def good_root_def sample_layout_def
    by (intro conjI exI [of _ "[''rt'']"] exI [of _ "[''rt'', ''cache'']"]) auto
qed

theorem state_dir_walk_witness:
  "open_state_dir sample_layout True (sample_state [([''rt'', ''containers''], NLink ''/host'' 0)]) ''/rt/containers/deb''
     = (Inl (StateErr ENOTDIR), sample_state [([''rt'', ''containers''], NLink ''/host'' 0)])"
proof -
  let ?s = "sample_state [([''rt'', ''containers''], NLink ''/host'' 0)]" and ?p = "''/rt/containers/deb''"
  obtain res t where o1: "open_state_dir sample_layout True ?s ?p = (res, t)" by (cases "open_state_dir sample_layout True ?s ?p")
  have "wf_fs ?s" "split_state_path sample_layout ?p = Some (''/rt'', [''containers'', ''deb''])" "is_dir ?s (names_of ''/rt'')"
    "names_of ''/rt'' = [''rt'']" by code_simp+
  note f = this
  have k: "node_at ?s ([''rt''] @ take (Suc 0) [''containers'', ''deb'']) = Some (NLink ''/host'' 0)"
    by (simp add: sample_state_def sample_fs_def node_at_def dict_get_def)
  from state_dir_walk [OF sample_layout_good f(1-3) o1] k
  have "res = Inl (StateErr ENOTDIR) \<and> t = ?s" unfolding f(4) by force
  with o1 show ?thesis by simp
qed

definition sample_block :: "nat \<Rightarrow> fs \<Rightarrow> unit option \<times> fs" where
  "sample_block i s = (None, write_inode i ((f_data s i)\<lparr>fd_bytes := ''{}''\<rparr>) s)"

theorem publish_is_what_was_written_witness:
  "case atomic_replace sample_layout ''.7.tmp'' sample_block (sample_state [([''rt'', ''m''], NLink ''/host'' 0)]) ''/rt/m'' of
     (Inr i, v) \<Rightarrow> node_at v [''rt'', ''m''] = Some (NFile i) \<and> 10 \<le> i
   | (Inl e, v) \<Rightarrow> False"
proof -
  let ?s = "sample_state [([''rt'', ''m''], NLink ''/host'' 0)]"
  obtain res v where a: "atomic_replace sample_layout ''.7.tmp'' sample_block ?s ''/rt/m'' = (res, v)"
    by (cases "atomic_replace sample_layout ''.7.tmp'' sample_block ?s ''/rt/m''")
  have f: "wf_fs ?s" "split_state_path sample_layout ''/rt/m'' = Some (''/rt'', [''m''])" "is_dir ?s (names_of ''/rt'')"
    "CHR ''/'' \<notin> set ''.7.tmp''" "2 < length ''.7.tmp''" "temp_name (last [''m'']) ''.7.tmp'' \<noteq> last [''m'']"
    "names_of (py_normpath ''/rt/m'') = [''rt'', ''m'']" by code_simp+
  have "fst (atomic_replace sample_layout ''.7.tmp'' sample_block ?s ''/rt/m'') = Inr 10" by code_simp
  with a have r: "res = Inr 10" by simp
  from publish_is_what_was_written [OF sample_layout_good f(1-3) _ a f(4-6)] f(7) r
  have "node_at v [''rt'', ''m''] = Some (NFile 10)" by auto
  with a r show ?thesis by simp
qed

end
