(* ===== verification/Container_State.thy ===== *)
theory Container_State
  imports State_Dirs Session_Registry Py_Regex
begin

text \<open>
  \<open>paths.py\<close>: where a container lives, whether there is one, and its manifest, a JSON document a guest
  may have written. With it the digest grammar of \<open>helpers/docker/cache.py\<close>.
\<close>

subsection \<open>Layout\<close>

definition containers_dir :: "layout \<Rightarrow> string" where
  "containers_dir l = py_join (lo_runtime l) ''containers''"

definition container_dir :: "layout \<Rightarrow> string \<Rightarrow> string" where
  "container_dir l name = py_join (containers_dir l) name"

definition container_rootfs :: "layout \<Rightarrow> string \<Rightarrow> string" where
  "container_rootfs l name = py_join (container_dir l name) ''rootfs''"

definition container_manifest :: "layout \<Rightarrow> string \<Rightarrow> string" where
  "container_manifest l name = py_join (container_dir l name) ''manifest.json''"

subsection \<open>Opening\<close>

text \<open>\<open>FileNotFoundError\<close>, the exit of the command over a planted entry, and what else an open raises.\<close>

datatype open_error = NotThere | Unusable errno | OpenError errno | NoStatePath

definition open_container_path :: "layout \<Rightarrow> bool \<Rightarrow> fs \<Rightarrow> string \<Rightarrow> (open_error + path) \<times> fs" where
  "open_container_path l create s p =
     (case open_state_dir l create s p of
        (Inr d, t) \<Rightarrow> (Inr d, t)
      | (Inl NotState, t) \<Rightarrow> (Inl NoStatePath, t)
      | (Inl (StateErr e), t) \<Rightarrow> (Inl (if e = ENOENT then NotThere else Unusable e), t))"

definition open_container_dir :: "layout \<Rightarrow> bool \<Rightarrow> fs \<Rightarrow> string \<Rightarrow> (open_error + path) \<times> fs" where
  "open_container_dir l create s name = open_container_path l create s (container_dir l name)"

definition open_container_rootfs :: "layout \<Rightarrow> bool \<Rightarrow> fs \<Rightarrow> string \<Rightarrow> (open_error + path) \<times> fs" where
  "open_container_rootfs l create s name = open_container_path l create s (container_rootfs l name)"

definition open_container_pair :: "layout \<Rightarrow> bool \<Rightarrow> fs \<Rightarrow> string \<Rightarrow> (open_error + path \<times> path) \<times> fs" where
  "open_container_pair l create s name =
     (case open_container_dir l create s name of
        (Inl e, t) \<Rightarrow> (Inl e, t)
      | (Inr c, t) \<Rightarrow>
          (if create then
             (case descend_at True t c [''rootfs''] of
                (Inl e, u) \<Rightarrow> (Inl (if e = ENOENT then NotThere else OpenError e), u)
              | (Inr r, u) \<Rightarrow> (Inr (c, r), u))
           else
             (case opendir_at t c ''rootfs'' of
                Inl e \<Rightarrow> (Inl (if e = ENOENT then NotThere else Unusable e), t)
              | Inr r \<Rightarrow> (Inr (c, r), t))))"

definition container_is_installed :: "layout \<Rightarrow> fs \<Rightarrow> string \<Rightarrow> open_error + bool" where
  "container_is_installed l s name =
     (case fst (open_container_rootfs l False s name) of
        Inr d \<Rightarrow> Inr True
      | Inl e \<Rightarrow> if e = NotThere then Inr False else Inl e)"

definition container_entry_lstat :: "layout \<Rightarrow> fs \<Rightarrow> string \<Rightarrow> node option" where
  "container_entry_lstat l s name =
     (case fst (open_state_dir l False s (containers_dir l)) of
        Inl e \<Rightarrow> None
      | Inr d \<Rightarrow> (case lstat_at s d name of Inl e \<Rightarrow> None | Inr x \<Rightarrow> Some x))"

definition has_rootfs :: "fs \<Rightarrow> path \<Rightarrow> string \<Rightarrow> bool" where
  "has_rootfs s d name =
     (case opendir_at s d name of
        Inl e \<Rightarrow> False
      | Inr c \<Rightarrow> (case opendir_at s c ''rootfs'' of Inl e \<Rightarrow> False | Inr r \<Rightarrow> True))"

definition installed_container_names :: "layout \<Rightarrow> fs \<Rightarrow> string list" where
  "installed_container_names l s =
     (case fst (open_state_dir l False s (containers_dir l)) of
        Inl e \<Rightarrow> []
      | Inr d \<Rightarrow> sort (filter (\<lambda>n. is_valid_name n \<and> has_rootfs s d n) (listdir_at s d)))"

subsection \<open>The manifest\<close>

definition open_container_manifest :: "layout \<Rightarrow> fs \<Rightarrow> string \<Rightarrow> state_error + nat" where
  "open_container_manifest l s name =
     (case fst (open_state_dir l False s (container_dir l name)) of
        Inl e \<Rightarrow> Inl e
      | Inr d \<Rightarrow>
          (case open_regular_at s d ''manifest.json'' of
             Inl e \<Rightarrow> Inl (StateErr e)
           | Inr i \<Rightarrow> Inr i))"

text \<open>\<open>None\<close> is the \<open>OSError\<close> or \<open>ValueError\<close> every caller catches.\<close>

type_synonym jobject = "(string \<times> json) list"

definition read_container_manifest :: "layout \<Rightarrow> fs \<Rightarrow> string \<Rightarrow> jobject option" where
  "read_container_manifest l s name =
     (case open_container_manifest l s name of
        Inl e \<Rightarrow> None
      | Inr i \<Rightarrow>
          (case read_state_file (fd_bytes (f_data s i)) of
             None \<Rightarrow> None
           | Some raw \<Rightarrow> (case json_loads_bytes raw of Some (JObj d) \<Rightarrow> Some d | _ \<Rightarrow> None)))"

definition manifest_image_config :: "jobject \<Rightarrow> jobject" where
  "manifest_image_config data =
     (case dict_get data ''image_config'' of
        Some (JObj c) \<Rightarrow> (case dict_get c ''config'' of Some (JObj d) \<Rightarrow> d | _ \<Rightarrow> [])
      | _ \<Rightarrow> [])"

definition container_image_config :: "layout \<Rightarrow> fs \<Rightarrow> string \<Rightarrow> jobject" where
  "container_image_config l s name =
     (case read_container_manifest l s name of None \<Rightarrow> [] | Some d \<Rightarrow> manifest_image_config d)"

definition string_field :: "jobject \<Rightarrow> string \<Rightarrow> string" where
  "string_field d k = (case dict_get d k of Some (JStr v) \<Rightarrow> v | _ \<Rightarrow> [])"

definition container_image_origin :: "layout \<Rightarrow> fs \<Rightarrow> string \<Rightarrow> string \<times> string" where
  "container_image_origin l s name =
     (case read_container_manifest l s name of
        None \<Rightarrow> ([], [])
      | Some d \<Rightarrow> (string_field d ''image_ref'', string_field d ''arch''))"

subsection \<open>Digests\<close>

definition DIGEST_RE :: rx where
  "DIGEST_RE =
     RCat (RPlus (RCls is_alnum_az))
       (RCat (RStar (RCat (RCls (\<lambda>c. c \<in> set ''+_.-'')) (RPlus (RCls is_alnum_az))))
         (RCat (RChr CHR '':'') (RCat (RPlus (RCls is_hex)) REol)))"

definition valid_digest :: "string \<Rightarrow> bool" where
  "valid_digest d \<longleftrightarrow> re_match DIGEST_RE d \<noteq> None"

definition manifest_config_digest :: "json option \<Rightarrow> string" where
  "manifest_config_digest m =
     (case m of
        Some (JObj d) \<Rightarrow>
          (case dict_get d ''config'' of
             Some (JObj c) \<Rightarrow> (case dict_get c ''digest'' of Some (JStr g) \<Rightarrow> if valid_digest g then g else [] | _ \<Rightarrow> [])
           | _ \<Rightarrow> [])
      | _ \<Rightarrow> [])"

end
