(* ===== verification/Login_Env.thy ===== *)
theory Login_Env
  imports Container_State Names_Quoting
begin

text \<open>
  \<open>commands/login/env.py\<close> and the environment builders of \<open>commands/login/__init__.py\<close>: which variables a
  session gets, from the image's configuration, from the program, from the launching terminal and from the
  user's own flags, and the profile snippet that repeats them to login shells.
\<close>

subsection \<open>The program's surroundings\<close>

text \<open>The constants of \<open>constants.py\<close> the login code reads, and the process environment.\<close>

record console =
  lc_layout :: layout
  lc_environ :: "(string \<times> string) list"
  lc_termux :: bool
  lc_prefix :: string
  lc_home :: string
  lc_package :: string

definition getenv :: "console \<Rightarrow> string \<Rightarrow> string" where
  "getenv c k = (case dict_get (lc_environ c) k of None \<Rightarrow> [] | Some v \<Rightarrow> v)"

definition DEFAULT_PATH_ENV :: "console \<Rightarrow> string" where
  "DEFAULT_PATH_ENV c =
     ''/usr/local/sbin:/usr/local/bin:/usr/sbin:/usr/bin:/sbin:/bin:/usr/local/games:/usr/games''
     @ (if lc_termux c then '':'' @ lc_prefix c @ ''/bin:/system/bin:/system/xbin'' else [])"

definition ANDROID_HOST_ENV_VARS :: "string list" where
  "ANDROID_HOST_ENV_VARS =
     [''ANDROID_ART_ROOT'', ''ANDROID_DATA'', ''ANDROID_I18N_ROOT'', ''ANDROID_ROOT'', ''ANDROID_RUNTIME_ROOT'',
      ''ANDROID_TZDATA_ROOT'', ''BOOTCLASSPATH'', ''DEX2OATBOOTCLASSPATH'', ''EXTERNAL_STORAGE'']"

definition IMAGE_ENV_BLOCKED :: "string list" where
  "IMAGE_ENV_BLOCKED =
     ANDROID_HOST_ENV_VARS @ IDENTITY_ENV_KEYS
     @ [''MOZ_FAKE_NO_SANDBOX'', ''MOZ_SHM_NO_SEALS'', ''PULSE_SERVER'', ''TERM'', ''COLORTERM'']"

definition SESSION_MARKER :: string where
  "SESSION_MARKER = ''proot-distro''"

subsection \<open>The image's part\<close>

type_synonym vars = "(string \<times> string) list"

definition read_manifest_env :: "console \<Rightarrow> fs \<Rightarrow> string \<Rightarrow> string list" where
  "read_manifest_env c s name =
     (case dict_get (container_image_config (lc_layout c) s name) ''Env'' of
        Some (JArr xs) \<Rightarrow> List.map_filter (\<lambda>v. case v of JStr e \<Rightarrow> if CHR ''='' \<in> set e then Some e else None | _ \<Rightarrow> None) xs
      | _ \<Rightarrow> [])"

definition split_entry :: "string \<Rightarrow> string \<times> string" where
  "split_entry e = (case partition_at CHR ''='' e of (k, f, v) \<Rightarrow> (k, v))"

definition image_env_pairs :: "console \<Rightarrow> fs \<Rightarrow> string \<Rightarrow> vars" where
  "image_env_pairs c s name =
     filter (\<lambda>(k, v). k \<noteq> [] \<and> k \<notin> set IMAGE_ENV_BLOCKED \<and> \<not> is_host_exec_var k \<and> is_exportable k v)
       (map split_entry (read_manifest_env c s name))"

definition identity_env_pairs :: "console \<Rightarrow> fs \<Rightarrow> string \<Rightarrow> vars" where
  "identity_env_pairs c s name =
     [(''PD_CONTAINER'', name), (''container'', SESSION_MARKER)]
     @ (case read_container_manifest (lc_layout c) s name of
          None \<Rightarrow> []
        | Some d \<Rightarrow>
            (let ref = string_field d ''image_ref''; i = manifest_config_digest (dict_get d ''manifest'') in
             (if ref \<noteq> [] \<and> is_exportable ''PD_IMAGE'' ref then [(''PD_IMAGE'', ref)] else [])
             @ (if i \<noteq> [] then [(''PD_IMAGE_ID'', i)] else [])))"

subsection \<open>The builders\<close>

definition host_android_vars :: "console \<Rightarrow> vars" where
  "host_android_vars c = map (\<lambda>k. (k, getenv c k)) (filter (\<lambda>k. getenv c k \<noteq> []) ANDROID_HOST_ENV_VARS)"

definition user_vars :: "string list \<Rightarrow> vars" where
  "user_vars extra = filter (\<lambda>(k, v). k \<noteq> []) (map split_entry extra)"

text \<open>The part both builders share: image, identity, Android, and the user's flags, in this order.\<close>

definition common_vars :: "console \<Rightarrow> fs \<Rightarrow> string \<Rightarrow> string list \<Rightarrow> bool \<Rightarrow> bool \<Rightarrow> vars \<Rightarrow> vars" where
  "common_vars c s name extra minimal isolated env =
     dict_update (user_vars extra)
       (dict_update (if lc_termux c \<and> \<not> isolated \<and> \<not> minimal then host_android_vars c else [])
         (dict_update (identity_env_pairs c s name) (dict_update (image_env_pairs c s name) env)))"

definition set_nonempty :: "string \<Rightarrow> string \<Rightarrow> vars \<Rightarrow> vars" where
  "set_nonempty k v env = (if v = [] then env else dict_set k v env)"

definition build_termux_env :: "console \<Rightarrow> fs \<Rightarrow> string \<Rightarrow> string list \<Rightarrow> bool \<Rightarrow> bool \<Rightarrow> vars" where
  "build_termux_env c s name extra minimal isolated =
     set_nonempty ''COLORTERM'' (getenv c ''COLORTERM'') (set_nonempty ''TERM'' (getenv c ''TERM'')
       (common_vars c s name extra minimal isolated
         (if minimal then []
          else [(''HOME'', lc_home c), (''PATH'', lc_prefix c @ ''/bin''), (''PREFIX'', lc_prefix c),
                (''TMPDIR'', lc_prefix c @ ''/tmp'')])))"

definition build_normal_env :: "console \<Rightarrow> fs \<Rightarrow> string \<Rightarrow> string \<Rightarrow> string \<Rightarrow> string list \<Rightarrow> bool \<Rightarrow> bool \<Rightarrow> vars" where
  "build_normal_env c s name login_user login_home extra minimal isolated =
     (let base = (if minimal then []
                  else (''PATH'', DEFAULT_PATH_ENV c)
                    # (if lc_termux c
                       then [(''MOZ_FAKE_NO_SANDBOX'', ''1''), (''MOZ_SHM_NO_SEALS'', ''1''), (''PULSE_SERVER'', ''127.0.0.1'')]
                       else []));
          env1 = common_vars c s name extra minimal isolated base;
          env2 = (if minimal then env1 else dict_set ''USER'' login_user (dict_set ''HOME'' login_home env1))
      in set_nonempty ''COLORTERM'' (getenv c ''COLORTERM'')
           (dict_set ''TERM'' (if getenv c ''TERM'' = [] then ''xterm-256color'' else getenv c ''TERM'') env2))"

text \<open>The Termux tools go last in \<open>PATH\<close>, once.\<close>

definition append_termux_bin :: "console \<Rightarrow> vars \<Rightarrow> vars" where
  "append_termux_bin c env =
     (let bin = lc_prefix c @ ''/bin'';
          old = (case dict_get env ''PATH'' of None \<Rightarrow> [] | Some p \<Rightarrow> p)
      in dict_set ''PATH'' (join_with '':'' (filter (\<lambda>d. d \<noteq> [] \<and> d \<noteq> bin) (split_on CHR '':'' old) @ [bin])) env)"

text \<open>What is done to the environment after the snippet is written: proot's own variables.\<close>

definition proot_passthrough :: "console \<Rightarrow> bool \<Rightarrow> vars" where
  "proot_passthrough c minimal =
     (if minimal then []
      else map (\<lambda>k. (k, getenv c k)) (filter (\<lambda>k. getenv c k \<noteq> []) [''PROOT_NO_SECCOMP'', ''PROOT_VERBOSE'']))"

definition path_string :: "path \<Rightarrow> string" where
  "path_string p = ''/'' @ join_with ''/'' p"

definition finish_env :: "console \<Rightarrow> bool \<Rightarrow> bool \<Rightarrow> path \<Rightarrow> fs \<Rightarrow> vars \<Rightarrow> vars \<times> fs" where
  "finish_env c termux_guest minimal rootfs s env =
     (let env1 = dict_update (proot_passthrough c minimal) env;
          (env2, t) = (if lc_termux c \<and> \<not> termux_guest
                       then (case makedirs_at None s rootfs [''.l2s''] of
                               (Some p, t) \<Rightarrow> (dict_set ''PROOT_L2S_DIR'' (path_string p) env1, t)
                             | (None, t) \<Rightarrow> (dict_del ''PROOT_L2S_DIR'' env1, t))
                       else (env1, s))
      in (dict_del ''LD_PRELOAD'' env2, t))"

subsection \<open>The profile snippet\<close>

text \<open>\<open>$\<close> of the key pattern also stands before a line feed at the end.\<close>

definition VALID_ENV_KEY_RE :: rx where
  "VALID_ENV_KEY_RE =
     RCat (RCls (\<lambda>c. is_alpha_az c \<or> c = CHR ''_''))
       (RCat (RStar (RCls (\<lambda>c. is_alnum_az c \<or> c = CHR ''_''))) REol)"

definition PROFILE_INJECT_SKIP :: "string list" where
  "PROFILE_INJECT_SKIP =
     [''HOME'', ''USER'', ''TERM'', ''COLORTERM'', ''PATH'', ''PROOT_NO_SECCOMP'', ''PROOT_VERBOSE'', ''PROOT_L2S_DIR'',
      ''LD_PRELOAD'', ''LD_LIBRARY_PATH'']"

definition SQ :: char where
  "SQ = CHR 0x27"

definition sq_escape :: "string \<Rightarrow> string" where
  "sq_escape v = replace_char SQ [SQ, CHR 0x5C, SQ, SQ] v"

definition export_line :: "string \<Rightarrow> string \<Rightarrow> string" where
  "export_line k v = ''export '' @ k @ ''='' @ [SQ] @ sq_escape v @ [SQ]"

definition snippet_keys :: "vars \<Rightarrow> string list" where
  "snippet_keys env =
     filter (\<lambda>k. k \<notin> set PROFILE_INJECT_SKIP \<and> re_match VALID_ENV_KEY_RE k \<noteq> None
       \<and> (case dict_get env k of Some v \<Rightarrow> is_exportable k v | None \<Rightarrow> False))
       (sort (map fst env))"

definition path_lines :: "console \<Rightarrow> string list" where
  "path_lines c =
     (let bin = lc_prefix c @ ''/bin'' in
      [''case '' @ [CHR 0x22] @ '':${PATH}:'' @ [CHR 0x22] @ '' in'',
       ''  *'' @ [CHR 0x22] @ '':'' @ bin @ '':'' @ [CHR 0x22] @ ''*) ;;'',
       ''  *) export PATH='' @ [CHR 0x22] @ ''${PATH}:'' @ bin @ [CHR 0x22] @ '' ;;'',
       ''esac''])"

definition LF :: string where
  "LF = [CHR 0x0A]"

definition snippet_text :: "console \<Rightarrow> bool \<Rightarrow> vars \<Rightarrow> string" where
  "snippet_text c termux_path env =
     join_with LF ((if termux_path then path_lines c else [])
       @ map (\<lambda>k. export_line k (case dict_get env k of Some v \<Rightarrow> v | None \<Rightarrow> [])) (snippet_keys env)) @ LF"

text \<open>\<open>os.fsencode\<close> on the alphabet.\<close>

definition fs_encode :: "string \<Rightarrow> string" where
  "fs_encode s = concat (map (\<lambda>ch. if code ch < 128 then [ch] else [char_of (192 + code ch div 64), char_of (128 + code ch mod 64)]) s)"

definition write_profile_snippet :: "console \<Rightarrow> bool \<Rightarrow> vars \<Rightarrow> fs \<Rightarrow> path \<Rightarrow> fs" where
  "write_profile_snippet c termux_path env s d =
     (let s1 = unlink_quietly s d ''termux-prefix.sh'';
          s2 = unlink_quietly s1 d ''termux-profile.sh''
      in case open_new_at s2 d ''termux-profile.sh'' 420 of
           Inl e \<Rightarrow> s2
         | Inr (i, t) \<Rightarrow> write_inode i ((f_data t i)\<lparr>fd_bytes := fs_encode (snippet_text c termux_path env), fd_mode := 420\<rparr>) t)"

definition inject_termux_profile :: "console \<Rightarrow> bool \<Rightarrow> vars \<Rightarrow> fs \<Rightarrow> path \<Rightarrow> fs" where
  "inject_termux_profile c termux_path env s rootfs =
     (case opendir_at s rootfs ''etc'' of
        Inl e \<Rightarrow> s
      | Inr etc \<Rightarrow>
          (case opendir_at s etc ''profile.d'' of
             Inl e \<Rightarrow> s
           | Inr d \<Rightarrow> write_profile_snippet c termux_path env s d))"

end
