(* ===== verification/Arch.thy ===== *)
theory Arch
  imports Login_Env
begin

text \<open>
  \<open>arch.py\<close>: which processor a container was made for, read from the ELF headers of its programs, whether an
  emulator is needed for it, and where proot and the emulator are. What the kernel and the search path answer
  about host files is a record of functions; a path that is followed there may lead anywhere.
\<close>

text \<open>
  \<open>realpath\<close>; the mode of the directory, or whether there is a file, a name leads to; whether it can be read,
  executed, or exists; whether the name itself exists; \<open>shutil.which\<close>; the machine name; the answer of
  \<open>personality(PER_LINUX32)\<close>; the working directory; and which standard descriptors are open.
\<close>

record hostview =
  hv_real :: "string \<Rightarrow> string option"
  hv_dir_mode :: "string \<Rightarrow> nat option"
  hv_file :: "string \<Rightarrow> bool"
  hv_readable :: "string \<Rightarrow> bool"
  hv_executable :: "string \<Rightarrow> bool"
  hv_exists :: "string \<Rightarrow> bool"
  hv_lexists :: "string \<Rightarrow> bool"
  hv_which :: "string \<Rightarrow> string option"
  hv_machine :: string
  hv_linux32 :: bool
  hv_cwd :: string
  hv_std_open :: "nat \<Rightarrow> bool"

definition abspath :: "string \<Rightarrow> string \<Rightarrow> string" where
  "abspath cwd p = py_normpath (if starts_with ''/'' p then p else py_join cwd p)"

definition bind_arg :: "string \<Rightarrow> string" where
  "bind_arg p = ''--bind='' @ p"

definition get_device_cpu_arch :: "hostview \<Rightarrow> string" where
  "get_device_cpu_arch h = (if hv_machine h \<in> {''armv7l'', ''armv8l''} then ''arm'' else hv_machine h)"

definition supports_32bit :: "hostview \<Rightarrow> bool" where
  "supports_32bit h =
     (if hv_machine h \<in> {''x86_64'', ''amd64''} then True
      else if hv_machine h \<in> {''aarch64'', ''arm64''} then hv_linux32 h
      else True)"

subsection \<open>ELF headers\<close>

definition ELF_MACHINE_MAP :: "(nat \<times> string) list" where
  "ELF_MACHINE_MAP = [(3, ''i686''), (40, ''arm''), (62, ''x86_64''), (183, ''aarch64''), (243, ''riscv64'')]"

definition ELF_HEADER_BYTES :: nat where
  "ELF_HEADER_BYTES = 20"

definition elf_arch :: "string option \<Rightarrow> string" where
  "elf_arch ident =
     (case ident of
        None \<Rightarrow> []
      | Some b \<Rightarrow>
          (if length b < ELF_HEADER_BYTES \<or> take 4 b \<noteq> CHR 0x7F # ''ELF'' then []
           else let lo = code (b ! 18); hi = code (b ! 19);
                    machine = (if code (b ! 5) = 1 then lo + 256 * hi else hi + 256 * lo)
             in case dict_get ELF_MACHINE_MAP machine of Some a \<Rightarrow> a | None \<Rightarrow> []))"

definition arch_candidates :: "console \<Rightarrow> string list" where
  "arch_candidates c =
     [''/usr/bin/bash'', ''/usr/bin/sh'', ''/usr/bin/su'', ''/usr/bin/busybox'', lc_prefix c @ ''/bin/bash'',
      ''/bin/bash'', ''/bin/sh'', ''/bin/su'', ''/bin/busybox'']"

definition detect_installed_arch :: "console \<Rightarrow> fs \<Rightarrow> path \<Rightarrow> l2s_rule \<Rightarrow> string" where
  "detect_installed_arch c s rootfs l2s =
     (case find (\<lambda>a. a \<noteq> []) (map (\<lambda>p. elf_arch (read_guest_bytes s rootfs l2s p ELF_HEADER_BYTES)) (arch_candidates c)) of
        Some a \<Rightarrow> a
      | None \<Rightarrow> ''unknown'')"

subsection \<open>Names\<close>

definition KNOWN_ARCHS :: "string list" where
  "KNOWN_ARCHS = [''aarch64'', ''arm'', ''i686'', ''riscv64'', ''x86_64'']"

definition DOCKER_TO_PROOT :: "(string \<times> string) list" where
  "DOCKER_TO_PROOT =
     [(''arm64'', ''aarch64''), (''arm/v7'', ''arm''), (''arm'', ''arm''), (''386'', ''i686''), (''amd64'', ''x86_64''),
      (''riscv64'', ''riscv64'')]"

definition normalize_arch :: "string \<Rightarrow> string option" where
  "normalize_arch arch =
     (let s = strip_by is_space arch; t = (if starts_with ''linux/'' s then drop 6 s else s) in
      if t \<in> set KNOWN_ARCHS then Some t else dict_get DOCKER_TO_PROOT t)"

definition ARCH_UNAME_M :: "(string \<times> string) list" where
  "ARCH_UNAME_M =
     [(''aarch64'', ''aarch64''), (''arm'', ''armv7l''), (''i686'', ''i686''), (''x86_64'', ''x86_64''), (''riscv64'', ''riscv64'')]"

definition QEMU_BIN_NAMES :: "(string \<times> string) list" where
  "QEMU_BIN_NAMES =
     [(''aarch64'', ''qemu-aarch64''), (''arm'', ''qemu-arm''), (''i686'', ''qemu-i386''), (''riscv64'', ''qemu-riscv64''),
      (''x86_64'', ''qemu-x86_64'')]"

subsection \<open>Programs\<close>

datatype program_error = BadProotBin string | NoProot | BadEmulator string | UnsupportedArch string | NoEmulator string

definition get_proot_bin :: "console \<Rightarrow> hostview \<Rightarrow> program_error + string" where
  "get_proot_bin c h =
     (let override = getenv c ''PD_PROOT_BIN'' in
      if override \<noteq> [] then
        (if \<not> hv_file h override \<or> \<not> hv_executable h override then Inl (BadProotBin override)
         else Inr (abspath (hv_cwd h) override))
      else (case hv_which h ''proot'' of
              None \<Rightarrow> Inl NoProot
            | Some p \<Rightarrow> if p = [] then Inl NoProot else Inr (abspath (hv_cwd h) p)))"

definition emulator_binds :: "console \<Rightarrow> hostview \<Rightarrow> string list" where
  "emulator_binds c h =
     map bind_arg (filter (hv_exists h)
       [''/apex'', ''/linkerconfig/ld.config.txt'', lc_prefix c, ''/system'', ''/vendor'', ''/plat_property_contexts'',
        ''/property_contexts''])"

definition runs_natively :: "hostview \<Rightarrow> string \<Rightarrow> string \<Rightarrow> bool" where
  "runs_natively h dist device \<longleftrightarrow>
     dist = device \<or> (dist = ''arm'' \<and> device = ''aarch64'' \<and> supports_32bit h) \<or> (dist = ''i686'' \<and> device = ''x86_64'')"

definition get_emulator_args :: "console \<Rightarrow> hostview \<Rightarrow> string \<Rightarrow> string \<Rightarrow> string \<Rightarrow> program_error + string list" where
  "get_emulator_args c h dist device override =
     (let run = (\<lambda>p. Inr ([''-q'', abspath (hv_cwd h) p] @ emulator_binds c h)) in
      if override \<noteq> [] then
        (if \<not> hv_file h override \<or> \<not> hv_executable h override then Inl (BadEmulator override) else run override)
      else if runs_natively h dist device then Inr []
      else (case dict_get QEMU_BIN_NAMES dist of
              None \<Rightarrow> Inl (UnsupportedArch dist)
            | Some b \<Rightarrow> (case hv_which h b of None \<Rightarrow> Inl (NoEmulator dist) | Some p \<Rightarrow> if p = [] then Inl (NoEmulator dist) else run p)))"

end
