(* ===== verification/Sysdata.thy ===== *)
theory Sysdata
  imports State_Dirs Session_Registry
begin

text \<open>
  \<open>sysdata.py\<close>: the files that stand in for entries of \<open>/proc\<close> Android does not let a guest read. They lie in
  \<open>containers/<name>/sysdata\<close>, a directory guests can write to, so nothing found there is trusted: an entry
  that is not a plain file with a single link is taken away and made anew, and only entries that pass that
  test are bound into the guest. What the host's own \<open>/proc\<close> says is an argument.
\<close>

subsection \<open>Contents\<close>

definition LF1 :: string where
  "LF1 = [CHR 0x0A]"

definition text_lines :: "string list \<Rightarrow> string" where
  "text_lines ls = concat (map (\<lambda>l. l @ LF1) ls)"

definition FAKE_LOADAVG :: string where
  "FAKE_LOADAVG = ''0.12 0.07 0.02 2/165 765'' @ LF1"

definition FAKE_OVERFLOW_ID :: string where
  "FAKE_OVERFLOW_ID = ''65534'' @ LF1"

definition FAKE_CPU_ROWS :: "nat list list" where
  "FAKE_CPU_ROWS =
     [[31, 0, 226, 12027, 82, 10, 4, 9, 0, 0], [45, 0, 664, 11144, 21, 263, 233, 12, 0, 0],
      [494, 0, 537, 11283, 27, 10, 3, 8, 0, 0], [359, 0, 234, 11723, 24, 26, 5, 7, 0, 0],
      [295, 0, 268, 11772, 10, 12, 2, 12, 0, 0], [270, 0, 251, 11833, 15, 3, 1, 10, 0, 0],
      [430, 0, 520, 11386, 30, 8, 1, 12, 0, 0], [30, 0, 172, 12108, 50, 8, 1, 13, 0, 0]]"

definition IDLE_COLUMN :: nat where
  "IDLE_COLUMN = 3"

definition USER_HZ :: nat where
  "USER_HZ = 100"

definition FAKE_UPTIME_SECONDS :: string where
  "FAKE_UPTIME_SECONDS = ''124.08''"

definition FAKE_STAT_TAIL :: string where
  "FAKE_STAT_TAIL = text_lines
     [''intr 127541 38 290 0 0 0 0 4 0 1 0 0 25329 258 0 5777 277'' @ concat (replicate 383 '' 0''),
      ''ctxt 140223'', ''btime 1680020856'', ''processes 772'', ''procs_running 2'', ''procs_blocked 0'',
      ''softirq 75663 0 5903 6 25375 10774 0 243 11685 0 21677'']"

definition FAKE_VMSTAT :: string where
  "FAKE_VMSTAT = text_lines [
      ''nr_free_pages 1743136'', ''nr_zone_inactive_anon 179281'', ''nr_zone_active_anon 7183'', ''nr_zone_inactive_file 22858'',
      ''nr_zone_active_file 51328'', ''nr_zone_unevictable 642'', ''nr_zone_write_pending 0'', ''nr_mlock 0'', ''nr_bounce 0'',
      ''nr_zspages 0'', ''nr_free_cma 0'', ''numa_hit 1259626'', ''numa_miss 0'', ''numa_foreign 0'', ''numa_interleave 720'',
      ''numa_local 1259626'', ''numa_other 0'', ''nr_inactive_anon 179281'', ''nr_active_anon 7183'', ''nr_inactive_file 22858'',
      ''nr_active_file 51328'', ''nr_unevictable 642'', ''nr_slab_reclaimable 8091'', ''nr_slab_unreclaimable 7804'',
      ''nr_isolated_anon 0'', ''nr_isolated_file 0'', ''workingset_nodes 0'', ''workingset_refault_anon 0'', ''workingset_refault_file 0'',
      ''workingset_activate_anon 0'', ''workingset_activate_file 0'', ''workingset_restore_anon 0'', ''workingset_restore_file 0'',
      ''workingset_nodereclaim 0'', ''nr_anon_pages 7723'', ''nr_mapped 8905'', ''nr_file_pages 253569'', ''nr_dirty 0'',
      ''nr_writeback 0'', ''nr_writeback_temp 0'', ''nr_shmem 178741'', ''nr_shmem_hugepages 0'', ''nr_shmem_pmdmapped 0'',
      ''nr_file_hugepages 0'', ''nr_file_pmdmapped 0'', ''nr_anon_transparent_hugepages 1'', ''nr_vmscan_write 0'',
      ''nr_vmscan_immediate_reclaim 0'', ''nr_dirtied 0'', ''nr_written 0'', ''nr_throttled_written 0'', ''nr_kernel_misc_reclaimable 0'',
      ''nr_foll_pin_acquired 0'', ''nr_foll_pin_released 0'', ''nr_kernel_stack 2780'', ''nr_page_table_pages 344'',
      ''nr_sec_page_table_pages 0'', ''nr_swapcached 0'', ''pgpromote_success 0'', ''pgpromote_candidate 0'',
      ''nr_dirty_threshold 356564'', ''nr_dirty_background_threshold 178064'', ''pgpgin 890508'', ''pgpgout 0'', ''pswpin 0'',
      ''pswpout 0'', ''pgalloc_dma 272'', ''pgalloc_dma32 261'', ''pgalloc_normal 1328079'', ''pgalloc_movable 0'', ''pgalloc_device 0'',
      ''allocstall_dma 0'', ''allocstall_dma32 0'', ''allocstall_normal 0'', ''allocstall_movable 0'', ''allocstall_device 0'',
      ''pgskip_dma 0'', ''pgskip_dma32 0'', ''pgskip_normal 0'', ''pgskip_movable 0'', ''pgskip_device 0'', ''pgfree 3077011'',
      ''pgactivate 0'', ''pgdeactivate 0'', ''pglazyfree 0'', ''pgfault 176973'', ''pgmajfault 488'', ''pglazyfreed 0'', ''pgrefill 0'',
      ''pgreuse 19230'', ''pgsteal_kswapd 0'', ''pgsteal_direct 0'', ''pgsteal_khugepaged 0'', ''pgdemote_kswapd 0'',
      ''pgdemote_direct 0'', ''pgdemote_khugepaged 0'', ''pgscan_kswapd 0'', ''pgscan_direct 0'', ''pgscan_khugepaged 0'',
      ''pgscan_direct_throttle 0'', ''pgscan_anon 0'', ''pgscan_file 0'', ''pgsteal_anon 0'', ''pgsteal_file 0'',
      ''zone_reclaim_failed 0'', ''pginodesteal 0'', ''slabs_scanned 0'', ''kswapd_inodesteal 0'', ''kswapd_low_wmark_hit_quickly 0'',
      ''kswapd_high_wmark_hit_quickly 0'', ''pageoutrun 0'', ''pgrotated 0'', ''drop_pagecache 0'', ''drop_slab 0'', ''oom_kill 0'',
      ''numa_pte_updates 0'', ''numa_huge_pte_updates 0'', ''numa_hint_faults 0'', ''numa_hint_faults_local 0'', ''numa_pages_migrated 0'',
      ''pgmigrate_success 0'', ''pgmigrate_fail 0'', ''thp_migration_success 0'', ''thp_migration_fail 0'', ''thp_migration_split 0'',
      ''compact_migrate_scanned 0'', ''compact_free_scanned 0'', ''compact_isolated 0'', ''compact_stall 0'', ''compact_fail 0'',
      ''compact_success 0'', ''compact_daemon_wake 0'', ''compact_daemon_migrate_scanned 0'', ''compact_daemon_free_scanned 0'',
      ''htlb_buddy_alloc_success 0'', ''htlb_buddy_alloc_fail 0'', ''cma_alloc_success 0'', ''cma_alloc_fail 0'',
      ''unevictable_pgs_culled 27002'', ''unevictable_pgs_scanned 0'', ''unevictable_pgs_rescued 744'', ''unevictable_pgs_mlocked 744'',
      ''unevictable_pgs_munlocked 744'', ''unevictable_pgs_cleared 0'', ''unevictable_pgs_stranded 0'', ''thp_fault_alloc 13'',
      ''thp_fault_fallback 0'', ''thp_fault_fallback_charge 0'', ''thp_collapse_alloc 4'', ''thp_collapse_alloc_failed 0'',
      ''thp_file_alloc 0'', ''thp_file_fallback 0'', ''thp_file_fallback_charge 0'', ''thp_file_mapped 0'', ''thp_split_page 0'',
      ''thp_split_page_failed 0'', ''thp_deferred_split_page 1'', ''thp_split_pmd 1'', ''thp_scan_exceed_none_pte 0'',
      ''thp_scan_exceed_swap_pte 0'', ''thp_scan_exceed_share_pte 0'', ''thp_split_pud 0'', ''thp_zero_page_alloc 0'',
      ''thp_zero_page_alloc_failed 0'', ''thp_swpout 0'', ''thp_swpout_fallback 0'', ''balloon_inflate 0'', ''balloon_deflate 0'',
      ''balloon_migrate 0'', ''swap_ra 0'', ''swap_ra_hit 0'', ''ksm_swpin_copy 0'', ''cow_ksm 0'', ''zswpin 0'', ''zswpout 0'',
      ''direct_map_level2_splits 29'', ''direct_map_level3_splits 0'', ''nr_unstable 0'']"

definition FAKE_KERNEL_RELEASE :: string where
  "FAKE_KERNEL_RELEASE = ''6.17.0-PRoot-Distro''"

definition FAKE_KERNEL_VERSION :: string where
  "FAKE_KERNEL_VERSION = ''#1 SMP PREEMPT_DYNAMIC Fri, 10 Oct 2025 00:00:00 +0000''"

definition FAKE_VERSION :: string where
  "FAKE_VERSION = ''Linux version '' @ FAKE_KERNEL_RELEASE
     @ '' (proot@termux) (gcc (GCC) 13.3.0, GNU ld (GNU Binutils) 2.42) '' @ FAKE_KERNEL_VERSION @ LF1"

subsection \<open>The processors\<close>

text \<open>Whitespace and digits of bytes. \<open>cpuinfo\<close> is the content of \<open>/proc/cpuinfo\<close> if it can be read.\<close>

definition byte_space :: "char \<Rightarrow> bool" where
  "byte_space c \<longleftrightarrow> in_range 9 13 c \<or> c = CHR '' ''"

definition cpu_line :: "string \<Rightarrow> nat option" where
  "cpu_line l =
     (case partition_at CHR '':'' l of (key, found, rest) \<Rightarrow>
        let v = strip_by byte_space rest in
        if found \<and> strip_by byte_space key = ''processor'' \<and> v \<noteq> [] \<and> list_all is_dec v then Some (dec_nat v) else None)"

definition host_cpu_ids :: "string option \<Rightarrow> nat option \<Rightarrow> nat list" where
  "host_cpu_ids cpuinfo cpu_count =
     (let ids = (case cpuinfo of None \<Rightarrow> [] | Some t \<Rightarrow> List.map_filter cpu_line (split_on CHR 0x0A t));
          n = (case cpu_count of Some k \<Rightarrow> if k = 0 then 1 else k | None \<Rightarrow> 1)
      in if ids = [] then [0..<n] else sort (remdups ids))"

definition cpu_rows :: "nat list \<Rightarrow> (nat \<times> nat list) list" where
  "cpu_rows cpus =
     (let ids = (if cpus = [] then [0] else cpus) in
      map (\<lambda>(n, cpu). (cpu, FAKE_CPU_ROWS ! (n mod length FAKE_CPU_ROWS))) (enumerate 0 ids))"

fun add_columns :: "nat list \<Rightarrow> nat list \<Rightarrow> nat list" where
  "add_columns (x # xs) (y # ys) = (x + y) # add_columns xs ys"
| "add_columns _ _ = []"

fun column_sums :: "nat list list \<Rightarrow> nat list" where
  "column_sums [] = []"
| "column_sums [r] = r"
| "column_sums (r # rs) = add_columns r (column_sums rs)"

definition row_text :: "nat list \<Rightarrow> string" where
  "row_text r = join_with '' '' (map nat_str r)"

definition fake_stat :: "nat list \<Rightarrow> string" where
  "fake_stat cpus =
     (let rows = cpu_rows cpus in
      join_with LF1 ((''cpu  '' @ row_text (column_sums (map snd rows)))
        # map (\<lambda>(cpu, r). ''cpu'' @ nat_str cpu @ '' '' @ row_text r) rows) @ LF1 @ FAKE_STAT_TAIL)"

text \<open>\<open>n / 100\<close> with two decimals.\<close>

definition hundredths :: "nat \<Rightarrow> string" where
  "hundredths n = nat_str (n div USER_HZ) @ ''.'' @ nat_str (n mod USER_HZ div 10) @ nat_str (n mod 10)"

definition fake_uptime :: "nat list \<Rightarrow> string" where
  "fake_uptime cpus = FAKE_UPTIME_SECONDS @ '' '' @ hundredths (sum_list (map (\<lambda>(c, r). r ! IDLE_COLUMN) (cpu_rows cpus))) @ LF1"

text \<open>A content is fixed, or a function of the processors and then kept current.\<close>

datatype fake_content = Fixed string | Current "nat list \<Rightarrow> string"

definition FAKE_ENTRIES :: "(string \<times> string \<times> fake_content) list" where
  "FAKE_ENTRIES =
     [(''loadavg'', ''/proc/loadavg'', Fixed FAKE_LOADAVG),
      (''stat'', ''/proc/stat'', Current fake_stat),
      (''uptime'', ''/proc/uptime'', Current fake_uptime),
      (''version'', ''/proc/version'', Fixed FAKE_VERSION),
      (''vmstat'', ''/proc/vmstat'', Fixed FAKE_VMSTAT),
      (''sysctl_entry_cap_last_cap'', ''/proc/sys/kernel/cap_last_cap'', Fixed (''40'' @ LF1)),
      (''sysctl_inotify_max_user_watches'', ''/proc/sys/fs/inotify/max_user_watches'', Fixed (''4096'' @ LF1)),
      (''sysctl_kernel_overflowuid'', ''/proc/sys/kernel/overflowuid'', Fixed FAKE_OVERFLOW_ID),
      (''sysctl_kernel_overflowgid'', ''/proc/sys/kernel/overflowgid'', Fixed FAKE_OVERFLOW_ID)]"

subsection \<open>Entries\<close>

text \<open>\<open>st_nlink\<close>: the names an inode has.\<close>

definition nlink :: "fs \<Rightarrow> nat \<Rightarrow> nat" where
  "nlink s i = length (filter (\<lambda>(p, n). n = NFile i) (f_ents s))"

definition is_own_file :: "fs \<Rightarrow> node \<Rightarrow> bool" where
  "is_own_file s st \<longleftrightarrow> (case st of NFile i \<Rightarrow> nlink s i = 1 | _ \<Rightarrow> False)"

definition opened_dir :: "nat option \<Rightarrow> fs \<Rightarrow> path \<Rightarrow> path option \<times> fs" where
  "opened_dir mo s p = (Some p, case mo of None \<Rightarrow> s | Some m \<Rightarrow> chmod_dir_fd s p m)"

definition make_dir_at :: "nat option \<Rightarrow> fs \<Rightarrow> path \<Rightarrow> string \<Rightarrow> path option \<times> fs" where
  "make_dir_at mo s d name =
     (case mkdir_at s d name 493 of
        Inr u \<Rightarrow> (case opendir_at u d name of Inl e \<Rightarrow> (None, u) | Inr p \<Rightarrow> opened_dir mo u p)
      | Inl e \<Rightarrow>
          (if e = EEXIST then (case opendir_at s d name of Inl e' \<Rightarrow> (None, s) | Inr p \<Rightarrow> opened_dir mo s p)
           else (None, s)))"

definition ensure_dir_at :: "nat option \<Rightarrow> fs \<Rightarrow> path \<Rightarrow> string \<Rightarrow> path option \<times> fs" where
  "ensure_dir_at mo s d name =
     (case opendir_at s d name of
        Inr p \<Rightarrow> opened_dir mo s p
      | Inl e \<Rightarrow>
          (if e = ENOENT then make_dir_at mo s d name
           else case unlink_at s d name of Inl e' \<Rightarrow> (None, s) | Inr t \<Rightarrow> make_dir_at mo t d name))"

definition create_with :: "string \<Rightarrow> fs \<Rightarrow> path \<Rightarrow> string \<Rightarrow> fs" where
  "create_with content s d name =
     (case create_excl s d name 420 of
        Inl e \<Rightarrow> s
      | Inr (i, t) \<Rightarrow> write_inode i ((f_data t i)\<lparr>fd_bytes := content\<rparr>) t)"

definition write_if_missing :: "string \<Rightarrow> fs \<Rightarrow> path \<Rightarrow> string \<Rightarrow> fs" where
  "write_if_missing content s d name =
     (case lstat_at s d name of
        Inl e \<Rightarrow> (if e = ENOENT then create_with content s d name else s)
      | Inr st \<Rightarrow>
          (if is_own_file s st then s
           else case unlink_at s d name of Inl e \<Rightarrow> s | Inr t \<Rightarrow> create_with content t d name))"

definition holds :: "fs \<Rightarrow> path \<Rightarrow> string \<Rightarrow> string \<Rightarrow> bool" where
  "holds s d name data \<longleftrightarrow>
     (case open_regular_at s d name of
        Inl e \<Rightarrow> False
      | Inr i \<Rightarrow> is_own_file s (NFile i) \<and> fd_bytes (f_data s i) = data)"

definition write_current :: "string \<Rightarrow> string \<Rightarrow> fs \<Rightarrow> path \<Rightarrow> string \<Rightarrow> fs" where
  "write_current rnd content s d name =
     (if holds s d name content then s
      else let tmp = temp_name name rnd in
        case open_new_at s d tmp 420 of
          Inl e \<Rightarrow> s
        | Inr (i, t) \<Rightarrow>
            (let u = write_inode i ((f_data t i)\<lparr>fd_bytes := content\<rparr>) t;
                 v = (case replace_entry u d tmp name of Inl e \<Rightarrow> u | Inr v \<Rightarrow> v)
             in unlink_quietly v d tmp))"

definition write_entry :: "string \<Rightarrow> nat list \<Rightarrow> path \<Rightarrow> string \<times> string \<times> fake_content \<Rightarrow> fs \<Rightarrow> fs" where
  "write_entry rnd cpus d e s =
     (case e of (name, real, content) \<Rightarrow>
        (case content of
           Fixed t \<Rightarrow> write_if_missing t s d name
         | Current f \<Rightarrow> write_current rnd (f cpus) s d name))"

text \<open>From the pinned container directory. \<open>rnd\<close> is the process number and the random part of temporary names.\<close>

definition setup_fake_sysdata :: "string \<Rightarrow> nat list \<Rightarrow> fs \<Rightarrow> path \<Rightarrow> fs" where
  "setup_fake_sysdata rnd cpus s container =
     (case ensure_dir_at (Some 448) s container ''sysdata'' of
        (None, t) \<Rightarrow> t
      | (Some d, t) \<Rightarrow> fold (write_entry rnd cpus d) FAKE_ENTRIES (snd (ensure_dir_at None t d ''sys_empty'')))"

subsection \<open>Bindings\<close>

definition accepts_at :: "fs \<Rightarrow> path \<Rightarrow> string \<Rightarrow> (node \<Rightarrow> bool) \<Rightarrow> bool" where
  "accepts_at s d name P \<longleftrightarrow> (case lstat_at s d name of Inl e \<Rightarrow> False | Inr st \<Rightarrow> P st)"

text \<open>\<open>readable p\<close>: the host's own file can be opened and read.\<close>

definition sysdata_binds :: "(string \<Rightarrow> bool) \<Rightarrow> fs \<Rightarrow> path \<Rightarrow> (path \<times> string) list" where
  "sysdata_binds readable s container =
     (case fst (descend_at False s container [''sysdata'']) of
        Inl e \<Rightarrow> []
      | Inr d \<Rightarrow>
          (if accepts_at s d ''sys_empty'' is_dir_node then [(container @ [''sysdata'', ''sys_empty''], ''/sys/fs/selinux'')] else [])
          @ List.map_filter (\<lambda>(name, real, content).
               if \<not> readable real \<and> accepts_at s d name (is_own_file s) then Some (container @ [''sysdata'', name], real) else None)
             FAKE_ENTRIES)"

end
