(* ===== verification/Login_Proot.thy ===== *)
theory Login_Proot
  imports Arch Sysdata
begin

text \<open>
  \<open>commands/login/proot_cmd.py\<close>, \<open>bindings.py\<close> and \<open>shm.py\<close>: the argument list proot is started with. What the
  kernel answers about host paths is a record of functions; a path that is followed there may lead anywhere.
\<close>

subsection \<open>Android\<close>

definition bind_to :: "string \<Rightarrow> string \<Rightarrow> string" where
  "bind_to src dst = ''--bind='' @ src @ '':'' @ dst"

definition world_executable :: "nat \<Rightarrow> bool" where
  "world_executable mode \<longleftrightarrow> mode mod 8 \<in> {1, 5, 7}"

definition storage_bindings :: "hostview \<Rightarrow> string list" where
  "storage_bindings h =
     (if hv_readable h ''/storage'' then
        [bind_arg ''/storage'']
        @ (if hv_readable h ''/storage/emulated/0''
           then [bind_to ''/storage/emulated/0'' ''/sdcard'', bind_to ''/storage/emulated/0'' ''/mnt/sdcard''] else [])
      else (case find (hv_readable h) [''/storage/self/primary'', ''/storage/emulated/0'', ''/sdcard''] of
              None \<Rightarrow> []
            | Some p \<Rightarrow> [bind_to p ''/mnt/sdcard'', bind_to p ''/sdcard'', bind_to p ''/storage/emulated/0'',
                         bind_to p ''/storage/self/primary'']))"

definition SYSTEM_PATHS :: "string list" where
  "SYSTEM_PATHS =
     [''/apex'', ''/odm'', ''/product'', ''/system'', ''/system_ext'', ''/vendor'', ''/linkerconfig/ld.config.txt'',
      ''/linkerconfig/com.android.art/ld.config.txt'', ''/plat_property_contexts'', ''/property_contexts'']"

definition system_bind :: "hostview \<Rightarrow> string \<Rightarrow> string option" where
  "system_bind h p =
     (case hv_real h p of
        None \<Rightarrow> None
      | Some real \<Rightarrow>
          (case hv_dir_mode h real of
             Some m \<Rightarrow> if world_executable m then Some (bind_arg real) else None
           | None \<Rightarrow> if hv_file h real \<and> hv_readable h real then Some (bind_arg real) else None))"

definition system_bindings :: "hostview \<Rightarrow> string list" where
  "system_bindings h = List.map_filter (system_bind h) SYSTEM_PATHS"

definition DALVIK_DIRS :: "string list" where
  "DALVIK_DIRS = [''/data/app'', ''/data/dalvik-cache'', ''/data/misc/apexdata/com.android.art/dalvik-cache'']"

definition dalvik_cache_binds :: "hostview \<Rightarrow> string list" where
  "dalvik_cache_binds h =
     map bind_arg (filter (\<lambda>d. case hv_dir_mode h d of Some m \<Rightarrow> world_executable m | None \<Rightarrow> False) DALVIK_DIRS)"

definition termux_app_binds :: "console \<Rightarrow> hostview \<Rightarrow> string list" where
  "termux_app_binds c h =
     (let app = ''/data/data/'' @ lc_package c in
      (if hv_dir_mode h (app @ ''/files/apps'') \<noteq> None then [bind_arg (app @ ''/files/apps'')] else [])
      @ [bind_arg (app @ ''/cache''), bind_arg (lc_home c)])"

subsection \<open>Shared memory and devices\<close>

definition SHM_DIR_MODE :: nat where
  "SHM_DIR_MODE = 1023"

definition GUEST_TMP_MODE :: nat where
  "GUEST_TMP_MODE = 1023"

definition make_shm_dir :: "fs \<Rightarrow> path \<Rightarrow> path option \<times> fs" where
  "make_shm_dir s container = makedirs_at (Some SHM_DIR_MODE) s container [''shm'']"

definition make_guest_tmp :: "fs \<Rightarrow> path \<Rightarrow> fs" where
  "make_guest_tmp s rootfs = snd (makedirs_at (Some GUEST_TMP_MODE) s rootfs [''tmp''])"

definition fake_sysdata_bindings :: "hostview \<Rightarrow> fs \<Rightarrow> path \<Rightarrow> string list" where
  "fake_sysdata_bindings h s container = map (\<lambda>(p, real). bind_to (path_string p) real) (sysdata_binds (hv_readable h) s container)"

text \<open>\<open>exists\<close> of \<open>/proc/self/fd/i\<close> is whether the descriptor is open.\<close>

definition std_binds :: "hostview \<Rightarrow> string list" where
  "std_binds h =
     List.map_filter (\<lambda>(i, name). if \<not> hv_lexists h (''/dev/'' @ name) \<and> hv_std_open h i
         then Some (bind_to (''/proc/self/fd/'' @ nat_str i) (''/dev/'' @ name)) else None)
       [(0, ''stdin''), (1, ''stdout''), (2, ''stderr'')]"

definition termux_dev_binds :: "hostview \<Rightarrow> path \<Rightarrow> path \<Rightarrow> fs \<Rightarrow> string list \<times> fs" where
  "termux_dev_binds h container rootfs s =
     (let fake = fake_sysdata_bindings h s container;
          s1 = make_guest_tmp s rootfs;
          (shm, s2) = make_shm_dir s1 container
      in ([bind_to ''/dev/urandom'' ''/dev/random'']
          @ (if hv_lexists h ''/dev/fd'' then [] else [bind_to ''/proc/self/fd'' ''/dev/fd''])
          @ std_binds h @ fake @ (case shm of Some p \<Rightarrow> [bind_to (path_string p) ''/dev/shm''] | None \<Rightarrow> []), s2))"

subsection \<open>The binds of a session\<close>

record session_opts =
  so_termux_guest :: bool
  so_minimal :: bool
  so_isolated :: bool
  so_need_emu :: bool
  so_shared_home :: bool
  so_shared_tmp :: bool
  so_shared_x11 :: bool
  so_no_link2symlink :: bool
  so_no_sysvipc :: bool
  so_no_kill_on_exit :: bool
  so_uid :: string
  so_gid :: string
  so_home :: string
  so_hostname :: string
  so_kernel :: string
  so_arch_machine :: "string option"

definition home_binds :: "console \<Rightarrow> session_opts \<Rightarrow> string list" where
  "home_binds c o1 =
     (if \<not> so_shared_home o1 then []
      else if so_termux_guest o1 then [bind_to (lc_home c) (lc_home c)]
      else if so_uid o1 = ''0'' then [bind_to (lc_home c) ''/root'']
      else [bind_to (lc_home c) (so_home o1)])"

definition shared_binds :: "console \<Rightarrow> session_opts \<Rightarrow> string list" where
  "shared_binds c o1 =
     (if lc_termux c \<and> so_shared_tmp o1 \<and> \<not> so_termux_guest o1 then [bind_to (lc_prefix c @ ''/tmp'') ''/tmp''] else [])
     @ (if lc_termux c \<and> so_shared_x11 o1 \<and> \<not> so_termux_guest o1
        then [bind_to (lc_prefix c @ ''/tmp/.X11-unix'') ''/tmp/.X11-unix''] else [])"

definition android_binds :: "console \<Rightarrow> hostview \<Rightarrow> session_opts \<Rightarrow> string list" where
  "android_binds c h o1 =
     (if lc_termux c \<and> \<not> so_isolated o1
      then dalvik_cache_binds h @ storage_bindings h @ (if so_termux_guest o1 then [] else termux_app_binds c h) else [])
     @ (if lc_termux c \<and> (\<not> so_isolated o1 \<or> so_need_emu o1)
        then system_bindings h @ (if so_termux_guest o1 then [] else [bind_arg (lc_prefix c)]) else [])"

definition guest_cache_dir :: "console \<Rightarrow> session_opts \<Rightarrow> path \<Rightarrow> fs \<Rightarrow> fs" where
  "guest_cache_dir c o1 rootfs s =
     (if lc_termux c \<and> so_termux_guest o1 \<and> \<not> so_isolated o1
      then snd (makedirs_at None s rootfs [''data'', ''data'', lc_package c, ''cache'']) else s)"

definition non_minimal_binds :: "console \<Rightarrow> hostview \<Rightarrow> session_opts \<Rightarrow> path \<Rightarrow> path \<Rightarrow> fs \<Rightarrow> string list \<times> fs" where
  "non_minimal_binds c h o1 container rootfs s =
     (let (dev, s1) = (if lc_termux c \<and> \<not> so_termux_guest o1 then termux_dev_binds h container rootfs s else ([], s))
      in (dev @ android_binds c h o1 @ home_binds c o1 @ shared_binds c o1, guest_cache_dir c o1 rootfs s1))"

subsection \<open>Binds of the user\<close>

datatype bind_error = EmptyBind | EmptySource string | RelativeDestination string

text \<open>The destinations the arguments so far have: the part behind the first colon, or the source itself.\<close>

definition bind_dest :: "string \<Rightarrow> string option" where
  "bind_dest arg =
     (if \<not> starts_with ''--bind='' arg then None
      else (case partition_at CHR '':'' (drop 7 arg) of (src, found, dst) \<Rightarrow> Some (py_normpath (if found then dst else src))))"

text \<open>One bind: its argument, and the destination it takes.\<close>

definition custom_bind :: "string \<Rightarrow> string \<Rightarrow> bind_error + string \<times> string" where
  "custom_bind cwd b =
     (if b = [] then Inl EmptyBind
      else (case partition_at CHR '':'' b of
        (src, found, dst) \<Rightarrow>
          if src = [] then Inl (EmptySource b)
          else if found \<and> \<not> starts_with ''/'' dst then Inl (RelativeDestination dst)
          else (let full = abspath cwd src in
            Inr (if found then bind_to full dst else bind_arg full, py_normpath (if found then dst else full)))))"

text \<open>The arguments and the destinations warned about.\<close>

fun add_binds :: "string \<Rightarrow> string list \<Rightarrow> string list \<Rightarrow> bind_error + string list \<times> string list" where
  "add_binds cwd taken [] = Inr ([], [])"
| "add_binds cwd taken (b # bs) =
     bindR (custom_bind cwd b) (\<lambda>(arg, dst).
     bindR (add_binds cwd (dst # taken) bs) (\<lambda>(args, overlaps).
       Inr (arg # args, if dst \<in> set taken then dst # overlaps else overlaps)))"

definition add_custom_binds :: "string \<Rightarrow> string list \<Rightarrow> string list \<Rightarrow> bind_error + string list \<times> string list" where
  "add_custom_binds cwd args bs =
     bindR (add_binds cwd (List.map_filter bind_dest args) bs) (\<lambda>(new, overlaps). Inr (args @ new, overlaps))"

subsection \<open>The argument list\<close>

definition kernel_release_arg :: "hostview \<Rightarrow> session_opts \<Rightarrow> string" where
  "kernel_release_arg h o1 =
     (let b = [CHR 0x5C] in
      ''--kernel-release='' @ b @ ''Linux'' @ b @ so_hostname o1 @ b @ so_kernel o1 @ b @ FAKE_KERNEL_VERSION @ b
      @ (case so_arch_machine o1 of Some m \<Rightarrow> m | None \<Rightarrow> hv_machine h) @ b @ ''localdomain'' @ b @ ''-1'' @ b)"

definition proot_extensions :: "console \<Rightarrow> hostview \<Rightarrow> session_opts \<Rightarrow> string list" where
  "proot_extensions c h o1 =
     (if \<not> lc_termux c then []
      else (if so_no_kill_on_exit o1 then [] else [''--kill-on-exit''])
        @ (if \<not> so_termux_guest o1 \<and> \<not> so_no_link2symlink o1 then [''--link2symlink''] else [])
        @ (if \<not> so_no_sysvipc o1 \<and> \<not> so_minimal o1 then [''--sysvipc''] else [])
        @ (if so_minimal o1 then [] else [kernel_release_arg h o1])
        @ [''-L''])"

definition build_proot_args ::
  "console \<Rightarrow> hostview \<Rightarrow> session_opts \<Rightarrow> string list \<Rightarrow> string \<Rightarrow> string \<Rightarrow> string list \<Rightarrow> bool \<Rightarrow> string list
     \<Rightarrow> path \<Rightarrow> path \<Rightarrow> fs \<Rightarrow> (bind_error + string list \<times> string list) \<times> fs" where
  "build_proot_args c h o1 prefix_args rootfs_arg login_wd custom redirect_ports inner container rootfs s =
     (let args0 = prefix_args @ proot_extensions c h o1
            @ (if so_termux_guest o1 then [] else [''--change-id='' @ so_uid o1 @ '':'' @ so_gid o1])
            @ [''--rootfs='' @ rootfs_arg, ''--cwd='' @ login_wd, ''--bind=/dev'', ''--bind=/proc'', ''--bind=/sys''];
          (binds, t) = (if so_minimal o1 then ([], s) else non_minimal_binds c h o1 container rootfs s)
      in (bindR (add_custom_binds (hv_cwd h) (args0 @ binds) custom) (\<lambda>(args, overlaps).
            Inr (args @ (if redirect_ports then [''-p''] else []) @ inner, overlaps)), t))"

end
