(* ===== verification/Login_User.thy ===== *)
theory Login_User
  imports Path_Resolve
begin

text \<open>
  \<open>commands/login/passwd.py\<close> and \<open>_resolve_login_user\<close>: who a session runs as, decided by the user's flag and
  the container's own user and group files, which are read through the clamped walk of \<open>guestfile.py\<close>.
\<close>

subsection \<open>The files\<close>

definition entries :: "fs \<Rightarrow> path \<Rightarrow> l2s_rule \<Rightarrow> string \<Rightarrow> string list list" where
  "entries s root l2s file =
     (case read_guest_file s root l2s file of
        None \<Rightarrow> []
      | Some data \<Rightarrow> map (\<lambda>l. split_on CHR '':'' (strip_by is_space l)) (splitlines [] data))"

definition passwd_available :: "fs \<Rightarrow> path \<Rightarrow> l2s_rule \<Rightarrow> bool" where
  "passwd_available s root l2s \<longleftrightarrow> guest_file_exists s root l2s ''/etc/passwd''"

definition shell_available :: "fs \<Rightarrow> path \<Rightarrow> l2s_rule \<Rightarrow> string \<Rightarrow> bool" where
  "shell_available s root l2s p \<longleftrightarrow> guest_file_exists s root l2s p"

definition first_named :: "string \<Rightarrow> string list list \<Rightarrow> string list option" where
  "first_named name es = find (\<lambda>parts. hd parts = name) es"

definition read_passwd_entry :: "fs \<Rightarrow> path \<Rightarrow> l2s_rule \<Rightarrow> string \<Rightarrow> string list" where
  "read_passwd_entry s root l2s user =
     (case first_named user (entries s root l2s ''/etc/passwd'') of None \<Rightarrow> [] | Some parts \<Rightarrow> parts)"

definition passwd_field :: "string list \<Rightarrow> nat \<Rightarrow> string" where
  "passwd_field parts i = (if i < length parts then parts ! i else [])"

definition find_passwd_by_uid :: "fs \<Rightarrow> path \<Rightarrow> l2s_rule \<Rightarrow> string \<Rightarrow> string \<times> string \<times> string" where
  "find_passwd_by_uid s root l2s uid =
     (case find (\<lambda>parts. 7 \<le> length parts \<and> parts ! 2 = uid) (entries s root l2s ''/etc/passwd'') of
        None \<Rightarrow> ([], [], [])
      | Some parts \<Rightarrow> (parts ! 5, parts ! 6, parts ! 3))"

definition read_group_gid :: "fs \<Rightarrow> path \<Rightarrow> l2s_rule \<Rightarrow> string \<Rightarrow> string" where
  "read_group_gid s root l2s grp =
     (case find (\<lambda>parts. hd parts = grp \<and> 2 < length parts) (entries s root l2s ''/etc/group'') of
        None \<Rightarrow> []
      | Some parts \<Rightarrow> parts ! 2)"

subsection \<open>The user of a session\<close>

record login_user =
  lu_name :: string
  lu_uid :: string
  lu_gid :: string
  lu_home :: string
  lu_shell :: string

text \<open>The ways the command exits.\<close>

datatype user_error =
    EmptyUserOrGroup | NoSuchUser string | NoUid string | NoSuchGroup string | NumericUidOnly | NumericGidOnly

definition is_digits :: "string \<Rightarrow> bool" where
  "is_digits s \<longleftrightarrow> s \<noteq> [] \<and> list_all is_digit_py s"

definition or_else :: "string \<Rightarrow> string \<Rightarrow> string" where
  "or_else a b = (if a = [] then b else a)"

definition split_user_arg :: "string \<Rightarrow> user_error + string \<times> string option" where
  "split_user_arg arg =
     (case partition_at CHR '':'' arg of
        (u, found, g) \<Rightarrow>
          if \<not> found then Inr (arg, None)
          else if u = [] \<or> g = [] then Inl EmptyUserOrGroup
          else Inr (u, Some g))"

text \<open>UID, home, shell and primary group, from the container's user file.\<close>

definition passwd_user :: "fs \<Rightarrow> path \<Rightarrow> l2s_rule \<Rightarrow> string \<Rightarrow> user_error + string \<times> string \<times> string \<times> string" where
  "passwd_user s root l2s user =
     (if is_digits user then
        (case find_passwd_by_uid s root l2s user of
           (home, shell, primary) \<Rightarrow> Inr (user, or_else home ''/'', or_else shell ''/bin/sh'', primary))
      else
        (let entry = read_passwd_entry s root l2s user in
         if entry = [] then Inl (NoSuchUser user)
         else if passwd_field entry 2 = [] then Inl (NoUid user)
         else Inr (passwd_field entry 2, or_else (passwd_field entry 5) ''/'',
                   or_else (passwd_field entry 6) ''/bin/sh'', passwd_field entry 3)))"

definition resolve_login_user :: "fs \<Rightarrow> path \<Rightarrow> l2s_rule \<Rightarrow> string \<Rightarrow> user_error + login_user" where
  "resolve_login_user s root l2s arg =
     bindR (split_user_arg arg) (\<lambda>(user, group).
       if passwd_available s root l2s then
         bindR (passwd_user s root l2s user) (\<lambda>(uid, home, shell, primary).
         bindR (case group of
                  None \<Rightarrow> Inr (or_else primary uid)
                | Some g \<Rightarrow>
                    (if is_digits g then Inr g
                     else let gid = read_group_gid s root l2s g in
                       if gid = [] then Inl (NoSuchGroup g) else Inr gid)) (\<lambda>gid.
         Inr \<lparr>lu_name = user, lu_uid = uid, lu_gid = gid, lu_home = home, lu_shell = shell\<rparr>))
       else
         bindR (if user = ''root'' then Inr ''0'' else if is_digits user then Inr user else Inl NumericUidOnly) (\<lambda>uid.
         bindR (case group of
                  None \<Rightarrow> Inr uid
                | Some g \<Rightarrow> if is_digits g then Inr g else Inl NumericGidOnly) (\<lambda>gid.
         Inr \<lparr>lu_name = user, lu_uid = uid, lu_gid = gid, lu_home = ''/'', lu_shell = ''/bin/sh''\<rparr>)))"

end
