(* ===== verification/Login_Command.thy ===== *)
theory Login_Command
  imports Login_Proot Login_User
begin

text \<open>
  \<open>commands/login/__init__.py\<close> and \<open>commands/run.py\<close>: from the user's flags and the container to the process
  that becomes proot, its argument list and its environment. The container lock and the registration of the
  session are the subject of their own theories; a legacy installation is taken to be migrated already.
\<close>

subsection \<open>The request\<close>

record login_args =
  la_user :: string
  la_kernel :: string
  la_hostname :: string
  la_work_dir :: string
  la_redirect_ports :: bool
  la_isolated :: bool
  la_minimal :: bool
  la_shared_home :: bool
  la_shared_tmp :: bool
  la_shared_x11 :: bool
  la_no_link2symlink :: bool
  la_no_sysvipc :: bool
  la_no_kill_on_exit :: bool
  la_bind :: "string list"
  la_env :: "string list"
  la_cmd :: "string list"
  la_run_inner :: "string list option"
  la_emulator :: string
  la_show :: bool

text \<open>What the program is run in: the constants, the host, the rule for hard-link stand-ins, the processors of
  the host, and the process number and random part of temporary names.\<close>

record setting =
  st_console :: console
  st_host :: hostview
  st_l2s :: l2s_rule
  st_cpus :: "nat list"
  st_rnd :: string

datatype login_error =
    NotInstalled | StorageError open_error | UserError user_error | NoShell string bool | ProgramError program_error
  | EmulatedTermux | BindError bind_error | BadManifest | NoCommand | BadField string

record launch =
  ln_bin :: string
  ln_argv :: "string list"
  ln_env :: vars
  ln_inner :: "string list"
  ln_user :: string
  ln_overlaps :: "string list"

subsection \<open>\<open>shlex.join\<close>\<close>

definition shell_safe :: "char \<Rightarrow> bool" where
  "shell_safe ch \<longleftrightarrow> is_alnum_az ch \<or> ch \<in> set ''_@%+=:,./-''"

definition shlex_quote :: "string \<Rightarrow> string" where
  "shlex_quote w =
     (if w = [] then [SQ, SQ]
      else if list_all shell_safe w then w
      else [SQ] @ replace_char SQ ([SQ, CHR 0x22, SQ, CHR 0x22, SQ]) w @ [SQ])"

definition shlex_join :: "string list \<Rightarrow> string" where
  "shlex_join ws = join_with '' '' (map shlex_quote ws)"

subsection \<open>The guest\<close>

definition is_termux_guest :: "setting \<Rightarrow> fs \<Rightarrow> path \<Rightarrow> bool" where
  "is_termux_guest w s rootfs \<longleftrightarrow> guest_file_exists s rootfs (st_l2s w) (lc_prefix (st_console w) @ ''/bin/login'')"

text \<open>\<open>x or y\<close> of two lists that may be anything else in the file: whether either is a true value.\<close>

fun truthy :: "json option \<Rightarrow> bool" where
  "truthy None \<longleftrightarrow> False"
| "truthy (Some JNull) \<longleftrightarrow> False"
| "truthy (Some (JBool b)) \<longleftrightarrow> b"
| "truthy (Some (JNum n)) \<longleftrightarrow> (case num_int n of Some i \<Rightarrow> i \<noteq> 0 | None \<Rightarrow> num_float n \<noteq> Fin 0)"
| "truthy (Some (JStr t)) \<longleftrightarrow> t \<noteq> []"
| "truthy (Some (JArr xs)) \<longleftrightarrow> xs \<noteq> []"
| "truthy (Some (JObj d)) \<longleftrightarrow> d \<noteq> []"

definition has_entrypoint_or_cmd :: "setting \<Rightarrow> fs \<Rightarrow> string \<Rightarrow> bool" where
  "has_entrypoint_or_cmd w s name \<longleftrightarrow>
     (let cfg = container_image_config (lc_layout (st_console w)) s name in
      truthy (dict_get cfg ''Entrypoint'') \<or> truthy (dict_get cfg ''Cmd''))"

text \<open>What is decided from the type of the guest: its environment, command, working directory and user.\<close>

record guest_plan =
  gp_env :: vars
  gp_inner :: "string list"
  gp_wd :: string
  gp_user :: login_user

definition no_user :: "string \<Rightarrow> login_user" where
  "no_user name = \<lparr>lu_name = name, lu_uid = [], lu_gid = [], lu_home = [], lu_shell = []\<rparr>"

definition login_user_arg :: "login_args \<Rightarrow> string" where
  "login_user_arg a = or_else (la_user a) ''root''"

definition termux_plan :: "setting \<Rightarrow> login_args \<Rightarrow> string \<Rightarrow> fs \<Rightarrow> guest_plan" where
  "termux_plan w a name s =
     (let c = st_console w in
      \<lparr>gp_env = build_termux_env c s name (la_env a) (la_minimal a) (la_isolated a),
       gp_inner = (case la_run_inner a of
                     Some xs \<Rightarrow> xs
                   | None \<Rightarrow> [lc_prefix c @ ''/bin/login''] @ (if la_cmd a = [] then [] else [''-c'', shlex_join (la_cmd a)])),
       gp_wd = or_else (la_work_dir a) (lc_home c), gp_user = no_user (login_user_arg a)\<rparr>)"

definition normal_plan :: "setting \<Rightarrow> login_args \<Rightarrow> string \<Rightarrow> path \<Rightarrow> fs \<Rightarrow> login_error + guest_plan" where
  "normal_plan w a name rootfs s =
     (case resolve_login_user s rootfs (st_l2s w) (login_user_arg a) of
        Inl e \<Rightarrow> Inl (UserError e)
      | Inr u \<Rightarrow>
          (let plan = (\<lambda>inner.
             \<lparr>gp_env = build_normal_env (st_console w) s name (lu_name u) (lu_home u) (la_env a) (la_minimal a) (la_isolated a),
              gp_inner = inner, gp_wd = or_else (la_work_dir a) (lu_home u), gp_user = u\<rparr>)
           in case la_run_inner a of
                Some xs \<Rightarrow> Inr (plan xs)
              | None \<Rightarrow>
                  (if \<not> shell_available s rootfs (st_l2s w) (lu_shell u)
                   then Inl (NoShell (lu_shell u) (has_entrypoint_or_cmd w s name))
                   else Inr (plan (if la_cmd a = [] then [lu_shell u, ''-l'']
                                   else [lu_shell u, ''-c'', shlex_join (la_cmd a)])))))"

subsection \<open>The session\<close>

definition host_tools :: "setting \<Rightarrow> login_args \<Rightarrow> bool" where
  "host_tools w a \<longleftrightarrow> lc_termux (st_console w) \<and> \<not> la_isolated a \<and> \<not> la_minimal a"

definition target_arch :: "setting \<Rightarrow> fs \<Rightarrow> path \<Rightarrow> string" where
  "target_arch w s rootfs =
     (let t = detect_installed_arch (st_console w) s rootfs (st_l2s w) in
      if t = ''unknown'' then get_device_cpu_arch (st_host w) else t)"

definition session_options :: "setting \<Rightarrow> login_args \<Rightarrow> bool \<Rightarrow> guest_plan \<Rightarrow> bool \<Rightarrow> string \<Rightarrow> session_opts" where
  "session_options w a termux_guest g need_emu arch =
     \<lparr>so_termux_guest = termux_guest, so_minimal = la_minimal a, so_isolated = la_isolated a, so_need_emu = need_emu,
      so_shared_home = la_shared_home a, so_shared_tmp = la_shared_tmp a, so_shared_x11 = la_shared_x11 a,
      so_no_link2symlink = la_no_link2symlink a, so_no_sysvipc = la_no_sysvipc a, so_no_kill_on_exit = la_no_kill_on_exit a,
      so_uid = lu_uid (gp_user g), so_gid = lu_gid (gp_user g), so_home = lu_home (gp_user g),
      so_hostname = or_else (la_hostname a) ''localhost'', so_kernel = or_else (la_kernel a) FAKE_KERNEL_RELEASE,
      so_arch_machine = dict_get ARCH_UNAME_M arch\<rparr>"

text \<open>From the finished argument list on, with the environment of the plan and the files as they are by then.\<close>

definition launch_session ::
  "setting \<Rightarrow> login_args \<Rightarrow> bool \<Rightarrow> guest_plan \<Rightarrow> vars \<Rightarrow> path \<Rightarrow> path \<Rightarrow> fs \<Rightarrow> (login_error + launch) \<times> fs" where
  "launch_session w a termux_guest g env container rootfs s =
     (let c = st_console w; h = st_host w; arch = target_arch w s rootfs in
      case get_emulator_args c h arch (get_device_cpu_arch h) (la_emulator a) of
        Inl e \<Rightarrow> (Inl (ProgramError e), s)
      | Inr emu \<Rightarrow>
          (if termux_guest \<and> emu \<noteq> [] then (Inl EmulatedTermux, s)
           else case get_proot_bin c h of
               Inl e \<Rightarrow> (Inl (ProgramError e), s)
             | Inr bin \<Rightarrow>
                 (case build_proot_args c h (session_options w a termux_guest g (emu \<noteq> []) arch) (bin # emu)
                         (if la_show a then path_string rootfs else ''.'') (gp_wd g) (la_bind a) (la_redirect_ports a)
                         (gp_inner g) container rootfs s of
                    (Inl e, t) \<Rightarrow> (Inl (BindError e), t)
                  | (Inr (argv, overlaps), t) \<Rightarrow>
                      (case finish_env c termux_guest (la_minimal a) rootfs t env of
                         (final, u) \<Rightarrow>
                           (Inr \<lparr>ln_bin = bin, ln_argv = argv, ln_env = final, ln_inner = gp_inner g,
                                 ln_user = lu_name (gp_user g), ln_overlaps = overlaps\<rparr>, u)))))"

definition login_with_rootfs :: "setting \<Rightarrow> login_args \<Rightarrow> string \<Rightarrow> path \<Rightarrow> path \<Rightarrow> fs \<Rightarrow> (login_error + launch) \<times> fs" where
  "login_with_rootfs w a name container rootfs s =
     (let c = st_console w; tg = is_termux_guest w s rootfs in
      case (if tg then Inr (termux_plan w a name s) else normal_plan w a name rootfs s) of
        Inl e \<Rightarrow> (Inl e, s)
      | Inr g \<Rightarrow>
          (let s1 = (if \<not> tg \<and> lc_termux c \<and> \<not> la_minimal a then setup_fake_sysdata (st_rnd w) (st_cpus w) s container else s);
               env = (if host_tools w a then append_termux_bin c (gp_env g) else gp_env g);
               s2 = (if tg then s1 else inject_termux_profile c (host_tools w a) env s1 rootfs)
           in launch_session w a tg g env container rootfs s2))"

definition command_login :: "setting \<Rightarrow> login_args \<Rightarrow> string \<Rightarrow> fs \<Rightarrow> (login_error + launch) \<times> fs" where
  "command_login w a name s =
     (case open_container_pair (lc_layout (st_console w)) False s name of
        (Inl e, t) \<Rightarrow> (Inl (if e = NotThere then NotInstalled else StorageError e), t)
      | (Inr (container, rootfs), t) \<Rightarrow> login_with_rootfs w a name container rootfs t)"

subsection \<open>The printed command\<close>

definition command_words :: "launch \<Rightarrow> string list" where
  "command_words l = [''env'', ''-i''] @ map (\<lambda>(k, v). k @ ''='' @ dq v) (ln_env l) @ map dq (ln_argv l)"

definition command_text :: "launch \<Rightarrow> string" where
  "command_text l = join_with ('' '' @ [CHR 0x5C, CHR 0x0A] @ ''  '') (command_words l) @ [CHR 0x0A]"

subsection \<open>\<open>run\<close>\<close>

definition config_strings :: "jobject \<Rightarrow> string \<Rightarrow> login_error + string list" where
  "config_strings cfg k =
     (case dict_get cfg k of
        None \<Rightarrow> Inr []
      | Some JNull \<Rightarrow> Inr []
      | Some (JArr xs) \<Rightarrow>
          if list_all (\<lambda>v. case v of JStr t \<Rightarrow> True | _ \<Rightarrow> False) xs
          then Inr (map (\<lambda>v. case v of JStr t \<Rightarrow> t | _ \<Rightarrow> []) xs) else Inl (BadField k)
      | _ \<Rightarrow> Inl (BadField k))"

definition config_workdir :: "jobject \<Rightarrow> login_error + string" where
  "config_workdir cfg =
     (case dict_get cfg ''WorkingDir'' of
        None \<Rightarrow> Inr ''/''
      | Some JNull \<Rightarrow> Inr ''/''
      | Some (JStr t) \<Rightarrow> Inr (or_else t ''/'')
      | _ \<Rightarrow> Inl (BadField ''WorkingDir''))"

definition command_run :: "setting \<Rightarrow> login_args \<Rightarrow> string list \<Rightarrow> string \<Rightarrow> fs \<Rightarrow> (login_error + launch) \<times> fs" where
  "command_run w a run_args name s =
     (case container_is_installed (lc_layout (st_console w)) s name of
        Inl e \<Rightarrow> (Inl (StorageError e), s)
      | Inr b \<Rightarrow>
          (if \<not> b then (Inl NotInstalled, s)
           else case read_container_manifest (lc_layout (st_console w)) s name of
               None \<Rightarrow> (Inl BadManifest, s)
             | Some data \<Rightarrow>
                 (let cfg = manifest_image_config data in
                  case bindR (config_strings cfg ''Entrypoint'') (\<lambda>entry.
                       bindR (config_strings cfg ''Cmd'') (\<lambda>cmd.
                       let inner = entry @ (if run_args = [] then cmd else run_args) in
                       if inner = [] then Inl NoCommand
                       else bindR (if la_work_dir a = [] then config_workdir cfg else Inr (la_work_dir a)) (\<lambda>wd.
                         Inr (inner, wd)))) of
                    Inl e \<Rightarrow> (Inl e, s)
                  | Inr (inner, wd) \<Rightarrow>
                      command_login w (a\<lparr>la_run_inner := Some inner, la_cmd := [], la_work_dir := wd\<rparr>) name s)))"

end
