(* ===== verification/Login_Env_Props.thy ===== *)
theory Login_Env_Props
  imports Login_Env
begin

text \<open>
  What the environment of a session may hold, and that a shell which sources the profile snippet sets what
  the snippet was given.
\<close>

subsection \<open>Where host-side variables come from\<close>

definition from_user :: "vars \<Rightarrow> string \<times> string \<Rightarrow> bool" where
  "from_user user kv \<longleftrightarrow> (is_host_exec_var (fst kv) \<longrightarrow> kv \<in> set user)"

lemma all_set: "list_all P d \<Longrightarrow> P (k, v) \<Longrightarrow> list_all P (dict_set k v d)"
  by (induction k v d rule: dict_set.induct) auto

lemma all_update: "list_all P d \<Longrightarrow> list_all P new \<Longrightarrow> list_all P (dict_update new d)"
  unfolding dict_update_def by (induction new arbitrary: d) (auto intro: all_set)

lemma plain_keys:
  "list_all (\<lambda>k. \<not> is_host_exec_var k) ANDROID_HOST_ENV_VARS"
  "list_all (\<lambda>k. \<not> is_host_exec_var k) [''PATH'', ''HOME'', ''USER'', ''TERM'', ''COLORTERM'', ''PREFIX'', ''TMPDIR'',
     ''MOZ_FAKE_NO_SANDBOX'', ''MOZ_SHM_NO_SEALS'', ''PULSE_SERVER'', ''PD_CONTAINER'', ''container'', ''PD_IMAGE'', ''PD_IMAGE_ID'']"
  by code_simp+

lemma plain_from_user: "\<not> is_host_exec_var k \<Longrightarrow> from_user user (k, v)"
  by (simp add: from_user_def)

lemma image_from_user: "list_all (from_user user) (image_env_pairs c s name)"
  by (auto simp: image_env_pairs_def list_all_iff intro: plain_from_user)

lemma identity_from_user: "list_all (from_user user) (identity_env_pairs c s name)"
  using plain_keys(2) by (auto simp: identity_env_pairs_def Let_def intro!: plain_from_user split: option.splits)

lemma android_from_user: "list_all (from_user user) (host_android_vars c)"
  using plain_keys(1) by (auto simp: host_android_vars_def list_all_iff intro!: plain_from_user)

lemma common_from_user:
  assumes "list_all (from_user (user_vars extra)) env"
  shows "list_all (from_user (user_vars extra)) (common_vars c s name extra minimal isolated env)"
  unfolding common_vars_def
proof (intro all_update assms image_from_user identity_from_user)
  show "list_all (from_user (user_vars extra)) (if lc_termux c \<and> \<not> isolated \<and> \<not> minimal then host_android_vars c else [])"
    by (simp add: android_from_user)
  show "list_all (from_user (user_vars extra)) (user_vars extra)" by (auto simp: list_all_iff from_user_def)
qed

lemma build_env_from_user:
  "list_all (from_user (user_vars extra)) (build_termux_env c s name extra minimal isolated)"
  "list_all (from_user (user_vars extra)) (build_normal_env c s name user home extra minimal isolated)"
proof -
  let ?P = "from_user (user_vars extra)"
  have k: "k \<in> set [''PATH'', ''HOME'', ''USER'', ''TERM'', ''COLORTERM'', ''PREFIX'', ''TMPDIR'', ''MOZ_FAKE_NO_SANDBOX'',
      ''MOZ_SHM_NO_SEALS'', ''PULSE_SERVER'']
    \<Longrightarrow> ?P (k, v)" for k v
    using plain_keys(2) by (auto intro!: plain_from_user)
  have n: "list_all ?P d \<Longrightarrow> ?P (j, v) \<Longrightarrow> list_all ?P (set_nonempty j v d)" for d j v
    by (simp add: set_nonempty_def all_set)
  show "list_all ?P (build_termux_env c s name extra minimal isolated)"
    unfolding build_termux_env_def by (intro n common_from_user k) (auto intro!: k)
  show "list_all ?P (build_normal_env c s name user home extra minimal isolated)"
    unfolding build_normal_env_def Let_def by (auto intro!: n all_set common_from_user k)
qed

subsection \<open>Sourcing the snippet\<close>

text \<open>
  How a shell reads one word: quoted text as it is, an escaped character as itself, and outside quotes the
  characters that mean nothing to it. Anything else is beyond this reading and answers \<open>None\<close>. The word ends
  at a line feed.
\<close>

function sh_text :: "string \<Rightarrow> (string \<times> string) option" where
  "sh_text [] = Some ([], [])"
| "sh_text (ch # s) =
     (if ch = CHR 0x0A then Some ([], ch # s)
      else if ch = SQ then
        (if SQ \<notin> set s then None
         else map_option (\<lambda>(w, r). (takeWhile (\<lambda>x. x \<noteq> SQ) s @ w, r)) (sh_text (drop 1 (dropWhile (\<lambda>x. x \<noteq> SQ) s))))
      else if ch = CHR 0x5C then
        (case s of [] \<Rightarrow> None | d # t \<Rightarrow> if d = CHR 0x0A then sh_text t else map_option (\<lambda>(w, r). (d # w, r)) (sh_text t))
      else if is_alnum_az ch \<or> ch \<in> {CHR ''_'', CHR ''='', CHR ''/'', CHR ''.'', CHR ''-''}
        then map_option (\<lambda>(w, r). (ch # w, r)) (sh_text s)
      else None)"
  by pat_completeness auto
termination
proof (relation "measure length")
  fix ch :: char and s :: string
  have "length (dropWhile (\<lambda>x. x \<noteq> SQ) s) \<le> length s" by (rule length_dropWhile_le)
  then show "(drop 1 (dropWhile (\<lambda>x. x \<noteq> SQ) s), ch # s) \<in> measure length" by simp
qed auto

definition sh_identifier :: "string \<Rightarrow> bool" where
  "sh_identifier k \<longleftrightarrow> k \<noteq> [] \<and> (is_alpha_az (hd k) \<or> hd k = CHR ''_'') \<and> list_all (\<lambda>c. is_alnum_az c \<or> c = CHR ''_'') k"

text \<open>A script of \<open>export NAME=word\<close> commands, one to a line; the result are the assignments.\<close>

function sh_exports :: "string \<Rightarrow> vars option" where
  "sh_exports script =
     (if script = [] then Some []
      else if \<not> starts_with ''export '' script then None
      else case sh_text (drop 7 script) of
          Some (w, CHR 0x0A # rest) \<Rightarrow>
            (case partition_at CHR ''='' w of (k, found, v) \<Rightarrow>
               if found \<and> sh_identifier k \<and> length rest < length script
               then map_option (Cons (k, v)) (sh_exports rest) else None)
        | _ \<Rightarrow> None)"
  by pat_completeness auto
termination by (relation "measure length") auto

declare sh_exports.simps [simp del] sh_text.simps(2) [simp del]

lemma sh_quoted: "SQ \<notin> set q \<Longrightarrow> sh_text (SQ # q @ SQ # r) = map_option (\<lambda>(w, r). (q @ w, r)) (sh_text r)"
proof -
  assume q: "SQ \<notin> set q"
  then have "takeWhile (\<lambda>x. x \<noteq> SQ) (q @ SQ # r) = q" "dropWhile (\<lambda>x. x \<noteq> SQ) (q @ SQ # r) = SQ # r"
    by (auto simp: takeWhile_append dropWhile_append takeWhile_eq_all_conv dropWhile_eq_Nil_conv)
  moreover have "SQ \<noteq> CHR 0x0A" by (simp add: SQ_def)
  ultimately show ?thesis by (simp add: sh_text.simps(2))
qed

lemma sq_escape_simps [simp]:
  "sq_escape [] = []" "sq_escape (ch # v) = (if ch = SQ then [SQ, CHR 0x5C, SQ, SQ] else [ch]) @ sq_escape v"
  by (simp_all add: sq_escape_def replace_char_Cons)

text \<open>The value, with \<open>acc\<close> the part of it since the quote was opened.\<close>

lemma sh_text_value:
  "SQ \<notin> set acc \<Longrightarrow> sh_text (SQ # acc @ sq_escape v @ SQ # CHR 0x0A # r) = Some (acc @ v, CHR 0x0A # r)"
proof (induction v arbitrary: acc)
  case Nil
  then show ?case using sh_quoted [of acc "CHR 0x0A # r"] by (simp add: sh_text.simps(2) [of "CHR 0x0A"])
next
  case (Cons ch v)
  show ?case
  proof (cases "ch = SQ")
    case False
    then show ?thesis using Cons.IH [of "acc @ [ch]"] Cons.prems by simp
  next
    case True
    have "sh_text (CHR 0x5C # SQ # SQ # sq_escape v @ SQ # CHR 0x0A # r) = Some (SQ # v, CHR 0x0A # r)"
      using Cons.IH [of "[]"] by (simp add: sh_text.simps(2) [of "CHR 0x5C"] SQ_def)
    then show ?thesis
      using sh_quoted [OF Cons.prems, of "CHR 0x5C # SQ # SQ # sq_escape v @ SQ # CHR 0x0A # r"] True by simp
  qed
qed

lemma sh_text_name:
  assumes "list_all (\<lambda>c. is_alnum_az c \<or> c = CHR ''_'' \<or> c = CHR ''='') k"
  shows "sh_text (k @ r) = map_option (\<lambda>(w, t). (k @ w, t)) (sh_text r)"
  using assms
proof (induction k)
  case Nil
  then show ?case by (cases "sh_text r") auto
next
  case (Cons ch k)
  have ch: "is_alnum_az ch \<or> ch = CHR ''_'' \<or> ch = CHR ''=''" using Cons.prems by simp
  then have n: "ch \<noteq> CHR 0x0A" "ch \<noteq> SQ" "ch \<noteq> CHR 0x5C" by (auto simp: SQ_def char_class_defs code_def)
  show ?case
    using Cons ch n by (cases "sh_text r") (auto simp: sh_text.simps(2) [of ch])
qed

lemma sh_exports_line:
  assumes "sh_identifier k"
  shows "sh_exports (export_line k v @ CHR 0x0A # r) = map_option (Cons (k, v)) (sh_exports r)"
proof -
  have "list_all (\<lambda>c. is_alnum_az c \<or> c = CHR ''_'' \<or> c = CHR ''='') (k @ ''='')"
    using assms by (auto simp: sh_identifier_def list_all_iff)
  from sh_text_name [OF this, of "SQ # sq_escape v @ SQ # CHR 0x0A # r"] sh_text_value [of "[]" v r]
  have t: "sh_text (k @ ''='' @ SQ # sq_escape v @ SQ # CHR 0x0A # r) = Some (k @ ''='' @ v, CHR 0x0A # r)" by simp
  have "CHR ''='' \<notin> set k" using assms by (auto simp: sh_identifier_def list_all_iff char_class_defs code_def)
  from partition_at_append [OF this, of v] have p: "partition_at CHR ''='' (k @ ''='' @ v) = (k, True, v)" by simp
  have e: "export_line k v @ CHR 0x0A # r = ''export '' @ k @ ''='' @ SQ # sq_escape v @ SQ # CHR 0x0A # r"
    by (simp add: export_line_def)
  show ?thesis
    unfolding e by (subst sh_exports.simps) (use t p assms in \<open>simp add: starts_with_def\<close>)
qed

text \<open>The key pattern is an identifier, but for a line feed it lets stand at the end.\<close>

lemma key_pattern:
  assumes "re_match VALID_ENV_KEY_RE k \<noteq> None" and "CHR 0x0A \<notin> set k"
  shows "sh_identifier k"
proof -
  let ?Q = "\<lambda>c. is_alnum_az c \<or> c = CHR ''_''"
  obtain x xs c' s' where k: "k = x # xs" "is_alpha_az x \<or> x = CHR ''_''"
    and r: "(c', s') \<in> set (succs (RCat (RStar (RCls ?Q)) REol) (Map.empty, xs))"
  proof -
    obtain st where "st \<in> set (succs VALID_ENV_KEY_RE (Map.empty, k))"
      using assms(1) unfolding re_match_Some_iff by (cases "succs VALID_ENV_KEY_RE (Map.empty, k)") auto
    then obtain x xs where "k = x # xs" "is_alpha_az x \<or> x = CHR ''_''"
      "st \<in> set (succs (RCat (RStar (RCls ?Q)) REol) (Map.empty, xs))"
      unfolding VALID_ENV_KEY_RE_def succs_cat_cls_iff by blast
    then show ?thesis using that by (cases st) blast
  qed
  from r obtain c1 s1 where s1: "(c1, s1) \<in> set (succs (RStar (RCls ?Q)) (Map.empty, xs))" and e: "(c', s') \<in> set (succs REol (c1, s1))"
    unfolding succs_cat_iff by blast
  from e have s2: "s1 = [] \<or> s1 = [CHR 0x0A]" by (simp add: succs.simps split: if_splits)
  then obtain u where u: "xs = u @ s1" "in_lang (RStar (RCls ?Q)) u" using succs_sound [OF _ s1] by auto
  then have "s1 = []" using s2 assms(2) k(1) by auto
  with u k show ?thesis by (auto simp: sh_identifier_def in_lang_star_cls list_all_iff is_alnum_az_def)
qed

lemma sh_exports_lines:
  assumes "ks \<noteq> []" and "list_all sh_identifier ks"
  shows "sh_exports (join_with LF (map (\<lambda>k. export_line k (f k)) ks) @ LF) = Some (map (\<lambda>k. (k, f k)) ks)"
  using assms
proof (induction ks rule: induct_list012)
  case (2 k)
  then show ?case using sh_exports_line [of k "f k" "[]"] by (simp add: LF_def sh_exports.simps [of "[]"])
next
  case (3 k l ks)
  then show ?case using sh_exports_line [of k "f k" "join_with LF (map (\<lambda>k. export_line k (f k)) (l # ks)) @ LF"]
    by (simp add: LF_def)
qed simp

lemma fs_len_bound: "fs_len s \<le> 2 * length s"
  by (induction s) (auto simp: fs_len_def)

lemma short_exportable: "CHR 0x00 \<notin> set k \<Longrightarrow> CHR 0x00 \<notin> set v \<Longrightarrow> length k + length v < 65535 \<Longrightarrow> is_exportable k v"
  using fs_len_bound [of k] fs_len_bound [of v] by (simp add: is_exportable_def MAX_ENV_STRING_BYTES_def)

definition bare_console :: console where
  "bare_console = \<lparr>lc_layout = sample_layout, lc_environ = [], lc_termux = False, lc_prefix = [], lc_home = [], lc_package = []\<rparr>"

text \<open>A shell that sources the profile snippet sets exactly the variables the snippet keeps, each to the value
  the session was given, whatever characters the values hold, when no kept name ends in a line feed.\<close>

theorem profile_snippet_roundtrip:
  assumes "snippet_keys env \<noteq> []" and "\<forall>k \<in> set (snippet_keys env). CHR 0x0A \<notin> set k"
  shows "sh_exports (snippet_text c False env) = Some (map (\<lambda>k. (k, case dict_get env k of Some v \<Rightarrow> v | None \<Rightarrow> [])) (snippet_keys env))"
proof -
  have "list_all sh_identifier (snippet_keys env)"
    using assms(2) key_pattern by (auto simp: list_all_iff snippet_keys_def)
  from sh_exports_lines [OF assms(1) this] show ?thesis by (simp add: snippet_text_def)
qed

theorem profile_snippet_roundtrip_witness:
  "sh_exports (snippet_text bare_console False [(''HOME'', ''/''), (''B'', [SQ] @ ''$(id)'' @ [CHR 0x0A]), (''A'', ''x'')])
     = Some [(''A'', ''x''), (''B'', [SQ] @ ''$(id)'' @ [CHR 0x0A])]"
proof -
  let ?env = "[(''HOME'', ''/''), (''B'', [SQ] @ ''$(id)'' @ [CHR 0x0A]), (''A'', ''x'')]"
  have s: "sort (map fst ?env) = [''A'', ''B'', ''HOME'']" "re_match VALID_ENV_KEY_RE ''A'' \<noteq> None" "re_match VALID_ENV_KEY_RE ''B'' \<noteq> None"
    "\<not> ''HOME'' \<notin> set PROFILE_INJECT_SKIP" "''A'' \<notin> set PROFILE_INJECT_SKIP" "''B'' \<notin> set PROFILE_INJECT_SKIP" by code_simp+
  have k: "snippet_keys ?env = [''A'', ''B'']"
    unfolding snippet_keys_def s(1) using s(2-6) by (simp add: dict_get_def short_exportable SQ_def)
  show ?thesis
    using profile_snippet_roundtrip [of ?env bare_console] unfolding k by (simp add: dict_get_def)
qed

definition line_feed_manifest :: json where
  "line_feed_manifest = JObj [(''image_config'', JObj [(''config'', JObj [(''Env'', JArr [JStr (''A'' @ LF @ ''=x'')])])])]"

definition line_feed_fs :: fs where
  "line_feed_fs = write_inode 1 \<lparr>fd_bytes = json_dumps line_feed_manifest, fd_mode = 420, fd_mtime = 0\<rparr>
     (sample_state [([''rt'', ''containers''], NDir 493 0), ([''rt'', ''containers'', ''deb''], NDir 493 0),
        ([''rt'', ''containers'', ''deb'', ''manifest.json''], NFile 1)])"

text \<open>An image can name a variable with a line feed at its end. The name passes every test, and the line the
  snippet gets for it is not an assignment: the shell reads the second half as a command of its own.\<close>

theorem newline_name_breaks_snippet:
  "image_env_pairs bare_console line_feed_fs ''deb'' = [(''A'' @ LF, ''x'')]
   \<and> snippet_text bare_console False [(''A'' @ LF, ''x'')] = ''export A'' @ LF @ ''='' @ [SQ] @ ''x'' @ [SQ] @ LF
   \<and> sh_exports (snippet_text bare_console False [(''A'' @ LF, ''x'')]) = None"
proof -
  have k: "''A'' @ LF \<notin> set PROFILE_INJECT_SKIP" "re_match VALID_ENV_KEY_RE (''A'' @ LF) \<noteq> None" "\<not> is_host_exec_var (''A'' @ LF)"
    "''A'' @ LF \<notin> set IMAGE_ENV_BLOCKED" "split_entry (''A'' @ LF @ ''=x'') = (''A'' @ LF, ''x'')" by code_simp+
  have e: "is_exportable (''A'' @ LF) ''x''" by (rule short_exportable) (simp_all add: LF_def)
  then have sk: "snippet_keys [(''A'' @ LF, ''x'')] = [''A'' @ LF]" using k by (simp add: snippet_keys_def dict_get_def)
  then have t: "snippet_text bare_console False [(''A'' @ LF, ''x'')] = ''export A'' @ LF @ ''='' @ [SQ] @ ''x'' @ [SQ] @ LF"
    by (simp add: snippet_text_def export_line_def dict_get_def LF_def) (simp add: SQ_def)
  have "sh_exports (''export A'' @ LF @ ''='' @ [SQ] @ ''x'' @ [SQ] @ LF) = None" by code_simp
  moreover have "read_manifest_env bare_console line_feed_fs ''deb'' = [''A'' @ LF @ ''=x'']"
  proof -
    have "open_container_manifest sample_layout line_feed_fs ''deb'' = Inr 1" by code_simp
    moreover have "json_loads_bytes (json_dumps line_feed_manifest) = Some line_feed_manifest" by code_simp
    moreover have "length (json_dumps line_feed_manifest) < 100" by code_simp
    ultimately have "read_container_manifest sample_layout line_feed_fs ''deb''
      = Some [(''image_config'', JObj [(''config'', JObj [(''Env'', JArr [JStr (''A'' @ LF @ ''=x'')])])])]"
      by (simp add: read_container_manifest_def line_feed_fs_def read_state_file_def MAX_STATE_JSON_BYTES_def line_feed_manifest_def)
    then show ?thesis
      by (simp add: read_manifest_env_def container_image_config_def manifest_image_config_def bare_console_def dict_get_def LF_def List.map_filter_simps)
  qed
  ultimately show ?thesis using k e t by (simp add: image_env_pairs_def)
qed

end
