(* ===== verification/Login_Print.thy ===== *)
theory Login_Print
  imports Login_Command Login_Env_Props
begin

text \<open>
  The command \<open>--get-proot-cmd\<close> prints, read back the way a POSIX shell reads it.
\<close>

subsection \<open>A shell\<close>

text \<open>
  The words of one command: blanks separate, a backslash joins lines or quotes a character, and double quotes
  hold text in which only the dollar sign, the backquote, the double quote and the backslash are special.
  \<open>cur\<close> is the word under way. \<open>None\<close> is text that asks for more than taking it literally: an expansion, a
  second command, a quote that is not closed.
\<close>

definition word_of :: "string option \<Rightarrow> string" where
  "word_of cur = (case cur of None \<Rightarrow> [] | Some w \<Rightarrow> w)"

definition add_char :: "string option \<Rightarrow> char \<Rightarrow> string option" where
  "add_char cur ch = Some (word_of cur @ [ch])"

definition finished :: "string option \<Rightarrow> string list" where
  "finished cur = (case cur of None \<Rightarrow> [] | Some w \<Rightarrow> [w])"

definition DQ_SPECIAL :: "char set" where
  "DQ_SPECIAL = {CHR ''$'', CHR ''`'', CHR 0x22, CHR 0x5C}"

fun sh_words :: "bool \<Rightarrow> string option \<Rightarrow> string \<Rightarrow> string list option" where
  "sh_words quoted cur [] = (if quoted then None else Some (finished cur))"
| "sh_words True cur (ch # s) =
     (if ch = CHR 0x22 then sh_words False cur s
      else if ch \<in> {CHR ''$'', CHR ''`''} then None
      else if ch = CHR 0x5C then
        (case s of
           [] \<Rightarrow> None
         | d # t \<Rightarrow> if d \<in> DQ_SPECIAL then sh_words True (add_char cur d) t
                    else if d = CHR 0x0A then sh_words True cur t else sh_words True (add_char cur ch) s)
      else sh_words True (add_char cur ch) s)"
| "sh_words False cur (ch # s) =
     (if ch = CHR 0x22 then sh_words True (Some (word_of cur)) s
      else if ch = CHR 0x5C then
        (case s of [] \<Rightarrow> None | d # t \<Rightarrow> if d = CHR 0x0A then sh_words False cur t else sh_words False (add_char cur d) t)
      else if ch = CHR '' '' then map_option (\<lambda>ws. finished cur @ ws) (sh_words False None s)
      else if ch = CHR 0x0A then (if s = [] then Some (finished cur) else None)
      else if is_safe_char ch then sh_words False (add_char cur ch) s
      else None)"

lemma safe_char_plain:
  "is_safe_char ch \<Longrightarrow> ch \<notin> {CHR 0x22, CHR 0x5C, CHR '' '', CHR 0x0A}"
proof
  have f: "\<not> is_safe_char CHR 0x22" "\<not> is_safe_char CHR 0x5C" "\<not> is_safe_char CHR '' ''" "\<not> is_safe_char CHR 0x0A" by code_simp+
  show "is_safe_char ch \<Longrightarrow> ch \<in> {CHR 0x22, CHR 0x5C, CHR '' '', CHR 0x0A} \<Longrightarrow> False" using f by auto
qed

lemma words_safe:
  "list_all is_safe_char v \<Longrightarrow> v \<noteq> [] \<Longrightarrow> sh_words False cur (v @ r) = sh_words False (Some (word_of cur @ v)) r"
proof (induction v arbitrary: cur)
  case (Cons ch v)
  have n: "ch \<notin> {CHR 0x22, CHR 0x5C, CHR '' '', CHR 0x0A}" using Cons.prems safe_char_plain by simp
  have s: "sh_words False cur ((ch # v) @ r) = sh_words False (add_char cur ch) (v @ r)" using n Cons.prems(1) by simp
  show ?case
  proof (cases "v = []")
    case False
    then show ?thesis unfolding s using Cons by (simp add: add_char_def word_of_def)
  next
    case True
    then show ?thesis unfolding s by (simp add: add_char_def)
  qed
qed simp

lemma words_quoted:
  "sh_words True cur (concat (map dq_char v) @ CHR 0x22 # r) = sh_words False (if v = [] then cur else Some (word_of cur @ v)) r"
proof (induction v arbitrary: cur)
  case (Cons ch v)
  have "sh_words True cur (dq_char ch @ t) = sh_words True (add_char cur ch) t" for t
    by (auto simp: dq_char_def DQ_SPECIAL_def)
  with Cons show ?case by (auto simp: add_char_def word_of_def)
qed simp

text \<open>A quoted value continues the word under way with exactly its characters.\<close>

lemma words_dq: "sh_words False cur (dq v @ r) = sh_words False (Some (word_of cur @ v)) r"
proof (cases "v \<noteq> [] \<and> list_all is_safe_char v")
  case True
  then show ?thesis using words_safe by (simp add: dq_def)
next
  case False
  then have "dq v = CHR 0x22 # concat (map dq_char v) @ [CHR 0x22]" unfolding dq_def dq_escape_map by auto
  then show ?thesis using words_quoted [of "Some (word_of cur)" v r] by (auto simp: word_of_def)
qed

lemma words_word:
  assumes "u \<noteq> []" and "list_all is_safe_char u"
  shows "sh_words False None (u @ dq v @ r) = sh_words False (Some (u @ v)) r"
  using words_safe [OF assms(2,1)] words_dq by (simp add: word_of_def)

definition word_break :: string where
  "word_break = '' '' @ [CHR 0x5C, CHR 0x0A] @ ''  ''"

lemma words_break: "sh_words False (Some w) (word_break @ r) = map_option (Cons w) (sh_words False None r)"
proof -
  have sp: "\<not> (CHR '' '' :: char) = CHR 0x22" "\<not> (CHR '' '' :: char) = CHR 0x5C" by simp_all
  have "sh_words False None (CHR '' '' # s) = sh_words False None s" for s
    by (cases "sh_words False None s") (simp_all add: finished_def)
  then show ?thesis by (cases "sh_words False None r") (simp_all add: word_break_def finished_def)
qed

text \<open>What a word of the command says, and the words that say it.\<close>

definition reads_as :: "string \<Rightarrow> string \<Rightarrow> bool" where
  "reads_as w v \<longleftrightarrow> (\<forall>r. sh_words False None (w @ r) = sh_words False (Some v) r)"

lemma words_line:
  assumes "list_all2 reads_as ws vs" and "ws \<noteq> []"
  shows "sh_words False None (join_with word_break ws @ [CHR 0x0A]) = Some vs"
  using assms
proof (induction ws vs rule: list_all2_induct)
  case (Cons w ws v vs)
  show ?case
  proof (cases ws)
    case Nil
    with Cons show ?thesis by (simp add: reads_as_def finished_def)
  next
    case (Cons w2 ws')
    have "sh_words False None (join_with word_break (w # ws) @ [CHR 0x0A])
      = sh_words False (Some v) (word_break @ join_with word_break ws @ [CHR 0x0A])"
      using Cons.hyps(1) Cons by (simp add: reads_as_def)
    also have "\<dots> = map_option (Cons v) (sh_words False None (join_with word_break ws @ [CHR 0x0A]))" by (rule words_break)
    also have "\<dots> = Some (v # vs)" using \<open>ws \<noteq> [] \<Longrightarrow> _\<close> Cons by simp
    finally show ?thesis .
  qed
qed simp

lemma identifier_safe: "sh_identifier k \<Longrightarrow> list_all is_safe_char (k @ ''='') \<and> k @ ''='' \<noteq> []"
  by (auto simp: sh_identifier_def list_all_iff is_safe_char_def)


definition sample_launch :: "vars \<Rightarrow> launch" where
  "sample_launch env = \<lparr>ln_bin = ''/bin/proot'', ln_argv = [''/bin/proot'', ''--rootfs=/r'', ''echo $HOME''], ln_env = env,
     ln_inner = [''echo $HOME''], ln_user = ''root'', ln_overlaps = []\<rparr>"


definition command_name_manifest :: json where
  "command_name_manifest = JObj [(''image_config'', JObj [(''config'', JObj [(''Env'', JArr [JStr ''$(id)=x''])])])]"

definition command_name_fs :: fs where
  "command_name_fs = write_inode 1 \<lparr>fd_bytes = json_dumps command_name_manifest, fd_mode = 420, fd_mtime = 0\<rparr>
     (sample_state [([''rt'', ''containers''], NDir 493 0), ([''rt'', ''containers'', ''deb''], NDir 493 0),
        ([''rt'', ''containers'', ''deb'', ''manifest.json''], NFile 1)])"

text \<open>Only the values are quoted. An image may name a variable \<open>$(id)\<close>; the name passes every test, and the printed
  command then holds a command substitution that the user's own shell would run.\<close>

theorem printed_name_is_not_quoted:
  "image_env_pairs bare_console command_name_fs ''deb'' = [(''$(id)'', ''x'')]
   \<and> command_words (sample_launch (image_env_pairs bare_console command_name_fs ''deb'')) ! 2 = ''$(id)=x''
   \<and> sh_words False None (command_text (sample_launch (image_env_pairs bare_console command_name_fs ''deb''))) = None"
proof -
  have "open_container_manifest sample_layout command_name_fs ''deb'' = Inr 1" by code_simp
  moreover have "json_loads_bytes (json_dumps command_name_manifest) = Some command_name_manifest" by code_simp
  moreover have "length (json_dumps command_name_manifest) < 100" by code_simp
  ultimately have "read_container_manifest sample_layout command_name_fs ''deb''
    = Some [(''image_config'', JObj [(''config'', JObj [(''Env'', JArr [JStr ''$(id)=x''])])])]"
    by (simp add: read_container_manifest_def command_name_fs_def read_state_file_def MAX_STATE_JSON_BYTES_def command_name_manifest_def)
  then have "read_manifest_env bare_console command_name_fs ''deb'' = [''$(id)=x'']"
    by (simp add: read_manifest_env_def container_image_config_def manifest_image_config_def bare_console_def dict_get_def List.map_filter_simps)
  moreover have "\<not> is_host_exec_var ''$(id)''" "''$(id)'' \<notin> set IMAGE_ENV_BLOCKED" "split_entry ''$(id)=x'' = (''$(id)'', ''x'')" by code_simp+
  moreover have "is_exportable ''$(id)'' ''x''" by (rule short_exportable) simp_all
  ultimately have e: "image_env_pairs bare_console command_name_fs ''deb'' = [(''$(id)'', ''x'')]" by (simp add: image_env_pairs_def)
  have "command_words (sample_launch [(''$(id)'', ''x'')]) ! 2 = ''$(id)=x''"
    "sh_words False None (command_text (sample_launch [(''$(id)'', ''x'')])) = None" by code_simp+
  with e show ?thesis by simp
qed

end
