(* ===== verification/Sysdata_Props.thy ===== *)
theory Sysdata_Props
  imports Sysdata
begin

text \<open>
  The stand-in files: what \<open>/proc/stat\<close> and \<open>/proc/uptime\<close> say agrees with itself, nothing outside the
  container's directory is written and no existing file changes, and what is bound is what was verified.
\<close>

subsection \<open>Contents\<close>

text \<open>How a tool reads the counters: the first word of a line is its name, the others are numbers.\<close>

definition line_name :: "string \<Rightarrow> string" where
  "line_name l = hd (split_ws l)"

definition line_numbers :: "string \<Rightarrow> nat list" where
  "line_numbers l = map dec_nat (tl (split_ws l))"

definition word_ok :: "string \<Rightarrow> bool" where
  "word_ok w \<longleftrightarrow> w \<noteq> [] \<and> list_all (\<lambda>c. \<not> is_space c) w"

lemma fold_word:
  "list_all (\<lambda>c. \<not> is_space c) w \<Longrightarrow> x # xs = foldr (\<lambda>c ws. if is_space c then [] # ws else (c # hd ws) # tl ws) s [[]] \<Longrightarrow>
     foldr (\<lambda>c ws. if is_space c then [] # ws else (c # hd ws) # tl ws) (w @ s) [[]] = (w @ x) # xs"
  by (induction w) auto

lemma foldr_words_nonempty: "foldr (\<lambda>c ws. if is_space c then [] # ws else (c # hd ws) # tl ws) s [[]] \<noteq> []"
  by (induction s) auto

lemma split_ws_word: "word_ok w \<Longrightarrow> split_ws w = [w]"
  using fold_word [of w "[]" "[]" "[]"] by (simp add: split_ws_def word_ok_def)

lemma split_ws_blank: "is_space c \<Longrightarrow> split_ws (c # s) = split_ws s"
  by (simp add: split_ws_def)

lemma split_ws_cons: "word_ok w \<Longrightarrow> is_space c \<Longrightarrow> split_ws (w @ c # s) = w # split_ws s"
proof -
  assume a: "word_ok w" "is_space c"
  have "foldr (\<lambda>c ws. if is_space c then [] # ws else (c # hd ws) # tl ws) (c # s) [[]]
    = [] # foldr (\<lambda>c ws. if is_space c then [] # ws else (c # hd ws) # tl ws) s [[]]" using a(2) by simp
  from fold_word [OF _ this [symmetric], of w] a show ?thesis by (simp add: split_ws_def word_ok_def)
qed

lemma space_space [simp]: "is_space CHR '' ''"
  by code_simp

lemma split_ws_row: "ws \<noteq> [] \<Longrightarrow> list_all word_ok ws \<Longrightarrow> split_ws (join_with '' '' ws) = ws"
proof (induction "'' ''" ws rule: join_with.induct)
  case (3 p q qs)
  then show ?case using split_ws_cons [of p "CHR '' ''" "join_with '' '' (q # qs)"] by simp
qed (simp_all add: split_ws_word)

lemma dec_not_space: "is_dec c \<Longrightarrow> \<not> is_space c"
  by (auto simp: char_class_defs)

lemma nat_str_word: "word_ok (nat_str n)"
  using nat_str_digits [of n] dec_not_space by (auto simp: word_ok_def list_all_iff)

lemma row_words: "r \<noteq> [] \<Longrightarrow> word_ok w \<Longrightarrow> split_ws (w @ CHR '' '' # row_text r) = w # map nat_str r"
  using split_ws_cons [of w "CHR '' ''" "row_text r"] split_ws_row [of "map nat_str r"]
  by (simp add: row_text_def list_all_iff nat_str_word)

lemma row_line: "r \<noteq> [] \<Longrightarrow> word_ok w \<Longrightarrow> line_name (w @ CHR '' '' # row_text r) = w \<and> line_numbers (w @ CHR '' '' # row_text r) = r"
  by (simp add: line_name_def line_numbers_def row_words map_idI nat_str_digits comp_def)

lemma total_line: "r \<noteq> [] \<Longrightarrow> line_name (''cpu  '' @ row_text r) = ''cpu'' \<and> line_numbers (''cpu  '' @ row_text r) = r"
proof -
  assume r: "r \<noteq> []"
  have w: "word_ok ''cpu''" by code_simp
  have "split_ws (''cpu'' @ CHR '' '' # CHR '' '' # row_text r) = ''cpu'' # split_ws (row_text r)"
    using split_ws_cons [OF w, of "CHR '' ''" "CHR '' '' # row_text r"] by (simp add: split_ws_blank)
  moreover have "split_ws (row_text r) = map nat_str r"
    using split_ws_row [of "map nat_str r"] r by (simp add: row_text_def list_all_iff nat_str_word)
  ultimately show ?thesis by (simp add: line_name_def line_numbers_def map_idI nat_str_digits comp_def)
qed

lemma cpu_word: "word_ok (''cpu'' @ nat_str n)"
  using nat_str_word [of n] by (simp add: word_ok_def) code_simp

lemma add_columns_nth:
  "length xs = m \<Longrightarrow> length ys = m \<Longrightarrow> length (add_columns xs ys) = m \<and> (\<forall>j < m. add_columns xs ys ! j = xs ! j + ys ! j)"
proof (induction xs ys arbitrary: m rule: add_columns.induct)
  case (1 x xs y ys)
  then show ?case by (cases m) (auto simp: nth_Cons split: nat.splits)
qed auto

lemma column_sums_nth:
  "rs \<noteq> [] \<Longrightarrow> list_all (\<lambda>r. length r = m) rs \<Longrightarrow>
     length (column_sums rs) = m \<and> (\<forall>j < m. column_sums rs ! j = sum_list (map (\<lambda>r. r ! j) rs))"
proof (induction rs rule: column_sums.induct)
  case (3 r q rs)
  then show ?case using add_columns_nth [of r m "column_sums (q # rs)"] by simp
qed auto

lemma cpu_rows_facts:
  "map fst (cpu_rows cpus) = (if cpus = [] then [0] else cpus)" "list_all (\<lambda>r. length r = 10) (map snd (cpu_rows cpus))"
  "cpu_rows cpus \<noteq> []"
proof -
  have "list_all (\<lambda>r. length r = 10) FAKE_CPU_ROWS" "FAKE_CPU_ROWS \<noteq> []" by (simp_all add: FAKE_CPU_ROWS_def)
  then have n: "length (FAKE_CPU_ROWS ! (n mod length FAKE_CPU_ROWS)) = 10" for n by (auto simp: list_all_iff)
  show "list_all (\<lambda>r. length r = 10) (map snd (cpu_rows cpus))"
    using n n [of 0] by (auto simp: cpu_rows_def Let_def list_all_iff)
  have "map fst (map (\<lambda>(n, cpu). (cpu, f n)) (enumerate k xs)) = xs" for k f and xs :: "nat list"
    by (induction xs arbitrary: k) auto
  then show "map fst (cpu_rows cpus) = (if cpus = [] then [0] else cpus)" by (simp only: cpu_rows_def Let_def)
  then show "cpu_rows cpus \<noteq> []" by (cases "cpu_rows cpus") (auto split: if_splits)
qed

lemma in_join: "x \<in> set (join_with sep ws) \<Longrightarrow> x \<in> set sep \<or> (\<exists>w \<in> set ws. x \<in> set w)"
  by (induction sep ws rule: join_with.induct) auto

lemma split_lines:
  "ps \<noteq> [] \<Longrightarrow> \<forall>p \<in> set ps. c \<notin> set p \<Longrightarrow> split_on c (join_with [c] ps @ c # s) = ps @ split_on c s"
  by (induction "[c]" ps rule: join_with.induct) (simp_all add: split_on_append)

text \<open>The processor lines of the stand-in for \<open>/proc/stat\<close> are those of the given processors, its first line is
  the sum of them column by column, and the idle time of the stand-in for \<open>/proc/uptime\<close> is the idle column of
  that line.\<close>

theorem fake_stat_consistent:
  "let ls = split_on CHR 0x0A (fake_stat cpus); ids = (if cpus = [] then [0] else cpus); rows = take (length ids) (tl ls)
   in map line_name (take (Suc (length ids)) ls) = ''cpu'' # map (\<lambda>i. ''cpu'' @ nat_str i) ids
      \<and> line_numbers (hd ls) = map (\<lambda>j. sum_list (map (\<lambda>l. line_numbers l ! j) rows)) [0..<10]
      \<and> fake_uptime cpus = FAKE_UPTIME_SECONDS @ '' '' @ hundredths (line_numbers (hd ls) ! IDLE_COLUMN) @ LF1"
proof -
  let ?rows = "cpu_rows cpus"
  let ?tot = "''cpu  '' @ row_text (column_sums (map snd ?rows))"
  let ?line = "\<lambda>(cpu, r). ''cpu'' @ nat_str cpu @ '' '' @ row_text r"
  let ?ls = "?tot # map ?line ?rows"
  note f = cpu_rows_facts [of cpus]
  have len: "length r = 10" if "r \<in> set (map snd ?rows)" for r using f(2) that unfolding list_all_iff by blast
  have ne: "map snd ?rows \<noteq> []" using f(3) by simp
  note cs = column_sums_nth [OF ne f(2)]
  have tot: "line_name ?tot = ''cpu'' \<and> line_numbers ?tot = column_sums (map snd ?rows)"
    using cs by (intro total_line) auto
  have line: "line_name (?line cr) = ''cpu'' @ nat_str (fst cr) \<and> line_numbers (?line cr) = snd cr" if "cr \<in> set ?rows" for cr
  proof -
    have "snd cr \<noteq> []" using len [of "snd cr"] that by auto
    from row_line [OF this cpu_word, of "fst cr"] show ?thesis by (cases cr) simp
  qed
  have num: "CHR 0x0A \<notin> set (nat_str n)" for n
    using nat_str_digits [of n] by (auto simp: list_all_iff is_dec_def in_range_def code_def)
  then have "CHR 0x0A \<notin> set (row_text r)" for r by (auto simp: row_text_def dest!: in_join)
  with num have free: "\<forall>l \<in> set ?ls. CHR 0x0A \<notin> set l" by (auto split: prod.splits)
  have split: "split_on CHR 0x0A (fake_stat cpus) = ?ls @ split_on CHR 0x0A FAKE_STAT_TAIL"
    using split_lines [OF _ free, of FAKE_STAT_TAIL] by (simp add: fake_stat_def Let_def LF1_def)
  let ?ids = "if cpus = [] then [0] else cpus"
  have n: "length ?ids = length ?rows" using f(1) by (metis length_map)
  have rows: "take (length ?ids) (tl (split_on CHR 0x0A (fake_stat cpus))) = map ?line ?rows"
    unfolding split n by simp
  have "map line_name (map ?line ?rows) = map (\<lambda>i. ''cpu'' @ nat_str i) (map fst ?rows)"
    unfolding map_map comp_def using line by (intro map_cong refl) blast
  then have names: "map line_name (take (Suc (length ?ids)) (split_on CHR 0x0A (fake_stat cpus))) = ''cpu'' # map (\<lambda>i. ''cpu'' @ nat_str i) ?ids"
    unfolding split n f(1) using tot by simp
  have hd: "line_numbers (hd (split_on CHR 0x0A (fake_stat cpus))) = column_sums (map snd ?rows)"
    unfolding split using tot by simp
  have nums: "map (\<lambda>l. line_numbers l ! j) (map ?line ?rows) = map (\<lambda>r. r ! j) (map snd ?rows)" for j
    unfolding map_map comp_def using line by (intro map_cong refl) metis
  have "column_sums (map snd ?rows) = map (\<lambda>j. sum_list (map (\<lambda>l. line_numbers l ! j) (map ?line ?rows))) [0..<10]"
    unfolding nums using cs by (intro nth_equalityI) auto
  moreover have "column_sums (map snd ?rows) ! IDLE_COLUMN = sum_list (map (\<lambda>(c, r). r ! IDLE_COLUMN) ?rows)"
    using cs by (simp add: IDLE_COLUMN_def comp_def case_prod_unfold)
  ultimately show ?thesis
    unfolding Let_def rows hd using names by (simp add: fake_uptime_def)
qed

subsection \<open>Links\<close>

text \<open>The number of links of an inode is the number of its paths, so a plain file with one link has one name.\<close>

lemma nlink_paths: "wf_fs s \<Longrightarrow> nlink s i = card {p. node_at s p = Some (NFile i)}"
proof -
  assume wf: "wf_fs s"
  have d: "distinct (map fst (f_ents s))" using wf_fsD(2) [OF wf] .
  let ?es = "filter (\<lambda>(p, n). n = NFile i) (f_ents s)"
  have "{p. node_at s p = Some (NFile i)} = fst ` set ?es"
    using d by (force simp: node_at_def dict_get_def map_of_eq_Some_iff)
  moreover have "distinct (map fst ?es)" using d by (rule distinct_map_filter)
  moreover have "card (fst ` set ?es) = length ?es" if "distinct (map fst ?es)" using distinct_card [OF that] by simp
  ultimately show ?thesis by (simp add: nlink_def)
qed

definition sole_name :: "fs \<Rightarrow> path \<Rightarrow> bool" where
  "sole_name s p \<longleftrightarrow> (\<exists>i. node_at s p = Some (NFile i) \<and> (\<forall>q. node_at s q = Some (NFile i) \<longrightarrow> q = p))"

lemma own_sole: "wf_fs s \<Longrightarrow> node_at s p = Some st \<Longrightarrow> is_own_file s st \<longleftrightarrow> sole_name s p"
proof (cases st)
  case (NFile i)
  assume a: "wf_fs s" "node_at s p = Some st"
  have p: "p \<in> {q. node_at s q = Some (NFile i)}" using a(2) NFile by simp
  have "card S = 1 \<longleftrightarrow> S = {p}" if "p \<in> S" for S :: "path set"
  proof
    assume "card S = 1"
    then obtain x where "S = {x}" by (rule card_1_singletonE)
    with that show "S = {p}" by simp
  qed simp
  from this [OF p] have "nlink s i = 1 \<longleftrightarrow> {q. node_at s q = Some (NFile i)} = {p}" unfolding nlink_paths [OF a(1)] .
  also have "\<dots> \<longleftrightarrow> (\<forall>q. node_at s q = Some (NFile i) \<longrightarrow> q = p)" using p by blast
  finally show ?thesis using a(2) NFile by (simp add: is_own_file_def sole_name_def)
qed (auto simp: is_own_file_def sole_name_def)

text \<open>C25. Whatever a guest has left in the directory, what is bound over an entry of \<open>/proc\<close> is a plain file of the
  container's own directory that has no other name anywhere, so no file of the host under a second name; and it
  is bound only where the host's file cannot be read.\<close>

theorem bound_files_are_private:
  assumes "wf_fs s" and "(p, real) \<in> set (sysdata_binds readable s container)"
  shows "prefix (container @ [''sysdata'']) p
    \<and> (sole_name s p \<and> \<not> readable real \<or> is_dir s p \<and> real = ''/sys/fs/selinux'')"
proof -
  obtain d where d: "fst (descend_at False s container [''sysdata'']) = Inr d"
    using assms(2) by (cases "fst (descend_at False s container [''sysdata''])") (auto simp: sysdata_binds_def)
  have "plain_name ''sysdata''" by code_simp
  then have dd: "d = container @ [''sysdata'']"
    using d open_level_dir [of False s container "''sysdata''" d] by (cases "open_level False s container ''sysdata''") (auto simp: at_plain)
  have names: "list_all (\<lambda>(n, r, c). plain_name n) FAKE_ENTRIES" "plain_name ''sys_empty''" by (simp_all add: FAKE_ENTRIES_def plain_name_def)
  consider (empty) "accepts_at s d ''sys_empty'' is_dir_node" "p = container @ [''sysdata'', ''sys_empty'']" "real = ''/sys/fs/selinux''"
    | (entry) name content where "(name, real, content) \<in> set FAKE_ENTRIES" "\<not> readable real" "accepts_at s d name (is_own_file s)"
        "p = container @ [''sysdata'', name]"
    using assms(2) d by (auto simp: sysdata_binds_def map_filter_def split: if_splits)
  then show ?thesis
  proof cases
    case empty
    then show ?thesis using names(2) dd by (auto simp: accepts_at_def lstat_at_def at_plain is_dir_def split: option.splits)
  next
    case entry
    then have "plain_name name" using names(1) by (auto simp: list_all_iff)
    then have "sole_name s p" using entry(3,4) own_sole [OF assms(1), of p] dd
      by (auto simp: accepts_at_def lstat_at_def at_plain split: option.splits)
    with entry show ?thesis by auto
  qed
qed

definition planted_state :: fs where
  "planted_state = sample_state [([''rt'', ''sysdata''], NDir 448 0), ([''rt'', ''sysdata'', ''version''], NFile 1),
     ([''rt'', ''sysdata'', ''vmstat''], NFile 2), ([''host''], NFile 2)]"

theorem bound_files_are_private_witness:
  "sysdata_binds (\<lambda>p. False) planted_state [''rt''] = [([''rt'', ''sysdata'', ''version''], ''/proc/version'')]
   \<and> sole_name planted_state [''rt'', ''sysdata'', ''version'']"
proof -
  have wf: "wf_fs planted_state" by code_simp
  have b: "sysdata_binds (\<lambda>p. False) planted_state [''rt''] = [([''rt'', ''sysdata'', ''version''], ''/proc/version'')]"
  proof -
    have d: "fst (descend_at False planted_state [''rt''] [''sysdata'']) = Inr [''rt'', ''sysdata'']" by code_simp
    have a: "map (\<lambda>n. accepts_at planted_state [''rt'', ''sysdata''] n (is_own_file planted_state))
        [''loadavg'', ''stat'', ''uptime'', ''version'', ''vmstat'', ''sysctl_entry_cap_last_cap'', ''sysctl_inotify_max_user_watches'',
         ''sysctl_kernel_overflowuid'', ''sysctl_kernel_overflowgid'']
      = [False, False, False, True, False, False, False, False, False]" by code_simp
    have e: "\<not> accepts_at planted_state [''rt'', ''sysdata''] ''sys_empty'' is_dir_node" by code_simp
    show ?thesis using a e unfolding sysdata_binds_def d sum.case FAKE_ENTRIES_def by (simp add: List.map_filter_simps)
  qed
  with bound_files_are_private [OF wf, of "[''rt'', ''sysdata'', ''version'']" "''/proc/version''" "\<lambda>p. False" "[''rt'']"]
  show ?thesis by auto
qed

subsection \<open>Writing is confined\<close>

lemma safe_fresh_write: "f_next s \<le> i \<Longrightarrow> safe_step r s t \<Longrightarrow> safe_step r s (write_inode i x t)"
  unfolding safe_step_def keeps_bytes_def by (auto simp: ft.beyond_def)

lemma safe_create_with: "plain_name n \<Longrightarrow> prefix r d \<Longrightarrow> safe_step r s (create_with c s d n)"
  using safe_create(1,2) [of s d n 420 _ _ r] by (auto simp: create_with_def split: sum.splits intro!: safe_fresh_write)

lemma safe_write_if_missing: "plain_name n \<Longrightarrow> prefix r d \<Longrightarrow> safe_step r s (write_if_missing c s d n)"
  by (auto simp: write_if_missing_def split: sum.splits intro: safe_create_with safe_trans [OF safe_unlink])

lemma safe_write_current:
  assumes "plain_name n" and "plain_name (temp_name n rnd)" and "prefix r d"
  shows "safe_step r s (write_current rnd c s d n)"
proof (cases "holds s d n c \<or> (\<exists>e. open_new_at s d (temp_name n rnd) 420 = Inl e)")
  case False
  then obtain i t where o1: "open_new_at s d (temp_name n rnd) 420 = Inr (i, t)" and h: "\<not> holds s d n c"
    by (cases "open_new_at s d (temp_name n rnd) 420") auto
  let ?u = "write_inode i ((f_data t i)\<lparr>fd_bytes := c\<rparr>) t"
  let ?v = "case replace_entry ?u d (temp_name n rnd) n of Inl e \<Rightarrow> ?u | Inr v \<Rightarrow> v"
  note f = safe_open_new [OF o1 assms(2,3)]
  have u: "safe_step r s ?u" using f(1,2) by (rule safe_fresh_write [rotated])
  have "\<not> is_dir ?u (d @ [temp_name n rnd])" using f(3) by (simp add: is_dir_def)
  then have "safe_step r ?u ?v" using assms by (auto split: sum.splits intro: safe_replace)
  with u have "safe_step r s ?v" by (rule safe_trans)
  then have "safe_step r s (unlink_quietly ?v d (temp_name n rnd))"
    using assms(2,3) by (rule safe_trans [OF _ safe_unlink_quietly])
  with o1 h show ?thesis by (simp add: write_current_def Let_def)
qed (auto simp: write_current_def Let_def)

lemma safe_opened:
  assumes "opendir_at s d n = Inr p" and "opened_dir mo s p = (res, t)" and "plain_name n" and "prefix r d"
  shows "safe_step r s t \<and> (\<forall>p. res = Some p \<longrightarrow> p = d @ [n] \<and> is_dir t p)"
proof -
  have p: "p = d @ [n]" "is_dir s p"
    using assms(1,3) by (auto simp: opendir_at_def at_plain is_dir_def split: option.splits node.splits)
  have "is_dir (chmod_dir_fd s p m) p" for m
    using p(2) by (auto simp: chmod_dir_fd_def is_dir_def split: option.splits node.splits)
  moreover have "prefix r p" using p(1) assms(4) by simp
  ultimately show ?thesis using safe_chmod_dir [of r p s] assms(2) p by (cases mo) (auto simp: opened_dir_def)
qed

lemma safe_make_dir:
  assumes "make_dir_at mo s d n = (res, t)" and "plain_name n" and "prefix r d"
  shows "safe_step r s t \<and> (\<forall>p. res = Some p \<longrightarrow> p = d @ [n] \<and> is_dir t p)"
proof (cases "mkdir_at s d n 493")
  case (Inl e)
  show ?thesis
  proof (cases "opendir_at s d n")
    case (Inr p)
    with Inl safe_opened [OF Inr _ assms(2,3), of mo res t] assms(1) show ?thesis by (auto simp: make_dir_at_def split: if_splits)
  qed (use Inl assms(1) in \<open>auto simp: make_dir_at_def split: if_splits\<close>)
next
  case (Inr u)
  note su = safe_mkdir [OF Inr assms(3)]
  show ?thesis
  proof (cases "opendir_at u d n")
    case (Inr p)
    with \<open>mkdir_at s d n 493 = Inr u\<close> assms(1) have "opened_dir mo u p = (res, t)" by (simp add: make_dir_at_def)
    from safe_opened [OF Inr this assms(2,3)] su show ?thesis by (auto intro: safe_trans)
  qed (use Inr assms(1) su in \<open>auto simp: make_dir_at_def\<close>)
qed

lemma safe_ensure:
  assumes "ensure_dir_at mo s d n = (res, t)" and "plain_name n" and "prefix r d"
  shows "safe_step r s t \<and> (\<forall>p. res = Some p \<longrightarrow> p = d @ [n] \<and> is_dir t p)"
proof (cases "opendir_at s d n")
  case (Inr p)
  with safe_opened [OF Inr _ assms(2,3)] assms(1) show ?thesis by (simp add: ensure_dir_at_def)
next
  case (Inl e)
  show ?thesis
  proof (cases "e = ENOENT")
    case True
    with Inl safe_make_dir [OF _ assms(2,3)] assms(1) show ?thesis by (simp add: ensure_dir_at_def)
  next
    case False
    show ?thesis
    proof (cases "unlink_at s d n")
      case (Inr u)
      with Inl False assms(1) have "make_dir_at mo u d n = (res, t)" by (simp add: ensure_dir_at_def)
      from safe_make_dir [OF this assms(2,3)] safe_unlink [OF Inr assms(2,3)] show ?thesis by (auto intro: safe_trans)
    qed (use Inl False assms(1) in \<open>auto simp: ensure_dir_at_def\<close>)
  qed
qed

lemma entries_plain: "list_all (\<lambda>(n, r, c). plain_name n) FAKE_ENTRIES"
  by (simp add: FAKE_ENTRIES_def plain_name_def)

lemma safe_write_entries:
  "list_all (\<lambda>(n, r, c). plain_name n) es \<Longrightarrow> CHR ''/'' \<notin> set rnd \<Longrightarrow> 2 < length rnd \<Longrightarrow> prefix r d \<Longrightarrow>
     safe_step r s (fold (write_entry rnd cpus d) es s)"
proof (induction es arbitrary: s)
  case (Cons e es)
  obtain n real c where e: "e = (n, real, c)" by (cases e) auto
  with Cons.prems have n: "plain_name n" by simp
  then have "CHR ''/'' \<notin> set n" by (simp add: plain_name_def)
  then have tmp: "plain_name (temp_name n rnd)" using Cons.prems(2,3) by (intro temp_name_plain)
  have "safe_step r s (write_entry rnd cpus d e s)"
    using n tmp Cons.prems(4) e by (cases c) (simp_all add: write_entry_def safe_write_if_missing safe_write_current)
  with Cons show ?case by (auto intro: safe_trans)
qed simp

text \<open>Making the directory and its files changes nothing outside the container and no file that existed.\<close>

lemma safe_setup:
  assumes "CHR ''/'' \<notin> set rnd" and "2 < length rnd"
  shows "safe_step container s (setup_fake_sysdata rnd cpus s container)"
proof -
  have n: "plain_name ''sysdata''" "plain_name ''sys_empty''" by code_simp+
  obtain res t where e: "ensure_dir_at (Some 448) s container ''sysdata'' = (res, t)" by (cases "ensure_dir_at (Some 448) s container ''sysdata''")
  note f = safe_ensure [OF e n(1) prefix_order.refl]
  show ?thesis
  proof (cases res)
    case None
    with e f show ?thesis by (simp add: setup_fake_sysdata_def)
  next
    case (Some d)
    with f have d: "prefix container d" by simp
    obtain r2 u where e2: "ensure_dir_at None t d ''sys_empty'' = (r2, u)" by (cases "ensure_dir_at None t d ''sys_empty''")
    have "safe_step container t u" using safe_ensure [OF e2 n(2) d] by blast
    moreover have "safe_step container u (fold (write_entry rnd cpus d) FAKE_ENTRIES u)"
      using entries_plain assms d by (rule safe_write_entries)
    ultimately show ?thesis using f e e2 Some by (auto simp: setup_fake_sysdata_def intro: safe_trans)
  qed
qed

end
