(* ===== verification/Container_Props.thy ===== *)
theory Container_Props
  imports Container_State Names_Quoting
begin

text \<open>
  Where a container's directories are: a valid name has one path below the runtime directory, and opening it
  answers with that path and with a directory, nothing else.
\<close>

subsection \<open>The container's directory\<close>

definition container_path :: "layout \<Rightarrow> string \<Rightarrow> path" where
  "container_path l name = names_of (lo_runtime l) @ [''containers'', name]"

lemma valid_name_plain: "is_valid_name n \<Longrightarrow> plain_name n"
proof -
  have slash: "\<not> is_alnum_az CHR ''/''" and dot: "\<not> is_alnum_az CHR ''.''" by code_simp+
  assume v: "is_valid_name n"
  then have "n \<noteq> []" "is_alnum_az (hd n)" "CHR ''/'' \<notin> set n"
    unfolding valid_name_iff by (auto dest: bspec simp: slash)
  moreover from this(2) have "n \<noteq> ''.''" "n \<noteq> ''..''" using dot by auto
  ultimately show ?thesis by (simp add: plain_name_def)
qed

lemma split_container_dir:
  assumes "good_layout l" and "is_valid_name name"
  shows "py_normpath (container_dir l name) = ''/'' @ join_with ''/'' (container_path l name)"
    and "list_all plain_name (container_path l name)"
proof -
  have "good_root (lo_runtime l)" using assms(1) by (simp add: good_layout_def)
  note g = good_root_names [OF this]
  have p: "list_all plain_name [''containers'', name]" using valid_name_plain [OF assms(2)] by (simp add: plain_name_def)
  have "container_dir l name = rejoin (lo_runtime l) [''containers'', name]"
    by (simp add: container_dir_def containers_dir_def rejoin_def)
  also have "\<dots> = ''/'' @ join_with ''/'' (container_path l name)"
    using rejoin_normal [OF g(1,2) p] g(5) by (simp add: container_path_def)
  finally have e: "container_dir l name = \<dots>" .
  show pl: "list_all plain_name (container_path l name)" using g(1) p by (simp add: container_path_def)
  show "py_normpath (container_dir l name) = ''/'' @ join_with ''/'' (container_path l name)"
    unfolding e by (rule normpath_normal [OF pl])
qed

lemma open_level_keeps: "open_level False s d n = (res, t) \<Longrightarrow> t = s"
  by (auto simp: open_level_def split: sum.splits)

lemma state_walk_keeps: "state_walk False s d ns = (res, t) \<Longrightarrow> t = s"
  by (induction False s d ns arbitrary: res t rule: state_walk.induct) (auto split: prod.splits sum.splits dest: open_level_keeps)

lemma open_state_found:
  assumes "open_state_dir l False s p = (res, t)"
  shows "t = s" and "good_layout l \<Longrightarrow> res = Inr d \<Longrightarrow> d = names_of (py_normpath p) \<and> is_dir s d"
proof -
  have *: "t = s \<and> (good_layout l \<longrightarrow> (\<forall>d. res = Inr d \<longrightarrow> d = names_of (py_normpath p) \<and> is_dir s d))"
  proof (cases "split_state_path l p")
    case None
    with assms show ?thesis by (auto simp: open_state_dir_def)
  next
    case (Some rp)
    then obtain root parts where rp: "split_state_path l p = Some (root, parts)" by (cases rp) auto
    obtain o1 u1 where "open_root False s (names_of root) = (o1, u1)" by (cases "open_root False s (names_of root)")
    then have o1: "open_root False s (names_of root) = (o1, s)" "o1 = Inr r \<Longrightarrow> r = names_of root \<and> is_dir s r" for r
      by (auto simp: open_root_def is_dir_def split: option.splits if_splits)
    show ?thesis
    proof (cases o1)
      case (Inl e)
      with assms rp o1 show ?thesis by (auto simp: open_state_dir_def)
    next
      case (Inr r)
      obtain o2 u where w: "state_walk False s (names_of root) parts = (o2, u)" by (cases "state_walk False s (names_of root) parts")
      from w have u: "u = s" by (rule state_walk_keeps)
      have r: "t = s \<and> (\<forall>d. res = Inr d \<longrightarrow> o2 = Inr d)" using assms rp o1 Inr w u by (auto simp: open_state_dir_def split: sum.splits)
      have "d = names_of (py_normpath p) \<and> is_dir s d" if "good_layout l" "o2 = Inr d" for d
      proof -
        note sp = state_split(2,3) [OF that(1) rp]
        have "d = names_of root @ parts" using state_walk_safe [OF w sp(1) prefix_order.refl] that(2) by auto
        moreover have "is_dir s (names_of root @ take (length parts) parts)"
          using state_walk_dirs [OF w [unfolded that(2) u] sp(1), of "length parts"] o1(2) [OF Inr] by auto
        ultimately show ?thesis using sp(2) by simp
      qed
      with r show ?thesis by blast
    qed
  qed
  then show "t = s" "good_layout l \<Longrightarrow> res = Inr d \<Longrightarrow> d = names_of (py_normpath p) \<and> is_dir s d" by blast+
qed

lemma split_rootfs_dir:
  assumes "good_layout l" and "is_valid_name name"
  shows "names_of (py_normpath (container_rootfs l name)) = container_path l name @ [''rootfs'']"
    and "py_normpath (container_rootfs l name) = ''/'' @ join_with ''/'' (container_path l name @ [''rootfs''])"
proof -
  have "good_root (lo_runtime l)" using assms(1) by (simp add: good_layout_def)
  note g = good_root_names [OF this]
  have p: "list_all plain_name [''containers'', name, ''rootfs'']" using valid_name_plain [OF assms(2)] by (simp add: plain_name_def)
  have "container_rootfs l name = rejoin (lo_runtime l) [''containers'', name, ''rootfs'']"
    by (simp add: container_rootfs_def container_dir_def containers_dir_def rejoin_def)
  also have "\<dots> = ''/'' @ join_with ''/'' (container_path l name @ [''rootfs''])"
    using rejoin_normal [OF g(1,2) p] g(5) by (simp add: container_path_def)
  finally have e: "container_rootfs l name = \<dots>" .
  have pl: "list_all plain_name (container_path l name @ [''rootfs''])" using g(1) p by (simp add: container_path_def)
  show n: "py_normpath (container_rootfs l name) = ''/'' @ join_with ''/'' (container_path l name @ [''rootfs''])"
    unfolding e by (rule normpath_normal [OF pl])
  show "names_of (py_normpath (container_rootfs l name)) = container_path l name @ [''rootfs'']"
    unfolding n using names_of_join [OF pl] by simp
qed

lemma rootfs_opened:
  assumes "open_container_rootfs l False s name = (res, t)"
  shows "t = s" and "good_layout l \<Longrightarrow> is_valid_name name \<Longrightarrow> res = Inr r \<Longrightarrow> r = container_path l name @ [''rootfs''] \<and> is_dir s r"
proof -
  obtain o1 u where o1: "open_state_dir l False s (container_rootfs l name) = (o1, u)"
    by (cases "open_state_dir l False s (container_rootfs l name)")
  note f = open_state_found [OF o1]
  show "t = s" using assms o1 f
    by (auto simp: open_container_rootfs_def open_container_path_def split: sum.splits state_error.splits)
  assume "good_layout l" "is_valid_name name" "res = Inr r"
  then show "r = container_path l name @ [''rootfs''] \<and> is_dir s r"
    using assms o1 f(2) split_rootfs_dir(1) [of l name]
    by (auto simp: open_container_rootfs_def open_container_path_def split: sum.splits state_error.splits)
qed

lemma container_opened:
  assumes "open_container_pair l False s name = (res, t)"
  shows "t = s" and "good_layout l \<Longrightarrow> is_valid_name name \<Longrightarrow> res = Inr (c, r) \<Longrightarrow>
    c = container_path l name \<and> r = c @ [''rootfs'']"
proof -
  obtain o1 u where o1: "open_state_dir l False s (container_dir l name) = (o1, u)"
    by (cases "open_state_dir l False s (container_dir l name)")
  note f = open_state_found [OF o1]
  have "plain_name ''rootfs''" by code_simp
  then show "t = s" "good_layout l \<Longrightarrow> is_valid_name name \<Longrightarrow> res = Inr (c, r) \<Longrightarrow> c = container_path l name \<and> r = c @ [''rootfs'']"
    using assms o1 f split_container_dir [of l name] names_of_join [of "container_path l name"]
    by (auto simp: open_container_pair_def open_container_dir_def open_container_path_def opendir_at_def at_plain
        split: sum.splits state_error.splits option.splits node.splits)
qed

end
