(* ===== verification/Login_Props.thy ===== *)
theory Login_Props
  imports Login_Command Login_Env_Props Sysdata_Props Container_Props
begin

text \<open>
  What a login may touch, which variables it hands on, which parts of the host it binds, and where text of the
  container reaches a command line.
\<close>

subsection \<open>A container, for examples\<close>

definition sample_view :: hostview where
  "sample_view = \<lparr>hv_real = (\<lambda>p. None), hv_dir_mode = (\<lambda>p. None), hv_file = (\<lambda>p. False), hv_readable = (\<lambda>p. False),
     hv_executable = (\<lambda>p. False), hv_exists = (\<lambda>p. False), hv_lexists = (\<lambda>p. True),
     hv_which = (\<lambda>n. if n = ''proot'' then Some ''/bin/proot'' else None), hv_machine = ''x86_64'', hv_linux32 = True, hv_cwd = ''/'',
     hv_std_open = (\<lambda>i. True)\<rparr>"

definition sample_setting :: "bool \<Rightarrow> (string \<times> string) list \<Rightarrow> setting" where
  "sample_setting termux env =
     \<lparr>st_console = \<lparr>lc_layout = sample_layout, lc_environ = env, lc_termux = termux, lc_prefix = ''/usr'', lc_home = ''/home'',
        lc_package = ''com.termux''\<rparr>,
      st_host = sample_view, st_l2s = no_l2s, st_cpus = [0], st_rnd = ''.7.tmp''\<rparr>"

definition sample_args :: "string list \<Rightarrow> string list \<Rightarrow> login_args" where
  "sample_args binds env =
     \<lparr>la_user = [], la_kernel = [], la_hostname = [], la_work_dir = [], la_redirect_ports = False, la_isolated = True,
      la_minimal = False, la_shared_home = False, la_shared_tmp = False, la_shared_x11 = False, la_no_link2symlink = False,
      la_no_sysvipc = False, la_no_kill_on_exit = False, la_bind = binds, la_env = env, la_cmd = [], la_run_inner = Some [''/bin/sh''],
      la_emulator = [], la_show = False\<rparr>"

definition sample_containers :: "(path \<times> node) list \<Rightarrow> fs" where
  "sample_containers es = sample_state ([([''rt'', ''containers''], NDir 493 0), ([''rt'', ''containers'', ''deb''], NDir 493 0),
     ([''rt'', ''containers'', ''deb'', ''rootfs''], NDir 493 0)] @ es)"

lemma sample_login_good:
  "good_layout (lc_layout (st_console (sample_setting tm env)))" "is_valid_name ''deb''"
  "plain_name (lc_package (st_console (sample_setting tm env)))" "CHR ''/'' \<notin> set (st_rnd (sample_setting tm env))"
  "2 < length (st_rnd (sample_setting tm env))" "starts_with ''/'' (hv_cwd (st_host (sample_setting tm env)))"
  "container_path (lc_layout (st_console (sample_setting tm env))) ''deb'' = [''rt'', ''containers'', ''deb'']"
proof -
  have n: "names_of ''/rt'' = [''rt'']" "is_valid_name ''deb''" "plain_name ''com.termux''" "starts_with ''/'' ''/''" by code_simp+
  then show "good_layout (lc_layout (st_console (sample_setting tm env)))" "is_valid_name ''deb''"
    "plain_name (lc_package (st_console (sample_setting tm env)))" "CHR ''/'' \<notin> set (st_rnd (sample_setting tm env))"
    "2 < length (st_rnd (sample_setting tm env))" "starts_with ''/'' (hv_cwd (st_host (sample_setting tm env)))"
    "container_path (lc_layout (st_console (sample_setting tm env))) ''deb'' = [''rt'', ''containers'', ''deb'']"
    by (simp_all add: sample_setting_def sample_layout_good sample_view_def container_path_def) (simp add: sample_layout_def)
qed

subsection \<open>What a login writes\<close>

lemma makedirs_step: "list_all plain_name ns \<Longrightarrow> prefix r d \<Longrightarrow> safe_step r s (snd (makedirs_at mo s d ns))"
  by (cases "makedirs_at mo s d ns") (simp add: makedirs_safe)

lemma safe_snippet: "prefix r d \<Longrightarrow> safe_step r s (write_profile_snippet c tp env s d)"
proof -
  assume r: "prefix r d"
  have n: "plain_name ''termux-prefix.sh''" "plain_name ''termux-profile.sh''" by code_simp+
  let ?t = "unlink_quietly (unlink_quietly s d ''termux-prefix.sh'') d ''termux-profile.sh''"
  have t: "safe_step r s ?t" by (intro safe_trans [OF safe_unlink_quietly safe_unlink_quietly] n r)
  show ?thesis
  proof (cases "open_new_at ?t d ''termux-profile.sh'' 420")
    case (Inr it)
    then obtain i u where o1: "open_new_at ?t d ''termux-profile.sh'' 420 = Inr (i, u)" by (cases it) auto
    note f = safe_open_new(1,2) [OF o1 n(2) r]
    show ?thesis
      using o1 t safe_fresh_write [OF f(2,1)] by (auto simp: write_profile_snippet_def intro: safe_trans)
  qed (use t in \<open>simp add: write_profile_snippet_def\<close>)
qed

lemma safe_inject: "prefix r d \<Longrightarrow> safe_step r s (inject_termux_profile c tp env s d)"
proof -
  assume r: "prefix r d"
  have n: "plain_name ''etc''" "plain_name ''profile.d''" by code_simp+
  show ?thesis
    using r n by (auto simp: inject_termux_profile_def opendir_at_def at_plain split: sum.splits option.splits node.splits
        intro!: safe_snippet)
qed

lemma safe_proot_args:
  assumes "plain_name (lc_package c)" and "prefix r container" and "prefix r rootfs"
    and "build_proot_args c h o1 pre rarg wd custom ports inner container rootfs s = (res, t)"
  shows "safe_step r s t"
proof -
  have n: "list_all plain_name [''tmp'']" "list_all plain_name [''shm'']" "list_all plain_name [''data'', ''data'', lc_package c, ''cache'']"
    using assms(1) by (simp_all add: plain_name_def)
  have shm: "safe_step r s (snd (make_shm_dir (make_guest_tmp s rootfs) container))" for s
    unfolding make_shm_dir_def make_guest_tmp_def by (intro safe_trans [OF makedirs_step makedirs_step] n assms)
  have dev: "safe_step r s (snd (termux_dev_binds h container rootfs s))"
    using shm [of s] by (auto simp: termux_dev_binds_def Let_def split: prod.splits)
  have cache: "safe_step r s (guest_cache_dir c o1 rootfs s)" for s
    using makedirs_step [OF n(3) assms(3)] by (simp add: guest_cache_dir_def)
  have "safe_step r s (snd (non_minimal_binds c h o1 container rootfs s))"
    using dev cache safe_trans [OF dev cache] by (auto simp: non_minimal_binds_def Let_def split: prod.splits)
  then show ?thesis using assms(4) by (auto simp: build_proot_args_def Let_def split: prod.splits if_splits)
qed

lemma safe_finish: "prefix r rootfs \<Longrightarrow> safe_step r s (snd (finish_env c tg m rootfs s env))"
proof -
  assume r: "prefix r rootfs"
  have n: "list_all plain_name [''.l2s'']" by code_simp
  from makedirs_step [OF this r, of s None] show ?thesis
    by (auto simp: finish_env_def Let_def split: prod.splits option.splits)
qed

lemma safe_launch:
  assumes "plain_name (lc_package (st_console w))" and "prefix r container" and "prefix r rootfs"
  shows "safe_step r s (snd (launch_session w a tg g env container rootfs s))"
proof -
  let ?c = "st_console w" and ?h = "st_host w"
  have "safe_step r s u" if "build_proot_args ?c ?h o1 pre rarg wd custom ports inner container rootfs s = (res, t)"
    and "finish_env ?c tg m rootfs t env = (final, u)" for o1 pre rarg wd custom ports inner res t m final u
    using safe_trans [OF safe_proot_args [OF assms that(1)]] safe_finish [OF assms(3), of t ?c tg m env] that(2) by simp
  then show ?thesis
    using safe_proot_args [OF assms]
    by (simp add: launch_session_def Let_def split: sum.splits prod.splits)
qed



subsection \<open>Variables of the host\<close>

text \<open>A variable that steers a program on the host, and where it may come from.\<close>

definition host_var_ok :: "console \<Rightarrow> vars \<Rightarrow> path \<Rightarrow> string \<times> string \<Rightarrow> bool" where
  "host_var_ok c user rootfs kv \<longleftrightarrow>
     (is_host_exec_var (fst kv) \<longrightarrow>
        fst kv \<noteq> ''LD_PRELOAD''
        \<and> (kv \<in> set user
           \<or> fst kv \<in> {''PROOT_NO_SECCOMP'', ''PROOT_VERBOSE''} \<and> snd kv = getenv c (fst kv) \<and> snd kv \<noteq> []
           \<or> lc_termux c \<and> kv = (''PROOT_L2S_DIR'', path_string (rootfs @ [''.l2s'']))))"

lemma all_del: "list_all P d \<Longrightarrow> list_all P (dict_del k d)"
  by (auto simp: dict_del_def list_all_iff)

lemma finish_env_host:
  assumes "list_all (from_user user) env" and "finish_env c tg m rootfs s env = (final, t)"
  shows "list_all (host_var_ok c user rootfs) final"
proof -
  let ?Q = "\<lambda>kv. fst kv \<noteq> ''LD_PRELOAD'' \<longrightarrow> host_var_ok c user rootfs kv"
  have "from_user user kv \<Longrightarrow> ?Q kv" for kv by (auto simp: from_user_def host_var_ok_def)
  with assms(1) have "list_all ?Q env" by (auto simp: list_all_iff)
  moreover have "list_all ?Q (proot_passthrough c m)" by (auto simp: proot_passthrough_def host_var_ok_def)
  ultimately have e: "list_all ?Q (dict_update (proot_passthrough c m) env)" by (rule all_update)
  obtain p u where m: "makedirs_at None s rootfs [''.l2s''] = (p, u)" by (cases "makedirs_at None s rootfs [''.l2s'']")
  then have p: "p \<in> {None, Some (rootfs @ [''.l2s''])}" by (auto simp: makedirs_at_def split: prod.splits sum.splits)
  let ?env1 = "dict_update (proot_passthrough c m) env"
  let ?env2 = "if lc_termux c \<and> \<not> tg then (case p of Some q \<Rightarrow> dict_set ''PROOT_L2S_DIR'' (path_string q) ?env1
    | None \<Rightarrow> dict_del ''PROOT_L2S_DIR'' ?env1) else ?env1"
  have f: "final = dict_del ''LD_PRELOAD'' ?env2"
    using assms(2) m by (cases p) (auto simp: finish_env_def Let_def split: if_splits)
  have "lc_termux c \<Longrightarrow> ?Q (''PROOT_L2S_DIR'', path_string (rootfs @ [''.l2s'']))" by (simp add: host_var_ok_def)
  then have q: "list_all ?Q ?env2" using p e by (auto intro: all_set all_del)
  show ?thesis using q unfolding f by (auto simp: list_all_iff dict_del_def)
qed

lemma launch_shape:
  assumes "launch_session w a tg g env container rootfs s = (Inr ln, t)"
  obtains emu bin arch overlaps u where
    "get_emulator_args (st_console w) (st_host w) arch (get_device_cpu_arch (st_host w)) (la_emulator a) = Inr emu"
    and "get_proot_bin (st_console w) (st_host w) = Inr bin"
    and "build_proot_args (st_console w) (st_host w) (session_options w a tg g (emu \<noteq> []) arch) (bin # emu)
          (if la_show a then path_string rootfs else ''.'') (gp_wd g) (la_bind a) (la_redirect_ports a) (gp_inner g) container rootfs s
        = (Inr (ln_argv ln, overlaps), u)"
    and "finish_env (st_console w) tg (la_minimal a) rootfs u env = (ln_env ln, t)" and "ln_inner ln = gp_inner g"
proof -
  let ?c = "st_console w" and ?h = "st_host w"
  let ?arch = "target_arch w s rootfs"
  obtain emu where emu: "get_emulator_args ?c ?h ?arch (get_device_cpu_arch ?h) (la_emulator a) = Inr emu" and n: "\<not> (tg \<and> emu \<noteq> [])"
    using assms by (auto simp: launch_session_def Let_def split: sum.splits if_splits)
  obtain bin where bin: "get_proot_bin ?c ?h = Inr bin"
    using assms emu n by (cases "get_proot_bin ?c ?h") (simp_all add: launch_session_def Let_def split: if_splits)
  let ?b = "build_proot_args ?c ?h (session_options w a tg g (emu \<noteq> []) ?arch) (bin # emu)
      (if la_show a then path_string rootfs else ''.'') (gp_wd g) (la_bind a) (la_redirect_ports a) (gp_inner g) container rootfs s"
  have l: "launch_session w a tg g env container rootfs s =
    (case ?b of (Inl e, t) \<Rightarrow> (Inl (BindError e), t)
     | (Inr (argv, overlaps), t) \<Rightarrow> (case finish_env ?c tg (la_minimal a) rootfs t env of
         (final, u) \<Rightarrow> (Inr \<lparr>ln_bin = bin, ln_argv = argv, ln_env = final, ln_inner = gp_inner g,
            ln_user = lu_name (gp_user g), ln_overlaps = overlaps\<rparr>, u)))"
    unfolding launch_session_def Let_def emu bin sum.case using n by (simp only: if_False simp_thms)
  obtain o1 u where b: "?b = (o1, u)" by (cases ?b)
  then obtain argv overlaps where "o1 = Inr (argv, overlaps)"
    using assms l by (cases o1) auto
  with assms b l emu bin show ?thesis
    by (cases "finish_env ?c tg (la_minimal a) rootfs u env") (auto intro: that)
qed

lemma login_shape:
  assumes "good_layout (lc_layout (st_console w))" and "is_valid_name name" and "command_login w a name s = (Inr ln, t)"
  obtains tg g env u v where "launch_session w a tg g env (container_path (lc_layout (st_console w)) name)
        (container_path (lc_layout (st_console w)) name @ [''rootfs'']) u = (Inr ln, v)"
    and "tg \<Longrightarrow> g = termux_plan w a name s"
    and "\<not> tg \<Longrightarrow> normal_plan w a name (container_path (lc_layout (st_console w)) name @ [''rootfs'']) s = Inr g"
    and "env \<in> {gp_env g, append_termux_bin (st_console w) (gp_env g)}"
proof -
  let ?l = "lc_layout (st_console w)"
  obtain o1 u where o1: "open_container_pair ?l False s name = (o1, u)" by (cases "open_container_pair ?l False s name")
  note f = container_opened [OF o1]
  obtain c r where cr: "o1 = Inr (c, r)" using assms(3) o1 by (auto simp: command_login_def split: sum.splits)
  from f(2) [OF assms(1,2) cr] have c: "c = container_path ?l name" "r = c @ [''rootfs'']" by auto
  have e: "login_with_rootfs w a name c r s = (Inr ln, t)" using assms(3) o1 f(1) cr by (simp add: command_login_def)
  let ?tg = "is_termux_guest w s r"
  obtain g where g: "(if ?tg then Inr (termux_plan w a name s) else normal_plan w a name r s) = Inr g"
    using e by (cases "if ?tg then Inr (termux_plan w a name s) else normal_plan w a name r s") (simp_all add: login_with_rootfs_def Let_def)
  show ?thesis
  proof (rule that [of ?tg g])
    show "launch_session w a ?tg g (if host_tools w a then append_termux_bin (st_console w) (gp_env g) else gp_env g) (container_path ?l name)
        (container_path ?l name @ [''rootfs'']) (if ?tg then (if \<not> ?tg \<and> lc_termux (st_console w) \<and> \<not> la_minimal a then setup_fake_sysdata (st_rnd w) (st_cpus w) s c else s)
          else inject_termux_profile (st_console w) (host_tools w a) (if host_tools w a then append_termux_bin (st_console w) (gp_env g) else gp_env g)
            (if \<not> ?tg \<and> lc_termux (st_console w) \<and> \<not> la_minimal a then setup_fake_sysdata (st_rnd w) (st_cpus w) s c else s) r) = (Inr ln, t)"
      using e g c by (simp only: login_with_rootfs_def Let_def sum.case)
  qed (use g c in auto)
qed

lemma plan_from_user:
  assumes "g = termux_plan w a name s \<or> normal_plan w a name rootfs s = Inr g" and "env \<in> {gp_env g, append_termux_bin (st_console w) (gp_env g)}"
  shows "list_all (from_user (user_vars (la_env a))) env"
proof -
  have "list_all (from_user (user_vars (la_env a))) (gp_env g)"
    using assms(1) build_env_from_user
    by (auto simp: termux_plan_def normal_plan_def Let_def split: sum.splits option.splits if_splits)
  moreover have "from_user (user_vars (la_env a)) (''PATH'', v)" for v using plain_keys(2) by (auto intro!: plain_from_user)
  ultimately show ?thesis using assms(2) by (auto simp: append_termux_bin_def Let_def intro: all_set)
qed

text \<open>C9. What an image, a guest or the launching terminal says cannot reach the loader or proot through the
  environment: every such variable of a session is one the user gave on the command line, one of two debugging
  switches of the user's terminal, or the pinned directory for hard links inside the container.\<close>

theorem session_env_host_variables:
  assumes "good_layout (lc_layout (st_console w))" and "is_valid_name name" and "command_login w a name s = (Inr ln, t)"
  shows "list_all (host_var_ok (st_console w) (user_vars (la_env a)) (container_path (lc_layout (st_console w)) name @ [''rootfs''])) (ln_env ln)"
proof (rule login_shape [OF assms])
  fix tg g env u v
  let ?r = "container_path (lc_layout (st_console w)) name @ [''rootfs'']"
  assume l: "launch_session w a tg g env (container_path (lc_layout (st_console w)) name) ?r u = (Inr ln, v)"
    and g: "tg \<Longrightarrow> g = termux_plan w a name s" "\<not> tg \<Longrightarrow> normal_plan w a name ?r s = Inr g"
    and env: "env \<in> {gp_env g, append_termux_bin (st_console w) (gp_env g)}"
  from g have e: "list_all (from_user (user_vars (la_env a))) env" by (intro plan_from_user [OF _ env]) blast
  show ?thesis by (rule launch_shape [OF l]) (rule finish_env_host [OF e])
qed

definition switches_setting :: setting where
  "switches_setting = sample_setting False [(''PROOT_VERBOSE'', ''9''), (''LD_PRELOAD'', ''/x'')]"

theorem session_env_host_variables_witness:
  "case fst (command_login switches_setting (sample_args [] [''LD_LIBRARY_PATH=/x'']) ''deb'' (sample_containers [])) of
     Inl e \<Rightarrow> False
   | Inr ln \<Rightarrow> list_all (host_var_ok (st_console switches_setting) [(''LD_LIBRARY_PATH'', ''/x'')] [''rt'', ''containers'', ''deb'', ''rootfs''])
       (ln_env ln) \<and> dict_get (ln_env ln) ''PROOT_VERBOSE'' = Some ''9'' \<and> dict_get (ln_env ln) ''LD_LIBRARY_PATH'' = Some ''/x''"
proof -
  let ?a = "sample_args [] [''LD_LIBRARY_PATH=/x'']" and ?s = "sample_containers []"
  let ?r = "command_login switches_setting ?a ''deb'' ?s"
  have "case fst ?r of Inl e \<Rightarrow> False
    | Inr ln \<Rightarrow> dict_get (ln_env ln) ''PROOT_VERBOSE'' = Some ''9'' \<and> dict_get (ln_env ln) ''LD_LIBRARY_PATH'' = Some ''/x''" by code_simp
  then obtain ln t where r: "?r = (Inr ln, t)" and v: "dict_get (ln_env ln) ''PROOT_VERBOSE'' = Some ''9''"
    "dict_get (ln_env ln) ''LD_LIBRARY_PATH'' = Some ''/x''" by (cases ?r) (auto split: sum.splits)
  have u: "user_vars (la_env ?a) = [(''LD_LIBRARY_PATH'', ''/x'')]" by code_simp
  from session_env_host_variables [OF sample_login_good(1,2) r [unfolded switches_setting_def]] u r v sample_login_good(7)
  show ?thesis by (simp add: switches_setting_def)
qed

subsection \<open>What of the host an isolated session sees\<close>

definition is_bind :: "string \<Rightarrow> bool" where
  "is_bind x \<longleftrightarrow> starts_with ''--bind='' x"

definition core_binds :: "string list" where
  "core_binds =
     [''--bind=/dev'', ''--bind=/proc'', ''--bind=/sys'', bind_to ''/dev/urandom'' ''/dev/random'', bind_to ''/proc/self/fd'' ''/dev/fd'',
      bind_to ''/proc/self/fd/0'' ''/dev/stdin'', bind_to ''/proc/self/fd/1'' ''/dev/stdout'', bind_to ''/proc/self/fd/2'' ''/dev/stderr'']"

text \<open>A bind of a directory or file of the container's own; one the user asked for; one an emulator needs.\<close>

definition own_bind :: "path \<Rightarrow> string \<Rightarrow> bool" where
  "own_bind container x \<longleftrightarrow> (\<exists>n ns dst. x = bind_to (path_string (container @ n # ns)) dst \<and> n \<in> {''sysdata'', ''shm''})"

definition asked_bind :: "console \<Rightarrow> hostview \<Rightarrow> login_args \<Rightarrow> string \<Rightarrow> bool" where
  "asked_bind c h a x \<longleftrightarrow>
     (\<exists>b \<in> set (la_bind a). \<exists>dst. custom_bind (hv_cwd h) b = Inr (x, dst))
     \<or> la_shared_home a \<and> (\<exists>dst. x = bind_to (lc_home c) dst)
     \<or> la_shared_tmp a \<and> x = bind_to (lc_prefix c @ ''/tmp'') ''/tmp''
     \<or> la_shared_x11 a \<and> x = bind_to (lc_prefix c @ ''/tmp/.X11-unix'') ''/tmp/.X11-unix''"

definition isolated_bind :: "console \<Rightarrow> hostview \<Rightarrow> login_args \<Rightarrow> path \<Rightarrow> bool \<Rightarrow> string \<Rightarrow> bool" where
  "isolated_bind c h a container emulated x \<longleftrightarrow>
     x \<in> set core_binds \<or> own_bind container x \<or> asked_bind c h a x
     \<or> emulated \<and> x \<in> set (emulator_binds c h @ system_bindings h @ [bind_arg (lc_prefix c)])"

lemma not_bind [simp]:
  "\<not> is_bind ''-q''" "\<not> is_bind ''-p''" "\<not> is_bind (''--rootfs='' @ x)" "\<not> is_bind (''--cwd='' @ x)" "\<not> is_bind (''--change-id='' @ x)"
  "starts_with ''/'' x \<Longrightarrow> \<not> is_bind x"
  by (cases x; auto simp: is_bind_def starts_with_def)+

lemma extensions_no_bind: "x \<in> set (proot_extensions c h o1) \<Longrightarrow> \<not> is_bind x"
  by (auto simp: proot_extensions_def kernel_release_arg_def is_bind_def starts_with_def Let_def split: if_splits)

lemma abspath_abs: "starts_with ''/'' cwd \<Longrightarrow> starts_with ''/'' (abspath cwd p)"
proof -
  assume "starts_with ''/'' cwd"
  then have "starts_with ''/'' (if starts_with ''/'' p then p else py_join cwd p)" by (simp add: join_abs)
  then have "normal_abs (abspath cwd p)" unfolding abspath_def by (rule normpath_abs)
  then show ?thesis by (auto simp: normal_abs_def starts_with_def)
qed

lemma proot_bin_no_bind: "starts_with ''/'' (hv_cwd h) \<Longrightarrow> get_proot_bin c h = Inr bin \<Longrightarrow> \<not> is_bind bin"
  using abspath_abs [of "hv_cwd h"] by (auto simp: get_proot_bin_def Let_def split: if_splits option.splits)

lemma emulator_args_binds:
  assumes "starts_with ''/'' (hv_cwd h)" and "get_emulator_args c h dist device ov = Inr emu"
  shows "emu = [] \<or> ''-q'' \<in> set emu \<and> (\<forall>x \<in> set emu. is_bind x \<longrightarrow> x \<in> set (emulator_binds c h))"
proof -
  have "emu = [] \<or> (\<exists>p. emu = [''-q'', abspath (hv_cwd h) p] @ emulator_binds c h)"
    using assms(2) by (auto simp: get_emulator_args_def Let_def split: if_splits option.splits)
  then show ?thesis using abspath_abs [OF assms(1)] by auto
qed

lemma own_bindI [simp]:
  "own_bind container (bind_to (path_string (container @ ''sysdata'' # ns)) dst)"
  "own_bind container (bind_to (path_string (container @ ''shm'' # ns)) dst)"
  by (auto simp: own_bind_def)

lemma dev_binds_allowed:
  "x \<in> set (fst (termux_dev_binds h container rootfs s)) \<Longrightarrow> x \<in> set core_binds \<or> own_bind container x"
proof -
  assume x: "x \<in> set (fst (termux_dev_binds h container rootfs s))"
  have small: "nat_str 0 = ''0''" "nat_str (Suc 0) = ''1''" "nat_str 2 = ''2''" by code_simp+
  have std: "y \<in> set (std_binds h) \<Longrightarrow> y \<in> set core_binds" for y
    by (auto simp: std_binds_def map_filter_def core_binds_def small split: if_splits)
  have fake: "y \<in> set (fake_sysdata_bindings h s container) \<Longrightarrow> own_bind container y" for y
    by (auto simp: fake_sysdata_bindings_def sysdata_binds_def map_filter_def split: sum.splits if_splits)
  have shm: "make_shm_dir t container = (Some p, u) \<Longrightarrow> own_bind container (bind_to (path_string p) d)" for t p u d
    by (auto simp: make_shm_dir_def makedirs_at_def split: prod.splits sum.splits)
  from x consider "x \<in> set core_binds" | "x \<in> set (std_binds h)" | "x \<in> set (fake_sysdata_bindings h s container)"
    | t p u where "make_shm_dir t container = (Some p, u)" "x = bind_to (path_string p) ''/dev/shm''"
    by (auto simp: termux_dev_binds_def Let_def core_binds_def split: prod.splits option.splits if_splits)
  then show ?thesis using std fake shm by cases auto
qed

lemma add_binds_from: "add_binds cwd taken bs = Inr (args, ov) \<Longrightarrow> x \<in> set args \<Longrightarrow> \<exists>b \<in> set bs. \<exists>dst. custom_bind cwd b = Inr (x, dst)"
proof (induction bs arbitrary: taken args ov)
  case (Cons b bs)
  obtain arg dst where b: "custom_bind cwd b = Inr (arg, dst)"
    using Cons.prems(1) by (cases "custom_bind cwd b") auto
  obtain args' ov' where r: "add_binds cwd (dst # taken) bs = Inr (args', ov')"
    using Cons.prems(1) b by (cases "add_binds cwd (dst # taken) bs") auto
  have "args = arg # args'" using Cons.prems(1) b r by simp
  with Cons.prems(2) Cons.IH [OF r] b show ?case by auto
qed simp

lemma non_minimal_allowed:
  assumes "x \<in> set (fst (non_minimal_binds c h o1 container rootfs s))" and "so_isolated o1"
  shows "x \<in> set core_binds \<or> own_bind container x
    \<or> so_need_emu o1 \<and> x \<in> set (system_bindings h @ [bind_arg (lc_prefix c)])
    \<or> x \<in> set (home_binds c o1 @ shared_binds c o1)"
proof -
  consider (dev) "x \<in> set (fst (termux_dev_binds h container rootfs s))" | (android) "x \<in> set (android_binds c h o1)"
    | (shared) "x \<in> set (home_binds c o1 @ shared_binds c o1)"
    using assms(1) by (auto simp: non_minimal_binds_def Let_def split: prod.splits if_splits)
  then show ?thesis
  proof cases
    case dev
    then show ?thesis using dev_binds_allowed by blast
  next
    case android
    then show ?thesis using assms(2) by (auto simp: android_binds_def split: if_splits)
  qed auto
qed

definition leading_args :: "console \<Rightarrow> hostview \<Rightarrow> session_opts \<Rightarrow> string list \<Rightarrow> string \<Rightarrow> string \<Rightarrow> string list" where
  "leading_args c h o1 pre rarg wd =
     pre @ proot_extensions c h o1 @ (if so_termux_guest o1 then [] else [''--change-id='' @ so_uid o1 @ '':'' @ so_gid o1])
     @ [''--rootfs='' @ rarg, ''--cwd='' @ wd, ''--bind=/dev'', ''--bind=/proc'', ''--bind=/sys'']"

lemma leading_binds: "x \<in> set (leading_args c h o1 pre rarg wd) \<Longrightarrow> is_bind x \<Longrightarrow> x \<in> set pre \<or> x \<in> set core_binds"
  using extensions_no_bind [of x c h o1] not_bind(3) [of rarg] not_bind(4) [of wd] not_bind(5) [of "so_uid o1 @ '':'' @ so_gid o1"]
  unfolding leading_args_def core_binds_def set_append set_simps
  by (elim UnE) (auto simp only: Un_iff set_simps empty_iff insert_iff split: if_splits)

lemma build_args_shape:
  assumes "build_proot_args c h o1 pre rarg wd custom ports inner container rootfs s = (Inr (argv, overlaps), t)"
  obtains binds taken new ov where "add_binds (hv_cwd h) taken custom = Inr (new, ov)"
    and "argv = (leading_args c h o1 pre rarg wd @ binds @ new @ (if ports then [''-p''] else [])) @ inner"
    and "binds = (if so_minimal o1 then [] else fst (non_minimal_binds c h o1 container rootfs s))"
proof -
  obtain binds u where m: "(if so_minimal o1 then ([], s) else non_minimal_binds c h o1 container rootfs s) = (binds, u)"
    by (cases "if so_minimal o1 then ([], s) else non_minimal_binds c h o1 container rootfs s")
  let ?taken = "List.map_filter bind_dest (leading_args c h o1 pre rarg wd @ binds)"
  have b: "(bindR (add_custom_binds (hv_cwd h) (leading_args c h o1 pre rarg wd @ binds) custom) (\<lambda>(args, overlaps).
      Inr (args @ (if ports then [''-p''] else []) @ inner, overlaps)), u) = (Inr (argv, overlaps), t)"
    using assms unfolding build_proot_args_def Let_def m prod.case leading_args_def .
  obtain new ov where n: "add_binds (hv_cwd h) ?taken custom = Inr (new, ov)"
    using b by (cases "add_binds (hv_cwd h) ?taken custom") (auto simp: add_custom_binds_def)
  have e: "binds = (if so_minimal o1 then [] else fst (non_minimal_binds c h o1 container rootfs s))"
    using arg_cong [OF m, of fst] by (auto split: if_splits)
  show ?thesis using that [OF n _ e] b n by (simp add: add_custom_binds_def)
qed



subsection \<open>The command of an image\<close>

definition option_manifest :: json where
  "option_manifest = JObj [(''image_config'', JObj [(''config'', JObj [(''Entrypoint'', JArr [JStr ''--bind=/:/mnt'', JStr ''/bin/sh''])])])]"

definition option_fs :: fs where
  "option_fs = write_inode 1 \<lparr>fd_bytes = json_dumps option_manifest, fd_mode = 420, fd_mtime = 0\<rparr>
     (sample_containers [([''rt'', ''containers'', ''deb'', ''manifest.json''], NFile 1)])"

lemma native_launch:
  assumes "target_arch w s rootfs = arch" and "get_proot_bin (st_console w) (st_host w) = Inr bin"
    and "get_emulator_args (st_console w) (st_host w) arch (get_device_cpu_arch (st_host w)) (la_emulator a) = Inr []"
    and "build_proot_args (st_console w) (st_host w) (session_options w a tg g False arch) [bin]
      (if la_show a then path_string rootfs else ''.'') (gp_wd g) (la_bind a) (la_redirect_ports a) (gp_inner g) container rootfs s
      = (Inr (argv, overlaps), t)"
  shows "\<exists>ln. fst (launch_session w a tg g env container rootfs s) = Inr ln \<and> ln_argv ln = argv"
  using assms by (simp add: launch_session_def Let_def split: prod.split)

text \<open>What an image calls its command stands among proot's own options with nothing before it. An image whose
  Entrypoint begins with \<open>--bind=/:/mnt\<close> is given the whole host in an isolated, minimal session of \<open>run\<close>, without
  the user having asked for a bind.\<close>

theorem image_command_is_an_option:
  "case fst (command_run (sample_setting False []) ((sample_args [] [])\<lparr>la_minimal := True\<rparr>) [] ''deb'' option_fs) of
     Inl e \<Rightarrow> False
   | Inr ln \<Rightarrow> ln_argv ln = [''/bin/proot'', ''--change-id=0:0'', ''--rootfs=.'', ''--cwd=/'', ''--bind=/dev'', ''--bind=/proc'', ''--bind=/sys'',
       ''--bind=/:/mnt'', ''/bin/sh'']"
proof -
  let ?w = "sample_setting False []" and ?a = "(sample_args [] [])\<lparr>la_minimal := True\<rparr>"
  let ?inner = "[''--bind=/:/mnt'', ''/bin/sh'']"
  let ?b = "?a\<lparr>la_run_inner := Some ?inner, la_cmd := [], la_work_dir := ''/''\<rparr>"
  let ?r = "[''rt'', ''containers'', ''deb'', ''rootfs'']" and ?c = "[''rt'', ''containers'', ''deb'']"
  let ?u = "\<lparr>lu_name = ''root'', lu_uid = ''0'', lu_gid = ''0'', lu_home = ''/'', lu_shell = ''/bin/sh''\<rparr>"
  have "open_container_manifest sample_layout option_fs ''deb'' = Inr 1" by code_simp
  moreover have "json_loads_bytes (json_dumps option_manifest) = Some option_manifest" by code_simp
  moreover have "length (json_dumps option_manifest) < 200" by code_simp
  moreover have "lc_layout (st_console ?w) = sample_layout" by (simp add: sample_setting_def)
  ultimately have data: "read_container_manifest (lc_layout (st_console ?w)) option_fs ''deb''
    = Some [(''image_config'', JObj [(''config'', JObj [(''Entrypoint'', JArr [JStr ''--bind=/:/mnt'', JStr ''/bin/sh''])])])]"
    by (simp add: read_container_manifest_def option_fs_def read_state_file_def MAX_STATE_JSON_BYTES_def option_manifest_def)
  have "container_is_installed (lc_layout (st_console ?w)) option_fs ''deb'' = Inr True" by code_simp
  then have run: "command_run ?w ?a [] ''deb'' option_fs = command_login ?w ?b ''deb'' option_fs"
    by (simp add: command_run_def data manifest_image_config_def config_strings_def config_workdir_def dict_get_def sample_args_def Let_def)
  have "fst (open_container_pair (lc_layout (st_console ?w)) False option_fs ''deb'') = Inr (?c, ?r)" by code_simp
  moreover have "snd (open_container_pair (lc_layout (st_console ?w)) False option_fs ''deb'') = option_fs"
    using container_opened(1) by (metis prod.collapse)
  ultimately have pair: "open_container_pair (lc_layout (st_console ?w)) False option_fs ''deb'' = (Inr (?c, ?r), option_fs)"
    by (metis prod.collapse)
  have tg: "\<not> is_termux_guest ?w option_fs ?r" by code_simp
  have us: "resolve_login_user option_fs ?r (st_l2s ?w) ''root'' = Inr ?u" by code_simp
  obtain env where plan: "normal_plan ?w ?b ''deb'' ?r option_fs = Inr \<lparr>gp_env = env, gp_inner = ?inner, gp_wd = ''/'', gp_user = ?u\<rparr>"
    using us by (simp add: normal_plan_def login_user_arg_def or_else_def sample_args_def Let_def)
  have prof: "inject_termux_profile (st_console ?w) b e option_fs ?r = option_fs" for b e
  proof -
    have "opendir_at option_fs ?r ''etc'' = Inl ENOENT" by code_simp
    then show ?thesis by (simp add: inject_termux_profile_def)
  qed
  let ?g = "\<lparr>gp_env = env, gp_inner = ?inner, gp_wd = ''/'', gp_user = ?u\<rparr>"
  have arch: "target_arch ?w option_fs ?r = ''x86_64''" by code_simp
  have emu: "get_emulator_args (st_console ?w) (st_host ?w) ''x86_64'' (get_device_cpu_arch (st_host ?w)) (la_emulator ?b) = Inr []" by code_simp
  have bin: "get_proot_bin (st_console ?w) (st_host ?w) = Inr ''/bin/proot''" by code_simp
  have args: "build_proot_args (st_console ?w) (st_host ?w) (session_options ?w ?b False ?g False ''x86_64'') [''/bin/proot'']
      (if la_show ?b then path_string ?r else ''.'') (gp_wd ?g) (la_bind ?b) (la_redirect_ports ?b) (gp_inner ?g) ?c ?r option_fs
    = (Inr ([''/bin/proot'', ''--change-id=0:0'', ''--rootfs=.'', ''--cwd=/'', ''--bind=/dev'', ''--bind=/proc'', ''--bind=/sys''] @ ?inner, []), option_fs)"
    by (simp add: build_proot_args_def session_options_def sample_args_def sample_setting_def proot_extensions_def add_custom_binds_def)
  have tm: "\<not> lc_termux (st_console ?w)" by (simp add: sample_setting_def)
  have "command_login ?w ?b ''deb'' option_fs = launch_session ?w ?b False ?g env ?c ?r option_fs"
    by (simp add: command_login_def pair login_with_rootfs_def tg plan prof tm host_tools_def [of ?w ?b] Let_def)
  moreover obtain ln where "fst (launch_session ?w ?b False ?g env ?c ?r option_fs) = Inr ln"
    "ln_argv ln = [''/bin/proot'', ''--change-id=0:0'', ''--rootfs=.'', ''--cwd=/'', ''--bind=/dev'', ''--bind=/proc'', ''--bind=/sys''] @ ?inner"
    using native_launch [OF arch bin emu args] by blast
  ultimately show ?thesis unfolding run by simp
qed

end
