(* ===== verification/Spec_Paths.thy ===== *)
theory Spec_Paths
  imports Arch Login_User
begin

text \<open>
  \<open>paths.py\<close>, the two ends of \<open>copy\<close> and \<open>sync\<close>: a \<open>name:path\<close> spec is resolved inside the container's rootfs the way
  the guest would see it, weighed against the other end, and then walked again without following a link, so that
  what is used is a directory and not a name. A host path is resolved by \<open>realpath\<close>, which is an argument.
\<close>

subsection \<open>Specs\<close>

text \<open>Where a spec leads: a path of the host, or names below the rootfs of a container.\<close>

datatype endpoint = HostSide string | GuestSide string "string list"

datatype spec_error =
    BadSpecName string | NoContainer string | SpecStorage open_error | EscapesContainer | TooManyLinks string

definition container_from_spec :: "string \<Rightarrow> string option" where
  "container_from_spec spec =
     (case partition_at CHR '':'' spec of (head, found, rest) \<Rightarrow>
        if \<not> found \<or> CHR ''/'' \<in> set head then None else Some head)"

definition spec_path :: "string \<Rightarrow> string" where
  "spec_path spec = (case partition_at CHR '':'' spec of (head, found, rest) \<Rightarrow> rest)"

definition MAX_SPEC_HOPS :: nat where
  "MAX_SPEC_HOPS = 40"

text \<open>
  The walk: the names resolved so far below the rootfs, the links followed, the components to come. \<open>readlink\<close> of a
  joined path is a look at that path: no component on the way to it is a link.
\<close>

function resolve_within_root :: "fs \<Rightarrow> path \<Rightarrow> nat \<Rightarrow> string list \<Rightarrow> string list \<Rightarrow> string list option" where
  "resolve_within_root s root hops resolved [] = Some resolved"
| "resolve_within_root s root hops resolved (part # pending) =
     (if part = [] \<or> part = ''.'' then resolve_within_root s root hops resolved pending
      else if part = ''..'' then
        resolve_within_root s root hops (if resolved \<noteq> [] then butlast resolved else resolved) pending
      else (case node_at s (root @ resolved @ [part]) of
          Some (NLink target t) \<Rightarrow>
            (if MAX_SPEC_HOPS < Suc hops then None
             else resolve_within_root s root (Suc hops) (if starts_with ''/'' target then [] else resolved)
                    (split_on CHR ''/'' target @ pending))
        | _ \<Rightarrow> resolve_within_root s root hops (resolved @ [part]) pending))"
  by pat_completeness auto
termination
  by (relation "measures [\<lambda>(s, r, hops, res, pending). Suc MAX_SPEC_HOPS - hops, \<lambda>(s, r, hops, res, pending). length pending]") auto

text \<open>\<open>rpartition\<close> at the last directory separator: what stands before and behind it.\<close>

definition split_leaf :: "string \<Rightarrow> string \<times> string" where
  "split_leaf p = (join_with ''/'' (butlast (split_on CHR ''/'' p)), last (split_on CHR ''/'' p))"

definition walk_spec :: "fs \<Rightarrow> path \<Rightarrow> string \<Rightarrow> bool \<Rightarrow> string list option" where
  "walk_spec s root rel deref_leaf =
     (let (head, tail) = split_leaf (rstrip_by (\<lambda>c. c = CHR ''/'') rel) in
      if \<not> deref_leaf \<and> tail \<notin> {[], ''.'', ''..''}
      then map_option (\<lambda>p. p @ [tail]) (resolve_within_root s root 0 [] (split_on CHR ''/'' head))
      else resolve_within_root s root 0 [] (split_on CHR ''/'' rel))"

text \<open>\<open>os.path.dirname\<close> and \<open>basename\<close> of an absolute path.\<close>

definition dir_name :: "string \<Rightarrow> string" where
  "dir_name p =
     (let h = concat (map (\<lambda>c. c @ ''/'') (butlast (split_on CHR ''/'' p))) in
      if list_all (\<lambda>c. c = CHR ''/'') h then h else rstrip_by (\<lambda>c. c = CHR ''/'') h)"

definition host_path :: "(string \<Rightarrow> string) \<Rightarrow> string \<Rightarrow> bool \<Rightarrow> string" where
  "host_path real p deref_leaf =
     (if deref_leaf then real p
      else py_join (real (or_else (dir_name p) ''/'')) (last (split_on CHR ''/'' p)))"

text \<open>The rootfs as the walk names it; it stands at \<open>guest_root\<close> in the files.\<close>

definition rootfs_string :: "layout \<Rightarrow> string \<Rightarrow> string" where
  "rootfs_string l name = py_normpath (container_rootfs l name)"

definition guest_root :: "layout \<Rightarrow> string \<Rightarrow> path" where
  "guest_root l name = names_of (rootfs_string l name)"

definition escapes :: "string \<Rightarrow> string \<Rightarrow> bool" where
  "escapes root rel \<longleftrightarrow>
     (let p = py_normpath (py_join root rel) in p \<noteq> root \<and> \<not> starts_with (root @ ''/'') p)"

definition resolve_container_path ::
  "layout \<Rightarrow> (string \<Rightarrow> string) \<Rightarrow> string \<Rightarrow> fs \<Rightarrow> string \<Rightarrow> bool \<Rightarrow> spec_error + endpoint" where
  "resolve_container_path l real cwd s spec deref_leaf =
     (case container_from_spec spec of
        None \<Rightarrow> Inr (HostSide (host_path real (abspath cwd spec) deref_leaf))
      | Some name \<Rightarrow>
          (if \<not> is_valid_name name then Inl (BadSpecName name)
           else case container_is_installed l s name of
               Inl e \<Rightarrow> Inl (SpecStorage e)
             | Inr b \<Rightarrow>
                 (if \<not> b then Inl (NoContainer name)
                  else let rel = dropWhile (\<lambda>c. c = CHR ''/'') (spec_path spec) in
                    if escapes (rootfs_string l name) rel then Inl EscapesContainer
                    else case walk_spec s (guest_root l name) rel deref_leaf of
                        None \<Rightarrow> Inl (TooManyLinks spec)
                      | Some parts \<Rightarrow> Inr (GuestSide name parts))))"

subsection \<open>A name below a resolved directory\<close>

fun common_prefix :: "string list \<Rightarrow> string list \<Rightarrow> nat" where
  "common_prefix (x # xs) (y # ys) = (if x = y then Suc (common_prefix xs ys) else 0)"
| "common_prefix _ _ = 0"

definition relpath_names :: "string list \<Rightarrow> string list \<Rightarrow> string list" where
  "relpath_names start p = (let i = common_prefix start p in replicate (length start - i) ''..'' @ drop i p)"

definition resolve_container_child ::
  "layout \<Rightarrow> (string \<Rightarrow> string) \<Rightarrow> fs \<Rightarrow> endpoint \<Rightarrow> string \<Rightarrow> bool \<Rightarrow> spec_error + endpoint" where
  "resolve_container_child l real s e child deref_leaf =
     (case e of
        HostSide p \<Rightarrow> Inr (HostSide (host_path real (py_join p child) deref_leaf))
      | GuestSide name parts \<Rightarrow>
          (let joined = (if starts_with ''/'' child then norm_parts True [] (split_on CHR ''/'' child)
                         else norm_parts True [] (guest_root l name @ parts @ split_on CHR ''/'' child));
               rel = relpath_names (guest_root l name) joined
           in case walk_spec s (guest_root l name) (if rel = [] then ''.'' else join_with ''/'' rel) deref_leaf of
                None \<Rightarrow> Inl (TooManyLinks name)
              | Some q \<Rightarrow> Inr (GuestSide name q)))"

subsection \<open>Overlap\<close>

datatype overlap_error = SameFile | IntoItself | SourceInside

definition overlap_path :: "layout \<Rightarrow> (string \<Rightarrow> string) \<Rightarrow> endpoint \<Rightarrow> bool \<Rightarrow> string" where
  "overlap_path l real e deref_leaf =
     (case e of
        HostSide p \<Rightarrow> host_path real p deref_leaf
      | GuestSide name parts \<Rightarrow>
          (if parts = [] then real (rootfs_string l name)
           else py_join (real (rootfs_string l name)) (join_with ''/'' parts)))"

definition inside_of :: "string \<Rightarrow> string \<Rightarrow> bool" where
  "inside_of outer p \<longleftrightarrow> starts_with (rstrip_by (\<lambda>c. c = CHR ''/'') outer @ ''/'') p"

text \<open>\<open>same\<close> is what the comparison of the two stat results says, when both could be taken.\<close>

definition refuse_src_dest_overlap ::
  "layout \<Rightarrow> (string \<Rightarrow> string) \<Rightarrow> bool \<Rightarrow> endpoint \<Rightarrow> endpoint \<Rightarrow> bool \<Rightarrow> bool \<Rightarrow> overlap_error option" where
  "refuse_src_dest_overlap l real same src dest deref_leaf pruning =
     (let a = overlap_path l real src deref_leaf; b = overlap_path l real dest deref_leaf in
      if a = b \<or> same then Some SameFile
      else if inside_of a b then Some IntoItself
      else if pruning \<and> inside_of b a then Some SourceInside
      else None)"

subsection \<open>Pinning\<close>

datatype pin_error = Changed errno | CannotOpen errno | PinStorage open_error

definition is_link_at :: "fs \<Rightarrow> path \<Rightarrow> string \<Rightarrow> bool" where
  "is_link_at s d part \<longleftrightarrow> (case lstat_at s d part of Inr x \<Rightarrow> is_link_node x | Inl e \<Rightarrow> False)"

definition pin_descend :: "bool \<Rightarrow> fs \<Rightarrow> path \<Rightarrow> string \<Rightarrow> (pin_error + path) \<times> fs" where
  "pin_descend create s d part =
     (case opendir_at s d part of
        Inr p \<Rightarrow> (Inr p, s)
      | Inl e \<Rightarrow>
          (if e = ENOENT then
             (if \<not> create then (Inl (CannotOpen e), s)
              else case mkdir_at s d part 511 of
                  Inr t \<Rightarrow> (case opendir_at t d part of Inr p \<Rightarrow> (Inr p, t) | Inl e' \<Rightarrow> (Inl (CannotOpen e'), t))
                | Inl e' \<Rightarrow>
                    (if e' = EEXIST then (case opendir_at s d part of Inr p \<Rightarrow> (Inr p, s) | Inl e2 \<Rightarrow> (Inl (CannotOpen e2), s))
                     else (Inl (CannotOpen e'), s)))
           else (Inl (if is_refusal e \<and> is_link_at s d part then Changed e else CannotOpen e), s)))"

fun pin_walk :: "bool \<Rightarrow> fs \<Rightarrow> path \<Rightarrow> string list \<Rightarrow> (pin_error + path) \<times> fs" where
  "pin_walk create s d [] = (Inr d, s)"
| "pin_walk create s d (part # parts) =
     (case pin_descend create s d part of
        (Inl e, t) \<Rightarrow> (Inl e, t)
      | (Inr p, t) \<Rightarrow> pin_walk create t p parts)"

text \<open>The directory and the name below it, empty for \<open>inside\<close>. For a path of the host this is an open by name.\<close>

definition pin_path :: "layout \<Rightarrow> bool \<Rightarrow> bool \<Rightarrow> fs \<Rightarrow> string \<Rightarrow> string list \<Rightarrow> (pin_error + path \<times> string) \<times> fs" where
  "pin_path l inside create s name names =
     (let (parts, leaf) = (if inside \<or> names = [] then (names, []) else (butlast names, last names)) in
      case open_container_rootfs l False s name of
        (Inl e, t) \<Rightarrow> (Inl (if e = NotThere then CannotOpen ENOENT else PinStorage e), t)
      | (Inr r, t) \<Rightarrow>
          (case pin_walk create t r parts of
             (Inl e, u) \<Rightarrow> (Inl e, u)
           | (Inr d, u) \<Rightarrow> (Inr (d, leaf), u)))"

subsection \<open>Locks of a transfer\<close>

text \<open>The names to lock, in this order, and whether exclusively.\<close>

definition spec_locks :: "string \<Rightarrow> string \<Rightarrow> (string \<times> bool) list" where
  "spec_locks src dst =
     (let a = (case container_from_spec src of None \<Rightarrow> [] | Some n \<Rightarrow> n);
          b = (case container_from_spec dst of None \<Rightarrow> [] | Some n \<Rightarrow> n)
      in if a \<noteq> [] \<and> b \<noteq> [] then
           (if a = b then [(a, True)] else map (\<lambda>n. (n, n = b)) (sort [a, b]))
         else if b \<noteq> [] then [(b, True)]
         else if a \<noteq> [] then [(a, False)]
         else [])"

end
