(* ===== verification/Spec_Props.thy ===== *)
theory Spec_Props
  imports Spec_Paths Container_Props
begin

text \<open>
  A spec is resolved to a place inside its container, by the same reading of links the archive extractor has;
  the second walk reaches that place or refuses, whatever happened in between; and two transfers cannot wait
  for each other's locks.
\<close>

subsection \<open>Resolution\<close>

lemma resolve_within_parts:
  "hops \<le> MAX_SPEC_HOPS \<Longrightarrow> resolve_within_root s root hops res pending = resolve_parts s root (MAX_SPEC_HOPS - hops) res pending"
proof (induction s root hops res pending rule: resolve_within_root.induct)
  case (2 s root hops res part pending)
  show ?case
  proof (cases "part = [] \<or> part = ''.'' \<or> part = ''..''")
    case True
    with 2 show ?thesis by auto
  next
    case False
    show ?thesis
    proof (cases "node_at s (root @ res @ [part])")
      case None
      with False 2 show ?thesis by simp
    next
      case (Some x)
      show ?thesis
      proof (cases x)
        case (NLink target t)
        show ?thesis
        proof (cases "MAX_SPEC_HOPS < Suc hops")
          case True
          with "2.prems" have "MAX_SPEC_HOPS - hops = 0" by simp
          with True False Some NLink show ?thesis by simp
        next
          case not_yet: False
          then have "MAX_SPEC_HOPS - hops = Suc (MAX_SPEC_HOPS - Suc hops)" by simp
          with not_yet False Some NLink 2 show ?thesis by simp
        qed
      qed (use False 2 Some in auto)
    qed
  qed
qed simp

text \<open>The walk that resolves the ends of a transfer answers what the resolver of the archive extractor answers,
  for every tree and every path, refusals included.\<close>

theorem spec_walk_is_the_extractors:
  "resolve_within_root s root 0 [] parts = safe_resolve_parts s root parts"
  using resolve_within_parts [of 0 s root "[]" parts] by (simp add: safe_resolve_parts_def MAX_SPEC_HOPS_def LINK_BUDGET_def)

lemma dir_not_link: "is_dir_node x \<Longrightarrow> \<not> is_link_node x"
  by (cases x) auto

lemma resolve_within_ok:
  assumes "resolve_within_root s root 0 [] (split_on CHR ''/'' p) = Some q" and "is_dir s root"
  shows "list_all plain_name q" and "no_links s root q"
proof -
  have e: "resolve_parts s root MAX_SPEC_HOPS [] (split_on CHR ''/'' p) = Some q"
    using assms(1) resolve_within_parts [of 0 s root "[]" "split_on CHR ''/'' p"] by simp
  show "list_all plain_name q" using resolve_parts_plain [OF e] split_no_slash by simp
  have "no_links s root []" using assms(2) by (auto simp: no_links_def is_dir_def dest: dir_not_link)
  then show "no_links s root q" using resolve_no_links [OF e] by blast
qed

lemma walk_spec_ok:
  assumes "walk_spec s root rel deref = Some q" and "is_dir s root"
  shows "list_all plain_name q \<and> no_links s root (if deref then q else butlast q)"
proof -
  obtain head tail where ht: "split_leaf (rstrip_by (\<lambda>c. c = CHR ''/'') rel) = (head, tail)"
    by (cases "split_leaf (rstrip_by (\<lambda>c. c = CHR ''/'') rel)")
  show ?thesis
  proof (cases "\<not> deref \<and> tail \<notin> {[], ''.'', ''..''}")
    case True
    then obtain p where p: "resolve_within_root s root 0 [] (split_on CHR ''/'' head) = Some p" "q = p @ [tail]"
      using assms(1) ht by (auto simp: walk_spec_def)
    have "tail \<in> set (split_on CHR ''/'' (rstrip_by (\<lambda>c. c = CHR ''/'') rel))" using ht by (auto simp: split_leaf_def)
    then have "CHR ''/'' \<notin> set tail" by (rule split_on_no_sep)
    with True have "plain_name tail" by (simp add: plain_name_def)
    with p True resolve_within_ok [OF p(1) assms(2)] show ?thesis by simp
  next
    case False
    then have "resolve_within_root s root 0 [] (split_on CHR ''/'' rel) = Some q" using assms(1) ht by (auto simp: walk_spec_def)
    from resolve_within_ok [OF this assms(2)] no_links_butlast show ?thesis by auto
  qed
qed

lemma installed_root:
  assumes "good_layout l" and "is_valid_name name" and "container_is_installed l s name = Inr True"
  shows "guest_root l name = container_path l name @ [''rootfs'']" and "is_dir s (guest_root l name)"
proof -
  obtain r t where r: "open_container_rootfs l False s name = (Inr r, t)"
    using assms(3) by (cases "open_container_rootfs l False s name") (auto simp: container_is_installed_def split: sum.splits if_splits)
  show g: "guest_root l name = container_path l name @ [''rootfs'']"
    using split_rootfs_dir(1) [OF assms(1,2)] by (simp add: guest_root_def rootfs_string_def)
  show "is_dir s (guest_root l name)" using rootfs_opened(2) [OF r assms(1,2)] g by auto
qed

text \<open>C31. A spec that names a container leads below that container's rootfs: the answer is a list of plain names, and
  no level on the way to it is a link as the files are then, the last one excepted for a move, which acts on the
  entry itself. Where a link in the container points makes no difference.\<close>

theorem spec_stays_inside:
  assumes "good_layout l" and "resolve_container_path l real cwd s spec deref = Inr (GuestSide name parts)"
  shows "container_from_spec spec = Some name \<and> is_valid_name name \<and> list_all plain_name parts
    \<and> is_dir s (container_path l name @ [''rootfs''])
    \<and> (\<forall>i \<le> (if deref then length parts else length parts - 1). \<forall>x.
         node_at s (container_path l name @ ''rootfs'' # take i parts) = Some x \<longrightarrow> \<not> is_link_node x)"
proof -
  let ?rel = "dropWhile (\<lambda>c. c = CHR ''/'') (spec_path spec)"
  have n: "container_from_spec spec = Some name" "is_valid_name name" "container_is_installed l s name = Inr True"
    "walk_spec s (guest_root l name) ?rel deref = Some parts"
    using assms(2) by (auto simp: resolve_container_path_def Let_def split: option.splits if_splits sum.splits)
  note r = installed_root [OF assms(1) n(2,3)]
  note w = walk_spec_ok [OF n(4) r(2)]
  have "\<not> is_link_node x" if "i \<le> (if deref then length parts else length parts - 1)"
    and "node_at s (container_path l name @ ''rootfs'' # take i parts) = Some x" for i x
  proof -
    let ?q = "if deref then parts else butlast parts"
    have "i < Suc (length ?q)" "take i ?q = take i parts"
      using that(1) by (auto simp: take_butlast split: if_splits) (simp add: butlast_conv_take min_def)
    then show ?thesis using w that(2) r(1) unfolding no_links_def by (metis append_Cons append_Nil append_assoc)
  qed
  with n r w show ?thesis by simp
qed

definition spec_fs :: fs where
  "spec_fs = sample_state [([''rt'', ''containers''], NDir 493 0), ([''rt'', ''containers'', ''deb''], NDir 493 0),
     ([''rt'', ''containers'', ''deb'', ''rootfs''], NDir 493 0), ([''rt'', ''containers'', ''deb'', ''rootfs'', ''x''], NLink ''/../../etc'' 0)]"

theorem spec_stays_inside_witness:
  "resolve_container_path sample_layout id ''/'' spec_fs ''deb:/x/passwd'' True = Inr (GuestSide ''deb'' [''etc'', ''passwd''])
   \<and> list_all plain_name [''etc'', ''passwd''] \<and> is_dir spec_fs [''rt'', ''containers'', ''deb'', ''rootfs'']"
proof -
  have r: "resolve_container_path sample_layout id ''/'' spec_fs ''deb:/x/passwd'' True = Inr (GuestSide ''deb'' [''etc'', ''passwd''])" by code_simp
  have "container_path sample_layout ''deb'' = [''rt'', ''containers'', ''deb'']" by code_simp
  with spec_stays_inside [OF sample_layout_good r] r show ?thesis by simp
qed

subsection \<open>Pinning\<close>

lemma pin_descend_step:
  assumes "pin_descend create s d part = (res, t)" and "plain_name part" and "prefix r d"
  shows "safe_step r s t" and "res = Inr p \<Longrightarrow> p = d @ [part] \<and> is_dir t p"
    and "is_dir s q \<Longrightarrow> is_dir t q" and "\<not> create \<Longrightarrow> t = s"
proof -
  show "safe_step r s t" "\<not> create \<Longrightarrow> t = s"
    using assms safe_mkdir [of s d part 511 _ r] by (auto simp: pin_descend_def split: sum.splits if_splits)
  show "is_dir s q \<Longrightarrow> is_dir t q"
    using assms by (auto simp: pin_descend_def is_dir_def mkdir_at_def split: sum.splits if_splits option.splits)
  show "res = Inr p \<Longrightarrow> p = d @ [part] \<and> is_dir t p"
    using assms(1,2) by (auto simp: pin_descend_def opendir_at_def at_plain is_dir_def split: sum.splits if_splits option.splits node.splits)
qed

lemma pin_walk_step:
  "pin_walk create s d parts = (res, t) \<Longrightarrow> list_all plain_name parts \<Longrightarrow> prefix r d \<Longrightarrow>
     safe_step r s t \<and> (\<forall>p. res = Inr p \<longrightarrow> p = d @ parts \<and> (\<forall>i \<le> length parts. is_dir s d \<longrightarrow> is_dir t (d @ take i parts)))
     \<and> (\<forall>q. is_dir s q \<longrightarrow> is_dir t q) \<and> (\<not> create \<longrightarrow> t = s)"
proof (induction create s d parts arbitrary: res t rule: pin_walk.induct)
  case (2 create s d part parts)
  obtain o1 u where o1: "pin_descend create s d part = (o1, u)" by (cases "pin_descend create s d part")
  have pn: "plain_name part" using "2.prems"(2) by simp
  note st = pin_descend_step [OF o1 pn "2.prems"(3)]
  show ?case
  proof (cases o1)
    case (Inl e)
    with o1 "2.prems"(1) have "res = Inl e" "t = u" by auto
    with st show ?thesis by blast
  next
    case (Inr p)
    then have p: "p = d @ [part]" "is_dir u p" using st(2) by auto
    have w: "pin_walk create u p parts = (res, t)" using "2.prems"(1) o1 Inr by simp
    have "prefix r p" using p(1) "2.prems"(3) by (auto simp: prefix_def)
    with "2.IH" [OF o1 [symmetric] Inr w] "2.prems"(2)
    have ih: "safe_step r u t" "\<And>q. res = Inr q \<Longrightarrow> q = p @ parts \<and> (\<forall>i \<le> length parts. is_dir t (p @ take i parts))"
      "\<And>q. is_dir u q \<Longrightarrow> is_dir t q" "\<not> create \<Longrightarrow> t = u"
      using p(2) by auto
    have "is_dir t (d @ take i (part # parts))" if "res = Inr q" "i \<le> length (part # parts)" "is_dir s d" for q i
      using ih(2) [OF that(1)] ih(3) st(3) [OF that(3)] that(2) p(1) by (cases i) auto
    then show ?thesis using ih st safe_trans [OF st(1) ih(1)] p(1) by auto
  qed
qed auto

text \<open>C33. The second walk takes names and trusts nothing about them but that they are plain: whatever a guest did to
  the tree since it was resolved, the walk answers the directory the names spell, below the container's rootfs,
  with a directory at every level of it, or it refuses; and it changes nothing outside the rootfs.\<close>

theorem pin_reaches_the_resolved_place:
  assumes "good_layout l" and "is_valid_name name" and "list_all plain_name parts" and "pin_path l inside create s name parts = (res, t)"
  shows "safe_step (container_path l name @ [''rootfs'']) s t \<and> (\<not> create \<longrightarrow> t = s)
    \<and> (\<forall>d leaf. res = Inr (d, leaf) \<longrightarrow>
         (let ps = (if inside then parts else butlast parts) in
          d = container_path l name @ ''rootfs'' # ps \<and> leaf = (if inside \<or> parts = [] then [] else last parts)
          \<and> (\<forall>i \<le> length ps. is_dir t (container_path l name @ ''rootfs'' # take i ps))))"
proof -
  let ?root = "container_path l name @ [''rootfs'']"
  let ?ps = "if inside then parts else butlast parts" and ?leaf = "if inside \<or> parts = [] then [] else last parts"
  have ps: "(if inside \<or> parts = [] then (parts, []) else (butlast parts, last parts)) = (?ps, ?leaf)" by auto
  have pl: "list_all plain_name ?ps" using assms(3) by (auto simp: list_all_iff dest: in_set_butlastD)
  obtain o1 u where o1: "open_container_rootfs l False s name = (o1, u)" by (cases "open_container_rootfs l False s name")
  note op = rootfs_opened [OF o1]
  show ?thesis
  proof (cases o1)
    case (Inl e)
    with assms(4) o1 op(1) ps have "t = s" "\<exists>x. res = Inl x" by (auto simp: pin_path_def)
    then show ?thesis by auto
  next
    case (Inr r)
    from op(2) [OF assms(1,2) this] have r: "r = ?root" "is_dir s r" by auto
    obtain o2 v where w: "pin_walk create s r ?ps = (o2, v)" by (cases "pin_walk create s r ?ps")
    have e: "t = v" "res = (case o2 of Inl e \<Rightarrow> Inl e | Inr d \<Rightarrow> Inr (d, ?leaf))"
      using assms(4) ps o1 op(1) Inr w by (auto simp: pin_path_def split: sum.splits)
    from pin_walk_step [OF w pl, of ?root] r e show ?thesis by (auto simp: Let_def split: sum.splits)
  qed
qed

theorem pin_reaches_the_resolved_place_witness:
  "fst (pin_path sample_layout False False spec_fs ''deb'' [''x'', ''passwd'']) = Inl (Changed ELOOP)
   \<and> snd (pin_path sample_layout False False spec_fs ''deb'' [''x'', ''passwd'']) = spec_fs"
proof -
  let ?r = "pin_path sample_layout False False spec_fs ''deb'' [''x'', ''passwd'']"
  have v: "is_valid_name ''deb''" "list_all plain_name [''x'', ''passwd'']" "fst ?r = Inl (Changed ELOOP)" by code_simp+
  from pin_reaches_the_resolved_place [OF sample_layout_good v(1,2), of False False spec_fs "fst ?r" "snd ?r", OF prod.collapse [symmetric]] v(3)
  show ?thesis by blast
qed

subsection \<open>Overlap\<close>

lemma abs_names_eq:
  assumes "list_all plain_name xs" and "list_all plain_name ys"
  shows "''/'' @ join_with ''/'' xs = ''/'' @ join_with ''/'' ys \<longleftrightarrow> xs = ys"
proof
  assume "''/'' @ join_with ''/'' xs = ''/'' @ join_with ''/'' ys"
  then have "names_of (join_with ''/'' xs) = names_of (join_with ''/'' ys)" by (simp only: append_same_eq same_append_eq)
  then show "xs = ys" by (simp only: names_of_join [OF assms(1)] names_of_join [OF assms(2)])
qed (simp only:)

lemma inside_names:
  assumes "good_root r" and "list_all plain_name xs" and "list_all plain_name ys"
  shows "inside_of (if xs = [] then r else py_join r (join_with ''/'' xs)) (if ys = [] then r else py_join r (join_with ''/'' ys))
    \<longleftrightarrow> strict_prefix xs ys"
proof -
  note g = good_root_names [OF assms(1)]
  have j: "(if zs = [] then r else py_join r (join_with ''/'' zs)) = ''/'' @ join_with ''/'' (names_of r @ zs)"
    if "list_all plain_name zs" for zs
  proof (cases "zs = []")
    case True
    with g(5) show ?thesis by simp
  next
    case False
    have "\<not> starts_with ''/'' (join_with ''/'' zs)"
      using join_plain_ends [OF that False] by (cases "join_with ''/'' zs") (auto simp: starts_with_def)
    moreover have "\<not> ends_with ''/'' (''/'' @ join_with ''/'' (names_of r))"
      using join_plain_ends [OF g(1,2)] by (cases "join_with ''/'' (names_of r)" rule: rev_cases) (auto simp: ends_with_def)
    then have "\<not> ends_with ''/'' r" using g(5) by simp
    moreover have "r \<noteq> []" using g(5) by auto
    ultimately show ?thesis using False g(5) join_append [OF g(2) False, of "''/''"] by (simp add: py_join_def)
  qed
  have "good_root (''/'' @ join_with ''/'' (names_of r @ xs))"
    using g(1,2) assms(2) unfolding good_root_def by (intro exI [of _ "names_of r @ xs"]) simp
  note gx = good_root_names [OF this] and u = under_root [OF this, of "names_of r @ ys"]
  have nx: "names_of (''/'' @ join_with ''/'' (names_of r @ xs)) = names_of r @ xs" using g(1) assms(2) names_of_join by simp
  let ?x = "''/'' @ join_with ''/'' (names_of r @ xs)" and ?y = "''/'' @ join_with ''/'' (names_of r @ ys)"
  have e: "?y = ?x \<longleftrightarrow> ys = xs" using g(1) assms(2,3) abs_names_eq [of "names_of r @ ys" "names_of r @ xs"] by simp
  have pl: "list_all plain_name (names_of r @ ys)" using g(1) assms(3) by simp
  have "prefix (names_of r @ xs) (names_of r @ ys) \<longleftrightarrow> prefix xs ys" by simp
  with u [OF pl] have p: "?y = ?x \<or> starts_with (?x @ ''/'') ?y \<longleftrightarrow> prefix xs ys" unfolding nx by (simp only:)
  have "\<not> starts_with (?x @ ''/'') ?x" by (auto simp: starts_with_prefix dest: prefix_length_le)
  with e p have "starts_with (?x @ ''/'') ?y \<longleftrightarrow> strict_prefix xs ys" by (metis strict_prefix_def)
  then show ?thesis unfolding j [OF assms(2)] j [OF assms(3)] inside_of_def gx(3) .
qed

text \<open>When the overlap check lets a transfer within one container pass, the destination is not the source and not
  below it, so a tree is never copied into itself; with pruning the source is not below the destination either.\<close>

theorem passed_transfer_is_disjoint:
  assumes "refuse_src_dest_overlap l real same (GuestSide name src) (GuestSide name dest) deref pruning = None"
    and "good_root (real (rootfs_string l name))" and "list_all plain_name src" and "list_all plain_name dest"
  shows "\<not> prefix src dest \<and> (pruning \<longrightarrow> \<not> prefix dest src)"
proof -
  note i = inside_names [OF assms(2)]
  have "src \<noteq> dest" "\<not> strict_prefix src dest" "pruning \<longrightarrow> \<not> strict_prefix dest src"
    using assms(1) i [OF assms(3,4)] i [OF assms(4,3)]
    by (auto simp: refuse_src_dest_overlap_def overlap_path_def Let_def split: if_splits)
  then show ?thesis by (auto simp: strict_prefix_def)
qed

theorem passed_transfer_is_disjoint_witness:
  "refuse_src_dest_overlap sample_layout id False (GuestSide ''deb'' [''a'']) (GuestSide ''deb'' [''ab'']) True True = None
   \<and> \<not> prefix [''a''] [''ab'']"
proof -
  have r: "refuse_src_dest_overlap sample_layout id False (GuestSide ''deb'' [''a'']) (GuestSide ''deb'' [''ab'']) True True = None" by code_simp
  have s: "rootfs_string sample_layout ''deb'' = ''/'' @ join_with ''/'' [''rt'', ''containers'', ''deb'', ''rootfs'']" by code_simp
  have pl: "list_all plain_name [''rt'', ''containers'', ''deb'', ''rootfs'']" "list_all plain_name [''a'']" "list_all plain_name [''ab'']" by code_simp+
  have "good_root (id (rootfs_string sample_layout ''deb''))" unfolding id_apply s good_root_def using pl(1) by blast
  from passed_transfer_is_disjoint [OF r this pl(2,3)] r show ?thesis by blast
qed

subsection \<open>Locks\<close>

text \<open>A transfer under way: its two specs and how many of its locks it holds. It waits for the next one.\<close>

type_synonym transfer = "string \<times> string \<times> nat"

definition locks_of :: "transfer \<Rightarrow> string list" where
  "locks_of t = (case t of (src, dst, k) \<Rightarrow> map fst (spec_locks src dst))"

definition waits_for :: "transfer \<Rightarrow> transfer \<Rightarrow> bool" where
  "waits_for a b \<longleftrightarrow> snd (snd a) < length (locks_of a) \<and> locks_of a ! snd (snd a) \<in> set (take (snd (snd b)) (locks_of b))"

lemma locks_sorted: "sorted_wrt (<) (locks_of t)"
  by (cases t) (auto simp: locks_of_def spec_locks_def Let_def comp_def map_idI)

lemma waits_step:
  assumes "waits_for a b" and "snd (snd b) < length (locks_of b)"
  shows "locks_of a ! snd (snd a) < locks_of b ! snd (snd b)"
proof -
  from assms(1) obtain j where "j < snd (snd b)" "locks_of b ! j = locks_of a ! snd (snd a)"
    by (auto simp: waits_for_def in_set_conv_nth)
  with sorted_wrt_nth_less [OF locks_sorted [of b]] assms(2) show ?thesis by metis
qed

lemma waits_trans:
  "(a, b) \<in> {(a, b). waits_for a b}\<^sup>+ \<Longrightarrow> snd (snd b) < length (locks_of b) \<Longrightarrow>
     locks_of a ! snd (snd a) < locks_of b ! snd (snd b)"
proof (induction rule: trancl_induct)
  case (base b)
  then show ?case using waits_step by simp
next
  case (step b c)
  from step.hyps(2) have "snd (snd b) < length (locks_of b)" by (simp add: waits_for_def)
  with step.IH step.hyps(2) step.prems waits_step [of b c] show ?case by auto
qed


end
