(* ===== verification/Image_Cache.thy ===== *)
theory Image_Cache
  imports Container_State Json_Print Image_Refs Arch
begin

text \<open>
  \<open>helpers/docker/cache.py\<close>: the layer blobs under \<open>oci_layers\<close>, each named for the digest of its content,
  and the manifest entries under \<open>oci_manifests\<close>, each named for a hash of its reference and architecture.
  Both directories are writable by the guests, so every read checks what it is given. SHA-256 is an argument,
  \<open>sha\<close>: the lower-case hex digest of some bytes. A descriptor is the inode it was opened on.
\<close>

subsection \<open>Names\<close>

datatype cache_error =
    MalformedDigest string | UnsupportedAlgorithm string | MalformedManifest string
  | BlobMissing string | BlobAltered string

definition LAYER_CACHE_DIR :: "layout \<Rightarrow> string" where
  "LAYER_CACHE_DIR l = py_join (lo_cache l) ''oci_layers''"

definition MANIFEST_CACHE_DIR :: "layout \<Rightarrow> string" where
  "MANIFEST_CACHE_DIR l = py_join (lo_cache l) ''oci_manifests''"

definition validate_digest :: "string \<Rightarrow> cache_error + string" where
  "validate_digest d = (if valid_digest d then Inr d else Inl (MalformedDigest d))"

definition layer_cache_name :: "string \<Rightarrow> cache_error + string" where
  "layer_cache_name d =
     bindR (validate_digest d) (\<lambda>d. Inr (map (\<lambda>c. if c = CHR '':'' then CHR ''_'' else c) d))"

definition layer_cache_path :: "layout \<Rightarrow> string \<Rightarrow> cache_error + string" where
  "layer_cache_path l d = bindR (layer_cache_name d) (\<lambda>n. Inr (py_join (LAYER_CACHE_DIR l) n))"

text \<open>UTF-8 of the alphabet's characters, which hold no surrogate.\<close>

definition utf8_char :: "char \<Rightarrow> string" where
  "utf8_char c = (if code c < 128 then [c] else [char_of (192 + code c div 64), char_of (128 + code c mod 64)])"

definition manifest_cache_key :: "(string \<Rightarrow> string) \<Rightarrow> string \<Rightarrow> string \<Rightarrow> string" where
  "manifest_cache_key sha ref arch = take 16 (sha (concat (map utf8_char (canonical_ref ref @ ''_'' @ arch))))"

definition manifest_cache_name :: "(string \<Rightarrow> string) \<Rightarrow> string \<Rightarrow> string \<Rightarrow> string" where
  "manifest_cache_name sha ref arch = manifest_cache_key sha ref arch @ ''.json''"

definition manifest_cache_path :: "(string \<Rightarrow> string) \<Rightarrow> layout \<Rightarrow> string \<Rightarrow> string \<Rightarrow> string" where
  "manifest_cache_path sha l ref arch = py_join (MANIFEST_CACHE_DIR l) (manifest_cache_name sha ref arch)"

definition open_manifest_cache_dir :: "layout \<Rightarrow> fs \<Rightarrow> state_error + path" where
  "open_manifest_cache_dir l s = fst (open_state_dir l False s (MANIFEST_CACHE_DIR l))"

definition open_layer_cache_dir :: "layout \<Rightarrow> fs \<Rightarrow> state_error + path" where
  "open_layer_cache_dir l s = fst (open_state_dir l False s (LAYER_CACHE_DIR l))"

subsection \<open>The shape of a manifest\<close>

fun descriptors :: "json list \<Rightarrow> jobject list option" where
  "descriptors [] = Some []"
| "descriptors (JObj d # xs) =
     (case dict_get d ''digest'' of Some (JStr g) \<Rightarrow> map_option (Cons d) (descriptors xs) | _ \<Rightarrow> None)"
| "descriptors (_ # xs) = None"

definition manifest_layers :: "json \<Rightarrow> string \<Rightarrow> cache_error + jobject list" where
  "manifest_layers m ref =
     (case m of
        JObj d \<Rightarrow>
          (case dict_get d ''layers'' of
             None \<Rightarrow> Inr []
           | Some (JArr xs) \<Rightarrow>
               (case descriptors xs of None \<Rightarrow> Inl (MalformedManifest ref) | Some ls \<Rightarrow> Inr ls)
           | Some _ \<Rightarrow> Inl (MalformedManifest ref))
      | _ \<Rightarrow> Inl (MalformedManifest ref))"

definition digest_of :: "jobject \<Rightarrow> string" where
  "digest_of d = string_field d ''digest''"

text \<open>\<open>_entry_manifest\<close>: the layers and the config digest of an entry.\<close>

definition entry_manifest :: "jobject \<Rightarrow> string \<Rightarrow> (jobject list \<times> string) option" where
  "entry_manifest payload name =
     (case dict_get payload ''manifest'' of
        Some (JObj m) \<Rightarrow>
          (case manifest_layers (JObj m) name of
             Inl e \<Rightarrow> None
           | Inr ls \<Rightarrow>
               (case dict_get m ''config'' of
                  None \<Rightarrow> Some (ls, [])
                | Some JNull \<Rightarrow> Some (ls, [])
                | Some (JObj c) \<Rightarrow>
                    (case dict_get c ''digest'' of
                       None \<Rightarrow> Some (ls, [])
                     | Some JNull \<Rightarrow> Some (ls, [])
                     | Some (JStr g) \<Rightarrow> Some (ls, g)
                     | Some _ \<Rightarrow> None)
                | Some _ \<Rightarrow> None))
      | _ \<Rightarrow> None)"

subsection \<open>Base64\<close>

text \<open>
  \<open>base64.b64encode\<close> and \<open>b64decode\<close> with \<open>validate\<close>, on groups of four. The interpreter's releases differ on
  a padding character after a complete text; it is refused here.
\<close>

definition B64_ALPHABET :: string where
  "B64_ALPHABET = ''ABCDEFGHIJKLMNOPQRSTUVWXYZabcdefghijklmnopqrstuvwxyz0123456789+/''"

definition b64_char :: "nat \<Rightarrow> char" where
  "b64_char n = B64_ALPHABET ! n"

definition b64_val :: "char \<Rightarrow> nat option" where
  "b64_val c =
     (let n = code c in
      if 65 \<le> n \<and> n \<le> 90 then Some (n - 65)
      else if 97 \<le> n \<and> n \<le> 122 then Some (n - 71)
      else if 48 \<le> n \<and> n \<le> 57 then Some (n + 4)
      else if n = 43 then Some 62
      else if n = 47 then Some 63
      else None)"

fun b64encode :: "string \<Rightarrow> string" where
  "b64encode (a # b # c # s) =
     [b64_char (code a div 4), b64_char (code a mod 4 * 16 + code b div 16),
      b64_char (code b mod 16 * 4 + code c div 64), b64_char (code c mod 64)] @ b64encode s"
| "b64encode [a, b] =
     [b64_char (code a div 4), b64_char (code a mod 4 * 16 + code b div 16), b64_char (code b mod 16 * 4), CHR ''='']"
| "b64encode [a] = [b64_char (code a div 4), b64_char (code a mod 4 * 16), CHR ''='', CHR ''='']"
| "b64encode [] = []"

definition b64_byte :: "nat \<Rightarrow> char" where
  "b64_byte n = char_of (n mod 256)"

fun b64decode :: "string \<Rightarrow> string option" where
  "b64decode [] = Some []"
| "b64decode (w # x # y # z # s) =
     (case (b64_val w, b64_val x) of
        (Some p, Some q) \<Rightarrow>
          (if y = CHR ''='' \<and> z = CHR ''='' \<and> s = [] then Some [b64_byte (p * 4 + q div 16)]
           else case b64_val y of
               None \<Rightarrow> None
             | Some r \<Rightarrow>
                 (if z = CHR ''='' \<and> s = [] then Some [b64_byte (p * 4 + q div 16), b64_byte (q * 16 + r div 4)]
                  else case b64_val z of
                      None \<Rightarrow> None
                    | Some t \<Rightarrow>
                        map_option (\<lambda>rest. b64_byte (p * 4 + q div 16) # b64_byte (q * 16 + r div 4) # b64_byte (r * 64 + t) # rest)
                          (b64decode s)))
      | _ \<Rightarrow> None)"
| "b64decode s = None"

subsection \<open>Manifest entries\<close>

text \<open>\<open>_load_entry\<close>: the payload and the file's time, or \<open>None\<close>.\<close>

definition load_entry :: "fs \<Rightarrow> path \<Rightarrow> string \<Rightarrow> (jobject \<times> int) option" where
  "load_entry s d name =
     (case open_regular_at s d name of
        Inl e \<Rightarrow> None
      | Inr i \<Rightarrow>
          (case read_state_file (fd_bytes (f_data s i)) of
             None \<Rightarrow> None
           | Some raw \<Rightarrow>
               (case json_loads_bytes raw of Some (JObj p) \<Rightarrow> Some (p, fd_mtime (f_data s i)) | _ \<Rightarrow> None)))"

definition read_entry :: "(string \<Rightarrow> string) \<Rightarrow> layout \<Rightarrow> fs \<Rightarrow> string \<Rightarrow> string \<Rightarrow> jobject option" where
  "read_entry sha l s ref arch =
     (case open_manifest_cache_dir l s of
        Inl e \<Rightarrow> None
      | Inr d \<Rightarrow> map_option fst (load_entry s d (manifest_cache_name sha ref arch)))"

text \<open>\<open>atomic_write\<close> around \<open>json.dump\<close>: the block fills the temporary; \<open>ext\<close> is its suffix.\<close>

definition dump_block :: "json \<Rightarrow> unit block" where
  "dump_block v i s = (None, write_inode i ((f_data s i)\<lparr>fd_bytes := json_dumps v\<rparr>) s)"

definition dump_json :: "layout \<Rightarrow> string \<Rightarrow> json \<Rightarrow> fs \<Rightarrow> string \<Rightarrow> (unit failure + nat) \<times> fs" where
  "dump_json l ext v s p = atomic_replace l ext (dump_block v) s p"

definition manifest_payload :: "string \<Rightarrow> string \<Rightarrow> json \<Rightarrow> string \<Rightarrow> json \<Rightarrow> (string \<times> string) list \<Rightarrow> jobject" where
  "manifest_payload ref arch manifest rp config documents =
     [(''image_ref'', JStr ref), (''arch'', JStr arch), (''manifest'', manifest), (''repo'', JStr rp), (''image_config'', config)]
     @ (if documents = [] then []
        else [(''documents'', JObj (map (\<lambda>(g, body). (g, JStr (b64encode body))) documents))])"

definition save_manifest_cache ::
    "(string \<Rightarrow> string) \<Rightarrow> layout \<Rightarrow> string \<Rightarrow> string \<Rightarrow> string \<Rightarrow> json \<Rightarrow> string \<Rightarrow> json \<Rightarrow> (string \<times> string) list
      \<Rightarrow> fs \<Rightarrow> (unit failure + nat) \<times> fs" where
  "save_manifest_cache sha l ext ref arch manifest rp config documents s =
     dump_json l ext (JObj (manifest_payload ref arch manifest rp config documents)) s (manifest_cache_path sha l ref arch)"

text \<open>Python's truth of a JSON value; a number is false when it is written as a zero; one that underflows counts as
  true here.\<close>

definition zero_number :: "string \<Rightarrow> bool" where
  "zero_number t \<longleftrightarrow> list_all (\<lambda>c. c \<in> {CHR ''-'', CHR ''.'', CHR ''0''}) (takeWhile (\<lambda>c. c \<noteq> CHR ''e'' \<and> c \<noteq> CHR ''E'') t)"

fun truthy :: "json \<Rightarrow> bool" where
  "truthy JNull \<longleftrightarrow> False"
| "truthy (JBool b) \<longleftrightarrow> b"
| "truthy (JNum t) \<longleftrightarrow> \<not> zero_number t"
| "truthy (JStr t) \<longleftrightarrow> t \<noteq> []"
| "truthy (JArr xs) \<longleftrightarrow> xs \<noteq> []"
| "truthy (JObj d) \<longleftrightarrow> d \<noteq> []"

definition get_true :: "jobject \<Rightarrow> string \<Rightarrow> bool" where
  "get_true d k \<longleftrightarrow> (case dict_get d k of Some v \<Rightarrow> truthy v | None \<Rightarrow> False)"

definition annotate_manifest_cache ::
    "(string \<Rightarrow> string) \<Rightarrow> layout \<Rightarrow> string \<Rightarrow> string \<Rightarrow> string \<Rightarrow> fs \<Rightarrow> fs" where
  "annotate_manifest_cache sha l ext ref arch s =
     (case read_entry sha l s ref arch of
        None \<Rightarrow> s
      | Some p \<Rightarrow>
          (if dict_get p ''manifest'' = None \<or> get_true p ''image_ref'' \<and> get_true p ''arch'' then s
           else snd (dump_json l ext (JObj (dict_set ''arch'' (JStr arch) (dict_set ''image_ref'' (JStr ref) p))) s
                  (manifest_cache_path sha l ref arch))))"

text \<open>\<open>None\<close> is the miss, \<open>(None, None, {})\<close> in the code. The stored values have whatever type they have.\<close>

definition load_manifest_cache ::
    "(string \<Rightarrow> string) \<Rightarrow> layout \<Rightarrow> fs \<Rightarrow> string \<Rightarrow> string \<Rightarrow> (json \<times> json \<times> json) option" where
  "load_manifest_cache sha l s ref arch =
     (case read_entry sha l s ref arch of
        None \<Rightarrow> None
      | Some p \<Rightarrow>
          (case (dict_get p ''manifest'', dict_get p ''repo'') of
             (Some m, Some r) \<Rightarrow> Some (m, r, case dict_get p ''image_config'' of None \<Rightarrow> JObj [] | Some c \<Rightarrow> c)
           | _ \<Rightarrow> None))"

fun decode_documents :: "jobject \<Rightarrow> (string \<times> string) list" where
  "decode_documents [] = []"
| "decode_documents ((g, JStr e) # d) =
     (case b64decode e of None \<Rightarrow> decode_documents d | Some b \<Rightarrow> (g, b) # decode_documents d)"
| "decode_documents (_ # d) = decode_documents d"

definition load_manifest_documents ::
    "(string \<Rightarrow> string) \<Rightarrow> layout \<Rightarrow> fs \<Rightarrow> string \<Rightarrow> string \<Rightarrow> (string \<times> string) list" where
  "load_manifest_documents sha l s ref arch =
     (case read_entry sha l s ref arch of
        None \<Rightarrow> []
      | Some p \<Rightarrow> (case dict_get p ''documents'' of Some (JObj d) \<Rightarrow> decode_documents d | _ \<Rightarrow> []))"

subsection \<open>Blob integrity\<close>

definition split_digest :: "string \<Rightarrow> cache_error + string \<times> string" where
  "split_digest d =
     bindR (validate_digest d) (\<lambda>d.
       let algo = takeWhile (\<lambda>c. c \<noteq> CHR '':'') d; hex = drop (length algo + 1) d in
       if str_lower algo \<noteq> ''sha256'' then Inl (UnsupportedAlgorithm d) else Inr (str_lower algo, str_lower hex))"

definition data_matches_digest :: "(string \<Rightarrow> string) \<Rightarrow> string \<Rightarrow> string \<Rightarrow> cache_error + bool" where
  "data_matches_digest sha data d = bindR (split_digest d) (\<lambda>(algo, expected). Inr (sha data = expected))"

definition require_data_digest :: "(string \<Rightarrow> string) \<Rightarrow> string \<Rightarrow> string \<Rightarrow> cache_error + string" where
  "require_data_digest sha data d =
     bindR (data_matches_digest sha data d) (\<lambda>b. if b then Inr data else Inl (BlobAltered d))"

definition fd_matches_digest :: "(string \<Rightarrow> string) \<Rightarrow> fs \<Rightarrow> nat \<Rightarrow> string \<Rightarrow> cache_error + bool" where
  "fd_matches_digest sha s i d = bindR (split_digest d) (\<lambda>(algo, expected). Inr (sha (fd_bytes (f_data s i)) = expected))"

text \<open>\<open>_open_blob\<close>: the directory's descriptor and the blob's.\<close>

definition open_blob :: "layout \<Rightarrow> fs \<Rightarrow> string \<Rightarrow> cache_error + (path \<times> nat) option" where
  "open_blob l s d =
     bindR (layer_cache_name d) (\<lambda>name.
       case open_layer_cache_dir l s of
         Inl e \<Rightarrow> Inr None
       | Inr dir \<Rightarrow> (case open_regular_at s dir name of Inl e \<Rightarrow> Inr None | Inr i \<Rightarrow> Inr (Some (dir, i))))"

definition blob_present :: "layout \<Rightarrow> fs \<Rightarrow> string \<Rightarrow> cache_error + bool" where
  "blob_present l s d = bindR (open_blob l s d) (\<lambda>r. Inr (r \<noteq> None))"

text \<open>A blob that no longer matches is unlinked through the directory it was opened in.\<close>

definition open_verified_layer ::
    "(string \<Rightarrow> string) \<Rightarrow> layout \<Rightarrow> bool \<Rightarrow> fs \<Rightarrow> string \<Rightarrow> (cache_error + nat option) \<times> fs" where
  "open_verified_layer sha l evict s d =
     (case open_blob l s d of
        Inl e \<Rightarrow> (Inl e, s)
      | Inr None \<Rightarrow> (Inr None, s)
      | Inr (Some (dir, i)) \<Rightarrow>
          (case fd_matches_digest sha s i d of
             Inl e \<Rightarrow> (Inl e, s)
           | Inr True \<Rightarrow> (Inr (Some i), s)
           | Inr False \<Rightarrow>
               (if evict then
                  (case layer_cache_name d of Inl e \<Rightarrow> (Inl e, s) | Inr name \<Rightarrow> (Inr None, unlink_quietly s dir name))
                else (Inr None, s))))"

definition open_required_layer :: "(string \<Rightarrow> string) \<Rightarrow> layout \<Rightarrow> fs \<Rightarrow> string \<Rightarrow> cache_error + nat" where
  "open_required_layer sha l s d =
     bindR (open_blob l s d) (\<lambda>r.
       case r of
         None \<Rightarrow> Inl (BlobMissing d)
       | Some (dir, i) \<Rightarrow> bindR (fd_matches_digest sha s i d) (\<lambda>b. if b then Inr i else Inl (BlobAltered d)))"

subsection \<open>The inventory\<close>

definition blob_size :: "fs \<Rightarrow> path option \<Rightarrow> string \<Rightarrow> nat option" where
  "blob_size s layers d =
     (case layers of
        None \<Rightarrow> None
      | Some dir \<Rightarrow>
          (case layer_cache_name d of
             Inl e \<Rightarrow> None
           | Inr name \<Rightarrow>
               (case lstat_at s dir name of Inr (NFile i) \<Rightarrow> Some (length (fd_bytes (f_data s i))) | _ \<Rightarrow> None)))"

record image_record =
  im_path :: string
  im_name :: string
  im_key :: string
  im_ref :: string
  im_repo :: string
  im_arch :: string
  im_id :: string
  im_layers :: "jobject list"
  im_size :: nat
  im_missing :: nat
  im_created :: string
  im_cached_at :: int

definition ARCH_TO_DOCKER :: "(string \<times> string \<times> string) list" where
  "ARCH_TO_DOCKER =
     [(''aarch64'', ''arm64'', []), (''arm'', ''arm'', ''v7''), (''i686'', ''386'', []), (''x86_64'', ''amd64'', []),
      (''riscv64'', ''riscv64'', [])]"

definition DOCKER_TO_ARCH :: "(string \<times> string) list" where
  "DOCKER_TO_ARCH = map (\<lambda>(pd, docker, v). (docker, pd)) ARCH_TO_DOCKER"

text \<open>\<open>os.path.splitext\<close> of a name that ends in \<open>.json\<close>: leading dots begin no extension.\<close>

definition json_stem :: "string \<Rightarrow> string" where
  "json_stem name =
     (let stem = take (length name - 5) name in if list_all (\<lambda>c. c = CHR ''.'') stem then name else stem)"

definition or_else :: "string \<Rightarrow> string \<Rightarrow> string" where
  "or_else a b = (if a = [] then b else a)"

definition read_image_record ::
    "layout \<Rightarrow> fs \<Rightarrow> path \<Rightarrow> string \<Rightarrow> path option \<Rightarrow> string \<Rightarrow> string \<Rightarrow> image_record option" where
  "read_image_record l s d name layers ref arch =
     (case load_entry s d name of
        None \<Rightarrow> None
      | Some (p, mtime) \<Rightarrow>
          (case entry_manifest p name of
             None \<Rightarrow> None
           | Some (ls, cfg) \<Rightarrow>
               (let config = (case dict_get p ''image_config'' of Some (JObj c) \<Rightarrow> c | _ \<Rightarrow> []);
                    sizes = map (\<lambda>x. blob_size s layers (digest_of x)) ls
                in Some \<lparr>im_path = py_join (MANIFEST_CACHE_DIR l) name, im_name = name,
                     im_key = json_stem name,
                     im_ref = or_else (string_field p ''image_ref'') ref,
                     im_repo = string_field p ''repo'',
                     im_arch = or_else (or_else (string_field p ''arch'') arch)
                       (case dict_get DOCKER_TO_ARCH (string_field config ''architecture'') of None \<Rightarrow> [] | Some a \<Rightarrow> a),
                     im_id = last (split_on CHR '':'' cfg),
                     im_layers = ls, im_size = sum_list (List.map_filter id sizes), im_missing = length (filter (\<lambda>x. x = None) sizes),
                     im_created = string_field config ''created'', im_cached_at = mtime\<rparr>)))"

text \<open>\<open>_open_layers_quietly\<close>.\<close>

definition open_layers_quietly :: "layout \<Rightarrow> fs \<Rightarrow> path option" where
  "open_layers_quietly l s = (case open_layer_cache_dir l s of Inl e \<Rightarrow> None | Inr d \<Rightarrow> Some d)"

definition image_cache_entry :: "(string \<Rightarrow> string) \<Rightarrow> layout \<Rightarrow> fs \<Rightarrow> string \<Rightarrow> string \<Rightarrow> image_record option" where
  "image_cache_entry sha l s ref arch =
     (case open_manifest_cache_dir l s of
        Inl e \<Rightarrow> None
      | Inr d \<Rightarrow>
          read_image_record l s d (manifest_cache_name sha ref arch) (open_layers_quietly l s) (canonical_ref ref) arch)"

definition ref_hints :: "(string \<Rightarrow> string) \<Rightarrow> layout \<Rightarrow> fs \<Rightarrow> (string \<times> string \<times> string) list" where
  "ref_hints sha l s =
     fold (\<lambda>name hints.
         let (ref, arch) = container_image_origin l s name; key = manifest_cache_key sha ref arch in
         if ref = [] \<or> arch = [] \<or> dict_get hints key \<noteq> None then hints else hints @ [(key, ref, arch)])
       (installed_container_names l s) []"

definition is_json_name :: "string \<Rightarrow> bool" where
  "is_json_name n \<longleftrightarrow> ends_with ''.json'' n"

definition name_record :: "(string \<times> string \<times> string) list \<Rightarrow> image_record \<Rightarrow> image_record" where
  "name_record hints r =
     (if im_ref r \<noteq> [] then r
      else case dict_get hints (im_key r) of
          None \<Rightarrow> r
        | Some (ref, arch) \<Rightarrow> r\<lparr>im_ref := ref, im_arch := or_else (im_arch r) arch\<rparr>)"

text \<open>The records' order: named ones first, then by reference, architecture and key.\<close>

definition sort_records :: "image_record list \<Rightarrow> image_record list" where
  "sort_records rs = sort_key (\<lambda>r. im_ref r = []) (sort_key im_ref (sort_key im_arch (sort_key im_key rs)))"

definition iter_cached_images :: "(string \<Rightarrow> string) \<Rightarrow> layout \<Rightarrow> fs \<Rightarrow> image_record list" where
  "iter_cached_images sha l s =
     (case open_manifest_cache_dir l s of
        Inl e \<Rightarrow> []
      | Inr d \<Rightarrow>
          sort_records
            (map (name_record (ref_hints sha l s))
              (List.map_filter (\<lambda>n. read_image_record l s d n (open_layers_quietly l s) [] [])
                (filter is_json_name (listdir_at s d)))))"

text \<open>\<open>referenced_blob_digests\<close>: the digests the entries name, and the entries it could not read.\<close>

definition entry_digests :: "fs \<Rightarrow> path \<Rightarrow> string \<Rightarrow> string list option" where
  "entry_digests s d n =
     (case load_entry s d n of
        None \<Rightarrow> None
      | Some (p, mtime) \<Rightarrow>
          (case entry_manifest p n of
             None \<Rightarrow> None
           | Some (ls, cfg) \<Rightarrow> Some (map digest_of ls @ (if cfg = [] then [] else [cfg]))))"

fun collect_digests :: "layout \<Rightarrow> fs \<Rightarrow> path \<Rightarrow> string list \<Rightarrow> string list \<times> string list" where
  "collect_digests l s d [] = ([], [])"
| "collect_digests l s d (n # ns) =
     (let (ds, bad) = collect_digests l s d ns in
      if \<not> is_json_name n then (ds, bad)
      else case entry_digests s d n of
          None \<Rightarrow> (ds, py_join (MANIFEST_CACHE_DIR l) n # bad)
        | Some gs \<Rightarrow> (gs @ ds, bad))"

definition referenced_blob_digests :: "layout \<Rightarrow> fs \<Rightarrow> string list \<times> string list" where
  "referenced_blob_digests l s =
     (case open_manifest_cache_dir l s of
        Inl e \<Rightarrow> if e = StateErr ENOENT then ([], []) else ([], [MANIFEST_CACHE_DIR l])
      | Inr d \<Rightarrow> collect_digests l s d (listdir_at s d))"

end
