(* ===== verification/Build_Index.thy ===== *)
theory Build_Index
  imports Image_Cache
begin

text \<open>
  The build cache's index file, of \<open>helpers/build_cache.py\<close>: read through the state walk, looked up and
  extended by the build, read by the layer sweep for the blobs it pins, and discarded. The file lock around
  an update serialises builds; each operation here is one holder's turn.
\<close>

definition INDEX_PATH :: "layout \<Rightarrow> string" where
  "INDEX_PATH l = py_join (lo_cache l) ''build_cache_index.json''"

text \<open>\<open>_read_index\<close>: \<open>Inl None\<close> is the \<open>FileNotFoundError\<close>, \<open>Inl (Some e)\<close> any other failure, EFBIG among them.\<close>

datatype index_error = IndexState state_error | IndexTooLarge

definition index_parent :: "layout \<Rightarrow> fs \<Rightarrow> state_error + path \<times> string" where
  "index_parent l s = fst (open_state_parent l False s (INDEX_PATH l))"

definition read_index :: "layout \<Rightarrow> fs \<Rightarrow> index_error option + string" where
  "read_index l s =
     (case index_parent l s of
        Inl e \<Rightarrow> Inl (if e = StateErr ENOENT then None else Some (IndexState e))
      | Inr (d, name) \<Rightarrow>
          (case open_regular_at s d name of
             Inl e \<Rightarrow> Inl (if e = ENOENT then None else Some (IndexState (StateErr e)))
           | Inr i \<Rightarrow>
               (case read_state_file (fd_bytes (f_data s i)) of
                  None \<Rightarrow> Inl (Some IndexTooLarge)
                | Some raw \<Rightarrow> Inr raw)))"

definition fresh_index :: jobject where
  "fresh_index = [(''version'', JNum ''1''), (''entries'', JObj [])]"

definition setdefault :: "string \<Rightarrow> json \<Rightarrow> jobject \<Rightarrow> jobject" where
  "setdefault k v d = (if dict_get d k = None then dict_set k v d else d)"

definition load_index :: "layout \<Rightarrow> fs \<Rightarrow> jobject" where
  "load_index l s =
     (case read_index l s of
        Inl e \<Rightarrow> fresh_index
      | Inr raw \<Rightarrow>
          (case json_loads_bytes raw of
             Some (JObj d) \<Rightarrow>
               (let d1 = setdefault ''entries'' (JObj []) (setdefault ''version'' (JNum ''1'') d) in
                case dict_get d1 ''entries'' of Some (JObj es) \<Rightarrow> d1 | _ \<Rightarrow> dict_set ''entries'' (JObj []) d1)
           | _ \<Rightarrow> fresh_index))"

definition index_entries :: "jobject \<Rightarrow> jobject" where
  "index_entries d = (case dict_get d ''entries'' of Some (JObj es) \<Rightarrow> es | _ \<Rightarrow> [])"

definition lookup_index :: "layout \<Rightarrow> fs \<Rightarrow> string \<Rightarrow> json option" where
  "lookup_index l s recipe = (if recipe = [] then None else dict_get (index_entries (load_index l s)) recipe)"

subsection \<open>Recording a step\<close>

text \<open>\<open>json.dump(..., indent=2, sort_keys=True)\<close>; \<open>k\<close> is the depth.\<close>

definition new_line :: "nat \<Rightarrow> string" where
  "new_line k = CHR 0x0A # replicate (2 * k) CHR '' ''"

fun json_pretty :: "nat \<Rightarrow> json \<Rightarrow> string" where
  "json_pretty k (JArr xs) =
     (if xs = [] then ''[]''
      else ''['' @ new_line (Suc k) @ join_with (CHR '','' # new_line (Suc k)) (map (json_pretty (Suc k)) xs) @ new_line k @ '']'')"
| "json_pretty k (JObj ms) =
     (if ms = [] then ''{}''
      else ''{'' @ new_line (Suc k)
        @ join_with (CHR '','' # new_line (Suc k))
            (map snd (sort_key fst (map (\<lambda>(n, v). (n, json_dump_str n @ '': '' @ json_pretty (Suc k) v)) ms)))
        @ new_line k @ ''}'')"
| "json_pretty k v = json_dumps v"

definition text_block :: "string \<Rightarrow> unit block" where
  "text_block t i s = (None, write_inode i ((f_data s i)\<lparr>fd_bytes := t\<rparr>) s)"

definition save_index :: "layout \<Rightarrow> string \<Rightarrow> jobject \<Rightarrow> fs \<Rightarrow> (unit failure + nat) \<times> fs" where
  "save_index l ext d s = atomic_replace l ext (text_block (json_pretty 0 (JObj d))) s (INDEX_PATH l)"

definition index_record :: "string \<Rightarrow> string \<Rightarrow> nat \<Rightarrow> jobject \<Rightarrow> string \<Rightarrow> json" where
  "index_record layer_digest diff_id sz patch created =
     JObj [(''layer_digest'', JStr layer_digest), (''diff_id'', JStr diff_id), (''size'', JNum (nat_str sz)),
           (''image_config_patch'', JObj patch), (''created'', JStr created)]"

definition record_index ::
    "layout \<Rightarrow> string \<Rightarrow> string \<Rightarrow> json \<Rightarrow> fs \<Rightarrow> (unit failure + nat) \<times> fs" where
  "record_index l ext recipe entry s =
     (let d = load_index l s in save_index l ext (dict_set ''entries'' (JObj (dict_set recipe entry (index_entries d))) d) s)"

subsection \<open>The blobs it pins\<close>

text \<open>
  \<open>recorded_layer_digests\<close>. \<open>PinsUnhashable\<close> is the \<open>TypeError\<close> of adding a list or an object to a set; a number
  or a truth value is added and names no file, so it is left out. \<open>Unreadable\<close> is the second component's False.
\<close>

datatype pins = Unreadable | PinsUnhashable | Pins "string list"

fun entry_pins :: "json list \<Rightarrow> string list option" where
  "entry_pins [] = Some []"
| "entry_pins (JObj e # vs) =
     (case dict_get e ''layer_digest'' of
        None \<Rightarrow> entry_pins vs
      | Some (JStr g) \<Rightarrow> map_option (\<lambda>gs. if g = [] then gs else g # gs) (entry_pins vs)
      | Some (JArr xs) \<Rightarrow> if xs = [] then entry_pins vs else None
      | Some (JObj d) \<Rightarrow> if d = [] then entry_pins vs else None
      | Some _ \<Rightarrow> entry_pins vs)"
| "entry_pins (_ # vs) = entry_pins vs"

definition recorded_layer_digests :: "layout \<Rightarrow> fs \<Rightarrow> pins" where
  "recorded_layer_digests l s =
     (case read_index l s of
        Inl None \<Rightarrow> Pins []
      | Inl (Some e) \<Rightarrow> Unreadable
      | Inr raw \<Rightarrow>
          (case json_loads_bytes raw of
             Some (JObj d) \<Rightarrow>
               (case dict_get d ''entries'' of
                  Some (JObj es) \<Rightarrow> (case entry_pins (map snd es) of None \<Rightarrow> PinsUnhashable | Some gs \<Rightarrow> Pins gs)
                | _ \<Rightarrow> Unreadable)
           | _ \<Rightarrow> Unreadable))"

text \<open>\<open>discard_index\<close>: the size is the one \<open>lstat\<close> reports for a file or a link.\<close>

definition entry_size :: "fs \<Rightarrow> node \<Rightarrow> nat" where
  "entry_size s x = (case x of NFile i \<Rightarrow> length (fd_bytes (f_data s i)) | NLink t m \<Rightarrow> length t | _ \<Rightarrow> 0)"

definition discard_index :: "layout \<Rightarrow> fs \<Rightarrow> (state_error + bool \<times> nat) \<times> fs" where
  "discard_index l s =
     (case index_parent l s of
        Inl e \<Rightarrow> (if e = StateErr ENOENT then Inr (False, 0) else Inl e, s)
      | Inr (d, name) \<Rightarrow>
          (case lstat_at s d name of
             Inl e \<Rightarrow> (Inr (False, 0), s)
           | Inr x \<Rightarrow>
               (case unlink_at s d name of
                  Inl e \<Rightarrow> (if e = ENOENT then Inr (False, 0) else Inl (StateErr e), s)
                | Inr t \<Rightarrow> (Inr (True, entry_size s x), t))))"

end
