(* ===== verification/Clear_Cache.thy ===== *)
theory Clear_Cache
  imports Build_Index Locking
begin

text \<open>
  \<open>commands/clear_cache.py\<close>: emptying the download cache, and the sweep that deletes the layer blobs no cached
  image and, unless the index goes too, no recorded build step names. Permission bits are not enforced in the
  file model, so the branch that relaxes a sealed directory is not reached.
\<close>

subsection \<open>Measuring a tree\<close>

text \<open>
  \<open>_tree_size\<close>: an explicit stack of directories with the names still to visit, taken from the end.
  \<open>Levels\<close> keeps the number of open descriptors down and changes nothing here.
\<close>

fun size_walk :: "nat \<Rightarrow> fs \<Rightarrow> (path \<times> string list) list \<Rightarrow> nat \<Rightarrow> nat option" where
  "size_walk 0 s stack acc = None"
| "size_walk (Suc k) s [] acc = Some acc"
| "size_walk (Suc k) s ((d, []) # stack) acc = size_walk k s stack acc"
| "size_walk (Suc k) s ((d, n # ns) # stack) acc =
     (let name = last (n # ns); frames = (d, butlast (n # ns)) # stack in
      case lstat_at s d name of
        Inl e \<Rightarrow> size_walk k s frames acc
      | Inr (NDir m t) \<Rightarrow>
          (case opendir_at s d name of
             Inl e \<Rightarrow> size_walk k s frames acc
           | Inr p \<Rightarrow> size_walk k s ((p, listdir_at s p) # frames) acc)
      | Inr (NFile i) \<Rightarrow> size_walk k s frames (acc + length (fd_bytes (f_data s i)))
      | Inr _ \<Rightarrow> size_walk k s frames acc)"

definition tree_size :: "fs \<Rightarrow> path \<Rightarrow> nat option" where
  "tree_size s d = size_walk (2 * length (f_ents s) + 2) s [(d, listdir_at s d)] 0"

subsection \<open>Emptying the cache\<close>

datatype clear_result = CacheEmpty | CacheUnreadable state_error | Cleared "nat option"

fun remove_top :: "fs \<Rightarrow> path \<Rightarrow> string list \<Rightarrow> fs" where
  "remove_top s d [] = s"
| "remove_top s d (n # ns) = remove_top (snd (rmtree_at True True s d n)) d ns"

definition clear_all :: "layout \<Rightarrow> fs \<Rightarrow> clear_result \<times> fs" where
  "clear_all l s =
     (case fst (open_state_dir l False s (lo_cache l)) of
        Inl e \<Rightarrow> (if e = StateErr ENOENT then CacheEmpty else CacheUnreadable e, s)
      | Inr d \<Rightarrow>
          (if listdir_at s d = [] then (CacheEmpty, s)
           else (Cleared (tree_size s d), remove_top s d (listdir_at s d))))"

subsection \<open>The sweep\<close>

datatype sweep_stop =
    LockUnknown | Busy path | EntryUnreadable string | IndexUnreadable | IndexUnhashable
  | IndexStuck state_error | LayersUnreadable state_error

definition py_basename :: "string \<Rightarrow> string" where
  "py_basename p = last (split_on CHR ''/'' p)"

definition blob_names :: "layout \<Rightarrow> string list \<Rightarrow> string list" where
  "blob_names l ds = List.map_filter (\<lambda>d. case layer_cache_path l d of Inl e \<Rightarrow> None | Inr p \<Rightarrow> Some (py_basename p)) ds"

definition referenced_blob_names :: "layout \<Rightarrow> fs \<Rightarrow> bool \<Rightarrow> sweep_stop + string list" where
  "referenced_blob_names l s with_index =
     (case referenced_blob_digests l s of
        (ds, bad # bads) \<Rightarrow> Inl (EntryUnreadable bad)
      | (ds, []) \<Rightarrow>
          (if \<not> with_index then Inr (blob_names l ds)
           else case recorded_layer_digests l s of
               Unreadable \<Rightarrow> Inl IndexUnreadable
             | PinsUnhashable \<Rightarrow> Inl IndexUnhashable
             | Pins gs \<Rightarrow> Inr (blob_names l (ds @ gs))))"

definition drop_build_index :: "layout \<Rightarrow> fs \<Rightarrow> (sweep_stop + bool \<times> nat) \<times> fs" where
  "drop_build_index l s =
     (case discard_index l s of (Inl e, t) \<Rightarrow> (Inl (IndexStuck e), t) | (Inr r, t) \<Rightarrow> (Inr r, t))"

definition open_layer_cache :: "layout \<Rightarrow> fs \<Rightarrow> sweep_stop + path option" where
  "open_layer_cache l s =
     (case open_layer_cache_dir l s of
        Inr d \<Rightarrow> Inr (Some d)
      | Inl e \<Rightarrow> if e = StateErr ENOENT then Inr None else Inl (LayersUnreadable e))"

definition collect_orphans :: "fs \<Rightarrow> path option \<Rightarrow> string list \<Rightarrow> (string \<times> nat) list" where
  "collect_orphans s dir keep =
     (case dir of
        None \<Rightarrow> []
      | Some d \<Rightarrow>
          List.map_filter (\<lambda>n.
              if n \<in> set keep then None
              else case lstat_at s d n of Inr (NFile i) \<Rightarrow> Some (n, length (fd_bytes (f_data s i))) | _ \<Rightarrow> None)
            (listdir_at s d))"

text \<open>The loop of \<open>_remove_orphans\<close>: what was reclaimed and whether an unlink failed.\<close>

fun unlink_orphans :: "fs \<Rightarrow> path \<Rightarrow> (string \<times> nat) list \<Rightarrow> nat \<Rightarrow> bool \<Rightarrow> nat \<times> bool \<times> fs" where
  "unlink_orphans s d [] reclaimed failed = (reclaimed, failed, s)"
| "unlink_orphans s d ((n, sz) # os) reclaimed failed =
     (case unlink_at s d n of
        Inl e \<Rightarrow> unlink_orphans s d os reclaimed True
      | Inr t \<Rightarrow> unlink_orphans t d os (reclaimed + sz) failed)"

datatype sweep_result = Stopped sweep_stop | NothingFound | AlreadyEmpty | Swept nat bool

definition remove_orphans ::
    "fs \<Rightarrow> path option \<Rightarrow> string list \<Rightarrow> bool \<Rightarrow> bool \<Rightarrow> nat \<Rightarrow> sweep_result \<times> fs" where
  "remove_orphans s dir keep drop_index index_removed reclaimed =
     (let orphans = collect_orphans s dir keep in
      if orphans = [] \<and> \<not> drop_index then (NothingFound, s)
      else if orphans = [] \<and> \<not> index_removed then (AlreadyEmpty, s)
      else case dir of
          None \<Rightarrow> (Swept reclaimed False, s)
        | Some d \<Rightarrow> (case unlink_orphans s d orphans reclaimed False of (r, failed, t) \<Rightarrow> (Swept r failed, t)))"

definition sweep_layers :: "layout \<Rightarrow> world \<Rightarrow> bool \<Rightarrow> sweep_result \<times> fs" where
  "sweep_layers l w drop_index =
     (let s = w_fs w in
      case busy_locks w of
        None \<Rightarrow> (Stopped LockUnknown, s)
      | Some (b # bs) \<Rightarrow> (Stopped (Busy b), s)
      | Some [] \<Rightarrow>
          (case referenced_blob_names l s (\<not> drop_index) of
             Inl e \<Rightarrow> (Stopped e, s)
           | Inr keep \<Rightarrow>
               (case (if drop_index then drop_build_index l s else (Inr (False, 0), s)) of
                  (Inl e, t) \<Rightarrow> (Stopped e, t)
                | (Inr (removed_index, size0), t) \<Rightarrow>
                    (case open_layer_cache l t of
                       Inl e \<Rightarrow> (Stopped e, t)
                     | Inr dir \<Rightarrow> remove_orphans t dir keep drop_index removed_index size0))))"

datatype clear_outcome = ClearAll clear_result | Sweep sweep_result

definition command_clear_cache :: "layout \<Rightarrow> world \<Rightarrow> bool \<Rightarrow> bool \<Rightarrow> clear_outcome \<times> fs" where
  "command_clear_cache l w orphan build_cache =
     (if build_cache \<or> orphan then (case sweep_layers l w build_cache of (r, s) \<Rightarrow> (Sweep r, s))
      else (case clear_all l (w_fs w) of (r, s) \<Rightarrow> (ClearAll r, s)))"

end
