(* ===== verification/Cache_Props.thy ===== *)
theory Cache_Props
  imports Clear_Cache Container_Props
begin

text \<open>
  What the image cache promises: a blob's file name is a plain name that no other digest has, a blob that is
  opened hashes to its digest, a stored manifest entry is read back, and the sweep deletes only what no cached
  image and no build step names.
\<close>

subsection \<open>Digests and file names\<close>

lemma DIGEST_RE_split:
  "(c', s') \<in> set (succs DIGEST_RE (Map.empty, d)) \<Longrightarrow>
     \<exists>u v w. d = u @ v @ CHR '':'' # w @ s' \<and> in_lang (RPlus (RCls is_alnum_az)) u
       \<and> in_lang (RStar (RCat (RCls (\<lambda>c. c \<in> set ''+_.-'')) (RPlus (RCls is_alnum_az)))) v
       \<and> (\<forall>c \<in> set w. is_hex c) \<and> (s' = [] \<or> s' = [CHR 0x0A])"
proof -
  have gf: "plain_rx (RPlus (RCls P))" "groups (RPlus (RCls P)) = {}" "plain_rx (RStar (RCls P))" "groups (RStar (RCls P)) = {}"
    "plain_rx (RStar (RCat (RCls Q) (RPlus (RCls P))))" "groups (RStar (RCat (RCls Q) (RPlus (RCls P)))) = {}"
    "plain_rx (RChr x)" "groups (RChr x) = {}" for P Q x
    by (simp_all add: RPlus_def RChr_def)
  note g = succs_groupfree [OF gf(1,2)] succs_groupfree [OF gf(5,6)] succs_groupfree [OF gf(7,8)]
  assume "(c', s') \<in> set (succs DIGEST_RE (Map.empty, d))"
  then show ?thesis
    unfolding DIGEST_RE_def succs_cat_iff g by (auto simp: in_lang_chr in_lang_plus_cls succs.simps split: if_splits)
qed

lemma valid_digest_shape:
  assumes "valid_digest d"
  obtains u w where "d = u @ CHR '':'' # w" and "u \<noteq> []" and "is_alnum_az (hd u)"
    and "\<forall>c \<in> set u. is_alnum_az c \<or> c \<in> set ''+_.-''" and "\<forall>c \<in> set w. is_hex c \<or> c = CHR 0x0A"
proof -
  obtain c' s' where "(c', s') \<in> set (succs DIGEST_RE (Map.empty, d))"
    using assms unfolding valid_digest_def re_match_Some_iff by (cases "succs DIGEST_RE (Map.empty, d)") auto
  from DIGEST_RE_split [OF this] obtain u v w where d: "d = u @ v @ CHR '':'' # w @ s'"
    and u: "in_lang (RPlus (RCls is_alnum_az)) u" and v: "in_lang (RStar (RCat (RCls (\<lambda>c. c \<in> set ''+_.-'')) (RPlus (RCls is_alnum_az)))) v"
    and w: "\<forall>c \<in> set w. is_hex c" and s': "s' = [] \<or> s' = [CHR 0x0A]" by blast
  have u': "u \<noteq> []" "\<forall>c \<in> set u. is_alnum_az c" using u by (simp_all add: in_lang_plus_cls)
  have v': "\<forall>c \<in> set v. is_alnum_az c \<or> c \<in> set ''+_.-''" using in_lang_may [OF v] by auto
  show ?thesis
    by (rule that [of "u @ v" "w @ s'"]) (use d u' v' w s' in auto)
qed

lemma not_alnum: "\<not> is_alnum_az CHR ''/''" "\<not> is_alnum_az CHR ''.''" "\<not> is_alnum_az CHR '':''" "\<not> is_hex CHR ''_''"
  "\<not> is_hex CHR ''/''" "\<not> is_hex CHR '':''"
  by code_simp+

lemma last_mark_unique:
  assumes "u @ m # w = u' @ m # w'" and "m \<notin> set w" and "m \<notin> set w'"
  shows "u = u' \<and> w = w'"
  using assms
proof (induction u arbitrary: u')
  case Nil
  then show ?case by (cases u') auto
next
  case (Cons a u)
  then show ?case by (cases u') auto
qed

lemma layer_name_shape:
  assumes "layer_cache_name d = Inr n"
  obtains u w where "d = u @ CHR '':'' # w" and "n = u @ CHR ''_'' # w" and "CHR ''_'' \<notin> set w" and "plain_name n" and "valid_digest d"
proof -
  have v: "valid_digest d" and n: "n = map (\<lambda>c. if c = CHR '':'' then CHR ''_'' else c) d"
    using assms by (auto simp: layer_cache_name_def validate_digest_def split: if_splits)
  from v obtain u w where d: "d = u @ CHR '':'' # w" and u: "u \<noteq> []" "is_alnum_az (hd u)"
    "\<forall>c \<in> set u. is_alnum_az c \<or> c \<in> set ''+_.-''" and w: "\<forall>c \<in> set w. is_hex c \<or> c = CHR 0x0A"
    by (rule valid_digest_shape)
  have um: "map (\<lambda>c. if c = CHR '':'' then CHR ''_'' else c) u = u" using u(3) not_alnum(3) by (intro map_idI) auto
  have wm: "map (\<lambda>c. if c = CHR '':'' then CHR ''_'' else c) w = w" using w not_alnum(6) by (intro map_idI) auto
  have n': "n = u @ CHR ''_'' # w" by (simp add: n d um wm)
  have "CHR ''_'' \<notin> set w" using w not_alnum(4) by auto
  moreover have "plain_name n"
    using u w not_alnum(1,2,5) unfolding n' plain_name_def by (cases u) auto
  ultimately show ?thesis using that d n' v by blast
qed

lemma layer_name_plain: "layer_cache_name d = Inr n \<Longrightarrow> plain_name n"
  by (rule layer_name_shape)

text \<open>Two digests never share a file of the layer cache, though the name replaces the colon by a character
  an algorithm's name may hold; and a file's name is one plain component, whatever the digest was.\<close>

theorem blob_names_are_distinct:
  assumes "layer_cache_name d = Inr n" and "layer_cache_name e = Inr m"
  shows "plain_name n \<and> (n = m \<longrightarrow> d = e)"
proof -
  obtain u w where 1: "d = u @ CHR '':'' # w" "n = u @ CHR ''_'' # w" "CHR ''_'' \<notin> set w" by (rule layer_name_shape [OF assms(1)])
  obtain u' w' where 2: "e = u' @ CHR '':'' # w'" "m = u' @ CHR ''_'' # w'" "CHR ''_'' \<notin> set w'" by (rule layer_name_shape [OF assms(2)])
  show ?thesis using layer_name_plain [OF assms(1)] last_mark_unique [of u "CHR ''_''" w u' w'] 1 2 by auto
qed

theorem blob_names_are_distinct_witness:
  "plain_name ''a_b_c1'' \<and> layer_cache_name ''a_b:c1'' = Inr ''a_b_c1''"
proof -
  have "layer_cache_name ''a_b:c1'' = Inr ''a_b_c1''" by code_simp
  with blob_names_are_distinct [OF this this] show ?thesis by simp
qed

subsection \<open>The directories\<close>

definition cache_path :: "layout \<Rightarrow> string \<Rightarrow> path" where
  "cache_path l n = names_of (lo_cache l) @ [n]"

lemma split_cache_dir:
  assumes "good_layout l" and "list_all plain_name ns"
  shows "names_of (py_normpath (rejoin (lo_cache l) ns)) = names_of (lo_cache l) @ ns"
    and "py_normpath (rejoin (lo_cache l) ns) = ''/'' @ join_with ''/'' (names_of (lo_cache l) @ ns)"
proof -
  have "good_root (lo_cache l)" using assms(1) by (simp add: good_layout_def)
  note g = good_root_names [OF this]
  have e: "rejoin (lo_cache l) ns = ''/'' @ join_with ''/'' (names_of (lo_cache l) @ ns)"
    using rejoin_normal [OF g(1,2) assms(2)] g(5) by simp
  have pl: "list_all plain_name (names_of (lo_cache l) @ ns)" using g(1) assms(2) by simp
  show n: "py_normpath (rejoin (lo_cache l) ns) = ''/'' @ join_with ''/'' (names_of (lo_cache l) @ ns)"
    unfolding e by (rule normpath_normal [OF pl])
  show "names_of (py_normpath (rejoin (lo_cache l) ns)) = names_of (lo_cache l) @ ns"
    unfolding n using names_of_join [OF pl] by simp
qed

lemma rejoin_one: "py_join r n = rejoin r [n]"
  by (simp add: rejoin_def)

lemma cache_names_plain: "plain_name ''oci_layers''" "plain_name ''oci_manifests''" "plain_name ''build_cache_index.json''"
  by code_simp+

lemma layers_opened:
  assumes "good_layout l" and "open_layer_cache_dir l s = Inr d"
  shows "d = cache_path l ''oci_layers'' \<and> is_dir s d"
proof -
  obtain res t where o1: "open_state_dir l False s (LAYER_CACHE_DIR l) = (res, t)" by fastforce
  have "res = Inr d" using assms(2) o1 by (simp add: open_layer_cache_dir_def)
  from open_state_found(2) [OF o1 assms(1) this] split_cache_dir(1) [OF assms(1), of "[''oci_layers'']"] cache_names_plain
  show ?thesis by (auto simp: LAYER_CACHE_DIR_def rejoin_one cache_path_def)
qed

lemma manifests_opened:
  assumes "good_layout l" and "open_manifest_cache_dir l s = Inr d"
  shows "d = cache_path l ''oci_manifests'' \<and> is_dir s d"
proof -
  obtain res t where o1: "open_state_dir l False s (MANIFEST_CACHE_DIR l) = (res, t)" by fastforce
  have "res = Inr d" using assms(2) o1 by (simp add: open_manifest_cache_dir_def)
  from open_state_found(2) [OF o1 assms(1) this] split_cache_dir(1) [OF assms(1), of "[''oci_manifests'']"] cache_names_plain
  show ?thesis by (auto simp: MANIFEST_CACHE_DIR_def rejoin_one cache_path_def)
qed

subsection \<open>Blobs\<close>

definition blob_path :: "layout \<Rightarrow> string \<Rightarrow> path" where
  "blob_path l n = cache_path l ''oci_layers'' @ [n]"

lemma blob_opened:
  assumes "good_layout l" and "open_blob l s d = Inr (Some (dir, i))"
  shows "dir = cache_path l ''oci_layers'' \<and> (\<exists>n. layer_cache_name d = Inr n \<and> plain_name n \<and> node_at s (blob_path l n) = Some (NFile i))"
proof -
  obtain n where n: "layer_cache_name d = Inr n" using assms(2) by (cases "layer_cache_name d") (simp_all add: open_blob_def)
  with assms(2) have d: "open_layer_cache_dir l s = Inr dir"
    by (cases "open_layer_cache_dir l s") (auto simp: open_blob_def split: sum.splits)
  with assms(2) n have i: "open_regular_at s dir n = Inr i" by (auto simp: open_blob_def split: sum.splits)
  have p: "plain_name n" by (rule layer_name_plain [OF n])
  from layers_opened [OF assms(1) d] i p n show ?thesis
    by (auto simp: open_regular_at_def at_plain blob_path_def split: option.splits node.splits)
qed

text \<open>C29. A layer handed out of the cache is a regular file standing at the digest's name, reached without
  following a link, and its bytes hash to the digest: whatever a guest has put there is not used. A digest that
  cannot be checked opens nothing. A blob that does not match is removed when it can be fetched again, and that
  entry is the only one that changes.\<close>

theorem opened_layer_matches_digest:
  assumes "good_layout l" and "open_verified_layer sha l evict s d = (res, t)"
  shows "case res of
      Inr (Some i) \<Rightarrow> t = s \<and> (\<exists>n algo hex. layer_cache_name d = Inr n \<and> node_at s (blob_path l n) = Some (NFile i)
        \<and> split_digest d = Inr (algo, hex) \<and> algo = ''sha256'' \<and> sha (fd_bytes (f_data s i)) = hex)
    | Inr None \<Rightarrow> t = s \<or> evict \<and> (\<exists>n i hex. layer_cache_name d = Inr n \<and> node_at s (blob_path l n) = Some (NFile i)
        \<and> sha (fd_bytes (f_data s i)) \<noteq> hex \<and> split_digest d = Inr (''sha256'', hex) \<and> t = drop_node (blob_path l n) s)
    | Inl e \<Rightarrow> t = s"
proof (cases "open_blob l s d")
  case (Inr r)
  show ?thesis
  proof (cases r)
    case (Some di)
    then obtain dir i where r: "open_blob l s d = Inr (Some (dir, i))" using Inr by (cases di) auto
    from blob_opened [OF assms(1) r] obtain n where dir: "dir = cache_path l ''oci_layers''" and n: "layer_cache_name d = Inr n"
      "plain_name n" "node_at s (blob_path l n) = Some (NFile i)" by blast
    have drop: "unlink_quietly s dir n = s \<or> unlink_quietly s dir n = drop_node (blob_path l n) s"
      using n(2,3) by (simp add: unlink_quietly_def unlink_at_def at_plain blob_path_def dir)
    show ?thesis
    proof (cases "split_digest d")
      case (Inl e)
      with assms(2) r show ?thesis by (auto simp: open_verified_layer_def fd_matches_digest_def)
    next
      case (Inr ah)
      then obtain algo hex where h: "split_digest d = Inr (algo, hex)" by (cases ah) auto
      then have algo: "algo = ''sha256''" by (auto simp: split_digest_def Let_def split: if_splits sum.splits)
      show ?thesis
      proof (cases "sha (fd_bytes (f_data s i)) = hex")
        case True
        with assms(2) r h have "res = Inr (Some i)" "t = s" by (auto simp: open_verified_layer_def fd_matches_digest_def)
        with True h algo n show ?thesis by simp
      next
        case False
        with assms(2) r h n(1) have rt: "res = Inr None" "t = s \<or> evict \<and> t = unlink_quietly s dir n"
          by (auto simp: open_verified_layer_def fd_matches_digest_def split: if_splits)
        then have "t = s \<or> evict \<and> t = drop_node (blob_path l n) s" using drop by auto
        with rt(1) False h algo n(1,3) show ?thesis by auto
      qed
    qed
  qed (use assms(2) Inr in \<open>auto simp: open_verified_layer_def\<close>)
qed (use assms(2) in \<open>auto simp: open_verified_layer_def\<close>)

subsection \<open>The sweep\<close>

lemma split_on_last: "c \<notin> set n \<Longrightarrow> \<exists>ps. ps \<noteq> [] \<and> split_on c (x @ c # n) = ps @ [n]"
proof (induction x)
  case Nil
  then show ?case by (intro exI [of _ "[[]]"]) (simp add: split_on_id)
next
  case (Cons a x)
  then obtain ps where ps: "ps \<noteq> []" "split_on c (x @ c # n) = ps @ [n]" by blast
  then show ?case
    by (cases ps) (auto intro: exI [of _ "[] # ps"] exI [of _ "(a # hd ps) # tl ps"])
qed

lemma basename_join: "a \<noteq> [] \<Longrightarrow> plain_name n \<Longrightarrow> py_basename (py_join a n) = n"
proof -
  assume a: "a \<noteq> []" and n: "plain_name n"
  have c: "CHR ''/'' \<notin> set n" using n by (simp add: plain_name_def)
  have nos: "\<not> starts_with ''/'' n" using n by (cases n) (auto simp: starts_with_def plain_name_def)
  have "\<exists>x. py_join a n = x @ CHR ''/'' # n"
  proof (cases "ends_with ''/'' a")
    case True
    then obtain y where "a = y @ ''/''" unfolding ends_with_def by (metis append_take_drop_id)
    with True nos a show ?thesis by (auto simp: py_join_def)
  qed (use a nos in \<open>auto simp: py_join_def\<close>)
  then obtain x where x: "py_join a n = x @ CHR ''/'' # n" ..
  obtain ps where "split_on CHR ''/'' (x @ CHR ''/'' # n) = ps @ [n]" using split_on_last [OF c] by blast
  then show ?thesis by (simp add: py_basename_def x)
qed

lemma blob_names_iff: "n \<in> set (blob_names l ds) \<longleftrightarrow> (\<exists>d \<in> set ds. layer_cache_name d = Inr n)"
proof -
  have ne: "LAYER_CACHE_DIR l \<noteq> []" by (simp add: LAYER_CACHE_DIR_def py_join_def)
  have "(case layer_cache_path l d of Inl e \<Rightarrow> None | Inr p \<Rightarrow> Some (py_basename p)) = Some n \<longleftrightarrow> layer_cache_name d = Inr n" for d
    using basename_join [OF ne layer_name_plain, of d] by (cases "layer_cache_name d") (auto simp: layer_cache_path_def)
  then show ?thesis by (force simp: blob_names_def List.map_filter_def split: option.splits)
qed

lemma unlink_at_cases:
  "unlink_at s d n = Inr t \<Longrightarrow> plain_name n \<Longrightarrow> t = drop_node (d @ [n]) s"
  by (auto simp: unlink_at_def at_plain split: option.splits node.splits if_splits)

lemma unlink_orphans_changes:
  assumes "unlink_orphans s d os r0 f0 = (r, failed, t)" and "\<forall>x \<in> set os. plain_name (fst x)"
  shows "(node_at t q = node_at s q \<or> node_at t q = None \<and> q \<in> (\<lambda>x. d @ [fst x]) ` set os)
    \<and> (\<not> failed \<longrightarrow> \<not> f0 \<and> (q \<in> (\<lambda>x. d @ [fst x]) ` set os \<longrightarrow> node_at t q = None))"
  using assms
proof (induction s d os r0 f0 rule: unlink_orphans.induct)
  case (2 s d n sz os r0 f0)
  show ?case
  proof (cases "unlink_at s d n")
    case (Inl e)
    with "2.IH"(1) [OF Inl] "2.prems" show ?thesis by auto
  next
    case (Inr u)
    have u: "u = drop_node (d @ [n]) s" using unlink_at_cases [OF Inr] "2.prems"(2) by simp
    from "2.IH"(2) [OF Inr] "2.prems" Inr
    have "(node_at t q = node_at u q \<or> node_at t q = None \<and> q \<in> (\<lambda>x. d @ [fst x]) ` set os)
      \<and> (\<not> failed \<longrightarrow> \<not> f0 \<and> (q \<in> (\<lambda>x. d @ [fst x]) ` set os \<longrightarrow> node_at t q = None))" by simp
    then show ?thesis by (cases "q = d @ [n]") (auto simp: u)
  qed
qed auto

lemma collected:
  assumes "wf_fs s" and "x \<in> set (collect_orphans s (Some d) keep)"
  shows "plain_name (fst x) \<and> fst x \<notin> set keep \<and> (\<exists>i. node_at s (d @ [fst x]) = Some (NFile i))"
proof -
  from assms(2) obtain n where n: "n \<in> set (listdir_at s d)" and x: "n \<notin> set keep"
    "(case lstat_at s d n of Inr (NFile i) \<Rightarrow> Some (n, length (fd_bytes (f_data s i))) | _ \<Rightarrow> None) = Some x"
    by (auto simp: collect_orphans_def List.map_filter_def split: if_splits)
  have p: "plain_name n" by (rule listdir_plain [OF assms(1) n])
  from x(2) have "fst x = n" "\<exists>i. node_at s (d @ [n]) = Some (NFile i)"
    by (auto simp: lstat_at_def at_plain p split: option.splits node.splits)
  with p x(1) show ?thesis by simp
qed

lemma collected_all:
  assumes "wf_fs s" and "node_at s (d @ [n]) = Some (NFile i)" and "n \<notin> set keep"
  shows "n \<in> fst ` set (collect_orphans s (Some d) keep)"
proof -
  have p: "plain_name n" using wf_node(1) [OF assms(1,2)] by simp
  have "n \<in> set (listdir_at s d)" using listdir_iff assms(1,2) by (metis option.discI)
  then have "(n, length (fd_bytes (f_data s i))) \<in> set (collect_orphans s (Some d) keep)"
    using assms(2,3) p by (force simp: collect_orphans_def List.map_filter_def lstat_at_def at_plain)
  then show ?thesis by force
qed

lemma remove_orphans_changes:
  assumes "remove_orphans s dir keep drop_index removed_index r0 = (res, t)" and "wf_fs s"
  shows "node_at t q = node_at s q \<or> node_at t q = None
      \<and> (\<exists>d n i. dir = Some d \<and> q = d @ [n] \<and> n \<notin> set keep \<and> node_at s q = Some (NFile i))"
proof (cases dir)
  case None
  with assms(1) show ?thesis by (auto simp: remove_orphans_def collect_orphans_def split: if_splits)
next
  case (Some d)
  let ?os = "collect_orphans s (Some d) keep"
  obtain r failed u where u: "unlink_orphans s d ?os r0 False = (r, failed, u)" by (cases "unlink_orphans s d ?os r0 False") auto
  have t: "t = s \<or> t = u" using assms(1) Some u by (auto simp: remove_orphans_def Let_def split: if_splits)
  have c: "node_at u q = node_at s q \<or> node_at u q = None \<and> q \<in> (\<lambda>x. d @ [fst x]) ` set ?os"
    using unlink_orphans_changes [OF u] collected [OF assms(2)] by blast
  show ?thesis
  proof (cases "node_at t q = node_at s q")
    case False
    then have "node_at t q = None" "q \<in> (\<lambda>x. d @ [fst x]) ` set ?os" using t c by auto
    then obtain x where "x \<in> set ?os" "q = d @ [fst x]" by blast
    with collected [OF assms(2)] Some \<open>node_at t q = None\<close> show ?thesis by blast
  qed simp
qed

lemma remove_orphans_all:
  assumes "remove_orphans s (Some d) keep drop_index removed_index r0 = (res, t)" and "wf_fs s"
    and "\<forall>r. res \<noteq> Swept r True" and "node_at t (d @ [n]) = Some (NFile i)"
  shows "n \<in> set keep"
proof (rule ccontr)
  assume n: "n \<notin> set keep"
  let ?os = "collect_orphans s (Some d) keep"
  obtain r failed u where u: "unlink_orphans s d ?os r0 False = (r, failed, u)" by (cases "unlink_orphans s d ?os r0 False") auto
  have pl: "\<forall>x \<in> set ?os. plain_name (fst x)" using collected [OF assms(2)] by blast
  have "node_at s (d @ [n]) = Some (NFile i)"
    using remove_orphans_changes [OF assms(1,2), of "d @ [n]"] assms(4) by auto
  then have m: "n \<in> fst ` set ?os" by (rule collected_all [OF assms(2) _ n])
  then have "t = u" "\<not> failed" using assms(1,3) u by (auto simp: remove_orphans_def Let_def split: if_splits)
  with unlink_orphans_changes [OF u pl, of "d @ [n]"] m have "node_at t (d @ [n]) = None" by force
  with assms(4) show False by simp
qed

lemma state_parent_found:
  assumes "good_layout l" and "fst (open_state_parent l False s p) = Inr (d, n)"
  shows "d @ [n] = names_of (py_normpath p) \<and> plain_name n"
proof (cases "split_state_path l p")
  case (Some rp)
  then obtain root parts where sp: "split_state_path l p = Some (root, parts)" by (cases rp) auto
  note ss = state_split [OF assms(1) sp]
  obtain c cs where cs: "parts = c # cs" using assms(2) sp by (cases parts) (auto simp: open_state_parent_def)
  obtain o1 t where o1: "open_state_dir l False s (rejoin root (butlast parts)) = (o1, t)" by fastforce
  with assms(2) sp cs have "o1 = Inr d" and n: "n = last parts" by (auto simp: open_state_parent_def split: sum.splits)
  with open_state_found(2) [OF o1 assms(1)] have d: "d = names_of (py_normpath (rejoin root (butlast parts)))" by blast
  also have "\<dots> = names_of root @ butlast parts"
    using state_split(3) [OF assms(1) split_parent [OF assms(1) sp]] by simp
  finally have "d @ [n] = names_of root @ parts" using n cs by (simp del: butlast.simps last.simps)
  moreover have "plain_name n" using ss(2) n cs last_in_set [of parts] by (auto simp: list_all_iff simp del: last.simps)
  ultimately show ?thesis using ss(3) by simp
qed (use assms(2) in \<open>simp add: open_state_parent_def\<close>)

lemma index_path_names: "good_layout l \<Longrightarrow> names_of (py_normpath (INDEX_PATH l)) = cache_path l ''build_cache_index.json''"
  using split_cache_dir(1) [of l "[''build_cache_index.json'']"] cache_names_plain(3)
  by (simp add: INDEX_PATH_def rejoin_one cache_path_def)

lemma discard_index_changes:
  assumes "good_layout l" and "wf_fs s" and "discard_index l s = (res, t)"
  shows "wf_fs t \<and> (t = s \<or> t = drop_node (cache_path l ''build_cache_index.json'') s)"
proof (cases "index_parent l s")
  case (Inr dn)
  then obtain d n where dn: "index_parent l s = Inr (d, n)" by (cases dn) auto
  have p: "d @ [n] = cache_path l ''build_cache_index.json''" "plain_name n"
    using state_parent_found [OF assms(1) dn [unfolded index_parent_def]] index_path_names [OF assms(1)] by simp_all
  show ?thesis
  proof (cases "unlink_at s d n")
    case (Inl e)
    with assms(2,3) dn show ?thesis by (auto simp: discard_index_def split: sum.splits if_splits)
  next
    case (Inr u)
    have u: "u = drop_node (cache_path l ''build_cache_index.json'') s" "wf_fs u"
      using unlink_at_cases [OF Inr p(2)] p(1) safe_wf [OF safe_unlink [OF Inr p(2) prefix_order.refl] assms(2)] by simp_all
    from assms(2,3) dn Inr u show ?thesis by (auto simp: discard_index_def split: sum.splits)
  qed
qed (use assms(2,3) in \<open>auto simp: discard_index_def split: if_splits\<close>)

subsection \<open>What is referenced\<close>

text \<open>A digest some entry of the manifest cache names, and one the build index pins.\<close>

definition cached_digest :: "layout \<Rightarrow> fs \<Rightarrow> string \<Rightarrow> bool" where
  "cached_digest l s g \<longleftrightarrow>
     (case open_manifest_cache_dir l s of
        Inl e \<Rightarrow> False
      | Inr d \<Rightarrow> list_ex (\<lambda>n. is_json_name n \<and> (case entry_digests s d n of None \<Rightarrow> False | Some gs \<Rightarrow> g \<in> set gs)) (listdir_at s d))"

definition pinned_digest :: "layout \<Rightarrow> fs \<Rightarrow> string \<Rightarrow> bool" where
  "pinned_digest l s g \<longleftrightarrow> (case recorded_layer_digests l s of Pins gs \<Rightarrow> g \<in> set gs | _ \<Rightarrow> False)"

lemma collect_digests_iff:
  "g \<in> set (fst (collect_digests l s d ns)) \<longleftrightarrow>
     list_ex (\<lambda>n. is_json_name n \<and> (case entry_digests s d n of None \<Rightarrow> False | Some gs \<Rightarrow> g \<in> set gs)) ns"
  by (induction ns) (auto split: option.splits prod.splits)

lemma referenced_iff: "g \<in> set (fst (referenced_blob_digests l s)) \<longleftrightarrow> cached_digest l s g"
  by (auto simp: referenced_blob_digests_def cached_digest_def collect_digests_iff split: sum.splits)

lemma keep_iff:
  assumes "referenced_blob_names l s with_index = Inr keep"
  shows "n \<in> set keep \<longleftrightarrow> (\<exists>g. (cached_digest l s g \<or> with_index \<and> pinned_digest l s g) \<and> layer_cache_name g = Inr n)"
proof -
  obtain ds bad where r: "referenced_blob_digests l s = (ds, bad)" by (cases "referenced_blob_digests l s")
  have c: "g \<in> set ds \<longleftrightarrow> cached_digest l s g" for g using referenced_iff [of g l s] r by simp
  have "\<exists>gs. keep = blob_names l (ds @ gs) \<and> (\<forall>g. g \<in> set gs \<longleftrightarrow> with_index \<and> pinned_digest l s g)"
    using assms r by (auto simp: referenced_blob_names_def pinned_digest_def split: list.splits if_splits pins.splits)
  then obtain gs where "keep = blob_names l (ds @ gs)" "\<forall>g. g \<in> set gs \<longleftrightarrow> with_index \<and> pinned_digest l s g" by blast
  then show ?thesis using c by (auto simp: blob_names_iff)
qed

lemma referenced_blob_names_readable:
  "referenced_blob_names l s b = Inr keep \<Longrightarrow> snd (referenced_blob_digests l s) = [] \<and> (b \<longrightarrow> (\<exists>gs. recorded_layer_digests l s = Pins gs))"
  by (auto simp: referenced_blob_names_def split: prod.splits list.splits if_splits pins.splits)

text \<open>C28. The layer sweep of \<open>clear-cache\<close>, with or without dropping the build index. It deletes nothing
  while another command holds a lock or a lock cannot be read, nor while an entry of the manifest cache, or the
  index it would keep, cannot be read. Otherwise it deletes regular files of the layer cache and, when asked to,
  the index; and the blob of every digest that a cached image names, or that the kept index pins, stays.\<close>

theorem sweep_keeps_referenced_blobs:
  assumes "good_layout l" and "wf_fs (w_fs w)" and "sweep_layers l w drop_index = (res, t)"
  shows "(busy_locks w \<noteq> Some [] \<or> snd (referenced_blob_digests l (w_fs w)) \<noteq> []
        \<or> \<not> drop_index \<and> (\<forall>gs. recorded_layer_digests l (w_fs w) \<noteq> Pins gs) \<longrightarrow> t = w_fs w)
    \<and> (\<forall>q. node_at t q = node_at (w_fs w) q \<or> node_at t q = None
          \<and> (drop_index \<and> q = cache_path l ''build_cache_index.json'' \<or> (\<exists>n i. q = blob_path l n \<and> node_at (w_fs w) q = Some (NFile i))))
    \<and> (\<forall>g n. (cached_digest l (w_fs w) g \<or> \<not> drop_index \<and> pinned_digest l (w_fs w) g) \<and> layer_cache_name g = Inr n
          \<longrightarrow> node_at t (blob_path l n) = node_at (w_fs w) (blob_path l n))"
proof (cases "t = w_fs w")
  case False
  let ?s = "w_fs w" and ?ix = "cache_path l ''build_cache_index.json''"
  from assms(3) False have b: "busy_locks w = Some []"
    by (auto simp: sweep_layers_def Let_def split: option.splits list.splits)
  with assms(3) False obtain keep where keep: "referenced_blob_names l ?s (\<not> drop_index) = Inr keep"
    by (cases "referenced_blob_names l ?s (\<not> drop_index)") (auto simp: sweep_layers_def Let_def)
  obtain o1 u where o1: "(if drop_index then drop_build_index l ?s else (Inr (False, 0), ?s)) = (o1, u)" by fastforce
  have u: "wf_fs u \<and> (u = ?s \<or> drop_index \<and> u = drop_node ?ix ?s)"
    using o1 discard_index_changes [OF assms(1,2)] assms(2)
    by (auto simp: drop_build_index_def split: if_splits prod.splits sum.splits)
  have ne: "blob_path l n \<noteq> ?ix" for n by (simp add: blob_path_def cache_path_def)
  have "node_at t q = node_at u q \<or> node_at t q = None
      \<and> (\<exists>n i. q = blob_path l n \<and> n \<notin> set keep \<and> node_at u q = Some (NFile i))" for q
  proof (cases o1)
    case (Inl e)
    with assms(3) b keep o1 show ?thesis by (auto simp: sweep_layers_def Let_def)
  next
    case (Inr rs)
    then obtain rm sz where rs: "o1 = Inr (rm, sz)" by (cases rs) auto
    show ?thesis
    proof (cases "open_layer_cache l u")
      case (Inl e)
      with assms(3) b keep o1 rs show ?thesis by (auto simp: sweep_layers_def Let_def)
    next
      case (Inr dir)
      with assms(3) b keep o1 rs have r: "remove_orphans u dir keep drop_index rm sz = (res, t)"
        by (auto simp: sweep_layers_def Let_def)
      have d: "d = cache_path l ''oci_layers''" if "dir = Some d" for d
        using Inr that layers_opened [OF assms(1)] by (auto simp: open_layer_cache_def split: sum.splits if_splits)
      show ?thesis using remove_orphans_changes [OF r conjunct1 [OF u], of q] d by (auto simp: blob_path_def)
    qed
  qed
  note change = this
  show ?thesis
  proof (intro conjI allI impI)
    assume "busy_locks w \<noteq> Some [] \<or> snd (referenced_blob_digests l ?s) \<noteq> []
        \<or> \<not> drop_index \<and> (\<forall>gs. recorded_layer_digests l ?s \<noteq> Pins gs)"
    with b referenced_blob_names_readable [OF keep] show "t = ?s" by auto
  next
    fix q show "node_at t q = node_at ?s q \<or> node_at t q = None
          \<and> (drop_index \<and> q = ?ix \<or> (\<exists>n i. q = blob_path l n \<and> node_at ?s q = Some (NFile i)))"
      using change [of q] u ne by auto
  next
    fix g n assume g: "(cached_digest l ?s g \<or> \<not> drop_index \<and> pinned_digest l ?s g) \<and> layer_cache_name g = Inr n"
    then have "n \<in> set keep" using keep_iff [OF keep] by blast
    with change [of "blob_path l n"] u ne [of n] show "node_at t (blob_path l n) = node_at ?s (blob_path l n)"
      by (auto simp: blob_path_def)
  qed
qed simp

definition sample_cache :: fs where
  "sample_cache =
     sample_state [([''rt'', ''cache''], NDir 493 0), ([''rt'', ''cache'', ''oci_layers''], NDir 493 0),
       ([''rt'', ''cache'', ''oci_layers'', ''sha256_aa''], NFile 1), ([''rt'', ''cache'', ''oci_manifests''], NDir 493 0),
       ([''rt'', ''cache'', ''oci_manifests'', ''k.json''], NLink ''/host'' 0)]"

theorem opened_layer_matches_digest_witness:
  "case open_verified_layer (\<lambda>b. ''bb'') sample_layout True sample_cache ''sha256:aa'' of
     (res, t) \<Rightarrow> res = Inr None \<and> node_at t [''rt'', ''cache'', ''oci_manifests'', ''k.json''] = Some (NLink ''/host'' 0)"
proof -
  let ?o = "open_verified_layer (\<lambda>b. ''bb'') sample_layout True sample_cache ''sha256:aa''"
  obtain res t where o: "?o = (res, t)" by fastforce
  have f: "fst ?o = Inr None" "node_at sample_cache [''rt'', ''cache'', ''oci_manifests'', ''k.json''] = Some (NLink ''/host'' 0)"
    "cache_path sample_layout ''oci_layers'' = [''rt'', ''cache'', ''oci_layers'']" by code_simp+
  have "[''rt'', ''cache'', ''oci_manifests'', ''k.json''] \<noteq> blob_path sample_layout n" for n by (simp add: blob_path_def f(3))
  with opened_layer_matches_digest [OF sample_layout_good o] f(1,2) o show ?thesis by auto
qed

definition sample_sweep_world :: world where
  "sample_sweep_world = \<lparr>w_fs = sample_cache, w_denied = [], w_runtime = [''rt''], w_flock = True, w_table = [], w_fds = [],
     w_next = 3, w_held = [], w_locks = []\<rparr>"

theorem sweep_keeps_referenced_blobs_witness:
  "busy_locks sample_sweep_world = Some []
     \<and> node_at (snd (sweep_layers sample_layout sample_sweep_world True)) [''rt'', ''cache'', ''oci_layers'', ''sha256_aa''] = Some (NFile 1)"
proof -
  obtain res t where r: "sweep_layers sample_layout sample_sweep_world True = (res, t)" by fastforce
  have "wf_fs (w_fs sample_sweep_world)" "snd (referenced_blob_digests sample_layout (w_fs sample_sweep_world)) \<noteq> []"
    "busy_locks sample_sweep_world = Some []"
    "node_at (w_fs sample_sweep_world) [''rt'', ''cache'', ''oci_layers'', ''sha256_aa''] = Some (NFile 1)" by code_simp+
  with sweep_keeps_referenced_blobs [OF sample_layout_good _ r] r show ?thesis by simp
qed

text \<open>The orphan sweep is complete: after one that reports no failure, every regular file left in the layer
  cache has the name of a digest that a cached image names or that the build index pins.\<close>

theorem sweep_leaves_no_orphan:
  assumes "good_layout l" and "wf_fs (w_fs w)" and "sweep_layers l w False = (res, t)"
    and "open_layer_cache_dir l (w_fs w) = Inr d" and "\<forall>e. res \<noteq> Stopped e" and "\<forall>r. res \<noteq> Swept r True"
    and "node_at t (blob_path l n) = Some (NFile i)"
  shows "\<exists>g. (cached_digest l (w_fs w) g \<or> pinned_digest l (w_fs w) g) \<and> layer_cache_name g = Inr n"
proof -
  let ?s = "w_fs w"
  from assms(3,5) have b: "busy_locks w = Some []" by (auto simp: sweep_layers_def Let_def split: option.splits list.splits)
  with assms(3,5) obtain keep where keep: "referenced_blob_names l ?s True = Inr keep"
    by (cases "referenced_blob_names l ?s True") (auto simp: sweep_layers_def Let_def)
  have "open_layer_cache l ?s = Inr (Some d)" using assms(4) by (simp add: open_layer_cache_def)
  with assms(3) b keep have r: "remove_orphans ?s (Some d) keep False False 0 = (res, t)" by (simp add: sweep_layers_def Let_def)
  have "node_at t (d @ [n]) = Some (NFile i)" using assms(7) layers_opened [OF assms(1,4)] by (simp add: blob_path_def)
  with remove_orphans_all [OF r assms(2,6)] keep_iff [OF keep] show ?thesis by simp
qed

definition sample_orphans :: fs where
  "sample_orphans =
     sample_state [([''rt'', ''cache''], NDir 493 0), ([''rt'', ''cache'', ''oci_layers''], NDir 493 0),
       ([''rt'', ''cache'', ''oci_layers'', ''sha256_aa''], NFile 1)]"

theorem sweep_leaves_no_orphan_witness:
  "node_at (snd (sweep_layers sample_layout (sample_sweep_world\<lparr>w_fs := sample_orphans\<rparr>) False))
     [''rt'', ''cache'', ''oci_layers'', ''sha256_aa''] = None"
proof -
  let ?w = "sample_sweep_world\<lparr>w_fs := sample_orphans\<rparr>"
  obtain res t where r: "sweep_layers sample_layout ?w False = (res, t)" by fastforce
  have f: "wf_fs (w_fs ?w)" "open_layer_cache_dir sample_layout (w_fs ?w) = Inr [''rt'', ''cache'', ''oci_layers'']"
    "fst (sweep_layers sample_layout ?w False) = Swept 0 False"
    "open_manifest_cache_dir sample_layout (w_fs ?w) = Inl (StateErr ENOENT)" "recorded_layer_digests sample_layout (w_fs ?w) = Pins []"
    "cache_path sample_layout ''oci_layers'' = [''rt'', ''cache'', ''oci_layers'']" by code_simp+
  have res: "res = Swept 0 False" using f(3) r by simp
  have no: "\<not> cached_digest sample_layout (w_fs ?w) g" "\<not> pinned_digest sample_layout (w_fs ?w) g" for g
    by (simp_all only: cached_digest_def pinned_digest_def f(4,5) sum.simps pins.simps list.set empty_iff not_False_eq_True)
  have loc: "[''rt'', ''cache'', ''oci_layers'', ''sha256_aa''] = blob_path sample_layout ''sha256_aa''" by (simp add: blob_path_def f(6))
  have nf: "node_at t (blob_path sample_layout ''sha256_aa'') \<noteq> Some (NFile i)" for i
    using sweep_leaves_no_orphan [OF sample_layout_good f(1) r f(2), of "''sha256_aa''" i] no res by auto
  have "node_at (snd (sweep_layers sample_layout ?w False)) [''rt'', ''cache'', ''oci_layers'', ''sha256_aa''] \<in> {None, Some (NFile 1)}"
    by code_simp
  then show ?thesis using nf r unfolding loc by simp
qed

end
