(* ===== verification/Image_Store.thy ===== *)
theory Image_Store
  imports Cache_Props Json_Bytes
begin

text \<open>
  What is stored in the manifest cache is what a later run finds: the Base64 round trip of the documents, what an
  atomic write leaves at its destination, and the whole path from \<open>save_manifest_cache\<close> to the loaders.
\<close>

subsection \<open>Base64\<close>

lemma b64_chars: "n < 64 \<Longrightarrow> b64_val (b64_char n) = Some n \<and> b64_char n \<noteq> CHR ''=''"
proof -
  have "list_all (\<lambda>n. b64_val (b64_char n) = Some n \<and> b64_char n \<noteq> CHR ''='') [0..<64]"
    by (simp add: upt_conv_Cons [of 0] upt_conv_Cons [of "Suc 0"] upt_rec_numeral numeral_2_eq_2 [symmetric] b64_val_def b64_char_def B64_ALPHABET_def code_def)
  moreover assume "n < 64"
  ultimately show ?thesis by (simp add: list_all_iff)
qed

lemma code_bound: "code c < 256"
  by (simp add: code_def)

lemma b64_parts:
  assumes "a < 256" and "b < 256" and "c < (256 :: nat)"
  shows "a div 4 < 64" and "a mod 4 * 16 + b div 16 < 64" and "b mod 16 * 4 + c div 64 < 64" and "c mod 64 < 64"
    and "a mod 4 * 16 < 64" and "b mod 16 * 4 < 64"
  using assms by (auto simp: less_mult_imp_div_less)

lemma b64_bytes:
  fixes a b c :: nat
  assumes "b div 16 < 16" and "c div 64 < 4"
  shows "a div 4 * 4 + (a mod 4 * 16 + b div 16) div 16 = a"
    and "((a mod 4 * 16 + b div 16) * 16 + (b mod 16 * 4 + c div 64) div 4) mod 256 = b mod 256"
    and "((b mod 16 * 4 + c div 64) * 64 + c mod 64) mod 256 = c mod 256"
    and "a div 4 * 4 + (a mod 4 * 16) div 16 = a"
    and "((a mod 4 * 16 + b div 16) * 16 + (b mod 16 * 4) div 4) mod 256 = b mod 256"
proof -
  have x: "(k * 16 + b div 16) div 16 = k" "(k * 4 + c div 64) div 4 = k" for k using assms by simp_all
  show "a div 4 * 4 + (a mod 4 * 16 + b div 16) div 16 = a" by (simp add: x div_mult_mod_eq)
  show "a div 4 * 4 + (a mod 4 * 16) div 16 = a" by (simp add: div_mult_mod_eq)
  have "(k * 16 + b div 16) * 16 + b mod 16 = k * 256 + b" for k
    using div_mult_mod_eq [of b 16] by (simp add: algebra_simps)
  then have y: "((k * 16 + b div 16) * 16 + b mod 16) mod 256 = b mod 256" for k by simp
  show "((a mod 4 * 16 + b div 16) * 16 + (b mod 16 * 4 + c div 64) div 4) mod 256 = b mod 256" by (simp only: x(2) y)
  show "((a mod 4 * 16 + b div 16) * 16 + (b mod 16 * 4) div 4) mod 256 = b mod 256" using y [of "a mod 4"] by simp
  have "(k * 4 + c div 64) * 64 + c mod 64 = k * 256 + c" for k
    using div_mult_mod_eq [of c 64] by (simp add: algebra_simps)
  then show "((b mod 16 * 4 + c div 64) * 64 + c mod 64) mod 256 = c mod 256" by simp
qed

lemma byte_of_code [simp]: "b64_byte n = c" if "n mod 256 = code c"
  using that by (simp add: b64_byte_def code_def)

lemma b64_roundtrip: "b64decode (b64encode s) = Some s"
proof (induction s rule: b64encode.induct)
  case (1 a b c s)
  note p = b64_parts [OF code_bound [of a] code_bound [of b] code_bound [of c]]
  have d: "code b div 16 < 16" "code c div 64 < 4" using code_bound [of b] code_bound [of c] by simp_all
  note q = b64_bytes(1,2,4,5) [OF d, where a = "code a"] b64_bytes(3) [OF d]
  show ?case using 1 p q b64_chars code_bound by simp
next
  case (2 a b)
  note p = b64_parts [OF code_bound [of a] code_bound [of b] code_bound [of b]]
  have d: "code b div 16 < 16" "code b div 64 < 4" using code_bound [of b] by simp_all
  note q = b64_bytes(1,2,4,5) [OF d, where a = "code a"] b64_bytes(3) [OF d]
  show ?case using p q b64_chars code_bound by simp
next
  case (3 a)
  note p = b64_parts [OF code_bound [of a] code_bound [of a] code_bound [of a]]
  have d: "code a div 16 < 16" "code a div 64 < 4" using code_bound [of a] by simp_all
  note q = b64_bytes(1,2,4,5) [OF d, where a = "code a"] b64_bytes(3) [OF d]
  show ?case using p q b64_chars code_bound by simp
qed simp

lemma documents_roundtrip:
  "decode_documents (map (\<lambda>(g, body). (g, JStr (b64encode body))) ds) = ds"
  by (induction ds) (auto simp: b64_roundtrip)

subsection \<open>Atomic writes\<close>

lemma state_walk_existing:
  "list_all plain_name ns \<Longrightarrow> \<forall>k \<le> length ns. is_dir s (d @ take k ns) \<Longrightarrow> state_walk c s d ns = (Inr (d @ ns), s)"
proof (induction ns arbitrary: d)
  case (Cons n ns)
  then have n: "plain_name n" by simp
  have "is_dir s ((d @ [n]) @ take k ns)" if "k \<le> length ns" for k using Cons.prems(2) that by (auto dest: spec [of _ "Suc k"])
  with Cons.IH [of "d @ [n]"] Cons.prems(1) have w: "state_walk c s (d @ [n]) ns = (Inr (d @ n # ns), s)" by simp
  have "is_dir s (d @ [n])" using Cons.prems(2) by (auto dest: spec [of _ 1])
  then have "open_level c s d n = (Inr (d @ [n]), s)"
    using n by (auto simp: open_level_def opendir_at_def at_plain is_dir_def split: option.splits node.splits)
  with w show ?case by simp
qed simp

lemma wf_take_dir: "wf_fs s \<Longrightarrow> is_dir s (d @ ns) \<Longrightarrow> is_dir s (d @ take k ns)"
proof (cases "drop k ns")
  case (Cons m q)
  assume "wf_fs s" "is_dir s (d @ ns)"
  moreover have "d @ ns = (d @ take k ns) @ m # q" using Cons append_take_drop_id [of k ns] by simp
  ultimately show ?thesis using wf_prefix_dir [of s "d @ take k ns" m q] by (auto simp: is_dir_def split: option.splits)
qed simp

text \<open>A directory of the state tree that is there is opened, whichever of the two roots its path is under.\<close>

lemma open_state_existing:
  assumes "good_layout l" and "wf_fs s" and "split_state_path l p = Some (root, parts)" and "is_dir s (names_of (py_normpath p))"
  shows "open_state_dir l c s p = (Inr (names_of (py_normpath p)), s)"
proof -
  note sp = state_split [OF assms(1,3)]
  have d: "is_dir s (names_of root @ take k parts)" for k using wf_take_dir [OF assms(2)] assms(4) sp(3) by simp
  have "is_dir s (names_of root)" using d [of 0] by simp
  with open_state_there [OF assms(3,1,2)] state_walk_existing [OF sp(2)] d sp(3) show ?thesis by simp
qed

text \<open>What an atomic write leaves: the destination is a new file with the bytes the block wrote.\<close>

lemma atomic_text_written:
  assumes "good_layout l" and "wf_fs s" and "split_state_path l p = Some (root, parts)" and "is_dir s (names_of root)"
    and "parts \<noteq> []" and "atomic_replace l ext body s p = (Inr i, v)" and "CHR ''/'' \<notin> set ext" and "2 < length ext"
    and "\<And>i t. body i t = (None, write_inode i ((f_data t i)\<lparr>fd_bytes := text\<rparr>) t)"
  shows "wf_fs v \<and> node_at v (names_of (py_normpath p)) = Some (NFile i) \<and> fd_bytes (f_data v i) = text \<and> safe_step (names_of root) s v"
proof -
  let ?r = "names_of root" and ?d = "names_of root @ butlast parts" and ?n = "last parts" and ?t = "temp_name (last parts) ext"
  note sp = state_split [OF assms(1,3)]
  have bp: "list_all plain_name (butlast parts)" using sp(2) by (auto simp: list_all_iff dest: in_set_butlastD)
  have n: "plain_name ?n" using sp(2) assms(5) by (simp add: list_all_iff)
  then have tmp: "plain_name ?t" using assms(7,8) by (intro temp_name_plain) (auto simp: plain_name_def)
  obtain c cs where cs: "parts = c # cs" using assms(5) by (cases parts) auto
  obtain o1 t0 where w: "state_walk True s ?r (butlast parts) = (o1, t0)" by fastforce
  note safe = state_walk_safe [OF w bp prefix_order.refl]
  have od: "open_state_dir l True s (rejoin root (butlast parts)) = (case o1 of Inl e \<Rightarrow> (Inl (StateErr e), t0) | Inr d \<Rightarrow> (Inr d, t0))"
    using open_state_there [OF split_parent [OF assms(1,3)] assms(1,2,4), of True] w by simp
  from assms(3,6) od cs obtain d where "o1 = Inr d" by (cases o1) (auto simp: atomic_replace_def)
  with safe have d: "o1 = Inr ?d" and s0: "safe_step ?r s t0" by auto
  with assms(3,6) od cs have ri: "replace_into ext body t0 ?d ?n = (Inr i, v)" by (auto simp: atomic_replace_def)
  obtain t u where o: "open_new_at t0 ?d ?t 384 = Inr (i, t)" and b: "body i t = (None, u)" and pu: "publish_at u ?d ?t ?n i = Inr v"
    using ri by (auto simp: replace_into_def Let_def split: sum.splits prod.splits option.splits)
  note on = safe_open_new [OF o tmp prefix_order.refl]
  have wt: "wf_fs t" by (rule safe_wf [OF on(1) safe_wf [OF s0 assms(2)]])
  have it: "i < f_next t" using wf_node(3) [OF wt on(3)] by simp
  have u: "u = write_inode i ((f_data t i)\<lparr>fd_bytes := text\<rparr>) t" using b assms(9) by simp
  have "safe_step ?d t0 u"
  proof -
    have "f_next t0 \<le> i" by (rule on(2))
    with on(1) show ?thesis unfolding u safe_step_def keeps_bytes_def ft.beyond_def by auto
  qed
  moreover have uv: "safe_step ?d u v" by (rule publish_at_safe [OF pu tmp n prefix_order.refl])
  ultimately have "safe_step ?d t0 v" by (rule safe_trans)
  then have "safe_step ?r s v" using s0 safe_mono [of ?r ?d t0 v] safe_trans by simp
  moreover have "fd_bytes (f_data v i) = text" using uv it by (simp add: safe_step_def keeps_bytes_def u)
  moreover have "node_at v (?d @ [?n]) = Some (NFile i)" by (rule publish_at_done [OF pu tmp])
  moreover have "?d @ [?n] = names_of (py_normpath p)" using sp(3) assms(5) by simp
  ultimately show ?thesis using safe_wf assms(2) by metis
qed

subsection \<open>Manifest entries\<close>

lemma entry_name_plain: "CHR ''/'' \<notin> set (sha (concat (map utf8_char (canonical_ref ref @ ''_'' @ arch)))) \<Longrightarrow> plain_name (manifest_cache_name sha ref arch)"
  by (auto simp: manifest_cache_name_def manifest_cache_key_def plain_name_def dest: in_set_takeD)

lemma manifest_path_names:
  assumes "good_layout l" and "plain_name (manifest_cache_name sha ref arch)"
  shows "names_of (py_normpath (manifest_cache_path sha l ref arch)) = cache_path l ''oci_manifests'' @ [manifest_cache_name sha ref arch]"
  using split_cache_dir(1) [OF assms(1), of "[''oci_manifests'', manifest_cache_name sha ref arch]"] cache_names_plain(2) assms(2)
  by (simp add: manifest_cache_path_def MANIFEST_CACHE_DIR_def rejoin_def cache_path_def)

lemma manifest_dir_split:
  assumes "good_layout l" and "plain_name (manifest_cache_name sha ref arch)"
    and "split_state_path l (manifest_cache_path sha l ref arch) = Some (root, parts)" and "parts \<noteq> []"
  shows "split_state_path l (MANIFEST_CACHE_DIR l) = Some (root, butlast parts)"
proof -
  note sp = state_split [OF assms(1,3)]
  note g = good_root_names [OF sp(1)]
  have bp: "list_all plain_name (butlast parts)" using sp(2) by (auto simp: list_all_iff dest: in_set_butlastD)
  have "names_of root @ parts = cache_path l ''oci_manifests'' @ [manifest_cache_name sha ref arch]"
    using sp(3) manifest_path_names [OF assms(1,2)] by simp
  then have e: "names_of root @ butlast parts = cache_path l ''oci_manifests''"
    using assms(4) by (metis butlast_append butlast_snoc)
  have r: "rejoin root (butlast parts) = ''/'' @ join_with ''/'' (names_of root @ butlast parts)"
    using rejoin_normal [OF g(1,2) bp] g(5) by simp
  have "py_normpath (rejoin root (butlast parts)) = ''/'' @ join_with ''/'' (names_of root @ butlast parts)"
    unfolding r by (rule normpath_normal) (use g(1) bp in simp)
  also have "\<dots> = py_normpath (MANIFEST_CACHE_DIR l)"
    using split_cache_dir(2) [OF assms(1), of "[''oci_manifests'']"] cache_names_plain(2) e
    by (simp add: MANIFEST_CACHE_DIR_def rejoin_one cache_path_def)
  finally show ?thesis using split_parent [OF assms(1,3)] by (simp add: split_state_path_def)
qed

lemma entry_read_back:
  assumes "good_layout l" and "wf_fs s" and "CHR ''/'' \<notin> set (sha (concat (map utf8_char (canonical_ref ref @ ''_'' @ arch))))"
    and "split_state_path l (manifest_cache_path sha l ref arch) = Some (root, parts)" and "parts \<noteq> []" and "is_dir s (names_of root)"
    and "dump_json l ext (JObj p) s (manifest_cache_path sha l ref arch) = (Inr i, v)" and "CHR ''/'' \<notin> set ext" and "2 < length ext"
    and "json_ok (JObj p)" and "\<not> json_too_long (JObj p)" and "length (json_dumps (JObj p)) \<le> MAX_STATE_JSON_BYTES"
  shows "read_entry sha l v ref arch = Some p"
proof -
  let ?n = "manifest_cache_name sha ref arch" and ?d = "cache_path l ''oci_manifests''"
  have n: "plain_name ?n" using entry_name_plain [of sha ref arch] assms(3) by blast
  have "atomic_replace l ext (dump_block (JObj p)) s (manifest_cache_path sha l ref arch) = (Inr i, v)"
    using assms(7) by (simp add: dump_json_def)
  from atomic_text_written [OF assms(1,2,4,6,5) this assms(8,9), of "json_dumps (JObj p)"]
  have w: "wf_fs v" "node_at v (?d @ [?n]) = Some (NFile i)" "fd_bytes (f_data v i) = json_dumps (JObj p)"
    unfolding manifest_path_names [OF assms(1) n] by (simp_all add: dump_block_def)
  have dn: "names_of (py_normpath (MANIFEST_CACHE_DIR l)) = ?d"
    using split_cache_dir(1) [OF assms(1), of "[''oci_manifests'']"] cache_names_plain(2)
    by (simp add: MANIFEST_CACHE_DIR_def rejoin_one cache_path_def)
  have "is_dir v ?d" by (rule wf_node(2) [OF w(1,2)])
  with open_state_existing [OF assms(1) w(1) manifest_dir_split [OF assms(1) n assms(4,5)]] dn
  have o: "open_manifest_cache_dir l v = Inr ?d" by (simp add: open_manifest_cache_dir_def)
  have "json_loads_bytes (json_dumps (JObj p)) = Some (JObj p)"
    using assms(10,11) by (simp add: json_loads_bytes_def decode_ascii ascii_dumps json_loads_dumps del: json_dumps.simps)
  then have "load_entry v ?d ?n = Some (p, fd_mtime (f_data v i))"
    using w(2,3) n assms(12) by (simp add: load_entry_def open_regular_at_def at_plain read_state_file_def del: json_dumps.simps)
  with o show ?thesis by (simp add: read_entry_def)
qed



end
