(* ===== verification/Clear_Props.thy ===== *)
theory Clear_Props
  imports Cache_Props
begin

text \<open>
  Emptying the cache: the size reported is the sum over every regular file below the cache directory, for any
  shape of tree and within the walk's bound, and everything below the directory goes.
\<close>

subsection \<open>Sums over a tree\<close>

definition mass :: "(node \<Rightarrow> nat) \<Rightarrow> fs \<Rightarrow> path \<Rightarrow> nat" where
  "mass f s p = sum_list (map (\<lambda>e. if prefix p (fst e) then f (snd e) else 0) (f_ents s))"

lemma sum_list_swap:
  fixes g :: "'a \<Rightarrow> 'b \<Rightarrow> nat"
  shows "sum_list (map (\<lambda>e. sum_list (map (g e) ns)) es) = sum_list (map (\<lambda>n. sum_list (map (\<lambda>e. g e n) es)) ns)"
  by (induction es) (simp_all add: sum_list_addf)

lemma sum_list_key:
  fixes f :: "'b \<Rightarrow> nat"
  shows "distinct (map fst es) \<Longrightarrow>
    sum_list (map (\<lambda>e. if fst e = p then f (snd e) else 0) es) = (case map_of es p of None \<Rightarrow> 0 | Some x \<Rightarrow> f x)"
proof (induction es)
  case (Cons e es)
  obtain q x where e: "e = (q, x)" by (cases e)
  show ?case
  proof (cases "q = p")
    case True
    then have "p \<notin> fst ` set es" using Cons.prems e by auto
    then have "map_of es p = None" by (simp add: map_of_eq_None_iff)
    with Cons True e show ?thesis by simp
  qed (use Cons e in simp)
qed simp

lemma sum_list_one:
  fixes k :: nat
  shows "distinct ns \<Longrightarrow> n \<in> set ns \<Longrightarrow> sum_list (map (\<lambda>m. if m = n then k else 0) ns) = k"
  by (induction ns) (auto simp: sum_list_0)

lemma prefix_child: "prefix (p @ [m]) (p @ n # z) \<longleftrightarrow> m = n"
  by simp

lemma child_node: "wf_fs s \<Longrightarrow> node_at s (p @ n # z) \<noteq> None \<Longrightarrow> node_at s (p @ [n]) \<noteq> None"
proof (cases z)
  case (Cons m q)
  assume "wf_fs s" "node_at s (p @ n # z) \<noteq> None"
  with wf_prefix_dir [of s "p @ [n]" m q] Cons have "is_dir s (p @ [n])" by simp
  then show ?thesis by (auto simp: is_dir_def split: option.splits)
qed simp

lemma mass_split:
  assumes "wf_fs s" and "node_at s p = Some x"
  shows "mass f s p = f x + sum_list (map (\<lambda>n. mass f s (p @ [n])) (listdir_at s p))"
proof -
  let ?k = "\<lambda>e. if prefix p (fst e) then f (snd e) else 0"
  let ?g = "\<lambda>e n. if prefix (p @ [n]) (fst e) then f (snd e) else 0"
  have one: "?k e = (if fst e = p then f (snd e) else 0) + sum_list (map (?g e) (listdir_at s p))" if "e \<in> set (f_ents s)" for e
  proof (cases "\<exists>n z. fst e = p @ n # z")
    case True
    then obtain n z where q: "fst e = p @ n # z" by blast
    have "node_at s (fst e) = Some (snd e)" using that assms(1) by (auto simp: node_at_iff wf_fs_iff)
    then have "node_at s (p @ [n]) \<noteq> None"
      using child_node [OF assms(1), of p n z] q by simp
    then have "n \<in> set (listdir_at s p)" using listdir_iff [OF assms(1)] by simp
    with q sum_list_one [OF listdir_sorted(2), of n s p "f (snd e)"] show ?thesis by simp
  next
    case False
    then have "\<not> prefix (p @ [n]) (fst e)" for n by (auto simp: prefix_def)
    moreover from False have "prefix p (fst e) \<longleftrightarrow> fst e = p" by (metis append_Nil2 list.exhaust prefixE prefix_order.refl)
    ultimately show ?thesis by simp
  qed
  have "mass f s p = sum_list (map (\<lambda>e. (if fst e = p then f (snd e) else 0) + sum_list (map (?g e) (listdir_at s p))) (f_ents s))"
    unfolding mass_def using one by (intro arg_cong [of _ _ sum_list] map_cong) simp_all
  also have "\<dots> = sum_list (map (\<lambda>e. if fst e = p then f (snd e) else 0) (f_ents s))
      + sum_list (map (\<lambda>e. sum_list (map (?g e) (listdir_at s p))) (f_ents s))" by (simp add: sum_list_addf)
  also have "sum_list (map (\<lambda>e. if fst e = p then f (snd e) else 0) (f_ents s)) = f x"
    using sum_list_key [OF wf_fsD(2) [OF assms(1)], of p f] assms(2) by (simp add: node_at_def dict_get_def)
  also have "sum_list (map (\<lambda>e. sum_list (map (?g e) (listdir_at s p))) (f_ents s)) = sum_list (map (\<lambda>n. mass f s (p @ [n])) (listdir_at s p))"
    unfolding mass_def by (rule sum_list_swap)
  finally show ?thesis .
qed

lemma mass_leaf: "wf_fs s \<Longrightarrow> node_at s p = Some x \<Longrightarrow> \<not> is_dir_node x \<Longrightarrow> mass f s p = f x"
proof -
  assume a: "wf_fs s" "node_at s p = Some x" "\<not> is_dir_node x"
  then have "\<not> is_dir s p" by (simp add: is_dir_def)
  then have "listdir_at s p = []" using listdir_iff [OF a(1)] no_below_file [OF a(1)] by (metis all_not_in_conv set_empty)
  with mass_split [OF a(1,2)] show ?thesis by simp
qed

subsection \<open>The walk\<close>

definition file_size :: "fs \<Rightarrow> node \<Rightarrow> nat" where
  "file_size s x = (case x of NFile i \<Rightarrow> length (fd_bytes (f_data s i)) | _ \<Rightarrow> 0)"

lemma file_size_dir: "is_dir_node x \<Longrightarrow> file_size s x = 0"
  by (cases x) (simp_all add: file_size_def)

definition pending :: "(node \<Rightarrow> nat) \<Rightarrow> fs \<Rightarrow> path \<times> string list \<Rightarrow> nat" where
  "pending f s fr = sum_list (map (\<lambda>n. mass f s (fst fr @ [n])) (snd fr))"

lemma pending_last: "ns \<noteq> [] \<Longrightarrow> pending f s (d, ns) = pending f s (d, butlast ns) + mass f s (d @ [last ns])"
  by (cases ns rule: rev_cases) (simp_all add: pending_def)

lemma size_walk_sum:
  assumes "wf_fs s" and "\<forall>fr \<in> set stack. set (snd fr) \<subseteq> set (listdir_at s (fst fr))"
    and "sum_list (map (\<lambda>fr. Suc (pending (\<lambda>x. 2) s fr)) stack) < k"
  shows "size_walk k s stack acc = Some (acc + sum_list (map (pending (file_size s) s) stack))"
  using assms(2,3)
proof (induction k arbitrary: stack acc)
  case (Suc k)
  show ?case
  proof (cases stack)
    case (Cons fr rest)
    obtain d ns where fr: "fr = (d, ns)" by (cases fr)
    show ?thesis
    proof (cases ns)
      case Nil
      with Suc Cons fr show ?thesis by (simp add: pending_def)
    next
      case (Cons n0 ns0)
      let ?n = "last ns" and ?fr = "(d, butlast ns)"
      have ne: "ns \<noteq> []" using Cons by simp
      have sub: "set (butlast ns) \<subseteq> set (listdir_at s d)" and mem: "?n \<in> set (listdir_at s d)"
        using Suc.prems(1) \<open>stack = fr # rest\<close> fr in_set_butlastD [of _ ns] last_in_set [OF ne] by auto
      have p: "plain_name ?n" by (rule listdir_plain [OF assms(1) mem])
      obtain x where x: "node_at s (d @ [?n]) = Some x" using listdir_iff [OF assms(1)] mem by blast
      have step: "size_walk (Suc k) s stack acc =
        (case x of NDir m t \<Rightarrow> size_walk k s ((d @ [?n], listdir_at s (d @ [?n])) # ?fr # rest) acc
         | _ \<Rightarrow> size_walk k s (?fr # rest) (acc + file_size s x))"
        using p x \<open>stack = fr # rest\<close> fr Cons
        by (cases x) (simp_all add: lstat_at_def at_plain opendir_at_def file_size_def Let_def)
      note split = pending_last [OF ne, of _ s d]
      show ?thesis
      proof (cases "is_dir_node x")
        case True
        have m: "mass f s (d @ [?n]) = f x + pending f s (d @ [?n], listdir_at s (d @ [?n]))" for f
          using mass_split [OF assms(1) x] by (simp add: pending_def)
        have "size_walk k s ((d @ [?n], listdir_at s (d @ [?n])) # ?fr # rest) acc =
            Some (acc + sum_list (map (pending (file_size s) s) ((d @ [?n], listdir_at s (d @ [?n])) # ?fr # rest)))"
          using Suc.prems \<open>stack = fr # rest\<close> fr sub by (intro Suc.IH) (simp_all add: split m)
        with step True \<open>stack = fr # rest\<close> fr file_size_dir [OF True] show ?thesis by (cases x) (simp_all add: split m)
      next
        case False
        note m = mass_leaf [OF assms(1) x False]
        have "size_walk k s (?fr # rest) (acc + file_size s x) =
            Some (acc + file_size s x + sum_list (map (pending (file_size s) s) (?fr # rest)))"
          using Suc.prems \<open>stack = fr # rest\<close> fr sub by (intro Suc.IH) (simp_all add: split m)
        with step False \<open>stack = fr # rest\<close> fr show ?thesis by (cases x) (simp_all add: split m)
      qed
    qed
  qed simp
qed simp

lemma mass_count: "mass (\<lambda>x. 2) s p \<le> 2 * length (f_ents s)"
proof -
  have "sum_list (map (\<lambda>e. if prefix p (fst e) then 2 else 0) es) \<le> 2 * length es" for es :: "(path \<times> node) list"
    by (induction es) auto
  then show ?thesis by (simp add: mass_def)
qed

text \<open>The size \<open>clear-cache\<close> reports: the walk over an explicit stack ends within its bound, on a tree of
  any depth, and its total is the sum of the sizes of the regular files below the directory.\<close>

theorem tree_size_is_the_sum:
  assumes "wf_fs s" and "is_dir s d"
  shows "tree_size s d = Some (sum_list (map (\<lambda>e. if strict_prefix d (fst e) then file_size s (snd e) else 0) (f_ents s)))"
proof -
  obtain x where x: "node_at s d = Some x" and dx: "is_dir_node x" using assms(2) by (auto simp: is_dir_def split: option.splits)
  note m = mass_split [OF assms(1) x]
  have "Suc (pending (\<lambda>x. 2) s (d, listdir_at s d)) < 2 * length (f_ents s) + 2"
    using m [of "\<lambda>x. 2"] mass_count [of s d] by (simp add: pending_def)
  then have "tree_size s d = Some (pending (file_size s) s (d, listdir_at s d))"
    using size_walk_sum [OF assms(1), of "[(d, listdir_at s d)]" "2 * length (f_ents s) + 2" 0] by (simp add: tree_size_def)
  also have "pending (file_size s) s (d, listdir_at s d) = mass (file_size s) s d"
    using m [of "file_size s"] dx by (cases x) (simp_all add: pending_def file_size_def)
  also have "\<dots> = sum_list (map (\<lambda>e. if strict_prefix d (fst e) then file_size s (snd e) else 0) (f_ents s))"
    unfolding mass_def
  proof (intro arg_cong [of _ _ sum_list] map_cong refl)
    fix e assume e: "e \<in> set (f_ents s)"
    have "node_at s (fst e) = Some (snd e)" using e assms(1) by (auto simp: node_at_iff wf_fs_iff)
    with x file_size_dir [OF dx] have "fst e = d \<Longrightarrow> file_size s (snd e) = 0" by auto
    then show "(if prefix d (fst e) then file_size s (snd e) else 0) = (if strict_prefix d (fst e) then file_size s (snd e) else 0)"
      by (auto simp: strict_prefix_def)
  qed
  finally show ?thesis .
qed

theorem tree_size_is_the_sum_witness:
  "tree_size (write_inode 1 \<lparr>fd_bytes = ''hello'', fd_mode = 420, fd_mtime = 0\<rparr> sample_cache) [''rt'', ''cache''] = Some 5"
proof -
  let ?s = "write_inode 1 \<lparr>fd_bytes = ''hello'', fd_mode = 420, fd_mtime = 0\<rparr> sample_cache"
  have "wf_fs ?s" "is_dir ?s [''rt'', ''cache'']" by code_simp+
  moreover have "sum_list (map (\<lambda>e. if strict_prefix [''rt'', ''cache''] (fst e) then file_size ?s (snd e) else 0) (f_ents ?s)) = 5" by code_simp
  ultimately show ?thesis using tree_size_is_the_sum [of ?s "[''rt'', ''cache'']"] by simp
qed

subsection \<open>Emptying\<close>

lemma remove_top_done:
  assumes "wf_fs s" and "\<forall>n \<in> set ns. plain_name n \<and> free_below (d @ [n]) s"
  shows "wf_fs (remove_top s d ns) \<and> removed ((\<lambda>n. d @ [n]) ` set ns) s (remove_top s d ns)"
  using assms
proof (induction ns arbitrary: s)
  case Nil
  then show ?case by (simp add: removed_def)
next
  case (Cons n ns)
  then obtain t where t: "rmtree_at True True s d n = (Inr True, t)" "wf_fs t" "removed {d @ [n]} s t"
    using rmtree_complete [of s n d True True] by auto
  have "free_below (d @ [m]) t" if "m \<in> set ns" for m
    using Cons.prems(2) that removed_stuck [OF t(3)] by (simp add: free_below_def)
  with Cons.IH [OF t(2)] Cons.prems(2) have "wf_fs (remove_top t d ns)" "removed ((\<lambda>n. d @ [n]) ` set ns) t (remove_top t d ns)" by auto
  with removed_trans [OF t(3)] t(1) show ?case by simp
qed

lemma remove_top_safe: "wf_fs s \<Longrightarrow> \<forall>n \<in> set ns. plain_name n \<Longrightarrow> safe_step d s (remove_top s d ns)"
proof (induction ns arbitrary: s)
  case (Cons n ns)
  obtain res t where t: "rmtree_at True True s d n = (res, t)" by fastforce
  have s: "safe_step d s t" using rmtree_safe [OF t Cons.prems(1) _ prefix_order.refl] Cons.prems(2) by simp
  from Cons.IH [OF safe_wf [OF s Cons.prems(1)]] Cons.prems(2) t s show ?case by (auto intro: safe_trans)
qed simp

text \<open>A plain \<open>clear-cache\<close> touches nothing outside the cache directory, reached without following a link,
  and changes the bytes of no file; when nothing in it refuses to go, nothing is left below it.\<close>

theorem clear_empties_the_cache:
  assumes "good_layout l" and "wf_fs s" and "clear_all l s = (res, t)"
  shows "safe_step (names_of (lo_cache l)) s t
    \<and> (res \<noteq> CacheEmpty \<and> (\<forall>e. res \<noteq> CacheUnreadable e) \<and> free_below (names_of (lo_cache l)) s \<longrightarrow>
         (\<forall>q. node_at t q = (if strict_prefix (names_of (lo_cache l)) q then None else node_at s q)))"
proof (cases "fst (open_state_dir l False s (lo_cache l))")
  case (Inl e)
  with assms(3) show ?thesis by (auto simp: clear_all_def split: if_splits)
next
  case (Inr d)
  let ?r = "names_of (lo_cache l)"
  obtain o1 u where o1: "open_state_dir l False s (lo_cache l) = (o1, u)" by fastforce
  with Inr have "d = names_of (py_normpath (lo_cache l))" using open_state_found(2) [OF o1 assms(1)] by simp
  then have d: "d = ?r" using split_cache_dir(1) [OF assms(1), of "[]"] by (simp add: rejoin_def)
  have pl: "\<forall>n \<in> set (listdir_at s d). plain_name n" using listdir_plain [OF assms(2)] by blast
  have t: "t = s \<and> res = CacheEmpty \<or> t = remove_top s d (listdir_at s d)"
    using assms(3) Inr by (auto simp: clear_all_def split: if_splits)
  have safe: "safe_step ?r s t" using t remove_top_safe [OF assms(2) pl] d by auto
  have "node_at t q = (if strict_prefix ?r q then None else node_at s q)"
    if h: "res \<noteq> CacheEmpty" "free_below ?r s" for q
  proof -
    have "free_below (d @ [n]) s" for n using h(2) d by (auto simp: free_below_def list_all_iff dest: append_prefixD)
    then have rm: "removed ((\<lambda>n. d @ [n]) ` set (listdir_at s d)) s t" using remove_top_done [OF assms(2)] pl t h(1) by blast
    have "(\<exists>p \<in> (\<lambda>n. d @ [n]) ` set (listdir_at s d). prefix p q) \<or> node_at s q = None" if sq: "strict_prefix ?r q"
    proof -
      obtain zs where zs: "q = d @ zs" "zs \<noteq> []" using sq d by (auto simp: strict_prefix_def prefix_def)
      then obtain n z where q: "q = d @ n # z" by (cases zs) auto
      show ?thesis
      proof (cases "node_at s q")
        case (Some x)
        then have "node_at s (d @ [n]) \<noteq> None"
          using child_node [OF assms(2), of d n z] q by simp
        then have "n \<in> set (listdir_at s d)" using listdir_iff [OF assms(2)] by simp
        with q show ?thesis by auto
      qed simp
    qed
    moreover have "\<not> prefix (d @ [n]) q" if "\<not> strict_prefix ?r q" for n
      using that d by (auto simp: strict_prefix_def prefix_def)
    ultimately show ?thesis using rm by (auto simp: removed_def)
  qed
  with safe show ?thesis by blast
qed

theorem clear_empties_the_cache_witness:
  "case clear_all sample_layout sample_cache of
     (res, t) \<Rightarrow> node_at t [''rt'', ''cache''] = Some (NDir 493 0) \<and> node_at t [''rt'', ''cache'', ''oci_manifests'', ''k.json''] = None"
proof -
  obtain res t where r: "clear_all sample_layout sample_cache = (res, t)" by fastforce
  have f: "wf_fs sample_cache" "fst (clear_all sample_layout sample_cache) = Cleared (Some 0)"
    "free_below (names_of (lo_cache sample_layout)) sample_cache" "names_of (lo_cache sample_layout) = [''rt'', ''cache'']"
    "node_at sample_cache [''rt'', ''cache''] = Some (NDir 493 0)" by code_simp+
  from clear_empties_the_cache [OF sample_layout_good f(1) r] f(2,3) r
  have "node_at t q = (if strict_prefix [''rt'', ''cache''] q then None else node_at sample_cache q)" for q
    unfolding f(4) by auto
  with f(5) r show ?thesis by simp
qed

end
