(* ===== verification/L2s.thy ===== *)
theory L2s
  imports Clear_Props
begin

text \<open>
  The write side of \<open>l2s.py\<close>: after a rootfs has moved, every symbolic link in it whose target starts with the
  old path is given the new one. The walk rides an explicit stack, and each entry is named off a descriptor;
  \<open>Levels\<close> bounds the open descriptors and changes nothing here.
\<close>

subsection \<open>The walk\<close>

definition rewrite_link :: "string \<Rightarrow> string \<Rightarrow> fs \<Rightarrow> path \<Rightarrow> string \<Rightarrow> fs" where
  "rewrite_link rootfs old s d n =
     (case readlink_at s d n of
        Inl e \<Rightarrow> s
      | Inr target \<Rightarrow>
          (if \<not> starts_with old target then s
           else case unlink_at s d n of
               Inl e \<Rightarrow> s
             | Inr t \<Rightarrow> (case symlink_at t (rootfs @ drop (length old) target) d n of Inl e \<Rightarrow> t | Inr u \<Rightarrow> u)))"

text \<open>\<open>None\<close> is the end of the fuel.\<close>

fun rewrite_steps :: "string \<Rightarrow> string \<Rightarrow> nat \<Rightarrow> fs \<Rightarrow> (path \<times> string list) list \<Rightarrow> fs option" where
  "rewrite_steps rootfs old 0 s stack = None"
| "rewrite_steps rootfs old (Suc k) s [] = Some s"
| "rewrite_steps rootfs old (Suc k) s ((d, []) # stack) = rewrite_steps rootfs old k s stack"
| "rewrite_steps rootfs old (Suc k) s ((d, n # ns) # stack) =
     (let name = last (n # ns); frames = (d, butlast (n # ns)) # stack in
      case lstat_at s d name of
        Inl e \<Rightarrow> rewrite_steps rootfs old k s frames
      | Inr (NDir m t) \<Rightarrow>
          (case opendir_at s d name of
             Inl e \<Rightarrow> rewrite_steps rootfs old k s frames
           | Inr p \<Rightarrow> rewrite_steps rootfs old k s ((p, listdir_at s p) # frames))
      | Inr (NLink g m) \<Rightarrow> rewrite_steps rootfs old k (rewrite_link rootfs old s d name) frames
      | Inr _ \<Rightarrow> rewrite_steps rootfs old k s frames)"

definition rewrite_l2s_targets :: "string \<Rightarrow> string \<Rightarrow> fs \<Rightarrow> path \<Rightarrow> fs option" where
  "rewrite_l2s_targets rootfs old s d =
     rewrite_steps rootfs old (2 * length (f_ents s) + 2) s [(d, listdir_at s d)]"

subsection \<open>What it does to one link\<close>

text \<open>The specification: a link's new content, by its path.\<close>

definition rerooted :: "string \<Rightarrow> string \<Rightarrow> fs \<Rightarrow> path \<Rightarrow> node option \<Rightarrow> node option" where
  "rerooted rootfs old s q x =
     (case x of
        Some (NLink g m) \<Rightarrow>
          (if starts_with old g \<and> q \<notin> set (f_stuck s) then Some (NLink (rootfs @ drop (length old) g) (f_now s)) else x)
      | _ \<Rightarrow> x)"

lemma rerooted_shape:
  "rerooted r o1 s q x = None \<longleftrightarrow> x = None"
  "(case rerooted r o1 s q x of Some y \<Rightarrow> is_dir_node y | None \<Rightarrow> False) = (case x of Some y \<Rightarrow> is_dir_node y | None \<Rightarrow> False)"
  by (auto simp: rerooted_def split: option.splits node.splits)

lemma rerooted_None [simp]: "rerooted r o1 s q None = None"
  by (simp add: rerooted_def)

lemma rerooted_frame: "f_stuck t = f_stuck s \<Longrightarrow> f_now t = f_now s \<Longrightarrow> rerooted r o1 t q x = rerooted r o1 s q x"
  by (cases x) (auto simp: rerooted_def split: node.splits)

lemma rewrite_link_node:
  assumes "wf_fs s" and "node_at s (d @ [n]) = Some (NLink g m)" and "rootfs \<noteq> []" and "t = rewrite_link rootfs old s d n"
  shows "node_at t q = (if q = d @ [n] then rerooted rootfs old s q (node_at s q) else node_at s q)"
    and "wf_fs t" and "f_stuck t = f_stuck s" and "f_now t = f_now s" and "f_data t = f_data s" and "f_next t = f_next s"
proof -
  have p: "plain_name n" and d: "is_dir s d" using wf_node(1,2) [OF assms(1,2)] by simp_all
  have ne: "d \<noteq> d @ [n]" by simp
  let ?new = "NLink (rootfs @ drop (length old) g) (f_now s)"
  have t: "t = (if starts_with old g \<and> d @ [n] \<notin> set (f_stuck s) then put_node (d @ [n]) ?new (drop_node (d @ [n]) s) else s)"
    using assms(2,3) p d unfolding assms(4)
    by (simp add: rewrite_link_def readlink_at_def unlink_at_def symlink_at_def at_plain)
  show "node_at t q = (if q = d @ [n] then rerooted rootfs old s q (node_at s q) else node_at s q)"
    using assms(2) by (simp add: t rerooted_def)
  show "f_stuck t = f_stuck s" "f_now t = f_now s" "f_data t = f_data s" "f_next t = f_next s" by (simp_all add: t)
  have nd: "\<not> is_dir s (d @ [n])" using assms(2) by (simp add: is_dir_def)
  have "wf_fs (drop_node (d @ [n]) s)" by (rule wf_drop) (use assms(1) no_below_file [OF assms(1) nd] in auto)
  moreover have "wf_fs (put_node (d @ [n]) ?new (drop_node (d @ [n]) s))"
    by (rule wf_put) (use calculation p d nd in auto)
  ultimately show "wf_fs t" using assms(1) by (simp add: t)
qed

subsection \<open>What the walk does\<close>

definition todo :: "(path \<times> string list) list \<Rightarrow> path \<Rightarrow> bool" where
  "todo stack q \<longleftrightarrow> (\<exists>fr \<in> set stack. \<exists>n \<in> set (snd fr). prefix (fst fr @ [n]) q)"

lemma todo_simps [simp]: "\<not> todo [] q" "todo (fr # stack) q \<longleftrightarrow> (\<exists>n \<in> set (snd fr). prefix (fst fr @ [n]) q) \<or> todo stack q"
  by (auto simp: todo_def)

text \<open>The frames of the stack are nested directories, and no pending name leads to a frame above it.\<close>

fun apart :: "(path \<times> string list) list \<Rightarrow> bool" where
  "apart [] \<longleftrightarrow> True"
| "apart ((d, ns) # stack) \<longleftrightarrow> distinct ns \<and> apart stack \<and> (\<forall>fr \<in> set stack. strict_prefix (fst fr) d) \<and> \<not> todo stack d"

lemma apart_below:
  assumes "apart ((d, ns) # stack)"
  shows "todo stack (d @ z) = False"
proof -
  have False if fr: "fr \<in> set stack" "n \<in> set (snd fr)" "prefix (fst fr @ [n]) (d @ z)" for fr n
  proof -
    have "strict_prefix (fst fr) d" using assms fr(1) by simp
    then have "length (fst fr @ [n]) \<le> length d" by (auto dest: prefix_length_less)
    with fr(3) have "prefix (fst fr @ [n]) d" by (meson prefix_length_prefix prefixI)
    with fr assms show False by (auto simp: todo_def)
  qed
  then show ?thesis by (auto simp: todo_def)
qed

lemma apart_pop: "apart ((d, ns) # stack) \<Longrightarrow> ns \<noteq> [] \<Longrightarrow> apart ((d, butlast ns) # stack)"
  by (auto simp: distinct_butlast)

lemma distinct_last: "distinct ns \<Longrightarrow> ns \<noteq> [] \<Longrightarrow> last ns \<notin> set (butlast ns)"
  by (cases ns rule: rev_cases) auto

lemma apart_push:
  assumes "apart ((d, ns) # stack)" and "ns \<noteq> []"
  shows "apart ((d @ [last ns], listdir_at s (d @ [last ns])) # (d, butlast ns) # stack)"
proof -
  have "\<not> todo stack (d @ [last ns])" using apart_below [OF assms(1)] by simp
  moreover have "last ns \<notin> set (butlast ns)" using assms distinct_last [of ns] by simp
  moreover have "strict_prefix (fst fr) (d @ [last ns])" if "fr \<in> set stack" for fr
    using assms(1) that by (auto simp: strict_prefix_def)
  ultimately show ?thesis using assms apart_pop [OF assms] listdir_sorted(2) by (auto simp: strict_prefix_def)
qed

lemma todo_last: "ns \<noteq> [] \<Longrightarrow> todo ((d, ns) # stack) q \<longleftrightarrow> prefix (d @ [last ns]) q \<or> todo ((d, butlast ns) # stack) q"
  by (cases ns rule: rev_cases) auto

lemma todo_push:
  assumes "wf_fs s" and "node_at s q \<noteq> None" and "q \<noteq> p"
  shows "todo ((p, listdir_at s p) # stack) q \<longleftrightarrow> prefix p q \<or> todo stack q"
proof -
  have "(\<exists>n \<in> set (listdir_at s p). prefix (p @ [n]) q) \<longleftrightarrow> prefix p q"
  proof
    assume "prefix p q"
    then obtain z where z: "q = p @ z" "z \<noteq> []" using assms(3) by (auto simp: prefix_def)
    then obtain n y where q: "q = p @ n # y" by (cases z) auto
    then have "n \<in> set (listdir_at s p)" using child_node [OF assms(1), of p n y] assms(2) listdir_iff [OF assms(1)] by simp
    with q show "\<exists>n \<in> set (listdir_at s p). prefix (p @ [n]) q" by auto
  qed (auto dest: append_prefixD)
  then show ?thesis by simp
qed

lemma count_domain:
  assumes "wf_fs s" and "wf_fs t" and "\<And>q. node_at t q = None \<longleftrightarrow> node_at s q = None"
  shows "mass (\<lambda>x. 2) t p = mass (\<lambda>x. 2) s p"
proof -
  have c: "mass (\<lambda>x. 2) u p = 2 * card {q. prefix p q \<and> node_at u q \<noteq> None}" if "wf_fs u" for u
  proof -
    have *: "sum_list (map (\<lambda>e. if prefix p (fst e) then 2 else 0) es) = 2 * card {q. prefix p q \<and> q \<in> fst ` set es}"
      if "distinct (map fst es)" for es :: "(path \<times> node) list"
      using that
    proof (induction es)
      case (Cons e es)
      have "{q. prefix p q \<and> q \<in> fst ` set (e # es)} = (if prefix p (fst e) then insert (fst e) else id) {q. prefix p q \<and> q \<in> fst ` set es}" by auto
      moreover have "finite {q. prefix p q \<and> q \<in> fst ` set es}" by simp
      moreover have "fst e \<notin> {q. prefix p q \<and> q \<in> fst ` set es}" using Cons.prems by simp
      ultimately show ?case using Cons by simp
    qed simp
    have "node_at u q \<noteq> None \<longleftrightarrow> q \<in> fst ` set (f_ents u)" for q by (simp add: node_at_def dict_get_None_iff)
    with * [OF wf_fsD(2) [OF that]] show ?thesis by (simp add: mass_def)
  qed
  show ?thesis using c [OF assms(1)] c [OF assms(2)] assms(3) by simp
qed

lemma rewrite_steps_done:
  assumes "rootfs \<noteq> []"
  shows "wf_fs s \<Longrightarrow> apart stack \<Longrightarrow> \<forall>fr \<in> set stack. set (snd fr) \<subseteq> set (listdir_at s (fst fr)) \<Longrightarrow>
    sum_list (map (\<lambda>fr. Suc (pending (\<lambda>x. 2) s fr)) stack) < k \<Longrightarrow>
    \<exists>t. rewrite_steps rootfs old k s stack = Some t \<and> wf_fs t \<and> f_data t = f_data s \<and> f_next t = f_next s \<and> f_stuck t = f_stuck s
      \<and> (\<forall>q. node_at t q = (if todo stack q then rerooted rootfs old s q (node_at s q) else node_at s q))"
proof (induction k arbitrary: s stack)
  case (Suc k)
  show ?case
  proof (cases stack)
    case (Cons fr rest)
    obtain d ns where fr: "fr = (d, ns)" by (cases fr)
    show ?thesis
    proof (cases ns)
      case Nil
      with Suc.IH [of s rest] Suc.prems Cons fr show ?thesis by (simp add: pending_def)
    next
      case (Cons n0 ns0)
      let ?n = "last ns" and ?rest = "(d, butlast ns) # rest"
      let ?p = "d @ [?n]"
      have ne: "ns \<noteq> []" and st: "stack = (d, ns) # rest" using Cons \<open>stack = fr # rest\<close> fr by simp_all
      have sub: "\<forall>fr \<in> set ?rest. set (snd fr) \<subseteq> set (listdir_at s (fst fr))" and mem: "?n \<in> set (listdir_at s d)"
        using Suc.prems(3) st in_set_butlastD [of _ ns] last_in_set [OF ne] by auto
      have p: "plain_name ?n" by (rule listdir_plain [OF Suc.prems(1) mem])
      obtain x where x: "node_at s ?p = Some x" using listdir_iff [OF Suc.prems(1)] mem by blast
      note split = pending_last [OF ne, of _ s d]
      have ap: "apart ((d, ns) # rest)" using Suc.prems(2) st by simp
      have here: "\<not> todo ?rest ?p" using apart_below [OF ap] ap distinct_last [OF _ ne] by simp
      have todo_eq: "todo stack q \<longleftrightarrow> prefix ?p q \<or> todo ?rest q" for q using todo_last [OF ne, of d rest q] st by simp
      show ?thesis
      proof (cases "is_dir_node x")
        case True
        have m: "mass f s ?p = f x + pending f s (?p, listdir_at s ?p)" for f
          using mass_split [OF Suc.prems(1) x] by (simp add: pending_def)
        let ?stack = "(?p, listdir_at s ?p) # ?rest"
        have le: "sum_list (map (\<lambda>fr. Suc (pending (\<lambda>x. 2) s fr)) ?stack) < k"
          using Suc.prems(4) st by (simp add: split m)
        have step: "rewrite_steps rootfs old (Suc k) s stack = rewrite_steps rootfs old k s ?stack"
          using p x True st Cons by (cases x) (simp_all add: lstat_at_def at_plain opendir_at_def Let_def)
        have sub': "\<forall>fr \<in> set ?stack. set (snd fr) \<subseteq> set (listdir_at s (fst fr))" using sub by simp
        from Suc.IH [OF Suc.prems(1) apart_push [OF ap ne] sub' le] obtain t where t: "rewrite_steps rootfs old k s ?stack = Some t"
          "wf_fs t" "f_data t = f_data s" "f_next t = f_next s" "f_stuck t = f_stuck s"
          "\<And>q. node_at t q = (if todo ?stack q then rerooted rootfs old s q (node_at s q) else node_at s q)" by blast
        have "node_at t q = (if todo stack q then rerooted rootfs old s q (node_at s q) else node_at s q)" for q
        proof (cases "node_at s q = None \<or> q = ?p")
          case True
          with x \<open>is_dir_node x\<close> have "rerooted rootfs old s q (node_at s q) = node_at s q" by (cases x) (auto simp: rerooted_def)
          with t(6) [of q] show ?thesis by simp
        next
          case False
          then have "todo ?stack q \<longleftrightarrow> todo stack q" using todo_push [OF Suc.prems(1), of q ?p ?rest] todo_eq by simp
          with t(6) [of q] show ?thesis by simp
        qed
        with t(1-5) step show ?thesis by auto
      next
        case False
        have none: "node_at s q = None" if q: "prefix ?p q" "q \<noteq> ?p" for q
        proof (rule ccontr)
          assume some: "node_at s q \<noteq> None"
          obtain z where z: "q = ?p @ z" "z \<noteq> []" using q by (auto simp: prefix_def)
          then obtain m y where "q = ?p @ m # y" by (cases z) auto
          with wf_prefix_dir [OF Suc.prems(1), of ?p m y] some have "is_dir s ?p" by simp
          with x False show False by (simp add: is_dir_def)
        qed
        obtain u where u: "u = (if is_link_node x then rewrite_link rootfs old s d ?n else s)" by simp
        have step: "rewrite_steps rootfs old (Suc k) s stack = rewrite_steps rootfs old k u ?rest"
          using p x False st Cons u by (cases x) (simp_all add: lstat_at_def at_plain Let_def)
        have un: "node_at u q = (if q = ?p then rerooted rootfs old s q (node_at s q) else node_at s q)"
          and uw: "wf_fs u" "f_stuck u = f_stuck s" "f_now u = f_now s" "f_data u = f_data s" "f_next u = f_next s" for q
        proof -
          have "(\<forall>q. node_at u q = (if q = ?p then rerooted rootfs old s q (node_at s q) else node_at s q))
            \<and> wf_fs u \<and> f_stuck u = f_stuck s \<and> f_now u = f_now s \<and> f_data u = f_data s \<and> f_next u = f_next s"
          proof (cases x)
            case (NLink g m)
            with rewrite_link_node [OF Suc.prems(1) x [unfolded NLink] assms refl, of old] u show ?thesis by simp
          qed (use x u False Suc.prems(1) in \<open>simp_all add: rerooted_def\<close>)
          then show "node_at u q = (if q = ?p then rerooted rootfs old s q (node_at s q) else node_at s q)"
            "wf_fs u" "f_stuck u = f_stuck s" "f_now u = f_now s" "f_data u = f_data s" "f_next u = f_next s" by simp_all
        qed
        have dom: "node_at u q = None \<longleftrightarrow> node_at s q = None" for q using un [of q] rerooted_shape(1) by auto
        have cnt: "pending (\<lambda>x. 2) u fr = pending (\<lambda>x. 2) s fr" for fr
          unfolding pending_def using count_domain [OF Suc.prems(1) uw(1) dom] by simp
        have subu: "\<forall>fr \<in> set ?rest. set (snd fr) \<subseteq> set (listdir_at u (fst fr))"
          using sub listdir_iff [OF uw(1)] listdir_iff [OF Suc.prems(1)] dom by blast
        have le: "sum_list (map (\<lambda>fr. Suc (pending (\<lambda>x. 2) u fr)) ?rest) < k"
          using Suc.prems(4) st mass_leaf [OF Suc.prems(1) x False, of "\<lambda>x. 2"] by (simp add: split cnt)
        from Suc.IH [OF uw(1) apart_pop [OF ap ne] subu le] obtain t where t: "rewrite_steps rootfs old k u ?rest = Some t"
          "wf_fs t" "f_data t = f_data u" "f_next t = f_next u" "f_stuck t = f_stuck u"
          "\<And>q. node_at t q = (if todo ?rest q then rerooted rootfs old u q (node_at u q) else node_at u q)" by blast
        have "node_at t q = (if todo stack q then rerooted rootfs old s q (node_at s q) else node_at s q)" for q
        proof (cases "q = ?p")
          case True
          with t(6) [of q] un [of q] here todo_eq [of q] show ?thesis by simp
        next
          case False
          then have "todo stack q \<longleftrightarrow> todo ?rest q \<or> prefix ?p q" and "node_at u q = node_at s q" using todo_eq un by auto
          moreover have "prefix ?p q \<Longrightarrow> node_at s q = None" using none False by blast
          ultimately show ?thesis using t(6) [of q] rerooted_frame [OF uw(2,3)] rerooted_shape(1) by auto
        qed
        with t(1-5) uw step show ?thesis by auto
      qed
    qed
  qed (use Suc.prems in simp)
qed simp

lemma rewrite_steps_spec:
  assumes "wf_fs s" and "is_dir s d" and "rootfs \<noteq> []"
  shows "\<exists>t. rewrite_l2s_targets rootfs old s d = Some t \<and> wf_fs t \<and> f_data t = f_data s
    \<and> (\<forall>q. node_at t q = (if strict_prefix d q then rerooted rootfs old s q (node_at s q) else node_at s q))"
proof -
  obtain x where x: "node_at s d = Some x" using assms(2) by (auto simp: is_dir_def split: option.splits)
  let ?stack = "[(d, listdir_at s d)]"
  have "sum_list (map (\<lambda>fr. Suc (pending (\<lambda>x. 2) s fr)) ?stack) < 2 * length (f_ents s) + 2"
    using mass_split [OF assms(1) x, of "\<lambda>x. 2"] mass_count [of s d] by (simp add: pending_def)
  from rewrite_steps_done [OF assms(3,1) _ _ this, of old] listdir_sorted(2)
  obtain t where t: "rewrite_l2s_targets rootfs old s d = Some t" "wf_fs t" "f_data t = f_data s"
    "\<And>q. node_at t q = (if todo ?stack q then rerooted rootfs old s q (node_at s q) else node_at s q)"
    by (auto simp: rewrite_l2s_targets_def)
  have "node_at t q = (if strict_prefix d q then rerooted rootfs old s q (node_at s q) else node_at s q)" for q
  proof (cases "node_at s q = None")
    case True
    then show ?thesis using t(4) [of q] rerooted_shape(1) by simp
  next
    case False
    show ?thesis
    proof (cases "q = d")
      case True
      with t(4) [of q] show ?thesis by (auto simp: todo_def)
    next
      case False
      with \<open>node_at s q \<noteq> None\<close> todo_push [OF assms(1), of q d "[]"] t(4) [of q] show ?thesis by (auto simp: strict_prefix_def)
    qed
  qed
  with t(1-3) show ?thesis by blast
qed

text \<open>The rewrite of the hard-link stand-ins after a move ends within its bound on a tree of any depth and
  does exactly what its specification says of every path: each link below the rootfs whose target starts with
  the old path gets the new one in its place, and no other entry, here or elsewhere, changes; no link is
  followed and no file's bytes change.\<close>

theorem rewrite_meets_specification:
  assumes "wf_fs s" and "is_dir s d" and "rootfs \<noteq> []"
  shows "\<exists>t. rewrite_l2s_targets rootfs old s d = Some t \<and> wf_fs t \<and> f_data t = f_data s
    \<and> (\<forall>q. node_at t q = (if strict_prefix d q then rerooted rootfs old s q (node_at s q) else node_at s q))"
  using assms by (rule rewrite_steps_spec)

theorem rewrite_meets_specification_witness:
  "case rewrite_l2s_targets ''/n'' ''/o'' (sample_state [([''rt'', ''a''], NDir 493 0), ([''rt'', ''a'', ''l''], NLink ''/o/x'' 0), ([''k''], NLink ''/o/x'' 0)]) [''rt''] of
     Some t \<Rightarrow> node_at t [''rt'', ''a'', ''l''] = Some (NLink ''/n/x'' 0) \<and> node_at t [''k''] = Some (NLink ''/o/x'' 0)
   | None \<Rightarrow> False"
proof -
  let ?s = "sample_state [([''rt'', ''a''], NDir 493 0), ([''rt'', ''a'', ''l''], NLink ''/o/x'' 0), ([''k''], NLink ''/o/x'' 0)]"
  have "wf_fs ?s" "is_dir ?s [''rt'']"
    "rerooted ''/n'' ''/o'' ?s [''rt'', ''a'', ''l''] (node_at ?s [''rt'', ''a'', ''l'']) = Some (NLink ''/n/x'' 0)"
    "node_at ?s [''k''] = Some (NLink ''/o/x'' 0)" by code_simp+
  with rewrite_meets_specification [of ?s "[''rt'']" "''/n''" "''/o''"] show ?thesis by auto
qed

end
