(* ===== verification/Container_Commands.thy ===== *)
theory Container_Commands
  imports L2s
begin

text \<open>
  The commands that take a container away or move it: \<open>remove\<close>, \<open>rename\<close> and \<open>reset\<close>, each under the exclusive
  lock of \<open>locking.py\<close> for as long as it works. \<open>h\<close> names the lock object a command makes and \<open>pid\<close> its process.
  The installation that ends a reset is an argument.
\<close>

subsection \<open>Holding a lock\<close>

text \<open>The \<open>with\<close> statement of a lock: \<open>None\<close> is the exit of a command that found it held.\<close>

definition with_lock :: "nat \<Rightarrow> lock \<Rightarrow> (world \<Rightarrow> 'a \<times> world) \<Rightarrow> world \<Rightarrow> 'a option \<times> world" where
  "with_lock h l body w =
     (case acquire h l (put_lock h l w) of
        (False, v) \<Rightarrow> (None, v)
      | (True, v) \<Rightarrow>
          (case body v of
             (r, u) \<Rightarrow> (Some r, case dict_get (w_locks u) h of None \<Rightarrow> u | Some m \<Rightarrow> release h m u)))"

definition on_files :: "(fs \<Rightarrow> 'a \<times> fs) \<Rightarrow> world \<Rightarrow> 'a \<times> world" where
  "on_files f w = (case f (w_fs w) of (r, s) \<Rightarrow> (r, w\<lparr>w_fs := s\<rparr>))"

subsection \<open>Removing a container\<close>

datatype remove_result = RmBadName | RmNotInstalled | RmBusy | RmDone bool

definition remove_container :: "layout \<Rightarrow> nat \<Rightarrow> nat \<Rightarrow> string \<Rightarrow> world \<Rightarrow> remove_result \<times> world" where
  "remove_container l pid h name w =
     (if \<not> is_valid_name name then (RmBadName, w)
      else case container_entry_lstat l (w_fs w) name of
          None \<Rightarrow> (RmNotInstalled, w)
        | Some x \<Rightarrow>
            (case with_lock h (container_lock pid name True ''remove'' False)
                    (on_files (\<lambda>s. remove_state_tree l s (container_dir l name))) w of
               (None, v) \<Rightarrow> (RmBusy, v)
             | (Some ok, v) \<Rightarrow> (RmDone ok, v)))"

subsection \<open>Renaming a container\<close>

text \<open>\<open>os.rename\<close> within one directory. A directory moves with everything below it.\<close>

definition move_tree :: "path \<Rightarrow> path \<Rightarrow> fs \<Rightarrow> fs" where
  "move_tree src dst s =
     s\<lparr>f_ents := map (\<lambda>(p, x). (if prefix src p then dst @ drop (length src) p else p, x))
                   (filter (\<lambda>(p, x). \<not> prefix dst p) (f_ents s))\<rparr>"

definition rename_at :: "fs \<Rightarrow> path \<Rightarrow> string \<Rightarrow> string \<Rightarrow> errno + fs" where
  "rename_at s d old new =
     (case node_at s (d @ [old]) of
        None \<Rightarrow> Inl ENOENT
      | Some x \<Rightarrow>
          (if d @ [old] \<in> set (f_stuck s) then Inl EPERM
           else case node_at s (d @ [new]) of
               None \<Rightarrow> Inr (move_tree (d @ [old]) (d @ [new]) s)
             | Some y \<Rightarrow>
                 (if is_dir_node x \<and> is_dir_node y then
                    (if listdir_at s (d @ [new]) = [] then Inr (move_tree (d @ [old]) (d @ [new]) s) else Inl ENOTEMPTY)
                  else if is_dir_node x then Inl ENOTDIR
                  else if is_dir_node y then Inl EISDIR
                  else if x = y \<and> is_file_node x then Inr s
                  else Inr (move_tree (d @ [old]) (d @ [new]) s))))"

definition do_rename :: "layout \<Rightarrow> string \<Rightarrow> string \<Rightarrow> fs \<Rightarrow> bool \<times> fs" where
  "do_rename l orig new s =
     (case open_state_dir l True s (containers_dir l) of
        (Inl e, t) \<Rightarrow> (False, t)
      | (Inr d, t) \<Rightarrow>
          (case rename_at t d orig new of
             Inl e \<Rightarrow> (False, t)
           | Inr u \<Rightarrow>
               (case fst (descend_at False u d [new, ''rootfs'']) of
                  Inl e \<Rightarrow> (True, u)
                | Inr r \<Rightarrow>
                    (True, case rewrite_l2s_targets (container_rootfs l new) (container_rootfs l orig) u r of None \<Rightarrow> u | Some v \<Rightarrow> v))))"

datatype rename_result =
    RnSame | RnBadName string | RnNotInstalled | RnExists | RnUnusable open_error | RnBusy | RnDone bool

definition rename_container :: "layout \<Rightarrow> nat \<Rightarrow> nat \<Rightarrow> nat \<Rightarrow> string \<Rightarrow> string \<Rightarrow> world \<Rightarrow> rename_result \<times> world" where
  "rename_container l pid h1 h2 orig new w =
     (if orig = new then (RnSame, w)
      else if \<not> is_valid_name orig then (RnBadName orig, w)
      else if \<not> is_valid_name new then (RnBadName new, w)
      else case container_is_installed l (w_fs w) orig of
          Inl e \<Rightarrow> (RnUnusable e, w)
        | Inr False \<Rightarrow> (RnNotInstalled, w)
        | Inr True \<Rightarrow>
            (case fst (open_container_dir l False (w_fs w) new) of
               Inr d \<Rightarrow> (RnExists, w)
             | Inl e \<Rightarrow>
                 (if e \<noteq> NotThere then (RnUnusable e, w)
                  else
                    (let first = (if orig < new then orig else new); second = (if orig < new then new else orig) in
                     case with_lock h1 (container_lock pid first True ''rename'' False)
                            (with_lock h2 (container_lock pid second True ''rename'' False)
                              (on_files (do_rename l orig new))) w of
                       (Some (Some ok), v) \<Rightarrow> (RnDone ok, v)
                     | (_, v) \<Rightarrow> (RnBusy, v)))))"

subsection \<open>Resetting a container\<close>

definition shm_dir :: "string \<Rightarrow> string" where
  "shm_dir rootfs = py_join (take (length rootfs - length ''/rootfs'') rootfs) ''shm''"

datatype reset_result = RsBadName | RsNotInstalled | RsUnusable open_error | RsNoImage | RsBusy | RsInstalled bool bool

text \<open>
  \<open>install ref name arch\<close> is the installation that follows, on the files the removal left; its answer and
  that of the removal are the two of \<open>RsInstalled\<close>.
\<close>

definition reset_container ::
    "layout \<Rightarrow> (string \<Rightarrow> string \<Rightarrow> string \<Rightarrow> world \<Rightarrow> bool \<times> world) \<Rightarrow> nat \<Rightarrow> nat \<Rightarrow> string \<Rightarrow> world \<Rightarrow> reset_result \<times> world" where
  "reset_container l install pid h name w =
     (if \<not> is_valid_name name then (RsBadName, w)
      else case container_is_installed l (w_fs w) name of
          Inl e \<Rightarrow> (RsUnusable e, w)
        | Inr False \<Rightarrow> (RsNotInstalled, w)
        | Inr True \<Rightarrow>
            (let (ref, arch) = container_image_origin l (w_fs w) name in
             if ref = [] then (RsNoImage, w)
             else case with_lock h (container_lock pid name True ''reset'' False)
                    (\<lambda>v. let (ok, s1) = remove_state_tree l (w_fs v) (container_rootfs l name);
                             s2 = snd (remove_state_tree l s1 (shm_dir (container_rootfs l name)));
                             (fine, u) = install ref name arch (v\<lparr>w_fs := s2\<rparr>)
                         in ((ok, fine), u)) w of
               (None, v) \<Rightarrow> (RsBusy, v)
             | (Some (ok, fine), v) \<Rightarrow> (RsInstalled ok fine, v)))"

end
