(* ===== verification/Container_Cmd_Props.thy ===== *)
theory Container_Cmd_Props
  imports Container_Commands Locking_Props Image_Store
begin

text \<open>
  What the locks and the state walk give the commands of \<open>Container_Commands\<close>: a container that any live process
  holds is left as it is, a removal takes the container and nothing else, and a rename moves the tree as it is
  but for the links into it.
\<close>

subsection \<open>A lock that is held\<close>

lemma open_dirs_present:
  assumes "wf_fs s" and "is_dir s (d @ ns)" and "list_all plain_name ns"
  shows "(\<exists>p. open_lock_dirs denied s d ns = (Inl (PathDenied p), s)) \<or> open_lock_dirs denied s d ns = (Inr (Some (d @ ns)), s)"
  using assms(2,3)
proof (induction ns arbitrary: d)
  case (Cons n ns)
  have "is_dir s (d @ [n])" using wf_take_dir [OF assms(1), of d "n # ns" 1] Cons.prems(1) by simp
  then obtain m t where n: "node_at s (d @ [n]) = Some (NDir m t)"
    by (auto simp: is_dir_def split: option.splits elim: is_dir_node.elims)
  then have o: "opendir_at s d n = Inr (d @ [n])" using Cons.prems(2) by (simp add: opendir_at_def at_plain)
  show ?case
  proof (cases "d @ [n] \<in> set denied")
    case True
    with n have "open_lock_subdir denied s d n = (Inl (PathDenied (d @ [n])), s)"
      by (simp add: open_lock_subdir_def guarded_def is_denied_def)
    then show ?thesis by simp
  next
    case False
    with o have "open_lock_subdir denied s d n = (Inr (Some (d @ [n])), s)" by (simp add: open_lock_subdir_def guarded_def)
    with Cons.IH [of "d @ [n]"] Cons.prems show ?thesis by simp
  qed
qed simp

text \<open>When the lock file is there, opening it changes nothing, and it either reaches the file or is refused.\<close>

lemma open_lock_present:
  assumes "wf_fs (w_fs w)" and "good_lock l" and "list_all plain_name (w_runtime w)"
    and "node_at (w_fs w) (lock_path w l) = Some (NFile i)"
  shows "(\<exists>p. open_lock w l = (Inl (PathDenied p), w_fs w)) \<or> open_lock w l = (Inr (Some i), w_fs w)"
proof -
  let ?s = "w_fs w" and ?d = "w_runtime w @ l_parts l"
  have n: "plain_name (l_name l)" and parts: "l_parts l = CONTAINER_PARTS \<or> l_parts l = BUILD_PARTS" using assms(2) by (simp_all add: good_lock_def)
  have pl: "list_all plain_name (l_parts l)" using lock_dir_names [OF parts] by (auto simp: list_all_iff)
  have f: "node_at ?s (?d @ [l_name l]) = Some (NFile i)" using assms(4) by (simp add: lock_path_def)
  have d: "is_dir ?s ?d" by (rule wf_node(2) [OF assms(1) f])
  then have r: "is_dir ?s (w_runtime w)" using wf_take_dir [OF assms(1), of "w_runtime w" "l_parts l" 0] by simp
  have "descend_at True ?s [] (w_runtime w) = (Inr (w_runtime w), ?s)"
    using descend_existing [OF assms(1), of "[]" "w_runtime w" True] r wf_fsD(1) [OF assms(1)] assms(3) by simp
  then have "(\<exists>p. locks_dir_fd (w_denied w) ?s (w_runtime w) (l_parts l) = (Inl (PathDenied p), ?s))
      \<or> locks_dir_fd (w_denied w) ?s (w_runtime w) (l_parts l) = (Inr (Some ?d), ?s)"
    using open_dirs_present [OF assms(1) d pl, of "w_denied w"] by (auto simp: locks_dir_fd_def)
  moreover have "(\<exists>p. open_lock_file (w_denied w) ?s ?d (l_name l) = (Inl (PathDenied p), ?s)) \<or> open_lock_file (w_denied w) ?s ?d (l_name l) = (Inr (Some i), ?s)"
    using f by (auto simp: open_lock_file_def open_or_create_def guarded_def is_denied_def)
  ultimately show ?thesis by (auto simp: open_lock_def)
qed

text \<open>Some live process has the lock on the container, shared or not; this process does not.\<close>

definition held_by_another :: "world \<Rightarrow> nat \<Rightarrow> string \<Rightarrow> bool" where
  "held_by_another w pid name \<longleftrightarrow>
     (pid, w_runtime w @ CONTAINER_PARTS @ [name @ ''.lock'']) \<notin> set (w_held w)
     \<and> list_ex (\<lambda>(k, m). l_fd m \<noteq> None \<and> dict_get (w_locks w) k = Some m \<and> lock_path w m = w_runtime w @ CONTAINER_PARTS @ [name @ ''.lock'']) (w_locks w)"

lemma held_refuses:
  assumes "reachable w" and "wf_fs (w_fs w)" and "w_flock w" and "held_by_another w pid name" and "dict_get (w_locks w) h = None"
    and "is_valid_name name"
  shows "\<exists>v. with_lock h (container_lock pid name True command inh) body w = (None, v) \<and> w_fs v = w_fs w \<and> w_table v = w_table w \<and> w_fds v = w_fds w"
proof -
  let ?l = "container_lock pid name True command inh" and ?p = "w_runtime w @ CONTAINER_PARTS @ [name @ ''.lock'']"
  have inv: "lock_inv w" using assms(1) by (rule reachable_inv)
  from assms(4) obtain k m d where m: "dict_get (w_locks w) k = Some m" "l_fd m = Some d" "lock_path w m = ?p"
    and own: "(pid, ?p) \<notin> set (w_held w)" by (auto simp: held_by_another_def list_ex_iff)
  have "lock_true w m" using inv m(1) by (simp add: lock_inv_def)
  then obtain i where i: "has_fd w (l_pid m) d" "dict_get (w_table w) d = Some (i, l_exclusive m)" "node_at (w_fs w) ?p = Some (NFile i)"
    using m(2,3) by (auto simp: lock_true_def)
  have "d < w_next w" using inv i(1) by (auto simp: lock_inv_def live_table_def)
  moreover have "(d, i, l_exclusive m) \<in> set (w_table w)" using i(2) by (rule dict_get_Some_in)
  ultimately have "flock_conflict (w_table w) (w_next w) i True" by (force simp: flock_conflict_def list_ex_iff)
  then have grant: "flock_grant (w_table w) (w_next w) i True = None" by (simp add: flock_grant_def)
  have pn: "plain_name name" using valid_name_plain [OF assms(6)] .
  have g: "good_lock ?l"
    using pn by (auto simp: good_lock_def container_lock_def new_lock_def plain_name_def is_lock_name_def)
  have lp: "lock_path w ?l = ?p" by (simp add: lock_path_def container_lock_def new_lock_def)
  let ?w = "put_lock h ?l w"
  have frame: "w_fs ?w = w_fs w" "w_runtime ?w = w_runtime w" "w_denied ?w = w_denied w" "w_held ?w = w_held w" "w_flock ?w = w_flock w"
    "w_table ?w = w_table w" "w_next ?w = w_next w" "w_fds ?w = w_fds w" by (simp_all add: put_lock_def)
  have op: "open_lock ?w ?l = open_lock w ?l" by (simp add: open_lock_def put_lock_def split: prod.splits sum.splits option.splits)
  have lw: "lock_path ?w ?l = ?p" using lp by (simp add: lock_path_def frame)
  have ex: "l_exclusive ?l" "l_pid ?l = pid" by (simp_all add: container_lock_def new_lock_def)
  from open_lock_present [OF assms(2) g _ i(3) [folded lp]] inv
  have "(\<exists>p. open_lock w ?l = (Inl (PathDenied p), w_fs w)) \<or> open_lock w ?l = (Inr (Some i), w_fs w)" by (simp add: lock_inv_def)
  then have "\<exists>v. acquire h ?l ?w = (False, v) \<and> w_fs v = w_fs w \<and> w_table v = w_table w \<and> w_fds v = w_fds w"
  proof
    assume "\<exists>p. open_lock w ?l = (Inl (PathDenied p), w_fs w)"
    then obtain p where "open_lock ?w ?l = (Inl (PathDenied p), w_fs w)" using op by auto
    then show ?thesis using own lw ex(2) frame by (simp add: acquire_def put_lock_def Let_def)
  next
    assume "open_lock w ?l = (Inr (Some i), w_fs w)"
    then have "open_lock ?w ?l = (Inr (Some i), w_fs w)" using op by simp
    then show ?thesis using own lw ex frame grant assms(3) by (simp add: acquire_def Let_def)
  qed
  then show ?thesis by (auto simp: with_lock_def)
qed


definition container_files :: fs where
  "container_files =
     sample_state [([''rt'', ''containers''], NDir 493 0), ([''rt'', ''containers'', ''a''], NDir 493 0),
       ([''rt'', ''containers'', ''a'', ''rootfs''], NDir 493 0), ([''rt'', ''containers'', ''a'', ''rootfs'', ''l''], NLink ''/rt/containers/a/rootfs/x'' 0)]"

definition lived_in :: world where
  "lived_in = snd (acquire 0 (first_lock False) (put_lock 0 (first_lock False) (quiet_world\<lparr>w_fs := container_files\<rparr>)))"

lemma lived_in_reachable: "reachable lived_in"
proof -
  let ?q = "quiet_world\<lparr>w_fs := container_files\<rparr>"
  have q: "reachable ?q" by (rule init) (simp add: start_def quiet_world_def plain_name_def)
  have n: "plain_name ''a.lock''" "is_lock_name ''a.lock''" by (simp_all add: plain_name_def is_lock_name_def)
  have a: "lock_step ?q (put_lock 0 (first_lock False) ?q)"
    using create [of ?q 0 CONTAINER_PARTS "''a.lock''" 1 False True "''backup''"] n
    by (simp add: first_lock_def container_lock_def quiet_world_def)
  have b: "lock_step (put_lock 0 (first_lock False) ?q) lived_in"
    unfolding lived_in_def by (rule acq) (simp_all add: put_lock_def first_lock_def container_lock_def new_lock_def)
  from step [OF step [OF q a] b] show ?thesis .
qed


subsection \<open>What a removal takes\<close>

lemma container_names:
  assumes "good_layout l" and "is_valid_name name"
  shows "names_of (py_normpath (container_dir l name)) = container_path l name"
  using split_container_dir [OF assms] names_of_join by simp

lemma containers_opened:
  assumes "good_layout l" and "container_entry_lstat l s name = Some x" and "is_valid_name name"
  shows "node_at s (container_path l name) = Some x" and "fst (open_state_dir l False s (containers_dir l)) = Inr (butlast (container_path l name))"
proof -
  obtain d where d: "fst (open_state_dir l False s (containers_dir l)) = Inr d" and x: "lstat_at s d name = Inr x"
    using assms(2) by (auto simp: container_entry_lstat_def split: sum.splits)
  have g: "good_root (lo_runtime l)" using assms(1) by (simp add: good_layout_def)
  note gr = good_root_names [OF g]
  have pl: "list_all plain_name [''containers'']" by code_simp
  have e: "containers_dir l = ''/'' @ join_with ''/'' (names_of (lo_runtime l) @ [''containers''])"
    using rejoin_normal [OF gr(1,2) pl] gr(5) by (simp add: containers_dir_def rejoin_def)
  have pn: "list_all plain_name (names_of (lo_runtime l) @ [''containers''])" using gr(1) pl by simp
  have n: "names_of (py_normpath (containers_dir l)) = names_of (lo_runtime l) @ [''containers'']"
    unfolding e normpath_normal [OF pn] using names_of_join [OF pn] by simp
  obtain o1 u where o1: "open_state_dir l False s (containers_dir l) = (o1, u)" by fastforce
  have "d = names_of (lo_runtime l) @ [''containers'']" using open_state_found(2) [OF o1 assms(1)] d o1 n by simp
  with d x valid_name_plain [OF assms(3)] show "node_at s (container_path l name) = Some x"
    "fst (open_state_dir l False s (containers_dir l)) = Inr (butlast (container_path l name))"
    by (auto simp: container_path_def lstat_at_def at_plain butlast_append split: option.splits)
qed

text \<open>Removing a container, whatever stands under its name: nothing outside the containers directory is
  touched and no link is followed; when nothing below the name refuses to go, everything at and below it is
  gone, every other entry is as it was, and the command says so.\<close>

theorem removal_takes_the_container:
  assumes "good_layout l" and "wf_fs s" and "is_valid_name name" and "container_entry_lstat l s name = Some x"
    and "remove_state_tree l s (container_dir l name) = (ok, t)"
  shows "safe_step (butlast (container_path l name)) s t
    \<and> (free_below (container_path l name) s \<longrightarrow>
         ok \<and> (\<forall>q. node_at t q = (if prefix (container_path l name) q then None else node_at s q)))"
proof -
  let ?c = "container_path l name"
  note nm = container_names [OF assms(1,3)] and pn = valid_name_plain [OF assms(3)]
  have c: "?c = butlast ?c @ [name]" "last ?c = name" "?c \<noteq> []" by (simp_all add: container_path_def butlast_append)
  have nx: "node_at s ?c = Some x" by (rule containers_opened(1) [OF assms(1,4,3)])
  have dir: "is_dir s (butlast ?c)" using nx wf_node(2) [OF assms(2), of "butlast ?c" name x] c(1) by simp
  obtain r u where rm: "rmtree_at True True s (butlast ?c) name = (r, u)" by fastforce
  have by_name: "remove_tree s ?c = (case r of Inr b \<Rightarrow> b | Inl e \<Rightarrow> False, u)"
    using rm c dir by (simp add: remove_tree_def split: sum.splits)
  have path: "names_of (container_dir l name) = ?c"
  proof -
    have "good_root (lo_runtime l)" using assms(1) by (simp add: good_layout_def)
    note gr = good_root_names [OF this]
    have p: "list_all plain_name [''containers'', name]" using pn by (simp add: plain_name_def)
    have "container_dir l name = ''/'' @ join_with ''/'' ?c"
      using rejoin_normal [OF gr(1,2) p] gr(5) by (simp add: container_dir_def containers_dir_def rejoin_def container_path_def)
    then show ?thesis using names_of_join [OF split_container_dir(2) [OF assms(1,3)]] by simp
  qed
  have core: "(ok, t) = (case r of Inr b \<Rightarrow> b | Inl e \<Rightarrow> False, u)"
  proof (cases "\<exists>root c cs. split_state_path l (container_dir l name) = Some (root, c # cs)")
    case False
    then have "remove_state_tree l s (container_dir l name) = remove_tree s (names_of (container_dir l name))"
      by (auto simp: remove_state_tree_def split: option.splits prod.splits list.splits)
    with assms(5) by_name path show ?thesis by simp
  next
    case True
    then obtain root k ks where sp: "split_state_path l (container_dir l name) = Some (root, k # ks)" by blast
    note ss = state_split(3) [OF assms(1) sp] and pa = split_parent [OF assms(1) sp]
    have e: "names_of root @ butlast (k # ks) = butlast ?c" "last (k # ks) = name"
      using ss nm c by (metis butlast_append list.distinct(1), metis last_appendR list.distinct(1))
    then have "names_of (py_normpath (rejoin root (butlast (k # ks)))) = butlast ?c" using state_split(3) [OF assms(1) pa] by simp
    with open_state_existing [OF assms(1,2) pa] dir
    have "open_state_dir l False s (rejoin root (butlast (k # ks))) = (Inr (butlast ?c), s)" by simp
    then show ?thesis using assms(5) sp rm e(2) by (auto simp: remove_state_tree_def split: sum.splits)
  qed
  have "ok \<and> (\<forall>q. node_at t q = (if prefix ?c q then None else node_at s q))" if f: "free_below ?c s"
  proof -
    from rmtree_complete [OF assms(2) pn, of "butlast ?c" True True] f c(1)
    obtain v where "rmtree_at True True s (butlast ?c) name = (Inr True, v)" "removed {?c} s v" by auto
    with rm core show ?thesis by (auto simp: removed_def)
  qed
  moreover have "safe_step (butlast ?c) s t" using core rmtree_safe [OF rm assms(2) pn prefix_order.refl] by simp
  ultimately show ?thesis by blast
qed

theorem removal_takes_the_container_witness:
  "case remove_state_tree sample_layout container_files ''/rt/containers/a'' of
     (ok, t) \<Rightarrow> ok \<and> node_at t [''rt'', ''containers'', ''a'', ''rootfs''] = None \<and> node_at t [''rt'', ''containers''] = Some (NDir 493 0)"
proof -
  obtain ok t where r: "remove_state_tree sample_layout container_files (container_dir sample_layout ''a'') = (ok, t)" by fastforce
  have f: "wf_fs container_files" "is_valid_name ''a''" "container_entry_lstat sample_layout container_files ''a'' = Some (NDir 493 0)"
    "free_below (container_path sample_layout ''a'') container_files" "container_path sample_layout ''a'' = [''rt'', ''containers'', ''a'']"
    "container_dir sample_layout ''a'' = ''/rt/containers/a''" "node_at container_files [''rt'', ''containers''] = Some (NDir 493 0)" by code_simp+
  from removal_takes_the_container [OF sample_layout_good f(1-3) r] f(4)
  have "ok" "node_at t q = (if prefix [''rt'', ''containers'', ''a''] q then None else node_at container_files q)" for q
    unfolding f(5) by auto
  with f(7) r show ?thesis unfolding f(6) by simp
qed

subsection \<open>What a rename moves\<close>

lemma moved_entries:
  "(q, x) \<in> set (map (\<lambda>(p, y). (g p, y)) (filter (\<lambda>(p, y). P p) es)) \<longleftrightarrow> (\<exists>p. (p, x) \<in> set es \<and> P p \<and> q = g p)"
  by (force simp: image_iff)

lemma node_move:
  assumes "distinct (map fst (f_ents s))" and "\<not> prefix src dst" and "\<not> prefix dst src"
  shows "node_at (move_tree src dst s) q =
      (if prefix dst q then node_at s (src @ drop (length dst) q) else if prefix src q then None else node_at s q)"
    and "distinct (map fst (f_ents (move_tree src dst s)))"
proof -
  let ?g = "\<lambda>p. if prefix src p then dst @ drop (length src) p else p"
  let ?es = "filter (\<lambda>(p, x). \<not> prefix dst p) (f_ents s)"
  have ents: "f_ents (move_tree src dst s) = map (\<lambda>(p, x). (?g p, x)) ?es" by (simp add: move_tree_def)
  have inj: "?g p = ?g r \<Longrightarrow> \<not> prefix dst p \<Longrightarrow> \<not> prefix dst r \<Longrightarrow> p = r" for p r
    by (auto simp: prefix_def split: if_splits)
  have dk: "distinct (map fst ?es)" using assms(1) by (simp add: distinct_map_filter)
  have "map fst (map (\<lambda>(p, x). (?g p, x)) ?es) = map ?g (map fst ?es)" by (simp add: split_def comp_def)
  moreover have "inj_on ?g (set (map fst ?es))"
  proof (rule inj_onI)
    fix p r assume pr: "p \<in> set (map fst ?es)" "r \<in> set (map fst ?es)" and e: "?g p = ?g r"
    have "\<not> prefix dst p" "\<not> prefix dst r" using pr by auto
    with e show "p = r" by (rule inj)
  qed
  ultimately show d: "distinct (map fst (f_ents (move_tree src dst s)))" using dk by (simp only: ents distinct_map)
  have mem: "node_at (move_tree src dst s) q = Some x \<longleftrightarrow> (\<exists>p. node_at s p = Some x \<and> \<not> prefix dst p \<and> q = ?g p)" for x
    by (simp only: node_at_iff [OF d] node_at_iff [OF assms(1)] ents moved_entries)
  have apart: "\<not> (prefix src r \<and> prefix dst r)" for r using assms(2,3) prefix_same_cases by blast
  have "node_at (move_tree src dst s) q = Some x \<longleftrightarrow>
      (if prefix dst q then node_at s (src @ drop (length dst) q) else if prefix src q then None else node_at s q) = Some x" for x
  proof (cases "prefix dst q")
    case True
    then obtain z where z: "q = dst @ z" by (auto simp: prefix_def)
    have nd: "\<not> prefix dst (src @ z)" using apart [of "src @ z"] by simp
    have iff: "\<not> prefix dst p \<and> q = ?g p \<longleftrightarrow> p = src @ z" for p
    proof
      assume p: "\<not> prefix dst p \<and> q = ?g p"
      have "prefix src p" using p True by (cases "prefix src p") auto
      with p z show "p = src @ z" by (auto simp: prefix_def)
    qed (use z nd in simp)
    have "node_at (move_tree src dst s) q = Some x \<longleftrightarrow> node_at s (src @ z) = Some x" by (simp only: mem iff simp_thms) blast
    then show ?thesis using z by simp
  next
    case False
    then have iff: "\<not> prefix dst p \<and> q = ?g p \<longleftrightarrow> p = q \<and> \<not> prefix src q" for p by auto
    have "node_at (move_tree src dst s) q = Some x \<longleftrightarrow> node_at s q = Some x \<and> \<not> prefix src q" by (simp only: mem iff simp_thms) blast
    then show ?thesis using False by simp
  qed
  then show "node_at (move_tree src dst s) q =
      (if prefix dst q then node_at s (src @ drop (length dst) q) else if prefix src q then None else node_at s q)"
    by (metis not_None_eq)
qed

lemma wf_move:
  assumes "wf_fs s" and "\<not> prefix src dst" and "\<not> prefix dst src" and "dst \<noteq> []" and "plain_name (last dst)" and "is_dir s (butlast dst)"
  shows "wf_fs (move_tree src dst s)"
proof -
  let ?t = "move_tree src dst s"
  note node = node_move(1) [OF wf_fsD(2) [OF assms(1)] assms(2,3)]
  have src: "src \<noteq> []" using assms(2) by auto
  have same: "is_dir ?t q = is_dir s q" if "\<not> prefix dst q" "\<not> prefix src q" for q using that by (simp add: is_dir_def node)
  have ino: "inode_ok ?t x = inode_ok s x" for x by (rule inode_ok_next) (simp add: move_tree_def)
  show ?thesis
  proof (rule wf_fsI)
    show "is_dir ?t []" using same [of "[]"] wf_fsD(1) [OF assms(1)] assms(4) src by simp
    show "distinct (map fst (f_ents ?t))" by (rule node_move(2) [OF wf_fsD(2) [OF assms(1)] assms(2,3)])
    fix q x assume q: "node_at ?t q = Some x"
    show "wf_entry ?t (q, x)"
    proof (cases "prefix dst q")
      case True
      then obtain z where z: "q = dst @ z" by (auto simp: prefix_def)
      then have s: "node_at s (src @ z) = Some x" using q by (simp add: node)
      then have e: "wf_entry s (src @ z, x)" by (rule wf_fsD(3) [OF assms(1)])
      show ?thesis
      proof (cases z rule: rev_cases)
        case Nil
        have "\<not> prefix dst (butlast dst)" "\<not> prefix src (butlast dst)"
          using assms(2,4) prefix_length_le [of dst "butlast dst"] prefixeq_butlast [of dst]
          by (cases dst; auto dest: prefix_order.trans)+
        with assms(5,6) same e ino z Nil assms(4) show ?thesis by (auto simp: wf_entry_def split: if_splits)
      next
        case (snoc y n)
        then have "plain_name n" "is_dir s (src @ y)" "inode_ok s x" using e src by (simp_all add: wf_entry_def butlast_append)
        moreover from this(2) have "is_dir ?t (dst @ y)" by (simp add: is_dir_def node)
        ultimately show ?thesis using z snoc ino by (simp add: wf_entry_def butlast_append)
      qed
    next
      case False
      with q have nq: "\<not> prefix src q" "node_at s q = Some x" by (simp_all add: node split: if_splits)
      then have e: "wf_entry s (q, x)" using wf_fsD(3) [OF assms(1)] by blast
      have "\<not> prefix dst (butlast q)" "\<not> prefix src (butlast q)"
        using False nq(1) by (auto intro: prefix_order.trans simp: prefixeq_butlast)
      with e same ino show ?thesis by (simp add: wf_entry_def split: if_splits)
    qed
  qed
qed

text \<open>C34. A rename that reports success, to a name that is free. Everything of the container is found under the
  new name as it was -- type, content, mode and time -- except for the links of its rootfs, which are those of
  the specification above; nothing is left under the old name, and no other entry of the host changes.\<close>

theorem rename_moves_the_container:
  assumes "good_layout l" and "wf_fs s" and "is_valid_name orig" and "is_valid_name new" and "orig \<noteq> new"
    and "container_entry_lstat l s orig = Some x" and "node_at s (container_path l new) = None"
    and "split_state_path l (containers_dir l) = Some (root, parts)" and "do_rename l orig new s = (True, t)"
  shows "(\<forall>q. node_at t (container_path l new @ q) =
        (if strict_prefix [''rootfs''] q \<and> is_dir s (container_path l orig @ [''rootfs''])
         then rerooted (container_rootfs l new) (container_rootfs l orig) s (container_path l new @ q) (node_at s (container_path l orig @ q))
         else node_at s (container_path l orig @ q)))
    \<and> (\<forall>q. node_at t (container_path l orig @ q) = None)
    \<and> (\<forall>q. \<not> prefix (container_path l orig) q \<and> \<not> prefix (container_path l new) q \<longrightarrow> node_at t q = node_at s q)
    \<and> f_data t = f_data s"
proof -
  let ?o = "container_path l orig" and ?n = "container_path l new"
  define d where "d = names_of (lo_runtime l) @ [''containers'']"
  have o: "?o = d @ [orig]" and n: "?n = d @ [new]" by (simp_all add: container_path_def d_def)
  have po: "plain_name orig" "plain_name new" "plain_name ''rootfs''" using valid_name_plain assms(3,4) by (simp_all add: plain_name_def)
  have nx: "node_at s ?o = Some x" by (rule containers_opened(1) [OF assms(1,6,3)])
  have dd: "is_dir s d" using nx wf_node(2) [OF assms(2)] o by simp
  have inc: "\<not> prefix ?o ?n" "\<not> prefix ?n ?o" using assms(5) by (simp_all add: o n)
  have od: "fst (open_state_dir l False s (containers_dir l)) = Inr d"
    using containers_opened(2) [OF assms(1,6,3)] by (simp add: o)
  obtain o1 u1 where o1: "open_state_dir l False s (containers_dir l) = (o1, u1)" by fastforce
  have dn: "names_of (py_normpath (containers_dir l)) = d" using open_state_found(2) [OF o1 assms(1)] od o1 by simp
  have ot: "open_state_dir l True s (containers_dir l) = (Inr d, s)"
    using open_state_existing [OF assms(1,2,8), of True] dd dn by simp
  define u where "u = move_tree ?o ?n s"
  have ren: "rename_at s d orig new = Inr u"
    using assms(9) ot nx assms(7) by (auto simp: do_rename_def rename_at_def o n u_def split: if_splits)
  note node = node_move(1) [OF wf_fsD(2) [OF assms(2)] inc, folded u_def]
  have wu: "wf_fs u" unfolding u_def using po dd by (intro wf_move [OF assms(2) inc]) (simp_all add: n)
  have fr: "f_data u = f_data s" "f_stuck u = f_stuck s" "f_now u = f_now s" by (simp_all add: u_def move_tree_def)
  have new: "node_at u (?n @ q) = node_at s (?o @ q)" for q by (simp add: node)
  have old: "node_at u (?o @ q) = None" for q
    using inc by (auto simp: node dest: prefix_same_cases [of ?n _ ?o])
  have others: "node_at u q = node_at s q" if "\<not> prefix ?o q" "\<not> prefix ?n q" for q using that by (simp add: node)
  have ud: "is_dir u d" using others [of d] dd by (simp add: is_dir_def o n)
  show ?thesis
  proof (cases "is_dir s (?o @ [''rootfs''])")
    case True
    let ?r = "?n @ [''rootfs'']"
    have ur: "is_dir u ?r" using new [of "[''rootfs'']"] True by (simp add: is_dir_def)
    have "descend_at False u d [new, ''rootfs''] = (Inr (d @ [new, ''rootfs'']), u)"
      using descend_existing [OF wu, of d "[new, ''rootfs'']" False] ur ud po by (simp add: n)
    then have r: "fst (descend_at False u d [new, ''rootfs'']) = Inr ?r" by (simp add: n)
    have "container_rootfs l new \<noteq> []" by (simp add: container_rootfs_def py_join_def)
    from rewrite_steps_spec [OF wu ur this, of "container_rootfs l orig"] obtain v where
      v: "rewrite_l2s_targets (container_rootfs l new) (container_rootfs l orig) u ?r = Some v" "f_data v = f_data u"
      "\<And>q. node_at v q = (if strict_prefix ?r q then rerooted (container_rootfs l new) (container_rootfs l orig) u q (node_at u q) else node_at u q)"
      by blast
    have t: "t = v" using assms(9) ot ren r v(1) by (simp add: do_rename_def)
    have sp: "strict_prefix ?r (?n @ q) \<longleftrightarrow> strict_prefix [''rootfs''] q" for q by (auto simp: strict_prefix_def)
    have 1: "node_at t (?n @ q) = (if strict_prefix [''rootfs''] q
        then rerooted (container_rootfs l new) (container_rootfs l orig) s (?n @ q) (node_at s (?o @ q)) else node_at s (?o @ q))" for q
      unfolding t v(3) sp new rerooted_frame [OF fr(2,3)] ..
    have out: "\<not> strict_prefix ?r q" if "\<not> prefix ?n q" for q using that by (auto simp: strict_prefix_def dest: append_prefixD)
    have "\<not> prefix ?n (?o @ q)" for q using inc by (auto dest: prefix_same_cases [of ?n _ ?o])
    then have 2: "node_at t (?o @ q) = None" for q using out old unfolding t v(3) by simp
    have 3: "node_at t q = node_at s q" if "\<not> prefix ?o q" "\<not> prefix ?n q" for q
      unfolding t v(3) using out [OF that(2)] others [OF that] by simp
    show ?thesis using 1 2 3 True t v(2) fr(1) by simp
  next
    case False
    have "\<not> is_dir u (?n @ [''rootfs''])" using new [of "[''rootfs'']"] False by (simp add: is_dir_def)
    then have "\<exists>e. fst (descend_at False u d [new, ''rootfs'']) = Inl e"
      using po by (auto simp: open_level_def opendir_at_def at_plain is_dir_def n split: option.splits node.splits)
    then have "t = u" using assms(9) ot ren by (auto simp: do_rename_def)
    with new old others False fr(1) show ?thesis by simp
  qed
qed

theorem rename_moves_the_container_witness:
  "case do_rename sample_layout ''a'' ''b'' container_files of
     (ok, t) \<Rightarrow> ok \<and> node_at t [''rt'', ''containers'', ''a''] = None
       \<and> node_at t [''rt'', ''containers'', ''b'', ''rootfs'', ''l''] = Some (NLink ''/rt/containers/b/rootfs/x'' 0)"
proof -
  let ?l = "sample_layout" and ?s = "container_files"
  have r: "fst (do_rename ?l ''a'' ''b'' ?s) = True" by code_simp
  obtain t where t: "do_rename ?l ''a'' ''b'' ?s = (True, t)" using r by (cases "do_rename ?l ''a'' ''b'' ?s") simp
  have f: "wf_fs ?s" "is_valid_name ''a''" "is_valid_name ''b''" "container_entry_lstat ?l ?s ''a'' = Some (NDir 493 0)"
    "node_at ?s (container_path ?l ''b'') = None" "split_state_path ?l (containers_dir ?l) = Some (''/rt'', [''containers''])"
    "container_path ?l ''a'' = [''rt'', ''containers'', ''a'']" "container_path ?l ''b'' = [''rt'', ''containers'', ''b'']"
    "is_dir ?s (container_path ?l ''a'' @ [''rootfs''])"
    "rerooted (container_rootfs ?l ''b'') (container_rootfs ?l ''a'') ?s (container_path ?l ''b'' @ [''rootfs'', ''l''])
       (node_at ?s (container_path ?l ''a'' @ [''rootfs'', ''l''])) = Some (NLink ''/rt/containers/b/rootfs/x'' 0)" by code_simp+
  note m = rename_moves_the_container [OF sample_layout_good f(1-3) _ f(4,5,6) t]
  have "node_at t (container_path ?l ''b'' @ [''rootfs'', ''l'']) = Some (NLink ''/rt/containers/b/rootfs/x'' 0)"
    using m f(9,10) by (simp add: strict_prefix_def)
  moreover have "node_at t (container_path ?l ''a'' @ []) = None" using m by blast
  ultimately show ?thesis using t by (simp add: f(7,8))
qed

end
