(* ===== verification/Image_Remove.thy ===== *)
theory Image_Remove
  imports Container_Commands
begin

text \<open>
  \<open>remove --image\<close> of \<open>commands/remove.py\<close>: an identifier is resolved to cached images, and their manifest
  entries go together with the layers no remaining image lists, under the locks \<open>build\<close> and \<open>push\<close> take.
\<close>

subsection \<open>Resolving an identifier\<close>

definition MIN_ID_PREFIX :: nat where
  "MIN_ID_PREFIX = 4"

fun distinct_paths :: "string list \<Rightarrow> image_record list \<Rightarrow> image_record list" where
  "distinct_paths seen [] = []"
| "distinct_paths seen (r # rs) =
     (if im_path r \<in> set seen then distinct_paths seen rs else r # distinct_paths (im_path r # seen) rs)"

definition id_matches :: "string \<Rightarrow> string option \<Rightarrow> image_record \<Rightarrow> bool" where
  "id_matches wanted arch r \<longleftrightarrow>
     \<not> (case arch of None \<Rightarrow> False | Some a \<Rightarrow> im_arch r \<noteq> [] \<and> im_arch r \<noteq> a)
     \<and> (im_key r = wanted \<or> MIN_ID_PREFIX \<le> length wanted \<and> starts_with wanted (str_lower (im_id r)))"

text \<open>\<open>Inl\<close> is the ambiguous image ID, with the images it matches.\<close>

definition resolve_images ::
    "(string \<Rightarrow> string) \<Rightarrow> layout \<Rightarrow> fs \<Rightarrow> string \<Rightarrow> string option \<Rightarrow> image_record list + image_record list" where
  "resolve_images sha l s identifier arch =
     (let archs = (case arch of None \<Rightarrow> map fst ARCH_TO_DOCKER | Some a \<Rightarrow> [a]);
          direct = distinct_paths [] (List.map_filter (image_cache_entry sha l s (with_explicit_tag identifier)) archs)
      in if direct \<noteq> [] then Inr direct
         else let found = filter (id_matches (str_lower identifier) arch) (iter_cached_images sha l s) in
           if 1 < length (remdups (map im_id found)) then Inl found else Inr found)"

text \<open>The locks, one for each distinct path, in the order of the paths.\<close>

definition image_locks :: "(string \<Rightarrow> string) \<Rightarrow> nat \<Rightarrow> string \<Rightarrow> image_record list \<Rightarrow> lock list" where
  "image_locks sha pid identifier targets =
     sort_key l_name
       (fold (\<lambda>r ls.
           if im_arch r = [] then ls
           else fold (\<lambda>ref ks.
               if ref = [] then ks
               else let k = build_lock (\<lambda>t. sha (concat (map utf8_char t))) pid ref (im_arch r) ''remove'' in
                 if l_name k \<in> l_name ` set ks then ks else ks @ [k])
             [im_ref r, with_explicit_tag identifier] ls)
         targets [])"

subsection \<open>Deleting\<close>

definition size_at :: "fs \<Rightarrow> path \<Rightarrow> string \<Rightarrow> nat" where
  "size_at s d n = (case lstat_at s d n of Inl e \<Rightarrow> 0 | Inr x \<Rightarrow> entry_size s x)"

fun unlink_entries :: "fs \<Rightarrow> path \<Rightarrow> string list \<Rightarrow> nat \<Rightarrow> bool \<Rightarrow> nat \<times> bool \<times> fs" where
  "unlink_entries s d [] reclaimed failed = (reclaimed, failed, s)"
| "unlink_entries s d (n # ns) reclaimed failed =
     (case unlink_at s d n of
        Inl e \<Rightarrow> unlink_entries s d ns reclaimed True
      | Inr t \<Rightarrow> unlink_entries t d ns (reclaimed + size_at s d n) failed)"

text \<open>The blobs: a digest once, none that is to be kept; a blob that is missing is no failure.\<close>

fun unlink_blobs :: "fs \<Rightarrow> path option \<Rightarrow> string list \<Rightarrow> string list \<Rightarrow> nat \<Rightarrow> bool \<Rightarrow> nat \<times> bool \<times> fs" where
  "unlink_blobs s dir out [] reclaimed failed = (reclaimed, failed, s)"
| "unlink_blobs s dir out (g # gs) reclaimed failed =
     (if g \<in> set out then unlink_blobs s dir out gs reclaimed failed
      else case (layer_cache_name g, dir) of
          (Inr name, Some d) \<Rightarrow>
            (case unlink_at s d name of
               Inl e \<Rightarrow> unlink_blobs s dir (g # out) gs reclaimed (failed \<or> e \<noteq> ENOENT)
             | Inr t \<Rightarrow> unlink_blobs t dir (g # out) gs (reclaimed + size_at s d name) failed)
        | _ \<Rightarrow> unlink_blobs s dir (g # out) gs reclaimed failed)"

definition listed_digests :: "image_record list \<Rightarrow> string list" where
  "listed_digests rs = concat (map (\<lambda>r. map digest_of (im_layers r)) rs)"

definition unlink_targets ::
    "(string \<Rightarrow> string) \<Rightarrow> layout \<Rightarrow> path \<Rightarrow> path option \<Rightarrow> image_record list \<Rightarrow> fs \<Rightarrow> (bool \<times> nat) \<times> fs" where
  "unlink_targets sha l manifests layers targets s =
     (case unlink_entries s manifests (map im_name targets) 0 False of
        (r1, f1, t) \<Rightarrow>
          (case unlink_blobs t layers (listed_digests (iter_cached_images sha l t)) (listed_digests targets) r1 f1 of
             (r2, f2, u) \<Rightarrow> ((f2, r2), u)))"

datatype image_result =
    ImBadArch | ImAmbiguous "image_record list" | ImNoMatch | ImBusy | ImUnreadable state_error | ImDone bool nat

definition delete_images :: "(string \<Rightarrow> string) \<Rightarrow> layout \<Rightarrow> image_record list \<Rightarrow> fs \<Rightarrow> image_result \<times> fs" where
  "delete_images sha l targets s =
     (case open_manifest_cache_dir l s of
        Inl e \<Rightarrow> (ImUnreadable e, s)
      | Inr m \<Rightarrow>
          (case open_layer_cache_dir l s of
             Inl e \<Rightarrow>
               (if e \<noteq> StateErr ENOENT then (ImUnreadable e, s)
                else (case unlink_targets sha l m None targets s of ((f, r), t) \<Rightarrow> (ImDone (\<not> f) r, t)))
           | Inr d \<Rightarrow> (case unlink_targets sha l m (Some d) targets s of ((f, r), t) \<Rightarrow> (ImDone (\<not> f) r, t))))"

text \<open>The containers the summary names.\<close>

definition containers_from_images :: "layout \<Rightarrow> fs \<Rightarrow> image_record list \<Rightarrow> string list" where
  "containers_from_images l s targets =
     (let wanted = map (\<lambda>r. (canonical_ref (im_ref r), im_arch r)) (filter (\<lambda>r. im_ref r \<noteq> []) targets) in
      if wanted = [] then []
      else filter (\<lambda>name. let (ref, arch) = container_image_origin l s name in ref \<noteq> [] \<and> (canonical_ref ref, arch) \<in> set wanted)
        (installed_container_names l s))"

subsection \<open>The command\<close>

fun with_locks :: "nat \<Rightarrow> lock list \<Rightarrow> (world \<Rightarrow> 'a \<times> world) \<Rightarrow> world \<Rightarrow> 'a option \<times> world" where
  "with_locks h [] body w = (case body w of (r, v) \<Rightarrow> (Some r, v))"
| "with_locks h (l # ls) body w =
     (case with_lock h l (with_locks (Suc h) ls body) w of
        (None, v) \<Rightarrow> (None, v)
      | (Some r, v) \<Rightarrow> (r, v))"

definition remove_image ::
    "(string \<Rightarrow> string) \<Rightarrow> layout \<Rightarrow> nat \<Rightarrow> nat \<Rightarrow> string \<Rightarrow> string \<Rightarrow> world \<Rightarrow> image_result \<times> world" where
  "remove_image sha l pid h identifier raw_arch w =
     (let arch = (if raw_arch = [] then Some None else map_option Some (normalize_arch raw_arch)) in
      case arch of
        None \<Rightarrow> (ImBadArch, w)
      | Some a \<Rightarrow>
          (case resolve_images sha l (w_fs w) identifier a of
             Inl rs \<Rightarrow> (ImAmbiguous rs, w)
           | Inr [] \<Rightarrow> (ImNoMatch, w)
           | Inr (r # rs) \<Rightarrow>
               (case with_locks h (image_locks sha pid identifier (r # rs)) (on_files (delete_images sha l (r # rs))) w of
                  (None, v) \<Rightarrow> (ImBusy, v)
                | (Some res, v) \<Rightarrow> (res, v))))"

text \<open>The near misses printed for an identifier that matches nothing.\<close>

definition repo_of :: "string \<Rightarrow> string" where
  "repo_of ref = fst (snd (parse_image_ref ref))"

definition same_name :: "image_record \<Rightarrow> string \<Rightarrow> bool" where
  "same_name r identifier \<longleftrightarrow>
     (let ref = or_else (im_ref r) (im_repo r) in
      ref \<noteq> [] \<and> (repo_of ref = repo_of identifier
        \<or> last (split_on CHR ''/'' (repo_of ref)) = last (split_on CHR ''/'' (repo_of identifier))))"

end
