(* ===== verification/Image_Remove_Props.thy ===== *)
theory Image_Remove_Props
  imports Image_Remove Image_Store
begin

text \<open>
  Removing an image leaves every other image whole, and an image ID removes the images it names only when they
  are one image.
\<close>

subsection \<open>What is unlinked\<close>

lemma unlinked:
  assumes "wf_fs s" and "is_dir s d" and "unlink_at s d n = Inr t"
  shows "plain_name n" and "t = drop_node (d @ [n]) s" and "wf_fs t" and "\<not> is_dir s (d @ [n])"
proof -
  obtain x where x: "node_at s (at d n) = Some x" "\<not> is_dir_node x" using assms(3) by (auto simp: unlink_at_def split: option.splits node.splits)
  have up: "is_dir s (butlast d)"
  proof (cases d rule: rev_cases)
    case Nil
    then show ?thesis using wf_fsD(1) [OF assms(1)] by simp
  next
    case (snoc e k)
    then obtain y where "node_at s (e @ [k]) = Some y" using assms(2) by (auto simp: is_dir_def split: option.splits)
    then show ?thesis using wf_node(2) [OF assms(1)] snoc by simp
  qed
  have "n \<noteq> ''.''" "n \<noteq> ''..''" using x assms(2) up by (auto simp: at_def is_dir_def)
  with plain_at_name [OF assms(1), of d n] x show p: "plain_name n" by auto
  show t: "t = drop_node (d @ [n]) s" by (rule unlink_at_cases [OF assms(3) p])
  show "wf_fs t" by (rule safe_wf [OF safe_unlink [OF assms(3) p prefix_order.refl] assms(1)])
  show "\<not> is_dir s (d @ [n])" using x p by (simp add: at_plain is_dir_def)
qed

text \<open>\<open>t\<close> is \<open>s\<close> without some entries that satisfy \<open>P\<close> and are no directories.\<close>

definition only_unlinks :: "(path \<Rightarrow> bool) \<Rightarrow> fs \<Rightarrow> fs \<Rightarrow> bool" where
  "only_unlinks P s t \<longleftrightarrow> wf_fs t \<and> f_data t = f_data s
     \<and> (\<forall>q. node_at t q = node_at s q \<or> node_at t q = None \<and> \<not> is_dir s q \<and> P q)"

lemma only_refl: "wf_fs s \<Longrightarrow> only_unlinks P s s"
  by (simp add: only_unlinks_def)

lemma only_mono: "only_unlinks P s t \<Longrightarrow> (\<And>q. P q \<Longrightarrow> Q q) \<Longrightarrow> only_unlinks Q s t"
  unfolding only_unlinks_def by blast

lemma only_dir: "only_unlinks P s t \<Longrightarrow> is_dir t q = is_dir s q"
  unfolding only_unlinks_def is_dir_def by (metis (no_types, lifting) is_dir_def option.case(1))

lemma only_trans:
  assumes "only_unlinks P s t" and "only_unlinks P t u"
  shows "only_unlinks P s u"
proof -
  have "node_at u q = node_at s q \<or> node_at u q = None \<and> \<not> is_dir s q \<and> P q" for q
  proof (cases "node_at u q = node_at t q")
    case True
    with assms(1) show ?thesis unfolding only_unlinks_def by metis
  next
    case False
    with assms(2) have "node_at u q = None" "\<not> is_dir t q" "P q" unfolding only_unlinks_def by blast+
    with only_dir [OF assms(1)] show ?thesis by simp
  qed
  with assms show ?thesis unfolding only_unlinks_def by simp
qed

lemma only_one:
  assumes "wf_fs s" and "is_dir s d" and "unlink_at s d n = Inr t" and "P (d @ [n])"
  shows "only_unlinks P s t"
  using unlinked [OF assms(1-3)] assms(4) by (auto simp: only_unlinks_def)

lemma unlink_entries_only:
  assumes "unlink_entries s d ns r0 f0 = (r, f, t)" and "wf_fs s" and "is_dir s d"
  shows "only_unlinks (\<lambda>q. \<exists>n \<in> set ns. q = d @ [n]) s t"
  using assms
proof (induction ns arbitrary: s r0 f0)
  case (Cons n ns)
  let ?P = "\<lambda>q. \<exists>m \<in> set (n # ns). q = d @ [m]"
  show ?case
  proof (cases "unlink_at s d n")
    case (Inl e)
    with Cons show ?thesis by (auto intro: only_mono)
  next
    case (Inr u)
    have u: "only_unlinks ?P s u" by (rule only_one [OF Cons.prems(2,3) Inr]) simp
    have "unlink_entries u d ns (r0 + size_at s d n) f0 = (r, f, t)" using Cons.prems(1) Inr by simp
    from Cons.IH [OF this] u only_dir [OF u] Cons.prems(3)
    have "only_unlinks (\<lambda>q. \<exists>n \<in> set ns. q = d @ [n]) u t" by (simp add: only_unlinks_def)
    then have "only_unlinks ?P u t" by (rule only_mono) auto
    with u show ?thesis by (rule only_trans)
  qed
qed (simp add: only_refl)

lemma unlink_blobs_only:
  assumes "unlink_blobs s dir out gs r0 f0 = (r, f, t)" and "wf_fs s" and "\<forall>d. dir = Some d \<longrightarrow> is_dir s d"
  shows "only_unlinks (\<lambda>q. \<exists>d g n. dir = Some d \<and> g \<in> set gs \<and> g \<notin> set out \<and> layer_cache_name g = Inr n \<and> q = d @ [n]) s t"
  using assms
proof (induction gs arbitrary: s out r0 f0)
  case (Cons g gs)
  let ?P = "\<lambda>q. \<exists>d h n. dir = Some d \<and> h \<in> set (g # gs) \<and> h \<notin> set out \<and> layer_cache_name h = Inr n \<and> q = d @ [n]"
  have later: "only_unlinks ?P u t"
    if "unlink_blobs u dir out' gs r1 f1 = (r, f, t)" "wf_fs u" "\<forall>d. dir = Some d \<longrightarrow> is_dir u d" "set out \<subseteq> set out'" for u out' r1 f1
    using Cons.IH [OF that(1-3)] by (rule only_mono) (use that(4) in auto)
  show ?case
  proof (cases "g \<in> set out")
    case True
    with Cons.prems show ?thesis by (intro later [of s out r0 f0]) simp_all
  next
    case out: False
    show ?thesis
    proof (cases "\<exists>n d. layer_cache_name g = Inr n \<and> dir = Some d")
      case False
      then have "unlink_blobs s dir (g # out) gs r0 f0 = (r, f, t)"
        using Cons.prems(1) out by (auto split: sum.splits option.splits)
      with Cons.prems show ?thesis by (intro later [of s "g # out" r0 f0]) auto
    next
      case True
      then obtain n d where nd: "layer_cache_name g = Inr n" "dir = Some d" by blast
      show ?thesis
      proof (cases "unlink_at s d n")
        case (Inl e)
        with Cons.prems out nd show ?thesis by (intro later [of s "g # out" r0 "f0 \<or> e \<noteq> ENOENT"]) auto
      next
        case (Inr u)
        have u: "only_unlinks ?P s u" by (rule only_one [OF Cons.prems(2) _ Inr]) (use nd out Cons.prems(3) in auto)
        have "unlink_blobs u dir (g # out) gs (r0 + size_at s d n) f0 = (r, f, t)" using Cons.prems(1) out nd Inr by simp
        then have "only_unlinks ?P u t"
          by (rule later) (use u only_dir [OF u] Cons.prems(3) in \<open>auto simp: only_unlinks_def\<close>)
        with u show ?thesis by (rule only_trans)
      qed
    qed
  qed
qed (simp add: only_refl)

subsection \<open>Shared layers\<close>

lemma manifests_still_open:
  assumes "good_layout l" and "open_manifest_cache_dir l s = Inr d" and "wf_fs t" and "is_dir t d"
  shows "open_manifest_cache_dir l t = Inr d"
proof -
  obtain res u where o1: "open_state_dir l False s (MANIFEST_CACHE_DIR l) = (res, u)" by fastforce
  have res: "res = Inr d" using assms(2) o1 by (simp add: open_manifest_cache_dir_def)
  then have d: "d = names_of (py_normpath (MANIFEST_CACHE_DIR l))" using open_state_found(2) [OF o1 assms(1)] by blast
  obtain root parts where "split_state_path l (MANIFEST_CACHE_DIR l) = Some (root, parts)"
    using o1 res by (auto simp: open_state_dir_def split: option.splits)
  with open_state_existing [OF assms(1,3), of "MANIFEST_CACHE_DIR l" root parts False] assms(4) d
  show ?thesis by (simp add: open_manifest_cache_dir_def)
qed

lemma surviving_entry_listed:
  assumes "open_manifest_cache_dir l t = Inr d" and "wf_fs t" and "node_at t (d @ [n]) \<noteq> None" and "is_json_name n"
    and "load_entry t d n = Some (p, mt)" and "entry_manifest p n = Some (ls, cfg)" and "x \<in> set ls"
  shows "digest_of x \<in> set (listed_digests (iter_cached_images sha l t))"
proof -
  obtain r where r: "read_image_record l t d n (open_layers_quietly l t) [] [] = Some r" "im_layers r = ls"
    using assms(5,6) by (simp add: read_image_record_def Let_def)
  have n: "n \<in> set (filter is_json_name (listdir_at t d))" using assms(3,4) listdir_iff [OF assms(2)] by simp
  have kept: "im_layers (name_record hs q) = im_layers q" for hs q by (simp add: name_record_def split: option.splits)
  have "name_record (ref_hints sha l t) r \<in> set (iter_cached_images sha l t)"
    using n r(1) assms(1) by (force simp: iter_cached_images_def sort_records_def List.map_filter_def)
  moreover have "digest_of x \<in> digest_of ` set (im_layers (name_record (ref_hints sha l t) r))" using kept r(2) assms(7) by simp
  ultimately show ?thesis unfolding listed_digests_def set_concat set_map image_image by (intro UN_I) simp_all
qed

text \<open>C35. Removing an image never takes a layer from another one: every layer that a readable manifest entry
  outside the removed ones lists keeps its blob, the entry itself stays, and nothing but manifest entries of the
  removed images and blobs they list is unlinked.\<close>

theorem image_removal_keeps_shared_layers:
  assumes "good_layout l" and "wf_fs s" and "delete_images sha l targets s = (res, t)"
    and "open_manifest_cache_dir l s = Inr d" and "is_json_name n" and "n \<notin> im_name ` set targets"
    and "load_entry s d n = Some (p, mt)" and "entry_manifest p n = Some (ls, cfg)" and "x \<in> set ls" and "layer_cache_name (digest_of x) = Inr b"
  shows "node_at t (blob_path l b) = node_at s (blob_path l b) \<and> node_at t (d @ [n]) = node_at s (d @ [n]) \<and> f_data t = f_data s
    \<and> (\<forall>q. node_at t q = node_at s q \<or> node_at t q = None
         \<and> ((\<exists>r \<in> set targets. q = d @ [im_name r]) \<or> (\<exists>g m. g \<in> set (listed_digests targets) \<and> layer_cache_name g = Inr m \<and> q = blob_path l m)))"
proof -
  have dm: "d = cache_path l ''oci_manifests''" "is_dir s d" using manifests_opened [OF assms(1,4)] by auto
  let ?Q = "\<lambda>q. (\<exists>r \<in> set targets. q = d @ [im_name r]) \<or> (\<exists>g m. g \<in> set (listed_digests targets) \<and> layer_cache_name g = Inr m \<and> q = blob_path l m)"
  have ne: "blob_path l m \<noteq> d @ [k]" for m k by (simp add: blob_path_def dm(1) cache_path_def)
  show ?thesis
  proof (cases "\<exists>dir. (\<forall>e. dir = Some e \<longrightarrow> e = cache_path l ''oci_layers'' \<and> is_dir s e) \<and> t = snd (unlink_targets sha l d dir targets s)")
    case False
    with assms(3,4) layers_opened [OF assms(1)] have "t = s"
      by (auto simp: delete_images_def split: sum.splits if_splits prod.splits) force+
    then show ?thesis by simp
  next
    case True
    then obtain dir where dir: "\<forall>e. dir = Some e \<longrightarrow> e = cache_path l ''oci_layers'' \<and> is_dir s e" "t = snd (unlink_targets sha l d dir targets s)" by blast
    obtain r1 f1 u where u: "unlink_entries s d (map im_name targets) 0 False = (r1, f1, u)" by (cases "unlink_entries s d (map im_name targets) 0 False") auto
    let ?keep = "listed_digests (iter_cached_images sha l u)"
    obtain r2 f2 v where v: "unlink_blobs u dir ?keep (listed_digests targets) r1 f1 = (r2, f2, v)"
      by (cases "unlink_blobs u dir ?keep (listed_digests targets) r1 f1") auto
    have t: "t = v" using dir(2) u v by (simp add: unlink_targets_def)
    have ou: "only_unlinks (\<lambda>q. \<exists>n \<in> set (map im_name targets). q = d @ [n]) s u" by (rule unlink_entries_only [OF u assms(2) dm(2)])
    have wu: "wf_fs u" and du: "f_data u = f_data s" using ou by (simp_all add: only_unlinks_def)
    have dirs: "is_dir u q = is_dir s q" for q by (rule only_dir [OF ou])
    have ov: "only_unlinks (\<lambda>q. \<exists>e g m. dir = Some e \<and> g \<in> set (listed_digests targets) \<and> g \<notin> set ?keep \<and> layer_cache_name g = Inr m \<and> q = e @ [m]) u v"
      by (rule unlink_blobs_only [OF v wu]) (use dir(1) dirs in auto)
    then have ov': "only_unlinks (\<lambda>q. \<exists>g m. g \<in> set (listed_digests targets) \<and> g \<notin> set ?keep \<and> layer_cache_name g = Inr m \<and> q = blob_path l m) u v"
      by (rule only_mono) (use dir(1) in \<open>auto simp: blob_path_def\<close>)
    have "only_unlinks ?Q s t"
      unfolding t by (rule only_trans [OF only_mono [OF ou] only_mono [OF ov']]) auto
    then have all: "f_data t = f_data s" "node_at t q = node_at s q \<or> node_at t q = None \<and> ?Q q" for q by (auto simp: only_unlinks_def)
    have en: "node_at u (d @ [n]) = node_at s (d @ [n])" using ou assms(6) unfolding only_unlinks_def by auto
    have pn: "plain_name n"
    proof -
      have "node_at s (at d n) \<noteq> None" using assms(7) by (auto simp: load_entry_def open_regular_at_def split: option.splits)
      moreover have "n \<noteq> ''.''" "n \<noteq> ''..''" using assms(5) by (auto simp: is_json_name_def ends_with_def)
      ultimately show ?thesis using plain_at_name [OF assms(2)] by blast
    qed
    have "load_entry u d n = load_entry s d n" by (simp add: load_entry_def open_regular_at_def read_state_file_def at_plain pn en du split: option.splits node.splits json.splits)
    then have lu: "load_entry u d n = Some (p, mt)" using assms(7) by simp
    have un: "node_at u (d @ [n]) \<noteq> None" using lu pn by (auto simp: load_entry_def open_regular_at_def at_plain split: option.splits)
    have op: "open_manifest_cache_dir l u = Inr d" by (rule manifests_still_open [OF assms(1,4) wu]) (simp add: dirs dm(2))
    have keep: "digest_of x \<in> set ?keep" by (rule surviving_entry_listed [OF op wu un assms(5) lu assms(8,9)])
    have "node_at v (blob_path l b) = node_at u (blob_path l b)"
    proof (rule ccontr)
      assume "node_at v (blob_path l b) \<noteq> node_at u (blob_path l b)"
      then obtain g m where "g \<notin> set ?keep" "layer_cache_name g = Inr m" "blob_path l b = blob_path l m"
        using ov' unfolding only_unlinks_def by blast
      then have "g = digest_of x" using blob_names_are_distinct [OF _ assms(10)] by (simp add: blob_path_def)
      with keep \<open>g \<notin> set ?keep\<close> show False by simp
    qed
    moreover have "node_at u (blob_path l b) = node_at s (blob_path l b)" using ou ne unfolding only_unlinks_def by metis
    moreover have "node_at v (d @ [n]) = node_at u (d @ [n])" using ov' ne unfolding only_unlinks_def by metis
    ultimately show ?thesis using all en unfolding t by metis
  qed
qed

definition shared_manifest :: json where
  "shared_manifest = JObj [(''manifest'', JObj [(''layers'', JArr [JObj [(''digest'', JStr ''sha256:aa'')]])])]"

definition shared_images :: fs where
  "shared_images =
     (sample_state [([''rt'', ''cache''], NDir 493 0), ([''rt'', ''cache'', ''oci_layers''], NDir 493 0),
       ([''rt'', ''cache'', ''oci_layers'', ''sha256_aa''], NFile 1), ([''rt'', ''cache'', ''oci_manifests''], NDir 493 0),
       ([''rt'', ''cache'', ''oci_manifests'', ''k.json''], NFile 2), ([''rt'', ''cache'', ''oci_manifests'', ''z.json''], NFile 2)])
     \<lparr>f_data := (\<lambda>i. \<lparr>fd_bytes = (if i = 2 then json_dumps shared_manifest else ''blob''), fd_mode = 420, fd_mtime = 0\<rparr>)\<rparr>"

definition removed_record :: image_record where
  "removed_record = \<lparr>im_path = ''/rt/cache/oci_manifests/z.json'', im_name = ''z.json'', im_key = ''z'', im_ref = [], im_repo = [], im_arch = [],
     im_id = [], im_layers = [[(''digest'', JStr ''sha256:aa'')]], im_size = 0, im_missing = 0, im_created = [], im_cached_at = 0\<rparr>"

lemma shared_entry:
  "load_entry shared_images [''rt'', ''cache'', ''oci_manifests''] ''k.json''
     = Some ([(''manifest'', JObj [(''layers'', JArr [JObj [(''digest'', JStr ''sha256:aa'')]])])], 0)"
proof -
  have "open_regular_at shared_images [''rt'', ''cache'', ''oci_manifests''] ''k.json'' = Inr 2"
    "fd_bytes (f_data shared_images 2) = json_dumps shared_manifest" "fd_mtime (f_data shared_images 2) = 0"
    "json_loads_bytes (json_dumps shared_manifest) = Some shared_manifest" "length (json_dumps shared_manifest) < 200" by code_simp+
  then show ?thesis
    by (simp add: load_entry_def read_state_file_def MAX_STATE_JSON_BYTES_def shared_manifest_def del: json_dumps.simps)
qed

theorem image_removal_keeps_shared_layers_witness:
  "node_at (snd (delete_images (\<lambda>b. ''cc'') sample_layout [removed_record] shared_images)) [''rt'', ''cache'', ''oci_layers'', ''sha256_aa''] = Some (NFile 1)"
proof -
  let ?s = "shared_images" and ?d = "[''rt'', ''cache'', ''oci_manifests'']" and ?x = "[(''digest'', JStr ''sha256:aa'')]"
  obtain res t where r: "delete_images (\<lambda>b. ''cc'') sample_layout [removed_record] ?s = (res, t)" by fastforce
  have f: "wf_fs ?s" "open_manifest_cache_dir sample_layout ?s = Inr ?d" "is_json_name ''k.json''" "''k.json'' \<notin> im_name ` set [removed_record]"
    "entry_manifest [(''manifest'', JObj [(''layers'', JArr [JObj ?x])])] ''k.json'' = Some ([?x], [])"
    "layer_cache_name (digest_of ?x) = Inr ''sha256_aa''" "cache_path sample_layout ''oci_layers'' = [''rt'', ''cache'', ''oci_layers'']"
    "node_at ?s [''rt'', ''cache'', ''oci_layers'', ''sha256_aa''] = Some (NFile 1)" by code_simp+
  from image_removal_keeps_shared_layers [OF sample_layout_good f(1) r f(2-4) shared_entry f(5) _ f(6)]
  have "node_at t (blob_path sample_layout ''sha256_aa'') = node_at ?s (blob_path sample_layout ''sha256_aa'')" by simp
  then show ?thesis using r f(8) by (simp add: blob_path_def f(7))
qed

subsection \<open>Image IDs\<close>

lemma distinct_paths_sub: "set (distinct_paths seen rs) \<subseteq> set rs"
  by (induction seen rs rule: distinct_paths.induct) auto

text \<open>What an identifier stands for: the cached images of the reference, one for each architecture asked for;
  only when there is none, the images whose key it is or whose ID it begins, and then all of them have one and
  the same ID. A prefix that two images share names none of them, and the command deletes nothing.\<close>

theorem image_id_is_unambiguous:
  assumes "resolve_images sha l s identifier arch = Inr rs" and "r \<in> set rs" and "r' \<in> set rs"
  shows "(\<exists>a. (case arch of None \<Rightarrow> a \<in> fst ` set ARCH_TO_DOCKER | Some b \<Rightarrow> a = b)
           \<and> image_cache_entry sha l s (with_explicit_tag identifier) a = Some r)
       \<or> im_id r = im_id r' \<and> r \<in> set (iter_cached_images sha l s) \<and> id_matches (str_lower identifier) arch r"
proof -
  let ?archs = "case arch of None \<Rightarrow> map fst ARCH_TO_DOCKER | Some a \<Rightarrow> [a]"
  let ?direct = "distinct_paths [] (List.map_filter (image_cache_entry sha l s (with_explicit_tag identifier)) ?archs)"
  let ?found = "filter (id_matches (str_lower identifier) arch) (iter_cached_images sha l s)"
  show ?thesis
  proof (cases "?direct = []")
    case False
    with assms have "r \<in> set (List.map_filter (image_cache_entry sha l s (with_explicit_tag identifier)) ?archs)"
      using distinct_paths_sub by (auto simp: resolve_images_def Let_def)
    then have "\<exists>a \<in> set ?archs. image_cache_entry sha l s (with_explicit_tag identifier) a = Some r"
      by (auto simp: List.map_filter_def)
    then show ?thesis by (cases arch) auto
  next
    case True
    with assms(1) have rs: "rs = ?found" and le: "length (remdups (map im_id ?found)) \<le> 1"
      by (auto simp: resolve_images_def Let_def split: if_splits)
    have one: "a = b" if "length (remdups xs) \<le> 1" "a \<in> set xs" "b \<in> set xs" for a b and xs :: "string list"
    proof -
      have "card (set xs) \<le> 1" using that(1) by (simp add: length_remdups_card_conv)
      with that(2,3) show ?thesis by (simp add: card_le_Suc0_iff_eq)
    qed
    have "im_id r = im_id r'" by (rule one [OF le]) (use assms(2,3) rs in auto)
    with assms(2) rs show ?thesis by auto
  qed
qed

theorem image_id_is_unambiguous_witness:
  "\<exists>r. resolve_images (\<lambda>b. ''k'') sample_layout shared_images ''a'' (Some ''arm'') = Inr [r]
     \<and> image_cache_entry (\<lambda>b. ''k'') sample_layout shared_images (with_explicit_tag ''a'') ''arm'' = Some r"
proof -
  let ?f = "image_cache_entry (\<lambda>b. ''k'') sample_layout shared_images (with_explicit_tag ''a'')"
  have f: "open_manifest_cache_dir sample_layout shared_images = Inr [''rt'', ''cache'', ''oci_manifests'']"
    "manifest_cache_name (\<lambda>b. ''k'') (with_explicit_tag ''a'') ''arm'' = ''k.json''"
    "entry_manifest [(''manifest'', JObj [(''layers'', JArr [JObj [(''digest'', JStr ''sha256:aa'')]])])] ''k.json''
       = Some ([[(''digest'', JStr ''sha256:aa'')]], [])" by code_simp+
  obtain r where r: "?f ''arm'' = Some r"
    by (simp add: image_cache_entry_def read_image_record_def f shared_entry Let_def)
  have e: "resolve_images (\<lambda>b. ''k'') sample_layout shared_images ''a'' (Some ''arm'') = Inr [r]"
    by (simp add: resolve_images_def r)
  have short: "\<not> MIN_ID_PREFIX \<le> length (str_lower ''a'')" "str_lower ''a'' = ''a''" by code_simp+
  have "im_key r = ''k''" using r by (auto simp: image_cache_entry_def read_image_record_def f shared_entry Let_def json_stem_def)
  then have "\<not> id_matches (str_lower ''a'') (Some ''arm'') r" using short by (simp add: id_matches_def)
  with image_id_is_unambiguous [OF e, of r r] e show ?thesis by auto
qed

end
