(* ===== verification/Walk_Levels.thy ===== *)
theory Walk_Levels
  imports Fs_Model
begin

text \<open>
  \<open>Levels\<close> of \<open>dirfd.py\<close>: the levels of a walk that hold descriptors. Past the budget the shallowest is parked, its
  descriptors closed and their identities kept, and reopened through the level above it when the walk comes back.
  A descriptor is any \<open>'d\<close>; \<open>key\<close> is what \<open>fstat\<close> says of it, \<open>None\<close> for a failure, and \<open>up\<close> the open of \<open>..\<close>
  below it.
\<close>

subsection \<open>Frames\<close>

type_synonym 'a slots = "'a option \<times> 'a option"

record ('d, 'k) levels =
  lv_stack :: "'d slots list"
  lv_keys :: "'k slots option list"
  lv_low :: nat

definition MAX_OPEN_LEVELS :: nat where
  "MAX_OPEN_LEVELS = 64"

definition levels_init :: "'d slots list \<Rightarrow> ('d, 'k) levels" where
  "levels_init st = \<lparr>lv_stack = st, lv_keys = replicate (length st) None, lv_low = 1\<rparr>"

definition slot_key :: "('d \<Rightarrow> 'k option) \<Rightarrow> 'd option \<Rightarrow> 'k option option" where
  "slot_key key x = (case x of None \<Rightarrow> Some None | Some d \<Rightarrow> map_option Some (key d))"

definition park :: "('d \<Rightarrow> 'k option) \<Rightarrow> nat \<Rightarrow> ('d, 'k) levels \<Rightarrow> ('d, 'k) levels option" where
  "park key i L =
     (case (slot_key key (fst (lv_stack L ! i)), slot_key key (snd (lv_stack L ! i))) of
        (Some a, Some b) \<Rightarrow> Some (L\<lparr>lv_stack := (lv_stack L)[i := (None, None)], lv_keys := (lv_keys L)[i := Some (a, b)]\<rparr>)
      | _ \<Rightarrow> None)"

function park_below :: "('d \<Rightarrow> 'k option) \<Rightarrow> nat \<Rightarrow> nat \<Rightarrow> ('d, 'k) levels \<Rightarrow> ('d, 'k) levels" where
  "park_below key budget limit L =
     (if budget < length (lv_stack L) - lv_low L \<and> lv_low L < limit then
        (case park key (lv_low L) L of
           None \<Rightarrow> L
         | Some K \<Rightarrow> park_below key budget limit (K\<lparr>lv_low := Suc (lv_low L)\<rparr>))
      else L)"
  by pat_completeness auto
termination
  by (relation "measure (\<lambda>(key, budget, limit, L). limit - lv_low L)") auto

declare park_below.simps [simp del]

definition levels_push :: "('d \<Rightarrow> 'k option) \<Rightarrow> nat \<Rightarrow> 'd slots \<Rightarrow> ('d, 'k) levels \<Rightarrow> ('d, 'k) levels" where
  "levels_push key budget fr L =
     (let K = L\<lparr>lv_stack := lv_stack L @ [fr], lv_keys := lv_keys L @ [None]\<rparr> in
      park_below key budget (length (lv_stack K) - 2) K)"

definition revive_slot :: "('d \<Rightarrow> 'k option) \<Rightarrow> ('d \<Rightarrow> errno + 'd) \<Rightarrow> 'k option \<Rightarrow> 'd option \<Rightarrow> 'd option \<Rightarrow> errno + 'd option" where
  "revive_slot key up k fd below =
     (case k of
        None \<Rightarrow> Inr fd
      | Some want \<Rightarrow>
          (case below of
             None \<Rightarrow> Inl ESTALE
           | Some b \<Rightarrow>
               (case up b of
                  Inl e \<Rightarrow> Inl e
                | Inr d \<Rightarrow> if key d = Some want then Inr (Some d) else Inl ESTALE)))"

definition revive_level ::
    "('d \<Rightarrow> 'k option) \<Rightarrow> ('d \<Rightarrow> errno + 'd) \<Rightarrow> 'd slots \<Rightarrow> 'k slots \<Rightarrow> 'd slots \<Rightarrow> errno + 'd slots" where
  "revive_level key up fr ks child =
     bindR (revive_slot key up (fst ks) (fst fr) (fst child)) (\<lambda>a.
     bindR (revive_slot key up (snd ks) (snd fr) (snd child)) (\<lambda>b. Inr (a, b)))"

text \<open>The popped frame and the levels that are left.\<close>

definition levels_pop ::
    "('d \<Rightarrow> 'k option) \<Rightarrow> ('d \<Rightarrow> errno + 'd) \<Rightarrow> ('d, 'k) levels \<Rightarrow> errno + ('d slots \<times> ('d, 'k) levels)" where
  "levels_pop key up L =
     (let fr = last (lv_stack L);
          K = L\<lparr>lv_stack := butlast (lv_stack L), lv_keys := butlast (lv_keys L)\<rparr> in
      if lv_stack K = [] then Inr (fr, K)
      else case last (lv_keys K) of
          None \<Rightarrow> Inr (fr, K)
        | Some ks \<Rightarrow>
            bindR (revive_level key up (last (lv_stack K)) ks fr) (\<lambda>g.
              Inr (fr, K\<lparr>lv_stack := butlast (lv_stack K) @ [g], lv_keys := butlast (lv_keys K) @ [None],
                        lv_low := length (lv_stack K) - 1\<rparr>)))"

definition levels_truncate :: "nat \<Rightarrow> ('d, 'k) levels \<Rightarrow> ('d, 'k) levels" where
  "levels_truncate depth L = L\<lparr>lv_stack := take depth (lv_stack L), lv_keys := take depth (lv_keys L)\<rparr>"

subsection \<open>Walks\<close>

text \<open>
  What a walk can do with its levels: push one, pop the top, or drop one it has just pushed and could not fill in.
  The last argument is the frames as they were pushed.
\<close>

inductive walking ::
    "('d \<Rightarrow> 'k option) \<Rightarrow> ('d \<Rightarrow> errno + 'd) \<Rightarrow> nat \<Rightarrow> ('d, 'k) levels \<Rightarrow> 'd slots list \<Rightarrow> bool" for key up budget where
  walking_start: "walking key up budget (levels_init [fr]) [fr]"
| walking_push: "walking key up budget L g \<Longrightarrow> g \<noteq> [] \<Longrightarrow> walking key up budget (levels_push key budget fr L) (g @ [fr])"
| walking_pop: "walking key up budget L g \<Longrightarrow> g \<noteq> [] \<Longrightarrow> levels_pop key up L = Inr (fr, K) \<Longrightarrow> walking key up budget K (butlast g)"
| walking_drop: "walking key up budget L g \<Longrightarrow> g \<noteq> [] \<Longrightarrow>
    walking key up budget (levels_truncate (length (lv_stack L)) (levels_push key budget fr L)) g"

definition is_parked :: "('d, 'k) levels \<Rightarrow> nat \<Rightarrow> bool" where
  "is_parked L i \<longleftrightarrow> lv_keys L ! i \<noteq> None"

definition open_levels :: "('d, 'k) levels \<Rightarrow> nat" where
  "open_levels L = length (filter (\<lambda>k. k = None) (lv_keys L))"

text \<open>The same directories, by what \<open>fstat\<close> says of them.\<close>

definition same_dirs :: "('d \<Rightarrow> 'k option) \<Rightarrow> 'd slots \<Rightarrow> 'd slots \<Rightarrow> bool" where
  "same_dirs key a b \<longleftrightarrow> map_option key (fst a) = map_option key (fst b) \<and> map_option key (snd a) = map_option key (snd b)"

text \<open>
  The invariant: the parked levels are those from the first above the root up to \<open>lv_low\<close>, never one of the top
  two; each level that is open shows the directories it was pushed with, and a parked one keeps their identities.
\<close>

definition keyed :: "('d \<Rightarrow> 'k option) \<Rightarrow> 'd option \<Rightarrow> bool" where
  "keyed key x \<longleftrightarrow> (case x of None \<Rightarrow> True | Some d \<Rightarrow> key d \<noteq> None)"

definition frame_ok :: "('d \<Rightarrow> 'k option) \<Rightarrow> 'k slots option \<Rightarrow> 'd slots \<Rightarrow> 'd slots \<Rightarrow> bool" where
  "frame_ok key k f x \<longleftrightarrow>
     (if k = None then same_dirs key f x
      else k = Some (Option.bind (fst x) key, Option.bind (snd x) key) \<and> f = (None, None) \<and> keyed key (fst x) \<and> keyed key (snd x))"

definition levels_ok :: "('d \<Rightarrow> 'k option) \<Rightarrow> ('d, 'k) levels \<Rightarrow> 'd slots list \<Rightarrow> bool" where
  "levels_ok key L g \<longleftrightarrow>
     length (lv_stack L) = length g \<and> length (lv_keys L) = length g \<and> 1 \<le> lv_low L
     \<and> (1 < lv_low L \<longrightarrow> lv_low L < length g)
     \<and> (\<forall>i < length g. is_parked L i \<longleftrightarrow> 1 \<le> i \<and> i < lv_low L)
     \<and> (\<forall>i < length g. frame_ok key (lv_keys L ! i) (lv_stack L ! i) (g ! i))"

subsection \<open>The invariant\<close>

lemma park_ok:
  assumes "levels_ok key L g" and "park key (lv_low L) L = Some K" and "Suc (lv_low L) < length g"
  shows "levels_ok key (K\<lparr>lv_low := Suc (lv_low L)\<rparr>) g"
proof -
  let ?i = "lv_low L"
  obtain a b where ab: "slot_key key (fst (lv_stack L ! ?i)) = Some a" "slot_key key (snd (lv_stack L ! ?i)) = Some b"
    and K: "K = L\<lparr>lv_stack := (lv_stack L)[?i := (None, None)], lv_keys := (lv_keys L)[?i := Some (a, b)]\<rparr>"
    using assms(2) by (auto simp: park_def split: option.splits)
  have i: "?i < length g" "\<not> is_parked L ?i" "frame_ok key (lv_keys L ! ?i) (lv_stack L ! ?i) (g ! ?i)"
    using assms(1,3) by (simp_all add: levels_ok_def)
  then have same: "same_dirs key (lv_stack L ! ?i) (g ! ?i)" by (simp add: frame_ok_def is_parked_def del: not_None_eq)
  have slots: "c = Option.bind y key \<and> keyed key y"
    if "slot_key key x = Some c" "map_option key x = map_option key y" for x y c
    using that by (cases x; cases y) (auto simp: slot_key_def keyed_def)
  have "frame_ok key (Some (a, b)) (None, None) (g ! ?i)"
    using slots [OF ab(1)] slots [OF ab(2)] same by (simp add: same_dirs_def frame_ok_def)
  with assms(1,3) i show ?thesis
    unfolding K levels_ok_def is_parked_def by (simp add: nth_list_update less_Suc_eq)
qed

lemma park_below_ok:
  assumes "levels_ok key L g" and "Suc limit < length g"
  shows "levels_ok key (park_below key budget limit L) g
    \<and> length (lv_stack (park_below key budget limit L)) = length (lv_stack L)
    \<and> (lv_low L \<le> max 1 limit \<longrightarrow> lv_low (park_below key budget limit L) \<le> max 1 limit)
    \<and> ((\<forall>d. key d \<noteq> None) \<longrightarrow>
         length (lv_stack L) - lv_low (park_below key budget limit L) \<le> budget \<or> limit \<le> lv_low (park_below key budget limit L))"
  using assms
proof (induction key budget limit L rule: park_below.induct)
  case (1 key budget limit L)
  show ?case
  proof (cases "budget < length (lv_stack L) - lv_low L \<and> lv_low L < limit")
    case False
    then have "park_below key budget limit L = L" by (subst park_below.simps) (simp only: if_False)
    with 1 False show ?thesis by auto
  next
    case True
    show ?thesis
    proof (cases "park key (lv_low L) L")
      case None
      then have e: "park_below key budget limit L = L" using True by (subst park_below.simps) simp
      from None obtain d where "key d = None" by (auto simp: park_def slot_key_def split: option.splits)
      then have "\<not> (\<forall>d. key d \<noteq> None)" by blast
      with e 1(2,3) show ?thesis by metis
    next
      case (Some K)
      let ?K = "K\<lparr>lv_low := Suc (lv_low L)\<rparr>"
      have e: "park_below key budget limit L = park_below key budget limit ?K" using True Some by (subst park_below.simps) simp
      have len: "length (lv_stack K) = length (lv_stack L)" using Some by (auto simp: park_def split: option.splits)
      have "levels_ok key ?K g" by (rule park_ok [OF 1(2) Some]) (use True 1(3) in simp)
      from 1(1) [OF True Some this 1(3)] True len show ?thesis unfolding e by auto
    qed
  qed
qed

lemma low_bound: "levels_ok key L g \<Longrightarrow> 0 < length g \<Longrightarrow> lv_low L \<le> max 1 (length g - 1)"
  by (auto simp: levels_ok_def max_def not_less)

lemma append_ok:
  assumes "levels_ok key L g" and "g \<noteq> []"
  shows "levels_ok key (L\<lparr>lv_stack := lv_stack L @ [fr], lv_keys := lv_keys L @ [None]\<rparr>) (g @ [fr])"
proof -
  have g: "0 < length g" using assms(2) by simp
  then have "lv_low L \<le> length g" using low_bound [OF assms(1) g] by linarith
  moreover have "frame_ok key None fr fr" by (simp add: frame_ok_def same_dirs_def)
  ultimately show ?thesis using assms by (simp add: levels_ok_def is_parked_def nth_append less_Suc_eq del: not_None_eq)
qed

lemma push_ok:
  assumes "levels_ok key L g" and "g \<noteq> []"
  shows "levels_ok key (levels_push key budget fr L) (g @ [fr])"
    and "lv_low (levels_push key budget fr L) \<le> max 1 (length g - 1)"
    and "(\<forall>d. key d \<noteq> None) \<Longrightarrow> Suc (length g) - lv_low (levels_push key budget fr L) \<le> max 2 budget"
proof -
  let ?K = "L\<lparr>lv_stack := lv_stack L @ [fr], lv_keys := lv_keys L @ [None]\<rparr>"
  have len: "length (lv_stack L) = length g" using assms(1) by (simp add: levels_ok_def)
  have low: "lv_low L \<le> max 1 (length g - 1)" using low_bound [OF assms(1)] assms(2) by simp
  have e: "levels_push key budget fr L = park_below key budget (length g - 1) ?K" by (simp add: levels_push_def Let_def len)
  have "Suc (length g - 1) < length (g @ [fr])" using assms(2) by (cases g) auto
  note p = park_below_ok [OF append_ok [OF assms, of fr] this, of budget]
  show "levels_ok key (levels_push key budget fr L) (g @ [fr])" using p unfolding e by blast
  show "lv_low (levels_push key budget fr L) \<le> max 1 (length g - 1)" using p low unfolding e by simp
  assume "\<forall>d. key d \<noteq> None"
  with p len show "Suc (length g) - lv_low (levels_push key budget fr L) \<le> max 2 budget" unfolding e by fastforce
qed

lemma revived:
  assumes "revive_slot key up (Option.bind x key) None below = Inr y" and "keyed key x"
  shows "map_option key y = map_option key x"
  using assms by (cases x) (auto simp: revive_slot_def keyed_def split: option.splits sum.splits if_splits)

lemma nth_before_last: "length xs = Suc n \<Longrightarrow> 0 < n \<Longrightarrow> last (butlast xs) = xs ! (n - 1)"
  by (cases xs rule: rev_cases) (auto simp: last_conv_nth nth_append)

lemma pop_ok:
  assumes "levels_ok key L g" and "g \<noteq> []" and "levels_pop key up L = Inr (fr, K)"
  shows "levels_ok key K (butlast g)"
    and "lv_low K = lv_low L \<or> lv_low K = length (butlast g) - 1"
proof -
  define n where "n = length g - 1"
  have n: "length g = Suc n" using assms(2) by (cases g) (auto simp: n_def)
  note ok = assms(1) [unfolded levels_ok_def n]
  have len: "length (lv_stack L) = Suc n" "length (lv_keys L) = Suc n" using ok by simp_all
  let ?K = "L\<lparr>lv_stack := butlast (lv_stack L), lv_keys := butlast (lv_keys L)\<rparr>"
  have nth: "butlast xs ! i = xs ! i" if "length xs = Suc n" "i < n" for i and xs :: "'x list" using that by (simp add: nth_butlast)
  have g: "\<forall>i < n. butlast g ! i = g ! i" using n by (simp add: nth_butlast)
  have plain: "levels_ok key ?K (butlast g)" if "n = 0 \<or> \<not> is_parked L (n - 1)"
  proof -
    have "1 < lv_low L \<Longrightarrow> lv_low L < n" using ok that by (cases "n = 0") (auto simp: less_Suc_eq_le not_less)
    with ok g show ?thesis by (simp add: levels_ok_def is_parked_def n len nth_butlast)
  qed
  have "levels_ok key K (butlast g) \<and> (lv_low K = lv_low L \<or> lv_low K = length (butlast g) - 1)"
  proof (cases "n = 0 \<or> \<not> is_parked L (n - 1)")
    case True
    have "K = ?K"
    proof (cases "n = 0")
      case True
      then have "butlast (lv_stack L) = []" using len by (cases "lv_stack L" rule: rev_cases) auto
      with assms(3) show ?thesis by (auto simp: levels_pop_def Let_def)
    next
      case False
      then have "butlast (lv_stack L) \<noteq> []" using len by (cases "lv_stack L" rule: rev_cases) auto
      moreover have "last (butlast (lv_keys L)) = None" using True False nth_before_last [OF len(2)] by (simp add: is_parked_def del: not_None_eq)
      ultimately show ?thesis using assms(3) by (auto simp: levels_pop_def Let_def)
    qed
    with plain [OF True] show ?thesis by simp
  next
    case False
    then have n0: "0 < n" and pk: "is_parked L (n - 1)" by simp_all
    have low: "lv_low L = n" "2 \<le> n" using ok pk n0 by (auto simp: less_Suc_eq)
    let ?x = "g ! (n - 1)"
    have key: "lv_keys L ! (n - 1) = Some (Option.bind (fst ?x) key, Option.bind (snd ?x) key)" "lv_stack L ! (n - 1) = (None, None)"
      "keyed key (fst ?x)" "keyed key (snd ?x)" using ok pk n0 by (simp_all add: frame_ok_def is_parked_def del: not_None_eq split: if_splits)
    have ne: "butlast (lv_stack L) \<noteq> []" using len n0 by (cases "lv_stack L" rule: rev_cases) auto
    obtain c where c: "revive_level key up (None, None) (Option.bind (fst ?x) key, Option.bind (snd ?x) key) fr = Inr c"
      and K: "K = ?K\<lparr>lv_stack := butlast (butlast (lv_stack L)) @ [c], lv_keys := butlast (butlast (lv_keys L)) @ [None], lv_low := n - 1\<rparr>"
      using assms(3) ne nth_before_last [OF len(1) n0] nth_before_last [OF len(2) n0] key len
      by (auto simp: levels_pop_def Let_def split: sum.splits)
    have same: "same_dirs key c ?x"
      using c key(3,4) revived [of key up "fst ?x" "fst fr" "fst c"] revived [of key up "snd ?x" "snd fr" "snd c"]
      by (auto simp: revive_level_def same_dirs_def split: sum.splits)
    have st: "(butlast (butlast (lv_stack L)) @ [c]) ! i = (if i = n - 1 then c else lv_stack L ! i)" if "i < n" for i
      using that len n0 by (auto simp: nth_append nth_butlast)
    have ks: "(butlast (butlast (lv_keys L)) @ [None]) ! i = (if i = n - 1 then None else lv_keys L ! i)" if "i < n" for i
      using that len n0 by (auto simp: nth_append nth_butlast)
    have ar: "Suc 0 \<le> n - Suc 0" "(i < n - Suc 0) = (i < n \<and> i \<noteq> n - Suc 0)" for i using low(2) by auto
    have "levels_ok key K (butlast g)"
      using ok g same low st ks n0 len n ar(1) by (simp add: levels_ok_def K is_parked_def frame_ok_def ar(2))
    then show ?thesis by (simp add: K n)
  qed
  then show "levels_ok key K (butlast g)" "lv_low K = lv_low L \<or> lv_low K = length (butlast g) - 1" by blast+
qed

lemma drop_ok:
  assumes "levels_ok key L g" and "g \<noteq> []"
  shows "levels_ok key (levels_truncate (length (lv_stack L)) (levels_push key budget fr L)) g"
proof -
  let ?P = "levels_push key budget fr L"
  have len: "length (lv_stack L) = length g" using assms(1) by (simp add: levels_ok_def)
  have "lv_low ?P \<le> max 1 (length g - 1)" by (rule push_ok(2) [OF assms])
  then have "1 < lv_low ?P \<Longrightarrow> lv_low ?P < length g" by (cases g) auto
  with push_ok(1) [OF assms, of budget fr] show ?thesis
    by (simp add: levels_ok_def levels_truncate_def len is_parked_def nth_append All_less_Suc del: not_None_eq)
qed

lemma walking_ok: "walking key up budget L g \<Longrightarrow> g \<noteq> [] \<Longrightarrow> levels_ok key L g"
proof (induction rule: walking.induct)
  case (walking_start fr)
  then show ?case by (simp add: levels_ok_def levels_init_def is_parked_def frame_ok_def same_dirs_def)
next
  case (walking_push L g fr)
  then show ?case using push_ok(1) by blast
next
  case (walking_pop L g fr K)
  then show ?case using pop_ok(1) by blast
next
  case (walking_drop L g fr)
  then show ?case using drop_ok by blast
qed

lemma open_count:
  assumes "levels_ok key L g" and "g \<noteq> []"
  shows "open_levels L = Suc (length g - lv_low L)"
proof -
  let ?k = "lv_keys L"
  have len: "length ?k = length g" and pk: "\<forall>i < length g. (?k ! i = None) \<longleftrightarrow> \<not> (1 \<le> i \<and> i < lv_low L)"
    using assms(1) by (auto simp: levels_ok_def is_parked_def)
  have "0 < length g" using assms(2) by simp
  then have low: "1 \<le> lv_low L" "lv_low L \<le> length g" using assms(1) low_bound [OF assms(1)] by (simp add: levels_ok_def, linarith)
  have "open_levels L = card {i. i < length ?k \<and> ?k ! i = None}" by (simp add: open_levels_def length_filter_conv_card)
  also have "{i. i < length ?k \<and> ?k ! i = None} = insert 0 {lv_low L..<length g}" using len pk low assms(2) by auto
  also have "card \<dots> = Suc (length g - lv_low L)" using low by simp
  finally show ?thesis .
qed

lemma walking_low:
  "walking key up budget L g \<Longrightarrow> g \<noteq> [] \<Longrightarrow> \<forall>d. key d \<noteq> None \<Longrightarrow> length g - lv_low L \<le> max 2 budget"
proof (induction rule: walking.induct)
  case (walking_push L g fr)
  then show ?case using push_ok(3) [OF walking_ok [OF walking_push.hyps(1,2)] walking_push.hyps(2)] by simp
next
  case (walking_pop L g fr K)
  from pop_ok(2) [OF walking_ok [OF walking_pop.hyps(1,2)] walking_pop.hyps(2,3)] walking_pop show ?case by fastforce
next
  case (walking_drop L g fr)
  have "Suc (length g) - lv_low (levels_push key budget fr L) \<le> max 2 budget"
    by (rule push_ok(3) [OF walking_ok [OF walking_drop.hyps(1,2)] walking_drop.hyps(2)]) (use walking_drop.prems in blast)
  then show ?case by (simp add: levels_truncate_def)
qed (simp add: levels_init_def)

text \<open>C40. However deep a walk goes and however often it turns back, the levels that hold descriptors are the root,
  and at most as many of the deepest as the budget allows, the top one always among them; a level the walk comes
  back to is the directory it was left as, by its identity.\<close>

theorem open_levels_are_bounded:
  assumes "walking key up budget L g" and "g \<noteq> []"
  shows "((\<forall>d. key d \<noteq> None) \<longrightarrow> open_levels L \<le> Suc (max 2 budget))
    \<and> \<not> is_parked L 0 \<and> \<not> is_parked L (length g - 1)
    \<and> length (lv_stack L) = length g \<and> same_dirs key (last (lv_stack L)) (last g)"
proof -
  note ok = walking_ok [OF assms]
  have n: "0 < length g" "length g - 1 < length g" using assms(2) by auto
  have "1 < lv_low L \<longrightarrow> lv_low L < length g" and pk: "\<forall>i < length g. is_parked L i \<longleftrightarrow> 1 \<le> i \<and> i < lv_low L" and len: "length (lv_stack L) = length g"
    and fr: "\<forall>i < length g. frame_ok key (lv_keys L ! i) (lv_stack L ! i) (g ! i)" using ok by (simp_all add: levels_ok_def)
  then have np: "\<not> is_parked L 0" "\<not> is_parked L (length g - 1)" using n by auto
  have "frame_ok key (lv_keys L ! (length g - 1)) (lv_stack L ! (length g - 1)) (g ! (length g - 1))" using fr n by blast
  then have "same_dirs key (lv_stack L ! (length g - 1)) (g ! (length g - 1))" using np(2) by (simp add: frame_ok_def is_parked_def del: not_None_eq)
  moreover have "lv_stack L \<noteq> []" using len n by auto
  ultimately have "same_dirs key (last (lv_stack L)) (last g)" using assms(2) len by (simp add: last_conv_nth)
  with np len open_count [OF ok assms(2)] walking_low [OF assms] show ?thesis by simp
qed

theorem open_levels_are_bounded_witness:
  "\<exists>L. walking Some (\<lambda>d. Inr (butlast d)) 2 L
        (map (\<lambda>p. (Some p, None)) [[], [''a''], [''a'', ''b''], [''a'', ''b'', ''c''], [''a'', ''b'', ''c'', ''d'']])
      \<and> open_levels L \<le> 3 \<and> is_parked L 1 \<and> is_parked L 2"
proof -
  let ?up = "\<lambda>d :: path. Inr (butlast d) :: errno + path"
  let ?push = "\<lambda>p. levels_push Some 2 (Some p, None)"
  let ?L0 = "levels_init [(Some [], None)] :: (path, path) levels"
  let ?L = "?push [''a'', ''b'', ''c'', ''d''] (?push [''a'', ''b'', ''c''] (?push [''a'', ''b''] (?push [''a''] ?L0)))"
  have "walking Some ?up 2 ?L ([(Some [], None)] @ [(Some [''a''], None)] @ [(Some [''a'', ''b''], None)] @ [(Some [''a'', ''b'', ''c''], None)]
      @ [(Some [''a'', ''b'', ''c'', ''d''], None)])"
    unfolding append_assoc [symmetric] by (intro walking_push walking_start) simp_all
  then have w: "walking Some ?up 2 ?L (map (\<lambda>p. (Some p, None)) [[], [''a''], [''a'', ''b''], [''a'', ''b'', ''c''], [''a'', ''b'', ''c'', ''d'']])" by simp
  have "is_parked ?L 1" "is_parked ?L 2" by code_simp+
  with open_levels_are_bounded [OF w] w show ?thesis by (intro exI [of _ ?L]) simp
qed

end
