(* ===== verification/Tree_Walk.thy ===== *)
theory Tree_Walk
  imports Clear_Props Walk_Levels
begin

text \<open>
  The loop the walks of \<open>dirfd.py\<close> and \<open>sync.py\<close> share: an explicit stack of levels, each with the names it has left,
  \<open>None\<close> before the level was listed. \<open>enter\<close> lists a level, \<open>visit\<close> deals with one name and answers the level to
  descend into, \<open>leave\<close> is what is done when a level is finished, told whether the walk opened it itself. The fuel
  counts turns of the loop.
\<close>

fun walk_loop ::
    "('d \<Rightarrow> 'a \<Rightarrow> 'd \<times> 'n list \<times> 'a) \<Rightarrow> ('d \<Rightarrow> 'n \<Rightarrow> 'a \<Rightarrow> 'd option \<times> 'a) \<Rightarrow> (bool \<Rightarrow> 'd \<Rightarrow> 'a \<Rightarrow> 'a)
      \<Rightarrow> nat \<Rightarrow> ('d \<times> 'n list option) list \<Rightarrow> 'a \<Rightarrow> 'a option" where
  "walk_loop enter visit leave 0 st a = None"
| "walk_loop enter visit leave (Suc k) [] a = Some a"
| "walk_loop enter visit leave (Suc k) ((d, None) # st) a =
     (case enter d a of (e, ns, b) \<Rightarrow> walk_loop enter visit leave k ((e, Some ns) # st) b)"
| "walk_loop enter visit leave (Suc k) ((d, Some []) # st) a = walk_loop enter visit leave k st (leave (st \<noteq> []) d a)"
| "walk_loop enter visit leave (Suc k) ((d, Some (n # ns)) # st) a =
     (case visit d n a of
        (None, b) \<Rightarrow> walk_loop enter visit leave k ((d, Some ns) # st) b
      | (Some e, b) \<Rightarrow> walk_loop enter visit leave k ((e, None) # (d, Some ns) # st) b)"

text \<open>The recursion the loop stands for.\<close>

inductive walks ::
    "('d \<Rightarrow> 'a \<Rightarrow> 'd \<times> 'n list \<times> 'a) \<Rightarrow> ('d \<Rightarrow> 'n \<Rightarrow> 'a \<Rightarrow> 'd option \<times> 'a) \<Rightarrow> (bool \<Rightarrow> 'd \<Rightarrow> 'a \<Rightarrow> 'a)
      \<Rightarrow> 'd \<Rightarrow> 'n list \<Rightarrow> 'a \<Rightarrow> 'a \<Rightarrow> bool" for enter visit leave where
  walks_nil: "walks enter visit leave d [] a a"
| walks_skip: "visit d n a = (None, b) \<Longrightarrow> walks enter visit leave d ns b z \<Longrightarrow> walks enter visit leave d (n # ns) a z"
| walks_down: "visit d n a = (Some e, b) \<Longrightarrow> enter e b = (f, ms, c) \<Longrightarrow> walks enter visit leave f ms c y
    \<Longrightarrow> walks enter visit leave d ns (leave True f y) z \<Longrightarrow> walks enter visit leave d (n # ns) a z"

lemma walk_loop_level:
  "walk_loop enter visit leave k ((d, Some ns) # st) a = Some z \<Longrightarrow>
     \<exists>j b. j < k \<and> walks enter visit leave d ns a b \<and> walk_loop enter visit leave j st (leave (st \<noteq> []) d b) = Some z"
proof (induction k arbitrary: d ns st a rule: less_induct)
  case (less k)
  obtain m where k: "k = Suc m" using less.prems by (cases k) auto
  show ?case
  proof (cases ns)
    case Nil
    with less.prems k show ?thesis by (auto intro: walks_nil)
  next
    case (Cons n rest)
    obtain o1 b where v: "visit d n a = (o1, b)" by fastforce
    show ?thesis
    proof (cases o1)
      case None
      then have "walk_loop enter visit leave m ((d, Some rest) # st) b = Some z" using less.prems k Cons v by simp
      from less.IH [OF _ this] k obtain j c where "j < m" "walks enter visit leave d rest b c"
        "walk_loop enter visit leave j st (leave (st \<noteq> []) d c) = Some z" by blast
      moreover have "walks enter visit leave d ns a c" unfolding Cons using v None calculation(2) by (blast intro: walks_skip)
      ultimately show ?thesis using k by (metis less_SucI)
    next
      case (Some e)
      then have down: "walk_loop enter visit leave m ((e, None) # (d, Some rest) # st) b = Some z" using less.prems k Cons v by simp
      then obtain i where m: "m = Suc i" by (cases m) auto
      obtain f ms c where en: "enter e b = (f, ms, c)" by (cases "enter e b")
      have "walk_loop enter visit leave i ((f, Some ms) # (d, Some rest) # st) c = Some z" using down m en by simp
      from less.IH [OF _ this] k m obtain j y where y: "j < i" "walks enter visit leave f ms c y"
        "walk_loop enter visit leave j ((d, Some rest) # st) (leave True f y) = Some z" by auto
      from less.IH [OF _ y(3)] y(1) k m obtain j' w where w: "j' < j" "walks enter visit leave d rest (leave True f y) w"
        "walk_loop enter visit leave j' st (leave (st \<noteq> []) d w) = Some z" by auto
      have "walks enter visit leave d ns a w" unfolding Cons using v Some en y(2) w(2) by (blast intro: walks_down)
      with w y(1) k m show ?thesis by (intro exI [of _ j'] exI [of _ w]) simp
    qed
  qed
qed

lemma walk_loop_root:
  assumes "walk_loop enter visit leave k [(d, None)] a = Some z"
  shows "\<exists>e ns b c. enter d a = (e, ns, b) \<and> walks enter visit leave e ns b c \<and> z = leave False e c"
proof -
  obtain m where k: "k = Suc m" using assms by (cases k) auto
  obtain e ns b where en: "enter d a = (e, ns, b)" by (cases "enter d a")
  have "walk_loop enter visit leave m [(e, Some ns)] b = Some z" using assms k en by simp
  from walk_loop_level [OF this] obtain j c where "walks enter visit leave e ns b c" "walk_loop enter visit leave j [] (leave False e c) = Some z"
    by auto
  moreover from this(2) have "z = leave False e c" by (cases j) auto
  ultimately show ?thesis using en by blast
qed

subsection \<open>Walks that end\<close>

text \<open>
  A walk ends when each name weighs more than what its level holds. \<open>F\<close> are the levels it may enter, \<open>P\<close> the names
  they list, \<open>Q\<close> what holds of the state on the way.
\<close>

locale ending_walk =
  fixes enter :: "'d \<Rightarrow> 'a \<Rightarrow> 'd \<times> 'n list \<times> 'a"
    and visit :: "'d \<Rightarrow> 'n \<Rightarrow> 'a \<Rightarrow> 'd option \<times> 'a"
    and leave :: "bool \<Rightarrow> 'd \<Rightarrow> 'a \<Rightarrow> 'a"
    and F :: "'d \<Rightarrow> bool" and P :: "'d \<Rightarrow> 'n \<Rightarrow> bool" and Q :: "'a \<Rightarrow> bool"
    and w :: "'d \<Rightarrow> 'n \<Rightarrow> nat"
  assumes visit_skips: "F d \<Longrightarrow> P d n \<Longrightarrow> Q a \<Longrightarrow> visit d n a = (None, b) \<Longrightarrow> Q b"
    and visit_descends: "F d \<Longrightarrow> P d n \<Longrightarrow> Q a \<Longrightarrow> visit d n a = (Some e, b) \<Longrightarrow> enter e b = (f, ms, c)
      \<Longrightarrow> F f \<and> Q c \<and> (\<forall>m \<in> set ms. P f m) \<and> sum_list (map (w f) ms) + 3 \<le> w d n"
    and leave_keeps: "F d \<Longrightarrow> Q a \<Longrightarrow> Q (leave owned d a)"
    and weight_pos: "F d \<Longrightarrow> P d n \<Longrightarrow> 0 < w d n"
begin

definition ready :: "'d \<times> 'n list option \<Rightarrow> bool" where
  "ready fr \<longleftrightarrow> F (fst fr) \<and> (\<exists>ns. snd fr = Some ns \<and> (\<forall>n \<in> set ns. P (fst fr) n))"

definition load :: "'d \<times> 'n list option \<Rightarrow> nat" where
  "load fr = Suc (sum_list (map (w (fst fr)) (the (snd fr))))"

lemma loop_ends:
  "list_all ready st \<Longrightarrow> Q a \<Longrightarrow> sum_list (map load st) < k \<Longrightarrow> \<exists>z. walk_loop enter visit leave k st a = Some z \<and> Q z"
proof (induction k arbitrary: st a rule: less_induct)
  case (less k)
  obtain m where k: "k = Suc m" using less.prems(3) by (cases k) auto
  show ?case
  proof (cases st)
    case Nil
    with less.prems k show ?thesis by simp
  next
    case (Cons fr rest)
    obtain d ns where fr: "fr = (d, Some ns)" using less.prems(1) Cons by (cases fr) (auto simp: ready_def)
    have d: "F d" "\<forall>n \<in> set ns. P d n" using less.prems(1) Cons fr by (auto simp: ready_def)
    have rest: "list_all ready rest" using less.prems(1) Cons by simp
    show ?thesis
    proof (cases ns)
      case Nil
      have "\<exists>z. walk_loop enter visit leave m rest (leave (rest \<noteq> []) d a) = Some z \<and> Q z"
        by (rule less.IH) (use k rest leave_keeps [OF d(1) less.prems(2)] less.prems(3) \<open>st = fr # rest\<close> fr Nil in \<open>auto simp: load_def\<close>)
      then show ?thesis using k \<open>st = fr # rest\<close> fr Nil by simp
    next
      case (Cons n more)
      have n: "P d n" using d(2) Cons by simp
      obtain o1 b where v: "visit d n a = (o1, b)" by fastforce
      have more: "ready (d, Some more)" "load fr = load (d, Some more) + w d n" using d Cons fr by (simp_all add: ready_def load_def)
      have load: "load (d, Some more) + w d n + sum_list (map load rest) < k"
        using less.prems(3) \<open>st = fr # rest\<close> more(2) by simp
      show ?thesis
      proof (cases o1)
        case None
        have "\<exists>z. walk_loop enter visit leave m ((d, Some more) # rest) b = Some z \<and> Q z"
          by (rule less.IH) (use k rest more load weight_pos [OF d(1) n] visit_skips [OF d(1) n less.prems(2)] v None in auto)
        then show ?thesis using k \<open>st = fr # rest\<close> fr Cons v None by simp
      next
        case (Some e)
        obtain f ms c where en: "enter e b = (f, ms, c)" by (cases "enter e b")
        note down = visit_descends [OF d(1) n less.prems(2) v [unfolded Some] en]
        have ld: "load (f, Some ms) + 2 \<le> w d n" and rd: "ready (f, Some ms)" using down by (simp_all add: load_def ready_def)
        then obtain i where m: "m = Suc i" using load k by (cases m) auto
        have "\<exists>z. walk_loop enter visit leave i ((f, Some ms) # (d, Some more) # rest) c = Some z \<and> Q z"
          by (rule less.IH) (use k m rest more load ld rd down in simp_all)
        then show ?thesis using k m \<open>st = fr # rest\<close> fr Cons v Some en by simp
      qed
    qed
  qed
qed

lemma walk_ends:
  assumes "enter d a = (e, ns, b)" and "F e" and "\<forall>n \<in> set ns. P e n" and "Q b" and "sum_list (map (w e) ns) + 2 < k"
  shows "\<exists>z. walk_loop enter visit leave k [(d, None)] a = Some z \<and> Q z"
proof -
  obtain m where k: "k = Suc m" using assms(5) by (cases k) auto
  have "\<exists>z. walk_loop enter visit leave m [(e, Some ns)] b = Some z \<and> Q z"
    by (rule loop_ends) (use assms k in \<open>auto simp: ready_def load_def\<close>)
  then show ?thesis using k assms(1) by simp
qed

end

end
