(* ===== verification/Tree_Copy.thy ===== *)
theory Tree_Copy
  imports Tree_Walk Tar_Extract
begin

text \<open>
  Copying of \<open>dirfd.py\<close>: the bytes of a file, hole for hole; one file, one link; a whole tree, by the walk over an
  explicit stack. Any call may fail: \<open>disk\<close> says which, and what the file system answers about holes. Extended
  attributes are not modelled.
\<close>

subsection \<open>The disk\<close>

datatype call =
    CLstat path | CList path | COpenDir path | COpen path | CReadlink path
  | CMkdir path | CSymlink path | CCreate path | CWrite path | CRename path | CChmod path | CUtime path

datatype seek = SeekAt nat | SeekNone | SeekFails

text \<open>
  The call that fails and its error; what of the data of a failing write is there; the blocks of 512 bytes a file
  takes; the answers to \<open>SEEK_DATA\<close> and \<open>SEEK_HOLE\<close> for a file, \<open>SeekNone\<close> for ENXIO.
\<close>

record disk =
  dk_fault :: "call \<Rightarrow> errno option"
  dk_short :: "path \<Rightarrow> nat"
  dk_blocks :: "nat \<Rightarrow> nat"
  dk_data :: "nat \<Rightarrow> nat \<Rightarrow> seek"
  dk_hole :: "nat \<Rightarrow> nat \<Rightarrow> seek"

definition guard :: "disk \<Rightarrow> call \<Rightarrow> errno + 'a \<Rightarrow> errno + 'a" where
  "guard k c r = (case dk_fault k c of Some e \<Rightarrow> Inl e | None \<Rightarrow> r)"

subsection \<open>The contents of a file\<close>

definition BUFSIZE :: nat where
  "BUFSIZE = 256 * 1024"

definition MAX_EXTENTS :: nat where
  "MAX_EXTENTS = 2 ^ 20"

definition NUL :: char where
  "NUL = CHR 0x00"

definition pwrite :: "string \<Rightarrow> string \<Rightarrow> nat \<Rightarrow> string" where
  "pwrite f xs off = take off (f @ replicate (off - length f) NUL) @ xs @ drop (off + length xs) f"

definition ftruncate :: "string \<Rightarrow> nat \<Rightarrow> string" where
  "ftruncate f n = take n (f @ replicate (n - length f) NUL)"

function extents_from :: "(nat \<Rightarrow> seek) \<Rightarrow> (nat \<Rightarrow> seek) \<Rightarrow> nat \<Rightarrow> nat \<Rightarrow> (nat \<times> nat) list \<Rightarrow> (nat \<times> nat) list option" where
  "extents_from seek_data seek_hole len offset exts =
     (if offset < len then
        (case seek_data offset of
           SeekNone \<Rightarrow> Some exts
         | SeekFails \<Rightarrow> None
         | SeekAt start \<Rightarrow>
             (if len \<le> start then Some exts
              else case seek_hole start of
                  SeekAt stop \<Rightarrow>
                    (if stop \<le> start then None
                     else if MAX_EXTENTS < length exts + 1 then None
                     else extents_from seek_data seek_hole len stop (exts @ [(start, min stop len)]))
                | _ \<Rightarrow> None))
      else Some exts)"
  by pat_completeness auto
termination
  by (relation "measure (\<lambda>(d, h, len, offset, exts). MAX_EXTENTS + 1 - length exts)") auto

declare extents_from.simps [simp del]

definition data_extents :: "disk \<Rightarrow> nat \<Rightarrow> nat \<Rightarrow> (nat \<times> nat) list option" where
  "data_extents k i len = extents_from (dk_data k i) (dk_hole k i) len 0 []"

text \<open>\<open>src\<close> is what the source holds, \<open>dst\<close> what was written so far.\<close>

function copy_range :: "string \<Rightarrow> nat \<Rightarrow> nat \<Rightarrow> string \<Rightarrow> string" where
  "copy_range src pos stop dst =
     (if pos < stop then
        (let chunk = take (min BUFSIZE (stop - pos)) (drop pos src) in
         if chunk = [] then dst else copy_range src (pos + length chunk) stop (pwrite dst chunk pos))
      else dst)"
  by pat_completeness auto
termination
  by (relation "measure (\<lambda>(src, pos, stop, dst). stop - pos)") auto

declare copy_range.simps [simp del]

definition copy_extents :: "string \<Rightarrow> (nat \<times> nat) list \<Rightarrow> nat \<Rightarrow> string" where
  "copy_extents src exts len = ftruncate (fold (\<lambda>(start, stop) dst. copy_range src start stop dst) exts []) len"

function skip_zeros :: "string \<Rightarrow> nat \<Rightarrow> string \<Rightarrow> string" where
  "skip_zeros src pos dst =
     (let chunk = take BUFSIZE (drop pos src) in
      if chunk = [] then ftruncate dst pos
      else skip_zeros src (pos + length chunk) (if list_all (\<lambda>c. c = NUL) chunk then dst else pwrite dst chunk pos))"
  by pat_completeness auto
termination
  by (relation "measure (\<lambda>(src, pos, dst). length src - pos)") auto

declare skip_zeros.simps [simp del]

definition copy_skipping_zeros :: "string \<Rightarrow> string" where
  "copy_skipping_zeros src = skip_zeros src 0 []"

definition looks_sparse :: "disk \<Rightarrow> nat \<Rightarrow> nat \<Rightarrow> bool" where
  "looks_sparse k i len \<longleftrightarrow> dk_blocks k i * 512 < len"

definition copy_data :: "disk \<Rightarrow> nat \<Rightarrow> string \<Rightarrow> string" where
  "copy_data k i src =
     (if looks_sparse k i (length src) then
        (case data_extents k i (length src) of
           Some exts \<Rightarrow>
             (if sum_list (map (\<lambda>(start, stop). stop - start) exts) < length src then copy_extents src exts (length src)
              else copy_skipping_zeros src)
         | None \<Rightarrow> copy_skipping_zeros src)
      else src)"

subsection \<open>Metadata\<close>

text \<open>\<open>copy_metadata\<close> onto the open file, and onto the open directory, at \<open>p\<close>; a failure of either step is ignored.\<close>

definition copy_metadata :: "disk \<Rightarrow> path \<Rightarrow> nat \<Rightarrow> int \<Rightarrow> fdata \<Rightarrow> fdata" where
  "copy_metadata k p m t d =
     d\<lparr>fd_mode := (if dk_fault k (CChmod p) = None then S_IMODE m else fd_mode d),
       fd_mtime := (if dk_fault k (CUtime p) = None then t else fd_mtime d)\<rparr>"

definition copy_dir_metadata :: "disk \<Rightarrow> fs \<Rightarrow> path \<Rightarrow> nat \<Rightarrow> int \<Rightarrow> fs" where
  "copy_dir_metadata k s p m t =
     (case node_at s p of
        Some (NDir m0 t0) \<Rightarrow>
          put_node p (NDir (if dk_fault k (CChmod p) = None then S_IMODE m else m0) (if dk_fault k (CUtime p) = None then t else t0)) s
      | _ \<Rightarrow> s)"

definition set_times_at :: "disk \<Rightarrow> fs \<Rightarrow> path \<Rightarrow> string \<Rightarrow> int \<Rightarrow> fs" where
  "set_times_at k s d n t = (case guard k (CUtime (at d n)) (utime_at s d n t) of Inl e \<Rightarrow> s | Inr u \<Rightarrow> u)"

subsection \<open>One file, one link\<close>

definition TMP_SUFFIX :: string where
  "TMP_SUFFIX = ''.~pd_copy''"

text \<open>What is written into the new file \<open>j\<close> at \<open>p\<close>; the error when the write fails.\<close>

definition fill_file :: "disk \<Rightarrow> path \<Rightarrow> nat \<Rightarrow> nat \<Rightarrow> fs \<Rightarrow> errno option \<times> fs" where
  "fill_file k p i j t =
     (let d = f_data t i in
      case dk_fault k (CWrite p) of
        Some e \<Rightarrow> (Some e, write_inode j ((f_data t j)\<lparr>fd_bytes := take (dk_short k p) (fd_bytes d)\<rparr>) t)
      | None \<Rightarrow>
          (None, write_inode j (copy_metadata k p (fd_mode d) (fd_mtime d) ((f_data t j)\<lparr>fd_bytes := copy_data k i (fd_bytes d)\<rparr>)) t))"

definition copy_file_at :: "disk \<Rightarrow> bool \<Rightarrow> fs \<Rightarrow> path \<Rightarrow> string \<Rightarrow> path \<Rightarrow> string \<Rightarrow> errno option \<times> fs" where
  "copy_file_at k replace s sd sn dd dn =
     (case guard k (COpen (at sd sn)) (open_regular_at s sd sn) of
        Inl e \<Rightarrow> (Some e, s)
      | Inr i \<Rightarrow>
          (if replace \<and> (case guard k (CLstat (at dd dn)) (lstat_at s dd dn) of Inl e \<Rightarrow> False | Inr x \<Rightarrow> \<not> is_file_node x)
           then (Some EEXIST, s)
           else let name = (if replace then temp_name dn TMP_SUFFIX else dn);
                    undo = (\<lambda>u. if replace then unlink_quietly u dd name else u) in
             case guard k (CCreate (at dd name)) (open_new_at s dd name (S_IMODE (fd_mode (f_data s i)))) of
               Inl e \<Rightarrow> (Some e, undo s)
             | Inr (j, t) \<Rightarrow>
                 (case fill_file k (at dd name) i j t of
                    (Some e, u) \<Rightarrow> (Some e, undo u)
                  | (None, u) \<Rightarrow>
                      (if \<not> replace then (None, u)
                       else case guard k (CRename (at dd dn)) (replace_entry u dd name dn) of
                           Inl e \<Rightarrow> (Some e, undo u)
                         | Inr v \<Rightarrow> (None, v)))))"

definition copy_symlink_at :: "disk \<Rightarrow> bool \<Rightarrow> fs \<Rightarrow> path \<Rightarrow> string \<Rightarrow> path \<Rightarrow> string \<Rightarrow> int option \<Rightarrow> errno option \<times> fs" where
  "copy_symlink_at k replace s sd sn dd dn st =
     (case guard k (CReadlink (at sd sn)) (readlink_at s sd sn) of
        Inl e \<Rightarrow> (Some e, s)
      | Inr target \<Rightarrow>
          (let link = (\<lambda>u. guard k (CSymlink (at dd dn)) (symlink_at u target dd dn));
               stamp = (\<lambda>u. case st of None \<Rightarrow> u | Some t \<Rightarrow> set_times_at k u dd dn t) in
           case link s of
             Inr u \<Rightarrow> (None, stamp u)
           | Inl e \<Rightarrow>
               (if replace \<and> e = EEXIST then
                  (case unlink_at s dd dn of
                     Inl e' \<Rightarrow> (Some e', s)
                   | Inr t \<Rightarrow> (case link t of Inl e' \<Rightarrow> (Some e', t) | Inr u \<Rightarrow> (None, stamp u)))
                else (Some e, s))))"

subsection \<open>A tree\<close>

definition child_rel :: "string \<Rightarrow> string \<Rightarrow> string" where
  "child_rel rel n = (if rel = [] then n else rel @ ''/'' @ n)"

text \<open>The number of entries that are no directory, for the progress bar.\<close>

definition count_enter :: "disk \<Rightarrow> fs \<Rightarrow> path \<Rightarrow> nat \<Rightarrow> path \<times> string list \<times> nat" where
  "count_enter k s d a = (d, (case guard k (CList d) (Inr (listdir_at s d)) of Inl e \<Rightarrow> [] | Inr ns \<Rightarrow> rev ns), a)"

definition count_visit :: "disk \<Rightarrow> fs \<Rightarrow> path \<Rightarrow> string \<Rightarrow> nat \<Rightarrow> path option \<times> nat" where
  "count_visit k s d n a =
     (case guard k (CLstat (at d n)) (lstat_at s d n) of
        Inl e \<Rightarrow> (None, a + 1)
      | Inr x \<Rightarrow>
          (if \<not> is_dir_node x then (None, a + 1)
           else case guard k (COpenDir (at d n)) (opendir_at s d n) of
               Inl e \<Rightarrow> (None, a + 1)
             | Inr p \<Rightarrow> (Some p, a)))"

definition walk_fuel :: "fs \<Rightarrow> nat" where
  "walk_fuel s = 3 * length (f_ents s) + 3"

definition count_tree_at :: "disk \<Rightarrow> fs \<Rightarrow> path \<Rightarrow> nat option" where
  "count_tree_at k s d = walk_loop (count_enter k s) (count_visit k s) (\<lambda>owned d a. a) (walk_fuel s) [(d, None)] 0"

text \<open>What the callbacks are told: the entries written, those left out, those that failed.\<close>

record copy_log =
  cp_fs :: fs
  cp_done :: "string list"
  cp_skipped :: "string list"
  cp_failed :: "(string \<times> errno) list"

text \<open>A level: the two directories, the path from the root, and the mode and time of the source directory.\<close>

type_synonym copy_level = "path \<times> path \<times> string \<times> (nat \<times> int) option"

definition copy_failed :: "string \<Rightarrow> errno \<Rightarrow> copy_log \<Rightarrow> copy_log" where
  "copy_failed rel e a = a\<lparr>cp_failed := cp_failed a @ [(rel, e)]\<rparr>"

definition copy_enter :: "disk \<Rightarrow> copy_level \<Rightarrow> copy_log \<Rightarrow> copy_level \<times> string list \<times> copy_log" where
  "copy_enter k l a =
     (case l of (sd, dd, rel, st) \<Rightarrow>
       (case guard k (CList sd) (Inr (listdir_at (cp_fs a) sd)) of
          Inl e \<Rightarrow> (l, [], copy_failed rel e a)
        | Inr ns \<Rightarrow> (l, ns, a)))"

definition copy_leave :: "disk \<Rightarrow> bool \<Rightarrow> copy_level \<Rightarrow> copy_log \<Rightarrow> copy_log" where
  "copy_leave k owned l a =
     (case l of (sd, dd, rel, st) \<Rightarrow>
       (case st of
          None \<Rightarrow> a
        | Some (m, t) \<Rightarrow> if owned then a\<lparr>cp_fs := copy_dir_metadata k (cp_fs a) dd m t\<rparr> else a))"

definition copy_entry_result :: "string \<Rightarrow> copy_log \<Rightarrow> errno option \<times> fs \<Rightarrow> copy_log" where
  "copy_entry_result rel a r =
     (case r of
        (None, t) \<Rightarrow> a\<lparr>cp_fs := t, cp_done := cp_done a @ [rel]\<rparr>
      | (Some e, t) \<Rightarrow> copy_failed rel e (a\<lparr>cp_fs := t\<rparr>))"

text \<open>A directory: made unless it is there and may be, then both sides opened.\<close>

definition copy_mkdir :: "disk \<Rightarrow> bool \<Rightarrow> fs \<Rightarrow> path \<Rightarrow> string \<Rightarrow> errno + (bool \<times> fs)" where
  "copy_mkdir k merge s dd n =
     (case guard k (CMkdir (at dd n)) (mkdir_at s dd n 448) of
        Inr t \<Rightarrow> Inr (True, t)
      | Inl e \<Rightarrow> if e = EEXIST \<and> merge then Inr (False, s) else Inl e)"

definition copy_visit :: "disk \<Rightarrow> bool \<Rightarrow> copy_level \<Rightarrow> string \<Rightarrow> copy_log \<Rightarrow> copy_level option \<times> copy_log" where
  "copy_visit k merge l n a =
     (case l of (sd, dd, rel, st) \<Rightarrow>
       (let child = child_rel rel n; s = cp_fs a in
        case guard k (CLstat (at sd n)) (lstat_at s sd n) of
          Inl e \<Rightarrow> (None, copy_failed child e a)
        | Inr (NLink g t) \<Rightarrow> (None, copy_entry_result child a (copy_symlink_at k merge s sd n dd n (Some t)))
        | Inr (NFile i) \<Rightarrow> (None, copy_entry_result child a (copy_file_at k merge s sd n dd n))
        | Inr NSpecial \<Rightarrow> (None, a\<lparr>cp_skipped := cp_skipped a @ [child]\<rparr>)
        | Inr (NDir m t) \<Rightarrow>
            (case copy_mkdir k merge s dd n of
               Inl e \<Rightarrow> (None, copy_failed child e a)
             | Inr (fresh, u) \<Rightarrow>
                 (let b = a\<lparr>cp_fs := u\<rparr> in
                  case guard k (COpenDir (at sd n)) (opendir_at u sd n) of
                    Inl e \<Rightarrow> (None, copy_failed child e b)
                  | Inr sub_src \<Rightarrow>
                      (case guard k (COpenDir (at dd n)) (opendir_at u dd n) of
                         Inl e \<Rightarrow> (None, copy_failed child e b)
                       | Inr sub_dst \<Rightarrow>
                           (Some (sub_src, sub_dst, child, Some (m, t)),
                            if fresh then b else b\<lparr>cp_fs := make_writable u sub_dst\<rparr>))))))"

definition copy_tree_at :: "disk \<Rightarrow> bool \<Rightarrow> fs \<Rightarrow> path \<Rightarrow> path \<Rightarrow> string \<Rightarrow> copy_log option" where
  "copy_tree_at k merge s src dst rel =
     walk_loop (copy_enter k) (copy_visit k merge) (copy_leave k) (walk_fuel s) [((src, dst, rel, None), None)]
       \<lparr>cp_fs = s, cp_done = [], cp_skipped = [], cp_failed = []\<rparr>"

end
