(* ===== verification/Copy_Holes.thy ===== *)
theory Copy_Holes
  imports Tree_Copy
begin

text \<open>
  The bytes of a file are copied exactly, whatever its holes, and however the file system reports them.
\<close>

subsection \<open>Holes\<close>

definition view :: "string \<Rightarrow> nat \<Rightarrow> char" where
  "view f i = (if i < length f then f ! i else NUL)"

lemma view_pwrite: "view (pwrite f xs off) i = (if off \<le> i \<and> i < off + length xs then xs ! (i - off) else view f i)"
  by (auto simp: view_def pwrite_def nth_append min_def)

lemma ftruncate_view: "ftruncate f n = map (view f) [0..<n]"
  by (rule nth_equalityI) (auto simp: ftruncate_def view_def nth_append)

lemma map_view: "map (view f) [0..<length f] = f"
  by (rule nth_equalityI) (auto simp: view_def)

lemma skip_zeros_exact:
  "(\<And>i. view dst i = (if i < pos then view src i else NUL)) \<Longrightarrow> pos \<le> length src \<Longrightarrow> skip_zeros src pos dst = src"
proof (induction src pos dst rule: skip_zeros.induct)
  case (1 src pos dst)
  let ?c = "take BUFSIZE (drop pos src)"
  show ?case
  proof (cases "?c = []")
    case True
    then have "pos = length src" using "1.prems"(2) by (simp add: BUFSIZE_def)
    moreover have "skip_zeros src pos dst = ftruncate dst pos" using True by (subst skip_zeros.simps) (simp add: Let_def)
    ultimately have "skip_zeros src pos dst = map (view dst) [0..<length src]" by (simp add: ftruncate_view)
    also have "\<dots> = map (view src) [0..<length src]" using "1.prems"(1) \<open>pos = length src\<close> by simp
    finally show ?thesis by (simp add: map_view)
  next
    case False
    let ?z = "list_all (\<lambda>c. c = NUL) ?c"
    let ?d = "if ?z then dst else pwrite dst ?c pos"
    have e: "skip_zeros src pos dst = skip_zeros src (pos + length ?c) ?d"
      using False by (subst skip_zeros.simps) (simp add: Let_def)
    have len: "pos + length ?c \<le> length src" using "1.prems"(2) by simp
    have nth: "?c ! (i - pos) = src ! i" if "pos \<le> i" "i < pos + length ?c" for i using that "1.prems"(2) by simp
    have "view ?d i = (if i < pos + length ?c then view src i else NUL)" for i
    proof (cases "pos \<le> i \<and> i < pos + length ?c")
      case True
      then have "view src i = ?c ! (i - pos)" using nth [of i] len by (simp add: view_def)
      moreover have "i - pos < length ?c" using True by auto
      then have "?z \<Longrightarrow> ?c ! (i - pos) = NUL" unfolding list_all_length by blast
      moreover have "view dst i = NUL" using "1.prems"(1) True by simp
      ultimately show ?thesis using True by (auto simp: view_pwrite)
    next
      case outside: False
      then show ?thesis using "1.prems"(1) [of i] by (auto simp: view_pwrite)
    qed
    then show ?thesis unfolding e using "1.IH" [OF refl False _ len] by blast
  qed
qed

lemma copy_range_view:
  "stop \<le> length src \<Longrightarrow> view (copy_range src pos stop dst) i = (if pos \<le> i \<and> i < stop then view src i else view dst i)"
proof (induction src pos stop dst rule: copy_range.induct)
  case (1 src pos stop dst)
  show ?case
  proof (cases "pos < stop")
    case False
    then show ?thesis by (subst copy_range.simps) auto
  next
    case True
    let ?c = "take (min BUFSIZE (stop - pos)) (drop pos src)"
    have len: "0 < length ?c" "pos + length ?c \<le> stop" "length ?c \<le> length src - pos" using True "1.prems" by (auto simp: BUFSIZE_def)
    then have ne: "?c \<noteq> []" by auto
    have e: "copy_range src pos stop dst = copy_range src (pos + length ?c) stop (pwrite dst ?c pos)"
      by (subst copy_range.simps) (simp only: True ne Let_def if_True if_False)
    have "view (pwrite dst ?c pos) i = (if pos \<le> i \<and> i < pos + length ?c then view src i else view dst i)"
    proof (cases "pos \<le> i \<and> i < pos + length ?c")
      case inside: True
      then have "i - pos < length ?c" "i < length src" "pos \<le> length src" using len "1.prems" by linarith+
      then have "?c ! (i - pos) = src ! (pos + (i - pos))" by (simp add: nth_take)
      moreover have "view src i = src ! i" using \<open>i < length src\<close> by (simp add: view_def)
      ultimately show ?thesis using inside by (simp add: view_pwrite)
    next
      case False
      then show ?thesis by (simp only: view_pwrite if_False)
    qed
    then show ?thesis unfolding e using "1.IH" [OF True refl ne "1.prems"] len(2) by auto
  qed
qed

text \<open>What the file system says of the holes of a file is true.\<close>

definition honest_holes :: "disk \<Rightarrow> nat \<Rightarrow> string \<Rightarrow> bool" where
  "honest_holes k i src \<longleftrightarrow>
     (\<forall>off j. off \<le> j \<and> j < length src \<and> (case dk_data k i off of SeekAt start \<Rightarrow> j < start | SeekNone \<Rightarrow> True | SeekFails \<Rightarrow> False)
        \<longrightarrow> src ! j = NUL)"

definition covered :: "(nat \<times> nat) list \<Rightarrow> nat \<Rightarrow> bool" where
  "covered exts j \<longleftrightarrow> list_ex (\<lambda>(a, b). a \<le> j \<and> j < b) exts"

lemma extents_cover:
  assumes "extents_from (dk_data k i) h (length src) off exts = Some out" and "honest_holes k i src"
    and "\<And>j. j < off \<Longrightarrow> j < length src \<Longrightarrow> covered exts j \<or> src ! j = NUL" and "\<forall>e \<in> set exts. snd e \<le> length src"
  shows "(\<forall>j < length src. covered out j \<or> src ! j = NUL) \<and> (\<forall>e \<in> set out. snd e \<le> length src)"
  using assms(1,3,4)
proof (induction "dk_data k i" h "length src" off exts rule: extents_from.induct)
  case (1 h off exts)
  have hole: "src ! j = NUL" if "off \<le> j" "j < length src" "case dk_data k i off of SeekAt start \<Rightarrow> j < start | SeekNone \<Rightarrow> True | SeekFails \<Rightarrow> False" for j
    using assms(2) that by (auto simp: honest_holes_def)
  have rest: "covered exts j \<or> src ! j = NUL" if "j < length src" "j < off \<or> (case dk_data k i off of SeekAt start \<Rightarrow> j < start | SeekNone \<Rightarrow> True | SeekFails \<Rightarrow> False)" for j
    using "1.prems"(2) hole that by (cases "j < off") auto
  show ?case
  proof (cases "off < length src")
    case False
    with "1.prems" show ?thesis by (subst (asm) extents_from.simps) auto
  next
    case True
    show ?thesis
    proof (cases "dk_data k i off")
      case SeekNone
      with "1.prems"(1,3) True rest show ?thesis by (subst (asm) extents_from.simps) auto
    next
      case SeekFails
      with "1.prems"(1) True show ?thesis by (subst (asm) extents_from.simps) auto
    next
      case (SeekAt start)
      show ?thesis
      proof (cases "length src \<le> start")
        case out: True
        with "1.prems"(1,3) True SeekAt rest show ?thesis by (subst (asm) extents_from.simps) auto
      next
        case False
        with "1.prems"(1) True SeekAt obtain stop where h: "h start = SeekAt stop" "\<not> stop \<le> start" "\<not> MAX_EXTENTS < length exts + 1"
          and e: "extents_from (dk_data k i) h (length src) stop (exts @ [(start, min stop (length src))]) = Some out"
          by (subst (asm) extents_from.simps) (auto split: seek.splits if_splits)
        have "covered (exts @ [(start, min stop (length src))]) j \<or> src ! j = NUL" if "j < stop" "j < length src" for j
        proof (cases "start \<le> j")
          case False
          then have "covered exts j \<or> src ! j = NUL" using rest [of j] that SeekAt by simp
          then show ?thesis by (auto simp: covered_def)
        qed (use that in \<open>simp add: covered_def\<close>)
        from "1.hyps" [OF True SeekAt False h e this] "1.prems"(3) show ?thesis by simp
      qed
    qed
  qed
qed

lemma fold_ranges_view:
  "(\<forall>e \<in> set exts. snd e \<le> length src) \<Longrightarrow>
     view (fold (\<lambda>(start, stop) dst. copy_range src start stop dst) exts dst) i = (if covered exts i then view src i else view dst i)"
proof (induction exts arbitrary: dst)
  case (Cons e exts)
  then show ?case by (cases e) (auto simp: covered_def copy_range_view)
qed (simp add: covered_def)

text \<open>A sparsely stored file is copied exactly: whichever way the holes are found, and whatever buffer they are found
  in, the copy has the bytes of the source.\<close>

lemma copied_bytes_are_the_source:
  assumes "honest_holes k i src"
  shows "copy_data k i src = src"
proof -
  have zeros: "copy_skipping_zeros src = src"
    unfolding copy_skipping_zeros_def by (rule skip_zeros_exact) (simp_all add: view_def)
  have "copy_extents src exts (length src) = src" if "data_extents k i (length src) = Some exts" for exts
  proof -
    have c: "\<forall>j < length src. covered exts j \<or> src ! j = NUL" "\<forall>e \<in> set exts. snd e \<le> length src"
      using extents_cover [OF that [unfolded data_extents_def] assms] by simp_all
    have "copy_extents src exts (length src) = map (\<lambda>j. if covered exts j then view src j else NUL) [0..<length src]"
      unfolding copy_extents_def ftruncate_view using fold_ranges_view [OF c(2), of "[]"] by (simp add: view_def cong: if_cong)
    also have "\<dots> = map (view src) [0..<length src]" using c(1) by (auto simp: view_def)
    finally show ?thesis by (simp add: map_view)
  qed
  with zeros show ?thesis by (auto simp: copy_data_def split: option.splits)
qed

end
