(* ===== verification/Copy_Steps.thy ===== *)
theory Copy_Steps
  imports Copy_Holes
begin

text \<open>
  What one step of a transfer may do: \<open>own_step B s t\<close> changes entries of \<open>B\<close> only and touches no inode there was,
  neither its bytes nor its mode nor its time.
\<close>

definition own_step :: "(path \<Rightarrow> bool) \<Rightarrow> fs \<Rightarrow> fs \<Rightarrow> bool" where
  "own_step B s t \<longleftrightarrow> (wf_fs s \<longrightarrow> wf_fs t) \<and> f_next s \<le> f_next t \<and> f_stuck t = f_stuck s
     \<and> (\<forall>j < f_next s. f_data t j = f_data s j) \<and> (\<forall>q. \<not> B q \<longrightarrow> node_at t q = node_at s q)"

lemma own_refl [simp]: "own_step B s s"
  by (simp add: own_step_def)

lemma own_trans: "own_step B s t \<Longrightarrow> own_step B t u \<Longrightarrow> own_step B s u"
  by (auto simp: own_step_def)

lemma own_mono: "own_step B s t \<Longrightarrow> (\<And>q. B q \<Longrightarrow> C q) \<Longrightarrow> own_step C s t"
  unfolding own_step_def by blast

lemma own_stepD:
  assumes "own_step B s t"
  shows "wf_fs s \<Longrightarrow> wf_fs t" and "f_next s \<le> f_next t" and "j < f_next s \<Longrightarrow> f_data t j = f_data s j"
    and "\<not> B q \<Longrightarrow> node_at t q = node_at s q"
  using assms by (simp_all add: own_step_def)

lemma own_dir: "own_step B s t \<Longrightarrow> \<not> B q \<Longrightarrow> is_dir t q = is_dir s q"
  by (simp add: own_step_def is_dir_def)

lemma own_put: "B p \<Longrightarrow> (wf_fs s \<Longrightarrow> wf_fs (put_node p n s)) \<Longrightarrow> own_step B s (put_node p n s)"
  by (auto simp: own_step_def)

lemma own_drop: "B p \<Longrightarrow> (wf_fs s \<Longrightarrow> wf_fs (drop_node p s)) \<Longrightarrow> own_step B s (drop_node p s)"
  by (auto simp: own_step_def)

lemma own_write: "own_step B s t \<Longrightarrow> f_next s \<le> j \<Longrightarrow> own_step B s (write_inode j d t)"
  by (simp add: own_step_def)

named_theorems own_steps

lemma own_mkdir [own_steps]:
  assumes "mkdir_at s d n m = Inr t" and "B (d @ [n])"
  shows "own_step B s t" and "plain_name n" and "is_dir t (d @ [n])" and "\<And>q. q \<noteq> d @ [n] \<Longrightarrow> node_at t q = node_at s q"
  using assms safe_wf [OF safe_mkdir [OF assms(1) prefix_order.refl]]
  by (auto simp: mkdir_at_def at_plain split: if_splits intro!: own_put)

lemma own_symlink [own_steps]:
  assumes "symlink_at s g d n = Inr t" and "B (d @ [n])"
  shows "own_step B s t" and "plain_name n" and "node_at t (d @ [n]) = Some (NLink g (f_now s))"
  using assms safe_wf [OF safe_symlink [OF assms(1) prefix_order.refl]]
  by (auto simp: symlink_at_def at_plain split: if_splits intro!: own_put)

lemma own_unlink [own_steps]:
  assumes "unlink_at s d n = Inr t" and "plain_name n" and "B (d @ [n])"
  shows "own_step B s t"
proof -
  have t: "t = drop_node (d @ [n]) s" using assms(1,2) by (auto simp: unlink_at_def at_plain split: option.splits node.splits if_splits)
  show ?thesis unfolding t
    by (rule own_drop) (use assms(3) safe_wf [OF safe_unlink [OF assms(1,2) prefix_order.refl]] t in auto)
qed

lemma own_unlink_quietly [own_steps]: "plain_name n \<Longrightarrow> B (d @ [n]) \<Longrightarrow> own_step B s (unlink_quietly s d n)"
  by (auto simp: unlink_quietly_def split: sum.splits intro: own_unlink)

lemma own_create:
  assumes "create_excl s d n m = Inr (j, t)" and "B (d @ [n])"
  shows "own_step B s t" and "j = f_next s" and "node_at t (d @ [n]) = Some (NFile j)" and "plain_name n" and "f_next t = Suc j"
    and "\<And>q. q \<noteq> d @ [n] \<Longrightarrow> node_at t q = node_at s q"
  using assms safe_wf [OF safe_create(1) [OF assms(1) prefix_order.refl]]
  by (auto simp: create_excl_def at_plain own_step_def split: if_splits)

lemma own_open_new [own_steps]:
  assumes "open_new_at s d n m = Inr (j, t)" and "plain_name n" and "B (d @ [n])"
  shows "own_step B s t" and "f_next s \<le> j" and "node_at t (d @ [n]) = Some (NFile j)" and "j < f_next t"
    and "\<And>q. q \<noteq> d @ [n] \<Longrightarrow> node_at t q = node_at s q"
proof -
  consider (fresh) "create_excl s d n m = Inr (j, t)"
    | (again) u where "unlink_at s d n = Inr u" "create_excl u d n m = Inr (j, t)"
    using assms(1) by (auto simp: open_new_at_def split: sum.splits if_splits)
  then have "own_step B s t \<and> f_next s \<le> j \<and> node_at t (d @ [n]) = Some (NFile j) \<and> j < f_next t
      \<and> (\<forall>q. q \<noteq> d @ [n] \<longrightarrow> node_at t q = node_at s q)"
  proof cases
    case fresh
    note c = own_create [where B = "\<lambda>q. q = d @ [n]", OF fresh, simplified] own_create(1) [where B = B, OF fresh assms(3)]
    then show ?thesis by auto
  next
    case again
    note u = own_unlink [where B = "\<lambda>q. q = d @ [n]", OF again(1) assms(2), simplified] own_unlink [where B = B, OF again(1) assms(2,3)]
    note c = own_create [where B = "\<lambda>q. q = d @ [n]", OF again(2), simplified] own_create(1) [where B = B, OF again(2) assms(3)]
    from u(1) c(2,5) have "f_next s \<le> j" by (simp add: own_step_def)
    moreover have "node_at t q = node_at s q" if "q \<noteq> d @ [n]" for q using own_stepD(4) [OF u(1)] c(6) that by simp
    ultimately show ?thesis using own_trans [OF u(2) c(7)] c(3,5) by auto
  qed
  then show "own_step B s t" "f_next s \<le> j" "node_at t (d @ [n]) = Some (NFile j)" "j < f_next t"
    "\<And>q. q \<noteq> d @ [n] \<Longrightarrow> node_at t q = node_at s q" by auto
qed

lemma own_replace [own_steps]:
  assumes "replace_entry s d old new = Inr t" and "plain_name old" "plain_name new" and "B (d @ [old])" and "B (d @ [new])"
    and "node_at s (d @ [old]) = Some (NFile j)"
  shows "own_step B s t" and "node_at t (d @ [new]) = Some (NFile j)"
proof -
  have nd: "\<not> is_dir s (d @ [old])" using assms(6) by (simp add: is_dir_def)
  have t: "t = s \<and> node_at s (d @ [new]) = Some (NFile j) \<or> t = put_node (d @ [new]) (NFile j) (drop_node (d @ [old]) s)"
    using assms(1,6) by (auto simp: replace_entry_def split: option.splits node.splits if_splits)
  have "wf_fs s \<Longrightarrow> wf_fs t" by (rule safe_wf [OF safe_replace [OF assms(1-3) prefix_order.refl nd]])
  with t assms(4,5) show "own_step B s t" by (auto simp: own_step_def)
  from t show "node_at t (d @ [new]) = Some (NFile j)" by auto
qed

lemma own_set_times:
  assumes "node_at s (d @ [n]) = Some (NLink g u)" and "plain_name n" and "B (d @ [n])"
  shows "own_step B s (set_times_at k s d n t)"
    and "node_at (set_times_at k s d n t) (d @ [n]) = Some (NLink g (if dk_fault k (CUtime (d @ [n])) = None then t else u))"
proof -
  have e: "set_times_at k s d n t = (if dk_fault k (CUtime (d @ [n])) = None then put_node (d @ [n]) (NLink g t) s else s)"
    using assms(1,2) by (auto simp: set_times_at_def guard_def utime_at_def at_plain split: option.splits)
  have "utime_at s d n t = Inr (put_node (d @ [n]) (NLink g t) s)" using assms(1,2) by (simp add: utime_at_def at_plain)
  note w = safe_wf [OF safe_utime [OF this assms(2) prefix_order.refl]]
  show "own_step B s (set_times_at k s d n t)" unfolding e using own_put [where B = B, OF assms(3) w] by simp
  show "node_at (set_times_at k s d n t) (d @ [n]) = Some (NLink g (if dk_fault k (CUtime (d @ [n])) = None then t else u))"
    unfolding e using assms(1) by simp
qed

lemma own_dir_put: "node_at s p = Some (NDir m u) \<Longrightarrow> B p \<Longrightarrow> own_step B s (put_node p (NDir m' u') s)"
proof (rule own_put)
  assume a: "node_at s p = Some (NDir m u)" "wf_fs s"
  then show "wf_fs (put_node p (NDir m' u') s)"
    using wf_node [of s "butlast p" "last p" "NDir m u"] by (intro wf_put) (cases "p = []", auto)+
qed

lemma own_dir_metadata [own_steps]: "B p \<Longrightarrow> own_step B s (copy_dir_metadata k s p m t)"
  by (auto simp: copy_dir_metadata_def split: option.splits node.splits intro: own_dir_put)

lemma own_make_writable [own_steps]:
  "B p \<Longrightarrow> own_step B s (make_writable s p)" "is_dir s p \<Longrightarrow> is_dir (make_writable s p) p"
  by (auto simp: make_writable_def chmod_dir_fd_def is_dir_def split: option.splits node.splits intro: own_dir_put)

lemma dir_metadata_node:
  "is_dir s p \<Longrightarrow> dk_fault k (CChmod p) = None \<Longrightarrow> dk_fault k (CUtime p) = None \<Longrightarrow>
     node_at (copy_dir_metadata k s p m t) p = Some (NDir (S_IMODE m) t)"
  by (auto simp: copy_dir_metadata_def is_dir_def split: option.splits node.splits)

lemma guard_Inr: "guard k c r = Inr x \<longleftrightarrow> dk_fault k c = None \<and> r = Inr x"
  by (auto simp: guard_def split: option.splits)

subsection \<open>One entry\<close>

lemma tmp_plain: "plain_name n \<Longrightarrow> plain_name (temp_name n TMP_SUFFIX)"
  by (rule temp_name_plain) (auto simp: TMP_SUFFIX_def plain_name_def)

lemma fill_file_step:
  assumes "fill_file k p i j t = (res, u)" and "own_step B s t" and "f_next s \<le> j"
  shows "own_step B s u" and "\<And>q. node_at u q = node_at t q" and "f_next u = f_next t"
    and "res = None \<Longrightarrow> f_data u j = copy_metadata k p (fd_mode (f_data t i)) (fd_mtime (f_data t i))
           ((f_data t j)\<lparr>fd_bytes := copy_data k i (fd_bytes (f_data t i))\<rparr>)"
  using assms by (auto simp: fill_file_def Let_def split: option.splits intro: own_write)

text \<open>The places a copy of one entry may change.\<close>

definition entry_place :: "bool \<Rightarrow> path \<Rightarrow> string \<Rightarrow> path \<Rightarrow> bool" where
  "entry_place replace d n q \<longleftrightarrow> prefix (d @ [n]) q \<or> replace \<and> q = d @ [temp_name n TMP_SUFFIX]"

lemma copy_file_step:
  assumes "copy_file_at k replace s sd sn dd dn = (res, t)" and "wf_fs s" and "plain_name sn" and "plain_name dn"
  shows "own_step (entry_place replace dd dn) s t"
    and "res = None \<Longrightarrow> \<exists>i j. node_at s (sd @ [sn]) = Some (NFile i) \<and> node_at t (dd @ [dn]) = Some (NFile j) \<and> f_next s \<le> j
           \<and> (\<exists>p d. f_data t j = copy_metadata k p (fd_mode (f_data s i)) (fd_mtime (f_data s i)) (d\<lparr>fd_bytes := copy_data k i (fd_bytes (f_data s i))\<rparr>))"
proof -
  let ?B = "entry_place replace dd dn" and ?name = "if replace then temp_name dn TMP_SUFFIX else dn"
  have pn: "plain_name ?name" using tmp_plain [OF assms(4)] assms(4) by simp
  have places: "?B (dd @ [dn])" "?B (dd @ [?name])" by (simp_all add: entry_place_def)
  have quiet: "own_step ?B u (unlink_quietly u dd ?name)" for u by (rule own_unlink_quietly [where B = ?B, OF pn places(2)])
  have "own_step ?B s t \<and> (res = None \<longrightarrow> (\<exists>i j. node_at s (sd @ [sn]) = Some (NFile i) \<and> node_at t (dd @ [dn]) = Some (NFile j) \<and> f_next s \<le> j
           \<and> (\<exists>p d. f_data t j = copy_metadata k p (fd_mode (f_data s i)) (fd_mtime (f_data s i)) (d\<lparr>fd_bytes := copy_data k i (fd_bytes (f_data s i))\<rparr>))))"
  proof (cases "guard k (COpen (at sd sn)) (open_regular_at s sd sn)")
    case (Inl e)
    with assms(1) show ?thesis by (auto simp: copy_file_at_def)
  next
    case (Inr i)
    then have i: "node_at s (sd @ [sn]) = Some (NFile i)"
      using assms(3) by (auto simp: guard_Inr open_regular_at_def at_plain split: option.splits node.splits)
    have ilt: "i < f_next s" by (rule wf_node(3) [OF assms(2) i refl])
    let ?refused = "replace \<and> (case guard k (CLstat (at dd dn)) (lstat_at s dd dn) of Inl e \<Rightarrow> False | Inr x \<Rightarrow> \<not> is_file_node x)"
    let ?new = "guard k (CCreate (at dd ?name)) (open_new_at s dd ?name (S_IMODE (fd_mode (f_data s i))))"
    show ?thesis
    proof (cases ?refused)
      case True
      with assms(1) Inr show ?thesis by (auto simp: copy_file_at_def)
    next
      case go: False
      show ?thesis
      proof (cases ?new)
        case (Inl e)
        then have "res = Some e" "t = (if replace then unlink_quietly s dd ?name else s)"
          using assms(1) Inr go by (auto simp: copy_file_at_def Let_def)
        with quiet [of s] show ?thesis by (cases replace) simp_all
      next
        case (Inr jt)
        then obtain j t1 where jt: "?new = Inr (j, t1)" by (cases jt) auto
        then have o1: "open_new_at s dd ?name (S_IMODE (fd_mode (f_data s i))) = Inr (j, t1)" by (simp add: guard_Inr)
        note new = own_open_new [where B = ?B, OF o1 pn places(2)]
        obtain r u where fl: "fill_file k (at dd ?name) i j t1 = (r, u)" by fastforce
        note fill = fill_file_step [OF fl new(1,2)]
        have di: "f_data t1 i = f_data s i" by (rule own_stepD(3) [OF new(1) ilt])
        have un: "node_at u (dd @ [?name]) = Some (NFile j)" using fill(2) new(3) by simp
        show ?thesis
        proof (cases r)
          case (Some e)
          then have "res = Some e" "t = (if replace then unlink_quietly u dd ?name else u)"
            using assms(1) \<open>guard k (COpen (at sd sn)) _ = Inr i\<close> go jt fl by (auto simp: copy_file_at_def Let_def)
          with own_trans [OF fill(1) quiet [of u]] fill(1) show ?thesis by (cases replace) simp_all
        next
          case None
          have data: "\<exists>p d. f_data u j = copy_metadata k p (fd_mode (f_data s i)) (fd_mtime (f_data s i)) (d\<lparr>fd_bytes := copy_data k i (fd_bytes (f_data s i))\<rparr>)"
            using fill(4) [OF None] di by metis
          show ?thesis
          proof (cases replace)
            case False
            then have "res = None" "t = u" using assms(1) \<open>guard k (COpen (at sd sn)) _ = Inr i\<close> go jt fl None by (auto simp: copy_file_at_def Let_def)
            with False fill(1) un i new(2) data show ?thesis by auto
          next
            case True
            show ?thesis
            proof (cases "guard k (CRename (at dd dn)) (replace_entry u dd ?name dn)")
              case (Inl e)
              then have "res = Some e" "t = unlink_quietly u dd ?name"
                using assms(1) \<open>guard k (COpen (at sd sn)) _ = Inr i\<close> go jt fl None True by (auto simp: copy_file_at_def Let_def)
              with own_trans [OF fill(1) quiet [of u]] show ?thesis by (cases replace) simp_all
            next
              case (Inr v)
              then have rp: "replace_entry u dd ?name dn = Inr v" by (simp add: guard_Inr)
              have res: "res = None" "t = v"
                using assms(1) \<open>guard k (COpen (at sd sn)) _ = Inr i\<close> go jt fl None True Inr by (auto simp: copy_file_at_def Let_def)
              note rep = own_replace [where B = ?B, OF rp pn assms(4) places(2,1) un]
              have "f_data v = f_data u" using rp by (auto simp: replace_entry_def split: option.splits node.splits if_splits)
              with own_trans [OF fill(1) rep(1)] rep(2) res i new(2) data show ?thesis by auto
            qed
          qed
        qed
      qed
    qed
  qed
  then show "own_step ?B s t"
    and "res = None \<Longrightarrow> \<exists>i j. node_at s (sd @ [sn]) = Some (NFile i) \<and> node_at t (dd @ [dn]) = Some (NFile j) \<and> f_next s \<le> j
           \<and> (\<exists>p d. f_data t j = copy_metadata k p (fd_mode (f_data s i)) (fd_mtime (f_data s i)) (d\<lparr>fd_bytes := copy_data k i (fd_bytes (f_data s i))\<rparr>))"
    by blast+
qed

lemma copy_symlink_step:
  assumes "copy_symlink_at k replace s sd sn dd dn (Some tm) = (res, t)" and "node_at s (sd @ [sn]) = Some (NLink g u)"
    and "plain_name sn" and "plain_name dn"
  shows "own_step (entry_place replace dd dn) s t"
    and "res = None \<Longrightarrow> \<exists>v. node_at t (dd @ [dn]) = Some (NLink g v) \<and> (dk_fault k (CUtime (dd @ [dn])) = None \<longrightarrow> v = tm)"
proof -
  let ?B = "entry_place replace dd dn"
  have place: "?B (dd @ [dn])" by (simp add: entry_place_def)
  have made: "own_step ?B x (set_times_at k y dd dn tm) \<and> (\<exists>v. node_at (set_times_at k y dd dn tm) (dd @ [dn]) = Some (NLink g v)
      \<and> (dk_fault k (CUtime (dd @ [dn])) = None \<longrightarrow> v = tm))" if "symlink_at x g dd dn = Inr y" for x y
  proof -
    note l = own_symlink [where B = ?B, OF that place]
    note st = own_set_times [where B = ?B, OF l(3,2) place]
    from own_trans [OF l(1) st(1)] st(2) show ?thesis by auto
  qed
  have un: "own_step ?B s v" if "unlink_at s dd dn = Inr v" for v by (rule own_unlink [where B = ?B, OF that assms(4) place])
  show "own_step ?B s t"
    using assms(1) made un own_trans [OF un] assms(2,3)
    by (auto simp: copy_symlink_at_def guard_Inr readlink_at_def at_plain Let_def split: sum.splits if_splits)
  assume "res = None"
  then show "\<exists>v. node_at t (dd @ [dn]) = Some (NLink g v) \<and> (dk_fault k (CUtime (dd @ [dn])) = None \<longrightarrow> v = tm)"
    using assms(1) made assms(2,3)
    by (auto simp: copy_symlink_at_def guard_Inr readlink_at_def at_plain Let_def split: sum.splits if_splits)
qed

lemma copy_mkdir_step:
  assumes "copy_mkdir k merge s dd n = Inr (fresh, t)" and "plain_name n"
  shows "own_step (entry_place merge dd n) s t" and "\<not> fresh \<Longrightarrow> t = s"
  using assms own_mkdir(1) [of s dd n 448 t "entry_place merge dd n"]
  by (auto simp: copy_mkdir_def guard_Inr entry_place_def split: sum.splits if_splits)

subsection \<open>One visit\<close>

text \<open>What a copied entry is: the same type, a link with the same target, a file of its own with the same bytes.\<close>

fun entry_copied :: "fs \<Rightarrow> fs \<Rightarrow> node \<Rightarrow> node \<Rightarrow> bool" where
  "entry_copied s t (NDir m u) y \<longleftrightarrow> y = NDir (S_IMODE m) u"
| "entry_copied s t (NLink g u) y \<longleftrightarrow> y = NLink g u"
| "entry_copied s t (NFile i) y \<longleftrightarrow> (\<exists>j. y = NFile j \<and> f_next s \<le> j \<and> fd_bytes (f_data t j) = fd_bytes (f_data s i)
     \<and> fd_mode (f_data t j) = S_IMODE (fd_mode (f_data s i)) \<and> fd_mtime (f_data t j) = fd_mtime (f_data s i))"
| "entry_copied s t NSpecial y \<longleftrightarrow> False"

text \<open>The disk says the truth about holes and takes modes and times.\<close>

definition takes_metadata :: "disk \<Rightarrow> bool" where
  "takes_metadata k \<longleftrightarrow> (\<forall>p. dk_fault k (CChmod p) = None \<and> dk_fault k (CUtime p) = None)"

definition kind_disk :: "disk \<Rightarrow> fs \<Rightarrow> bool" where
  "kind_disk k s \<longleftrightarrow> takes_metadata k \<and> (\<forall>i < f_next s. honest_holes k i (fd_bytes (f_data s i)))"

definition no_trouble :: "copy_log \<Rightarrow> copy_log \<Rightarrow> bool" where
  "no_trouble a b \<longleftrightarrow> cp_failed b = cp_failed a \<and> cp_skipped b = cp_skipped a"

definition more_trouble :: "copy_log \<Rightarrow> copy_log \<Rightarrow> bool" where
  "more_trouble a b \<longleftrightarrow> prefix (cp_failed a) (cp_failed b) \<and> prefix (cp_skipped a) (cp_skipped b)"

lemma more_trans: "more_trouble a b \<Longrightarrow> more_trouble b c \<Longrightarrow> more_trouble a c"
  by (auto simp: more_trouble_def intro: prefix_order.trans [of "cp_failed a" "cp_failed b"] prefix_order.trans [of "cp_skipped a" "cp_skipped b"])

lemma prefix_chain:
  assumes "prefix a b" and "prefix b c"
  shows "c = a \<longleftrightarrow> b = a \<and> c = b"
proof
  assume "c = a"
  with assms(2) have "prefix b a" by simp
  with assms(1) have "a = b" by (rule prefix_order.antisym)
  with \<open>c = a\<close> show "b = a \<and> c = b" by simp
qed simp

lemma no_trouble_split: "more_trouble a b \<Longrightarrow> more_trouble b c \<Longrightarrow> no_trouble a c \<longleftrightarrow> no_trouble a b \<and> no_trouble b c"
  using prefix_chain [of "cp_failed a" "cp_failed b" "cp_failed c"] prefix_chain [of "cp_skipped a" "cp_skipped b" "cp_skipped c"]
  by (auto simp: more_trouble_def no_trouble_def)

lemma more_refl [simp]: "more_trouble a a"
  by (simp add: more_trouble_def)

lemma more_result [simp]:
  "more_trouble a (copy_failed rel e b) \<longleftrightarrow> prefix (cp_failed a) (cp_failed b @ [(rel, e)]) \<and> prefix (cp_skipped a) (cp_skipped b)"
  "\<not> no_trouble a (copy_failed rel e (a\<lparr>cp_fs := s\<rparr>))" "\<not> no_trouble a (copy_failed rel e a)"
  by (simp_all add: more_trouble_def no_trouble_def copy_failed_def)

lemma log_fs [simp]: "cp_fs (copy_failed rel e a) = cp_fs a"
  by (simp add: copy_failed_def)

lemma entry_result:
  assumes "b = copy_entry_result rel a r"
  shows "cp_fs b = snd r" and "more_trouble a b" and "no_trouble a b \<longleftrightarrow> fst r = None"
  using assms by (auto simp: copy_entry_result_def no_trouble_def more_trouble_def copy_failed_def split: prod.splits option.splits)

text \<open>A visit that descends made both sides of the new level, one that does not copied the entry or says so.\<close>

lemma copy_visit_step:
  assumes "copy_visit k merge (sd, dd, rel, st) n a = (o1, b)" and "wf_fs (cp_fs a)" and "plain_name n"
  shows "own_step (entry_place merge dd n) (cp_fs a) (cp_fs b)" and "more_trouble a b"
    and "o1 = Some l \<Longrightarrow> no_trouble a b \<and> (\<exists>m u. l = (sd @ [n], dd @ [n], child_rel rel n, Some (m, u))
          \<and> node_at (cp_fs a) (sd @ [n]) = Some (NDir m u) \<and> is_dir (cp_fs b) (dd @ [n]))"
    and "o1 = None \<Longrightarrow> no_trouble a b \<Longrightarrow> takes_metadata k \<Longrightarrow>
          (\<And>i. node_at (cp_fs a) (sd @ [n]) = Some (NFile i) \<Longrightarrow> honest_holes k i (fd_bytes (f_data (cp_fs a) i))) \<Longrightarrow>
          \<exists>x y. node_at (cp_fs a) (sd @ [n]) = Some x \<and> \<not> is_dir_node x \<and> node_at (cp_fs b) (dd @ [n]) = Some y
            \<and> entry_copied (cp_fs a) (cp_fs b) x y"
proof -
  let ?B = "entry_place merge dd n" and ?s = "cp_fs a" and ?child = "child_rel rel n"
  let ?down = "\<lambda>l. no_trouble a b \<and> (\<exists>m u. l = (sd @ [n], dd @ [n], ?child, Some (m, u))
          \<and> node_at ?s (sd @ [n]) = Some (NDir m u) \<and> is_dir (cp_fs b) (dd @ [n]))"
  let ?done = "\<exists>x y. node_at ?s (sd @ [n]) = Some x \<and> \<not> is_dir_node x \<and> node_at (cp_fs b) (dd @ [n]) = Some y
            \<and> entry_copied ?s (cp_fs b) x y"
  let ?kind = "takes_metadata k \<and> (\<forall>i. node_at ?s (sd @ [n]) = Some (NFile i) \<longrightarrow> honest_holes k i (fd_bytes (f_data ?s i)))"
  have "own_step ?B ?s (cp_fs b) \<and> more_trouble a b \<and> (\<forall>l. o1 = Some l \<longrightarrow> ?down l) \<and> (o1 = None \<and> no_trouble a b \<and> ?kind \<longrightarrow> ?done)"
  proof (cases "guard k (CLstat (at sd n)) (lstat_at ?s sd n)")
    case (Inl e)
    then have "o1 = None" "b = copy_failed ?child e a" using assms(1) by (simp_all add: copy_visit_def Let_def)
    then show ?thesis by simp
  next
    case (Inr x)
    then have x: "node_at ?s (sd @ [n]) = Some x" using assms(3) by (simp add: guard_Inr lstat_at_def at_plain split: option.splits)
    show ?thesis
    proof (cases x)
      case (NLink g u)
      obtain r t where rt: "copy_symlink_at k merge ?s sd n dd n (Some u) = (r, t)" by fastforce
      have o: "o1 = None" "b = copy_entry_result ?child a (r, t)" using assms(1) Inr NLink rt by (simp_all add: copy_visit_def Let_def)
      note res = entry_result [OF o(2)]
      note st = copy_symlink_step [OF rt x [unfolded NLink] assms(3,3)]
      show ?thesis using o(1) res st x NLink by (auto simp: takes_metadata_def)
    next
      case (NFile i)
      obtain r t where rt: "copy_file_at k merge ?s sd n dd n = (r, t)" by fastforce
      have o: "o1 = None" "b = copy_entry_result ?child a (r, t)" using assms(1) Inr NFile rt by (simp_all add: copy_visit_def Let_def)
      note res = entry_result [OF o(2)]
      note st = copy_file_step [OF rt assms(2,3,3)]
      have ?done if kd: ?kind and ok: "no_trouble a b"
      proof -
        have "r = None" using ok res(3) by simp
        from st(2) [OF this] x NFile obtain j p d where j: "node_at t (dd @ [n]) = Some (NFile j)" "f_next ?s \<le> j"
          "f_data t j = copy_metadata k p (fd_mode (f_data ?s i)) (fd_mtime (f_data ?s i)) (d\<lparr>fd_bytes := copy_data k i (fd_bytes (f_data ?s i))\<rparr>)"
          by auto
        have "copy_data k i (fd_bytes (f_data ?s i)) = fd_bytes (f_data ?s i)"
          by (rule copied_bytes_are_the_source) (use kd x NFile in simp)
        with j kd x NFile res(1) show ?thesis by (simp add: copy_metadata_def takes_metadata_def)
      qed
      with o(1) res st(1) show ?thesis by auto
    next
      case NSpecial
      then have "o1 = None" "b = a\<lparr>cp_skipped := cp_skipped a @ [?child]\<rparr>" using assms(1) Inr by (simp_all add: copy_visit_def Let_def)
      then show ?thesis by (simp add: more_trouble_def no_trouble_def)
    next
      case (NDir m u)
      show ?thesis
      proof (cases "copy_mkdir k merge ?s dd n")
        case (Inl e)
        then have "o1 = None" "b = copy_failed ?child e a" using assms(1) \<open>guard k (CLstat (at sd n)) _ = Inr x\<close> NDir by (simp_all add: copy_visit_def Let_def)
        then show ?thesis by simp
      next
        case (Inr ft)
        obtain fresh t where ft: "ft = (fresh, t)" by (cases ft)
        note mk = copy_mkdir_step [OF Inr [unfolded ft] assms(3)]
        let ?b = "a\<lparr>cp_fs := t\<rparr>"
        note unf = assms(1) \<open>guard k (CLstat (at sd n)) _ = Inr x\<close> NDir Inr ft
        show ?thesis
        proof (cases "guard k (COpenDir (at sd n)) (opendir_at t sd n)")
          case (Inl e)
          then have "o1 = None" "b = copy_failed ?child e ?b" using unf by (simp_all add: copy_visit_def Let_def)
          with mk(1) show ?thesis by simp
        next
          case (Inr sub_src)
          show ?thesis
          proof (cases "guard k (COpenDir (at dd n)) (opendir_at t dd n)")
            case (Inl e)
            then have "o1 = None" "b = copy_failed ?child e ?b" using unf Inr by (simp_all add: copy_visit_def Let_def)
            with mk(1) show ?thesis by simp
          next
            case sub: (Inr sub_dst)
            then have o: "o1 = Some (sub_src, sub_dst, ?child, Some (m, u))" "b = (if fresh then ?b else ?b\<lparr>cp_fs := make_writable t sub_dst\<rparr>)"
              using unf Inr by (simp_all add: copy_visit_def Let_def)
            have p: "sub_src = sd @ [n]" "sub_dst = dd @ [n]" "is_dir t (dd @ [n])"
              using Inr sub assms(3) by (auto simp: guard_Inr opendir_at_def at_plain is_dir_def split: option.splits node.splits)
            have place: "?B (dd @ [n])" by (simp add: entry_place_def)
            have "own_step ?B ?s (make_writable t (dd @ [n]))" by (rule own_trans [OF mk(1) own_make_writable(1) [where B = ?B, OF place]])
            with o p mk(1) x NDir own_make_writable(2) [OF p(3)] show ?thesis by (auto simp: no_trouble_def more_trouble_def)
          qed
        qed
      qed
    qed
  qed
  then show "own_step ?B ?s (cp_fs b)" and "more_trouble a b" and "o1 = Some l \<Longrightarrow> ?down l"
    and "o1 = None \<Longrightarrow> no_trouble a b \<Longrightarrow> takes_metadata k \<Longrightarrow>
      (\<And>i. node_at ?s (sd @ [n]) = Some (NFile i) \<Longrightarrow> honest_holes k i (fd_bytes (f_data ?s i))) \<Longrightarrow> ?done" by blast+
qed

end
