(* ===== verification/Copy_Walk.thy ===== *)
theory Copy_Walk
  imports Copy_Steps
begin

text \<open>
  A tree is copied entry by entry: the walk over the explicit stack ends for a tree of any shape, changes nothing
  outside the destination and no inode there was, and when it reports no trouble the destination holds the source.
\<close>

definition tree_copied :: "fs \<Rightarrow> fs \<Rightarrow> path \<Rightarrow> path \<Rightarrow> bool" where
  "tree_copied s t p q \<longleftrightarrow> (\<forall>w x. node_at s (p @ w) = Some x \<longrightarrow> (\<exists>y. node_at t (q @ w) = Some y \<and> entry_copied s t x y))"

lemma entry_copied_keep:
  assumes "entry_copied s t x y" and "own_step B t u" and "wf_fs t" and "node_at t q = Some y"
  shows "entry_copied s u x y"
proof (cases x)
  case (NFile i)
  then obtain j where j: "y = NFile j" using assms(1) by auto
  have "wf_entry t (q, NFile j)" by (rule wf_fsD(3) [OF assms(3)]) (use assms(4) j in simp)
  then have "j < f_next t" by (simp add: wf_entry_def)
  with assms(1) j NFile own_stepD(3) [OF assms(2)] show ?thesis by simp
qed (use assms(1) in auto)

lemma tree_copied_keep:
  assumes "tree_copied s t p q" and "own_step B t u" and "wf_fs t" and "\<And>w. \<not> B (q @ w)"
  shows "tree_copied s u p q"
  unfolding tree_copied_def
proof (intro allI impI)
  fix w x assume "node_at s (p @ w) = Some x"
  with assms(1) obtain y where y: "node_at t (q @ w) = Some y" "entry_copied s t x y" by (auto simp: tree_copied_def)
  with own_stepD(4) [OF assms(2,4)] entry_copied_keep [OF y(2) assms(2,3) y(1)]
  show "\<exists>y. node_at u (q @ w) = Some y \<and> entry_copied s u x y" by auto
qed

lemma entry_copied_since:
  assumes "entry_copied a t x y" and "own_step B s a" and "\<And>i. x = NFile i \<Longrightarrow> i < f_next s"
  shows "entry_copied s t x y"
  using assms own_stepD(2,3) [OF assms(2)] by (cases x) (auto intro: order_trans)

lemma listdir_same:
  assumes "wf_fs s" and "wf_fs t" and "\<And>n. node_at t (d @ [n]) = node_at s (d @ [n])"
  shows "listdir_at t d = listdir_at s d"
proof (rule sorted_distinct_set_unique)
  show "set (listdir_at t d) = set (listdir_at s d)" using listdir_iff [OF assms(1)] listdir_iff [OF assms(2)] assms(3) by auto
qed (simp_all add: listdir_sorted)

lemma place_below: "prefix dst dd \<Longrightarrow> entry_place merge dd n q \<Longrightarrow> strict_prefix dst q"
  unfolding entry_place_def strict_prefix_def by (auto simp: prefix_def)

lemma place_not_dir: "\<not> entry_place merge dd n dd"
  by (auto simp: entry_place_def prefix_def)

lemma place_of_child: "entry_place merge (dd @ [n]) m q \<Longrightarrow> entry_place merge' dd n q"
  by (auto simp: entry_place_def prefix_def)

text \<open>No name of the source looks like a temporary of the copy.\<close>

definition clean_names :: "bool \<Rightarrow> fs \<Rightarrow> path \<Rightarrow> bool" where
  "clean_names merge s src \<longleftrightarrow> (\<forall>w n. merge \<and> node_at s (src @ w @ [n]) \<noteq> None \<longrightarrow> \<not> ends_with TMP_SUFFIX n)"

lemma clean_name:
  assumes "clean_names merge s src" and "prefix src sd" and "node_at s (sd @ [n]) = Some x" and merge
  shows "\<not> ends_with TMP_SUFFIX n"
proof -
  obtain w where "sd = src @ w" using assms(2) by (auto simp: prefix_def)
  with assms(3) have "node_at s (src @ w @ [n]) \<noteq> None" by simp
  with assms(1,4) show ?thesis unfolding clean_names_def by blast
qed

lemma place_apart:
  assumes "n \<noteq> m" and "merge \<Longrightarrow> \<not> ends_with TMP_SUFFIX n"
  shows "\<not> entry_place merge dd m (dd @ [n] @ w)"
proof -
  have "ends_with TMP_SUFFIX (temp_name m TMP_SUFFIX)" by (simp add: temp_name_def ends_with_def)
  with assms show ?thesis by (auto simp: entry_place_def)
qed

definition unrelated :: "path \<Rightarrow> path \<Rightarrow> bool" where
  "unrelated p q \<longleftrightarrow> \<not> prefix p q \<and> \<not> prefix q p"

lemma apart_source: "unrelated src dst \<Longrightarrow> prefix src q \<Longrightarrow> \<not> prefix dst q"
  unfolding unrelated_def by (metis prefix_same_cases)

abbreviation copy_walks where
  "copy_walks k merge \<equiv> walks (copy_enter k) (copy_visit k merge) (copy_leave k)"

lemma copy_leave_step:
  assumes "copy_leave k True (sd, dd, rel, Some (m, u)) y = z"
  shows "cp_fs z = copy_dir_metadata k (cp_fs y) dd m u" and "no_trouble y z" and "more_trouble y z"
  using assms by (auto simp: copy_leave_def no_trouble_def more_trouble_def)

lemma copy_enter_step:
  assumes "copy_enter k (sd, dd, rel, st) a = (f, ms, c)"
  shows "f = (sd, dd, rel, st)" and "cp_fs c = cp_fs a" and "more_trouble a c"
    and "ms = [] \<or> ms = listdir_at (cp_fs a) sd" and "no_trouble a c \<Longrightarrow> ms = listdir_at (cp_fs a) sd"
  using assms by (auto simp: copy_enter_def guard_def more_trouble_def no_trouble_def copy_failed_def split: option.splits)

lemma copy_walks_copies:
  assumes "copy_walks k merge l ns a z" and "wf_fs s" and "unrelated src dst"
  shows "l = (sd, dd, rel, st) \<Longrightarrow> own_step (strict_prefix dst) s (cp_fs a) \<Longrightarrow> prefix src sd \<Longrightarrow> prefix dst dd \<Longrightarrow>
      set ns \<subseteq> set (listdir_at s sd) \<Longrightarrow> distinct ns \<Longrightarrow> is_dir (cp_fs a) dd \<Longrightarrow>
      own_step (\<lambda>q. \<exists>n \<in> set ns. entry_place merge dd n q) (cp_fs a) (cp_fs z) \<and> more_trouble a z
      \<and> (no_trouble a z \<and> kind_disk k s \<and> clean_names merge s src \<longrightarrow> (\<forall>n \<in> set ns. tree_copied s (cp_fs z) (sd @ [n]) (dd @ [n])))"
  using assms(1)
proof (induction arbitrary: sd dd rel st rule: walks.induct)
  case (walks_nil l a)
  then show ?case by simp
next
  case (walks_skip l n a b ns z)
  note l = walks_skip.prems(1)
  have wa: "wf_fs (cp_fs a)" using own_stepD(1) [OF walks_skip.prems(2) assms(2)] .
  have pn: "plain_name n" using listdir_plain [OF assms(2)] walks_skip.prems(5) by auto
  note v = copy_visit_step [OF walks_skip.hyps(1) [unfolded l] wa pn]
  have sb: "own_step (strict_prefix dst) s (cp_fs b)"
    using own_trans [OF walks_skip.prems(2) own_mono [OF v(1)]] place_below [OF walks_skip.prems(4)] by blast
  have db: "is_dir (cp_fs b) dd" using own_dir [OF v(1) place_not_dir] walks_skip.prems(7) by simp
  note ih = walks_skip.IH [OF l sb walks_skip.prems(3,4) _ _ db]
  have ih1: "own_step (\<lambda>q. \<exists>n \<in> set ns. entry_place merge dd n q) (cp_fs b) (cp_fs z)" "more_trouble b z"
    "no_trouble b z \<and> kind_disk k s \<and> clean_names merge s src \<longrightarrow> (\<forall>n \<in> set ns. tree_copied s (cp_fs z) (sd @ [n]) (dd @ [n]))"
    using ih walks_skip.prems(5,6) by simp_all
  have own: "own_step (\<lambda>q. \<exists>m \<in> set (n # ns). entry_place merge dd m q) (cp_fs a) (cp_fs z)"
    by (rule own_trans [OF own_mono [OF v(1)] own_mono [OF ih1(1)]]) auto
  have same: "node_at (cp_fs a) (sd @ w) = node_at s (sd @ w)" for w
    using own_stepD(4) [OF walks_skip.prems(2)] apart_source [OF assms(3), of "sd @ w"] walks_skip.prems(3) by (auto simp: strict_prefix_def)
  have "tree_copied s (cp_fs z) (sd @ [n]) (dd @ [n])" if ok: "no_trouble a b" and kd: "kind_disk k s" and cl: "clean_names merge s src"
  proof -
    have inode: "i < f_next s" if "node_at s (sd @ [n]) = Some (NFile i)" for i by (rule wf_node(3) [OF assms(2) that refl])
    have "honest_holes k i (fd_bytes (f_data (cp_fs a) i))" if "node_at (cp_fs a) (sd @ [n]) = Some (NFile i)" for i
      using that same [of "[n]"] inode [of i] kd own_stepD(3) [OF walks_skip.prems(2), of i] by (simp add: kind_disk_def)
    then obtain x y where xy: "node_at (cp_fs a) (sd @ [n]) = Some x" "\<not> is_dir_node x" "node_at (cp_fs b) (dd @ [n]) = Some y"
      "entry_copied (cp_fs a) (cp_fs b) x y" using v(4) ok kd by (auto simp: kind_disk_def)
    have x: "node_at s (sd @ [n]) = Some x" using xy(1) same by simp
    have e: "entry_copied s (cp_fs b) x y" by (rule entry_copied_since [OF xy(4) walks_skip.prems(2)]) (use inode x in simp)
    have leaf: "node_at s ((sd @ [n]) @ w) = None" if "w \<noteq> []" for w
    proof (rule ccontr)
      assume "node_at s ((sd @ [n]) @ w) \<noteq> None"
      moreover from \<open>w \<noteq> []\<close> obtain m w' where "w = m # w'" by (cases w) auto
      ultimately have "is_dir s (sd @ [n])" using wf_prefix_dir [OF assms(2)] by auto
      with x xy(2) show False by (simp add: is_dir_def)
    qed
    have "tree_copied s (cp_fs b) (sd @ [n]) (dd @ [n])"
      unfolding tree_copied_def
    proof (intro allI impI)
      fix w x' assume "node_at s ((sd @ [n]) @ w) = Some x'"
      then show "\<exists>y. node_at (cp_fs b) ((dd @ [n]) @ w) = Some y \<and> entry_copied s (cp_fs b) x' y"
        using leaf [of w] x xy(3) e by (cases "w = []") auto
    qed
    moreover have "\<not> (\<exists>m \<in> set ns. entry_place merge dd m ((dd @ [n]) @ w))" for w
    proof -
      have "merge \<Longrightarrow> \<not> ends_with TMP_SUFFIX n" using clean_name [OF cl walks_skip.prems(3) x] by blast
      then have "\<not> entry_place merge dd m ((dd @ [n]) @ w)" if "m \<in> set ns" for m
        using place_apart [of n m merge dd w] walks_skip.prems(6) that by force
      then show ?thesis by blast
    qed
    ultimately show ?thesis using tree_copied_keep [OF _ ih1(1) own_stepD(1) [OF v(1) wa]] by blast
  qed
  then show ?case using own more_trans [OF v(2) ih1(2)] ih1(3) no_trouble_split [OF v(2) ih1(2)] by simp
next
  case (walks_down l n a e b f ms c y ns z)
  note l = walks_down.prems(1)
  have wa: "wf_fs (cp_fs a)" using own_stepD(1) [OF walks_down.prems(2) assms(2)] .
  have pn: "plain_name n" using listdir_plain [OF assms(2)] walks_down.prems(5) by auto
  note v = copy_visit_step [OF walks_down.hyps(1) [unfolded l] wa pn]
  obtain m u where e: "e = (sd @ [n], dd @ [n], child_rel rel n, Some (m, u))" "node_at (cp_fs a) (sd @ [n]) = Some (NDir m u)"
    "is_dir (cp_fs b) (dd @ [n])" "no_trouble a b" using v(3) [OF refl] by blast
  note en = copy_enter_step [OF walks_down.hyps(2) [unfolded e(1)]]
  obtain y' where y': "copy_leave k True f y = y'" by blast
  note lv = copy_leave_step [OF y' [unfolded en(1)]]
  have sb: "own_step (strict_prefix dst) s (cp_fs b)"
    using own_trans [OF walks_down.prems(2) own_mono [OF v(1)]] place_below [OF walks_down.prems(4)] by blast
  have wb: "wf_fs (cp_fs b)" using own_stepD(1) [OF sb assms(2)] .
  have below: "prefix src (sd @ [n])" "prefix dst (dd @ [n])" using walks_down.prems(3,4) by simp_all
  have samed: "node_at t ((sd @ [n]) @ w) = node_at s ((sd @ [n]) @ w)" if "own_step (strict_prefix dst) s t" for t w
    using own_stepD(4) [OF that] apart_source [OF assms(3), of "(sd @ [n]) @ w"] walks_down.prems(3) by (auto simp: strict_prefix_def)
  have ls: "listdir_at (cp_fs b) (sd @ [n]) = listdir_at s (sd @ [n])"
    by (rule listdir_same [OF assms(2) wb]) (use samed [OF sb] in simp)
  have ms: "set ms \<subseteq> set (listdir_at s (sd @ [n]))" "distinct ms" using en(4) ls listdir_sorted(2) by auto
  have down: "own_step (\<lambda>q. \<exists>m \<in> set ms. entry_place merge (dd @ [n]) m q) (cp_fs c) (cp_fs y)" "more_trouble c y"
    "no_trouble c y \<and> kind_disk k s \<and> clean_names merge s src \<longrightarrow> (\<forall>m \<in> set ms. tree_copied s (cp_fs y) ((sd @ [n]) @ [m]) ((dd @ [n]) @ [m]))"
    using walks_down.IH(1) [OF en(1) _ below ms] sb e(3) unfolding en(2) by blast+
  have dy: "is_dir (cp_fs y) (dd @ [n])" using own_dir [OF down(1), of "dd @ [n]"] place_not_dir en(2) e(3) by auto
  have wy: "wf_fs (cp_fs y)" using own_stepD(1) [OF down(1)] wb en(2) by simp
  have meta: "own_step (\<lambda>q. q = dd @ [n]) (cp_fs y) (cp_fs y')" unfolding lv(1) by (rule own_dir_metadata) simp
  have place: "entry_place merge dd n (dd @ [n])" by (simp add: entry_place_def)
  have ay: "own_step (entry_place merge dd n) (cp_fs a) (cp_fs y')"
    using own_trans [OF own_trans [OF v(1) own_mono [OF down(1) [unfolded en(2)]]] own_mono [OF meta]] place_of_child place by blast
  have sy: "own_step (strict_prefix dst) s (cp_fs y')"
    using own_trans [OF walks_down.prems(2) own_mono [OF ay]] place_below [OF walks_down.prems(4)] by blast
  have ddy: "is_dir (cp_fs y') dd" using own_dir [OF ay place_not_dir] walks_down.prems(7) by simp
  have rest: "own_step (\<lambda>q. \<exists>n \<in> set ns. entry_place merge dd n q) (cp_fs y') (cp_fs z)" "more_trouble y' z"
    "no_trouble y' z \<and> kind_disk k s \<and> clean_names merge s src \<longrightarrow> (\<forall>n \<in> set ns. tree_copied s (cp_fs z) (sd @ [n]) (dd @ [n]))"
    using walks_down.IH(2) [unfolded y', OF l sy walks_down.prems(3,4) _ _ ddy] walks_down.prems(5,6) by simp_all
  have own: "own_step (\<lambda>q. \<exists>m \<in> set (n # ns). entry_place merge dd m q) (cp_fs a) (cp_fs z)"
    by (rule own_trans [OF own_mono [OF ay] own_mono [OF rest(1)]]) auto
  have more: "more_trouble a c" "more_trouble c y'" "more_trouble a y'" "more_trouble a z"
    using more_trans [OF v(2) en(3)] more_trans [OF down(2) lv(3)] more_trans rest(2) by blast+
  have "tree_copied s (cp_fs z) (sd @ [n]) (dd @ [n])"
    if ok: "no_trouble a c" "no_trouble c y" and kd: "kind_disk k s" and cl: "clean_names merge s src"
  proof -
    have x: "node_at s (sd @ [n]) = Some (NDir m u)" using e(2) samed [OF walks_down.prems(2), of "[]"] by simp
    have top: "node_at (cp_fs y') (dd @ [n]) = Some (NDir (S_IMODE m) u)"
      unfolding lv(1) by (rule dir_metadata_node [OF dy]) (use kd in \<open>simp_all add: kind_disk_def takes_metadata_def\<close>)
    have all: "ms = listdir_at s (sd @ [n])" using en(5) no_trouble_split [OF v(2) en(3)] ok(1) ls by simp
    have "tree_copied s (cp_fs y') (sd @ [n]) (dd @ [n])"
      unfolding tree_copied_def
    proof (intro allI impI)
      fix w x' assume x': "node_at s ((sd @ [n]) @ w) = Some x'"
      show "\<exists>y. node_at (cp_fs y') ((dd @ [n]) @ w) = Some y \<and> entry_copied s (cp_fs y') x' y"
      proof (cases w)
        case Nil
        with x' x have "x' = NDir m u" by simp
        with Nil top show ?thesis by simp
      next
        case (Cons h w')
        then have "node_at s ((sd @ [n]) @ [h]) \<noteq> None" using child_node [OF assms(2), of "sd @ [n]" h w'] x' by simp
        then have "h \<in> set ms" unfolding all using listdir_iff [OF assms(2)] by simp
        then have tc: "tree_copied s (cp_fs y) ((sd @ [n]) @ [h]) ((dd @ [n]) @ [h])" using down(3) ok(2) kd cl by blast
        have "tree_copied s (cp_fs y') ((sd @ [n]) @ [h]) ((dd @ [n]) @ [h])" by (rule tree_copied_keep [OF tc meta wy]) simp
        with x' Cons show ?thesis by (auto simp: tree_copied_def)
      qed
    qed
    moreover have "\<not> (\<exists>m \<in> set ns. entry_place merge dd m ((dd @ [n]) @ w))" for w
    proof -
      have "merge \<Longrightarrow> \<not> ends_with TMP_SUFFIX n" using clean_name [OF cl walks_down.prems(3) x] by blast
      then have "\<not> entry_place merge dd m ((dd @ [n]) @ w)" if "m \<in> set ns" for m
        using place_apart [of n m merge dd w] walks_down.prems(6) that by force
      then show ?thesis by blast
    qed
    ultimately show ?thesis using tree_copied_keep [OF _ rest(1) own_stepD(1) [OF sy assms(2)]] by blast
  qed
  then show ?case
    using own more rest(3) no_trouble_split [OF more(1) more_trans [OF more(2) rest(2)]] no_trouble_split [OF more(2) rest(2)]
      no_trouble_split [OF down(2) lv(3)] by simp
qed

subsection \<open>The walks end\<close>

lemma mass_children:
  assumes "wf_fs s" and "node_at s p = Some x" and "set ns \<subseteq> set (listdir_at s p)" and "distinct ns"
  shows "sum_list (map (\<lambda>n. mass f s (p @ [n])) ns) + f x \<le> mass f s p"
proof -
  have "sum_list (map (\<lambda>n. mass f s (p @ [n])) ns) = (\<Sum>n \<in> set ns. mass f s (p @ [n]))" by (rule sum_list_distinct_conv_sum_set [OF assms(4)])
  also have "\<dots> \<le> (\<Sum>n \<in> set (listdir_at s p). mass f s (p @ [n]))" by (rule sum_mono2) (use assms(3) in simp_all)
  also have "\<dots> = sum_list (map (\<lambda>n. mass f s (p @ [n])) (listdir_at s p))"
    by (rule sum_list_distinct_conv_sum_set [symmetric]) (rule listdir_sorted(2))
  finally show ?thesis using mass_split [OF assms(1,2), of f] by simp
qed

lemma mass_pos: "wf_fs s \<Longrightarrow> n \<in> set (listdir_at s p) \<Longrightarrow> 0 < mass (\<lambda>x. 3) s (p @ [n])"
  using listdir_iff [of s n p] mass_split [of s "p @ [n]" _ "\<lambda>x. 3"] by auto

lemma mass_fuel:
  assumes "wf_fs s" and "is_dir s p" and "set ns \<subseteq> set (listdir_at s p)" and "distinct ns"
  shows "sum_list (map (\<lambda>n. mass (\<lambda>x. 3) s (p @ [n])) ns) + 2 < walk_fuel s"
proof -
  obtain x where x: "node_at s p = Some x" using assms(2) by (auto simp: is_dir_def split: option.splits)
  have "mass (\<lambda>x. 3) s p \<le> 3 * length (f_ents s)"
  proof -
    have "sum_list (map (\<lambda>e. if prefix p (fst e) then 3 else 0) es) \<le> 3 * length es" for es :: "(path \<times> node) list"
      by (induction es) auto
    then show ?thesis by (simp add: mass_def)
  qed
  with mass_children [OF assms(1) x assms(3,4), of "\<lambda>x. 3"] show ?thesis by (simp add: walk_fuel_def)
qed

definition count_level :: "fs \<Rightarrow> path \<Rightarrow> bool" where
  "count_level s d \<longleftrightarrow> wf_fs s \<and> is_dir s d"

interpretation cw: ending_walk "count_enter k s" "count_visit k s" "\<lambda>owned d a. a" "count_level s"
    "\<lambda>d n. n \<in> set (listdir_at s d)" "\<lambda>a :: nat. True" "\<lambda>d n. mass (\<lambda>x. 3) s (d @ [n])" for k s
proof
  fix d n a e b f ms c
  assume l: "count_level s d" "n \<in> set (listdir_at s d)" and v: "count_visit k s d n a = (Some e, b)" and en: "count_enter k s e b = (f, ms, c)"
  have pn: "plain_name n" by (rule listdir_plain [OF _ l(2)]) (use l(1) in \<open>simp add: count_level_def\<close>)
  obtain m u where x: "node_at s (d @ [n]) = Some (NDir m u)" and e: "e = d @ [n]"
    using v pn by (auto simp: count_visit_def guard_Inr opendir_at_def at_plain split: sum.splits if_splits option.splits node.splits)
  have fm: "f = e" "ms = [] \<or> ms = rev (listdir_at s e)" using en by (auto simp: count_enter_def guard_def split: option.splits)
  then have ms: "set ms \<subseteq> set (listdir_at s e)" "distinct ms" using listdir_sorted(2) by auto
  have "sum_list (map (\<lambda>n. mass (\<lambda>x. 3) s (e @ [n])) ms) + 3 \<le> mass (\<lambda>x. 3) s e"
    by (rule mass_children [OF _ _ ms]) (use l(1) x e in \<open>simp_all add: count_level_def\<close>)
  then show "count_level s f \<and> True \<and> (\<forall>m \<in> set ms. m \<in> set (listdir_at s f))
      \<and> sum_list (map (\<lambda>n. mass (\<lambda>x. 3) s (f @ [n])) ms) + 3 \<le> mass (\<lambda>x. 3) s (d @ [n])"
    using l(1) x e fm(1) ms(1) by (auto simp: count_level_def is_dir_def)
qed (simp_all add: count_level_def mass_pos)

lemma count_ends:
  assumes "wf_fs s" and "is_dir s d"
  shows "\<exists>c. count_tree_at k s d = Some c"
proof -
  obtain ns where ns: "count_enter k s d 0 = (d, ns, 0)" "ns = [] \<or> ns = rev (listdir_at s d)"
    by (auto simp: count_enter_def guard_def split: option.splits)
  then have "set ns \<subseteq> set (listdir_at s d)" "distinct ns" using listdir_sorted(2) by auto
  with cw.walk_ends [OF ns(1), of "walk_fuel s"] mass_fuel [OF assms this] assms show ?thesis
    by (auto simp: count_tree_at_def count_level_def)
qed

text \<open>The levels of a copy: in the source as it was, and in the destination.\<close>

definition copy_level_ok :: "fs \<Rightarrow> path \<Rightarrow> path \<Rightarrow> copy_level \<Rightarrow> bool" where
  "copy_level_ok s src dst l \<longleftrightarrow>
     (case l of (sd, dd, rel, st) \<Rightarrow> wf_fs s \<and> unrelated src dst \<and> prefix src sd \<and> prefix dst dd \<and> is_dir s sd)"

lemma copy_visit_inside:
  assumes "copy_level_ok s src dst l" and "n \<in> set (listdir_at s (fst l))" and "own_step (prefix dst) s (cp_fs a)" and "copy_visit k merge l n a = (o1, b)"
  shows "own_step (prefix dst) s (cp_fs b)"
    and "o1 = Some e \<Longrightarrow> copy_level_ok s src dst e \<and> fst e = fst l @ [n] \<and> (\<exists>m u. node_at s (fst e) = Some (NDir m u))"
proof -
  obtain sd dd rel st where l: "l = (sd, dd, rel, st)" by (cases l) auto
  note F = assms(1) [unfolded l copy_level_ok_def, simplified]
  have pn: "plain_name n" using listdir_plain [of s n "fst l"] F assms(2) by blast
  have wa: "wf_fs (cp_fs a)" using own_stepD(1) [OF assms(3)] F by blast
  note v = copy_visit_step [OF assms(4) [unfolded l] wa pn]
  have sub: "entry_place merge dd n q \<Longrightarrow> prefix dst q" for q using place_below F by (blast dest: strict_prefixE)
  show "own_step (prefix dst) s (cp_fs b)" by (rule own_trans [OF assms(3) own_mono [OF v(1) sub]])
  assume "o1 = Some e"
  then obtain m u where e: "e = (sd @ [n], dd @ [n], child_rel rel n, Some (m, u))" "node_at (cp_fs a) (sd @ [n]) = Some (NDir m u)"
    using v(3) by blast
  have "\<not> prefix dst (sd @ [n])" using apart_source F by (meson prefix_prefix)
  then have "node_at s (sd @ [n]) = Some (NDir m u)" using own_stepD(4) [OF assms(3)] e(2) by simp
  with e(1) F l show "copy_level_ok s src dst e \<and> fst e = fst l @ [n] \<and> (\<exists>m u. node_at s (fst e) = Some (NDir m u))"
    by (auto simp: copy_level_ok_def is_dir_def)
qed

lemma copy_enter_inside:
  assumes "copy_level_ok s src dst l" and "own_step (prefix dst) s (cp_fs a)" and "copy_enter k l a = (f, ms, c)"
  shows "f = l" and "cp_fs c = cp_fs a" and "set ms \<subseteq> set (listdir_at s (fst l))" and "distinct ms"
proof -
  obtain sd dd rel st where l: "l = (sd, dd, rel, st)" by (cases l) auto
  note F = assms(1) [unfolded l copy_level_ok_def, simplified]
  note en = copy_enter_step [OF assms(3) [unfolded l]]
  have "\<not> prefix dst (sd @ [n])" for n using apart_source F by (meson prefix_prefix)
  then have "listdir_at (cp_fs a) sd = listdir_at s sd"
    using listdir_same [of s "cp_fs a" sd] own_stepD(1,4) [OF assms(2)] F by blast
  with en listdir_sorted(2) show "f = l" "cp_fs c = cp_fs a" "set ms \<subseteq> set (listdir_at s (fst l))" "distinct ms" by (auto simp: l)
qed

interpretation tw: ending_walk "copy_enter k" "copy_visit k merge" "copy_leave k" "copy_level_ok s src dst"
    "\<lambda>l n. n \<in> set (listdir_at s (fst l))" "\<lambda>a. own_step (prefix dst) s (cp_fs a)" "\<lambda>l n. mass (\<lambda>x. 3) s (fst l @ [n])" for k merge s src dst
proof
  fix l n a e b f ms c
  assume l: "copy_level_ok s src dst l" "n \<in> set (listdir_at s (fst l))" "own_step (prefix dst) s (cp_fs a)"
    and v: "copy_visit k merge l n a = (Some e, b)" and en: "copy_enter k e b = (f, ms, c)"
  note vi = copy_visit_inside [OF l v]
  have e: "copy_level_ok s src dst e" "fst e = fst l @ [n]" using vi(2) by simp_all
  obtain m u where x: "node_at s (fst e) = Some (NDir m u)" using vi(2) by blast
  note ei = copy_enter_inside [OF e(1) vi(1) en]
  have "sum_list (map (\<lambda>n. mass (\<lambda>x. 3) s (fst e @ [n])) ms) + 3 \<le> mass (\<lambda>x. 3) s (fst e)"
    by (rule mass_children [OF _ x ei(3,4)]) (use l(1) in \<open>simp add: copy_level_ok_def split: prod.splits\<close>)
  then show "copy_level_ok s src dst f \<and> own_step (prefix dst) s (cp_fs c) \<and> (\<forall>m \<in> set ms. m \<in> set (listdir_at s (fst f)))
      \<and> sum_list (map (\<lambda>n. mass (\<lambda>x. 3) s (fst f @ [n])) ms) + 3 \<le> mass (\<lambda>x. 3) s (fst l @ [n])"
    using e ei vi(1) by auto
next
  fix l :: copy_level and n a b
  assume "copy_level_ok s src dst l" "n \<in> set (listdir_at s (fst l))" "own_step (prefix dst) s (cp_fs a)" "copy_visit k merge l n a = (None, b)"
  then show "own_step (prefix dst) s (cp_fs b)" by (rule copy_visit_inside(1))
next
  fix l :: copy_level and a :: copy_log and owned
  assume F: "copy_level_ok s src dst l" and a: "own_step (prefix dst) s (cp_fs a)"
  obtain sd dd rel st where l: "l = (sd, dd, rel, st)" by (cases l) auto
  have "prefix dst dd" using F by (simp add: l copy_level_ok_def)
  then show "own_step (prefix dst) s (cp_fs (copy_leave k owned l a))"
    using a own_trans [OF a own_dir_metadata] by (auto simp: copy_leave_def l split: option.splits)
next
  fix l :: copy_level and n
  assume "copy_level_ok s src dst l" "n \<in> set (listdir_at s (fst l))"
  then show "0 < mass (\<lambda>x. 3) s (fst l @ [n])" by (intro mass_pos) (auto simp: copy_level_ok_def)
qed

lemma copy_tree_spec:
  assumes "wf_fs s" and "is_dir s src" and "is_dir s dst" and "unrelated src dst"
  shows "\<exists>z. copy_tree_at k merge s src dst rel = Some z \<and> own_step (strict_prefix dst) s (cp_fs z)
    \<and> (cp_failed z = [] \<and> cp_skipped z = [] \<and> kind_disk k s \<and> clean_names merge s src \<longrightarrow>
        (\<forall>n w x. node_at s (src @ n # w) = Some x \<longrightarrow>
          (\<exists>y. node_at (cp_fs z) (dst @ n # w) = Some y \<and> entry_copied s (cp_fs z) x y)))"
proof -
  let ?l = "(src, dst, rel, None) :: copy_level" and ?a = "\<lparr>cp_fs = s, cp_done = [], cp_skipped = [], cp_failed = []\<rparr>"
  have ok: "copy_level_ok s src dst ?l" using assms by (simp add: copy_level_ok_def)
  obtain f ns b where en: "copy_enter k ?l ?a = (f, ns, b)" by (cases "copy_enter k ?l ?a")
  note ei = copy_enter_inside [OF ok, of ?a, simplified, OF en]
  obtain z where z: "copy_tree_at k merge s src dst rel = Some z"
    using tw.walk_ends [OF en, of s src dst "walk_fuel s" merge] ei ok mass_fuel [OF assms(1,2)] by (auto simp: copy_tree_at_def)
  then obtain c where c: "copy_walks k merge ?l ns b c" "z = copy_leave k False ?l c"
    using walk_loop_root [of "copy_enter k" "copy_visit k merge" "copy_leave k" "walk_fuel s" ?l ?a z] en ei(1) by (auto simp: copy_tree_at_def)
  have zc: "z = c" using c(2) by (simp add: copy_leave_def)
  have w: "own_step (\<lambda>q. \<exists>n \<in> set ns. entry_place merge dst n q) s (cp_fs z)" "more_trouble b z"
    "no_trouble b z \<and> kind_disk k s \<and> clean_names merge s src \<longrightarrow> (\<forall>n \<in> set ns. tree_copied s (cp_fs z) (src @ [n]) (dst @ [n]))"
    using copy_walks_copies [OF c(1) assms(1,4) refl, of ] ei(2-4) assms(3) unfolding zc by simp_all
  note en' = copy_enter_step [OF en]
  have own: "own_step (strict_prefix dst) s (cp_fs z)" by (rule own_mono [OF w(1)]) (auto dest: place_below [OF prefix_order.refl])
  have "\<exists>y. node_at (cp_fs z) (dst @ n # w') = Some y \<and> entry_copied s (cp_fs z) x y"
    if q: "cp_failed z = []" "cp_skipped z = []" "kind_disk k s" "clean_names merge s src" and x: "node_at s (src @ n # w') = Some x" for n w' x
  proof -
    have t: "no_trouble ?a z" using q by (simp add: no_trouble_def)
    then have nt: "no_trouble ?a b" "no_trouble b z" using no_trouble_split [OF en'(3) w(2)] by simp_all
    have "node_at s (src @ [n]) \<noteq> None" using child_node [OF assms(1), of src n w'] x by simp
    then have "n \<in> set ns" using en'(5) [OF nt(1)] listdir_iff [OF assms(1)] by simp
    then have "tree_copied s (cp_fs z) (src @ [n]) (dst @ [n])" using w(3) nt(2) q by blast
    with x show ?thesis unfolding tree_copied_def by (metis append.assoc append_Cons append_Nil)
  qed
  with z own show ?thesis by blast
qed


definition sample_disk :: disk where
  "sample_disk = \<lparr>dk_fault = (\<lambda>c. None), dk_short = (\<lambda>p. 0), dk_blocks = (\<lambda>i. 8), dk_data = (\<lambda>i off. SeekFails), dk_hole = (\<lambda>i off. SeekFails)\<rparr>"

definition sample_trees :: fs where
  "sample_trees = sample_fs [([], NDir 493 0), ([''a''], NDir 493 0), ([''a'', ''d''], NDir 365 7), ([''a'', ''d'', ''f''], NFile 1),
     ([''a'', ''l''], NLink ''/host'' 3), ([''b''], NDir 493 0), ([''b'', ''l''], NLink ''old'' 1)]"

lemma sample_disk_kind: "kind_disk sample_disk s"
  by (simp add: kind_disk_def takes_metadata_def honest_holes_def sample_disk_def)


end
