(* ===== verification/Copy_Move.thy ===== *)
theory Copy_Move
  imports Copy_Walk Container_Cmd_Props
begin

text \<open>
  The work of \<open>commands/copy.py\<close> on two pinned ends: a directory recreated under the destination, and a move, by one
  rename or, between devices, by a copy and a removal. A pin is a directory and a name below it.
\<close>

type_synonym pin = "path \<times> string"

definition reopen :: "disk \<Rightarrow> fs \<Rightarrow> pin \<Rightarrow> errno + path" where
  "reopen k s p =
     (if snd p = [] then guard k (COpenDir (fst p)) (if is_dir s (fst p) then Inr (fst p) else Inl ENOENT)
      else guard k (COpenDir (at (fst p) (snd p))) (opendir_at s (fst p) (snd p)))"

text \<open>The entries that failed and those left out.\<close>

definition copy_tree_pinned :: "disk \<Rightarrow> bool \<Rightarrow> fs \<Rightarrow> pin \<Rightarrow> pin \<Rightarrow> ((errno + nat \<times> nat) \<times> fs) option" where
  "copy_tree_pinned k merge s sp dp =
     (case reopen k s sp of
        Inl e \<Rightarrow> Some (Inl e, s)
      | Inr src \<Rightarrow>
          (case node_at s src of
             Some (NDir m u) \<Rightarrow>
               (case copy_mkdir k merge s (fst dp) (snd dp) of
                  Inl e \<Rightarrow> Some (Inl e, s)
                | Inr (fresh, t) \<Rightarrow>
                    (case guard k (COpenDir (at (fst dp) (snd dp))) (opendir_at t (fst dp) (snd dp)) of
                       Inl e \<Rightarrow> Some (Inl e, t)
                     | Inr dst \<Rightarrow>
                         map_option (\<lambda>z. (Inr (length (cp_failed z), length (cp_skipped z)), copy_dir_metadata k (cp_fs z) dst m u))
                           (copy_tree_at k merge (make_writable t dst) src dst [])))
           | _ \<Rightarrow> Some (Inl ENOTDIR, s)))"

text \<open>\<open>os.rename\<close> between two directories.\<close>

definition rename_between :: "fs \<Rightarrow> path \<Rightarrow> string \<Rightarrow> path \<Rightarrow> string \<Rightarrow> errno + fs" where
  "rename_between s sd old dd new =
     (case node_at s (sd @ [old]) of
        None \<Rightarrow> Inl ENOENT
      | Some x \<Rightarrow>
          (if \<not> is_dir s dd \<or> new = [] then Inl ENOENT
           else if sd @ [old] = dd @ [new] then Inr s
           else if prefix (sd @ [old]) (dd @ [new]) then Inl EINVAL
           else if sd @ [old] \<in> set (f_stuck s) then Inl EPERM
           else case node_at s (dd @ [new]) of
               None \<Rightarrow> Inr (move_tree (sd @ [old]) (dd @ [new]) s)
             | Some y \<Rightarrow>
                 (if is_dir_node x \<and> is_dir_node y then
                    (if listdir_at s (dd @ [new]) = [] then Inr (move_tree (sd @ [old]) (dd @ [new]) s) else Inl ENOTEMPTY)
                  else if is_dir_node x then Inl ENOTDIR
                  else if is_dir_node y then Inl EISDIR
                  else if x = y \<and> is_file_node x then Inr s
                  else Inr (move_tree (sd @ [old]) (dd @ [new]) s))))"

definition drop_source :: "pin \<Rightarrow> errno option \<times> fs \<Rightarrow> (errno + nat) \<times> fs" where
  "drop_source sp r =
     (case r of
        (Some e, t) \<Rightarrow> (Inl e, t)
      | (None, t) \<Rightarrow> (case unlink_at t (fst sp) (snd sp) of Inl e \<Rightarrow> (Inl e, t) | Inr u \<Rightarrow> (Inr 0, u)))"

text \<open>How many entries the copy did not carry across; \<open>Inl\<close> is the error that ends the command.\<close>

definition move_pinned :: "disk \<Rightarrow> fs \<Rightarrow> pin \<Rightarrow> pin \<Rightarrow> ((errno + nat) \<times> fs) option" where
  "move_pinned k s sp dp =
     (case sp of (sd, sn) \<Rightarrow> case dp of (dd, dn) \<Rightarrow>
       (case guard k (CRename (at dd dn)) (rename_between s sd sn dd dn) of
          Inr t \<Rightarrow> Some (Inr 0, t)
        | Inl e \<Rightarrow>
            (if e \<noteq> EXDEV then Some (Inl e, s)
             else case guard k (CLstat (at sd sn)) (lstat_at s sd sn) of
                 Inl e' \<Rightarrow> Some (Inl e', s)
               | Inr (NDir m u) \<Rightarrow>
                   (case copy_tree_pinned k False s sp dp of
                      None \<Rightarrow> None
                    | Some (Inl e', t) \<Rightarrow> Some (Inl e', t)
                    | Some (Inr (failures, skipped), t) \<Rightarrow>
                        (if 0 < failures \<or> 0 < skipped then Some (Inr (failures + skipped), t)
                         else case rmtree_at True False t sd sn of
                             (Inl e', v) \<Rightarrow> Some (Inl e', v)
                           | (Inr ok, v) \<Rightarrow> Some (Inr 0, v)))
               | Inr (NLink g u) \<Rightarrow> Some (drop_source sp (copy_symlink_at k False (unlink_quietly s dd dn) sd sn dd dn (Some u)))
               | Inr x \<Rightarrow> Some (drop_source sp (copy_file_at k False (unlink_quietly s dd dn) sd sn dd dn)))))"

subsection \<open>Removal\<close>

lemma make_writable_other: "q \<noteq> d \<Longrightarrow> node_at (make_writable s d) q = node_at s q"
  by (auto simp: make_writable_def chmod_dir_fd_def split: option.splits node.splits)

lemma make_writable_data: "f_data (make_writable s d) = f_data s" "f_next (make_writable s d) = f_next s"
  by (auto simp: make_writable_def chmod_dir_fd_def split: option.splits node.splits)

lemma own_rmdir:
  assumes "rmdir_at s d n = Inr t" and "plain_name n" and "B (d @ [n])"
  shows "own_step B s t" and "node_at t (d @ [n]) = None"
proof -
  have t: "t = drop_node (d @ [n]) s" using assms(1,2) by (auto simp: rmdir_at_def at_plain split: option.splits node.splits if_splits)
  show "own_step B s t" unfolding t
    by (rule own_drop) (use assms(3) safe_wf [OF safe_rmdir [OF assms(1,2) prefix_order.refl]] t in auto)
  show "node_at t (d @ [n]) = None" by (simp add: t)
qed

lemma own_unlink_force:
  assumes "unlink_force b s d n f = Inr t" and "plain_name n" and "B (d @ [n])" and "B d"
  shows "own_step B s t" and "node_at t (d @ [n]) = None"
proof -
  have rm: "own_step B u t \<and> node_at t (d @ [n]) = None" if "(if b then rmdir_at u d n else unlink_at u d n) = Inr t" for u
  proof (cases b)
    case True
    with that own_rmdir [where B = B, OF _ assms(2,3)] show ?thesis by auto
  next
    case False
    then have un: "unlink_at u d n = Inr t" using that by simp
    then have "t = drop_node (d @ [n]) u" using assms(2) by (auto simp: unlink_at_def at_plain split: option.splits node.splits if_splits)
    with own_unlink [where B = B, OF un assms(2,3)] show ?thesis by simp
  qed
  have "own_step B s t \<and> node_at t (d @ [n]) = None"
    using assms(1) rm own_trans [OF own_make_writable(1) [where B = B, OF assms(4)]]
    by (auto simp: unlink_force_def Let_def split: sum.splits if_splits)
  then show "own_step B s t" "node_at t (d @ [n]) = None" by simp_all
qed

lemma own_remove_each:
  assumes "\<And>s n res t. n \<in> set ns \<Longrightarrow> wf_fs s \<Longrightarrow> f s n = (res, t) \<Longrightarrow> own_step B s t \<and> (\<forall>b. res = Inr b \<longrightarrow> b)"
    and "remove_each f s ns = (res, t)" and "wf_fs s"
  shows "own_step B s t \<and> (\<forall>b. res = Inr b \<longrightarrow> b)"
  using assms
proof (induction ns arbitrary: s res t)
  case (Cons n ns)
  obtain o1 u where f: "f s n = (o1, u)" by (cases "f s n")
  then have su: "own_step B s u \<and> (\<forall>b. o1 = Inr b \<longrightarrow> b)" by (intro Cons.prems(1) [OF list.set_intros(1) Cons.prems(3)])
  show ?case
  proof (cases o1)
    case (Inl e)
    with f su Cons.prems(2) show ?thesis by auto
  next
    case (Inr ok)
    obtain o2 v where g: "remove_each f u ns = (o2, v)" by (cases "remove_each f u ns")
    have "own_step B u v \<and> (\<forall>b. o2 = Inr b \<longrightarrow> b)"
      by (rule Cons.IH [OF Cons.prems(1) [OF list.set_intros(2)] g own_stepD(1) [OF conjunct1 [OF su] Cons.prems(3)]])
    with own_trans [OF conjunct1 [OF su] conjunct1 [OF this]] Inr f g su Cons.prems(2) show ?thesis by (cases o2) auto
  qed
qed simp

lemma own_remove_entry:
  "remove_entry k f False d s n = (res, t) \<Longrightarrow> wf_fs s \<Longrightarrow> plain_name n \<Longrightarrow>
     own_step (\<lambda>q. q = d \<or> prefix (d @ [n]) q) s t \<and> (\<forall>b. res = Inr b \<longrightarrow> b \<and> node_at t (d @ [n]) = None)"
proof (induction k arbitrary: d s n res t)
  case (Suc k)
  let ?B = "\<lambda>q. q = d \<or> prefix (d @ [n]) q"
  have place: "?B (d @ [n])" "?B d" by simp_all
  show ?case
  proof (cases "lstat_at s d n")
    case (Inl e)
    then have "node_at s (d @ [n]) = None" using Suc.prems(3) by (simp add: lstat_at_def at_plain split: option.splits)
    with Inl Suc.prems(1) show ?thesis by (auto simp: fail_remove_def split: if_splits)
  next
    case (Inr x)
    have x: "node_at s (d @ [n]) = Some x" using Inr Suc.prems(3) by (simp add: lstat_at_def at_plain split: option.splits)
    have refused: "own_step ?B u (after_refusal e u d f)" for u e
      by (simp add: after_refusal_def own_make_writable(1))
    show ?thesis
    proof (cases "is_dir_node x")
      case False
      have e: "unlink_reporting f False s d n = (res, t)" using Suc.prems(1) Inr False by simp
      have ne: "unlink_force False s d n f \<noteq> Inl ENOENT"
        using x Suc.prems(3) make_writable_other [of "d @ [n]" d s] False
        by (auto simp: unlink_force_def unlink_at_def at_plain Let_def split: sum.splits if_splits option.splits node.splits)
      show ?thesis
        using e ne own_unlink_force [where B = ?B, OF _ Suc.prems(3) place] refused
        by (auto simp: unlink_reporting_def fail_remove_def split: sum.splits if_splits)
    next
      case True
      with Inr Suc.prems(3) have p: "opendir_at s d n = Inr (d @ [n])"
        by (cases x) (auto simp: lstat_at_def opendir_at_def at_plain split: option.splits)
      let ?f = "remove_entry k f False (d @ [n])"
      obtain o1 u where e: "remove_each ?f s (listdir_at s (d @ [n])) = (o1, u)" by fastforce
      have su: "own_step ?B s u \<and> (\<forall>b. o1 = Inr b \<longrightarrow> b)"
      proof (rule own_remove_each [OF _ e Suc.prems(2)])
        fix s' m res' t' assume "m \<in> set (listdir_at s (d @ [n]))" "wf_fs s'" "?f s' m = (res', t')"
        with Suc.IH [OF this(3,2) listdir_plain [OF Suc.prems(2) this(1)]]
        show "own_step ?B s' t' \<and> (\<forall>b. res' = Inr b \<longrightarrow> b)"
          by (auto elim!: own_mono simp: prefix_def)
      qed
      show ?thesis
        using Suc.prems(1) Inr True p e su own_unlink_force [where B = ?B, OF _ Suc.prems(3) place] refused own_trans
        by (auto simp: fail_remove_def split: sum.splits if_splits)
    qed
  qed
qed simp

subsection \<open>A directory recreated\<close>

lemma mkdir_at_dir:
  assumes "copy_mkdir k merge s dd n = Inr (fresh, t)"
  shows "own_step (\<lambda>q. q = dd @ [n]) s t" and "f_data t = f_data s" and "f_next t = f_next s"
  using assms own_mkdir(1) [of s dd n 448 t "\<lambda>q. q = dd @ [n]"]
  by (auto simp: copy_mkdir_def guard_Inr mkdir_at_def split: sum.splits if_splits)

lemma apart_source_nodes:
  assumes "own_step (prefix dst) s t" and "unrelated src dst"
  shows "node_at t (src @ w) = node_at s (src @ w)"
proof -
  have "\<not> prefix dst (src @ w)" by (rule apart_source [OF assms(2)]) simp
  with own_stepD(4) [OF assms(1)] show ?thesis by simp
qed

lemma copy_tree_pinned_copies:
  assumes "wf_fs s" and "plain_name sn" and "plain_name dn" and "unrelated (sd @ [sn]) (dd @ [dn])"
  shows "\<exists>res t. copy_tree_pinned k merge s (sd, sn) (dd, dn) = Some (res, t) \<and> own_step (prefix (dd @ [dn])) s t
    \<and> (res = Inr (0, 0) \<and> kind_disk k s \<and> clean_names merge s (sd @ [sn]) \<longrightarrow> tree_copied s t (sd @ [sn]) (dd @ [dn]))"
proof -
  let ?src = "sd @ [sn]" and ?dst = "dd @ [dn]"
  have sn: "sn \<noteq> []" using assms(2) by (simp add: plain_name_def)
  show ?thesis
  proof (cases "reopen k s (sd, sn)")
    case (Inl e)
    then show ?thesis by (simp add: copy_tree_pinned_def)
  next
    case (Inr src)
    then obtain m u where x: "src = ?src" "node_at s ?src = Some (NDir m u)"
      using assms(2) sn by (auto simp: reopen_def guard_Inr opendir_at_def at_plain split: option.splits node.splits)
    show ?thesis
    proof (cases "copy_mkdir k merge s dd dn")
      case (Inl e)
      with Inr x show ?thesis by (simp add: copy_tree_pinned_def)
    next
      case mk: (Inr ft)
      obtain fresh t1 where ft: "ft = (fresh, t1)" by (cases ft)
      note t1 = mkdir_at_dir [OF mk [unfolded ft]]
      have own1: "own_step (prefix ?dst) s t1" by (rule own_mono [OF t1(1)]) simp
      show ?thesis
      proof (cases "guard k (COpenDir (at dd dn)) (opendir_at t1 dd dn)")
        case (Inl e)
        with Inr x mk ft own1 show ?thesis by (simp add: copy_tree_pinned_def)
      next
        case op: (Inr dst)
        then have dst: "dst = ?dst" "is_dir t1 ?dst"
          using assms(3) by (auto simp: guard_Inr opendir_at_def at_plain is_dir_def split: option.splits node.splits)
        let ?t2 = "make_writable t1 ?dst"
        have own2: "own_step (prefix ?dst) s ?t2" by (rule own_trans [OF own1 own_make_writable(1)]) simp
        have same: "node_at ?t2 (?src @ w) = node_at s (?src @ w)" for w by (rule apart_source_nodes [OF own2 assms(4)])
        have w2: "wf_fs ?t2" "is_dir ?t2 ?src" "is_dir ?t2 ?dst"
          using own_stepD(1) [OF own2 assms(1)] same [of "[]"] x(2) own_make_writable(2) [OF dst(2)] by (simp_all add: is_dir_def)
        obtain z where z: "copy_tree_at k merge ?t2 ?src ?dst [] = Some z" "own_step (strict_prefix ?dst) ?t2 (cp_fs z)"
          "cp_failed z = [] \<and> cp_skipped z = [] \<and> kind_disk k ?t2 \<and> clean_names merge ?t2 ?src \<longrightarrow>
             (\<forall>n w x. node_at ?t2 (?src @ n # w) = Some x \<longrightarrow> (\<exists>y. node_at (cp_fs z) (?dst @ n # w) = Some y \<and> entry_copied ?t2 (cp_fs z) x y))"
          using copy_tree_spec [OF w2 assms(4)] by blast
        let ?t = "copy_dir_metadata k (cp_fs z) ?dst m u"
        have run: "copy_tree_pinned k merge s (sd, sn) (dd, dn) = Some (Inr (length (cp_failed z), length (cp_skipped z)), ?t)"
          using Inr x mk ft op dst(1) z(1) by (simp add: copy_tree_pinned_def)
        have meta: "own_step (\<lambda>q. q = ?dst) (cp_fs z) ?t" by (rule own_dir_metadata) simp
        have wz: "wf_fs (cp_fs z)" by (rule own_stepD(1) [OF z(2) w2(1)])
        have own: "own_step (prefix ?dst) s ?t"
          by (rule own_trans [OF own_trans [OF own2 own_mono [OF z(2)]] own_mono [OF meta]]) (auto simp: strict_prefix_def)
        have "tree_copied s ?t ?src ?dst" if q: "cp_failed z = []" "cp_skipped z = []" "kind_disk k s" "clean_names merge s ?src"
        proof -
          have k2: "kind_disk k ?t2" using q(3) by (simp add: kind_disk_def make_writable_data t1(2,3))
          have "node_at ?t2 (?src @ w @ [n]) = node_at s (?src @ w @ [n])" for w n by (rule same)
          then have c2: "clean_names merge ?t2 ?src" using q(4) unfolding clean_names_def by simp
          have dz: "is_dir (cp_fs z) ?dst" using own_dir [OF z(2), of ?dst] w2(3) by (simp add: strict_prefix_def)
          have top: "node_at ?t ?dst = Some (NDir (S_IMODE m) u)"
            by (rule dir_metadata_node [OF dz]) (use q(3) in \<open>simp_all add: kind_disk_def takes_metadata_def\<close>)
          have below: "\<exists>y. node_at ?t (?dst @ n # w) = Some y \<and> entry_copied s ?t x y" if x: "node_at s (?src @ n # w) = Some x" for n w x
          proof -
            obtain y where y: "node_at (cp_fs z) (?dst @ n # w) = Some y" "entry_copied ?t2 (cp_fs z) x y"
              using z(3) q(1,2) k2 c2 same [of "n # w"] x by metis
            have inode: "i < f_next s" if "x = NFile i" for i
              using wf_fsD(3) [OF assms(1) x] that by (simp add: wf_entry_def)
            have "entry_copied s (cp_fs z) x y" by (rule entry_copied_since [OF y(2) own2 inode])
            from entry_copied_keep [OF this meta wz y(1)] own_stepD(4) [OF meta] y(1) show ?thesis by simp
          qed
          show ?thesis
            unfolding tree_copied_def
          proof (intro allI impI)
            fix w x' assume x': "node_at s (?src @ w) = Some x'"
            show "\<exists>y. node_at ?t (?dst @ w) = Some y \<and> entry_copied s ?t x' y"
            proof (cases w)
              case Nil
              with x' x(2) top show ?thesis by auto
            next
              case (Cons n w')
              with below x' show ?thesis by simp
            qed
          qed
        qed
        with run own show ?thesis by auto
      qed
    qed
  qed
qed

subsection \<open>A move\<close>

text \<open>The entries of \<open>s\<close> under \<open>p\<close> are those of \<open>t\<close> under \<open>q\<close>, the same inodes or copies of them.\<close>

definition carried :: "fs \<Rightarrow> fs \<Rightarrow> path \<Rightarrow> path \<Rightarrow> bool" where
  "carried s t p q \<longleftrightarrow> (\<forall>w. node_at t (q @ w) = node_at s (p @ w)) \<or> tree_copied s t p q"

definition source_kept :: "fs \<Rightarrow> fs \<Rightarrow> path \<Rightarrow> bool" where
  "source_kept s t p \<longleftrightarrow> (\<forall>w. node_at t (p @ w) = node_at s (p @ w))"

definition safe_move :: "disk \<Rightarrow> fs \<Rightarrow> pin \<Rightarrow> path \<Rightarrow> (errno + nat) \<times> fs \<Rightarrow> bool" where
  "safe_move k s sp dst r \<longleftrightarrow>
     (let src = fst sp @ [snd sp]; t = snd r in
      (\<forall>i < f_next s. f_data t i = f_data s i)
      \<and> (\<forall>q. q \<noteq> fst sp \<and> \<not> prefix src q \<and> \<not> prefix dst q \<longrightarrow> node_at t q = node_at s q)
      \<and> (kind_disk k s \<longrightarrow> source_kept s t src \<or> carried s t src dst)
      \<and> (\<forall>n. fst r = Inr n \<and> 0 < n \<longrightarrow> source_kept s t src)
      \<and> (fst r = Inr 0 \<longrightarrow> (\<exists>i. t = s \<and> node_at s src = Some (NFile i) \<and> node_at s dst = Some (NFile i))
           \<or> node_at t src = None \<and> (kind_disk k s \<longrightarrow> carried s t src dst)))"

lemma rename_between_moves:
  assumes "rename_between s sd sn dd dn = Inr t" and "wf_fs s" and "unrelated (sd @ [sn]) (dd @ [dn])"
  shows "safe_move k s (sd, sn) (dd @ [dn]) (Inr 0, t)"
proof -
  let ?src = "sd @ [sn]" and ?dst = "dd @ [dn]"
  have ap: "\<not> prefix ?src ?dst" "\<not> prefix ?dst ?src" "?src \<noteq> ?dst" using assms(3) by (auto simp: unrelated_def)
  note node = node_move(1) [OF wf_fsD(2) [OF assms(2)] ap(1,2)]
  consider (same) i where "t = s" "node_at s ?src = Some (NFile i)" "node_at s ?dst = Some (NFile i)" | (moved) "t = move_tree ?src ?dst s"
    using assms(1) ap by (auto simp: rename_between_def split: option.splits if_splits elim!: is_file_node.elims(2))
  then show ?thesis
  proof cases
    case same
    then show ?thesis by (auto simp: safe_move_def Let_def source_kept_def)
  next
    case moved
    have "f_data t = f_data s" by (simp add: moved move_tree_def)
    moreover have "carried s t ?src ?dst" by (simp add: carried_def moved node)
    ultimately show ?thesis using ap by (auto simp: safe_move_def Let_def moved node)
  qed
qed

lemma safe_kept:
  assumes "own_step (prefix dst) s t" and "unrelated (sd @ [sn]) dst" and "res \<noteq> Inr 0"
  shows "safe_move k s (sd, sn) dst (res, t)"
  using assms(3) own_stepD(3,4) [OF assms(1)] apart_source_nodes [OF assms(1,2)]
  by (auto simp: safe_move_def Let_def source_kept_def)

lemma safe_dropped:
  assumes "own_step (prefix dst) s t" and "kind_disk k s \<Longrightarrow> tree_copied s t (sd @ [sn]) dst" and "wf_fs s"
    and "unrelated (sd @ [sn]) dst" and "own_step (\<lambda>q. q = sd \<or> prefix (sd @ [sn]) q) t v"
    and "res = Inr 0 \<Longrightarrow> node_at v (sd @ [sn]) = None" and "\<And>n. res = Inr n \<Longrightarrow> n = 0"
  shows "safe_move k s (sd, sn) dst (res, v)"
proof -
  have out: "\<not> (dst @ w = sd \<or> prefix (sd @ [sn]) (dst @ w))" for w
    using assms(4) prefix_same_cases [of "sd @ [sn]" "dst @ w" dst] by (auto simp: unrelated_def)
  have c: "carried s v (sd @ [sn]) dst" if "kind_disk k s"
    using tree_copied_keep [OF assms(2) [OF that] assms(5) own_stepD(1) [OF assms(1,3)] out] by (simp add: carried_def)
  have "f_data v i = f_data s i" if "i < f_next s" for i
    using own_stepD(3) [OF assms(1) that] own_stepD(3) [OF assms(5), of i] own_stepD(2) [OF assms(1)] that by simp
  with c assms(6,7) own_stepD(4) [OF assms(1)] own_stepD(4) [OF assms(5)] show ?thesis
    by (auto simp: safe_move_def Let_def)
qed

text \<open>A file or a link, copied and unlinked.\<close>

lemma leaf_tree:
  assumes "wf_fs s" and "node_at s p = Some x" and "\<not> is_dir_node x" and "node_at t q = Some y" and "entry_copied s t x y"
  shows "tree_copied s t p q"
  unfolding tree_copied_def
proof (intro allI impI)
  fix w x' assume x': "node_at s (p @ w) = Some x'"
  show "\<exists>y. node_at t (q @ w) = Some y \<and> entry_copied s t x' y"
  proof (cases w)
    case Nil
    with assms(2,4,5) x' show ?thesis by auto
  next
    case (Cons n v)
    then have "node_at s (p @ [n]) \<noteq> None" using child_node [OF assms(1), of p n v] x' by simp
    then have "is_dir s p" using wf_node [OF assms(1)] by blast
    with assms(2,3) show ?thesis by (auto simp: is_dir_def)
  qed
qed

lemma drop_source_safe:
  assumes "own_step (prefix (dd @ [dn])) s u" and "r = (e, t)" and "own_step (prefix (dd @ [dn])) u t"
    and "e = None \<Longrightarrow> kind_disk k s \<Longrightarrow> tree_copied s t (sd @ [sn]) (dd @ [dn])"
    and "wf_fs s" and "unrelated (sd @ [sn]) (dd @ [dn])" and "plain_name sn"
  shows "safe_move k s (sd, sn) (dd @ [dn]) (drop_source (sd, sn) r)"
proof -
  have own: "own_step (prefix (dd @ [dn])) s t" by (rule own_trans [OF assms(1,3)])
  note kept = safe_kept [OF own assms(6)]
  show ?thesis
  proof (cases e)
    case (Some e')
    with kept assms(2) show ?thesis by (simp add: drop_source_def)
  next
    case None
    show ?thesis
    proof (cases "unlink_at t sd sn")
      case (Inl e')
      with None kept assms(2) show ?thesis by (simp add: drop_source_def)
    next
      case (Inr v)
      have "v = drop_node (sd @ [sn]) t" using Inr assms(7) by (auto simp: unlink_at_def at_plain split: option.splits node.splits if_splits)
      moreover have "own_step (\<lambda>q. q = sd \<or> prefix (sd @ [sn]) q) t v" by (rule own_unlink [OF Inr assms(7)]) simp
      ultimately have "safe_move k s (sd, sn) (dd @ [dn]) (Inr 0, v)"
        by (intro safe_dropped [OF own assms(4) [OF None] assms(5,6)]) simp_all
      with Inr None assms(2) show ?thesis by (simp add: drop_source_def)
    qed
  qed
qed

lemma kind_since: "own_step B s t \<Longrightarrow> wf_fs s \<Longrightarrow> node_at s p = Some (NFile i) \<Longrightarrow> kind_disk k s \<Longrightarrow>
    honest_holes k i (fd_bytes (f_data t i)) \<and> takes_metadata k"
  using wf_fsD(3) [of s p "NFile i"] own_stepD(3) [of B s t i] by (auto simp: kind_disk_def wf_entry_def)

lemma link_moved:
  assumes "wf_fs s" and "plain_name sn" and "plain_name dn" and "unrelated (sd @ [sn]) (dd @ [dn])"
    and "node_at s (sd @ [sn]) = Some (NLink g m)"
  shows "safe_move k s (sd, sn) (dd @ [dn])
      (drop_source (sd, sn) (copy_symlink_at k False (unlink_quietly s dd dn) sd sn dd dn (Some m)))"
proof -
  let ?u = "unlink_quietly s dd dn" and ?src = "sd @ [sn]" and ?dst = "dd @ [dn]"
  have su: "own_step (prefix ?dst) s ?u" by (rule own_unlink_quietly [OF assms(3)]) simp
  have src: "node_at ?u ?src = Some (NLink g m)" using apart_source_nodes [OF su assms(4), of "[]"] assms(5) by simp
  obtain e t where r: "copy_symlink_at k False ?u sd sn dd dn (Some m) = (e, t)" by fastforce
  note st = copy_symlink_step [OF r src assms(2,3)]
  have "tree_copied s t ?src ?dst" if "e = None" "kind_disk k s"
    using st(2) [OF that(1)] that(2) by (intro leaf_tree [OF assms(1,5)]) (auto simp: kind_disk_def takes_metadata_def)
  then show ?thesis
    by (intro drop_source_safe [OF su r own_mono [OF st(1)] _ assms(1,4,2)]) (auto simp: entry_place_def)
qed

lemma file_moved:
  assumes "wf_fs s" and "plain_name sn" and "plain_name dn" and "unrelated (sd @ [sn]) (dd @ [dn])"
    and "node_at s (sd @ [sn]) = Some x" and "\<not> is_dir_node x"
  shows "safe_move k s (sd, sn) (dd @ [dn]) (drop_source (sd, sn) (copy_file_at k False (unlink_quietly s dd dn) sd sn dd dn))"
proof -
  let ?u = "unlink_quietly s dd dn" and ?src = "sd @ [sn]" and ?dst = "dd @ [dn]"
  have su: "own_step (prefix ?dst) s ?u" by (rule own_unlink_quietly [OF assms(3)]) simp
  have src: "node_at ?u ?src = Some x" using apart_source_nodes [OF su assms(4), of "[]"] assms(5) by simp
  obtain e t where r: "copy_file_at k False ?u sd sn dd dn = (e, t)" by fastforce
  note st = copy_file_step [OF r own_stepD(1) [OF su assms(1)] assms(2,3)]
  have "tree_copied s t ?src ?dst" if ok: "e = None" "kind_disk k s"
  proof -
    obtain i j p d where i: "x = NFile i" and j: "node_at t ?dst = Some (NFile j)" "f_next ?u \<le> j"
      "f_data t j = copy_metadata k p (fd_mode (f_data ?u i)) (fd_mtime (f_data ?u i)) (d\<lparr>fd_bytes := copy_data k i (fd_bytes (f_data ?u i))\<rparr>)"
      using st(2) [OF ok(1)] src by auto
    note kind = kind_since [OF su assms(1) assms(5) [unfolded i] ok(2)]
    have b: "copy_data k i (fd_bytes (f_data ?u i)) = fd_bytes (f_data ?u i)" by (rule copied_bytes_are_the_source) (use kind in simp)
    have "i < f_next s" using wf_fsD(3) [OF assms(1,5)] i by (simp add: wf_entry_def)
    from own_stepD(2,3) [OF su] this j kind b have "entry_copied s t x (NFile j)"
      by (simp add: i copy_metadata_def takes_metadata_def)
    then show ?thesis by (rule leaf_tree [OF assms(1,5,6) j(1)])
  qed
  then show ?thesis
    by (intro drop_source_safe [OF su r own_mono [OF st(1)] _ assms(1,4,2)]) (auto simp: entry_place_def)
qed

lemma directory_moved:
  assumes "wf_fs s" and "plain_name sn" and "plain_name dn" and "unrelated (sd @ [sn]) (dd @ [dn])"
    and "copy_tree_pinned k False s (sd, sn) (dd, dn) = Some (Inr (0, 0), t)" and "rmtree_at True False t sd sn = (res, v)"
  shows "safe_move k s (sd, sn) (dd @ [dn]) ((case res of Inl e \<Rightarrow> Inl e | Inr ok \<Rightarrow> Inr 0), v)"
proof -
  let ?src = "sd @ [sn]" and ?dst = "dd @ [dn]"
  have cp: "own_step (prefix ?dst) s t" "kind_disk k s \<Longrightarrow> tree_copied s t ?src ?dst"
    using copy_tree_pinned_copies [OF assms(1-4), of k False] assms(5) by (auto simp: clean_names_def)
  have rm: "own_step (\<lambda>q. q = sd \<or> prefix ?src q) t v \<and> (\<forall>b. res = Inr b \<longrightarrow> b \<and> node_at v ?src = None)"
    by (rule own_remove_entry [OF assms(6) [unfolded rmtree_at_def] own_stepD(1) [OF cp(1) assms(1)] assms(2)])
  show ?thesis by (rule safe_dropped [OF cp assms(1,4) conjunct1 [OF rm]]) (use rm in \<open>auto split: sum.splits\<close>)
qed

lemma move_pinned_safe:
  assumes "wf_fs s" and "plain_name sn" and "plain_name dn" and "unrelated (sd @ [sn]) (dd @ [dn])"
  shows "\<exists>r. move_pinned k s (sd, sn) (dd, dn) = Some r \<and> safe_move k s (sd, sn) (dd @ [dn]) r"
proof -
  let ?src = "sd @ [sn]" and ?dst = "dd @ [dn]"
  have same: "safe_move k s (sd, sn) ?dst (Inl e, s)" for e by (rule safe_kept [OF own_refl assms(4)]) simp
  show ?thesis
  proof (cases "guard k (CRename (at dd dn)) (rename_between s sd sn dd dn)")
    case (Inr t)
    have "rename_between s sd sn dd dn = Inr t" using Inr by (simp add: guard_Inr)
    from rename_between_moves [OF this assms(1,4)] Inr show ?thesis by (simp add: move_pinned_def)
  next
    case ren: (Inl e)
    show ?thesis
    proof (cases "e = EXDEV \<and> (\<exists>x. guard k (CLstat (at sd sn)) (lstat_at s sd sn) = Inr x)")
      case False
      then show ?thesis using ren same by (auto simp: move_pinned_def split: sum.splits)
    next
      case True
      then obtain x where e: "e = EXDEV" and st: "guard k (CLstat (at sd sn)) (lstat_at s sd sn) = Inr x" by blast
      then have x: "node_at s ?src = Some x" using assms(2) by (simp add: guard_Inr lstat_at_def at_plain split: option.splits)
      note unf = move_pinned_def ren e st
      show ?thesis
      proof (cases x)
        case (NDir m u)
        obtain c t where c: "copy_tree_pinned k False s (sd, sn) (dd, dn) = Some (c, t)" "own_step (prefix ?dst) s t"
          using copy_tree_pinned_copies [OF assms, of k False] by blast
        note kept = safe_kept [OF c(2) assms(4)]
        obtain res v where rm: "rmtree_at True False t sd sn = (res, v)" by fastforce
        show ?thesis
        proof (cases "c = Inr (0, 0)")
          case True
          with directory_moved [OF assms c(1) [unfolded True] rm] c(1) rm NDir show ?thesis
            by (cases res) (simp_all add: unf)
        next
          case False
          then have "safe_move k s (sd, sn) ?dst (case c of Inl e' \<Rightarrow> Inl e' | Inr (f, sk) \<Rightarrow> Inr (f + sk), t)"
            by (intro kept) (auto split: sum.splits)
          with False c(1) NDir show ?thesis by (cases c) (auto simp: unf split: prod.splits)
        qed
      qed (use link_moved [OF assms] file_moved [OF assms x] x in \<open>simp_all add: unf\<close>)
    qed
  qed
qed

text \<open>A pin without a name, of the root of a container, can be neither moved nor moved onto.\<close>

lemma empty_name: "wf_fs s \<Longrightarrow> node_at s (d @ [[]]) = None"
  using wf_node(1) [of s d "[]"] by (cases "node_at s (d @ [[]])") (auto simp: plain_name_def)

lemma move_of_nothing: "wf_fs s \<Longrightarrow> \<exists>e. move_pinned k s (sd, []) dp = Some (Inl e, s)"
  using empty_name [of s sd]
  by (cases dp) (auto simp: move_pinned_def rename_between_def guard_def lstat_at_def at_def split: option.splits)

lemma make_at_nothing:
  assumes "wf_fs s"
  shows "mkdir_at s d [] m \<noteq> Inr t" and "mkdir_at s d [] m \<noteq> Inl EEXIST" and "\<exists>e. symlink_at s g d [] = Inl e" and "\<exists>e. open_new_at s d [] m = Inl e"
    and "unlink_quietly s d [] = s"
  using empty_name [OF assms, of d]
  by (auto simp: mkdir_at_def symlink_at_def open_new_at_def create_excl_def unlink_quietly_def unlink_at_def at_def plain_name_def)

lemma copy_to_nothing:
  assumes "wf_fs s"
  shows "\<exists>e. copy_symlink_at k False s sd sn dd [] st = (Some e, s)" and "\<exists>e. copy_file_at k False s sd sn dd [] = (Some e, s)"
    and "\<exists>e. copy_tree_pinned k False s (sd, sn) (dd, []) = Some (Inl e, s)"
proof -
  note none = make_at_nothing [where d = dd, OF assms]
  have link: "\<exists>e. guard k c (symlink_at s g dd []) = Inl e" for g c using none(3) [of g] by (auto simp: guard_def split: option.splits)
  show "\<exists>e. copy_symlink_at k False s sd sn dd [] st = (Some e, s)"
  proof (cases "guard k (CReadlink (at sd sn)) (readlink_at s sd sn)")
    case (Inr g)
    with link [of "CSymlink (at dd [])" g] show ?thesis by (auto simp: copy_symlink_at_def Let_def)
  qed (simp add: copy_symlink_at_def)
  show "\<exists>e. copy_file_at k False s sd sn dd [] = (Some e, s)"
  proof (cases "guard k (COpen (at sd sn)) (open_regular_at s sd sn)")
    case (Inr i)
    obtain e where "open_new_at s dd [] (S_IMODE (fd_mode (f_data s i))) = Inl e" using none(4) by blast
    with Inr show ?thesis by (cases "dk_fault k (CCreate (at dd []))") (simp_all add: copy_file_at_def Let_def guard_def)
  qed (simp add: copy_file_at_def)
  obtain e where "copy_mkdir k False s dd [] = Inl e"
    using none(1) by (cases "copy_mkdir k False s dd []") (auto simp: copy_mkdir_def guard_def split: sum.splits option.splits if_splits)
  then show "\<exists>e. copy_tree_pinned k False s (sd, sn) (dd, []) = Some (Inl e, s)"
    by (auto simp: copy_tree_pinned_def split: sum.splits option.splits node.splits)
qed

lemma move_to_nothing:
  assumes "wf_fs s"
  shows "\<exists>e. move_pinned k s (sd, sn) (dd, []) = Some (Inl e, s)"
proof -
  have "\<exists>e. rename_between s sd sn dd [] = Inl e" by (simp add: rename_between_def split: option.splits)
  then obtain e where e: "guard k (CRename (at dd [])) (rename_between s sd sn dd []) = Inl e"
    by (cases "dk_fault k (CRename (at dd []))") (auto simp: guard_def)
  note copies = copy_to_nothing [OF assms, of k sd sn dd] and quiet = make_at_nothing(5) [where d = dd, OF assms]
  show ?thesis
  proof (cases "guard k (CLstat (at sd sn)) (lstat_at s sd sn)")
    case (Inl e')
    with e show ?thesis by (simp add: move_pinned_def)
  next
    case (Inr x)
    obtain e1 e2 where "copy_tree_pinned k False s (sd, sn) (dd, []) = Some (Inl e1, s)" "copy_file_at k False s sd sn dd [] = (Some e2, s)"
      using copies(2,3) by blast
    moreover obtain c where "\<And>st. copy_symlink_at k False s sd sn dd [] st = (Some (c st), s)" using copies(1) by metis
    ultimately show ?thesis using e Inr quiet by (cases x) (simp_all add: move_pinned_def drop_source_def)
  qed
qed

end
