(* ===== verification/Copy_Command.thy ===== *)
theory Copy_Command
  imports Copy_Move Spec_Props
begin

text \<open>
  The \<open>copy\<close> command: the two ends resolved, checked and weighed against each other, both pinned, and then a copy of a
  file, a merging copy of a tree or a move between the pins. The messages are left out. What \<open>realpath\<close> and \<open>access\<close>
  say of a path is an argument; a path of the host is opened by names that are no links any more.
\<close>

record host =
  h_real :: "string \<Rightarrow> string"
  h_cwd :: string
  h_readable :: "path \<Rightarrow> bool"

datatype copy_stop =
    BadEnd spec_error | DotName | Missing | NotCopyable | NotReadable | IsDirectory | Overlapping overlap_error
  | Unpinned pin_error | Broken errno | Partial nat

subsection \<open>The ends\<close>

definition endpoint_path :: "layout \<Rightarrow> endpoint \<Rightarrow> path" where
  "endpoint_path l e = (case e of HostSide p \<Rightarrow> names_of p | GuestSide name ps \<Rightarrow> guest_root l name @ ps)"

definition endpoint_base :: "layout \<Rightarrow> endpoint \<Rightarrow> string" where
  "endpoint_base l e =
     (case e of
        HostSide p \<Rightarrow> last (split_on CHR ''/'' p)
      | GuestSide name ps \<Rightarrow> last (split_on CHR ''/'' (rootfs_string l name) @ ps))"

text \<open>\<open>os.path.samestat\<close> of two paths without links on the way.\<close>

definition same_entry :: "fs \<Rightarrow> path \<Rightarrow> path \<Rightarrow> bool" where
  "same_entry s p q \<longleftrightarrow>
     (case (node_at s p, node_at s q) of
        (Some (NFile i), Some (NFile j)) \<Rightarrow> i = j
      | (Some x, Some y) \<Rightarrow> p = q
      | _ \<Rightarrow> False)"

definition check_source :: "host \<Rightarrow> layout \<Rightarrow> fs \<Rightarrow> endpoint \<Rightarrow> bool \<Rightarrow> bool \<Rightarrow> copy_stop option" where
  "check_source h l s e move recursive =
     (case node_at s (endpoint_path l e) of
        None \<Rightarrow> Some Missing
      | Some x \<Rightarrow>
          (if \<not> move \<and> is_link_node x then Some Missing
           else if x = NSpecial then Some NotCopyable
           else if \<not> is_link_node x \<and> \<not> h_readable h (endpoint_path l e) then Some NotReadable
           else if is_dir_node x \<and> \<not> recursive \<and> \<not> move then Some IsDirectory
           else None))"

definition final_dest :: "host \<Rightarrow> layout \<Rightarrow> fs \<Rightarrow> endpoint \<Rightarrow> endpoint \<Rightarrow> string \<Rightarrow> bool \<Rightarrow> spec_error + endpoint" where
  "final_dest h l s se de dest move =
     (case (if move then resolve_container_path l (h_real h) (h_cwd h) s dest True else Inr de) of
        Inl e \<Rightarrow> Inl e
      | Inr target \<Rightarrow>
          (if is_dir s (endpoint_path l target)
           then resolve_container_child l (h_real h) s target (endpoint_base l se) (\<not> move)
           else Inr de))"

definition copy_ends :: "host \<Rightarrow> layout \<Rightarrow> fs \<Rightarrow> string \<Rightarrow> string \<Rightarrow> bool \<Rightarrow> bool \<Rightarrow> copy_stop + endpoint \<times> endpoint" where
  "copy_ends h l s src dest move recursive =
     (case resolve_container_path l (h_real h) (h_cwd h) s src (\<not> move) of
        Inl e \<Rightarrow> Inl (BadEnd e)
      | Inr se \<Rightarrow>
          (case resolve_container_path l (h_real h) (h_cwd h) s dest (\<not> move) of
             Inl e \<Rightarrow> Inl (BadEnd e)
           | Inr de \<Rightarrow>
               (if endpoint_base l de \<in> {''.'', ''..''} then Inl DotName
                else case check_source h l s se move recursive of
                    Some stop \<Rightarrow> Inl stop
                  | None \<Rightarrow>
                      (case final_dest h l s se de dest move of
                         Inl e \<Rightarrow> Inl (BadEnd e)
                       | Inr fe \<Rightarrow>
                           (case refuse_src_dest_overlap l (h_real h) (same_entry s (endpoint_path l se) (endpoint_path l fe))
                                se fe (\<not> move) False of
                              Some w \<Rightarrow> Inl (Overlapping w)
                            | None \<Rightarrow> Inr (se, fe))))))"

text \<open>The directory of a host path is made with \<open>makedirs\<close> where it is missing.\<close>

definition pin_endpoint :: "layout \<Rightarrow> bool \<Rightarrow> fs \<Rightarrow> endpoint \<Rightarrow> (pin_error + pin) \<times> fs" where
  "pin_endpoint l create s e =
     (case e of
        GuestSide name ps \<Rightarrow> pin_path l False create s name ps
      | HostSide p \<Rightarrow>
          (case (descend_at create s [] (names_of (or_else (dir_name p) ''/''))) of
             (Inl x, t) \<Rightarrow> (Inl (CannotOpen x), t)
           | (Inr d, t) \<Rightarrow> (Inr (d, last (split_on CHR ''/'' p)), t)))"

subsection \<open>The command\<close>

definition transfer_pinned :: "disk \<Rightarrow> bool \<Rightarrow> bool \<Rightarrow> fs \<Rightarrow> pin \<Rightarrow> pin \<Rightarrow> ((errno + nat) \<times> fs) option" where
  "transfer_pinned k move tree s sp dp =
     (if move then move_pinned k s sp dp
      else if tree then map_option (\<lambda>(r, t). (map_sum id fst r, t)) (copy_tree_pinned k True s sp dp)
      else Some (case copy_file_at k True s (fst sp) (snd sp) (fst dp) (snd dp) of
                   (None, t) \<Rightarrow> (Inr 0, t)
                 | (Some e, t) \<Rightarrow> (Inl e, t)))"

definition do_copy ::
  "host \<Rightarrow> layout \<Rightarrow> disk \<Rightarrow> fs \<Rightarrow> string \<Rightarrow> string \<Rightarrow> bool \<Rightarrow> bool \<Rightarrow> (copy_stop option \<times> fs) option" where
  "do_copy h l k s src dest move recursive =
     (case copy_ends h l s src dest move recursive of
        Inl stop \<Rightarrow> Some (Some stop, s)
      | Inr (se, de) \<Rightarrow>
          (case pin_endpoint l False s se of
             (Inl e, t) \<Rightarrow> Some (Some (Unpinned e), t)
           | (Inr sp, t) \<Rightarrow>
               (case pin_endpoint l True t de of
                  (Inl e, u) \<Rightarrow> Some (Some (Unpinned e), u)
                | (Inr dp, u) \<Rightarrow>
                    map_option (\<lambda>(r, v). (case r of Inl e \<Rightarrow> Some (Broken e) | Inr n \<Rightarrow> if n = 0 then None else Some (Partial n), v))
                      (transfer_pinned k move (is_dir s (endpoint_path l se)) u sp dp))))"

subsection \<open>Pins\<close>

text \<open>Directories are made, and nothing else changes.\<close>

definition made_dirs :: "(path \<Rightarrow> bool) \<Rightarrow> fs \<Rightarrow> fs \<Rightarrow> bool" where
  "made_dirs B s t \<longleftrightarrow> own_step B s t \<and> f_next t = f_next s \<and> (\<forall>q i. node_at t q = Some (NFile i) \<longrightarrow> node_at s q = Some (NFile i))"

lemma made_refl [simp]: "made_dirs B s s"
  by (simp add: made_dirs_def)

lemma made_trans: "made_dirs B s t \<Longrightarrow> made_dirs B t u \<Longrightarrow> made_dirs B s u"
  unfolding made_dirs_def using own_trans by metis

lemma made_mkdir: "mkdir_at s d n m = Inr t \<Longrightarrow> B (d @ [n]) \<Longrightarrow> made_dirs B s t"
  using own_mkdir(1) [of s d n m t B]
  by (auto simp: made_dirs_def mkdir_at_def split: if_splits)

lemma made_descend:
  assumes "pin_descend create s d part = (res, t)" and "prefix r d" and "plain_name part"
  shows "made_dirs (prefix r) s t" and "res = Inr p \<Longrightarrow> p = d @ [part]" and "\<not> create \<Longrightarrow> t = s"
proof -
  have "prefix r (d @ [part])" using assms(2) by simp
  then show "made_dirs (prefix r) s t"
    using assms(1) made_mkdir [where B = "prefix r" and s = s and d = d] by (auto simp: pin_descend_def split: sum.splits if_splits)
  show "res = Inr p \<Longrightarrow> p = d @ [part]" "\<not> create \<Longrightarrow> t = s" using pin_descend_step(2,4) [OF assms(1,3,2)] by blast+
qed

lemma made_walk:
  "pin_walk create s d parts = (res, t) \<Longrightarrow> prefix r d \<Longrightarrow> list_all plain_name parts \<Longrightarrow>
     made_dirs (prefix r) s t \<and> (\<forall>p. res = Inr p \<longrightarrow> p = d @ parts) \<and> (\<not> create \<longrightarrow> t = s)"
proof (induction create s d parts arbitrary: res t rule: pin_walk.induct)
  case (2 create s d part parts)
  obtain o1 u where o1: "pin_descend create s d part = (o1, u)" by fastforce
  have pn: "plain_name part" using "2.prems"(3) by simp
  note st = made_descend [OF o1 "2.prems"(2) pn]
  show ?case
  proof (cases o1)
    case (Inl e)
    with o1 st "2.prems"(1) show ?thesis by auto
  next
    case (Inr p)
    then have p: "p = d @ [part]" using st(2) by blast
    have "made_dirs (prefix r) u t \<and> (\<forall>q. res = Inr q \<longrightarrow> q = p @ parts) \<and> (\<not> create \<longrightarrow> t = u)"
      using "2.IH" [OF o1 [symmetric] Inr, of res t] "2.prems" o1 Inr p by simp
    with made_trans [OF st(1)] p st(3) show ?thesis by auto
  qed
qed simp

text \<open>A pin in a container is below its rootfs, and its name is the last of the path or empty for the rootfs.\<close>

lemma pin_guest:
  assumes "good_layout l" and "is_valid_name name" and "list_all plain_name parts" and "pin_path l False create s name parts = (res, t)"
  shows "made_dirs (prefix (container_path l name @ [''rootfs''])) s t"
    and "res = Inr p \<Longrightarrow> p = (container_path l name @ ''rootfs'' # butlast parts, if parts = [] then [] else last parts)"
    and "\<not> create \<Longrightarrow> t = s"
proof -
  let ?root = "container_path l name @ [''rootfs'']" and ?leaf = "if parts = [] then [] else last parts"
  have ps: "(if False \<or> parts = [] then (parts, []) else (butlast parts, last parts)) = (butlast parts, ?leaf)" by auto
  have pl: "list_all plain_name (butlast parts)" using assms(3) by (auto simp: list_all_iff dest: in_set_butlastD)
  obtain o1 u where o1: "open_container_rootfs l False s name = (o1, u)" by fastforce
  note op = rootfs_opened [OF o1]
  have "made_dirs (prefix ?root) s t \<and> (res = Inr p \<longrightarrow> p = (?root @ butlast parts, ?leaf)) \<and> (\<not> create \<longrightarrow> t = s)"
  proof (cases o1)
    case (Inl e)
    with assms(4) o1 op(1) ps show ?thesis by (auto simp: pin_path_def)
  next
    case (Inr r)
    with op(2) [OF assms(1,2)] have r: "r = ?root" by blast
    obtain o2 v where w: "pin_walk create s r (butlast parts) = (o2, v)" by fastforce
    have "made_dirs (prefix ?root) s v \<and> (\<forall>p. o2 = Inr p \<longrightarrow> p = ?root @ butlast parts) \<and> (\<not> create \<longrightarrow> v = s)" using made_walk [OF w _ pl, of ?root] r by simp
    moreover have "t = v" "res = (case o2 of Inl e \<Rightarrow> Inl e | Inr d \<Rightarrow> Inr (d, ?leaf))"
      using assms(4) ps o1 op(1) Inr w by (auto simp: pin_path_def split: sum.splits)
    ultimately show ?thesis by (auto split: sum.splits)
  qed
  then show "made_dirs (prefix ?root) s t"
    and "res = Inr p \<Longrightarrow> p = (container_path l name @ ''rootfs'' # butlast parts, ?leaf)" and "\<not> create \<Longrightarrow> t = s" by simp_all
qed

subsection \<open>Where the ends lead\<close>

lemma guest_end:
  assumes "good_layout l" and "resolve_container_path l real cwd s spec deref = Inr e" and "container_from_spec spec = Some name"
  shows "is_valid_name name" and "guest_root l name = container_path l name @ [''rootfs'']" and "is_dir s (guest_root l name)"
    and "\<exists>ps. e = GuestSide name ps \<and> list_all plain_name ps"
proof -
  let ?rel = "dropWhile (\<lambda>c. c = CHR ''/'') (spec_path spec)"
  obtain ps where n: "is_valid_name name" "container_is_installed l s name = Inr True" "walk_spec s (guest_root l name) ?rel deref = Some ps" "e = GuestSide name ps"
    using assms(2,3) by (auto simp: resolve_container_path_def Let_def split: option.splits if_splits sum.splits)
  show "is_valid_name name" by (rule n(1))
  show "guest_root l name = container_path l name @ [''rootfs'']" and d: "is_dir s (guest_root l name)" by (rule installed_root [OF assms(1) n(1,2)])+
  show "\<exists>ps. e = GuestSide name ps \<and> list_all plain_name ps" using walk_spec_ok [OF n(3) d] n(4) by blast
qed

lemma guest_ends:
  assumes "good_layout l" and "copy_ends h l s src dest True recursive = Inr (se, de)"
    and "container_from_spec src = Some a" and "container_from_spec dest = Some b"
  obtains ps qs where "se = GuestSide a ps" "de = GuestSide b qs" "list_all plain_name ps" "list_all plain_name qs" "is_valid_name a" "is_valid_name b"
    "\<not> same_entry s (container_path l a @ ''rootfs'' # ps) (container_path l b @ ''rootfs'' # qs)"
proof -
  obtain d0 where r: "resolve_container_path l (h_real h) (h_cwd h) s src False = Inr se"
    "resolve_container_path l (h_real h) (h_cwd h) s dest False = Inr d0" "final_dest h l s se d0 dest True = Inr de"
    and ov: "refuse_src_dest_overlap l (h_real h) (same_entry s (endpoint_path l se) (endpoint_path l de)) se de False False = None"
    using assms(2) by (auto simp: copy_ends_def split: sum.splits option.splits if_splits)
  note g = guest_end [OF assms(1) r(1) assms(3)]
  note g0 = guest_end [OF assms(1) r(2) assms(4)]
  obtain tg where tg: "resolve_container_path l (h_real h) (h_cwd h) s dest True = Inr tg" using r(3) by (auto simp: final_dest_def split: sum.splits)
  obtain ts where ts: "tg = GuestSide b ts" using guest_end(4) [OF assms(1) tg assms(4)] by blast
  have "\<exists>qs. de = GuestSide b qs \<and> list_all plain_name qs"
  proof (cases "is_dir s (endpoint_path l tg)")
    case True
    then obtain rel q where "walk_spec s (guest_root l b) rel False = Some q" "de = GuestSide b q"
      using r(3) tg ts by (auto simp: final_dest_def resolve_container_child_def Let_def split: option.splits)
    with walk_spec_ok [OF this(1) g0(3)] show ?thesis by simp
  next
    case False
    then have "de = d0" using r(3) tg by (simp add: final_dest_def)
    with g0(4) show ?thesis by simp
  qed
  then obtain qs where qs: "de = GuestSide b qs" "list_all plain_name qs" by blast
  obtain ps where ps: "se = GuestSide a ps" "list_all plain_name ps" using g(4) by blast
  have "\<not> same_entry s (container_path l a @ ''rootfs'' # ps) (container_path l b @ ''rootfs'' # qs)"
    using ov ps(1) qs(1) g(2) g0(2) by (auto simp: refuse_src_dest_overlap_def endpoint_path_def Let_def split: if_splits)
  with ps qs g(1) g0(1) that show thesis by blast
qed

subsection \<open>A move from one container to another\<close>

lemma carried_since:
  assumes "carried u t p q" and "made_dirs (prefix d) s u" and "wf_fs s" and "unrelated p d"
  shows "carried s t p q"
proof -
  have own: "own_step (prefix d) s u" using assms(2) by (simp add: made_dirs_def)
  note same = apart_source_nodes [OF own assms(4)]
  have "tree_copied s t p q" if tc: "tree_copied u t p q"
    unfolding tree_copied_def
  proof (intro allI impI)
    fix w x assume x: "node_at s (p @ w) = Some x"
    then obtain y where y: "node_at t (q @ w) = Some y" "entry_copied u t x y" using tc same [of w] x by (auto simp: tree_copied_def)
    have "i < f_next s" if "x = NFile i" for i using wf_fsD(3) [OF assms(3) x] that by (simp add: wf_entry_def)
    from entry_copied_since [OF y(2) own this] y(1) show "\<exists>y. node_at t (q @ w) = Some y \<and> entry_copied s t x y" by blast
  qed
  with assms(1) same show ?thesis unfolding carried_def by auto
qed

text \<open>What holds of a move of \<open>p\<close> to somewhere under \<open>d\<close> that ended with \<open>res\<close>.\<close>

definition nothing_lost :: "fs \<Rightarrow> fs \<Rightarrow> path \<Rightarrow> path \<Rightarrow> copy_stop option \<Rightarrow> bool" where
  "nothing_lost s t p d res \<longleftrightarrow>
     (\<forall>i < f_next s. f_data t i = f_data s i)
     \<and> (\<forall>q. q \<noteq> butlast p \<and> \<not> prefix p q \<and> \<not> prefix d q \<longrightarrow> node_at t q = node_at s q)
     \<and> (source_kept s t p \<or> (\<exists>q. prefix d q \<and> carried s t p q))
     \<and> (\<forall>n. res = Some (Partial n) \<longrightarrow> source_kept s t p)
     \<and> (res = None \<longrightarrow> node_at t p = None \<and> (\<exists>q. prefix d q \<and> carried s t p q))"

lemma made_nothing_lost:
  assumes "made_dirs (prefix d) s t" and "unrelated p d" and "res \<noteq> None"
  shows "nothing_lost s t p d res"
proof -
  have own: "own_step (prefix d) s t" using assms(1) by (simp add: made_dirs_def)
  with own_stepD(3,4) [OF own] apart_source_nodes [OF own assms(2)] assms(3) show ?thesis
    by (auto simp: nothing_lost_def source_kept_def)
qed

lemma safe_move_nothing_lost:
  assumes "made_dirs (prefix d) s u" and "wf_fs s" and "kind_disk k s" and "unrelated (sd @ [sn]) d" and "prefix d q"
    and "safe_move k u (sd, sn) q (r, t)" and "\<not> same_entry s (sd @ [sn]) q"
    and "res = (case r of Inl e \<Rightarrow> Some (Broken e) | Inr n \<Rightarrow> if n = 0 then None else Some (Partial n))"
  shows "nothing_lost s t (sd @ [sn]) d res"
proof -
  let ?p = "sd @ [sn]"
  have own: "own_step (prefix d) s u" and nx: "f_next u = f_next s" and files: "node_at u x = Some (NFile i) \<Longrightarrow> node_at s x = Some (NFile i)" for x i
    using assms(1) by (auto simp: made_dirs_def)
  note same = apart_source_nodes [OF own assms(4)]
  have k: "kind_disk k u" using assms(3) own_stepD(3) [OF own] nx by (simp add: kind_disk_def)
  have differ: "\<not> (\<exists>i. t = u \<and> node_at u ?p = Some (NFile i) \<and> node_at u q = Some (NFile i))"
    using assms(7) files by (auto simp: same_entry_def)
  note m = assms(6) [unfolded safe_move_def Let_def fst_conv snd_conv]
  have c: "carried u t ?p q \<Longrightarrow> \<exists>q. prefix d q \<and> carried s t ?p q" using carried_since [OF _ assms(1,2,4)] assms(5) by blast
  have kept: "source_kept u t ?p \<Longrightarrow> source_kept s t ?p" using same by (simp add: source_kept_def)
  have "f_data t i = f_data s i" if "i < f_next s" for i using that m nx own_stepD(3) [OF own that] by simp
  moreover have "node_at t x = node_at s x" if x: "x \<noteq> sd" "\<not> prefix ?p x" "\<not> prefix d x" for x
  proof -
    have "\<not> prefix q x" using assms(5) x(3) prefix_order.trans by blast
    with m x own_stepD(4) [OF own x(3)] show ?thesis by simp
  qed
  ultimately show ?thesis
    using m k differ c kept assms(8) by (auto simp: nothing_lost_def split: sum.splits if_splits)
qed

lemma rootfs_apart:
  assumes "a \<noteq> b"
  shows "unrelated (container_path l a @ ''rootfs'' # ps) (container_path l b @ [''rootfs''])"
  using assms by (auto simp: unrelated_def container_path_def prefix_def)

lemma pinned_move:
  assumes "made_dirs (prefix d) s u" and "wf_fs s" and "kind_disk k s" and "unrelated (r @ ps) d" and "prefix d (r' @ qs)"
    and "\<not> same_entry s (r @ ps) (r' @ qs)" and "list_all plain_name ps" and "list_all plain_name qs"
  shows "\<exists>c v. move_pinned k u (r @ butlast ps, if ps = [] then [] else last ps) (r' @ butlast qs, if qs = [] then [] else last qs) = Some (c, v)
    \<and> nothing_lost s v (r @ ps) d (case c of Inl e \<Rightarrow> Some (Broken e) | Inr n \<Rightarrow> if n = 0 then None else Some (Partial n))"
proof -
  have w: "wf_fs u" using assms(1,2) own_stepD(1) by (auto simp: made_dirs_def)
  have refused: "nothing_lost s u (r @ ps) d (Some (Broken e))" for e by (rule made_nothing_lost [OF assms(1,4)]) simp
  consider "ps = []" | "qs = []" | "ps \<noteq> []" "qs \<noteq> []" by blast
  then show ?thesis
  proof cases
    case 1
    obtain e where "move_pinned k u (r, []) (r' @ butlast qs, if qs = [] then [] else last qs) = Some (Inl e, u)"
      using move_of_nothing [OF w] by blast
    with refused [of e] 1 show ?thesis by auto
  next
    case 2
    obtain e where "move_pinned k u (r @ butlast ps, if ps = [] then [] else last ps) (r', []) = Some (Inl e, u)"
      using move_to_nothing [OF w] by blast
    with refused [of e] 2 show ?thesis by auto
  next
    case 3
    then obtain sd sn dd dn where e: "ps = sd @ [sn]" "qs = dd @ [dn]" by (metis rev_exhaust)
    have "unrelated (r @ sd @ [sn]) (r' @ dd @ [dn])"
      using assms(4,5) e prefix_same_cases [of d _ "r @ sd @ [sn]"] unfolding unrelated_def by (metis prefix_order.trans prefix_same_cases)
    with move_pinned_safe [OF w, of sn dn "r @ sd" "r' @ dd" k] assms(7,8) e obtain c v
      where m: "move_pinned k u (r @ sd, sn) (r' @ dd, dn) = Some (c, v)" "safe_move k u (r @ sd, sn) (r' @ dd @ [dn]) (c, v)" by auto
    from safe_move_nothing_lost [of d s u k "r @ sd" sn, OF assms(1-3) _ _ m(2) _ refl] assms(4-6) m(1) e show ?thesis by simp
  qed
qed

text \<open>C16. A move from one container to another loses nothing, whichever call fails: by one rename, or across devices by a
  copy and a removal. The command always ends. No byte of a file that was there changes, and no entry but those of the
  source, the directory it stands in and those of the destination's rootfs. The source is still there, entry for entry,
  or everything in it is somewhere in the destination's rootfs, the same inodes or copies with contents, mode, time and
  target; it is untouched when entries are reported as left behind, and gone and carried over when the command
  succeeds.\<close>

theorem move_loses_nothing:
  assumes "good_layout l" and "wf_fs s" and "kind_disk k s"
    and "resolve_container_path l (h_real h) (h_cwd h) s src False = Inr (GuestSide a ps)" and "container_from_spec dest = Some b" and "a \<noteq> b"
  shows "\<exists>res t. do_copy h l k s src dest True recursive = Some (res, t)
    \<and> (let p = container_path l a @ ''rootfs'' # ps; d = container_path l b @ [''rootfs''] in
        (\<forall>i < f_next s. f_data t i = f_data s i)
        \<and> (\<forall>q. q \<noteq> butlast p \<and> \<not> prefix p q \<and> \<not> prefix d q \<longrightarrow> node_at t q = node_at s q)
        \<and> ((\<forall>w. node_at t (p @ w) = node_at s (p @ w)) \<or> (\<exists>q. prefix d q \<and> carried s t p q))
        \<and> (\<forall>n. res = Some (Partial n) \<longrightarrow> (\<forall>w. node_at t (p @ w) = node_at s (p @ w)))
        \<and> (res = None \<longrightarrow> node_at t p = None \<and> (\<exists>q. prefix d q \<and> carried s t p q)))"
proof -
  let ?p = "container_path l a @ ''rootfs'' # ps" and ?d = "container_path l b @ [''rootfs'']"
  have a: "container_from_spec src = Some a"
    using assms(4) by (auto simp: resolve_container_path_def Let_def split: option.splits if_splits sum.splits)
  note ap = rootfs_apart [OF assms(6), of l ps]
  have "\<exists>res t. do_copy h l k s src dest True recursive = Some (res, t) \<and> nothing_lost s t ?p ?d res"
  proof (cases "copy_ends h l s src dest True recursive")
    case (Inl stop)
    with made_nothing_lost [OF made_refl ap] show ?thesis by (auto simp: do_copy_def)
  next
    case (Inr ends)
    obtain se de where sd: "ends = (se, de)" by (cases ends)
    obtain ps' qs where e: "se = GuestSide a ps'" "de = GuestSide b qs" "list_all plain_name ps'" "list_all plain_name qs" "is_valid_name a" "is_valid_name b"
      "\<not> same_entry s (container_path l a @ ''rootfs'' # ps') (container_path l b @ ''rootfs'' # qs)"
      by (rule guest_ends [OF assms(1) Inr [unfolded sd] a assms(5)])
    have "se = GuestSide a ps" using Inr sd assms(4) by (auto simp: copy_ends_def split: sum.splits option.splits if_splits)
    then have ps: "ps' = ps" using e(1) by simp
    obtain o1 s1 where o1: "pin_path l False False s a ps = (o1, s1)" by fastforce
    note pa = pin_guest [OF assms(1) e(5) e(3) [unfolded ps] o1]
    obtain o2 u where o2: "pin_path l False True s b qs = (o2, u)" by fastforce
    note pb = pin_guest [OF assms(1) e(6,4) o2]
    note run = do_copy_def Inr sd e(1,2) ps pin_endpoint_def o1 o2 pa(3)
    show ?thesis
    proof (cases "\<exists>sp dp. o1 = Inr sp \<and> o2 = Inr dp")
      case False
      then have "(\<exists>x. o1 = Inl x) \<or> (\<exists>x. o2 = Inl x)" by (cases o1; cases o2) auto
      with made_nothing_lost [OF made_refl ap] made_nothing_lost [OF pb(1) ap] show ?thesis by (auto simp: run split: sum.splits)
    next
      case True
      then obtain sp dp where p: "o1 = Inr sp" "o2 = Inr dp" by blast
      have "unrelated ((container_path l a @ [''rootfs'']) @ ps) ?d" using ap by simp
      from pinned_move [OF pb(1) assms(2,3) this, of "?d" qs] e(3,4,7) ps pa(2) [OF p(1)] pb(2) [OF p(2)] p
      show ?thesis by (auto simp: run transfer_pinned_def)
    qed
  qed
  then show ?thesis by (simp add: nothing_lost_def source_kept_def Let_def)
qed

definition two_devices :: disk where
  "two_devices = sample_disk\<lparr>dk_fault := (\<lambda>c. case c of CRename p \<Rightarrow> Some EXDEV | _ \<Rightarrow> None)\<rparr>"

definition two_containers :: fs where
  "two_containers = sample_state [([''rt'', ''containers''], NDir 493 0), ([''rt'', ''containers'', ''a''], NDir 493 0),
     ([''rt'', ''containers'', ''a'', ''rootfs''], NDir 493 0), ([''rt'', ''containers'', ''a'', ''rootfs'', ''f''], NFile 1),
     ([''rt'', ''containers'', ''b''], NDir 493 0), ([''rt'', ''containers'', ''b'', ''rootfs''], NDir 493 0)]"

definition sample_host :: host where
  "sample_host = \<lparr>h_real = id, h_cwd = ''/'', h_readable = (\<lambda>p. True)\<rparr>"

theorem move_loses_nothing_witness:
  "\<exists>t q. do_copy sample_host sample_layout two_devices two_containers ''a:/f'' ''b:/x/g'' True False = Some (None, t)
     \<and> node_at t [''rt'', ''containers'', ''a'', ''rootfs'', ''f''] = None
     \<and> prefix [''rt'', ''containers'', ''b'', ''rootfs''] q \<and> carried two_containers t [''rt'', ''containers'', ''a'', ''rootfs'', ''f''] q"
proof -
  have k: "kind_disk two_devices two_containers"
    by (simp add: kind_disk_def takes_metadata_def honest_holes_def two_devices_def sample_disk_def)
  have r: "resolve_container_path sample_layout (h_real sample_host) (h_cwd sample_host) two_containers ''a:/f'' False = Inr (GuestSide ''a'' [''f''])" by code_simp
  have e: "wf_fs two_containers" "container_from_spec ''b:/x/g'' = Some ''b''" by code_simp+
  have p: "container_path sample_layout ''a'' = [''rt'', ''containers'', ''a'']" "container_path sample_layout ''b'' = [''rt'', ''containers'', ''b'']" by code_simp+
  have "map_option fst (do_copy sample_host sample_layout two_devices two_containers ''a:/f'' ''b:/x/g'' True False) = Some None" by code_simp
  with move_loses_nothing [OF sample_layout_good e(1) k r e(2), of False] p show ?thesis by (fastforce simp: Let_def)
qed

end
