(* ===== verification/Spec2Isabelle.thy ===== *)
theory Spec2Isabelle
  imports Dockerfile_Props Build_Run_Props Build_Confined Locking_Props Kill_Props Login_Print Login_Props Spec_Props Image_Store Clear_Props
    Container_Cmd_Props Image_Remove_Props Copy_Command
begin

text \<open>
  A model of proot-distro (Python, \<open>src/proot_distro/\<close>), the program that keeps Linux root file systems under a user's
  own account, runs them under proot, builds images from Dockerfiles and keeps a cache of image layers. The guests it
  runs share the user's account: every file below a rootfs, and most state files, may be written by them. Most of the
  program is about what such content must not reach, and so are most theorems here.

  \<^bold>\<open>Parts and how they interact.\<close> Every command reads the program's own directories through \<open>statedir.py\<close> and the
  rootfs of a container through \<open>dirfd.py\<close>; it holds the advisory locks of \<open>locking.py\<close> while it works; \<open>login\<close>,
  \<open>run\<close> and the RUN steps of a build start proot and are registered in \<open>session.py\<close>, which \<open>kill\<close> reads. \<open>build\<close>
  parses a Dockerfile, resolves images, captures layers into the cache and replays them; \<open>remove\<close>, \<open>rename\<close>,
  \<open>reset\<close> and \<open>clear-cache\<close> work on containers and the cache.

  \<^bold>\<open>Theories and files.\<close>

  \<^item> Language and standard library: Prelude (strings), Py_Regex, Py_Shlex, Posix_Path, Py_Json, Py_Float, Json_Print and
    Json_Bytes (\<open>re\<close>, \<open>shlex\<close>, \<open>posixpath\<close>, \<open>json\<close>).
  \<^item> Files: Fs_Model and Fs_Steps (the system calls \<open>dirfd.py\<close> makes and what a step may change), Path_Resolve
    (the chroot-like walks of \<open>helpers/tar_extract.py\<close> and \<open>guestfile.py\<close>), Tree_Removal, Walk_Levels (class
    \<open>Levels\<close>), Tree_Walk, Tree_Copy, Copy_Holes, Copy_Steps and Copy_Walk (\<open>copy_tree_at\<close> and what it calls).
  \<^item> The program's own state: State_Dirs (\<open>statedir.py\<close>, \<open>atomic.py\<close>), Container_State and Container_Props
    (containers of \<open>paths.py\<close>), Spec_Paths and Spec_Props (the ends of a transfer, of \<open>paths.py\<close>), Locking and
    Locking_Props (\<open>locking.py\<close>), Session_Registry and Session_Props (\<open>session.py\<close>), Session_Kill and Kill_Props
    (\<open>commands/kill.py\<close>).
  \<^item> Names and references: Names_Quoting (\<open>names.py\<close>, \<open>execenv.py\<close>, \<open>message.py\<close>), Image_Refs
    (\<open>helpers/docker/refs.py\<close>), Arch (\<open>arch.py\<close>).
  \<^item> Archives and layers: Tar_Extract (\<open>helpers/tar_extract.py\<close>, \<open>helpers/docker/layers.py\<close>), Layer_Diff
    (\<open>helpers/layer_diff.py\<close>), Layer_Apply and Layer_Roundtrip (what one makes of the other).
  \<^item> Builds: Dockerfile_Syntax and Dockerfile_Props (\<open>helpers/dockerfile.py\<close>), Build_Parsing, Docker_Ignore,
    Build_Config, Build_Stage, Build_Handlers, Build_Copy, Build_Run and Build_Engine (the modules of
    \<open>helpers/build_engine\<close>), with Handler_Props, Copy_Props, Engine_Props, Build_Confined and Build_Run_Props.
  \<^item> The cache: Image_Cache, Cache_Props and Image_Store (\<open>helpers/docker/cache.py\<close>), Build_Index
    (\<open>helpers/build_cache.py\<close>), Clear_Cache and Clear_Props (\<open>commands/clear_cache.py\<close>), Image_Remove and
    Image_Remove_Props (\<open>commands/remove.py\<close>, images).
  \<^item> Sessions: Login_User, Login_Env, Login_Proot, Login_Command, Login_Print with Login_Env_Props and Login_Props
    (\<open>commands/login\<close>, \<open>commands/run.py\<close>), Rootfs_Files (\<open>helpers/rootfs.py\<close>), Sysdata and Sysdata_Props
    (\<open>sysdata.py\<close>).
  \<^item> Container commands: L2s (\<open>l2s.py\<close>), Container_Commands and Container_Cmd_Props (\<open>remove\<close>, \<open>rename\<close>,
    \<open>reset\<close>), Copy_Move and Copy_Command
    (\<open>commands/copy.py\<close>).

  \<^bold>\<open>State and operations.\<close> A directory descriptor is the path of the directory it was opened as; a file system is a
  table from paths to nodes and a table of inodes, so two names can be one file. An operation of the code is a function
  from the state before to a result and the state after; an exception is a value of a sum or an option. The locks, the
  processes and the sessions stand in a \<open>world\<close> around the files, and what processes and guests do to it is an inductive
  step relation. Names of definitions are those of the code.

  \<^bold>\<open>Interfaces.\<close> \<open>entry_table\<close> is what a table of entries promises the confinement proofs; \<open>flock_laws\<close> what a table
  of advisory locks promises the commands; \<open>engine_rule\<close> what an assertion on the build engine has to satisfy at each
  place where the walk of a Dockerfile changes it, used once for the shape of the image config and once for confinement;
  \<open>ending_walk\<close> when a walk over an explicit stack comes to an end, used for the count and the copy of a tree.

  \<^bold>\<open>What the lemmas show.\<close>

  \<^item> Confinement: extraction, builds, COPY and ADD, logins, rootfs fix-ups, stand-ins for \<open>/proc\<close>, transfers and tree
    copies change entries below the directory they were given only, and write into no inode another name may reach.
  \<^item> Agreement: the optimised or repeated code equals its reference; two walks read links alike; a layer applied to the
    rootfs it was taken from gives the rootfs it was taken to; a tree copy gives the tree.
  \<^item> State: locks exclude one another over every interleaving of processes, forks and deaths; the registry is the set of
    live sessions; what the cache stores it finds, what it hands out matches its digest, what it sweeps nobody names.
  \<^item> Text: references, Dockerfiles, JSON documents and printed command lines come back as they were; expansions follow
    their template; names of the host's loader and of proot never reach a process from an image.
  \<^item> Ends and bounds: walks over trees of any depth end, within the descriptors they may hold; waiting transfers never
    form a circle; modes and times stay in range.

  \<^bold>\<open>Bounds and fuel.\<close> A walk over an explicit stack takes one turn per name and two per level; its fuel is three times
  the entries of the file system and three (two and two where listing a level is no turn of its own), and the theorems
  prove the answer is never \<open>None\<close>. The recursion of a removal is bounded by the deepest path, which no removal
  exceeds. Everything else recurses on data or by a measure. Sizes the code caps (JSON documents, guest files, links
  followed) are constants of the model with the code's values.

  \<^bold>\<open>Assumptions.\<close> \<open>good_layout\<close>: the two roots are absolute normal paths. \<open>wf_fs\<close>: every entry has a directory
  above it and a plain name. \<open>host_ok\<close>, \<open>proot_ok\<close>, \<open>balanced_images\<close>: digests and random names hold no
  separator, a pull writes below the directory it was given, proot changes nothing outside the rootfs it is started on,
  a pulled image records one history entry per layer. \<open>kind_disk\<close>: the file system tells the truth about holes and
  takes modes and times. SHA-256, the random digits, the clock, the environment, \<open>realpath\<close> and the answers of a
  registry are arguments. Characters are those from U+0000 to U+00FF.

  \<^bold>\<open>Not modelled.\<close> The transport to a registry and the downloads, whose behaviour is that of a service behind \<open>urllib\<close>
  and \<open>ssl\<close>; what they store goes through the cache that is modelled. The body of \<open>sync\<close> beyond its ends, locks
  and pins; \<open>backup\<close> and \<open>restore\<close>, which stream through \<open>tarfile\<close> and external
  compressors; the front ends of \<open>install\<close> and \<open>build\<close>; the tables \<open>list\<close>, \<open>ps\<close> and \<open>search\<close> print; the command
  line, help pages, messages and progress bars. Permission bits are recorded and not enforced, so the branches that relax
  a sealed directory are not reached; a directory's time does not follow its contents; extended attributes and owners
  are left out; within one operation no other process changes the files, except where a theorem says what may have
  changed in between.
\<close>

end
